(* ===== verification/Bvstk_Prelude.thy ===== *)
theory Bvstk_Prelude
  imports Main "HOL-Library.Word"
begin

text \<open>
  Shared vocabulary of the development.

  Machine types: \<open>uint8_t\<close>, \<open>uint16_t\<close>, \<open>uint32_t\<close> and \<open>uint64_t\<close> are words of their
  width, so that \<open>+\<close> wraps as in C; \<open>size_t\<close> and \<open>unsigned\<close> loop counters are \<open>nat\<close>
  (every such counter of the code is bounded by a constant far below \<open>2\<^sup>3\<^sup>2\<close>).

  Pointers: a pointer the code compares with \<open>NULL\<close> is an \<open>option\<close>, \<open>None\<close> being \<open>NULL\<close> and
  \<open>Some x\<close> a location that holds \<open>x\<close>; a pointer the code never tests is the value it points
  to. Pointer arithmetic \<open>p + k\<close> on a byte pointer is \<open>drop k p\<close>, and a store through
  \<open>p + k\<close> is \<open>at_offset k\<close>.

  Arrays with a length field are the list of the elements in use. A NUL-terminated
  string is the list of its bytes before the NUL.
\<close>

unbundle bit_operations_syntax

type_synonym u8 = "8 word"
type_synonym u16 = "16 word"
type_synonym u32 = "32 word"
type_synonym u64 = "64 word"
type_synonym bytes = "u8 list"
type_synonym cstr = "u8 list"

named_theorems wf_defs \<open>definitions of the well-formedness predicates of the components\<close>
named_theorems codec_simps \<open>evaluation rules of the wire encodings\<close>

abbreviation ch :: "char \<Rightarrow> u8" where
  "ch \<equiv> of_char"

definition ascii :: "string \<Rightarrow> cstr" where
  "ascii s = map of_char s"

definition at_offset :: "nat \<Rightarrow> ('a list \<Rightarrow> 'a list) \<Rightarrow> 'a list \<Rightarrow> 'a list" where
  "at_offset k f xs = take k xs @ f (drop k xs)"

text \<open>\<open>memcpy(dst, src, n)\<close> on the bytes behind the two pointers.\<close>

definition memcpy :: "'a list \<Rightarrow> 'a list \<Rightarrow> nat \<Rightarrow> 'a list" where
  "memcpy dst src n = take n src @ drop n dst"

subsection \<open>Lists\<close>

lemma length_at_offset [simp]:
  assumes "\<And>ys. length (f ys) = length ys"
  shows "length (at_offset k f xs) = length xs"
  by (simp add: at_offset_def assms)

lemma at_offset_append:
  "length xs = k \<Longrightarrow> at_offset k f (xs @ ys) = xs @ f ys"
  by (simp add: at_offset_def)

lemma length_ge_2E:
  assumes "2 \<le> length xs"
  obtains a b rest where "xs = a # b # rest"
  using assms by (auto simp: numeral_eq_Suc Suc_le_length_iff)

lemma length_ge_4E:
  assumes "4 \<le> length xs"
  obtains a b c d rest where "xs = a # b # c # d # rest"
  using assms by (auto simp: numeral_eq_Suc Suc_le_length_iff)

lemma filter_drop_Suc:
  assumes "k < length xs"
  shows "filter P (drop k xs) =
    (if P (xs ! k) then xs ! k # filter P (drop (Suc k) xs) else filter P (drop (Suc k) xs))"
  using assms by (simp add: Cons_nth_drop_Suc [symmetric])

lemma list_update_map_id:
  assumes "i < length xs" and "\<And>j. j < length xs \<Longrightarrow> j \<noteq> i \<Longrightarrow> f (xs ! j) = xs ! j"
  shows "map f xs = xs[i := f (xs ! i)]"
  using assms by (intro nth_equalityI) (auto simp: nth_list_update)

lemma list_all_update:
  "list_all P xs \<Longrightarrow> P x \<Longrightarrow> list_all P (xs[i := x])"
  by (auto simp: list_all_iff dest!: set_update_subset_insert [THEN subsetD])

lemma list_all_nthD: "list_all P xs \<Longrightarrow> i < length xs \<Longrightarrow> P (xs ! i)"
  by (simp add: list_all_length)

lemma distinct_map_update:
  assumes "i < length xs" and "f x = f (xs ! i)"
  shows "map f (xs[i := x]) = map f xs"
  using assms by (simp add: map_update list_update_same_conv)

subsection \<open>Words\<close>

lemma unat_of_nat_small: "n < 2 ^ LENGTH('a) \<Longrightarrow> unat (of_nat n :: 'a::len word) = n"
  by (simp add: unat_of_nat take_bit_nat_eq_self)

lemma unat_plus_one: "unat (x :: 'a::len word) + 1 < 2 ^ LENGTH('a) \<Longrightarrow> unat (x + 1) = Suc (unat x)"
  by (simp add: unat_word_ariths)

lemma unat_minus_le: "(y :: 'a::len word) \<le> x \<Longrightarrow> unat (x - y) = unat x - unat y"
  by (simp add: unat_sub)

lemma unat_less_two_power: "unat (x :: 'a::len word) < 2 ^ LENGTH('a)"
  by (rule unsigned_less)

lemma unat_u8_less [simp]: "unat (x :: u8) < 256"
  using unsigned_less [of x] by simp

lemma unat_u16_less [simp]: "unat (x :: u16) < 65536"
  using unsigned_less [of x] by simp

lemma unat_u8_le [simp]: "unat (x :: u8) \<le> 255"
  using unat_u8_less [of x] by linarith

lemma word_zero_unat: "(x :: 'a::len word) = 0 \<longleftrightarrow> unat x = 0"
  by (simp add: unat_eq_zero)

lemma unat_len_u64: "n < 2 ^ 64 \<Longrightarrow> unat (of_nat n :: u64) = n"
  by (rule unat_of_nat_small) simp

lemma of_nat_u64_eq_iff:
  "m < 2 ^ 64 \<Longrightarrow> n < 2 ^ 64 \<Longrightarrow> (of_nat m :: u64) = of_nat n \<longleftrightarrow> m = n"
  by (metis unat_len_u64)

end
