(* ===== verification/Bvstk_Status.thy ===== *)
theory Bvstk_Status
  imports Bvstk_Prelude
begin

text \<open>
  The status codes every component returns (\<open>src/shared/base/bvstk_status.h\<close>) and the
  endianness helpers of \<open>src/shared/base/bvstk_parse.c\<close>.
\<close>

datatype bvstk_status_t =
    BVSTK_OK
  | BVSTK_ERR_MALFORMED
  | BVSTK_ERR_UNSUPPORTED
  | BVSTK_ERR_DENIED
  | BVSTK_ERR_BUSY
  | BVSTK_ERR_TIMEOUT
  | BVSTK_ERR_RANGE
  | BVSTK_ERR_NOT_READY
  | BVSTK_ERR_NOT_FOUND
  | BVSTK_ERR_IO
  | BVSTK_ERR_INTERNAL

text \<open>The numeric value of a status, as in the cast \<open>(uint16_t)status\<close>.\<close>

fun status_code :: "bvstk_status_t \<Rightarrow> u16" where
  "status_code BVSTK_OK = 0"
| "status_code BVSTK_ERR_MALFORMED = 1"
| "status_code BVSTK_ERR_UNSUPPORTED = 2"
| "status_code BVSTK_ERR_DENIED = 3"
| "status_code BVSTK_ERR_BUSY = 4"
| "status_code BVSTK_ERR_TIMEOUT = 5"
| "status_code BVSTK_ERR_RANGE = 6"
| "status_code BVSTK_ERR_NOT_READY = 7"
| "status_code BVSTK_ERR_NOT_FOUND = 8"
| "status_code BVSTK_ERR_IO = 9"
| "status_code BVSTK_ERR_INTERNAL = 10"

fun bvstk_status_string :: "bvstk_status_t \<Rightarrow> string" where
  "bvstk_status_string BVSTK_OK = ''ok''"
| "bvstk_status_string BVSTK_ERR_MALFORMED = ''malformed''"
| "bvstk_status_string BVSTK_ERR_UNSUPPORTED = ''unsupported''"
| "bvstk_status_string BVSTK_ERR_DENIED = ''denied''"
| "bvstk_status_string BVSTK_ERR_BUSY = ''busy''"
| "bvstk_status_string BVSTK_ERR_TIMEOUT = ''timeout''"
| "bvstk_status_string BVSTK_ERR_RANGE = ''range''"
| "bvstk_status_string BVSTK_ERR_NOT_READY = ''not-ready''"
| "bvstk_status_string BVSTK_ERR_NOT_FOUND = ''not-found''"
| "bvstk_status_string BVSTK_ERR_IO = ''io''"
| "bvstk_status_string BVSTK_ERR_INTERNAL = ''internal''"

definition swap_endianness_16 :: "u16 \<Rightarrow> u16" where
  "swap_endianness_16 value = (drop_bit 8 value) OR (push_bit 8 value)"

definition swap_endianness_32 :: "u32 \<Rightarrow> u32" where
  "swap_endianness_32 value =
     (drop_bit 24 value AND 0x000000FF) OR
     (drop_bit 8 value AND 0x0000FF00) OR
     (push_bit 8 value AND 0x00FF0000) OR
     (push_bit 24 value AND 0xFF000000)"

definition swap_endianness_64 :: "u64 \<Rightarrow> u64" where
  "swap_endianness_64 value =
     (drop_bit 56 value AND 0x00000000000000FF) OR
     (drop_bit 40 value AND 0x000000000000FF00) OR
     (drop_bit 24 value AND 0x0000000000FF0000) OR
     (drop_bit 8 value AND 0x00000000FF000000) OR
     (push_bit 8 value AND 0x000000FF00000000) OR
     (push_bit 24 value AND 0x0000FF0000000000) OR
     (push_bit 40 value AND 0x00FF000000000000) OR
     (push_bit 56 value AND 0xFF00000000000000)"

lemma status_code_inj [simp]: "status_code a = status_code b \<longleftrightarrow> a = b"
  by (cases a; cases b) simp_all

lemma swap_endianness_16_swap: "swap_endianness_16 (swap_endianness_16 v) = v"
  unfolding swap_endianness_16_def
proof (rule bit_word_eqI)
  fix n assume "n < LENGTH(16)"
  then show "bit (drop_bit 8 (drop_bit 8 v OR push_bit 8 v) OR
      push_bit 8 (drop_bit 8 v OR push_bit 8 v)) n = bit v n"
    by (cases "n < 8") (auto simp: bit_simps)
qed

end
