(* ===== verification/Dcp2_Codec.thy ===== *)
theory Dcp2_Codec
  imports Bvstk_Status
begin

text \<open>
  The DCP2 frame codec of \<open>src/protocols/dcp2/bvstk_dcp2_codec.c\<close>: big-endian fields, the
  request decoder and the response encoder, with the interface \<open>be_codec\<close> the field
  encodings satisfy. A request frame is a magic, a version, a payload length, and a payload
  of service, opcode, sequence and body; a response adds a status before the body.
\<close>

abbreviation (input) BVSTK_DCP2_VERSION :: u16 where "BVSTK_DCP2_VERSION \<equiv> 2"
abbreviation (input) BVSTK_DCP2_HEADER_SIZE :: nat where "BVSTK_DCP2_HEADER_SIZE \<equiv> 8"
abbreviation (input) BVSTK_DCP2_MIN_PAYLOAD :: nat where "BVSTK_DCP2_MIN_PAYLOAD \<equiv> 4"
abbreviation (input) BVSTK_DCP2_MAX_PAYLOAD :: nat where "BVSTK_DCP2_MAX_PAYLOAD \<equiv> 4096"
abbreviation (input) BVSTK_DCP2_OP_RESPONSE :: u8 where "BVSTK_DCP2_OP_RESPONSE \<equiv> 0x80"
abbreviation (input) BVSTK_DCP2_OP_EVENT :: u8 where "BVSTK_DCP2_OP_EVENT \<equiv> 0x40"
abbreviation (input) BVSTK_DCP2_OP_MASK :: u8 where "BVSTK_DCP2_OP_MASK \<equiv> 0x3F"

record bvstk_dcp2_request_t =
  rq_service :: u8
  rq_opcode :: u8
  rq_sequence :: u16
  rq_body :: "bytes option"
  rq_body_size :: u16

section \<open>Big-endian fields\<close>

definition bvstk_dcp2_read_be16 :: "bytes option \<Rightarrow> u16" where
  "bvstk_dcp2_read_be16 data =
     (case data of None \<Rightarrow> 0
      | Some d \<Rightarrow> push_bit 8 (ucast (d ! 0)) OR ucast (d ! 1))"

definition bvstk_dcp2_read_be32 :: "bytes option \<Rightarrow> u32" where
  "bvstk_dcp2_read_be32 data =
     (case data of None \<Rightarrow> 0
      | Some d \<Rightarrow> push_bit 24 (ucast (d ! 0)) OR push_bit 16 (ucast (d ! 1)) OR
          push_bit 8 (ucast (d ! 2)) OR ucast (d ! 3))"

definition bvstk_dcp2_write_be16 :: "bytes option \<Rightarrow> u16 \<Rightarrow> bytes option" where
  "bvstk_dcp2_write_be16 data value =
     (case data of None \<Rightarrow> None
      | Some d \<Rightarrow> Some (d[0 := ucast (drop_bit 8 value), 1 := ucast value]))"

definition bvstk_dcp2_write_be32 :: "bytes option \<Rightarrow> u32 \<Rightarrow> bytes option" where
  "bvstk_dcp2_write_be32 data value =
     (case data of None \<Rightarrow> None
      | Some d \<Rightarrow> Some (d[0 := ucast (drop_bit 24 value), 1 := ucast (drop_bit 16 value),
          2 := ucast (drop_bit 8 value), 3 := ucast value]))"

text \<open>Fields read and written through a pointer that is not \<open>NULL\<close>.\<close>

definition get16 :: "bytes \<Rightarrow> u16" where
  "get16 d = bvstk_dcp2_read_be16 (Some d)"

definition get32 :: "bytes \<Rightarrow> u32" where
  "get32 d = bvstk_dcp2_read_be32 (Some d)"

definition put16 :: "bytes \<Rightarrow> u16 \<Rightarrow> bytes" where
  "put16 d v = the (bvstk_dcp2_write_be16 (Some d) v)"

definition put32 :: "bytes \<Rightarrow> u32 \<Rightarrow> bytes" where
  "put32 d v = the (bvstk_dcp2_write_be32 (Some d) v)"

text \<open>The bytes of a field, most significant first.\<close>

definition be16 :: "u16 \<Rightarrow> bytes" where
  "be16 v = [ucast (drop_bit 8 v), ucast v]"

definition be32 :: "u32 \<Rightarrow> bytes" where
  "be32 v = [ucast (drop_bit 24 v), ucast (drop_bit 16 v), ucast (drop_bit 8 v), ucast v]"

definition be64 :: "u64 \<Rightarrow> bytes" where
  "be64 v = be32 (ucast (drop_bit 32 v)) @ be32 (ucast v)"

text \<open>
  The interface of a fixed-width field: \<open>wr\<close> stores a value at the front of a buffer,
  \<open>rd\<close> loads it back, \<open>enc\<close> is the byte string both agree on.
\<close>

locale be_codec =
  fixes width :: nat
    and wr :: "bytes \<Rightarrow> 'v \<Rightarrow> bytes"
    and rd :: "bytes \<Rightarrow> 'v"
    and enc :: "'v \<Rightarrow> bytes"
  assumes length_enc: "length (enc v) = width"
    and rd_enc: "rd (enc v @ rest) = v"
    and enc_rd: "width \<le> length bs \<Longrightarrow> enc (rd bs) = take width bs"
    and wr_enc: "width \<le> length data \<Longrightarrow> wr data v = enc v @ drop width data"
begin

lemma rd_wr: "width \<le> length data \<Longrightarrow> rd (wr data v) = v"
  by (simp add: wr_enc rd_enc)

lemma length_wr: "width \<le> length data \<Longrightarrow> length (wr data v) = length data"
  by (simp add: wr_enc length_enc)

lemma enc_inj: "enc v = enc w \<longleftrightarrow> v = w"
  by (metis rd_enc)

lemma at_offset_wr:
  "k + width \<le> length data \<Longrightarrow>
   at_offset k (\<lambda>p. wr p v) data = take k data @ enc v @ drop (k + width) data"
  by (simp add: at_offset_def wr_enc add.commute)

lemma rd_at_offset_wr:
  "k + width \<le> length data \<Longrightarrow> rd (drop k (at_offset k (\<lambda>p. wr p v) data)) = v"
  by (simp add: at_offset_wr rd_enc)

lemma rd_iff_enc: "width \<le> length bs \<Longrightarrow> rd bs = v \<longleftrightarrow> take width bs = enc v"
  by (metis enc_inj enc_rd)

end

lemma read_be16_be16: "get16 (be16 v @ rest) = v"
  by (rule bit_word_eqI) (auto simp: get16_def bvstk_dcp2_read_be16_def be16_def bit_simps not_less)

lemma be16_read_be16:
  assumes "2 \<le> length bs"
  shows "be16 (get16 bs) = take 2 bs"
proof -
  obtain a b rest where bs: "bs = a # b # rest" using assms by (rule length_ge_2E)
  have "ucast (drop_bit 8 (push_bit 8 (ucast a) OR ucast b :: u16)) = a"
    by (rule bit_word_eqI) (auto simp: bit_simps dest: bit_imp_le_length)
  moreover have "ucast (push_bit 8 (ucast a) OR ucast b :: u16) = b"
    by (rule bit_word_eqI) (auto simp: bit_simps)
  ultimately show ?thesis
    by (simp add: bs be16_def get16_def bvstk_dcp2_read_be16_def)
qed

lemma put16_eq: "2 \<le> length data \<Longrightarrow> put16 data v = be16 v @ drop 2 data"
  by (erule length_ge_2E) (simp add: be16_def put16_def bvstk_dcp2_write_be16_def)

interpretation be16: be_codec 2 put16 get16 be16
  by unfold_locales (simp_all add: read_be16_be16 be16_read_be16 put16_eq, simp add: be16_def)

lemma read_be32_be32: "get32 (be32 v @ rest) = v"
proof (rule bit_word_eqI)
  fix n assume "n < LENGTH(32)"
  then show "bit (get32 (be32 v @ rest)) n = bit v n"
    by (cases "n < 8"; cases "n < 16"; cases "n < 24")
      (auto simp: get32_def bvstk_dcp2_read_be32_def be32_def bit_simps)
qed

lemma be32_read_be32:
  assumes "4 \<le> length bs"
  shows "be32 (get32 bs) = take 4 bs"
proof -
  obtain a b c d rest where bs: "bs = a # b # c # d # rest" using assms by (rule length_ge_4E)
  let ?v = "push_bit 24 (ucast a) OR push_bit 16 (ucast b) OR push_bit 8 (ucast c) OR ucast d :: u32"
  have "ucast (drop_bit 24 ?v) = a" and "ucast (drop_bit 16 ?v) = b"
    and "ucast (drop_bit 8 ?v) = c" and "ucast ?v = d"
    by (rule bit_word_eqI, auto simp: bit_simps dest: bit_imp_le_length)+
  then show ?thesis
    by (simp add: bs be32_def get32_def bvstk_dcp2_read_be32_def numeral_eq_Suc)
qed

lemma put32_eq: "4 \<le> length data \<Longrightarrow> put32 data v = be32 v @ drop 4 data"
  by (erule length_ge_4E) (simp add: be32_def put32_def bvstk_dcp2_write_be32_def numeral_eq_Suc)

interpretation be32: be_codec 4 put32 get32 be32
  by unfold_locales (simp_all add: read_be32_be32 be32_read_be32 put32_eq, simp add: be32_def)

lemmas [simp, codec_simps] = be16.length_enc be32.length_enc

lemma length_be64 [simp, codec_simps]: "length (be64 v) = 8"
  by (simp add: be64_def)

definition put64 :: "bytes \<Rightarrow> u64 \<Rightarrow> bytes" where
  "put64 p v = at_offset 4 (\<lambda>q. put32 q (ucast v)) (put32 p (ucast (drop_bit 32 v)))"

text \<open>The reader of a 64-bit field on the other side of the wire.\<close>

definition get64 :: "bytes \<Rightarrow> u64" where
  "get64 p = push_bit 32 (ucast (get32 p)) OR ucast (get32 (drop 4 p))"

lemma put64_eq: "8 \<le> length data \<Longrightarrow> put64 data v = be64 v @ drop 8 data"
  by (simp add: put64_def put32_eq be64_def at_offset_append)

lemma word_split_join64:
  "push_bit 32 (ucast (ucast (drop_bit 32 v) :: u32)) OR ucast (ucast v :: u32) = (v :: u64)"
  by (rule bit_word_eqI) (auto simp: bit_simps not_less)

lemma get64_be64: "get64 (be64 v @ rest) = v"
  by (simp add: get64_def be64_def be32.rd_enc word_split_join64)

lemma be64_get64:
  assumes "8 \<le> length bs"
  shows "be64 (get64 bs) = take 8 bs"
proof -
  let ?h = "get32 bs" and ?l = "get32 (drop 4 bs)"
  have "ucast (drop_bit 32 (push_bit 32 (ucast ?h) OR ucast ?l :: u64)) = ?h"
    by (rule bit_word_eqI) (auto simp: bit_simps dest: bit_imp_le_length)
  moreover have "ucast (push_bit 32 (ucast ?h) OR ucast ?l :: u64) = ?l"
    by (rule bit_word_eqI) (auto simp: bit_simps)
  moreover have "take 4 bs @ take 4 (drop 4 bs) = take 8 bs"
    using take_add [of 4 4 bs] by simp
  ultimately show ?thesis
    using assms by (simp add: get64_def be64_def be32.enc_rd)
qed

interpretation be64: be_codec 8 put64 get64 be64
  by unfold_locales (simp_all add: get64_be64 be64_get64 put64_eq)

section \<open>Frames\<close>

definition bvstk_dcp2_decode_request ::
  "bytes option \<Rightarrow> nat \<Rightarrow> bvstk_dcp2_request_t option \<Rightarrow> int \<times> bvstk_dcp2_request_t option" where
  "bvstk_dcp2_decode_request frame frame_size request =
    (case (frame, request) of
       (Some f, Some _) \<Rightarrow>
         if frame_size < BVSTK_DCP2_HEADER_SIZE + BVSTK_DCP2_MIN_PAYLOAD \<or>
            f ! 0 \<noteq> ch CHR ''D'' \<or> f ! 1 \<noteq> ch CHR ''C'' \<or> f ! 2 \<noteq> ch CHR ''P'' \<or> f ! 3 \<noteq> ch CHR ''2''
         then (-1, request)
         else if get16 (drop 4 f) \<noteq> BVSTK_DCP2_VERSION then (-1, request)
         else let payload_size = get16 (drop 6 f) in
           if unat payload_size < BVSTK_DCP2_MIN_PAYLOAD \<or>
              unat payload_size > BVSTK_DCP2_MAX_PAYLOAD \<or>
              frame_size \<noteq> BVSTK_DCP2_HEADER_SIZE + unat payload_size
           then (-1, request)
           else let operation = f ! 9 in
             if operation AND (BVSTK_DCP2_OP_RESPONSE OR BVSTK_DCP2_OP_EVENT) \<noteq> 0 \<or>
                get16 (drop 10 f) = 0
             then (-1, request)
             else (0, Some \<lparr> rq_service = f ! 8, rq_opcode = operation AND BVSTK_DCP2_OP_MASK,
                        rq_sequence = get16 (drop 10 f), rq_body = Some (drop 12 f),
                        rq_body_size = payload_size - of_nat BVSTK_DCP2_MIN_PAYLOAD \<rparr>)
     | _ \<Rightarrow> (-1, request))"

definition bvstk_dcp2_encode_response ::
  "bytes option \<Rightarrow> nat \<Rightarrow> bvstk_dcp2_request_t option \<Rightarrow> u16 \<Rightarrow> bytes option \<Rightarrow> u16 \<Rightarrow> nat option \<Rightarrow>
   int \<times> bytes option \<times> nat option" where
  "bvstk_dcp2_encode_response frame frame_capacity request status body body_size frame_size =
    (case (frame, request) of
       (Some f, Some rq) \<Rightarrow>
         if body_size \<noteq> 0 \<and> body = None then (-1, frame, frame_size)
         else let payload_size = of_nat BVSTK_DCP2_MIN_PAYLOAD + 2 + body_size;
                  total_size = BVSTK_DCP2_HEADER_SIZE + unat payload_size in
           if unat body_size > BVSTK_DCP2_MAX_PAYLOAD - 6 \<or> frame_capacity < total_size
           then (-1, frame, frame_size)
           else let f1 = f[0 := ch CHR ''D'', 1 := ch CHR ''C'', 2 := ch CHR ''P'', 3 := ch CHR ''2''];
                    f2 = at_offset 4 (\<lambda>p. put16 p BVSTK_DCP2_VERSION) f1;
                    f3 = at_offset 6 (\<lambda>p. put16 p payload_size) f2;
                    f4 = f3[8 := rq_service rq,
                            9 := BVSTK_DCP2_OP_RESPONSE OR (rq_opcode rq AND BVSTK_DCP2_OP_MASK)];
                    f5 = at_offset 10 (\<lambda>p. put16 p (rq_sequence rq)) f4;
                    f6 = at_offset 12 (\<lambda>p. put16 p status) f5;
                    f7 = (if body_size \<noteq> 0
                          then at_offset 14 (\<lambda>p. memcpy p (the body) (unat body_size)) f6 else f6)
                in (0, Some f7, map_option (\<lambda>_. total_size) frame_size)
     | _ \<Rightarrow> (-1, frame, frame_size))"

fun bvstk_dcp2_status_from_bvstk :: "bvstk_status_t \<Rightarrow> u16" where
  "bvstk_dcp2_status_from_bvstk BVSTK_OK = 0x0000"
| "bvstk_dcp2_status_from_bvstk BVSTK_ERR_MALFORMED = 0x0001"
| "bvstk_dcp2_status_from_bvstk BVSTK_ERR_UNSUPPORTED = 0x0002"
| "bvstk_dcp2_status_from_bvstk BVSTK_ERR_DENIED = 0x0003"
| "bvstk_dcp2_status_from_bvstk BVSTK_ERR_BUSY = 0x0004"
| "bvstk_dcp2_status_from_bvstk BVSTK_ERR_TIMEOUT = 0x0005"
| "bvstk_dcp2_status_from_bvstk BVSTK_ERR_RANGE = 0x0006"
| "bvstk_dcp2_status_from_bvstk _ = 0x0007"

text \<open>
  What a peer puts on the wire: a request frame, and the response frame it expects back.
\<close>

definition magic :: bytes where
  "magic = ascii ''DCP2''"

definition request_frame :: "u8 \<Rightarrow> u8 \<Rightarrow> u16 \<Rightarrow> bytes \<Rightarrow> bytes" where
  "request_frame service opcode sequence body =
     magic @ be16 2 @ be16 (of_nat (4 + length body)) @ [service, opcode] @ be16 sequence @ body"

definition response_frame :: "u8 \<Rightarrow> u8 \<Rightarrow> u16 \<Rightarrow> u16 \<Rightarrow> bytes \<Rightarrow> bytes" where
  "response_frame service opcode sequence status body =
     magic @ be16 2 @ be16 (of_nat (6 + length body)) @ [service, 0x80 OR opcode] @
     be16 sequence @ be16 status @ body"

section \<open>Correctness of the frames\<close>

lemma magic_eq: "magic = [0x44, 0x43, 0x50, 0x32]"
  by (simp add: magic_def ascii_def)

lemma length_request_frame [simp]: "length (request_frame service opcode sequence body) = 12 + length body"
  by (simp add: request_frame_def magic_eq)

lemma and_not_mask:
  assumes "op AND m = 0"
  shows "op AND NOT m = (op :: 'a::len word)"
proof (rule bit_word_eqI)
  fix n assume "n < LENGTH('a)"
  moreover have "\<not> bit (op AND m) n" using assms by simp
  ultimately show "bit (op AND NOT m) n = bit op n" by (auto simp: bit_and_iff bit_not_iff)
qed

lemma opcode_mask:
  assumes "op AND 0xC0 = 0"
  shows "op AND 0x3F = (op :: u8)"
proof -
  have "(0x3F :: u8) = NOT 0xC0" by simp
  then show ?thesis by (simp only: and_not_mask [OF assms])
qed

lemma response_bit: "(0x80 OR op) AND 0xC0 \<noteq> (0 :: u8)"
proof
  assume "(0x80 OR op) AND 0xC0 = (0 :: u8)"
  moreover have "bit ((0x80 OR op) AND (0xC0 :: u8)) 7" by (simp add: bit_simps)
  ultimately show False by simp
qed

lemma list12E:
  assumes "12 \<le> length f"
  obtains a0 a1 a2 a3 a4 a5 a6 a7 a8 a9 a10 a11 rest
  where "f = [a0, a1, a2, a3, a4, a5, a6, a7, a8, a9, a10, a11] @ rest"
  using assms by (auto simp: numeral_eq_Suc Suc_le_length_iff)

lemma decode_request_frame:
  assumes "length body \<le> 4092" and "opcode AND 0xC0 = 0" and "sequence \<noteq> 0"
  shows "bvstk_dcp2_decode_request (Some (request_frame service opcode sequence body))
     (12 + length body) (Some r0) =
   (0, Some \<lparr> rq_service = service, rq_opcode = opcode, rq_sequence = sequence,
        rq_body = Some body, rq_body_size = of_nat (length body) \<rparr>)"
proof -
  have sz: "unat (of_nat (4 + length body) :: u16) = 4 + length body"
    using assms(1) by (intro unat_of_nat_small) simp
  have g6: "get16 (drop 6 (request_frame service opcode sequence body)) = of_nat (4 + length body)"
    by (simp add: request_frame_def magic_eq be16.rd_enc)
  have g4: "get16 (drop 4 (request_frame service opcode sequence body)) = 2"
    by (simp add: request_frame_def magic_eq be16.rd_enc)
  have g10: "get16 (drop 10 (request_frame service opcode sequence body)) = sequence"
    by (simp add: request_frame_def magic_eq be16.rd_enc)
  have d12: "drop 12 (request_frame service opcode sequence body) = body"
    by (simp add: request_frame_def magic_eq)
  have nth: "request_frame service opcode sequence body ! 9 = opcode" "request_frame service opcode sequence body ! 8 = service"
    by (simp_all add: request_frame_def magic_eq be16_def)
  show ?thesis
    using assms opcode_mask [OF assms(2)] sz g6 g4 g10 d12 nth
    apply (simp add: bvstk_dcp2_decode_request_def Let_def)
    apply (simp add: request_frame_def magic_eq)
    done
qed
lemma decode_request_OK_frame:
  assumes len: "length f = n"
    and ok: "bvstk_dcp2_decode_request (Some f) n (Some r0) = (0, Some r)"
  shows "f = request_frame (rq_service r) (rq_opcode r) (rq_sequence r) (the (rq_body r))"
    and "length (the (rq_body r)) \<le> 4092" and "rq_opcode r AND 0xC0 = 0" and "rq_sequence r \<noteq> 0"
proof -
  have n12: "12 \<le> length f" using ok len
    by (auto simp: bvstk_dcp2_decode_request_def Let_def split: if_splits)
  then obtain a0 a1 a2 a3 a4 a5 a6 a7 a8 a9 a10 a11 rest
    where f: "f = [a0, a1, a2, a3, a4, a5, a6, a7, a8, a9, a10, a11] @ rest"
    by (rule list12E)
  have r: "r = \<lparr> rq_service = a8, rq_opcode = a9 AND 0x3F, rq_sequence = get16 (a10 # a11 # rest),
      rq_body = Some rest, rq_body_size = get16 (a6 # a7 # a8 # a9 # a10 # a11 # rest) - 4 \<rparr>"
    and m: "[a0, a1, a2, a3] = magic"
    and v: "get16 (a4 # a5 # a6 # a7 # a8 # a9 # a10 # a11 # rest) = 2"
    and sz: "12 + length rest = 8 + unat (get16 (a6 # a7 # a8 # a9 # a10 # a11 # rest))"
    and le: "unat (get16 (a6 # a7 # a8 # a9 # a10 # a11 # rest)) \<le> 4096"
    and op: "a9 AND 0xC0 = 0" and seq: "get16 (a10 # a11 # rest) \<noteq> 0"
    using ok len by (auto simp: f bvstk_dcp2_decode_request_def magic_eq Let_def split: if_splits)
  have "be16 2 = [a4, a5]" using be16.enc_rd [of "a4 # a5 # a6 # a7 # a8 # a9 # a10 # a11 # rest"] v by simp
  moreover have "be16 (of_nat (4 + length rest)) = [a6, a7]"
  proof -
    have "4 + length rest = unat (get16 (a6 # a7 # a8 # a9 # a10 # a11 # rest))"
      using sz by simp
    then have "of_nat (4 + length rest) = get16 (a6 # a7 # a8 # a9 # a10 # a11 # rest)"
      by (metis of_nat_unat ucast_id)
    then show ?thesis using be16.enc_rd [of "a6 # a7 # a8 # a9 # a10 # a11 # rest"] by simp
  qed
  moreover have "be16 (get16 (a10 # a11 # rest)) = [a10, a11]"
    using be16.enc_rd [of "a10 # a11 # rest"] by simp
  ultimately show "f = request_frame (rq_service r) (rq_opcode r) (rq_sequence r) (the (rq_body r))"
    by (simp add: f r request_frame_def m [symmetric] opcode_mask [OF op])
  show "length (the (rq_body r)) \<le> 4092" using sz le by (simp add: r)
  show "rq_opcode r AND 0xC0 = 0" using op by (simp add: r opcode_mask)
  show "rq_sequence r \<noteq> 0" using seq by (simp add: r)
qed

lemma encode_response_ok:
  assumes "length f = cap" and "length body = unat body_size" and "unat body_size \<le> 4090"
    and "14 + unat body_size \<le> cap"
  shows "bvstk_dcp2_encode_response (Some f) cap (Some rq) status (Some body) body_size (Some sz0) =
    (0, Some (response_frame (rq_service rq) (rq_opcode rq AND 0x3F) (rq_sequence rq) status body @
              drop (14 + unat body_size) f), Some (14 + unat body_size))"
proof -
  have cap: "12 \<le> length f" using assms by simp
  then obtain a0 a1 a2 a3 a4 a5 a6 a7 a8 a9 a10 a11 rest
    where f: "f = [a0, a1, a2, a3, a4, a5, a6, a7, a8, a9, a10, a11] @ rest"
    by (rule list12E)
  have r2: "2 \<le> length rest" using assms f by simp
  then obtain b0 b1 r where rest: "rest = b0 # b1 # r" by (rule length_ge_2E)
  have pl: "(4 + 2 + body_size :: u16) = of_nat (6 + length body)"
    using assms(2) by simp
  have un: "unat (4 + 2 + body_size :: u16) = 6 + unat body_size"
    unfolding pl using assms by (subst unat_of_nat_small) simp_all
  have put: "put16 (x # y # zs) v = ucast (drop_bit 8 v) # ucast v # zs" for x y zs v
    by (simp add: put16_eq be16_def)
  have d: "drop (14 + m) (a0 # a1 # a2 # a3 # a4 # a5 # a6 # a7 # a8 # a9 # a10 # a11 # b0 # b1 # r) =
      drop m r" for m
    by (simp add: numeral_eq_Suc)
  have e: "body_size = 0 \<longrightarrow> body = []" using assms(2) by auto
  have "length r = cap - 14" using assms f rest by simp
  with assms un e show ?thesis
    by (simp add: bvstk_dcp2_encode_response_def Let_def f rest at_offset_def put memcpy_def
        response_frame_def magic_eq be16_def pl d)
qed
text \<open>C4: The request decoder inverts the framing exactly: it accepts a buffer if and only if the
  buffer is a request frame with a body of at most 4092 bytes, an opcode without the response
  and event bits and a nonzero sequence, and it returns the fields of that frame.\<close>

theorem decode_request_exact:
  assumes "length f = n"
  shows "bvstk_dcp2_decode_request (Some f) n (Some r0) = (0, Some r) \<longleftrightarrow>
    (\<exists>service opcode sequence body.
       f = request_frame service opcode sequence body \<and> length body \<le> 4092 \<and>
       opcode AND 0xC0 = 0 \<and> sequence \<noteq> 0 \<and>
       r = \<lparr> rq_service = service, rq_opcode = opcode, rq_sequence = sequence,
             rq_body = Some body, rq_body_size = of_nat (length body) \<rparr>)"
    (is "?L \<longleftrightarrow> ?R")
proof
  assume ?L
  note fr = decode_request_OK_frame [OF assms this]
  let ?b = "the (rq_body r)"
  have "n = 12 + length ?b" using assms fr(1) length_request_frame by metis
  then have "bvstk_dcp2_decode_request (Some f) n (Some r0) =
    (0, Some \<lparr> rq_service = rq_service r, rq_opcode = rq_opcode r, rq_sequence = rq_sequence r,
        rq_body = Some ?b, rq_body_size = of_nat (length ?b) \<rparr>)"
    using decode_request_frame [OF fr(2,3,4), of "rq_service r" r0] fr(1) by simp
  with \<open>?L\<close> have "r = \<lparr> rq_service = rq_service r, rq_opcode = rq_opcode r,
      rq_sequence = rq_sequence r, rq_body = Some ?b, rq_body_size = of_nat (length ?b) \<rparr>"
    by simp
  with fr show ?R by blast
next
  assume ?R
  then show ?L using assms decode_request_frame by auto
qed

theorem decode_request_exact_witness:
  "\<exists>r. bvstk_dcp2_decode_request (Some (request_frame 2 0 7 [0x50, 1])) 14
      (Some \<lparr> rq_service = 0, rq_opcode = 0, rq_sequence = 0, rq_body = None, rq_body_size = 0 \<rparr>) =
    (0, Some r) \<and> rq_sequence r = 7"
proof -
  have len: "length (request_frame 2 0 7 [0x50, 1]) = 14"
    by simp
  show ?thesis
    unfolding decode_request_exact [OF len] by fastforce
qed

text \<open>The response encoder writes the response frame of the request and leaves the rest of the
  buffer alone when the body is at most 4090 bytes and the frame fits the capacity; in every
  other case it fails and writes nothing, also when the 16-bit payload size would wrap.\<close>

theorem encode_response_spec:
  assumes "length f = cap" and "length body = unat body_size"
  shows "bvstk_dcp2_encode_response (Some f) cap (Some rq) status (Some body) body_size (Some sz0) =
    (if unat body_size \<le> 4090 \<and> 14 + unat body_size \<le> cap
     then (0, Some (response_frame (rq_service rq) (rq_opcode rq AND 0x3F) (rq_sequence rq) status body @
                    drop (14 + unat body_size) f), Some (14 + unat body_size))
     else (-1, Some f, Some sz0))"
proof (cases "unat body_size \<le> 4090")
  case True
  have "(4 + 2 + body_size :: u16) = of_nat (6 + unat body_size)" by simp
  then have "unat (6 + body_size :: u16) = 6 + unat body_size"
    using True by (simp only: numeral_plus_numeral semiring_norm) (subst unat_of_nat_small, simp_all)
  then show ?thesis
    using True encode_response_ok [OF assms True]
    by (auto simp: bvstk_dcp2_encode_response_def Let_def)
next
  case False
  then show ?thesis by (simp add: bvstk_dcp2_encode_response_def Let_def)
qed

theorem encode_response_spec_witness:
  "bvstk_dcp2_encode_response (Some (replicate 16 0)) 16
     (Some \<lparr> rq_service = 2, rq_opcode = 1, rq_sequence = 7, rq_body = None, rq_body_size = 0 \<rparr>)
     0 (Some [9]) 1 (Some 0) =
   (0, Some (response_frame 2 1 7 0 [9] @ [0]), Some 15)"
  using encode_response_spec [of "replicate 16 0" 16 "[9]" 1
      "\<lparr> rq_service = 2, rq_opcode = 1, rq_sequence = 7, rq_body = None, rq_body_size = 0 \<rparr>" 0 0]
  by simp

text \<open>A frame the device sends as a response is never taken for a request: the request decoder
  refuses every response frame, whatever its fields.\<close>

theorem response_is_not_a_request:
  "bvstk_dcp2_decode_request (Some (response_frame service opcode sequence status body)) n req = (-1, req)"
proof -
  have "response_frame service opcode sequence status body ! 9 = 0x80 OR opcode"
    by (simp add: response_frame_def magic_eq be16_def)
  then show ?thesis
    by (auto simp: bvstk_dcp2_decode_request_def Let_def response_bit split: option.splits)
qed

end
