(* ===== verification/Ring_Log.thy ===== *)
theory Ring_Log
  imports Bvstk_Prelude
begin

text \<open>
  The interface of a bounded ring log: a store of \<open>cap\<close> slots with a 64-bit count of the
  records ever pushed, each push overwriting slot \<open>head mod cap\<close>. The event journal
  (\<open>Event_Journal\<close>) and the change journal of the cache registry (\<open>Cache_Registry\<close>)
  implement it. \<open>represents r hist\<close> says that the ring holds the last \<open>cap\<close> records of
  the unbounded history \<open>hist\<close>.
\<close>

lemma mod_neq_within_window:
  assumes "k < n" and "n < k + c"
  shows "n mod c \<noteq> k mod (c :: nat)"
proof
  assume "n mod c = k mod c"
  then have "c dvd n - k" using assms by (simp add: mod_eq_dvd_iff_nat)
  then have "c \<le> n - k" using assms by (intro dvd_imp_le) auto
  then show False using assms by simp
qed

locale ring_log =
  fixes cap :: nat
    and head :: "'r \<Rightarrow> nat"
    and slot :: "'r \<Rightarrow> nat \<Rightarrow> 'e"
    and push :: "'e \<Rightarrow> 'r \<Rightarrow> 'r"
    and ok :: "'r \<Rightarrow> bool"
  assumes cap_pos: "0 < cap"
    and head_push: "ok r \<Longrightarrow> Suc (head r) < 2 ^ 64 \<Longrightarrow> head (push e r) = Suc (head r)"
    and slot_push: "ok r \<Longrightarrow> i < cap \<Longrightarrow>
      slot (push e r) i = (if i = head r mod cap then e else slot r i)"
    and ok_push: "ok r \<Longrightarrow> ok (push e r)"
begin

definition represents :: "'r \<Rightarrow> 'e list \<Rightarrow> bool" where
  "represents r hist \<longleftrightarrow> ok r \<and> head r = length hist \<and>
     (\<forall>k < length hist. length hist \<le> k + cap \<longrightarrow> slot r (k mod cap) = hist ! k)"

lemma represents_head: "represents r hist \<Longrightarrow> head r = length hist"
  by (simp add: represents_def)

lemma represents_ok: "represents r hist \<Longrightarrow> ok r"
  by (simp add: represents_def)

lemma represents_slot:
  "represents r hist \<Longrightarrow> k < length hist \<Longrightarrow> length hist \<le> k + cap \<Longrightarrow>
   slot r (k mod cap) = hist ! k"
  by (simp add: represents_def)

lemma represents_empty: "ok r \<Longrightarrow> head r = 0 \<Longrightarrow> represents r []"
  by (simp add: represents_def)

lemma represents_push:
  assumes "represents r hist" and "Suc (length hist) < 2 ^ 64"
  shows "represents (push e r) (hist @ [e])"
proof -
  have ok: "ok r" and hd: "head r = length hist"
    using assms(1) by (simp_all add: represents_def)
  have "slot (push e r) (k mod cap) = (hist @ [e]) ! k"
    if k: "k < length (hist @ [e])" and w: "length (hist @ [e]) \<le> k + cap" for k
  proof (cases "k = length hist")
    case True
    then show ?thesis using ok hd cap_pos by (simp add: slot_push)
  next
    case False
    then have "k < length hist" using k by simp
    moreover have "length hist mod cap \<noteq> k mod cap"
      using False k w by (intro mod_neq_within_window) simp_all
    ultimately show ?thesis
      using assms(1) ok hd cap_pos w by (simp add: slot_push represents_slot nth_append)
  qed
  then show ?thesis
    using assms ok hd by (simp add: represents_def head_push ok_push)
qed

end

end
