(* ===== verification/Cache_Registry.thy ===== *)
theory Cache_Registry
  imports Bvstk_Status Ring_Log
begin

text \<open>
  The cache registry of \<open>src/services/cache/bvstk_cache.c\<close>: up to 48 devices, each a named
  catalog of up to 256 resources, and a ring of the last 512 changes that subscribers replay on
  top of a snapshot. The registry's guard is a mutex taken for the whole of every operation, so
  each definition is one critical section; the \<open>describe\<close> callback of a definition is a
  parameter. The name, entry and count arrays follow the conventions of \<open>Bvstk_Prelude\<close>: a
  catalog of \<open>count\<close> entries is the list of those entries.
\<close>

section \<open>Data\<close>

abbreviation (input) BVSTK_CACHE_DEVICES_MAX :: nat where "BVSTK_CACHE_DEVICES_MAX \<equiv> 48"
abbreviation (input) BVSTK_CACHE_RESOURCES_MAX :: nat where "BVSTK_CACHE_RESOURCES_MAX \<equiv> 256"
abbreviation (input) BVSTK_CACHE_NAME_MAX :: nat where "BVSTK_CACHE_NAME_MAX \<equiv> 32"
abbreviation (input) BVSTK_CACHE_JOURNAL_SIZE :: nat where "BVSTK_CACHE_JOURNAL_SIZE \<equiv> 512"
abbreviation (input) BVSTK_CACHE_SOURCE_UNKNOWN :: nat where "BVSTK_CACHE_SOURCE_UNKNOWN \<equiv> 0"
abbreviation (input) BVSTK_CACHE_SOURCE_SETTINGS :: nat where "BVSTK_CACHE_SOURCE_SETTINGS \<equiv> 1"
abbreviation (input) BVSTK_CACHE_SOURCE_DEVICE :: nat where "BVSTK_CACHE_SOURCE_DEVICE \<equiv> 2"
abbreviation (input) BVSTK_CACHE_PRESENCE_UNKNOWN :: nat where "BVSTK_CACHE_PRESENCE_UNKNOWN \<equiv> 0"
abbreviation (input) BVSTK_CACHE_PRESENCE_READY :: nat where "BVSTK_CACHE_PRESENCE_READY \<equiv> 1"
abbreviation (input) BVSTK_CACHE_PRESENCE_UNAVAILABLE :: nat where "BVSTK_CACHE_PRESENCE_UNAVAILABLE \<equiv> 2"
abbreviation (input) BVSTK_CACHE_CHANGE :: u8 where "BVSTK_CACHE_CHANGE \<equiv> 1"
abbreviation (input) BVSTK_CACHE_PRESENCE :: u8 where "BVSTK_CACHE_PRESENCE \<equiv> 2"
abbreviation (input) BVSTK_CACHE_LOST :: int where "BVSTK_CACHE_LOST \<equiv> 1"
abbreviation (input) BVSTK_CACHE_RECONFIGURED :: int where "BVSTK_CACHE_RECONFIGURED \<equiv> 2"
abbreviation (input) BVSTK_CACHE_EXPIRED :: int where "BVSTK_CACHE_EXPIRED \<equiv> 3"

record bvstk_cache_entry_t =
  ce_id :: cstr
  ce_value :: u64
  ce_updated_ms :: u64
  ce_width_bits :: u8
  ce_valid :: u8
  ce_source :: u8

record bvstk_cache_snapshot_t =
  cs_subsystem :: cstr
  cs_device :: cstr
  cs_generation :: u32
  cs_revision :: u64
  cs_captured_ms :: u64
  cs_count :: u16
  cs_presence :: u8
  cs_entries :: "bvstk_cache_entry_t list"

record bvstk_cache_change_t =
  cc_serial :: u64
  cc_revision :: u64
  cc_time_ms :: u64
  cc_generation :: u32
  cc_handle :: u16
  cc_kind :: u8
  cc_presence :: u8
  cc_entry :: bvstk_cache_entry_t

record bvstk_cache_registry_t =
  cr_generation :: u32
  cr_head :: u64
  cr_devices :: "bvstk_cache_snapshot_t list"
  cr_staging :: bvstk_cache_snapshot_t
  cr_journal :: "bvstk_cache_change_t list"

type_synonym bvstk_cache_describe_fn = "nat \<Rightarrow> bvstk_cache_entry_t \<Rightarrow> bvstk_cache_entry_t"

definition zero_entry :: bvstk_cache_entry_t where
  "zero_entry = \<lparr> ce_id = [], ce_value = 0, ce_updated_ms = 0, ce_width_bits = 0, ce_valid = 0, ce_source = 0 \<rparr>"

definition zero_snapshot :: bvstk_cache_snapshot_t where
  "zero_snapshot = \<lparr> cs_subsystem = [], cs_device = [], cs_generation = 0, cs_revision = 0,
     cs_captured_ms = 0, cs_count = 0, cs_presence = 0, cs_entries = [] \<rparr>"

definition zero_change :: bvstk_cache_change_t where
  "zero_change = \<lparr> cc_serial = 0, cc_revision = 0, cc_time_ms = 0, cc_generation = 0, cc_handle = 0,
     cc_kind = 0, cc_presence = 0, cc_entry = zero_entry \<rparr>"

section \<open>Operations\<close>

definition name_char :: "u8 \<Rightarrow> bool" where
  "name_char c \<longleftrightarrow> (ch CHR ''a'' \<le> c \<and> c \<le> ch CHR ''z'') \<or> (ch CHR ''A'' \<le> c \<and> c \<le> ch CHR ''Z'') \<or>
     (ch CHR ''0'' \<le> c \<and> c \<le> ch CHR ''9'') \<or> c = ch CHR ''_'' \<or> c = ch CHR ''-'' \<or> c = ch CHR ''.''"

text \<open>The loop of \<open>name_valid\<close>; the first argument counts the iterations left.\<close>

fun name_scan :: "nat \<Rightarrow> cstr \<Rightarrow> bool" where
  "name_scan 0 s = False"
| "name_scan (Suc n) [] = True"
| "name_scan (Suc n) (c # s) = (if \<not> name_char c then False else name_scan n s)"

definition name_valid :: "cstr option \<Rightarrow> bool" where
  "name_valid s = (case s of None \<Rightarrow> False | Some [] \<Rightarrow> False | Some s \<Rightarrow> name_scan BVSTK_CACHE_NAME_MAX s)"

definition normalize :: "bvstk_cache_entry_t \<Rightarrow> bvstk_cache_entry_t" where
  "normalize e =
    (if ce_valid e = 0 then e \<lparr> ce_value := 0, ce_source := of_nat BVSTK_CACHE_SOURCE_UNKNOWN, ce_updated_ms := 0 \<rparr>
     else e \<lparr> ce_valid := 1 \<rparr>)"

definition device :: "bvstk_cache_registry_t \<Rightarrow> u16 \<Rightarrow> bvstk_cache_snapshot_t option" where
  "device r handle =
    (if handle \<noteq> 0 \<and> unat handle \<le> BVSTK_CACHE_DEVICES_MAX \<and>
        cs_generation (cr_devices r ! (unat handle - 1)) \<noteq> 0
     then Some (cr_devices r ! (unat handle - 1)) else None)"

text \<open>A store through the pointer \<open>device\<close> returned.\<close>

definition set_device :: "bvstk_cache_registry_t \<Rightarrow> u16 \<Rightarrow> bvstk_cache_snapshot_t \<Rightarrow> bvstk_cache_registry_t" where
  "set_device r handle d = r \<lparr> cr_devices := (cr_devices r)[unat handle - 1 := d] \<rparr>"

definition journal_push :: "bvstk_cache_change_t \<Rightarrow> bvstk_cache_registry_t \<Rightarrow> bvstk_cache_registry_t" where
  "journal_push c r = r \<lparr> cr_journal := (cr_journal r)[unat (cr_head r) mod BVSTK_CACHE_JOURNAL_SIZE := c],
     cr_head := cr_head r + 1 \<rparr>"

definition append_change :: "bvstk_cache_registry_t \<Rightarrow> u16 \<Rightarrow> bvstk_cache_snapshot_t \<Rightarrow> u8 \<Rightarrow>
    bvstk_cache_entry_t option \<Rightarrow> u64 \<Rightarrow> bvstk_cache_registry_t" where
  "append_change r handle d kind entry time =
    (let d' = d \<lparr> cs_revision := cs_revision d + 1 \<rparr>;
         c = \<lparr> cc_serial = cr_head r + 1, cc_revision = cs_revision d', cc_time_ms = time,
               cc_generation = cs_generation d, cc_handle = handle, cc_kind = kind,
               cc_presence = cs_presence d,
               cc_entry = (case entry of None \<Rightarrow> zero_entry | Some e \<Rightarrow> e) \<rparr>
     in set_device (journal_push c r) handle d')"

definition bvstk_cache_init :: bvstk_cache_registry_t where
  "bvstk_cache_init = \<lparr> cr_generation = 0, cr_head = 0,
     cr_devices = replicate BVSTK_CACHE_DEVICES_MAX zero_snapshot, cr_staging = zero_snapshot,
     cr_journal = replicate BVSTK_CACHE_JOURNAL_SIZE zero_change \<rparr>"

text \<open>
  The search loop of \<open>bvstk_cache_define\<close>: \<open>None\<close> when another live device has the name,
  otherwise the slot, 48 when no slot is free.
\<close>

fun define_scan :: "u16 \<Rightarrow> cstr \<Rightarrow> cstr \<Rightarrow> nat \<Rightarrow> bvstk_cache_snapshot_t list \<Rightarrow> nat \<Rightarrow> nat option" where
  "define_scan handle subsystem name i [] slot = Some slot"
| "define_scan handle subsystem name i (d # ds) slot =
    (let slot' = (if cs_generation d = 0 \<and> slot = BVSTK_CACHE_DEVICES_MAX then i else slot) in
     if cs_generation d \<noteq> 0 \<and> i + 1 \<noteq> unat handle \<and> cs_subsystem d = subsystem \<and> cs_device d = name then None
     else define_scan handle subsystem name (i + 1) ds slot')"

definition entry_malformed :: "bvstk_cache_entry_t \<Rightarrow> bool" where
  "entry_malformed a \<longleftrightarrow> \<not> name_valid (Some (ce_id a)) \<or> ce_width_bits a = 0 \<or> ce_width_bits a > 64 \<or>
     unat (ce_source a) > BVSTK_CACHE_SOURCE_DEVICE \<or>
     (ce_valid a \<noteq> 0 \<and> ce_width_bits a < 64 \<and> drop_bit (unat (ce_width_bits a)) (ce_value a) \<noteq> 0)"

text \<open>The staging loop: the flag says whether it ran to the end, the list is what it staged.\<close>

fun stage_entries :: "bvstk_cache_describe_fn \<Rightarrow> nat \<Rightarrow> nat \<Rightarrow> bvstk_cache_entry_t list \<Rightarrow>
    bool \<times> bvstk_cache_entry_t list" where
  "stage_entries describe 0 i staged = (True, staged)"
| "stage_entries describe (Suc n) i staged =
    (let a = describe i zero_entry in
     if entry_malformed a then (False, staged @ [a])
     else if ce_id a \<in> set (map ce_id staged) then (False, staged @ [a])
     else stage_entries describe n (i + 1) (staged @ [normalize a]))"

definition next_generation :: "u32 \<Rightarrow> u32" where
  "next_generation g = (if g + 1 = 0 then g + 1 + 1 else g + 1)"

definition cache_define_locked :: "bvstk_cache_registry_t \<Rightarrow> u16 \<Rightarrow> cstr \<Rightarrow> cstr \<Rightarrow> nat \<Rightarrow> nat \<Rightarrow>
    bvstk_cache_describe_fn \<Rightarrow> bvstk_status_t \<times> bvstk_cache_registry_t \<times> u16" where
  "cache_define_locked r handle subsystem name count presence describe =
    (let slot0 = (if handle \<noteq> 0 then unat handle - 1 else BVSTK_CACHE_DEVICES_MAX) in
     if handle \<noteq> 0 \<and> device r handle = None then (BVSTK_ERR_NOT_FOUND, r, handle)
     else case define_scan handle subsystem name 0 (cr_devices r) slot0 of
       None \<Rightarrow> (BVSTK_ERR_DENIED, r, handle)
     | Some slot \<Rightarrow>
       if slot = BVSTK_CACHE_DEVICES_MAX then (BVSTK_ERR_BUSY, r, handle)
       else let (ok, staged) = stage_entries describe count 0 [];
                r1 = r \<lparr> cr_staging := zero_snapshot \<lparr> cs_entries := staged \<rparr> \<rparr> in
       if \<not> ok then (BVSTK_ERR_MALFORMED, r1, handle)
       else let g = next_generation (cr_generation r);
                d = (cr_staging r1) \<lparr> cs_subsystem := subsystem, cs_device := name,
                      cs_generation := g, cs_count := of_nat count, cs_presence := of_nat presence \<rparr>
            in (BVSTK_OK, r1 \<lparr> cr_devices := (cr_devices r1)[slot := d], cr_generation := g \<rparr>,
                of_nat (slot + 1)))"

definition bvstk_cache_define :: "bvstk_cache_registry_t option \<Rightarrow> u16 option \<Rightarrow> cstr option \<Rightarrow> cstr option \<Rightarrow>
    nat \<Rightarrow> nat \<Rightarrow> bvstk_cache_describe_fn option \<Rightarrow>
    bvstk_status_t \<times> bvstk_cache_registry_t option \<times> u16 option" where
  "bvstk_cache_define r handle subsystem name count presence describe =
    (case (r, handle, subsystem, name, describe) of
       (Some r', Some h, Some s, Some n, Some f) \<Rightarrow>
         if \<not> name_valid subsystem \<or> \<not> name_valid name \<or> count > BVSTK_CACHE_RESOURCES_MAX \<or>
            presence > BVSTK_CACHE_PRESENCE_UNAVAILABLE
         then (BVSTK_ERR_MALFORMED, r, handle)
         else let (st, r'', h') = cache_define_locked r' h s n count presence f in (st, Some r'', Some h')
     | _ \<Rightarrow> (BVSTK_ERR_MALFORMED, r, handle))"

text \<open>The four stores to the entry in \<open>bvstk_cache_put\<close> and its normalisation.\<close>

definition put_entry :: "bvstk_cache_entry_t \<Rightarrow> u64 \<Rightarrow> bool \<Rightarrow> nat \<Rightarrow> u64 \<Rightarrow> bvstk_cache_entry_t" where
  "put_entry e value valid source updated_ms =
     normalize (e \<lparr> ce_value := value, ce_valid := (if valid then 1 else 0),
                   ce_source := of_nat source, ce_updated_ms := updated_ms \<rparr>)"

definition bvstk_cache_put :: "bvstk_cache_registry_t \<Rightarrow> u16 \<Rightarrow> nat \<Rightarrow> u64 \<Rightarrow> bool \<Rightarrow> nat \<Rightarrow> u64 \<Rightarrow> u64 \<Rightarrow>
    bvstk_status_t \<times> bvstk_cache_registry_t" where
  "bvstk_cache_put r handle index value valid source updated_ms now_ms =
    (case device r handle of
       None \<Rightarrow> (BVSTK_ERR_NOT_FOUND, r)
     | Some d \<Rightarrow>
       if index \<ge> unat (cs_count d) \<or> source > BVSTK_CACHE_SOURCE_DEVICE \<or>
          (valid \<and> ce_width_bits (cs_entries d ! index) < 64 \<and>
           drop_bit (unat (ce_width_bits (cs_entries d ! index))) value \<noteq> 0)
       then (BVSTK_ERR_RANGE, r)
       else let e = cs_entries d ! index in
         if \<not> valid \<and> ce_valid e = 0 then (BVSTK_OK, r)
         else let e' = put_entry e value valid source updated_ms;
                  d' = d \<lparr> cs_entries := (cs_entries d)[index := e'] \<rparr>
              in (BVSTK_OK, append_change r handle d' BVSTK_CACHE_CHANGE (Some e') now_ms))"

definition bvstk_cache_presence :: "bvstk_cache_registry_t \<Rightarrow> u16 \<Rightarrow> nat \<Rightarrow> u64 \<Rightarrow>
    bvstk_status_t \<times> bvstk_cache_registry_t" where
  "bvstk_cache_presence r handle presence now_ms =
    (case device r handle of
       None \<Rightarrow> (BVSTK_ERR_NOT_FOUND, r)
     | Some d \<Rightarrow>
       if presence > BVSTK_CACHE_PRESENCE_UNAVAILABLE then (BVSTK_ERR_RANGE, r)
       else if unat (cs_presence d) \<noteq> presence
       then (BVSTK_OK, append_change r handle (d \<lparr> cs_presence := of_nat presence \<rparr>)
               BVSTK_CACHE_PRESENCE None now_ms)
       else (BVSTK_OK, r))"

fun snapshot_scan :: "cstr \<Rightarrow> cstr \<Rightarrow> nat \<Rightarrow> bvstk_cache_snapshot_t list \<Rightarrow> (nat \<times> bvstk_cache_snapshot_t) option" where
  "snapshot_scan subsystem name i [] = None"
| "snapshot_scan subsystem name i (d # ds) =
    (if cs_generation d \<noteq> 0 \<and> subsystem = cs_subsystem d \<and> name = cs_device d then Some (i, d)
     else snapshot_scan subsystem name (i + 1) ds)"

text \<open>On \<open>BVSTK_OK\<close> the result carries what is stored through \<open>out\<close>, \<open>handle\<close> and \<open>cursor\<close>.\<close>

definition bvstk_cache_snapshot :: "bvstk_cache_registry_t option \<Rightarrow> cstr option \<Rightarrow> cstr option \<Rightarrow>
    bool \<Rightarrow> bool \<Rightarrow> bool \<Rightarrow> u64 \<Rightarrow> bvstk_status_t \<times> (bvstk_cache_snapshot_t \<times> u16 \<times> u64) option" where
  "bvstk_cache_snapshot r subsystem name out handle cursor now_ms =
    (case (r, subsystem, name) of
       (Some r', Some s, Some n) \<Rightarrow>
         if \<not> out \<or> \<not> handle \<or> \<not> cursor then (BVSTK_ERR_MALFORMED, None)
         else (case snapshot_scan s n 0 (cr_devices r') of
                 None \<Rightarrow> (BVSTK_ERR_NOT_FOUND, None)
               | Some (i, d) \<Rightarrow> (BVSTK_OK, Some (d \<lparr> cs_captured_ms := now_ms \<rparr>, of_nat (i + 1), cr_head r')))
     | _ \<Rightarrow> (BVSTK_ERR_MALFORMED, None))"

fun next_scan :: "nat \<Rightarrow> bvstk_cache_change_t list \<Rightarrow> u16 \<Rightarrow> u64 \<Rightarrow> u64 \<times> bvstk_cache_change_t option" where
  "next_scan 0 journal handle cursor = (cursor, None)"
| "next_scan (Suc n) journal handle cursor =
    (let c = journal ! (unat cursor mod BVSTK_CACHE_JOURNAL_SIZE) in
     if cc_handle c = handle then (cursor + 1, Some c) else next_scan n journal handle (cursor + 1))"

text \<open>The result, the new cursor and, when the result is 1, the change stored through \<open>out\<close>.\<close>

definition bvstk_cache_next :: "bvstk_cache_registry_t \<Rightarrow> u16 \<Rightarrow> u32 \<Rightarrow> u64 \<Rightarrow>
    int \<times> u64 \<times> bvstk_cache_change_t option" where
  "bvstk_cache_next r handle generation cursor =
    (case device r handle of
       None \<Rightarrow> (- BVSTK_CACHE_RECONFIGURED, cursor, None)
     | Some d \<Rightarrow>
       if cs_generation d \<noteq> generation then (- BVSTK_CACHE_RECONFIGURED, cursor, None)
       else if cursor > cr_head r \<or> cr_head r - cursor > of_nat BVSTK_CACHE_JOURNAL_SIZE
       then (- BVSTK_CACHE_LOST, cursor, None)
       else (case next_scan (unat (cr_head r) - unat cursor) (cr_journal r) handle cursor of
               (cursor', Some c) \<Rightarrow> (1, cursor', Some c)
             | (cursor', None) \<Rightarrow> (0, cursor', None)))"

section \<open>Well-formedness\<close>

definition entry_wf :: "bvstk_cache_entry_t \<Rightarrow> bool" where
  "entry_wf e \<longleftrightarrow> name_valid (Some (ce_id e)) \<and> 0 < ce_width_bits e \<and> ce_width_bits e \<le> 64 \<and>
     unat (ce_source e) \<le> 2 \<and> (ce_valid e = 0 \<or> ce_valid e = 1) \<and>
     (ce_valid e = 0 \<longrightarrow> ce_value e = 0 \<and> ce_source e = 0 \<and> ce_updated_ms e = 0) \<and>
     (ce_width_bits e < 64 \<longrightarrow> drop_bit (unat (ce_width_bits e)) (ce_value e) = 0)"

definition device_wf :: "bvstk_cache_snapshot_t \<Rightarrow> bool" where
  "device_wf d \<longleftrightarrow> name_valid (Some (cs_subsystem d)) \<and> name_valid (Some (cs_device d)) \<and>
     length (cs_entries d) = unat (cs_count d) \<and> unat (cs_count d) \<le> 256 \<and> list_all entry_wf (cs_entries d) \<and>
     distinct (map ce_id (cs_entries d)) \<and> unat (cs_presence d) \<le> 2"

definition dev_name :: "bvstk_cache_snapshot_t \<Rightarrow> cstr \<times> cstr" where
  "dev_name d = (cs_subsystem d, cs_device d)"

abbreviation live :: "bvstk_cache_snapshot_t \<Rightarrow> bool" where
  "live d \<equiv> cs_generation d \<noteq> 0"

definition registry_wf :: "bvstk_cache_registry_t \<Rightarrow> bool" where
  "registry_wf r \<longleftrightarrow> length (cr_devices r) = 48 \<and> length (cr_journal r) = 512 \<and>
     list_all (\<lambda>c. length (ce_id (cc_entry c)) < 32 \<and> cc_kind c \<le> 2) (cr_journal r) \<and>
     (\<forall>i < 48. live (cr_devices r ! i) \<longrightarrow> device_wf (cr_devices r ! i)) \<and>
     (\<forall>i < 48. \<forall>j < 48. i \<noteq> j \<longrightarrow> live (cr_devices r ! i) \<longrightarrow> live (cr_devices r ! j) \<longrightarrow>
        dev_name (cr_devices r ! i) \<noteq> dev_name (cr_devices r ! j))"

declare entry_wf_def [wf_defs] device_wf_def [wf_defs] registry_wf_def [wf_defs]

lemma normalize_id [simp]: "ce_id (normalize e) = ce_id e" "ce_width_bits (normalize e) = ce_width_bits e"
  by (simp_all add: normalize_def)

lemma entry_wf_normalize: "\<not> entry_malformed e \<Longrightarrow> entry_wf (normalize e)"
  by (auto simp: entry_malformed_def entry_wf_def normalize_def not_less word_neq_0_conv not_le)

lemma name_scan_iff: "name_scan n s \<longleftrightarrow> length s < n \<and> list_all name_char s"
  by (induction n s rule: name_scan.induct) auto

lemma name_valid_iff:
  "name_valid (Some s) \<longleftrightarrow> s \<noteq> [] \<and> length s < 32 \<and> list_all name_char s"
  by (cases s) (simp_all add: name_valid_def name_scan_iff del: name_scan.simps)

lemma device_SomeD:
  assumes "device r h = Some d" 
  shows "unat h \<le> 48" "0 < unat h" "d = cr_devices r ! (unat h - 1)" "live d"
  using assms by (auto simp: device_def word_zero_unat split: if_splits)

lemma device_handle:
  assumes "i < 48" "live (cr_devices r ! i)"
  shows "device r (of_nat (Suc i)) = Some (cr_devices r ! i)"
proof -
  have "unat (of_nat (Suc i) :: u16) = Suc i" using assms by (intro unat_of_nat_small) simp
  then show ?thesis using assms by (simp add: device_def word_zero_unat del: of_nat_Suc)
qed

lemma registry_wf_device: "registry_wf r \<Longrightarrow> device r h = Some d \<Longrightarrow> device_wf d"
  using device_SomeD [of r h d] by (auto simp: registry_wf_def)

lemma registry_wf_init: "registry_wf bvstk_cache_init"
  by (simp add: registry_wf_def bvstk_cache_init_def zero_snapshot_def zero_change_def zero_entry_def list_all_iff)

text \<open>Replacing one device keeps the registry well-formed when its names stay unique.\<close>

lemma registry_wf_update:
  assumes r: "registry_wf r" and d: "device_wf d" and i: "i < 48"
    and names: "\<And>j. j < 48 \<Longrightarrow> j \<noteq> i \<Longrightarrow> live (cr_devices r ! j) \<Longrightarrow> dev_name (cr_devices r ! j) \<noteq> dev_name d"
  shows "registry_wf (r \<lparr> cr_devices := (cr_devices r)[i := d] \<rparr>)"
proof -
  let ?ds = "(cr_devices r)[i := d]"
  have len: "length (cr_devices r) = 48" using r by (simp add: registry_wf_def)
  have nth: "?ds ! j = (if j = i then d else cr_devices r ! j)" if "j < 48" for j
    using that len by (simp add: nth_list_update)
  have "dev_name (?ds ! j) \<noteq> dev_name (?ds ! k)"
    if "j < 48" "k < 48" "j \<noteq> k" "live (?ds ! j)" "live (?ds ! k)" for j k
    using that names [of j] names [of k] r
    by (cases "j = i"; cases "k = i") (simp_all add: nth registry_wf_def)
  moreover have "device_wf (?ds ! j)" if "j < 48" "live (?ds ! j)" for j
    using that r d by (simp add: nth registry_wf_def split: if_splits)
  ultimately show ?thesis using r by (simp add: registry_wf_def)
qed

lemma registry_wf_append_change:
  assumes r: "registry_wf r" and dev: "device r h = Some d" and d': "device_wf d'"
    and n: "cs_subsystem d' = cs_subsystem d" "cs_device d' = cs_device d"
    and e: "\<And>x. e = Some x \<Longrightarrow> entry_wf x" and k: "kind \<le> 2"
  shows "registry_wf (append_change r h d' kind e t)"
proof -
  note h = device_SomeD [OF dev]
  obtain c where c: "append_change r h d' kind e t =
      (journal_push c r) \<lparr> cr_devices := (cr_devices (journal_push c r))
        [unat h - 1 := d' \<lparr> cs_revision := cs_revision d' + 1 \<rparr>] \<rparr>"
    and ce: "cc_entry c = (case e of None \<Rightarrow> zero_entry | Some x \<Rightarrow> x)" "cc_kind c = kind"
    by (simp add: append_change_def set_device_def Let_def)
  have "length (ce_id (cc_entry c)) < 32 \<and> cc_kind c \<le> 2"
    using e k by (auto simp: ce zero_entry_def entry_wf_def name_valid_iff split: option.split)
  have push: "registry_wf (journal_push c r)" "cr_devices (journal_push c r) = cr_devices r"
    using r \<open>length (ce_id (cc_entry c)) < 32 \<and> cc_kind c \<le> 2\<close> by (simp_all add: registry_wf_def journal_push_def list_all_update)
  have "device_wf (d' \<lparr> cs_revision := cs_revision d' + 1 \<rparr>)" using d' by (simp add: device_wf_def)
  then show ?thesis
    unfolding c using r h n
    by (intro registry_wf_update push) (simp_all add: push(2) registry_wf_def dev_name_def)
qed

lemma put_entry_wf:
  assumes "entry_wf e" and "source \<le> 2"
    and "\<not> (valid \<and> ce_width_bits e < 64 \<and> drop_bit (unat (ce_width_bits e)) value \<noteq> 0)"
  shows "entry_wf (put_entry e value valid source t)"
proof -
  have "unat (of_nat source :: u8) = source" using assms(2) by (intro unat_of_nat_small) simp
  then show ?thesis using assms by (auto simp: entry_wf_def normalize_def put_entry_def)
qed

lemma put_entry_id [simp]: "ce_id (put_entry e value valid source t) = ce_id e"
  by (simp add: put_entry_def)

lemma device_wf_put:
  assumes "device_wf d" and "i < length (cs_entries d)" and "entry_wf e" and "ce_id e = ce_id (cs_entries d ! i)"
  shows "device_wf (d \<lparr> cs_entries := (cs_entries d)[i := e] \<rparr>)"
  using assms distinct_map_update [of i "cs_entries d" ce_id e]
  by (simp add: device_wf_def list_all_update)

lemma registry_wf_put:
  assumes r: "registry_wf r"
  shows "registry_wf (snd (bvstk_cache_put r h i value valid source updated now))"
proof (cases "device r h")
  case None
  then show ?thesis using r by (simp add: bvstk_cache_put_def)
next
  case (Some d)
  note d = registry_wf_device [OF r Some]
  then have len: "length (cs_entries d) = unat (cs_count d)" by (simp add: device_wf_def)
  have "entry_wf (cs_entries d ! i)" if "i < unat (cs_count d)"
    using d that by (simp add: device_wf_def list_all_length)
  then show ?thesis
    using r Some d len
    by (simp add: bvstk_cache_put_def Let_def)
       (auto intro!: registry_wf_append_change device_wf_put put_entry_wf)
qed

lemma registry_wf_presence:
  assumes r: "registry_wf r"
  shows "registry_wf (snd (bvstk_cache_presence r h p now))"
proof (cases "device r h")
  case None
  then show ?thesis using r by (simp add: bvstk_cache_presence_def)
next
  case (Some d)
  have "device_wf (d \<lparr> cs_presence := of_nat p \<rparr>)" if "p \<le> 2"
    using registry_wf_device [OF r Some] that unat_of_nat_small [of p, where 'a = 8] by (simp add: device_wf_def)
  then show ?thesis
    using r Some by (auto simp: bvstk_cache_presence_def not_less intro!: registry_wf_append_change)
qed

section \<open>Definitions\<close>

lemma define_scan_Some:
  assumes "define_scan h sub name i ds slot = Some slot'" and "i + length ds = 48"
  shows "\<forall>k < length ds. live (ds ! k) \<and> i + k + 1 \<noteq> unat h \<longrightarrow> dev_name (ds ! k) \<noteq> (sub, name)"
    and "slot \<noteq> 48 \<Longrightarrow> slot' = slot"
    and "slot = 48 \<Longrightarrow> slot' = 48 \<and> (\<forall>k < length ds. live (ds ! k)) \<or>
      i \<le> slot' \<and> slot' < 48 \<and> \<not> live (ds ! (slot' - i))"
  using assms
proof (induction h sub name i ds slot rule: define_scan.induct)
  case (2 h sub name i d ds slot)
  {
    case 1
    then show ?case using 2(1) [OF refl] by (auto simp: Let_def dev_name_def nth_Cons' less_Suc_eq_0_disj split: if_splits)
  next
    case 2
    then show ?case using "2.IH"(2) [OF refl] by (auto simp: Let_def split: if_splits)
  next
    case 3
    then show ?case using "2.IH"(2,3) [OF refl] by (auto simp: Let_def nth_Cons' less_Suc_eq_0_disj split: if_splits)
  }
qed auto

text \<open>What the describe callback yields for a catalog, and when that is acceptable.\<close>

fun described_from :: "bvstk_cache_describe_fn \<Rightarrow> nat \<Rightarrow> nat \<Rightarrow> bvstk_cache_entry_t list" where
  "described_from f i 0 = []"
| "described_from f i (Suc n) = f i zero_entry # described_from f (Suc i) n"

abbreviation described :: "bvstk_cache_describe_fn \<Rightarrow> nat \<Rightarrow> bvstk_cache_entry_t list" where
  "described f n \<equiv> described_from f 0 n"

definition catalog_ok :: "bvstk_cache_entry_t list \<Rightarrow> bool" where
  "catalog_ok es \<longleftrightarrow> list_all (\<lambda>e. \<not> entry_malformed e) es \<and> distinct (map ce_id es)"

lemma length_described [simp]: "length (described_from f i n) = n"
  by (induction n arbitrary: i) auto

lemma described_nth: "k < n \<Longrightarrow> described_from f i n ! k = f (i + k) zero_entry"
  by (induction n arbitrary: i k) (auto simp: nth_Cons' less_Suc_eq_0_disj)

lemma map_id_normalize [simp]: "map (ce_id \<circ> normalize) es = map ce_id es"
  by simp

lemma stage_entries_iff:
  assumes "distinct (map ce_id staged)"
  shows "fst (stage_entries f n i staged) \<longleftrightarrow>
      list_all (\<lambda>e. \<not> entry_malformed e) (described_from f i n) \<and>
      distinct (map ce_id (staged @ described_from f i n))"
  using assms
proof (induction n arbitrary: i staged)
  case (Suc n)
  let ?a = "f i zero_entry"
  show ?case
  proof (cases "entry_malformed ?a \<or> ce_id ?a \<in> set (map ce_id staged)")
    case True
    then show ?thesis by (auto simp: Let_def)
  next
    case False
    then show ?thesis using Suc.IH [of "staged @ [normalize ?a]" "Suc i"] Suc.prems
      by (auto simp: Let_def)
  qed
qed simp

lemma stage_entries_staged:
  "fst (stage_entries f n i staged) \<Longrightarrow>
   snd (stage_entries f n i staged) = staged @ map normalize (described_from f i n)"
  by (induction n arbitrary: i staged) (auto simp: Let_def split: if_splits)

lemma stage_entries_spec:
  "fst (stage_entries f n 0 []) \<longleftrightarrow> catalog_ok (described f n)"
  "catalog_ok (described f n) \<Longrightarrow> snd (stage_entries f n 0 []) = map normalize (described f n)"
  using stage_entries_iff [of "[]" f n 0] stage_entries_staged [of f n 0 "[]"]
  by (simp_all add: catalog_ok_def)

text \<open>The device a successful definition installs.\<close>

definition defined_device :: "u32 \<Rightarrow> cstr \<Rightarrow> cstr \<Rightarrow> nat \<Rightarrow> nat \<Rightarrow> bvstk_cache_describe_fn \<Rightarrow> bvstk_cache_snapshot_t" where
  "defined_device g sub name count presence f =
     \<lparr> cs_subsystem = sub, cs_device = name, cs_generation = g, cs_revision = 0, cs_captured_ms = 0,
       cs_count = of_nat count, cs_presence = of_nat presence, cs_entries = map normalize (described f count) \<rparr>"

lemma next_generation_nonzero [simp]: "next_generation g \<noteq> 0"
  by (simp add: next_generation_def)

lemma defined_device_wf:
  assumes "name_valid (Some sub)" "name_valid (Some name)" "count \<le> 256" "presence \<le> 2"
    and "catalog_ok (described f count)"
  shows "device_wf (defined_device g sub name count presence f)"
proof -
  have "unat (of_nat count :: u16) = count" "unat (of_nat presence :: u8) = presence"
    using assms by (auto intro!: unat_of_nat_small)
  moreover have "list_all entry_wf (map normalize (described f count))"
    using assms(5) by (auto simp: catalog_ok_def list_all_iff entry_wf_normalize)
  ultimately show ?thesis
    using assms by (simp add: device_wf_def defined_device_def catalog_ok_def)
qed

text \<open>The two ways a definition ends.\<close>

lemma cache_define_cases:
  assumes r: "registry_wf r"
  obtains (fail) st r' where "cache_define_locked r h sub name count presence f = (st, r', h)" "st \<noteq> BVSTK_OK"
      "r' = r \<lparr> cr_staging := cr_staging r' \<rparr>"
  | (ok) slot r' where "cache_define_locked r h sub name count presence f = (BVSTK_OK, r', of_nat (Suc slot))"
      "slot < 48" "h \<noteq> 0 \<Longrightarrow> unat h = Suc slot" "h = 0 \<Longrightarrow> \<not> live (cr_devices r ! slot)"
      "catalog_ok (described f count)"
      "\<And>j. j < 48 \<Longrightarrow> j \<noteq> slot \<Longrightarrow> live (cr_devices r ! j) \<Longrightarrow> dev_name (cr_devices r ! j) \<noteq> (sub, name)"
      "r' = r \<lparr> cr_staging := cr_staging r', cr_generation := next_generation (cr_generation r),
          cr_devices := (cr_devices r)[slot := defined_device (next_generation (cr_generation r)) sub name count presence f] \<rparr>"
proof -
  have len: "length (cr_devices r) = 48" using r by (simp add: registry_wf_def)
  let ?slot0 = "if h \<noteq> 0 then unat h - 1 else 48"
  let ?res = "cache_define_locked r h sub name count presence f"
  show thesis
  proof (cases "h \<noteq> 0 \<and> device r h = None")
    case True
    then have "?res = (BVSTK_ERR_NOT_FOUND, r, h)" by (simp add: cache_define_locked_def)
    then show thesis by (rule fail) simp_all
  next
    case F: False
    show thesis
    proof (cases "define_scan h sub name 0 (cr_devices r) ?slot0")
      case None
      then have "?res = (BVSTK_ERR_DENIED, r, h)" using F by (auto simp: cache_define_locked_def)
      then show thesis by (rule fail) simp_all
    next
      case (Some slot)
      note scan = define_scan_Some [OF Some, simplified len]
      show thesis
      proof (cases "slot = 48")
        case True
        then have "?res = (BVSTK_ERR_BUSY, r, h)" using F Some by (auto simp: cache_define_locked_def)
        then show thesis by (rule fail) simp_all
      next
        case slot: False
        obtain b staged where st: "stage_entries f count 0 [] = (b, staged)" by fastforce
        show thesis
        proof (cases b)
          case False
          then have "?res = (BVSTK_ERR_MALFORMED, r \<lparr> cr_staging := zero_snapshot \<lparr> cs_entries := staged \<rparr> \<rparr>, h)"
            using F Some slot st by (auto simp: cache_define_locked_def)
          then show thesis by (rule fail) simp_all
        next
          case True
          then have cat: "catalog_ok (described f count)" and staged: "staged = map normalize (described f count)"
            using stage_entries_spec [of f count] st by simp_all
          have hs: "h \<noteq> 0 \<Longrightarrow> unat h = Suc slot \<and> slot < 48"
            using F scan(2) slot device_SomeD [of r h] by auto
          have h0: "h = 0 \<Longrightarrow> slot < 48 \<and> \<not> live (cr_devices r ! slot)"
            using scan(3) slot by auto
          have "dev_name (cr_devices r ! j) \<noteq> (sub, name)"
            if "j < 48" "j \<noteq> slot" "live (cr_devices r ! j)" for j
            using scan(1) that hs h0 by (cases "h = 0") auto
          moreover have "?res = (BVSTK_OK, r \<lparr> cr_staging := zero_snapshot \<lparr> cs_entries := staged \<rparr>,
              cr_generation := next_generation (cr_generation r), cr_devices := (cr_devices r)
                [slot := defined_device (next_generation (cr_generation r)) sub name count presence f] \<rparr>, of_nat (Suc slot))"
            using F Some slot st True unfolding staged
            by (auto simp: cache_define_locked_def Let_def defined_device_def zero_snapshot_def)
          ultimately show thesis
            using hs h0 cat by (intro ok) (auto split: if_splits)
        qed
      qed
    qed
  qed
qed

section \<open>Runs, and the change history\<close>

text \<open>The operations that change a registry, and what a sequence of them does.\<close>

datatype cache_op =
    Define u16 cstr cstr nat nat bvstk_cache_describe_fn
  | Put u16 nat u64 bool nat u64 u64
  | Presence u16 nat u64

fun cache_step :: "cache_op \<Rightarrow> bvstk_cache_registry_t \<Rightarrow> bvstk_cache_registry_t" where
  "cache_step (Define h sub name count presence f) r =
    (case bvstk_cache_define (Some r) (Some h) (Some sub) (Some name) count presence (Some f) of
       (_, Some r', _) \<Rightarrow> r' | _ \<Rightarrow> r)"
| "cache_step (Put h i value valid source updated now) r =
    snd (bvstk_cache_put r h i value valid source updated now)"
| "cache_step (Presence h p now) r = snd (bvstk_cache_presence r h p now)"

definition cache_run :: "cache_op list \<Rightarrow> bvstk_cache_registry_t \<Rightarrow> bvstk_cache_registry_t" where
  "cache_run ops r = foldl (\<lambda>r op. cache_step op r) r ops"

interpretation cring: ring_log 512 "\<lambda>r. unat (cr_head r)" "\<lambda>r i. cr_journal r ! i" journal_push
  "\<lambda>r. length (cr_journal r) = 512"
  by unfold_locales (auto simp: journal_push_def unat_plus_one nth_list_update)

text \<open>How a subscriber applies a change to its copy of the device.\<close>

definition apply_change :: "bvstk_cache_change_t \<Rightarrow> bvstk_cache_snapshot_t \<Rightarrow> bvstk_cache_snapshot_t" where
  "apply_change c d = d \<lparr> cs_revision := cc_revision c, cs_presence := cc_presence c,
     cs_entries := (if cc_kind c = BVSTK_CACHE_CHANGE
       then map (\<lambda>e. if ce_id e = ce_id (cc_entry c) then cc_entry c else e) (cs_entries d)
       else cs_entries d) \<rparr>"

definition replay :: "u16 \<Rightarrow> bvstk_cache_change_t list \<Rightarrow> bvstk_cache_snapshot_t \<Rightarrow> bvstk_cache_snapshot_t" where
  "replay h cs d = fold apply_change (filter (\<lambda>c. cc_handle c = h) cs) d"

lemma replay_Nil [simp]: "replay h [] d = d"
  by (simp add: replay_def)

lemma replay_append: "replay h (xs @ ys) d = replay h ys (replay h xs d)"
  by (simp add: replay_def)

definition registry_inv :: "bvstk_cache_registry_t \<Rightarrow> bvstk_cache_change_t list \<Rightarrow> bool" where
  "registry_inv r hist \<longleftrightarrow> registry_wf r \<and> cring.represents r hist \<and>
     (\<forall>i < 48. unat (cs_generation (cr_devices r ! i)) \<le> unat (cr_generation r))"

text \<open>Changes that number a device's revisions one by one.\<close>

fun rev_chain :: "u64 \<Rightarrow> bvstk_cache_change_t list \<Rightarrow> bool" where
  "rev_chain rv [] = True"
| "rev_chain rv (c # cs) = (cc_revision c = rv + 1 \<and> rev_chain (rv + 1) cs)"

lemma fold_apply_revision:
  "rev_chain (cs_revision d) cs \<Longrightarrow> cs_revision (fold apply_change cs d) = cs_revision d + of_nat (length cs)"
  by (induction cs arbitrary: d) (simp_all add: apply_change_def)

lemma rev_chain_append:
  "rev_chain rv (xs @ ys) \<longleftrightarrow> rev_chain rv xs \<and> rev_chain (rv + of_nat (length xs)) ys"
  by (induction xs arbitrary: rv) (simp_all add: add.assoc)

text \<open>
  One operation extends the history by at most one change, and a device whose generation is not
  new is its former self with that change applied.
\<close>

definition steps_by :: "bvstk_cache_registry_t \<Rightarrow> bvstk_cache_change_t list \<Rightarrow> bvstk_cache_registry_t \<Rightarrow> bool" where
  "steps_by r new r' \<longleftrightarrow> unat (cr_generation r) \<le> unat (cr_generation r') \<and>
     (\<forall>h d'. device r' h = Some d' \<and> unat (cs_generation d') \<le> unat (cr_generation r) \<longrightarrow>
        (\<exists>d. device r h = Some d \<and> d' = replay h new d \<and>
           rev_chain (cs_revision d) (filter (\<lambda>c. cc_handle c = h) new)))"

lemma steps_byD:
  "steps_by r new r' \<Longrightarrow> device r' h = Some d' \<Longrightarrow> unat (cs_generation d') \<le> unat (cr_generation r) \<Longrightarrow>
   \<exists>d. device r h = Some d \<and> d' = replay h new d \<and> rev_chain (cs_revision d) (filter (\<lambda>c. cc_handle c = h) new)"
  by (simp add: steps_by_def)

lemma steps_by_refl: "steps_by r [] r"
  by (simp add: steps_by_def)

lemma replay_generation [simp]: "cs_generation (replay h cs d) = cs_generation d"
proof -
  have "cs_generation (fold apply_change xs d) = cs_generation d" for xs d
    by (induction xs arbitrary: d) (simp_all add: apply_change_def)
  then show ?thesis by (simp add: replay_def)
qed

lemma steps_by_trans:
  assumes a: "steps_by r new r'" and b: "steps_by r' new' r''"
  shows "steps_by r (new @ new') r''"
  unfolding steps_by_def
proof (intro conjI allI impI)
  show "unat (cr_generation r) \<le> unat (cr_generation r'')"
    using a b by (auto simp: steps_by_def)
next
  fix h d'' assume d'': "device r'' h = Some d'' \<and> unat (cs_generation d'') \<le> unat (cr_generation r)"
  have "unat (cs_generation d'') \<le> unat (cr_generation r')" using a d'' by (auto simp: steps_by_def)
  then obtain d' where d': "device r' h = Some d'" "d'' = replay h new' d'"
    "rev_chain (cs_revision d') (filter (\<lambda>c. cc_handle c = h) new')"
    using steps_byD [OF b] d'' by blast
  moreover obtain d where d: "device r h = Some d" "d' = replay h new d"
    "rev_chain (cs_revision d) (filter (\<lambda>c. cc_handle c = h) new)"
    using steps_byD [OF a d'(1)] d'(2) d'' by auto
  ultimately show "\<exists>d. device r h = Some d \<and> d'' = replay h (new @ new') d \<and>
      rev_chain (cs_revision d) (filter (\<lambda>c. cc_handle c = h) (new @ new'))"
    using fold_apply_revision [OF d(3)] by (auto simp: replay_append rev_chain_append replay_def)
qed

lemma device_set:
  assumes "length (cr_devices r) = 48" "device r h = Some d" "cs_generation d' = cs_generation d"
  shows "device (set_device r h d') k = (if k = h then Some d' else device r k)"
proof -
  note h = device_SomeD [OF assms(2)]
  have "unat k - 1 = unat h - 1 \<Longrightarrow> 0 < unat k \<Longrightarrow> k = h"
    using h by (metis Suc_diff_1 word_unat_eq_iff)
  then show ?thesis
    using assms h by (auto simp: device_def set_device_def nth_list_update word_zero_unat)
qed

lemma device_journal_push [simp]: "device (journal_push c r) k = device r k"
  "cr_devices (journal_push c r) = cr_devices r" "cr_generation (journal_push c r) = cr_generation r"
  by (simp_all add: device_def journal_push_def)

lemma set_device_generation [simp]: "cr_generation (set_device r h d) = cr_generation r"
  by (simp add: set_device_def)

lemma append_change_steps:
  assumes inv: "registry_inv r hist" and len: "Suc (length hist) < 2 ^ 64"
    and dev: "device r h = Some d" and d': "device_wf d'"
    and same: "cs_subsystem d' = cs_subsystem d" "cs_device d' = cs_device d"
      "cs_generation d' = cs_generation d" "cs_revision d' = cs_revision d"
    and wfe: "\<And>x. e = Some x \<Longrightarrow> entry_wf x" and kind: "kind \<le> 2"
    and r': "r' = append_change r h d' kind e t"
    and app: "\<And>c. cc_revision c = cs_revision d' + 1 \<Longrightarrow> cc_kind c = kind \<Longrightarrow> cc_presence c = cs_presence d' \<Longrightarrow>
       (case e of None \<Rightarrow> True | Some e' \<Rightarrow> cc_entry c = e') \<Longrightarrow>
       apply_change c d = d' \<lparr> cs_revision := cs_revision d' + 1 \<rparr>"
  shows "\<exists>c. registry_inv r' (hist @ [c]) \<and> steps_by r [c] r' \<and> cr_generation r' = cr_generation r"
proof -
  let ?d = "d' \<lparr> cs_revision := cs_revision d' + 1 \<rparr>"
  obtain c where c: "append_change r h d' kind e t = set_device (journal_push c r) h ?d"
    and fields: "cc_revision c = cs_revision d' + 1" "cc_kind c = kind" "cc_presence c = cs_presence d'"
      "case e of None \<Rightarrow> True | Some e' \<Rightarrow> cc_entry c = e'" "cc_handle c = h"
    by (simp add: append_change_def Let_def split: option.split)
  have wf: "registry_wf r" and rep: "cring.represents r hist" using inv by (simp_all add: registry_inv_def)
  have len48: "length (cr_devices r) = 48" using wf by (simp add: registry_wf_def)
  note h = device_SomeD [OF dev]
  have "cring.represents r' (hist @ [c])"
    using cring.represents_push [OF rep len, of c] unfolding r' c
    by (simp add: cring.represents_def set_device_def)
  moreover have "registry_wf r'"
    unfolding r' by (rule registry_wf_append_change [OF wf dev d' same(1,2) wfe kind])
  moreover have "\<forall>i < 48. unat (cs_generation (cr_devices r' ! i)) \<le> unat (cr_generation r')"
    using inv h same len48 unfolding r' c
    by (auto simp: registry_inv_def set_device_def nth_list_update)
  moreover have "steps_by r [c] r'"
    unfolding steps_by_def r' c using len48 dev same fields app [OF fields(1-4)]
    by (auto simp: device_set replay_def split: if_splits)
  moreover have "cr_generation r' = cr_generation r" unfolding r' c by (simp add: set_device_def)
  ultimately show ?thesis by (auto simp: registry_inv_def)
qed

text \<open>What one operation does, in the form runs need.\<close>

definition good_step :: "bvstk_cache_registry_t \<Rightarrow> bvstk_cache_change_t list \<Rightarrow> bvstk_cache_registry_t \<Rightarrow> bool" where
  "good_step r hist r' \<longleftrightarrow> (\<exists>new. length new \<le> 1 \<and> registry_inv r' (hist @ new) \<and> steps_by r new r' \<and>
     unat (cr_generation r') \<le> Suc (unat (cr_generation r)))"

lemma good_step_refl: "registry_inv r hist \<Longrightarrow> good_step r hist r"
  unfolding good_step_def by (rule exI [of _ "[]"]) (simp add: steps_by_refl)

lemma good_step_append:
  "\<exists>c. registry_inv r' (hist @ [c]) \<and> steps_by r [c] r' \<and> cr_generation r' = cr_generation r \<Longrightarrow> good_step r hist r'"
  unfolding good_step_def by force

lemma good_step_put:
  assumes inv: "registry_inv r hist" and len: "Suc (length hist) < 2 ^ 64"
  shows "good_step r hist (cache_step (Put h i value valid source updated now) r)"
proof (cases "\<exists>d. device r h = Some d \<and> \<not> (i \<ge> unat (cs_count d) \<or> source > 2 \<or>
     (valid \<and> ce_width_bits (cs_entries d ! i) < 64 \<and> drop_bit (unat (ce_width_bits (cs_entries d ! i))) value \<noteq> 0)) \<and>
     \<not> (\<not> valid \<and> ce_valid (cs_entries d ! i) = 0)")
  case False
  then have "cache_step (Put h i value valid source updated now) r = r"
    by (auto simp: bvstk_cache_put_def Let_def split: option.split)
  then show ?thesis using inv by (simp add: good_step_refl)
next
  case True
  then obtain d where d: "device r h = Some d" "i < unat (cs_count d)" "source \<le> 2"
    "\<not> (valid \<and> ce_width_bits (cs_entries d ! i) < 64 \<and> drop_bit (unat (ce_width_bits (cs_entries d ! i))) value \<noteq> 0)"
    "\<not> (\<not> valid \<and> ce_valid (cs_entries d ! i) = 0)"
    by (auto simp: not_le not_less)
  define e where "e = put_entry (cs_entries d ! i) value valid source updated"
  let ?d = "d \<lparr> cs_entries := (cs_entries d)[i := e] \<rparr>"
  have step: "cache_step (Put h i value valid source updated now) r = append_change r h ?d 1 (Some e) now"
    using d by (auto simp: bvstk_cache_put_def Let_def e_def)
  have wfd: "device_wf d" using inv d registry_wf_device by (auto simp: registry_inv_def)
  then have i: "i < length (cs_entries d)" and ewf: "entry_wf (cs_entries d ! i)"
    and dist: "distinct (map ce_id (cs_entries d))"
    using d by (auto simp: device_wf_def list_all_length)
  have eid: "ce_id e = ce_id (cs_entries d ! i)" by (simp add: e_def)
  have ewf': "entry_wf e" unfolding e_def by (rule put_entry_wf [OF ewf d(3,4)])
  then have wf': "device_wf ?d" using device_wf_put [OF wfd i _ eid] by simp
  have "map (\<lambda>x. if ce_id x = ce_id e then e else x) (cs_entries d) = (cs_entries d)[i := e]"
    using list_update_map_id [OF i, of "\<lambda>x. if ce_id x = ce_id e then e else x"] i dist
    by (simp add: eid distinct_conv_nth)
  then have "apply_change c d = ?d \<lparr> cs_revision := cs_revision d + 1 \<rparr>"
    if "cc_revision c = cs_revision d + 1" "cc_kind c = 1" "cc_presence c = cs_presence d" "cc_entry c = e" for c
    unfolding apply_change_def that by simp
  then show ?thesis
    unfolding step using ewf'
    by (intro good_step_append append_change_steps [OF inv len d(1) wf' _ _ _ _ _ _ refl]) simp_all
qed

lemma good_step_presence:
  assumes inv: "registry_inv r hist" and len: "Suc (length hist) < 2 ^ 64"
  shows "good_step r hist (cache_step (Presence h p now) r)"
proof (cases "\<exists>d. device r h = Some d \<and> \<not> p > 2 \<and> unat (cs_presence d) \<noteq> p")
  case False
  then have "cache_step (Presence h p now) r = r"
    by (auto simp: bvstk_cache_presence_def split: option.split)
  then show ?thesis using inv by (simp add: good_step_refl)
next
  case True
  then obtain d where d: "device r h = Some d" "p \<le> 2" "unat (cs_presence d) \<noteq> p" by (auto simp: not_less)
  let ?d = "d \<lparr> cs_presence := of_nat p \<rparr>"
  have step: "cache_step (Presence h p now) r = append_change r h ?d 2 None now"
    using d by (simp add: bvstk_cache_presence_def)
  have wf': "device_wf ?d"
    using inv d registry_wf_device [of r h d] unat_of_nat_small [of p, where 'a = 8]
    by (auto simp: registry_inv_def device_wf_def)
  have "apply_change c d = ?d \<lparr> cs_revision := cs_revision d + 1 \<rparr>"
    if "cc_revision c = cs_revision d + 1" "cc_kind c = 2" "cc_presence c = of_nat p" for c
    using that by (simp add: apply_change_def)
  then show ?thesis
    unfolding step by (intro good_step_append append_change_steps [OF inv len d(1) wf' _ _ _ _ _ _ refl]) simp_all
qed

lemma next_generation_Suc:
  "Suc (unat g) < 2 ^ 32 \<Longrightarrow> unat (next_generation g) = Suc (unat g)"
  using unat_plus_one [of g] by (auto simp: next_generation_def word_zero_unat)

lemma registry_wf_define:
  assumes wf: "registry_wf r"
    and args: "name_valid (Some sub)" "name_valid (Some name)" "count \<le> 256" "presence \<le> 2"
  shows "registry_wf (fst (snd (cache_define_locked r h sub name count presence f)))"
  using wf
proof (cases rule: cache_define_cases [of r h sub name count presence f])
  case (fail st r')
  have "cr_devices r' = cr_devices r" "cr_journal r' = cr_journal r" by (subst fail(3), simp)+
  then show ?thesis using wf by (simp add: fail(1) registry_wf_def)
next
  case (ok slot r')
  let ?d = "defined_device (next_generation (cr_generation r)) sub name count presence f"
  have eq: "cr_devices r' = (cr_devices r)[slot := ?d]" "cr_journal r' = cr_journal r" by (subst ok(7), simp)+
  have "device_wf ?d" using args ok(5) by (rule defined_device_wf)
  then have "registry_wf (r \<lparr> cr_devices := (cr_devices r)[slot := ?d] \<rparr>)"
    using wf ok(2,6) by (intro registry_wf_update) (auto simp: dev_name_def defined_device_def)
  then show ?thesis by (simp add: ok(1) registry_wf_def eq)
qed

lemma cache_define_step:
  assumes inv: "registry_inv r hist" and gen: "Suc (unat (cr_generation r)) < 2 ^ 32"
    and args: "name_valid (Some sub)" "name_valid (Some name)" "count \<le> 256" "presence \<le> 2"
  shows "good_step r hist (fst (snd (cache_define_locked r h sub name count presence f)))"
proof -
  have wf: "registry_wf r" using inv by (simp add: registry_inv_def)
  show ?thesis
    using wf
  proof (cases rule: cache_define_cases [of r h sub name count presence f])
    case (fail st r')
    have eq: "cr_devices r' = cr_devices r" "cr_journal r' = cr_journal r" "cr_head r' = cr_head r"
      "cr_generation r' = cr_generation r" by (subst fail(3), simp)+
    have "registry_inv r' hist"
      using inv eq by (simp add: registry_inv_def registry_wf_def cring.represents_def)
    then show ?thesis
      unfolding good_step_def fail(1)
      by (intro exI [of _ "[]"]) (simp add: steps_by_def device_def eq)
  next
    case (ok slot r')
    let ?g = "next_generation (cr_generation r)"
    let ?d = "defined_device ?g sub name count presence f"
    have eq: "cr_devices r' = (cr_devices r)[slot := ?d]" "cr_journal r' = cr_journal r" "cr_head r' = cr_head r"
      "cr_generation r' = ?g" by (subst ok(7), simp)+
    have g: "unat ?g = Suc (unat (cr_generation r))" using gen by (rule next_generation_Suc)
    have len: "length (cr_devices r) = 48" using wf by (simp add: registry_wf_def)
    have "registry_wf r'" using registry_wf_define [OF wf args, of h f] ok(1) by simp
    moreover have "cring.represents r' hist"
      using inv by (simp add: registry_inv_def cring.represents_def eq)
    moreover have "\<forall>i < 48. unat (cs_generation (cr_devices r' ! i)) \<le> unat (cr_generation r')"
      using inv len ok(2) g
      by (auto simp: registry_inv_def eq nth_list_update defined_device_def intro: le_SucI)
    ultimately have "registry_inv r' hist" by (simp add: registry_inv_def)
    moreover have "steps_by r [] r'"
      using len ok(2) g by (auto simp: steps_by_def device_def eq nth_list_update defined_device_def split: if_splits)
    ultimately show ?thesis
      unfolding good_step_def ok(1) using g eq by (intro exI [of _ "[]"]) simp
  qed
qed

lemma good_step_cache_step:
  assumes inv: "registry_inv r hist" and "Suc (length hist) < 2 ^ 64" and "Suc (unat (cr_generation r)) < 2 ^ 32"
  shows "good_step r hist (cache_step op r)"
proof (cases op)
  case (Define h sub name count presence f)
  then show ?thesis
    using good_step_refl [OF inv] cache_define_step [OF inv assms(3), of sub name count presence h f]
    by (auto simp: bvstk_cache_define_def split: prod.split)
qed (use good_step_put [OF assms(1,2)] good_step_presence [OF assms(1,2)] in simp_all)

lemma cache_run_inv:
  assumes "registry_inv r hist" and "length hist + length ops < 2 ^ 64"
    and "unat (cr_generation r) + length ops < 2 ^ 32"
  shows "\<exists>new. length new \<le> length ops \<and> registry_inv (cache_run ops r) (hist @ new) \<and>
     steps_by r new (cache_run ops r) \<and> unat (cr_generation (cache_run ops r)) \<le> unat (cr_generation r) + length ops"
  using assms
proof (induction ops arbitrary: r hist)
  case Nil
  then show ?case by (intro exI [of _ "[]"]) (simp add: cache_run_def steps_by_refl)
next
  case (Cons op ops)
  have "good_step r hist (cache_step op r)"
    using Cons.prems by (intro good_step_cache_step) simp_all
  then obtain new where new: "length new \<le> 1" "registry_inv (cache_step op r) (hist @ new)"
    "steps_by r new (cache_step op r)" "unat (cr_generation (cache_step op r)) \<le> Suc (unat (cr_generation r))"
    by (auto simp: good_step_def)
  have "length (hist @ new) + length ops < 2 ^ 64" "unat (cr_generation (cache_step op r)) + length ops < 2 ^ 32"
    using Cons.prems new by simp_all
  from Cons.IH [OF new(2) this] obtain new' where new': "length new' \<le> length ops"
    "registry_inv (cache_run ops (cache_step op r)) ((hist @ new) @ new')"
    "steps_by (cache_step op r) new' (cache_run ops (cache_step op r))"
    "unat (cr_generation (cache_run ops (cache_step op r))) \<le> unat (cr_generation (cache_step op r)) + length ops"
    by blast
  have run: "cache_run (op # ops) r = cache_run ops (cache_step op r)" by (simp add: cache_run_def)
  show ?case
    unfolding run using new new' steps_by_trans [OF new(3) new'(3)]
    by (intro exI [of _ "new @ new'"]) simp
qed

lemma registry_inv_init: "registry_inv bvstk_cache_init []"
  using registry_wf_init
  by (simp add: registry_inv_def cring.represents_empty bvstk_cache_init_def zero_snapshot_def)

lemma cache_run_init:
  assumes "length ops < 2 ^ 32"
  shows "\<exists>hist. length hist \<le> length ops \<and> registry_inv (cache_run ops bvstk_cache_init) hist \<and>
     unat (cr_generation (cache_run ops bvstk_cache_init)) \<le> length ops"
  using cache_run_inv [OF registry_inv_init, of ops] assms by (auto simp: bvstk_cache_init_def)

section \<open>Subscribers\<close>

lemma next_scan_spec:
  assumes rep: "cring.represents r hist" and len: "length hist < 2 ^ 64"
    and "k \<le> length hist" and "length hist \<le> k + 512"
  shows "\<exists>k'. k \<le> k' \<and> k' \<le> length hist \<and>
    (case filter (\<lambda>c. cc_handle c = h) (drop k hist) of
       [] \<Rightarrow> next_scan (length hist - k) (cr_journal r) h (of_nat k) = (of_nat k', None) \<and> k' = length hist
     | c # cs \<Rightarrow> next_scan (length hist - k) (cr_journal r) h (of_nat k) = (of_nat k', Some c) \<and>
         filter (\<lambda>c. cc_handle c = h) (drop k' hist) = cs \<and> k < k')"
  using assms(3-)
proof (induction "length hist - k" arbitrary: k)
  case 0
  then show ?case by simp
next
  case (Suc n)
  then have k: "k < length hist" and n: "n = length hist - Suc k" by simp_all
  have un: "unat (of_nat k :: u64) = k" using k len by (intro unat_len_u64) simp
  have c: "cr_journal r ! (k mod 512) = hist ! k"
    using cring.represents_slot [OF rep k] Suc.prems by simp
  note scan = next_scan.simps(2) [of n "cr_journal r" h "of_nat k", unfolded Let_def un c, unfolded n]
  have S: "length hist - k = Suc (length hist - Suc k)" using k by simp
  have suc: "(of_nat k :: u64) + 1 = of_nat (Suc k)" by simp
  show ?case
  proof (cases "cc_handle (hist ! k) = h")
    case True
    then show ?thesis
      using k scan by (intro exI [of _ "Suc k"]) (simp add: filter_drop_Suc S suc del: of_nat_Suc)
  next
    case False
    have "next_scan (length hist - k) (cr_journal r) h (of_nat k) =
        next_scan (length hist - Suc k) (cr_journal r) h (of_nat (Suc k))"
      using False scan by (simp add: S suc del: of_nat_Suc)
    moreover obtain k' where "Suc k \<le> k'" "k' \<le> length hist"
      "case filter (\<lambda>c. cc_handle c = h) (drop (Suc k) hist) of
         [] \<Rightarrow> next_scan (length hist - Suc k) (cr_journal r) h (of_nat (Suc k)) = (of_nat k', None) \<and> k' = length hist
       | c # cs \<Rightarrow> next_scan (length hist - Suc k) (cr_journal r) h (of_nat (Suc k)) = (of_nat k', Some c) \<and>
           filter (\<lambda>c. cc_handle c = h) (drop k' hist) = cs \<and> Suc k < k'"
      using Suc.hyps(1) [OF n] Suc.prems k by auto
    ultimately show ?thesis
      using False k by (intro exI [of _ k']) (simp add: filter_drop_Suc split: list.splits del: of_nat_Suc)
  qed
qed

datatype catch_up_result = Synced bvstk_cache_snapshot_t u64 | Resync int | Unfinished

text \<open>
  The loop of a subscriber: take changes until the registry says it is caught up or has to be
  read again. The first argument bounds the number of calls.
\<close>

fun catch_up :: "nat \<Rightarrow> bvstk_cache_registry_t \<Rightarrow> u16 \<Rightarrow> u32 \<Rightarrow> u64 \<Rightarrow> bvstk_cache_snapshot_t \<Rightarrow> catch_up_result" where
  "catch_up 0 r h g cursor s = Unfinished"
| "catch_up (Suc n) r h g cursor s =
    (case bvstk_cache_next r h g cursor of
       (res, cursor', out) \<Rightarrow>
         if res = 0 then Synced s cursor'
         else if res = 1 then (case out of Some c \<Rightarrow> catch_up n r h g cursor' (apply_change c s) | None \<Rightarrow> Unfinished)
         else Resync (- res))"

lemma cache_next_eq:
  assumes rep: "cring.represents r hist" and len: "length hist < 2 ^ 64"
    and dev: "device r h = Some d" "cs_generation d = g" and k: "k \<le> length hist"
  shows "bvstk_cache_next r h g (of_nat k) =
    (if length hist > k + 512 then (-1, of_nat k, None)
     else case next_scan (length hist - k) (cr_journal r) h (of_nat k) of
       (c', Some c) \<Rightarrow> (1, c', Some c) | (c', None) \<Rightarrow> (0, c', None))"
proof -
  have hd: "cr_head r = of_nat (length hist)"
    using cring.represents_head [OF rep] by (metis of_nat_unat ucast_id)
  have un: "unat (of_nat k :: u64) = k" "unat (of_nat (length hist) :: u64) = length hist"
    using k len by (simp_all add: unat_len_u64)
  have "unat (of_nat (length hist) - of_nat k :: u64) = length hist - k"
    using k un by (simp add: unat_sub word_le_nat_alt)
  then have "(of_nat (length hist) - of_nat k :: u64) > of_nat 512 \<longleftrightarrow> length hist > k + 512"
    using k by (auto simp: word_less_nat_alt)
  moreover have "\<not> (of_nat k :: u64) > of_nat (length hist)" using un k by (simp add: word_less_nat_alt)
  ultimately show ?thesis using dev un by (simp add: bvstk_cache_next_def hd)
qed

lemma catch_up_eq:
  assumes rep: "cring.represents r hist" and len: "length hist < 2 ^ 64"
    and dev: "device r h = Some d" "cs_generation d = g"
    and "k \<le> length hist" and "length hist \<le> k + 512" and "length hist - k < n"
  shows "catch_up n r h g (of_nat k) s = Synced (replay h (drop k hist) s) (of_nat (length hist))"
  using assms(5-)
proof (induction n arbitrary: k s)
  case 0
  then show ?case by simp
next
  case (Suc n)
  note eq = cache_next_eq [OF rep len dev Suc.prems(1)]
  obtain k' where k': "k \<le> k'" "k' \<le> length hist"
    and scan: "case filter (\<lambda>c. cc_handle c = h) (drop k hist) of
       [] \<Rightarrow> next_scan (length hist - k) (cr_journal r) h (of_nat k) = (of_nat k', None) \<and> k' = length hist
     | c # cs \<Rightarrow> next_scan (length hist - k) (cr_journal r) h (of_nat k) = (of_nat k', Some c) \<and>
         filter (\<lambda>c. cc_handle c = h) (drop k' hist) = cs \<and> k < k'"
    using next_scan_spec [OF rep len Suc.prems(1,2)] by blast
  show ?case
  proof (cases "filter (\<lambda>c. cc_handle c = h) (drop k hist)")
    case Nil
    then show ?thesis using eq scan Suc.prems by (simp add: replay_def)
  next
    case (Cons c cs)
    then have "k < k'" using scan by simp
    then have "catch_up n r h g (of_nat k') (apply_change c s) =
        Synced (replay h (drop k' hist) (apply_change c s)) (of_nat (length hist))"
      using Suc.prems k' by (intro Suc.IH) simp_all
    then show ?thesis using eq scan Suc.prems Cons by (simp add: replay_def)
  qed
qed

lemma snapshot_scan_Some:
  "snapshot_scan sub name i ds = Some (k, d) \<Longrightarrow>
   i \<le> k \<and> k < i + length ds \<and> d = ds ! (k - i) \<and> live d \<and> dev_name d = (sub, name)"
  by (induction sub name i ds rule: snapshot_scan.induct)
     (auto simp: dev_name_def nth_Cons' split: if_splits)

lemma cache_snapshot_OK:
  assumes "bvstk_cache_snapshot (Some r) (Some sub) (Some name) True True True now = (BVSTK_OK, Some (snap, h, cur))"
    and "registry_wf r"
  shows "\<exists>d. device r h = Some d \<and> dev_name d = (sub, name) \<and> snap = d \<lparr> cs_captured_ms := now \<rparr> \<and> cur = cr_head r"
proof -
  obtain i d where "snapshot_scan sub name 0 (cr_devices r) = Some (i, d)"
    "snap = d \<lparr> cs_captured_ms := now \<rparr>" "h = of_nat (i + 1)" "cur = cr_head r"
    using assms(1) by (auto simp: bvstk_cache_snapshot_def split: option.splits)
  then show ?thesis
    using assms(2) device_handle [of i r] snapshot_scan_Some [of sub name 0 "cr_devices r" i d]
    by (auto simp: registry_wf_def)
qed

lemma replay_captured: "replay h cs (d \<lparr> cs_captured_ms := t \<rparr>) = (replay h cs d) \<lparr> cs_captured_ms := t \<rparr>"
proof -
  have "apply_change c (d \<lparr> cs_captured_ms := t \<rparr>) = (apply_change c d) \<lparr> cs_captured_ms := t \<rparr>" for c d
    by (simp add: apply_change_def)
  then have "fold apply_change xs (d \<lparr> cs_captured_ms := t \<rparr>) = (fold apply_change xs d) \<lparr> cs_captured_ms := t \<rparr>" for xs
    by (induction xs arbitrary: d) simp_all
  then show ?thesis by (simp add: replay_def)
qed

text \<open>
  C1: Replica convergence. A subscriber that took a snapshot of a device, whatever the registry
  went through before (\<open>ops0\<close>) and goes through afterwards (\<open>ops\<close>), and then asks for changes
  until it is caught up, ends with exactly the device's current state and the current journal
  head; the only other outcomes are RECONFIGURED, exactly when the device has been defined anew,
  and LOST, exactly when more than 512 changes have passed. At most 513 calls are needed.
\<close>

theorem cache_replica_converges:
  assumes "length ops0 + length ops < 2 ^ 32"
    and "r = cache_run ops0 bvstk_cache_init" and "r' = cache_run ops r"
    and "bvstk_cache_snapshot (Some r) (Some sub) (Some name) True True True now = (BVSTK_OK, Some (snap, h, cur))"
  shows "catch_up 513 r' h (cs_generation snap) cur snap =
    (case device r' h of
       None \<Rightarrow> Resync BVSTK_CACHE_RECONFIGURED
     | Some d \<Rightarrow>
       if cs_generation d \<noteq> cs_generation snap then Resync BVSTK_CACHE_RECONFIGURED
       else if unat (cr_head r') > unat cur + 512 then Resync BVSTK_CACHE_LOST
       else Synced (d \<lparr> cs_captured_ms := now \<rparr>) (cr_head r'))"
proof -
  obtain hist where hist: "length hist \<le> length ops0" "registry_inv r hist" "unat (cr_generation r) \<le> length ops0"
    using cache_run_init [of ops0] assms(1,2) by auto
  obtain new where new: "length new \<le> length ops" "registry_inv r' (hist @ new)" "steps_by r new r'"
    using cache_run_inv [OF hist(2), of ops] hist assms(1,3) by auto
  have rep: "cring.represents r hist" "cring.represents r' (hist @ new)"
    using hist new by (simp_all add: registry_inv_def)
  have len: "length (hist @ new) < 2 ^ 64" using hist new assms(1) by simp
  obtain d0 where d0: "device r h = Some d0" "snap = d0 \<lparr> cs_captured_ms := now \<rparr>" "cur = cr_head r"
    using cache_snapshot_OK [OF assms(4)] hist by (auto simp: registry_inv_def)
  have cur: "cur = of_nat (length hist)" "cr_head r' = of_nat (length (hist @ new))" "unat cur = length hist"
      "unat (cr_head r') = length (hist @ new)"
    using cring.represents_head [OF rep(1)] cring.represents_head [OF rep(2)] d0
    by (metis of_nat_unat ucast_id)+
  have gen: "unat (cs_generation d0) \<le> unat (cr_generation r)"
    using hist device_SomeD [OF d0(1)] by (simp add: registry_inv_def)
  show ?thesis
  proof (cases "\<exists>d. device r' h = Some d \<and> cs_generation d = cs_generation snap")
    case False
    then have "bvstk_cache_next r' h (cs_generation snap) cur = (-2, cur, None)"
      by (auto simp: bvstk_cache_next_def split: option.split)
    then show ?thesis using False by (auto simp: numeral_eq_Suc split: option.split)
  next
    case True
    then obtain d where d: "device r' h = Some d" "cs_generation d = cs_generation snap" by blast
    then have eq: "d = replay h new d0" using steps_byD [OF new(3) d(1)] gen d0 by simp
    show ?thesis
    proof (cases "length (hist @ new) > length hist + 512")
      case True
      then have "bvstk_cache_next r' h (cs_generation snap) cur = (-1, cur, None)"
        using cache_next_eq [OF rep(2) len d, of "length hist"] by (simp add: cur(1))
      then show ?thesis using d True by (simp add: cur(3,4) numeral_eq_Suc)
    next
      case False
      then have "catch_up 513 r' h (cs_generation snap) (of_nat (length hist)) snap =
          Synced (replay h (drop (length hist) (hist @ new)) snap) (of_nat (length (hist @ new)))"
        by (intro catch_up_eq [OF rep(2) len d]) simp_all
      then show ?thesis using d False eq by (simp add: cur(3,4) d0(2) replay_captured) (simp add: cur)
    qed
  qed
qed

theorem cache_replica_converges_witness:
  "\<exists>(r :: bvstk_cache_registry_t) r' snap d. catch_up 513 r' 1 (cs_generation snap) (cr_head r) snap = Synced d 1 \<and>
     map ce_value (cs_entries snap) = [0] \<and> map ce_value (cs_entries d) = [7]"
proof -
  let ?f = "\<lambda>i e. e \<lparr> ce_id := ascii ''reg'', ce_width_bits := 8 \<rparr>"
  let ?before = "[Define 0 (ascii ''i2c'') (ascii ''dev'') 1 1 ?f]" and ?after = "[Put 1 0 7 True 2 5 6]"
  let ?r = "cache_run ?before bvstk_cache_init" and ?r' = "cache_run ?after (cache_run ?before bvstk_cache_init)"
  let ?res = "bvstk_cache_snapshot (Some ?r) (Some (ascii ''i2c'')) (Some (ascii ''dev'')) True True True 9"
  let ?snap = "fst (the (snd ?res))"
  have snap: "?res = (BVSTK_OK, Some (?snap, 1, cr_head ?r))" and vals: "map ce_value (cs_entries ?snap) = [0]"
    by code_simp+
  have "length ?before + length ?after < 2 ^ 32" by simp
  then have "catch_up 513 ?r' 1 (cs_generation ?snap) (cr_head ?r) ?snap =
      Synced (the (device ?r' 1) \<lparr> cs_captured_ms := 9 \<rparr>) 1"
    by (rule trans [OF cache_replica_converges [OF _ refl refl snap]]) code_simp
  moreover have "map ce_value (cs_entries (the (device ?r' 1) \<lparr> cs_captured_ms := 9 \<rparr>)) = [7]"
    by code_simp
  ultimately show ?thesis
    using vals by - (rule exI [of _ ?r], rule exI [of _ ?r'], rule exI [of _ ?snap], rule exI, intro conjI)
qed

text \<open>
  Every registry reached by any sequence of operations is well-formed: 48 devices and 512
  journal slots; live devices have valid, pairwise different names, as many entries as they count
  and at most 256, with valid and pairwise different ids, widths of 1 to 64 bits, values that fit
  their width, and zeroed value, source and time where invalid.
\<close>

theorem cache_registry_wf: "registry_wf (cache_run ops bvstk_cache_init)"
proof (induction ops rule: rev_induct)
  case Nil
  then show ?case by (simp add: cache_run_def registry_wf_init)
next
  case (snoc op ops)
  let ?r = "cache_run ops bvstk_cache_init"
  have "registry_wf (cache_step op ?r)"
  proof (cases op)
    case (Define h sub name count presence f)
    then show ?thesis
      using snoc registry_wf_define [OF snoc, of sub name count presence h f]
      by (auto simp: bvstk_cache_define_def split: prod.split)
  qed (use snoc in \<open>simp_all add: registry_wf_put registry_wf_presence\<close>)
  then show ?case by (simp add: cache_run_def)
qed

text \<open>
  C24: A definition either fails and leaves every device, the journal, the generation counter and
  the caller's handle as they were, or installs exactly the described catalog under the caller's
  handle (a free slot's for handle 0), with a new generation and revision 0, and changes no other
  device.
\<close>

theorem cache_define_atomic:
  assumes "registry_wf r"
    and "bvstk_cache_define (Some r) (Some h) (Some sub) (Some name) count presence (Some f) = (st, Some r', Some h')"
  shows "if st = BVSTK_OK
    then device r' h' = Some (defined_device (next_generation (cr_generation r)) sub name count presence f) \<and>
      catalog_ok (described f count) \<and>
      (if h = 0 then device r h' = None else h' = h) \<and>
      (\<forall>k. k \<noteq> h' \<longrightarrow> device r' k = device r k) \<and>
      cr_journal r' = cr_journal r \<and> cr_head r' = cr_head r
    else h' = h \<and> r' = r \<lparr> cr_staging := cr_staging r' \<rparr>"
proof (cases "\<not> name_valid (Some sub) \<or> \<not> name_valid (Some name) \<or> count > 256 \<or> presence > 2")
  case True
  then show ?thesis using assms(2) by (auto simp: bvstk_cache_define_def)
next
  case False
  then have res: "cache_define_locked r h sub name count presence f = (st, r', h')"
    using assms(2) by (auto simp: bvstk_cache_define_def split: prod.splits)
  show ?thesis
    using assms(1)
  proof (cases rule: cache_define_cases [of r h sub name count presence f])
    case (fail st1 r1)
    then show ?thesis using res by simp
  next
    case (ok slot r1)
    then have r1: "r1 = r'" "st = BVSTK_OK" "h' = of_nat (Suc slot)" using res by simp_all
    have uh: "unat h' = Suc slot" using ok(2) unfolding r1(3) by (intro unat_of_nat_small) simp
    let ?d = "defined_device (next_generation (cr_generation r)) sub name count presence f"
    have eq: "cr_devices r' = (cr_devices r)[slot := ?d]" "cr_journal r' = cr_journal r" "cr_head r' = cr_head r"
      by (subst ok(7) [unfolded r1(1)], simp)+
    have len: "length (cr_devices r) = 48" using assms(1) by (simp add: registry_wf_def)
    have "0 < unat k \<Longrightarrow> k \<noteq> h' \<Longrightarrow> slot \<noteq> unat k - 1" for k
      using uh by (metis Suc_diff_1 word_unat_eq_iff)
    then have "k \<noteq> h' \<Longrightarrow> device r' k = device r k" for k
      by (cases "k = 0") (simp_all add: device_def eq word_zero_unat)
    then have "\<forall>k. k \<noteq> h' \<longrightarrow> device r' k = device r k" by blast
    moreover have "device r' h' = Some ?d"
      using len ok(2) uh by (auto simp: device_def eq defined_device_def)
    moreover have "if h = 0 then device r h' = None else h' = h"
      using ok(3,4) uh by (auto simp: device_def word_unat_eq_iff)
    ultimately show ?thesis using r1 ok(5) eq by simp
  qed
qed

theorem cache_define_atomic_witness:
  "\<exists>r' d. bvstk_cache_define (Some bvstk_cache_init) (Some 0) (Some (ascii ''mdio'')) (Some (ascii ''phy'')) 0 1
      (Some (\<lambda>i e. e)) = (BVSTK_OK, Some r', Some 1) \<and> device r' 1 = Some d \<and> cs_generation d = 1"
proof -
  let ?res = "bvstk_cache_define (Some bvstk_cache_init) (Some 0) (Some (ascii ''mdio'')) (Some (ascii ''phy'')) 0 1
      (Some (\<lambda>i e. e))"
  let ?r' = "the (fst (snd ?res))"
  have res: "?res = (BVSTK_OK, Some ?r', Some 1)" by code_simp
  have "next_generation (cr_generation bvstk_cache_init) = 1" by code_simp
  then have "device ?r' 1 = Some (defined_device 1 (ascii ''mdio'') (ascii ''phy'') 0 1 (\<lambda>i e. e))"
    using cache_define_atomic [OF registry_wf_init res] by simp
  then show ?thesis using res by (intro exI [of _ ?r']) (simp add: defined_device_def)
qed

end
