(* ===== verification/Dcp2_Cache.thy ===== *)
theory Dcp2_Cache
  imports Dcp2_Codec Cache_Registry
begin

text \<open>
  The DCP2 cache service of \<open>src/protocols/dcp2/bvstk_dcp2_cache.c\<close>: one session per
  connection, holding a captured snapshot that a client reads page by page and up to eight
  subscriptions whose changes are sent as events. The registry is shared and only read here, so
  it is an argument; an output buffer written from its start is the list of the bytes written,
  and a request body with its size is the list of its bytes.
\<close>

section \<open>Data\<close>

abbreviation (input) BVSTK_DCP2_CACHE_VERSION :: u8 where "BVSTK_DCP2_CACHE_VERSION \<equiv> 1"
abbreviation (input) BVSTK_DCP2_CACHE_SUBSCRIPTIONS :: nat where "BVSTK_DCP2_CACHE_SUBSCRIPTIONS \<equiv> 8"
abbreviation (input) BVSTK_DCP2_CACHE_SNAPSHOT_MS :: u64 where "BVSTK_DCP2_CACHE_SNAPSHOT_MS \<equiv> 30000"
abbreviation (input) BVSTK_DCP2_CACHE_PAGE_HEADER :: nat where "BVSTK_DCP2_CACHE_PAGE_HEADER \<equiv> 37"
abbreviation (input) BVSTK_DCP2_CACHE_EVENT_HEADER :: nat where "BVSTK_DCP2_CACHE_EVENT_HEADER \<equiv> 28"
abbreviation (input) BVSTK_DCP2_CACHE_GET :: u8 where "BVSTK_DCP2_CACHE_GET \<equiv> 0x20"
abbreviation (input) BVSTK_DCP2_CACHE_SUBSCRIBE :: u8 where "BVSTK_DCP2_CACHE_SUBSCRIBE \<equiv> 0x21"
abbreviation (input) BVSTK_DCP2_CACHE_UNSUBSCRIBE :: u8 where "BVSTK_DCP2_CACHE_UNSUBSCRIBE \<equiv> 0x22"
abbreviation (input) BVSTK_DCP2_CACHE_NOT_FOUND :: u16 where "BVSTK_DCP2_CACHE_NOT_FOUND \<equiv> 0x0200"
abbreviation (input) BVSTK_DCP2_CACHE_STALE_SNAPSHOT :: u16 where "BVSTK_DCP2_CACHE_STALE_SNAPSHOT \<equiv> 0x0201"
abbreviation (input) BVSTK_DCP2_CACHE_SNAPSHOT :: u8 where "BVSTK_DCP2_CACHE_SNAPSHOT \<equiv> 0"
abbreviation (input) BVSTK_DCP2_CACHE_RESYNC :: u8 where "BVSTK_DCP2_CACHE_RESYNC \<equiv> 3"

record bvstk_dcp2_cache_subscription_t =
  sub_cursor :: u64
  sub_revision :: u64
  sub_generation :: u32
  sub_id :: u16
  sub_handle :: u16
  sub_pending :: u8
  sub_paused :: u8

record bvstk_dcp2_cache_session_t =
  ss_snapshot :: bvstk_cache_snapshot_t
  ss_subscriptions :: "bvstk_dcp2_cache_subscription_t list"
  ss_snapshot_activity :: u64
  ss_snapshot_id :: u32
  ss_next_snapshot :: u32
  ss_snapshot_sub :: u16
  ss_snapshot_progress :: u16
  ss_next_sub :: u16
  ss_round_robin :: u16

definition zero_subscription :: bvstk_dcp2_cache_subscription_t where
  "zero_subscription = \<lparr> sub_cursor = 0, sub_revision = 0, sub_generation = 0, sub_id = 0, sub_handle = 0,
     sub_pending = 0, sub_paused = 0 \<rparr>"

section \<open>Operations\<close>

text \<open>A name prefixed with its length: the name and what follows it.\<close>

definition parse_name :: "bytes \<Rightarrow> (cstr \<times> bytes) option" where
  "parse_name p =
    (case p of [] \<Rightarrow> None
     | l # rest \<Rightarrow> let len = unat l in
         if len = 0 \<or> len \<ge> BVSTK_CACHE_NAME_MAX \<or> len > length rest \<or> 0 \<in> set (take len rest) then None
         else if \<not> list_all name_char (take len rest) then None
         else Some (take len rest, drop len rest))"

definition entry_bytes :: "bvstk_cache_entry_t \<Rightarrow> bytes" where
  "entry_bytes e = of_nat (length (ce_id e)) # ce_id e @ [ce_width_bits e, ce_valid e, ce_source e] @
     be64 (ce_value e) @ be64 (ce_updated_ms e)"

text \<open>The index of the slot \<open>subscription\<close> points to.\<close>

fun subscription_scan :: "u16 \<Rightarrow> nat \<Rightarrow> bvstk_dcp2_cache_subscription_t list \<Rightarrow> nat option" where
  "subscription_scan i k [] = None"
| "subscription_scan i k (s # ss) = (if sub_id s = i then Some k else subscription_scan i (k + 1) ss)"

definition subscription :: "bvstk_dcp2_cache_session_t \<Rightarrow> u16 \<Rightarrow> nat option" where
  "subscription s i = (if i = 0 then None else subscription_scan i 0 (ss_subscriptions s))"

definition set_sub :: "nat \<Rightarrow> bvstk_dcp2_cache_subscription_t \<Rightarrow> bvstk_dcp2_cache_session_t \<Rightarrow> bvstk_dcp2_cache_session_t" where
  "set_sub i x s = s \<lparr> ss_subscriptions := (ss_subscriptions s)[i := x] \<rparr>"

definition expire :: "bvstk_dcp2_cache_session_t \<Rightarrow> u64 \<Rightarrow> bvstk_dcp2_cache_session_t" where
  "expire s now =
    (if ss_snapshot_id s \<noteq> 0 \<and> now - ss_snapshot_activity s \<ge> BVSTK_DCP2_CACHE_SNAPSHOT_MS
     then let s1 = (case subscription s (ss_snapshot_sub s) of
              None \<Rightarrow> s
            | Some i \<Rightarrow> let x = ss_subscriptions s ! i in
                if sub_pending x \<noteq> 0 then set_sub i (x \<lparr> sub_paused := 3 \<rparr>) s else s)
          in s1 \<lparr> ss_snapshot_id := 0 \<rparr>
     else s)"

definition bvstk_dcp2_cache_init :: bvstk_dcp2_cache_session_t where
  "bvstk_dcp2_cache_init = \<lparr> ss_snapshot = zero_snapshot,
     ss_subscriptions = replicate BVSTK_DCP2_CACHE_SUBSCRIPTIONS zero_subscription,
     ss_snapshot_activity = 0, ss_snapshot_id = 0, ss_next_snapshot = 0, ss_snapshot_sub = 0,
     ss_snapshot_progress = 0, ss_next_sub = 0, ss_round_robin = 0 \<rparr>"

text \<open>The loop of \<open>page\<close>: how many of the entries fit behind \<open>used\<close> bytes, and their encoding.\<close>

fun page_entries :: "nat \<Rightarrow> nat \<Rightarrow> bvstk_cache_entry_t list \<Rightarrow> nat \<times> bytes" where
  "page_entries capacity used [] = (0, [])"
| "page_entries capacity used (e # es) =
    (if length (ce_id e) + 20 > capacity - used then (0, [])
     else let (n, bs) = page_entries capacity (used + length (entry_bytes e)) es
          in (n + 1, entry_bytes e @ bs))"

definition page :: "bvstk_dcp2_cache_session_t \<Rightarrow> nat \<Rightarrow> nat \<Rightarrow> u16 \<times> bvstk_dcp2_cache_session_t \<times> bytes" where
  "page s first capacity =
    (let v = ss_snapshot s; total = unat (cs_count v) in
     if first > total then (6, s, [])
     else if capacity < BVSTK_DCP2_CACHE_PAGE_HEADER then (6, s, [])
     else let (count, entries) = page_entries capacity BVSTK_DCP2_CACHE_PAGE_HEADER (drop first (cs_entries v)) in
     if count = 0 \<and> first < total then (6, s, [])
     else let header = [BVSTK_DCP2_CACHE_VERSION, BVSTK_DCP2_CACHE_SNAPSHOT] @
              be16 (ss_snapshot_sub s) @ be32 (ss_snapshot_id s) @ be32 (cs_generation v) @
              be64 (cs_revision v) @ be64 (cs_captured_ms v) @ be16 (cs_count v) @
              be16 (of_nat first) @ be16 (of_nat count) @
              be16 (if first + count = total then 0xFFFF else of_nat (first + count)) @ [cs_presence v];
            sub = subscription s (ss_snapshot_sub s);
            s1 = (if first = unat (ss_snapshot_progress s)
                  then s \<lparr> ss_snapshot_progress := of_nat (first + count) \<rparr> else s);
            s2 = (case sub of
                None \<Rightarrow> s1
              | Some i \<Rightarrow> if ss_snapshot_progress s1 = cs_count v
                  then set_sub i ((ss_subscriptions s1 ! i) \<lparr> sub_pending := 0 \<rparr>) s1 else s1)
          in (0, s2, header @ entries))"

text \<open>The first free slot of the first loop, and the slot subscribed to \<open>handle\<close> of the second.\<close>

fun free_scan :: "nat \<Rightarrow> bvstk_dcp2_cache_subscription_t list \<Rightarrow> nat option" where
  "free_scan k [] = None"
| "free_scan k (s # ss) = (if sub_id s = 0 then Some k else free_scan (k + 1) ss)"

fun handle_scan :: "u16 \<Rightarrow> nat \<Rightarrow> bvstk_dcp2_cache_subscription_t list \<Rightarrow> nat option" where
  "handle_scan h k [] = None"
| "handle_scan h k (s # ss) = (if sub_id s \<noteq> 0 \<and> sub_handle s = h then Some k else handle_scan h (k + 1) ss)"

definition unsubscribe :: "bvstk_dcp2_cache_session_t \<Rightarrow> u16 \<Rightarrow> u16 \<times> bvstk_dcp2_cache_session_t" where
  "unsubscribe s i =
    (case subscription s i of
       None \<Rightarrow> (BVSTK_DCP2_CACHE_NOT_FOUND, s)
     | Some k \<Rightarrow>
       let s1 = (if ss_snapshot_sub s = sub_id (ss_subscriptions s ! k)
                 then s \<lparr> ss_snapshot_sub := 0, ss_snapshot_id := 0 \<rparr> else s)
       in (0, set_sub k zero_subscription s1))"

text \<open>The second half of a request: capture a snapshot, subscribe when asked, send its first page.\<close>

definition capture :: "bvstk_dcp2_cache_session_t \<Rightarrow> bvstk_cache_registry_t \<Rightarrow> u8 \<Rightarrow> cstr \<Rightarrow> cstr \<Rightarrow> u64 \<Rightarrow> nat \<Rightarrow>
    u16 \<times> bvstk_dcp2_cache_session_t \<times> bytes" where
  "capture s registry opcode bus dev now capacity =
    (case bvstk_cache_snapshot (Some registry) (Some bus) (Some dev) True True True now of
       (BVSTK_OK, Some (snap, handle, cursor)) \<Rightarrow>
         let s1 = s \<lparr> ss_snapshot := snap, ss_snapshot_id := 0, ss_snapshot_sub := 0, ss_snapshot_progress := 0 \<rparr>;
             sub = (case handle_scan handle 0 (ss_subscriptions s1) of
                      Some k \<Rightarrow> Some k | None \<Rightarrow> free_scan 0 (ss_subscriptions s1));
             finish = (\<lambda>s. let g = (if ss_next_snapshot s + 1 = 0 then ss_next_snapshot s + 1 + 1
                                     else ss_next_snapshot s + 1)
                           in page (s \<lparr> ss_next_snapshot := g, ss_snapshot_id := g, ss_snapshot_activity := now \<rparr>)
                                0 capacity)
         in if opcode = BVSTK_DCP2_CACHE_SUBSCRIBE
            then (case sub of
                None \<Rightarrow> (4, s1, [])
              | Some k \<Rightarrow>
                if sub_id (ss_subscriptions s1 ! k) = 0 \<and> ss_next_sub s1 = -1 then (4, s1, [])
                else let (s2, i) = (if sub_id (ss_subscriptions s1 ! k) = 0
                           then (s1 \<lparr> ss_next_sub := ss_next_sub s1 + 1 \<rparr>, ss_next_sub s1 + 1)
                           else (s1, sub_id (ss_subscriptions s1 ! k)));
                         x = \<lparr> sub_cursor = cursor, sub_revision = cs_revision snap,
                               sub_generation = cs_generation snap, sub_id = i, sub_handle = handle,
                               sub_pending = 1, sub_paused = 0 \<rparr>
                     in finish (set_sub k x s2 \<lparr> ss_snapshot_sub := i \<rparr>))
            else finish s1
     | _ \<Rightarrow> (BVSTK_DCP2_CACHE_NOT_FOUND, s, []))"

text \<open>A request that names a device, once its names and page cursor are decoded.\<close>

definition cache_get :: "bvstk_dcp2_cache_session_t \<Rightarrow> bvstk_cache_registry_t \<Rightarrow> u8 \<Rightarrow> cstr \<Rightarrow> cstr \<Rightarrow> u32 \<Rightarrow> u16 \<Rightarrow>
    u64 \<Rightarrow> nat \<Rightarrow> u16 \<times> bvstk_dcp2_cache_session_t \<times> bytes" where
  "cache_get s registry opcode bus dev token first now capacity =
    (if token \<noteq> 0 then
       (if token \<noteq> ss_snapshot_id s \<or> bus \<noteq> cs_subsystem (ss_snapshot s) \<or> dev \<noteq> cs_device (ss_snapshot s)
        then (BVSTK_DCP2_CACHE_STALE_SNAPSHOT, s, [])
        else let (st, s1, out) = page s (unat first) capacity
             in (st, if st = 0 then s1 \<lparr> ss_snapshot_activity := now \<rparr> else s1, out))
     else if ss_snapshot_id s \<noteq> 0 \<and>
         (case subscription s (ss_snapshot_sub s) of
            None \<Rightarrow> False | Some i \<Rightarrow> sub_pending (ss_subscriptions s ! i) \<noteq> 0)
       then (4, s, [])
     else if capacity < BVSTK_DCP2_CACHE_PAGE_HEADER + BVSTK_CACHE_NAME_MAX - 1 + 20 then (6, s, [])
     else capture s registry opcode bus dev now capacity)"

definition bvstk_dcp2_cache_request :: "bvstk_dcp2_cache_session_t \<Rightarrow> bvstk_cache_registry_t \<Rightarrow> u8 \<Rightarrow> bytes \<Rightarrow>
    u64 \<Rightarrow> nat \<Rightarrow> u16 \<times> bvstk_dcp2_cache_session_t \<times> bytes" where
  "bvstk_dcp2_cache_request s0 registry opcode body now capacity =
    (let s = expire s0 now in
     if opcode \<noteq> BVSTK_DCP2_CACHE_GET \<and> opcode \<noteq> BVSTK_DCP2_CACHE_SUBSCRIBE \<and>
        opcode \<noteq> BVSTK_DCP2_CACHE_UNSUBSCRIBE then (2, s, [])
     else case body of
       [] \<Rightarrow> (1, s, [])
     | version # body1 \<Rightarrow>
       if version \<noteq> BVSTK_DCP2_CACHE_VERSION then (2, s, [])
       else if opcode = BVSTK_DCP2_CACHE_UNSUBSCRIBE then
         (if length body1 \<noteq> 2 then (1, s, [])
          else let (st, s1) = unsubscribe s (get16 body1) in (st, s1, []))
       else (case parse_name body1 of
           None \<Rightarrow> (1, s, [])
         | Some (bus, body2) \<Rightarrow>
           (case parse_name body2 of
              None \<Rightarrow> (1, s, [])
            | Some (dev, body3) \<Rightarrow>
              if opcode = BVSTK_DCP2_CACHE_GET then
                (if length body3 \<noteq> 6 then (1, s, [])
                 else let token = get32 body3; first = get16 (drop 4 body3) in
                   if token = 0 \<and> first \<noteq> 0 then (1, s, [])
                   else cache_get s registry opcode bus dev token first now capacity)
              else if body3 \<noteq> [] then (1, s, [])
              else cache_get s registry opcode bus dev 0 0 now capacity)))"

definition resync_event :: "bvstk_dcp2_cache_subscription_t \<Rightarrow> u64 \<Rightarrow> nat \<Rightarrow> bytes" where
  "resync_event sub now reason =
     [BVSTK_DCP2_CACHE_VERSION, BVSTK_DCP2_CACHE_RESYNC] @ be16 (sub_id sub) @ be32 (sub_generation sub) @
     be64 (sub_revision sub) @ be64 now @ [0, of_nat reason] @ be16 0"

definition change_event :: "bvstk_dcp2_cache_subscription_t \<Rightarrow> bvstk_cache_change_t \<Rightarrow> bytes" where
  "change_event sub c =
     [BVSTK_DCP2_CACHE_VERSION, cc_kind c] @ be16 (sub_id sub) @ be32 (sub_generation sub) @
     be64 (cc_revision c) @ be64 (cc_time_ms c) @ [cc_presence c, 0] @
     (if cc_kind c = BVSTK_CACHE_CHANGE then be16 1 @ entry_bytes (cc_entry c) else be16 0)"

text \<open>
  One iteration of the event loop on a subscription: \<open>None\<close> when the loop goes on to the next
  slot. The second component is the slot afterwards (a call to \<open>bvstk_cache_next\<close> moves its
  cursor even when it finds nothing).
\<close>

definition event_slot :: "bvstk_cache_registry_t \<Rightarrow> u64 \<Rightarrow> bvstk_dcp2_cache_subscription_t \<Rightarrow>
    bytes option \<times> bvstk_dcp2_cache_subscription_t" where
  "event_slot registry now sub =
    (if sub_id sub = 0 \<or> sub_paused sub = 0xFF then (None, sub)
     else if sub_paused sub \<noteq> 0
       then (Some (resync_event sub now (unat (sub_paused sub))), sub \<lparr> sub_pending := 0, sub_paused := 0xFF \<rparr>)
     else if sub_pending sub \<noteq> 0 then (None, sub)
     else (case bvstk_cache_next registry (sub_handle sub) (sub_generation sub) (sub_cursor sub) of
         (result, cursor, out) \<Rightarrow>
           let sub1 = sub \<lparr> sub_cursor := cursor \<rparr> in
           if result = 0 then (None, sub1)
           else (case out of
               Some c \<Rightarrow>
                 if cc_revision c \<noteq> sub_revision sub + 1
                 then (Some (resync_event sub1 now 1), sub1 \<lparr> sub_pending := 0, sub_paused := 0xFF \<rparr>)
                 else (Some (change_event sub1 c), sub1 \<lparr> sub_revision := cc_revision c \<rparr>)
             | None \<Rightarrow> (Some (resync_event sub1 now (nat (- result))), sub1 \<lparr> sub_pending := 0, sub_paused := 0xFF \<rparr>))))"

fun event_scan :: "nat \<Rightarrow> bvstk_cache_registry_t \<Rightarrow> u64 \<Rightarrow> bvstk_dcp2_cache_session_t \<Rightarrow>
    bytes \<times> bvstk_dcp2_cache_session_t" where
  "event_scan 0 registry now s = ([], s)"
| "event_scan (Suc n) registry now s =
    (let i = unat (ss_round_robin s) mod BVSTK_DCP2_CACHE_SUBSCRIPTIONS;
         (out, sub) = event_slot registry now (ss_subscriptions s ! i);
         s1 = set_sub i sub (s \<lparr> ss_round_robin := ss_round_robin s + 1 \<rparr>)
     in case out of Some bytes \<Rightarrow> (bytes, s1) | None \<Rightarrow> event_scan n registry now s1)"

definition bvstk_dcp2_cache_event :: "bvstk_dcp2_cache_session_t \<Rightarrow> bvstk_cache_registry_t \<Rightarrow> u64 \<Rightarrow> nat \<Rightarrow>
    bytes \<times> bvstk_dcp2_cache_session_t" where
  "bvstk_dcp2_cache_event s0 registry now capacity =
    (let s = expire s0 now in
     if capacity < BVSTK_DCP2_CACHE_EVENT_HEADER + BVSTK_CACHE_NAME_MAX - 1 + 20 then ([], s)
     else event_scan BVSTK_DCP2_CACHE_SUBSCRIPTIONS registry now s)"

section \<open>Pages\<close>

lemma length_entry_bytes [simp]: "length (entry_bytes e) = length (ce_id e) + 20"
  by (simp add: entry_bytes_def)

lemma entry_wf_id: "entry_wf e \<Longrightarrow> ce_id e \<noteq> [] \<and> length (ce_id e) < 32 \<and> list_all name_char (ce_id e)"
  by (simp add: entry_wf_def name_valid_iff)

lemma page_entries_spec:
  "\<exists>n \<le> length es. page_entries capacity used es = (n, concat (map entry_bytes (take n es))) \<and>
     (used \<le> capacity \<longrightarrow> used + length (concat (map entry_bytes (take n es))) \<le> capacity) \<and>
     (used + 51 \<le> capacity \<and> es \<noteq> [] \<and> length (ce_id (hd es)) < 32 \<longrightarrow> 0 < n)"
proof (induction capacity used es rule: page_entries.induct)
  case (2 capacity used e es)
  show ?case
  proof (cases "length (ce_id e) + 20 > capacity - used")
    case True
    then show ?thesis by (auto intro!: exI [of _ 0])
  next
    case False
    then obtain n where "n \<le> length es" "page_entries capacity (used + length (entry_bytes e)) es =
        (n, concat (map entry_bytes (take n es)))"
      "used + length (entry_bytes e) \<le> capacity \<longrightarrow>
         used + length (entry_bytes e) + length (concat (map entry_bytes (take n es))) \<le> capacity"
      using 2 by blast
    then show ?thesis using False by (intro exI [of _ "Suc n"]) auto
  qed
qed simp

text \<open>The reader's side of an entry.\<close>

definition read_entry :: "bytes \<Rightarrow> bvstk_cache_entry_t \<times> bytes" where
  "read_entry p = (let n = unat (hd p); q = drop (n + 1) p in
     (\<lparr> ce_id = take n (tl p), ce_value = get64 (drop 3 q), ce_updated_ms = get64 (drop 11 q),
        ce_width_bits = q ! 0, ce_valid = q ! 1, ce_source = q ! 2 \<rparr>, drop 19 q))"

fun read_entries :: "nat \<Rightarrow> bytes \<Rightarrow> bvstk_cache_entry_t list" where
  "read_entries 0 p = []"
| "read_entries (Suc n) p = (let (e, q) = read_entry p in e # read_entries n q)"

lemma read_entry_bytes:
  assumes "length (ce_id e) < 256"
  shows "read_entry (entry_bytes e @ rest) = (e, rest)"
proof -
  have "unat (of_nat (length (ce_id e)) :: u8) = length (ce_id e)"
    using assms by (intro unat_of_nat_small) simp
  moreover have "drop 11 ([a, b, c] @ be64 v @ be64 w @ rest) = be64 w @ rest"
    "drop 19 ([a, b, c] @ be64 v @ be64 w @ rest) = rest" for a b c v w
    by (simp_all add: numeral_eq_Suc)
  ultimately show ?thesis
    by (simp add: read_entry_def entry_bytes_def Let_def get64_be64)
qed

lemma read_entries_concat:
  "list_all (\<lambda>e. length (ce_id e) < 256) es \<Longrightarrow>
   read_entries (length es) (concat (map entry_bytes es)) = es"
  by (induction es) (simp_all add: read_entry_bytes)

lemma parse_name_bytes:
  assumes "name_valid (Some s)"
  shows "parse_name (of_nat (length s) # s @ rest) = Some (s, rest)"
proof -
  have s: "s \<noteq> []" "length s < 32" "list_all name_char s" using assms by (simp_all add: name_valid_iff)
  then have "unat (of_nat (length s) :: u8) = length s" by (intro unat_of_nat_small) simp
  moreover have "0 \<notin> set s"
  proof
    assume "0 \<in> set s"
    then have "name_char 0" using s by (simp add: list_all_iff)
    moreover have "\<not> name_char 0" by code_simp
    ultimately show False by simp
  qed
  ultimately show ?thesis using s by (simp add: parse_name_def Let_def)
qed

section \<open>Sessions\<close>

text \<open>
  Subscription slots: ids in use are pairwise different and have been handed out; no two
  subscriptions watch the same device.
\<close>

definition subs_wf :: "bvstk_dcp2_cache_subscription_t list \<Rightarrow> u16 \<Rightarrow> bool" where
  "subs_wf subs n \<longleftrightarrow> length subs = 8 \<and> (\<forall>i < 8. unat (sub_id (subs ! i)) \<le> unat n) \<and>
     (\<forall>i < 8. \<forall>j < 8. i \<noteq> j \<longrightarrow> sub_id (subs ! i) \<noteq> 0 \<longrightarrow> sub_id (subs ! j) \<noteq> 0 \<longrightarrow>
        sub_id (subs ! i) \<noteq> sub_id (subs ! j) \<and> sub_handle (subs ! i) \<noteq> sub_handle (subs ! j))"

definition snapshot_wf :: "bvstk_cache_snapshot_t \<Rightarrow> bool" where
  "snapshot_wf v \<longleftrightarrow> length (cs_entries v) = unat (cs_count v) \<and> unat (cs_count v) \<le> 256 \<and> list_all entry_wf (cs_entries v)"

definition session_wf :: "bvstk_dcp2_cache_session_t \<Rightarrow> bool" where
  "session_wf s \<longleftrightarrow> subs_wf (ss_subscriptions s) (ss_next_sub s) \<and> snapshot_wf (ss_snapshot s)"

declare subs_wf_def [wf_defs] session_wf_def [wf_defs]

lemma subs_wf_update:
  assumes "subs_wf subs n" and "i < 8" and "unat n \<le> unat n'" and "unat (sub_id x) \<le> unat n'"
    and "sub_id x \<noteq> 0 \<Longrightarrow> (\<forall>j < 8. j \<noteq> i \<longrightarrow> sub_id (subs ! j) \<noteq> 0 \<longrightarrow>
       sub_id (subs ! j) \<noteq> sub_id x \<and> sub_handle (subs ! j) \<noteq> sub_handle x)"
  shows "subs_wf (subs[i := x]) n'"
proof -
  have len: "length subs = 8" using assms(1) by (simp add: subs_wf_def)
  have nth: "subs[i := x] ! j = (if j = i then x else subs ! j)" if "j < 8" for j
    using that len by (simp add: nth_list_update)
  have old: "sub_id (subs ! j) \<noteq> sub_id (subs ! k) \<and> sub_handle (subs ! j) \<noteq> sub_handle (subs ! k)"
    if "j < 8" "k < 8" "j \<noteq> k" "sub_id (subs ! j) \<noteq> 0" "sub_id (subs ! k) \<noteq> 0" for j k
    using assms(1) that by (simp add: subs_wf_def)
  have new: "sub_id (subs ! j) \<noteq> sub_id x \<and> sub_id x \<noteq> sub_id (subs ! j) \<and>
      sub_handle (subs ! j) \<noteq> sub_handle x \<and> sub_handle x \<noteq> sub_handle (subs ! j)"
    if "j < 8" "j \<noteq> i" "sub_id (subs ! j) \<noteq> 0" "sub_id x \<noteq> 0" for j
    using assms(5) that by metis
  have "sub_id (subs[i := x] ! j) \<noteq> sub_id (subs[i := x] ! k) \<and> sub_handle (subs[i := x] ! j) \<noteq> sub_handle (subs[i := x] ! k)"
    if "j < 8" "k < 8" "j \<noteq> k" "sub_id (subs[i := x] ! j) \<noteq> 0" "sub_id (subs[i := x] ! k) \<noteq> 0" for j k
    using that old [of j k] new [of j] new [of k] by (cases "j = i"; cases "k = i") (simp_all add: nth)
  moreover have "unat (sub_id (subs[i := x] ! j)) \<le> unat n'" if "j < 8" for j
    using that assms(1,3,4) by (auto simp: nth subs_wf_def intro: order_trans)
  ultimately show ?thesis using len by (simp add: subs_wf_def)
qed

lemma subs_wf_same:
  assumes "subs_wf subs n" and "i < 8" and "sub_id x = sub_id (subs ! i)" and "sub_handle x = sub_handle (subs ! i)"
  shows "subs_wf (subs[i := x]) n"
  using assms by (intro subs_wf_update [OF assms(1,2)]) (simp_all add: subs_wf_def)

lemma subscription_scan_Some:
  "subscription_scan i k ss = Some m \<Longrightarrow> k \<le> m \<and> m < k + length ss \<and> sub_id (ss ! (m - k)) = i"
  by (induction i k ss rule: subscription_scan.induct) (auto simp: nth_Cons' split: if_splits)

lemma subscription_Some:
  "subscription s i = Some m \<Longrightarrow> m < length (ss_subscriptions s) \<and> sub_id (ss_subscriptions s ! m) = i \<and> i \<noteq> 0"
  using subscription_scan_Some [of i 0 "ss_subscriptions s" m] by (auto simp: subscription_def split: if_splits)

lemma free_scan_Some: "free_scan k ss = Some m \<Longrightarrow> k \<le> m \<and> m < k + length ss \<and> sub_id (ss ! (m - k)) = 0"
  by (induction k ss rule: free_scan.induct) (auto simp: nth_Cons' split: if_splits)

lemma handle_scan_Some: "handle_scan h k ss = Some m \<Longrightarrow>
   k \<le> m \<and> m < k + length ss \<and> sub_id (ss ! (m - k)) \<noteq> 0 \<and> sub_handle (ss ! (m - k)) = h"
  by (induction h k ss rule: handle_scan.induct) (auto simp: nth_Cons' split: if_splits)

lemma handle_scan_None: "handle_scan h k ss = None \<Longrightarrow> i < length ss \<Longrightarrow> sub_id (ss ! i) \<noteq> 0 \<Longrightarrow> sub_handle (ss ! i) \<noteq> h"
  by (induction h k ss arbitrary: i rule: handle_scan.induct) (auto simp: nth_Cons' split: if_splits)

lemma session_wf_set_sub_same:
  assumes "session_wf s" "i < 8" "sub_id x = sub_id (ss_subscriptions s ! i)"
    "sub_handle x = sub_handle (ss_subscriptions s ! i)"
  shows "session_wf (set_sub i x s)"
  using assms by (simp add: session_wf_def set_sub_def subs_wf_same)

lemma session_wf_length: "session_wf s \<Longrightarrow> length (ss_subscriptions s) = 8"
  by (simp add: session_wf_def subs_wf_def)

lemma session_wf_more:
  "session_wf (s \<lparr> ss_snapshot_id := a \<rparr>) = session_wf s" "session_wf (s \<lparr> ss_snapshot_sub := b \<rparr>) = session_wf s"
  "session_wf (s \<lparr> ss_snapshot_progress := b \<rparr>) = session_wf s" "session_wf (s \<lparr> ss_snapshot_activity := c \<rparr>) = session_wf s"
  "session_wf (s \<lparr> ss_next_snapshot := a \<rparr>) = session_wf s" "session_wf (s \<lparr> ss_round_robin := b \<rparr>) = session_wf s"
  by (simp_all add: session_wf_def)

lemma session_wf_expire:
  assumes "session_wf s" shows "session_wf (expire s now)"
  using assms subscription_Some [of s "ss_snapshot_sub s"] session_wf_length [OF assms]
  by (auto simp: expire_def Let_def session_wf_more session_wf_set_sub_same split: option.split)

lemma session_wf_page:
  assumes "session_wf s" shows "session_wf (fst (snd (page s first capacity)))"
proof -
  have sub: "subscription s (ss_snapshot_sub s) = Some i \<Longrightarrow> i < 8" for i
    using subscription_Some [of s _ i] session_wf_length [OF assms] by simp
  have "session_wf (set_sub i ((ss_subscriptions s ! i) \<lparr> sub_pending := 0 \<rparr>) s)" if "i < 8" for i
    using assms that by (simp add: session_wf_set_sub_same)
  then have "session_wf (set_sub i ((ss_subscriptions s ! i) \<lparr> sub_pending := 0 \<rparr>) (s \<lparr> ss_snapshot_progress := p \<rparr>))"
    if "i < 8" for i p
    using that by (simp add: session_wf_def set_sub_def)
  then show ?thesis
    using assms sub
    by (auto simp: page_def Let_def session_wf_more session_wf_set_sub_same split: prod.split option.split)
qed

lemma u16_next:
  assumes "(n :: u16) \<noteq> -1" shows "unat (n + 1) = Suc (unat n)"
proof (rule unat_plus_one)
  have "unat (-1 :: u16) = 65535" by (simp add: unsigned_minus_1_eq_mask mask_eq_exp_minus_1)
  then have "unat n \<noteq> 65535" using assms by (metis word_unat_eq_iff)
  then show "unat n + 1 < 2 ^ LENGTH(16)" using unat_u16_less [of n] by (simp del: unat_u16_less)
qed

lemma snapshot_wf_captured: "device_wf d \<Longrightarrow> snapshot_wf (d \<lparr> cs_captured_ms := t \<rparr>)"
  by (simp add: device_wf_def snapshot_wf_def)

lemma session_wf_capture:
  assumes s: "session_wf s" and r: "registry_wf r"
  shows "session_wf (fst (snd (capture s r opcode bus dev now capacity)))"
proof (cases "\<exists>snap handle cursor. bvstk_cache_snapshot (Some r) (Some bus) (Some dev) True True True now =
    (BVSTK_OK, Some (snap, handle, cursor))")
  case False
  then have "capture s r opcode bus dev now capacity = (0x0200, s, [])"
    by (auto simp: capture_def split: prod.split bvstk_status_t.split option.split)
  then show ?thesis using s by simp
next
  case True
  then obtain snap h cursor where snap: "bvstk_cache_snapshot (Some r) (Some bus) (Some dev) True True True now =
    (BVSTK_OK, Some (snap, h, cursor))" by blast
  then obtain d where d: "device r h = Some d" "snap = d \<lparr> cs_captured_ms := now \<rparr>"
    using cache_snapshot_OK r by blast
  define s1 where "s1 = s \<lparr> ss_snapshot := snap, ss_snapshot_id := 0, ss_snapshot_sub := 0, ss_snapshot_progress := 0 \<rparr>"
  have wf1: "session_wf s1"
    using s d registry_wf_device [OF r d(1)] by (simp add: s1_def session_wf_def snapshot_wf_captured)
  note len = session_wf_length [OF wf1]
  have fresh: "subs_wf ((ss_subscriptions s1)[k := \<lparr> sub_cursor = cursor, sub_revision = cs_revision snap,
      sub_generation = cs_generation snap, sub_id = ss_next_sub s1 + 1, sub_handle = h, sub_pending = 1, sub_paused = 0 \<rparr>])
      (ss_next_sub s1 + 1)"
    if "handle_scan h 0 (ss_subscriptions s1) = None" "k < 8" "ss_next_sub s1 \<noteq> -1" for k
  proof (rule subs_wf_update)
    show "subs_wf (ss_subscriptions s1) (ss_next_sub s1)" using wf1 by (simp add: session_wf_def)
    have "unat (sub_id (ss_subscriptions s1 ! j)) \<le> unat (ss_next_sub s1)" if "j < 8" for j
      using wf1 that by (simp add: session_wf_def subs_wf_def)
    then show "\<forall>j<8. j \<noteq> k \<longrightarrow> sub_id (ss_subscriptions s1 ! j) \<noteq> 0 \<longrightarrow>
       sub_id (ss_subscriptions s1 ! j) \<noteq> sub_id \<lparr> sub_cursor = cursor, sub_revision = cs_revision snap,
         sub_generation = cs_generation snap, sub_id = ss_next_sub s1 + 1, sub_handle = h, sub_pending = 1, sub_paused = 0 \<rparr> \<and>
       sub_handle (ss_subscriptions s1 ! j) \<noteq> sub_handle \<lparr> sub_cursor = cursor, sub_revision = cs_revision snap,
         sub_generation = cs_generation snap, sub_id = ss_next_sub s1 + 1, sub_handle = h, sub_pending = 1, sub_paused = 0 \<rparr>"
      using handle_scan_None [OF that(1)] len u16_next [OF that(3)] by fastforce
  qed (use that u16_next in simp_all)
  have free: "k < 8 \<and> sub_id (ss_subscriptions s1 ! k) = 0" if "free_scan 0 (ss_subscriptions s1) = Some k" for k
    using free_scan_Some [OF that] len by simp
  have same: "k < 8 \<and> sub_handle (ss_subscriptions s1 ! k) = h \<and> sub_id (ss_subscriptions s1 ! k) \<noteq> 0"
    if "handle_scan h 0 (ss_subscriptions s1) = Some k" for k
    using handle_scan_Some [OF that] len by simp
  show ?thesis
    using wf1 fresh free same
    by (auto simp: capture_def snap s1_def [symmetric] Let_def session_wf_more set_sub_def
        intro!: session_wf_page split: option.split)
      (simp_all add: session_wf_def subs_wf_same)
qed

lemma session_wf_unsubscribe:
  assumes "session_wf s" shows "session_wf (snd (unsubscribe s i))"
proof -
  have "subs_wf ((ss_subscriptions s)[k := zero_subscription]) (ss_next_sub s)" if "k < 8" for k
    using assms that by (intro subs_wf_update [of _ "ss_next_sub s"]) (simp_all add: session_wf_def zero_subscription_def)
  then show ?thesis
    using assms subscription_Some [of s i] session_wf_length [OF assms]
    by (auto simp: unsubscribe_def Let_def session_wf_def set_sub_def split: option.split)
qed

lemma session_wf_cache_get:
  assumes "session_wf s" and "registry_wf r"
  shows "session_wf (fst (snd (cache_get s r opcode bus dev token first now capacity)))"
  using assms session_wf_page [OF assms(1), of "unat first" capacity] session_wf_capture [OF assms]
  by (auto simp: cache_get_def Let_def session_wf_more split: prod.split)

lemma session_wf_request:
  assumes "session_wf s" and "registry_wf r"
  shows "session_wf (fst (snd (bvstk_dcp2_cache_request s r opcode body now capacity)))"
proof -
  have e: "session_wf (expire s now)" using assms by (simp add: session_wf_expire)
  show ?thesis
    using e session_wf_cache_get [OF e assms(2)] session_wf_unsubscribe [OF e]
    by (simp add: bvstk_dcp2_cache_request_def Let_def case_prod_beta split: list.split option.split)
qed

lemma event_slot_keeps:
  "sub_id (snd (event_slot r now x)) = sub_id x" "sub_handle (snd (event_slot r now x)) = sub_handle x"
  by (auto simp: event_slot_def Let_def split: prod.split option.split)

lemma session_wf_event_scan:
  "session_wf s \<Longrightarrow> session_wf (snd (event_scan n r now s))"
proof (induction n r now s rule: event_scan.induct)
  case (2 n r now s)
  let ?i = "unat (ss_round_robin s) mod 8"
  obtain out x where x: "event_slot r now (ss_subscriptions s ! ?i) = (out, x)" by fastforce
  have "session_wf (set_sub ?i x (s \<lparr> ss_round_robin := ss_round_robin s + 1 \<rparr>))"
    using 2 event_slot_keeps [of r now "ss_subscriptions s ! ?i"] x
    by (intro session_wf_set_sub_same) (simp_all add: session_wf_more)
  then show ?case using 2 x by (simp add: Let_def split: option.split)
qed simp

lemma session_wf_event:
  "session_wf s \<Longrightarrow> session_wf (snd (bvstk_dcp2_cache_event s r now capacity))"
  by (simp add: bvstk_dcp2_cache_event_def Let_def session_wf_event_scan session_wf_expire)

lemma session_wf_init: "session_wf bvstk_dcp2_cache_init"
  by (simp add: session_wf_def subs_wf_def snapshot_wf_def bvstk_dcp2_cache_init_def zero_subscription_def zero_snapshot_def)

section \<open>What goes out\<close>

lemma length_page: "length (snd (snd (page s first capacity))) \<le> capacity"
proof -
  obtain n where n: "page_entries capacity 37 (drop first (cs_entries (ss_snapshot s))) =
      (n, concat (map entry_bytes (take n (drop first (cs_entries (ss_snapshot s))))))"
    "37 \<le> capacity \<longrightarrow> 37 + length (concat (map entry_bytes (take n (drop first (cs_entries (ss_snapshot s)))))) \<le> capacity"
    using page_entries_spec by blast
  then show ?thesis by (simp add: page_def Let_def)
qed

lemma length_capture: "length (snd (snd (capture s r opcode bus dev now capacity))) \<le> capacity"
  by (simp add: capture_def Let_def length_page case_prod_beta split: prod.split option.split bvstk_status_t.split)

lemma length_cache_get: "length (snd (snd (cache_get s r opcode bus dev token first now capacity))) \<le> capacity"
  by (simp add: cache_get_def Let_def length_page length_capture case_prod_beta)

lemma length_request: "length (snd (snd (bvstk_dcp2_cache_request s r opcode body now capacity))) \<le> capacity"
  by (simp add: bvstk_dcp2_cache_request_def Let_def length_cache_get case_prod_beta split: list.split option.split)

lemma length_resync_event [simp]: "length (resync_event sub now reason) = 28"
  by (simp add: resync_event_def)

lemma length_change_event [simp]:
  "length (change_event sub c) = (if cc_kind c = 1 then 48 + length (ce_id (cc_entry c)) else 28)"
  by (simp add: change_event_def)

lemma next_scan_journal:
  "next_scan n j h cur = (cur', Some c) \<Longrightarrow> length j = 512 \<Longrightarrow> c \<in> set j \<and> cc_handle c = h"
  by (induction n j h cur rule: next_scan.induct) (auto simp: Let_def split: if_splits)

lemma cache_next_journal:
  assumes "registry_wf r" and "bvstk_cache_next r h g cur = (res, cur', Some c)"
  shows "length (ce_id (cc_entry c)) < 32" "cc_kind c \<le> 2" "cc_handle c = h"
proof -
  have "c \<in> set (cr_journal r) \<and> cc_handle c = h"
    using assms next_scan_journal [of _ "cr_journal r" h cur _ c]
    by (auto simp: bvstk_cache_next_def registry_wf_def split: option.splits if_splits prod.splits)
  then show "length (ce_id (cc_entry c)) < 32" "cc_kind c \<le> 2" "cc_handle c = h"
    using assms(1) by (auto simp: registry_wf_def list_all_iff)
qed

lemma length_event_slot:
  assumes "registry_wf r" and "fst (event_slot r now sub) = Some bytes"
  shows "28 \<le> length bytes \<and> length bytes \<le> 79"
proof -
  have "length (ce_id (cc_entry c)) \<le> 31"
    if "bvstk_cache_next r (sub_handle sub) (sub_generation sub) (sub_cursor sub) = (res, cur', Some c)" for res cur' c
    using cache_next_journal [OF assms(1) that] by simp
  then show ?thesis
    using assms(2) by (auto simp: event_slot_def Let_def split: if_splits prod.splits option.splits)
qed

lemma length_event_scan:
  assumes "registry_wf r"
  shows "length (fst (event_scan n r now s)) \<le> 79"
  using assms
proof (induction n r now s rule: event_scan.induct)
  case (2 n r now s)
  have "event_slot r now x = (Some b, x') \<Longrightarrow> length b \<le> 79" for x b x'
    using length_event_slot [OF 2(2), of now x b] by simp
  then show ?case using 2 by (auto simp: Let_def split: prod.split option.split)
qed simp

text \<open>
  No response and no event is longer than the buffer it is written to, whatever the request
  and the state of the session.
\<close>

theorem dcp2_cache_output_fits:
  assumes "registry_wf r"
  shows "length (snd (snd (bvstk_dcp2_cache_request s r opcode body now capacity))) \<le> capacity \<and>
     length (fst (bvstk_dcp2_cache_event s r now capacity)) \<le> capacity"
proof -
  have "length (fst (bvstk_dcp2_cache_event s r now capacity)) \<le> capacity"
    using length_event_scan [OF assms, of 8 now "expire s now"] by (simp add: bvstk_dcp2_cache_event_def Let_def)
  then show ?thesis using length_request by blast
qed

theorem dcp2_cache_output_fits_witness:
  "length (snd (snd (bvstk_dcp2_cache_request bvstk_dcp2_cache_init bvstk_cache_init 0x20 [] 0 10))) \<le> 10 \<and>
   length (fst (bvstk_dcp2_cache_event bvstk_dcp2_cache_init bvstk_cache_init 0 10)) \<le> 10"
  by (rule dcp2_cache_output_fits [OF registry_wf_init])

text \<open>A session's history: the requests and events of a connection, each with the registry at its time.\<close>

datatype session_op =
    Request bvstk_cache_registry_t u8 bytes u64 nat
  | Event bvstk_cache_registry_t u64 nat

fun op_registry :: "session_op \<Rightarrow> bvstk_cache_registry_t" where
  "op_registry (Request r opcode body now capacity) = r"
| "op_registry (Event r now capacity) = r"

fun session_step :: "bvstk_dcp2_cache_session_t \<Rightarrow> session_op \<Rightarrow> bvstk_dcp2_cache_session_t" where
  "session_step s (Request r opcode body now capacity) = fst (snd (bvstk_dcp2_cache_request s r opcode body now capacity))"
| "session_step s (Event r now capacity) = snd (bvstk_dcp2_cache_event s r now capacity)"

text \<open>
  In every session, after any requests and events, the eight subscription slots hold pairwise
  different ids that were all handed out before, no device is subscribed twice, and the captured
  snapshot is well-formed.
\<close>

theorem dcp2_cache_session_wf:
  assumes "list_all (\<lambda>op. registry_wf (op_registry op)) ops"
  shows "session_wf (foldl session_step bvstk_dcp2_cache_init ops)"
  using assms
proof (induction ops rule: rev_induct)
  case (snoc op ops)
  then show ?case by (cases op) (simp_all add: session_wf_request session_wf_event)
qed (simp add: session_wf_init)

theorem dcp2_cache_session_wf_witness:
  "session_wf (foldl session_step bvstk_dcp2_cache_init [Request bvstk_cache_init 0x21 [1] 0 100, Event bvstk_cache_init 0 100])"
  by (rule dcp2_cache_session_wf) (simp add: registry_wf_init)

section \<open>Events keep a client in step\<close>

text \<open>What a client does with the bytes of a change event.\<close>

definition apply_event :: "bytes \<Rightarrow> bvstk_cache_snapshot_t \<Rightarrow> bvstk_cache_snapshot_t" where
  "apply_event b d = d \<lparr> cs_revision := get64 (drop 8 b), cs_presence := b ! 24,
     cs_entries := (if b ! 1 = 1
       then map (\<lambda>e. if ce_id e = ce_id (fst (read_entry (drop 28 b))) then fst (read_entry (drop 28 b)) else e) (cs_entries d)
       else cs_entries d) \<rparr>"

fun follow :: "nat \<Rightarrow> bvstk_cache_registry_t \<Rightarrow> u64 \<Rightarrow> bvstk_dcp2_cache_subscription_t \<Rightarrow> bvstk_cache_snapshot_t \<Rightarrow> catch_up_result" where
  "follow 0 r now sub d = Unfinished"
| "follow (Suc n) r now sub d =
    (case event_slot r now sub of
       (None, sub') \<Rightarrow> Synced d (sub_cursor sub')
     | (Some b, sub') \<Rightarrow> if b ! 1 = BVSTK_DCP2_CACHE_RESYNC then Resync (uint (b ! 25)) else follow n r now sub' (apply_event b d))"

lemma change_event_fields:
  "change_event sub c ! Suc 0 = cc_kind c" "change_event sub c ! 24 = cc_presence c"
  "drop 8 (change_event sub c) = be64 (cc_revision c) @ drop 16 (change_event sub c)"
  "cc_kind c = 1 \<Longrightarrow> drop 28 (change_event sub c) = entry_bytes (cc_entry c)"
  by (simp_all add: change_event_def be16_def be32_def be64_def numeral_eq_Suc)

lemma apply_event_change:
  assumes "length (ce_id (cc_entry c)) < 32"
  shows "apply_event (change_event sub c) d = apply_change c d"
proof -
  have "read_entry (entry_bytes (cc_entry c)) = (cc_entry c, [])"
    using read_entry_bytes [of "cc_entry c" "[]"] assms by simp
  then show ?thesis
    by (simp add: apply_event_def apply_change_def change_event_fields get64_be64)
qed

lemma resync_event_fields: "resync_event sub now n ! Suc 0 = 3" "resync_event sub now n ! 25 = of_nat n"
  by (simp_all add: resync_event_def be16_def be32_def be64_def numeral_eq_Suc)

lemma follow_eq:
  assumes wf: "registry_wf r" and rep: "cring.represents r hist" and len: "length hist < 2 ^ 64"
    and dev: "device r h = Some d" "cs_generation d = g"
    and "k \<le> length hist" and "length hist \<le> k + 512" and "length hist - k < n"
    and "sub_id sub \<noteq> 0" "sub_pending sub = 0" "sub_paused sub = 0" "sub_handle sub = h"
      "sub_generation sub = g" "sub_cursor sub = of_nat k" "sub_revision sub = cs_revision s"
    and "rev_chain (cs_revision s) (filter (\<lambda>c. cc_handle c = h) (drop k hist))"
  shows "follow n r now sub s = Synced (replay h (drop k hist) s) (of_nat (length hist))"
  using assms(6-)
proof (induction n arbitrary: k s sub)
  case 0
  then show ?case by simp
next
  case (Suc n)
  note eq = cache_next_eq [OF rep len dev Suc.prems(1)]
  obtain k' where k': "k \<le> k'" "k' \<le> length hist"
    and scan: "case filter (\<lambda>c. cc_handle c = h) (drop k hist) of
       [] \<Rightarrow> next_scan (length hist - k) (cr_journal r) h (of_nat k) = (of_nat k', None) \<and> k' = length hist
     | c # cs \<Rightarrow> next_scan (length hist - k) (cr_journal r) h (of_nat k) = (of_nat k', Some c) \<and>
         filter (\<lambda>c. cc_handle c = h) (drop k' hist) = cs \<and> k < k'"
    using next_scan_spec [OF rep len Suc.prems(1,2)] by blast
  show ?case
  proof (cases "filter (\<lambda>c. cc_handle c = h) (drop k hist)")
    case Nil
    then show ?thesis using eq scan Suc.prems by (simp add: replay_def event_slot_def)
  next
    case (Cons c cs)
    then have k: "k < k'" and cs: "filter (\<lambda>c. cc_handle c = h) (drop k' hist) = cs" using scan by simp_all
    have nxt: "bvstk_cache_next r h g (of_nat k) = (1, of_nat k', Some c)" using eq scan Suc.prems Cons by simp
    note c = cache_next_journal [OF wf nxt]
    have rv: "cc_revision c = cs_revision s + 1" "rev_chain (cs_revision s + 1) cs" using Suc.prems Cons by simp_all
    have kind: "cc_kind c \<noteq> 3" using c(2) by (auto simp: word_le_nat_alt)
    let ?sub = "sub \<lparr> sub_cursor := of_nat k', sub_revision := cc_revision c \<rparr>"
    have "event_slot r now sub = (Some (change_event (sub \<lparr> sub_cursor := of_nat k' \<rparr>) c), ?sub)"
      using Suc.prems nxt rv by (simp add: event_slot_def Let_def)
    then have "follow (Suc n) r now sub s = follow n r now ?sub (apply_change c s)"
      using kind c(1) by (simp add: change_event_fields apply_event_change)
    also have "\<dots> = Synced (replay h (drop k' hist) (apply_change c s)) (of_nat (length hist))"
      using Suc.prems k k' rv cs by (intro Suc.IH) (simp_all add: apply_change_def)
    finally show ?thesis using Cons cs by (simp add: replay_def)
  qed
qed

text \<open>
  The event stream of one subscription: decoded and applied to the snapshot the subscription was
  made with it ends in the device's current state, with RESYNC and reason RECONFIGURED exactly when
  the device was defined anew and with reason LOST exactly when more than 512 changes passed.
\<close>

lemma follow_converges:
  assumes "length ops0 + length ops < 2 ^ 32"
    and "r = cache_run ops0 bvstk_cache_init" and "r' = cache_run ops r"
    and "bvstk_cache_snapshot (Some r) (Some bus) (Some dev) True True True now = (BVSTK_OK, Some (snap, h, cur))"
    and "sub = \<lparr> sub_cursor = cur, sub_revision = cs_revision snap, sub_generation = cs_generation snap,
           sub_id = i, sub_handle = h, sub_pending = 0, sub_paused = 0 \<rparr>" and "i \<noteq> 0"
  shows "follow 513 r' now' sub snap =
    (case device r' h of
       None \<Rightarrow> Resync BVSTK_CACHE_RECONFIGURED
     | Some d \<Rightarrow>
       if cs_generation d \<noteq> cs_generation snap then Resync BVSTK_CACHE_RECONFIGURED
       else if unat (cr_head r') > unat cur + 512 then Resync BVSTK_CACHE_LOST
       else Synced (d \<lparr> cs_captured_ms := now \<rparr>) (cr_head r'))"
proof -
  obtain hist where hist: "length hist \<le> length ops0" "registry_inv r hist" "unat (cr_generation r) \<le> length ops0"
    using cache_run_init [of ops0] assms(1,2) by auto
  obtain new where new: "length new \<le> length ops" "registry_inv r' (hist @ new)" "steps_by r new r'"
    using cache_run_inv [OF hist(2), of ops] hist assms(1,3) by auto
  have rep: "cring.represents r hist" "cring.represents r' (hist @ new)" and wf: "registry_wf r'"
    using hist new by (simp_all add: registry_inv_def)
  have len: "length (hist @ new) < 2 ^ 64" using hist new assms(1) by simp
  obtain d0 where d0: "device r h = Some d0" "snap = d0 \<lparr> cs_captured_ms := now \<rparr>" "cur = cr_head r"
    using cache_snapshot_OK [OF assms(4)] hist by (auto simp: registry_inv_def)
  have cur: "cur = of_nat (length hist)" "cr_head r' = of_nat (length (hist @ new))" "unat cur = length hist"
      "unat (cr_head r') = length (hist @ new)"
    using cring.represents_head [OF rep(1)] cring.represents_head [OF rep(2)] d0
    by (metis of_nat_unat ucast_id)+
  have gen: "unat (cs_generation d0) \<le> unat (cr_generation r)"
    using hist device_SomeD [OF d0(1)] by (simp add: registry_inv_def)
  have one: "follow 513 r' now' sub snap = Resync n"
    if "bvstk_cache_next r' h (cs_generation snap) cur = (- n, cur, None)" "n = 1 \<or> n = 2" for n
  proof -
    have "event_slot r' now' sub = (Some (resync_event sub now' (nat n)), sub \<lparr> sub_pending := 0, sub_paused := 0xFF \<rparr>)"
      using that assms(5,6) by (auto simp: event_slot_def Let_def)
    moreover have "(513 :: nat) = Suc 512" by simp
    ultimately show ?thesis using that(2) by (auto simp only: follow.simps resync_event_fields) (simp_all add: resync_event_fields)
  qed
  show ?thesis
  proof (cases "\<exists>d. device r' h = Some d \<and> cs_generation d = cs_generation snap")
    case False
    then have "bvstk_cache_next r' h (cs_generation snap) cur = (-2, cur, None)"
      by (auto simp: bvstk_cache_next_def split: option.split)
    then show ?thesis using False one by (auto split: option.split)
  next
    case True
    then obtain d where d: "device r' h = Some d" "cs_generation d = cs_generation snap" by blast
    then have eq: "d = replay h new d0" and chain: "rev_chain (cs_revision d0) (filter (\<lambda>c. cc_handle c = h) new)"
      using steps_byD [OF new(3) d(1)] gen d0 by simp_all
    show ?thesis
    proof (cases "length (hist @ new) > length hist + 512")
      case True
      then have "bvstk_cache_next r' h (cs_generation snap) cur = (-1, cur, None)"
        using cache_next_eq [OF rep(2) len d, of "length hist"] by (simp add: cur(1))
      then show ?thesis using d True one by (simp add: cur(3,4))
    next
      case False
      then have "follow 513 r' now' sub snap =
          Synced (replay h (drop (length hist) (hist @ new)) snap) (of_nat (length (hist @ new)))"
        using assms(5,6) cur(1) chain d0(2)
        by (intro follow_eq [OF wf rep(2) len d]) simp_all
      then show ?thesis using d False eq by (simp add: cur(3,4) d0(2) replay_captured) (simp add: cur)
    qed
  qed
qed

lemma round_robin_Suc: "unat (x + 1 :: u16) mod 8 = Suc (unat x) mod 8"
proof (cases "x = -1")
  case True
  have "unat (-1 :: u16) = 65535" by (simp add: unsigned_minus_1_eq_mask mask_eq_exp_minus_1)
  then show ?thesis using True by simp
next
  case False
  then show ?thesis using u16_next [of x] by simp
qed

lemma event_scan_empty:
  assumes "registry_wf r" and "length (ss_subscriptions s) = 8" and "n \<le> 8" and "fst (event_scan n r now s) = []"
    and "j < n"
  shows "fst (event_slot r now (ss_subscriptions s ! ((unat (ss_round_robin s) + j) mod 8))) = None"
  using assms(2-)
proof (induction n arbitrary: s j)
  case (Suc n)
  let ?i = "unat (ss_round_robin s) mod 8"
  obtain out x where x: "event_slot r now (ss_subscriptions s ! ?i) = (out, x)" by fastforce
  have none: "out = None"
  proof (rule ccontr)
    assume "out \<noteq> None"
    then obtain b where "out = Some b" by blast
    then show False using length_event_slot [OF assms(1), of now "ss_subscriptions s ! ?i" b] x Suc.prems
      by (simp add: Let_def)
  qed
  show ?case
  proof (cases j)
    case 0
    then show ?thesis using x none by simp
  next
    case (Suc j')
    let ?s = "set_sub ?i x (s \<lparr> ss_round_robin := ss_round_robin s + 1 \<rparr>)"
    have "fst (event_slot r now (ss_subscriptions ?s ! ((unat (ss_round_robin ?s) + j') mod 8))) = None"
      using Suc.prems Suc x none by (intro Suc.IH) (simp_all add: Let_def set_sub_def)
    moreover have "(unat (ss_round_robin s + 1) + j') mod 8 = (unat (ss_round_robin s) + j) mod 8"
      using Suc round_robin_Suc [of "ss_round_robin s"] by (metis add_Suc_shift mod_add_left_eq)
    moreover have "(unat (ss_round_robin s) + j) mod 8 \<noteq> ?i"
      using Suc Suc.prems mod_neq_within_window [of "unat (ss_round_robin s)" "unat (ss_round_robin s) + j" 8] by simp
    ultimately show ?thesis by (simp add: set_sub_def)
  qed
qed simp

text \<open>When an event call with a large enough buffer sends nothing, then no subscription has anything
  to send, whatever the position of the round robin.\<close>

lemma event_quiet:
  assumes "registry_wf r" and "session_wf s" and "capacity \<ge> 79"
    and "fst (bvstk_dcp2_cache_event s r now capacity) = []" and "i < 8"
  shows "fst (event_slot r now (ss_subscriptions (expire s now) ! i)) = None"
proof -
  let ?s = "expire s now" and ?rr = "unat (ss_round_robin (expire s now))"
  have len: "length (ss_subscriptions ?s) = 8" using assms(2) by (simp add: session_wf_expire session_wf_length)
  have scan: "fst (event_scan 8 r now ?s) = []" using assms(3,4) by (simp add: bvstk_dcp2_cache_event_def Let_def)
  define j where "j = (i + 8 - ?rr mod 8) mod 8"
  have "(?rr + j) mod 8 = i"
  proof -
    have "(?rr + j) mod 8 = (?rr mod 8 + (i + 8 - ?rr mod 8)) mod 8" unfolding j_def by (metis mod_add_left_eq mod_add_right_eq)
    also have "?rr mod 8 + (i + 8 - ?rr mod 8) = i + 8"
      using mod_less_divisor [of 8 ?rr] by linarith
    finally show ?thesis using assms(5) by simp
  qed
  moreover have "j < 8" by (simp add: j_def)
  ultimately show ?thesis using event_scan_empty [OF assms(1) len order_refl scan, of j] by simp
qed

section \<open>Reading a snapshot page by page\<close>

text \<open>The body of a GET request.\<close>

definition get_body :: "cstr \<Rightarrow> cstr \<Rightarrow> u32 \<Rightarrow> u16 \<Rightarrow> bytes" where
  "get_body bus dev token first = [1] @ (of_nat (length bus) # bus) @ (of_nat (length dev) # dev) @ be32 token @ be16 first"

lemma request_get_body:
  assumes "name_valid (Some bus)" "name_valid (Some dev)" "token \<noteq> 0"
  shows "bvstk_dcp2_cache_request s r 0x20 (get_body bus dev token first) now capacity =
    cache_get (expire s now) r 0x20 bus dev token first now capacity"
  using assms parse_name_bytes [OF assms(1), of "of_nat (length dev) # dev @ be32 token @ be16 first"]
    parse_name_bytes [OF assms(2), of "be32 token @ be16 first"]
  by (simp add: bvstk_dcp2_cache_request_def get_body_def Let_def be32.rd_enc)
     (use be16.rd_enc [of first "[]"] in simp)

text \<open>
  A client that asks for pages, each from where the last one said to go on, until the last one:
  the bytes of all entries, and the session afterwards.
\<close>

fun get_pages :: "nat \<Rightarrow> bvstk_dcp2_cache_session_t \<Rightarrow> bvstk_cache_registry_t \<Rightarrow> cstr \<Rightarrow> cstr \<Rightarrow> u32 \<Rightarrow> u16 \<Rightarrow> u64 \<Rightarrow> nat \<Rightarrow>
    (bytes \<times> bvstk_dcp2_cache_session_t) option" where
  "get_pages 0 s r bus dev token first now capacity = None"
| "get_pages (Suc n) s r bus dev token first now capacity =
    (case bvstk_dcp2_cache_request s r 0x20 (get_body bus dev token first) now capacity of
       (st, s', out) \<Rightarrow>
         if st \<noteq> 0 then None
         else let nxt = get16 (drop 34 out) in
           if nxt = 0xFFFF then Some (drop 37 out, s')
           else map_option (\<lambda>(bs, s''). (drop 37 out @ bs, s'')) (get_pages n s' r bus dev token nxt now capacity))"

lemma page_ok:
  assumes s: "session_wf s" and first: "first \<le> unat (cs_count (ss_snapshot s))" and cap: "capacity \<ge> 88"
    and progress: "unat (ss_snapshot_progress s) = first"
  obtains n hdr s' where "page s first capacity =
        (0, s', hdr @ concat (map entry_bytes (take n (drop first (cs_entries (ss_snapshot s))))))"
    "length hdr = 37"
    "get16 (drop 34 hdr) = (if first + n = unat (cs_count (ss_snapshot s)) then 0xFFFF else of_nat (first + n))"
    "first + n \<le> unat (cs_count (ss_snapshot s))" "first < unat (cs_count (ss_snapshot s)) \<Longrightarrow> 0 < n"
    "ss_snapshot s' = ss_snapshot s" "ss_snapshot_id s' = ss_snapshot_id s" "ss_snapshot_sub s' = ss_snapshot_sub s"
    "ss_snapshot_activity s' = ss_snapshot_activity s"
    "map sub_id (ss_subscriptions s') = map sub_id (ss_subscriptions s)"
    "unat (ss_snapshot_progress s') = first + n"
    "first + n = unat (cs_count (ss_snapshot s)) \<Longrightarrow> (\<forall>i. subscription s (ss_snapshot_sub s) = Some i \<longrightarrow>
        sub_pending (ss_subscriptions s' ! i) = 0)"
proof -
  let ?v = "ss_snapshot s"
  have v: "length (cs_entries ?v) = unat (cs_count ?v)" "unat (cs_count ?v) \<le> 256" "list_all entry_wf (cs_entries ?v)"
    using s by (simp_all add: session_wf_def snapshot_wf_def)
  obtain n where n: "n \<le> length (drop first (cs_entries ?v))" "page_entries capacity 37 (drop first (cs_entries ?v)) =
      (n, concat (map entry_bytes (take n (drop first (cs_entries ?v)))))"
    "37 + 51 \<le> capacity \<and> drop first (cs_entries ?v) \<noteq> [] \<and> length (ce_id (hd (drop first (cs_entries ?v)))) < 32 \<longrightarrow> 0 < n"
    using page_entries_spec by blast
  have pos: "0 < n" if "first < unat (cs_count ?v)"
  proof -
    have "entry_wf (cs_entries ?v ! first)" using v that by (simp add: list_all_length)
    then show ?thesis using n(3) cap that v entry_wf_id by (simp add: hd_drop_conv_nth)
  qed
  have le: "first + n \<le> unat (cs_count ?v)" using n(1) first v by simp
  have un: "unat (of_nat (first + n) :: u16) = first + n" using le v by (intro unat_of_nat_small) simp
  have wcount: "of_nat (first + n) = cs_count ?v \<longleftrightarrow> first + n = unat (cs_count ?v)"
    using un by (metis word_unat_eq_iff)
  define hdr where "hdr = [1, 0] @ be16 (ss_snapshot_sub s) @ be32 (ss_snapshot_id s) @ be32 (cs_generation ?v) @
      be64 (cs_revision ?v) @ be64 (cs_captured_ms ?v) @ be16 (cs_count ?v) @ be16 (of_nat first) @ be16 (of_nat n) @
      be16 (if first + n = unat (cs_count ?v) then 0xFFFF else of_nat (first + n)) @ [cs_presence ?v]"
  have h37: "length hdr = 37" by (simp add: hdr_def)
  have h34: "drop 34 hdr = be16 (if first + n = unat (cs_count ?v) then 0xFFFF else of_nat (first + n)) @ [cs_presence ?v]"
    by (simp add: hdr_def be16_def be32_def be64_def numeral_eq_Suc)
  define s1 where "s1 = s \<lparr> ss_snapshot_progress := of_nat (first + n) \<rparr>"
  define s' where "s' = (case subscription s (ss_snapshot_sub s) of
      None \<Rightarrow> s1
    | Some i \<Rightarrow> if of_nat (first + n) = cs_count ?v
        then set_sub i ((ss_subscriptions s1 ! i) \<lparr> sub_pending := 0 \<rparr>) s1 else s1)"
  have pg: "page s first capacity = (0, s', hdr @ concat (map entry_bytes (take n (drop first (cs_entries ?v)))))"
  proof -
    have "\<not> (n = 0 \<and> first < unat (cs_count ?v))" using pos by blast
    then show ?thesis
      using first cap n(2) progress
      by (auto simp: page_def Let_def hdr_def s'_def s1_def simp del: of_nat_add split: option.split)
  qed
  show thesis
    using pg h37 _ le pos
  proof (rule that)
    show "get16 (drop 34 hdr) = (if first + n = unat (cs_count ?v) then 0xFFFF else of_nat (first + n))"
      by (simp add: h34 be16.rd_enc)
    show "unat (ss_snapshot_progress s') = first + n"
      by (subst un [symmetric]) (simp add: s'_def s1_def set_sub_def del: of_nat_add split: option.split)
    show "\<forall>i. subscription s (ss_snapshot_sub s) = Some i \<longrightarrow> sub_pending (ss_subscriptions s' ! i) = 0"
      if "first + n = unat (cs_count ?v)"
      using that wcount subscription_Some [of s]
      by (auto simp: s'_def s1_def set_sub_def simp del: of_nat_add)
    show "map sub_id (ss_subscriptions s') = map sub_id (ss_subscriptions s)"
      using subscription_Some [of s "ss_snapshot_sub s"]
      by (auto simp: s'_def s1_def set_sub_def distinct_map_update split: option.split)
  qed (simp_all add: s'_def s1_def set_sub_def split: option.split)
qed

lemma expire_fresh: "now - ss_snapshot_activity s < 30000 \<Longrightarrow> expire s now = s"
  by (auto simp: expire_def dest: leD)

lemma subscription_scan_cong:
  "map sub_id ss = map sub_id ss' \<Longrightarrow> subscription_scan i k ss = subscription_scan i k ss'"
proof (induction ss arbitrary: ss' k)
  case (Cons x ss)
  then show ?case by (cases ss') auto
qed simp

lemma subscription_cong:
  "map sub_id (ss_subscriptions s') = map sub_id (ss_subscriptions s) \<Longrightarrow> subscription s' i = subscription s i"
  by (simp add: subscription_def subscription_scan_cong [of "ss_subscriptions s'" "ss_subscriptions s"])

lemma get_pages_eq:
  assumes "session_wf s" and "capacity \<ge> 88"
    and "name_valid (Some bus)" "name_valid (Some dev)"
    and "token \<noteq> 0" "ss_snapshot_id s = token" "cs_subsystem (ss_snapshot s) = bus" "cs_device (ss_snapshot s) = dev"
    and "now - ss_snapshot_activity s < 30000"
    and "ss_snapshot_progress s = first" "unat first \<le> unat (cs_count (ss_snapshot s))"
    and "unat (cs_count (ss_snapshot s)) - unat first < n"
  shows "\<exists>s'. get_pages n s r bus dev token first now capacity =
      Some (concat (map entry_bytes (drop (unat first) (cs_entries (ss_snapshot s)))), s') \<and>
    (\<forall>i. subscription s (ss_snapshot_sub s) = Some i \<longrightarrow> sub_pending (ss_subscriptions s' ! i) = 0)"
  using assms
proof (induction n arbitrary: s first)
  case (Suc n)
  let ?v = "ss_snapshot s"
  have len: "length (cs_entries ?v) = unat (cs_count ?v)" and c256: "unat (cs_count ?v) \<le> 256"
    using Suc.prems(1) by (simp_all add: session_wf_def snapshot_wf_def)
  have pr: "unat (ss_snapshot_progress s) = unat first" using Suc.prems(10) by simp
  obtain m hdr s1 where pg: "page s (unat first) capacity =
        (0, s1, hdr @ concat (map entry_bytes (take m (drop (unat first) (cs_entries ?v)))))"
    "length hdr = 37"
    "get16 (drop 34 hdr) = (if unat first + m = unat (cs_count ?v) then 0xFFFF else of_nat (unat first + m))"
    "unat first + m \<le> unat (cs_count ?v)" "unat first < unat (cs_count ?v) \<Longrightarrow> 0 < m"
    "ss_snapshot s1 = ?v" "ss_snapshot_id s1 = ss_snapshot_id s" "ss_snapshot_sub s1 = ss_snapshot_sub s"
    "ss_snapshot_activity s1 = ss_snapshot_activity s"
    "map sub_id (ss_subscriptions s1) = map sub_id (ss_subscriptions s)"
    "unat (ss_snapshot_progress s1) = unat first + m"
    "unat first + m = unat (cs_count ?v) \<Longrightarrow> (\<forall>i. subscription s (ss_snapshot_sub s) = Some i \<longrightarrow>
        sub_pending (ss_subscriptions s1 ! i) = 0)"
    using page_ok [OF Suc.prems(1,11,2) pr] by metis
  let ?out = "hdr @ concat (map entry_bytes (take m (drop (unat first) (cs_entries ?v))))"
  let ?s2 = "s1 \<lparr> ss_snapshot_activity := now \<rparr>"
  have req: "bvstk_dcp2_cache_request s r 0x20 (get_body bus dev token first) now capacity = (0, ?s2, ?out)"
    using Suc.prems pg(1) by (simp add: request_get_body expire_fresh cache_get_def)
  have nxt: "get16 (drop 34 ?out) = get16 (drop 34 hdr)"
  proof -
    obtain a b c where "drop 34 hdr = a # b # c" using pg(2) length_ge_2E [of "drop 34 hdr"] by auto
    then show ?thesis using pg(2) by (simp add: get16_def bvstk_dcp2_read_be16_def)
  qed
  have o37: "drop 37 ?out = concat (map entry_bytes (take m (drop (unat first) (cs_entries ?v))))"
    using pg(2) by simp
  show ?case
  proof (cases "unat first + m = unat (cs_count ?v)")
    case True
    then have "take m (drop (unat first) (cs_entries ?v)) = drop (unat first) (cs_entries ?v)" using len by simp
    then show ?thesis using req nxt o37 pg(3,12) True by simp
  next
    case False
    then have m: "0 < m" "unat first + m < unat (cs_count ?v)" using pg(4,5) Suc.prems(11) by auto
    define first' :: u16 where "first' = of_nat (unat first + m)"
    have uf: "unat first' = unat first + m" unfolding first'_def using m c256 by (intro unat_of_nat_small) simp
    then have ne: "first' \<noteq> 0xFFFF" using m c256 by auto
    have wf2: "session_wf ?s2" using session_wf_page [OF Suc.prems(1), of "unat first" capacity] pg(1)
      by (simp add: session_wf_more)
    have "\<exists>s'. get_pages n ?s2 r bus dev token first' now capacity =
        Some (concat (map entry_bytes (drop (unat first') (cs_entries (ss_snapshot ?s2)))), s') \<and>
      (\<forall>i. subscription ?s2 (ss_snapshot_sub ?s2) = Some i \<longrightarrow> sub_pending (ss_subscriptions s' ! i) = 0)"
      using Suc.prems wf2 pg(6-11) m uf by (intro Suc.IH) (simp_all add: word_unat_eq_iff)
    then obtain s' where s': "get_pages n ?s2 r bus dev token first' now capacity =
        Some (concat (map entry_bytes (drop (unat first + m) (cs_entries ?v))), s')"
      "\<forall>i. subscription s (ss_snapshot_sub s) = Some i \<longrightarrow> sub_pending (ss_subscriptions s' ! i) = 0"
      using pg(6,8) subscription_cong [of ?s2 s] pg(10) uf by auto
    have "concat (map entry_bytes (take m (drop (unat first) (cs_entries ?v)))) @
        concat (map entry_bytes (drop (unat first + m) (cs_entries ?v))) =
        concat (map entry_bytes (drop (unat first) (cs_entries ?v)))"
      unfolding map_append [symmetric] concat_append [symmetric]
      by (simp add: add.commute flip: drop_drop)
    then show ?thesis
      using req nxt o37 pg(3) False s' ne by (simp add: first'_def [symmetric] del: of_nat_add)
  qed
qed simp

text \<open>
  C27: Paging delivers a snapshot whole: a client that holds a fresh snapshot token and asks for
  the pages from where it stands, following each page's cursor, receives the remaining entries
  completely, once each and in order, in at most 257 requests, whatever the buffer size as long as
  one entry fits (88 bytes); its decoder recovers the entries, and the subscription created with
  the snapshot is then live.
\<close>

theorem dcp2_cache_paging_complete:
  assumes "session_wf s" and "capacity \<ge> 88"
    and "name_valid (Some bus)" "name_valid (Some dev)"
    and "token \<noteq> 0" "ss_snapshot_id s = token" "cs_subsystem (ss_snapshot s) = bus" "cs_device (ss_snapshot s) = dev"
    and "now - ss_snapshot_activity s < 30000"
    and "ss_snapshot_progress s = first" "unat first \<le> unat (cs_count (ss_snapshot s))"
  shows "\<exists>bs s'. get_pages 257 s r bus dev token first now capacity = Some (bs, s') \<and>
      read_entries (unat (cs_count (ss_snapshot s)) - unat first) bs = drop (unat first) (cs_entries (ss_snapshot s)) \<and>
      (\<forall>i. subscription s (ss_snapshot_sub s) = Some i \<longrightarrow> sub_pending (ss_subscriptions s' ! i) = 0)"
proof -
  let ?es = "drop (unat first) (cs_entries (ss_snapshot s))"
  have v: "length (cs_entries (ss_snapshot s)) = unat (cs_count (ss_snapshot s))" "unat (cs_count (ss_snapshot s)) \<le> 256"
    "list_all entry_wf (cs_entries (ss_snapshot s))"
    using assms(1) by (simp_all add: session_wf_def snapshot_wf_def)
  have "list_all (\<lambda>e. length (ce_id e) < 256) ?es"
    unfolding list_all_iff
  proof
    fix e assume "e \<in> set ?es"
    then have "entry_wf e" using v(3) in_set_dropD by (fastforce simp: list_all_iff)
    then show "length (ce_id e) < 256" using entry_wf_id [of e] by simp
  qed
  then have "read_entries (length ?es) (concat (map entry_bytes ?es)) = ?es" by (rule read_entries_concat)
  moreover have "unat (cs_count (ss_snapshot s)) - unat first < 257" using v(2) by simp
  ultimately show ?thesis using get_pages_eq [OF assms, of 257 r] v(1) by (auto simp del: get_pages.simps)
qed

text \<open>A registry with one device of two registers, and a session that has just subscribed to it.\<close>

definition example_registry :: bvstk_cache_registry_t where
  "example_registry = cache_run [Define 0 (ascii ''i2c'') (ascii ''dev'') 2 1
     (\<lambda>i e. e \<lparr> ce_id := (if i = 0 then ascii ''register_a'' else ascii ''register_b''), ce_width_bits := 8 \<rparr>)] bvstk_cache_init"

definition example_session :: bvstk_dcp2_cache_session_t where
  "example_session = fst (snd (bvstk_dcp2_cache_request bvstk_dcp2_cache_init example_registry 0x21
     ([1, 3] @ ascii ''i2c'' @ [3] @ ascii ''dev'') 5 88))"

lemma example_registry_wf: "registry_wf example_registry"
  unfolding example_registry_def
  using cache_run_init [of "[Define 0 (ascii ''i2c'') (ascii ''dev'') 2 1
     (\<lambda>i e. e \<lparr> ce_id := (if i = 0 then ascii ''register_a'' else ascii ''register_b''), ce_width_bits := 8 \<rparr>)]"]
  by (auto simp: registry_inv_def)

theorem dcp2_cache_paging_complete_witness:
  "\<exists>bs s'. get_pages 257 example_session example_registry (ascii ''i2c'') (ascii ''dev'') 1 1 6 88 = Some (bs, s') \<and>
     map ce_id (read_entries 1 bs) = [ascii ''register_b'']"
proof -
  have wf: "session_wf example_session"
    unfolding example_session_def by (rule session_wf_request [OF session_wf_init example_registry_wf])
  have names: "name_valid (Some (ascii ''i2c''))" "name_valid (Some (ascii ''dev''))" by code_simp+
  have snap: "ss_snapshot_id example_session = 1" "cs_subsystem (ss_snapshot example_session) = ascii ''i2c''"
    "cs_device (ss_snapshot example_session) = ascii ''dev''" "6 - ss_snapshot_activity example_session < 30000"
    "ss_snapshot_progress example_session = 1" "unat (1 :: u16) \<le> unat (cs_count (ss_snapshot example_session))"
    by code_simp+
  have rest: "unat (cs_count (ss_snapshot example_session)) - unat (1 :: u16) = 1"
    "map ce_id (drop (unat (1 :: u16)) (cs_entries (ss_snapshot example_session))) = [ascii ''register_b'']" by code_simp+
  have "(1 :: u32) \<noteq> 0" by simp
  from dcp2_cache_paging_complete [OF wf order_refl names this snap, of example_registry]
  show ?thesis unfolding rest(1) using rest(2) by metis
qed

end
