(* ===== verification/Dcp2_Follow.thy ===== *)
theory Dcp2_Follow
  imports Dcp2_Cache
begin

text \<open>
  The two sides of a DCP2 cache session: a client that subscribes to a device, reads the pages of
  its snapshot and then applies the events it is sent, against the requests and event calls of
  \<open>Dcp2_Cache\<close>, and the turns of the subscriptions of one session.
\<close>

section \<open>Whose turn it is\<close>

text \<open>
  A subscription has something to send with a registry when it was cut off and the client has not
  been told, or when it is live and the registry does not say that it is caught up.
\<close>

definition due :: "bvstk_cache_registry_t \<Rightarrow> bvstk_dcp2_cache_subscription_t \<Rightarrow> bool" where
  "due r x \<longleftrightarrow> sub_id x \<noteq> 0 \<and> sub_paused x \<noteq> 0xFF \<and>
     (sub_paused x \<noteq> 0 \<or>
      sub_pending x = 0 \<and> fst (bvstk_cache_next r (sub_handle x) (sub_generation x) (sub_cursor x)) \<noteq> 0)"

text \<open>The subscription an event is for.\<close>

definition event_id :: "bytes \<Rightarrow> u16" where
  "event_id b = get16 (drop 2 b)"

lemma due_slot: "due r x \<longleftrightarrow> fst (event_slot r now x) \<noteq> None"
  by (auto simp: due_def event_slot_def Let_def split: prod.split option.split)

lemma event_id_sent: "event_slot r now x = (Some b, x') \<Longrightarrow> event_id b = sub_id x"
proof -
  have "event_id (resync_event y t n) = sub_id y" "event_id (change_event y c) = sub_id y" for y t n c
    by (simp_all add: event_id_def resync_event_def change_event_def be16.rd_enc)
  then show "event_slot r now x = (Some b, x') \<Longrightarrow> event_id b = sub_id x"
    by (auto simp: event_slot_def Let_def split: if_splits prod.splits option.splits)
qed

lemma length_set_sub [simp]: "length (ss_subscriptions (set_sub i x s)) = length (ss_subscriptions s)"
  by (simp add: set_sub_def)

lemma expire_slot:
  assumes "i < length (ss_subscriptions s)"
  obtains "ss_subscriptions (expire s now) ! i = ss_subscriptions s ! i"
  | "sub_pending (ss_subscriptions s ! i) \<noteq> 0" "ss_snapshot_id s \<noteq> 0"
    "ss_subscriptions (expire s now) ! i = (ss_subscriptions s ! i)\<lparr>sub_paused := 3\<rparr>"
proof -
  have "ss_subscriptions (expire s now) ! i = ss_subscriptions s ! i \<or>
    sub_pending (ss_subscriptions s ! i) \<noteq> 0 \<and> ss_snapshot_id s \<noteq> 0 \<and>
    ss_subscriptions (expire s now) ! i = (ss_subscriptions s ! i)\<lparr>sub_paused := 3\<rparr>"
    using assms subscription_Some [of s "ss_snapshot_sub s"]
    by (auto simp: expire_def set_sub_def Let_def nth_list_update split: option.split)
  then show thesis using that by blast
qed

lemma length_expire [simp]: "length (ss_subscriptions (expire s now)) = length (ss_subscriptions s)"
  by (simp add: expire_def set_sub_def Let_def split: option.split)

lemma due_expire: "i < length (ss_subscriptions s) \<Longrightarrow> due r (ss_subscriptions s ! i) \<Longrightarrow> due r (ss_subscriptions (expire s now) ! i)"
  by (rule expire_slot [of i s now]) (auto simp: due_def)

lemma expire_ids:
  "i < length (ss_subscriptions s) \<Longrightarrow> sub_id (ss_subscriptions (expire s now) ! i) = sub_id (ss_subscriptions s ! i)"
  by (rule expire_slot [of i s now]) auto

text \<open>How many slots come before slot \<open>i\<close> in the round.\<close>

definition turns :: "bvstk_dcp2_cache_session_t \<Rightarrow> nat \<Rightarrow> nat" where
  "turns s i = (i + 8 - unat (ss_round_robin s) mod 8) mod 8"

lemma turns_0: "i < 8 \<Longrightarrow> turns s i = 0 \<longleftrightarrow> unat (ss_round_robin s) mod 8 = i"
proof -
  assume i: "i < 8"
  have m: "unat (ss_round_robin s) mod 8 < 8" by simp
  show ?thesis
  proof (cases "unat (ss_round_robin s) mod 8 \<le> i")
    case True
    then have "i + 8 - unat (ss_round_robin s) mod 8 = 8 + (i - unat (ss_round_robin s) mod 8)" by simp
    then have "turns s i = (i - unat (ss_round_robin s) mod 8) mod 8" by (simp only: turns_def mod_add_self1)
    then have "turns s i = i - unat (ss_round_robin s) mod 8" using i by simp
    then show ?thesis using True by auto
  next
    case False
    then have "turns s i = i + 8 - unat (ss_round_robin s) mod 8" using m by (simp add: turns_def)
    then show ?thesis using False m by auto
  qed
qed

lemma turns_next:
  assumes "i < 8" "turns s i \<noteq> 0" "ss_round_robin s' = ss_round_robin s + 1"
  shows "Suc (turns s' i) = turns s i"
proof -
  define m where "m = unat (ss_round_robin s) mod 8"
  have m: "m < 8" "m \<noteq> i" using assms turns_0 [of i s] by (auto simp: m_def)
  have "unat (ss_round_robin s') mod 8 = Suc m mod 8" using round_robin_Suc [of "ss_round_robin s"] assms(3) by (simp add: m_def mod_Suc_eq)
  then have t: "turns s' i = (i + 8 - Suc m mod 8) mod 8" "turns s i = (i + 8 - m) mod 8" by (simp_all add: turns_def m_def)
  consider "m < i" | "i < m" "m < 7" | "i < m" "m = 7" using m by linarith
  then show ?thesis
  proof cases
    case 1
    then have "i + 8 - Suc m = 8 + (i - Suc m)" "i + 8 - m = 8 + (i - m)" "Suc m < 8" using assms(1) by simp_all
    then have "turns s' i = (i - Suc m) mod 8" "turns s i = (i - m) mod 8" using t by (simp_all only: mod_less mod_add_self1)
    then show ?thesis using 1 assms(1) by simp
  qed (use assms(1) t in simp_all)
qed

text \<open>A scan that does not reach slot \<open>i\<close>, or finds nothing to send there, leaves it closer to its turn.\<close>

lemma event_scan_progress:
  assumes "registry_wf r"
  shows "i < 8 \<Longrightarrow> length (ss_subscriptions s) = 8 \<Longrightarrow> due r (ss_subscriptions s ! i) \<Longrightarrow> turns s i < n \<Longrightarrow>
    event_scan n r now s = (b, s') \<Longrightarrow>
    b \<noteq> [] \<and> event_id b = sub_id (ss_subscriptions s ! i) \<or>
    turns s' i < turns s i \<and> ss_subscriptions s' ! i = ss_subscriptions s ! i \<and> length (ss_subscriptions s') = 8"
proof (induction n arbitrary: s)
  case (Suc n)
  let ?j = "unat (ss_round_robin s) mod 8"
  obtain out x where x: "event_slot r now (ss_subscriptions s ! ?j) = (out, x)" by fastforce
  define s1 where "s1 = set_sub ?j x (s\<lparr>ss_round_robin := ss_round_robin s + 1\<rparr>)"
  have scan: "(b, s') = (case out of Some c \<Rightarrow> (c, s1) | None \<Rightarrow> event_scan n r now s1)"
  proof -
    have "event_scan (Suc n) r now s = (case out of Some c \<Rightarrow> (c, s1) | None \<Rightarrow> event_scan n r now s1)"
      using x by (cases out) (simp_all add: Let_def s1_def)
    then show ?thesis using Suc.prems(5) by simp
  qed
  have len: "length (ss_subscriptions s1) = 8" using Suc.prems by (simp add: s1_def)
  show ?case
  proof (cases "turns s i = 0")
    case True
    then have j: "?j = i" using Suc.prems turns_0 by simp
    then obtain c where c: "out = Some c" using Suc.prems(3) due_slot [of r _ now] x by fastforce
    then have "28 \<le> length c" using length_event_slot [OF assms, of now "ss_subscriptions s ! ?j" c] x by simp
    then show ?thesis using event_id_sent [of r now "ss_subscriptions s ! ?j"] x c j scan by auto
  next
    case False
    then have j: "?j \<noteq> i" using Suc.prems turns_0 by simp
    then have same: "ss_subscriptions s1 ! i = ss_subscriptions s ! i" by (simp add: s1_def set_sub_def)
    have t: "Suc (turns s1 i) = turns s i" using turns_next [OF Suc.prems(1) False, of s1] by (simp add: s1_def set_sub_def)
    show ?thesis
    proof (cases out)
      case None
      then have "event_scan n r now s1 = (b, s')" using scan by simp
      then show ?thesis using Suc.IH [of s1] Suc.prems len same t by force
    next
      case (Some c)
      then show ?thesis using scan same t len by auto
    qed
  qed
qed simp

text \<open>Event calls one after the other, each with the registry and the time of the call and the size of
  its buffer: what they send.\<close>

fun event_calls :: "(bvstk_cache_registry_t \<times> u64 \<times> nat) list \<Rightarrow> bvstk_dcp2_cache_session_t \<Rightarrow> bytes list" where
  "event_calls [] s = []"
| "event_calls ((r, now, capacity) # calls) s =
    (let (b, s') = bvstk_dcp2_cache_event s r now capacity in b # event_calls calls s')"

lemma event_calls_served:
  "i < 8 \<Longrightarrow> length (ss_subscriptions s) = 8 \<Longrightarrow>
   \<forall>(r, now, capacity) \<in> set calls. registry_wf r \<and> 79 \<le> capacity \<and> due r (ss_subscriptions s ! i) \<Longrightarrow>
   turns s i < length calls \<Longrightarrow>
   \<exists>b \<in> set (event_calls calls s). b \<noteq> [] \<and> event_id b = sub_id (ss_subscriptions s ! i)"
proof (induction calls s rule: event_calls.induct)
  case (2 r now capacity calls s)
  let ?s = "expire s now"
  obtain b s' where e: "bvstk_dcp2_cache_event s r now capacity = (b, s')" by fastforce
  have sc: "event_scan 8 r now ?s = (b, s')" using e 2(4) by (simp add: bvstk_dcp2_cache_event_def Let_def)
  have t8: "turns ?s i < 8" "turns ?s i = turns s i"
    by (simp_all add: turns_def expire_def set_sub_def Let_def split: option.split)
  have due: "due r' (ss_subscriptions ?s ! i)" if "due r' (ss_subscriptions s ! i)" for r'
    using due_expire that 2(2,3) by simp
  have ids: "sub_id (ss_subscriptions ?s ! i) = sub_id (ss_subscriptions s ! i)" using expire_ids 2(2,3) by simp
  have "b \<noteq> [] \<and> event_id b = sub_id (ss_subscriptions ?s ! i) \<or>
      turns s' i < turns ?s i \<and> ss_subscriptions s' ! i = ss_subscriptions ?s ! i \<and> length (ss_subscriptions s') = 8"
    by (rule event_scan_progress [OF _ _ _ _ _ sc]) (use 2(2-4) t8 due in auto)
  then show ?case
  proof
    assume "b \<noteq> [] \<and> event_id b = sub_id (ss_subscriptions ?s ! i)"
    then show ?thesis using e ids by auto
  next
    assume a: "turns s' i < turns ?s i \<and> ss_subscriptions s' ! i = ss_subscriptions ?s ! i \<and> length (ss_subscriptions s') = 8"
    have "\<exists>b \<in> set (event_calls calls s'). b \<noteq> [] \<and> event_id b = sub_id (ss_subscriptions s' ! i)"
      using 2(2,4,5) a t8(2) due by (intro 2(1) [OF e [symmetric] refl]) auto
    then show ?thesis using e a ids by auto
  qed
qed simp

text \<open>
  C28: No subscription starves. While a subscription has something to send, every event call brings
  its turn closer: of any eight consecutive calls with large enough buffers, whatever the position of
  the round robin, the other seven subscriptions, the clock and the changes of the registry between
  the calls, one sends it an event.
\<close>

theorem dcp2_cache_event_fair:
  assumes "session_wf s" and "i < 8" and "length calls = 8"
    and "\<forall>(r, now, capacity) \<in> set calls. registry_wf r \<and> 79 \<le> capacity \<and> due r (ss_subscriptions s ! i)"
  shows "\<exists>b \<in> set (event_calls calls s). b \<noteq> [] \<and> event_id b = sub_id (ss_subscriptions s ! i)"
  by (rule event_calls_served) (use assms session_wf_length in \<open>simp_all add: turns_def\<close>)

text \<open>Two devices with a subscription each, and a change of both.\<close>

definition pair_registry :: bvstk_cache_registry_t where
  "pair_registry = cache_run [Define 0 (ascii ''i2c'') (ascii ''a'') 1 1 (\<lambda>i e. e \<lparr> ce_id := ascii ''r'', ce_width_bits := 8 \<rparr>),
     Define 0 (ascii ''i2c'') (ascii ''b'') 1 1 (\<lambda>i e. e \<lparr> ce_id := ascii ''r'', ce_width_bits := 8 \<rparr>)] bvstk_cache_init"

definition pair_changed :: bvstk_cache_registry_t where
  "pair_changed = cache_run [Put 1 0 7 True 2 5 6, Put 2 0 9 True 2 5 6] pair_registry"

definition pair_session :: bvstk_dcp2_cache_session_t where
  "pair_session = foldl session_step bvstk_dcp2_cache_init
     [Request pair_registry 0x21 ([1, 3] @ ascii ''i2c'' @ [1] @ ascii ''a'') 5 100,
      Request pair_registry 0x21 ([1, 3] @ ascii ''i2c'' @ [1] @ ascii ''b'') 5 100]"

lemma pair_wf: "registry_wf pair_registry" "registry_wf pair_changed" "session_wf pair_session"
proof -
  show r: "registry_wf pair_registry" unfolding pair_registry_def by (rule cache_registry_wf)
  show "registry_wf pair_changed"
    unfolding pair_changed_def pair_registry_def cache_run_def foldl_append [symmetric] by (rule cache_registry_wf [unfolded cache_run_def])
  show "session_wf pair_session"
    unfolding pair_session_def by (rule dcp2_cache_session_wf) (simp add: r)
qed

theorem dcp2_cache_event_fair_witness:
  "\<exists>b \<in> set (event_calls (replicate 8 (pair_changed, 7, 100)) pair_session). b \<noteq> [] \<and> event_id b = 2"
proof -
  have d: "due pair_changed (ss_subscriptions pair_session ! 1)" and i: "sub_id (ss_subscriptions pair_session ! 1) = 2" by code_simp+
  have "\<forall>(r, now, capacity) \<in> set (replicate 8 (pair_changed, 7, 100 :: nat)). registry_wf r \<and> 79 \<le> capacity \<and>
      due r (ss_subscriptions pair_session ! 1)" using d pair_wf(2) by simp
  from dcp2_cache_event_fair [OF pair_wf(3) _ _ this] show ?thesis unfolding i by simp
qed

section \<open>How many events are left\<close>

text \<open>A bound on the events a subscription, and a session, may still send with a registry.\<close>

definition left :: "bvstk_cache_registry_t \<Rightarrow> bvstk_dcp2_cache_subscription_t \<Rightarrow> nat" where
  "left r x =
    (if sub_id x = 0 \<or> sub_paused x = 0xFF then 0
     else if sub_paused x \<noteq> 0 \<or> sub_pending x \<noteq> 0 then 1
     else if sub_cursor x \<le> cr_head r \<and> unat (cr_head r) - unat (sub_cursor x) \<le> 512
       then Suc (unat (cr_head r) - unat (sub_cursor x))
     else 1)"

definition all_left :: "bvstk_cache_registry_t \<Rightarrow> bvstk_dcp2_cache_session_t \<Rightarrow> nat" where
  "all_left r s = (if ss_snapshot_id s = 0 then 0 else 1) + sum_list (map (left r) (ss_subscriptions s))"

lemma left_le: "left r x \<le> 513"
  by (simp add: left_def)

lemma next_scan_moves:
  "next_scan n j h c = (c', out) \<Longrightarrow> \<exists>m \<le> n. c' = c + of_nat m \<and> (out = None \<longrightarrow> m = n) \<and> (out \<noteq> None \<longrightarrow> 0 < m)"
proof (induction n arbitrary: c)
  case (Suc n)
  show ?case
  proof (cases "cc_handle (j ! (unat c mod 512)) = h")
    case True
    then show ?thesis using Suc.prems by (intro exI [of _ 1]) (auto simp: Let_def)
  next
    case False
    then have "next_scan n j h (c + 1) = (c', out)" using Suc.prems by (simp add: Let_def)
    from Suc.IH [OF this] obtain m where "m \<le> n" "c' = c + 1 + of_nat m" "out = None \<longrightarrow> m = n" by blast
    then show ?thesis by (intro exI [of _ "Suc m"]) auto
  qed
qed simp

lemma cache_next_moves:
  assumes "bvstk_cache_next r h g c = (res, c', out)" and "res = 0 \<or> out \<noteq> None"
  shows "c \<le> cr_head r" "unat (cr_head r) - unat c \<le> 512" "c' \<le> cr_head r" "unat c \<le> unat c'"
    "res = 0 \<Longrightarrow> c' = cr_head r" "res \<noteq> 0 \<Longrightarrow> unat c < unat c'"
    "\<exists>d. device r h = Some d \<and> cs_generation d = g"
proof -
  from assms obtain d where d: "device r h = Some d" "cs_generation d = g"
    and in_range: "\<not> c > cr_head r" "\<not> cr_head r - c > of_nat 512"
    and scan: "next_scan (unat (cr_head r) - unat c) (cr_journal r) h c = (c', out)" "res = 0 \<longleftrightarrow> out = None"
    by (auto simp: bvstk_cache_next_def split: option.splits if_splits prod.splits)
  show le: "c \<le> cr_head r" using in_range by simp
  then have sub: "unat (cr_head r - c) = unat (cr_head r) - unat c" by (simp add: unat_sub)
  then show "unat (cr_head r) - unat c \<le> 512" using in_range by (simp add: word_less_nat_alt)
  obtain m where m: "m \<le> unat (cr_head r) - unat c" "c' = c + of_nat m" "out = None \<longrightarrow> m = unat (cr_head r) - unat c" "out \<noteq> None \<longrightarrow> 0 < m"
    using next_scan_moves [OF scan(1)] by blast
  have ul: "unat c \<le> unat (cr_head r)" using le by (simp add: word_le_nat_alt)
  have hb: "unat (cr_head r) < 2 ^ 64" using unat_less_two_power [of "cr_head r"] by simp
  have u: "unat c' = unat c + m"
  proof -
    have "unat (of_nat m :: u64) = m" using m(1) hb by (intro unat_of_nat_small) simp
    then show ?thesis using m(1,2) ul hb by (simp add: unat_word_ariths)
  qed
  show "c' \<le> cr_head r" "unat c \<le> unat c'" using u m(1) ul by (simp_all add: word_le_nat_alt)
  show "res = 0 \<Longrightarrow> c' = cr_head r" using scan(2) u m(3) ul by (simp add: word_unat_eq_iff)
  show "res \<noteq> 0 \<Longrightarrow> unat c < unat c'" using scan(2) u m(4) by simp
  show "\<exists>d. device r h = Some d \<and> cs_generation d = g" using d by blast
qed

lemma left_event_slot:
  assumes "event_slot r now x = (out, x')"
  shows "left r x' \<le> left r x" "out \<noteq> None \<Longrightarrow> left r x' < left r x"
proof -
  have "left r x' \<le> left r x \<and> (out \<noteq> None \<longrightarrow> left r x' < left r x)"
  proof (cases "sub_id x = 0 \<or> sub_paused x \<noteq> 0 \<or> sub_pending x \<noteq> 0")
    case True
    then show ?thesis using assms by (auto simp: event_slot_def left_def split: if_splits)
  next
    case False
    then have live: "sub_id x \<noteq> 0" "sub_paused x = 0" "sub_pending x = 0" by simp_all
    obtain res c' o' where nx: "bvstk_cache_next r (sub_handle x) (sub_generation x) (sub_cursor x) = (res, c', o')"
      by (metis prod_cases3)
    have pos: "0 < left r x" using live by (simp add: left_def)
    have off: "left r (y\<lparr>sub_pending := 0, sub_paused := 0xFF\<rparr>) = 0" for y by (simp add: left_def)
    show ?thesis
    proof (cases "res = 0 \<or> o' \<noteq> None")
      case False
      then have "left r x' = 0" using assms live nx by (auto simp: event_slot_def Let_def off)
      then show ?thesis using pos by simp
    next
      case True
      note mv = cache_next_moves [OF nx True]
      have lx: "left r x = Suc (unat (cr_head r) - unat (sub_cursor x))" using live mv(1,2) by (simp add: left_def)
      have l': "left r (x\<lparr>sub_cursor := c', sub_revision := v\<rparr>) = Suc (unat (cr_head r) - unat c')"
        "left r (x\<lparr>sub_cursor := c'\<rparr>) = Suc (unat (cr_head r) - unat c')" for v
        using live mv(2-4) by (simp_all add: left_def)
      have hd: "unat c' \<le> unat (cr_head r)" using mv(3) by (simp add: word_le_nat_alt)
      show ?thesis
      proof (cases "res = 0")
        case True
        then have "x' = x\<lparr>sub_cursor := c'\<rparr>" "out = None" using assms live nx by (simp_all add: event_slot_def Let_def)
        then show ?thesis using lx l' mv(4) by simp
      next
        case False
        then obtain c where "o' = Some c" using True by blast
        then have "left r x' = 0 \<or> left r x' = Suc (unat (cr_head r) - unat c')"
          using assms live nx False l' off by (auto simp: event_slot_def Let_def split: if_splits)
        then show ?thesis using lx mv(6) [OF False] hd by auto
      qed
    qed
  qed
  then show "left r x' \<le> left r x" "out \<noteq> None \<Longrightarrow> left r x' < left r x" by auto
qed

text \<open>A slot with nothing to send has nothing to send afterwards either.\<close>

lemma event_slot_idle:
  assumes "event_slot r now x = (None, x')"
  shows "event_slot r now' x' = (None, x')" "event_slot r now' x = (None, x')"
proof -
  have "event_slot r now' x' = (None, x') \<and> event_slot r now' x = (None, x')"
  proof (cases "sub_id x = 0 \<or> sub_paused x \<noteq> 0 \<or> sub_pending x \<noteq> 0")
    case True
    then show ?thesis using assms by (auto simp: event_slot_def split: if_splits)
  next
    case False
    then have live: "sub_id x \<noteq> 0" "sub_paused x = 0" "sub_pending x = 0" by simp_all
    obtain res c' o' where nx: "bvstk_cache_next r (sub_handle x) (sub_generation x) (sub_cursor x) = (res, c', o')"
      by (metis prod_cases3)
    have res: "res = 0" "x' = x\<lparr>sub_cursor := c'\<rparr>" using assms live nx
      by (auto simp: event_slot_def Let_def split: if_splits option.splits)
    note mv = cache_next_moves [OF nx]
    obtain d where d: "device r (sub_handle x) = Some d" "cs_generation d = sub_generation x" "c' = cr_head r"
      using mv(5,7) res by blast
    then have "bvstk_cache_next r (sub_handle x) (sub_generation x) c' = (0, c', None)"
      by (simp add: bvstk_cache_next_def)
    then show ?thesis using res live nx by (simp add: event_slot_def Let_def)
  qed
  then show "event_slot r now' x' = (None, x')" "event_slot r now' x = (None, x')" by auto
qed

text \<open>
  A scan seen from one live slot: either the slot is served, or an event of another subscription or
  nothing is sent and the slot is as idle as before.
\<close>

lemma event_scan_slot:
  assumes "registry_wf r" and "k < 8"
  shows "session_wf s \<Longrightarrow> sub_id (ss_subscriptions s ! k) \<noteq> 0 \<Longrightarrow> event_scan n r now s = (b, s') \<Longrightarrow>
    ss_snapshot_id s' = ss_snapshot_id s \<and> all_left r s' \<le> all_left r s \<and> (b \<noteq> [] \<longrightarrow> all_left r s' < all_left r s) \<and>
    (event_slot r now (ss_subscriptions s ! k) = (Some b, ss_subscriptions s' ! k) \<and> b \<noteq> [] \<or>
     (ss_subscriptions s' ! k = ss_subscriptions s ! k \<or> event_slot r now (ss_subscriptions s ! k) = (None, ss_subscriptions s' ! k)) \<and>
     (b = [] \<or> event_id b \<noteq> sub_id (ss_subscriptions s ! k)))"
proof (induction n arbitrary: s)
  case (Suc n)
  let ?j = "unat (ss_round_robin s) mod 8"
  obtain out x where x: "event_slot r now (ss_subscriptions s ! ?j) = (out, x)" by fastforce
  define s1 where "s1 = set_sub ?j x (s\<lparr>ss_round_robin := ss_round_robin s + 1\<rparr>)"
  have len: "length (ss_subscriptions s) = 8" using Suc.prems(1) by (rule session_wf_length)
  have scan: "(b, s') = (case out of Some c \<Rightarrow> (c, s1) | None \<Rightarrow> event_scan n r now s1)"
  proof -
    have "event_scan (Suc n) r now s = (case out of Some c \<Rightarrow> (c, s1) | None \<Rightarrow> event_scan n r now s1)"
      using x by (cases out) (simp_all add: Let_def s1_def)
    then show ?thesis using Suc.prems(3) by simp
  qed
  have ids: "sub_id x = sub_id (ss_subscriptions s ! ?j)" "sub_handle x = sub_handle (ss_subscriptions s ! ?j)"
    using event_slot_keeps [of r now "ss_subscriptions s ! ?j"] x by simp_all
  have wf1: "session_wf s1" unfolding s1_def using Suc.prems(1) ids
    by (intro session_wf_set_sub_same) (simp_all add: session_wf_more)
  have subs1: "ss_subscriptions s1 ! k = (if k = ?j then x else ss_subscriptions s ! k)" "ss_snapshot_id s1 = ss_snapshot_id s"
    using len by (simp_all add: s1_def set_sub_def)
  have total: "all_left r s1 + left r (ss_subscriptions s ! ?j) = all_left r s + left r x"
  proof -
    have "left r (ss_subscriptions s ! ?j) \<le> sum_list (map (left r) (ss_subscriptions s))"
      by (rule member_le_sum_list) (simp_all add: len)
    then show ?thesis using len by (simp add: all_left_def s1_def set_sub_def map_update sum_list_update)
  qed
  note lf = left_event_slot [OF x]
  show ?case
  proof (cases out)
    case (Some c)
    then have b: "b = c" "s' = s1" using scan by simp_all
    have "28 \<le> length c" using length_event_slot [OF assms(1), of now "ss_subscriptions s ! ?j" c] x Some by simp
    moreover have "event_id c = sub_id (ss_subscriptions s ! ?j)" using event_id_sent [of r now "ss_subscriptions s ! ?j"] x Some by simp
    moreover have "k \<noteq> ?j \<Longrightarrow> sub_id (ss_subscriptions s ! ?j) \<noteq> sub_id (ss_subscriptions s ! k)"
      using Suc.prems(1,2) assms(2) unfolding session_wf_def subs_wf_def by (metis mod_less_divisor zero_less_numeral)
    moreover have "left r x < left r (ss_subscriptions s ! ?j)" using lf(2) Some by simp
    ultimately show ?thesis using b total subs1 x Some by (cases "k = ?j") auto
  next
    case None
    then have go: "event_scan n r now s1 = (b, s')" using scan by simp
    have id1: "sub_id (ss_subscriptions s1 ! k) = sub_id (ss_subscriptions s ! k)" using subs1 ids by simp
    note ih = Suc.IH [OF wf1 _ go, unfolded id1, OF Suc.prems(2)]
    show ?thesis
    proof (cases "k = ?j")
      case False
      then show ?thesis using ih lf total subs1 by auto
    next
      case True
      then have k: "ss_subscriptions s1 ! k = x" "event_slot r now (ss_subscriptions s ! k) = (None, x)" using subs1 x None by simp_all
      have "event_slot r now x = (None, x)" using event_slot_idle(1) [OF k(2)] .
      then show ?thesis using ih lf total subs1 k unfolding k(1) by auto
    qed
  qed
qed simp

section \<open>A client in step\<close>

text \<open>
  A client with subscription \<open>i\<close> and its copy \<open>d\<close> of the device: it takes what the session sends, the
  \<open>n\<close>th call at time \<open>clock n\<close>, leaves the events of other subscriptions to their owners, applies its
  own and starts over on RESYNC, until a call sends nothing. \<open>Waiting\<close> is that the calls allowed were
  not enough.
\<close>

datatype client_result = InStep bvstk_cache_snapshot_t | StartOver int | Waiting

fun client_follow :: "nat \<Rightarrow> bvstk_dcp2_cache_session_t \<Rightarrow> bvstk_cache_registry_t \<Rightarrow> (nat \<Rightarrow> u64) \<Rightarrow> nat \<Rightarrow> u16 \<Rightarrow>
    bvstk_cache_snapshot_t \<Rightarrow> client_result" where
  "client_follow 0 s r clock capacity i d = Waiting"
| "client_follow (Suc n) s r clock capacity i d =
    (let (b, s') = bvstk_dcp2_cache_event s r (clock n) capacity in
     if b = [] then InStep d
     else if event_id b \<noteq> i then client_follow n s' r clock capacity i d
     else if b ! 1 = BVSTK_DCP2_CACHE_RESYNC then StartOver (uint (b ! 25))
     else client_follow n s' r clock capacity i (apply_event b d))"

fun client_of :: "catch_up_result \<Rightarrow> client_result" where
  "client_of (Synced d c) = InStep d"
| "client_of (Resync n) = StartOver n"
| "client_of Unfinished = Waiting"

lemma event_slot_pending: "sub_pending x = 0 \<Longrightarrow> sub_pending (snd (event_slot r now x)) = 0"
  by (auto simp: event_slot_def Let_def split: prod.split option.split)

lemma event_slot_when:
  assumes "event_slot r now x = (Some b, x')"
  shows "\<exists>b'. event_slot r now' x = (Some b', x') \<and> b' ! 1 = b ! 1 \<and>
    (if b ! 1 = 3 then b' ! 25 = b ! 25 else b' = b)"
proof -
  have "resync_event y t n ! 1 = 3" "resync_event y t n ! 25 = of_nat n" for y t n
    using resync_event_fields by simp_all
  then show ?thesis using assms by (auto simp: event_slot_def Let_def split: if_splits prod.splits option.splits)
qed

lemma follow_when: "follow n r now x d = follow n r now' x d"
proof (induction n arbitrary: x d)
  case (Suc n)
  obtain out x' where x: "event_slot r now x = (out, x')" by fastforce
  show ?case
  proof (cases out)
    case None
    then show ?thesis using x event_slot_idle(2) [of r now x x' now'] by simp
  next
    case (Some b)
    then show ?thesis using x event_slot_when [of r now x b x' now'] Suc by (auto split: if_splits)
  qed
qed simp

lemma all_left_expire: "session_wf s \<Longrightarrow> all_left r (expire s now) \<le> all_left r s"
proof -
  assume wf: "session_wf s"
  have len: "length (ss_subscriptions s) = 8" using wf by (rule session_wf_length)
  have one: "sum_list (map (left r) ((ss_subscriptions s)[j := (ss_subscriptions s ! j)\<lparr>sub_paused := 3\<rparr>])) \<le>
      Suc (sum_list (map (left r) (ss_subscriptions s)))" if "j < 8" for j
  proof -
    have "left r ((ss_subscriptions s ! j)\<lparr>sub_paused := 3\<rparr>) \<le> 1" by (simp add: left_def)
    moreover have "left r (ss_subscriptions s ! j) \<le> sum_list (map (left r) (ss_subscriptions s))"
      by (rule member_le_sum_list) (use that in \<open>simp_all add: len\<close>)
    ultimately show ?thesis using that len by (simp add: map_update sum_list_update)
  qed
  show ?thesis using one subscription_Some [of s "ss_snapshot_sub s"] len
    by (auto simp: expire_def Let_def all_left_def set_sub_def split: option.split)
qed

lemma client_follow_eq:
  assumes r: "registry_wf r" and k: "k < 8" and cap: "79 \<le> capacity"
  shows "session_wf s \<Longrightarrow> ss_subscriptions s ! k = x \<Longrightarrow> sub_id x = i \<Longrightarrow> i \<noteq> 0 \<Longrightarrow> sub_pending x = 0 \<Longrightarrow>
    all_left r s < n \<Longrightarrow> follow m r now x d \<noteq> Unfinished \<Longrightarrow>
    client_follow n s r clock capacity i d = client_of (follow m r now x d)"
proof (induction n arbitrary: s x m d)
  case (Suc n)
  let ?t = "clock n" and ?s = "expire s (clock n)"
  obtain b s' where e: "bvstk_dcp2_cache_event s r ?t capacity = (b, s')" by fastforce
  then have sc: "event_scan 8 r ?t ?s = (b, s')" using cap by (simp add: bvstk_dcp2_cache_event_def Let_def)
  have wf: "session_wf ?s" "session_wf s'"
    using Suc.prems(1) session_wf_expire session_wf_event [OF Suc.prems(1), of r ?t capacity] e by simp_all
  have len: "length (ss_subscriptions s) = 8" using Suc.prems(1) by (rule session_wf_length)
  have sx: "ss_subscriptions ?s ! k = x"
    by (rule expire_slot [of k s ?t]) (use Suc.prems k len in auto)
  have al: "all_left r ?s \<le> all_left r s" using Suc.prems(1) by (rule all_left_expire)
  have run: "all_left r s' \<le> all_left r ?s" "b \<noteq> [] \<Longrightarrow> all_left r s' < all_left r ?s"
    and slot: "event_slot r ?t x = (Some b, ss_subscriptions s' ! k) \<and> b \<noteq> [] \<or>
      (ss_subscriptions s' ! k = x \<or> event_slot r ?t x = (None, ss_subscriptions s' ! k)) \<and> (b = [] \<or> event_id b \<noteq> i)"
    using event_scan_slot [OF r k wf(1) _ sc] Suc.prems(3,4) sx by auto
  obtain m' where m: "m = Suc m'" using Suc.prems(7) by (cases m) auto
  have at_t: "follow m r now x d = follow m r ?t x d" by (rule follow_when)
  have step: "client_follow (Suc n) s r clock capacity i d =
     (if b = [] then InStep d else if event_id b \<noteq> i then client_follow n s' r clock capacity i d
      else if b ! 1 = 3 then StartOver (uint (b ! 25)) else client_follow n s' r clock capacity i (apply_event b d))"
    by (simp add: e)
  show ?case
  proof (cases "b = []")
    case True
    then have "fst (event_slot r ?t x) = None" using event_quiet [OF r Suc.prems(1) cap _ k, of ?t] e sx by simp
    then obtain x' where "event_slot r ?t x = (None, x')" by (metis prod.collapse)
    then show ?thesis unfolding step at_t unfolding m using True by simp
  next
    case b: False
    have dec: "all_left r s' < n" using run(2) [OF b] al Suc.prems(6) by linarith
    from slot show ?thesis
    proof
      assume a: "event_slot r ?t x = (Some b, ss_subscriptions s' ! k) \<and> b \<noteq> []"
      then have id: "event_id b = i" using event_id_sent Suc.prems(3) by blast
      show ?thesis
      proof (cases "b ! 1 = 3")
        case True
        then show ?thesis unfolding step at_t unfolding m using a id by simp
      next
        case False
        let ?x = "ss_subscriptions s' ! k"
        have keep: "sub_id ?x = i" "sub_pending ?x = 0"
          using event_slot_keeps(1) [of r ?t x] event_slot_pending [of x r ?t] a Suc.prems(3,5) by simp_all
        have "follow m r now x d = follow m' r ?t ?x (apply_event b d)" unfolding at_t unfolding m using a False by simp
        also have "\<dots> = follow m' r now ?x (apply_event b d)" by (rule follow_when)
        finally have f: "follow m r now x d = follow m' r now ?x (apply_event b d)" .
        have "client_follow n s' r clock capacity i (apply_event b d) = client_of (follow m' r now ?x (apply_event b d))"
          using Suc.prems(4,7) keep dec f by (intro Suc.IH [OF wf(2)]) simp_all
        then show ?thesis unfolding step f using b id False by simp
      qed
    next
      assume a: "(ss_subscriptions s' ! k = x \<or> event_slot r ?t x = (None, ss_subscriptions s' ! k)) \<and> (b = [] \<or> event_id b \<noteq> i)"
      let ?x = "ss_subscriptions s' ! k"
      have "follow m r now x d = follow m r ?t ?x d"
        using a event_slot_idle(1) [of r ?t x ?x ?t] unfolding at_t unfolding m by (cases "?x = x") auto
      also have "\<dots> = follow m r now ?x d" by (rule follow_when)
      finally have f: "follow m r now x d = follow m r now ?x d" .
      have keep: "sub_id ?x = i" "sub_pending ?x = 0"
        using a event_slot_keeps(1) [of r ?t x] event_slot_pending [of x r ?t] Suc.prems(3,5) by auto
      have "client_follow n s' r clock capacity i d = client_of (follow m r now ?x d)"
        using Suc.prems(4,7) keep dec f by (intro Suc.IH [OF wf(2)]) simp_all
      then show ?thesis unfolding step f using b a by auto
    qed
  qed
qed simp

section \<open>Subscribing\<close>

definition subscribe_body :: "cstr \<Rightarrow> cstr \<Rightarrow> bytes" where
  "subscribe_body bus dev = [1] @ (of_nat (length bus) # bus) @ (of_nat (length dev) # dev)"

text \<open>The device as a client reads it: the fields of a page's header and the entries of all the pages.\<close>

definition client_view :: "cstr \<Rightarrow> cstr \<Rightarrow> bytes \<Rightarrow> bytes \<Rightarrow> bvstk_cache_snapshot_t" where
  "client_view bus dev header entries =
     \<lparr> cs_subsystem = bus, cs_device = dev, cs_generation = get32 (drop 8 header), cs_revision = get64 (drop 12 header),
       cs_captured_ms = get64 (drop 20 header), cs_count = get16 (drop 28 header), cs_presence = header ! 36,
       cs_entries = read_entries (unat (get16 (drop 28 header))) entries \<rparr>"

text \<open>
  A client that subscribes at time \<open>now\<close> and, when the reply is not the only page, reads the others at
  time \<open>later\<close> with the token of the first: its subscription, its copy of the device and the session.
  The registry may have changed to \<open>r1\<close> by then.
\<close>

definition subscribe_client :: "bvstk_dcp2_cache_session_t \<Rightarrow> bvstk_cache_registry_t \<Rightarrow> bvstk_cache_registry_t \<Rightarrow> cstr \<Rightarrow> cstr \<Rightarrow>
    u64 \<Rightarrow> u64 \<Rightarrow> nat \<Rightarrow> (u16 \<times> bvstk_cache_snapshot_t \<times> bvstk_dcp2_cache_session_t) option" where
  "subscribe_client s r r1 bus dev now later capacity =
    (case bvstk_dcp2_cache_request s r BVSTK_DCP2_CACHE_SUBSCRIBE (subscribe_body bus dev) now capacity of
       (st, s1, out) \<Rightarrow>
         if st \<noteq> 0 then None
         else if get16 (drop 34 out) = 0xFFFF
           then Some (get16 (drop 2 out), client_view bus dev out (drop 37 out), s1)
         else map_option (\<lambda>(more, s2). (get16 (drop 2 out), client_view bus dev out (drop 37 out @ more), s2))
           (get_pages 257 s1 r1 bus dev (get32 (drop 4 out)) (get16 (drop 34 out)) later capacity))"

lemma request_subscribe:
  assumes "name_valid (Some bus)" "name_valid (Some dev)"
  shows "bvstk_dcp2_cache_request s r 0x21 (subscribe_body bus dev) now capacity =
    cache_get (expire s now) r 0x21 bus dev 0 0 now capacity"
  using parse_name_bytes [OF assms(1), of "of_nat (length dev) # dev"] parse_name_bytes [OF assms(2), of "[]"]
  by (simp add: bvstk_dcp2_cache_request_def subscribe_body_def Let_def)

lemma subs_wf_cong:
  assumes "map sub_id a = map sub_id b" "map sub_handle a = map sub_handle b"
  shows "subs_wf a n = subs_wf b n"
proof -
  have len: "length a = length b" using assms(1) map_eq_imp_length_eq by blast
  have nth: "sub_id (a ! i) = sub_id (b ! i)" "sub_handle (a ! i) = sub_handle (b ! i)" if "i < length b" for i
    using assms that len by (metis nth_map)+
  show ?thesis by (cases "length b = 8") (simp_all add: subs_wf_def len nth cong: imp_cong)
qed

text \<open>A page changes nothing of a subscription but whether it is pending.\<close>

lemma page_slot:
  assumes "page s first capacity = (st, s', out)"
  shows "length (ss_subscriptions s') = length (ss_subscriptions s)" "ss_next_sub s' = ss_next_sub s" "ss_snapshot s' = ss_snapshot s"
    "ss_snapshot_activity s' = ss_snapshot_activity s" "ss_snapshot_id s' = ss_snapshot_id s"
    "\<exists>p. ss_subscriptions s' ! j = (ss_subscriptions s ! j)\<lparr>sub_pending := p\<rparr>"
proof -
  have same: "\<exists>p. x = x\<lparr>sub_pending := p\<rparr>" for x :: bvstk_dcp2_cache_subscription_t
    by (rule exI [of _ "sub_pending x"]) simp
  have upd: "\<exists>p. xs[i := (xs ! i)\<lparr>sub_pending := 0\<rparr>] ! j = (xs ! j)\<lparr>sub_pending := p\<rparr>"
    for xs :: "bvstk_dcp2_cache_subscription_t list" and i
    using same [of "xs ! j"] by (cases "i = j"; cases "j < length xs") (auto simp: list_update_beyond not_less)
  show "length (ss_subscriptions s') = length (ss_subscriptions s)" "ss_next_sub s' = ss_next_sub s" "ss_snapshot s' = ss_snapshot s"
    "ss_snapshot_activity s' = ss_snapshot_activity s" "ss_snapshot_id s' = ss_snapshot_id s"
    using assms by (auto simp: page_def Let_def set_sub_def split: if_splits prod.splits option.splits)
  show "\<exists>p. ss_subscriptions s' ! j = (ss_subscriptions s ! j)\<lparr>sub_pending := p\<rparr>"
    using assms same upd by (auto simp: page_def Let_def set_sub_def split: if_splits prod.splits option.splits)
qed

lemma page_keeps_wf:
  assumes "page s first capacity = (st, s', out)"
  shows "session_wf s' = session_wf s"
proof -
  note p = page_slot [OF assms]
  have "map f (ss_subscriptions s') = map f (ss_subscriptions s)" if "\<And>x p. f (x\<lparr>sub_pending := p\<rparr>) = f x" for f :: "_ \<Rightarrow> 'a"
  proof (rule nth_equalityI)
    fix j assume "j < length (map f (ss_subscriptions s'))"
    moreover obtain q where "ss_subscriptions s' ! j = (ss_subscriptions s ! j)\<lparr>sub_pending := q\<rparr>" using p(6) by blast
    ultimately show "map f (ss_subscriptions s') ! j = map f (ss_subscriptions s) ! j" using p(1) that by simp
  qed (simp add: p(1))
  from this [of sub_id] this [of sub_handle] show ?thesis
    using subs_wf_cong [of "ss_subscriptions s'" "ss_subscriptions s"] by (simp add: session_wf_def p)
qed

text \<open>What the header of a page says.\<close>

lemma page_header:
  assumes "page s first capacity = (0, s', out)"
  shows "get16 (drop 2 out) = ss_snapshot_sub s" "get32 (drop 4 out) = ss_snapshot_id s"
    "get32 (drop 8 out) = cs_generation (ss_snapshot s)" "get64 (drop 12 out) = cs_revision (ss_snapshot s)"
    "get64 (drop 20 out) = cs_captured_ms (ss_snapshot s)" "get16 (drop 28 out) = cs_count (ss_snapshot s)"
    "out ! 36 = cs_presence (ss_snapshot s)"
proof -
  let ?v = "ss_snapshot s"
  obtain count entries where pe: "page_entries capacity 37 (drop first (cs_entries ?v)) = (count, entries)" by fastforce
  then have out: "out = [1, 0] @ be16 (ss_snapshot_sub s) @ be32 (ss_snapshot_id s) @ be32 (cs_generation ?v) @
      be64 (cs_revision ?v) @ be64 (cs_captured_ms ?v) @ be16 (cs_count ?v) @ be16 (of_nat first) @ be16 (of_nat count) @
      be16 (if first + count = unat (cs_count ?v) then 0xFFFF else of_nat (first + count)) @ [cs_presence ?v] @ entries"
    using assms by (auto simp: page_def Let_def split: if_splits)
  have "drop 2 out = be16 (ss_snapshot_sub s) @ drop 4 out" "drop 4 out = be32 (ss_snapshot_id s) @ drop 8 out"
    "drop 8 out = be32 (cs_generation ?v) @ drop 12 out" "drop 12 out = be64 (cs_revision ?v) @ drop 20 out"
    "drop 20 out = be64 (cs_captured_ms ?v) @ drop 28 out" "drop 28 out = be16 (cs_count ?v) @ drop 30 out"
    by (simp_all add: out be16_def be32_def be64_def numeral_eq_Suc)
  then show "get16 (drop 2 out) = ss_snapshot_sub s" "get32 (drop 4 out) = ss_snapshot_id s" "get32 (drop 8 out) = cs_generation ?v"
    "get64 (drop 12 out) = cs_revision ?v" "get64 (drop 20 out) = cs_captured_ms ?v" "get16 (drop 28 out) = cs_count ?v"
    by (simp_all only: be16.rd_enc be32.rd_enc get64_be64)
  show "out ! 36 = cs_presence ?v" by (simp add: out be16_def be32_def be64_def numeral_eq_Suc)
qed

text \<open>A subscription that was answered, up to its first page.\<close>

lemma capture_subscribed:
  assumes s: "session_wf s" and r: "registry_wf r" and c: "capture s r 0x21 bus dev now capacity = (0, s', out)"
  obtains snap h cur k i s0 where
    "bvstk_cache_snapshot (Some r) (Some bus) (Some dev) True True True now = (BVSTK_OK, Some (snap, h, cur))"
    "page s0 0 capacity = (0, s', out)" "session_wf s0" "k < 8" "i \<noteq> 0"
    "ss_subscriptions s0 ! k = \<lparr> sub_cursor = cur, sub_revision = cs_revision snap, sub_generation = cs_generation snap,
       sub_id = i, sub_handle = h, sub_pending = 1, sub_paused = 0 \<rparr>"
    "ss_snapshot s0 = snap" "ss_snapshot_id s0 \<noteq> 0" "ss_snapshot_sub s0 = i" "ss_snapshot_progress s0 = 0"
    "ss_snapshot_activity s0 = now"
proof -
  have wf': "session_wf s'" using session_wf_capture [OF s r] c by (metis fst_conv snd_conv)
  obtain snap h cur where snap: "bvstk_cache_snapshot (Some r) (Some bus) (Some dev) True True True now =
      (BVSTK_OK, Some (snap, h, cur))"
    using c by (auto simp: capture_def split: prod.splits bvstk_status_t.splits option.splits)
  define s1 where "s1 = s \<lparr> ss_snapshot := snap, ss_snapshot_id := 0, ss_snapshot_sub := 0, ss_snapshot_progress := 0 \<rparr>"
  define g where "g = (if ss_next_snapshot s + 1 = 0 then ss_next_snapshot s + 1 + 1 else ss_next_snapshot s + 1)"
  have g: "g \<noteq> 0" by (simp add: g_def)
  have len: "length (ss_subscriptions s1) = 8" using s by (simp add: s1_def session_wf_length)
  define sub where "sub = (case handle_scan h 0 (ss_subscriptions s1) of Some k \<Rightarrow> Some k | None \<Rightarrow> free_scan 0 (ss_subscriptions s1))"
  have cap: "capture s r 0x21 bus dev now capacity = (case sub of None \<Rightarrow> (4, s1, [])
      | Some k \<Rightarrow> if sub_id (ss_subscriptions s1 ! k) = 0 \<and> ss_next_sub s1 = -1 then (4, s1, [])
        else let (s2, i) = (if sub_id (ss_subscriptions s1 ! k) = 0 then (s1 \<lparr> ss_next_sub := ss_next_sub s1 + 1 \<rparr>, ss_next_sub s1 + 1)
               else (s1, sub_id (ss_subscriptions s1 ! k)));
             x = \<lparr> sub_cursor = cur, sub_revision = cs_revision snap, sub_generation = cs_generation snap,
               sub_id = i, sub_handle = h, sub_pending = 1, sub_paused = 0 \<rparr>;
             s3 = set_sub k x s2 \<lparr> ss_snapshot_sub := i \<rparr>;
             g = (if ss_next_snapshot s3 + 1 = 0 then ss_next_snapshot s3 + 1 + 1 else ss_next_snapshot s3 + 1)
        in page (s3 \<lparr> ss_next_snapshot := g, ss_snapshot_id := g, ss_snapshot_activity := now \<rparr>) 0 capacity)"
    unfolding capture_def snap sub_def s1_def Let_def by simp
  obtain k where k: "sub = Some k" using c cap by (cases sub) auto
  then have k8: "k < 8" unfolding sub_def using free_scan_Some [of 0 "ss_subscriptions s1" k] handle_scan_Some [of h 0 "ss_subscriptions s1" k] len
    by (auto split: option.splits)
  define i where "i = (if sub_id (ss_subscriptions s1 ! k) = 0 then ss_next_sub s1 + 1 else sub_id (ss_subscriptions s1 ! k))"
  define s2 where "s2 = (if sub_id (ss_subscriptions s1 ! k) = 0 then s1 \<lparr> ss_next_sub := ss_next_sub s1 + 1 \<rparr> else s1)"
  have ns: "\<not> (sub_id (ss_subscriptions s1 ! k) = 0 \<and> ss_next_sub s1 = -1)"
    using c cap k by (auto split: if_splits)
  have i: "i \<noteq> 0"
  proof
    assume "i = 0"
    then have z: "sub_id (ss_subscriptions s1 ! k) = 0" "ss_next_sub s1 + 1 = 0" by (auto simp: i_def split: if_splits)
    then have "ss_next_sub s1 = -1" by (simp add: eq_neg_iff_add_eq_0)
    then show False using ns z by simp
  qed
  let ?x = "\<lparr> sub_cursor = cur, sub_revision = cs_revision snap, sub_generation = cs_generation snap,
       sub_id = i, sub_handle = h, sub_pending = 1, sub_paused = 0 \<rparr>"
  define s0 where "s0 = set_sub k ?x s2 \<lparr> ss_snapshot_sub := i, ss_next_snapshot := g, ss_snapshot_id := g, ss_snapshot_activity := now \<rparr>"
  have pg: "page s0 0 capacity = (0, s', out)"
  proof -
    have n: "ss_next_snapshot s1 = ss_next_snapshot s" "ss_next_snapshot (set_sub k y z) = ss_next_snapshot z" for y z
      by (simp_all add: s1_def set_sub_def)
    show ?thesis using c cap k ns unfolding s0_def s2_def i_def g_def by (auto simp: Let_def n split: if_splits)
  qed
  have "session_wf s0" using page_keeps_wf [OF pg] wf' by simp
  moreover have "ss_subscriptions s0 ! k = ?x" using k8 len by (simp add: s0_def s2_def set_sub_def)
  moreover have "ss_snapshot s0 = snap" "ss_snapshot_id s0 \<noteq> 0" "ss_snapshot_sub s0 = i" "ss_snapshot_progress s0 = 0"
    "ss_snapshot_activity s0 = now" using g by (simp_all add: s0_def s2_def s1_def set_sub_def)
  ultimately show thesis using that snap pg k8 i by blast
qed

lemma get_pages_keeps:
  assumes "name_valid (Some bus)" "name_valid (Some dev)" "token \<noteq> 0"
  shows "get_pages n s r bus dev token first now capacity = Some (bs, s') \<Longrightarrow> now - ss_snapshot_activity s < 30000 \<Longrightarrow>
    session_wf s' = session_wf s \<and> (\<exists>p. ss_subscriptions s' ! j = (ss_subscriptions s ! j)\<lparr>sub_pending := p\<rparr>)"
proof (induction n arbitrary: s first bs)
  case (Suc n)
  obtain st s1 out where req: "bvstk_dcp2_cache_request s r 0x20 (get_body bus dev token first) now capacity = (st, s1, out)"
    by (metis prod_cases3)
  have st: "st = 0" using Suc.prems(1) req by (auto split: if_splits)
  obtain s2 where pg: "page s (unat first) capacity = (0, s2, out)" and s1: "s1 = s2\<lparr>ss_snapshot_activity := now\<rparr>"
    using req st assms expire_fresh [OF Suc.prems(2)]
    by (auto simp: request_get_body cache_get_def Let_def split: if_splits prod.splits)
  note p = page_slot(6) [OF pg, of j] page_keeps_wf [OF pg]
  have one: "session_wf s1 = session_wf s" "\<exists>p. ss_subscriptions s1 ! j = (ss_subscriptions s ! j)\<lparr>sub_pending := p\<rparr>"
    using p by (simp_all add: s1 session_wf_more)
  show ?case
  proof (cases "get16 (drop 34 out) = 0xFFFF")
    case True
    then have "s' = s1" using Suc.prems(1) req st by (auto simp: Let_def)
    then show ?thesis using one by simp
  next
    case False
    then obtain bs' where go: "get_pages n s1 r bus dev token (get16 (drop 34 out)) now capacity = Some (bs', s')"
      using Suc.prems(1) req st by (auto simp: Let_def)
    have "session_wf s' = session_wf s1 \<and> (\<exists>p. ss_subscriptions s' ! j = (ss_subscriptions s1 ! j)\<lparr>sub_pending := p\<rparr>)"
      by (rule Suc.IH [OF go]) (simp add: s1)
    then show ?thesis using one by auto
  qed
qed simp

lemma subscription_at:
  assumes "session_wf s" "k < 8" "sub_id (ss_subscriptions s ! k) = i" "i \<noteq> 0"
  shows "subscription s i = Some k"
proof -
  have found: "subscription_scan i c ss \<noteq> None" if "m < length ss" "sub_id (ss ! m) = i" for c m ss
    using that
  proof (induction ss arbitrary: c m)
    case (Cons a ss)
    then show ?case by (cases m) simp_all
  qed simp
  obtain m where m: "subscription s i = Some m"
    using found [of k "ss_subscriptions s" 0] assms session_wf_length [OF assms(1)] by (auto simp: subscription_def)
  then have "m < 8" "sub_id (ss_subscriptions s ! m) = i" using subscription_Some [OF m] session_wf_length [OF assms(1)] by simp_all
  then have "m = k" using assms unfolding session_wf_def subs_wf_def by metis
  then show ?thesis using m by simp
qed

lemma read_snapshot:
  assumes "snapshot_wf v"
  shows "read_entries (unat (cs_count v)) (concat (map entry_bytes (cs_entries v))) = cs_entries v"
proof -
  have "list_all (\<lambda>e. length (ce_id e) < 256) (cs_entries v)"
    using assms entry_wf_id by (fastforce simp: snapshot_wf_def list_all_iff)
  then show ?thesis using read_entries_concat [of "cs_entries v"] assms by (simp add: snapshot_wf_def)
qed

lemma subscribe_client_eq:
  assumes s: "session_wf s" and r: "registry_wf r" and names: "name_valid (Some bus)" "name_valid (Some dev)"
    and cap: "88 \<le> capacity" and later: "later - now < 30000"
    and st: "fst (bvstk_dcp2_cache_request s r BVSTK_DCP2_CACHE_SUBSCRIBE (subscribe_body bus dev) now capacity) = 0"
  obtains snap h cur k i s2 where
    "bvstk_cache_snapshot (Some r) (Some bus) (Some dev) True True True now = (BVSTK_OK, Some (snap, h, cur))"
    "subscribe_client s r r1 bus dev now later capacity = Some (i, snap, s2)" "session_wf s2" "k < 8" "i \<noteq> 0"
    "ss_subscriptions s2 ! k = \<lparr> sub_cursor = cur, sub_revision = cs_revision snap, sub_generation = cs_generation snap,
       sub_id = i, sub_handle = h, sub_pending = 0, sub_paused = 0 \<rparr>"
proof -
  let ?s = "expire s now"
  have wf: "session_wf ?s" using s by (rule session_wf_expire)
  obtain s1 out where req: "bvstk_dcp2_cache_request s r 0x21 (subscribe_body bus dev) now capacity = (0, s1, out)"
    using st by (metis prod.collapse)
  then have c: "capture ?s r 0x21 bus dev now capacity = (0, s1, out)"
    unfolding request_subscribe [OF names] by (auto simp: cache_get_def split: if_splits)
  obtain snap h cur k i s0 where
    snap: "bvstk_cache_snapshot (Some r) (Some bus) (Some dev) True True True now = (BVSTK_OK, Some (snap, h, cur))"
    and pg: "page s0 0 capacity = (0, s1, out)" and wf0: "session_wf s0" and k: "k < 8" "i \<noteq> 0"
    and slot: "ss_subscriptions s0 ! k = \<lparr> sub_cursor = cur, sub_revision = cs_revision snap,
       sub_generation = cs_generation snap, sub_id = i, sub_handle = h, sub_pending = 1, sub_paused = 0 \<rparr>"
    and s0: "ss_snapshot s0 = snap" "ss_snapshot_id s0 \<noteq> 0" "ss_snapshot_sub s0 = i" "ss_snapshot_progress s0 = 0"
      "ss_snapshot_activity s0 = now"
    by (rule capture_subscribed [OF wf r c])
  obtain d where d: "dev_name d = (bus, dev)" "snap = d \<lparr> cs_captured_ms := now \<rparr>"
    using cache_snapshot_OK [OF snap r] by blast
  have dn: "cs_subsystem snap = bus" "cs_device snap = dev" using d by (simp_all add: dev_name_def)
  have vwf: "snapshot_wf snap" using wf0 s0(1) by (simp add: session_wf_def)
  let ?es = "cs_entries snap" and ?c = "unat (cs_count snap)"
  have len: "length ?es = ?c" "?c \<le> 256" using vwf by (simp_all add: snapshot_wf_def)
  have at0: "subscription s0 i = Some k" by (rule subscription_at [OF wf0 k(1)]) (simp_all add: slot k(2))
  have pr0: "unat (ss_snapshot_progress s0) = 0" using s0(4) by simp
  have le0: "0 \<le> unat (cs_count (ss_snapshot s0))" by simp
  obtain n hdr t where raw: "page s0 0 capacity = (0, t, hdr @ concat (map entry_bytes (take n (drop 0 (cs_entries (ss_snapshot s0))))))"
      "length hdr = 37"
      "get16 (drop 34 hdr) = (if 0 + n = unat (cs_count (ss_snapshot s0)) then 0xFFFF else of_nat (0 + n))"
      "0 + n \<le> unat (cs_count (ss_snapshot s0))" "0 < unat (cs_count (ss_snapshot s0)) \<Longrightarrow> 0 < n"
      "ss_snapshot t = ss_snapshot s0" "ss_snapshot_id t = ss_snapshot_id s0" "ss_snapshot_sub t = ss_snapshot_sub s0"
      "ss_snapshot_activity t = ss_snapshot_activity s0"
      "map sub_id (ss_subscriptions t) = map sub_id (ss_subscriptions s0)"
      "unat (ss_snapshot_progress t) = 0 + n"
      "0 + n = unat (cs_count (ss_snapshot s0)) \<Longrightarrow> (\<forall>i. subscription s0 (ss_snapshot_sub s0) = Some i \<longrightarrow>
          sub_pending (ss_subscriptions t ! i) = 0)"
    by (rule page_ok [OF wf0 le0 cap pr0]) (rule that)
  then have ts: "t = s1" and first: "out = hdr @ concat (map entry_bytes (take n ?es))" "length hdr = 37"
      "get16 (drop 34 hdr) = (if n = ?c then 0xFFFF else of_nat n)" "n \<le> ?c" "0 < ?c \<Longrightarrow> 0 < n"
    using pg s0(1) by simp_all
  have after: "unat (ss_snapshot_progress s1) = n" "n = ?c \<Longrightarrow> sub_pending (ss_subscriptions s1 ! k) = 0"
      "map sub_id (ss_subscriptions s1) = map sub_id (ss_subscriptions s0)" "ss_snapshot_sub s1 = i"
    using raw(8,10-12) s0(1,3) at0 unfolding ts by simp_all
  note ps = page_slot [OF pg] and hd = page_header [OF pg, unfolded s0(1,3)]
  have wf1: "session_wf s1" using page_keeps_wf [OF pg] wf0 by simp
  have nxt: "get16 (drop 34 out) = get16 (drop 34 hdr)"
  proof -
    obtain a b c where "drop 34 hdr = a # b # c" using first(2) length_ge_2E [of "drop 34 hdr"] by auto
    then show ?thesis using first(1,2) by (simp add: get16_def bvstk_dcp2_read_be16_def)
  qed
  have body: "drop 37 out = concat (map entry_bytes (take n ?es))" using first(1,2) by simp
  have view: "client_view bus dev out (concat (map entry_bytes ?es)) = snap"
    using hd read_snapshot [OF vwf] dn by (simp add: client_view_def)
  have slot1: "\<exists>p. ss_subscriptions s1 ! k = (ss_subscriptions s0 ! k)\<lparr>sub_pending := p\<rparr>" by (rule ps(6))
  show thesis
  proof (cases "n = ?c")
    case True
    then have all: "drop 37 out = concat (map entry_bytes ?es)" using body len by simp
    have "subscribe_client s r r1 bus dev now later capacity = Some (i, snap, s1)"
      using req nxt first(3) True hd(1) view by (simp add: subscribe_client_def all)
    moreover have "ss_subscriptions s1 ! k = (ss_subscriptions s0 ! k)\<lparr>sub_pending := 0\<rparr>" using slot1 after(2) [OF True] by auto
    ultimately show thesis using that snap wf1 k slot by simp
  next
    case False
    have n16: "unat (of_nat n :: u16) = n" using first(4) len(2) by (intro unat_of_nat_small) simp
    have ne: "(of_nat n :: u16) \<noteq> 0xFFFF" using n16 first(4) len(2) by auto
    have prog: "ss_snapshot_progress s1 = of_nat n" using after(1) n16 by (simp add: word_unat_eq_iff)
    have at1: "subscription s1 i = Some k" using at0 subscription_cong [OF after(3)] by simp
    obtain s2 where pages: "get_pages 257 s1 r1 bus dev (ss_snapshot_id s0) (of_nat n) later capacity =
        Some (concat (map entry_bytes (drop n ?es)), s2)" and pend: "sub_pending (ss_subscriptions s2 ! k) = 0"
    proof -
      have "\<exists>s2. get_pages 257 s1 r1 bus dev (ss_snapshot_id s0) (of_nat n) later capacity =
          Some (concat (map entry_bytes (drop (unat (of_nat n :: u16)) (cs_entries (ss_snapshot s1)))), s2) \<and>
        (\<forall>j. subscription s1 (ss_snapshot_sub s1) = Some j \<longrightarrow> sub_pending (ss_subscriptions s2 ! j) = 0)"
        by (rule get_pages_eq [OF wf1 cap names s0(2)])
          (use ps(3-5) s0 dn later prog n16 first(4) len(2) in simp_all)
      then show thesis using that at1 after(4) n16 ps(3) s0(1) by auto
    qed
    have keep: "session_wf s2 = session_wf s1" "\<exists>p. ss_subscriptions s2 ! k = (ss_subscriptions s1 ! k)\<lparr>sub_pending := p\<rparr>"
      using get_pages_keeps [OF names s0(2) pages, of k] later ps(4) s0(5) by simp_all
    have "concat (map entry_bytes (take n ?es)) @ concat (map entry_bytes (drop n ?es)) = concat (map entry_bytes ?es)"
      by (simp only: concat_append [symmetric] map_append [symmetric] append_take_drop_id)
    then have "subscribe_client s r r1 bus dev now later capacity = Some (i, snap, s2)"
      using req nxt first(3) False ne hd(1,2) view pages by (simp add: subscribe_client_def body del: get_pages.simps)
    moreover have "ss_subscriptions s2 ! k = (ss_subscriptions s0 ! k)\<lparr>sub_pending := 0\<rparr>"
      using keep(2) slot1 pend by auto
    ultimately show thesis using that snap wf1 keep(1) k slot by simp
  qed
qed

lemma all_left_bound: "session_wf s \<Longrightarrow> all_left r s < 4106"
proof -
  assume "session_wf s"
  then have len: "length (map (left r) (ss_subscriptions s)) = 8" by (simp add: session_wf_length)
  have "sum_list xs \<le> 513 * length xs" if "\<forall>x \<in> set xs. x \<le> 513" for xs :: "nat list"
    using that by (induction xs) auto
  from this [of "map (left r) (ss_subscriptions s)"] show ?thesis using left_le len by (auto simp: all_left_def)
qed

text \<open>
  C6: A DCP2 client stays in step with the device. A client whose SUBSCRIBE is answered, in a session that
  may hold other subscriptions, reads the rest of the pages with GET requests and then holds the
  snapshot of the device and its subscription's id, whatever the size of its buffer and the changes of
  the registry meanwhile. When it then takes the events of the session, after any operations on the
  registry, applies those with its id and leaves the others to their owners, a call sends nothing
  after at most 4105 events, and its copy is then exactly the device's current state; it is told to
  start over with RECONFIGURED exactly when the device was defined anew and with LOST exactly when
  more than 512 changes passed, and never for another reason.
\<close>

theorem dcp2_cache_events_converge:
  assumes "length ops0 + length ops < 2 ^ 32"
    and "r = cache_run ops0 bvstk_cache_init" and "r' = cache_run ops r"
    and "session_wf s" and "name_valid (Some bus)" and "name_valid (Some dev)" and "88 \<le> capacity" and "later - now < 30000"
    and "fst (bvstk_dcp2_cache_request s r BVSTK_DCP2_CACHE_SUBSCRIBE (subscribe_body bus dev) now capacity) = 0"
  shows "\<exists>i snap s2 h cur.
    subscribe_client s r r1 bus dev now later capacity = Some (i, snap, s2) \<and>
    bvstk_cache_snapshot (Some r) (Some bus) (Some dev) True True True now = (BVSTK_OK, Some (snap, h, cur)) \<and>
    client_follow 4106 s2 r' clock capacity i snap =
     (case device r' h of
        None \<Rightarrow> StartOver BVSTK_CACHE_RECONFIGURED
      | Some d \<Rightarrow>
        if cs_generation d \<noteq> cs_generation snap then StartOver BVSTK_CACHE_RECONFIGURED
        else if unat (cr_head r') > unat cur + 512 then StartOver BVSTK_CACHE_LOST
        else InStep (d \<lparr> cs_captured_ms := now \<rparr>))"
proof -
  have wf: "registry_wf r" "registry_wf r'"
    unfolding assms(2,3) cache_run_def foldl_append [symmetric] by (rule cache_registry_wf [unfolded cache_run_def])+
  obtain snap h cur k i s2 where
    snap: "bvstk_cache_snapshot (Some r) (Some bus) (Some dev) True True True now = (BVSTK_OK, Some (snap, h, cur))"
    and client: "subscribe_client s r r1 bus dev now later capacity = Some (i, snap, s2)" and s2: "session_wf s2" "k < 8" "i \<noteq> 0"
    and slot: "ss_subscriptions s2 ! k = \<lparr> sub_cursor = cur, sub_revision = cs_revision snap, sub_generation = cs_generation snap,
       sub_id = i, sub_handle = h, sub_pending = 0, sub_paused = 0 \<rparr>"
    by (rule subscribe_client_eq [OF assms(4) wf(1) assms(5-9)])
  note follow = follow_converges [OF assms(1-3) snap slot s2(3), of 0]
  have "follow 513 r' 0 (ss_subscriptions s2 ! k) snap \<noteq> Unfinished" unfolding follow by (simp split: option.split)
  then have "client_follow 4106 s2 r' clock capacity i snap = client_of (follow 513 r' 0 (ss_subscriptions s2 ! k) snap)"
    using assms(7) s2 all_left_bound [OF s2(1)] slot by (intro client_follow_eq [OF wf(2) s2(2)]) simp_all
  then have "client_follow 4106 s2 r' clock capacity i snap =
     (case device r' h of
        None \<Rightarrow> StartOver BVSTK_CACHE_RECONFIGURED
      | Some d \<Rightarrow>
        if cs_generation d \<noteq> cs_generation snap then StartOver BVSTK_CACHE_RECONFIGURED
        else if unat (cr_head r') > unat cur + 512 then StartOver BVSTK_CACHE_LOST
        else InStep (d \<lparr> cs_captured_ms := now \<rparr>))"
    unfolding follow by (simp split: option.split)
  then show ?thesis using client snap by blast
qed

text \<open>A client of the first of two devices in a session that watches the other one already.\<close>

definition watching_session :: bvstk_dcp2_cache_session_t where
  "watching_session = foldl session_step bvstk_dcp2_cache_init
     [Request pair_registry 0x21 ([1, 3] @ ascii ''i2c'' @ [1] @ ascii ''b'') 5 100]"

theorem dcp2_cache_events_converge_witness:
  "\<exists>i snap s2 d. subscribe_client watching_session pair_registry pair_changed (ascii ''i2c'') (ascii ''a'') 9 9 88 = Some (i, snap, s2) \<and>
     client_follow 4106 s2 pair_changed (\<lambda>n. 10) 88 i snap = InStep d \<and>
     map ce_value (cs_entries snap) = [0] \<and> map ce_value (cs_entries d) = [7]"
proof -
  have wf: "session_wf watching_session" unfolding watching_session_def by (rule dcp2_cache_session_wf) (simp add: pair_wf)
  have names: "name_valid (Some (ascii ''i2c''))" "name_valid (Some (ascii ''a''))" by code_simp+
  have st: "fst (bvstk_dcp2_cache_request watching_session pair_registry 0x21 (subscribe_body (ascii ''i2c'') (ascii ''a'')) 9 88) = 0"
    by code_simp
  let ?res = "bvstk_cache_snapshot (Some pair_registry) (Some (ascii ''i2c'')) (Some (ascii ''a'')) True True True 9"
  have res: "?res = (BVSTK_OK, Some (fst (the (snd ?res)), 1, 0))" "map ce_value (cs_entries (fst (the (snd ?res)))) = [0]" by code_simp+
  have few: "length [Define 0 (ascii ''i2c'') (ascii ''a'') 1 1 (\<lambda>i e. e \<lparr> ce_id := ascii ''r'', ce_width_bits := 8 \<rparr>),
       Define 0 (ascii ''i2c'') (ascii ''b'') 1 1 (\<lambda>i e. e \<lparr> ce_id := ascii ''r'', ce_width_bits := 8 \<rparr>)] +
     length [Put 1 0 7 True 2 5 6, Put 2 0 9 True 2 5 6] < 2 ^ 32" by simp
  have cur: "(88 :: nat) \<le> 88" "(9 :: u64) - 9 < 30000" by simp_all
  obtain i snap s2 h c where c: "subscribe_client watching_session pair_registry pair_changed (ascii ''i2c'') (ascii ''a'') 9 9 88 = Some (i, snap, s2)"
    "?res = (BVSTK_OK, Some (snap, h, c))"
    "client_follow 4106 s2 pair_changed (\<lambda>n. 10) 88 i snap =
     (case device pair_changed h of
        None \<Rightarrow> StartOver BVSTK_CACHE_RECONFIGURED
      | Some d \<Rightarrow>
        if cs_generation d \<noteq> cs_generation snap then StartOver BVSTK_CACHE_RECONFIGURED
        else if unat (cr_head pair_changed) > unat c + 512 then StartOver BVSTK_CACHE_LOST
        else InStep (d \<lparr> cs_captured_ms := 9 \<rparr>))"
    using dcp2_cache_events_converge [OF few pair_registry_def pair_changed_def wf names cur st, of pair_changed "\<lambda>n. 10"]
    by blast
  have eq: "snap = fst (the (snd ?res))" "h = 1" "c = 0" using c(2) res(1) by auto
  have "(case device pair_changed 1 of None \<Rightarrow> False
      | Some d \<Rightarrow> cs_generation d = cs_generation (fst (the (snd ?res))) \<and> \<not> unat (cr_head pair_changed) > unat (0 :: u64) + 512 \<and>
          map ce_value (cs_entries d) = [7])" by code_simp
  then obtain d where d: "device pair_changed 1 = Some d" "cs_generation d = cs_generation (fst (the (snd ?res)))"
    "\<not> unat (cr_head pair_changed) > unat (0 :: u64) + 512" "map ce_value (cs_entries d) = [7]"
    by (auto split: option.splits)
  have "client_follow 4106 s2 pair_changed (\<lambda>n. 10) 88 i snap = InStep (d \<lparr> cs_captured_ms := 9 \<rparr>)"
    unfolding c(3) unfolding eq by (simp add: d(1,2)) (use d(3) in simp)
  then show ?thesis using c(1) res(2) d(4) unfolding eq
    by (intro exI [of _ i] exI [of _ "fst (the (snd ?res))"] exI [of _ s2] exI [of _ "d \<lparr> cs_captured_ms := 9 \<rparr>"]) simp
qed

end
