(* ===== verification/I2c_Config.thy ===== *)
theory I2c_Config
  imports Bvstk_Status
begin

text \<open>
  The bus-facing I2C configuration of \<open>src/shared/config/bvstk_config_model.h\<close> and the device
  table of \<open>src/services/i2c/bvstk_i2c_devices.c\<close>. Flag fields that only ever hold 0 or 1 are
  \<open>bool\<close>. The profile metadata of a configuration, which no service reads, is left out.
\<close>

abbreviation (input) I2C_CFG_MAX_DEVICES :: nat where "I2C_CFG_MAX_DEVICES \<equiv> 32"
abbreviation (input) I2C_CFG_NAME_MAX :: nat where "I2C_CFG_NAME_MAX \<equiv> 32"
abbreviation (input) I2C_CFG_MAX_REG_COUNT :: nat where "I2C_CFG_MAX_REG_COUNT \<equiv> 256"
abbreviation (input) I2C_CFG_RULES_MAX :: nat where "I2C_CFG_RULES_MAX \<equiv> 256"
abbreviation (input) I2C_CFG_SETTINGS_MAX :: nat where "I2C_CFG_SETTINGS_MAX \<equiv> 256"

text \<open>The policy enumeration; the code also meets values outside it.\<close>

type_synonym i2c_policy_t = u32

abbreviation (input) I2C_POLICY_WHITELIST :: i2c_policy_t where "I2C_POLICY_WHITELIST \<equiv> 0"
abbreviation (input) I2C_POLICY_BLACKLIST :: i2c_policy_t where "I2C_POLICY_BLACKLIST \<equiv> 1"

record i2c_rule_entry_t =
  rule_reg :: u8
  rule_val :: u8

record i2c_device_config_t =
  cfg_name :: cstr
  cfg_file_name :: cstr
  cfg_addr_7b :: u8
  cfg_reg_count :: u16
  cfg_max_value_code :: u8
  cfg_policy :: i2c_policy_t
  cfg_whitelist :: "i2c_rule_entry_t list"
  cfg_whitelist_len :: nat
  cfg_blacklist :: "i2c_rule_entry_t list"
  cfg_blacklist_len :: nat
  cfg_settings :: "i2c_rule_entry_t list"
  cfg_settings_len :: nat

section \<open>Device table\<close>

record bvstk_i2c_device_t =
  dv_name :: cstr
  dv_addr_7b :: u8
  dv_reg_count :: u16
  dv_max_value_code :: u8

record bvstk_i2c_devices_t =
  ds_items :: "bvstk_i2c_device_t list"
  ds_initialized :: bool

text \<open>The table of all zeros; \<open>count\<close> is the length of the items in use.\<close>

definition zero_devices :: bvstk_i2c_devices_t where
  "zero_devices = \<lparr> ds_items = [], ds_initialized = False \<rparr>"

definition device_status :: "bvstk_i2c_devices_t option \<Rightarrow> nat \<Rightarrow> bvstk_status_t" where
  "device_status devices device_id =
    (case devices of
       None \<Rightarrow> BVSTK_ERR_NOT_READY
     | Some d \<Rightarrow> if \<not> ds_initialized d then BVSTK_ERR_NOT_READY
         else if device_id < length (ds_items d) then BVSTK_OK else BVSTK_ERR_NOT_FOUND)"

definition item_valid :: "bvstk_i2c_device_t option \<Rightarrow> bool" where
  "item_valid item =
    (case item of None \<Rightarrow> False
     | Some i \<Rightarrow> dv_name i \<noteq> [] \<and> dv_addr_7b i \<le> 0x7F \<and> dv_reg_count i \<noteq> 0 \<and>
         unat (dv_reg_count i) \<le> I2C_CFG_MAX_REG_COUNT)"

text \<open>The copying loop: the items accepted before the first invalid one.\<close>

fun init_items :: "bvstk_i2c_device_t list \<Rightarrow> bvstk_i2c_device_t list \<Rightarrow> bool \<times> bvstk_i2c_device_t list" where
  "init_items acc [] = (True, acc)"
| "init_items acc (i # rest) = (if \<not> item_valid (Some i) then (False, acc) else init_items (acc @ [i]) rest)"

definition bvstk_i2c_devices_init :: "bvstk_i2c_devices_t option \<Rightarrow> bvstk_i2c_device_t list option \<Rightarrow> nat \<Rightarrow>
    bvstk_status_t \<times> bvstk_i2c_devices_t option" where
  "bvstk_i2c_devices_init devices items count =
    (case devices of
       None \<Rightarrow> (BVSTK_ERR_MALFORMED, None)
     | Some _ \<Rightarrow>
       if count > I2C_CFG_MAX_DEVICES \<or> (count \<noteq> 0 \<and> items = None) then (BVSTK_ERR_MALFORMED, devices)
       else let (ok, copied) = init_items [] (case items of None \<Rightarrow> [] | Some is \<Rightarrow> take count is) in
         if \<not> ok then (BVSTK_ERR_MALFORMED, Some zero_devices)
         else (BVSTK_OK, Some \<lparr> ds_items = copied, ds_initialized = True \<rparr>))"

definition item_from_config :: "i2c_device_config_t \<Rightarrow> bvstk_i2c_device_t" where
  "item_from_config c = \<lparr> dv_name = take (I2C_CFG_NAME_MAX - 1) (cfg_name c), dv_addr_7b = cfg_addr_7b c,
     dv_reg_count = cfg_reg_count c, dv_max_value_code = cfg_max_value_code c \<rparr>"

definition bvstk_i2c_devices_init_from_config :: "bvstk_i2c_devices_t option \<Rightarrow> i2c_device_config_t list option \<Rightarrow> nat \<Rightarrow>
    bvstk_status_t \<times> bvstk_i2c_devices_t option" where
  "bvstk_i2c_devices_init_from_config devices configs count =
    (if count > I2C_CFG_MAX_DEVICES \<or> (count \<noteq> 0 \<and> configs = None) then (BVSTK_ERR_MALFORMED, devices)
     else bvstk_i2c_devices_init devices
       (Some (map item_from_config (case configs of None \<Rightarrow> [] | Some cs \<Rightarrow> take count cs))) count)"

definition bvstk_i2c_devices_shutdown :: "bvstk_i2c_devices_t option \<Rightarrow> bvstk_i2c_devices_t option" where
  "bvstk_i2c_devices_shutdown devices = map_option (\<lambda>_. zero_devices) devices"

definition bvstk_i2c_devices_count :: "bvstk_i2c_devices_t option \<Rightarrow> nat" where
  "bvstk_i2c_devices_count devices =
    (case devices of None \<Rightarrow> 0 | Some d \<Rightarrow> if ds_initialized d then length (ds_items d) else 0)"

text \<open>The device stored through a non-null \<open>out\<close>, when the status is OK.\<close>

definition bvstk_i2c_devices_get :: "bvstk_i2c_devices_t option \<Rightarrow> nat \<Rightarrow> bool \<Rightarrow>
    bvstk_status_t \<times> bvstk_i2c_device_t option" where
  "bvstk_i2c_devices_get devices device_id out =
    (case device_status devices device_id of
       BVSTK_OK \<Rightarrow> if \<not> out then (BVSTK_ERR_MALFORMED, None)
         else (BVSTK_OK, Some (ds_items (the devices) ! device_id))
     | st \<Rightarrow> (st, None))"

definition bvstk_i2c_devices_set :: "bvstk_i2c_devices_t option \<Rightarrow> nat \<Rightarrow> bvstk_i2c_device_t option \<Rightarrow>
    bvstk_status_t \<times> bvstk_i2c_devices_t option" where
  "bvstk_i2c_devices_set devices device_id item =
    (case device_status devices device_id of
       BVSTK_OK \<Rightarrow> if \<not> item_valid item then (BVSTK_ERR_MALFORMED, devices)
         else (BVSTK_OK, map_option (\<lambda>d. d \<lparr> ds_items := (ds_items d)[device_id := the item] \<rparr>) devices)
     | st \<Rightarrow> (st, devices))"

text \<open>\<open>strcasecmp\<close> in the C locale.\<close>

definition tolower :: "u8 \<Rightarrow> u8" where
  "tolower c = (if ch CHR ''A'' \<le> c \<and> c \<le> ch CHR ''Z'' then c + 32 else c)"

definition strcaseeq :: "cstr \<Rightarrow> cstr \<Rightarrow> bool" where
  "strcaseeq a b \<longleftrightarrow> map tolower a = map tolower b"

fun find_index :: "('a \<Rightarrow> bool) \<Rightarrow> nat \<Rightarrow> 'a list \<Rightarrow> nat option" where
  "find_index P i [] = None"
| "find_index P i (x # xs) = (if P x then Some i else find_index P (i + 1) xs)"

definition bvstk_i2c_devices_find_by_name :: "bvstk_i2c_devices_t option \<Rightarrow> cstr option \<Rightarrow> bool \<Rightarrow>
    bvstk_status_t \<times> nat option" where
  "bvstk_i2c_devices_find_by_name devices name out =
    (case (devices, name) of
       (Some d, Some n) \<Rightarrow>
         if n = [] \<or> \<not> out then (BVSTK_ERR_MALFORMED, None)
         else if \<not> ds_initialized d then (BVSTK_ERR_NOT_READY, None)
         else (case find_index (\<lambda>i. strcaseeq (dv_name i) n) 0 (ds_items d) of
             Some i \<Rightarrow> (BVSTK_OK, Some i) | None \<Rightarrow> (BVSTK_ERR_NOT_FOUND, None))
     | _ \<Rightarrow> (BVSTK_ERR_MALFORMED, None))"

definition bvstk_i2c_devices_find_by_addr :: "bvstk_i2c_devices_t option \<Rightarrow> u8 \<Rightarrow> bool \<Rightarrow> bvstk_status_t \<times> nat option" where
  "bvstk_i2c_devices_find_by_addr devices addr_7b out =
    (case devices of
       Some d \<Rightarrow>
         if \<not> out then (BVSTK_ERR_MALFORMED, None)
         else if \<not> ds_initialized d then (BVSTK_ERR_NOT_READY, None)
         else (case find_index (\<lambda>i. dv_addr_7b i = (addr_7b AND 0x7F)) 0 (ds_items d) of
             Some i \<Rightarrow> (BVSTK_OK, Some i) | None \<Rightarrow> (BVSTK_ERR_NOT_FOUND, None))
     | None \<Rightarrow> (BVSTK_ERR_MALFORMED, None))"

section \<open>Well-formed tables\<close>

definition devices_wf :: "bvstk_i2c_devices_t \<Rightarrow> bool" where
  "devices_wf d \<longleftrightarrow> length (ds_items d) \<le> 32 \<and> list_all (\<lambda>i. item_valid (Some i)) (ds_items d)"

declare devices_wf_def [wf_defs]

lemma init_items_spec:
  "init_items acc is = (ok, out) \<Longrightarrow> ok \<longleftrightarrow> list_all (\<lambda>i. item_valid (Some i)) is"
  "init_items acc is = (True, out) \<Longrightarrow> out = acc @ is"
  by (induction acc "is" arbitrary: ok out rule: init_items.induct) (auto split: if_splits)

lemma devices_init_wf:
  assumes "bvstk_i2c_devices_init (Some d) items count = (BVSTK_OK, Some d')"
  shows "devices_wf d' \<and> ds_initialized d'"
  using assms init_items_spec [of "[]" "case items of None \<Rightarrow> [] | Some is \<Rightarrow> take count is"]
  by (auto simp: bvstk_i2c_devices_init_def devices_wf_def split: if_splits prod.splits option.splits)

lemma devices_set_wf:
  assumes "devices_wf d" shows "devices_wf (the (snd (bvstk_i2c_devices_set (Some d) i item)))"
  using assms
  by (auto simp: bvstk_i2c_devices_set_def devices_wf_def item_valid_def list_all_update
      split: bvstk_status_t.split option.split)

lemma find_index_Some:
  "find_index P k xs = Some i \<Longrightarrow> k \<le> i \<and> i < k + length xs \<and> P (xs ! (i - k)) \<and> (\<forall>j < i - k. \<not> P (xs ! j))"
proof (induction P k xs rule: find_index.induct)
  case (2 P k x xs)
  then show ?case
    by (auto simp: nth_Cons' split: if_splits)
qed simp

lemma find_index_None: "find_index P k xs = None \<longleftrightarrow> list_all (\<lambda>x. \<not> P x) xs"
  by (induction P k xs rule: find_index.induct) auto

lemma device_status_OK:
  "device_status (Some d) i = BVSTK_OK \<longleftrightarrow> ds_initialized d \<and> i < length (ds_items d)"
  by (auto simp: device_status_def)

lemma devices_get_OK:
  "bvstk_i2c_devices_get (Some d) i True = (BVSTK_OK, x) \<longleftrightarrow>
   ds_initialized d \<and> i < length (ds_items d) \<and> x = Some (ds_items d ! i)"
  by (auto simp: bvstk_i2c_devices_get_def device_status_def)

end
