(* ===== verification/Event_Journal.thy ===== *)
theory Event_Journal
  imports Bvstk_Status Ring_Log
begin

text \<open>
  Bus events (\<open>src/shared/events/bvstk_event.h\<close>) and the per-bus event and telemetry journals
  of \<open>src/shared/events/bvstk_journal.c\<close>: two rings of 256 records per bus, read in batches of
  at most 32 from a cursor. The journal is zero-initialised; callers serialise operations.
\<close>

datatype bvstk_event_source_t =
    BVSTK_EVENT_SOURCE_CONSOLE | BVSTK_EVENT_SOURCE_HOST | BVSTK_EVENT_SOURCE_DCP
  | BVSTK_EVENT_SOURCE_INTERNAL | BVSTK_EVENT_SOURCE_WEB

fun source_code :: "bvstk_event_source_t \<Rightarrow> u8" where
  "source_code BVSTK_EVENT_SOURCE_CONSOLE = 0"
| "source_code BVSTK_EVENT_SOURCE_HOST = 1"
| "source_code BVSTK_EVENT_SOURCE_DCP = 2"
| "source_code BVSTK_EVENT_SOURCE_INTERNAL = 3"
| "source_code BVSTK_EVENT_SOURCE_WEB = 4"

abbreviation (input) BVSTK_EVENT_BUS_I2C :: u8 where "BVSTK_EVENT_BUS_I2C \<equiv> 0"
abbreviation (input) BVSTK_EVENT_BUS_MDIO :: u8 where "BVSTK_EVENT_BUS_MDIO \<equiv> 1"
abbreviation (input) BVSTK_EVENT_OP_READ :: u8 where "BVSTK_EVENT_OP_READ \<equiv> 0"
abbreviation (input) BVSTK_EVENT_OP_WRITE :: u8 where "BVSTK_EVENT_OP_WRITE \<equiv> 1"
abbreviation (input) BVSTK_EVENT_REG_ATTEMPT :: u16 where "BVSTK_EVENT_REG_ATTEMPT \<equiv> 0x0001"
abbreviation (input) BVSTK_EVENT_REG_COMMIT :: u16 where "BVSTK_EVENT_REG_COMMIT \<equiv> 0x0002"
abbreviation (input) BVSTK_EVENT_REG_DENIED :: u16 where "BVSTK_EVENT_REG_DENIED \<equiv> 0x0003"
abbreviation (input) BVSTK_EVENT_FAULT :: u16 where "BVSTK_EVENT_FAULT \<equiv> 0x0005"
abbreviation (input) BVSTK_EVENT_CAPTURE_WRITE :: u16 where "BVSTK_EVENT_CAPTURE_WRITE \<equiv> 0x0101"
abbreviation (input) BVSTK_EVENT_MASTER_READ :: u16 where "BVSTK_EVENT_MASTER_READ \<equiv> 0x0102"
abbreviation (input) BVSTK_EVENT_MASTER_WRITE :: u16 where "BVSTK_EVENT_MASTER_WRITE \<equiv> 0x0103"
abbreviation (input) BVSTK_EVENT_SLAVE_POINTER :: u16 where "BVSTK_EVENT_SLAVE_POINTER \<equiv> 0x0104"
abbreviation (input) BVSTK_EVENT_SLAVE_READ_REQUEST :: u16 where "BVSTK_EVENT_SLAVE_READ_REQUEST \<equiv> 0x0105"
abbreviation (input) BVSTK_EVENT_SLAVE_REPLY_PREPARED :: u16 where "BVSTK_EVENT_SLAVE_REPLY_PREPARED \<equiv> 0x0106"
abbreviation (input) BVSTK_EVENT_FLAG_NONE :: u8 where "BVSTK_EVENT_FLAG_NONE \<equiv> 0x00"
abbreviation (input) BVSTK_EVENT_FLAG_TELEMETRY_UNCONFIRMED :: u8
  where "BVSTK_EVENT_FLAG_TELEMETRY_UNCONFIRMED \<equiv> 0x01"

record bvstk_event_t =
  ev_time_us :: u64
  ev_type :: u16
  ev_status :: u16
  ev_source :: u8
  ev_bus :: u8
  ev_operation :: u8
  ev_flags :: u8
  ev_arg0 :: u32
  ev_arg1 :: u32
  ev_arg2 :: u32

section \<open>Journals\<close>

abbreviation (input) BVSTK_JOURNAL_CAPACITY :: nat where "BVSTK_JOURNAL_CAPACITY \<equiv> 256"
abbreviation (input) BVSTK_JOURNAL_BATCH :: nat where "BVSTK_JOURNAL_BATCH \<equiv> 32"
abbreviation (input) BVSTK_JOURNAL_BUSES :: nat where "BVSTK_JOURNAL_BUSES \<equiv> 2"
abbreviation (input) BVSTK_JOURNAL_HISTORY :: u64 where "BVSTK_JOURNAL_HISTORY \<equiv> -1"

record bvstk_journal_ring_t =
  ring_head :: u64
  ring_entries :: "bvstk_event_t list"

record bvstk_journal_t =
  rings :: "bvstk_journal_ring_t list list"

record bvstk_journal_record_t =
  rec_sequence :: u64
  rec_event :: bvstk_event_t

record bvstk_journal_batch_t =
  batch_next :: u64
  batch_head :: u64
  batch_lost :: u64
  batch_reset :: bool
  batch_records :: "bvstk_journal_record_t list"

definition zero_event :: bvstk_event_t where
  "zero_event = \<lparr> ev_time_us = 0, ev_type = 0, ev_status = 0, ev_source = 0, ev_bus = 0,
     ev_operation = 0, ev_flags = 0, ev_arg0 = 0, ev_arg1 = 0, ev_arg2 = 0 \<rparr>"

definition zero_ring :: bvstk_journal_ring_t where
  "zero_ring = \<lparr> ring_head = 0, ring_entries = replicate BVSTK_JOURNAL_CAPACITY zero_event \<rparr>"

definition zero_journal :: bvstk_journal_t where
  "zero_journal = \<lparr> rings = replicate BVSTK_JOURNAL_BUSES (replicate 2 zero_ring) \<rparr>"

definition bvstk_event_is_telemetry :: "u16 \<Rightarrow> bool" where
  "bvstk_event_is_telemetry type \<longleftrightarrow>
     BVSTK_EVENT_CAPTURE_WRITE \<le> type \<and> type \<le> BVSTK_EVENT_SLAVE_REPLY_PREPARED"

definition journal_ring :: "bvstk_journal_t \<Rightarrow> nat \<Rightarrow> nat \<Rightarrow> bvstk_journal_ring_t" where
  "journal_ring j bus channel = rings j ! bus ! channel"

definition ring_push :: "bvstk_event_t \<Rightarrow> bvstk_journal_ring_t \<Rightarrow> bvstk_journal_ring_t" where
  "ring_push e ring = ring \<lparr> ring_entries := (ring_entries ring)
       [unat (ring_head ring) mod BVSTK_JOURNAL_CAPACITY := e],
     ring_head := ring_head ring + 1 \<rparr>"

definition bvstk_journal_publish ::
  "bvstk_journal_t option \<Rightarrow> bvstk_event_t option \<Rightarrow> bvstk_journal_t option" where
  "bvstk_journal_publish journal event =
    (case (journal, event) of
       (Some j, Some e) \<Rightarrow>
         if unat (ev_bus e) \<ge> BVSTK_JOURNAL_BUSES then journal
         else if \<not> bvstk_event_is_telemetry (ev_type e) \<and>
            (ev_type e < BVSTK_EVENT_REG_ATTEMPT \<or> ev_type e > BVSTK_EVENT_FAULT) then journal
         else let bus = unat (ev_bus e);
                  channel = (if bvstk_event_is_telemetry (ev_type e) then 1 else 0)
              in Some (j \<lparr> rings := (rings j)[bus := (rings j ! bus)
                   [channel := ring_push e (journal_ring j bus channel)]] \<rparr>)
     | _ \<Rightarrow> journal)"

definition bvstk_journal_head :: "bvstk_journal_t option \<Rightarrow> nat \<Rightarrow> nat \<Rightarrow> u64" where
  "bvstk_journal_head journal bus channel =
    (case journal of
       Some j \<Rightarrow> if bus < BVSTK_JOURNAL_BUSES \<and> channel < 2 then ring_head (journal_ring j bus channel) else 0
     | None \<Rightarrow> 0)"

definition record_matches :: "int \<Rightarrow> bvstk_event_t \<Rightarrow> bool" where
  "record_matches address e \<longleftrightarrow> \<not> (address \<ge> 0 \<and> ev_arg0 e \<noteq> word_of_int address)"

text \<open>
  The \<open>while (after < ring->head && out->count < BATCH)\<close> loop; the first argument counts the
  records between the cursor and the head.
\<close>

fun journal_scan :: "nat \<Rightarrow> bvstk_event_t list \<Rightarrow> int \<Rightarrow> u64 \<Rightarrow> bvstk_journal_record_t list \<Rightarrow>
    u64 \<times> bvstk_journal_record_t list" where
  "journal_scan 0 entries address after acc = (after, acc)"
| "journal_scan (Suc n) entries address after acc =
    (if length acc < BVSTK_JOURNAL_BATCH
     then let e = entries ! (unat after mod BVSTK_JOURNAL_CAPACITY); after' = after + 1 in
       if record_matches address e
       then journal_scan n entries address after' (acc @ [\<lparr> rec_sequence = after', rec_event = e \<rparr>])
       else journal_scan n entries address after' acc
     else (after, acc))"

definition zero_batch :: bvstk_journal_batch_t where
  "zero_batch = \<lparr> batch_next = 0, batch_head = 0, batch_lost = 0, batch_reset = False, batch_records = [] \<rparr>"

text \<open>The window computation before the loop: the reset flag, the lost count and the start.\<close>

definition journal_window :: "u64 \<Rightarrow> u64 \<Rightarrow> bool \<times> u64 \<times> u64" where
  "journal_window head after =
    (let first = (if head > of_nat BVSTK_JOURNAL_CAPACITY then head - of_nat BVSTK_JOURNAL_CAPACITY else 0);
         reset = (after \<noteq> BVSTK_JOURNAL_HISTORY \<and> after > head);
         after1 = (if after = BVSTK_JOURNAL_HISTORY then first else if after > head then first else after)
     in if after1 < first then (reset, first - after1, first) else (reset, 0, after1))"

definition bvstk_journal_read ::
  "bvstk_journal_t option \<Rightarrow> nat \<Rightarrow> nat \<Rightarrow> int \<Rightarrow> u64 \<Rightarrow> bvstk_journal_batch_t option \<Rightarrow>
   bvstk_journal_batch_t option" where
  "bvstk_journal_read journal bus channel address after out =
    (case out of None \<Rightarrow> None | Some _ \<Rightarrow>
     (case journal of
        None \<Rightarrow> Some zero_batch
      | Some j \<Rightarrow>
        if bus \<ge> BVSTK_JOURNAL_BUSES \<or> channel \<ge> 2 then Some zero_batch
        else let ring = journal_ring j bus channel;
                 head = ring_head ring;
                 (reset, lost, start) = journal_window head after;
                 (nxt, records) = journal_scan (unat head - unat start) (ring_entries ring) address start []
             in Some \<lparr> batch_next = nxt, batch_head = head, batch_lost = lost,
                       batch_reset = reset, batch_records = records \<rparr>))"

section \<open>The rings hold the last 256 events\<close>

interpretation jring: ring_log 256 "\<lambda>r. unat (ring_head r)" "\<lambda>r i. ring_entries r ! i" ring_push
  "\<lambda>r. length (ring_entries r) = 256"
  by unfold_locales (auto simp: ring_push_def unat_plus_one nth_list_update)

text \<open>The events the journal keeps in the ring of a bus and channel.\<close>

definition routed :: "nat \<Rightarrow> nat \<Rightarrow> bvstk_event_t \<Rightarrow> bool" where
  "routed bus channel e \<longleftrightarrow> unat (ev_bus e) = bus \<and>
     (if bvstk_event_is_telemetry (ev_type e) then channel = 1
      else channel = 0 \<and> \<not> ev_type e < 1 \<and> ev_type e \<le> 5)"

definition journal_holds :: "bvstk_journal_t \<Rightarrow> bvstk_event_t list \<Rightarrow> bool" where
  "journal_holds j es \<longleftrightarrow> length (rings j) = 2 \<and> (\<forall>b < 2. length (rings j ! b) = 2) \<and>
     (\<forall>b < 2. \<forall>c < 2. jring.represents (journal_ring j b c) (filter (routed b c) es))"

lemma journal_holds_ring:
  "journal_holds j es \<Longrightarrow> b < 2 \<Longrightarrow> c < 2 \<Longrightarrow>
   jring.represents (journal_ring j b c) (filter (routed b c) es)"
  by (simp add: journal_holds_def)

lemma journal_holds_zero: "journal_holds zero_journal []"
  by (auto simp: journal_holds_def zero_journal_def journal_ring_def zero_ring_def
      intro!: jring.represents_empty)

lemma routed_cases:
  assumes "unat (ev_bus e) < 2"
    and "bvstk_event_is_telemetry (ev_type e) \<or> \<not> (ev_type e < 1 \<or> ev_type e > 5)"
  shows "routed b c e \<longleftrightarrow>
    b = unat (ev_bus e) \<and> c = (if bvstk_event_is_telemetry (ev_type e) then 1 else 0)"
  using assms by (auto simp: routed_def not_less)

lemma routed_none:
  assumes "unat (ev_bus e) \<ge> 2 \<or>
      \<not> bvstk_event_is_telemetry (ev_type e) \<and> (ev_type e < 1 \<or> ev_type e > 5)" and "b < 2"
  shows "\<not> routed b c e"
  using assms by (auto simp: routed_def not_le)

lemma journal_publish_holds:
  assumes j: "journal_holds j es" and len: "Suc (length es) < 2 ^ 64"
  shows "\<exists>j'. bvstk_journal_publish (Some j) (Some e) = Some j' \<and> journal_holds j' (es @ [e])"
proof (cases "unat (ev_bus e) \<ge> 2 \<or>
      \<not> bvstk_event_is_telemetry (ev_type e) \<and> (ev_type e < 1 \<or> ev_type e > 5)")
  case True
  then have "bvstk_journal_publish (Some j) (Some e) = Some j"
    by (auto simp: bvstk_journal_publish_def)
  moreover have "journal_holds j (es @ [e])"
    using j routed_none [OF True] by (auto simp: journal_holds_def)
  ultimately show ?thesis by blast
next
  case False
  define bus where "bus = unat (ev_bus e)"
  define channel where "channel = (if bvstk_event_is_telemetry (ev_type e) then 1 else 0 :: nat)"
  let ?j = "j \<lparr> rings := (rings j)[bus := (rings j ! bus)
      [channel := ring_push e (journal_ring j bus channel)]] \<rparr>"
  have pub: "bvstk_journal_publish (Some j) (Some e) = Some ?j"
    using False by (auto simp: bvstk_journal_publish_def bus_def channel_def Let_def)
  have rt: "routed b c e \<longleftrightarrow> b = bus \<and> c = channel" for b c
    using False by (subst routed_cases) (auto simp: bus_def channel_def not_le)
  have bnd: "bus < 2" "channel < 2" using False by (auto simp: bus_def channel_def)
  have ring: "journal_ring ?j b c =
      (if b = bus \<and> c = channel then ring_push e (journal_ring j b c) else journal_ring j b c)"
    if "b < 2" "c < 2" for b c
    using j that bnd by (auto simp: journal_ring_def journal_holds_def nth_list_update)
  have "jring.represents (journal_ring ?j b c) (filter (routed b c) (es @ [e]))"
    if "b < 2" "c < 2" for b c
  proof -
    have "Suc (length (filter (routed b c) es)) < 2 ^ 64"
      using len length_filter_le [of "routed b c" es] by linarith
    then show ?thesis
      using journal_holds_ring [OF j that] by (auto simp: ring that rt intro: jring.represents_push)
  qed
  then have "journal_holds ?j (es @ [e])"
    using j bnd by (auto simp: journal_holds_def nth_list_update)
  with pub show ?thesis by blast
qed

text \<open>The numbered records of a history from a position on.\<close>

definition numbered :: "bvstk_event_t list \<Rightarrow> nat \<Rightarrow> bvstk_journal_record_t list" where
  "numbered hist k = map (\<lambda>i. \<lparr> rec_sequence = of_nat (Suc i), rec_event = hist ! i \<rparr>) [k..<length hist]"

definition matching :: "int \<Rightarrow> bvstk_event_t list \<Rightarrow> nat \<Rightarrow> bvstk_journal_record_t list" where
  "matching address hist k = filter (\<lambda>r. record_matches address (rec_event r)) (numbered hist k)"

lemma matching_end: "matching address hist (length hist) = []"
  by (simp add: matching_def numbered_def)

lemma matching_step:
  assumes "k < length hist"
  shows "matching address hist k =
    (if record_matches address (hist ! k)
     then \<lparr> rec_sequence = of_nat (Suc k), rec_event = hist ! k \<rparr> # matching address hist (Suc k)
     else matching address hist (Suc k))"
  using assms by (simp add: matching_def numbered_def upt_conv_Cons)

lemma journal_scan_spec:
  assumes "jring.represents r hist" and "length hist < 2 ^ 64"
    and "n = length hist - k" and "k \<le> length hist" and "length hist \<le> k + 256" and "length acc \<le> 32"
  shows "journal_scan n (ring_entries r) address (of_nat k) acc =
    (if length acc + length (matching address hist k) < 32 then of_nat (length hist)
     else if length acc = 32 then of_nat k
     else rec_sequence (matching address hist k ! (31 - length acc)),
     acc @ take (32 - length acc) (matching address hist k))"
  using assms(3-)
proof (induction n arbitrary: k acc)
  case 0
  then show ?case by (auto simp: matching_end)
next
  case (Suc n)
  then have k: "k < length hist" by simp
  have un: "unat (of_nat k :: u64) = k" using k assms(2) by (intro unat_of_nat_small) simp
  have e: "ring_entries r ! (k mod 256) = hist ! k"
    using jring.represents_slot [OF assms(1) k] Suc.prems by simp
  have suc: "(of_nat k :: u64) + 1 = of_nat (Suc k)" by simp
  show ?case
  proof (cases "length acc < 32")
    case False
    then have "length acc = 32" using Suc.prems by simp
    then show ?thesis by simp
  next
    case acc: True
    have n: "n = length hist - Suc k" using Suc.prems by simp
    show ?thesis
    proof (cases "record_matches address (hist ! k)")
      case True
      let ?rec = "\<lparr> rec_sequence = of_nat (Suc k), rec_event = hist ! k \<rparr>"
      have "journal_scan (Suc n) (ring_entries r) address (of_nat k) acc =
          journal_scan n (ring_entries r) address (of_nat (Suc k)) (acc @ [?rec])"
        using acc True by (simp add: Let_def un e add.commute)
      also have "\<dots> = (if length acc + 1 + length (matching address hist (Suc k)) < 32 then of_nat (length hist)
         else if length acc + 1 = 32 then of_nat (Suc k)
         else rec_sequence (matching address hist (Suc k) ! (31 - (length acc + 1))),
         acc @ [?rec] @ take (32 - (length acc + 1)) (matching address hist (Suc k)))"
        using Suc.IH [OF n, of "acc @ [?rec]"] Suc.prems k acc by (simp del: of_nat_Suc)
      also have "\<dots> = (if length acc + length (matching address hist k) < 32 then of_nat (length hist)
         else if length acc = 32 then of_nat k
         else rec_sequence (matching address hist k ! (31 - length acc)),
         acc @ take (32 - length acc) (matching address hist k))"
        using acc True k by (auto simp: matching_step nth_Cons' take_Cons' Suc_diff_le)
      finally show ?thesis .
    next
      case False
      have "journal_scan (Suc n) (ring_entries r) address (of_nat k) acc =
          journal_scan n (ring_entries r) address (of_nat (Suc k)) acc"
        using acc False by (simp add: Let_def un e add.commute)
      then show ?thesis
        using Suc.IH [OF n, of acc] Suc.prems k acc False by (simp add: matching_step)
    qed
  qed
qed

text \<open>Where a read starts: at the cursor, moved up to the oldest record still held.\<close>

definition journal_start :: "bvstk_event_t list \<Rightarrow> u64 \<Rightarrow> nat" where
  "journal_start hist after =
     (if after = -1 \<or> length hist < unat after then length hist - 256
      else max (length hist - 256) (unat after))"

lemma journal_window_eq:
  assumes "n < 2 ^ 64"
  shows "journal_window (of_nat n) after =
    (after \<noteq> -1 \<and> n < unat after,
     if after = -1 \<or> n < unat after then 0 else of_nat (n - 256 - unat after),
     of_nat (if after = -1 \<or> n < unat after then n - 256 else max (n - 256) (unat after)))"
proof -
  have un: "unat (of_nat n :: u64) = n" using assms by (rule unat_len_u64)
  have first: "(if of_nat n > (of_nat 256 :: u64) then of_nat n - of_nat 256 else 0 :: u64) = of_nat (n - 256)"
    using assms by (auto simp: word_less_nat_alt un)
  have gt: "after > of_nat n \<longleftrightarrow> n < unat after"
    by (simp add: word_less_nat_alt un)
  have lt: "x < of_nat (n - 256) \<longleftrightarrow> unat x < n - 256" for x :: u64
    using assms by (simp add: word_less_nat_alt unat_len_u64 del: of_nat_diff)
  have sub: "unat after < n - 256 \<Longrightarrow> (of_nat (n - 256) - after :: u64) = of_nat (n - 256 - unat after)"
    by (metis less_imp_le_nat of_nat_diff of_nat_unat ucast_id)
  show ?thesis
    unfolding journal_window_def first Let_def gt
    using assms sub by (auto simp: lt max_def unat_len_u64 simp del: of_nat_diff)
qed

lemma journal_read_eq:
  assumes rep: "jring.represents (journal_ring j bus channel) hist" and len: "length hist < 2 ^ 64"
    and b: "bus < 2" "channel < 2"
  shows "bvstk_journal_read (Some j) bus channel address after (Some out) =
    Some \<lparr> batch_next = (if length (matching address hist (journal_start hist after)) < 32
                         then of_nat (length hist)
                         else rec_sequence (matching address hist (journal_start hist after) ! 31)),
           batch_head = of_nat (length hist),
           batch_lost = (if after = -1 \<or> length hist < unat after then 0
                         else of_nat (length hist - 256 - unat after)),
           batch_reset = (after \<noteq> -1 \<and> length hist < unat after),
           batch_records = take 32 (matching address hist (journal_start hist after)) \<rparr>"
proof -
  let ?r = "journal_ring j bus channel" and ?s = "journal_start hist after"
  have hd: "ring_head ?r = of_nat (length hist)"
    using jring.represents_head [OF rep] by (metis of_nat_unat ucast_id)
  have st: "?s \<le> length hist" "length hist \<le> ?s + 256"
    by (auto simp: journal_start_def)
  have "journal_scan (length hist - ?s) (ring_entries ?r) address (of_nat ?s) [] =
     (if length (matching address hist ?s) < 32 then of_nat (length hist)
      else rec_sequence (matching address hist ?s ! 31), take 32 (matching address hist ?s))"
    using journal_scan_spec [OF rep len, of _ ?s "[]"] st by simp
  moreover have "unat (of_nat ?s :: u64) = ?s" using st len by (intro unat_len_u64) simp
  ultimately show ?thesis
    using b len
    by (simp add: bvstk_journal_read_def hd journal_window_eq unat_len_u64 Let_def
        journal_start_def [symmetric])
qed

section \<open>Reading in batches\<close>

text \<open>A client that reads batches, each from where the last one ended, until it has caught up with the
  head: what it received, or \<open>None\<close> when it has not caught up after \<open>n\<close> batches.\<close>

fun journal_drain :: "nat \<Rightarrow> bvstk_journal_t \<Rightarrow> nat \<Rightarrow> nat \<Rightarrow> int \<Rightarrow> u64 \<Rightarrow> bvstk_journal_record_t list option" where
  "journal_drain 0 j bus channel address after = None"
| "journal_drain (Suc n) j bus channel address after =
    (case bvstk_journal_read (Some j) bus channel address after (Some zero_batch) of
       None \<Rightarrow> None
     | Some b \<Rightarrow>
         if batch_next b = batch_head b then Some (batch_records b)
         else map_option (\<lambda>rs. batch_records b @ rs) (journal_drain n j bus channel address (batch_next b)))"

lemma matching_nth_sequence:
  "i < length (matching address hist k) \<Longrightarrow> length hist < 2 ^ 64 \<Longrightarrow>
   \<exists>m. k \<le> m \<and> m < length hist \<and> rec_sequence (matching address hist k ! i) = of_nat (Suc m) \<and>
       drop (Suc i) (matching address hist k) = matching address hist (Suc m)"
proof (induction "length hist - k" arbitrary: k i)
  case 0
  then show ?case by (simp add: matching_def numbered_def)
next
  case (Suc d)
  then have k: "k < length hist" and d: "d = length hist - Suc k" by simp_all
  show ?case
  proof (cases "record_matches address (hist ! k)")
    case True
    show ?thesis
    proof (cases i)
      case 0
      then show ?thesis using True k by (intro exI [of _ k]) (simp add: matching_step)
    next
      case (Suc i')
      then have "i' < length (matching address hist (Suc k))"
        using Suc.prems True k by (simp add: matching_step)
      from Suc.hyps(1) [OF d this Suc.prems(2)] show ?thesis
        using Suc True k by (auto simp: matching_step Suc_le_eq simp del: of_nat_Suc intro: less_imp_le)
    qed
  next
    case False
    then have "i < length (matching address hist (Suc k))"
      using Suc.prems k by (simp add: matching_step)
    from Suc.hyps(1) [OF d this Suc.prems(2)] show ?thesis
      using False k by (auto simp: matching_step Suc_le_eq simp del: of_nat_Suc intro: less_imp_le)
  qed
qed

lemma matching_shorter:
  "k \<le> m \<Longrightarrow> m \<le> length hist \<Longrightarrow> length (matching address hist k) \<le> m - k + length (matching address hist m)"
proof (induction "m - k" arbitrary: k)
  case (Suc d)
  then have "length (matching address hist (Suc k)) \<le> m - Suc k + length (matching address hist m)" by simp
  moreover have "length (matching address hist k) \<le> Suc (length (matching address hist (Suc k)))"
    using Suc by (simp add: matching_step)
  ultimately show ?case using Suc by linarith
qed simp

lemma journal_drain_eq:
  assumes rep: "jring.represents (journal_ring j bus channel) hist" and len: "Suc (length hist) < 2 ^ 64"
    and b: "bus < 2" "channel < 2"
    and k: "length hist - 256 \<le> k" "k \<le> length hist" and n: "length hist - k < 32 * n"
  shows "journal_drain n j bus channel address (of_nat k) = Some (matching address hist k)"
  using k n
proof (induction n arbitrary: k)
  case 0
  then show ?case by simp
next
  case (Suc n)
  have un: "unat (of_nat k :: u64) = k" using Suc.prems len by (intro unat_len_u64) simp
  have "(of_nat k :: u64) \<noteq> -1"
    using un len Suc.prems by (auto simp: unsigned_minus_1_eq_mask mask_eq_exp_minus_1)
  then have st: "journal_start hist (of_nat k) = k"
    using Suc.prems un by (auto simp: journal_start_def)
  let ?m = "matching address hist k"
  have len': "length hist < 2 ^ 64" using len by simp
  have drain: "journal_drain (Suc n) j bus channel address (of_nat k) =
     (if length ?m < 32 \<or> rec_sequence (?m ! 31) = of_nat (length hist) then Some (take 32 ?m)
      else map_option (\<lambda>rs. take 32 ?m @ rs) (journal_drain n j bus channel address (rec_sequence (?m ! 31))))"
    using journal_read_eq [OF rep len' b, of address "of_nat k" zero_batch] by (simp add: st)
  show ?case
  proof (cases "length ?m < 32")
    case True
    then show ?thesis by (simp add: drain del: journal_drain.simps)
  next
    case False
    then have "31 < length ?m" by simp
    from matching_nth_sequence [OF this len'] obtain m where m: "k \<le> m" "m < length hist"
      "rec_sequence (?m ! 31) = of_nat (Suc m)" "drop (Suc 31) ?m = matching address hist (Suc m)"
      by blast
    have eq: "(of_nat (Suc m) :: u64) = of_nat (length hist) \<longleftrightarrow> Suc m = length hist"
      by (rule of_nat_u64_eq_iff) (use m(2) len in simp_all)
    have "journal_drain (Suc n) j bus channel address (of_nat k) = Some (take 32 ?m @ drop (Suc 31) ?m)"
    proof (cases "Suc m = length hist")
      case True
      then have "drop (Suc 31) ?m = []" using m(4) matching_end [of address hist] by metis
      then show ?thesis using False m(3) eq True by (simp only: drain if_True simp_thms append_Nil2)
    next
      case neq: False
      have "length ?m = 32 + length (matching address hist (Suc m))"
        using False arg_cong [OF m(4), of length] by (simp del: One_nat_def)
      then have "32 \<le> Suc m - k" using matching_shorter [of k "Suc m" hist address] m by simp
      then have "journal_drain n j bus channel address (of_nat (Suc m)) = Some (matching address hist (Suc m))"
        using Suc.prems m by (intro Suc.IH) simp_all
      then show ?thesis using False m(3,4) eq neq by (simp only: drain if_False simp_thms option.map)
    qed
    then show ?thesis by simp
  qed
qed

section \<open>Histories\<close>

text \<open>The journal after a sequence of published events.\<close>

definition publish_all :: "bvstk_event_t list \<Rightarrow> bvstk_journal_t option" where
  "publish_all es = foldl (\<lambda>j e. bvstk_journal_publish j (Some e)) (Some zero_journal) es"

lemma publish_all_snoc: "publish_all (es @ [e]) = bvstk_journal_publish (publish_all es) (Some e)"
  by (simp add: publish_all_def)

lemma publish_all_holds:
  "length es < 2 ^ 64 \<Longrightarrow> \<exists>j. publish_all es = Some j \<and> journal_holds j es"
proof (induction es rule: rev_induct)
  case Nil
  then show ?case by (simp add: publish_all_def journal_holds_zero)
next
  case (snoc e es)
  then obtain j where "publish_all es = Some j" "journal_holds j es" by auto
  then show ?case using journal_publish_holds [of j es e] snoc.prems by (simp add: publish_all_snoc)
qed

lemma length_routed: "length es < 2 ^ 64 \<Longrightarrow> length (filter (routed b c) es) < 2 ^ 64"
  using length_filter_le [of "routed b c" es] by linarith

text \<open>
  After any sequence of published events, a read of a bus and channel returns exactly this
  batch: with \<open>hist\<close> the events routed to that ring (events of unknown types or buses are
  dropped), the records are the first 32 that match the address among those at or after the
  cursor and still in the ring, numbered from 1; \<open>lost\<close> counts those between the cursor and
  the oldest still held; a cursor beyond the head restarts and sets \<open>reset\<close>; \<open>next\<close> is the
  sequence of the last record of a full batch and the head otherwise. An unknown bus or channel
  gives the zero batch.
\<close>

theorem journal_read_after_publishes:
  assumes "length es < 2 ^ 64"
  shows "bvstk_journal_read (publish_all es) bus channel address after (Some out) =
    (if bus \<ge> 2 \<or> channel \<ge> 2 then Some zero_batch
     else let h = filter (routed bus channel) es; m = matching address h (journal_start h after)
     in Some \<lparr> batch_next = (if length m < 32 then of_nat (length h) else rec_sequence (m ! 31)),
           batch_head = of_nat (length h),
           batch_lost = (if after = -1 \<or> length h < unat after then 0
                         else of_nat (length h - 256 - unat after)),
           batch_reset = (after \<noteq> -1 \<and> length h < unat after),
           batch_records = take 32 m \<rparr>)"
proof (cases "bus \<ge> 2 \<or> channel \<ge> 2")
  case True
  then show ?thesis by (auto simp: bvstk_journal_read_def split: option.split)
next
  case False
  obtain j where "publish_all es = Some j" "journal_holds j es"
    using publish_all_holds [OF assms(1)] by blast
  then show ?thesis
    using journal_read_eq [OF journal_holds_ring length_routed] False assms(1)
    by (simp add: Let_def)
qed

theorem journal_read_after_publishes_witness:
  "bvstk_journal_read (publish_all [zero_event \<lparr> ev_type := 1, ev_arg0 := 7 \<rparr>,
       zero_event \<lparr> ev_type := 6 \<rparr>, zero_event \<lparr> ev_type := 2, ev_arg0 := 9 \<rparr>]) 0 0 9 (-1) (Some zero_batch)
   = Some \<lparr> batch_next = 2, batch_head = 2, batch_lost = 0, batch_reset = False,
       batch_records = [\<lparr> rec_sequence = 2, rec_event = zero_event \<lparr> ev_type := 2, ev_arg0 := 9 \<rparr> \<rparr>] \<rparr>"
proof -
  let ?es = "[zero_event \<lparr> ev_type := 1, ev_arg0 := 7 \<rparr>, zero_event \<lparr> ev_type := 6 \<rparr>,
       zero_event \<lparr> ev_type := 2, ev_arg0 := 9 \<rparr>]"
  have "filter (routed 0 0) ?es = [?es ! 0, ?es ! 2]" by code_simp
  then show ?thesis
    using journal_read_after_publishes [of ?es 0 0 9 "-1" zero_batch]
    by (simp add: matching_def numbered_def journal_start_def record_matches_def Let_def upt_conv_Cons)
qed

text \<open>
  C26: A client that reads batch after batch, each from the previous batch's \<open>next\<close>, receives
  every event of its ring and address that is still held and not older than its cursor, exactly
  once, in publication order, and has caught up with the head, so that it stops, after at most nine
  batches: the eight full ones a ring of 256 records can hold and one more.
\<close>

theorem journal_drain_complete:
  assumes "Suc (length es) < 2 ^ 64" and "bus < 2" and "channel < 2"
    and "h = filter (routed bus channel) es" and "length h - 256 \<le> k" and "k \<le> length h"
    and "publish_all es = Some j"
  shows "journal_drain 9 j bus channel address (of_nat k) =
    Some (filter (\<lambda>r. record_matches address (rec_event r))
      (map (\<lambda>i. \<lparr> rec_sequence = of_nat (Suc i), rec_event = h ! i \<rparr>) [k..<length h]))"
proof -
  have "length es < 2 ^ 64" using assms(1) by simp
  then have "journal_holds j es" using publish_all_holds assms(7) by fastforce
  then have "jring.represents (journal_ring j bus channel) h"
    using assms by (simp add: journal_holds_ring)
  moreover have "Suc (length h) < 2 ^ 64"
    using assms(1) length_filter_le [of "routed bus channel" es] unfolding assms(4) by linarith
  ultimately show ?thesis
    using journal_drain_eq [of j bus channel h k 9 address] assms
    by (simp add: matching_def numbered_def)
qed

theorem journal_drain_complete_witness:
  "\<exists>j. publish_all [zero_event \<lparr> ev_type := 1 \<rparr>, zero_event \<lparr> ev_type := 2 \<rparr>] = Some j \<and>
     journal_drain 9 j 0 0 (-1) 0 =
       Some [\<lparr> rec_sequence = 1, rec_event = zero_event \<lparr> ev_type := 1 \<rparr> \<rparr>,
        \<lparr> rec_sequence = 2, rec_event = zero_event \<lparr> ev_type := 2 \<rparr> \<rparr>]"
proof -
  let ?es = "[zero_event \<lparr> ev_type := 1 \<rparr>, zero_event \<lparr> ev_type := 2 \<rparr>]"
  obtain j where j: "publish_all ?es = Some j" using publish_all_holds [of ?es] by auto
  have "filter (routed 0 0) ?es = ?es"
    by code_simp
  then show ?thesis
    using journal_drain_complete [OF _ _ _ refl _ _ j, of 0 0 0 "-1"] j
    by (simp add: record_matches_def upt_conv_Cons del: journal_drain.simps)
qed
end
