(* ===== verification/Cache_Sink.thy ===== *)
theory Cache_Sink
  imports Bvstk_Prelude
begin

text \<open>
  The cache observer of \<open>src/shared/interfaces/bvstk_cache_sink.h\<close> that the bus services notify: which
  of its four callbacks are installed. The calls themselves are actions of the services' traces.
\<close>

record bvstk_cache_sink_t =
  sink_enter :: bool
  sink_leave :: bool
  sink_entry :: bool
  sink_presence :: bool

definition no_sink :: bvstk_cache_sink_t where
  "no_sink = \<lparr> sink_enter = False, sink_leave = False, sink_entry = False, sink_presence = False \<rparr>"

end
