(* ===== verification/I2c_Cache.thy ===== *)
theory I2c_Cache
  imports I2c_Config Event_Journal Cache_Sink
begin

text \<open>
  The I2C value cache of \<open>src/services/i2c/bvstk_i2c_cache.c\<close> and the calls the I2C services
  make to the outside: the cache sink (\<open>src/shared/interfaces/bvstk_cache_sink.h\<close>), the event
  sink, the register bus and the catalog observer. Such calls are recorded in order in a trace;
  what they answer, and the clock, is given by an environment that may depend on everything that
  happened so far. A callback that may be \<open>NULL\<close> is a flag saying whether it is installed.
\<close>

datatype i2c_action =
    SinkEnter
  | SinkLeave
  | SinkEntry nat nat u64 bool bool u64
  | SinkPresence nat u8
  | Publish bvstk_event_t
  | BusRead u8 u8 u32
  | BusWrite u8 u8 u8 u32
  | ConfigChanged nat i2c_device_config_t

type_synonym i2c_trace = "i2c_action list"

definition bvstk_cache_sink_enter :: "bvstk_cache_sink_t \<Rightarrow> i2c_trace \<Rightarrow> i2c_trace" where
  "bvstk_cache_sink_enter s t = (if sink_enter s then t @ [SinkEnter] else t)"

definition bvstk_cache_sink_leave :: "bvstk_cache_sink_t \<Rightarrow> i2c_trace \<Rightarrow> i2c_trace" where
  "bvstk_cache_sink_leave s t = (if sink_leave s then t @ [SinkLeave] else t)"

definition bvstk_cache_sink_entry :: "bvstk_cache_sink_t \<Rightarrow> nat \<Rightarrow> nat \<Rightarrow> u64 \<Rightarrow> bool \<Rightarrow> bool \<Rightarrow> u64 \<Rightarrow> i2c_trace \<Rightarrow> i2c_trace" where
  "bvstk_cache_sink_entry s dev resource value valid seeded time t =
     (if sink_entry s then t @ [SinkEntry dev resource value valid seeded time] else t)"

definition bvstk_cache_sink_presence :: "bvstk_cache_sink_t \<Rightarrow> nat \<Rightarrow> u8 \<Rightarrow> i2c_trace \<Rightarrow> i2c_trace" where
  "bvstk_cache_sink_presence s dev presence t = (if sink_presence s then t @ [SinkPresence dev presence] else t)"

section \<open>The cache\<close>

record bvstk_i2c_cache_t =
  ca_sink :: bvstk_cache_sink_t
  ca_values :: "u8 list list"
  ca_valid :: "bool list list"
  ca_seeded :: "bool list list"
  ca_updated_ms :: "u64 list list"
  ca_device_count :: nat
  ca_initialized :: bool

record bvstk_i2c_cache_entry_t =
  en_value :: u8
  en_valid :: bool
  en_seeded :: bool
  en_updated_ms :: u64

definition cell :: "'a list list \<Rightarrow> nat \<Rightarrow> u8 \<Rightarrow> 'a" where
  "cell a d r = a ! d ! unat r"

definition set_cell :: "'a list list \<Rightarrow> nat \<Rightarrow> u8 \<Rightarrow> 'a \<Rightarrow> 'a list list" where
  "set_cell a d r x = a[d := (a ! d)[unat r := x]]"

definition grid :: "'a \<Rightarrow> 'a list list" where
  "grid x = replicate I2C_CFG_MAX_DEVICES (replicate I2C_CFG_MAX_REG_COUNT x)"

definition zero_cache :: bvstk_i2c_cache_t where
  "zero_cache = \<lparr> ca_sink = no_sink, ca_values = grid 0, ca_valid = grid False, ca_seeded = grid False,
     ca_updated_ms = grid 0, ca_device_count = 0, ca_initialized = False \<rparr>"

definition cache_status :: "bvstk_i2c_cache_t option \<Rightarrow> nat \<Rightarrow> u8 \<Rightarrow> bvstk_status_t" where
  "cache_status cache device_id reg =
    (case cache of
       None \<Rightarrow> BVSTK_ERR_NOT_READY
     | Some c \<Rightarrow> if \<not> ca_initialized c then BVSTK_ERR_NOT_READY
         else if device_id \<ge> ca_device_count c then BVSTK_ERR_RANGE else BVSTK_OK)"

definition bvstk_i2c_cache_init :: "bvstk_i2c_cache_t option \<Rightarrow> nat \<Rightarrow> bvstk_status_t \<times> bvstk_i2c_cache_t option" where
  "bvstk_i2c_cache_init cache device_count =
    (if cache = None \<or> device_count > I2C_CFG_MAX_DEVICES then (BVSTK_ERR_MALFORMED, cache)
     else (BVSTK_OK, Some (zero_cache \<lparr> ca_device_count := device_count, ca_initialized := True \<rparr>)))"

definition bvstk_i2c_cache_shutdown :: "bvstk_i2c_cache_t option \<Rightarrow> bvstk_i2c_cache_t option" where
  "bvstk_i2c_cache_shutdown cache = map_option (\<lambda>_. zero_cache) cache"

definition bvstk_i2c_cache_read :: "bvstk_i2c_cache_t option \<Rightarrow> nat \<Rightarrow> u8 \<Rightarrow> bool \<Rightarrow> bvstk_status_t \<times> u8 option" where
  "bvstk_i2c_cache_read cache device_id reg out =
    (case cache_status cache device_id reg of
       BVSTK_OK \<Rightarrow> if \<not> out then (BVSTK_ERR_MALFORMED, None)
         else (BVSTK_OK, Some (cell (ca_values (the cache)) device_id reg))
     | st \<Rightarrow> (st, None))"

text \<open>The stores of a write, a seed or an invalidation; the clock is read between them.\<close>

definition cache_store :: "bvstk_i2c_cache_t \<Rightarrow> nat \<Rightarrow> u8 \<Rightarrow> u8 \<Rightarrow> bool \<Rightarrow> bool \<Rightarrow> u64 \<Rightarrow> bvstk_i2c_cache_t" where
  "cache_store c d r value valid seeded now = c \<lparr> ca_values := set_cell (ca_values c) d r value,
     ca_valid := set_cell (ca_valid c) d r valid, ca_seeded := set_cell (ca_seeded c) d r seeded,
     ca_updated_ms := set_cell (ca_updated_ms c) d r now \<rparr>"

definition bvstk_i2c_cache_write :: "(i2c_trace \<Rightarrow> u64) \<Rightarrow> bvstk_i2c_cache_t option \<Rightarrow> nat \<Rightarrow> u8 \<Rightarrow> u8 \<Rightarrow> i2c_trace \<Rightarrow>
    bvstk_status_t \<times> bvstk_i2c_cache_t option \<times> i2c_trace" where
  "bvstk_i2c_cache_write now_ms cache device_id reg value t =
    (case cache_status cache device_id reg of
       BVSTK_OK \<Rightarrow>
         let c = the cache;
             t1 = bvstk_cache_sink_enter (ca_sink c) t;
             now = now_ms t1;
             t2 = bvstk_cache_sink_entry (ca_sink c) device_id (unat reg) (ucast value) True False now t1;
             t3 = bvstk_cache_sink_leave (ca_sink c) t2
         in (BVSTK_OK, Some (cache_store c device_id reg value True False now), t3)
     | st \<Rightarrow> (st, cache, t))"

definition bvstk_i2c_cache_seed :: "(i2c_trace \<Rightarrow> u64) \<Rightarrow> bvstk_i2c_cache_t option \<Rightarrow> nat \<Rightarrow> u8 \<Rightarrow> u8 \<Rightarrow> i2c_trace \<Rightarrow>
    bvstk_status_t \<times> bvstk_i2c_cache_t option \<times> i2c_trace" where
  "bvstk_i2c_cache_seed now_ms cache device_id reg value t =
    (case cache_status cache device_id reg of
       BVSTK_OK \<Rightarrow>
         let c = the cache;
             t1 = bvstk_cache_sink_enter (ca_sink c) t;
             now = now_ms t1;
             t2 = bvstk_cache_sink_entry (ca_sink c) device_id (unat reg) (ucast value) True True now t1;
             t3 = bvstk_cache_sink_leave (ca_sink c) t2
         in (BVSTK_OK, Some (cache_store c device_id reg value True True now), t3)
     | st \<Rightarrow> (st, cache, t))"

definition bvstk_i2c_cache_invalidate :: "bvstk_i2c_cache_t option \<Rightarrow> nat \<Rightarrow> u8 \<Rightarrow> i2c_trace \<Rightarrow>
    bvstk_status_t \<times> bvstk_i2c_cache_t option \<times> i2c_trace" where
  "bvstk_i2c_cache_invalidate cache device_id reg t =
    (case cache_status cache device_id reg of
       BVSTK_OK \<Rightarrow>
         let c = the cache;
             t1 = bvstk_cache_sink_enter (ca_sink c) t;
             t2 = bvstk_cache_sink_entry (ca_sink c) device_id (unat reg) 0 False False 0 t1;
             t3 = bvstk_cache_sink_leave (ca_sink c) t2
         in (BVSTK_OK, Some (cache_store c device_id reg (cell (ca_values c) device_id reg) False False 0), t3)
     | st \<Rightarrow> (st, cache, t))"

definition cache_entry_at :: "bvstk_i2c_cache_t \<Rightarrow> nat \<Rightarrow> u8 \<Rightarrow> bvstk_i2c_cache_entry_t" where
  "cache_entry_at c d r = \<lparr> en_value = cell (ca_values c) d r, en_valid = cell (ca_valid c) d r,
     en_seeded = cell (ca_seeded c) d r, en_updated_ms = cell (ca_updated_ms c) d r \<rparr>"

definition bvstk_i2c_cache_entry :: "bvstk_i2c_cache_t option \<Rightarrow> nat \<Rightarrow> u8 \<Rightarrow> bool \<Rightarrow> i2c_trace \<Rightarrow>
    bvstk_status_t \<times> bvstk_i2c_cache_entry_t option \<times> i2c_trace" where
  "bvstk_i2c_cache_entry cache device_id reg out t =
    (case cache_status cache device_id reg of
       BVSTK_OK \<Rightarrow> if \<not> out then (BVSTK_ERR_MALFORMED, None, t)
         else let c = the cache; t1 = bvstk_cache_sink_enter (ca_sink c) t
              in (BVSTK_OK, Some (cache_entry_at c device_id reg), bvstk_cache_sink_leave (ca_sink c) t1)
     | st \<Rightarrow> (st, None, t))"

definition bvstk_i2c_cache_is_valid :: "bvstk_i2c_cache_t option \<Rightarrow> nat \<Rightarrow> u8 \<Rightarrow> bool" where
  "bvstk_i2c_cache_is_valid cache device_id reg \<longleftrightarrow>
     cache_status cache device_id reg = BVSTK_OK \<and> cell (ca_valid (the cache)) device_id reg"

section \<open>Cells\<close>

definition cache_wf :: "bvstk_i2c_cache_t \<Rightarrow> bool" where
  "cache_wf c \<longleftrightarrow> ca_device_count c \<le> 32 \<and>
     length (ca_values c) = 32 \<and> list_all (\<lambda>row. length row = 256) (ca_values c) \<and>
     length (ca_valid c) = 32 \<and> list_all (\<lambda>row. length row = 256) (ca_valid c) \<and>
     length (ca_seeded c) = 32 \<and> list_all (\<lambda>row. length row = 256) (ca_seeded c) \<and>
     length (ca_updated_ms c) = 32 \<and> list_all (\<lambda>row. length row = 256) (ca_updated_ms c)"

declare cache_wf_def [wf_defs]

lemma cell_set_cell:
  assumes "length a = 32" "list_all (\<lambda>row. length row = 256) a" "d < 32"
  shows "cell (set_cell a d r x) d' r' = (if d' = d \<and> r' = r then x else cell a d' r')"
proof -
  have "length (a ! d) = 256" using assms by (simp add: list_all_length)
  then show ?thesis using assms by (auto simp: cell_def set_cell_def nth_list_update word_unat_eq_iff)
qed

lemma set_cell_wf:
  assumes "length a = 32" "list_all (\<lambda>row. length row = 256) a"
  shows "length (set_cell a d r x) = 32 \<and> list_all (\<lambda>row. length row = 256) (set_cell a d r x)"
proof (cases "d < 32")
  case True
  then have "length (a ! d) = 256" using assms by (simp add: list_all_length)
  then show ?thesis using assms by (simp add: set_cell_def list_all_update)
next
  case False
  then show ?thesis using assms by (simp add: set_cell_def list_update_beyond)
qed

lemma cache_store_wf: "cache_wf c \<Longrightarrow> cache_wf (cache_store c d r v b s t)"
  by (simp add: cache_wf_def cache_store_def set_cell_wf)

lemma cache_store_entry:
  assumes "cache_wf c" "d < 32"
  shows "cache_entry_at (cache_store c d r v b s t) d' r' =
    (if d' = d \<and> r' = r then \<lparr> en_value = v, en_valid = b, en_seeded = s, en_updated_ms = t \<rparr>
     else cache_entry_at c d' r')"
  using assms by (simp add: cache_entry_at_def cache_store_def cache_wf_def cell_set_cell)

lemma cache_init_wf: "bvstk_i2c_cache_init (Some c) n = (BVSTK_OK, Some c') \<Longrightarrow> cache_wf c' \<and> ca_initialized c'"
  by (auto simp: bvstk_i2c_cache_init_def cache_wf_def zero_cache_def grid_def list_all_iff split: if_splits)

lemma cache_store_fields [simp]:
  "ca_sink (cache_store c d r v b s t) = ca_sink c" "ca_device_count (cache_store c d r v b s t) = ca_device_count c"
  "ca_initialized (cache_store c d r v b s t) = ca_initialized c"
  by (simp_all add: cache_store_def)

end
