(* ===== verification/Rule_List.thy ===== *)
theory Rule_List
  imports Bvstk_Status
begin

text \<open>
  The interface of a bounded list of policy rules, implemented by the I2C policy
  (\<open>I2c_Policy\<close>) and by the MDIO service (\<open>Mdio_Service\<close>): rules are looked up by a key,
  adding a present rule changes nothing, a full list refuses a new one, removing drops every rule
  of the key. A list stands for the set of the keys of its rules.
\<close>

locale rule_list =
  fixes cap :: nat
    and full :: bvstk_status_t
    and same :: "'k \<Rightarrow> 'r \<Rightarrow> bool"
    and mk :: "'k \<Rightarrow> 'r"
    and norm :: "'k \<Rightarrow> 'i"
    and key :: "'r \<Rightarrow> 'i"
    and add :: "'k \<Rightarrow> 'r list \<Rightarrow> bvstk_status_t \<times> 'r list"
    and remove :: "'k \<Rightarrow> 'r list \<Rightarrow> 'r list"
  assumes full_error: "full \<noteq> BVSTK_OK"
    and same_iff: "same k r \<longleftrightarrow> key r = norm k"
    and key_mk: "key (mk k) = norm k"
    and add_def: "add k rs =
      (if list_ex (same k) rs then (BVSTK_OK, rs)
       else if length rs \<ge> cap then (full, rs) else (BVSTK_OK, rs @ [mk k]))"
    and remove_def: "remove k rs = filter (\<lambda>r. \<not> same k r) rs"
begin

definition rules_ok :: "'r list \<Rightarrow> bool" where
  "rules_ok rs \<longleftrightarrow> length rs \<le> cap \<and> distinct (map key rs)"

definition keys :: "'r list \<Rightarrow> 'i set" where
  "keys rs = key ` set rs"

lemma contains_iff: "list_ex (same k) rs \<longleftrightarrow> norm k \<in> keys rs"
  by (auto simp: list_ex_iff keys_def same_iff intro: image_eqI [OF sym])

lemma rules_ok_add: "rules_ok rs \<Longrightarrow> rules_ok (snd (add k rs))"
  by (auto simp: rules_ok_def add_def key_mk same_iff list_ex_iff)

lemma keys_add:
  "fst (add k rs) = BVSTK_OK \<Longrightarrow> keys (snd (add k rs)) = insert (norm k) (keys rs)"
  "fst (add k rs) \<noteq> BVSTK_OK \<Longrightarrow> snd (add k rs) = rs \<and> cap \<le> length rs \<and> norm k \<notin> keys rs"
  using full_error by (auto simp: add_def keys_def key_mk same_iff list_ex_iff split: if_splits intro: image_eqI [OF sym])

lemma keys_remove: "keys (remove k rs) = keys rs - {norm k}"
  by (auto simp: keys_def remove_def same_iff)

lemma rules_ok_remove: "rules_ok rs \<Longrightarrow> rules_ok (remove k rs)"
  by (auto simp: rules_ok_def remove_def distinct_map_filter intro: le_trans [OF length_filter_le])

lemma remove_absent: "\<not> list_ex (same k) rs \<Longrightarrow> remove k rs = rs"
  by (auto simp: remove_def list_ex_iff filter_id_conv)

lemma remove_length:
  "rules_ok rs \<Longrightarrow> list_ex (same k) rs \<Longrightarrow> length (remove k rs) < length rs"
  unfolding remove_def list_ex_iff by (metis length_filter_less)

lemma add_remove: "length rs < cap \<Longrightarrow> \<not> list_ex (same k) rs \<Longrightarrow> remove k (snd (add k rs)) = rs"
  using remove_absent [of k rs] by (simp add: add_def remove_def key_mk same_iff)

lemma rules_ok_Nil: "rules_ok []" "keys [] = {}"
  by (simp_all add: rules_ok_def keys_def)

end

end
