(* ===== verification/I2c_Policy.thy ===== *)
theory I2c_Policy
  imports I2c_Config Rule_List
begin

text \<open>
  The I2C write policy of \<open>src/services/i2c/bvstk_i2c_policy.c\<close>: per device a mode and two rule
  lists of at most 256 exact (register, value) pairs. A list and its length field are the list of
  the rules in use.
\<close>

record bvstk_i2c_policy_entry_t =
  pe_mode :: i2c_policy_t
  pe_whitelist :: "i2c_rule_entry_t list"
  pe_blacklist :: "i2c_rule_entry_t list"

record bvstk_i2c_policy_t =
  po_items :: "bvstk_i2c_policy_entry_t list"
  po_device_count :: nat
  po_initialized :: bool

definition zero_policy_entry :: bvstk_i2c_policy_entry_t where
  "zero_policy_entry = \<lparr> pe_mode = 0, pe_whitelist = [], pe_blacklist = [] \<rparr>"

definition zero_policy :: bvstk_i2c_policy_t where
  "zero_policy = \<lparr> po_items = replicate I2C_CFG_MAX_DEVICES zero_policy_entry, po_device_count = 0, po_initialized = False \<rparr>"

definition policy_status :: "bvstk_i2c_policy_t option \<Rightarrow> nat \<Rightarrow> bvstk_status_t" where
  "policy_status policy device_id =
    (case policy of
       None \<Rightarrow> BVSTK_ERR_NOT_READY
     | Some p \<Rightarrow> if \<not> po_initialized p then BVSTK_ERR_NOT_READY
         else if device_id < po_device_count p then BVSTK_OK else BVSTK_ERR_NOT_FOUND)"

fun rule_contains :: "i2c_rule_entry_t list \<Rightarrow> u8 \<Rightarrow> u8 \<Rightarrow> bool" where
  "rule_contains [] reg value = False"
| "rule_contains (r # rs) reg value = (if rule_reg r = reg \<and> rule_val r = value then True else rule_contains rs reg value)"

definition mode_valid :: "i2c_policy_t \<Rightarrow> bool" where
  "mode_valid mode \<longleftrightarrow> mode = I2C_POLICY_WHITELIST \<or> mode = I2C_POLICY_BLACKLIST"

definition rule_valid :: "bvstk_i2c_device_t option \<Rightarrow> u8 \<Rightarrow> u8 \<Rightarrow> bool" where
  "rule_valid device reg value =
    (case device of None \<Rightarrow> False | Some d \<Rightarrow> unat reg < unat (dv_reg_count d) \<and> value \<le> dv_max_value_code d)"

definition add_rule :: "i2c_rule_entry_t list \<Rightarrow> u8 \<Rightarrow> u8 \<Rightarrow> bvstk_status_t \<times> i2c_rule_entry_t list" where
  "add_rule rules reg value =
    (if rule_contains rules reg value then (BVSTK_OK, rules)
     else if length rules \<ge> I2C_CFG_RULES_MAX then (BVSTK_ERR_RANGE, rules)
     else (BVSTK_OK, rules @ [\<lparr> rule_reg = reg, rule_val = value \<rparr>]))"

text \<open>The compaction loop: \<open>kept\<close> holds the rules already moved to the front.\<close>

fun remove_loop :: "i2c_rule_entry_t list \<Rightarrow> i2c_rule_entry_t list \<Rightarrow> u8 \<Rightarrow> u8 \<Rightarrow> i2c_rule_entry_t list" where
  "remove_loop kept [] reg value = kept"
| "remove_loop kept (r # rs) reg value =
    (if rule_reg r = reg \<and> rule_val r = value then remove_loop kept rs reg value
     else remove_loop (kept @ [r]) rs reg value)"

definition remove_rule :: "i2c_rule_entry_t list \<Rightarrow> u8 \<Rightarrow> u8 \<Rightarrow> i2c_rule_entry_t list" where
  "remove_rule rules reg value = remove_loop [] rules reg value"

definition entry_from_config :: "i2c_device_config_t \<Rightarrow> bvstk_i2c_policy_entry_t" where
  "entry_from_config c = \<lparr> pe_mode = cfg_policy c, pe_whitelist = take (cfg_whitelist_len c) (cfg_whitelist c),
     pe_blacklist = take (cfg_blacklist_len c) (cfg_blacklist c) \<rparr>"

definition policy_config_valid :: "i2c_device_config_t \<Rightarrow> bool" where
  "policy_config_valid c \<longleftrightarrow> mode_valid (cfg_policy c) \<and> cfg_whitelist_len c \<le> I2C_CFG_RULES_MAX \<and>
     cfg_blacklist_len c \<le> I2C_CFG_RULES_MAX"

fun policy_init_loop :: "nat \<Rightarrow> i2c_device_config_t list \<Rightarrow> bvstk_i2c_policy_t \<Rightarrow> bool \<times> bvstk_i2c_policy_t" where
  "policy_init_loop i [] p = (True, p)"
| "policy_init_loop i (c # cs) p =
    (if cfg_reg_count c = 0 \<or> unat (cfg_reg_count c) > I2C_CFG_MAX_REG_COUNT \<or> \<not> policy_config_valid c then (False, p)
     else policy_init_loop (i + 1) cs (p \<lparr> po_items := (po_items p)[i := entry_from_config c] \<rparr>))"

definition bvstk_i2c_policy_init :: "bvstk_i2c_policy_t option \<Rightarrow> i2c_device_config_t list option \<Rightarrow> nat \<Rightarrow>
    bvstk_status_t \<times> bvstk_i2c_policy_t option" where
  "bvstk_i2c_policy_init policy configs device_count =
    (if policy = None \<or> device_count > I2C_CFG_MAX_DEVICES \<or> (device_count \<noteq> 0 \<and> configs = None)
     then (BVSTK_ERR_MALFORMED, policy)
     else let (ok, p) = policy_init_loop 0 (case configs of None \<Rightarrow> [] | Some cs \<Rightarrow> take device_count cs) zero_policy in
       if \<not> ok then (BVSTK_ERR_MALFORMED, Some p)
       else (BVSTK_OK, Some (p \<lparr> po_device_count := device_count, po_initialized := True \<rparr>)))"

definition bvstk_i2c_policy_shutdown :: "bvstk_i2c_policy_t option \<Rightarrow> bvstk_i2c_policy_t option" where
  "bvstk_i2c_policy_shutdown policy = map_option (\<lambda>_. zero_policy) policy"

definition bvstk_i2c_policy_get :: "bvstk_i2c_policy_t option \<Rightarrow> nat \<Rightarrow> bool \<Rightarrow>
    bvstk_status_t \<times> bvstk_i2c_policy_entry_t option" where
  "bvstk_i2c_policy_get policy device_id out =
    (case policy_status policy device_id of
       BVSTK_OK \<Rightarrow> if \<not> out then (BVSTK_ERR_MALFORMED, None) else (BVSTK_OK, Some (po_items (the policy) ! device_id))
     | st \<Rightarrow> (st, None))"

text \<open>A store to the policy entry of a device.\<close>

definition set_entry :: "nat \<Rightarrow> bvstk_i2c_policy_entry_t \<Rightarrow> bvstk_i2c_policy_t option \<Rightarrow> bvstk_i2c_policy_t option" where
  "set_entry i e policy = map_option (\<lambda>p. p \<lparr> po_items := (po_items p)[i := e] \<rparr>) policy"

definition bvstk_i2c_policy_set_config :: "bvstk_i2c_policy_t option \<Rightarrow> nat \<Rightarrow> i2c_device_config_t option \<Rightarrow>
    bvstk_status_t \<times> bvstk_i2c_policy_t option" where
  "bvstk_i2c_policy_set_config policy device_id config =
    (case policy_status policy device_id of
       BVSTK_OK \<Rightarrow> (case config of
           None \<Rightarrow> (BVSTK_ERR_MALFORMED, policy)
         | Some c \<Rightarrow> if \<not> policy_config_valid c then (BVSTK_ERR_MALFORMED, policy)
             else (BVSTK_OK, set_entry device_id (entry_from_config c) policy))
     | st \<Rightarrow> (st, policy))"

definition bvstk_i2c_policy_set_mode :: "bvstk_i2c_policy_t option \<Rightarrow> nat \<Rightarrow> i2c_policy_t \<Rightarrow>
    bvstk_status_t \<times> bvstk_i2c_policy_t option" where
  "bvstk_i2c_policy_set_mode policy device_id mode =
    (case policy_status policy device_id of
       BVSTK_OK \<Rightarrow> if \<not> mode_valid mode then (BVSTK_ERR_MALFORMED, policy)
         else (BVSTK_OK, set_entry device_id ((po_items (the policy) ! device_id) \<lparr> pe_mode := mode \<rparr>) policy)
     | st \<Rightarrow> (st, policy))"

definition bvstk_i2c_policy_add_allow :: "bvstk_i2c_policy_t option \<Rightarrow> nat \<Rightarrow> u8 \<Rightarrow> u8 \<Rightarrow> bvstk_i2c_device_t option \<Rightarrow>
    bvstk_status_t \<times> bvstk_i2c_policy_t option" where
  "bvstk_i2c_policy_add_allow policy device_id reg value device =
    (case policy_status policy device_id of
       BVSTK_OK \<Rightarrow> if \<not> rule_valid device reg value then (BVSTK_ERR_RANGE, policy)
         else let e = po_items (the policy) ! device_id; (st, rules) = add_rule (pe_whitelist e) reg value
              in (st, set_entry device_id (e \<lparr> pe_whitelist := rules \<rparr>) policy)
     | st \<Rightarrow> (st, policy))"

definition bvstk_i2c_policy_add_deny :: "bvstk_i2c_policy_t option \<Rightarrow> nat \<Rightarrow> u8 \<Rightarrow> u8 \<Rightarrow> bvstk_i2c_device_t option \<Rightarrow>
    bvstk_status_t \<times> bvstk_i2c_policy_t option" where
  "bvstk_i2c_policy_add_deny policy device_id reg value device =
    (case policy_status policy device_id of
       BVSTK_OK \<Rightarrow> if \<not> rule_valid device reg value then (BVSTK_ERR_RANGE, policy)
         else let e = po_items (the policy) ! device_id; (st, rules) = add_rule (pe_blacklist e) reg value
              in (st, set_entry device_id (e \<lparr> pe_blacklist := rules \<rparr>) policy)
     | st \<Rightarrow> (st, policy))"

definition bvstk_i2c_policy_remove :: "bvstk_i2c_policy_t option \<Rightarrow> nat \<Rightarrow> u8 \<Rightarrow> u8 \<Rightarrow>
    bvstk_status_t \<times> bvstk_i2c_policy_t option" where
  "bvstk_i2c_policy_remove policy device_id reg value =
    (case policy_status policy device_id of
       BVSTK_OK \<Rightarrow> let e = po_items (the policy) ! device_id
         in (BVSTK_OK, set_entry device_id (e \<lparr> pe_whitelist := remove_rule (pe_whitelist e) reg value,
               pe_blacklist := remove_rule (pe_blacklist e) reg value \<rparr>) policy)
     | st \<Rightarrow> (st, policy))"

definition bvstk_i2c_policy_remove_list :: "bvstk_i2c_policy_t option \<Rightarrow> nat \<Rightarrow> i2c_policy_t \<Rightarrow> u8 \<Rightarrow> u8 \<Rightarrow>
    bvstk_status_t \<times> bvstk_i2c_policy_t option" where
  "bvstk_i2c_policy_remove_list policy device_id list reg value =
    (case policy_status policy device_id of
       BVSTK_OK \<Rightarrow>
         if \<not> mode_valid list then (BVSTK_ERR_MALFORMED, policy)
         else let e = po_items (the policy) ! device_id;
                  rules = (if list = I2C_POLICY_WHITELIST then pe_whitelist e else pe_blacklist e) in
           if \<not> rule_contains rules reg value then (BVSTK_ERR_NOT_FOUND, policy)
           else (BVSTK_OK, set_entry device_id
               (if list = I2C_POLICY_WHITELIST then e \<lparr> pe_whitelist := remove_rule rules reg value \<rparr>
                else e \<lparr> pe_blacklist := remove_rule rules reg value \<rparr>) policy)
     | st \<Rightarrow> (st, policy))"

definition bvstk_i2c_policy_clear :: "bvstk_i2c_policy_t option \<Rightarrow> nat \<Rightarrow> i2c_policy_t \<Rightarrow>
    bvstk_status_t \<times> bvstk_i2c_policy_t option" where
  "bvstk_i2c_policy_clear policy device_id list =
    (case policy_status policy device_id of
       BVSTK_OK \<Rightarrow> let e = po_items (the policy) ! device_id in
         if list = I2C_POLICY_WHITELIST then (BVSTK_OK, set_entry device_id (e \<lparr> pe_whitelist := [] \<rparr>) policy)
         else if list = I2C_POLICY_BLACKLIST then (BVSTK_OK, set_entry device_id (e \<lparr> pe_blacklist := [] \<rparr>) policy)
         else (BVSTK_ERR_MALFORMED, policy)
     | st \<Rightarrow> (st, policy))"

definition bvstk_i2c_policy_permits :: "bvstk_i2c_policy_t option \<Rightarrow> nat \<Rightarrow> bvstk_i2c_device_t option \<Rightarrow> u8 \<Rightarrow> u8 \<Rightarrow> bool" where
  "bvstk_i2c_policy_permits policy device_id device reg value =
    (if policy_status policy device_id \<noteq> BVSTK_OK \<or> \<not> rule_valid device reg value then False
     else let e = po_items (the policy) ! device_id in
       if pe_mode e = I2C_POLICY_WHITELIST then rule_contains (pe_whitelist e) reg value
       else \<not> rule_contains (pe_blacklist e) reg value)"

section \<open>Rule lists stand for sets of pairs\<close>

lemma rule_contains_iff: "rule_contains rs reg value \<longleftrightarrow> list_ex (\<lambda>r. rule_reg r = reg \<and> rule_val r = value) rs"
  by (induction rs) auto

lemma remove_loop_filter:
  "remove_loop kept rs reg value = kept @ filter (\<lambda>r. \<not> (rule_reg r = reg \<and> rule_val r = value)) rs"
  by (induction kept rs reg "value" rule: remove_loop.induct) auto

interpretation irules: rule_list 256 BVSTK_ERR_RANGE "\<lambda>(reg, value) r. rule_reg r = reg \<and> rule_val r = value"
  "\<lambda>(reg, value). \<lparr> rule_reg = reg, rule_val = value \<rparr>" "\<lambda>k. k" "\<lambda>r. (rule_reg r, rule_val r)"
  "\<lambda>(reg, value) rs. add_rule rs reg value" "\<lambda>(reg, value) rs. remove_rule rs reg value"
  by unfold_locales
    (auto simp: add_rule_def remove_rule_def rule_contains_iff remove_loop_filter split: prod.split)

text \<open>The abstract policy of a device: its mode, and the sets of allowed and denied writes.\<close>

record abs_policy =
  ap_whitelist_mode :: bool
  ap_allow :: "(u8 \<times> u8) set"
  ap_deny :: "(u8 \<times> u8) set"

definition abs_entry :: "bvstk_i2c_policy_entry_t \<Rightarrow> abs_policy" where
  "abs_entry e = \<lparr> ap_whitelist_mode = (pe_mode e = 0), ap_allow = irules.keys (pe_whitelist e),
     ap_deny = irules.keys (pe_blacklist e) \<rparr>"

definition abs_permits :: "abs_policy \<Rightarrow> u8 \<times> u8 \<Rightarrow> bool" where
  "abs_permits a w \<longleftrightarrow> (if ap_whitelist_mode a then w \<in> ap_allow a else w \<notin> ap_deny a)"

definition policy_entry_wf :: "bvstk_i2c_policy_entry_t \<Rightarrow> bool" where
  "policy_entry_wf e \<longleftrightarrow> mode_valid (pe_mode e) \<and> length (pe_whitelist e) \<le> 256 \<and> length (pe_blacklist e) \<le> 256"

definition policy_wf :: "bvstk_i2c_policy_t \<Rightarrow> bool" where
  "policy_wf p \<longleftrightarrow> length (po_items p) = 32 \<and> po_device_count p \<le> 32 \<and> list_all policy_entry_wf (po_items p)"

declare policy_entry_wf_def [wf_defs] policy_wf_def [wf_defs]

lemma rule_contains_keys: "rule_contains rs reg value \<longleftrightarrow> (reg, value) \<in> irules.keys rs"
  using irules.contains_iff [of "(reg, value)" rs] by (simp add: rule_contains_iff)

section \<open>The policy refines a pair of sets\<close>

datatype policy_op =
    SetMode i2c_policy_t
  | Allow u8 u8 bvstk_i2c_device_t
  | Deny u8 u8 bvstk_i2c_device_t
  | Remove u8 u8
  | RemoveList i2c_policy_t u8 u8
  | Clear i2c_policy_t
  | SetConfig i2c_device_config_t

fun policy_apply :: "policy_op \<Rightarrow> nat \<Rightarrow> bvstk_i2c_policy_t option \<Rightarrow> bvstk_status_t \<times> bvstk_i2c_policy_t option" where
  "policy_apply (SetMode m) i p = bvstk_i2c_policy_set_mode p i m"
| "policy_apply (Allow r v d) i p = bvstk_i2c_policy_add_allow p i r v (Some d)"
| "policy_apply (Deny r v d) i p = bvstk_i2c_policy_add_deny p i r v (Some d)"
| "policy_apply (Remove r v) i p = bvstk_i2c_policy_remove p i r v"
| "policy_apply (RemoveList l r v) i p = bvstk_i2c_policy_remove_list p i l r v"
| "policy_apply (Clear l) i p = bvstk_i2c_policy_clear p i l"
| "policy_apply (SetConfig c) i p = bvstk_i2c_policy_set_config p i (Some c)"

fun abs_apply :: "policy_op \<Rightarrow> abs_policy \<Rightarrow> abs_policy" where
  "abs_apply (SetMode m) a = a \<lparr> ap_whitelist_mode := (m = I2C_POLICY_WHITELIST) \<rparr>"
| "abs_apply (Allow r v d) a = a \<lparr> ap_allow := insert (r, v) (ap_allow a) \<rparr>"
| "abs_apply (Deny r v d) a = a \<lparr> ap_deny := insert (r, v) (ap_deny a) \<rparr>"
| "abs_apply (Remove r v) a = a \<lparr> ap_allow := ap_allow a - {(r, v)}, ap_deny := ap_deny a - {(r, v)} \<rparr>"
| "abs_apply (RemoveList l r v) a =
    (if l = I2C_POLICY_WHITELIST then a \<lparr> ap_allow := ap_allow a - {(r, v)} \<rparr>
     else a \<lparr> ap_deny := ap_deny a - {(r, v)} \<rparr>)"
| "abs_apply (Clear l) a = (if l = I2C_POLICY_WHITELIST then a \<lparr> ap_allow := {} \<rparr> else a \<lparr> ap_deny := {} \<rparr>)"
| "abs_apply (SetConfig c) a = abs_entry (entry_from_config c)"

lemma keys_add_rule:
  "add_rule rs reg v = (BVSTK_OK, rs') \<Longrightarrow> irules.keys rs' = insert (reg, v) (irules.keys rs)"
  using irules.keys_add(1) [of "(reg, v)" rs] by simp

lemma add_rule_fail: "add_rule rs reg v = (st, rs') \<Longrightarrow> st \<noteq> BVSTK_OK \<Longrightarrow> rs' = rs"
  using irules.keys_add(2) [of "(reg, v)" rs] by simp

lemma add_rule_length: "add_rule rs reg v = (st, rs') \<Longrightarrow> length rs \<le> 256 \<Longrightarrow> length rs' \<le> 256"
  by (auto simp: add_rule_def split: if_splits)

lemma keys_remove_rule: "irules.keys (remove_rule rs reg v) = irules.keys rs - {(reg, v)}"
  using irules.keys_remove [of "(reg, v)" rs] by simp

lemma remove_rule_length: "length (remove_rule rs reg v) \<le> length rs"
  by (simp add: remove_rule_def remove_loop_filter)

text \<open>What an operation does to the entry of its device.\<close>

definition entry_step :: "policy_op \<Rightarrow> bvstk_i2c_policy_entry_t \<Rightarrow> bvstk_i2c_policy_entry_t \<Rightarrow> bool" where
  "entry_step op e e' \<longleftrightarrow> policy_entry_wf e' \<and> abs_entry e' = abs_apply op (abs_entry e)"

text \<open>An operation either succeeds with that effect or changes nothing.\<close>

definition op_done :: "policy_op \<Rightarrow> nat \<Rightarrow> bvstk_i2c_policy_t \<Rightarrow> bool" where
  "op_done op i p \<longleftrightarrow> (\<exists>e'. (fst (policy_apply op i (Some p)) = BVSTK_OK \<and> entry_step op (po_items p ! i) e' \<or>
      fst (policy_apply op i (Some p)) \<noteq> BVSTK_OK \<and> e' = po_items p ! i) \<and>
    snd (policy_apply op i (Some p)) = Some (p \<lparr> po_items := (po_items p)[i := e'] \<rparr>))"

lemma op_done_ok:
  "policy_apply op i (Some p) = (BVSTK_OK, set_entry i e' (Some p)) \<Longrightarrow> entry_step op (po_items p ! i) e' \<Longrightarrow> op_done op i p"
  by (auto simp: op_done_def set_entry_def)

lemma op_done_fail: "policy_apply op i (Some p) = (st, Some p) \<Longrightarrow> st \<noteq> BVSTK_OK \<Longrightarrow> op_done op i p"
  by (auto simp: op_done_def intro: exI [of _ "po_items p ! i"])

lemma set_entry_same: "set_entry i (po_items p ! i) (Some p) = Some p"
  by (simp add: set_entry_def)

lemmas entry_step_simps = entry_step_def policy_entry_wf_def abs_entry_def

lemma op_done_set_mode:
  assumes "policy_status (Some p) i = BVSTK_OK" and "policy_entry_wf (po_items p ! i)"
  shows "op_done (SetMode m) i p"
proof (cases "mode_valid m")
  case True
  then show ?thesis using assms
    by (intro op_done_ok) (auto simp: bvstk_i2c_policy_set_mode_def entry_step_simps)
qed (use assms in \<open>auto simp: bvstk_i2c_policy_set_mode_def intro!: op_done_fail\<close>)

lemma op_done_allow:
  assumes "policy_status (Some p) i = BVSTK_OK" and "policy_entry_wf (po_items p ! i)"
  shows "op_done (Allow r v d) i p"
proof -
  obtain s rs where a: "add_rule (pe_whitelist (po_items p ! i)) r v = (s, rs)" by fastforce
  show ?thesis
  proof (cases "rule_valid (Some d) r v \<and> s = BVSTK_OK")
    case True
    then show ?thesis using assms a keys_add_rule [of _ r v rs] add_rule_length [OF a]
      by (intro op_done_ok [of _ _ _ "(po_items p ! i) \<lparr> pe_whitelist := rs \<rparr>"])
        (auto simp: bvstk_i2c_policy_add_allow_def entry_step_simps)
  next
    case False
    then show ?thesis using assms a add_rule_fail [OF a]
      by (intro op_done_fail [of _ _ _ "if rule_valid (Some d) r v then s else BVSTK_ERR_RANGE"])
        (auto simp: bvstk_i2c_policy_add_allow_def set_entry_def)
  qed
qed

lemma op_done_deny:
  assumes "policy_status (Some p) i = BVSTK_OK" and "policy_entry_wf (po_items p ! i)"
  shows "op_done (Deny r v d) i p"
proof -
  obtain s rs where a: "add_rule (pe_blacklist (po_items p ! i)) r v = (s, rs)" by fastforce
  show ?thesis
  proof (cases "rule_valid (Some d) r v \<and> s = BVSTK_OK")
    case True
    then show ?thesis using assms a keys_add_rule [of _ r v rs] add_rule_length [OF a]
      by (intro op_done_ok [of _ _ _ "(po_items p ! i) \<lparr> pe_blacklist := rs \<rparr>"])
        (auto simp: bvstk_i2c_policy_add_deny_def entry_step_simps)
  next
    case False
    then show ?thesis using assms a add_rule_fail [OF a]
      by (intro op_done_fail [of _ _ _ "if rule_valid (Some d) r v then s else BVSTK_ERR_RANGE"])
        (auto simp: bvstk_i2c_policy_add_deny_def set_entry_def)
  qed
qed

lemma op_done_remove:
  assumes "policy_status (Some p) i = BVSTK_OK" and "policy_entry_wf (po_items p ! i)"
  shows "op_done (Remove r v) i p"
  using assms
  by (intro op_done_ok)
    (auto simp: bvstk_i2c_policy_remove_def entry_step_simps keys_remove_rule Let_def intro: le_trans [OF remove_rule_length])

lemma op_done_remove_list:
  assumes "policy_status (Some p) i = BVSTK_OK" and "policy_entry_wf (po_items p ! i)"
  shows "op_done (RemoveList l r v) i p"
proof -
  let ?e = "po_items p ! i"
  let ?rules = "if l = 0 then pe_whitelist ?e else pe_blacklist ?e"
  let ?e' = "if l = 0 then ?e \<lparr> pe_whitelist := remove_rule ?rules r v \<rparr> else ?e \<lparr> pe_blacklist := remove_rule ?rules r v \<rparr>"
  consider "\<not> mode_valid l" | "mode_valid l" "\<not> rule_contains ?rules r v" | "mode_valid l" "rule_contains ?rules r v" by blast
  then show ?thesis
  proof cases
    case 3
    then have "policy_apply (RemoveList l r v) i (Some p) = (BVSTK_OK, set_entry i ?e' (Some p))"
      using assms by (simp add: bvstk_i2c_policy_remove_list_def Let_def)
    moreover have "entry_step (RemoveList l r v) ?e ?e'"
      using assms remove_rule_length [of "pe_whitelist ?e" r v] remove_rule_length [of "pe_blacklist ?e" r v]
      by (simp add: entry_step_simps keys_remove_rule)
    ultimately show ?thesis by (rule op_done_ok)
  qed (use assms in \<open>auto simp: bvstk_i2c_policy_remove_list_def Let_def intro!: op_done_fail\<close>)
qed

lemma op_done_clear:
  assumes "policy_status (Some p) i = BVSTK_OK" and "policy_entry_wf (po_items p ! i)"
  shows "op_done (Clear l) i p"
proof -
  consider "l = 0" | "l = 1" | "l \<noteq> 0" "l \<noteq> 1" by blast
  then show ?thesis
  proof cases
    case 3
    then show ?thesis using assms by (auto simp: bvstk_i2c_policy_clear_def intro!: op_done_fail)
  qed (use assms in \<open>auto simp: bvstk_i2c_policy_clear_def entry_step_simps irules.rules_ok_Nil Let_def intro!: op_done_ok\<close>)
qed

lemma op_done_set_config:
  assumes "policy_status (Some p) i = BVSTK_OK"
  shows "op_done (SetConfig c) i p"
proof (cases "policy_config_valid c")
  case True
  then show ?thesis using assms
    by (intro op_done_ok)
      (auto simp: bvstk_i2c_policy_set_config_def entry_step_def policy_entry_wf_def policy_config_valid_def entry_from_config_def)
qed (use assms in \<open>auto simp: bvstk_i2c_policy_set_config_def intro!: op_done_fail\<close>)

lemma op_done_all:
  assumes "policy_wf p" "po_initialized p" "i < po_device_count p"
  shows "op_done op i p"
proof -
  have "policy_status (Some p) i = BVSTK_OK" using assms by (simp add: policy_status_def)
  moreover have "policy_entry_wf (po_items p ! i)" using assms by (auto simp: policy_wf_def list_all_length)
  ultimately show ?thesis
    by (cases op) (simp_all add: op_done_set_mode op_done_allow op_done_deny op_done_remove op_done_remove_list
        op_done_clear op_done_set_config)
qed

text \<open>
  C9: The I2C write policy refines a mode and two sets of (register, value) pairs. Each operation on
  a configured device either succeeds and changes that device's sets as specified (and no other
  device, keeping every list within 256 rules and the mode valid), or fails and changes nothing;
  and a write is permitted exactly when it is within the device's register and value range and the
  sets allow it in the current mode.
\<close>

theorem i2c_policy_refines:
  assumes "policy_wf p" and "po_initialized p" and "i < po_device_count p"
  shows "\<exists>st p'. policy_apply op i (Some p) = (st, Some p') \<and> policy_wf p' \<and>
    (if st = BVSTK_OK then abs_entry (po_items p' ! i) = abs_apply op (abs_entry (po_items p ! i)) else p' = p) \<and>
    (\<forall>j. j \<noteq> i \<longrightarrow> po_items p' ! j = po_items p ! j) \<and>
    (\<forall>d reg v. bvstk_i2c_policy_permits (Some p) i (Some d) reg v \<longleftrightarrow>
       unat reg < unat (dv_reg_count d) \<and> v \<le> dv_max_value_code d \<and> abs_permits (abs_entry (po_items p ! i)) (reg, v))"
proof -
  obtain e' where e': "fst (policy_apply op i (Some p)) = BVSTK_OK \<and> entry_step op (po_items p ! i) e' \<or>
      fst (policy_apply op i (Some p)) \<noteq> BVSTK_OK \<and> e' = po_items p ! i"
    and p': "snd (policy_apply op i (Some p)) = Some (p \<lparr> po_items := (po_items p)[i := e'] \<rparr>)"
    using op_done_all [OF assms] by (auto simp: op_done_def)
  have i: "i < length (po_items p)" using assms by (simp add: policy_wf_def)
  have "policy_entry_wf e'"
    using e' assms i by (auto simp: entry_step_def policy_wf_def list_all_length)
  then have "policy_wf (p \<lparr> po_items := (po_items p)[i := e'] \<rparr>)"
    using assms(1) by (simp add: policy_wf_def list_all_update)
  moreover have "bvstk_i2c_policy_permits (Some p) i (Some d) reg v \<longleftrightarrow>
       unat reg < unat (dv_reg_count d) \<and> v \<le> dv_max_value_code d \<and> abs_permits (abs_entry (po_items p ! i)) (reg, v)" for d reg v
    using assms by (auto simp: bvstk_i2c_policy_permits_def policy_status_def rule_valid_def Let_def
        abs_permits_def abs_entry_def rule_contains_keys)
  ultimately show ?thesis
    using e' p' i
    by (intro exI [of _ "fst (policy_apply op i (Some p))"] exI [of _ "p \<lparr> po_items := (po_items p)[i := e'] \<rparr>"])
      (auto simp: entry_step_def prod_eq_iff)
qed

theorem i2c_policy_refines_witness:
  "\<exists>p'. policy_apply (Allow 2 7 \<lparr> dv_name = [65], dv_addr_7b = 1, dv_reg_count = 4, dv_max_value_code = 9 \<rparr>) 0
      (Some (zero_policy \<lparr> po_device_count := 1, po_initialized := True \<rparr>)) = (BVSTK_OK, Some p') \<and>
     ap_allow (abs_entry (po_items p' ! 0)) = {(2, 7)}"
proof -
  let ?p = "zero_policy \<lparr> po_device_count := 1, po_initialized := True \<rparr>"
  let ?op = "Allow 2 7 \<lparr> dv_name = [65], dv_addr_7b = 1, dv_reg_count = 4, dv_max_value_code = 9 \<rparr>"
  have wf: "policy_wf ?p" "po_initialized ?p" "0 < po_device_count ?p"
    by (auto simp: policy_wf_def zero_policy_def zero_policy_entry_def policy_entry_wf_def mode_valid_def list_all_iff)
  have "fst (policy_apply ?op 0 (Some ?p)) = BVSTK_OK" by code_simp
  then obtain p' where "policy_apply ?op 0 (Some ?p) = (BVSTK_OK, Some p')"
    "abs_entry (po_items p' ! 0) = abs_apply ?op (abs_entry (po_items ?p ! 0))"
    using i2c_policy_refines [OF wf, of ?op] by (metis fst_conv)
  moreover have "ap_allow (abs_entry (po_items ?p ! 0)) = {}"
    by (simp add: abs_entry_def zero_policy_def zero_policy_entry_def irules.rules_ok_Nil)
  ultimately show ?thesis by simp
qed

end
