(* ===== verification/I2c_Master_Service.thy ===== *)
theory I2c_Master_Service
  imports I2c_Cache I2c_Policy
begin

text \<open>
  The I2C master service of \<open>src/services/i2c/bvstk_i2c_master_service.c\<close>. The service owns
  pointers to the device table, the cache and the policy, which are its record here. While a bus
  access waits, other tasks may run: the environment gives the configuration operations that
  complete during it. The bus itself is either the installed board backend or the master driver,
  both answered by the environment. Operations that change the service take it by value: a null
  service is refused with \<open>BVSTK_ERR_NOT_READY\<close> by \<open>service_status\<close> before anything else.
\<close>

section \<open>State and environment\<close>

abbreviation (input) BVSTK_I2C_PRESENCE_UNKNOWN :: u8 where "BVSTK_I2C_PRESENCE_UNKNOWN \<equiv> 0"
abbreviation (input) BVSTK_I2C_PRESENCE_RESPONDING :: u8 where "BVSTK_I2C_PRESENCE_RESPONDING \<equiv> 1"
abbreviation (input) BVSTK_I2C_PRESENCE_UNAVAILABLE :: u8 where "BVSTK_I2C_PRESENCE_UNAVAILABLE \<equiv> 2"

text \<open>Installed callbacks and a present driver are flags.\<close>

record bvstk_i2c_master_service_t =
  ms_hardware :: bool
  ms_io_read :: bool
  ms_io_write :: bool
  ms_devices :: bvstk_i2c_devices_t
  ms_cache :: bvstk_i2c_cache_t
  ms_policy :: bvstk_i2c_policy_t
  ms_events :: bool
  ms_config_changed :: bool
  ms_presence :: "u8 list"
  ms_initialized :: bool

text \<open>The operations another task may complete while a bus access waits.\<close>

datatype i2c_config_op =
    OpSetPolicy nat i2c_policy_t
  | OpSetConfig nat i2c_device_config_t
  | OpRuleAllow nat u8 u8
  | OpRuleDeny nat u8 u8
  | OpRuleClear nat u8 u8
  | OpRuleRemove nat i2c_policy_t u8 u8
  | OpRuleClearList nat i2c_policy_t

record i2c_env =
  env_now_ms :: "i2c_trace \<Rightarrow> u64"
  env_bus_read :: "i2c_trace \<Rightarrow> u8 \<Rightarrow> u8 \<Rightarrow> u32 \<Rightarrow> bvstk_status_t \<times> u8"
  env_bus_write :: "i2c_trace \<Rightarrow> u8 \<Rightarrow> u8 \<Rightarrow> u8 \<Rightarrow> u32 \<Rightarrow> bvstk_status_t"
  env_meanwhile :: "i2c_trace \<Rightarrow> i2c_config_op list"

type_synonym i2c_service = "bvstk_i2c_master_service_t"

section \<open>Helpers\<close>

definition service_status :: "i2c_service option \<Rightarrow> nat \<Rightarrow> bvstk_status_t" where
  "service_status service device_id =
    (case service of
       None \<Rightarrow> BVSTK_ERR_NOT_READY
     | Some s \<Rightarrow> if \<not> ms_initialized s then BVSTK_ERR_NOT_READY
         else if device_id \<ge> bvstk_i2c_devices_count (Some (ms_devices s)) then BVSTK_ERR_NOT_FOUND else BVSTK_OK)"

abbreviation enter :: "i2c_service \<Rightarrow> i2c_trace \<Rightarrow> i2c_trace" where
  "enter s t \<equiv> bvstk_cache_sink_enter (ca_sink (ms_cache s)) t"

abbreviation leave :: "i2c_service \<Rightarrow> i2c_trace \<Rightarrow> i2c_trace" where
  "leave s t \<equiv> bvstk_cache_sink_leave (ca_sink (ms_cache s)) t"

definition record_response :: "i2c_service \<Rightarrow> nat \<Rightarrow> u8 \<Rightarrow> bvstk_status_t \<Rightarrow> bool \<Rightarrow> i2c_trace \<Rightarrow> i2c_service \<times> i2c_trace" where
  "record_response s device_id address status is_read t =
    (let t1 = enter s t in
     case bvstk_i2c_devices_get (Some (ms_devices s)) device_id True of
       (BVSTK_OK, Some current) \<Rightarrow>
         if dv_addr_7b current \<noteq> address then (s, leave s t1)
         else let s1 = (if status = BVSTK_OK \<and> is_read
                   then s \<lparr> ms_presence := (ms_presence s)[device_id := BVSTK_I2C_PRESENCE_RESPONDING] \<rparr>
                   else if status = BVSTK_ERR_IO \<or> status = BVSTK_ERR_TIMEOUT \<or> status = BVSTK_ERR_NOT_FOUND
                   then s \<lparr> ms_presence := (ms_presence s)[device_id := BVSTK_I2C_PRESENCE_UNAVAILABLE] \<rparr>
                   else s);
                  t2 = bvstk_cache_sink_presence (ca_sink (ms_cache s1)) device_id (ms_presence s1 ! device_id) t1
              in (s1, leave s1 t2)
     | _ \<Rightarrow> (s, leave s t1))"

text \<open>\<open>bvstk_i2c_cache_write\<close> and \<open>bvstk_i2c_cache_invalidate\<close> on the service's cache.\<close>

definition service_cache_write :: "i2c_env \<Rightarrow> i2c_service \<Rightarrow> nat \<Rightarrow> u8 \<Rightarrow> u8 \<Rightarrow> i2c_trace \<Rightarrow> i2c_service \<times> i2c_trace" where
  "service_cache_write env s d r v t =
    (case bvstk_i2c_cache_write (env_now_ms env) (Some (ms_cache s)) d r v t of
       (_, c, t') \<Rightarrow> (s \<lparr> ms_cache := the c \<rparr>, t'))"

definition service_cache_invalidate :: "i2c_service \<Rightarrow> nat \<Rightarrow> u8 \<Rightarrow> i2c_trace \<Rightarrow> i2c_service \<times> i2c_trace" where
  "service_cache_invalidate s d r t =
    (case bvstk_i2c_cache_invalidate (Some (ms_cache s)) d r t of (_, c, t') \<Rightarrow> (s \<lparr> ms_cache := the c \<rparr>, t'))"

definition cache_response :: "i2c_env \<Rightarrow> i2c_service \<Rightarrow> nat \<Rightarrow> bvstk_i2c_device_t \<Rightarrow> u8 \<Rightarrow> u8 \<Rightarrow> bvstk_status_t \<Rightarrow>
    i2c_trace \<Rightarrow> i2c_service \<times> i2c_trace" where
  "cache_response env s device_id target reg value status t =
    (let t1 = enter s t;
         (s1, t2) = (case bvstk_i2c_devices_get (Some (ms_devices s)) device_id True of
             (BVSTK_OK, Some current) \<Rightarrow>
               if dv_addr_7b current = dv_addr_7b target \<and> dv_name current = dv_name target \<and>
                  unat reg < unat (dv_reg_count current)
               then (if status = BVSTK_OK then service_cache_write env s device_id reg value t1
                     else service_cache_invalidate s device_id reg t1)
               else (s, t1)
           | _ \<Rightarrow> (s, t1))
     in (s1, leave s1 t2))"

definition emit_flags :: "i2c_env \<Rightarrow> i2c_service \<Rightarrow> u16 \<Rightarrow> u16 \<Rightarrow> bvstk_event_source_t \<Rightarrow> u8 \<Rightarrow> bvstk_i2c_device_t \<Rightarrow>
    u32 \<Rightarrow> u8 \<Rightarrow> u8 \<Rightarrow> i2c_trace \<Rightarrow> i2c_trace" where
  "emit_flags env s type status source operation device reg value flags t =
    (if \<not> ms_events s then t
     else t @ [Publish \<lparr> ev_time_us = env_now_ms env t * 1000, ev_type = type, ev_status = status,
                 ev_source = source_code source, ev_bus = BVSTK_EVENT_BUS_I2C, ev_operation = operation,
                 ev_flags = flags, ev_arg0 = ucast (dv_addr_7b device), ev_arg1 = reg, ev_arg2 = ucast value \<rparr>])"

definition emit :: "i2c_env \<Rightarrow> i2c_service \<Rightarrow> u16 \<Rightarrow> u16 \<Rightarrow> bvstk_event_source_t \<Rightarrow> u8 \<Rightarrow> bvstk_i2c_device_t \<Rightarrow>
    u32 \<Rightarrow> u8 \<Rightarrow> i2c_trace \<Rightarrow> i2c_trace" where
  "emit env s type status source operation device reg value t =
     emit_flags env s type status source operation device reg value BVSTK_EVENT_FLAG_NONE t"

definition presence_confirmed :: "i2c_service option \<Rightarrow> nat \<Rightarrow> bool" where
  "presence_confirmed service device_id =
    (case service of None \<Rightarrow> False
     | Some s \<Rightarrow> device_id < I2C_CFG_MAX_DEVICES \<and> ms_presence s ! device_id = BVSTK_I2C_PRESENCE_RESPONDING)"

definition bvstk_i2c_master_service_observe :: "i2c_env \<Rightarrow> i2c_service option \<Rightarrow> nat \<Rightarrow> u16 \<Rightarrow> u8 \<Rightarrow> u32 \<Rightarrow> u8 \<Rightarrow>
    bvstk_status_t \<Rightarrow> i2c_trace \<Rightarrow> i2c_trace" where
  "bvstk_i2c_master_service_observe env service i type op reg value status t =
    (if service_status service i = BVSTK_OK then
       (case bvstk_i2c_devices_get (Some (ms_devices (the service))) i True of
          (BVSTK_OK, Some device) \<Rightarrow>
            emit_flags env (the service) type (status_code status) BVSTK_EVENT_SOURCE_HOST op device reg value
              (if type = BVSTK_EVENT_SLAVE_REPLY_PREPARED then BVSTK_EVENT_FLAG_TELEMETRY_UNCONFIRMED
               else BVSTK_EVENT_FLAG_NONE) t
        | _ \<Rightarrow> t)
     else t)"

section \<open>Life cycle and lookups\<close>

text \<open>\<open>hardware\<close> is \<open>Some initialized\<close> when not null; \<open>io\<close> holds which callbacks it has.\<close>

definition bvstk_i2c_master_service_init :: "i2c_service option \<Rightarrow> bool option \<Rightarrow> (bool \<times> bool) option \<Rightarrow>
    bvstk_i2c_devices_t option \<Rightarrow> bvstk_i2c_cache_t option \<Rightarrow> bvstk_i2c_policy_t option \<Rightarrow> bool option \<Rightarrow>
    bvstk_status_t \<times> i2c_service option" where
  "bvstk_i2c_master_service_init service hardware io devices cache policy events =
    (case (service, devices, cache, policy) of
       (Some _, Some d, Some c, Some p) \<Rightarrow>
         if \<not> ds_initialized d \<or> \<not> ca_initialized c \<or> \<not> po_initialized p \<or>
            ca_device_count c \<noteq> length (ds_items d) \<or> po_device_count p \<noteq> length (ds_items d) \<or>
            ((hardware = None \<or> hardware = Some False) \<and> (case io of None \<Rightarrow> True | Some (rd, wr) \<Rightarrow> \<not> rd \<or> \<not> wr))
         then (BVSTK_ERR_MALFORMED, service)
         else (BVSTK_OK, Some \<lparr> ms_hardware = (hardware \<noteq> None),
             ms_io_read = (case io of None \<Rightarrow> False | Some (rd, wr) \<Rightarrow> rd),
             ms_io_write = (case io of None \<Rightarrow> False | Some (rd, wr) \<Rightarrow> wr),
             ms_devices = d, ms_cache = c, ms_policy = p, ms_events = (events = Some True), ms_config_changed = False,
             ms_presence = replicate I2C_CFG_MAX_DEVICES 0, ms_initialized = True \<rparr>)
     | _ \<Rightarrow> (BVSTK_ERR_MALFORMED, service))"

text \<open>The service after \<open>memset\<close>: its three table pointers are null, which is an empty table that was
  never initialised; every operation refuses such a service before it looks at them.\<close>

definition zero_i2c_service :: i2c_service where
  "zero_i2c_service = \<lparr> ms_hardware = False, ms_io_read = False, ms_io_write = False, ms_devices = zero_devices,
     ms_cache = zero_cache, ms_policy = zero_policy, ms_events = False, ms_config_changed = False,
     ms_presence = replicate I2C_CFG_MAX_DEVICES 0, ms_initialized = False \<rparr>"

definition bvstk_i2c_master_service_shutdown :: "i2c_service option \<Rightarrow> i2c_service option" where
  "bvstk_i2c_master_service_shutdown service = map_option (\<lambda>_. zero_i2c_service) service"

definition bvstk_i2c_master_service_device_count :: "i2c_service option \<Rightarrow> nat" where
  "bvstk_i2c_master_service_device_count service =
    (case service of None \<Rightarrow> 0
     | Some s \<Rightarrow> if ms_initialized s then bvstk_i2c_devices_count (Some (ms_devices s)) else 0)"

definition bvstk_i2c_master_service_device_info :: "i2c_service option \<Rightarrow> nat \<Rightarrow> bool \<Rightarrow>
    bvstk_status_t \<times> bvstk_i2c_device_t option" where
  "bvstk_i2c_master_service_device_info service device_id out =
    (case service_status service device_id of
       BVSTK_OK \<Rightarrow> bvstk_i2c_devices_get (Some (ms_devices (the service))) device_id out
     | st \<Rightarrow> (st, None))"

definition bvstk_i2c_master_service_find_by_name :: "i2c_service option \<Rightarrow> cstr option \<Rightarrow> bool \<Rightarrow> bvstk_status_t \<times> nat option" where
  "bvstk_i2c_master_service_find_by_name service name out =
    (case service of None \<Rightarrow> (BVSTK_ERR_NOT_READY, None)
     | Some s \<Rightarrow> if \<not> ms_initialized s then (BVSTK_ERR_NOT_READY, None)
         else bvstk_i2c_devices_find_by_name (Some (ms_devices s)) name out)"

definition bvstk_i2c_master_service_device_presence :: "i2c_service option \<Rightarrow> nat \<Rightarrow> bool \<Rightarrow> bvstk_status_t \<times> u8 option" where
  "bvstk_i2c_master_service_device_presence service device_id out =
    (case service_status service device_id of
       BVSTK_OK \<Rightarrow> if \<not> out then (BVSTK_ERR_MALFORMED, None)
         else (BVSTK_OK, Some (ms_presence (the service) ! device_id))
     | st \<Rightarrow> (st, None))"

definition bvstk_i2c_master_service_find_by_addr :: "i2c_service option \<Rightarrow> u8 \<Rightarrow> bool \<Rightarrow> bvstk_status_t \<times> nat option" where
  "bvstk_i2c_master_service_find_by_addr service addr_7b out =
    (case service of None \<Rightarrow> (BVSTK_ERR_NOT_READY, None)
     | Some s \<Rightarrow> if \<not> ms_initialized s then (BVSTK_ERR_NOT_READY, None)
         else bvstk_i2c_devices_find_by_addr (Some (ms_devices s)) addr_7b out)"

section \<open>Configuration\<close>

definition bvstk_i2c_master_service_set_policy :: "i2c_service \<Rightarrow> nat \<Rightarrow> i2c_policy_t \<Rightarrow> i2c_trace \<Rightarrow>
    bvstk_status_t \<times> i2c_service \<times> i2c_trace" where
  "bvstk_i2c_master_service_set_policy s device_id mode t =
    (case service_status (Some s) device_id of
       BVSTK_OK \<Rightarrow> let t1 = enter s t; (st, p) = bvstk_i2c_policy_set_mode (Some (ms_policy s)) device_id mode
         in (st, s \<lparr> ms_policy := the p \<rparr>, leave s t1)
     | st \<Rightarrow> (st, s, t))"

definition bvstk_i2c_master_service_get_policy :: "i2c_service \<Rightarrow> nat \<Rightarrow> bool \<Rightarrow> i2c_trace \<Rightarrow>
    bvstk_status_t \<times> bvstk_i2c_policy_entry_t option \<times> i2c_trace" where
  "bvstk_i2c_master_service_get_policy s device_id out t =
    (case service_status (Some s) device_id of
       BVSTK_OK \<Rightarrow> let t1 = enter s t; (st, e) = bvstk_i2c_policy_get (Some (ms_policy s)) device_id out in (st, e, leave s t1)
     | st \<Rightarrow> (st, None, t))"

text \<open>The loop over the 256 registers when a device changes its address or size.\<close>

fun invalidate_all :: "nat \<Rightarrow> nat \<Rightarrow> i2c_service \<Rightarrow> nat \<Rightarrow> i2c_trace \<Rightarrow> i2c_service \<times> i2c_trace" where
  "invalidate_all 0 r s d t = (s, t)"
| "invalidate_all (Suc n) r s d t =
    (let (s1, t1) = service_cache_invalidate s d (of_nat r) t in invalidate_all n (r + 1) s1 d t1)"

definition device_from_config :: "i2c_device_config_t \<Rightarrow> bvstk_i2c_device_t" where
  "device_from_config c = \<lparr> dv_name = take (I2C_CFG_NAME_MAX - 1) (cfg_name c), dv_addr_7b = cfg_addr_7b c,
     dv_reg_count = cfg_reg_count c, dv_max_value_code = cfg_max_value_code c \<rparr>"

text \<open>The part of \<open>bvstk_i2c_master_service_set_config\<close> under the guard; every way out of it releases the guard.\<close>

definition set_config_locked :: "i2c_service \<Rightarrow> nat \<Rightarrow> i2c_device_config_t \<Rightarrow> bvstk_i2c_device_t \<Rightarrow> i2c_trace \<Rightarrow>
    bvstk_status_t \<times> i2c_service \<times> i2c_trace" where
  "set_config_locked s device_id c previous t =
    (let device = device_from_config c;
         (st, ds) = bvstk_i2c_devices_set (Some (ms_devices s)) device_id (Some device);
         s1 = s \<lparr> ms_devices := the ds \<rparr> in
     if st \<noteq> BVSTK_OK then (st, s1, t)
     else let (s2, t2) = (if dv_addr_7b previous \<noteq> dv_addr_7b device \<or> dv_reg_count previous \<noteq> dv_reg_count device
              then invalidate_all I2C_CFG_MAX_REG_COUNT 0
                (s1 \<lparr> ms_presence := (ms_presence s1)[device_id := BVSTK_I2C_PRESENCE_UNKNOWN] \<rparr>) device_id t
              else (s1, t));
              (st2, p) = bvstk_i2c_policy_set_config (Some (ms_policy s2)) device_id (Some c);
              s3 = s2 \<lparr> ms_policy := the p \<rparr>;
              t3 = (if st2 = BVSTK_OK \<and> ms_config_changed s3 then t2 @ [ConfigChanged device_id c] else t2)
          in (st2, s3, t3))"

definition bvstk_i2c_master_service_set_config :: "i2c_service \<Rightarrow> nat \<Rightarrow> i2c_device_config_t option \<Rightarrow> i2c_trace \<Rightarrow>
    bvstk_status_t \<times> i2c_service \<times> i2c_trace" where
  "bvstk_i2c_master_service_set_config s device_id config t =
    (case service_status (Some s) device_id of
       BVSTK_OK \<Rightarrow> (case config of
           None \<Rightarrow> (BVSTK_ERR_MALFORMED, s, t)
         | Some c \<Rightarrow>
           if cfg_name c = [] \<or> cfg_reg_count c = 0 \<or> unat (cfg_reg_count c) > I2C_CFG_MAX_REG_COUNT \<or> cfg_addr_7b c > 0x7F
           then (BVSTK_ERR_MALFORMED, s, t)
           else (case bvstk_i2c_devices_get (Some (ms_devices s)) device_id True of
               (BVSTK_OK, Some previous) \<Rightarrow>
                 let t1 = enter s t; (st, s', t') = set_config_locked s device_id c previous t1
                 in (st, s', leave s' t')
             | (st, _) \<Rightarrow> (st, s, t)))
     | st \<Rightarrow> (st, s, t))"

definition bvstk_i2c_master_service_get_config :: "i2c_service \<Rightarrow> nat \<Rightarrow> bool \<Rightarrow> i2c_trace \<Rightarrow>
    bvstk_status_t \<times> i2c_device_config_t option \<times> i2c_trace" where
  "bvstk_i2c_master_service_get_config s device_id out t =
    (case service_status (Some s) device_id of
       BVSTK_OK \<Rightarrow>
         if \<not> out then (BVSTK_ERR_MALFORMED, None, t)
         else let t1 = enter s t in
           (case bvstk_i2c_devices_get (Some (ms_devices s)) device_id True of
              (BVSTK_OK, Some device) \<Rightarrow>
                (case bvstk_i2c_policy_get (Some (ms_policy s)) device_id True of
                   (BVSTK_OK, Some policy) \<Rightarrow>
                     (BVSTK_OK, Some \<lparr> cfg_name = take (I2C_CFG_NAME_MAX - 1) (dv_name device), cfg_file_name = [],
                        cfg_addr_7b = dv_addr_7b device, cfg_reg_count = dv_reg_count device,
                        cfg_max_value_code = dv_max_value_code device, cfg_policy = pe_mode policy,
                        cfg_whitelist = pe_whitelist policy, cfg_whitelist_len = length (pe_whitelist policy),
                        cfg_blacklist = pe_blacklist policy, cfg_blacklist_len = length (pe_blacklist policy),
                        cfg_settings = [], cfg_settings_len = 0 \<rparr>, leave s t1)
                 | (st, _) \<Rightarrow> (st, None, leave s t1))
            | (st, _) \<Rightarrow> (st, None, leave s t1))
     | st \<Rightarrow> (st, None, t))"

text \<open>An operation on the policy of an existing device, under the guard.\<close>

definition with_device :: "i2c_service \<Rightarrow> nat \<Rightarrow>
    (bvstk_i2c_device_t \<Rightarrow> bvstk_i2c_policy_t option \<Rightarrow> bvstk_status_t \<times> bvstk_i2c_policy_t option) \<Rightarrow> i2c_trace \<Rightarrow>
    bvstk_status_t \<times> i2c_service \<times> i2c_trace" where
  "with_device s device_id f t =
    (let t1 = enter s t in
     case bvstk_i2c_devices_get (Some (ms_devices s)) device_id True of
       (BVSTK_OK, Some device) \<Rightarrow> let (st, p) = f device (Some (ms_policy s)) in (st, s \<lparr> ms_policy := the p \<rparr>, leave s t1)
     | (st, _) \<Rightarrow> (st, s, leave s t1))"

definition bvstk_i2c_master_service_rule_allow :: "i2c_service \<Rightarrow> nat \<Rightarrow> u8 \<Rightarrow> u8 \<Rightarrow> i2c_trace \<Rightarrow>
    bvstk_status_t \<times> i2c_service \<times> i2c_trace" where
  "bvstk_i2c_master_service_rule_allow s device_id reg value t =
    (case service_status (Some s) device_id of
       BVSTK_OK \<Rightarrow> with_device s device_id (\<lambda>device p. bvstk_i2c_policy_add_allow p device_id reg value (Some device)) t
     | st \<Rightarrow> (st, s, t))"

definition bvstk_i2c_master_service_rule_deny :: "i2c_service \<Rightarrow> nat \<Rightarrow> u8 \<Rightarrow> u8 \<Rightarrow> i2c_trace \<Rightarrow>
    bvstk_status_t \<times> i2c_service \<times> i2c_trace" where
  "bvstk_i2c_master_service_rule_deny s device_id reg value t =
    (case service_status (Some s) device_id of
       BVSTK_OK \<Rightarrow> with_device s device_id (\<lambda>device p. bvstk_i2c_policy_add_deny p device_id reg value (Some device)) t
     | st \<Rightarrow> (st, s, t))"

definition bvstk_i2c_master_service_rule_clear :: "i2c_service \<Rightarrow> nat \<Rightarrow> u8 \<Rightarrow> u8 \<Rightarrow> i2c_trace \<Rightarrow>
    bvstk_status_t \<times> i2c_service \<times> i2c_trace" where
  "bvstk_i2c_master_service_rule_clear s device_id reg value t =
    (case service_status (Some s) device_id of
       BVSTK_OK \<Rightarrow> let t1 = enter s t; (st, p) = bvstk_i2c_policy_remove (Some (ms_policy s)) device_id reg value
         in (st, s \<lparr> ms_policy := the p \<rparr>, leave s t1)
     | st \<Rightarrow> (st, s, t))"

definition bvstk_i2c_master_service_rule_remove :: "i2c_service \<Rightarrow> nat \<Rightarrow> i2c_policy_t \<Rightarrow> u8 \<Rightarrow> u8 \<Rightarrow> i2c_trace \<Rightarrow>
    bvstk_status_t \<times> i2c_service \<times> i2c_trace" where
  "bvstk_i2c_master_service_rule_remove s device_id list reg value t =
    (case service_status (Some s) device_id of
       BVSTK_OK \<Rightarrow>
         if list \<noteq> I2C_POLICY_WHITELIST \<and> list \<noteq> I2C_POLICY_BLACKLIST then (BVSTK_ERR_MALFORMED, s, t)
         else with_device s device_id (\<lambda>device p.
           if unat reg \<ge> unat (dv_reg_count device) \<or> value > dv_max_value_code device then (BVSTK_ERR_RANGE, p)
           else bvstk_i2c_policy_remove_list p device_id list reg value) t
     | st \<Rightarrow> (st, s, t))"

definition bvstk_i2c_master_service_rule_clear_list :: "i2c_service \<Rightarrow> nat \<Rightarrow> i2c_policy_t \<Rightarrow> i2c_trace \<Rightarrow>
    bvstk_status_t \<times> i2c_service \<times> i2c_trace" where
  "bvstk_i2c_master_service_rule_clear_list s device_id list t =
    (case service_status (Some s) device_id of
       BVSTK_OK \<Rightarrow> let t1 = enter s t; (st, p) = bvstk_i2c_policy_clear (Some (ms_policy s)) device_id list
         in (st, s \<lparr> ms_policy := the p \<rparr>, leave s t1)
     | st \<Rightarrow> (st, s, t))"

fun config_step :: "i2c_config_op \<Rightarrow> i2c_service \<times> i2c_trace \<Rightarrow> i2c_service \<times> i2c_trace" where
  "config_step (OpSetPolicy d m) (s, t) = snd (bvstk_i2c_master_service_set_policy s d m t)"
| "config_step (OpSetConfig d c) (s, t) = snd (bvstk_i2c_master_service_set_config s d (Some c) t)"
| "config_step (OpRuleAllow d r v) (s, t) = snd (bvstk_i2c_master_service_rule_allow s d r v t)"
| "config_step (OpRuleDeny d r v) (s, t) = snd (bvstk_i2c_master_service_rule_deny s d r v t)"
| "config_step (OpRuleClear d r v) (s, t) = snd (bvstk_i2c_master_service_rule_clear s d r v t)"
| "config_step (OpRuleRemove d l r v) (s, t) = snd (bvstk_i2c_master_service_rule_remove s d l r v t)"
| "config_step (OpRuleClearList d l) (s, t) = snd (bvstk_i2c_master_service_rule_clear_list s d l t)"

section \<open>Bus access\<close>

text \<open>
  The backend call with what happens meanwhile. Without a board callback and without a driver
  nothing is sent, and the caller's \<open>value\<close> keeps what it held.
\<close>

definition backend_read :: "i2c_env \<Rightarrow> i2c_service \<Rightarrow> bvstk_i2c_device_t \<Rightarrow> u8 \<Rightarrow> u8 \<Rightarrow> u32 \<Rightarrow> i2c_trace \<Rightarrow>
    bvstk_status_t \<times> u8 \<times> i2c_service \<times> i2c_trace" where
  "backend_read env s device reg value timeout_ms t =
    (if ms_io_read s \<or> ms_hardware s
     then let t1 = t @ [BusRead (dv_addr_7b device) reg timeout_ms];
              (st, v) = env_bus_read env t1 (dv_addr_7b device) reg timeout_ms;
              (s1, t2) = fold config_step (env_meanwhile env t1) (s, t1)
          in (st, v, s1, t2)
     else (BVSTK_ERR_NOT_READY, value, s, t))"

definition backend_write :: "i2c_env \<Rightarrow> i2c_service \<Rightarrow> bvstk_i2c_device_t \<Rightarrow> u8 \<Rightarrow> u8 \<Rightarrow> u32 \<Rightarrow> i2c_trace \<Rightarrow>
    bvstk_status_t \<times> i2c_service \<times> i2c_trace" where
  "backend_write env s device reg value timeout_ms t =
    (if ms_io_write s \<or> ms_hardware s
     then let t1 = t @ [BusWrite (dv_addr_7b device) reg value timeout_ms];
              st = env_bus_write env t1 (dv_addr_7b device) reg value timeout_ms;
              (s1, t2) = fold config_step (env_meanwhile env t1) (s, t1)
          in (st, s1, t2)
     else (BVSTK_ERR_NOT_READY, s, t))"

definition bvstk_i2c_master_service_read_from :: "i2c_env \<Rightarrow> i2c_service \<Rightarrow> nat \<Rightarrow> u8 \<Rightarrow> u8 option \<Rightarrow>
    bvstk_event_source_t \<Rightarrow> u32 \<Rightarrow> i2c_trace \<Rightarrow> bvstk_status_t \<times> u8 option \<times> i2c_service \<times> i2c_trace" where
  "bvstk_i2c_master_service_read_from env s device_id reg value source timeout_ms t =
    (case service_status (Some s) device_id of
       BVSTK_OK \<Rightarrow>
         (case (value, bvstk_i2c_devices_get (Some (ms_devices s)) device_id True) of
            (Some before, BVSTK_OK, Some device) \<Rightarrow>
              if unat reg \<ge> unat (dv_reg_count device) then (BVSTK_ERR_RANGE, value, s, t)
              else let was_present = presence_confirmed (Some s) device_id;
                       (st, v, s1, t1) = backend_read env s device reg before timeout_ms t;
                       (s2, t2) = record_response s1 device_id (dv_addr_7b device) st True t1;
                       got = (if st = BVSTK_OK then v else 0);
                       t3 = emit_flags env s2 BVSTK_EVENT_MASTER_READ (status_code st) source BVSTK_EVENT_OP_READ device
                              (ucast reg) got (if was_present \<or> st = BVSTK_OK then BVSTK_EVENT_FLAG_NONE
                                               else BVSTK_EVENT_FLAG_TELEMETRY_UNCONFIRMED) t2;
                       (s3, t4) = cache_response env s2 device_id device reg got st t3
                   in (st, Some v, s3, t4)
          | _ \<Rightarrow> (BVSTK_ERR_RANGE, value, s, t))
     | st \<Rightarrow> (st, value, s, t))"

definition bvstk_i2c_master_service_read :: "i2c_env \<Rightarrow> i2c_service \<Rightarrow> nat \<Rightarrow> u8 \<Rightarrow> u8 option \<Rightarrow> u32 \<Rightarrow> i2c_trace \<Rightarrow>
    bvstk_status_t \<times> u8 option \<times> i2c_service \<times> i2c_trace" where
  "bvstk_i2c_master_service_read env s device_id reg value timeout_ms t =
     bvstk_i2c_master_service_read_from env s device_id reg value BVSTK_EVENT_SOURCE_INTERNAL timeout_ms t"

definition bvstk_i2c_master_service_read_cached :: "i2c_service option \<Rightarrow> nat \<Rightarrow> u8 \<Rightarrow> bool \<Rightarrow> bvstk_status_t \<times> u8 option" where
  "bvstk_i2c_master_service_read_cached service device_id reg out =
    (case service_status service device_id of
       BVSTK_OK \<Rightarrow>
         (case bvstk_i2c_devices_get (Some (ms_devices (the service))) device_id True of
            (BVSTK_OK, Some device) \<Rightarrow>
              if \<not> out \<or> unat reg \<ge> unat (dv_reg_count device) then (BVSTK_ERR_RANGE, None)
              else bvstk_i2c_cache_read (Some (ms_cache (the service))) device_id reg True
          | _ \<Rightarrow> (BVSTK_ERR_RANGE, None))
     | st \<Rightarrow> (st, None))"

definition bvstk_i2c_master_service_cache_entry :: "i2c_service option \<Rightarrow> nat \<Rightarrow> u8 \<Rightarrow> bool \<Rightarrow> i2c_trace \<Rightarrow>
    bvstk_status_t \<times> bvstk_i2c_cache_entry_t option \<times> i2c_trace" where
  "bvstk_i2c_master_service_cache_entry service device_id reg out t =
    (case service_status service device_id of
       BVSTK_OK \<Rightarrow>
         if \<not> out then (BVSTK_ERR_MALFORMED, None, t)
         else (case bvstk_i2c_devices_get (Some (ms_devices (the service))) device_id True of
            (BVSTK_OK, Some device) \<Rightarrow>
              if unat reg \<ge> unat (dv_reg_count device) then (BVSTK_ERR_RANGE, None, t)
              else bvstk_i2c_cache_entry (Some (ms_cache (the service))) device_id reg True t
          | _ \<Rightarrow> (BVSTK_ERR_RANGE, None, t))
     | st \<Rightarrow> (st, None, t))"

definition bvstk_i2c_master_service_write :: "i2c_env \<Rightarrow> i2c_service \<Rightarrow> nat \<Rightarrow> u8 \<Rightarrow> u8 \<Rightarrow> bvstk_event_source_t \<Rightarrow> u32 \<Rightarrow>
    i2c_trace \<Rightarrow> bvstk_status_t \<times> i2c_service \<times> i2c_trace" where
  "bvstk_i2c_master_service_write env s device_id reg value source timeout_ms t =
    (case service_status (Some s) device_id of
       BVSTK_OK \<Rightarrow>
         (case bvstk_i2c_devices_get (Some (ms_devices s)) device_id True of
            (BVSTK_OK, Some device) \<Rightarrow>
              let was_present = presence_confirmed (Some s) device_id;
                  t1 = emit env s BVSTK_EVENT_REG_ATTEMPT 0 source BVSTK_EVENT_OP_WRITE device (ucast reg) value t in
              if unat reg \<ge> unat (dv_reg_count device) \<or> value > dv_max_value_code device
              then (BVSTK_ERR_RANGE, s, emit env s BVSTK_EVENT_FAULT (status_code BVSTK_ERR_RANGE) source
                      BVSTK_EVENT_OP_WRITE device (ucast reg) value t1)
              else let t2 = enter s t1;
                       permitted = bvstk_i2c_policy_permits (Some (ms_policy s)) device_id (Some device) reg value;
                       t3 = leave s t2 in
              if \<not> permitted
              then (BVSTK_ERR_DENIED, s, emit env s BVSTK_EVENT_REG_DENIED (status_code BVSTK_ERR_DENIED) source
                      BVSTK_EVENT_OP_WRITE device (ucast reg) value t3)
              else let (st, s1, t4) = backend_write env s device reg value timeout_ms t3;
                       (s2, t5) = record_response s1 device_id (dv_addr_7b device) st False t4;
                       t6 = emit_flags env s2 BVSTK_EVENT_MASTER_WRITE (status_code st) source BVSTK_EVENT_OP_WRITE device
                              (ucast reg) value (if was_present \<or> st = BVSTK_OK then BVSTK_EVENT_FLAG_NONE
                                                 else BVSTK_EVENT_FLAG_TELEMETRY_UNCONFIRMED) t5 in
              if st \<noteq> BVSTK_OK
              then let t7 = emit env s2 BVSTK_EVENT_FAULT (status_code st) source BVSTK_EVENT_OP_WRITE device (ucast reg) value t6;
                       (s3, t8) = cache_response env s2 device_id device reg 0 st t7
                   in (st, s3, t8)
              else let (s3, t7) = cache_response env s2 device_id device reg value BVSTK_OK t6
                   in (BVSTK_OK, s3, emit env s3 BVSTK_EVENT_REG_COMMIT 0 source BVSTK_EVENT_OP_WRITE device (ucast reg) value t7)
          | _ \<Rightarrow> (BVSTK_ERR_NOT_FOUND, s, t))
     | st \<Rightarrow> (st, s, t))"

section \<open>Bus traffic, events and the guard\<close>

text \<open>What other parties see of a trace, and how many times the guard is held after it.\<close>

fun is_visible :: "i2c_action \<Rightarrow> bool" where
  "is_visible (Publish e) = True"
| "is_visible (BusRead a r t) = True"
| "is_visible (BusWrite a r v t) = True"
| "is_visible _ = False"

definition visible :: "i2c_trace \<Rightarrow> i2c_trace" where
  "visible t = filter is_visible t"

definition depth :: "i2c_trace \<Rightarrow> int" where
  "depth t = int (length (filter (\<lambda>a. a = SinkEnter) t)) - int (length (filter (\<lambda>a. a = SinkLeave) t))"

lemma visible_sink [simp]:
  "visible (bvstk_cache_sink_enter k t) = visible t" "visible (bvstk_cache_sink_leave k t) = visible t"
  "visible (bvstk_cache_sink_entry k d r v b se u t) = visible t" "visible (bvstk_cache_sink_presence k d p t) = visible t"
  "visible (t @ [ConfigChanged d c]) = visible t" "visible (t @ [BusRead a x y]) = visible t @ [BusRead a x y]"
  "visible (t @ [BusWrite a x w y]) = visible t @ [BusWrite a x w y]" "visible (t @ [Publish e]) = visible t @ [Publish e]"
  by (simp_all add: visible_def bvstk_cache_sink_enter_def bvstk_cache_sink_leave_def bvstk_cache_sink_entry_def
      bvstk_cache_sink_presence_def)

lemma depth_sink [simp]:
  "depth (bvstk_cache_sink_enter k t) = depth t + (if sink_enter k then 1 else 0)"
  "depth (bvstk_cache_sink_leave k t) = depth t - (if sink_leave k then 1 else 0)"
  "depth (bvstk_cache_sink_entry k d r v b se u t) = depth t" "depth (bvstk_cache_sink_presence k d p t) = depth t"
  "depth (t @ [ConfigChanged d c]) = depth t" "depth (t @ [BusRead a x y]) = depth t"
  "depth (t @ [BusWrite a x w y]) = depth t" "depth (t @ [Publish e]) = depth t"
  by (simp_all add: depth_def bvstk_cache_sink_enter_def bvstk_cache_sink_leave_def bvstk_cache_sink_entry_def
      bvstk_cache_sink_presence_def)

text \<open>
  What every operation keeps of the service: its callbacks; and what an operation without bus
  access does to the trace: nothing visible, and as many releases of the guard as acquisitions.
\<close>

definition steady :: "i2c_service \<Rightarrow> i2c_service \<Rightarrow> bool" where
  "steady s s' \<longleftrightarrow> ms_events s' = ms_events s \<and> ms_hardware s' = ms_hardware s \<and> ms_io_read s' = ms_io_read s \<and>
     ms_io_write s' = ms_io_write s \<and> ms_initialized s' = ms_initialized s \<and> ca_sink (ms_cache s') = ca_sink (ms_cache s) \<and>
     ca_device_count (ms_cache s') = ca_device_count (ms_cache s)"

definition quiet :: "i2c_service \<times> i2c_trace \<Rightarrow> i2c_service \<times> i2c_trace \<Rightarrow> bool" where
  "quiet a b \<longleftrightarrow> steady (fst a) (fst b) \<and> visible (snd b) = visible (snd a) \<and>
     (sink_enter (ca_sink (ms_cache (fst a))) = sink_leave (ca_sink (ms_cache (fst a))) \<longrightarrow> depth (snd b) = depth (snd a))"

lemma steady_refl [simp]: "steady s s"
  by (simp add: steady_def)

lemma quiet_refl [simp]: "quiet a a"
  by (simp add: quiet_def)

lemma quiet_trans: "quiet a b \<Longrightarrow> quiet b c \<Longrightarrow> quiet a c"
  by (auto simp: quiet_def steady_def)

lemma quiet_intro:
  "steady s s' \<Longrightarrow> visible t' = visible t \<Longrightarrow>
   (sink_enter (ca_sink (ms_cache s)) = sink_leave (ca_sink (ms_cache s)) \<Longrightarrow> depth t' = depth t) \<Longrightarrow> quiet (s, t) (s', t')"
  by (simp add: quiet_def)

lemma quiet_leave_enter: "quiet (s, t) (s, leave s (enter s t))"
  by (simp add: quiet_def)

lemma quiet_around:
  assumes "quiet (s, enter s t) (s', t')"
  shows "quiet (s, t) (s', leave s' t')"
  using assms by (auto simp: quiet_def steady_def)

lemma quiet_cache_invalidate: "quiet (s, t) (service_cache_invalidate s d r t)"
  by (auto simp: service_cache_invalidate_def bvstk_i2c_cache_invalidate_def quiet_def steady_def Let_def
      split: bvstk_status_t.split)

lemma quiet_cache_write: "quiet (s, t) (service_cache_write env s d r v t)"
  by (auto simp: service_cache_write_def bvstk_i2c_cache_write_def quiet_def steady_def Let_def
      split: bvstk_status_t.split)

lemma quiet_invalidate_all: "quiet (s, t) (invalidate_all n r s d t)"
proof (induction n arbitrary: r s t)
  case (Suc n)
  obtain s1 t1 where eq: "service_cache_invalidate s d (of_nat r) t = (s1, t1)" by fastforce
  then show ?case using Suc.IH [where r = "r + 1" and s = s1 and t = t1] quiet_cache_invalidate [of s t d "of_nat r"]
    by (auto intro: quiet_trans)
qed simp

lemma quiet_policy: "quiet (s, t) (s \<lparr> ms_policy := p \<rparr>, leave s (enter s t))"
  by (simp add: quiet_def steady_def)

lemma quiet_with_device: "quiet (s, t) (snd (with_device s d f t))"
  using quiet_policy [of s t] quiet_leave_enter [of s t]
  by (auto simp: with_device_def Let_def case_prod_beta split: bvstk_status_t.split option.split)


lemma quiet_set_config_locked: "quiet (s, t) (snd (set_config_locked s d c previous t))"
proof -
  have dev: "quiet (s, t) (s \<lparr> ms_devices := x \<rparr>, t)" "quiet (s, t) (s \<lparr> ms_devices := x, ms_presence := y \<rparr>, t)" for x y
    by (simp_all add: quiet_def steady_def)
  have inv: "quiet (s, t) (invalidate_all n r (s \<lparr> ms_devices := x, ms_presence := y \<rparr>) d t)" for n r x y
    using quiet_trans [OF dev(2) quiet_invalidate_all] .
  have fin: "quiet (s, t) (fst a \<lparr> ms_policy := p \<rparr>, snd a)" "quiet (s, t) (fst a \<lparr> ms_policy := p \<rparr>, snd a @ [ConfigChanged d c])"
    if "quiet (s, t) a" for a p
    using that by (auto simp: quiet_def steady_def)
  show ?thesis
    using dev(1) fin [OF inv] fin [OF dev(1)]
    by (simp add: set_config_locked_def Let_def case_prod_beta)
qed

lemma quiet_set_config: "quiet (s, t) (snd (bvstk_i2c_master_service_set_config s d config t))"
proof -
  have "quiet (s, t) (let (st, s', t') = set_config_locked s d c previous (enter s t) in (s', leave s' t'))" for c previous
    using quiet_around [of s t "fst (snd (set_config_locked s d c previous (enter s t)))"
        "snd (snd (set_config_locked s d c previous (enter s t)))"] quiet_set_config_locked [of s "enter s t" d c previous]
    by (simp add: case_prod_beta)
  then show ?thesis
    by (auto simp: bvstk_i2c_master_service_set_config_def Let_def case_prod_beta
        split: bvstk_status_t.split option.split)
qed

lemma quiet_config_step: "quiet a (config_step op a)"
proof (cases a; cases op)
qed (auto simp: quiet_set_config quiet_with_device bvstk_i2c_master_service_set_policy_def
    bvstk_i2c_master_service_rule_allow_def bvstk_i2c_master_service_rule_deny_def bvstk_i2c_master_service_rule_clear_def
    bvstk_i2c_master_service_rule_remove_def bvstk_i2c_master_service_rule_clear_list_def quiet_policy Let_def case_prod_beta
    split: bvstk_status_t.split)

lemma quiet_config_steps: "quiet a (fold config_step ops a)"
proof (induction ops arbitrary: a)
  case (Cons op ops)
  then show ?case using quiet_trans [OF quiet_config_step Cons] by simp
qed simp

lemma quiet_record_response: "quiet (s, t) (record_response s d a st rd t)"
proof -
  have "quiet (s, t) (s \<lparr> ms_presence := x \<rparr>, leave (s \<lparr> ms_presence := x \<rparr>)
      (bvstk_cache_sink_presence (ca_sink (ms_cache s)) d p (enter s t)))"
    "quiet (s, t) (s, leave s (bvstk_cache_sink_presence (ca_sink (ms_cache s)) d p (enter s t)))" for x p
    by (simp_all add: quiet_def steady_def)
  then show ?thesis
    using quiet_leave_enter [of s t]
    by (auto simp: record_response_def Let_def split: prod.split bvstk_status_t.split option.split)
qed

lemma quiet_cache_response: "quiet (s, t) (cache_response env s d target r v st t)"
proof -
  have "quiet (s, t) (fst a, leave (fst a) (snd a))" if "quiet (s, enter s t) a" for a
    using quiet_around [of s t "fst a" "snd a"] that by simp
  from this [OF quiet_cache_write] this [OF quiet_cache_invalidate] this [OF quiet_refl] show ?thesis
    by (auto simp: cache_response_def Let_def case_prod_beta split: bvstk_status_t.split option.split)
qed

text \<open>
  The observable content of a visible action: the type, status, address, register and value of an
  event, or the address, register and value of a bus access.
\<close>

datatype seen = Event u16 u16 u32 u32 u32 | Wrote u8 u8 u8 | Asked u8 u8

fun seen_of :: "i2c_action \<Rightarrow> seen list" where
  "seen_of (Publish e) = [Event (ev_type e) (ev_status e) (ev_arg0 e) (ev_arg1 e) (ev_arg2 e)]"
| "seen_of (BusRead a r t) = [Asked a r]"
| "seen_of (BusWrite a r v t) = [Wrote a r v]"
| "seen_of _ = []"

definition traffic :: "i2c_trace \<Rightarrow> seen list" where
  "traffic t = concat (map seen_of (visible t))"

lemma traffic_simps [simp]:
  "traffic (bvstk_cache_sink_enter k t) = traffic t" "traffic (bvstk_cache_sink_leave k t) = traffic t"
  "traffic (t @ [BusRead a x y]) = traffic t @ [Asked a x]" "traffic (t @ [BusWrite a x w y]) = traffic t @ [Wrote a x w]"
  by (simp_all add: traffic_def)

definition event_if :: "i2c_service \<Rightarrow> u16 \<Rightarrow> u16 \<Rightarrow> bvstk_i2c_device_t \<Rightarrow> u8 \<Rightarrow> u8 \<Rightarrow> seen list" where
  "event_if s type code dev reg value =
    (if ms_events s then [Event type code (ucast (dv_addr_7b dev)) (ucast reg) (ucast value)] else [])"

lemma traffic_emit [simp]:
  "traffic (emit_flags env s type code source op dev (ucast reg) value flags t) = traffic t @ event_if s type code dev reg value"
  "traffic (emit env s type code source op dev (ucast reg) value t) = traffic t @ event_if s type code dev reg value"
  by (simp_all add: traffic_def emit_def emit_flags_def event_if_def)

lemma depth_emit [simp]:
  "depth (emit_flags env s type code source op dev reg value flags t) = depth t"
  "depth (emit env s type code source op dev reg value t) = depth t"
  by (simp_all add: emit_def emit_flags_def)

lemma quietD:
  assumes "quiet (s, t) (s', t')"
  shows "traffic t' = traffic t" "event_if s' = event_if s" "ca_sink (ms_cache s') = ca_sink (ms_cache s)"
    "sink_enter (ca_sink (ms_cache s)) = sink_leave (ca_sink (ms_cache s)) \<Longrightarrow> depth t' = depth t" "steady s s'"
  using assms by (auto simp: quiet_def traffic_def event_if_def steady_def fun_eq_iff)

lemma backend_write_traffic:
  assumes "backend_write env s dev reg v timeout t = (st, s', t')"
  shows "traffic t' = traffic t @ (if ms_io_write s \<or> ms_hardware s then [Wrote (dv_addr_7b dev) reg v] else [])"
    "event_if s' = event_if s" "ca_sink (ms_cache s') = ca_sink (ms_cache s)"
    "sink_enter (ca_sink (ms_cache s)) = sink_leave (ca_sink (ms_cache s)) \<Longrightarrow> depth t' = depth t" "steady s s'"
proof -
  let ?t1 = "t @ [BusWrite (dv_addr_7b dev) reg v timeout]"
  have "quiet (s, ?t1) (fold config_step (env_meanwhile env ?t1) (s, ?t1))" by (rule quiet_config_steps)
  then have q: "quiet (s, if ms_io_write s \<or> ms_hardware s then ?t1 else t) (s', t')"
    using assms by (auto simp: backend_write_def Let_def split: if_splits prod.splits)
  show "traffic t' = traffic t @ (if ms_io_write s \<or> ms_hardware s then [Wrote (dv_addr_7b dev) reg v] else [])"
    using quietD(1) [OF q] by simp
  show "sink_enter (ca_sink (ms_cache s)) = sink_leave (ca_sink (ms_cache s)) \<Longrightarrow> depth t' = depth t"
    using quietD(4) [OF q] by (simp split: if_splits)
  show "event_if s' = event_if s" "ca_sink (ms_cache s') = ca_sink (ms_cache s)" "steady s s'"
    using quietD [OF q] by simp_all
qed

text \<open>The device a service operation works on.\<close>

definition dev_of :: "i2c_service \<Rightarrow> nat \<Rightarrow> bvstk_i2c_device_t" where
  "dev_of s d = ds_items (ms_devices s) ! d"

lemma service_status_OK:
  "service_status (Some s) d = BVSTK_OK \<Longrightarrow>
   ms_initialized s \<and> bvstk_i2c_devices_get (Some (ms_devices s)) d True = (BVSTK_OK, Some (dev_of s d))"
  by (auto simp: service_status_def bvstk_i2c_devices_count_def bvstk_i2c_devices_get_def device_status_def dev_of_def
      split: if_splits)

text \<open>Whether a write passes the range check and the policy.\<close>

definition in_range :: "i2c_service \<Rightarrow> nat \<Rightarrow> u8 \<Rightarrow> u8 \<Rightarrow> bool" where
  "in_range s d reg v \<longleftrightarrow> unat reg < unat (dv_reg_count (dev_of s d)) \<and> v \<le> dv_max_value_code (dev_of s d)"

definition allowed :: "i2c_service \<Rightarrow> nat \<Rightarrow> u8 \<Rightarrow> u8 \<Rightarrow> bool" where
  "allowed s d reg v \<longleftrightarrow> bvstk_i2c_policy_permits (Some (ms_policy s)) d (Some (dev_of s d)) reg v"

text \<open>A permitted write, from the backend call on.\<close>

lemma write_permitted:
  assumes ok: "service_status (Some s) d = BVSTK_OK" "in_range s d reg v" "allowed s d reg v"
    and res: "bvstk_i2c_master_service_write env s d reg v source timeout t = (st, s', t')"
  obtains s1 t3 t4 s2 t5 s3 t6 t7 fl where
    "backend_write env s (dev_of s d) reg v timeout t3 = (st, s1, t4)"
    "t3 = leave s (enter s (emit env s 1 0 source 1 (dev_of s d) (ucast reg) v t))"
    "record_response s1 d (dv_addr_7b (dev_of s d)) st False t4 = (s2, t5)"
    "t6 = emit_flags env s2 0x0103 (status_code st) source 1 (dev_of s d) (ucast reg) v fl t5"
    "cache_response env s2 d (dev_of s d) reg (if st = BVSTK_OK then v else 0) st
       (if st = BVSTK_OK then t6 else emit env s2 5 (status_code st) source 1 (dev_of s d) (ucast reg) v t6) = (s3, t7)"
    "s' = s3" "t' = (if st = BVSTK_OK then emit env s3 2 0 source 1 (dev_of s d) (ucast reg) v t7 else t7)"
proof -
  note dev = service_status_OK [OF ok(1)]
  have ni: "\<not> (unat reg \<ge> unat (dv_reg_count (dev_of s d)) \<or> v > dv_max_value_code (dev_of s d))"
    using ok(2) by (auto simp: in_range_def)
  define t3 where "t3 = leave s (enter s (emit env s 1 0 source 1 (dev_of s d) (ucast reg) v t))"
  obtain st1 s1 t4 where b: "backend_write env s (dev_of s d) reg v timeout t3 = (st1, s1, t4)" by (metis prod_cases3)
  obtain s2 t5 where rr: "record_response s1 d (dv_addr_7b (dev_of s d)) st1 False t4 = (s2, t5)" by fastforce
  define fl where "fl = (if presence_confirmed (Some s) d \<or> st1 = BVSTK_OK then 0 else 1 :: u8)"
  define t6 where "t6 = emit_flags env s2 0x0103 (status_code st1) source 1 (dev_of s d) (ucast reg) v fl t5"
  obtain s3 t7 where cr: "cache_response env s2 d (dev_of s d) reg (if st1 = BVSTK_OK then v else 0) st1
       (if st1 = BVSTK_OK then t6 else emit env s2 5 (status_code st1) source 1 (dev_of s d) (ucast reg) v t6) = (s3, t7)"
    by fastforce
  have "bvstk_i2c_master_service_write env s d reg v source timeout t =
      (st1, s3, if st1 = BVSTK_OK then emit env s3 2 0 source 1 (dev_of s d) (ucast reg) v t7 else t7)"
    using ok dev ni b rr cr unfolding allowed_def t3_def t6_def fl_def
    by (auto simp: bvstk_i2c_master_service_write_def Let_def split: if_splits)
  with res b rr cr show thesis
    by (intro that [of t3 s1 t4 s2 t5 t6 fl s3 t7]) (auto simp: t3_def t6_def)
qed

lemma write_traffic_eq:
  assumes "bvstk_i2c_master_service_write env s d reg v source timeout t = (st, s', t')"
  shows "traffic t' = traffic t @
    (if service_status (Some s) d \<noteq> BVSTK_OK then []
     else if \<not> in_range s d reg v
     then event_if s BVSTK_EVENT_REG_ATTEMPT 0 (dev_of s d) reg v @
          event_if s BVSTK_EVENT_FAULT (status_code BVSTK_ERR_RANGE) (dev_of s d) reg v
     else if \<not> allowed s d reg v
     then event_if s BVSTK_EVENT_REG_ATTEMPT 0 (dev_of s d) reg v @
          event_if s BVSTK_EVENT_REG_DENIED (status_code BVSTK_ERR_DENIED) (dev_of s d) reg v
     else event_if s BVSTK_EVENT_REG_ATTEMPT 0 (dev_of s d) reg v @
          (if ms_io_write s \<or> ms_hardware s then [Wrote (dv_addr_7b (dev_of s d)) reg v] else []) @
          event_if s BVSTK_EVENT_MASTER_WRITE (status_code st) (dev_of s d) reg v @
          (if st = BVSTK_OK then event_if s BVSTK_EVENT_REG_COMMIT 0 (dev_of s d) reg v
           else event_if s BVSTK_EVENT_FAULT (status_code st) (dev_of s d) reg v)) \<and>
    (service_status (Some s) d = BVSTK_OK \<and> \<not> in_range s d reg v \<longrightarrow> st = BVSTK_ERR_RANGE) \<and>
    (service_status (Some s) d = BVSTK_OK \<and> in_range s d reg v \<and> \<not> allowed s d reg v \<longrightarrow> st = BVSTK_ERR_DENIED)"
proof (cases "service_status (Some s) d = BVSTK_OK")
  case False
  then have "t' = t" using assms(1) by (auto simp: bvstk_i2c_master_service_write_def split: bvstk_status_t.splits)
  then show ?thesis using False by simp
next
  case ok: True
  note dev = service_status_OK [OF ok]
  show ?thesis
  proof (cases "in_range s d reg v \<and> allowed s d reg v")
    case False
    then show ?thesis using assms(1) ok dev
      by (auto simp: bvstk_i2c_master_service_write_def Let_def in_range_def allowed_def split: if_splits)
  next
    case True
    then obtain s1 t3 t4 s2 t5 s3 t6 t7 fl where
      b: "backend_write env s (dev_of s d) reg v timeout t3 = (st, s1, t4)"
      and t3: "t3 = leave s (enter s (emit env s 1 0 source 1 (dev_of s d) (ucast reg) v t))"
      and rr: "record_response s1 d (dv_addr_7b (dev_of s d)) st False t4 = (s2, t5)"
      and t6: "t6 = emit_flags env s2 0x0103 (status_code st) source 1 (dev_of s d) (ucast reg) v fl t5"
      and cr: "cache_response env s2 d (dev_of s d) reg (if st = BVSTK_OK then v else 0) st
         (if st = BVSTK_OK then t6 else emit env s2 5 (status_code st) source 1 (dev_of s d) (ucast reg) v t6) = (s3, t7)"
      and s': "s' = s3" "t' = (if st = BVSTK_OK then emit env s3 2 0 source 1 (dev_of s d) (ucast reg) v t7 else t7)"
      using write_permitted [OF ok _ _ assms(1)] by metis
    note q1 = backend_write_traffic [OF b]
    note q2 = quietD [OF quiet_record_response [of s1 t4 d "dv_addr_7b (dev_of s d)" st False, unfolded rr]]
    have "quiet (s2, if st = BVSTK_OK then t6 else emit env s2 5 (status_code st) source 1 (dev_of s d) (ucast reg) v t6) (s3, t7)"
      using quiet_cache_response [of s2 _ env d "dev_of s d" reg "if st = BVSTK_OK then v else 0" st] cr by metis
    note q3 = quietD [OF this]
    show ?thesis
      using True ok q1(1,2) q2(1,2) q3(1,2) by (simp add: s' t6 t3)
  qed
qed

text \<open>
  C2: What an I2C write does to the outside, on every branch and whatever other tasks change while
  the bus is busy. An unknown device does nothing. Otherwise an attempt is announced first; a write
  outside the device's range ends with a fault event and one the policy denies with a denial, and
  neither reaches the bus. A permitted write makes exactly one bus access, to that device, register
  and value, followed by its telemetry event and then exactly one of commit (bus status OK) or
  fault (with the bus status).
\<close>

theorem i2c_write_traffic:
  assumes "bvstk_i2c_master_service_write env s d reg v source timeout t = (st, s', t')"
  shows "traffic t' = traffic t @
    (if service_status (Some s) d \<noteq> BVSTK_OK then []
     else if \<not> in_range s d reg v
     then event_if s BVSTK_EVENT_REG_ATTEMPT 0 (dev_of s d) reg v @
          event_if s BVSTK_EVENT_FAULT (status_code BVSTK_ERR_RANGE) (dev_of s d) reg v
     else if \<not> allowed s d reg v
     then event_if s BVSTK_EVENT_REG_ATTEMPT 0 (dev_of s d) reg v @
          event_if s BVSTK_EVENT_REG_DENIED (status_code BVSTK_ERR_DENIED) (dev_of s d) reg v
     else event_if s BVSTK_EVENT_REG_ATTEMPT 0 (dev_of s d) reg v @
          (if ms_io_write s \<or> ms_hardware s then [Wrote (dv_addr_7b (dev_of s d)) reg v] else []) @
          event_if s BVSTK_EVENT_MASTER_WRITE (status_code st) (dev_of s d) reg v @
          (if st = BVSTK_OK then event_if s BVSTK_EVENT_REG_COMMIT 0 (dev_of s d) reg v
           else event_if s BVSTK_EVENT_FAULT (status_code st) (dev_of s d) reg v)) \<and>
    (service_status (Some s) d = BVSTK_OK \<and> \<not> in_range s d reg v \<longrightarrow> st = BVSTK_ERR_RANGE) \<and>
    (service_status (Some s) d = BVSTK_OK \<and> in_range s d reg v \<and> \<not> allowed s d reg v \<longrightarrow> st = BVSTK_ERR_DENIED)"
  using assms by (rule write_traffic_eq)

section \<open>The service invariant\<close>

definition service_wf :: "i2c_service \<Rightarrow> bool" where
  "service_wf s \<longleftrightarrow> devices_wf (ms_devices s) \<and> ds_initialized (ms_devices s) \<and>
     cache_wf (ms_cache s) \<and> ca_initialized (ms_cache s) \<and> ca_device_count (ms_cache s) = length (ds_items (ms_devices s)) \<and>
     policy_wf (ms_policy s) \<and> po_initialized (ms_policy s) \<and> po_device_count (ms_policy s) = length (ds_items (ms_devices s)) \<and>
     length (ms_presence s) = 32"

declare service_wf_def [wf_defs]

text \<open>An operation on the policy that keeps a well-formed policy well-formed.\<close>

definition policy_safe :: "(bvstk_i2c_policy_t option \<Rightarrow> bvstk_status_t \<times> bvstk_i2c_policy_t option) \<Rightarrow> bool" where
  "policy_safe f \<longleftrightarrow> (\<forall>p. policy_wf p \<longrightarrow> po_initialized p \<longrightarrow>
     (\<exists>st p'. f (Some p) = (st, Some p') \<and> policy_wf p' \<and> po_initialized p' \<and> po_device_count p' = po_device_count p))"

lemma policy_safe_apply: "policy_safe (policy_apply op i)"
  unfolding policy_safe_def
proof (intro allI impI)
  fix p assume p: "policy_wf p" "po_initialized p"
  show "\<exists>st p'. policy_apply op i (Some p) = (st, Some p') \<and> policy_wf p' \<and> po_initialized p' \<and> po_device_count p' = po_device_count p"
  proof (cases "i < po_device_count p")
    case True
    then obtain e' where "(fst (policy_apply op i (Some p)) = BVSTK_OK \<and> entry_step op (po_items p ! i) e' \<or> e' = po_items p ! i)"
      "snd (policy_apply op i (Some p)) = Some (p \<lparr> po_items := (po_items p)[i := e'] \<rparr>)"
      using op_done_all [OF p, of i op] by (auto simp: op_done_def)
    moreover from this have "policy_entry_wf e'"
      using p True by (auto simp: entry_step_def policy_wf_def list_all_length)
    ultimately show ?thesis using p
      by (cases "policy_apply op i (Some p)") (auto simp: policy_wf_def list_all_update)
  next
    case False
    then have "policy_status (Some p) i = BVSTK_ERR_NOT_FOUND" using p by (simp add: policy_status_def)
    then have "policy_apply op i (Some p) = (BVSTK_ERR_NOT_FOUND, Some p)"
      by (cases op) (simp_all add: bvstk_i2c_policy_set_mode_def bvstk_i2c_policy_add_allow_def
          bvstk_i2c_policy_add_deny_def bvstk_i2c_policy_remove_def bvstk_i2c_policy_remove_list_def
          bvstk_i2c_policy_clear_def bvstk_i2c_policy_set_config_def)
    then show ?thesis using p by simp
  qed
qed

lemma policy_safe_ops:
  "policy_safe (\<lambda>p. bvstk_i2c_policy_set_mode p i m)" "policy_safe (\<lambda>p. bvstk_i2c_policy_add_allow p i r v (Some d))"
  "policy_safe (\<lambda>p. bvstk_i2c_policy_add_deny p i r v (Some d))" "policy_safe (\<lambda>p. bvstk_i2c_policy_remove p i r v)"
  "policy_safe (\<lambda>p. bvstk_i2c_policy_remove_list p i l r v)" "policy_safe (\<lambda>p. bvstk_i2c_policy_clear p i l)"
  "policy_safe (\<lambda>p. bvstk_i2c_policy_set_config p i (Some c))"
  using policy_safe_apply [of "SetMode m" i] policy_safe_apply [of "Allow r v d" i] policy_safe_apply [of "Deny r v d" i]
    policy_safe_apply [of "Remove r v" i] policy_safe_apply [of "RemoveList l r v" i] policy_safe_apply [of "Clear l" i]
    policy_safe_apply [of "SetConfig c" i]
  by (simp_all add: policy_safe_def)

lemma service_wf_policy:
  assumes "service_wf s" "policy_safe f"
  shows "service_wf (s \<lparr> ms_policy := the (snd (f (Some (ms_policy s)))) \<rparr>)"
  using assms by (fastforce simp: service_wf_def policy_safe_def)

lemmas service_wf_policy_ops = service_wf_policy [OF _ policy_safe_ops(1)] service_wf_policy [OF _ policy_safe_ops(4)]
  service_wf_policy [OF _ policy_safe_ops(6)] service_wf_policy [OF _ policy_safe_ops(7)]

lemma service_wf_with_device:
  assumes "service_wf s" and "\<And>dev. policy_safe (f dev)"
  shows "service_wf (fst (snd (with_device s d f t)))"
  using assms(1) service_wf_policy [OF assms]
  by (auto simp: with_device_def Let_def case_prod_beta split: bvstk_status_t.split option.split)

lemma service_cache_invalidate_eq:
  assumes "service_wf s" "d < length (ds_items (ms_devices s))"
  shows "fst (service_cache_invalidate s d r t) =
    s \<lparr> ms_cache := cache_store (ms_cache s) d r (cell (ca_values (ms_cache s)) d r) False False 0 \<rparr>"
  using assms by (simp add: service_cache_invalidate_def bvstk_i2c_cache_invalidate_def cache_status_def service_wf_def Let_def)

lemma service_wf_cache: "service_wf s \<Longrightarrow> service_wf (s \<lparr> ms_cache := cache_store (ms_cache s) d r v b se u \<rparr>)"
  by (simp add: service_wf_def cache_store_wf)

text \<open>An entry after invalidation: the value stays but is not valid.\<close>

definition invalid_entry :: "bvstk_i2c_cache_t \<Rightarrow> nat \<Rightarrow> u8 \<Rightarrow> bvstk_i2c_cache_entry_t" where
  "invalid_entry c d r = \<lparr> en_value = cell (ca_values c) d r, en_valid = False, en_seeded = False, en_updated_ms = 0 \<rparr>"

lemma cache_values_store_same:
  assumes "cache_wf c" "d < 32"
  shows "cell (ca_values (cache_store c d r (cell (ca_values c) d r) b se u)) d' r' = cell (ca_values c) d' r'"
  using assms by (simp add: cache_store_def cache_wf_def cell_set_cell)

lemma service_wf_invalidate_all:
  assumes "service_wf s" "d < length (ds_items (ms_devices s))" "r + n \<le> 256"
  shows "service_wf (fst (invalidate_all n r s d t)) \<and>
    (\<exists>c. fst (invalidate_all n r s d t) = s \<lparr> ms_cache := c \<rparr>) \<and>
    (\<forall>d' r'. cache_entry_at (ms_cache (fst (invalidate_all n r s d t))) d' r' =
       (if d' = d \<and> r \<le> unat r' \<and> unat r' < r + n then invalid_entry (ms_cache s) d r'
        else cache_entry_at (ms_cache s) d' r'))"
  using assms
proof (induction n arbitrary: r s t)
  case 0
  then show ?case by (auto intro: exI [of _ "ms_cache s"])
next
  case (Suc n)
  define s1 where "s1 = fst (service_cache_invalidate s d (of_nat r) t)"
  have s1: "s1 = s \<lparr> ms_cache := cache_store (ms_cache s) d (of_nat r) (cell (ca_values (ms_cache s)) d (of_nat r)) False False 0 \<rparr>"
    using service_cache_invalidate_eq Suc.prems by (simp add: s1_def)
  have wf1: "service_wf s1" using Suc.prems s1 service_wf_cache by simp
  have d32: "cache_wf (ms_cache s)" "d < 32" using Suc.prems by (auto simp: service_wf_def devices_wf_def)
  have un: "unat (of_nat r :: u8) = r" using Suc.prems by (intro unat_of_nat_small) simp
  have entry1: "cache_entry_at (ms_cache s1) d' r' = (if d' = d \<and> r' = of_nat r then invalid_entry (ms_cache s) d r'
      else cache_entry_at (ms_cache s) d' r')" for d' r'
    using d32 by (simp add: s1 cache_store_entry invalid_entry_def)
  have same: "invalid_entry (ms_cache s1) d r' = invalid_entry (ms_cache s) d r'" for r'
    using d32 by (simp add: s1 invalid_entry_def cache_values_store_same)
  have rest: "invalidate_all (Suc n) r s d t = invalidate_all n (Suc r) s1 d (snd (service_cache_invalidate s d (of_nat r) t))"
    by (simp add: case_prod_beta s1_def)
  have "d < length (ds_items (ms_devices s1))" using Suc.prems s1 by simp
  note IH = Suc.IH [OF wf1 this, of "Suc r" "snd (service_cache_invalidate s d (of_nat r) t)"]
  have "\<exists>c. fst (invalidate_all (Suc n) r s d t) = s \<lparr> ms_cache := c \<rparr>"
    unfolding rest using IH Suc.prems s1 by auto
  moreover have "cache_entry_at (ms_cache (fst (invalidate_all (Suc n) r s d t))) d' r' =
       (if d' = d \<and> r \<le> unat r' \<and> unat r' < r + Suc n then invalid_entry (ms_cache s) d r'
        else cache_entry_at (ms_cache s) d' r')" for d' r'
  proof -
    have "r' = of_nat r \<longleftrightarrow> unat r' = r" using un by (metis word_unat_eq_iff)
    then show ?thesis unfolding rest using IH Suc.prems entry1 same by auto
  qed
  ultimately show ?case unfolding rest using IH Suc.prems by simp
qed

lemma service_wf_devices_set:
  assumes "service_wf s" "bvstk_i2c_devices_set (Some (ms_devices s)) d (Some dev) = (st, ds)"
  shows "service_wf (s \<lparr> ms_devices := the ds \<rparr>) \<and> length (ds_items (the ds)) = length (ds_items (ms_devices s)) \<and>
    (st \<noteq> BVSTK_OK \<longrightarrow> ds = Some (ms_devices s)) \<and>
    (st = BVSTK_OK \<longrightarrow> ds_items (the ds) = (ds_items (ms_devices s))[d := dev])"
proof -
  have "devices_wf (the ds)" using devices_set_wf [of "ms_devices s" d "Some dev"] assms by (simp add: service_wf_def)
  then show ?thesis
    using assms by (auto simp: bvstk_i2c_devices_set_def service_wf_def split: bvstk_status_t.splits if_splits)
qed

lemma service_wf_set_config_locked:
  assumes wf: "service_wf s" and d: "d < length (ds_items (ms_devices s))"
  shows "service_wf (fst (snd (set_config_locked s d c previous t)))"
proof -
  obtain st ds where ds: "bvstk_i2c_devices_set (Some (ms_devices s)) d (Some (device_from_config c)) = (st, ds)" by fastforce
  let ?s1 = "s \<lparr> ms_devices := the ds \<rparr>"
  have wf1: "service_wf ?s1" and len: "length (ds_items (the ds)) = length (ds_items (ms_devices s))"
    using service_wf_devices_set [OF wf ds] by simp_all
  have "service_wf (?s1 \<lparr> ms_presence := (ms_presence ?s1)[d := 0] \<rparr>)" using wf1 by (simp add: service_wf_def)
  then have "service_wf (fst (invalidate_all 256 0 (?s1 \<lparr> ms_presence := (ms_presence ?s1)[d := 0] \<rparr>) d t))"
    using service_wf_invalidate_all d len by simp
  then show ?thesis
    using wf1 service_wf_policy_ops(4)
    by (simp add: set_config_locked_def ds Let_def case_prod_beta)
qed

lemma service_wf_set_config:
  assumes "service_wf s" shows "service_wf (fst (snd (bvstk_i2c_master_service_set_config s d config t)))"
  using assms service_wf_set_config_locked [OF assms]
  by (auto simp: bvstk_i2c_master_service_set_config_def Let_def case_prod_beta bvstk_i2c_devices_get_def device_status_def
      split: bvstk_status_t.split option.split)

lemma service_wf_config_step: "service_wf s \<Longrightarrow> service_wf (fst (config_step op (s, t)))"
proof (cases op)
  case (OpRuleRemove d l r v)
  moreover assume "service_wf s"
  moreover have "policy_safe (\<lambda>p. if c then (BVSTK_ERR_RANGE, p) else bvstk_i2c_policy_remove_list p d l r v)" for c
    using policy_safe_ops(5) [of d l r v] by (cases c) (auto simp: policy_safe_def)
  ultimately show ?thesis
    by (auto simp: bvstk_i2c_master_service_rule_remove_def service_wf_with_device split: bvstk_status_t.split)
qed (auto simp: service_wf_set_config bvstk_i2c_master_service_set_policy_def
    bvstk_i2c_master_service_rule_allow_def bvstk_i2c_master_service_rule_deny_def bvstk_i2c_master_service_rule_clear_def
    bvstk_i2c_master_service_rule_clear_list_def Let_def case_prod_beta service_wf_with_device service_wf_policy_ops policy_safe_ops
    split: bvstk_status_t.split)

lemma service_wf_config_steps: "service_wf (fst a) \<Longrightarrow> service_wf (fst (fold config_step ops a))"
proof (induction ops arbitrary: a)
  case (Cons op ops)
  then show ?case using service_wf_config_step [of "fst a" op "snd a"] by simp
qed simp

lemma service_wf_record_response: "service_wf s \<Longrightarrow> service_wf (fst (record_response s d a st rd t))"
  by (auto simp: record_response_def Let_def service_wf_def split: prod.split bvstk_status_t.split option.split)

text \<open>Whether the device still is the one a bus access was made for.\<close>

definition still_target :: "i2c_service \<Rightarrow> nat \<Rightarrow> bvstk_i2c_device_t \<Rightarrow> u8 \<Rightarrow> bool" where
  "still_target s d target reg \<longleftrightarrow> dv_addr_7b (dev_of s d) = dv_addr_7b target \<and> dv_name (dev_of s d) = dv_name target \<and>
     unat reg < unat (dv_reg_count (dev_of s d))"

lemma cache_response_eq:
  assumes wf: "service_wf s" and d: "d < length (ds_items (ms_devices s))"
  shows "\<exists>now. fst (cache_response env s d target reg v st t) =
    (if still_target s d target reg
     then s \<lparr> ms_cache := (if st = BVSTK_OK then cache_store (ms_cache s) d reg v True False now
       else cache_store (ms_cache s) d reg (cell (ca_values (ms_cache s)) d reg) False False 0) \<rparr>
     else s)"
proof -
  have get: "bvstk_i2c_devices_get (Some (ms_devices s)) d True = (BVSTK_OK, Some (dev_of s d))"
    using wf d by (simp add: devices_get_OK service_wf_def dev_of_def)
  have ok: "cache_status (Some (ms_cache s)) d reg = BVSTK_OK" using wf d by (simp add: cache_status_def service_wf_def)
  let ?t = "enter s (enter s t)"
  show ?thesis
    using get ok
    by (intro exI [of _ "env_now_ms env ?t"])
      (auto simp: cache_response_def Let_def case_prod_beta still_target_def service_cache_write_def
        service_cache_invalidate_def bvstk_i2c_cache_write_def bvstk_i2c_cache_invalidate_def)
qed

lemma service_wf_cache_response:
  assumes "service_wf s" "d < length (ds_items (ms_devices s))"
  shows "service_wf (fst (cache_response env s d target reg v st t))"
  using cache_response_eq [OF assms, of env target reg v st t] assms(1) service_wf_cache by auto

lemma steady_length:
  "steady s s' \<Longrightarrow> service_wf s \<Longrightarrow> service_wf s' \<Longrightarrow> length (ds_items (ms_devices s')) = length (ds_items (ms_devices s))"
  by (simp add: steady_def service_wf_def)

lemma config_steps_wf:
  assumes "service_wf s" "fold config_step ops (s, t) = (s', t')"
  shows "service_wf s'" "length (ds_items (ms_devices s')) = length (ds_items (ms_devices s))"
proof -
  show wf: "service_wf s'" using service_wf_config_steps [of "(s, t)" ops] assms by simp
  have "steady s s'" using quiet_config_steps [of "(s, t)" ops] assms(2) by (simp add: quiet_def)
  then show "length (ds_items (ms_devices s')) = length (ds_items (ms_devices s))"
    using assms(1) wf by (rule steady_length)
qed

lemma backend_write_wf:
  assumes "service_wf s" "backend_write env s dev reg v timeout t = (st, s', t')"
  shows "service_wf s'" "length (ds_items (ms_devices s')) = length (ds_items (ms_devices s))"
  using assms config_steps_wf [OF assms(1)]
  by (auto simp: backend_write_def Let_def split: if_splits prod.splits)

lemma record_response_keeps:
  assumes "record_response s d a st rd t = (s', t')"
  shows "ms_cache s' = ms_cache s" "ms_devices s' = ms_devices s"
  using assms by (auto simp: record_response_def Let_def split: prod.splits bvstk_status_t.splits option.splits if_splits)

lemma write_state:
  assumes wf: "service_wf s" and ok: "service_status (Some s) d = BVSTK_OK" "in_range s d reg v" "allowed s d reg v"
    and res: "bvstk_i2c_master_service_write env s d reg v source timeout t = (st, s', t')"
  obtains s1 t4 now where "backend_write env s (dev_of s d) reg v timeout
      (leave s (enter s (emit env s BVSTK_EVENT_REG_ATTEMPT 0 source BVSTK_EVENT_OP_WRITE (dev_of s d) (ucast reg) v t))) = (st, s1, t4)"
    "service_wf s'" "service_wf s1" "d < length (ds_items (ms_devices s1))"
    "ms_cache s' = (if still_target s1 d (dev_of s d) reg
       then (if st = BVSTK_OK then cache_store (ms_cache s1) d reg v True False now
         else cache_store (ms_cache s1) d reg (cell (ca_values (ms_cache s1)) d reg) False False 0) else ms_cache s1)"
proof -
  obtain s1 t3 t4 s2 t5 s3 t7 t8 where
    b: "backend_write env s (dev_of s d) reg v timeout t3 = (st, s1, t4)"
    and t3: "t3 = leave s (enter s (emit env s BVSTK_EVENT_REG_ATTEMPT 0 source BVSTK_EVENT_OP_WRITE (dev_of s d) (ucast reg) v t))"
    and rr: "record_response s1 d (dv_addr_7b (dev_of s d)) st False t4 = (s2, t5)"
    and cr: "cache_response env s2 d (dev_of s d) reg (if st = BVSTK_OK then v else 0) st t8 = (s3, t7)" and s': "s' = s3"
    using write_permitted [OF ok res] by metis
  have d: "d < length (ds_items (ms_devices s))"
    using service_status_OK [OF ok(1)] by (simp add: devices_get_OK)
  note w1 = backend_write_wf [OF wf b] and k = record_response_keeps [OF rr]
  have wf2: "service_wf s2" using service_wf_record_response [OF w1(1)] rr by (metis fst_conv)
  have d2: "d < length (ds_items (ms_devices s2))" using d w1 k by simp
  have st: "still_target s2 d (dev_of s d) reg = still_target s1 d (dev_of s d) reg"
    using k by (simp add: still_target_def dev_of_def)
  obtain now where "s3 = (if still_target s1 d (dev_of s d) reg
     then s2 \<lparr> ms_cache := (if st = BVSTK_OK then cache_store (ms_cache s2) d reg (if st = BVSTK_OK then v else 0) True False now
       else cache_store (ms_cache s2) d reg (cell (ca_values (ms_cache s2)) d reg) False False 0) \<rparr> else s2)"
    using cache_response_eq [OF wf2 d2, of env "dev_of s d" reg "if st = BVSTK_OK then v else 0" st t8] cr st by auto
  moreover have "service_wf s3" using service_wf_cache_response [OF wf2 d2] cr by (metis fst_conv)
  ultimately show thesis
    using b w1 d k s' unfolding t3 by (intro that [of s1 t4 now]) auto
qed

lemma write_refused:
  assumes "\<not> (service_status (Some s) d = BVSTK_OK \<and> in_range s d reg v \<and> allowed s d reg v)"
    and "bvstk_i2c_master_service_write env s d reg v source timeout t = (st, s', t')"
  shows "st \<noteq> BVSTK_OK" "s' = s"
  using assms service_status_OK [of s d]
  by (auto simp: bvstk_i2c_master_service_write_def Let_def in_range_def allowed_def split: bvstk_status_t.splits if_splits)

text \<open>
  C25: The cache after an I2C write, whatever the write is and whatever other tasks changed while the
  bus was busy. A write to a device that does not exist, out of the register or value range, or not
  permitted by the policy reports an error and changes nothing of the service, so nothing of the
  cache. A permitted one asks the bus; with \<open>s1\<close> the service when the bus answered: if the device
  still has the address and name the access was made for, the register's entry becomes the written
  value, valid and not seeded, when the bus said OK, and is invalidated otherwise; if it was replaced
  meanwhile, no entry changes, so a reply for the old device never lands in the new one's cache. No
  other entry changes either way, and the service stays well-formed.
\<close>

theorem i2c_write_cache:
  assumes "service_wf s"
    and "bvstk_i2c_master_service_write env s d reg v source timeout t = (st, s', t')"
  shows "service_wf s' \<and>
    (if service_status (Some s) d = BVSTK_OK \<and> in_range s d reg v \<and> allowed s d reg v
     then \<exists>s1 t4 now. backend_write env s (dev_of s d) reg v timeout
         (leave s (enter s (emit env s BVSTK_EVENT_REG_ATTEMPT 0 source BVSTK_EVENT_OP_WRITE (dev_of s d) (ucast reg) v t))) =
           (st, s1, t4) \<and>
       (\<forall>d' r'. cache_entry_at (ms_cache s') d' r' =
         (if d' = d \<and> r' = reg \<and> still_target s1 d (dev_of s d) reg
          then (if st = BVSTK_OK then \<lparr> en_value = v, en_valid = True, en_seeded = False, en_updated_ms = now \<rparr>
                else invalid_entry (ms_cache s1) d reg)
          else cache_entry_at (ms_cache s1) d' r'))
     else st \<noteq> BVSTK_OK \<and> s' = s)"
proof (cases "service_status (Some s) d = BVSTK_OK \<and> in_range s d reg v \<and> allowed s d reg v")
  case False
  show ?thesis using write_refused [OF False assms(2)] assms(1) False by auto
next
  case True
  let ?t3 = "leave s (enter s (emit env s BVSTK_EVENT_REG_ATTEMPT 0 source BVSTK_EVENT_OP_WRITE (dev_of s d) (ucast reg) v t))"
  obtain s1 t4 now where
    b: "backend_write env s (dev_of s d) reg v timeout ?t3 = (st, s1, t4)" "service_wf s'"
    and w: "service_wf s1" "d < length (ds_items (ms_devices s1))"
    and c: "ms_cache s' = (if still_target s1 d (dev_of s d) reg
       then (if st = BVSTK_OK then cache_store (ms_cache s1) d reg v True False now
         else cache_store (ms_cache s1) d reg (cell (ca_values (ms_cache s1)) d reg) False False 0) else ms_cache s1)"
    using write_state [OF assms(1) _ _ _ assms(2)] True by metis
  have "cache_wf (ms_cache s1)" "d < 32" using w by (auto simp: service_wf_def devices_wf_def)
  then have "cache_entry_at (ms_cache s') d' r' =
      (if d' = d \<and> r' = reg \<and> still_target s1 d (dev_of s d) reg
       then (if st = BVSTK_OK then \<lparr> en_value = v, en_valid = True, en_seeded = False, en_updated_ms = now \<rparr>
             else invalid_entry (ms_cache s1) d reg)
       else cache_entry_at (ms_cache s1) d' r')" for d' r'
    by (simp add: c cache_store_entry invalid_entry_def)
  then show ?thesis using b True by auto
qed

section \<open>Reads, and the guard\<close>

lemma backend_read_traffic:
  assumes "backend_read env s dev reg x timeout t = (st, v, s', t')"
  shows "traffic t' = traffic t @ (if ms_io_read s \<or> ms_hardware s then [Asked (dv_addr_7b dev) reg] else [])"
    "event_if s' = event_if s" "ca_sink (ms_cache s') = ca_sink (ms_cache s)"
    "sink_enter (ca_sink (ms_cache s)) = sink_leave (ca_sink (ms_cache s)) \<Longrightarrow> depth t' = depth t"
proof -
  let ?t1 = "t @ [BusRead (dv_addr_7b dev) reg timeout]"
  have "quiet (s, ?t1) (fold config_step (env_meanwhile env ?t1) (s, ?t1))" by (rule quiet_config_steps)
  then have q: "quiet (s, if ms_io_read s \<or> ms_hardware s then ?t1 else t) (s', t')"
    using assms by (auto simp: backend_read_def Let_def split: if_splits prod.splits)
  show "traffic t' = traffic t @ (if ms_io_read s \<or> ms_hardware s then [Asked (dv_addr_7b dev) reg] else [])"
    using quietD(1) [OF q] by simp
  show "sink_enter (ca_sink (ms_cache s)) = sink_leave (ca_sink (ms_cache s)) \<Longrightarrow> depth t' = depth t"
    using quietD(4) [OF q] by (simp split: if_splits)
  show "event_if s' = event_if s" "ca_sink (ms_cache s') = ca_sink (ms_cache s)"
    using quietD [OF q] by simp_all
qed

definition readable :: "i2c_service \<Rightarrow> nat \<Rightarrow> u8 \<Rightarrow> bool" where
  "readable s d reg \<longleftrightarrow> service_status (Some s) d = BVSTK_OK \<and> unat reg < unat (dv_reg_count (dev_of s d))"

lemma read_refused:
  assumes "\<not> readable s d reg"
    and "bvstk_i2c_master_service_read_from env s d reg (Some x) source timeout t = (st, v, s', t')"
  shows "st \<noteq> BVSTK_OK" "s' = s" "t' = t" "v = Some x"
  using assms service_status_OK [of s d]
  by (auto simp: readable_def bvstk_i2c_master_service_read_from_def split: bvstk_status_t.splits if_splits)

lemma read_done:
  assumes ok: "readable s d reg"
    and res: "bvstk_i2c_master_service_read_from env s d reg (Some x) source timeout t = (st, v, s', t')"
  obtains w s1 t1 s2 t2 fl where
    "backend_read env s (dev_of s d) reg x timeout t = (st, w, s1, t1)" "v = Some w"
    "record_response s1 d (dv_addr_7b (dev_of s d)) st True t1 = (s2, t2)"
    "cache_response env s2 d (dev_of s d) reg (if st = BVSTK_OK then w else 0) st
       (emit_flags env s2 0x0102 (status_code st) source 0 (dev_of s d) (ucast reg) (if st = BVSTK_OK then w else 0) fl t2) = (s', t')"
proof -
  have ok': "service_status (Some s) d = BVSTK_OK" "\<not> unat reg \<ge> unat (dv_reg_count (dev_of s d))"
    using ok by (auto simp: readable_def)
  note dev = service_status_OK [OF ok'(1)]
  obtain st1 w s1 t1 where b: "backend_read env s (dev_of s d) reg x timeout t = (st1, w, s1, t1)" by (metis prod_cases4)
  obtain s2 t2 where rr: "record_response s1 d (dv_addr_7b (dev_of s d)) st1 True t1 = (s2, t2)" by fastforce
  define fl where "fl = (if presence_confirmed (Some s) d \<or> st1 = BVSTK_OK then 0 else 1 :: u8)"
  obtain s3 t3 where cr: "cache_response env s2 d (dev_of s d) reg (if st1 = BVSTK_OK then w else 0) st1
       (emit_flags env s2 0x0102 (status_code st1) source 0 (dev_of s d) (ucast reg) (if st1 = BVSTK_OK then w else 0) fl t2) = (s3, t3)"
    by fastforce
  have "bvstk_i2c_master_service_read_from env s d reg (Some x) source timeout t = (st1, Some w, s3, t3)"
    using ok' dev b rr cr unfolding fl_def
    by (simp add: bvstk_i2c_master_service_read_from_def Let_def)
  with res b rr cr show thesis by (intro that [of w s1 t1 s2 t2 fl]) auto
qed

lemma read_traffic_eq:
  assumes "bvstk_i2c_master_service_read_from env s d reg (Some x) source timeout t = (st, v, s', t')"
  shows "if readable s d reg
    then traffic t' = traffic t @ (if ms_io_read s \<or> ms_hardware s then [Asked (dv_addr_7b (dev_of s d)) reg] else []) @
        event_if s BVSTK_EVENT_MASTER_READ (status_code st) (dev_of s d) reg (if st = BVSTK_OK then the v else 0)
    else st \<noteq> BVSTK_OK \<and> s' = s \<and> t' = t \<and> v = Some x"
proof (cases "readable s d reg")
  case False
  then show ?thesis using read_refused [OF False assms] by simp
next
  case True
  obtain w s1 t1 s2 t2 fl where b: "backend_read env s (dev_of s d) reg x timeout t = (st, w, s1, t1)" "v = Some w"
    and rr: "record_response s1 d (dv_addr_7b (dev_of s d)) st True t1 = (s2, t2)"
    and cr: "cache_response env s2 d (dev_of s d) reg (if st = BVSTK_OK then w else 0) st
       (emit_flags env s2 0x0102 (status_code st) source 0 (dev_of s d) (ucast reg) (if st = BVSTK_OK then w else 0) fl t2) = (s', t')"
    using read_done [OF True assms] by metis
  note q1 = backend_read_traffic [OF b(1)]
    and q2 = quietD [OF quiet_record_response [of s1 t1 d "dv_addr_7b (dev_of s d)" st True, unfolded rr]]
    and q3 = quietD [OF quiet_cache_response [of s2 "emit_flags env s2 0x0102 (status_code st) source 0 (dev_of s d)
      (ucast reg) (if st = BVSTK_OK then w else 0) fl t2" env d "dev_of s d" reg "if st = BVSTK_OK then w else 0" st, unfolded cr]]
  show ?thesis using True b(2) q1(1,2) q2(1,2) q3(1) by simp
qed

text \<open>
  What an I2C read does to the outside: nothing when the device or register does not exist;
  otherwise one bus read of that device and register followed by one telemetry event with the bus
  status and, on success, the value read (0 otherwise). A read never writes to the bus.
\<close>

theorem i2c_read_traffic:
  assumes "bvstk_i2c_master_service_read_from env s d reg (Some x) source timeout t = (st, v, s', t')"
  shows "if readable s d reg
    then traffic t' = traffic t @ (if ms_io_read s \<or> ms_hardware s then [Asked (dv_addr_7b (dev_of s d)) reg] else []) @
        event_if s BVSTK_EVENT_MASTER_READ (status_code st) (dev_of s d) reg (if st = BVSTK_OK then the v else 0)
    else st \<noteq> BVSTK_OK \<and> s' = s \<and> t' = t \<and> v = Some x"
  using assms by (rule read_traffic_eq)

text \<open>
  The guard is released as often as it is taken: when both its callbacks are installed (or
  neither is), a read, a write and every configuration operation leave it held exactly as often as
  they found it, on every path, early returns included.
\<close>

theorem i2c_guard_balanced:
  assumes "sink_enter (ca_sink (ms_cache s)) = sink_leave (ca_sink (ms_cache s))"
  shows "depth (snd (snd (bvstk_i2c_master_service_write env s d reg v source timeout t))) = depth t \<and>
    depth (snd (snd (snd (bvstk_i2c_master_service_read_from env s d reg (Some x) source timeout t)))) = depth t \<and>
    depth (snd (config_step op (s, t))) = depth t"
proof (intro conjI)
  show "depth (snd (config_step op (s, t))) = depth t"
    using quiet_config_step [of "(s, t)" op] assms by (simp add: quiet_def)
next
  obtain st s' t' where res: "bvstk_i2c_master_service_write env s d reg v source timeout t = (st, s', t')" by (metis prod_cases3)
  show "depth (snd (snd (bvstk_i2c_master_service_write env s d reg v source timeout t))) = depth t"
  proof (cases "service_status (Some s) d = BVSTK_OK \<and> in_range s d reg v \<and> allowed s d reg v")
    case False
    then show ?thesis using assms service_status_OK [of s d]
      by (auto simp: bvstk_i2c_master_service_write_def Let_def in_range_def allowed_def split: bvstk_status_t.split)
  next
    case True
    then obtain s1 t3 t4 s2 t5 s3 t6 t7 fl where
      b: "backend_write env s (dev_of s d) reg v timeout t3 = (st, s1, t4)"
      and t3: "t3 = leave s (enter s (emit env s 1 0 source 1 (dev_of s d) (ucast reg) v t))"
      and rr: "record_response s1 d (dv_addr_7b (dev_of s d)) st False t4 = (s2, t5)"
      and t6: "t6 = emit_flags env s2 0x0103 (status_code st) source 1 (dev_of s d) (ucast reg) v fl t5"
      and cr: "cache_response env s2 d (dev_of s d) reg (if st = BVSTK_OK then v else 0) st
         (if st = BVSTK_OK then t6 else emit env s2 5 (status_code st) source 1 (dev_of s d) (ucast reg) v t6) = (s3, t7)"
      and t': "t' = (if st = BVSTK_OK then emit env s3 2 0 source 1 (dev_of s d) (ucast reg) v t7 else t7)"
      using write_permitted [OF _ _ _ res] by metis
    note q1 = backend_write_traffic [OF b]
    note q2 = quietD [OF quiet_record_response [of s1 t4 d "dv_addr_7b (dev_of s d)" st False, unfolded rr]]
    have "quiet (s2, if st = BVSTK_OK then t6 else emit env s2 5 (status_code st) source 1 (dev_of s d) (ucast reg) v t6) (s3, t7)"
      using quiet_cache_response [of s2 _ env d "dev_of s d" reg "if st = BVSTK_OK then v else 0" st] cr by metis
    note q3 = quietD [OF this]
    show ?thesis using assms res q1(3,4) q2(3,4) q3(4) by (simp add: t' t6 t3 split: if_splits)
  qed
next
  obtain st w s' t' where res: "bvstk_i2c_master_service_read_from env s d reg (Some x) source timeout t = (st, w, s', t')"
    by (metis prod_cases4)
  show "depth (snd (snd (snd (bvstk_i2c_master_service_read_from env s d reg (Some x) source timeout t)))) = depth t"
  proof (cases "readable s d reg")
    case False
    then show ?thesis using read_refused [OF False res] res by simp
  next
    case True
    obtain w s1 t1 s2 t2 fl where b: "backend_read env s (dev_of s d) reg x timeout t = (st, w, s1, t1)"
      and rr: "record_response s1 d (dv_addr_7b (dev_of s d)) st True t1 = (s2, t2)"
      and cr: "cache_response env s2 d (dev_of s d) reg (if st = BVSTK_OK then w else 0) st
         (emit_flags env s2 0x0102 (status_code st) source 0 (dev_of s d) (ucast reg) (if st = BVSTK_OK then w else 0) fl t2) = (s', t')"
      using read_done [OF True res] by metis
    note q1 = backend_read_traffic [OF b]
      and q2 = quietD [OF quiet_record_response [of s1 t1 d "dv_addr_7b (dev_of s d)" st True, unfolded rr]]
      and q3 = quietD [OF quiet_cache_response [of s2 "emit_flags env s2 0x0102 (status_code st) source 0 (dev_of s d)
        (ucast reg) (if st = BVSTK_OK then w else 0) fl t2" env d "dev_of s d" reg "if st = BVSTK_OK then w else 0" st, unfolded cr]]
    show ?thesis using assms res q1(3,4) q2(3,4) q3(4) by simp
  qed
qed

text \<open>
  A configuration that is accepted leaves no stale data: if it changes the device's address or
  register count, all 256 cached entries of that device are invalid afterwards and its presence is
  unknown again; otherwise the cache is untouched. Other devices' entries never change.
\<close>

theorem i2c_set_config_resets:
  assumes "service_wf s"
    and "bvstk_i2c_master_service_set_config s d (Some c) t = (BVSTK_OK, s', t')"
  shows "service_wf s' \<and> dev_of s' d = device_from_config c \<and> (\<forall>d' r'. cache_entry_at (ms_cache s') d' r' =
    (if d' = d \<and> (cfg_addr_7b c \<noteq> dv_addr_7b (dev_of s d) \<or> cfg_reg_count c \<noteq> dv_reg_count (dev_of s d))
     then invalid_entry (ms_cache s) d r' else cache_entry_at (ms_cache s) d' r')) \<and>
    ms_presence s' ! d = (if cfg_addr_7b c \<noteq> dv_addr_7b (dev_of s d) \<or> cfg_reg_count c \<noteq> dv_reg_count (dev_of s d)
      then BVSTK_I2C_PRESENCE_UNKNOWN else ms_presence s ! d)"
proof -
  have ok: "service_status (Some s) d = BVSTK_OK"
    using assms(2) by (auto simp: bvstk_i2c_master_service_set_config_def split: bvstk_status_t.splits)
  note dev = service_status_OK [OF ok]
  have d: "d < length (ds_items (ms_devices s))" using dev by (simp add: devices_get_OK)
  obtain t1 where lock: "set_config_locked s d c (dev_of s d) (enter s t) = (BVSTK_OK, s', t1)"
    using assms(2) ok dev by (auto simp: bvstk_i2c_master_service_set_config_def Let_def split: if_splits prod.splits)
  obtain st ds where ds: "bvstk_i2c_devices_set (Some (ms_devices s)) d (Some (device_from_config c)) = (st, ds)" by fastforce
  have st: "st = BVSTK_OK" using lock by (auto simp: set_config_locked_def ds Let_def split: if_splits)
  note l = service_wf_devices_set [OF assms(1) ds]
  let ?s1 = "s \<lparr> ms_devices := the ds \<rparr>"
  let ?s2 = "s \<lparr> ms_devices := the ds, ms_presence := (ms_presence s)[d := 0] \<rparr>"
  let ?ch = "cfg_addr_7b c \<noteq> dv_addr_7b (dev_of s d) \<or> cfg_reg_count c \<noteq> dv_reg_count (dev_of s d)"
  have dcf: "dv_addr_7b (device_from_config c) = cfg_addr_7b c" "dv_reg_count (device_from_config c) = cfg_reg_count c"
    by (simp_all add: device_from_config_def)
  have wf2: "service_wf ?s2" "d < length (ds_items (ms_devices ?s2))" using l d by (auto simp: service_wf_def)
  note inv = service_wf_invalidate_all [OF wf2, of 0 256 "enter s t"]
  have d32: "d < length (ms_presence s)" using assms(1) d by (auto simp: service_wf_def devices_wf_def)
  obtain p where s': "s' = (if ?ch then fst (invalidate_all 256 0 ?s2 d (enter s t)) else ?s1) \<lparr> ms_policy := p \<rparr>"
    using lock st dcf by (auto simp: set_config_locked_def ds Let_def case_prod_beta split: if_splits)
  have "service_wf s'" using service_wf_set_config [OF assms(1), of d "Some c" t] assms(2) by simp
  then show ?thesis using inv d d32 l st unfolding s' by (auto simp: dev_of_def)
qed

section \<open>Instances\<close>

text \<open>A service with one device under an empty blacklist, and a bus that answers OK.\<close>

definition example_device :: bvstk_i2c_device_t where
  "example_device = \<lparr> dv_name = ascii ''psu'', dv_addr_7b = 0x50, dv_reg_count = 4, dv_max_value_code = 9 \<rparr>"

definition example_service :: i2c_service where
  "example_service = \<lparr> ms_hardware = False, ms_io_read = True, ms_io_write = True,
     ms_devices = \<lparr> ds_items = [example_device], ds_initialized = True \<rparr>,
     ms_cache = zero_cache \<lparr> ca_device_count := 1, ca_initialized := True \<rparr>,
     ms_policy = zero_policy \<lparr> po_items := replicate 32 (zero_policy_entry \<lparr> pe_mode := 1 \<rparr>), po_device_count := 1,
       po_initialized := True \<rparr>,
     ms_events = True, ms_config_changed = False, ms_presence = replicate 32 0, ms_initialized = True \<rparr>"

definition example_env :: i2c_env where
  "example_env = \<lparr> env_now_ms = (\<lambda>t. 7), env_bus_read = (\<lambda>t a r to. (BVSTK_OK, 3)),
     env_bus_write = (\<lambda>t a r v to. BVSTK_OK), env_meanwhile = (\<lambda>t. []) \<rparr>"

lemma example_service_wf: "service_wf example_service"
  by (simp add: service_wf_def example_service_def devices_wf_def item_valid_def example_device_def cache_wf_def zero_cache_def
      grid_def policy_wf_def zero_policy_def zero_policy_entry_def policy_entry_wf_def mode_valid_def list_all_iff ascii_def)

lemma example_service_facts:
  "service_status (Some example_service) 0 = BVSTK_OK" "dev_of example_service 0 = example_device"
  "in_range example_service 0 2 5" "allowed example_service 0 2 5" "readable example_service 0 2"
  by (simp_all add: service_status_def example_service_def bvstk_i2c_devices_count_def dev_of_def in_range_def allowed_def
      readable_def example_device_def bvstk_i2c_policy_permits_def policy_status_def rule_valid_def zero_policy_entry_def Let_def
      word_le_nat_alt)

theorem i2c_write_traffic_witness:
  "\<exists>st s' t'. bvstk_i2c_master_service_write example_env example_service 0 2 5 BVSTK_EVENT_SOURCE_DCP 100 [] = (st, s', t') \<and>
     hd (tl (traffic t')) = Wrote 0x50 2 5 \<and> Wrote 0x50 2 5 \<in> set (traffic t')"
proof -
  obtain st s' t' where res: "bvstk_i2c_master_service_write example_env example_service 0 2 5 BVSTK_EVENT_SOURCE_DCP 100 [] = (st, s', t')"
    by (metis prod_cases3)
  have "ms_events example_service" "ms_io_write example_service" "traffic [] = []"
    by (simp_all add: example_service_def traffic_def visible_def)
  then show ?thesis
    using i2c_write_traffic [OF res] example_service_facts res
    by (simp add: event_if_def example_device_def)
qed

theorem i2c_write_cache_witness:
  "(\<exists>st s' t' s1 t3 t4. bvstk_i2c_master_service_write example_env example_service 0 2 5 BVSTK_EVENT_SOURCE_DCP 100 [] = (st, s', t') \<and>
     backend_write example_env example_service example_device 2 5 100 t3 = (st, s1, t4) \<and>
     (st = BVSTK_OK \<and> still_target s1 0 example_device 2 \<longrightarrow> en_value (cache_entry_at (ms_cache s') 0 2) = 5)) \<and>
   (\<exists>st s' t'. bvstk_i2c_master_service_write example_env example_service 0 4 5 BVSTK_EVENT_SOURCE_DCP 100 [] = (st, s', t') \<and>
     st \<noteq> BVSTK_OK \<and> s' = example_service)"
proof (rule conjI)
  obtain st s' t' where res: "bvstk_i2c_master_service_write example_env example_service 0 2 5 BVSTK_EVENT_SOURCE_DCP 100 [] = (st, s', t')"
    by (metis prod_cases3)
  obtain s1 t3 t4 now where
    "backend_write example_env example_service example_device 2 5 100 t3 = (st, s1, t4)"
    "\<forall>d' r'. cache_entry_at (ms_cache s') d' r' =
      (if d' = 0 \<and> r' = 2 \<and> still_target s1 0 example_device 2
       then (if st = BVSTK_OK then \<lparr> en_value = 5, en_valid = True, en_seeded = False, en_updated_ms = now \<rparr>
             else invalid_entry (ms_cache s1) 0 2)
       else cache_entry_at (ms_cache s1) d' r')"
    using i2c_write_cache [OF example_service_wf res] example_service_facts(1,3,4) unfolding example_service_facts(2) by auto
  then show "\<exists>st s' t' s1 t3 t4. bvstk_i2c_master_service_write example_env example_service 0 2 5 BVSTK_EVENT_SOURCE_DCP 100 [] = (st, s', t') \<and>
     backend_write example_env example_service example_device 2 5 100 t3 = (st, s1, t4) \<and>
     (st = BVSTK_OK \<and> still_target s1 0 example_device 2 \<longrightarrow> en_value (cache_entry_at (ms_cache s') 0 2) = 5)"
    using res by (intro exI conjI) auto
next
  obtain st s' t' where res: "bvstk_i2c_master_service_write example_env example_service 0 4 5 BVSTK_EVENT_SOURCE_DCP 100 [] = (st, s', t')"
    by (metis prod_cases3)
  have "\<not> in_range example_service 0 4 5" by (simp add: in_range_def example_service_facts(2) example_device_def)
  then show "\<exists>st s' t'. bvstk_i2c_master_service_write example_env example_service 0 4 5 BVSTK_EVENT_SOURCE_DCP 100 [] = (st, s', t') \<and>
     st \<noteq> BVSTK_OK \<and> s' = example_service"
    using i2c_write_cache [OF example_service_wf res] res by auto
qed

theorem i2c_read_traffic_witness:
  "\<exists>st v s' t'. bvstk_i2c_master_service_read_from example_env example_service 0 2 (Some 0) BVSTK_EVENT_SOURCE_WEB 100 [] =
     (st, v, s', t') \<and> hd (traffic t') = Asked 0x50 2"
proof -
  obtain st v s' t' where res: "bvstk_i2c_master_service_read_from example_env example_service 0 2 (Some 0)
      BVSTK_EVENT_SOURCE_WEB 100 [] = (st, v, s', t')" by (metis prod_cases4)
  have "ms_io_read example_service" "traffic [] = []" by (simp_all add: example_service_def traffic_def visible_def)
  then show ?thesis using i2c_read_traffic [OF res] example_service_facts res by (simp add: example_device_def)
qed

theorem i2c_guard_balanced_witness:
  "depth (snd (snd (bvstk_i2c_master_service_write example_env example_service 0 2 5 BVSTK_EVENT_SOURCE_DCP 100 []))) = 0"
proof -
  have "sink_enter (ca_sink (ms_cache example_service)) = sink_leave (ca_sink (ms_cache example_service))" "depth [] = 0"
    by (simp_all add: example_service_def zero_cache_def no_sink_def depth_def)
  then show ?thesis using i2c_guard_balanced by metis
qed

theorem i2c_set_config_resets_witness:
  "\<exists>s' t'. bvstk_i2c_master_service_set_config example_service 0
     (Some \<lparr> cfg_name = ascii ''fan'', cfg_file_name = [], cfg_addr_7b = 0x51, cfg_reg_count = 8, cfg_max_value_code = 255,
        cfg_policy = 0, cfg_whitelist = [], cfg_whitelist_len = 0, cfg_blacklist = [], cfg_blacklist_len = 0,
        cfg_settings = [], cfg_settings_len = 0 \<rparr>) [] = (BVSTK_OK, s', t') \<and> \<not> en_valid (cache_entry_at (ms_cache s') 0 3)"
proof -
  let ?c = "\<lparr> cfg_name = ascii ''fan'', cfg_file_name = [], cfg_addr_7b = 0x51, cfg_reg_count = 8, cfg_max_value_code = 255,
        cfg_policy = 0, cfg_whitelist = [], cfg_whitelist_len = 0, cfg_blacklist = [], cfg_blacklist_len = 0,
        cfg_settings = [], cfg_settings_len = 0 \<rparr>"
  let ?s = example_service
  obtain st s' t' where res: "bvstk_i2c_master_service_set_config ?s 0 (Some ?c) [] = (st, s', t')"
    by (metis prod_cases3)
  have dev: "bvstk_i2c_devices_get (Some (ms_devices ?s)) 0 True = (BVSTK_OK, Some example_device)"
    by (simp add: bvstk_i2c_devices_get_def device_status_def example_service_def)
  obtain ds where ds: "bvstk_i2c_devices_set (Some (ms_devices ?s)) 0 (Some (device_from_config ?c)) = (BVSTK_OK, ds)"
    by (simp add: bvstk_i2c_devices_set_def device_status_def item_valid_def example_service_def device_from_config_def ascii_def
        word_le_nat_alt)
  let ?s2 = "?s \<lparr> ms_devices := the ds, ms_presence := (ms_presence ?s)[0 := 0] \<rparr>"
  have one: "length (ds_items (ms_devices ?s)) = 1" by (simp add: example_service_def)
  have wf2: "service_wf ?s2" "0 < length (ds_items (ms_devices ?s2))"
    using service_wf_devices_set [OF example_service_wf ds] one by (simp_all add: service_wf_def)
  have pol: "ms_policy (fst (invalidate_all 256 0 ?s2 0 t)) = ms_policy ?s" for t
    using service_wf_invalidate_all [OF wf2, of 0 256 t] by auto
  have "fst (bvstk_i2c_policy_set_config (Some (ms_policy ?s)) 0 (Some ?c)) = BVSTK_OK"
    by (simp add: bvstk_i2c_policy_set_config_def policy_status_def example_service_def policy_config_valid_def mode_valid_def)
  then have "fst (set_config_locked ?s 0 ?c example_device t) = BVSTK_OK" for t
    using ds pol [of t] by (simp add: set_config_locked_def Let_def case_prod_beta device_from_config_def example_device_def)
  then have st: "st = BVSTK_OK"
    using res dev example_service_facts(1)
    by (auto simp: bvstk_i2c_master_service_set_config_def Let_def case_prod_beta ascii_def word_less_nat_alt split: if_splits)
  then have "cache_entry_at (ms_cache s') 0 3 = invalid_entry (ms_cache ?s) 0 3"
    using i2c_set_config_resets [OF example_service_wf res [unfolded st]] example_service_facts(2)
    by (simp add: example_device_def)
  then show ?thesis using res st by (auto simp: invalid_entry_def)
qed

end
