(* ===== verification/Device_Profile.thy ===== *)
theory Device_Profile
  imports Bvstk_Status
begin

text \<open>
  The validators of \<open>src/shared/config/bvstk_device_profile.c\<close> that the bus configurations rely on:
  profile paths, register-map and view assets, and the profile metadata. A character array of
  size \<open>n\<close> is the string before its first NUL; it holds no NUL when that string has \<open>n\<close> bytes or
  more, so \<open>memchr(s, 0, n)\<close> is \<open>length s < n\<close>. The packed identifiers keep their raw bytes.
\<close>

section \<open>Characters and strings\<close>

definition digit :: "u8 \<Rightarrow> bool" where
  "digit c \<longleftrightarrow> c \<ge> ch CHR ''0'' \<and> c \<le> ch CHR ''9''"

definition lower_letter :: "u8 \<Rightarrow> bool" where
  "lower_letter c \<longleftrightarrow> c \<ge> ch CHR ''a'' \<and> c \<le> ch CHR ''z''"

definition upper_letter :: "u8 \<Rightarrow> bool" where
  "upper_letter c \<longleftrightarrow> c \<ge> ch CHR ''A'' \<and> c \<le> ch CHR ''Z''"

definition name_char :: "u8 \<Rightarrow> bool" where
  "name_char c \<longleftrightarrow> lower_letter c \<or> upper_letter c \<or> digit c \<or> c = ch CHR ''_'' \<or> c = ch CHR ''-''"

text \<open>\<open>c - 'A' + 'a'\<close> on upper-case letters, as \<open>tolower\<close> in the C locale.\<close>

definition lower :: "u8 \<Rightarrow> u8" where
  "lower c = (if upper_letter c then c - ch CHR ''A'' + ch CHR ''a'' else c)"

text \<open>\<open>!strcasecmp(a, b)\<close> and \<open>strstr(s, sub) != NULL\<close>.\<close>

definition case_equal :: "cstr \<Rightarrow> cstr \<Rightarrow> bool" where
  "case_equal a b \<longleftrightarrow> map lower a = map lower b"

fun strstr :: "cstr \<Rightarrow> cstr \<Rightarrow> bool" where
  "strstr [] sub = (sub = [])"
| "strstr (c # cs) sub = (take (length sub) (c # cs) = sub \<or> strstr cs sub)"

definition cstr_of :: "bytes \<Rightarrow> cstr" where
  "cstr_of bs = takeWhile (\<lambda>b. b \<noteq> 0) bs"

section \<open>Paths and assets\<close>

definition bvstk_device_profile_is_register_map :: "cstr option \<Rightarrow> bool" where
  "bvstk_device_profile_is_register_map filename =
    (case filename of
       None \<Rightarrow> False
     | Some f \<Rightarrow>
         let suffix = ascii ''_register_map.json''; n = length f in
         if f = ascii ''register_map.json'' then True
         else if n \<le> length suffix then False
         else map lower (drop (n - length suffix) f) = suffix)"

text \<open>The scan of \<open>bvstk_device_profile_path_valid\<close> from position \<open>i\<close>: the position of the
  only slash, 0 when there is none; \<open>None\<close> when the path is refused.\<close>

fun path_scan :: "nat \<Rightarrow> nat \<Rightarrow> cstr \<Rightarrow> nat option" where
  "path_scan i slash [] = Some slash"
| "path_scan i slash (c # cs) =
    (if c = ch CHR ''/'' then
       (if i = 0 \<or> slash \<noteq> 0 \<or> i \<ge> 32 then None else path_scan (i + 1) i cs)
     else if \<not> (lower_letter c \<or> upper_letter c \<or> digit c \<or> c = ch CHR ''_'' \<or> c = ch CHR ''-'' \<or> c = ch CHR ''.'') then None
     else path_scan (i + 1) slash cs)"

text \<open>The five bytes from position \<open>k\<close> on spell \<open>.json\<close> in any case.\<close>

definition json_at :: "cstr \<Rightarrow> nat \<Rightarrow> bool" where
  "json_at p k \<longleftrightarrow> p ! k = ch CHR ''.'' \<and>
     (p ! (k + 1) = ch CHR ''j'' \<or> p ! (k + 1) = ch CHR ''J'') \<and>
     (p ! (k + 2) = ch CHR ''s'' \<or> p ! (k + 2) = ch CHR ''S'') \<and>
     (p ! (k + 3) = ch CHR ''o'' \<or> p ! (k + 3) = ch CHR ''O'') \<and>
     (p ! (k + 4) = ch CHR ''n'' \<or> p ! (k + 4) = ch CHR ''N'')"

definition bvstk_device_profile_path_valid :: "cstr option \<Rightarrow> bool" where
  "bvstk_device_profile_path_valid path =
    (case path of
       None \<Rightarrow> False
     | Some p \<Rightarrow>
         let n = length p in
         if \<not> n < 48 \<or> n < 6 \<or> strstr p (ascii ''..'') then False
         else (case path_scan 0 0 p of
             None \<Rightarrow> False
           | Some slash \<Rightarrow>
               if slash = 0 then n > 5 \<and> json_at p (n - 5)
               else if list_ex (\<lambda>c. c = ch CHR ''.'') (take slash p) then False
               else let leaf = drop (slash + 1) p in
                 if case_equal leaf (ascii ''profile.json'') then True
                 else if length leaf \<noteq> slash + 5 then False
                 else map lower (take slash p) = map lower (take slash leaf) \<and> json_at leaf slash))"

text \<open>\<open>strchr(a, '/')\<close>: the bytes before the first slash, or all but the extension.\<close>

definition profile_stem :: "cstr \<Rightarrow> cstr" where
  "profile_stem a = (if ch CHR ''/'' \<in> set a then takeWhile (\<lambda>c. c \<noteq> ch CHR ''/'') a else take (length a - 5) a)"

definition bvstk_device_profile_same_file :: "cstr option \<Rightarrow> cstr option \<Rightarrow> bool" where
  "bvstk_device_profile_same_file a b =
    (if \<not> bvstk_device_profile_path_valid a \<or> \<not> bvstk_device_profile_path_valid b then False
     else let sa = profile_stem (the a); sb = profile_stem (the b) in
       if length sa \<noteq> length sb then False else map lower sa = map lower sb)"

definition asset_name_valid :: "cstr \<Rightarrow> cstr \<Rightarrow> bool" where
  "asset_name_valid filename extension =
    (let n = length filename; suffix = length extension in
     if \<not> n < 64 then False
     else if filename = [] then True
     else if n \<le> suffix \<or> drop (n - suffix) filename \<noteq> extension then False
     else list_all name_char (take (n - suffix) filename))"

definition register_map_valid :: "cstr \<Rightarrow> bool" where
  "register_map_valid filename \<longleftrightarrow> asset_name_valid filename (ascii ''.json'') \<and>
     (filename = [] \<or> bvstk_device_profile_is_register_map (Some filename))"

section \<open>Metadata\<close>

record bvstk_profile_metadata_t =
  pm_version :: u8
  pm_vendor :: cstr
  pm_model :: cstr
  pm_device_class :: cstr
  pm_label :: cstr
  pm_register_map :: cstr
  pm_view :: cstr
  pm_id_offset :: "u16 list"
  pm_ids_size :: u16
  pm_ids :: bytes

definition id_valid :: "cstr \<Rightarrow> bool" where
  "id_valid s \<longleftrightarrow> s \<noteq> [] \<and> lower_letter (s ! 0) \<and>
     list_all (\<lambda>c. lower_letter c \<or> digit c \<or> c = ch CHR ''_'' \<or> c = ch CHR ''-'') (take 32 s) \<and> length s < 32"

definition class_valid :: "cstr \<Rightarrow> bool" where
  "class_valid s \<longleftrightarrow> list_ex (\<lambda>n. s = ascii n)
     [''generic'', ''phy'', ''power'', ''gpio'', ''sensor'', ''memory'', ''storage'', ''bridge'', ''serial'']"

definition resource_name :: "bvstk_profile_metadata_t \<Rightarrow> nat \<Rightarrow> cstr" where
  "resource_name p i = cstr_of (drop (unat (pm_id_offset p ! i)) (pm_ids p))"

text \<open>The checks of one register identifier against the bytes and the earlier identifiers.\<close>

definition id_entry_valid :: "bvstk_profile_metadata_t \<Rightarrow> nat \<Rightarrow> bool" where
  "id_entry_valid p i \<longleftrightarrow> pm_id_offset p ! i \<noteq> 0 \<and> pm_id_offset p ! i < pm_ids_size p \<and>
     0 \<in> set (take (unat (pm_ids_size p) - unat (pm_id_offset p ! i)) (drop (unat (pm_id_offset p ! i)) (pm_ids p))) \<and>
     id_valid (resource_name p i) \<and>
     list_all (\<lambda>j. resource_name p i \<noteq> resource_name p j) [0..<i]"

definition bvstk_device_profile_metadata_validate :: "bvstk_profile_metadata_t option \<Rightarrow> nat \<Rightarrow> bvstk_status_t" where
  "bvstk_device_profile_metadata_validate meta count =
    (case meta of
       None \<Rightarrow> BVSTK_ERR_MALFORMED
     | Some p \<Rightarrow>
         if count > 256 \<or> \<not> register_map_valid (pm_register_map p) \<or> \<not> asset_name_valid (pm_view p) (ascii ''.js'') \<or>
            (pm_view p \<noteq> [] \<and> pm_register_map p = []) then BVSTK_ERR_MALFORMED
         else if pm_version p = 0 then BVSTK_OK
         else if pm_version p \<noteq> 2 \<or> count = 0 \<or> unat (pm_ids_size p) > 2048 \<or> pm_ids_size p = 0 \<or> pm_ids p ! 0 \<noteq> 0 \<or>
            \<not> length (pm_vendor p) < 65 \<or> \<not> length (pm_model p) < 65 \<or> \<not> length (pm_device_class p) < 16 \<or>
            \<not> length (pm_label p) < 97 \<or> pm_model p = [] \<or> \<not> class_valid (pm_device_class p) then BVSTK_ERR_MALFORMED
         else if list_all (id_entry_valid p) [0..<count] then BVSTK_OK
         else BVSTK_ERR_MALFORMED)"

section \<open>Accepted paths\<close>

lemma case_equal_length: "case_equal a b \<Longrightarrow> length a = length b"
  unfolding case_equal_def by (metis length_map)

text \<open>The scan accepts exactly the paths of name bytes and dots with at most one slash, neither
  first nor beyond byte 31.\<close>

lemma path_scan_Some:
  "path_scan i slash p = Some k \<Longrightarrow>
     (\<forall>c\<in>set p. c = ch CHR ''/'' \<or> name_char c \<or> c = ch CHR ''.'') \<and>
     (if ch CHR ''/'' \<in> set p then slash = 0 \<and> (\<exists>j < length p. k = i + j \<and> 0 < k \<and> k < 32 \<and> p ! j = ch CHR ''/'' \<and>
        (\<forall>m < length p. m \<noteq> j \<longrightarrow> p ! m \<noteq> ch CHR ''/''))
      else k = slash)"
proof (induction i slash p rule: path_scan.induct)
  case (2 i slash c cs)
  show ?case
  proof (cases "c = ch CHR ''/''")
    case True
    then have "path_scan (i + 1) i cs = Some k" "i \<noteq> 0" "slash = 0" "i < 32"
      using "2.prems" by (auto split: if_splits)
    moreover from this have "ch CHR ''/'' \<notin> set cs"
      using "2.IH"(1) True by auto
    ultimately show ?thesis
      using "2.IH"(1) True by (auto simp: nth_Cons in_set_conv_nth split: nat.splits)
  next
    case False
    then have "path_scan (i + 1) slash cs = Some k" and nc: "name_char c \<or> c = ch CHR ''.''"
      using "2.prems" by (auto simp: name_char_def split: if_splits)
    note ih = "2.IH"(2) [OF False _ this(1)]
    show ?thesis
    proof (cases "ch CHR ''/'' \<in> set cs")
      case True
      then obtain j where "j < length cs" "k = i + 1 + j" "0 < k" "k < 32" "cs ! j = ch CHR ''/''"
        "\<forall>m < length cs. m \<noteq> j \<longrightarrow> cs ! m \<noteq> ch CHR ''/''" "slash = 0"
        using ih "2.prems" False by (auto split: if_splits)
      then show ?thesis
        using ih "2.prems" False True nc
        by (auto simp: nth_Cons split: nat.splits if_splits intro!: exI [of _ "Suc j"])
    qed (use ih "2.prems" False nc in \<open>auto split: if_splits\<close>)
  qed
qed simp

text \<open>Lower-casing on the numeric value of a byte.\<close>

lemma upper_letter_nat: "upper_letter c \<longleftrightarrow> 65 \<le> unat c \<and> unat c \<le> 90"
  by (simp add: upper_letter_def word_le_nat_alt)

lemma unat_lower: "unat (lower c) = (if 65 \<le> unat c \<and> unat c \<le> 90 then unat c + 32 else unat c)"
proof (cases "upper_letter c")
  case True
  then have "unat c \<le> 90" by (simp add: upper_letter_nat)
  then have "unat (c + 32) = unat c + 32"
    by (simp add: unat_word_ariths)
  moreover have "lower c = c + 32" using True by (simp add: lower_def)
  ultimately show ?thesis using True by (simp add: upper_letter_nat)
qed (auto simp: lower_def upper_letter_nat)

lemma lower_name_char [simp]: "name_char (lower c) \<longleftrightarrow> name_char c"
  unfolding name_char_def upper_letter_def lower_letter_def digit_def word_le_nat_alt word_unat_eq_iff unat_lower by simp

lemma lower_eq_dot [simp]: "lower c = ch CHR ''.'' \<longleftrightarrow> c = ch CHR ''.''"
  unfolding word_unat_eq_iff unat_lower by simp

lemma lower_eq_json:
  "lower c = ch CHR ''j'' \<longleftrightarrow> c = ch CHR ''j'' \<or> c = ch CHR ''J''"
  "lower c = ch CHR ''s'' \<longleftrightarrow> c = ch CHR ''s'' \<or> c = ch CHR ''S''"
  "lower c = ch CHR ''o'' \<longleftrightarrow> c = ch CHR ''o'' \<or> c = ch CHR ''O''"
  "lower c = ch CHR ''n'' \<longleftrightarrow> c = ch CHR ''n'' \<or> c = ch CHR ''N''"
  unfolding word_unat_eq_iff unat_lower by auto

lemma length_5E:
  assumes "length xs = 5"
  obtains a b c d e where "xs = [a, b, c, d, e]"
  using assms by (auto simp: numeral_eq_Suc length_Suc_conv)

lemma json_at_iff:
  assumes "length p = k + 5"
  shows "json_at p k \<longleftrightarrow> map lower (drop k p) = ascii ''.json''"
proof -
  obtain a b c d e where "drop k p = [a, b, c, d, e]"
    by (rule length_5E [of "drop k p"]) (simp add: assms)
  moreover from this have "p ! (k + i) = [a, b, c, d, e] ! i" for i
    using nth_drop [of k p i] assms by simp
  from this [of 0] this [of 1] this [of 2] this [of 3] this [of 4]
  have "p ! k = a" "p ! (k + 1) = b" "p ! (k + 2) = c" "p ! (k + 3) = d" "p ! (k + 4) = e"
    by (simp_all add: numeral_eq_Suc)
  ultimately show ?thesis
    by (simp add: json_at_def ascii_def lower_eq_json [simplified] lower_eq_dot [simplified])
qed

lemma strstr_iff: "strstr s sub \<longleftrightarrow> (\<exists>a b. s = a @ sub @ b)"
proof (induction s)
  case (Cons c cs)
  show ?case
  proof
    assume "strstr (c # cs) sub"
    then show "\<exists>a b. c # cs = a @ sub @ b"
    proof (cases "take (length sub) (c # cs) = sub")
      case True
      then show ?thesis by (metis append_Nil append_take_drop_id)
    qed (use Cons in \<open>auto, metis append_Cons\<close>)
  next
    assume "\<exists>a b. c # cs = a @ sub @ b"
    then obtain a b where eq: "c # cs = a @ sub @ b" by auto
    show "strstr (c # cs) sub"
    proof (cases a)
      case Nil
      then have "take (length sub) (c # cs) = sub" using eq by simp
      then show ?thesis by simp
    qed (use eq Cons in auto)
  qed
qed simp

text \<open>What an accepted path is: a flat name with the extension, or a directory without dots holding
  \<open>profile.json\<close> or a file of its own name; letter case never matters.\<close>

definition flat_profile_path :: "cstr \<Rightarrow> bool" where
  "flat_profile_path p \<longleftrightarrow> (\<exists>stem ext. p = stem @ ext \<and> stem \<noteq> [] \<and> map lower ext = ascii ''.json'' \<and>
     (\<forall>c\<in>set stem. name_char c \<or> c = ch CHR ''.'') \<and> \<not> (\<exists>a b. p = a @ ascii ''..'' @ b))"

definition bundle_profile_path :: "cstr \<Rightarrow> bool" where
  "bundle_profile_path p \<longleftrightarrow> (\<exists>dir leaf. p = dir @ ch CHR ''/'' # leaf \<and> dir \<noteq> [] \<and> length dir < 32 \<and>
     (\<forall>c\<in>set dir. name_char c) \<and>
     (map lower leaf = ascii ''profile.json'' \<or> map lower leaf = map lower dir @ ascii ''.json''))"

lemma name_char_not_slash: "name_char c \<Longrightarrow> c \<noteq> ch CHR ''/''" "name_char c \<Longrightarrow> c \<noteq> ch CHR ''.''"
  by (auto simp: name_char_def upper_letter_def lower_letter_def digit_def)

text \<open>C40: every profile path the service accepts is shorter than 48 bytes, contains no \<open>..\<close>, and is
  either a single name ending in \<open>.json\<close> or \<open>dir/leaf\<close> with a dot-free directory and a leaf
  \<open>profile.json\<close> or \<open>dir.json\<close> (letter case ignored); so it cannot leave the profile directory.\<close>

theorem profile_path_confined:
  assumes "bvstk_device_profile_path_valid (Some p)"
  shows "length p < 48 \<and> (flat_profile_path p \<or> bundle_profile_path p)"
proof -
  let ?n = "length p"
  from assms have n: "?n < 48" "6 \<le> ?n" and dots: "\<not> strstr p (ascii ''..'')"
    by (auto simp: bvstk_device_profile_path_valid_def Let_def split: if_splits)
  obtain slash where scan: "path_scan 0 0 p = Some slash"
    using assms by (auto simp: bvstk_device_profile_path_valid_def Let_def split: if_splits option.splits)
  note chars = path_scan_Some [OF scan]
  show ?thesis
  proof (cases "ch CHR ''/'' \<in> set p")
    case False
    then have "slash = 0" using chars by simp
    then have "json_at p (?n - 5)"
      using assms scan n dots by (simp add: bvstk_device_profile_path_valid_def Let_def split: if_splits)
    then have ext: "map lower (drop (?n - 5) p) = ascii ''.json''" using n json_at_iff by simp
    have "p = take (?n - 5) p @ drop (?n - 5) p" "take (?n - 5) p \<noteq> []" using n by auto
    moreover have "\<forall>c\<in>set (take (?n - 5) p). name_char c \<or> c = ch CHR ''.''"
      using chars False by (metis in_set_takeD)
    ultimately have "flat_profile_path p"
      using ext dots unfolding flat_profile_path_def strstr_iff by blast
    then show ?thesis using n by simp
  next
    case True
    then obtain j where j: "j < ?n" "slash = j" "0 < j" "j < 32" "p ! j = ch CHR ''/''"
        "\<forall>m < ?n. m \<noteq> j \<longrightarrow> p ! m \<noteq> ch CHR ''/''" using chars by auto
    let ?dir = "take j p" and ?leaf = "drop (j + 1) p"
    have eq: "p = ?dir @ ch CHR ''/'' # ?leaf" using j by (metis Suc_eq_plus1 id_take_nth_drop)
    have len: "length ?dir = j" using j by simp
    have nodot: "\<not> list_ex (\<lambda>c. c = ch CHR ''.'') ?dir"
      and leaf: "case_equal ?leaf (ascii ''profile.json'') \<or>
        length ?leaf = j + 5 \<and> map lower ?dir = map lower (take j ?leaf) \<and> json_at ?leaf j"
      using assms scan n dots j by (auto simp: bvstk_device_profile_path_valid_def Let_def split: if_splits)
    have "\<forall>c\<in>set ?dir. name_char c"
    proof
      fix c assume c: "c \<in> set ?dir"
      then obtain m where "m < j" "c = p ! m" using len by (auto simp: in_set_conv_nth)
      then have "c \<noteq> ch CHR ''/''" using j by auto
      then show "name_char c" using chars nodot c by (auto simp: list_ex_iff dest: in_set_takeD)
    qed
    moreover have "map lower ?leaf = ascii ''profile.json'' \<or> map lower ?leaf = map lower ?dir @ ascii ''.json''"
      using leaf
    proof
      assume "case_equal ?leaf (ascii ''profile.json'')"
      then show ?thesis by (simp add: case_equal_def ascii_def lower_def upper_letter_def)
    next
      assume l: "length ?leaf = j + 5 \<and> map lower ?dir = map lower (take j ?leaf) \<and> json_at ?leaf j"
      then have "map lower (drop j ?leaf) = ascii ''.json''" using json_at_iff by blast
      then show ?thesis using l by (metis append_take_drop_id map_append)
    qed
    ultimately have "bundle_profile_path p"
      unfolding bundle_profile_path_def using eq len j by (metis length_0_conv less_numeral_extra(3))
    then show ?thesis using n by simp
  qed
qed

theorem profile_path_confined_witness:
  "length (ascii ''adm/adm.json'') < 48 \<and>
    (flat_profile_path (ascii ''adm/adm.json'') \<or> bundle_profile_path (ascii ''adm/adm.json''))"
  by (rule profile_path_confined) code_simp

text \<open>Two accepted paths name the same device file when their directory or stem agree up to letter
  case, which is an equivalence on the accepted paths.\<close>

lemma same_file_equivalence:
  "(bvstk_device_profile_path_valid a \<longrightarrow> bvstk_device_profile_same_file a a) \<and>
   (bvstk_device_profile_same_file a b \<longrightarrow> bvstk_device_profile_same_file b a) \<and>
   (bvstk_device_profile_same_file a b \<longrightarrow> bvstk_device_profile_same_file b c \<longrightarrow> bvstk_device_profile_same_file a c)"
  by (auto simp: bvstk_device_profile_same_file_def Let_def split: if_splits)

end
