(* ===== verification/Mdio_Config.thy ===== *)
theory Mdio_Config
  imports Device_Profile
begin

text \<open>
  The MDIO configuration of \<open>src/shared/config/bvstk_config_model.h\<close> with its validation and the
  write policy of \<open>src/shared/config/bvstk_mdio_config_codec.c\<close>. The rule lists and the polled
  registers are the lists in use; the settings keep all 32 slots and their padding byte, since
  the service compares them with \<open>memcmp\<close>.
\<close>

abbreviation (input) MDIO_CFG_MAX_DEVICES :: nat where "MDIO_CFG_MAX_DEVICES \<equiv> 8"
abbreviation (input) MDIO_CFG_NAME_MAX :: nat where "MDIO_CFG_NAME_MAX \<equiv> 32"
abbreviation (input) MDIO_CFG_RULES_MAX :: nat where "MDIO_CFG_RULES_MAX \<equiv> 64"
abbreviation (input) MDIO_CFG_SETTINGS_MAX :: nat where "MDIO_CFG_SETTINGS_MAX \<equiv> 32"

text \<open>The policy enumeration; the code also meets values outside it.\<close>

type_synonym mdio_policy_t = u32

abbreviation (input) MDIO_POLICY_WHITELIST :: mdio_policy_t where "MDIO_POLICY_WHITELIST \<equiv> 0"
abbreviation (input) MDIO_POLICY_BLACKLIST :: mdio_policy_t where "MDIO_POLICY_BLACKLIST \<equiv> 1"

record mdio_setting_entry_t =
  set_reg :: u8
  set_pad :: u8
  set_val :: u16

record mdio_rule_entry_t =
  mrule_reg :: u8
  mrule_val :: u16
  mrule_mask :: u16

record mdio_phy_config_t =
  mc_name :: cstr
  mc_file_name :: cstr
  mc_phy_addr :: u8
  mc_reg_count :: u8
  mc_policy :: mdio_policy_t
  mc_autopoll_enabled :: bool
  mc_autopoll_regs :: "u8 list"
  mc_autopoll_reg_delay_ms :: u32
  mc_autopoll_cycle_delay_ms :: u32
  mc_whitelist :: "mdio_rule_entry_t list"
  mc_blacklist :: "mdio_rule_entry_t list"
  mc_settings :: "mdio_setting_entry_t list"
  mc_settings_len :: nat
  mc_profile :: bvstk_profile_metadata_t

section \<open>Validation\<close>

definition safe_name :: "cstr \<Rightarrow> nat \<Rightarrow> bool \<Rightarrow> bool" where
  "safe_name s cap may_be_empty =
    (if s = [] \<and> \<not> may_be_empty then False
     else if list_ex (\<lambda>c. c > 127 \<or> (\<not> (lower_letter c \<or> upper_letter c \<or> digit c) \<and> c \<noteq> ch CHR ''_'' \<and>
         c \<noteq> ch CHR ''-'' \<and> c \<noteq> ch CHR ''.'')) (take cap s) then False
     else length s < cap \<and> \<not> strstr s (ascii ''..''))"

text \<open>The loops over the polled registers and the settings: each register in range and not seen
  before. \<open>seen\<close> holds the earlier ones.\<close>

fun distinct_regs :: "u8 \<Rightarrow> u8 list \<Rightarrow> u8 list \<Rightarrow> bvstk_status_t" where
  "distinct_regs reg_count seen [] = BVSTK_OK"
| "distinct_regs reg_count seen (r # rs) =
    (if r \<ge> reg_count then BVSTK_ERR_RANGE
     else if r \<in> set seen then BVSTK_ERR_MALFORMED
     else distinct_regs reg_count (seen @ [r]) rs)"

definition used_settings :: "mdio_phy_config_t \<Rightarrow> mdio_setting_entry_t list" where
  "used_settings c = take (mc_settings_len c) (mc_settings c)"

definition bvstk_mdio_config_validate :: "mdio_phy_config_t option \<Rightarrow> bvstk_status_t" where
  "bvstk_mdio_config_validate config =
    (case config of
       None \<Rightarrow> BVSTK_ERR_MALFORMED
     | Some c \<Rightarrow>
         if \<not> safe_name (mc_name c) MDIO_CFG_NAME_MAX False \<or>
            (mc_file_name c \<noteq> [] \<and> \<not> bvstk_device_profile_path_valid (Some (mc_file_name c))) \<or>
            mc_phy_addr c > 31 \<or> mc_reg_count c = 0 \<or> mc_reg_count c > 32 \<or>
            (mc_policy c \<noteq> MDIO_POLICY_WHITELIST \<and> mc_policy c \<noteq> MDIO_POLICY_BLACKLIST) \<or>
            length (mc_whitelist c) > MDIO_CFG_RULES_MAX \<or> length (mc_blacklist c) > MDIO_CFG_RULES_MAX \<or>
            mc_settings_len c > MDIO_CFG_SETTINGS_MAX \<or> length (mc_autopoll_regs c) > 32 \<or>
            mc_autopoll_reg_delay_ms c > 60000 \<or> mc_autopoll_cycle_delay_ms c > 600000
         then BVSTK_ERR_MALFORMED
         else if list_ex (\<lambda>r. mrule_reg r \<ge> mc_reg_count c) (mc_whitelist c) then BVSTK_ERR_RANGE
         else if list_ex (\<lambda>r. mrule_reg r \<ge> mc_reg_count c) (mc_blacklist c) then BVSTK_ERR_RANGE
         else (case distinct_regs (mc_reg_count c) [] (mc_autopoll_regs c) of
             BVSTK_OK \<Rightarrow> (case distinct_regs (mc_reg_count c) [] (map set_reg (used_settings c)) of
                 BVSTK_OK \<Rightarrow> bvstk_device_profile_metadata_validate (Some (mc_profile c)) (unat (mc_reg_count c))
               | st \<Rightarrow> st)
           | st \<Rightarrow> st))"

section \<open>Write policy\<close>

definition rule_matches :: "mdio_rule_entry_t \<Rightarrow> u8 \<Rightarrow> u16 \<Rightarrow> bool" where
  "rule_matches r reg value \<longleftrightarrow> mrule_reg r = reg \<and> value AND mrule_mask r = mrule_val r AND mrule_mask r"

definition bvstk_mdio_policy_allows :: "mdio_phy_config_t option \<Rightarrow> u8 \<Rightarrow> u16 \<Rightarrow> bool" where
  "bvstk_mdio_policy_allows config reg value =
    (case config of
       None \<Rightarrow> False
     | Some c \<Rightarrow>
         if reg \<ge> mc_reg_count c \<or> length (mc_whitelist c) > MDIO_CFG_RULES_MAX \<or>
            length (mc_blacklist c) > MDIO_CFG_RULES_MAX then False
         else if mc_policy c = MDIO_POLICY_WHITELIST then list_ex (\<lambda>r. rule_matches r reg value) (mc_whitelist c)
         else if mc_policy c = MDIO_POLICY_BLACKLIST then \<not> list_ex (\<lambda>r. rule_matches r reg value) (mc_blacklist c)
         else False)"

section \<open>What validation establishes\<close>

lemma distinct_regs_OK:
  "distinct_regs n seen rs = BVSTK_OK \<longleftrightarrow>
     (\<forall>r\<in>set rs. r < n) \<and> distinct rs \<and> set seen \<inter> set rs = {}"
  by (induction n seen rs rule: distinct_regs.induct) (auto simp: not_le)

definition mdio_config_wf :: "mdio_phy_config_t \<Rightarrow> bool" where
  "mdio_config_wf c \<longleftrightarrow> bvstk_mdio_config_validate (Some c) = BVSTK_OK"

lemma config_wf_bounds:
  assumes "mdio_config_wf c"
  shows "mc_phy_addr c \<le> 31" "unat (mc_reg_count c) \<le> 32" "mc_reg_count c \<noteq> 0" "mc_settings_len c \<le> 32"
    "length (mc_whitelist c) \<le> 64" "length (mc_blacklist c) \<le> 64"
    "\<forall>r\<in>set (mc_autopoll_regs c). r < mc_reg_count c" "length (mc_autopoll_regs c) \<le> 32"
    "\<forall>e\<in>set (used_settings c). set_reg e < mc_reg_count c"
    "mc_policy c = 0 \<or> mc_policy c = 1"
  using assms unfolding mdio_config_wf_def bvstk_mdio_config_validate_def
  by (auto simp: not_less distinct_regs_OK word_le_nat_alt split: if_splits bvstk_status_t.splits)

lemma config_wf_rules:
  assumes "mdio_config_wf c"
  shows "\<forall>r\<in>set (mc_whitelist c). mrule_reg r < mc_reg_count c" "\<forall>r\<in>set (mc_blacklist c). mrule_reg r < mc_reg_count c"
  using assms unfolding mdio_config_wf_def bvstk_mdio_config_validate_def
  by (auto simp: list_ex_iff not_le split: if_splits)

lemma config_wf_update_rules:
  assumes "mdio_config_wf c" "length ws \<le> 64" "length bs \<le> 64" "mode = 0 \<or> mode = 1"
    "\<forall>r\<in>set ws. mrule_reg r < mc_reg_count c" "\<forall>r\<in>set bs. mrule_reg r < mc_reg_count c"
  shows "mdio_config_wf (c \<lparr> mc_policy := mode, mc_whitelist := ws, mc_blacklist := bs \<rparr>)"
  using assms unfolding mdio_config_wf_def bvstk_mdio_config_validate_def
  by (auto simp: list_ex_iff not_le used_settings_def split: if_splits bvstk_status_t.splits)

lemma policy_allows_iff:
  assumes "mdio_config_wf c"
  shows "bvstk_mdio_policy_allows (Some c) reg value \<longleftrightarrow> reg < mc_reg_count c \<and>
    (if mc_policy c = 0 then \<exists>r\<in>set (mc_whitelist c). rule_matches r reg value
     else \<not> (\<exists>r\<in>set (mc_blacklist c). rule_matches r reg value))"
  using config_wf_bounds [OF assms] by (auto simp: bvstk_mdio_policy_allows_def list_ex_iff not_le)

end
