(* ===== verification/Mdio_Service.thy ===== *)
theory Mdio_Service
  imports Mdio_Config Event_Journal Cache_Sink Rule_List
begin

text \<open>
  The MDIO service of \<open>src/services/mdio/bvstk_mdio_service.c\<close>: device configurations, a register
  cache, write policy, presence probing and polling over a Clause 22 bus, and the mirror and
  mailboxes of the PL slave. Every call to the outside (mutex, bus or core driver, event sink,
  cache observer) is an action of a trace; the environment answers it, and the clock, as a function
  of the trace so far. Optional callbacks and a present core driver are flags. Each operation
  holds the service mutex, so operations do not interleave.
\<close>

section \<open>State and environment\<close>

datatype mdio_action =
    MLock
  | MUnlock
  | MRead u8 u8 u32
  | MWrite u8 u8 u16 bvstk_event_source_t u32
  | MTake u8 u8
  | MPublish u8 u8 u16
  | MPrepareSlave
  | MAckSlave
  | MEvent bvstk_event_t
  | MEntry nat nat u16 bool bool u64
  | MPresence nat u8
  | MConfigChanged nat mdio_phy_config_t

type_synonym mdio_trace = "mdio_action list"

record mdio_env =
  menv_now_ms :: "mdio_trace \<Rightarrow> u64"
  menv_lock :: "mdio_trace \<Rightarrow> bvstk_status_t"
  menv_read :: "mdio_trace \<Rightarrow> u8 \<Rightarrow> u8 \<Rightarrow> u32 \<Rightarrow> bvstk_status_t \<times> u16"
  menv_write :: "mdio_trace \<Rightarrow> u8 \<Rightarrow> u8 \<Rightarrow> u16 \<Rightarrow> u32 \<Rightarrow> bvstk_status_t"
  menv_take :: "mdio_trace \<Rightarrow> u8 \<Rightarrow> u8 \<Rightarrow> bvstk_status_t \<times> u16"
  menv_publish :: "mdio_trace \<Rightarrow> u8 \<Rightarrow> u8 \<Rightarrow> u16 \<Rightarrow> bvstk_status_t"
  menv_prepare :: "mdio_trace \<Rightarrow> bvstk_status_t"
  menv_ack :: "mdio_trace \<Rightarrow> bvstk_status_t"

record bvstk_mdio_bus_ops_t =
  bus_read :: bool
  bus_write :: bool
  bus_take_write :: bool
  bus_publish :: bool

record bvstk_mdio_device_info_t =
  mi_name :: cstr
  mi_phy_addr :: u8
  mi_reg_count :: u8
  mi_policy :: mdio_policy_t

record bvstk_mdio_cache_entry_t =
  mce_value :: u16
  mce_valid :: bool
  mce_seeded :: bool
  mce_updated_ms :: u64

record bvstk_mdio_policy_entry_t =
  mpe_mode :: mdio_policy_t
  mpe_whitelist :: "mdio_rule_entry_t list"
  mpe_blacklist :: "mdio_rule_entry_t list"

record bvstk_mdio_stats_t =
  st_reads :: u32
  st_writes :: u32
  st_denied :: u32
  st_errors :: u32
  st_observed :: u32
  st_unknown_phy :: u32
  st_last_phy :: u8
  st_last_reg :: u8
  st_last_source :: u8
  st_last_value :: u16
  st_last_status :: bvstk_status_t

text \<open>\<open>devices\<close> are the configurations in use, so \<open>device_count\<close> is their number; \<open>poll_device\<close>
  is a free-running 32-bit counter.\<close>

record bvstk_mdio_service_t =
  md_core :: bool
  md_bus :: bvstk_mdio_bus_ops_t
  md_events :: bool
  md_sink :: bvstk_cache_sink_t
  md_config_changed :: bool
  md_mutex_lock :: bool
  md_mutex_unlock :: bool
  md_devices :: "mdio_phy_config_t list"
  md_cache :: "bvstk_mdio_cache_entry_t list list"
  md_stats :: bvstk_mdio_stats_t
  md_poll_due :: "u64 list"
  md_probe_due :: "u64 list"
  md_poll_index :: "u8 list"
  md_online :: "bool list"
  md_scan_index :: nat
  md_poll_device :: u32
  md_initialized :: bool

type_synonym mdio_service = bvstk_mdio_service_t

definition zero_mdio_entry :: bvstk_mdio_cache_entry_t where
  "zero_mdio_entry = \<lparr> mce_value = 0, mce_valid = False, mce_seeded = False, mce_updated_ms = 0 \<rparr>"

definition zero_mdio_row :: "bvstk_mdio_cache_entry_t list" where
  "zero_mdio_row = replicate 32 zero_mdio_entry"

definition zero_mdio_stats :: bvstk_mdio_stats_t where
  "zero_mdio_stats = \<lparr> st_reads = 0, st_writes = 0, st_denied = 0, st_errors = 0, st_observed = 0,
     st_unknown_phy = 0, st_last_phy = 0, st_last_reg = 0, st_last_source = 0, st_last_value = 0,
     st_last_status = BVSTK_OK \<rparr>"

definition zero_mdio_service :: mdio_service where
  "zero_mdio_service = \<lparr> md_core = False,
     md_bus = \<lparr> bus_read = False, bus_write = False, bus_take_write = False, bus_publish = False \<rparr>,
     md_events = False, md_sink = no_sink, md_config_changed = False, md_mutex_lock = False, md_mutex_unlock = False,
     md_devices = [], md_cache = replicate MDIO_CFG_MAX_DEVICES zero_mdio_row, md_stats = zero_mdio_stats,
     md_poll_due = replicate MDIO_CFG_MAX_DEVICES 0, md_probe_due = replicate MDIO_CFG_MAX_DEVICES 0,
     md_poll_index = replicate MDIO_CFG_MAX_DEVICES 0, md_online = replicate MDIO_CFG_MAX_DEVICES False,
     md_scan_index = 0, md_poll_device = 0, md_initialized = False \<rparr>"

text \<open>The cache cell of a register, a store to it, and the counters.\<close>

definition mcell :: "mdio_service \<Rightarrow> nat \<Rightarrow> u8 \<Rightarrow> bvstk_mdio_cache_entry_t" where
  "mcell s d r = md_cache s ! d ! unat r"

definition set_mcell :: "mdio_service \<Rightarrow> nat \<Rightarrow> u8 \<Rightarrow> bvstk_mdio_cache_entry_t \<Rightarrow> mdio_service" where
  "set_mcell s d r e = s \<lparr> md_cache := (md_cache s)[d := (md_cache s ! d)[unat r := e]] \<rparr>"

definition upd_stats :: "(bvstk_mdio_stats_t \<Rightarrow> bvstk_mdio_stats_t) \<Rightarrow> mdio_service \<Rightarrow> mdio_service" where
  "upd_stats f s = s \<lparr> md_stats := f (md_stats s) \<rparr>"

abbreviation count_errors :: "mdio_service \<Rightarrow> mdio_service" where
  "count_errors s \<equiv> upd_stats (\<lambda>c. c \<lparr> st_errors := st_errors c + 1 \<rparr>) s"

section \<open>Helpers\<close>

definition mlock :: "mdio_env \<Rightarrow> mdio_service option \<Rightarrow> mdio_trace \<Rightarrow> bvstk_status_t \<times> mdio_trace" where
  "mlock env service t =
    (case service of
       None \<Rightarrow> (BVSTK_ERR_NOT_READY, t)
     | Some s \<Rightarrow> if \<not> md_initialized s then (BVSTK_ERR_NOT_READY, t)
         else if \<not> md_mutex_lock s then (BVSTK_OK, t)
         else (menv_lock env t, t @ [MLock]))"

definition munlock :: "mdio_service \<Rightarrow> mdio_trace \<Rightarrow> mdio_trace" where
  "munlock s t = (if md_mutex_unlock s then t @ [MUnlock] else t)"

definition check :: "mdio_service \<Rightarrow> nat \<Rightarrow> u8 \<Rightarrow> bvstk_status_t" where
  "check s d r =
    (if d \<ge> length (md_devices s) then BVSTK_ERR_NOT_FOUND
     else if r < mc_reg_count (md_devices s ! d) then BVSTK_OK else BVSTK_ERR_RANGE)"

fun find_phy_from :: "nat \<Rightarrow> mdio_phy_config_t list \<Rightarrow> u8 \<Rightarrow> nat" where
  "find_phy_from i [] phy = i"
| "find_phy_from i (c # cs) phy = (if mc_phy_addr c = phy then i else find_phy_from (i + 1) cs phy)"

definition find_phy :: "mdio_service \<Rightarrow> u8 \<Rightarrow> nat" where
  "find_phy s phy = find_phy_from 0 (md_devices s) phy"

definition publish :: "mdio_env \<Rightarrow> mdio_service \<Rightarrow> u8 \<Rightarrow> u8 \<Rightarrow> u16 \<Rightarrow> mdio_trace \<Rightarrow> bvstk_status_t \<times> mdio_trace" where
  "publish env s phy reg value t =
    (if bus_publish (md_bus s) \<or> md_core s then (menv_publish env t phy reg value, t @ [MPublish phy reg value])
     else (BVSTK_OK, t))"

definition mdio_emit_flags :: "mdio_env \<Rightarrow> mdio_service \<Rightarrow> u16 \<Rightarrow> bvstk_status_t \<Rightarrow> bvstk_event_source_t \<Rightarrow>
    u8 \<Rightarrow> u8 \<Rightarrow> u16 \<Rightarrow> u8 \<Rightarrow> mdio_trace \<Rightarrow> mdio_trace" where
  "mdio_emit_flags env s type st source phy reg value flags t =
    (if \<not> md_events s then t
     else t @ [MEvent \<lparr> ev_time_us = menv_now_ms env t * 1000, ev_type = type, ev_status = status_code st,
         ev_source = source_code source, ev_bus = BVSTK_EVENT_BUS_MDIO,
         ev_operation = (if type = BVSTK_EVENT_MASTER_READ then BVSTK_EVENT_OP_READ else BVSTK_EVENT_OP_WRITE),
         ev_flags = flags, ev_arg0 = ucast phy, ev_arg1 = ucast reg, ev_arg2 = ucast value \<rparr>])"

definition mdio_emit :: "mdio_env \<Rightarrow> mdio_service \<Rightarrow> u16 \<Rightarrow> bvstk_status_t \<Rightarrow> bvstk_event_source_t \<Rightarrow>
    u8 \<Rightarrow> u8 \<Rightarrow> u16 \<Rightarrow> mdio_trace \<Rightarrow> mdio_trace" where
  "mdio_emit env s type st source phy reg value t =
     mdio_emit_flags env s type st source phy reg value BVSTK_EVENT_FLAG_NONE t"

definition cache_changed :: "mdio_service \<Rightarrow> nat \<Rightarrow> u8 \<Rightarrow> mdio_trace \<Rightarrow> mdio_trace" where
  "cache_changed s d r t =
    (if sink_entry (md_sink s)
     then let e = mcell s d r in t @ [MEntry d (unat r) (mce_value e) (mce_valid e) (mce_seeded e) (mce_updated_ms e)]
     else t)"

definition presence_changed :: "mdio_service \<Rightarrow> nat \<Rightarrow> u8 \<Rightarrow> mdio_trace \<Rightarrow> mdio_trace" where
  "presence_changed s d p t = (if sink_presence (md_sink s) then t @ [MPresence d p] else t)"

definition telemetry_flags :: "mdio_service \<Rightarrow> nat \<Rightarrow> u16 \<Rightarrow> bvstk_status_t \<Rightarrow> u16 \<Rightarrow> bool \<Rightarrow> u8" where
  "telemetry_flags s d type st value probe =
    (if probe \<or> d \<ge> length (md_devices s) then BVSTK_EVENT_FLAG_TELEMETRY_UNCONFIRMED
     else if md_online s ! d then BVSTK_EVENT_FLAG_NONE
     else if type = BVSTK_EVENT_MASTER_READ \<and> st = BVSTK_OK \<and> value \<noteq> 0xFFFF then BVSTK_EVENT_FLAG_NONE
     else BVSTK_EVENT_FLAG_TELEMETRY_UNCONFIRMED)"

text \<open>The two loops of \<open>invalidate\<close>: notify the registers in use, then clear the 32 mirror cells.\<close>

fun notify_regs :: "nat \<Rightarrow> nat \<Rightarrow> mdio_service \<Rightarrow> nat \<Rightarrow> mdio_trace \<Rightarrow> mdio_trace" where
  "notify_regs 0 r s d t = t"
| "notify_regs (Suc n) r s d t = notify_regs n (r + 1) s d (cache_changed s d (of_nat r) t)"

fun clear_mirror :: "nat \<Rightarrow> nat \<Rightarrow> mdio_env \<Rightarrow> mdio_service \<Rightarrow> u8 \<Rightarrow> bvstk_status_t \<Rightarrow> mdio_trace \<Rightarrow> bvstk_status_t \<times> mdio_trace" where
  "clear_mirror 0 r env s phy result t = (result, t)"
| "clear_mirror (Suc n) r env s phy result t =
    (let (st, t1) = publish env s phy (of_nat r) 0xFFFF t
     in clear_mirror n (r + 1) env s phy (if st \<noteq> BVSTK_OK then BVSTK_ERR_IO else result) t1)"

definition invalidate :: "mdio_env \<Rightarrow> mdio_service \<Rightarrow> nat \<Rightarrow> mdio_trace \<Rightarrow> bvstk_status_t \<times> mdio_service \<times> mdio_trace" where
  "invalidate env s d t =
    (let s1 = s \<lparr> md_cache := (md_cache s)[d := zero_mdio_row], md_online := (md_online s)[d := False],
                  md_probe_due := (md_probe_due s)[d := 0] \<rparr>;
         t1 = notify_regs (unat (mc_reg_count (md_devices s1 ! d))) 0 s1 d t;
         t2 = presence_changed s1 d 2 t1;
         (result, t3) = clear_mirror 32 0 env s1 (mc_phy_addr (md_devices s1 ! d)) BVSTK_OK t2
     in (result, s1, t3))"

text \<open>The bus access: the installed callback or the core driver; neither means not ready.\<close>

definition mbus_read :: "mdio_env \<Rightarrow> mdio_service \<Rightarrow> u8 \<Rightarrow> u8 \<Rightarrow> u32 \<Rightarrow> mdio_trace \<Rightarrow> bvstk_status_t \<times> u16 \<times> mdio_trace" where
  "mbus_read env s phy r timeout t =
    (if bus_read (md_bus s) \<or> md_core s
     then let (st, v) = menv_read env t phy r timeout in (st, v, t @ [MRead phy r timeout])
     else (BVSTK_ERR_NOT_READY, 0, t))"

definition mbus_write :: "mdio_env \<Rightarrow> mdio_service \<Rightarrow> u8 \<Rightarrow> u8 \<Rightarrow> u16 \<Rightarrow> bvstk_event_source_t \<Rightarrow> u32 \<Rightarrow> mdio_trace \<Rightarrow>
    bvstk_status_t \<times> mdio_trace" where
  "mbus_write env s phy r v source timeout t =
    (if bus_write (md_bus s) \<or> md_core s
     then (menv_write env t phy r v timeout, t @ [MWrite phy r v source timeout])
     else (BVSTK_ERR_NOT_READY, t))"

text \<open>\<open>read_phy\<close> answers the value it read next to its status; after a failed bus read it is 0,
  what the only caller that looks at it then (the identity probe) has in its variable.\<close>

definition read_phy :: "mdio_env \<Rightarrow> mdio_service \<Rightarrow> nat \<Rightarrow> u8 \<Rightarrow> bvstk_event_source_t \<Rightarrow> u32 \<Rightarrow> bool \<Rightarrow> mdio_trace \<Rightarrow>
    bvstk_status_t \<times> u16 \<times> mdio_service \<times> mdio_trace" where
  "read_phy env s d r source timeout probe t =
    (let phy = mc_phy_addr (md_devices s ! d);
         (st, v, t1) = mbus_read env s phy r timeout t;
         shown = (if st = BVSTK_OK then v else 0);
         t2 = mdio_emit_flags env s BVSTK_EVENT_MASTER_READ st source phy r shown
           (telemetry_flags s d BVSTK_EVENT_MASTER_READ st shown probe) t1;
         s2 = upd_stats (\<lambda>c. c \<lparr> st_reads := st_reads c + 1 \<rparr>) s;
         (st3, s3, t3) =
           (if st = BVSTK_OK then
              let (pst, t') = publish env s2 phy r v t2 in
              (pst, (if pst = BVSTK_OK then set_mcell s2 d r \<lparr> mce_value = v, mce_valid = True, mce_seeded = False,
                       mce_updated_ms = menv_now_ms env t' \<rparr> else s2), t')
            else (st, s2, t2));
         (s4, t4) =
           (if st3 \<noteq> BVSTK_OK then
              let s' = set_mcell s3 d r ((mcell s3 d r) \<lparr> mce_valid := False \<rparr>);
                  (_, t') = publish env s' phy r 0xFFFF t3
              in (if \<not> probe then count_errors s' else s', t')
            else (s3, t3));
         t5 = (if \<not> probe then cache_changed s4 d r t4 else t4)
     in (st3, shown, s4, t5))"

definition write_phy :: "mdio_env \<Rightarrow> mdio_service \<Rightarrow> nat \<Rightarrow> u8 \<Rightarrow> u16 \<Rightarrow> bvstk_event_source_t \<Rightarrow> u32 \<Rightarrow> mdio_trace \<Rightarrow>
    bvstk_status_t \<times> mdio_service \<times> mdio_trace" where
  "write_phy env s d r v source timeout t =
    (let phy = mc_phy_addr (md_devices s ! d);
         was_online = md_online s ! d;
         s0 = upd_stats (\<lambda>c. c \<lparr> st_last_phy := phy, st_last_reg := r, st_last_value := v,
                st_last_source := source_code source \<rparr>) s;
         t0 = mdio_emit env s0 BVSTK_EVENT_REG_ATTEMPT BVSTK_OK source phy r v t;
         (st, s1, t1) =
           (if \<not> bvstk_mdio_policy_allows (Some (md_devices s0 ! d)) r v then
              let s' = upd_stats (\<lambda>c. c \<lparr> st_denied := st_denied c + 1 \<rparr>) s0
              in (BVSTK_ERR_DENIED, s', mdio_emit env s' BVSTK_EVENT_REG_DENIED BVSTK_ERR_DENIED source phy r v t0)
            else
              let (s2, t2) =
                    (if r = 0 \<and> v AND 0x8000 \<noteq> 0 then
                       let (_, s', t') = invalidate env s0 d t0 in (s', t')
                     else
                       let s' = set_mcell s0 d r ((mcell s0 d r) \<lparr> mce_valid := False \<rparr>);
                           (_, t') = publish env s' phy r 0xFFFF (cache_changed s' d r t0)
                       in (s', t'));
                  (wst, t3) = mbus_write env s2 phy r v source timeout t2;
                  t4 = mdio_emit_flags env s2 BVSTK_EVENT_MASTER_WRITE wst source phy r v
                    (if was_online then BVSTK_EVENT_FLAG_NONE else BVSTK_EVENT_FLAG_TELEMETRY_UNCONFIRMED) t3
              in if wst = BVSTK_OK then
                   let s5 = upd_stats (\<lambda>c. c \<lparr> st_writes := st_writes c + 1 \<rparr>) s2;
                       (_, _, s6, t6) = read_phy env s5 d r source timeout False t4;
                       s7 = s6 \<lparr> md_poll_due := (md_poll_due s6)[d := 0], md_poll_index := (md_poll_index s6)[d := 0] \<rparr>
                   in (wst, s7, mdio_emit env s7 BVSTK_EVENT_REG_COMMIT wst source phy r v t6)
                 else
                   let s5 = count_errors s2
                   in (wst, s5, mdio_emit env s5 BVSTK_EVENT_FAULT wst source phy r v t4))
     in (st, upd_stats (\<lambda>c. c \<lparr> st_last_status := st \<rparr>) s1, t1))"

text \<open>The seeding loop over the settings in use.\<close>

fun seed_loop :: "mdio_setting_entry_t list \<Rightarrow> mdio_env \<Rightarrow> mdio_service \<Rightarrow> nat \<Rightarrow> mdio_trace \<Rightarrow>
    bvstk_status_t \<times> mdio_service \<times> mdio_trace" where
  "seed_loop [] env s d t = (BVSTK_OK, s, t)"
| "seed_loop (v # vs) env s d t =
    (let (st, t1) = publish env s (mc_phy_addr (md_devices s ! d)) (set_reg v) (set_val v) t in
     if st \<noteq> BVSTK_OK then (BVSTK_ERR_IO, s, t1)
     else let s1 = set_mcell s d (set_reg v) \<lparr> mce_value = set_val v, mce_valid = True, mce_seeded = True,
                mce_updated_ms = menv_now_ms env t1 \<rparr>
          in seed_loop vs env s1 d (cache_changed s1 d (set_reg v) t1))"

definition seed :: "mdio_env \<Rightarrow> mdio_service \<Rightarrow> nat \<Rightarrow> mdio_trace \<Rightarrow> bvstk_status_t \<times> mdio_service \<times> mdio_trace" where
  "seed env s d t = seed_loop (used_settings (md_devices s ! d)) env s d t"

section \<open>Life cycle and queries\<close>

text \<open>The checks of \<open>bvstk_mdio_service_init\<close>: every configuration valid, with an address and a
  name that no earlier one has.\<close>

fun configs_ok :: "mdio_phy_config_t list \<Rightarrow> mdio_phy_config_t list \<Rightarrow> bool" where
  "configs_ok earlier [] = True"
| "configs_ok earlier (c # cs) =
    (if bvstk_mdio_config_validate (Some c) \<noteq> BVSTK_OK then False
     else if list_ex (\<lambda>e. mc_phy_addr c = mc_phy_addr e \<or> case_equal (mc_name c) (mc_name e)) earlier then False
     else configs_ok (earlier @ [c]) cs)"

fun seed_all :: "nat \<Rightarrow> nat \<Rightarrow> mdio_env \<Rightarrow> mdio_service \<Rightarrow> mdio_trace \<Rightarrow> bvstk_status_t \<times> mdio_service \<times> mdio_trace" where
  "seed_all 0 i env s t = (BVSTK_OK, s, t)"
| "seed_all (Suc n) i env s t =
    (let (st, s1, t1) = seed env s i t in
     if st \<noteq> BVSTK_OK then (BVSTK_ERR_IO, s1, t1) else seed_all n (i + 1) env s1 t1)"

definition bvstk_mdio_service_init :: "mdio_env \<Rightarrow> mdio_service option \<Rightarrow> bool \<Rightarrow> bvstk_mdio_bus_ops_t option \<Rightarrow>
    mdio_phy_config_t list option \<Rightarrow> nat \<Rightarrow> bool option \<Rightarrow> mdio_trace \<Rightarrow>
    bvstk_status_t \<times> mdio_service option \<times> mdio_trace" where
  "bvstk_mdio_service_init env service core bus devices count events t =
    (if service = None \<or> count > MDIO_CFG_MAX_DEVICES \<or> (count \<noteq> 0 \<and> devices = None) then (BVSTK_ERR_MALFORMED, service, t)
     else let configs = (case devices of None \<Rightarrow> [] | Some cs \<Rightarrow> take count cs) in
       if \<not> configs_ok [] configs then (BVSTK_ERR_MALFORMED, service, t)
       else let s0 = zero_mdio_service \<lparr> md_core := core,
                  md_bus := (case bus of None \<Rightarrow> md_bus zero_mdio_service | Some b \<Rightarrow> b),
                  md_events := (events = Some True), md_devices := configs \<rparr>;
                (pst, t0) = (if core then (menv_prepare env t, t @ [MPrepareSlave]) else (BVSTK_OK, t)) in
         if pst \<noteq> BVSTK_OK then (BVSTK_ERR_IO, Some s0, t0)
         else let (st, s1, t1) = seed_all (length configs) 0 env s0 t0 in
           if st \<noteq> BVSTK_OK then (BVSTK_ERR_IO, Some s1, t1)
           else (BVSTK_OK, Some (s1 \<lparr> md_initialized := True \<rparr>), t1))"

definition bvstk_mdio_service_shutdown :: "mdio_service option \<Rightarrow> mdio_service option" where
  "bvstk_mdio_service_shutdown service = map_option (\<lambda>_. zero_mdio_service) service"

definition bvstk_mdio_service_device_count :: "mdio_service option \<Rightarrow> nat" where
  "bvstk_mdio_service_device_count service =
    (case service of None \<Rightarrow> 0 | Some s \<Rightarrow> if md_initialized s then length (md_devices s) else 0)"

text \<open>The frame of the queries: lock, answer, unlock. A query never changes the service.\<close>

definition locked_query :: "mdio_env \<Rightarrow> mdio_service option \<Rightarrow> (mdio_service \<Rightarrow> bvstk_status_t \<times> 'a option) \<Rightarrow> mdio_trace \<Rightarrow>
    bvstk_status_t \<times> 'a option \<times> mdio_trace" where
  "locked_query env service f t =
    (case mlock env service t of
       (BVSTK_OK, t1) \<Rightarrow> let (st, x) = f (the service) in (st, x, munlock (the service) t1)
     | (st, t1) \<Rightarrow> (st, None, t1))"

text \<open>The common body: check the device, then the out pointer, then answer.\<close>

definition checked_out :: "mdio_service \<Rightarrow> nat \<Rightarrow> u8 \<Rightarrow> bool \<Rightarrow> 'a \<Rightarrow> bvstk_status_t \<times> 'a option" where
  "checked_out s d r out x =
    (let st = check s d r; st = (if \<not> out then BVSTK_ERR_MALFORMED else st)
     in (st, if st = BVSTK_OK then Some x else None))"

definition bvstk_mdio_service_get_config :: "mdio_env \<Rightarrow> mdio_service option \<Rightarrow> nat \<Rightarrow> bool \<Rightarrow> mdio_trace \<Rightarrow>
    bvstk_status_t \<times> mdio_phy_config_t option \<times> mdio_trace" where
  "bvstk_mdio_service_get_config env service d out t =
     locked_query env service (\<lambda>s. checked_out s d 0 out (md_devices s ! d)) t"

definition bvstk_mdio_service_device_info :: "mdio_env \<Rightarrow> mdio_service option \<Rightarrow> nat \<Rightarrow> bool \<Rightarrow> mdio_trace \<Rightarrow>
    bvstk_status_t \<times> bvstk_mdio_device_info_t option \<times> mdio_trace" where
  "bvstk_mdio_service_device_info env service d out t =
     locked_query env service (\<lambda>s. let c = md_devices s ! d in checked_out s d 0 out
       \<lparr> mi_name = mc_name c, mi_phy_addr = mc_phy_addr c, mi_reg_count = mc_reg_count c, mi_policy = mc_policy c \<rparr>) t"

fun find_name_from :: "nat \<Rightarrow> mdio_phy_config_t list \<Rightarrow> cstr \<Rightarrow> nat option" where
  "find_name_from i [] name = None"
| "find_name_from i (c # cs) name = (if case_equal name (mc_name c) then Some i else find_name_from (i + 1) cs name)"

definition bvstk_mdio_service_find_by_name :: "mdio_env \<Rightarrow> mdio_service option \<Rightarrow> cstr option \<Rightarrow> bool \<Rightarrow> mdio_trace \<Rightarrow>
    bvstk_status_t \<times> nat option \<times> mdio_trace" where
  "bvstk_mdio_service_find_by_name env service name out t =
     locked_query env service (\<lambda>s. case name of
         None \<Rightarrow> (BVSTK_ERR_MALFORMED, None)
       | Some n \<Rightarrow> if \<not> out then (BVSTK_ERR_MALFORMED, None)
           else (case find_name_from 0 (md_devices s) n of
               None \<Rightarrow> (BVSTK_ERR_NOT_FOUND, None) | Some i \<Rightarrow> (BVSTK_OK, Some i))) t"

text \<open>On a miss the code still stores the device count through the out pointer.\<close>

definition bvstk_mdio_service_find_by_phy :: "mdio_env \<Rightarrow> mdio_service option \<Rightarrow> u8 \<Rightarrow> bool \<Rightarrow> mdio_trace \<Rightarrow>
    bvstk_status_t \<times> nat option \<times> mdio_trace" where
  "bvstk_mdio_service_find_by_phy env service phy out t =
     locked_query env service (\<lambda>s. if \<not> out \<or> phy > 31 then (BVSTK_ERR_RANGE, None)
       else let d = find_phy s phy in (if d < length (md_devices s) then BVSTK_OK else BVSTK_ERR_NOT_FOUND, Some d)) t"

definition bvstk_mdio_service_cache_entry :: "mdio_env \<Rightarrow> mdio_service option \<Rightarrow> nat \<Rightarrow> u8 \<Rightarrow> bool \<Rightarrow> mdio_trace \<Rightarrow>
    bvstk_status_t \<times> bvstk_mdio_cache_entry_t option \<times> mdio_trace" where
  "bvstk_mdio_service_cache_entry env service d r out t =
     locked_query env service (\<lambda>s. checked_out s d r out (mcell s d r)) t"

definition bvstk_mdio_service_read_cached :: "mdio_env \<Rightarrow> mdio_service option \<Rightarrow> nat \<Rightarrow> u8 \<Rightarrow> bool \<Rightarrow> mdio_trace \<Rightarrow>
    bvstk_status_t \<times> u16 option \<times> mdio_trace" where
  "bvstk_mdio_service_read_cached env service d r out t =
    (if \<not> out then (BVSTK_ERR_MALFORMED, None, t)
     else (case bvstk_mdio_service_cache_entry env service d r True t of
         (BVSTK_OK, Some e, t1) \<Rightarrow> if \<not> mce_valid e then (BVSTK_ERR_NOT_READY, None, t1) else (BVSTK_OK, Some (mce_value e), t1)
       | (st, _, t1) \<Rightarrow> (st, None, t1)))"

definition bvstk_mdio_service_get_policy :: "mdio_env \<Rightarrow> mdio_service option \<Rightarrow> nat \<Rightarrow> bool \<Rightarrow> mdio_trace \<Rightarrow>
    bvstk_status_t \<times> bvstk_mdio_policy_entry_t option \<times> mdio_trace" where
  "bvstk_mdio_service_get_policy env service d out t =
     locked_query env service (\<lambda>s. let c = md_devices s ! d in checked_out s d 0 out
       \<lparr> mpe_mode = mc_policy c, mpe_whitelist = mc_whitelist c, mpe_blacklist = mc_blacklist c \<rparr>) t"

definition bvstk_mdio_service_stats :: "mdio_env \<Rightarrow> mdio_service option \<Rightarrow> bool \<Rightarrow> mdio_trace \<Rightarrow>
    bvstk_status_t \<times> bvstk_mdio_stats_t option \<times> mdio_trace" where
  "bvstk_mdio_service_stats env service out t =
     locked_query env service (\<lambda>s. if \<not> out then (BVSTK_ERR_MALFORMED, None) else (BVSTK_OK, Some (md_stats s))) t"

section \<open>Operations\<close>

text \<open>The frame of the operations that change the service, which is never null from here on: a null
  service is refused by \<open>mlock\<close> before anything else.\<close>

definition locked :: "mdio_env \<Rightarrow> mdio_service \<Rightarrow> 'a \<Rightarrow> (mdio_trace \<Rightarrow> bvstk_status_t \<times> 'a \<times> mdio_service \<times> mdio_trace) \<Rightarrow>
    mdio_trace \<Rightarrow> bvstk_status_t \<times> 'a \<times> mdio_service \<times> mdio_trace" where
  "locked env s none f t =
    (case mlock env (Some s) t of
       (BVSTK_OK, t1) \<Rightarrow> let (st, x, s', t') = f t1 in (st, x, s', munlock s' t')
     | (st, t1) \<Rightarrow> (st, none, s, t1))"

text \<open>An operation that answers only a status.\<close>

definition locked_op :: "mdio_env \<Rightarrow> mdio_service \<Rightarrow> (mdio_trace \<Rightarrow> bvstk_status_t \<times> mdio_service \<times> mdio_trace) \<Rightarrow>
    mdio_trace \<Rightarrow> bvstk_status_t \<times> mdio_service \<times> mdio_trace" where
  "locked_op env s f t = (case locked env s () (\<lambda>t. case f t of (st, s', t') \<Rightarrow> (st, (), s', t')) t of
     (st, _, s', t') \<Rightarrow> (st, s', t'))"

text \<open>The value is answered with \<open>BVSTK_OK\<close> only; after an error the caller's variable is not meaningful.\<close>

definition bvstk_mdio_service_read_from :: "mdio_env \<Rightarrow> mdio_service \<Rightarrow> nat \<Rightarrow> u8 \<Rightarrow> bool \<Rightarrow> bvstk_event_source_t \<Rightarrow> u32 \<Rightarrow>
    mdio_trace \<Rightarrow> bvstk_status_t \<times> u16 option \<times> mdio_service \<times> mdio_trace" where
  "bvstk_mdio_service_read_from env s d r out source timeout t =
     locked env s None (\<lambda>t. let st = check s d r; st = (if \<not> out then BVSTK_ERR_MALFORMED else st) in
       if st = BVSTK_OK then
         let (st', v, s', t') = read_phy env s d r source timeout False t in (st', if st' = BVSTK_OK then Some v else None, s', t')
       else (st, None, s, t)) t"

definition bvstk_mdio_service_read :: "mdio_env \<Rightarrow> mdio_service \<Rightarrow> nat \<Rightarrow> u8 \<Rightarrow> bool \<Rightarrow> u32 \<Rightarrow>
    mdio_trace \<Rightarrow> bvstk_status_t \<times> u16 option \<times> mdio_service \<times> mdio_trace" where
  "bvstk_mdio_service_read env s d r out timeout t =
     bvstk_mdio_service_read_from env s d r out BVSTK_EVENT_SOURCE_INTERNAL timeout t"

definition bvstk_mdio_service_invalidate :: "mdio_env \<Rightarrow> mdio_service \<Rightarrow> nat \<Rightarrow> mdio_trace \<Rightarrow>
    bvstk_status_t \<times> mdio_service \<times> mdio_trace" where
  "bvstk_mdio_service_invalidate env s d t =
     locked_op env s (\<lambda>t. case check s d 0 of BVSTK_OK \<Rightarrow> invalidate env s d t | st \<Rightarrow> (st, s, t)) t"

definition bvstk_mdio_service_write :: "mdio_env \<Rightarrow> mdio_service \<Rightarrow> nat \<Rightarrow> u8 \<Rightarrow> u16 \<Rightarrow> bvstk_event_source_t \<Rightarrow> u32 \<Rightarrow>
    mdio_trace \<Rightarrow> bvstk_status_t \<times> mdio_service \<times> mdio_trace" where
  "bvstk_mdio_service_write env s d r v source timeout t =
     locked_op env s (\<lambda>t. case check s d r of BVSTK_OK \<Rightarrow> write_phy env s d r v source timeout t | st \<Rightarrow> (st, s, t)) t"

definition set_device :: "mdio_service \<Rightarrow> nat \<Rightarrow> mdio_phy_config_t \<Rightarrow> mdio_service" where
  "set_device s d c = s \<lparr> md_devices := (md_devices s)[d := c] \<rparr>"

definition bvstk_mdio_service_set_policy :: "mdio_env \<Rightarrow> mdio_service \<Rightarrow> nat \<Rightarrow> mdio_policy_t \<Rightarrow> mdio_trace \<Rightarrow>
    bvstk_status_t \<times> mdio_service \<times> mdio_trace" where
  "bvstk_mdio_service_set_policy env s d policy t =
     locked_op env s (\<lambda>t. let st = check s d 0;
         st = (if policy \<noteq> MDIO_POLICY_WHITELIST \<and> policy \<noteq> MDIO_POLICY_BLACKLIST then BVSTK_ERR_MALFORMED else st)
       in (st, if st = BVSTK_OK then set_device s d ((md_devices s ! d) \<lparr> mc_policy := policy \<rparr>) else s, t)) t"

subsection \<open>Rules\<close>

text \<open>\<open>policy_list\<close> selects a rule list: what it reads and how the list is stored back.\<close>

definition get_list :: "mdio_policy_t \<Rightarrow> mdio_phy_config_t \<Rightarrow> mdio_rule_entry_t list" where
  "get_list list c = (if list = MDIO_POLICY_WHITELIST then mc_whitelist c else mc_blacklist c)"

definition put_list :: "mdio_policy_t \<Rightarrow> mdio_rule_entry_t list \<Rightarrow> mdio_phy_config_t \<Rightarrow> mdio_phy_config_t" where
  "put_list list rules c = (if list = MDIO_POLICY_WHITELIST then c \<lparr> mc_whitelist := rules \<rparr> else c \<lparr> mc_blacklist := rules \<rparr>)"

definition policy_list :: "mdio_service \<Rightarrow> nat \<Rightarrow> mdio_policy_t \<Rightarrow> bvstk_status_t \<times> mdio_rule_entry_t list" where
  "policy_list s d list =
    (case check s d 0 of
       BVSTK_OK \<Rightarrow> if list = MDIO_POLICY_WHITELIST \<or> list = MDIO_POLICY_BLACKLIST
         then (BVSTK_OK, get_list list (md_devices s ! d)) else (BVSTK_ERR_MALFORMED, [])
     | st \<Rightarrow> (st, []))"

definition policy_rule_equal :: "mdio_rule_entry_t \<Rightarrow> u8 \<Rightarrow> u16 \<Rightarrow> u16 \<Rightarrow> bool" where
  "policy_rule_equal rule reg value msk \<longleftrightarrow> mrule_reg rule = reg \<and> mrule_mask rule = msk \<and>
     mrule_val rule AND msk = value AND msk"

text \<open>The search and append of \<open>rule_add\<close>, and the compaction of \<open>rule_remove\<close>.\<close>

definition rule_add_list :: "mdio_rule_entry_t list \<Rightarrow> u8 \<Rightarrow> u16 \<Rightarrow> u16 \<Rightarrow> bvstk_status_t \<times> mdio_rule_entry_t list" where
  "rule_add_list rules reg value msk =
    (if list_ex (\<lambda>r. policy_rule_equal r reg value msk) rules then (BVSTK_OK, rules)
     else if length rules \<ge> MDIO_CFG_RULES_MAX then (BVSTK_ERR_RANGE, rules)
     else (BVSTK_OK, rules @ [\<lparr> mrule_reg = reg, mrule_val = value AND msk, mrule_mask = msk \<rparr>]))"

fun rule_compact :: "mdio_rule_entry_t list \<Rightarrow> mdio_rule_entry_t list \<Rightarrow> u8 \<Rightarrow> u16 \<Rightarrow> u16 \<Rightarrow> mdio_rule_entry_t list" where
  "rule_compact kept [] reg value msk = kept"
| "rule_compact kept (r # rs) reg value msk =
    (if \<not> policy_rule_equal r reg value msk then rule_compact (kept @ [r]) rs reg value msk
     else rule_compact kept rs reg value msk)"

definition bvstk_mdio_service_rule_add :: "mdio_env \<Rightarrow> mdio_service \<Rightarrow> nat \<Rightarrow> mdio_policy_t \<Rightarrow> u8 \<Rightarrow> u16 \<Rightarrow> u16 \<Rightarrow> mdio_trace \<Rightarrow>
    bvstk_status_t \<times> mdio_service \<times> mdio_trace" where
  "bvstk_mdio_service_rule_add env s d list reg value msk t =
     locked_op env s (\<lambda>t. case policy_list s d list of
         (BVSTK_OK, rules) \<Rightarrow> (case check s d reg of
             BVSTK_OK \<Rightarrow> let (st, rules') = rule_add_list rules reg value msk
               in (st, set_device s d (put_list list rules' (md_devices s ! d)), t)
           | st \<Rightarrow> (st, s, t))
       | (st, _) \<Rightarrow> (st, s, t)) t"

definition bvstk_mdio_service_rule_remove :: "mdio_env \<Rightarrow> mdio_service \<Rightarrow> nat \<Rightarrow> mdio_policy_t \<Rightarrow> u8 \<Rightarrow> u16 \<Rightarrow> u16 \<Rightarrow> mdio_trace \<Rightarrow>
    bvstk_status_t \<times> mdio_service \<times> mdio_trace" where
  "bvstk_mdio_service_rule_remove env s d list reg value msk t =
     locked_op env s (\<lambda>t. case policy_list s d list of
         (BVSTK_OK, rules) \<Rightarrow> (case check s d reg of
             BVSTK_OK \<Rightarrow>
               if \<not> list_ex (\<lambda>r. policy_rule_equal r reg value msk) rules then (BVSTK_ERR_NOT_FOUND, s, t)
               else (BVSTK_OK, set_device s d (put_list list (rule_compact [] rules reg value msk) (md_devices s ! d)), t)
           | st \<Rightarrow> (st, s, t))
       | (st, _) \<Rightarrow> (st, s, t)) t"

definition bvstk_mdio_service_rule_clear_list :: "mdio_env \<Rightarrow> mdio_service \<Rightarrow> nat \<Rightarrow> mdio_policy_t \<Rightarrow> mdio_trace \<Rightarrow>
    bvstk_status_t \<times> mdio_service \<times> mdio_trace" where
  "bvstk_mdio_service_rule_clear_list env s d list t =
     locked_op env s (\<lambda>t. case policy_list s d list of
         (BVSTK_OK, rules) \<Rightarrow> (BVSTK_OK, set_device s d (put_list list [] (md_devices s ! d)), t)
       | (st, _) \<Rightarrow> (st, s, t)) t"

subsection \<open>Configuration\<close>

definition mdio_set_config_locked :: "mdio_env \<Rightarrow> mdio_service \<Rightarrow> nat \<Rightarrow> mdio_phy_config_t \<Rightarrow> mdio_trace \<Rightarrow>
    bvstk_status_t \<times> mdio_service \<times> mdio_trace" where
  "mdio_set_config_locked env s d c t =
    (let old = md_devices s ! d;
         changed = (mc_phy_addr c \<noteq> mc_phy_addr old \<or> mc_reg_count c \<noteq> mc_reg_count old \<or>
           mc_settings_len c \<noteq> mc_settings_len old \<or> mc_settings c \<noteq> mc_settings old);
         (st, s1, t1) = (if changed then invalidate env s d t else (BVSTK_OK, s, t)) in
     if st \<noteq> BVSTK_OK then (st, s1, t1)
     else let s2 = set_device s1 d c;
              t2 = (if md_config_changed s2 then t1 @ [MConfigChanged d c] else t1);
              s3 = s2 \<lparr> md_poll_due := (md_poll_due s2)[d := 0], md_poll_index := (md_poll_index s2)[d := 0] \<rparr>
          in if changed then
               let (st4, s4, t4) = invalidate env s3 d t2 in
               if st4 = BVSTK_OK then seed env s4 d t4 else (st4, s4, t4)
             else (BVSTK_OK, s3, t2))"

definition bvstk_mdio_service_set_config :: "mdio_env \<Rightarrow> mdio_service \<Rightarrow> nat \<Rightarrow> mdio_phy_config_t option \<Rightarrow> mdio_trace \<Rightarrow>
    bvstk_status_t \<times> mdio_service \<times> mdio_trace" where
  "bvstk_mdio_service_set_config env s d config t =
    (case bvstk_mdio_config_validate config of
       BVSTK_OK \<Rightarrow> locked_op env s (\<lambda>t.
         let c = the config;
             st = check s d 0;
             st = (if st = BVSTK_OK \<and> (mc_name c \<noteq> mc_name (md_devices s ! d) \<or>
                     mc_file_name c \<noteq> mc_file_name (md_devices s ! d)) then BVSTK_ERR_DENIED else st);
             st = (if list_ex (\<lambda>i. i \<noteq> d \<and> mc_phy_addr c = mc_phy_addr (md_devices s ! i)) [0..<length (md_devices s)]
                   then BVSTK_ERR_DENIED else st)
         in if st = BVSTK_OK then mdio_set_config_locked env s d c t else (st, s, t)) t
     | st \<Rightarrow> (st, s, t))"

subsection \<open>The worker step\<close>

text \<open>The mailbox scan: at most 1024 mailboxes and four captured writes; a failing mailbox ends it.\<close>

fun scan_mailboxes :: "nat \<Rightarrow> nat \<Rightarrow> mdio_env \<Rightarrow> u32 \<Rightarrow> bvstk_status_t \<Rightarrow> mdio_service \<Rightarrow> mdio_trace \<Rightarrow>
    bvstk_status_t \<times> mdio_service \<times> mdio_trace" where
  "scan_mailboxes 0 taken env timeout result s t = (result, s, t)"
| "scan_mailboxes (Suc n) taken env timeout result s t =
    (if \<not> taken < 4 then (result, s, t)
     else
       let phy = of_nat (md_scan_index s div 32); reg = of_nat (md_scan_index s mod 32);
           s1 = s \<lparr> md_scan_index := (md_scan_index s + 1) mod 1024 \<rparr>;
           (st, v) = menv_take env t phy reg;
           t1 = t @ [MTake phy reg] in
       if st = BVSTK_ERR_NOT_FOUND then scan_mailboxes n taken env timeout result s1 t1
       else if st \<noteq> BVSTK_OK then (st, count_errors s1, t1)
       else
         let s2 = upd_stats (\<lambda>c. c \<lparr> st_observed := st_observed c + 1 \<rparr>) s1;
             d = find_phy s2 phy;
             t2 = mdio_emit_flags env s2 BVSTK_EVENT_CAPTURE_WRITE BVSTK_OK BVSTK_EVENT_SOURCE_HOST phy reg v
               (if d < length (md_devices s2) \<and> md_online s2 ! d then BVSTK_EVENT_FLAG_NONE
                else BVSTK_EVENT_FLAG_TELEMETRY_UNCONFIRMED) t1 in
         if d = length (md_devices s2) then
           let s3 = upd_stats (\<lambda>c. c \<lparr> st_unknown_phy := st_unknown_phy c + 1, st_denied := st_denied c + 1 \<rparr>) s2;
               t3 = mdio_emit env s3 BVSTK_EVENT_REG_ATTEMPT BVSTK_OK BVSTK_EVENT_SOURCE_HOST phy reg v t2;
               t4 = mdio_emit env s3 BVSTK_EVENT_REG_DENIED BVSTK_ERR_NOT_FOUND BVSTK_EVENT_SOURCE_HOST phy reg v t3
           in scan_mailboxes n (taken + 1) env timeout result s3 t4
         else
           let (wst, s3, t3) = write_phy env s2 d reg v BVSTK_EVENT_SOURCE_HOST timeout t2
           in scan_mailboxes n (taken + 1) env timeout
                (if wst \<noteq> BVSTK_OK \<and> wst \<noteq> BVSTK_ERR_DENIED then wst else result) s3 t3)"

text \<open>A due identity probe of a device: registers 2 and 3 must be driven and not both zero.\<close>

definition probe_device :: "mdio_env \<Rightarrow> mdio_service \<Rightarrow> nat \<Rightarrow> u64 \<Rightarrow> u32 \<Rightarrow> bvstk_status_t \<Rightarrow> mdio_trace \<Rightarrow>
    bvstk_status_t \<times> mdio_service \<times> mdio_trace" where
  "probe_device env s d now timeout result t =
    (let (st1, id1, s1, t1) = read_phy env s d 2 BVSTK_EVENT_SOURCE_INTERNAL timeout True t;
         (st, id2, s2, t2) = (if st1 = BVSTK_OK then read_phy env s1 d 3 BVSTK_EVENT_SOURCE_INTERNAL timeout True t1
            else (st1, 0, s1, t1));
         (result', s3, t3) =
           (if st = BVSTK_OK \<and> id1 \<noteq> 0xFFFF \<and> id2 \<noteq> 0xFFFF \<and> (id1 \<noteq> 0 \<or> id2 \<noteq> 0) then
              let t' = cache_changed s2 d 3 (cache_changed s2 d 2 t2);
                  s' = (if \<not> md_online s2 ! d then s2 \<lparr> md_poll_due := (md_poll_due s2)[d := 0] \<rparr> else s2)
                    \<lparr> md_online := (md_online s2)[d := True] \<rparr>
              in (result, s', presence_changed s' d 1 t')
            else
              let (_, s', t') = invalidate env s2 d t2
              in (if st = BVSTK_OK then BVSTK_ERR_NOT_READY else st, s', t'))
     in (result', s3 \<lparr> md_probe_due := (md_probe_due s3)[d := now + 1000] \<rparr>, t3))"

text \<open>One register of the poll list.\<close>

definition poll_register :: "mdio_env \<Rightarrow> mdio_service \<Rightarrow> nat \<Rightarrow> u64 \<Rightarrow> u32 \<Rightarrow> bvstk_status_t \<Rightarrow> mdio_trace \<Rightarrow>
    bvstk_status_t \<times> mdio_service \<times> mdio_trace" where
  "poll_register env s d now timeout result t =
    (let c = md_devices s ! d;
         (st, v, s1, t1) = read_phy env s d (mc_autopoll_regs c ! unat (md_poll_index s ! d))
            BVSTK_EVENT_SOURCE_INTERNAL timeout False t;
         (result', s2, t2) =
           (if st \<noteq> BVSTK_OK then
              let (_, s', t') = invalidate env s1 d t1
              in (st, s' \<lparr> md_probe_due := (md_probe_due s')[d := now + 1000] \<rparr>, t')
            else (result, s1, t1));
         next = md_poll_index s2 ! d + 1;
         s3 = (if unat next \<ge> length (mc_autopoll_regs c) then
                 s2 \<lparr> md_poll_index := (md_poll_index s2)[d := 0], md_poll_due := (md_poll_due s2)[d := now +
                   (if mc_autopoll_cycle_delay_ms c \<noteq> 0 then ucast (mc_autopoll_cycle_delay_ms c) else 1)] \<rparr>
               else s2 \<lparr> md_poll_index := (md_poll_index s2)[d := next],
                 md_poll_due := (md_poll_due s2)[d := now + ucast (mc_autopoll_reg_delay_ms c)] \<rparr>)
     in (result', s3, t2))"

text \<open>The round over the devices: the first that is due for a probe or a poll is served.\<close>

fun poll_devices :: "nat \<Rightarrow> mdio_env \<Rightarrow> u64 \<Rightarrow> u32 \<Rightarrow> bvstk_status_t \<Rightarrow> mdio_service \<Rightarrow> mdio_trace \<Rightarrow>
    bvstk_status_t \<times> mdio_service \<times> mdio_trace" where
  "poll_devices 0 env now timeout result s t = (result, s, t)"
| "poll_devices (Suc n) env now timeout result s t =
    (let d = unat (md_poll_device s) mod length (md_devices s);
         s1 = s \<lparr> md_poll_device := md_poll_device s + 1 \<rparr>;
         c = md_devices s ! d in
     if now \<ge> md_probe_due s1 ! d \<and> mc_reg_count c \<ge> 4 then probe_device env s1 d now timeout result t
     else if \<not> mc_autopoll_enabled c \<or> mc_autopoll_regs c = [] \<or> now < md_poll_due s1 ! d
     then poll_devices n env now timeout result s1 t
     else if mc_reg_count c \<ge> 4 \<and> \<not> md_online s1 ! d then poll_devices n env now timeout result s1 t
     else poll_register env s1 d now timeout result t)"

definition step_locked :: "mdio_env \<Rightarrow> mdio_service \<Rightarrow> u64 \<Rightarrow> u32 \<Rightarrow> mdio_trace \<Rightarrow> bvstk_status_t \<times> mdio_service \<times> mdio_trace" where
  "step_locked env s now timeout t =
    (let (r1, s1, t1) = (if md_core s \<or> bus_take_write (md_bus s)
            then scan_mailboxes 1024 0 env timeout BVSTK_OK s t else (BVSTK_OK, s, t));
         (r2, s2, t2) = (if md_core s1 then
              let t' = t1 @ [MAckSlave] in
              (if menv_ack env t1 \<noteq> BVSTK_OK then (BVSTK_ERR_IO, count_errors s1, t') else (r1, s1, t'))
            else (r1, s1, t1))
     in poll_devices (length (md_devices s2)) env now timeout r2 s2 t2)"

definition bvstk_mdio_service_step :: "mdio_env \<Rightarrow> mdio_service \<Rightarrow> u64 \<Rightarrow> u32 \<Rightarrow> mdio_trace \<Rightarrow>
    bvstk_status_t \<times> mdio_service \<times> mdio_trace" where
  "bvstk_mdio_service_step env s now timeout t = locked_op env s (step_locked env s now timeout) t"

definition bvstk_mdio_service_poll :: "mdio_env \<Rightarrow> mdio_service \<Rightarrow> u32 \<Rightarrow> mdio_trace \<Rightarrow>
    bvstk_status_t \<times> mdio_service \<times> mdio_trace" where
  "bvstk_mdio_service_poll env s timeout t = bvstk_mdio_service_step env s (menv_now_ms env t) timeout t"

end
