(* ===== verification/Mdio_Invariant.thy ===== *)
theory Mdio_Invariant
  imports Mdio_Service
begin

text \<open>
  The invariant of the MDIO service: its tables are well-formed, its configurations valid with
  distinct addresses, and every valid cached value is what the mirror of the PL slave shows. All
  operations keep it.
\<close>

section \<open>The mirror of the PL slave\<close>

text \<open>What a cell of the slave mirror holds after a trace, newest action first: the value of the
  last publication when it succeeded, unknown otherwise.\<close>

fun mirror_rev :: "mdio_env \<Rightarrow> mdio_trace \<Rightarrow> u8 \<Rightarrow> u8 \<Rightarrow> u16 option" where
  "mirror_rev env [] phy reg = None"
| "mirror_rev env (a # t) phy reg =
    (case a of
       MPublish p r v \<Rightarrow> if p = phy \<and> r = reg then (if menv_publish env (rev t) p r v = BVSTK_OK then Some v else None)
         else mirror_rev env t phy reg
     | _ \<Rightarrow> mirror_rev env t phy reg)"

definition mirror :: "mdio_env \<Rightarrow> mdio_trace \<Rightarrow> u8 \<Rightarrow> u8 \<Rightarrow> u16 option" where
  "mirror env t = mirror_rev env (rev t)"

fun is_publish :: "mdio_action \<Rightarrow> bool" where
  "is_publish (MPublish p r v) = True"
| "is_publish _ = False"

lemma mirror_skip [simp]: "\<not> is_publish a \<Longrightarrow> mirror env (t @ [a]) = mirror env t"
  by (cases a) (auto simp: mirror_def fun_eq_iff)

lemma mirror_publish:
  "mirror env (t @ [MPublish p r v]) phy reg =
    (if p = phy \<and> r = reg then (if menv_publish env t p r v = BVSTK_OK then Some v else None) else mirror env t phy reg)"
  by (simp add: mirror_def)

lemma mirror_emit [simp]:
  "mirror env (mdio_emit_flags env' s ty st src p r v fl t) = mirror env t"
  "mirror env (mdio_emit env' s ty st src p r v t) = mirror env t"
  by (simp_all add: mdio_emit_def mdio_emit_flags_def)

lemma mirror_notify [simp]:
  "mirror env (cache_changed s d r t) = mirror env t"
  "mirror env (presence_changed s d p t) = mirror env t"
  by (simp_all add: cache_changed_def presence_changed_def Let_def)

lemma mirror_notify_regs [simp]: "mirror env (notify_regs n r s d t) = mirror env t"
  by (induction n r s d t rule: notify_regs.induct) simp_all

lemma mirror_munlock [simp]: "mirror env (munlock s t) = mirror env t"
  by (simp add: munlock_def)

section \<open>Well-formed services\<close>

definition can_publish :: "mdio_service \<Rightarrow> bool" where
  "can_publish s \<longleftrightarrow> bus_publish (md_bus s) \<or> md_core s"

text \<open>The poll position lies inside the poll list of the device.\<close>

definition poll_ok :: "mdio_service \<Rightarrow> nat \<Rightarrow> bool" where
  "poll_ok s d \<longleftrightarrow> md_poll_index s ! d = 0 \<or> unat (md_poll_index s ! d) < length (mc_autopoll_regs (md_devices s ! d))"

definition mdio_wf :: "mdio_service \<Rightarrow> bool" where
  "mdio_wf s \<longleftrightarrow> length (md_devices s) \<le> 8 \<and> (\<forall>c\<in>set (md_devices s). mdio_config_wf c) \<and>
     distinct (map mc_phy_addr (md_devices s)) \<and>
     length (md_cache s) = 8 \<and> (\<forall>row\<in>set (md_cache s). length row = 32) \<and>
     length (md_poll_due s) = 8 \<and> length (md_probe_due s) = 8 \<and> length (md_poll_index s) = 8 \<and> length (md_online s) = 8 \<and>
     (\<forall>d < length (md_devices s). poll_ok s d) \<and> md_scan_index s < 1024"

text \<open>Every valid cached value is what the mirror shows.\<close>

definition mirrored :: "mdio_env \<Rightarrow> mdio_service \<Rightarrow> mdio_trace \<Rightarrow> bool" where
  "mirrored env s t \<longleftrightarrow> (can_publish s \<longrightarrow> (\<forall>d < length (md_devices s). \<forall>r::u8. r < 32 \<longrightarrow> mce_valid (mcell s d r) \<longrightarrow>
     mirror env t (mc_phy_addr (md_devices s ! d)) r = Some (mce_value (mcell s d r))))"

definition minv :: "mdio_env \<Rightarrow> mdio_service \<Rightarrow> mdio_trace \<Rightarrow> bool" where
  "minv env s t \<longleftrightarrow> mdio_wf s \<and> mirrored env s t"

text \<open>The parts of the service an operation on a register leaves alone.\<close>

definition same_config :: "mdio_service \<Rightarrow> mdio_service \<Rightarrow> bool" where
  "same_config s s' \<longleftrightarrow> md_devices s' = md_devices s \<and> md_core s' = md_core s \<and> md_bus s' = md_bus s \<and>
     md_events s' = md_events s \<and> md_sink s' = md_sink s \<and> md_config_changed s' = md_config_changed s \<and>
     md_mutex_lock s' = md_mutex_lock s \<and> md_mutex_unlock s' = md_mutex_unlock s \<and> md_initialized s' = md_initialized s"

lemma same_config_refl [simp]: "same_config s s"
  by (simp add: same_config_def)

lemma same_config_trans: "same_config s s' \<Longrightarrow> same_config s' s'' \<Longrightarrow> same_config s s''"
  by (simp add: same_config_def)

lemma same_config_updates [simp]:
  "same_config s (upd_stats f s') \<longleftrightarrow> same_config s s'"
  "same_config s (set_mcell s' d r e) \<longleftrightarrow> same_config s s'"
  "same_config s (s' \<lparr> md_cache := c \<rparr>) \<longleftrightarrow> same_config s s'"
  "same_config s (s' \<lparr> md_poll_due := pd \<rparr>) \<longleftrightarrow> same_config s s'"
  "same_config s (s' \<lparr> md_probe_due := pd \<rparr>) \<longleftrightarrow> same_config s s'"
  "same_config s (s' \<lparr> md_poll_index := pi \<rparr>) \<longleftrightarrow> same_config s s'"
  "same_config s (s' \<lparr> md_online := ol \<rparr>) \<longleftrightarrow> same_config s s'"
  "same_config s (s' \<lparr> md_scan_index := n \<rparr>) \<longleftrightarrow> same_config s s'"
  "same_config s (s' \<lparr> md_poll_device := pn \<rparr>) \<longleftrightarrow> same_config s s'"
  by (auto simp: same_config_def upd_stats_def set_mcell_def)

lemma md_devices_updates [simp]:
  "md_devices (upd_stats f s) = md_devices s" "md_devices (set_mcell s d r e) = md_devices s"
  "md_bus (upd_stats f s) = md_bus s" "md_bus (set_mcell s d r e) = md_bus s"
  "md_core (upd_stats f s) = md_core s" "md_core (set_mcell s d r e) = md_core s"
  "md_events (upd_stats f s) = md_events s" "md_events (set_mcell s d r e) = md_events s"
  "md_sink (upd_stats f s) = md_sink s" "md_sink (set_mcell s d r e) = md_sink s"
  "md_online (upd_stats f s) = md_online s" "md_online (set_mcell s d r e) = md_online s"
  "md_poll_index (upd_stats f s) = md_poll_index s" "md_poll_index (set_mcell s d r e) = md_poll_index s"
  "md_poll_due (upd_stats f s) = md_poll_due s" "md_poll_due (set_mcell s d r e) = md_poll_due s"
  "md_probe_due (upd_stats f s) = md_probe_due s" "md_probe_due (set_mcell s d r e) = md_probe_due s"
  "md_cache (upd_stats f s) = md_cache s" "mcell (upd_stats f s) d' r' = mcell s d' r'"
  "md_scan_index (upd_stats f s) = md_scan_index s" "md_scan_index (set_mcell s d r e) = md_scan_index s"
  by (simp_all add: upd_stats_def set_mcell_def mcell_def)

lemma phy_unique:
  assumes "mdio_wf s" "d < length (md_devices s)" "d' < length (md_devices s)"
  shows "mc_phy_addr (md_devices s ! d) = mc_phy_addr (md_devices s ! d') \<longleftrightarrow> d = d'"
  using assms nth_eq_iff_index_eq [of "map mc_phy_addr (md_devices s)" d d'] by (auto simp: mdio_wf_def)

lemma mcell_set_mcell:
  assumes "mdio_wf s" and "d < 8" and "r < 32"
  shows "mcell (set_mcell s d r e) d' r' = (if d' = d \<and> r' = r then e else mcell s d' r')"
proof -
  have len: "d < length (md_cache s)" "unat r < length (md_cache s ! d)"
    using assms by (auto simp: mdio_wf_def word_less_nat_alt)
  show ?thesis
  proof (cases "d' = d")
    case True
    then show ?thesis using len by (auto simp: mcell_def set_mcell_def nth_list_update word_unat_eq_iff)
  next
    case False
    then show ?thesis by (simp add: mcell_def set_mcell_def)
  qed
qed

lemma minv_updates [simp]:
  "minv env (upd_stats f s) t \<longleftrightarrow> minv env s t"
  "minv env (s \<lparr> md_poll_device := pn \<rparr>) t \<longleftrightarrow> minv env s t"
  "minv env (s \<lparr> md_initialized := ib \<rparr>) t \<longleftrightarrow> minv env s t"
  by (simp_all add: minv_def mdio_wf_def poll_ok_def mirrored_def can_publish_def mcell_def)

lemma minv_sched:
  assumes "minv env s t"
  shows "minv env (s \<lparr> md_poll_due := (md_poll_due s)[d := x] \<rparr>) t"
    "minv env (s \<lparr> md_probe_due := (md_probe_due s)[d := x] \<rparr>) t"
    "minv env (s \<lparr> md_online := (md_online s)[d := b] \<rparr>) t"
    "k < 1024 \<Longrightarrow> minv env (s \<lparr> md_scan_index := k \<rparr>) t"
  using assms by (simp_all add: minv_def mdio_wf_def poll_ok_def mirrored_def can_publish_def mcell_def)

lemma minv_poll_index:
  assumes "minv env s t" and "d < length (md_devices s)"
    and "i = 0 \<or> unat i < length (mc_autopoll_regs (md_devices s ! d))"
  shows "minv env (s \<lparr> md_poll_index := (md_poll_index s)[d := i] \<rparr>) t"
  using assms by (auto simp: minv_def mdio_wf_def poll_ok_def mirrored_def can_publish_def mcell_def nth_list_update)

lemma minv_mirror: "minv env s t \<Longrightarrow> mirror env t' = mirror env t \<Longrightarrow> minv env s t'"
  by (simp add: minv_def mirrored_def)

text \<open>Storing a cell after publishing to it: a valid entry must carry the value that was published
  successfully.\<close>

lemma minv_publish_store:
  assumes inv: "minv env s t" and d: "d < length (md_devices s)" and r: "r < 32"
    and pub: "publish env s' (mc_phy_addr (md_devices s ! d)) r v t = (st, t')" and s': "md_bus s' = md_bus s" "md_core s' = md_core s"
    and e: "mce_valid e \<Longrightarrow> st = BVSTK_OK \<and> mce_value e = v"
  shows "minv env (set_mcell s d r e) t'"
proof -
  have wf: "mdio_wf s" using inv by (simp add: minv_def)
  then have d8: "d < 8" using d by (simp add: mdio_wf_def)
  have "mdio_wf (set_mcell s d r e)"
    using wf d8 by (auto simp: mdio_wf_def poll_ok_def set_mcell_def dest!: set_update_subset_insert [THEN subsetD])
  moreover have "mirrored env (set_mcell s d r e) t'"
    unfolding mirrored_def
  proof (intro allI impI)
    fix d' and r' :: u8
    let ?s = "set_mcell s d r e"
    assume cp: "can_publish ?s" and d': "d' < length (md_devices ?s)" and r': "r' < 32" and v': "mce_valid (mcell ?s d' r')"
    have t': "t' = t @ [MPublish (mc_phy_addr (md_devices s ! d)) r v]"
      and st: "st = menv_publish env t (mc_phy_addr (md_devices s ! d)) r v"
      using pub cp s' by (auto simp: publish_def can_publish_def split: if_splits)
    have inj: "mc_phy_addr (md_devices s ! d') = mc_phy_addr (md_devices s ! d) \<longleftrightarrow> d' = d"
      using phy_unique [OF wf, of d' d] d d' by simp
    have old: "mce_valid (mcell s d' r') \<Longrightarrow> mirror env t (mc_phy_addr (md_devices s ! d')) r' = Some (mce_value (mcell s d' r'))"
      using inv cp d' r' by (auto simp: minv_def mirrored_def can_publish_def)
    show "mirror env t' (mc_phy_addr (md_devices ?s ! d')) r' = Some (mce_value (mcell ?s d' r'))"
      using v' e st inj old by (auto simp: t' mirror_publish mcell_set_mcell [OF wf d8 r] split: if_splits)
  qed
  ultimately show ?thesis by (simp add: minv_def)
qed

lemma minv_unset:
  assumes "minv env s t" "d < length (md_devices s)" "r < 32" "\<not> mce_valid e"
  shows "minv env (set_mcell s d r e) t"
proof -
  have wf: "mdio_wf s" and d8: "d < 8" using assms by (simp_all add: minv_def mdio_wf_def)
  have "mdio_wf (set_mcell s d r e)"
    using wf d8 by (auto simp: mdio_wf_def poll_ok_def set_mcell_def dest!: set_update_subset_insert [THEN subsetD])
  then show ?thesis
    using assms by (auto simp: minv_def mirrored_def can_publish_def mcell_set_mcell [OF wf d8 assms(3)])
qed

lemma minv_publish:
  assumes "minv env s t" "d < length (md_devices s)" "r < 32" "\<not> mce_valid (mcell s d r)"
    "publish env s' (mc_phy_addr (md_devices s ! d)) r v t = (st, t')" "md_bus s' = md_bus s" "md_core s' = md_core s"
  shows "minv env s t'"
proof -
  have "set_mcell s d r (mcell s d r) = s" by (simp add: set_mcell_def mcell_def)
  then show ?thesis using minv_publish_store [OF assms(1,2,3,5,6,7), of "mcell s d r"] assms(4) by simp
qed

lemma reg_lt_32:
  assumes "mdio_wf s" "d < length (md_devices s)" "r < mc_reg_count (md_devices s ! d)"
  shows "r < 32"
proof -
  have "unat (mc_reg_count (md_devices s ! d)) \<le> 32"
    using assms by (intro config_wf_bounds) (auto simp: mdio_wf_def)
  then show ?thesis using assms(3) by (simp add: word_less_nat_alt)
qed

section \<open>Reads, invalidation, writes and seeding keep the invariant\<close>

lemma mbus_read_frame: "mbus_read env s phy r timeout t = (st, v, t') \<Longrightarrow> mirror env' t' = mirror env' t"
  by (auto simp: mbus_read_def Let_def split: if_splits prod.splits)

lemma mbus_write_frame: "mbus_write env s phy r v src timeout t = (st, t') \<Longrightarrow> mirror env' t' = mirror env' t"
  by (auto simp: mbus_write_def split: if_splits)

lemma read_phy_minv:
  assumes inv: "minv env s t" and d: "d < length (md_devices s)" and r: "r < 32"
    and run: "read_phy env s d r src timeout probe t = (st, v, s', t')"
  shows "minv env s' t' \<and> same_config s s' \<and> md_poll_index s' = md_poll_index s \<and>
    md_poll_due s' = md_poll_due s"
proof -
  let ?phy = "mc_phy_addr (md_devices s ! d)"
  obtain bst bv t1 where b: "mbus_read env s ?phy r timeout t = (bst, bv, t1)" using prod_cases3 by blast
  let ?shown = "if bst = BVSTK_OK then bv else 0"
  let ?t2 = "mdio_emit_flags env s BVSTK_EVENT_MASTER_READ bst src ?phy r ?shown (telemetry_flags s d BVSTK_EVENT_MASTER_READ bst ?shown probe) t1"
  let ?s2 = "upd_stats (\<lambda>c. c \<lparr> st_reads := st_reads c + 1 \<rparr>) s"
  have inv2: "minv env ?s2 ?t2"
    using inv mbus_read_frame [OF b] by (auto intro: minv_mirror)
  let ?off = "set_mcell ?s2 d r ((mcell ?s2 d r) \<lparr> mce_valid := False \<rparr>)"
  have fail: "minv env s' t' \<and> same_config s s' \<and> md_poll_index s' = md_poll_index s \<and> md_poll_due s' = md_poll_due s"
    if "minv env ?off tf" "s' = (if probe then ?off else count_errors ?off)"
      "t' = (if probe then snd (publish env ?off ?phy r 0xFFFF tf) else cache_changed s' d r (snd (publish env ?off ?phy r 0xFFFF tf)))" for tf
  proof -
    have wf: "mdio_wf ?s2" "d < 8" using inv2 d by (auto simp: minv_def mdio_wf_def)
    have "minv env ?off (snd (publish env ?off ?phy r 0xFFFF tf))"
      by (rule minv_publish [OF that(1) _ r, where d = d and s' = ?off and v = "0xFFFF" and st = "fst (publish env ?off ?phy r 0xFFFF tf)"])
        (use d in \<open>simp_all add: mcell_set_mcell [OF wf r]\<close>)
    then show ?thesis using that(2,3) by (auto intro: minv_mirror)
  qed
  obtain pst t3 where p: "publish env ?s2 ?phy r bv ?t2 = (pst, t3)" by fastforce
  consider (ok) "bst = BVSTK_OK" "pst = BVSTK_OK" | (nopub) "bst = BVSTK_OK" "pst \<noteq> BVSTK_OK" | (noread) "bst \<noteq> BVSTK_OK" by blast
  then show ?thesis
  proof cases
    case ok
    let ?e = "\<lparr> mce_value = bv, mce_valid = True, mce_seeded = False, mce_updated_ms = menv_now_ms env t3 \<rparr>"
    have i3: "minv env (set_mcell ?s2 d r ?e) t3"
      by (rule minv_publish_store [OF inv2 _ r, where d = d and s' = ?s2 and v = bv and st = pst]) (use d p ok in auto)
    have "s' = set_mcell ?s2 d r ?e" "mirror env t' = mirror env t3"
      using run b p ok by (auto simp: read_phy_def Let_def)
    then show ?thesis using i3 by (auto intro: minv_mirror)
  next
    case nopub
    have "minv env ?off t3"
      by (rule minv_publish_store [OF inv2 _ r, where d = d and s' = ?s2 and v = bv and st = pst]) (use d p nopub in auto)
    then show ?thesis
      by (rule fail) (use run b p nopub in \<open>auto simp: read_phy_def Let_def split_beta\<close>)
  next
    case noread
    have "minv env ?off ?t2"
      by (rule minv_unset [OF inv2 _ r]) (use d in auto)
    then show ?thesis
      by (rule fail) (use run b noread in \<open>auto simp: read_phy_def Let_def split_beta\<close>)
  qed
qed

lemma publish_trace:
  "publish env s phy r v t = (st, t') \<Longrightarrow> t' = (if can_publish s then t @ [MPublish phy r v] else t)"
  by (auto simp: publish_def can_publish_def split: if_splits)

text \<open>Clearing the mirror touches the cells of one address only.\<close>

lemma clear_mirror_other:
  "clear_mirror n r env s phy res t = (st, t') \<Longrightarrow> p \<noteq> phy \<Longrightarrow> mirror env' t' p q = mirror env' t p q"
proof (induction n r env s phy res t rule: clear_mirror.induct)
  case (2 n r env s phy result t)
  obtain st1 t1 where pub: "publish env s phy (of_nat r) 0xFFFF t = (st1, t1)" by fastforce
  then have "mirror env' t1 p q = mirror env' t p q"
    using publish_trace [OF pub] "2.prems"(2) by (auto simp: mirror_publish)
  then show ?case using "2.IH" [OF pub [symmetric] refl] "2.prems" pub by simp
qed simp

lemma zero_mdio_row_simps [simp]:
  "length zero_mdio_row = 32" "n < 32 \<Longrightarrow> zero_mdio_row ! n = zero_mdio_entry" "\<not> mce_valid zero_mdio_entry"
  by (simp_all add: zero_mdio_row_def zero_mdio_entry_def)

lemma invalidate_minv:
  assumes inv: "minv env s t" and d: "d < length (md_devices s)" and run: "invalidate env s d t = (st, s', t')"
  shows "minv env s' t' \<and> same_config s s' \<and> md_poll_index s' = md_poll_index s \<and> md_poll_due s' = md_poll_due s \<and>
    (\<forall>r. r < 32 \<longrightarrow> \<not> mce_valid (mcell s' d r))"
proof -
  have wf: "mdio_wf s" and d8: "d < 8" using inv d by (simp_all add: minv_def mdio_wf_def)
  have s': "s' = s \<lparr> md_cache := (md_cache s)[d := zero_mdio_row], md_online := (md_online s)[d := False],
      md_probe_due := (md_probe_due s)[d := 0] \<rparr>"
    using run by (auto simp: invalidate_def Let_def split: prod.splits)
  have cell: "mcell s' d' r = (if d' = d then zero_mdio_entry else mcell s d' r)" if "r < 32" for d' r
    using wf d8 that by (auto simp: s' mcell_def mdio_wf_def word_less_nat_alt)
  have wf': "mdio_wf s'"
    using wf by (auto simp: s' mdio_wf_def poll_ok_def dest!: set_update_subset_insert [THEN subsetD])
  have other: "mirror env t' p q = mirror env t p q" if "p \<noteq> mc_phy_addr (md_devices s ! d)" for p q
    using run that by (auto simp: invalidate_def Let_def split: prod.splits dest!: clear_mirror_other)
  have "mirrored env s' t'"
    unfolding mirrored_def
  proof (intro allI impI)
    fix d' and r :: u8
    assume a: "can_publish s'" "d' < length (md_devices s')" "r < 32" "mce_valid (mcell s' d' r)"
    then have "d' \<noteq> d" "mce_valid (mcell s d' r)" using cell by (auto split: if_splits)
    moreover have "mc_phy_addr (md_devices s ! d') \<noteq> mc_phy_addr (md_devices s ! d)"
      using phy_unique [OF wf, of d' d] d a \<open>d' \<noteq> d\<close> by (simp add: s')
    ultimately show "mirror env t' (mc_phy_addr (md_devices s' ! d')) r = Some (mce_value (mcell s' d' r))"
      using inv a other cell by (auto simp: minv_def mirrored_def s' can_publish_def)
  qed
  then show ?thesis using wf' cell by (auto simp: minv_def s' same_config_def)
qed

text \<open>The first half of a permitted write: the cached value is dropped before the frame is sent.\<close>

definition drop_cached :: "mdio_env \<Rightarrow> mdio_service \<Rightarrow> nat \<Rightarrow> u8 \<Rightarrow> u16 \<Rightarrow> mdio_trace \<Rightarrow> mdio_service \<times> mdio_trace" where
  "drop_cached env s d r v t =
    (if r = 0 \<and> v AND 0x8000 \<noteq> 0 then let (_, s', t') = invalidate env s d t in (s', t')
     else let s' = set_mcell s d r ((mcell s d r) \<lparr> mce_valid := False \<rparr>);
              (_, t') = publish env s' (mc_phy_addr (md_devices s ! d)) r 0xFFFF (cache_changed s' d r t)
          in (s', t'))"

lemma drop_cached_minv:
  assumes inv: "minv env s t" and d: "d < length (md_devices s)" and r: "r < 32" and run: "drop_cached env s d r v t = (s', t')"
  shows "minv env s' t' \<and> same_config s s' \<and> md_poll_index s' = md_poll_index s \<and> \<not> mce_valid (mcell s' d r)"
proof (cases "r = 0 \<and> v AND 0x8000 \<noteq> 0")
  case True
  then obtain st where "invalidate env s d t = (st, s', t')"
    using run by (auto simp: drop_cached_def split: prod.splits)
  from invalidate_minv [OF inv d this] show ?thesis using r by simp
next
  case False
  let ?s = "set_mcell s d r ((mcell s d r) \<lparr> mce_valid := False \<rparr>)"
  have wf: "mdio_wf s" and d8: "d < 8" using inv d by (simp_all add: minv_def mdio_wf_def)
  obtain st where s': "s' = ?s" and pub: "publish env ?s (mc_phy_addr (md_devices s ! d)) r 0xFFFF (cache_changed ?s d r t) = (st, t')"
    using run False by (auto simp: drop_cached_def Let_def split: prod.splits)
  have "minv env ?s t" by (rule minv_unset [OF inv d r]) simp
  then have i1: "minv env ?s (cache_changed ?s d r t)" by (rule minv_mirror) simp
  have "minv env ?s t'"
    by (rule minv_publish [OF i1 _ r, where d = d and s' = ?s and v = "0xFFFF" and st = st])
      (use d pub in \<open>simp_all add: mcell_set_mcell [OF wf d8 r]\<close>)
  then show ?thesis by (simp add: s' mcell_set_mcell [OF wf d8 r])
qed

text \<open>The shape of a write: attempt, then denied, or dispatch with read-back and commit, or fault.\<close>

lemma write_phy_eq:
  "write_phy env s d r v src timeout t =
    (let phy = mc_phy_addr (md_devices s ! d);
         s0 = upd_stats (\<lambda>c. c \<lparr> st_last_phy := phy, st_last_reg := r, st_last_value := v, st_last_source := source_code src \<rparr>) s;
         t0 = mdio_emit env s0 BVSTK_EVENT_REG_ATTEMPT BVSTK_OK src phy r v t;
         last = (\<lambda>st s. upd_stats (\<lambda>c. c \<lparr> st_last_status := st \<rparr>) s) in
     if \<not> bvstk_mdio_policy_allows (Some (md_devices s ! d)) r v then
       let s' = upd_stats (\<lambda>c. c \<lparr> st_denied := st_denied c + 1 \<rparr>) s0
       in (BVSTK_ERR_DENIED, last BVSTK_ERR_DENIED s', mdio_emit env s' BVSTK_EVENT_REG_DENIED BVSTK_ERR_DENIED src phy r v t0)
     else
       let (s2, t2) = drop_cached env s0 d r v t0;
           (wst, t3) = mbus_write env s2 phy r v src timeout t2;
           t4 = mdio_emit_flags env s2 BVSTK_EVENT_MASTER_WRITE wst src phy r v
             (if md_online s ! d then BVSTK_EVENT_FLAG_NONE else BVSTK_EVENT_FLAG_TELEMETRY_UNCONFIRMED) t3 in
       if wst = BVSTK_OK then
         let s5 = upd_stats (\<lambda>c. c \<lparr> st_writes := st_writes c + 1 \<rparr>) s2;
             (_, _, s6, t6) = read_phy env s5 d r src timeout False t4;
             s7 = s6 \<lparr> md_poll_due := (md_poll_due s6)[d := 0], md_poll_index := (md_poll_index s6)[d := 0] \<rparr>
         in (wst, last wst s7, mdio_emit env s7 BVSTK_EVENT_REG_COMMIT wst src phy r v t6)
       else (wst, last wst (count_errors s2), mdio_emit env (count_errors s2) BVSTK_EVENT_FAULT wst src phy r v t4))"
  by (auto simp: write_phy_def drop_cached_def Let_def split: prod.splits)

lemma same_config_upd_stats [simp]: "same_config (upd_stats f s) s' \<longleftrightarrow> same_config s s'"
  by (simp add: same_config_def upd_stats_def)

lemma allows_lt_32:
  assumes "mdio_wf s" "d < length (md_devices s)" "bvstk_mdio_policy_allows (Some (md_devices s ! d)) r v"
  shows "r < 32"
  using assms by (intro reg_lt_32 [OF assms(1,2)]) (auto simp: bvstk_mdio_policy_allows_def not_le split: if_splits)

lemma write_phy_minv:
  assumes inv: "minv env s t" and d: "d < length (md_devices s)"
    and run: "write_phy env s d r v src timeout t = (st, s', t')"
  shows "minv env s' t' \<and> same_config s s'"
proof (cases "bvstk_mdio_policy_allows (Some (md_devices s ! d)) r v")
  case False
  then show ?thesis using inv run by (auto simp: write_phy_eq Let_def intro: minv_mirror)
next
  case allowed: True
  have r: "r < 32" using inv d allowed by (intro allows_lt_32 [of s d r v]) (simp_all add: minv_def)
  let ?phy = "mc_phy_addr (md_devices s ! d)"
  let ?s0 = "upd_stats (\<lambda>c. c \<lparr> st_last_phy := ?phy, st_last_reg := r, st_last_value := v, st_last_source := source_code src \<rparr>) s"
  let ?t0 = "mdio_emit env ?s0 BVSTK_EVENT_REG_ATTEMPT BVSTK_OK src ?phy r v t"
  obtain s2 t2 where dc: "drop_cached env ?s0 d r v ?t0 = (s2, t2)" by fastforce
  have i0: "minv env ?s0 ?t0" using inv by (auto intro: minv_mirror)
  have i2: "minv env s2 t2" and sc: "same_config s s2"
    using drop_cached_minv [OF i0 _ r dc] d by simp_all
  obtain wst t3 where w: "mbus_write env s2 ?phy r v src timeout t2 = (wst, t3)" by fastforce
  let ?t4 = "mdio_emit_flags env s2 BVSTK_EVENT_MASTER_WRITE wst src ?phy r v
     (if md_online s ! d then BVSTK_EVENT_FLAG_NONE else BVSTK_EVENT_FLAG_TELEMETRY_UNCONFIRMED) t3"
  have i4: "minv env s2 ?t4" by (rule minv_mirror [OF i2]) (simp add: mbus_write_frame [OF w])
  show ?thesis
  proof (cases "wst = BVSTK_OK")
    case False
    then show ?thesis using run allowed dc w i4 sc by (auto simp: write_phy_eq Let_def intro: minv_mirror)
  next
    case True
    let ?s5 = "upd_stats (\<lambda>c. c \<lparr> st_writes := st_writes c + 1 \<rparr>) s2"
    obtain rst rv s6 t6 where rd: "read_phy env ?s5 d r src timeout False ?t4 = (rst, rv, s6, t6)" using prod_cases4 by blast
    have dd: "d < length (md_devices s2)" using sc d by (simp add: same_config_def)
    have i6: "minv env s6 t6 \<and> same_config ?s5 s6" using read_phy_minv [OF _ _ r rd] i4 dd by simp
    then have sc6: "same_config s s6" using same_config_trans [OF sc, of s6] by simp
    have "minv env (s6 \<lparr> md_poll_due := (md_poll_due s6)[d := 0], md_poll_index := (md_poll_index s6)[d := 0] \<rparr>) t6"
      using minv_poll_index [OF minv_sched(1) [of env s6 t6 d 0], of d 0] i6 sc6 d by (simp add: same_config_def)
    then show ?thesis using run allowed dc w rd True sc6
      by (auto simp: write_phy_eq Let_def intro: minv_mirror)
  qed
qed

lemma seed_loop_minv:
  assumes "minv env s t" and "d < length (md_devices s)" and "\<forall>e\<in>set vs. set_reg e < 32 \<and> \<not> mce_valid (mcell s d (set_reg e))"
    and "distinct (map set_reg vs)" and "seed_loop vs env s d t = (st, s', t')"
  shows "minv env s' t' \<and> same_config s s' \<and> md_poll_index s' = md_poll_index s"
  using assms
proof (induction vs arbitrary: s t)
  case (Cons v vs)
  obtain pst t1 where p: "publish env s (mc_phy_addr (md_devices s ! d)) (set_reg v) (set_val v) t = (pst, t1)" by fastforce
  show ?case
  proof (cases "pst = BVSTK_OK")
    case True
    let ?s1 = "set_mcell s d (set_reg v) \<lparr> mce_value = set_val v, mce_valid = True, mce_seeded = True, mce_updated_ms = menv_now_ms env t1 \<rparr>"
    have wf: "mdio_wf s" "d < 8" and r: "set_reg v < 32" using Cons.prems by (auto simp: minv_def mdio_wf_def)
    have "minv env ?s1 t1"
      by (rule minv_publish_store [where d = d and s' = s and v = "set_val v" and st = pst and t = t]) (use Cons.prems p True in auto)
    then have i1: "minv env ?s1 (cache_changed ?s1 d (set_reg v) t1)" by (rule minv_mirror) simp
    have "\<forall>e\<in>set vs. set_reg e < 32 \<and> \<not> mce_valid (mcell ?s1 d (set_reg e))"
      using Cons.prems(3,4) by (auto simp: mcell_set_mcell [OF wf r] image_iff)
    then show ?thesis
      using Cons.IH [OF i1] Cons.prems(2,4,5) p True same_config_trans [of s ?s1 s'] by (simp add: Let_def)
  next
    case False
    then show ?thesis using Cons.prems p minv_publish [OF Cons.prems(1,2) _ _ p] by (auto simp: Let_def)
  qed
qed simp

lemma seed_minv:
  assumes "minv env s t" and "d < length (md_devices s)" and "\<forall>r<32. \<not> mce_valid (mcell s d r)"
    and "seed env s d t = (st, s', t')"
  shows "minv env s' t' \<and> same_config s s' \<and> md_poll_index s' = md_poll_index s"
proof -
  let ?c = "md_devices s ! d"
  have wf: "mdio_config_wf ?c" and wfs: "mdio_wf s" using assms by (auto simp: minv_def mdio_wf_def)
  have "\<forall>e\<in>set (used_settings ?c). set_reg e < 32"
    using config_wf_bounds(9) [OF wf] reg_lt_32 [OF wfs assms(2)] by blast
  moreover have "distinct (map set_reg (used_settings ?c))"
    using wf by (auto simp: mdio_config_wf_def bvstk_mdio_config_validate_def distinct_regs_OK split: if_splits bvstk_status_t.splits)
  ultimately show ?thesis
    using seed_loop_minv [of env s t d "used_settings ?c" st s' t'] assms by (auto simp: seed_def)
qed

section \<open>The worker step keeps the invariant\<close>

lemma find_phy_from_le: "find_phy_from i cs phy \<le> i + length cs"
proof (induction cs arbitrary: i)
  case (Cons c cs)
  then show ?case using Cons [of "i + 1"] by simp
qed simp

lemma find_phy_lt: "find_phy s phy \<noteq> length (md_devices s) \<Longrightarrow> find_phy s phy < length (md_devices s)"
  using find_phy_from_le [of 0 "md_devices s" phy] by (simp add: find_phy_def)

lemma scan_minv:
  assumes "minv env s t" and "scan_mailboxes n taken env timeout result s t = (st, s', t')"
  shows "minv env s' t' \<and> same_config s s'"
  using assms
proof (induction n arbitrary: taken result s t)
  case (Suc n)
  let ?phy = "of_nat (md_scan_index s div 32)" and ?reg = "of_nat (md_scan_index s mod 32)"
  let ?s1 = "s \<lparr> md_scan_index := (md_scan_index s + 1) mod 1024 \<rparr>" and ?t1 = "t @ [MTake ?phy ?reg]"
  obtain tst v where tk: "menv_take env t ?phy ?reg = (tst, v)" by fastforce
  have i1: "minv env ?s1 ?t1" by (rule minv_mirror [OF minv_sched(4) [OF Suc.prems(1)]]) simp_all
  show ?case
  proof (cases "taken < 4 \<and> tst = BVSTK_OK")
    case False
    then show ?thesis
      using Suc.prems tk i1 Suc.IH [OF i1] same_config_trans [of s ?s1 s'] by (auto simp: Let_def split: if_splits)
  next
    case True
    let ?s2 = "upd_stats (\<lambda>c. c \<lparr> st_observed := st_observed c + 1 \<rparr>) ?s1"
    let ?d = "find_phy ?s2 ?phy"
    let ?t2 = "mdio_emit_flags env ?s2 BVSTK_EVENT_CAPTURE_WRITE BVSTK_OK BVSTK_EVENT_SOURCE_HOST ?phy ?reg v
      (if ?d < length (md_devices ?s2) \<and> md_online ?s2 ! ?d then BVSTK_EVENT_FLAG_NONE
       else BVSTK_EVENT_FLAG_TELEMETRY_UNCONFIRMED) ?t1"
    have i2: "minv env ?s2 ?t2" using i1 by (auto intro: minv_mirror)
    show ?thesis
    proof (cases "?d = length (md_devices ?s2)")
      case unknown: True
      let ?s3 = "upd_stats (\<lambda>c. c \<lparr> st_unknown_phy := st_unknown_phy c + 1, st_denied := st_denied c + 1 \<rparr>) ?s2"
      let ?t4 = "mdio_emit env ?s3 BVSTK_EVENT_REG_DENIED BVSTK_ERR_NOT_FOUND BVSTK_EVENT_SOURCE_HOST ?phy ?reg v
        (mdio_emit env ?s3 BVSTK_EVENT_REG_ATTEMPT BVSTK_OK BVSTK_EVENT_SOURCE_HOST ?phy ?reg v ?t2)"
      have i3: "minv env ?s3 ?t4" using i2 by (auto intro: minv_mirror)
      have "scan_mailboxes n (taken + 1) env timeout result ?s3 ?t4 = (st, s', t')"
        using Suc.prems(2) True tk unknown by (simp add: Let_def)
      then show ?thesis using Suc.IH [OF i3] same_config_trans [of s ?s3 s'] by simp
    next
      case False
      then have d: "?d < length (md_devices ?s2)" by (rule find_phy_lt)
      obtain wst s3 t3 where w: "write_phy env ?s2 ?d ?reg v BVSTK_EVENT_SOURCE_HOST timeout ?t2 = (wst, s3, t3)" using prod_cases3 by blast
      note i3 = write_phy_minv [OF i2 d w]
      have "scan_mailboxes n (taken + 1) env timeout (if wst \<noteq> BVSTK_OK \<and> wst \<noteq> BVSTK_ERR_DENIED then wst else result) s3 t3 = (st, s', t')"
        using Suc.prems(2) True tk False w by (simp add: Let_def split: if_splits)
      then show ?thesis using i3 Suc.IH [of s3 t3] same_config_trans [of s s3 s'] same_config_trans [of s ?s2 s3] by simp
    qed
  qed
qed simp

lemma probe_minv:
  assumes inv: "minv env s t" and d: "d < length (md_devices s)" and run: "probe_device env s d now timeout result t = (st, s', t')"
  shows "minv env s' t' \<and> same_config s s'"
proof -
  obtain st1 id1 s1 t1 where r1: "read_phy env s d 2 BVSTK_EVENT_SOURCE_INTERNAL timeout True t = (st1, id1, s1, t1)"
    using prod_cases4 by blast
  have i1: "minv env s1 t1" "same_config s s1" using read_phy_minv [OF inv d _ r1] by simp_all
  obtain st2 id2 s2 t2 where r2: "(if st1 = BVSTK_OK then read_phy env s1 d 3 BVSTK_EVENT_SOURCE_INTERNAL timeout True t1
      else (st1, 0, s1, t1)) = (st2, id2, s2, t2)" using prod_cases4 by blast
  have d1: "d < length (md_devices s1)" using i1 d by (simp add: same_config_def)
  have i2: "minv env s2 t2" "same_config s1 s2"
    using r2 read_phy_minv [OF i1(1) d1, of 3] i1 by (auto split: if_splits)
  have sc2: "same_config s s2" and d2: "d < length (md_devices s2)"
    using same_config_trans [OF i1(2) i2(2)] d by (simp_all add: same_config_def)
  show ?thesis
  proof (cases "st2 = BVSTK_OK \<and> id1 \<noteq> 0xFFFF \<and> id2 \<noteq> 0xFFFF \<and> (id1 \<noteq> 0 \<or> id2 \<noteq> 0)")
    case True
    let ?s' = "(if \<not> md_online s2 ! d then s2 \<lparr> md_poll_due := (md_poll_due s2)[d := 0] \<rparr> else s2) \<lparr> md_online := (md_online s2)[d := True] \<rparr>"
    have "minv env ?s' t2"
      using minv_sched(3) [OF i2(1), of d True] minv_sched(3) [OF minv_sched(1) [OF i2(1), of d 0], of d True] by simp
    then have i3: "minv env (?s' \<lparr> md_probe_due := (md_probe_due ?s')[d := now + 1000] \<rparr>) t2"
      by (rule minv_sched(2))
    have "mirror env t' = mirror env t2" using run r1 r2 True by (auto simp: probe_device_def Let_def)
    from minv_mirror [OF i3 this] show ?thesis using run r1 r2 True sc2 by (auto simp: probe_device_def Let_def)
  next
    case False
    obtain ist s3 t3 where v: "invalidate env s2 d t2 = (ist, s3, t3)" using prod_cases3 by blast
    have "minv env s3 t3" "same_config s2 s3" using invalidate_minv [OF i2(1) d2 v] by simp_all
    then show ?thesis using run r1 r2 False v minv_sched(2) [of env s3 t3 d "now + 1000"] same_config_trans [OF sc2, of s3]
      by (auto simp: probe_device_def Let_def)
  qed
qed

lemma poll_minv:
  assumes inv: "minv env s t" and d: "d < length (md_devices s)" and regs: "mc_autopoll_regs (md_devices s ! d) \<noteq> []"
    and run: "poll_register env s d now timeout result t = (st, s', t')"
  shows "minv env s' t' \<and> same_config s s'"
proof -
  let ?c = "md_devices s ! d"
  let ?r = "mc_autopoll_regs ?c ! unat (md_poll_index s ! d)"
  have wf: "mdio_wf s" using inv by (simp add: minv_def)
  then have cwf: "mdio_config_wf ?c" using d by (simp add: mdio_wf_def)
  have pos: "unat (md_poll_index s ! d) < length (mc_autopoll_regs ?c)"
    using wf d regs by (auto simp: mdio_wf_def poll_ok_def)
  then have r: "?r < 32" using config_wf_bounds(7) [OF cwf] by (intro reg_lt_32 [OF wf d]) simp
  obtain rst v s1 t1 where r1: "read_phy env s d ?r BVSTK_EVENT_SOURCE_INTERNAL timeout False t = (rst, v, s1, t1)"
    using prod_cases4 by blast
  have i1: "minv env s1 t1" "same_config s s1" "md_poll_index s1 = md_poll_index s"
    using read_phy_minv [OF inv d r r1] by simp_all
  have d1: "d < length (md_devices s1)" using i1 d by (simp add: same_config_def)
  obtain ist s3 t3 where v: "invalidate env s1 d t1 = (ist, s3, t3)" using prod_cases3 by blast
  note i3 = invalidate_minv [OF i1(1) d1 v]
  obtain s2 where s2: "minv env s2 t'" "same_config s s2" "md_poll_index s2 = md_poll_index s"
    and s': "s' = (if unat (md_poll_index s2 ! d + 1) \<ge> length (mc_autopoll_regs ?c) then
                 s2 \<lparr> md_poll_index := (md_poll_index s2)[d := 0], md_poll_due := (md_poll_due s2)[d := now +
                   (if mc_autopoll_cycle_delay_ms ?c \<noteq> 0 then ucast (mc_autopoll_cycle_delay_ms ?c) else 1)] \<rparr>
               else s2 \<lparr> md_poll_index := (md_poll_index s2)[d := md_poll_index s2 ! d + 1],
                 md_poll_due := (md_poll_due s2)[d := now + ucast (mc_autopoll_reg_delay_ms ?c)] \<rparr>)"
  proof (cases "rst = BVSTK_OK")
    case True
    show ?thesis by (rule that [of s1]) (use run r1 True i1 in \<open>auto simp: poll_register_def Let_def\<close>)
  next
    case False
    show ?thesis
      by (rule that [of "s3 \<lparr> md_probe_due := (md_probe_due s3)[d := now + 1000] \<rparr>"])
        (use run r1 False i1 i3 v minv_sched(2) [of env s3 t3] same_config_trans [OF i1(2), of s3]
          in \<open>auto simp: poll_register_def Let_def\<close>)
  qed
  have d2: "d < length (md_devices s2)" "md_devices s2 = md_devices s" using s2 d by (simp_all add: same_config_def)
  show ?thesis
    using s2 minv_sched(1) [OF minv_poll_index [OF s2(1) d2(1)]] by (auto simp: s' d2 not_le)
qed

lemma poll_devices_minv:
  assumes "minv env s t" and "md_devices s \<noteq> [] \<or> n = 0" and "poll_devices n env now timeout result s t = (st, s', t')"
  shows "minv env s' t' \<and> same_config s s'"
  using assms
proof (induction n arbitrary: s)
  case (Suc n)
  let ?d = "unat (md_poll_device s) mod length (md_devices s)"
  let ?s1 = "s \<lparr> md_poll_device := md_poll_device s + 1 \<rparr>"
  have i1: "minv env ?s1 t" and d: "?d < length (md_devices ?s1)" using Suc.prems by simp_all
  have sc: "same_config s s''" if "same_config ?s1 s''" for s'' using that same_config_trans [of s ?s1 s''] by simp
  show ?case
    using Suc.prems(3) probe_minv [OF i1 d] poll_minv [OF i1 d] Suc.IH [OF i1] Suc.prems(2) sc
    by (auto simp: Let_def split: if_splits)
qed simp

lemma step_locked_minv:
  assumes inv: "minv env s t" and run: "step_locked env s now timeout t = (st, s', t')"
  shows "minv env s' t' \<and> same_config s s'"
proof -
  obtain r1 s1 t1 where sc: "(if md_core s \<or> bus_take_write (md_bus s)
      then scan_mailboxes 1024 0 env timeout BVSTK_OK s t else (BVSTK_OK, s, t)) = (r1, s1, t1)" using prod_cases3 by blast
  have i1: "minv env s1 t1" "same_config s s1"
    using sc scan_minv [OF inv, of 1024 0 timeout BVSTK_OK r1 s1 t1] inv by (auto simp del: scan_mailboxes.simps split: if_splits)
  obtain r2 s2 t2 where ak: "(if md_core s1 then let t' = t1 @ [MAckSlave] in
      (if menv_ack env t1 \<noteq> BVSTK_OK then (BVSTK_ERR_IO, count_errors s1, t') else (r1, s1, t')) else (r1, s1, t1)) = (r2, s2, t2)"
    using prod_cases3 by blast
  have i2: "minv env s2 t2" "same_config s s2"
    using ak i1 by (auto simp: Let_def split: if_splits intro: minv_mirror)
  have "poll_devices (length (md_devices s2)) env now timeout r2 s2 t2 = (st, s', t')"
    using run sc ak by (simp add: step_locked_def del: scan_mailboxes.simps)
  from poll_devices_minv [OF i2(1) _ this] show ?thesis using same_config_trans [OF i2(2)] by auto
qed

section \<open>Policy, rules and configuration keep the invariant\<close>

text \<open>Replacing a configuration: the new one is valid, its address is taken by no other device, and
  either the address stays or the device has no valid cell.\<close>

lemma set_device_minv:
  assumes inv: "minv env s t" and d: "d < length (md_devices s)" and c: "mdio_config_wf c"
    and uniq: "\<forall>i < length (md_devices s). i \<noteq> d \<longrightarrow> mc_phy_addr (md_devices s ! i) \<noteq> mc_phy_addr c"
    and cells: "mc_phy_addr c = mc_phy_addr (md_devices s ! d) \<or> (\<forall>r<32. \<not> mce_valid (mcell s d r))"
    and poll: "md_poll_index s ! d = 0 \<or> mc_autopoll_regs c = mc_autopoll_regs (md_devices s ! d)"
  shows "minv env (set_device s d c) t"
proof -
  have wf: "mdio_wf s" using inv by (simp add: minv_def)
  have "distinct (map mc_phy_addr ((md_devices s)[d := c]))"
    using wf d uniq by (auto simp: mdio_wf_def distinct_conv_nth nth_list_update)
  then have wf': "mdio_wf (set_device s d c)"
    using wf d c poll by (auto simp: set_device_def mdio_wf_def poll_ok_def nth_list_update dest!: set_update_subset_insert [THEN subsetD])
  have cell: "mcell (set_device s d c) d' r = mcell s d' r" for d' r by (simp add: set_device_def mcell_def)
  have "mirrored env (set_device s d c) t"
    unfolding mirrored_def
  proof (intro allI impI)
    fix d' and r :: u8
    assume a: "can_publish (set_device s d c)" "d' < length (md_devices (set_device s d c))" "r < 32" "mce_valid (mcell (set_device s d c) d' r)"
    then have "mirror env t (mc_phy_addr (md_devices s ! d')) r = Some (mce_value (mcell s d' r))"
      using inv cell by (auto simp: minv_def mirrored_def set_device_def can_publish_def)
    moreover have "mc_phy_addr (md_devices (set_device s d c) ! d') = mc_phy_addr (md_devices s ! d')"
      using cells a cell d by (auto simp: set_device_def nth_list_update)
    ultimately show "mirror env t (mc_phy_addr (md_devices (set_device s d c) ! d')) r = Some (mce_value (mcell (set_device s d c) d' r))"
      by (simp add: cell)
  qed
  then show ?thesis using wf' by (simp add: minv_def)
qed

lemma set_rules_minv:
  assumes inv: "minv env s t" and d: "d < length (md_devices s)"
    and upd: "length ws \<le> 64" "length bs \<le> 64" "mode = 0 \<or> mode = 1"
      "\<forall>r\<in>set ws. mrule_reg r < mc_reg_count (md_devices s ! d)" "\<forall>r\<in>set bs. mrule_reg r < mc_reg_count (md_devices s ! d)"
  shows "minv env (set_device s d ((md_devices s ! d) \<lparr> mc_policy := mode, mc_whitelist := ws, mc_blacklist := bs \<rparr>)) t"
proof (rule set_device_minv [OF inv d])
  have wf: "mdio_wf s" using inv by (simp add: minv_def)
  then have "mdio_config_wf (md_devices s ! d)" using d by (simp add: mdio_wf_def)
  then show "mdio_config_wf ((md_devices s ! d) \<lparr> mc_policy := mode, mc_whitelist := ws, mc_blacklist := bs \<rparr>)"
    using upd by (rule config_wf_update_rules)
  show "\<forall>i < length (md_devices s). i \<noteq> d \<longrightarrow> mc_phy_addr (md_devices s ! i) \<noteq>
      mc_phy_addr ((md_devices s ! d) \<lparr> mc_policy := mode, mc_whitelist := ws, mc_blacklist := bs \<rparr>)"
    using phy_unique [OF wf] d by simp
qed simp_all

lemma put_list_update:
  "put_list list rules c = c \<lparr> mc_policy := mc_policy c, mc_whitelist := (if list = 0 then rules else mc_whitelist c),
     mc_blacklist := (if list = 0 then mc_blacklist c else rules) \<rparr>"
  by (simp add: put_list_def)

lemma put_list_minv:
  assumes inv: "minv env s t" and d: "d < length (md_devices s)"
    and rules: "length rules \<le> 64" "\<forall>r\<in>set rules. mrule_reg r < mc_reg_count (md_devices s ! d)"
  shows "minv env (set_device s d (put_list list rules (md_devices s ! d))) t"
proof -
  have wf: "mdio_config_wf (md_devices s ! d)" using inv d by (simp add: minv_def mdio_wf_def)
  show ?thesis
    unfolding put_list_update using config_wf_bounds [OF wf] config_wf_rules [OF wf] rules
    by (intro set_rules_minv [OF inv d]) auto
qed

lemma rule_compact_filter:
  "rule_compact kept rs reg v m = kept @ filter (\<lambda>r. \<not> policy_rule_equal r reg v m) rs"
  by (induction kept rs reg v m rule: rule_compact.induct) auto

lemma rule_add_list_bounds:
  "rule_add_list rs reg v m = (st, rs') \<Longrightarrow> length rs \<le> 64 \<Longrightarrow> length rs' \<le> 64 \<and> mrule_reg ` set rs' \<subseteq> insert reg (mrule_reg ` set rs)"
  by (auto simp: rule_add_list_def split: if_splits)

lemma check_OK: "check s d r = BVSTK_OK \<longleftrightarrow> d < length (md_devices s) \<and> r < mc_reg_count (md_devices s ! d)"
  by (auto simp: check_def)

lemma policy_list_OK:
  "policy_list s d list = (BVSTK_OK, rules) \<Longrightarrow> d < length (md_devices s) \<and> (list = 0 \<or> list = 1) \<and> rules = get_list list (md_devices s ! d)"
  by (auto simp: policy_list_def check_OK split: bvstk_status_t.splits if_splits)

lemma get_list_bounds:
  assumes "minv env s t" "d < length (md_devices s)"
  shows "length (get_list list (md_devices s ! d)) \<le> 64"
    "\<forall>r\<in>set (get_list list (md_devices s ! d)). mrule_reg r < mc_reg_count (md_devices s ! d)"
proof -
  have wf: "mdio_config_wf (md_devices s ! d)" using assms by (simp add: minv_def mdio_wf_def)
  show "length (get_list list (md_devices s ! d)) \<le> 64"
    "\<forall>r\<in>set (get_list list (md_devices s ! d)). mrule_reg r < mc_reg_count (md_devices s ! d)"
    using config_wf_bounds [OF wf] config_wf_rules [OF wf] by (simp_all add: get_list_def)
qed

lemma mlock_mirror: "mlock env service t = (st, t1) \<Longrightarrow> mirror env' t1 = mirror env' t"
  by (auto simp: mlock_def split: option.splits if_splits)

lemma locked_minv:
  assumes inv: "minv env s t" and body: "\<And>t1 st x s' t'. minv env s t1 \<Longrightarrow> f t1 = (st, x, s', t') \<Longrightarrow> minv env s' t'"
    and run: "locked env s none f t = (st, x, s', t')"
  shows "minv env s' t'"
proof -
  obtain lst t1 where l: "mlock env (Some s) t = (lst, t1)" by fastforce
  have i1: "minv env s t1" using inv mlock_mirror [OF l] by (rule minv_mirror)
  obtain fst' fx fs ft where f: "f t1 = (fst', fx, fs, ft)" using prod_cases4 by blast
  show ?thesis
    using run l i1 body [OF i1 f] f by (cases lst) (auto simp: locked_def intro: minv_mirror)
qed

lemma locked_op_minv:
  assumes inv: "minv env s t" and body: "\<And>t1 st s' t'. minv env s t1 \<Longrightarrow> f t1 = (st, s', t') \<Longrightarrow> minv env s' t'"
    and run: "locked_op env s f t = (st, s', t')"
  shows "minv env s' t'"
proof -
  obtain x where "locked env s () (\<lambda>t. case f t of (st, s', t') \<Rightarrow> (st, (), s', t')) t = (st, x, s', t')"
    using run by (auto simp: locked_op_def split: prod.splits)
  then show ?thesis by (rule locked_minv [OF inv, rotated]) (use body in \<open>auto split: prod.splits\<close>)
qed

lemma set_config_minv:
  assumes inv: "minv env s t" and d: "d < length (md_devices s)" and c: "mdio_config_wf c"
    and uniq: "\<forall>i < length (md_devices s). i \<noteq> d \<longrightarrow> mc_phy_addr (md_devices s ! i) \<noteq> mc_phy_addr c"
    and run: "mdio_set_config_locked env s d c t = (st, s', t')"
  shows "minv env s' t'"
proof -
  let ?old = "md_devices s ! d"
  define changed where "changed \<longleftrightarrow> mc_phy_addr c \<noteq> mc_phy_addr ?old \<or> mc_reg_count c \<noteq> mc_reg_count ?old \<or>
     mc_settings_len c \<noteq> mc_settings_len ?old \<or> mc_settings c \<noteq> mc_settings ?old"
  obtain st1 s1 t1 where first: "(if changed then invalidate env s d t else (BVSTK_OK, s, t)) = (st1, s1, t1)" using prod_cases3 by blast
  have i1: "minv env s1 t1" "md_devices s1 = md_devices s" "changed \<Longrightarrow> \<forall>r<32. \<not> mce_valid (mcell s1 d r)"
    using first invalidate_minv [OF inv d, of st1 s1 t1] inv by (auto simp: same_config_def split: if_splits)
  show ?thesis
  proof (cases "st1 = BVSTK_OK")
    case False
    then have "s' = s1 \<and> t' = t1" using run [unfolded mdio_set_config_locked_def Let_def, folded changed_def] first by simp
    then show ?thesis using i1 by simp
  next
    case True
    let ?s1' = "s1 \<lparr> md_poll_due := (md_poll_due s1)[d := 0], md_poll_index := (md_poll_index s1)[d := 0] \<rparr>"
    let ?s3 = "set_device ?s1' d c"
    let ?t2 = "if md_config_changed (set_device s1 d c) then t1 @ [MConfigChanged d c] else t1"
    have "minv env ?s1' t1"
      using minv_poll_index [OF minv_sched(1) [OF i1(1), of d 0], of d 0] d i1 by simp
    moreover have "md_poll_index ?s1' ! d = 0" using d i1 by (simp add: minv_def mdio_wf_def)
    moreover have "mcell ?s1' d r = mcell s1 d r" for r by (simp add: mcell_def)
    ultimately have "minv env ?s3 t1"
      using d c uniq i1 changed_def by (intro set_device_minv) auto
    then have i3: "minv env ?s3 ?t2" by (auto intro: minv_mirror)
    have eq: "set_device s1 d c \<lparr> md_poll_due := (md_poll_due (set_device s1 d c))[d := 0],
        md_poll_index := (md_poll_index (set_device s1 d c))[d := 0] \<rparr> = ?s3"
      by (simp add: set_device_def)
    have d3: "d < length (md_devices ?s3)" using d i1 by (simp add: set_device_def)
    obtain st4 s4 t4 where inv4: "invalidate env ?s3 d ?t2 = (st4, s4, t4)" using prod_cases3 by blast
    note i4 = invalidate_minv [OF i3 d3 inv4]
    have d4: "d < length (md_devices s4)" using i4 d3 by (simp add: same_config_def)
    have out: "(if changed then (if st4 = BVSTK_OK then seed env s4 d t4 else (st4, s4, t4)) else (BVSTK_OK, ?s3, ?t2)) = (st, s', t')"
      using run [unfolded mdio_set_config_locked_def Let_def, folded changed_def] first True inv4 eq
      by (cases changed) (auto split del: if_split)
    show ?thesis
      using out i3 i4 seed_minv [of env s4 t4 d st s' t'] d4 by (auto split: if_splits)
  qed
qed

section \<open>Runs of operations\<close>

text \<open>The operations a client can issue, in any order.\<close>

datatype mdio_op =
    MopRead nat u8 bvstk_event_source_t u32
  | MopWrite nat u8 u16 bvstk_event_source_t u32
  | MopInvalidate nat
  | MopSetPolicy nat mdio_policy_t
  | MopRuleAdd nat mdio_policy_t u8 u16 u16
  | MopRuleRemove nat mdio_policy_t u8 u16 u16
  | MopRuleClear nat mdio_policy_t
  | MopSetConfig nat mdio_phy_config_t
  | MopStep u64 u32

fun mdio_exec :: "mdio_env \<Rightarrow> mdio_op \<Rightarrow> mdio_service \<Rightarrow> mdio_trace \<Rightarrow> mdio_service \<times> mdio_trace" where
  "mdio_exec env (MopRead d r src timeout) s t = snd (snd (bvstk_mdio_service_read_from env s d r True src timeout t))"
| "mdio_exec env (MopWrite d r v src timeout) s t = snd (bvstk_mdio_service_write env s d r v src timeout t)"
| "mdio_exec env (MopInvalidate d) s t = snd (bvstk_mdio_service_invalidate env s d t)"
| "mdio_exec env (MopSetPolicy d p) s t = snd (bvstk_mdio_service_set_policy env s d p t)"
| "mdio_exec env (MopRuleAdd d l r v m) s t = snd (bvstk_mdio_service_rule_add env s d l r v m t)"
| "mdio_exec env (MopRuleRemove d l r v m) s t = snd (bvstk_mdio_service_rule_remove env s d l r v m t)"
| "mdio_exec env (MopRuleClear d l) s t = snd (bvstk_mdio_service_rule_clear_list env s d l t)"
| "mdio_exec env (MopSetConfig d c) s t = snd (bvstk_mdio_service_set_config env s d (Some c) t)"
| "mdio_exec env (MopStep now timeout) s t = snd (bvstk_mdio_service_step env s now timeout t)"

fun mdio_run :: "mdio_env \<Rightarrow> mdio_op list \<Rightarrow> mdio_service \<Rightarrow> mdio_trace \<Rightarrow> mdio_service \<times> mdio_trace" where
  "mdio_run env [] s t = (s, t)"
| "mdio_run env (op # ops) s t = (case mdio_exec env op s t of (s', t') \<Rightarrow> mdio_run env ops s' t')"

lemma exec_read_minv:
  assumes "minv env s t" "bvstk_mdio_service_read_from env s d r out src timeout t = (st, v, s', t')"
  shows "minv env s' t'"
proof (rule locked_minv [OF assms(1) _ assms(2) [unfolded bvstk_mdio_service_read_from_def]])
  fix t1 st x s' t'
  assume i: "minv env s t1" and run: "(let st = check s d r; st = if \<not> out then BVSTK_ERR_MALFORMED else st
    in if st = BVSTK_OK then let (st', v, s', t') = read_phy env s d r src timeout False t1 in (st', if st' = BVSTK_OK then Some v else None, s', t')
       else (st, None, s, t1)) = (st, x, s', t')"
  then show "minv env s' t'"
    using read_phy_minv [OF i, of d r src timeout False] reg_lt_32 [of s d r] i
    by (auto simp: Let_def check_OK minv_def split: if_splits prod.splits)
qed

lemma checked_body:
  assumes "(case st of BVSTK_OK \<Rightarrow> a | st \<Rightarrow> (st, s, t)) = (x, s', t')"
  obtains "st = BVSTK_OK" "a = (x, s', t')" | "s' = s" "t' = t"
  using assms by (cases st) auto

lemma exec_write_minv:
  assumes "minv env s t" "bvstk_mdio_service_write env s d r v src timeout t = (st, s', t')"
  shows "minv env s' t'"
  using assms(2) unfolding bvstk_mdio_service_write_def
  by (rule locked_op_minv [OF assms(1), rotated])
    (erule checked_body, use write_phy_minv in \<open>auto simp: check_OK\<close>)

lemma exec_invalidate_minv:
  assumes "minv env s t" "bvstk_mdio_service_invalidate env s d t = (st, s', t')"
  shows "minv env s' t'"
  using assms(2) unfolding bvstk_mdio_service_invalidate_def
  by (rule locked_op_minv [OF assms(1), rotated])
    (erule checked_body, auto simp: check_OK intro: invalidate_minv [THEN conjunct1])

lemma exec_set_policy_minv:
  assumes "minv env s t" "bvstk_mdio_service_set_policy env s d p t = (st, s', t')"
  shows "minv env s' t'"
proof (rule locked_op_minv [OF assms(1) _ assms(2) [unfolded bvstk_mdio_service_set_policy_def]])
  fix t1 st s' t'
  assume i: "minv env s t1" and run: "(let st = check s d 0; st = if p \<noteq> 0 \<and> p \<noteq> 1 then BVSTK_ERR_MALFORMED else st
     in (st, if st = BVSTK_OK then set_device s d ((md_devices s ! d) \<lparr> mc_policy := p \<rparr>) else s, t1)) = (st, s', t')"
  show "minv env s' t'"
  proof (cases "d < length (md_devices s) \<and> (p = 0 \<or> p = 1)")
    case True
    then have wf: "mdio_config_wf (md_devices s ! d)" using i by (simp add: minv_def mdio_wf_def)
    have "minv env (set_device s d ((md_devices s ! d) \<lparr> mc_policy := p, mc_whitelist := mc_whitelist (md_devices s ! d),
       mc_blacklist := mc_blacklist (md_devices s ! d) \<rparr>)) t1"
      using config_wf_bounds [OF wf] config_wf_rules [OF wf] True by (intro set_rules_minv [OF i]) auto
    then show ?thesis using run i by (auto simp: Let_def split: if_splits)
  qed (use run i in \<open>auto simp: Let_def check_OK split: if_splits\<close>)
qed

lemma exec_rule_add_minv:
  assumes "minv env s t" "bvstk_mdio_service_rule_add env s d list r v m t = (st, s', t')"
  shows "minv env s' t'"
proof (rule locked_op_minv [OF assms(1) _ assms(2) [unfolded bvstk_mdio_service_rule_add_def]])
  fix t1 st s' t'
  assume i: "minv env s t1" and run: "(case policy_list s d list of
         (BVSTK_OK, rules) \<Rightarrow> (case check s d r of
             BVSTK_OK \<Rightarrow> let (st, rules') = rule_add_list rules r v m
               in (st, set_device s d (put_list list rules' (md_devices s ! d)), t1)
           | st \<Rightarrow> (st, s, t1))
       | (st, _) \<Rightarrow> (st, s, t1)) = (st, s', t')"
  obtain pst rules where pl: "policy_list s d list = (pst, rules)" by fastforce
  show "minv env s' t'"
  proof (cases "pst = BVSTK_OK \<and> check s d r = BVSTK_OK")
    case True
    then have rules: "rules = get_list list (md_devices s ! d)" and d: "d < length (md_devices s)"
      using policy_list_OK pl by auto
    obtain ast rules' where a: "rule_add_list rules r v m = (ast, rules')" by fastforce
    have "length rules' \<le> 64" "\<forall>q\<in>set rules'. mrule_reg q < mc_reg_count (md_devices s ! d)"
      using rule_add_list_bounds [OF a] get_list_bounds [OF i d, of list] True by (auto simp: rules check_OK)
    then have "minv env (set_device s d (put_list list rules' (md_devices s ! d))) t1" by (rule put_list_minv [OF i d])
    then show ?thesis using run pl True a by auto
  qed (use run pl i in \<open>auto split: bvstk_status_t.splits\<close>)
qed

lemma exec_rule_remove_minv:
  assumes "minv env s t" "bvstk_mdio_service_rule_remove env s d list r v m t = (st, s', t')"
  shows "minv env s' t'"
proof (rule locked_op_minv [OF assms(1) _ assms(2) [unfolded bvstk_mdio_service_rule_remove_def]])
  fix t1 st s' t'
  assume i: "minv env s t1" and run: "(case policy_list s d list of
         (BVSTK_OK, rules) \<Rightarrow> (case check s d r of
             BVSTK_OK \<Rightarrow>
               if \<not> list_ex (\<lambda>q. policy_rule_equal q r v m) rules then (BVSTK_ERR_NOT_FOUND, s, t1)
               else (BVSTK_OK, set_device s d (put_list list (rule_compact [] rules r v m) (md_devices s ! d)), t1)
           | st \<Rightarrow> (st, s, t1))
       | (st, _) \<Rightarrow> (st, s, t1)) = (st, s', t')"
  obtain pst rules where pl: "policy_list s d list = (pst, rules)" by fastforce
  show "minv env s' t'"
  proof (cases "pst = BVSTK_OK \<and> check s d r = BVSTK_OK")
    case True
    then have rules: "rules = get_list list (md_devices s ! d)" and d: "d < length (md_devices s)"
      using policy_list_OK pl by auto
    have "minv env (set_device s d (put_list list (rule_compact [] rules r v m) (md_devices s ! d))) t1"
      using get_list_bounds [OF i d, of list]
      by (intro put_list_minv [OF i d]) (auto simp: rules rule_compact_filter intro: le_trans [OF length_filter_le])
    then show ?thesis using run pl True i by (auto split: if_splits)
  qed (use run pl i in \<open>auto split: bvstk_status_t.splits\<close>)
qed

lemma exec_rule_clear_minv:
  assumes "minv env s t" "bvstk_mdio_service_rule_clear_list env s d list t = (st, s', t')"
  shows "minv env s' t'"
proof (rule locked_op_minv [OF assms(1) _ assms(2) [unfolded bvstk_mdio_service_rule_clear_list_def]])
  fix t1 st s' t'
  assume i: "minv env s t1" and run: "(case policy_list s d list of
         (BVSTK_OK, rules) \<Rightarrow> (BVSTK_OK, set_device s d (put_list list [] (md_devices s ! d)), t1)
       | (st, _) \<Rightarrow> (st, s, t1)) = (st, s', t')"
  obtain pst rules where pl: "policy_list s d list = (pst, rules)" by fastforce
  then show "minv env s' t'"
    using run i put_list_minv [OF i, of d "[]" list] policy_list_OK [of s d list rules]
    by (cases pst) auto
qed

lemma exec_set_config_minv:
  assumes "minv env s t" "bvstk_mdio_service_set_config env s d config t = (st, s', t')"
  shows "minv env s' t'"
proof (cases "bvstk_mdio_config_validate config = BVSTK_OK")
  case True
  then obtain c where c: "config = Some c" "mdio_config_wf c"
    by (cases config) (auto simp: mdio_config_wf_def bvstk_mdio_config_validate_def)
  show ?thesis
  proof (rule locked_op_minv [OF assms(1) _ assms(2) [unfolded bvstk_mdio_service_set_config_def True bvstk_status_t.case]])
    fix t1 st s' t'
    assume i: "minv env s t1" and run: "(let c = the config; st = check s d 0;
             st = (if st = BVSTK_OK \<and> (mc_name c \<noteq> mc_name (md_devices s ! d) \<or>
                     mc_file_name c \<noteq> mc_file_name (md_devices s ! d)) then BVSTK_ERR_DENIED else st);
             st = (if list_ex (\<lambda>i. i \<noteq> d \<and> mc_phy_addr c = mc_phy_addr (md_devices s ! i)) [0..<length (md_devices s)]
                   then BVSTK_ERR_DENIED else st)
         in if st = BVSTK_OK then mdio_set_config_locked env s d c t1 else (st, s, t1)) = (st, s', t')"
    show "minv env s' t'"
    proof (cases "d < length (md_devices s) \<and> (\<forall>i < length (md_devices s). i \<noteq> d \<longrightarrow> mc_phy_addr (md_devices s ! i) \<noteq> mc_phy_addr c)")
      case True
      then show ?thesis using run i set_config_minv [OF i _ c(2), of d st s' t'] c(1)
        by (auto simp: Let_def split: if_splits)
    qed (use run i c(1) in \<open>auto simp: Let_def check_OK list_ex_iff split: if_splits\<close>)
  qed
qed (use assms in \<open>auto simp: bvstk_mdio_service_set_config_def split: bvstk_status_t.splits\<close>)

lemma exec_step_minv:
  assumes "minv env s t" "bvstk_mdio_service_step env s now timeout t = (st, s', t')"
  shows "minv env s' t'"
  using assms(2) unfolding bvstk_mdio_service_step_def
  by (rule locked_op_minv [OF assms(1), rotated]) (use step_locked_minv in blast)

lemma mdio_exec_minv: "minv env s t \<Longrightarrow> mdio_exec env op s t = (s', t') \<Longrightarrow> minv env s' t'"
proof (cases op)
  case (MopRead d r src timeout)
  moreover assume "minv env s t" "mdio_exec env op s t = (s', t')"
  ultimately show ?thesis using exec_read_minv by (metis mdio_exec.simps(1) prod.collapse)
qed (metis mdio_exec.simps prod.collapse exec_write_minv, metis mdio_exec.simps prod.collapse exec_invalidate_minv,
    metis mdio_exec.simps prod.collapse exec_set_policy_minv, metis mdio_exec.simps prod.collapse exec_rule_add_minv,
    metis mdio_exec.simps prod.collapse exec_rule_remove_minv, metis mdio_exec.simps prod.collapse exec_rule_clear_minv,
    metis mdio_exec.simps prod.collapse exec_set_config_minv, metis mdio_exec.simps prod.collapse exec_step_minv)

lemma mdio_run_minv: "minv env s t \<Longrightarrow> mdio_run env ops s t = (s', t') \<Longrightarrow> minv env s' t'"
proof (induction ops arbitrary: s t)
  case (Cons op ops)
  then show ?case by (auto split: prod.splits dest: mdio_exec_minv)
qed simp

text \<open>The service after a successful initialisation, with the hooks its owner installs next.\<close>

definition with_hooks :: "bvstk_cache_sink_t \<Rightarrow> bool \<Rightarrow> bool \<Rightarrow> bool \<Rightarrow> mdio_service \<Rightarrow> mdio_service" where
  "with_hooks sink notify lk ulk s = s \<lparr> md_sink := sink, md_config_changed := notify, md_mutex_lock := lk, md_mutex_unlock := ulk \<rparr>"

lemma minv_with_hooks [simp]: "minv env (with_hooks sink notify lk ulk s) t \<longleftrightarrow> minv env s t"
  by (simp add: with_hooks_def minv_def mdio_wf_def poll_ok_def mirrored_def can_publish_def mcell_def)

lemma configs_ok_wf:
  "configs_ok earlier cs \<Longrightarrow> (\<forall>c\<in>set cs. mdio_config_wf c) \<and> distinct (map mc_phy_addr cs) \<and>
     (\<forall>c\<in>set cs. \<forall>e\<in>set earlier. mc_phy_addr c \<noteq> mc_phy_addr e)"
proof (induction earlier cs rule: configs_ok.induct)
  case (2 earlier c cs)
  then show ?case by (auto simp: mdio_config_wf_def list_ex_iff split: if_splits)
qed simp

lemma seed_loop_other: "seed_loop vs env s d t = (st, s', t') \<Longrightarrow> d' \<noteq> d \<Longrightarrow> mcell s' d' r = mcell s d' r"
proof (induction vs arbitrary: s t)
  case (Cons v vs)
  then show ?case by (auto simp: Let_def set_mcell_def mcell_def split: prod.splits if_splits)
qed simp

lemma seed_all_minv:
  assumes "minv env s t" and "i + n = length (md_devices s)" and "\<forall>d\<ge>i. \<forall>r<32. d < length (md_devices s) \<longrightarrow> \<not> mce_valid (mcell s d r)"
    and "seed_all n i env s t = (st, s', t')"
  shows "minv env s' t'"
  using assms
proof (induction n arbitrary: i s t)
  case (Suc n)
  obtain st1 s1 t1 where sd: "seed env s i t = (st1, s1, t1)" using prod_cases3 by blast
  have i1: "minv env s1 t1" "md_devices s1 = md_devices s"
    using seed_minv [OF Suc.prems(1) _ _ sd] Suc.prems(2,3) by (auto simp: same_config_def)
  have "\<forall>d\<ge>Suc i. \<forall>r<32. d < length (md_devices s1) \<longrightarrow> \<not> mce_valid (mcell s1 d r)"
    using Suc.prems(3) seed_loop_other [OF sd [unfolded seed_def]] i1(2) by simp
  then show ?case using Suc.IH [OF i1(1), of "Suc i"] Suc.prems(2,4) sd i1 by (auto split: if_splits)
qed simp

lemma init_minv:
  assumes "bvstk_mdio_service_init env service core bus devices count events t = (BVSTK_OK, Some s, t')"
  shows "minv env s t'"
proof -
  define configs where "configs = (case devices of None \<Rightarrow> [] | Some cs \<Rightarrow> take count cs)"
  define s0 where "s0 = zero_mdio_service \<lparr> md_core := core,
     md_bus := (case bus of None \<Rightarrow> md_bus zero_mdio_service | Some b \<Rightarrow> b), md_events := (events = Some True), md_devices := configs \<rparr>"
  let ?t0 = "if core then t @ [MPrepareSlave] else t"
  have ok: "configs_ok [] configs" "count \<le> 8" "service \<noteq> None"
    and run: "\<exists>s1. seed_all (length configs) 0 env s0 ?t0 = (BVSTK_OK, s1, t') \<and> s = s1 \<lparr> md_initialized := True \<rparr>"
    using assms by (auto simp: bvstk_mdio_service_init_def configs_def s0_def Let_def split: if_splits prod.splits)
  have inval: "\<not> mce_valid (mcell s0 d r)" if "d < 8" "r < 32" for d r
    using that by (simp add: s0_def zero_mdio_service_def mcell_def word_less_nat_alt)
  have len: "length configs \<le> 8" using ok(2) by (auto simp: configs_def split: option.splits)
  have "mdio_wf s0"
    using configs_ok_wf [OF ok(1)] len by (auto simp: mdio_wf_def s0_def zero_mdio_service_def poll_ok_def)
  moreover have "md_devices s0 = configs" by (simp add: s0_def)
  ultimately have "minv env s0 ?t0" using inval len by (auto simp: minv_def mirrored_def)
  then show ?thesis
    using run seed_all_minv [of env s0 ?t0 0 "length configs"] inval len \<open>md_devices s0 = configs\<close> by auto
qed

section \<open>What the clients rely on\<close>

text \<open>
  C5: after initialisation, whatever sequence of reads, writes, invalidations, policy and rule
  changes, reconfigurations and worker steps is run, and whatever the bus answers: whenever the
  cached read of a register succeeds, the last publication to that register's cell of the PL
  slave mirror succeeded and carried exactly that value. So the host that reads the mirror and the
  clients that read the cache never disagree on a valid register.
\<close>

theorem mdio_cache_mirrors:
  assumes "bvstk_mdio_service_init env service core bus devices count events t = (BVSTK_OK, Some s0, t0)"
    and "mdio_run env ops (with_hooks sink notify lk ulk s0) t0 = (s, t1)" and "can_publish s"
    and "bvstk_mdio_service_read_cached env (Some s) d r True t1 = (BVSTK_OK, Some v, t2)"
  shows "mirror env t1 (mc_phy_addr (md_devices s ! d)) r = Some v"
proof -
  have inv: "minv env s t1" using mdio_run_minv [OF _ assms(2)] init_minv [OF assms(1)] by simp
  obtain e where e: "check s d r = BVSTK_OK" "e = mcell s d r" "mce_valid e" "v = mce_value e"
    using assms(4) by (auto simp: bvstk_mdio_service_read_cached_def bvstk_mdio_service_cache_entry_def locked_query_def
        checked_out_def Let_def split: bvstk_status_t.splits prod.splits if_splits option.splits)
  then have "d < length (md_devices s)" "r < 32"
    using reg_lt_32 [of s d r] inv by (auto simp: check_OK minv_def)
  then show ?thesis using inv e assms(3) by (auto simp: minv_def mirrored_def)
qed

text \<open>
  after initialisation every run of operations leaves at most eight devices, each with a
  configuration that passes validation, with pairwise distinct bus addresses; the tables keep
  their sizes, and the poll and mailbox positions stay in range.
\<close>

theorem mdio_service_wf:
  assumes "bvstk_mdio_service_init env service core bus devices count events t = (BVSTK_OK, Some s0, t0)"
    and "mdio_run env ops (with_hooks sink notify lk ulk s0) t0 = (s, t1)"
  shows "mdio_wf s"
proof -
  have "minv env s t1" using mdio_run_minv [OF _ assms(2)] init_minv [OF assms(1)] by simp
  then show ?thesis by (simp add: minv_def)
qed

text \<open>A device with four registers and one setting, on a bus that answers every read with 7.\<close>

definition demo_profile :: bvstk_profile_metadata_t where
  "demo_profile = \<lparr> pm_version = 0, pm_vendor = [], pm_model = [], pm_device_class = [], pm_label = [],
     pm_register_map = [], pm_view = [], pm_id_offset = [], pm_ids_size = 0, pm_ids = [] \<rparr>"

definition demo_phy :: mdio_phy_config_t where
  "demo_phy = \<lparr> mc_name = ascii ''phy0'', mc_file_name = [], mc_phy_addr = 1, mc_reg_count = 4, mc_policy = 1,
     mc_autopoll_enabled = False, mc_autopoll_regs = [], mc_autopoll_reg_delay_ms = 0, mc_autopoll_cycle_delay_ms = 50,
     mc_whitelist = [], mc_blacklist = [\<lparr> mrule_reg = 3, mrule_val = 0, mrule_mask = 0 \<rparr>],
     mc_settings = [\<lparr> set_reg = 2, set_pad = 0, set_val = 9 \<rparr>], mc_settings_len = 1, mc_profile = demo_profile \<rparr>"

definition demo_mdio_env :: mdio_env where
  "demo_mdio_env = \<lparr> menv_now_ms = (\<lambda>t. 5), menv_lock = (\<lambda>t. BVSTK_OK), menv_read = (\<lambda>t p r to. (BVSTK_OK, 7)),
     menv_write = (\<lambda>t p r v to. BVSTK_OK), menv_take = (\<lambda>t p r. (BVSTK_ERR_NOT_FOUND, 0)),
     menv_publish = (\<lambda>t p r v. BVSTK_OK), menv_prepare = (\<lambda>t. BVSTK_OK), menv_ack = (\<lambda>t. BVSTK_OK) \<rparr>"

definition demo_mdio :: "bvstk_status_t \<times> mdio_service option \<times> mdio_trace" where
  "demo_mdio = bvstk_mdio_service_init demo_mdio_env (Some zero_mdio_service) True None (Some [demo_phy]) 1 (Some True) []"

definition demo_service :: mdio_service where "demo_service = the (fst (snd demo_mdio))"
definition demo_trace :: mdio_trace where "demo_trace = snd (snd demo_mdio)"

lemma demo_init: "bvstk_mdio_service_init demo_mdio_env (Some zero_mdio_service) True None (Some [demo_phy]) 1 (Some True) [] =
    (BVSTK_OK, Some demo_service, demo_trace)"
proof -
  have "fst demo_mdio = BVSTK_OK" "fst (snd demo_mdio) \<noteq> None" by code_simp+
  then show ?thesis by (simp add: demo_mdio_def demo_service_def demo_trace_def prod_eq_iff)
qed

definition demo_after :: "mdio_service \<times> mdio_trace" where
  "demo_after = mdio_run demo_mdio_env [MopWrite 0 1 5 BVSTK_EVENT_SOURCE_DCP 10]
     (with_hooks no_sink False False False demo_service) demo_trace"

theorem mdio_cache_mirrors_witness:
  "bvstk_mdio_service_read_cached demo_mdio_env (Some (fst demo_after)) 0 1 True (snd demo_after) = (BVSTK_OK, Some 7, snd demo_after) \<and>
   mirror demo_mdio_env (snd demo_after) 1 1 = Some 7"
proof -
  have rd: "bvstk_mdio_service_read_cached demo_mdio_env (Some (fst demo_after)) 0 1 True (snd demo_after) = (BVSTK_OK, Some 7, snd demo_after)"
    by code_simp
  have run: "mdio_run demo_mdio_env [MopWrite 0 1 5 BVSTK_EVENT_SOURCE_DCP 10]
     (with_hooks no_sink False False False demo_service) demo_trace = (fst demo_after, snd demo_after)"
    unfolding prod.collapse by (rule demo_after_def [symmetric])
  have "can_publish (fst demo_after)" "mc_phy_addr (md_devices (fst demo_after) ! 0) = 1" by code_simp+
  then show ?thesis using mdio_cache_mirrors [OF demo_init run _ rd] rd by simp
qed

theorem mdio_service_wf_witness: "mdio_wf (fst demo_after)"
  using mdio_service_wf [OF demo_init, of "[MopWrite 0 1 5 BVSTK_EVENT_SOURCE_DCP 10]" no_sink False False False
      "fst demo_after" "snd demo_after"] by (simp add: demo_after_def)

end
