(* ===== verification/Mdio_Traffic.thy ===== *)
theory Mdio_Traffic
  imports Mdio_Invariant
begin

text \<open>
  The bus traffic of the MDIO service: which frames a write, a worker step or a run of operations puts
  on the wire, in which order, and that none of them escapes the write policy.
\<close>

section \<open>Frames and events of a trace\<close>

fun is_frame :: "mdio_action \<Rightarrow> bool" where
  "is_frame (MRead p r to) = True"
| "is_frame (MWrite p r v src to) = True"
| "is_frame _ = False"

fun is_take :: "mdio_action \<Rightarrow> bool" where
  "is_take (MTake p r) = True"
| "is_take _ = False"

definition frames :: "mdio_trace \<Rightarrow> mdio_trace" where
  "frames t = filter is_frame t"

definition takes :: "mdio_trace \<Rightarrow> mdio_trace" where
  "takes t = filter is_take t"

fun event_of :: "mdio_action \<Rightarrow> u16 list" where
  "event_of (MEvent e) = [ev_type e]"
| "event_of _ = []"

definition event_types :: "mdio_trace \<Rightarrow> u16 list" where
  "event_types t = concat (map event_of t)"

lemma trace_append [simp]:
  "frames (t @ u) = frames t @ frames u" "takes (t @ u) = takes t @ takes u" "event_types (t @ u) = event_types t @ event_types u"
  "frames [] = []" "takes [] = []" "event_types [] = []"
  by (simp_all add: frames_def takes_def event_types_def)

lemma trace_single [simp]:
  "frames [a] = (if is_frame a then [a] else [])" "takes [a] = (if is_take a then [a] else [])" "event_types [a] = event_of a"
  by (simp_all add: frames_def takes_def event_types_def)

lemma emit_trace [simp]:
  "frames (mdio_emit_flags env s ty st src p r v fl t) = frames t"
  "takes (mdio_emit_flags env s ty st src p r v fl t) = takes t"
  "event_types (mdio_emit_flags env s ty st src p r v fl t) = event_types t @ (if md_events s then [ty] else [])"
  "frames (mdio_emit env s ty st src p r v t) = frames t"
  "takes (mdio_emit env s ty st src p r v t) = takes t"
  "event_types (mdio_emit env s ty st src p r v t) = event_types t @ (if md_events s then [ty] else [])"
  by (simp_all add: mdio_emit_def mdio_emit_flags_def)

lemma notify_trace [simp]:
  "frames (cache_changed s d r t) = frames t" "takes (cache_changed s d r t) = takes t" "event_types (cache_changed s d r t) = event_types t"
  "frames (presence_changed s d p t) = frames t" "takes (presence_changed s d p t) = takes t"
  "event_types (presence_changed s d p t) = event_types t"
  by (simp_all add: cache_changed_def presence_changed_def Let_def)

lemma notify_regs_trace [simp]:
  "frames (notify_regs n r s d t) = frames t" "takes (notify_regs n r s d t) = takes t" "event_types (notify_regs n r s d t) = event_types t"
  by (induction n r s d t rule: notify_regs.induct) simp_all

lemma publish_frames:
  "publish env s p r v t = (st, t') \<Longrightarrow> frames t' = frames t \<and> takes t' = takes t \<and> event_types t' = event_types t"
  by (auto simp: publish_def split: if_splits)

lemma clear_mirror_frames:
  "clear_mirror n r env s phy res t = (st, t') \<Longrightarrow> frames t' = frames t \<and> takes t' = takes t \<and> event_types t' = event_types t"
proof (induction n arbitrary: r res t)
  case (Suc n)
  then show ?case by (auto simp: Let_def split: prod.splits dest!: publish_frames Suc.IH)
qed simp

lemma invalidate_frames:
  "invalidate env s d t = (st, s', t') \<Longrightarrow> frames t' = frames t \<and> takes t' = takes t \<and> event_types t' = event_types t"
  by (auto simp: invalidate_def Let_def split: prod.splits dest!: clear_mirror_frames)

lemma drop_cached_frames:
  "drop_cached env s d r v t = (s', t') \<Longrightarrow> frames t' = frames t \<and> takes t' = takes t \<and> event_types t' = event_types t"
  by (auto simp: drop_cached_def Let_def split: if_splits prod.splits dest!: publish_frames invalidate_frames)

lemma mlock_trace: "mlock env service t = (st, t') \<Longrightarrow> frames t' = frames t \<and> takes t' = takes t \<and> event_types t' = event_types t"
  by (auto simp: mlock_def split: option.splits if_splits)

lemma munlock_trace [simp]: "frames (munlock s t) = frames t" "takes (munlock s t) = takes t" "event_types (munlock s t) = event_types t"
  by (simp_all add: munlock_def)

definition can_read :: "mdio_service \<Rightarrow> bool" where
  "can_read s \<longleftrightarrow> bus_read (md_bus s) \<or> md_core s"

definition can_write :: "mdio_service \<Rightarrow> bool" where
  "can_write s \<longleftrightarrow> bus_write (md_bus s) \<or> md_core s"

text \<open>A register read puts one read frame on the wire and emits one event.\<close>

lemma read_phy_frames:
  assumes "read_phy env s d r src timeout probe t = (st, v, s', t')"
  shows "frames t' = frames t @ (if can_read s then [MRead (mc_phy_addr (md_devices s ! d)) r timeout] else []) \<and>
    takes t' = takes t \<and> event_types t' = event_types t @ (if md_events s then [BVSTK_EVENT_MASTER_READ] else [])"
proof -
  let ?phy = "mc_phy_addr (md_devices s ! d)"
  obtain bst bv t1 where b: "mbus_read env s ?phy r timeout t = (bst, bv, t1)" using prod_cases3 by blast
  have t1: "frames t1 = frames t @ (if can_read s then [MRead ?phy r timeout] else [])" "takes t1 = takes t"
    "event_types t1 = event_types t"
    using b by (auto simp: mbus_read_def can_read_def split: if_splits prod.splits)
  show ?thesis
    using assms b t1 unfolding read_phy_def Let_def
    by (auto simp: split_beta publish_frames [OF prod.collapse [symmetric]] split: if_splits)
qed

text \<open>What a read leaves in the cache: the value the bus returned, when the mirror took it.\<close>

lemma read_phy_cell:
  assumes wf: "mdio_wf s" and d: "d < length (md_devices s)" and r: "r < 32"
    and run: "read_phy env s d r src timeout probe t = (st, v, s', t')"
  shows "mce_valid (mcell s' d r) \<longleftrightarrow> st = BVSTK_OK"
    and "st = BVSTK_OK \<Longrightarrow> can_read s \<and> menv_read env t (mc_phy_addr (md_devices s ! d)) r timeout = (BVSTK_OK, v) \<and>
      mce_value (mcell s' d r) = v \<and> \<not> mce_seeded (mcell s' d r)"
proof -
  let ?phy = "mc_phy_addr (md_devices s ! d)"
  let ?s2 = "upd_stats (\<lambda>c. c \<lparr> st_reads := st_reads c + 1 \<rparr>) s"
  have wf2: "mdio_wf ?s2" "d < 8" using wf d by (auto simp: mdio_wf_def poll_ok_def)
  note cell = mcell_set_mcell [OF wf2 r]
  show "mce_valid (mcell s' d r) \<longleftrightarrow> st = BVSTK_OK"
    using run by (auto simp: read_phy_def Let_def split_beta cell split: if_splits)
  show "can_read s \<and> menv_read env t ?phy r timeout = (BVSTK_OK, v) \<and>
      mce_value (mcell s' d r) = v \<and> \<not> mce_seeded (mcell s' d r)" if "st = BVSTK_OK"
    using run that by (auto simp: read_phy_def mbus_read_def can_read_def Let_def split_beta cell prod_eq_iff split: if_splits)
qed

section \<open>Writes\<close>

lemma locked_op_OK:
  assumes "locked_op env s f t = (st, s', t')" and "mlock env (Some s) t = (BVSTK_OK, t1)"
  obtains ts where "f t1 = (st, s', ts)" "t' = munlock s' ts"
  using assms by (auto simp: locked_op_def locked_def split: prod.splits)

text \<open>The commands that drop a cached value do not change what the traffic depends on.\<close>

lemma drop_cached_config: "drop_cached env s d r v t = (s', t') \<Longrightarrow> same_config s s'"
  by (auto simp: drop_cached_def invalidate_def Let_def split: if_splits prod.splits)

lemma same_configD:
  assumes "same_config s s'"
  shows "md_devices s' = md_devices s" "can_read s' = can_read s" "can_write s' = can_write s" "md_events s' = md_events s"
    "can_publish s' = can_publish s"
  using assms by (simp_all add: same_config_def can_read_def can_write_def can_publish_def)

lemma mbus_write_trace:
  assumes "mbus_write env s phy r v src timeout t = (st, t')"
  shows "frames t' = frames t @ (if can_write s then [MWrite phy r v src timeout] else [])" "takes t' = takes t"
    "event_types t' = event_types t" "\<not> can_write s \<Longrightarrow> st = BVSTK_ERR_NOT_READY"
  using assms by (auto simp: mbus_write_def can_write_def split: if_splits)

lemma write_phy_denied:
  assumes "\<not> bvstk_mdio_policy_allows (Some (md_devices s ! d)) r v"
    and "write_phy env s d r v src timeout t = (st, s', t')"
  shows "st = BVSTK_ERR_DENIED \<and> frames t' = frames t \<and> takes t' = takes t \<and> md_cache s' = md_cache s \<and>
    event_types t' = event_types t @ (if md_events s then [BVSTK_EVENT_REG_ATTEMPT, BVSTK_EVENT_REG_DENIED] else []) \<and>
    st_denied (md_stats s') = st_denied (md_stats s) + 1"
  using assms by (auto simp: write_phy_eq Let_def upd_stats_def)

lemma write_phy_allowed:
  assumes wf: "minv env s t" and d: "d < length (md_devices s)"
    and ok: "bvstk_mdio_policy_allows (Some (md_devices s ! d)) r v"
    and run: "write_phy env s d r v src timeout t = (st, s', t')"
  shows "frames t' = frames t @ (if can_write s then [MWrite (mc_phy_addr (md_devices s ! d)) r v src timeout] else []) @
      (if st = BVSTK_OK \<and> can_read s then [MRead (mc_phy_addr (md_devices s ! d)) r timeout] else [])" (is ?A)
    and "takes t' = takes t" (is ?B)
    and "event_types t' = event_types t @ (if md_events s then
        (if st = BVSTK_OK then [BVSTK_EVENT_REG_ATTEMPT, BVSTK_EVENT_MASTER_WRITE, BVSTK_EVENT_MASTER_READ, BVSTK_EVENT_REG_COMMIT]
         else [BVSTK_EVENT_REG_ATTEMPT, BVSTK_EVENT_MASTER_WRITE, BVSTK_EVENT_FAULT]) else [])" (is ?C)
    and "mce_valid (mcell s' d r) \<Longrightarrow> st = BVSTK_OK \<and> \<not> mce_seeded (mcell s' d r) \<and>
      (\<exists>tr. frames tr = frames t @ [MWrite (mc_phy_addr (md_devices s ! d)) r v src timeout] \<and>
         menv_read env tr (mc_phy_addr (md_devices s ! d)) r timeout = (BVSTK_OK, mce_value (mcell s' d r)))" (is "?V \<Longrightarrow> ?D")
proof -
  have r: "r < 32" using wf d ok by (intro allows_lt_32 [of s d r v]) (simp_all add: minv_def)
  let ?phy = "mc_phy_addr (md_devices s ! d)"
  let ?s0 = "upd_stats (\<lambda>c. c \<lparr> st_last_phy := ?phy, st_last_reg := r, st_last_value := v, st_last_source := source_code src \<rparr>) s"
  let ?t0 = "mdio_emit env ?s0 BVSTK_EVENT_REG_ATTEMPT BVSTK_OK src ?phy r v t"
  obtain s2 t2 where dc: "drop_cached env ?s0 d r v ?t0 = (s2, t2)" by fastforce
  have i0: "minv env ?s0 ?t0" using wf by (auto intro: minv_mirror)
  have i2: "mdio_wf s2" "same_config s s2" "\<not> mce_valid (mcell s2 d r)"
    using drop_cached_minv [OF i0 _ r dc] d by (simp_all add: minv_def)
  note sc = same_configD [OF i2(2)] and fr = drop_cached_frames [OF dc]
  obtain wst t3 where w: "mbus_write env s2 ?phy r v src timeout t2 = (wst, t3)" by fastforce
  note wt = mbus_write_trace [OF w]
  let ?t4 = "mdio_emit_flags env s2 BVSTK_EVENT_MASTER_WRITE wst src ?phy r v
     (if md_online s ! d then BVSTK_EVENT_FLAG_NONE else BVSTK_EVENT_FLAG_TELEMETRY_UNCONFIRMED) t3"
  let ?s5 = "upd_stats (\<lambda>c. c \<lparr> st_writes := st_writes c + 1 \<rparr>) s2"
  obtain rst rv s6 t6 where rd: "read_phy env ?s5 d r src timeout False ?t4 = (rst, rv, s6, t6)" using prod_cases4 by blast
  have s5: "mdio_wf ?s5" "d < length (md_devices ?s5)" using i2 d sc by (simp_all add: mdio_wf_def poll_ok_def)
  note rf = read_phy_frames [OF rd] and rc = read_phy_cell [OF s5 r rd]
  have st: "st = wst" using run ok dc w rd by (auto simp: write_phy_eq Let_def split: if_splits)
  have "minv env s2 t2" using drop_cached_minv [OF i0 _ r dc] d by simp
  then have "minv env ?s5 ?t4" using mbus_write_frame [OF w] by (auto intro: minv_mirror)
  then have "same_config ?s5 s6" using read_phy_minv [OF _ s5(2) r rd] by blast
  then have ev: "md_events s6 = md_events s" "can_read ?s5 = can_read s" "can_write ?s5 = can_write s" "md_events s2 = md_events s"
    "md_devices ?s5 = md_devices s"
    using sc by (auto simp: same_config_def can_read_def can_write_def)
  let ?s7 = "s6 \<lparr> md_poll_due := (md_poll_due s6)[d := 0], md_poll_index := (md_poll_index s6)[d := 0] \<rparr>"
  have out: "(s', t') = (if wst = BVSTK_OK
      then (upd_stats (\<lambda>c. c \<lparr> st_last_status := wst \<rparr>) ?s7, mdio_emit env ?s7 BVSTK_EVENT_REG_COMMIT wst src ?phy r v t6)
      else (upd_stats (\<lambda>c. c \<lparr> st_last_status := wst \<rparr>) (count_errors s2), mdio_emit env (count_errors s2) BVSTK_EVENT_FAULT wst src ?phy r v ?t4))"
    using run ok dc w rd by (auto simp: write_phy_eq Let_def split: if_splits)
  show ?A ?B ?C
    using out rf wt(1,2,3) fr ev sc st by (cases "wst = BVSTK_OK"; simp)+
  show ?D if v: ?V
  proof (cases "wst = BVSTK_OK")
    case True
    then have s': "s' = upd_stats (\<lambda>c. c \<lparr> st_last_status := wst \<rparr>) ?s7" using out by simp
    have "mcell s' d r = mcell s6 d r" by (simp add: s' mcell_def)
    with v rc have "menv_read env ?t4 ?phy r timeout = (BVSTK_OK, mce_value (mcell s' d r))" "\<not> mce_seeded (mcell s' d r)"
      using ev by auto
    moreover have "frames ?t4 = frames t @ [MWrite ?phy r v src timeout]"
      using wt True fr sc by auto
    ultimately show ?thesis using st True by blast
  next
    case False
    then have "mcell s' d r = mcell s2 d r" using out by simp
    then show ?thesis using v i2 by simp
  qed
qed

text \<open>
  C3: a register write is decided by the policy before anything reaches the bus. A denied write
  returns \<open>BVSTK_ERR_DENIED\<close>, puts no frame on the wire, leaves the whole cache as it was and is
  reported as an attempt and a denial. A permitted write sends exactly its one write frame,
  followed by one read-back frame only when the bus accepted it (never a retry), and is reported
  as attempt, telemetry, and commit or fault. Afterwards a valid cached value of the register is
  always what the read-back returned, never the value that was written.
\<close>

theorem mdio_write_traffic:
  assumes inv: "minv env s t" and lk: "mlock env (Some s) t = (BVSTK_OK, t1)" and chk: "check s d r = BVSTK_OK"
    and bus: "can_write s" "can_read s" and ev: "md_events s"
    and run: "bvstk_mdio_service_write env s d r v src timeout t = (st, s', t')"
  shows "let phy = mc_phy_addr (md_devices s ! d); allowed = bvstk_mdio_policy_allows (Some (md_devices s ! d)) r v in
    frames t' = frames t @ (if allowed then MWrite phy r v src timeout # (if st = BVSTK_OK then [MRead phy r timeout] else []) else []) \<and>
    event_types t' = event_types t @ (if \<not> allowed then [BVSTK_EVENT_REG_ATTEMPT, BVSTK_EVENT_REG_DENIED]
       else if st = BVSTK_OK then [BVSTK_EVENT_REG_ATTEMPT, BVSTK_EVENT_MASTER_WRITE, BVSTK_EVENT_MASTER_READ, BVSTK_EVENT_REG_COMMIT]
       else [BVSTK_EVENT_REG_ATTEMPT, BVSTK_EVENT_MASTER_WRITE, BVSTK_EVENT_FAULT]) \<and>
    (\<not> allowed \<longrightarrow> st = BVSTK_ERR_DENIED \<and> md_cache s' = md_cache s \<and> st_denied (md_stats s') = st_denied (md_stats s) + 1) \<and>
    (allowed \<and> mce_valid (mcell s' d r) \<longrightarrow> st = BVSTK_OK \<and>
       (\<exists>tr. frames tr = frames t @ [MWrite phy r v src timeout] \<and>
          menv_read env tr phy r timeout = (BVSTK_OK, mce_value (mcell s' d r))))"
proof -
  obtain ts where w: "write_phy env s d r v src timeout t1 = (st, s', ts)" and t': "t' = munlock s' ts"
    using run lk chk unfolding bvstk_mdio_service_write_def by (auto elim: locked_op_OK)
  have i1: "minv env s t1" using inv mlock_mirror [OF lk] by (rule minv_mirror)
  have d: "d < length (md_devices s)" using chk by (simp add: check_OK)
  note lt = mlock_trace [OF lk]
  show ?thesis
  proof (cases "bvstk_mdio_policy_allows (Some (md_devices s ! d)) r v")
    case True
    from write_phy_allowed [OF i1 d True w] show ?thesis using True bus ev lt by (simp add: t' Let_def)
  next
    case False
    from write_phy_denied [OF False w] show ?thesis using False ev lt by (simp add: t' Let_def)
  qed
qed

theorem mdio_write_traffic_witness:
  "frames (snd (snd (bvstk_mdio_service_write demo_mdio_env demo_service 0 3 5 BVSTK_EVENT_SOURCE_DCP 10 demo_trace))) = frames demo_trace \<and>
   fst (bvstk_mdio_service_write demo_mdio_env demo_service 0 3 5 BVSTK_EVENT_SOURCE_DCP 10 demo_trace) = BVSTK_ERR_DENIED"
proof -
  have inv: "minv demo_mdio_env demo_service demo_trace" by (rule init_minv [OF demo_init])
  have lk: "mlock demo_mdio_env (Some demo_service) demo_trace = (BVSTK_OK, demo_trace)"
    and chk: "check demo_service 0 3 = BVSTK_OK"
    and bus: "can_write demo_service" "can_read demo_service" "md_events demo_service"
    and den: "\<not> bvstk_mdio_policy_allows (Some (md_devices demo_service ! 0)) 3 5"
    by code_simp+
  show ?thesis
    using mdio_write_traffic [OF inv lk chk bus prod.collapse [symmetric, THEN trans, OF arg_cong [where f = "Pair _"], OF prod.collapse [symmetric]], of 5 BVSTK_EVENT_SOURCE_DCP 10]
      den by (simp add: Let_def)
qed

section \<open>The worker step\<close>

fun is_write_frame :: "mdio_action \<Rightarrow> bool" where
  "is_write_frame (MWrite p r v src to) = True"
| "is_write_frame _ = False"

text \<open>A write frame that the policy of a configured device permits.\<close>

fun permitted_frame :: "mdio_phy_config_t list \<Rightarrow> mdio_action \<Rightarrow> bool" where
  "permitted_frame cs (MWrite p r v src to) = (\<exists>c\<in>set cs. mc_phy_addr c = p \<and> bvstk_mdio_policy_allows (Some c) r v)"
| "permitted_frame cs _ = True"

text \<open>The next \<open>n\<close> mailboxes from position \<open>k\<close>, in cyclic order.\<close>

definition mailboxes :: "nat \<Rightarrow> nat \<Rightarrow> mdio_trace" where
  "mailboxes k n = map (\<lambda>i. let j = (k + i) mod 1024 in MTake (of_nat (j div 32)) (of_nat (j mod 32))) [0..<n]"

lemma mailboxes_Suc:
  "k < 1024 \<Longrightarrow> mailboxes k (Suc n) = MTake (of_nat (k div 32)) (of_nat (k mod 32)) # mailboxes ((k + 1) mod 1024) n"
  by (simp add: mailboxes_def upt_conv_Cons map_Suc_upt [symmetric] Let_def mod_simps del: upt_Suc)

lemma mailboxes_0 [simp]: "mailboxes k 0 = []"
  by (simp add: mailboxes_def)

lemma invalidate_scan: "invalidate env s d t = (st, s', t') \<Longrightarrow> md_scan_index s' = md_scan_index s"
  by (auto simp: invalidate_def Let_def split: prod.splits)

lemma read_phy_scan: "read_phy env s d r src timeout probe t = (st, v, s', t') \<Longrightarrow> md_scan_index s' = md_scan_index s"
  by (auto simp: read_phy_def Let_def split_beta split: if_splits)

lemma drop_cached_scan: "drop_cached env s d r v t = (s', t') \<Longrightarrow> md_scan_index s' = md_scan_index s"
  by (auto simp: drop_cached_def Let_def split: if_splits prod.splits dest!: invalidate_scan)

lemma write_phy_scan: "write_phy env s d r v src timeout t = (st, s', t') \<Longrightarrow> md_scan_index s' = md_scan_index s"
  by (auto simp: write_phy_eq Let_def split: if_splits prod.splits dest!: drop_cached_scan read_phy_scan)

text \<open>The frames of one captured write.\<close>

lemma write_phy_step_frames:
  assumes "minv env s t" "d < length (md_devices s)" "write_phy env s d r v src timeout t = (st, s', t')"
  shows "\<exists>u. frames t' = frames t @ u \<and> takes t' = takes t \<and> list_all (permitted_frame (md_devices s)) u \<and>
    length (filter is_write_frame u) \<le> 1 \<and> length u \<le> 2"
proof (cases "bvstk_mdio_policy_allows (Some (md_devices s ! d)) r v")
  case True
  then show ?thesis
    using write_phy_allowed(1,2) [OF assms(1,2) True assms(3)] assms(2) by (auto intro: nth_mem)
qed (use write_phy_denied [OF _ assms(3)] in auto)

lemma scan_frames:
  assumes "minv env s t" and "scan_mailboxes n taken env timeout result s t = (st, s', t')" and "taken \<le> 4"
  shows "\<exists>u m. frames t' = frames t @ u \<and> list_all (permitted_frame (md_devices s)) u \<and>
    length (filter is_write_frame u) \<le> 4 - taken \<and> length u \<le> 2 * (4 - taken) \<and>
    m \<le> n \<and> takes t' = takes t @ mailboxes (md_scan_index s) m \<and> md_scan_index s' = (md_scan_index s + m) mod 1024"
  using assms
proof (induction n arbitrary: taken result s t)
  case 0
  then show ?case by (auto simp: minv_def mdio_wf_def intro!: exI [of _ "0::nat"])
next
  case (Suc n)
  let ?k = "md_scan_index s"
  have k: "?k < 1024" using Suc.prems(1) by (simp add: minv_def mdio_wf_def)
  let ?phy = "of_nat (?k div 32)" and ?reg = "of_nat (?k mod 32)"
  let ?s1 = "s \<lparr> md_scan_index := (?k + 1) mod 1024 \<rparr>" and ?t1 = "t @ [MTake ?phy ?reg]"
  obtain tst v where tk: "menv_take env t ?phy ?reg = (tst, v)" by fastforce
  have i1: "minv env ?s1 ?t1" by (rule minv_mirror [OF minv_sched(4) [OF Suc.prems(1)]]) simp_all
  have more: "\<exists>u m. frames t' = frames t @ u \<and> list_all (permitted_frame (md_devices s)) u \<and>
    length (filter is_write_frame u) \<le> 4 - taken \<and> length u \<le> 2 * (4 - taken) \<and>
    m \<le> Suc n \<and> takes t' = takes t @ mailboxes ?k m \<and> md_scan_index s' = (?k + m) mod 1024"
    if "scan_mailboxes n taken' env timeout result' s3 t3 = (st, s', t')" "minv env s3 t3" "taken' \<le> 4"
      "frames t3 = frames t @ w" "takes t3 = takes ?t1" "list_all (permitted_frame (md_devices s)) w" "md_devices s3 = md_devices s"
      "length (filter is_write_frame w) \<le> taken' - taken" "length w \<le> 2 * (taken' - taken)" "taken \<le> taken'"
      "md_scan_index s3 = (?k + 1) mod 1024" for taken' result' s3 t3 w
  proof -
    note as = that
    obtain u m where "frames t' = frames t3 @ u" "list_all (permitted_frame (md_devices s)) u"
      "length (filter is_write_frame u) \<le> 4 - taken'" "length u \<le> 2 * (4 - taken')" "m \<le> n"
      "takes t' = takes t3 @ mailboxes ((?k + 1) mod 1024) m" "md_scan_index s' = ((?k + 1) mod 1024 + m) mod 1024"
      using Suc.IH [OF as(2,1,3)] as(7,11) by auto
    then show ?thesis
      using as(4-10) as(3) k mailboxes_Suc [OF k, of m]
      by (intro exI [of _ "w @ u"] exI [of _ "Suc m"]) (auto simp: mod_simps)
  qed
  show ?case
  proof (cases "taken < 4 \<and> (tst = BVSTK_OK \<or> tst = BVSTK_ERR_NOT_FOUND)")
    case False
    show ?thesis
    proof (cases "taken < 4")
      case True
      then show ?thesis using False Suc.prems(2) tk k mailboxes_Suc [OF k, of 0]
        by (intro exI [of _ "[]"] exI [of _ "1::nat"]) (auto simp: Let_def)
    next
      case no: False
      then show ?thesis using Suc.prems(2) k by (intro exI [of _ "[]"] exI [of _ "0::nat"]) auto
    qed
  next
    case True
    show ?thesis
    proof (cases "tst = BVSTK_OK")
      case False
      then show ?thesis using True Suc.prems(2,3) tk i1 by (intro more [of taken result ?s1 ?t1 "[]"]) (auto simp: Let_def)
    next
      case ok: True
      let ?s2 = "upd_stats (\<lambda>c. c \<lparr> st_observed := st_observed c + 1 \<rparr>) ?s1"
      let ?d = "find_phy ?s2 ?phy"
      let ?t2 = "mdio_emit_flags env ?s2 BVSTK_EVENT_CAPTURE_WRITE BVSTK_OK BVSTK_EVENT_SOURCE_HOST ?phy ?reg v
        (if ?d < length (md_devices ?s2) \<and> md_online ?s2 ! ?d then BVSTK_EVENT_FLAG_NONE
         else BVSTK_EVENT_FLAG_TELEMETRY_UNCONFIRMED) ?t1"
      have i2: "minv env ?s2 ?t2" using i1 by (auto intro: minv_mirror)
      show ?thesis
      proof (cases "?d = length (md_devices ?s2)")
        case unknown: True
        let ?s3 = "upd_stats (\<lambda>c. c \<lparr> st_unknown_phy := st_unknown_phy c + 1, st_denied := st_denied c + 1 \<rparr>) ?s2"
        let ?t4 = "mdio_emit env ?s3 BVSTK_EVENT_REG_DENIED BVSTK_ERR_NOT_FOUND BVSTK_EVENT_SOURCE_HOST ?phy ?reg v
          (mdio_emit env ?s3 BVSTK_EVENT_REG_ATTEMPT BVSTK_OK BVSTK_EVENT_SOURCE_HOST ?phy ?reg v ?t2)"
        have i3: "minv env ?s3 ?t4" using i2 by (auto intro: minv_mirror)
        have "scan_mailboxes n (taken + 1) env timeout result ?s3 ?t4 = (st, s', t')"
          using Suc.prems(2) True ok tk unknown by (simp add: Let_def)
        then show ?thesis using True i3 by (intro more [of "taken + 1" result ?s3 ?t4 "[]"]) auto
      next
        case False
        then have d: "?d < length (md_devices ?s2)" by (rule find_phy_lt)
        obtain wst s3 t3 where w: "write_phy env ?s2 ?d ?reg v BVSTK_EVENT_SOURCE_HOST timeout ?t2 = (wst, s3, t3)" using prod_cases3 by blast
        have i3: "minv env s3 t3" "md_devices s3 = md_devices s" using write_phy_minv [OF i2 d w] by (auto simp: same_config_def)
        obtain u where u: "frames t3 = frames ?t2 @ u" "takes t3 = takes ?t2" "list_all (permitted_frame (md_devices s)) u"
          "length (filter is_write_frame u) \<le> 1" "length u \<le> 2"
          using write_phy_step_frames [OF i2 d w] by auto
        have "scan_mailboxes n (taken + 1) env timeout (if wst \<noteq> BVSTK_OK \<and> wst \<noteq> BVSTK_ERR_DENIED then wst else result) s3 t3 = (st, s', t')"
          using Suc.prems(2) True ok tk False w by (simp add: Let_def split: if_splits)
        then show ?thesis using True i3 u write_phy_scan [OF w] by (intro more [of "taken + 1" _ s3 t3 u]) auto
      qed
    qed
  qed
qed

lemma permitted_read [simp]: "permitted_frame cs (MRead p r to)" "\<not> is_write_frame (MRead p r to)"
  by simp_all

lemma invalidate_quiet:
  "invalidate env s d t = (st, s', t') \<Longrightarrow> frames t' = frames t \<and> takes t' = takes t \<and> md_scan_index s' = md_scan_index s"
  using invalidate_frames invalidate_scan by blast

lemma read_phy_quiet:
  "read_phy env s d r src timeout probe t = (st, v, s', t') \<Longrightarrow>
    (\<exists>u. frames t' = frames t @ u \<and> list_all (permitted_frame cs) u \<and> filter is_write_frame u = [] \<and> length u \<le> 1) \<and>
    takes t' = takes t \<and> md_scan_index s' = md_scan_index s"
  using read_phy_frames [of env s d r src timeout probe t st v s' t'] read_phy_scan [of env s d r src timeout probe t st v s' t'] by auto

lemma probe_frames:
  assumes "probe_device env s d now timeout result t = (st, s', t')"
  shows "\<exists>u. frames t' = frames t @ u \<and> takes t' = takes t \<and> md_scan_index s' = md_scan_index s \<and>
    list_all (permitted_frame cs) u \<and> filter is_write_frame u = [] \<and> length u \<le> 2"
proof -
  obtain st1 id1 s1 t1 where r1: "read_phy env s d 2 BVSTK_EVENT_SOURCE_INTERNAL timeout True t = (st1, id1, s1, t1)"
    using prod_cases4 by blast
  obtain st2 id2 s2 t2 where r2: "(if st1 = BVSTK_OK then read_phy env s1 d 3 BVSTK_EVENT_SOURCE_INTERNAL timeout True t1
      else (st1, 0, s1, t1)) = (st2, id2, s2, t2)" using prod_cases4 by blast
  have t2: "\<exists>u. frames t2 = frames t @ u \<and> takes t2 = takes t \<and> md_scan_index s2 = md_scan_index s \<and>
    list_all (permitted_frame cs) u \<and> filter is_write_frame u = [] \<and> length u \<le> 2"
  proof -
    obtain u1 where u1: "frames t1 = frames t @ u1" "list_all (permitted_frame cs) u1" "filter is_write_frame u1 = []" "length u1 \<le> 1"
      "takes t1 = takes t" "md_scan_index s1 = md_scan_index s" using read_phy_quiet [OF r1, of cs] by blast
    obtain u2 where "frames t2 = frames t1 @ u2" "list_all (permitted_frame cs) u2" "filter is_write_frame u2 = []" "length u2 \<le> 1"
      "takes t2 = takes t1" "md_scan_index s2 = md_scan_index s1"
      using r2 read_phy_quiet [of env s1 d 3 _ timeout True t1 st2 id2 s2 t2 cs] by (auto split: if_splits)
    then show ?thesis using u1 by (intro exI [of _ "u1 @ u2"]) simp
  qed
  have "frames t' = frames t2 \<and> takes t' = takes t2 \<and> md_scan_index s' = md_scan_index s2"
    using assms r1 r2 by (auto simp: probe_device_def Let_def split: if_splits prod.splits dest!: invalidate_quiet)
  then show ?thesis using t2 by simp
qed

lemma poll_register_frames:
  assumes "poll_register env s d now timeout result t = (st, s', t')"
  shows "\<exists>u. frames t' = frames t @ u \<and> takes t' = takes t \<and> md_scan_index s' = md_scan_index s \<and>
    list_all (permitted_frame cs) u \<and> filter is_write_frame u = [] \<and> length u \<le> 2"
proof -
  obtain rst v s1 t1 where r1: "read_phy env s d (mc_autopoll_regs (md_devices s ! d) ! unat (md_poll_index s ! d))
      BVSTK_EVENT_SOURCE_INTERNAL timeout False t = (rst, v, s1, t1)" using prod_cases4 by blast
  have "frames t' = frames t1 \<and> takes t' = takes t1 \<and> md_scan_index s' = md_scan_index s1"
    using assms r1 by (auto simp: poll_register_def Let_def split: if_splits prod.splits dest!: invalidate_quiet)
  then show ?thesis using read_phy_quiet [OF r1, of cs] by auto
qed

lemma poll_devices_frames:
  "poll_devices n env now timeout result s t = (st, s', t') \<Longrightarrow>
    \<exists>u. frames t' = frames t @ u \<and> takes t' = takes t \<and> md_scan_index s' = md_scan_index s \<and>
    list_all (permitted_frame cs) u \<and> filter is_write_frame u = [] \<and> length u \<le> 2"
proof (induction n arbitrary: s)
  case (Suc n)
  show ?case
    using Suc.prems Suc.IH [of "s \<lparr> md_poll_device := md_poll_device s + 1 \<rparr>"]
      probe_frames [of env "s \<lparr> md_poll_device := md_poll_device s + 1 \<rparr>" _ now timeout result t st s' t' cs]
      poll_register_frames [of env "s \<lparr> md_poll_device := md_poll_device s + 1 \<rparr>" _ now timeout result t st s' t' cs]
    by (auto simp: Let_def split: if_splits)
qed simp

text \<open>
  C23: one worker step is bounded: it inspects at most 1024 mailboxes, in cyclic order from where the
  last step stopped, and puts at most four write frames and ten frames in all on the bus; every
  write frame goes to the address of a configured device and is permitted by its policy, also
  for writes the host made through the slave.
\<close>

theorem mdio_step_bounded:
  assumes inv: "minv env s t" and run: "bvstk_mdio_service_step env s now timeout t = (st, s', t')"
  shows "\<exists>u n. frames t' = frames t @ u \<and> length u \<le> 10 \<and> length (filter is_write_frame u) \<le> 4 \<and>
    list_all (permitted_frame (md_devices s)) u \<and>
    n \<le> 1024 \<and> takes t' = takes t @ mailboxes (md_scan_index s) n \<and> md_scan_index s' = (md_scan_index s + n) mod 1024"
proof (cases "fst (mlock env (Some s) t) = BVSTK_OK")
  case False
  then have "frames t' = frames t" "takes t' = takes t" "s' = s"
    using run mlock_trace [OF prod.collapse [symmetric], of env "Some s" t]
    by (auto simp: bvstk_mdio_service_step_def locked_op_def locked_def split: prod.splits bvstk_status_t.splits)
  then show ?thesis using inv by (auto simp: minv_def mdio_wf_def intro!: exI [of _ "0::nat"])
next
  case True
  then obtain t1 where lk: "mlock env (Some s) t = (BVSTK_OK, t1)" by (metis prod.collapse)
  obtain ts where w: "step_locked env s now timeout t1 = (st, s', ts)" and t': "t' = munlock s' ts"
    using run lk unfolding bvstk_mdio_service_step_def by (rule locked_op_OK)
  have i1: "minv env s t1" using inv mlock_mirror [OF lk] by (rule minv_mirror)
  note lt = mlock_trace [OF lk]
  obtain r2 s2 t2 where sc: "(if md_core s \<or> bus_take_write (md_bus s)
      then scan_mailboxes 1024 0 env timeout BVSTK_OK s t1 else (BVSTK_OK, s, t1)) = (r2, s2, t2)" using prod_cases3 by blast
  have "\<exists>u m. frames t2 = frames t1 @ u \<and> list_all (permitted_frame (md_devices s)) u \<and>
    length (filter is_write_frame u) \<le> 4 \<and> length u \<le> 8 \<and>
    m \<le> 1024 \<and> takes t2 = takes t1 @ mailboxes (md_scan_index s) m \<and> md_scan_index s2 = (md_scan_index s + m) mod 1024"
  proof (cases "md_core s \<or> bus_take_write (md_bus s)")
    case True
    then show ?thesis using scan_frames [OF i1, of 1024 0 timeout BVSTK_OK r2 s2 t2] sc by simp
  next
    case False
    then show ?thesis using sc inv by (auto simp: minv_def mdio_wf_def intro!: exI [of _ "0::nat"])
  qed
  then obtain u m where u: "frames t2 = frames t1 @ u" "list_all (permitted_frame (md_devices s)) u"
    "length (filter is_write_frame u) \<le> 4" "length u \<le> 8" "m \<le> 1024"
    "takes t2 = takes t1 @ mailboxes (md_scan_index s) m" "md_scan_index s2 = (md_scan_index s + m) mod 1024" by auto
  obtain r3 s3 t3 where ak: "(if md_core s2 then let t' = t2 @ [MAckSlave] in
      (if menv_ack env t2 \<noteq> BVSTK_OK then (BVSTK_ERR_IO, count_errors s2, t') else (r2, s2, t')) else (r2, s2, t2)) = (r3, s3, t3)"
    using prod_cases3 by blast
  have t3: "frames t3 = frames t2" "takes t3 = takes t2" "md_scan_index s3 = md_scan_index s2"
    using ak by (auto simp: Let_def split: if_splits)
  have "poll_devices (length (md_devices s3)) env now timeout r3 s3 t3 = (st, s', ts)"
    using w sc ak by (simp add: step_locked_def del: scan_mailboxes.simps)
  from poll_devices_frames [OF this, of "md_devices s"]
  obtain x where x: "frames ts = frames t3 @ x" "takes ts = takes t3" "md_scan_index s' = md_scan_index s3"
    "list_all (permitted_frame (md_devices s)) x" "filter is_write_frame x = []" "length x \<le> 2" by auto
  show ?thesis
    using u t3 x lt by (intro exI [of _ "u @ x"] exI [of _ m]) (simp add: t')
qed

theorem mdio_step_bounded_witness:
  "\<exists>u n. frames (snd (snd (bvstk_mdio_service_step demo_mdio_env demo_service 100 10 demo_trace))) = frames demo_trace @ u \<and>
     length u \<le> 10 \<and> length (filter is_write_frame u) \<le> 4 \<and> list_all (permitted_frame (md_devices demo_service)) u \<and> n \<le> (1024 :: nat)"
proof -
  have "bvstk_mdio_service_step demo_mdio_env demo_service 100 10 demo_trace =
    (fst (bvstk_mdio_service_step demo_mdio_env demo_service 100 10 demo_trace),
     fst (snd (bvstk_mdio_service_step demo_mdio_env demo_service 100 10 demo_trace)),
     snd (snd (bvstk_mdio_service_step demo_mdio_env demo_service 100 10 demo_trace)))" by simp
  from mdio_step_bounded [OF init_minv [OF demo_init] this] show ?thesis by blast
qed

end
