(* ===== verification/Mdio_Policy.thy ===== *)
theory Mdio_Policy
  imports Mdio_Traffic
begin

text \<open>
  The masked write policy of the MDIO service as a refinement of a mode and two sets of masked
  rules: the rule lists are an instance of the bounded rule list, and every policy operation acts
  on the sets of one device and on nothing else.
\<close>

text \<open>Rules are identified by their register, their mask and the value under the mask.\<close>

type_synonym mrule_key = "u8 \<times> u16 \<times> u16"

definition rule_key :: "mdio_rule_entry_t \<Rightarrow> mrule_key" where
  "rule_key r = (mrule_reg r, mrule_mask r, mrule_val r AND mrule_mask r)"

definition norm_key :: "u8 \<times> u16 \<times> u16 \<Rightarrow> mrule_key" where
  "norm_key k = (case k of (reg, v, m) \<Rightarrow> (reg, m, v AND m))"

lemma rule_equal_key: "policy_rule_equal r reg v m \<longleftrightarrow> rule_key r = norm_key (reg, v, m)"
  by (auto simp: policy_rule_equal_def rule_key_def norm_key_def)

interpretation mrules: rule_list 64 BVSTK_ERR_RANGE "\<lambda>(reg, v, m) r. policy_rule_equal r reg v m"
  "\<lambda>(reg, v, m). \<lparr> mrule_reg = reg, mrule_val = v AND m, mrule_mask = m \<rparr>" norm_key rule_key
  "\<lambda>(reg, v, m) rs. rule_add_list rs reg v m" "\<lambda>(reg, v, m) rs. rule_compact [] rs reg v m"
  by unfold_locales
    (auto simp: rule_add_list_def rule_compact_filter rule_equal_key, auto simp: rule_key_def norm_key_def and.assoc)

text \<open>The abstract policy of a device.\<close>

record abs_mdio_policy =
  am_whitelist_mode :: bool
  am_allow :: "mrule_key set"
  am_deny :: "mrule_key set"

definition abs_mdio :: "mdio_phy_config_t \<Rightarrow> abs_mdio_policy" where
  "abs_mdio c = \<lparr> am_whitelist_mode = (mc_policy c = MDIO_POLICY_WHITELIST),
     am_allow = mrules.keys (mc_whitelist c), am_deny = mrules.keys (mc_blacklist c) \<rparr>"

text \<open>A rule covers a write when register and masked value agree.\<close>

definition covers :: "mrule_key set \<Rightarrow> u8 \<Rightarrow> u16 \<Rightarrow> bool" where
  "covers K reg v \<longleftrightarrow> (\<exists>m. (reg, m, v AND m) \<in> K)"

definition abs_mdio_permits :: "abs_mdio_policy \<Rightarrow> u8 \<Rightarrow> u16 \<Rightarrow> bool" where
  "abs_mdio_permits a reg v \<longleftrightarrow> (if am_whitelist_mode a then covers (am_allow a) reg v else \<not> covers (am_deny a) reg v)"

lemma covers_keys: "covers (mrules.keys rs) reg v \<longleftrightarrow> (\<exists>r\<in>set rs. rule_matches r reg v)"
  by (auto simp: covers_def mrules.keys_def rule_key_def rule_matches_def image_iff)

lemma allows_abs:
  assumes "mdio_config_wf c"
  shows "bvstk_mdio_policy_allows (Some c) reg v \<longleftrightarrow> reg < mc_reg_count c \<and> abs_mdio_permits (abs_mdio c) reg v"
  using policy_allows_iff [OF assms] by (auto simp: abs_mdio_permits_def abs_mdio_def covers_keys)

datatype mpolicy_op =
    MSetPolicy mdio_policy_t
  | MRuleAdd mdio_policy_t u8 u16 u16
  | MRuleRemove mdio_policy_t u8 u16 u16
  | MRuleClear mdio_policy_t

fun mpolicy_exec :: "mdio_env \<Rightarrow> mpolicy_op \<Rightarrow> nat \<Rightarrow> mdio_service \<Rightarrow> mdio_trace \<Rightarrow> bvstk_status_t \<times> mdio_service \<times> mdio_trace" where
  "mpolicy_exec env (MSetPolicy p) d s t = bvstk_mdio_service_set_policy env s d p t"
| "mpolicy_exec env (MRuleAdd l r v m) d s t = bvstk_mdio_service_rule_add env s d l r v m t"
| "mpolicy_exec env (MRuleRemove l r v m) d s t = bvstk_mdio_service_rule_remove env s d l r v m t"
| "mpolicy_exec env (MRuleClear l) d s t = bvstk_mdio_service_rule_clear_list env s d l t"

definition upd_set :: "mdio_policy_t \<Rightarrow> (mrule_key set \<Rightarrow> mrule_key set) \<Rightarrow> abs_mdio_policy \<Rightarrow> abs_mdio_policy" where
  "upd_set l f a = (if l = MDIO_POLICY_WHITELIST then a \<lparr> am_allow := f (am_allow a) \<rparr> else a \<lparr> am_deny := f (am_deny a) \<rparr>)"

definition the_set :: "mdio_policy_t \<Rightarrow> abs_mdio_policy \<Rightarrow> mrule_key set" where
  "the_set l a = (if l = MDIO_POLICY_WHITELIST then am_allow a else am_deny a)"

fun mpolicy_abs :: "mpolicy_op \<Rightarrow> abs_mdio_policy \<Rightarrow> abs_mdio_policy" where
  "mpolicy_abs (MSetPolicy p) a = a \<lparr> am_whitelist_mode := (p = MDIO_POLICY_WHITELIST) \<rparr>"
| "mpolicy_abs (MRuleAdd l r v m) a = upd_set l (insert (r, m, v AND m)) a"
| "mpolicy_abs (MRuleRemove l r v m) a = upd_set l (\<lambda>K. K - {(r, m, v AND m)}) a"
| "mpolicy_abs (MRuleClear l) a = upd_set l (\<lambda>_. {}) a"

text \<open>When an operation succeeds; a list is full at 64 rules.\<close>

fun mpolicy_ok :: "mpolicy_op \<Rightarrow> mdio_phy_config_t \<Rightarrow> bool" where
  "mpolicy_ok (MSetPolicy p) c \<longleftrightarrow> p = 0 \<or> p = 1"
| "mpolicy_ok (MRuleAdd l r v m) c \<longleftrightarrow> (l = 0 \<or> l = 1) \<and> r < mc_reg_count c \<and>
    ((r, m, v AND m) \<in> the_set l (abs_mdio c) \<or> length (get_list l c) < 64)"
| "mpolicy_ok (MRuleRemove l r v m) c \<longleftrightarrow> (l = 0 \<or> l = 1) \<and> r < mc_reg_count c \<and> (r, m, v AND m) \<in> the_set l (abs_mdio c)"
| "mpolicy_ok (MRuleClear l) c \<longleftrightarrow> l = 0 \<or> l = 1"

lemma the_set_keys: "l = 0 \<or> l = 1 \<Longrightarrow> the_set l (abs_mdio c) = mrules.keys (get_list l c)"
  by (auto simp: the_set_def abs_mdio_def get_list_def)

lemma abs_put_list: "l = 0 \<or> l = 1 \<Longrightarrow> abs_mdio (put_list l rules c) = upd_set l (\<lambda>_. mrules.keys rules) (abs_mdio c)"
  by (auto simp: abs_mdio_def put_list_def upd_set_def)

lemma upd_set_cong: "f (the_set l a) = g (the_set l a) \<Longrightarrow> upd_set l f a = upd_set l g a"
  by (auto simp: upd_set_def the_set_def)

lemma put_get_list: "put_list l (get_list l c) c = c"
  by (simp add: put_list_def get_list_def)

lemma set_device_same: "set_device s d (md_devices s ! d) = s"
  by (simp add: set_device_def)

lemma add_list_spec:
  "rule_add_list rs r v m = (st, rs') \<Longrightarrow> (st = BVSTK_OK \<longleftrightarrow> (r, m, v AND m) \<in> mrules.keys rs \<or> length rs < 64) \<and>
    (if st = BVSTK_OK then mrules.keys rs' = insert (r, m, v AND m) (mrules.keys rs) else rs' = rs)"
proof -
  assume run: "rule_add_list rs r v m = (st, rs')"
  have has: "list_ex (\<lambda>q. policy_rule_equal q r v m) rs \<longleftrightarrow> (r, m, v AND m) \<in> mrules.keys rs"
    using mrules.contains_iff [of "(r, v, m)" rs] by (simp add: norm_key_def)
  have "mrules.keys (rs @ [\<lparr> mrule_reg = r, mrule_val = v AND m, mrule_mask = m \<rparr>]) = insert (r, m, v AND m) (mrules.keys rs)"
    by (simp add: mrules.keys_def rule_key_def and.assoc)
  then show ?thesis using run has by (auto simp: rule_add_list_def split: if_splits)
qed

lemma remove_list_spec:
  "list_ex (\<lambda>q. policy_rule_equal q r v m) rs \<longleftrightarrow> (r, m, v AND m) \<in> mrules.keys rs"
  "mrules.keys (rule_compact [] rs r v m) = mrules.keys rs - {(r, m, v AND m)}"
  using mrules.contains_iff [of "(r, v, m)" rs] mrules.keys_remove [of "(r, v, m)" rs] by (simp_all add: norm_key_def)

lemma check_zero: "mdio_wf s \<Longrightarrow> d < length (md_devices s) \<Longrightarrow> check s d 0 = BVSTK_OK"
  using config_wf_bounds(3) [of "md_devices s ! d"] by (simp add: check_OK mdio_wf_def word_neq_0_conv)

lemma check_reg: "d < length (md_devices s) \<Longrightarrow> check s d r = (if r < mc_reg_count (md_devices s ! d) then BVSTK_OK else BVSTK_ERR_RANGE)"
  by (simp add: check_def)

lemma policy_list_eq:
  "mdio_wf s \<Longrightarrow> d < length (md_devices s) \<Longrightarrow> policy_list s d l =
    (if l = 0 \<or> l = 1 then (BVSTK_OK, get_list l (md_devices s ! d)) else (BVSTK_ERR_MALFORMED, []))"
  by (simp add: policy_list_def check_zero)

text \<open>The outcome of an operation on one device.\<close>

definition mpolicy_result :: "mpolicy_op \<Rightarrow> nat \<Rightarrow> mdio_service \<Rightarrow> bvstk_status_t \<Rightarrow> mdio_service \<Rightarrow> bool" where
  "mpolicy_result op d s st s' \<longleftrightarrow> (\<exists>mode ws bs. let c = md_devices s ! d; c' = c \<lparr> mc_policy := mode, mc_whitelist := ws, mc_blacklist := bs \<rparr> in
    s' = set_device s d c' \<and> (st = BVSTK_OK \<longleftrightarrow> mpolicy_ok op c) \<and>
    (if st = BVSTK_OK then abs_mdio c' = mpolicy_abs op (abs_mdio c) else c' = c))"

lemma mpolicy_fail:
  "st \<noteq> BVSTK_OK \<Longrightarrow> \<not> mpolicy_ok op (md_devices s ! d) \<Longrightarrow> mpolicy_result op d s st s"
  unfolding mpolicy_result_def Let_def
  by (rule exI [of _ "mc_policy (md_devices s ! d)"], rule exI [of _ "mc_whitelist (md_devices s ! d)"],
      rule exI [of _ "mc_blacklist (md_devices s ! d)"]) (simp add: set_device_same)

lemma mpolicy_put:
  assumes "st = BVSTK_OK \<longleftrightarrow> mpolicy_ok op (md_devices s ! d)" "st \<noteq> BVSTK_OK \<Longrightarrow> rules = get_list l (md_devices s ! d)"
    "st = BVSTK_OK \<Longrightarrow> abs_mdio (put_list l rules (md_devices s ! d)) = mpolicy_abs op (abs_mdio (md_devices s ! d))"
  shows "mpolicy_result op d s st (set_device s d (put_list l rules (md_devices s ! d)))"
proof -
  let ?c = "md_devices s ! d"
  obtain mode ws bs where eq: "put_list l rules ?c = ?c \<lparr> mc_policy := mode, mc_whitelist := ws, mc_blacklist := bs \<rparr>"
    using put_list_update by blast
  have "st \<noteq> BVSTK_OK \<Longrightarrow> put_list l rules ?c = ?c" using assms(2) put_get_list by simp
  then show ?thesis
    using assms(1,3) unfolding mpolicy_result_def Let_def eq
    by (intro exI [of _ mode] exI [of _ ws] exI [of _ bs]) simp
qed

lemma mpolicy_set:
  assumes wf: "mdio_wf s" and lk: "mlock env (Some s) t = (BVSTK_OK, t1)" and d: "d < length (md_devices s)"
    and run: "bvstk_mdio_service_set_policy env s d p t = (st, s', t')"
  shows "mpolicy_result (MSetPolicy p) d s st s'"
proof -
  let ?c = "md_devices s ! d"
  obtain ts where r: "(let st = check s d 0; st = if p \<noteq> 0 \<and> p \<noteq> 1 then BVSTK_ERR_MALFORMED else st
        in (st, if st = BVSTK_OK then set_device s d (?c \<lparr> mc_policy := p \<rparr>) else s, t1)) = (st, s', ts)"
    using run lk unfolding bvstk_mdio_service_set_policy_def by (rule locked_op_OK)
  show ?thesis
  proof (cases "p = 0 \<or> p = 1")
    case True
    then have "st = BVSTK_OK" "s' = set_device s d (?c \<lparr> mc_policy := p \<rparr>)"
      using r by (auto simp: Let_def check_zero [OF wf d])
    then show ?thesis unfolding mpolicy_result_def Let_def using True
      by (intro exI [of _ p] exI [of _ "mc_whitelist ?c"] exI [of _ "mc_blacklist ?c"]) (auto simp: abs_mdio_def)
  next
    case False
    then have "st = BVSTK_ERR_MALFORMED" "s' = s" using r by (auto simp: Let_def)
    then show ?thesis using False by (auto intro: mpolicy_fail)
  qed
qed

lemma mpolicy_add:
  assumes wf: "mdio_wf s" and lk: "mlock env (Some s) t = (BVSTK_OK, t1)" and d: "d < length (md_devices s)"
    and run: "bvstk_mdio_service_rule_add env s d l r v m t = (st, s', t')"
  shows "mpolicy_result (MRuleAdd l r v m) d s st s'"
proof -
  let ?c = "md_devices s ! d"
  obtain ast rules where a: "rule_add_list (get_list l ?c) r v m = (ast, rules)" by fastforce
  obtain ts where body: "(case policy_list s d l of
         (BVSTK_OK, rules) \<Rightarrow> (case check s d r of
             BVSTK_OK \<Rightarrow> let (st, rules') = rule_add_list rules r v m in (st, set_device s d (put_list l rules' ?c), t1)
           | st \<Rightarrow> (st, s, t1))
       | (st, _) \<Rightarrow> (st, s, t1)) = (st, s', ts)"
    using run lk unfolding bvstk_mdio_service_rule_add_def by (rule locked_op_OK)
  show ?thesis
  proof (cases "(l = 0 \<or> l = 1) \<and> r < mc_reg_count ?c")
    case True
    then have "st = ast" "s' = set_device s d (put_list l rules ?c)"
      using body a by (auto simp: policy_list_eq [OF wf d] check_reg [OF d])
    then show ?thesis using add_list_spec [OF a] True
      by (auto simp: abs_put_list the_set_keys split: if_splits intro!: mpolicy_put upd_set_cong)
  next
    case False
    then have "st \<noteq> BVSTK_OK" "s' = s" using body by (auto simp: policy_list_eq [OF wf d] check_reg [OF d] split: if_splits)
    then show ?thesis using False by (auto intro: mpolicy_fail)
  qed
qed

lemma mpolicy_remove:
  assumes wf: "mdio_wf s" and lk: "mlock env (Some s) t = (BVSTK_OK, t1)" and d: "d < length (md_devices s)"
    and run: "bvstk_mdio_service_rule_remove env s d l r v m t = (st, s', t')"
  shows "mpolicy_result (MRuleRemove l r v m) d s st s'"
proof -
  let ?c = "md_devices s ! d"
  obtain ts where body: "(case policy_list s d l of
         (BVSTK_OK, rules) \<Rightarrow> (case check s d r of
             BVSTK_OK \<Rightarrow>
               if \<not> list_ex (\<lambda>q. policy_rule_equal q r v m) rules then (BVSTK_ERR_NOT_FOUND, s, t1)
               else (BVSTK_OK, set_device s d (put_list l (rule_compact [] rules r v m) ?c), t1)
           | st \<Rightarrow> (st, s, t1))
       | (st, _) \<Rightarrow> (st, s, t1)) = (st, s', ts)"
    using run lk unfolding bvstk_mdio_service_rule_remove_def by (rule locked_op_OK)
  show ?thesis
  proof (cases "(l = 0 \<or> l = 1) \<and> r < mc_reg_count ?c \<and> list_ex (\<lambda>q. policy_rule_equal q r v m) (get_list l ?c)")
    case True
    then have "st = BVSTK_OK" "s' = set_device s d (put_list l (rule_compact [] (get_list l ?c) r v m) ?c)"
      using body by (auto simp: policy_list_eq [OF wf d] check_reg [OF d])
    then show ?thesis using True
      by (auto simp: abs_put_list the_set_keys remove_list_spec split: if_splits intro!: mpolicy_put upd_set_cong)
  next
    case False
    then have "st \<noteq> BVSTK_OK" "s' = s" using body by (auto simp: policy_list_eq [OF wf d] check_reg [OF d] split: if_splits)
    moreover have "\<not> mpolicy_ok (MRuleRemove l r v m) ?c" using False by (auto simp: the_set_keys remove_list_spec)
    ultimately show ?thesis by (simp add: mpolicy_fail)
  qed
qed

lemma mpolicy_clear:
  assumes wf: "mdio_wf s" and lk: "mlock env (Some s) t = (BVSTK_OK, t1)" and d: "d < length (md_devices s)"
    and run: "bvstk_mdio_service_rule_clear_list env s d l t = (st, s', t')"
  shows "mpolicy_result (MRuleClear l) d s st s'"
proof -
  let ?c = "md_devices s ! d"
  obtain ts where body: "(case policy_list s d l of
         (BVSTK_OK, rules) \<Rightarrow> (BVSTK_OK, set_device s d (put_list l [] ?c), t1)
       | (st, _) \<Rightarrow> (st, s, t1)) = (st, s', ts)"
    using run lk unfolding bvstk_mdio_service_rule_clear_list_def by (rule locked_op_OK)
  show ?thesis
  proof (cases "l = 0 \<or> l = 1")
    case True
    then have "st = BVSTK_OK" "s' = set_device s d (put_list l [] ?c)" using body by (auto simp: policy_list_eq [OF wf d])
    then show ?thesis using True by (auto simp: abs_put_list mrules.rules_ok_Nil intro!: mpolicy_put)
  next
    case False
    then have "st \<noteq> BVSTK_OK" "s' = s" using body by (auto simp: policy_list_eq [OF wf d])
    then show ?thesis using False by (auto intro: mpolicy_fail)
  qed
qed

text \<open>
  C10: the MDIO write policy refines a mode and two sets of masked rules. Setting the mode, adding,
  removing and clearing rules each succeed exactly when specified and then change the sets of that
  device as specified; otherwise nothing changes. In both cases the rest of the service - the cache,
  the polling state, every other device and the device's identity - stays as it is. A write is
  permitted exactly when its register exists and the sets permit it in the current mode.
\<close>

theorem mdio_policy_refines:
  assumes wf: "mdio_wf s" and lk: "mlock env (Some s) t = (BVSTK_OK, t1)" and d: "d < length (md_devices s)"
    and run: "mpolicy_exec env op d s t = (st, s', t')"
  shows "(\<exists>mode ws bs. let c = md_devices s ! d; c' = c \<lparr> mc_policy := mode, mc_whitelist := ws, mc_blacklist := bs \<rparr> in
      s' = set_device s d c' \<and> (st = BVSTK_OK \<longleftrightarrow> mpolicy_ok op c) \<and>
      (if st = BVSTK_OK then abs_mdio c' = mpolicy_abs op (abs_mdio c) else c' = c)) \<and>
    (\<forall>reg v. bvstk_mdio_policy_allows (Some (md_devices s ! d)) reg v \<longleftrightarrow>
      reg < mc_reg_count (md_devices s ! d) \<and> abs_mdio_permits (abs_mdio (md_devices s ! d)) reg v)"
proof -
  have "mdio_config_wf (md_devices s ! d)" using wf d by (simp add: mdio_wf_def)
  moreover have "mpolicy_result op d s st s'"
    using run mpolicy_set [OF wf lk d] mpolicy_add [OF wf lk d] mpolicy_remove [OF wf lk d] mpolicy_clear [OF wf lk d]
    by (cases op) simp_all
  ultimately show ?thesis using allows_abs unfolding mpolicy_result_def by blast
qed

theorem mdio_policy_refines_witness:
  "\<exists>s'. fst (mpolicy_exec demo_mdio_env (MRuleAdd 1 2 0x1F 0xF0) 0 demo_service demo_trace) = BVSTK_OK \<and>
     am_deny (abs_mdio (md_devices s' ! 0)) = {(3, 0, 0), (2, 0xF0, 0x10)} \<and>
     s' = fst (snd (mpolicy_exec demo_mdio_env (MRuleAdd 1 2 0x1F 0xF0) 0 demo_service demo_trace))"
proof -
  let ?op = "MRuleAdd 1 2 0x1F 0xF0"
  let ?run = "mpolicy_exec demo_mdio_env ?op 0 demo_service demo_trace"
  have wf: "mdio_wf demo_service" using init_minv [OF demo_init] by (simp add: minv_def)
  have lk: "mlock demo_mdio_env (Some demo_service) demo_trace = (BVSTK_OK, demo_trace)"
    and d: "0 < length (md_devices demo_service)" and ok: "fst ?run = BVSTK_OK"
    and c: "md_devices demo_service ! 0 = demo_phy" by code_simp+
  have run: "?run = (fst ?run, fst (snd ?run), snd (snd ?run))" by simp
  obtain mode ws bs where r: "fst (snd ?run) = set_device demo_service 0 (demo_phy \<lparr> mc_policy := mode, mc_whitelist := ws, mc_blacklist := bs \<rparr>)"
      "abs_mdio (demo_phy \<lparr> mc_policy := mode, mc_whitelist := ws, mc_blacklist := bs \<rparr>) = mpolicy_abs ?op (abs_mdio demo_phy)"
    using mdio_policy_refines [OF wf lk d run] ok unfolding c Let_def by auto
  have "am_deny (abs_mdio demo_phy) = {(3, 0, 0)}" by (simp add: abs_mdio_def demo_phy_def mrules.keys_def rule_key_def)
  then show ?thesis using r ok d by (intro exI [of _ "fst (snd ?run)"]) (auto simp: set_device_def upd_set_def)
qed

end
