(* ===== verification/Fs_Path.thy ===== *)
theory Fs_Path
  imports Bvstk_Prelude
begin

text \<open>
  UTF-8 decoding and the validation of volume paths in \<open>src/services/fs/bvstk_fs_reader.c\<close>. A pointer
  and a length are the list of the bytes from the pointer on, cut to the length.
\<close>

datatype bvstk_fs_result_t =
    BVSTK_FS_OK | BVSTK_FS_INVALID | BVSTK_FS_RANGE | BVSTK_FS_NOT_FOUND | BVSTK_FS_NOT_READY
  | BVSTK_FS_TYPE_ERROR | BVSTK_FS_IO | BVSTK_FS_CHANGED | BVSTK_FS_BUSY | BVSTK_FS_UNSUPPORTED

abbreviation (input) BVSTK_FS_PATH_CAPACITY :: nat where "BVSTK_FS_PATH_CAPACITY \<equiv> 512"

section \<open>UTF-8\<close>

text \<open>The length of a sequence, its leading bits and the least code point it may encode.\<close>

definition utf8_lead :: "u8 \<Rightarrow> (nat \<times> u32 \<times> u32) option" where
  "utf8_lead b =
    (if b \<ge> 0xC2 \<and> b \<le> 0xDF then Some (2, ucast (b AND 31), 0x80)
     else if b \<ge> 0xE0 \<and> b \<le> 0xEF then Some (3, ucast (b AND 15), 0x800)
     else if b \<ge> 0xF0 \<and> b \<le> 0xF4 then Some (4, ucast (b AND 7), 0x10000)
     else None)"

text \<open>The continuation bytes, six bits each.\<close>

fun utf8_tail :: "u32 \<Rightarrow> bytes \<Rightarrow> u32 option" where
  "utf8_tail acc [] = Some acc"
| "utf8_tail acc (b # bs) =
    (if b AND 0xC0 \<noteq> 0x80 then None else utf8_tail (push_bit 6 acc OR ucast (b AND 63)) bs)"

definition bvstk_fs_utf8_decode :: "bytes option \<Rightarrow> bool \<Rightarrow> (nat \<times> u32) option" where
  "bvstk_fs_utf8_decode data out =
    (case data of
       None \<Rightarrow> None
     | Some [] \<Rightarrow> None
     | Some (b # bs) \<Rightarrow>
         if \<not> out then None
         else if b < 0x80 then Some (1, ucast b)
         else (case utf8_lead b of
             None \<Rightarrow> None
           | Some (n, start, minimum) \<Rightarrow>
               if length (b # bs) < n then None
               else (case utf8_tail start (take (n - 1) bs) of
                   None \<Rightarrow> None
                 | Some cp \<Rightarrow>
                     if cp < minimum \<or> cp > 0x10FFFF \<or> (cp \<ge> 0xD800 \<and> cp \<le> 0xDFFF) then None
                     else Some (n, cp))))"

section \<open>Path components and paths\<close>

definition forbidden_cp :: "u32 \<Rightarrow> bool" where
  "forbidden_cp cp \<longleftrightarrow> cp < 32 \<or> cp = 127 \<or> cp = of_char CHR ''/'' \<or> cp = of_char (CHR 0x5C) \<or> cp = of_char CHR '':'' \<or>
     cp = of_char CHR ''*'' \<or> cp = of_char CHR ''?'' \<or> cp = of_char (CHR 0x22) \<or> cp = of_char CHR ''<'' \<or>
     cp = of_char CHR ''>'' \<or> cp = of_char CHR ''|''"

text \<open>The decoding loop: every step consumes at least one byte, so the length of the name bounds
  the number of steps.\<close>

fun component_scan :: "nat \<Rightarrow> bytes \<Rightarrow> bool" where
  "component_scan n [] = True"
| "component_scan 0 (b # bs) = False"
| "component_scan (Suc n) (b # bs) =
    (case bvstk_fs_utf8_decode (Some (b # bs)) True of
       None \<Rightarrow> False
     | Some (used, cp) \<Rightarrow> if forbidden_cp cp then False else component_scan n (drop used (b # bs)))"

definition valid_component :: "bytes \<Rightarrow> bool" where
  "valid_component name =
    (if name = [] \<or> name = ascii ''.'' \<or> name = ascii ''..'' then False else component_scan (length name) name)"

text \<open>The volume name: lower-case letters, digits and dashes up to the colon.\<close>

fun volume_scan :: "nat \<Rightarrow> bytes \<Rightarrow> nat option" where
  "volume_scan colon [] = Some colon"
| "volume_scan colon (c # cs) =
    (if c = ch CHR '':'' then Some colon
     else if \<not> (c \<ge> ch CHR ''a'' \<and> c \<le> ch CHR ''z'' \<or> c \<ge> ch CHR ''0'' \<and> c \<le> ch CHR ''9'' \<or> c = ch CHR ''-'') then None
     else volume_scan (colon + 1) cs)"

text \<open>The component loop over the bytes behind the root slash: \<open>cur\<close> is the component read so far.
  An empty component is refused except at the very end.\<close>

fun components_ok :: "bytes \<Rightarrow> bytes \<Rightarrow> bool" where
  "components_ok cur [] = (cur = [] \<or> valid_component cur)"
| "components_ok cur (c # cs) =
    (if c = ch CHR ''/'' then (if cur \<noteq> [] then valid_component cur \<and> components_ok [] cs else False)
     else components_ok (cur @ [c]) cs)"

definition bvstk_fs_validate_path :: "bytes option \<Rightarrow> bool \<Rightarrow> nat \<Rightarrow> bvstk_fs_result_t \<times> cstr option" where
  "bvstk_fs_validate_path data out capacity =
    (case data of
       None \<Rightarrow> (BVSTK_FS_INVALID, None)
     | Some p \<Rightarrow>
         let size = length p in
         if \<not> out \<or> size = 0 then (BVSTK_FS_INVALID, None)
         else if size \<ge> capacity \<or> size \<ge> BVSTK_FS_PATH_CAPACITY then (BVSTK_FS_RANGE, None)
         else (case volume_scan 0 p of
             None \<Rightarrow> (BVSTK_FS_INVALID, None)
           | Some colon \<Rightarrow>
               if colon = 0 \<or> colon \<ge> 16 \<or> colon + 1 \<ge> size \<or> p ! (colon + 1) \<noteq> ch CHR ''/'' then (BVSTK_FS_INVALID, None)
               else if \<not> components_ok [] (drop (colon + 2) p) then (BVSTK_FS_INVALID, None)
               else (BVSTK_FS_OK, Some (if size > colon + 2 \<and> p ! (size - 1) = ch CHR ''/'' then take (size - 1) p else p))))"

section \<open>Decoding inverts encoding\<close>

text \<open>The UTF-8 encoding of a Unicode scalar value.\<close>

definition utf8_scalar :: "nat \<Rightarrow> bool" where
  "utf8_scalar cp \<longleftrightarrow> cp \<le> 0x10FFFF \<and> \<not> (0xD800 \<le> cp \<and> cp \<le> 0xDFFF)"

definition utf8_encode :: "nat \<Rightarrow> bytes" where
  "utf8_encode cp =
    (if cp < 0x80 then [of_nat cp]
     else if cp < 0x800 then [of_nat (0xC0 + cp div 64), of_nat (0x80 + cp mod 64)]
     else if cp < 0x10000 then [of_nat (0xE0 + cp div 4096), of_nat (0x80 + cp div 64 mod 64), of_nat (0x80 + cp mod 64)]
     else [of_nat (0xF0 + cp div 262144), of_nat (0x80 + cp div 4096 mod 64), of_nat (0x80 + cp div 64 mod 64), of_nat (0x80 + cp mod 64)])"

lemma unat_and_mask: "unat (b AND mask n :: u8) = unat b mod 2 ^ n"
  by (simp only: take_bit_eq_mask [symmetric] unsigned_take_bit_eq) (simp add: take_bit_eq_mod)

lemma unat_and_bits:
  "unat (b AND 63 :: u8) = unat b mod 64" "unat (b AND 31 :: u8) = unat b mod 32"
  "unat (b AND 15 :: u8) = unat b mod 16" "unat (b AND 7 :: u8) = unat b mod 8"
  using unat_and_mask [of b 6] unat_and_mask [of b 5] unat_and_mask [of b 4] unat_and_mask [of b 3]
  by (simp_all add: mask_eq_exp_minus_1)

lemma continuation_iff: "(b AND 0xC0 :: u8) = 0x80 \<longleftrightarrow> unat b div 64 = 2"
proof -
  have c0: "(0xC0 :: u8) = push_bit 6 (mask 2)" by (simp add: mask_eq_exp_minus_1)
  have "b AND 0xC0 = push_bit 6 (drop_bit 6 b)"
    unfolding c0 by (rule bit_word_eqI) (auto simp: bit_simps)
  then have "unat (b AND 0xC0) = unat b div 64 * 64 mod 256"
    by (simp add: push_bit_eq_mult drop_bit_eq_div unat_word_ariths unat_div_distrib mod_simps)
  moreover have "unat b div 64 * 64 < 256" using unat_u8_less [of b] by linarith
  ultimately have "unat (b AND 0xC0) = unat b div 64 * 64" by simp
  then show ?thesis by (simp add: word_unat_eq_iff)
qed

lemma utf8_tail_step:
  assumes "unat acc < 2 ^ 26"
  shows "unat (push_bit 6 acc OR ucast (b AND 63 :: u8) :: u32) = unat acc * 64 + unat b mod 64"
proof -
  have m: "(63 :: u8) = mask 6" by (simp add: mask_eq_exp_minus_1)
  have "push_bit 6 acc OR ucast (b AND 63 :: u8) = push_bit 6 acc + (ucast (b AND 63 :: u8) :: u32)"
    unfolding m by (rule disjunctive_add_eq_or [symmetric]) (auto simp: bit_eq_iff bit_simps)
  moreover have "unat (push_bit 6 acc) = unat acc * 64"
    using assms by (simp add: push_bit_eq_mult unat_word_ariths)
  moreover have "unat (ucast (b AND 63 :: u8) :: u32) = unat b mod 64"
    by (simp add: unat_and_bits unsigned_ucast_eq take_bit_nat_eq_self_iff)
  ultimately show ?thesis using assms by (simp add: unat_word_ariths)
qed

lemma unat_lead:
  "unat (ucast (b AND 31) :: u32) = unat b mod 32" "unat (ucast (b AND 15) :: u32) = unat b mod 16" "unat (ucast (b AND 7) :: u32) = unat b mod 8"
  for b :: u8
  by (simp_all add: unat_and_bits unsigned_ucast_eq take_bit_nat_eq_self_iff)

text \<open>A byte from its value.\<close>

lemma byte_eq_iff: "n < 256 \<Longrightarrow> (b :: u8) = of_nat n \<longleftrightarrow> unat b = n"
  using unat_of_nat_small [of n, where ?'a = 8] by (auto simp: word_unat_eq_iff)

text \<open>One, two and three continuation bytes on the values of the bytes.\<close>

lemma utf8_tail_Cons:
  assumes "N < 2 ^ 26"
  shows "utf8_tail (of_nat N) (b # bs) = Some cp \<longleftrightarrow>
    unat b div 64 = 2 \<and> utf8_tail (of_nat (N * 64 + unat b mod 64)) bs = Some cp"
proof -
  have N: "unat (of_nat N :: u32) = N" using assms by (intro unat_of_nat_small) simp
  then have "unat (push_bit 6 (of_nat N :: u32) OR ucast (b AND 63)) = N * 64 + unat b mod 64"
    using utf8_tail_step [of "of_nat N" b] assms by simp
  moreover have "N * 64 + unat b mod 64 < 2 ^ 32" using assms mod_less_divisor [of 64 "unat b"] by simp
  ultimately have "push_bit 6 (of_nat N :: u32) OR ucast (b AND 63) = of_nat (N * 64 + unat b mod 64)"
    by (simp add: word_unat_eq_iff unat_of_nat_small del: of_nat_add of_nat_mult)
  then show ?thesis by (simp add: continuation_iff)
qed

lemma u32_of_nat_eq: "N < 2 ^ 32 \<Longrightarrow> cp = (of_nat N :: u32) \<longleftrightarrow> unat cp = N"
  using unat_of_nat_small [of N, where ?'a = 32] by (auto simp: word_unat_eq_iff)

lemma utf8_tails:
  assumes "N < 32"
  shows "utf8_tail (of_nat N) [b1] = Some cp \<longleftrightarrow> unat b1 div 64 = 2 \<and> unat cp = N * 64 + unat b1 mod 64"
    "utf8_tail (of_nat N) [b1, b2] = Some cp \<longleftrightarrow> unat b1 div 64 = 2 \<and> unat b2 div 64 = 2 \<and>
       unat cp = (N * 64 + unat b1 mod 64) * 64 + unat b2 mod 64"
    "utf8_tail (of_nat N) [b1, b2, b3] = Some cp \<longleftrightarrow> unat b1 div 64 = 2 \<and> unat b2 div 64 = 2 \<and> unat b3 div 64 = 2 \<and>
       unat cp = ((N * 64 + unat b1 mod 64) * 64 + unat b2 mod 64) * 64 + unat b3 mod 64"
proof -
  have b: "unat b mod 64 < 64" for b :: u8 by simp
  have bnd: "x < 2048 \<Longrightarrow> y < 64 \<Longrightarrow> x * 64 + y < (131072 :: nat)" "x < 131072 \<Longrightarrow> y < 64 \<Longrightarrow> x * 64 + y < (8388608 :: nat)" for x y
    by linarith+
  have 1: "N * 64 + unat b1 mod 64 < 2048" using assms b [of b1] by linarith
  note 2 = bnd(1) [OF 1 b, of b2]
  note 3 = bnd(2) [OF 2 b, of b3]
  have nil: "utf8_tail (of_nat M) [] = Some cp \<longleftrightarrow> unat cp = M" if "M < 8388608" for M
    using u32_of_nat_eq [of M cp] that by auto
  have s1: "utf8_tail (of_nat N) (b1 # bs) = Some cp \<longleftrightarrow> unat b1 div 64 = 2 \<and> utf8_tail (of_nat (N * 64 + unat b1 mod 64)) bs = Some cp" for bs
    by (rule utf8_tail_Cons) (use assms in simp)
  have s2: "utf8_tail (of_nat (N * 64 + unat b1 mod 64)) (b2 # bs) = Some cp \<longleftrightarrow> unat b2 div 64 = 2 \<and>
      utf8_tail (of_nat ((N * 64 + unat b1 mod 64) * 64 + unat b2 mod 64)) bs = Some cp" for bs
    by (rule utf8_tail_Cons) (use 1 in simp)
  have s3: "utf8_tail (of_nat ((N * 64 + unat b1 mod 64) * 64 + unat b2 mod 64)) (b3 # bs) = Some cp \<longleftrightarrow> unat b3 div 64 = 2 \<and>
      utf8_tail (of_nat (((N * 64 + unat b1 mod 64) * 64 + unat b2 mod 64) * 64 + unat b3 mod 64)) bs = Some cp" for bs
    by (rule utf8_tail_Cons) (use 2 in simp)
  show "utf8_tail (of_nat N) [b1] = Some cp \<longleftrightarrow> unat b1 div 64 = 2 \<and> unat cp = N * 64 + unat b1 mod 64"
    unfolding s1 by (subst nil) (use 1 in simp_all)
  show "utf8_tail (of_nat N) [b1, b2] = Some cp \<longleftrightarrow> unat b1 div 64 = 2 \<and> unat b2 div 64 = 2 \<and>
       unat cp = (N * 64 + unat b1 mod 64) * 64 + unat b2 mod 64"
    unfolding s1 s2 by (subst nil) (use 2 in simp_all)
  show "utf8_tail (of_nat N) [b1, b2, b3] = Some cp \<longleftrightarrow> unat b1 div 64 = 2 \<and> unat b2 div 64 = 2 \<and> unat b3 div 64 = 2 \<and>
       unat cp = ((N * 64 + unat b1 mod 64) * 64 + unat b2 mod 64) * 64 + unat b3 mod 64"
    unfolding s1 s2 s3 by (subst nil) (use 3 in simp_all)
qed

lemma lead_words:
  "ucast (b AND 31) = (of_nat (unat b mod 32) :: u32)" "ucast (b AND 15) = (of_nat (unat b mod 16) :: u32)"
  "ucast (b AND 7) = (of_nat (unat b mod 8) :: u32)" for b :: u8
  using unat_lead [of b] by (simp_all add: word_unat_eq_iff unat_of_nat_small)

text \<open>Decoding on the values of the bytes.\<close>

lemma decode_lead:
  assumes "\<not> b < 0x80" and "utf8_lead b = Some (k, acc, minimum)"
  shows "bvstk_fs_utf8_decode (Some (b # bs)) True = Some (n, cp) \<longleftrightarrow>
    n = k \<and> k \<le> Suc (length bs) \<and> utf8_tail acc (take (k - 1) bs) = Some cp \<and> unat minimum \<le> unat cp \<and> utf8_scalar (unat cp)"
  using assms by (auto simp: bvstk_fs_utf8_decode_def utf8_scalar_def word_le_nat_alt word_less_nat_alt split: option.splits if_splits)

lemma utf8_lead_values:
  "0xC2 \<le> unat b \<Longrightarrow> unat b \<le> 0xDF \<Longrightarrow> utf8_lead b = Some (2, of_nat (unat b mod 32), 0x80)"
  "0xE0 \<le> unat b \<Longrightarrow> unat b \<le> 0xEF \<Longrightarrow> utf8_lead b = Some (3, of_nat (unat b mod 16), 0x800)"
  "0xF0 \<le> unat b \<Longrightarrow> unat b \<le> 0xF4 \<Longrightarrow> utf8_lead b = Some (4, of_nat (unat b mod 8), 0x10000)"
  "\<not> 0xC2 \<le> unat b \<or> 0xF4 < unat b \<Longrightarrow> utf8_lead b = None"
  by (auto simp: utf8_lead_def lead_words word_le_nat_alt)

lemma decode_1:
  assumes "unat b < 0x80"
  shows "bvstk_fs_utf8_decode (Some (b # bs)) True = Some (n, cp) \<longleftrightarrow> n = 1 \<and> unat cp = unat b"
proof -
  have "unat (ucast b :: u32) = unat b" using assms by (simp add: unsigned_ucast_eq take_bit_nat_eq_self)
  then show ?thesis using assms by (auto simp: bvstk_fs_utf8_decode_def word_less_nat_alt word_unat_eq_iff)
qed

lemma decode_none: "0x80 \<le> unat b \<Longrightarrow> unat b < 0xC2 \<or> 0xF4 < unat b \<Longrightarrow> bvstk_fs_utf8_decode (Some (b # bs)) True = None"
  using utf8_lead_values(4) [of b] by (auto simp: bvstk_fs_utf8_decode_def word_less_nat_alt)

lemma decode_2:
  assumes "0xC2 \<le> unat b" "unat b \<le> 0xDF"
  shows "bvstk_fs_utf8_decode (Some (b # bs)) True = Some (n, cp) \<longleftrightarrow>
    (\<exists>b1 rest. bs = b1 # rest \<and> n = 2 \<and> unat b1 div 64 = 2 \<and> unat cp = unat b mod 32 * 64 + unat b1 mod 64 \<and>
      0x80 \<le> unat cp \<and> utf8_scalar (unat cp))"
proof -
  have "\<not> b < 0x80" using assms by (simp add: word_less_nat_alt)
  note lead = decode_lead [OF this utf8_lead_values(1) [OF assms], of bs n cp]
  show ?thesis unfolding lead by (cases bs) (auto simp: utf8_tails simp del: utf8_tail.simps)
qed

lemma decode_3:
  assumes "0xE0 \<le> unat b" "unat b \<le> 0xEF"
  shows "bvstk_fs_utf8_decode (Some (b # bs)) True = Some (n, cp) \<longleftrightarrow>
    (\<exists>b1 b2 rest. bs = b1 # b2 # rest \<and> n = 3 \<and> unat b1 div 64 = 2 \<and> unat b2 div 64 = 2 \<and>
      unat cp = (unat b mod 16 * 64 + unat b1 mod 64) * 64 + unat b2 mod 64 \<and> 0x800 \<le> unat cp \<and> utf8_scalar (unat cp))"
proof -
  have "\<not> b < 0x80" using assms by (simp add: word_less_nat_alt)
  note lead = decode_lead [OF this utf8_lead_values(2) [OF assms], of bs n cp]
  have lt: "unat b mod 16 < 32" using mod_less_divisor [of 16 "unat b"] by linarith
  show ?thesis
  proof (cases "2 \<le> length bs")
    case True
    then obtain b1 b2 rest where bs: "bs = b1 # b2 # rest" by (auto simp: numeral_eq_Suc Suc_le_length_iff)
    have "utf8_tail (of_nat (unat b mod 16)) (take (3 - 1) bs) = utf8_tail (of_nat (unat b mod 16)) [b1, b2]" by (simp add: bs del: utf8_tail.simps)
    then show ?thesis unfolding lead by (auto simp add: bs utf8_tails(2) [OF lt] simp del: utf8_tail.simps)
  qed (unfold lead, auto)
qed

lemma decode_4:
  assumes "0xF0 \<le> unat b" "unat b \<le> 0xF4"
  shows "bvstk_fs_utf8_decode (Some (b # bs)) True = Some (n, cp) \<longleftrightarrow>
    (\<exists>b1 b2 b3 rest. bs = b1 # b2 # b3 # rest \<and> n = 4 \<and> unat b1 div 64 = 2 \<and> unat b2 div 64 = 2 \<and> unat b3 div 64 = 2 \<and>
      unat cp = ((unat b mod 8 * 64 + unat b1 mod 64) * 64 + unat b2 mod 64) * 64 + unat b3 mod 64 \<and>
      0x10000 \<le> unat cp \<and> utf8_scalar (unat cp))"
proof -
  have "\<not> b < 0x80" using assms by (simp add: word_less_nat_alt)
  note lead = decode_lead [OF this utf8_lead_values(3) [OF assms], of bs n cp]
  have lt: "unat b mod 8 < 32" using mod_less_divisor [of 8 "unat b"] by linarith
  show ?thesis
  proof (cases "3 \<le> length bs")
    case True
    then obtain b1 b2 b3 rest where bs: "bs = b1 # b2 # b3 # rest" by (auto simp: numeral_eq_Suc Suc_le_length_iff)
    have "utf8_tail (of_nat (unat b mod 8)) (take (4 - 1) bs) = utf8_tail (of_nat (unat b mod 8)) [b1, b2, b3]" by (simp add: bs del: utf8_tail.simps)
    then show ?thesis unfolding lead by (auto simp add: bs utf8_tails(3) [OF lt] simp del: utf8_tail.simps)
  next
    case False
    then have "\<not> 4 \<le> Suc (length bs)" and "\<And>b1 b2 b3 rest. bs \<noteq> b1 # b2 # b3 # rest" by auto
    then show ?thesis unfolding lead by blast
  qed
qed


text \<open>The six-bit digits of a code point.\<close>

lemma digits64:
  "q < 64 \<Longrightarrow> (N * 64 + q) div 64 = (N :: nat)" "q < 64 \<Longrightarrow> (N * 64 + q) mod 64 = q"
  by simp_all


lemma byte_parts: "x div 64 = 2 \<longleftrightarrow> x = 0x80 + x mod (64 :: nat)"
  using div_mult_mod_eq [of x 64] by linarith

lemma lead_split: "k * n \<le> x \<Longrightarrow> x < Suc k * n \<Longrightarrow> x = k * n + x mod (n :: nat)"
  using div_nat_eqI [of n k x] by (auto simp: mult.commute minus_mult_div_eq_mod [symmetric])

lemma lead_parts:
  "0xC2 \<le> x \<Longrightarrow> x \<le> 0xDF \<Longrightarrow> x = 0xC0 + x mod (32 :: nat)"
  "0xE0 \<le> x \<Longrightarrow> x \<le> 0xEF \<Longrightarrow> x = 0xE0 + x mod (16 :: nat)"
  "0xF0 \<le> x \<Longrightarrow> x \<le> 0xF4 \<Longrightarrow> x = 0xF0 + x mod (8 :: nat)"
  using lead_split [of 6 32 x] lead_split [of 14 16 x] lead_split [of 30 8 x] by simp_all

lemma offset_parts:
  "t < 64 \<Longrightarrow> (0x80 + t) mod 64 = (t :: nat)" "t < 32 \<Longrightarrow> (0xC0 + t) mod 32 = t" "t < 16 \<Longrightarrow> (0xE0 + t) mod 16 = t" "t < 8 \<Longrightarrow> (0xF0 + t) mod 8 = t"
  using mod_mult_self3 [of 2 64 t] mod_mult_self3 [of 6 32 t] mod_mult_self3 [of 14 16 t] mod_mult_self3 [of 30 8 t] by simp_all

lemma cp_parts:
  "c = c div 64 * 64 + c mod (64 :: nat)"
  "c = (c div 4096 * 64 + c div 64 mod 64) * 64 + c mod (64 :: nat)"
  "c = ((c div 262144 * 64 + c div 4096 mod 64) * 64 + c div 64 mod 64) * 64 + c mod (64 :: nat)"
proof -
  have b: "c div 4096 * 64 + c div 64 mod 64 = c div 64"
    using div_mult_mod_eq [of "c div 64" 64] by (simp add: div_mult2_eq [symmetric])
  have d: "c div 262144 * 64 + c div 4096 mod 64 = c div 4096"
    using div_mult_mod_eq [of "c div 4096" 64] by (simp add: div_mult2_eq [symmetric])
  show "c = c div 64 * 64 + c mod (64 :: nat)" by simp
  show "c = (c div 4096 * 64 + c div 64 mod 64) * 64 + c mod (64 :: nat)" unfolding b by simp
  show "c = ((c div 262144 * 64 + c div 4096 mod 64) * 64 + c div 64 mod 64) * 64 + c mod (64 :: nat)" unfolding d b by simp
qed

lemma cp_digits:
  assumes "q < 64" "r < 64" "s < (64 :: nat)"
  shows "(N * 64 + q) div 64 = N" "(N * 64 + q) mod 64 = q"
    "((N * 64 + q) * 64 + r) div 4096 = N" "((N * 64 + q) * 64 + r) div 64 mod 64 = q" "((N * 64 + q) * 64 + r) mod 64 = r"
    "(((N * 64 + q) * 64 + r) * 64 + s) div 262144 = N" "(((N * 64 + q) * 64 + r) * 64 + s) div 4096 mod 64 = q"
    "(((N * 64 + q) * 64 + r) * 64 + s) div 64 mod 64 = r" "(((N * 64 + q) * 64 + r) * 64 + s) mod 64 = s"
proof -
  have e: "x div 4096 = x div 64 div 64" "x div 262144 = x div 64 div 64 div 64" for x :: nat
    by (simp_all add: div_mult2_eq [symmetric])
  have s: "(M * 64 + t) div 64 = M \<and> (M * 64 + t) mod 64 = t" if "t < 64" for M t :: nat using that by simp
  show "(N * 64 + q) div 64 = N" "(N * 64 + q) mod 64 = q"
    "((N * 64 + q) * 64 + r) div 4096 = N" "((N * 64 + q) * 64 + r) div 64 mod 64 = q" "((N * 64 + q) * 64 + r) mod 64 = r"
    "(((N * 64 + q) * 64 + r) * 64 + s) div 262144 = N" "(((N * 64 + q) * 64 + r) * 64 + s) div 4096 mod 64 = q"
    "(((N * 64 + q) * 64 + r) * 64 + s) div 64 mod 64 = r" "(((N * 64 + q) * 64 + r) * 64 + s) mod 64 = s"
    unfolding e using s [OF assms(1)] s [OF assms(2)] s [OF assms(3)] by (simp_all only:)
qed

lemma two_digits:
  "(0xC2 \<le> x \<and> x \<le> 0xDF) \<and> y div 64 = 2 \<and> c = x mod 32 * 64 + y mod 64 \<and> 0x80 \<le> c \<longleftrightarrow>
    (0x80 \<le> c \<and> c < 0x800) \<and> x = 0xC0 + c div 64 \<and> y = 0x80 + c mod (64 :: nat)" (is "?l \<longleftrightarrow> ?r")
proof
  assume l: ?l
  have "x mod 32 < 32" "y mod 64 < 64" by simp_all
  with l cp_digits(1,2) [of "y mod 64" 0 0 "x mod 32"] lead_parts(1) [of x] byte_parts [of y] show ?r by auto
next
  assume r: ?r
  then have "2 \<le> c div 64" "c div 64 < 32" by auto
  with r show ?l unfolding byte_parts by (simp add: offset_parts cp_parts(1) [symmetric])
qed

lemma three_digits:
  "(0xE0 \<le> x \<and> x \<le> 0xEF) \<and> (y div 64 = 2 \<and> z div 64 = 2) \<and> c = (x mod 16 * 64 + y mod 64) * 64 + z mod 64 \<and> 0x800 \<le> c \<longleftrightarrow>
    (0x800 \<le> c \<and> c < 0x10000) \<and> x = 0xE0 + c div 4096 \<and> y = 0x80 + c div 64 mod 64 \<and> z = 0x80 + c mod (64 :: nat)" (is "?l \<longleftrightarrow> ?r")
proof
  assume l: ?l
  have b: "x mod 16 < 16" "y mod 64 < 64" "z mod 64 < 64" by simp_all
  from l have c: "c = (x mod 16 * 64 + y mod 64) * 64 + z mod 64" by blast
  have "c div 4096 = x mod 16" "c div 64 mod 64 = y mod 64" "c mod 64 = z mod 64"
    unfolding c by (rule cp_digits [OF b(2,3), of 0], simp)+
  moreover have "c < 0x10000"
  proof -
    have step: "x * 64 + y < n * 64" if "x < n" "y < 64" for x y n :: nat
      using mult_le_mono1 [of "Suc x" n 64] that by simp
    show ?thesis using step [OF step [OF b(1,2)] b(3)] unfolding c by simp
  qed
  moreover have "x = 0xE0 + x mod 16" "y = 0x80 + y mod 64" "z = 0x80 + z mod 64" using l lead_parts(2) [of x] unfolding byte_parts by blast+
  ultimately show ?r using l by metis
next
  assume r: ?r
  have d: "c div 4096 < 16" using r by (intro div_less_iff_less_mult [THEN iffD2]) auto
  have "x mod 16 = c div 4096" "y mod 64 = c div 64 mod 64" "z mod 64 = c mod 64"
    using r offset_parts(3) [OF d] offset_parts(1) [of "c div 64 mod 64"] offset_parts(1) [of "c mod 64"] by (simp_all only: mod_less_divisor zero_less_numeral)
  moreover from this have "y div 64 = 2" "z div 64 = 2" unfolding byte_parts using r by (simp_all only:)
  moreover have "0xE0 \<le> x \<and> x \<le> 0xEF" using r d by auto
  ultimately show ?l using r cp_parts(2) [of c] by metis
qed

lemma four_digits:
  "(0xF0 \<le> x \<and> x \<le> 0xF4) \<and> (y div 64 = 2 \<and> z div 64 = 2 \<and> w div 64 = 2) \<and>
     c = ((x mod 8 * 64 + y mod 64) * 64 + z mod 64) * 64 + w mod 64 \<and> 0x10000 \<le> c \<and> c \<le> 0x10FFFF \<longleftrightarrow>
    (0x10000 \<le> c \<and> c \<le> 0x10FFFF) \<and> x = 0xF0 + c div 262144 \<and> y = 0x80 + c div 4096 mod 64 \<and> z = 0x80 + c div 64 mod 64 \<and>
      w = 0x80 + c mod (64 :: nat)" (is "?l \<longleftrightarrow> ?r")
proof
  assume l: ?l
  have b: "y mod 64 < 64" "z mod 64 < 64" "w mod 64 < 64" by simp_all
  from l have c: "c = ((x mod 8 * 64 + y mod 64) * 64 + z mod 64) * 64 + w mod 64" by blast
  have "c div 262144 = x mod 8" "c div 4096 mod 64 = y mod 64" "c div 64 mod 64 = z mod 64" "c mod 64 = w mod 64"
    unfolding c by (rule cp_digits [OF b])+
  moreover have "x = 0xF0 + x mod 8" "y = 0x80 + y mod 64" "z = 0x80 + z mod 64" "w = 0x80 + w mod 64"
    using l lead_parts(3) [of x] unfolding byte_parts by blast+
  ultimately show ?r using l by metis
next
  assume r: ?r
  have d: "c div 262144 < 5" using r by (intro div_less_iff_less_mult [THEN iffD2]) auto
  then have d8: "c div 262144 < 8" by simp
  have "x mod 8 = c div 262144" "y mod 64 = c div 4096 mod 64" "z mod 64 = c div 64 mod 64" "w mod 64 = c mod 64"
    using r offset_parts(4) [OF d8] offset_parts(1) [of "c div 4096 mod 64"] offset_parts(1) [of "c div 64 mod 64"] offset_parts(1) [of "c mod 64"]
    by (simp_all only: mod_less_divisor zero_less_numeral)
  moreover from this have "y div 64 = 2" "z div 64 = 2" "w div 64 = 2" unfolding byte_parts using r by (simp_all only:)
  moreover have "0xF0 \<le> x \<and> x \<le> 0xF4" using r d by auto
  ultimately show ?l using r cp_parts(3) [of c] by metis
qed



lemma encode_bytes:
  assumes "utf8_scalar c"
  shows "utf8_encode c = [b] \<longleftrightarrow> c < 0x80 \<and> unat b = c"
    "utf8_encode c = [b, b1] \<longleftrightarrow> (0x80 \<le> c \<and> c < 0x800) \<and> unat b = 0xC0 + c div 64 \<and> unat b1 = 0x80 + c mod 64"
    "utf8_encode c = [b, b1, b2] \<longleftrightarrow> (0x800 \<le> c \<and> c < 0x10000) \<and> unat b = 0xE0 + c div 4096 \<and> unat b1 = 0x80 + c div 64 mod 64 \<and>
       unat b2 = 0x80 + c mod 64"
    "utf8_encode c = [b, b1, b2, b3] \<longleftrightarrow> (0x10000 \<le> c \<and> c \<le> 0x10FFFF) \<and> unat b = 0xF0 + c div 262144 \<and>
       unat b1 = 0x80 + c div 4096 mod 64 \<and> unat b2 = 0x80 + c div 64 mod 64 \<and> unat b3 = 0x80 + c mod 64"
proof -
  have t: "unat x = 0x80 + y mod 64 \<longleftrightarrow> of_nat (0x80 + y mod 64) = x" for x :: u8 and y
    using byte_eq_iff [of "0x80 + y mod 64" x] mod_less_divisor [of 64 y] by auto
  have l: "unat x = k \<longleftrightarrow> of_nat k = x" if "k < 256" for x :: u8 and k
    using byte_eq_iff [OF that, of x] by auto
  have c: "c \<le> 0x10FFFF" using assms by (simp add: utf8_scalar_def)
  have d: "c < 0x800 \<Longrightarrow> 0xC0 + c div 64 < 256" "c < 0x10000 \<Longrightarrow> 0xE0 + c div 4096 < 256" "0xF0 + c div 262144 < 256"
    using c by (auto simp: less_mult_imp_div_less)
  show "utf8_encode c = [b] \<longleftrightarrow> c < 0x80 \<and> unat b = c"
    using l [of c b] by (auto simp: utf8_encode_def)
  show "utf8_encode c = [b, b1] \<longleftrightarrow> (0x80 \<le> c \<and> c < 0x800) \<and> unat b = 0xC0 + c div 64 \<and> unat b1 = 0x80 + c mod 64"
    using l [OF d(1), of b] unfolding t by (auto simp: utf8_encode_def)
  show "utf8_encode c = [b, b1, b2] \<longleftrightarrow> (0x800 \<le> c \<and> c < 0x10000) \<and> unat b = 0xE0 + c div 4096 \<and> unat b1 = 0x80 + c div 64 mod 64 \<and>
       unat b2 = 0x80 + c mod 64"
    using l [OF d(2), of b] unfolding t by (auto simp: utf8_encode_def)
  show "utf8_encode c = [b, b1, b2, b3] \<longleftrightarrow> (0x10000 \<le> c \<and> c \<le> 0x10FFFF) \<and> unat b = 0xF0 + c div 262144 \<and>
       unat b1 = 0x80 + c div 4096 mod 64 \<and> unat b2 = 0x80 + c div 64 mod 64 \<and> unat b3 = 0x80 + c mod 64"
    using l [OF d(3), of b] c unfolding t by (auto simp: utf8_encode_def)
qed

lemma encode_shape:
  obtains b where "utf8_encode c = [b]" | b b1 where "utf8_encode c = [b, b1]" | b b1 b2 where "utf8_encode c = [b, b1, b2]"
  | b b1 b2 b3 where "utf8_encode c = [b, b1, b2, b3]"
proof (cases "c < 0x80", goal_cases)
  case 1
  then show ?case by (simp add: utf8_encode_def)
next
  case 2
  then show ?case by (cases "c < 0x800"; cases "c < 0x10000") (simp_all add: utf8_encode_def)
qed

lemma lead_ranges:
  assumes "\<not> (0x80 \<le> x \<and> (x < 0xC2 \<or> 0xF4 < x))"
  obtains "x < 0x80" | "0xC2 \<le> x" "x \<le> 0xDF" | "0xE0 \<le> x" "x \<le> 0xEF" | "0xF0 \<le> x" "x \<le> (0xF4 :: nat)"
proof -
  have "x < 0x80 \<or> (0xC2 \<le> x \<and> x \<le> 0xDF) \<or> (0xE0 \<le> x \<and> x \<le> 0xEF) \<or> (0xF0 \<le> x \<and> x \<le> 0xF4)" using assms by arith
  then show ?thesis using that by blast
qed

lemma utf8_decode_iff:
  "bvstk_fs_utf8_decode (Some bs) True = Some (n, cp) \<longleftrightarrow>
    utf8_scalar (unat cp) \<and> n = length (utf8_encode (unat cp)) \<and> (\<exists>rest. bs = utf8_encode (unat cp) @ rest)"
    (is "?l \<longleftrightarrow> ?r")
proof
  assume l: ?l
  then obtain b r where bs: "bs = b # r" by (cases bs) (auto simp: bvstk_fs_utf8_decode_def)
  have "\<not> (0x80 \<le> unat b \<and> (unat b < 0xC2 \<or> 0xF4 < unat b))" using decode_none [of b r] l bs by auto
  then show ?r
  proof (cases rule: lead_ranges)
    case 1
    then have "n = 1" "unat cp = unat b" using l decode_1 [OF 1, of r n cp] bs by simp_all
    with 1 show ?thesis by (simp add: bs utf8_encode_def utf8_scalar_def word_unat_eq_iff)
  next
    case 2
    then obtain b1 rest where d: "r = b1 # rest" "n = 2" "utf8_scalar (unat cp)" "unat b1 div 64 = 2"
      "unat cp = unat b mod 32 * 64 + unat b1 mod 64" "0x80 \<le> unat cp" using l decode_2 [OF 2, of r n cp] bs by blast
    then have "utf8_encode (unat cp) = [b, b1]"
      using two_digits [of "unat b" "unat b1" "unat cp"] encode_bytes(2) [OF d(3), of b b1] 2 by blast
    then show ?thesis using d bs by simp
  next
    case 3
    then obtain b1 b2 rest where d: "r = b1 # b2 # rest" "n = 3" "utf8_scalar (unat cp)" "unat b1 div 64 = 2" "unat b2 div 64 = 2"
      "unat cp = (unat b mod 16 * 64 + unat b1 mod 64) * 64 + unat b2 mod 64" "0x800 \<le> unat cp"
      using l decode_3 [OF 3, of r n cp] bs by blast
    then have "utf8_encode (unat cp) = [b, b1, b2]"
      using three_digits [of "unat b" "unat b1" "unat b2" "unat cp"] encode_bytes(3) [OF d(3), of b b1 b2] 3 by blast
    then show ?thesis using d bs by simp
  next
    case 4
    then obtain b1 b2 b3 rest where d: "r = b1 # b2 # b3 # rest" "n = 4" "utf8_scalar (unat cp)" "unat b1 div 64 = 2" "unat b2 div 64 = 2"
      "unat b3 div 64 = 2" "unat cp = ((unat b mod 8 * 64 + unat b1 mod 64) * 64 + unat b2 mod 64) * 64 + unat b3 mod 64" "0x10000 \<le> unat cp"
      using l decode_4 [OF 4, of r n cp] bs by blast
    have "unat cp \<le> 0x10FFFF" using d(3) by (simp add: utf8_scalar_def)
    with d 4 have "utf8_encode (unat cp) = [b, b1, b2, b3]"
      using four_digits [of "unat b" "unat b1" "unat b2" "unat b3" "unat cp"] encode_bytes(4) [OF d(3), of b b1 b2 b3] by blast
    then show ?thesis using d bs by simp
  qed
next
  assume r: ?r
  then obtain rest where bs: "bs = utf8_encode (unat cp) @ rest" by blast
  from r have sc: "utf8_scalar (unat cp)" and n: "n = length (utf8_encode (unat cp))" by blast+
  show ?l
  proof (cases rule: encode_shape [of "unat cp"])
    case (1 b)
    then show ?thesis using encode_bytes(1) [OF sc, of b] decode_1 [of b rest n cp] bs n by simp
  next
    case (2 b b1)
    then show ?thesis using encode_bytes(2) [OF sc, of b b1] two_digits [of "unat b" "unat b1" "unat cp"]
        decode_2 [of b "b1 # rest" n cp] bs n sc by simp
  next
    case (3 b b1 b2)
    then show ?thesis using encode_bytes(3) [OF sc, of b b1 b2] three_digits [of "unat b" "unat b1" "unat b2" "unat cp"]
        decode_3 [of b "b1 # b2 # rest" n cp] bs n sc by simp
  next
    case (4 b b1 b2 b3)
    then show ?thesis using encode_bytes(4) [OF sc, of b b1 b2 b3] four_digits [of "unat b" "unat b1" "unat b2" "unat b3" "unat cp"]
        decode_4 [of b "b1 # b2 # b3 # rest" n cp] bs n sc by simp
  qed
qed

text \<open>C35: the UTF-8 decoder accepts exactly the encodings of Unicode scalar values: it returns a code point and
  a length if and only if the input starts with the shortest encoding of that code point, of that
  length, and the code point is in range and no surrogate. Overlong, truncated and out-of-range
  sequences are therefore all refused, and no valid one is.\<close>

theorem utf8_decode_exact:
  "bvstk_fs_utf8_decode (Some bs) True = Some (n, cp) \<longleftrightarrow>
    utf8_scalar (unat cp) \<and> n = length (utf8_encode (unat cp)) \<and> (\<exists>rest. bs = utf8_encode (unat cp) @ rest)"
  by (rule utf8_decode_iff)

section \<open>Accepted paths\<close>

text \<open>A component is accepted exactly when it is the encoding of a sequence of code points that a
  file name may hold. No byte of it is a separator, so a component stays one component.\<close>

lemma component_scan_cps:
  "component_scan n bs \<Longrightarrow> \<exists>cps. bs = concat (map utf8_encode cps) \<and> list_all (\<lambda>c. utf8_scalar c \<and> \<not> forbidden_cp (of_nat c)) cps"
proof (induction n bs rule: component_scan.induct)
  case (3 n b bs)
  from "3.prems" obtain used cp where dec: "bvstk_fs_utf8_decode (Some (b # bs)) True = Some (used, cp)"
    and ok: "\<not> forbidden_cp cp" and rest: "component_scan n (drop used (b # bs))"
    by (auto split: option.splits if_splits)
  from dec obtain tl where e: "b # bs = utf8_encode (unat cp) @ tl" "used = length (utf8_encode (unat cp))" "utf8_scalar (unat cp)"
    unfolding utf8_decode_iff by blast
  have tl: "drop used (b # bs) = tl" unfolding e by simp
  obtain cps where "drop used (b # bs) = concat (map utf8_encode cps)"
    "list_all (\<lambda>c. utf8_scalar c \<and> \<not> forbidden_cp (of_nat c)) cps"
    using "3.IH" [OF dec refl ok rest] by blast
  with tl have "b # bs = concat (map utf8_encode (unat cp # cps)) \<and>
      list_all (\<lambda>c. utf8_scalar c \<and> \<not> forbidden_cp (of_nat c)) (unat cp # cps)"
    using e ok by (simp add: word_unat_eq_iff)
  then show ?case by blast
qed (auto intro: exI [of _ "[]"])

lemma utf8_encode_ascii:
  assumes "utf8_scalar c" "x \<in> set (utf8_encode c)" "unat x < 0x80"
  shows "c = unat x"
proof (cases rule: encode_shape [of c])
  case (1 b)
  then show ?thesis using encode_bytes(1) [OF assms(1), of b] assms by simp
next
  case (2 b b1)
  then show ?thesis using encode_bytes(2) [OF assms(1), of b b1] assms by auto
next
  case (3 b b1 b2)
  then show ?thesis using encode_bytes(3) [OF assms(1), of b b1 b2] assms by auto
next
  case (4 b b1 b2 b3)
  then show ?thesis using encode_bytes(4) [OF assms(1), of b b1 b2 b3] assms by auto
qed

lemma valid_component_no_slash: "valid_component name \<Longrightarrow> ch CHR ''/'' \<notin> set name"
proof
  assume "valid_component name" and sl: "ch CHR ''/'' \<in> set name"
  then have "component_scan (length name) name" by (simp add: valid_component_def split: if_splits)
  then obtain cps where cps: "name = concat (map utf8_encode cps)" "list_all (\<lambda>c. utf8_scalar c \<and> \<not> forbidden_cp (of_nat c)) cps"
    using component_scan_cps by blast
  then obtain c where c: "c \<in> set cps" "ch CHR ''/'' \<in> set (utf8_encode c)" using sl by auto
  have v: "unat (ch CHR ''/'') = 0x2F" by code_simp
  with c cps have "c = 0x2F" using utf8_encode_ascii [of c "ch CHR ''/''"] by (auto simp: list_all_iff)
  moreover have "forbidden_cp (of_nat 0x2F)" by code_simp
  ultimately show False using c cps by (auto simp: list_all_iff)
qed


text \<open>The grammar of paths: a volume name, a colon and components separated by slashes.\<close>

definition volume_char :: "u8 \<Rightarrow> bool" where
  "volume_char c \<longleftrightarrow> c \<ge> ch CHR ''a'' \<and> c \<le> ch CHR ''z'' \<or> c \<ge> ch CHR ''0'' \<and> c \<le> ch CHR ''9'' \<or> c = ch CHR ''-''"

fun slash_join :: "bytes list \<Rightarrow> bytes" where
  "slash_join [] = []"
| "slash_join [c] = c"
| "slash_join (c # cs) = c @ ch CHR ''/'' # slash_join cs"

definition volume_path :: "bytes \<Rightarrow> bytes list \<Rightarrow> bytes" where
  "volume_path vol cs = vol @ [ch CHR '':'', ch CHR ''/''] @ slash_join cs"

lemma volume_char_colon: "\<not> volume_char (ch CHR '':'')"
  by code_simp

lemma volume_scan_Cons:
  "volume_scan k (c # cs) = (if c = ch CHR '':'' then Some k else if volume_char c then volume_scan (k + 1) cs else None)"
  by (simp only: volume_scan.simps volume_char_def not_not if_not_P if_P) (simp split: if_split)

lemma volume_scan_iff:
  "volume_scan k p = Some m \<longleftrightarrow> m = k + length (takeWhile volume_char p) \<and>
    (dropWhile volume_char p = [] \<or> hd (dropWhile volume_char p) = ch CHR '':'')"
proof (induction p arbitrary: k)
  case (Cons c cs)
  have "c = ch CHR '':'' \<Longrightarrow> \<not> volume_char c" using volume_char_colon by blast
  then show ?case
    by (cases "volume_char c"; cases "c = ch CHR '':''") (auto simp: volume_scan_Cons Cons.IH simp del: volume_scan.simps)
qed auto

lemma first_slash_unique:
  assumes "a @ ch CHR ''/'' # s = b @ ch CHR ''/'' # t" "ch CHR ''/'' \<notin> set a" "ch CHR ''/'' \<notin> set b"
  shows "a = b \<and> s = t"
proof -
  have "a = takeWhile (\<lambda>x. x \<noteq> ch CHR ''/'') (a @ ch CHR ''/'' # s)" using assms(2) by (induction a) auto
  moreover have "b = takeWhile (\<lambda>x. x \<noteq> ch CHR ''/'') (b @ ch CHR ''/'' # t)" using assms(3) by (induction b) auto
  ultimately have "a = b" using assms(1) by metis
  then show ?thesis using assms(1) by simp
qed

definition rest_ok :: "bytes \<Rightarrow> bool" where
  "rest_ok s \<longleftrightarrow> (\<exists>cs. list_all valid_component cs \<and> (s = slash_join cs \<or> cs \<noteq> [] \<and> s = slash_join cs @ [ch CHR ''/'']))"

lemma slash_join_Cons: "cs \<noteq> [] \<Longrightarrow> slash_join (c # cs) = c @ ch CHR ''/'' # slash_join cs"
  by (cases cs) auto

lemma rest_ok_single:
  assumes "ch CHR ''/'' \<notin> set cur"
  shows "rest_ok cur \<longleftrightarrow> cur = [] \<or> valid_component cur"
proof
  assume "rest_ok cur"
  then obtain cs where cs: "list_all valid_component cs" "cur = slash_join cs" using assms by (auto simp: rest_ok_def)
  show "cur = [] \<or> valid_component cur"
  proof (cases cs)
    case (Cons c cs')
    then show ?thesis using cs assms by (cases cs') auto
  qed (use cs in simp)
next
  assume "cur = [] \<or> valid_component cur"
  then have "list_all valid_component (if cur = [] then [] else [cur]) \<and> cur = slash_join (if cur = [] then [] else [cur])" by auto
  then show "rest_ok cur" unfolding rest_ok_def by blast
qed

lemma rest_ok_slash:
  assumes "ch CHR ''/'' \<notin> set cur"
  shows "rest_ok (cur @ ch CHR ''/'' # t) \<longleftrightarrow> valid_component cur \<and> rest_ok t"
proof
  assume "rest_ok (cur @ ch CHR ''/'' # t)"
  then obtain cs where cs: "list_all valid_component cs" "cs \<noteq> []"
    "cur @ ch CHR ''/'' # t = slash_join cs \<or> cur @ ch CHR ''/'' # t = slash_join cs @ [ch CHR ''/'']"
    unfolding rest_ok_def by (cases "\<exists>cs. cs = []") force+
  then obtain c cs' where c: "cs = c # cs'" "valid_component c" "list_all valid_component cs'" by (cases cs) auto
  note ns = valid_component_no_slash [OF c(2)]
  show "valid_component cur \<and> rest_ok t"
  proof (cases "cs' = []")
    case True
    then have "cur @ ch CHR ''/'' # t = c @ ch CHR ''/'' # []" using cs c ns by auto
    then have "cur = c" "t = []" using first_slash_unique assms ns by blast+
    then show ?thesis using c by (auto simp: rest_ok_def intro: exI [of _ "[]"])
  next
    case False
    then have "cur @ ch CHR ''/'' # t = c @ ch CHR ''/'' # slash_join cs' \<or>
        cur @ ch CHR ''/'' # t = c @ ch CHR ''/'' # (slash_join cs' @ [ch CHR ''/''])" using cs c by (simp add: slash_join_Cons)
    then have "cur = c \<and> (t = slash_join cs' \<or> t = slash_join cs' @ [ch CHR ''/''])" using first_slash_unique assms ns by blast
    then show ?thesis using c False unfolding rest_ok_def by blast
  qed
next
  assume a: "valid_component cur \<and> rest_ok t"
  then obtain cs where cs: "list_all valid_component cs" "t = slash_join cs \<or> cs \<noteq> [] \<and> t = slash_join cs @ [ch CHR ''/'']"
    unfolding rest_ok_def by blast
  have "list_all valid_component (cur # cs)" using a cs by simp
  moreover have "cur @ ch CHR ''/'' # t = slash_join (cur # cs) \<or> cur @ ch CHR ''/'' # t = slash_join (cur # cs) @ [ch CHR ''/'']"
    using cs by (cases "cs = []") (auto simp: slash_join_Cons)
  ultimately show "rest_ok (cur @ ch CHR ''/'' # t)" unfolding rest_ok_def by blast
qed

lemma components_ok_iff: "ch CHR ''/'' \<notin> set cur \<Longrightarrow> components_ok cur s \<longleftrightarrow> rest_ok (cur @ s)"
proof (induction cur s rule: components_ok.induct)
  case (2 cur c cs)
  show ?case
  proof (cases "c = ch CHR ''/''")
    case True
    then show ?thesis using 2 rest_ok_slash [of cur cs] by (auto simp: valid_component_def)
  qed (use 2 in auto)
qed (simp add: rest_ok_single)


lemma slash_join_snoc:
  assumes "list_all valid_component cs" "cs \<noteq> []"
  shows "slash_join cs \<noteq> [] \<and> last (slash_join cs) \<noteq> ch CHR ''/''"
  using assms
proof (induction cs)
  case (Cons c cs)
  then have "c \<noteq> []" "ch CHR ''/'' \<notin> set c" using valid_component_no_slash [of c] by (auto simp: valid_component_def)
  then have "last c \<noteq> ch CHR ''/''" using last_in_set by metis
  with \<open>c \<noteq> []\<close> Cons show ?case by (cases "cs = []") (auto simp: slash_join_Cons)
qed simp

lemma volume_split:
  assumes "volume_scan 0 p = Some n" "n + 1 < length p" "p ! (n + 1) = ch CHR ''/''"
  shows "p = take n p @ [ch CHR '':'', ch CHR ''/''] @ drop (n + 2) p" "list_all volume_char (take n p)"
proof -
  have n: "n = length (takeWhile volume_char p)" and d: "dropWhile volume_char p = [] \<or> hd (dropWhile volume_char p) = ch CHR '':''"
    using assms(1) by (auto simp: volume_scan_iff)
  have t: "take n p = takeWhile volume_char p" and dr: "drop n p = dropWhile volume_char p"
    unfolding n by (rule takeWhile_eq_take [symmetric], rule dropWhile_eq_drop [symmetric])
  have "drop n p \<noteq> []" using assms(2) by simp
  then have "hd (drop n p) = ch CHR '':''" using d dr by metis
  then have "p ! n = ch CHR '':''" using assms(2) by (simp add: hd_drop_conv_nth)
  then have "drop n p = [ch CHR '':'', ch CHR ''/''] @ drop (n + 2) p"
    using assms(2,3) Cons_nth_drop_Suc [of n p] Cons_nth_drop_Suc [of "n + 1" p] by simp
  then show "p = take n p @ [ch CHR '':'', ch CHR ''/''] @ drop (n + 2) p" by (metis append_take_drop_id)
  show "list_all volume_char (take n p)" unfolding t by (auto simp: list_all_iff dest: set_takeWhileD)
qed

lemma volume_scan_path:
  assumes "list_all volume_char vol"
  shows "volume_scan 0 (vol @ ch CHR '':'' # s) = Some (length vol)"
  using assms volume_char_colon unfolding volume_scan_iff list_all_iff by (simp add: takeWhile_append2 dropWhile_append2)

lemma validate_path_iff:
  "bvstk_fs_validate_path (Some p) True capacity = (BVSTK_FS_OK, Some q) \<longleftrightarrow>
    (\<exists>vol cs. list_all volume_char vol \<and> 0 < length vol \<and> length vol < 16 \<and> list_all valid_component cs \<and> q = volume_path vol cs \<and>
      (p = q \<or> cs \<noteq> [] \<and> p = q @ [ch CHR ''/'']) \<and> length p < capacity \<and> length p < 512)"
    (is "?l \<longleftrightarrow> ?r")
proof
  assume l: ?l
  then obtain n where n: "volume_scan 0 p = Some n" "0 < n" "n < 16" "n + 1 < length p" "p ! (n + 1) = ch CHR ''/''"
    "components_ok [] (drop (n + 2) p)" "length p < capacity" "length p < 512"
    "q = (if length p > n + 2 \<and> p ! (length p - 1) = ch CHR ''/'' then take (length p - 1) p else p)"
    unfolding bvstk_fs_validate_path_def Let_def by (simp split: option.splits if_splits)
  define s where "s = drop (n + 2) p"
  have p: "p = take n p @ [ch CHR '':'', ch CHR ''/''] @ s" and vc: "list_all volume_char (take n p)"
    using volume_split [OF n(1,4,5)] by (simp_all add: s_def)
  have vl: "length (take n p) = n" using n by simp
  from n(6) have "rest_ok s" using components_ok_iff [of "[]"] by (simp add: s_def)
  then obtain cs where cs: "list_all valid_component cs" "s = slash_join cs \<or> cs \<noteq> [] \<and> s = slash_join cs @ [ch CHR ''/'']"
    unfolding rest_ok_def by blast
  have pl: "length p > n + 2 \<longleftrightarrow> s \<noteq> []" by (auto simp: s_def)
  have plast: "s \<noteq> [] \<Longrightarrow> p ! (length p - 1) = last s" using p n(4) by (metis append_is_Nil_conv last_append last_conv_nth)
  have "q = volume_path (take n p) cs \<and> (p = q \<or> cs \<noteq> [] \<and> p = q @ [ch CHR ''/''])"
  proof (cases "cs \<noteq> [] \<and> s = slash_join cs @ [ch CHR ''/'']")
    case True
    then have "q = butlast p" using n(9) pl plast by (simp add: butlast_conv_take)
    also have "butlast p = volume_path (take n p) cs" using True by (subst p) (simp add: volume_path_def butlast_append)
    finally show ?thesis using True p by (simp add: volume_path_def)
  next
    case False
    then have "s = slash_join cs" using cs by blast
    moreover from this have "q = p" using n(9) pl plast slash_join_snoc [OF cs(1)] by (cases "cs = []") auto
    ultimately show ?thesis using p by (simp add: volume_path_def)
  qed
  then show ?r using cs(1) vc vl n by metis
next
  assume ?r
  then obtain vol cs where r: "list_all volume_char vol" "0 < length vol" "length vol < 16" "list_all valid_component cs"
    "q = volume_path vol cs" "p = q \<or> cs \<noteq> [] \<and> p = q @ [ch CHR ''/'']" "length p < capacity" "length p < 512" by blast
  define s where "s = (if p = q then slash_join cs else slash_join cs @ [ch CHR ''/''])"
  have p: "p = vol @ ch CHR '':'' # ch CHR ''/'' # s" using r(5,6) by (auto simp: volume_path_def s_def)
  have "rest_ok s" using r(4,6) unfolding rest_ok_def s_def by auto
  then have ok: "components_ok [] s" using components_ok_iff [of "[]"] by simp
  have sl: "s \<noteq> [] \<and> last s = ch CHR ''/'' \<longleftrightarrow> p \<noteq> q"
    using slash_join_snoc [OF r(4)] r(6) by (cases "cs = []") (auto simp: s_def)
  have plast: "s \<noteq> [] \<Longrightarrow> p ! (length p - 1) = last s" using p by (metis append_is_Nil_conv last_append last_ConsR last_conv_nth list.distinct(1))
  have pl: "length p > length vol + 2 \<longleftrightarrow> s \<noteq> []" using p by auto
  have q: "q = (if length p > length vol + 2 \<and> p ! (length p - 1) = ch CHR ''/'' then take (length p - 1) p else p)"
    unfolding pl using sl plast r(6) by (auto simp: butlast_conv_take [symmetric])
  have "volume_scan 0 p = Some (length vol)" "p ! (length vol + 1) = ch CHR ''/''" "drop (length vol + 2) p = s" "length vol + 1 < length p" "p \<noteq> []"
    using volume_scan_path [OF r(1)] by (simp_all add: p nth_append)
  then show ?l using r(2,3,7,8) ok q unfolding bvstk_fs_validate_path_def Let_def by (simp split del: if_split)
qed

text \<open>
  What a name is, without the program: the UTF-8 encoding of code points of which none is a control
  character, DEL or one of \<open>" * / : < > ? \ |\<close>; not empty, not \<open>.\<close> and not \<open>..\<close>.
\<close>

definition reserved_cp :: "nat \<Rightarrow> bool" where
  "reserved_cp c \<longleftrightarrow> c < 0x20 \<or> c = 0x7F \<or> c \<in> {0x22, 0x2A, 0x2F, 0x3A, 0x3C, 0x3E, 0x3F, 0x5C, 0x7C}"

definition name_ok :: "bytes \<Rightarrow> bool" where
  "name_ok name \<longleftrightarrow> name \<noteq> [] \<and> name \<noteq> [0x2E] \<and> name \<noteq> [0x2E, 0x2E] \<and>
     (\<exists>cps. name = concat (map utf8_encode cps) \<and> (\<forall>c \<in> set cps. utf8_scalar c \<and> \<not> reserved_cp c))"

lemma forbidden_reserved: "utf8_scalar c \<Longrightarrow> forbidden_cp (of_nat c) \<longleftrightarrow> reserved_cp c"
proof -
  assume "utf8_scalar c"
  then have u: "unat (of_nat c :: u32) = c" by (simp add: utf8_scalar_def unat_of_nat_small)
  have "(of_char CHR ''/'' :: u32) = 0x2F" "(of_char (CHR 0x5C) :: u32) = 0x5C" "(of_char CHR '':'' :: u32) = 0x3A"
    "(of_char CHR ''*'' :: u32) = 0x2A" "(of_char CHR ''?'' :: u32) = 0x3F" "(of_char (CHR 0x22) :: u32) = 0x22"
    "(of_char CHR ''<'' :: u32) = 0x3C" "(of_char CHR ''>'' :: u32) = 0x3E" "(of_char CHR ''|'' :: u32) = 0x7C"
    by code_simp+
  then show ?thesis unfolding forbidden_cp_def reserved_cp_def word_unat_eq_iff word_less_nat_alt u by auto
qed

lemma component_scan_encoded:
  "\<forall>c \<in> set cps. utf8_scalar c \<and> \<not> reserved_cp c \<Longrightarrow> length (concat (map utf8_encode cps)) \<le> n \<Longrightarrow>
   component_scan n (concat (map utf8_encode cps))"
proof (induction cps arbitrary: n)
  case (Cons c cps)
  then have c: "utf8_scalar c" "\<not> reserved_cp c" by simp_all
  have "unat (of_nat c :: u32) = c" using c(1) by (intro unat_of_nat_small) (simp add: utf8_scalar_def)
  then have dec: "bvstk_fs_utf8_decode (Some (utf8_encode c @ concat (map utf8_encode cps))) True =
      Some (length (utf8_encode c), of_nat c)" using c(1) unfolding utf8_decode_iff by simp
  obtain b bs where e: "utf8_encode c = b # bs" by (cases rule: encode_shape [of c]) auto
  then obtain m where n: "n = Suc m" "length (concat (map utf8_encode cps)) \<le> m" using Cons.prems(2) by (cases n) auto
  show ?case using Cons.IH [OF _ n(2)] Cons.prems(1) dec forbidden_reserved [OF c(1)] c(2) by (simp add: e n(1))
qed simp

lemma valid_component_name: "valid_component name \<longleftrightarrow> name_ok name"
proof -
  have dots: "ascii ''.'' = [0x2E]" "ascii ''..'' = [0x2E, 0x2E]" by code_simp+
  have "component_scan (length name) name \<longleftrightarrow>
      (\<exists>cps. name = concat (map utf8_encode cps) \<and> (\<forall>c \<in> set cps. utf8_scalar c \<and> \<not> reserved_cp c))"
    using component_scan_cps [of "length name" name] component_scan_encoded [of _ "length name"] forbidden_reserved
    by (auto simp: list_all_iff)
  then show ?thesis by (auto simp: valid_component_def name_ok_def dots)
qed

text \<open>C36: a path is accepted exactly when it is \<open>volume:/name/.../name\<close>, optionally with one trailing slash,
  shorter than the buffer and than the path limit, with a volume name of 1 to 15 lower-case
  letters, digits and dashes and with names (\<open>name_ok\<close>) that are valid UTF-8, hold no control, separator
  or reserved character and are neither \<open>.\<close> nor \<open>..\<close>; the result is the path without the trailing
  slash. So no accepted path can leave its volume.\<close>

theorem path_accepted_exact:
  "bvstk_fs_validate_path (Some p) True capacity = (BVSTK_FS_OK, Some q) \<longleftrightarrow>
    (\<exists>vol cs. list_all volume_char vol \<and> 0 < length vol \<and> length vol < 16 \<and> list_all name_ok cs \<and> q = volume_path vol cs \<and>
      (p = q \<or> cs \<noteq> [] \<and> p = q @ [ch CHR ''/'']) \<and> length p < capacity \<and> length p < 512)"
proof -
  have "valid_component = name_ok" by (rule ext) (rule valid_component_name)
  then show ?thesis using validate_path_iff by simp
qed

end
