(* ===== verification/Fs_Reader.thy ===== *)
theory Fs_Reader
  imports Fs_Path
begin

text \<open>
  The streaming reader of \<open>src/services/fs/bvstk_fs_reader.c\<close>: one object turned into a byte stream, a file
  as its content, a directory as a listing (TREE) or as a TAR archive with PAX headers.

  The storage backend is outside: every call to it is an event of a trace, with the handle it
  returned, and the environment answers a call as a function of the events so far. A handle is a
  number, 0 being \<open>NULL\<close>. The directory stack \<open>dirs[0 .. depth)\<close> is a list with the top first. \<open>stage\<close> holds
  the \<open>stage_size\<close> bytes in use of the staging buffer. A loop of the code is a recursive function;
  the read loop is \<open>read_loop\<close>, whose termination proof is the termination of the code.
\<close>

section \<open>State and environment\<close>

record bvstk_fs_info_t =
  fi_size :: u64
  fi_stamp :: u32
  fi_type :: u8
  fi_attributes :: u8

record bvstk_fs_volume_t =
  vol_name :: cstr
  vol_state :: u8

datatype fs_event =
    EvVolumeCount
  | EvVolume nat
  | EvStat cstr
  | EvFileOpen cstr bvstk_fs_result_t nat
  | EvFileRead nat nat
  | EvFileClose nat
  | EvDirOpen cstr bvstk_fs_result_t nat
  | EvDirRead nat
  | EvDirClose nat

type_synonym fs_trace = "fs_event list"

text \<open>Answers of the backend. \<open>file_open\<close> returns the handle it stored and the size, \<open>file_read\<close> the bytes it
  reports, \<open>dir_read\<close> a name that is empty at the end of the directory.\<close>

record fs_env =
  be_volume_count :: "fs_trace \<Rightarrow> nat"
  be_volume :: "fs_trace \<Rightarrow> nat \<Rightarrow> bvstk_fs_result_t \<times> bvstk_fs_volume_t"
  be_stat :: "fs_trace \<Rightarrow> cstr \<Rightarrow> bvstk_fs_result_t \<times> bvstk_fs_info_t"
  be_file_open :: "fs_trace \<Rightarrow> cstr \<Rightarrow> bvstk_fs_result_t \<times> nat \<times> u64"
  be_file_read :: "fs_trace \<Rightarrow> nat \<Rightarrow> nat \<Rightarrow> bvstk_fs_result_t \<times> bytes"
  be_dir_open :: "fs_trace \<Rightarrow> cstr \<Rightarrow> bvstk_fs_result_t \<times> nat"
  be_dir_read :: "fs_trace \<Rightarrow> nat \<Rightarrow> bvstk_fs_result_t \<times> cstr \<times> bvstk_fs_info_t"

datatype reader_phase = WALK | FILE_DATA | FILE_PADDING | FINISHED

abbreviation (input) BVSTK_FS_FILE :: u8 where "BVSTK_FS_FILE \<equiv> 1"
abbreviation (input) BVSTK_FS_TREE :: u8 where "BVSTK_FS_TREE \<equiv> 2"
abbreviation (input) BVSTK_FS_TAR :: u8 where "BVSTK_FS_TAR \<equiv> 3"
abbreviation (input) BVSTK_FS_RECURSIVE :: u8 where "BVSTK_FS_RECURSIVE \<equiv> 1"
abbreviation (input) BVSTK_FS_ENTRY_FILE :: u8 where "BVSTK_FS_ENTRY_FILE \<equiv> 1"
abbreviation (input) BVSTK_FS_ENTRY_DIR :: u8 where "BVSTK_FS_ENTRY_DIR \<equiv> 2"
abbreviation (input) BVSTK_FS_MAX_DEPTH :: nat where "BVSTK_FS_MAX_DEPTH \<equiv> 16"

record dir_slot =
  ds_handle :: nat
  ds_path_len :: nat

record bvstk_fs_reader_t =
  rd_backend :: bool
  rd_root :: cstr
  rd_path :: cstr
  rd_dirs :: "dir_slot list"
  rd_relative_offset :: nat
  rd_file :: nat
  rd_info :: bvstk_fs_info_t
  rd_remaining :: u64
  rd_total_size :: u64
  rd_padding :: nat
  rd_stage :: bytes
  rd_stage_offset :: nat
  rd_kind :: u8
  rd_flags :: u8
  rd_phase :: reader_phase

definition zero_info :: bvstk_fs_info_t where
  "zero_info = \<lparr> fi_size = 0, fi_stamp = 0, fi_type = 0, fi_attributes = 0 \<rparr>"

text \<open>\<open>memset(r, 0, sizeof(*r))\<close>; phase 0 is \<open>WALK\<close>.\<close>

definition zero_reader :: bvstk_fs_reader_t where
  "zero_reader = \<lparr> rd_backend = False, rd_root = [], rd_path = [], rd_dirs = [], rd_relative_offset = 0, rd_file = 0,
     rd_info = zero_info, rd_remaining = 0, rd_total_size = 0, rd_padding = 0, rd_stage = [], rd_stage_offset = 0,
     rd_kind = 0, rd_flags = 0, rd_phase = WALK \<rparr>"

definition fs_put16 :: "u16 \<Rightarrow> bytes" where
  "fs_put16 v = [ucast (drop_bit 8 v), ucast v]"

definition fs_put64 :: "u64 \<Rightarrow> bytes" where
  "fs_put64 v = map (\<lambda>i. ucast (drop_bit (56 - 8 * i) v)) [0..<8]"

section \<open>Closing\<close>

text \<open>The loop closes the directories from the top of the stack down.\<close>

fun close_dirs :: "dir_slot list \<Rightarrow> fs_trace \<Rightarrow> fs_trace" where
  "close_dirs [] tr = tr"
| "close_dirs (d # ds) tr = close_dirs ds (tr @ [EvDirClose (ds_handle d)])"

definition bvstk_fs_reader_close :: "bvstk_fs_reader_t \<Rightarrow> fs_trace \<Rightarrow> bvstk_fs_reader_t \<times> fs_trace" where
  "bvstk_fs_reader_close r tr =
    (if \<not> rd_backend r then (r, tr)
     else let tr1 = (if rd_file r \<noteq> 0 then tr @ [EvFileClose (rd_file r)] else tr) in
       (r\<lparr>rd_file := 0, rd_dirs := [], rd_phase := FINISHED\<rparr>, close_dirs (rd_dirs r) tr1))"

section \<open>Opening\<close>

definition open_file :: "fs_env \<Rightarrow> bvstk_fs_reader_t \<Rightarrow> fs_trace \<Rightarrow> bvstk_fs_result_t \<times> bvstk_fs_reader_t \<times> fs_trace" where
  "open_file e r tr =
    (case be_file_open e tr (rd_path r) of (rc, h, sz) \<Rightarrow>
       let r1 = r\<lparr>rd_file := h\<rparr>; tr1 = tr @ [EvFileOpen (rd_path r) rc h] in
       if rc \<noteq> BVSTK_FS_OK then (rc, r1, tr1)
       else if sz \<noteq> fi_size (rd_info r) then (BVSTK_FS_CHANGED, r1, tr1)
       else (BVSTK_FS_OK, r1\<lparr>rd_remaining := sz\<rparr>, tr1))"

text \<open>The end of \<open>bvstk_fs_reader_open\<close>: open the file or the root directory and close again on failure.\<close>

definition open_object :: "fs_env \<Rightarrow> bvstk_fs_reader_t \<Rightarrow> fs_trace \<Rightarrow> bvstk_fs_result_t \<times> bvstk_fs_reader_t \<times> fs_trace" where
  "open_object e r tr =
    (case (if rd_kind r = BVSTK_FS_FILE
           then (case open_file e r tr of (rc, r1, tr1) \<Rightarrow> (rc, r1\<lparr>rd_phase := FILE_DATA\<rparr>, tr1))
           else (case be_dir_open e tr (rd_path r) of (rc, h) \<Rightarrow>
             (rc, r\<lparr>rd_dirs := (if rc = BVSTK_FS_OK then [\<lparr>ds_handle = h, ds_path_len = length (rd_path r)\<rparr>] else []), rd_phase := WALK\<rparr>,
              tr @ [EvDirOpen (rd_path r) rc h]))) of
       (rc, r1, tr1) \<Rightarrow>
         if rc \<noteq> BVSTK_FS_OK then (case bvstk_fs_reader_close r1 tr1 of (r2, tr2) \<Rightarrow> (rc, r2, tr2)) else (BVSTK_FS_OK, r1, tr1))"

definition bvstk_fs_reader_open :: "fs_env \<Rightarrow> cstr \<Rightarrow> u8 \<Rightarrow> u8 \<Rightarrow> fs_trace \<Rightarrow> bvstk_fs_result_t \<times> bvstk_fs_reader_t \<times> fs_trace" where
  "bvstk_fs_reader_open e path kind flags tr =
    (let r0 = zero_reader\<lparr>rd_backend := True, rd_kind := kind, rd_flags := flags\<rparr>; len = length path in
     if len \<ge> BVSTK_FS_PATH_CAPACITY then (BVSTK_FS_RANGE, r0, tr)
     else if kind < BVSTK_FS_FILE \<or> kind > BVSTK_FS_TAR then (BVSTK_FS_UNSUPPORTED, r0, tr)
     else if kind \<noteq> BVSTK_FS_TREE \<and> flags \<noteq> 0 \<or> flags AND NOT BVSTK_FS_RECURSIVE \<noteq> 0 then (BVSTK_FS_INVALID, r0, tr)
     else
       (case be_stat e tr path of (rc, info) \<Rightarrow>
          let r1 = r0\<lparr>rd_root := path, rd_path := path,
                      rd_relative_offset := len + (if len \<noteq> 0 \<and> path ! (len - 1) \<noteq> ch CHR ''/'' then 1 else 0), rd_info := info\<rparr>;
              tr1 = tr @ [EvStat path] in
          if rc \<noteq> BVSTK_FS_OK then (rc, r1, tr1)
          else if fi_type info \<noteq> (if kind = BVSTK_FS_FILE then BVSTK_FS_ENTRY_FILE else BVSTK_FS_ENTRY_DIR) then (BVSTK_FS_TYPE_ERROR, r1, tr1)
          else open_object e (r1\<lparr>rd_total_size := (if kind = BVSTK_FS_FILE then fi_size info else - 1)\<rparr>) tr1))"

section \<open>Walking the tree\<close>

text \<open>One result of the walk: an error, the end, or the entry now in \<open>rd_path\<close> and \<open>rd_info\<close>. The state is
  the reader without its stack and the stack itself, so that the loop is recursion on the stack.\<close>

definition accept_entry :: "fs_env \<Rightarrow> bvstk_fs_reader_t \<Rightarrow> dir_slot list \<Rightarrow> cstr \<Rightarrow> cstr \<Rightarrow> fs_trace \<Rightarrow> bvstk_fs_result_t \<times> bvstk_fs_reader_t \<times> fs_trace" where
  "accept_entry e r dirs base name tr =
    (if \<not> valid_component name then (BVSTK_FS_INVALID, r\<lparr>rd_dirs := dirs, rd_path := base\<rparr>, tr)
     else
       let slash = base \<noteq> [] \<and> last base \<noteq> ch CHR ''/'' in
       if slash \<and> length base + 1 \<ge> BVSTK_FS_PATH_CAPACITY then (BVSTK_FS_RANGE, r\<lparr>rd_dirs := dirs, rd_path := base\<rparr>, tr)
       else
         let parent = (if slash then base @ [ch CHR ''/''] else base) in
         if length parent + length name \<ge> BVSTK_FS_PATH_CAPACITY then (BVSTK_FS_RANGE, r\<lparr>rd_dirs := dirs, rd_path := parent\<rparr>, tr)
         else
           let path = parent @ name; r1 = r\<lparr>rd_dirs := dirs, rd_path := path\<rparr> in
           if fi_type (rd_info r) = BVSTK_FS_ENTRY_DIR \<and> (rd_kind r = BVSTK_FS_TAR \<or> rd_flags r AND BVSTK_FS_RECURSIVE \<noteq> 0) then
             if length dirs = BVSTK_FS_MAX_DEPTH then (BVSTK_FS_RANGE, r1, tr)
             else (case be_dir_open e tr path of (rc, h) \<Rightarrow>
               let tr1 = tr @ [EvDirOpen path rc h] in
               if rc \<noteq> BVSTK_FS_OK then (rc, r1, tr1)
               else (BVSTK_FS_OK, r1\<lparr>rd_dirs := \<lparr>ds_handle = h, ds_path_len = length path\<rparr> # dirs\<rparr>, tr1))
           else if fi_type (rd_info r) \<noteq> BVSTK_FS_ENTRY_FILE \<and> fi_type (rd_info r) \<noteq> BVSTK_FS_ENTRY_DIR then (BVSTK_FS_UNSUPPORTED, r1, tr)
           else (BVSTK_FS_OK, r1, tr))"

fun walk_dirs :: "fs_env \<Rightarrow> bvstk_fs_reader_t \<Rightarrow> dir_slot list \<Rightarrow> fs_trace \<Rightarrow> bvstk_fs_result_t \<times> bool \<times> bvstk_fs_reader_t \<times> fs_trace" where
  "walk_dirs e r [] tr = (BVSTK_FS_OK, True, r\<lparr>rd_dirs := []\<rparr>, tr)"
| "walk_dirs e r (d # ds) tr =
    (let base = take (ds_path_len d) (rd_path r) in
     case be_dir_read e tr (ds_handle d) of (rc, name, info) \<Rightarrow>
       let tr1 = tr @ [EvDirRead (ds_handle d)]; r1 = r\<lparr>rd_path := base, rd_info := info\<rparr> in
       if rc \<noteq> BVSTK_FS_OK then (rc, False, r1\<lparr>rd_dirs := d # ds\<rparr>, tr1)
       else if name = [] then walk_dirs e r1 ds (tr1 @ [EvDirClose (ds_handle d)])
       else (case accept_entry e r1 (d # ds) base name tr1 of (rc2, r2, tr2) \<Rightarrow> (rc2, False, r2, tr2)))"

definition next_entry :: "fs_env \<Rightarrow> bvstk_fs_reader_t \<Rightarrow> fs_trace \<Rightarrow> bvstk_fs_result_t \<times> bool \<times> bvstk_fs_reader_t \<times> fs_trace" where
  "next_entry e r tr = walk_dirs e r (rd_dirs r) tr"

section \<open>TAR headers\<close>

text \<open>Digits of a number in a base, most significant first, without and with zero padding.\<close>

fun digits :: "nat \<Rightarrow> nat \<Rightarrow> nat list" where
  "digits b n = (if b < 2 \<or> n < b then [n] else digits b (n div b) @ [n mod b])"

declare digits.simps [simp del]

definition digit_chars :: "nat list \<Rightarrow> bytes" where
  "digit_chars ds = map (\<lambda>d. ch CHR ''0'' + of_nat d) ds"

text \<open>\<open>%0wo\<close>.\<close>

definition octal_padded :: "nat \<Rightarrow> nat \<Rightarrow> bytes" where
  "octal_padded w n = replicate (w - length (digits 8 n)) (ch CHR ''0'') @ digit_chars (digits 8 n)"

text \<open>\<open>%lu\<close>.\<close>

definition decimal :: "nat \<Rightarrow> bytes" where
  "decimal n = digit_chars (digits 10 n)"

text \<open>\<open>snprintf(out + off, cap, ...)\<close> stores at most \<open>cap - 1\<close> bytes and a NUL.\<close>

definition put_at :: "nat \<Rightarrow> bytes \<Rightarrow> bytes \<Rightarrow> bytes" where
  "put_at off bs h = take off h @ bs @ drop (off + length bs) h"

definition put_string :: "nat \<Rightarrow> nat \<Rightarrow> bytes \<Rightarrow> bytes \<Rightarrow> bytes" where
  "put_string off cap s h = put_at off (take (cap - 1) s @ [0]) h"

definition header_fields :: "cstr \<Rightarrow> u8 \<Rightarrow> u64 \<Rightarrow> bytes" where
  "header_fields name typ sz =
    (let h0 = replicate 512 0;
         h1 = put_at 0 name h0;
         h2 = put_at 100 (if typ = ch CHR ''5'' then ascii ''0000755'' else ascii ''0000644'') h1;
         h3 = put_at 108 (ascii ''0000000'') h2;
         h4 = put_at 116 (ascii ''0000000'') h3;
         h5 = put_string 124 12 (octal_padded 11 (unat sz)) h4;
         h6 = put_at 136 (ascii ''00000000000'') h5;
         h7 = put_at 148 (replicate 8 (ch CHR '' '')) h6;
         h8 = put_at 156 [typ] h7;
         h9 = put_at 257 (ascii ''ustar'') h8
     in put_at 263 (ascii ''00'') h9)"

definition byte_sum :: "bytes \<Rightarrow> nat" where
  "byte_sum h = sum_list (map unat h)"

definition tar_header :: "cstr \<Rightarrow> u8 \<Rightarrow> u64 \<Rightarrow> bytes" where
  "tar_header name typ sz =
    (let h = header_fields name typ sz
     in put_at 155 [ch CHR '' ''] (put_string 148 7 (octal_padded 6 (byte_sum h)) h))"

section \<open>PAX records\<close>

text \<open>The loop that finds a length counting its own digits; \<open>None\<close> when the fuel is used up.\<close>

fun pax_length :: "nat \<Rightarrow> nat \<Rightarrow> nat \<Rightarrow> nat option" where
  "pax_length 0 base len = None"
| "pax_length (Suc fuel) base len =
    (let next = base + length (decimal len) in if next = len then Some len else pax_length fuel base next)"

definition pax_record :: "nat \<Rightarrow> cstr \<Rightarrow> cstr \<Rightarrow> bytes option" where
  "pax_record capacity key val =
    (let base = length key + length val + 3 in
     case pax_length (base + 3) base (base + 1) of
       None \<Rightarrow> None
     | Some len \<Rightarrow>
         let rec = decimal len @ [ch CHR '' ''] @ key @ [ch CHR ''=''] @ val @ [10]
         in if length rec < capacity then Some rec else None)"

definition pad_block :: "bytes \<Rightarrow> bytes" where
  "pad_block bs = bs @ replicate ((length bs + 511) div 512 * 512 - length bs) 0"

abbreviation (input) octal_max :: u64 where "octal_max \<equiv> 0x1FFFFFFFF"

definition entry_name :: "bvstk_fs_reader_t \<Rightarrow> cstr" where
  "entry_name r = take 512 (drop (rd_relative_offset r) (rd_path r) @ (if fi_type (rd_info r) = BVSTK_FS_ENTRY_DIR then ascii ''/'' else []))"

definition pax_payload :: "cstr \<Rightarrow> u64 \<Rightarrow> bytes option" where
  "pax_payload name sz =
    (case pax_record 1024 (ascii ''path'') name of
       None \<Rightarrow> None
     | Some p \<Rightarrow>
         if sz > octal_max then (case pax_record (1024 - length p) (ascii ''size'') (decimal (unat sz)) of None \<Rightarrow> None | Some q \<Rightarrow> Some (p @ q))
         else Some p)"

definition stage_tar_entry :: "bvstk_fs_reader_t \<Rightarrow> bvstk_fs_result_t \<times> bvstk_fs_reader_t" where
  "stage_tar_entry r =
    (let sz = (if fi_type (rd_info r) = BVSTK_FS_ENTRY_FILE then fi_size (rd_info r) else 0);
         name = entry_name r;
         extended = (length name \<ge> 100 \<or> sz > octal_max \<or> list_ex (\<lambda>c. c \<ge> 128) name);
         typ = (if fi_type (rd_info r) = BVSTK_FS_ENTRY_DIR then ch CHR ''5'' else ch CHR ''0'');
         short = (if sz > octal_max then 0 else sz)
     in if extended then
          (case pax_payload name sz of
             None \<Rightarrow> (BVSTK_FS_RANGE, r)
           | Some pax \<Rightarrow>
               (BVSTK_FS_OK, r\<lparr>rd_stage := tar_header (ascii ''PaxHeader'') (ch CHR ''x'') (of_nat (length pax)) @ pad_block pax @
                  tar_header (ascii ''entry'') typ short, rd_stage_offset := 0\<rparr>))
        else (BVSTK_FS_OK, r\<lparr>rd_stage := tar_header name typ short, rd_stage_offset := 0\<rparr>))"

section \<open>Reading\<close>

definition finish_file :: "fs_env \<Rightarrow> bvstk_fs_reader_t \<Rightarrow> fs_trace \<Rightarrow> bvstk_fs_result_t \<times> bvstk_fs_reader_t \<times> fs_trace" where
  "finish_file e r tr =
    (case be_stat e tr (rd_path r) of (rc, current) \<Rightarrow>
       let tr1 = tr @ [EvStat (rd_path r), EvFileClose (rd_file r)]; r1 = r\<lparr>rd_file := 0\<rparr> in
       if rc = BVSTK_FS_NOT_FOUND then (BVSTK_FS_CHANGED, r1, tr1)
       else if rc \<noteq> BVSTK_FS_OK then (rc, r1, tr1)
       else if fi_type current \<noteq> BVSTK_FS_ENTRY_FILE \<or> fi_size current \<noteq> fi_size (rd_info r) \<or> fi_stamp current \<noteq> fi_stamp (rd_info r)
       then (BVSTK_FS_CHANGED, r1, tr1)
       else if rd_kind r = BVSTK_FS_FILE then (BVSTK_FS_OK, r1\<lparr>rd_phase := FINISHED\<rparr>, tr1)
       else (BVSTK_FS_OK, r1\<lparr>rd_padding := (512 - unat (fi_size (rd_info r)) mod 512) mod 512, rd_phase := FILE_PADDING\<rparr>, tr1))"

definition stage_pending :: "bvstk_fs_reader_t \<Rightarrow> bool" where
  "stage_pending r \<longleftrightarrow> rd_stage_offset r < length (rd_stage r)"

definition tree_record :: "bvstk_fs_reader_t \<Rightarrow> bytes" where
  "tree_record r =
    (let relative = drop (rd_relative_offset r) (rd_path r); len = length relative in
     fs_put16 (of_nat (14 + len)) @ [fi_type (rd_info r), 0] @
     fs_put64 (if fi_type (rd_info r) = BVSTK_FS_ENTRY_FILE then fi_size (rd_info r) else 0) @ fs_put16 (of_nat len) @ relative)"

definition walk_step :: "fs_env \<Rightarrow> bvstk_fs_reader_t \<Rightarrow> fs_trace \<Rightarrow> bvstk_fs_result_t \<times> bvstk_fs_reader_t \<times> fs_trace" where
  "walk_step e r tr =
    (case next_entry e r tr of (rc, dn, r0, tr1) \<Rightarrow>
       if rc \<noteq> BVSTK_FS_OK then (rc, r0, tr1)
       else
         let r1 = r0\<lparr>rd_stage_offset := 0\<rparr> in
         if dn then (BVSTK_FS_OK, r1\<lparr>rd_phase := FINISHED, rd_stage := replicate (if rd_kind r1 = BVSTK_FS_TAR then 1024 else 0) 0\<rparr>, tr1)
         else if rd_kind r1 = BVSTK_FS_TREE then (BVSTK_FS_OK, r1\<lparr>rd_stage := tree_record r1\<rparr>, tr1)
         else
           (case (if fi_type (rd_info r1) = BVSTK_FS_ENTRY_FILE
                  then (case open_file e r1 tr1 of (rc2, r2, tr2) \<Rightarrow> (rc2, if rc2 = BVSTK_FS_OK then r2\<lparr>rd_phase := FILE_DATA\<rparr> else r2, tr2))
                  else (BVSTK_FS_OK, r1, tr1)) of
              (rc2, r2, tr2) \<Rightarrow>
                if rc2 \<noteq> BVSTK_FS_OK then (rc2, r2, tr2)
                else (case stage_tar_entry r2 of (rc3, r3) \<Rightarrow> (rc3, r3, tr2))))"

text \<open>One pass of the loop body: stop with a status, or go on with more output.\<close>

datatype read_outcome = Stop bvstk_fs_result_t bvstk_fs_reader_t fs_trace bytes | Again bvstk_fs_reader_t fs_trace bytes

definition read_step :: "fs_env \<Rightarrow> nat \<Rightarrow> bvstk_fs_reader_t \<Rightarrow> fs_trace \<Rightarrow> bytes \<Rightarrow> read_outcome" where
  "read_step e capacity r tr out =
    (let available = capacity - length out in
     if stage_pending r then
       let n = min (length (rd_stage r) - rd_stage_offset r) available in
       Again (r\<lparr>rd_stage_offset := rd_stage_offset r + n\<rparr>) tr (out @ take n (drop (rd_stage_offset r) (rd_stage r)))
     else (case rd_phase r of
         FILE_DATA \<Rightarrow>
           if rd_remaining r = 0 then
             (case finish_file e r tr of (rc, r1, tr1) \<Rightarrow> if rc \<noteq> BVSTK_FS_OK then Stop rc r1 tr1 out else Again r1 tr1 out)
           else
             let want = min available (unat (rd_remaining r)) in
             (case be_file_read e tr (rd_file r) want of (rc, data) \<Rightarrow>
                let tr1 = tr @ [EvFileRead (rd_file r) want] in
                if rc \<noteq> BVSTK_FS_OK then Stop rc r tr1 out
                else if data = [] \<or> length data > want then Stop BVSTK_FS_CHANGED r tr1 out
                else Again (r\<lparr>rd_remaining := rd_remaining r - of_nat (length data)\<rparr>) tr1 (out @ data))
       | FILE_PADDING \<Rightarrow>
           let n = min (rd_padding r) available; p = rd_padding r - n in
           Again (if p = 0 then r\<lparr>rd_padding := p, rd_phase := WALK\<rparr> else r\<lparr>rd_padding := p\<rparr>) tr (out @ replicate n 0)
       | WALK \<Rightarrow> (case walk_step e r tr of (rc, r1, tr1) \<Rightarrow> if rc \<noteq> BVSTK_FS_OK then Stop rc r1 tr1 out else Again r1 tr1 out)
       | FINISHED \<Rightarrow> Stop BVSTK_FS_OK r tr out))"

text \<open>A pass that produces no output lowers this rank, so the loop ends: staged bytes are always
  delivered, a file is finished once, its padding is left once and a walk stages something or ends.\<close>

definition read_rank :: "bvstk_fs_reader_t \<Rightarrow> nat" where
  "read_rank r = (if stage_pending r then 0 else case rd_phase r of FINISHED \<Rightarrow> 0 | WALK \<Rightarrow> 1 | FILE_PADDING \<Rightarrow> 2 | FILE_DATA \<Rightarrow> 3)"

lemma length_put_at [simp]: "off + length bs \<le> length h \<Longrightarrow> length (put_at off bs h) = length h"
  by (simp add: put_at_def)

lemma length_ascii [simp]: "length (ascii s) = length s"
  by (simp add: ascii_def)

lemma length_put_string: "off + cap \<le> length h \<Longrightarrow> 0 < cap \<Longrightarrow> length (put_string off cap s h) = length h"
  by (simp add: put_string_def put_at_def)

lemma length_header_fields: "length name \<le> 512 \<Longrightarrow> length (header_fields name typ sz) = 512"
  by (simp add: header_fields_def Let_def length_put_string)

lemma length_tar_header: "length name \<le> 512 \<Longrightarrow> length (tar_header name typ sz) = 512"
  by (simp add: tar_header_def Let_def length_put_string length_header_fields)

lemma tree_record_nonempty: "tree_record r \<noteq> []"
  by (simp add: tree_record_def Let_def fs_put16_def)

lemma pax_payload_length: "pax_payload name sz = Some p \<Longrightarrow> length p < 1024"
  by (auto simp: pax_payload_def pax_record_def Let_def split: option.splits if_splits)

lemma length_pad_block: "length p \<le> 1024 \<Longrightarrow> length (pad_block p) \<le> 1024"
  using div_le_mono [of "length p + 511" 1535 512] by (simp add: pad_block_def)

lemma stage_tar_entry_OK:
  assumes "stage_tar_entry r = (BVSTK_FS_OK, r')"
  shows "\<exists>bs. r' = r\<lparr>rd_stage := bs, rd_stage_offset := 0\<rparr> \<and> bs \<noteq> [] \<and> 512 dvd length bs \<and> length bs \<le> 2048"
proof -
  have n: "length (entry_name r) \<le> 512" by (simp add: entry_name_def)
  have p: "512 dvd length (pad_block bs)" for bs
  proof -
    have "length bs \<le> (length bs + 511) div 512 * 512"
      using dividend_less_times_div [of 512 "length bs + 511"] by simp
    then show ?thesis by (simp add: pad_block_def)
  qed
  have l: "length (tar_header (ascii ''PaxHeader'') t sz) = 512" "length (tar_header (ascii ''entry'') t sz) = 512"
    "length (tar_header (entry_name r) t sz) = 512" for t sz by (simp_all add: length_tar_header n)
  have ne: "bs \<noteq> []" if "length bs = k + 512" for bs :: bytes and k using that by auto
  show ?thesis
  proof (cases "length (entry_name r) \<ge> 100 \<or> (if fi_type (rd_info r) = 1 then fi_size (rd_info r) else 0) > octal_max \<or> list_ex (\<lambda>c. c \<ge> 128) (entry_name r)")
    case True
    then obtain pax ty sz where "r' = r\<lparr>rd_stage := tar_header (ascii ''PaxHeader'') (ch CHR ''x'') (of_nat (length pax)) @ pad_block pax @
        tar_header (ascii ''entry'') ty sz, rd_stage_offset := 0\<rparr>" "length pax < 1024"
      using assms unfolding stage_tar_entry_def Let_def by (simp only: if_True) (auto split: option.splits dest: pax_payload_length)
    moreover have "512 dvd length (tar_header (ascii ''PaxHeader'') (ch CHR ''x'') (of_nat (length pax)) @ pad_block pax @ tar_header (ascii ''entry'') ty sz)"
      using p [of pax] by (simp add: l)
    moreover have "length (tar_header (ascii ''PaxHeader'') (ch CHR ''x'') (of_nat (length pax)) @ pad_block pax @ tar_header (ascii ''entry'') ty sz) \<le> 2048"
      using length_pad_block [of pax] \<open>length pax < 1024\<close> by (simp add: l)
    ultimately show ?thesis by (metis append_is_Nil_conv l(1) list.size(3) zero_neq_numeral)
  next
    case False
    then obtain ty sz where "r' = r\<lparr>rd_stage := tar_header (entry_name r) ty sz, rd_stage_offset := 0\<rparr>"
      using assms unfolding stage_tar_entry_def Let_def by (simp only: if_False) auto
    then show ?thesis using l(3) [of ty sz] by (intro exI [of _ "tar_header (entry_name r) ty sz"]) auto
  qed
qed


lemma walk_step_cases:
  assumes "walk_step e r tr = (BVSTK_FS_OK, r', tr')"
  obtains (Done) r0 where "next_entry e r tr = (BVSTK_FS_OK, True, r0, tr')"
      "r' = r0\<lparr>rd_stage_offset := 0, rd_phase := FINISHED, rd_stage := replicate (if rd_kind r0 = BVSTK_FS_TAR then 1024 else 0) 0\<rparr>"
  | (Tree) r0 where "next_entry e r tr = (BVSTK_FS_OK, False, r0, tr')" "rd_kind r0 = BVSTK_FS_TREE"
      "r' = r0\<lparr>rd_stage_offset := 0, rd_stage := tree_record (r0\<lparr>rd_stage_offset := 0\<rparr>)\<rparr>"
  | (Tar_File) r0 tr0 r2 where "next_entry e r tr = (BVSTK_FS_OK, False, r0, tr0)" "rd_kind r0 \<noteq> BVSTK_FS_TREE" "fi_type (rd_info r0) = BVSTK_FS_ENTRY_FILE"
      "open_file e (r0\<lparr>rd_stage_offset := 0\<rparr>) tr0 = (BVSTK_FS_OK, r2, tr')" "stage_tar_entry (r2\<lparr>rd_phase := FILE_DATA\<rparr>) = (BVSTK_FS_OK, r')"
  | (Tar_Dir) r0 where "next_entry e r tr = (BVSTK_FS_OK, False, r0, tr')" "rd_kind r0 \<noteq> BVSTK_FS_TREE" "fi_type (rd_info r0) \<noteq> BVSTK_FS_ENTRY_FILE"
      "stage_tar_entry (r0\<lparr>rd_stage_offset := 0\<rparr>) = (BVSTK_FS_OK, r')"
proof -
  obtain rc dn r0 tr0 where n: "next_entry e r tr = (rc, dn, r0, tr0)" by (metis prod_cases4)
  have rc: "rc = BVSTK_FS_OK" using assms n by (cases "rc = BVSTK_FS_OK") (auto simp: walk_step_def)
  obtain rc2 r2 tr2 where o: "open_file e (r0\<lparr>rd_stage_offset := 0\<rparr>) tr0 = (rc2, r2, tr2)" by (metis prod_cases3)
  consider dn | "\<not> dn" "rd_kind r0 = BVSTK_FS_TREE" | "\<not> dn" "rd_kind r0 \<noteq> BVSTK_FS_TREE" "fi_type (rd_info r0) = BVSTK_FS_ENTRY_FILE"
    | "\<not> dn" "rd_kind r0 \<noteq> BVSTK_FS_TREE" "fi_type (rd_info r0) \<noteq> BVSTK_FS_ENTRY_FILE" by blast
  then show thesis
  proof cases
    case 1
    then show thesis using assms n rc by (intro Done [of r0]) (simp_all add: walk_step_def)
  next
    case 2
    then show thesis using assms n rc by (intro Tree [of r0]) (simp_all add: walk_step_def Let_def)
  next
    case 3
    then have "rc2 = BVSTK_FS_OK" using assms n rc o by (cases "rc2 = BVSTK_FS_OK") (simp_all add: walk_step_def Let_def)
    then show thesis using 3 assms n rc o
      by (intro Tar_File [of r0 tr0 r2]) (auto simp add: walk_step_def Let_def split: prod.splits)
  next
    case 4
    then show thesis using assms n rc by (intro Tar_Dir [of r0]) (auto simp add: walk_step_def Let_def split: prod.splits)
  qed
qed

lemma walk_step_rank:
  assumes "walk_step e r tr = (BVSTK_FS_OK, r', tr')"
  shows "read_rank r' = 0"
  using assms
proof (cases rule: walk_step_cases)
  case (Tree r0)
  then show ?thesis using tree_record_nonempty by (simp add: read_rank_def stage_pending_def)
next
  case (Tar_File r0 tr0 r2)
  then show ?thesis using stage_tar_entry_OK by (fastforce simp: read_rank_def stage_pending_def)
next
  case (Tar_Dir r0)
  then show ?thesis using stage_tar_entry_OK by (fastforce simp: read_rank_def stage_pending_def)
qed (simp add: read_rank_def)

lemma finish_file_OK:
  assumes "finish_file e r tr = (BVSTK_FS_OK, r', tr')"
  shows "tr' = tr @ [EvStat (rd_path r), EvFileClose (rd_file r)] \<and>
    r' = (if rd_kind r = BVSTK_FS_FILE then r\<lparr>rd_file := 0, rd_phase := FINISHED\<rparr>
          else r\<lparr>rd_file := 0, rd_padding := (512 - unat (fi_size (rd_info r)) mod 512) mod 512, rd_phase := FILE_PADDING\<rparr>)"
  using assms by (auto simp: finish_file_def Let_def split: prod.splits if_splits)

lemma read_step_progress:
  assumes "length out < capacity" and "read_step e capacity r tr out = Again r' tr' out'"
  shows "length out' \<le> capacity \<and> (length out < length out' \<or> length out' = length out \<and> read_rank r' < read_rank r)"
proof (cases "stage_pending r")
  case True
  then show ?thesis using assms by (auto simp: read_step_def Let_def stage_pending_def)
next
  case np: False
  show ?thesis
  proof (cases "rd_phase r")
    case FILE_DATA
    show ?thesis
    proof (cases "rd_remaining r = 0")
      case True
      then have f: "finish_file e r tr = (BVSTK_FS_OK, r', tr')" "out' = out"
        using assms(2) np FILE_DATA by (auto simp: read_step_def Let_def split: prod.splits if_splits)
      have "\<not> stage_pending r'" "rd_phase r' \<in> {FINISHED, FILE_PADDING}"
        using np finish_file_OK [OF f(1)] by (auto simp: stage_pending_def)
      then show ?thesis using np FILE_DATA f assms(1) by (auto simp: read_rank_def)
    next
      case False
      then show ?thesis using assms np FILE_DATA by (auto simp: read_step_def Let_def split: prod.splits if_splits)
    qed
  next
    case FILE_PADDING
    then show ?thesis using assms np by (auto simp: read_step_def read_rank_def Let_def stage_pending_def split: if_splits)
  next
    case WALK
    then have "walk_step e r tr = (BVSTK_FS_OK, r', tr')" "out' = out"
      using assms(2) np by (auto simp: read_step_def Let_def split: prod.splits if_splits)
    then show ?thesis using walk_step_rank [of e r tr r' tr'] np WALK assms(1) by (simp add: read_rank_def)
  next
    case FINISHED
    then show ?thesis using assms np by (simp add: read_step_def)
  qed
qed

function read_loop :: "fs_env \<Rightarrow> nat \<Rightarrow> bvstk_fs_reader_t \<Rightarrow> fs_trace \<Rightarrow> bytes \<Rightarrow> bvstk_fs_result_t \<times> bvstk_fs_reader_t \<times> fs_trace \<times> bytes" where
  "read_loop e capacity r tr out =
    (if length out < capacity then
       (case read_step e capacity r tr out of
          Stop rc r1 tr1 out1 \<Rightarrow> (rc, r1, tr1, out1)
        | Again r1 tr1 out1 \<Rightarrow> read_loop e capacity r1 tr1 out1)
     else (BVSTK_FS_OK, r, tr, out))"
  by pat_completeness auto
termination
  by (relation "measures [\<lambda>(e, capacity, r, tr, out). capacity - length out, \<lambda>(e, capacity, r, tr, out). read_rank r]")
    (auto dest: read_step_progress)

declare read_loop.simps [simp del]

definition bvstk_fs_reader_read ::
    "fs_env \<Rightarrow> bvstk_fs_reader_t option \<Rightarrow> bool \<Rightarrow> nat \<Rightarrow> bool \<Rightarrow> fs_trace \<Rightarrow>
     bvstk_fs_result_t \<times> bvstk_fs_reader_t option \<times> fs_trace \<times> bytes \<times> bool" where
  "bvstk_fs_reader_read e reader data capacity ptrs tr =
    (case reader of
       None \<Rightarrow> (BVSTK_FS_INVALID, None, tr, [], False)
     | Some r \<Rightarrow>
         if \<not> rd_backend r \<or> \<not> data \<or> capacity = 0 \<or> \<not> ptrs then (BVSTK_FS_INVALID, Some r, tr, [], False)
         else (case read_loop e capacity r tr [] of (rc, r1, tr1, out) \<Rightarrow>
           (case (if rc = BVSTK_FS_OK \<and> rd_phase r1 = FILE_DATA \<and> rd_remaining r1 = 0 \<and> rd_stage_offset r1 = length (rd_stage r1)
                  then finish_file e r1 tr1 else (rc, r1, tr1)) of
              (rc2, r2, tr2) \<Rightarrow>
                if rc2 \<noteq> BVSTK_FS_OK then (case bvstk_fs_reader_close r2 tr2 of (r3, tr3) \<Rightarrow> (rc2, Some r3, tr3, out, False))
                else (BVSTK_FS_OK, Some r2, tr2, out, rd_phase r2 = FINISHED \<and> rd_stage_offset r2 = length (rd_stage r2)))))"

end
