(* ===== verification/Fs_Tar.thy ===== *)
theory Fs_Tar
  imports Fs_Reader
begin

text \<open>
  The TAR and PAX headers of \<open>src/services/fs/bvstk_fs_reader.c\<close>, read back as a TAR reader reads them:
  checksum, size field and self-describing record lengths.
\<close>

section \<open>Numbers in text\<close>

definition number_of :: "nat \<Rightarrow> bytes \<Rightarrow> nat" where
  "number_of b cs = foldl (\<lambda>a c. a * b + unat (c - ch CHR ''0'')) 0 cs"

lemma digits_value: "2 \<le> b \<Longrightarrow> foldl (\<lambda>a d. a * b + d) 0 (digits b n) = n"
proof (induction b n rule: digits.induct)
  case (1 b n)
  then show ?case by (simp add: digits.simps [of b n])
qed

lemma digits_less: "2 \<le> b \<Longrightarrow> d \<in> set (digits b n) \<Longrightarrow> d < b"
proof (induction b n rule: digits.induct)
  case (1 b n)
  then show ?case by (auto simp: digits.simps [of b n] split: if_splits)
qed

lemma digits_nonempty: "digits b n \<noteq> []"
  by (subst digits.simps) simp

lemma digits_length: "2 \<le> b \<Longrightarrow> n < b ^ w \<Longrightarrow> 0 < w \<Longrightarrow> length (digits b n) \<le> w"
proof (induction b n arbitrary: w rule: digits.induct)
  case (1 b n)
  show ?case
  proof (cases "n < b")
    case True
    then show ?thesis using 1 by (simp add: digits.simps [of b n])
  next
    case False
    then have "w \<noteq> 1" using 1 by auto
    then obtain v where w: "w = Suc v" "0 < v" using 1 by (cases w) auto
    have "n div b < b ^ v" using 1(3) w by (intro less_mult_imp_div_less) (simp add: mult.commute)
    then show ?thesis using 1 False w by (simp add: digits.simps [of b n])
  qed
qed

lemma number_of_append: "number_of b (xs @ ys) = foldl (\<lambda>a c. a * b + unat (c - ch CHR ''0'')) (number_of b xs) ys"
  by (simp add: number_of_def)

lemma number_of_zeros: "number_of b (replicate k (ch CHR ''0'')) = 0"
  by (induction k) (simp_all add: number_of_def)

lemma number_of_digits: "2 \<le> b \<Longrightarrow> b \<le> 10 \<Longrightarrow> number_of b (digit_chars (digits b n)) = n"
proof -
  assume b: "2 \<le> b" "b \<le> 10"
  have "foldl (\<lambda>a c. a * b + unat (c - ch CHR ''0'')) x (digit_chars ds) = foldl (\<lambda>a d. a * b + d) x ds" if "\<forall>d\<in>set ds. d < b" for ds x
    using that
  proof (induction ds arbitrary: x)
    case (Cons d ds)
    have "unat (of_nat d :: u8) = d" using Cons.prems b by (intro unat_of_nat_small) auto
    then show ?case using Cons by (simp add: digit_chars_def)
  qed (simp add: digit_chars_def)
  then show ?thesis using digits_less [OF b(1)] digits_value [OF b(1)] by (simp add: number_of_def)
qed

lemma number_of_octal_padded: "number_of 8 (octal_padded w n) = n"
proof -
  have "foldl (\<lambda>a c. a * 8 + unat (c - ch CHR ''0'')) 0 (digit_chars (digits 8 n)) = n"
    using number_of_digits [of 8 n] unfolding number_of_def by simp
  then show ?thesis unfolding octal_padded_def number_of_append number_of_zeros .
qed

lemma length_octal_padded: "n < 8 ^ w \<Longrightarrow> 0 < w \<Longrightarrow> length (octal_padded w n) = w"
  using digits_length [of 8 n w] by (simp add: octal_padded_def digit_chars_def)

section \<open>PAX records\<close>

lemma digits10_mono: "n \<le> m \<Longrightarrow> length (digits 10 n) \<le> length (digits 10 m)"
proof (induction m arbitrary: n rule: less_induct)
  case (less m)
  show ?case
  proof (cases "m < 10")
    case True
    then show ?thesis using less.prems by (simp add: digits.simps [of 10 n] digits.simps [of 10 m])
  next
    case False
    then show ?thesis using less.IH [of "m div 10" "n div 10"] less.prems div_le_mono [of n m 10]
      by (simp add: digits.simps [of 10 n] digits.simps [of 10 m])
  qed
qed

lemma digits10_half: "length (digits 10 n) \<le> n div 2 + 1"
proof (induction n rule: less_induct)
  case (less n)
  show ?case
  proof (cases "n < 10")
    case True
    then show ?thesis by (simp add: digits.simps [of 10 n])
  next
    case False
    then have "length (digits 10 (n div 10)) \<le> n div 10 div 2 + 1" by (intro less.IH) simp
    moreover have "n div 10 div 2 + 2 \<le> n div 2 + 1" using False by simp
    ultimately show ?thesis using False by (simp add: digits.simps [of 10 n])
  qed
qed

lemma length_decimal: "length (decimal n) = length (digits 10 n)"
  by (simp add: decimal_def digit_chars_def)

lemma pax_length_total:
  assumes "len \<le> base + length (decimal len)" "len \<le> 2 * base + 2" "2 * base + 2 < fuel + len"
  shows "\<exists>l. pax_length fuel base len = Some l \<and> base + length (decimal l) = l"
  using assms
proof (induction fuel arbitrary: len)
  case (Suc fuel)
  let ?next = "base + length (decimal len)"
  show ?case
  proof (cases "?next = len")
    case False
    then have "len < ?next" using Suc.prems(1) by simp
    moreover have "?next \<le> base + length (decimal ?next)" using digits10_mono [of len ?next] Suc.prems(1) by (simp add: length_decimal)
    moreover have "?next \<le> 2 * base + 2" using digits10_half [of len] Suc.prems(2) div_le_mono [OF Suc.prems(2), of 2] by (simp add: length_decimal)
    ultimately show ?thesis using Suc.IH [of ?next] Suc.prems(3) False by (simp add: Let_def)
  qed (use Suc.prems in \<open>simp add: Let_def\<close>)
qed simp

text \<open>the loop that computes the length of a PAX record always ends, and the record is self-describing:
  the decimal number it starts with is its own length in bytes. It is refused exactly when it does
  not fit the buffer.\<close>

theorem pax_record_exact:
  "\<exists>rec. rec = decimal (length rec) @ [ch CHR '' ''] @ key @ [ch CHR ''=''] @ val @ [10] \<and>
    pax_record capacity key val = (if length rec < capacity then Some rec else None) \<and> number_of 10 (decimal (length rec)) = length rec"
proof -
  let ?base = "length key + length val + 3"
  obtain l where l: "pax_length (?base + 3) ?base (?base + 1) = Some l" "?base + length (decimal l) = l"
    using pax_length_total [of "?base + 1" ?base "?base + 3"] digits_nonempty [of 10 "?base + 1"] by (auto simp: length_decimal Suc_le_eq)
  define rec where "rec = decimal l @ [ch CHR '' ''] @ key @ [ch CHR ''=''] @ val @ [10]"
  have len: "length rec = l" using l(2) by (simp add: rec_def)
  have "pax_record capacity key val = (if length rec < capacity then Some rec else None)"
    unfolding pax_record_def Let_def l(1) option.case rec_def ..
  moreover have "number_of 10 (decimal (length rec)) = length rec" by (simp add: decimal_def number_of_digits)
  moreover have "rec = decimal (length rec) @ [ch CHR '' ''] @ key @ [ch CHR ''=''] @ val @ [10]" unfolding len by (rule rec_def)
  ultimately show ?thesis by blast
qed


section \<open>TAR headers\<close>

lemma byte_sum_bound: "byte_sum h \<le> 255 * length h"
proof (induction h)
  case (Cons c h)
  then show ?case using unat_u8_le [of c] by (simp add: byte_sum_def del: unat_u8_le)
qed (simp add: byte_sum_def)

lemma drop_put_at: "off + length bs \<le> k \<Longrightarrow> off \<le> length h \<Longrightarrow> drop k (put_at off bs h) = drop k h"
  by (simp add: put_at_def drop_append)

lemma take_put_at: "k \<le> off \<Longrightarrow> off \<le> length h \<Longrightarrow> take k (put_at off bs h) = take k h"
  by (simp add: put_at_def min_def)

lemma field_put_at: "off \<le> length h \<Longrightarrow> length bs = n \<Longrightarrow> take n (drop off (put_at off bs h)) = bs"
  by (simp add: put_at_def)

lemma field_put_at_other:
  assumes "k + n \<le> off \<or> off + length bs \<le> k" "off \<le> length h"
  shows "take n (drop k (put_at off bs h)) = take n (drop k h)"
  using assms
proof (elim disjE)
  assume "k + n \<le> off"
  then show ?thesis using take_put_at [of "k + n" off h bs] assms(2) by (simp add: take_drop add.commute)
qed (simp add: drop_put_at)

lemma put_at_same: "take (length bs) (drop off h) = bs \<Longrightarrow> put_at off bs h = h"
  by (metis append_take_drop_id drop_drop put_at_def add.commute)

lemma put_at_put_at: "length bs = length cs \<Longrightarrow> off + length bs \<le> length h \<Longrightarrow> put_at off bs (put_at off cs h) = put_at off bs h"
  by (simp add: put_at_def)

lemma put_at_snoc: "off + length bs + length cs \<le> length h \<Longrightarrow> put_at (off + length bs) cs (put_at off bs h) = put_at off (bs @ cs) h"
  by (simp add: put_at_def drop_append ac_simps)

text \<open>The fields of the header, read off the sequence of stores.\<close>

lemma header_fields_read:
  assumes "length name \<le> 100"
  shows "take 8 (drop 148 (header_fields name ty sz)) = replicate 8 (ch CHR '' '')"
    "take 12 (drop 124 (header_fields name ty sz)) = take 12 (drop 124 (put_string 124 12 (octal_padded 11 (unat sz)) (replicate 512 0)))"
    "take 1 (drop 156 (header_fields name ty sz)) = [ty]" "take (length name) (header_fields name ty sz) = name"
proof -
  define h1 where "h1 = put_at 0 name (replicate 512 0)"
  define h2 where "h2 = put_at 100 (if ty = ch CHR ''5'' then ascii ''0000755'' else ascii ''0000644'') h1"
  define h3 where "h3 = put_at 108 (ascii ''0000000'') h2"
  define h4 where "h4 = put_at 116 (ascii ''0000000'') h3"
  define st where "st = take 11 (octal_padded 11 (unat sz)) @ [0]"
  define h5 where "h5 = put_at 124 st h4"
  define h6 where "h6 = put_at 136 (ascii ''00000000000'') h5"
  define h7 where "h7 = put_at 148 (replicate 8 (ch CHR '' '')) h6"
  define h8 where "h8 = put_at 156 [ty] h7"
  define h9 where "h9 = put_at 257 (ascii ''ustar'') h8"
  have eq: "header_fields name ty sz = put_at 263 (ascii ''00'') h9"
    unfolding header_fields_def Let_def h9_def h8_def h7_def h6_def h5_def h4_def h3_def h2_def h1_def st_def put_string_def by simp
  have st: "length st \<le> 12" by (simp add: st_def)
  have l1: "length h1 = 512" using assms by (simp add: h1_def)
  have l2: "length h2 = 512" by (simp add: h2_def l1)
  have l3: "length h3 = 512" by (simp add: h3_def l2)
  have l4: "length h4 = 512" by (simp add: h4_def l3)
  have l5: "length h5 = 512" using st by (simp add: h5_def l4)
  have l6: "length h6 = 512" by (simp add: h6_def l5)
  have l7: "length h7 = 512" by (simp add: h7_def l6)
  have l8: "length h8 = 512" by (simp add: h8_def l7)
  have l9: "length h9 = 512" by (simp add: h9_def l8)
  have top: "take n (drop k (header_fields name ty sz)) = take n (drop k h8)" if "k + n \<le> 257" for n k
    unfolding eq h9_def using that l9 l8 by (simp add: field_put_at_other)
  have "take 8 (drop 148 h8) = take 8 (drop 148 h7)" by (simp add: h8_def l7 field_put_at_other)
  then show "take 8 (drop 148 (header_fields name ty sz)) = replicate 8 (ch CHR '' '')"
    using top [of 148 8] field_put_at [of 148 h6 "replicate 8 (ch CHR '' '')" 8] by (simp add: l6 h7_def)
  have "take 12 (drop 124 h8) = take 12 (drop 124 h5)" by (simp add: h8_def h7_def h6_def l7 l6 l5 field_put_at_other)
  also have "\<dots> = take 12 (drop 124 (put_at 124 st (replicate 512 0)))"
  proof (cases "length st = 12")
    case True
    then show ?thesis by (simp add: h5_def field_put_at l4)
  next
    case False
    then have "length (octal_padded 11 (unat sz)) < 11" using st by (simp add: st_def)
    then show ?thesis by (simp add: octal_padded_def digit_chars_def)
  qed
  finally show "take 12 (drop 124 (header_fields name ty sz)) = take 12 (drop 124 (put_string 124 12 (octal_padded 11 (unat sz)) (replicate 512 0)))"
    using top [of 124 12] by (simp add: put_string_def st_def)
  show "take 1 (drop 156 (header_fields name ty sz)) = [ty]" using top [of 156 1] field_put_at [of 156 h7 "[ty]" 1] by (simp add: h8_def l7)
  have t: "take (length name) (put_at off bs h) = take (length name) h" if "100 \<le> off" "off < 512" "length h = 512" for off bs h
    using assms that by (intro take_put_at) simp_all
  have "take (length name) (drop 0 h8) = take (length name) (drop 0 h1)"
    using t [of 156 h7] t [of 148 h6] t [of 136 h5] t [of 124 h4] t [of 116 h3] t [of 108 h2] t [of 100 h1]
    by (simp add: l7 l6 l5 l4 l3 l2 l1 h8_def [symmetric] h7_def [symmetric] h6_def [symmetric] h5_def [symmetric] h4_def [symmetric] h3_def [symmetric])
      (simp only: h8_def h7_def h6_def h5_def h4_def h3_def h2_def)
  also have "\<dots> = name" by (simp add: h1_def field_put_at put_at_def)
  finally show "take (length name) (header_fields name ty sz) = name" using top [of 0 "length name"] assms by simp
qed

lemma tar_header_eq:
  assumes "length name \<le> 100"
  shows "tar_header name ty sz = put_at 148 (octal_padded 6 (byte_sum (header_fields name ty sz)) @ [0, ch CHR '' '']) (header_fields name ty sz)"
proof -
  let ?h = "header_fields name ty sz" let ?o = "octal_padded 6 (byte_sum (header_fields name ty sz))"
  have l: "length ?h = 512" using assms by (simp add: length_header_fields)
  then have "byte_sum ?h < 8 ^ 6" using byte_sum_bound [of ?h] by simp
  then have o: "length ?o = 6" by (rule length_octal_padded) simp
  have "tar_header name ty sz = put_at (148 + length (?o @ [0])) [ch CHR '' ''] (put_at 148 (?o @ [0]) ?h)"
    using o by (simp add: tar_header_def put_string_def Let_def)
  also have "\<dots> = put_at 148 ((?o @ [0]) @ [ch CHR '' '']) ?h" by (rule put_at_snoc) (use l o in simp)
  finally show ?thesis by simp
qed

lemma header_fields_size:
  assumes "length name \<le> 100" "sz \<le> octal_max"
  shows "take 11 (drop 124 (header_fields name ty sz)) = octal_padded 11 (unat sz)"
proof -
  have "unat sz < 8 ^ 11" using assms(2) by (simp add: word_le_nat_alt)
  then have o: "length (octal_padded 11 (unat sz)) = 11" by (rule length_octal_padded) simp
  have "take 11 (drop 124 (header_fields name ty sz)) = take 11 (take 12 (drop 124 (header_fields name ty sz)))" by simp
  also have "\<dots> = octal_padded 11 (unat sz)" unfolding header_fields_read(2) [OF assms(1)] put_string_def put_at_def by (simp add: o)
  finally show ?thesis .
qed

text \<open>C34: a TAR header is one block that a TAR reader accepts and reads back: the checksum field holds, in
  octal, the sum of all bytes of the header with the checksum field itself counted as spaces, the
  size field holds the size, and the name and the type are in their places.\<close>

theorem tar_header_reads_back:
  assumes "length name \<le> 100" and "sz \<le> octal_max"
  shows "length (tar_header name ty sz) = 512 \<and>
    number_of 8 (take 6 (drop 148 (tar_header name ty sz))) = byte_sum (put_at 148 (replicate 8 (ch CHR '' '')) (tar_header name ty sz)) \<and>
    number_of 8 (take 11 (drop 124 (tar_header name ty sz))) = unat sz \<and>
    take (length name) (tar_header name ty sz) = name \<and> take 1 (drop 156 (tar_header name ty sz)) = [ty]"
proof -
  let ?h = "header_fields name ty sz" let ?o = "octal_padded 6 (byte_sum (header_fields name ty sz))"
  have l: "length ?h = 512" using assms by (simp add: length_header_fields)
  then have "byte_sum ?h < 8 ^ 6" using byte_sum_bound [of ?h] by simp
  then have o: "length ?o = 6" by (rule length_octal_padded) simp
  note eq = tar_header_eq [OF assms(1), of ty sz]
  have "put_at 148 (replicate 8 (ch CHR '' '')) (tar_header name ty sz) = put_at 148 (replicate 8 (ch CHR '' '')) ?h"
    unfolding eq by (rule put_at_put_at) (use o l in simp_all)
  also have "\<dots> = ?h" by (rule put_at_same) (use header_fields_read(1) [OF assms(1)] in simp)
  finally have s: "put_at 148 (replicate 8 (ch CHR '' '')) (tar_header name ty sz) = ?h" .
  have c: "take 6 (drop 148 (tar_header name ty sz)) = ?o" unfolding eq using o l by (simp add: put_at_def)
  have other: "take n (drop k (tar_header name ty sz)) = take n (drop k ?h)" if "k + n \<le> 148 \<or> 156 \<le> k" for n k
    unfolding eq by (rule field_put_at_other) (use that o l in auto)
  have "take (length name) (tar_header name ty sz) = take (length name) ?h" using other [of 0 "length name"] assms(1) by simp
  then show ?thesis using header_fields_read [OF assms(1)] header_fields_size [OF assms] s c other [of 124 11] other [of 156 1] number_of_octal_padded
    by (simp add: length_tar_header assms(1) order.trans [OF assms(1)])
qed

theorem tar_header_reads_back_witness:
  "number_of 8 (take 11 (drop 124 (tar_header (ascii ''a/b'') (ch CHR ''0'') 4711))) = 4711"
  using tar_header_reads_back [of "ascii ''a/b''" 4711 "ch CHR ''0''"] by simp

end
