(* ===== verification/Fs_Stream.thy ===== *)
theory Fs_Stream
  imports Fs_Reader "HOL-Library.Multiset"
begin

text \<open>
  What a whole stream of the reader of \<open>src/services/fs/bvstk_fs_reader.c\<close> delivers: a successful read
  fills its block or ends the stream, a file comes out completely, a TAR archive in whole blocks,
  and every handle the backend gave out is given back.
\<close>

section \<open>Frames\<close>

text \<open>The walk changes the path, the information and the directory stack of the reader only.\<close>

lemma accept_entry_frame:
  assumes "accept_entry e r dirs base name tr = (rc, r', tr')"
  shows "\<exists>p d. r' = r\<lparr>rd_path := p, rd_dirs := d\<rparr>"
proof -
  have f: "\<exists>p' d'. (s\<lparr>rd_dirs := d, rd_path := p\<rparr> = s\<lparr>rd_path := p', rd_dirs := d'\<rparr>)" for s :: bvstk_fs_reader_t and d p
    by (intro exI [of _ p] exI [of _ d]) simp
  show ?thesis using assms unfolding accept_entry_def Let_def by (auto split: if_splits prod.splits intro!: f)
qed


lemma walk_dirs_ConsE:
  assumes "walk_dirs e r (d # ds) tr = (rc, dn, r', tr')"
  obtains (Fail) info where "rc \<noteq> BVSTK_FS_OK" "\<not> dn" "tr' = tr @ [EvDirRead (ds_handle d)]"
      "r' = r\<lparr>rd_path := take (ds_path_len d) (rd_path r), rd_info := info, rd_dirs := d # ds\<rparr>"
  | (Pop) info where "walk_dirs e (r\<lparr>rd_path := take (ds_path_len d) (rd_path r), rd_info := info\<rparr>) ds
        (tr @ [EvDirRead (ds_handle d), EvDirClose (ds_handle d)]) = (rc, dn, r', tr')"
  | (Entry) info name where "\<not> dn" "name \<noteq> []" "accept_entry e (r\<lparr>rd_path := take (ds_path_len d) (rd_path r), rd_info := info\<rparr>) (d # ds)
        (take (ds_path_len d) (rd_path r)) name (tr @ [EvDirRead (ds_handle d)]) = (rc, r', tr')"
proof -
  define base where "base = take (ds_path_len d) (rd_path r)"
  obtain rcd name info where a: "be_dir_read e tr (ds_handle d) = (rcd, name, info)" by (metis prod_cases3)
  consider "rcd \<noteq> BVSTK_FS_OK" | "rcd = BVSTK_FS_OK" "name = []" | "rcd = BVSTK_FS_OK" "name \<noteq> []" by blast
  then show thesis
  proof cases
    case 1
    then show thesis using assms a by (intro Fail [of info]) (auto simp: Let_def)
  next
    case 2
    then show thesis using assms a by (intro Pop [of info]) (auto simp: Let_def)
  next
    case 3
    then show thesis using assms a by (intro Entry [of name info]) (auto simp: Let_def split: prod.splits)
  qed
qed

lemma walk_dirs_frame:
  "walk_dirs e r ds tr = (rc, dn, r', tr') \<Longrightarrow> \<exists>p i d. r' = r\<lparr>rd_path := p, rd_info := i, rd_dirs := d\<rparr> \<and> (dn \<longrightarrow> d = [])"
proof (induction ds arbitrary: r tr)
  case Nil
  then have "r' = r\<lparr>rd_path := rd_path r, rd_info := rd_info r, rd_dirs := []\<rparr>" by simp
  then show ?case by blast
next
  case (Cons d ds)
  from Cons.prems show ?case
  proof (cases rule: walk_dirs_ConsE)
    case (Pop info)
    from Cons.IH [OF Pop] show ?thesis by simp
  next
    case (Entry info name)
    from accept_entry_frame [OF Entry(3)] obtain p dd
      where "r' = r\<lparr>rd_path := take (ds_path_len d) (rd_path r), rd_info := info\<rparr>\<lparr>rd_path := p, rd_dirs := dd\<rparr>" by blast
    then have "r' = r\<lparr>rd_path := p, rd_info := info, rd_dirs := dd\<rparr>" by (cases r) simp
    then show ?thesis using Entry(1) by blast
  qed blast
qed

lemma next_entry_frame:
  "next_entry e r tr = (rc, dn, r', tr') \<Longrightarrow> \<exists>p i d. r' = r\<lparr>rd_path := p, rd_info := i, rd_dirs := d\<rparr> \<and> (dn \<longrightarrow> d = [])"
  unfolding next_entry_def by (rule walk_dirs_frame)

lemma open_file_frame:
  "open_file e r tr = (rc, r', tr') \<Longrightarrow> \<exists>h m. r' = r\<lparr>rd_file := h, rd_remaining := m\<rparr> \<and> (rc = BVSTK_FS_OK \<longrightarrow> m = fi_size (rd_info r))"
proof -
  assume a: "open_file e r tr = (rc, r', tr')"
  obtain rc1 h sz where o: "be_file_open e tr (rd_path r) = (rc1, h, sz)" by (metis prod_cases3)
  have "r' = r\<lparr>rd_file := h, rd_remaining := (if rc = BVSTK_FS_OK then fi_size (rd_info r) else rd_remaining r)\<rparr>"
    using a o by (auto simp: open_file_def Let_def split: if_splits)
  then show ?thesis by metis
qed

section \<open>Handles\<close>

text \<open>The handles opened and closed by a part of the trace, and those a reader holds. A part of a run is
  accounted for when what was held and what was opened is what was closed and what is held.\<close>

fun files_opened :: "fs_trace \<Rightarrow> nat multiset" where
  "files_opened [] = {#}"
| "files_opened (EvFileOpen p rc h # tr) = (if rc = BVSTK_FS_OK then {#h#} else {#}) + files_opened tr"
| "files_opened (_ # tr) = files_opened tr"

fun files_closed :: "fs_trace \<Rightarrow> nat multiset" where
  "files_closed [] = {#}"
| "files_closed (EvFileClose h # tr) = {#h#} + files_closed tr"
| "files_closed (_ # tr) = files_closed tr"

fun dirs_opened :: "fs_trace \<Rightarrow> nat multiset" where
  "dirs_opened [] = {#}"
| "dirs_opened (EvDirOpen p rc h # tr) = (if rc = BVSTK_FS_OK then {#h#} else {#}) + dirs_opened tr"
| "dirs_opened (_ # tr) = dirs_opened tr"

fun dirs_closed :: "fs_trace \<Rightarrow> nat multiset" where
  "dirs_closed [] = {#}"
| "dirs_closed (EvDirClose h # tr) = {#h#} + dirs_closed tr"
| "dirs_closed (_ # tr) = dirs_closed tr"

lemma opened_append [simp]:
  "files_opened (a @ b) = files_opened a + files_opened b" "files_closed (a @ b) = files_closed a + files_closed b"
  "dirs_opened (a @ b) = dirs_opened a + dirs_opened b" "dirs_closed (a @ b) = dirs_closed a + dirs_closed b"
proof -
  show "files_opened (a @ b) = files_opened a + files_opened b" by (induction a rule: files_opened.induct) auto
  show "files_closed (a @ b) = files_closed a + files_closed b" by (induction a rule: files_closed.induct) auto
  show "dirs_opened (a @ b) = dirs_opened a + dirs_opened b" by (induction a rule: dirs_opened.induct) auto
  show "dirs_closed (a @ b) = dirs_closed a + dirs_closed b" by (induction a rule: dirs_closed.induct) auto
qed

definition held_files :: "bvstk_fs_reader_t \<Rightarrow> nat multiset" where
  "held_files r = (if rd_file r = 0 then {#} else {#rd_file r#})"

definition held_dirs :: "bvstk_fs_reader_t \<Rightarrow> nat multiset" where
  "held_dirs r = mset (map ds_handle (rd_dirs r))"

definition accounted :: "fs_trace \<Rightarrow> bvstk_fs_reader_t \<Rightarrow> fs_trace \<Rightarrow> bvstk_fs_reader_t \<Rightarrow> bool" where
  "accounted tr r tr' r' \<longleftrightarrow> (\<exists>evs. tr' = tr @ evs \<and>
     held_files r + files_opened evs = files_closed evs + held_files r' \<and> held_dirs r + dirs_opened evs = dirs_closed evs + held_dirs r')"

lemma accounted_refl: "held_files r' = held_files r \<Longrightarrow> held_dirs r' = held_dirs r \<Longrightarrow> accounted tr r tr r'"
  by (simp add: accounted_def)

lemma accounted_trans:
  assumes "accounted tr r tr1 r1" "accounted tr1 r1 tr2 r2"
  shows "accounted tr r tr2 r2"
proof -
  obtain a b where a: "tr1 = tr @ a" "held_files r + files_opened a = files_closed a + held_files r1" "held_dirs r + dirs_opened a = dirs_closed a + held_dirs r1"
    and b: "tr2 = tr1 @ b" "held_files r1 + files_opened b = files_closed b + held_files r2" "held_dirs r1 + dirs_opened b = dirs_closed b + held_dirs r2"
    using assms unfolding accounted_def by blast
  have "held_files r + files_opened (a @ b) = files_closed (a @ b) + held_files r2" using a(2) b(2) by (simp add: ac_simps) (metis add.assoc add.commute)
  moreover have "held_dirs r + dirs_opened (a @ b) = dirs_closed (a @ b) + held_dirs r2" using a(3) b(3) by (simp add: ac_simps) (metis add.assoc add.commute)
  ultimately show ?thesis using a(1) b(1) unfolding accounted_def by auto
qed


lemma accounted_step:
  "held_files r + files_opened evs = files_closed evs + held_files r' \<Longrightarrow> held_dirs r + dirs_opened evs = dirs_closed evs + held_dirs r' \<Longrightarrow>
    accounted tr r (tr @ evs) r'"
  unfolding accounted_def by blast

lemmas held_defs = held_files_def held_dirs_def

text \<open>A backend that fails to open a file stores \<open>NULL\<close>, and otherwise a handle.\<close>

definition backend_handles :: "fs_env \<Rightarrow> bool" where
  "backend_handles e \<longleftrightarrow> (\<forall>tr path. case be_file_open e tr path of (rc, h, sz) \<Rightarrow> (rc = BVSTK_FS_OK) = (h \<noteq> 0))"

lemma close_dirs_append: "\<exists>evs. close_dirs ds tr = tr @ evs \<and> dirs_closed evs = mset (map ds_handle ds) \<and> dirs_opened evs = {#} \<and>
    files_opened evs = {#} \<and> files_closed evs = {#}"
proof (induction ds arbitrary: tr)
  case (Cons d ds)
  obtain evs where "close_dirs ds (tr @ [EvDirClose (ds_handle d)]) = (tr @ [EvDirClose (ds_handle d)]) @ evs"
    "dirs_closed evs = mset (map ds_handle ds)" "dirs_opened evs = {#}" "files_opened evs = {#}" "files_closed evs = {#}"
    using Cons.IH by blast
  then show ?case by (intro exI [of _ "EvDirClose (ds_handle d) # evs"]) simp
qed simp

lemma reader_close_accounted:
  assumes "bvstk_fs_reader_close r tr = (r', tr')"
  shows "accounted tr r tr' r'"
proof (cases "rd_backend r")
  case True
  let ?f = "if rd_file r \<noteq> 0 then [EvFileClose (rd_file r)] else []"
  obtain evs where e: "close_dirs (rd_dirs r) (tr @ ?f) = (tr @ ?f) @ evs" "dirs_closed evs = mset (map ds_handle (rd_dirs r))" "dirs_opened evs = {#}"
    "files_opened evs = {#}" "files_closed evs = {#}" using close_dirs_append by blast
  have "tr' = tr @ (?f @ evs)" "r' = r\<lparr>rd_file := 0, rd_dirs := [], rd_phase := FINISHED\<rparr>"
    using assms True e(1) by (auto simp: bvstk_fs_reader_close_def Let_def split: if_splits)
  then show ?thesis using e by (auto simp: held_defs intro!: accounted_step)
qed (use assms in \<open>simp add: bvstk_fs_reader_close_def accounted_refl\<close>)

lemma accept_entry_accounted:
  assumes "accept_entry e r dirs base name tr = (rc, r', tr')"
  shows "accounted tr (r\<lparr>rd_dirs := dirs\<rparr>) tr' r'"
proof -
  obtain rc1 h where o: "be_dir_open e tr ((if base \<noteq> [] \<and> last base \<noteq> ch CHR ''/'' then base @ [ch CHR ''/''] else base) @ name) = (rc1, h)"
    by (metis surj_pair)
  show ?thesis using assms o unfolding accept_entry_def Let_def
    by (auto split: if_splits simp: held_defs intro!: accounted_refl accounted_step)
qed

lemma walk_dirs_accounted:
  "walk_dirs e r ds tr = (rc, dn, r', tr') \<Longrightarrow> accounted tr (r\<lparr>rd_dirs := ds\<rparr>) tr' r'"
proof (induction ds arbitrary: r tr)
  case Nil
  then show ?case by (auto intro: accounted_refl)
next
  case (Cons d ds)
  from Cons.prems show ?case
  proof (cases rule: walk_dirs_ConsE)
    case (Fail info)
    then show ?thesis by (auto simp: held_defs intro!: accounted_step)
  next
    case (Pop info)
    have "accounted tr (r\<lparr>rd_dirs := d # ds\<rparr>) (tr @ [EvDirRead (ds_handle d), EvDirClose (ds_handle d)])
        (r\<lparr>rd_path := take (ds_path_len d) (rd_path r), rd_info := info\<rparr>\<lparr>rd_dirs := ds\<rparr>)"
      by (rule accounted_step) (simp_all add: held_defs)
    then show ?thesis using Cons.IH [OF Pop] by (rule accounted_trans)
  next
    case (Entry info name)
    have "accounted tr (r\<lparr>rd_dirs := d # ds\<rparr>) (tr @ [EvDirRead (ds_handle d)])
        (r\<lparr>rd_path := take (ds_path_len d) (rd_path r), rd_info := info\<rparr>\<lparr>rd_dirs := d # ds\<rparr>)"
      by (rule accounted_step) (simp_all add: held_defs)
    then show ?thesis using accept_entry_accounted [OF Entry(3)] by (rule accounted_trans)
  qed
qed

lemma open_file_accounted:
  assumes "backend_handles e" "open_file e r tr = (rc, r', tr')" "rd_file r = 0"
  shows "accounted tr r tr' r' \<and> (rc = BVSTK_FS_OK \<longrightarrow> rd_file r' \<noteq> 0)"
proof -
  obtain rc1 h sz where o: "be_file_open e tr (rd_path r) = (rc1, h, sz)" by (metis prod_cases3)
  then have "(rc1 = BVSTK_FS_OK) = (h \<noteq> 0)" using assms(1) [unfolded backend_handles_def, rule_format, of tr "rd_path r"] by simp
  then have h: "(if rc1 = BVSTK_FS_OK then {#h#} else {#}) = (if h = 0 then {#} else {#h#})" "rc1 = BVSTK_FS_OK \<Longrightarrow> h \<noteq> 0" by auto
  have f: "rd_file r' = h \<and> rd_dirs r' = rd_dirs r \<and> tr' = tr @ [EvFileOpen (rd_path r) rc1 h] \<and> (rc = BVSTK_FS_OK \<longrightarrow> rc1 = BVSTK_FS_OK)"
    using assms(2) o by (cases "rc1 = BVSTK_FS_OK"; cases "sz = fi_size (rd_info r)") (auto simp: open_file_def)
  have "accounted tr r (tr @ [EvFileOpen (rd_path r) rc1 h]) r'"
    by (rule accounted_step) (simp_all add: held_files_def held_dirs_def f assms(3) h(1))
  then show ?thesis using f h(2) by blast
qed


lemma finish_file_accounted:
  assumes "finish_file e r tr = (rc, r', tr')" "rd_file r \<noteq> 0"
  shows "accounted tr r tr' r' \<and> rd_backend r' = rd_backend r"
proof -
  obtain rc1 i where o: "be_stat e tr (rd_path r) = (rc1, i)" by (metis surj_pair)
  have f: "rd_file r' = 0 \<and> rd_dirs r' = rd_dirs r \<and> rd_backend r' = rd_backend r \<and> tr' = tr @ [EvStat (rd_path r), EvFileClose (rd_file r)]"
    using assms(1) o by (auto simp: finish_file_def Let_def split: if_splits)
  have "accounted tr r (tr @ [EvStat (rd_path r), EvFileClose (rd_file r)]) r'"
    by (rule accounted_step) (simp_all add: held_files_def held_dirs_def f assms(2))
  then show ?thesis using f by simp
qed

section \<open>The invariant of the reader\<close>

definition reader_inv :: "bvstk_fs_reader_t \<Rightarrow> bool" where
  "reader_inv r \<longleftrightarrow> rd_backend r \<and> rd_stage_offset r \<le> length (rd_stage r) \<and> length (rd_stage r) \<le> 2048 \<and> length (rd_path r) < 512 \<and>
     (rd_file r \<noteq> 0 \<longleftrightarrow> rd_phase r = FILE_DATA) \<and> (rd_phase r = FINISHED \<longrightarrow> rd_dirs r = []) \<and> 
     (rd_kind r = BVSTK_FS_FILE \<longrightarrow> rd_phase r \<in> {FILE_DATA, FINISHED} \<and> rd_stage r = []) \<and>
     (rd_kind r = BVSTK_FS_TREE \<longrightarrow> rd_phase r \<in> {WALK, FINISHED})"

text \<open>The bytes the reader still owes for what it has begun: staged bytes, the rest of a file and the
  zeros that fill its last block.\<close>

definition file_padding :: "bvstk_fs_reader_t \<Rightarrow> nat" where
  "file_padding r = (if rd_kind r = BVSTK_FS_FILE then 0 else (512 - unat (fi_size (rd_info r)) mod 512) mod 512)"

definition owed :: "bvstk_fs_reader_t \<Rightarrow> nat" where
  "owed r = length (rd_stage r) - rd_stage_offset r +
     (case rd_phase r of FILE_DATA \<Rightarrow> unat (rd_remaining r) + file_padding r | FILE_PADDING \<Rightarrow> rd_padding r | _ \<Rightarrow> 0)"

lemma accept_entry_path:
  assumes "accept_entry e r dirs base name tr = (BVSTK_FS_OK, r', tr')"
  shows "length (rd_path r') < 512"
proof -
  obtain rc1 h where o: "be_dir_open e tr ((if base \<noteq> [] \<and> last base \<noteq> ch CHR ''/'' then base @ [ch CHR ''/''] else base) @ name) = (rc1, h)"
    by (metis surj_pair)
  show ?thesis using assms o unfolding accept_entry_def Let_def by (auto split: if_splits)
qed

lemma walk_dirs_path:
  "walk_dirs e r ds tr = (BVSTK_FS_OK, dn, r', tr') \<Longrightarrow> length (rd_path r) < 512 \<Longrightarrow> length (rd_path r') < 512"
proof (induction ds arbitrary: r tr)
  case (Cons d ds)
  from Cons.prems(1) show ?case
  proof (cases rule: walk_dirs_ConsE)
    case (Pop info)
    show ?thesis by (rule Cons.IH [OF Pop]) (use Cons.prems(2) in simp)
  next
    case (Entry info name)
    then show ?thesis using accept_entry_path by blast
  qed simp
qed auto

lemma length_tree_record: "length (tree_record r) \<le> 14 + length (rd_path r)"
  by (simp add: tree_record_def Let_def fs_put16_def fs_put64_def)

lemma accounted_update:
  "accounted tr r tr' r' \<Longrightarrow> rd_file r'' = rd_file r' \<Longrightarrow> rd_dirs r'' = rd_dirs r' \<Longrightarrow> accounted tr r tr' r''"
proof -
  assume "accounted tr r tr' r'" "rd_file r'' = rd_file r'" "rd_dirs r'' = rd_dirs r'"
  moreover from this have "held_files r'' = held_files r'" "held_dirs r'' = held_dirs r'" by (simp_all add: held_defs)
  ultimately show ?thesis by (simp add: accounted_def)
qed

lemma stage_tar_entry_frame: "stage_tar_entry r = (rc, r') \<Longrightarrow> \<exists>bs n. r' = r\<lparr>rd_stage := bs, rd_stage_offset := n\<rparr>"
proof -
  assume a: "stage_tar_entry r = (rc, r')"
  then have "r' = r \<or> (\<exists>bs n. r' = r\<lparr>rd_stage := bs, rd_stage_offset := n\<rparr>)"
    unfolding stage_tar_entry_def Let_def by (auto split: option.splits if_splits)
  moreover have "r = r\<lparr>rd_stage := rd_stage r, rd_stage_offset := rd_stage_offset r\<rparr>" by simp
  ultimately show ?thesis by metis
qed

lemma next_entry_accounted:
  assumes "next_entry e r tr = (rc, dn, r', tr')"
  shows "accounted tr r tr' r'"
proof -
  have "accounted tr (r\<lparr>rd_dirs := rd_dirs r\<rparr>) tr' r'" using assms unfolding next_entry_def by (rule walk_dirs_accounted)
  then show ?thesis by simp
qed

lemma walk_step_accounted:
  assumes e: "backend_handles e" and w: "walk_step e r tr = (rc, r', tr')" and f: "rd_file r = 0"
  shows "accounted tr r tr' r' \<and> rd_backend r' = rd_backend r"
proof -
  obtain rc0 dn r0 tr0 where n: "next_entry e r tr = (rc0, dn, r0, tr0)" by (metis prod_cases4)
  let ?r1 = "r0\<lparr>rd_stage_offset := 0\<rparr>"
  obtain rc2 r2 tr2 where o: "open_file e ?r1 tr0 = (rc2, r2, tr2)" by (metis prod_cases3)
  have a0: "accounted tr r tr0 r0" using n by (rule next_entry_accounted)
  have a1: "accounted tr r tr0 ?r1" by (rule accounted_update [OF a0]) simp_all
  have b0: "rd_backend r0 = rd_backend r" "rd_file r0 = 0" using next_entry_frame [OF n] f by auto
  have a2: "accounted tr r tr2 r2" using accounted_trans [OF a1] open_file_accounted [OF e o] b0 by simp
  have b2: "rd_backend r2 = rd_backend r" using open_file_frame [OF o] b0 by auto
  have st: "rd_file x' = rd_file x \<and> rd_dirs x' = rd_dirs x \<and> rd_backend x' = rd_backend x" if "stage_tar_entry x = (rcx, x')" for x x' rcx
    using stage_tar_entry_frame [OF that] by auto
  consider "rc0 \<noteq> BVSTK_FS_OK \<or> dn \<or> rd_kind r0 = BVSTK_FS_TREE"
    | "rc0 = BVSTK_FS_OK" "\<not> dn" "rd_kind r0 \<noteq> BVSTK_FS_TREE" "fi_type (rd_info r0) = BVSTK_FS_ENTRY_FILE"
    | "rc0 = BVSTK_FS_OK" "\<not> dn" "rd_kind r0 \<noteq> BVSTK_FS_TREE" "fi_type (rd_info r0) \<noteq> BVSTK_FS_ENTRY_FILE" by blast
  then show ?thesis
  proof cases
    case 1
    then have "tr' = tr0" "rd_file r' = rd_file r0" "rd_dirs r' = rd_dirs r0" "rd_backend r' = rd_backend r0"
      using w n by (auto simp: walk_step_def Let_def split: if_splits)
    then show ?thesis using accounted_update [OF a0] b0 by simp
  next
    case 2
    obtain rc3 r3 where s: "stage_tar_entry (r2\<lparr>rd_phase := FILE_DATA\<rparr>) = (rc3, r3)" by (metis surj_pair)
    from 2 have "tr' = tr2" "r' = r2 \<or> r' = r3" using w n o s by (auto simp: walk_step_def Let_def split: if_splits)
    moreover have "accounted tr r tr2 r3" by (rule accounted_update [OF a2]) (use st [OF s] in simp_all)
    moreover have "rd_backend r3 = rd_backend r" using st [OF s] b2 by simp
    ultimately show ?thesis using a2 b2 by auto
  next
    case 3
    obtain rc3 r3 where s: "stage_tar_entry ?r1 = (rc3, r3)" by (metis surj_pair)
    from 3 have "tr' = tr0" "r' = r3" using w n s by (auto simp: walk_step_def Let_def)
    moreover have "accounted tr r tr0 r3" by (rule accounted_update [OF a1]) (use st [OF s] in simp_all)
    ultimately show ?thesis using st [OF s] b0 by simp
  qed
qed


lemma padding_fills: "512 dvd n + (512 - n mod 512) mod (512 :: nat)"
proof -
  have "n + (512 - n mod 512) mod 512 = n div 512 * 512 + (n mod 512 + (512 - n mod 512) mod 512)" by simp
  moreover have "n mod 512 + (512 - n mod 512) mod 512 = (if n mod 512 = 0 then 0 else 512)" by auto
  ultimately show ?thesis by (metis dvd_add dvd_triv_right dvd_0_right dvd_refl)
qed

lemma walk_step_inv:
  assumes e: "backend_handles e" and inv: "reader_inv r" and ph: "rd_phase r = WALK" and w: "walk_step e r tr = (BVSTK_FS_OK, r', tr')"
  shows "reader_inv r' \<and> rd_kind r' = rd_kind r \<and> rd_total_size r' = rd_total_size r \<and> (rd_kind r = BVSTK_FS_TAR \<longrightarrow> 512 dvd owed r')"
proof -
  have r: "rd_backend r" "length (rd_path r) < 512" "rd_file r = 0" "rd_kind r \<noteq> BVSTK_FS_FILE" using inv ph by (auto simp: reader_inv_def)
  have fr: "\<exists>p i d. r0 = r\<lparr>rd_path := p, rd_info := i, rd_dirs := d\<rparr> \<and> length p < 512 \<and> (dn \<longrightarrow> d = [])"
    if n: "next_entry e r tr = (BVSTK_FS_OK, dn, r0, tr0)" for dn r0 tr0
  proof -
    obtain p i d where f: "r0 = r\<lparr>rd_path := p, rd_info := i, rd_dirs := d\<rparr>" "dn \<longrightarrow> d = []" using next_entry_frame [OF n] by blast
    moreover have "length (rd_path r0) < 512" using walk_dirs_path [OF n [unfolded next_entry_def] r(2)] .
    ultimately show ?thesis using f by (intro exI [of _ p] exI [of _ i] exI [of _ d]) simp
  qed
  from w show ?thesis
  proof (cases rule: walk_step_cases)
    case (Done r0)
    then show ?thesis using fr [OF Done(1)] r ph by (auto simp: reader_inv_def owed_def)
  next
    case (Tree r0)
    obtain p i d where r0: "r0 = r\<lparr>rd_path := p, rd_info := i, rd_dirs := d\<rparr>" "length p < 512" using fr [OF Tree(1)] by blast
    then have "length (tree_record (r0\<lparr>rd_stage_offset := 0\<rparr>)) \<le> 2048" using length_tree_record [of "r0\<lparr>rd_stage_offset := 0\<rparr>"] by simp
    then show ?thesis using Tree r0 r ph by (auto simp: reader_inv_def owed_def)
  next
    case (Tar_File r0 tr0 r2)
    obtain p i d where r0: "r0 = r\<lparr>rd_path := p, rd_info := i, rd_dirs := d\<rparr>" "length p < 512" using fr [OF Tar_File(1)] by blast
    obtain h where r2: "r2 = r0\<lparr>rd_stage_offset := 0\<rparr>\<lparr>rd_file := h, rd_remaining := fi_size i\<rparr>" using open_file_frame [OF Tar_File(4)] r0 by auto
    have "h \<noteq> 0" using open_file_accounted [OF e Tar_File(4)] r2 r0 r(3) by simp
    obtain bs where r': "r' = r2\<lparr>rd_phase := FILE_DATA\<rparr>\<lparr>rd_stage := bs, rd_stage_offset := 0\<rparr>" "512 dvd length bs" "length bs \<le> 2048"
      using stage_tar_entry_OK [OF Tar_File(5)] by blast
    have "512 dvd length bs + (unat (fi_size i) + (512 - unat (fi_size i) mod 512) mod 512)" using r'(2) padding_fills by (rule dvd_add)
    then show ?thesis using r' r2 r0 r Tar_File(2) \<open>h \<noteq> 0\<close> by (auto simp: reader_inv_def owed_def file_padding_def)
  next
    case (Tar_Dir r0)
    obtain p i d where r0: "r0 = r\<lparr>rd_path := p, rd_info := i, rd_dirs := d\<rparr>" "length p < 512" using fr [OF Tar_Dir(1)] by blast
    obtain bs where r': "r' = r0\<lparr>rd_stage_offset := 0\<rparr>\<lparr>rd_stage := bs, rd_stage_offset := 0\<rparr>" "512 dvd length bs" "length bs \<le> 2048"
      using stage_tar_entry_OK [OF Tar_Dir(4)] by blast
    then show ?thesis using r0 r ph Tar_Dir(2) by (auto simp: reader_inv_def owed_def)
  qed
qed


section \<open>One pass and the whole read\<close>

text \<open>What a pass does with the bytes owed: either they are only moved to the output, or a walk, at a
  moment nothing is owed, stages what comes next.\<close>

definition owed_step :: "bvstk_fs_reader_t \<Rightarrow> bytes \<Rightarrow> bvstk_fs_reader_t \<Rightarrow> bytes \<Rightarrow> bool" where
  "owed_step r out r' out' \<longleftrightarrow> length out' + owed r' = length out + owed r \<or>
     out' = out \<and> owed r = 0 \<and> rd_kind r \<noteq> BVSTK_FS_FILE \<and> (rd_kind r = BVSTK_FS_TAR \<longrightarrow> 512 dvd owed r')"

lemma finish_file_inv:
  assumes "reader_inv r" "rd_phase r = FILE_DATA" "rd_remaining r = 0" "\<not> stage_pending r" "finish_file e r tr = (BVSTK_FS_OK, r', tr')"
    "rd_kind r = BVSTK_FS_FILE \<longrightarrow> rd_dirs r = []"
  shows "reader_inv r' \<and> owed r' = owed r \<and> rd_kind r' = rd_kind r \<and> rd_total_size r' = rd_total_size r \<and> rd_dirs r' = rd_dirs r"
proof -
  have "rd_kind r \<noteq> BVSTK_FS_TREE" using assms(1,2) by (auto simp: reader_inv_def)
  then show ?thesis using assms finish_file_OK [OF assms(5)]
    by (cases "rd_kind r = BVSTK_FS_FILE") (auto simp: reader_inv_def owed_def file_padding_def stage_pending_def)
qed

lemma read_step_again:
  assumes e: "backend_handles e" and inv: "reader_inv r" and fd: "rd_kind r = BVSTK_FS_FILE \<longrightarrow> rd_dirs r = []"
    and st: "read_step e capacity r tr out = Again r' tr' out'" and lt: "length out < capacity"
  shows "reader_inv r' \<and> accounted tr r tr' r' \<and> owed_step r out r' out' \<and> rd_kind r' = rd_kind r \<and> rd_total_size r' = rd_total_size r \<and>
    (rd_kind r = BVSTK_FS_FILE \<longrightarrow> rd_dirs r' = [])"
proof (cases "stage_pending r")
  case True
  define n where "n = min (length (rd_stage r) - rd_stage_offset r) (capacity - length out)"
  have r': "r' = r\<lparr>rd_stage_offset := rd_stage_offset r + n\<rparr>" "tr' = tr" "length out' = length out + n" "n \<le> length (rd_stage r) - rd_stage_offset r"
    using st True unfolding read_step_def n_def by (auto simp: Let_def)
  have "accounted tr r tr' r'" unfolding r' by (rule accounted_refl) (simp_all add: held_defs)
  moreover have "length out' + owed r' = length out + owed r" using r' by (cases "rd_phase r") (simp_all add: owed_def file_padding_def)
  ultimately show ?thesis using r' inv fd by (auto simp: reader_inv_def owed_step_def)
next
  case np: False
  show ?thesis
  proof (cases "rd_phase r")
    case FILE_DATA
    show ?thesis
    proof (cases "rd_remaining r = 0")
      case True
      then have f: "finish_file e r tr = (BVSTK_FS_OK, r', tr')" "out' = out"
        using st np FILE_DATA by (auto simp: read_step_def Let_def split: prod.splits if_splits)
      have "rd_file r \<noteq> 0" using inv FILE_DATA by (auto simp: reader_inv_def)
      then show ?thesis using finish_file_inv [OF inv FILE_DATA True np f(1) fd] finish_file_accounted [OF f(1)] fd f(2)
        by (simp add: owed_step_def)
    next
      case False
      let ?want = "min (capacity - length out) (unat (rd_remaining r))"
      obtain rc data where d: "be_file_read e tr (rd_file r) ?want = (rc, data)" by (metis surj_pair)
      have "r' = r\<lparr>rd_remaining := rd_remaining r - of_nat (length data)\<rparr>" "tr' = tr @ [EvFileRead (rd_file r) ?want]" "out' = out @ data"
        "length data \<le> ?want"
        using st np FILE_DATA False d by (auto simp: read_step_def Let_def split: if_splits)
      moreover have "unat (rd_remaining r - of_nat (length data)) = unat (rd_remaining r) - length data" if "length data \<le> unat (rd_remaining r)"
      proof -
        have l: "unat (of_nat (length data) :: u64) = length data"
          using that unat_less_two_power [of "rd_remaining r"] by (intro unat_of_nat_small) simp
        then show ?thesis using that by (subst unat_minus_le) (simp_all add: word_le_nat_alt)
      qed
      ultimately show ?thesis using inv FILE_DATA fd
        by (auto simp: reader_inv_def owed_def owed_step_def file_padding_def held_defs intro!: accounted_step)
    qed
  next
    case FILE_PADDING
    then show ?thesis using st np inv fd
      by (auto simp: read_step_def Let_def reader_inv_def owed_def owed_step_def stage_pending_def held_defs split: if_splits intro!: accounted_refl)
  next
    case WALK
    then have w: "walk_step e r tr = (BVSTK_FS_OK, r', tr')" "out' = out"
      using st np by (auto simp: read_step_def Let_def split: prod.splits if_splits)
    have f: "rd_file r = 0" "rd_kind r \<noteq> BVSTK_FS_FILE" using inv WALK by (auto simp: reader_inv_def)
    have "owed r = 0" using np WALK by (simp add: owed_def stage_pending_def)
    then show ?thesis using walk_step_inv [OF e inv WALK w(1)] walk_step_accounted [OF e w(1) f(1)] w(2) f(2) by (simp add: owed_step_def)
  next
    case FINISHED
    then show ?thesis using st np by (simp add: read_step_def)
  qed
qed

definition owed_rel :: "bvstk_fs_reader_t \<Rightarrow> nat \<Rightarrow> bvstk_fs_reader_t \<Rightarrow> nat \<Rightarrow> bool" where
  "owed_rel r n r' n' \<longleftrightarrow> (rd_kind r = BVSTK_FS_FILE \<longrightarrow> n' + owed r' = n + owed r) \<and>
     (rd_kind r = BVSTK_FS_TAR \<longrightarrow> (n' + owed r') mod 512 = (n + owed r) mod 512)"

lemma owed_step_rel: "owed_step r out r' out' \<Longrightarrow> owed_rel r (length out) r' (length out')"
proof -
  assume s: "owed_step r out r' out'"
  show ?thesis
  proof (cases "length out' + owed r' = length out + owed r")
    case True
    then show ?thesis by (simp add: owed_rel_def)
  next
    case False
    then have w: "out' = out" "owed r = 0" "rd_kind r \<noteq> BVSTK_FS_FILE" "rd_kind r = BVSTK_FS_TAR \<longrightarrow> 512 dvd owed r'"
      using s by (simp_all add: owed_step_def)
    then show ?thesis by (auto simp: owed_rel_def elim!: dvdE)
  qed
qed

lemma owed_rel_trans: "owed_rel r n r1 n1 \<Longrightarrow> owed_rel r1 n1 r2 n2 \<Longrightarrow> rd_kind r1 = rd_kind r \<Longrightarrow> owed_rel r n r2 n2"
  by (auto simp: owed_rel_def)

text \<open>The state between reads: the invariant, and no directories in a file reader.\<close>

definition reader_ok :: "bvstk_fs_reader_t \<Rightarrow> bool" where
  "reader_ok r \<longleftrightarrow> reader_inv r \<and> (rd_kind r = BVSTK_FS_FILE \<longrightarrow> rd_dirs r = [])"

definition same_job :: "bvstk_fs_reader_t \<Rightarrow> bvstk_fs_reader_t \<Rightarrow> bool" where
  "same_job r r' \<longleftrightarrow> rd_kind r' = rd_kind r \<and> rd_total_size r' = rd_total_size r"

lemma read_step_stop:
  assumes e: "backend_handles e" and inv: "reader_inv r" and st: "read_step e capacity r tr out = Stop rc r' tr' out'"
  shows "accounted tr r tr' r' \<and> rd_backend r' \<and> out' = out \<and> (rc = BVSTK_FS_OK \<longrightarrow> r' = r \<and> tr' = tr \<and> rd_phase r = FINISHED \<and> \<not> stage_pending r)"
proof -
  have np: "\<not> stage_pending r" using st by (auto simp: read_step_def Let_def)
  have b: "rd_backend r" using inv by (simp add: reader_inv_def)
  show ?thesis
  proof (cases "rd_phase r")
    case FILE_DATA
    then have f: "rd_file r \<noteq> 0" using inv by (auto simp: reader_inv_def)
    show ?thesis
    proof (cases "rd_remaining r = 0")
      case True
      then have "finish_file e r tr = (rc, r', tr')" "out' = out" "rc \<noteq> BVSTK_FS_OK"
        using st np FILE_DATA by (auto simp: read_step_def Let_def split: prod.splits if_splits)
      then show ?thesis using finish_file_accounted [OF _ f] b by blast
    next
      case False
      then have "r' = r" "\<exists>n. tr' = tr @ [EvFileRead (rd_file r) n]" "out' = out" "rc \<noteq> BVSTK_FS_OK"
        using st np FILE_DATA by (auto simp: read_step_def Let_def split: prod.splits if_splits)
      then show ?thesis using b by (auto intro!: accounted_step)
    qed
  next
    case FILE_PADDING
    then show ?thesis using st np by (simp add: read_step_def Let_def)
  next
    case WALK
    then have w: "walk_step e r tr = (rc, r', tr')" "out' = out" "rc \<noteq> BVSTK_FS_OK"
      using st np by (auto simp: read_step_def Let_def split: prod.splits if_splits)
    have "rd_file r = 0" using inv WALK by (auto simp: reader_inv_def)
    then show ?thesis using walk_step_accounted [OF e w(1)] w b by simp
  next
    case FINISHED
    then show ?thesis using st np b by (auto simp: read_step_def Let_def intro: accounted_refl)
  qed
qed

lemma read_loop_run:
  "backend_handles e \<Longrightarrow> reader_ok r \<Longrightarrow> length out \<le> capacity \<Longrightarrow> read_loop e capacity r tr out = (rc, r', tr', out') \<Longrightarrow>
    accounted tr r tr' r' \<and> rd_backend r' \<and> length out' \<le> capacity \<and>
    (rc = BVSTK_FS_OK \<longrightarrow> reader_ok r' \<and> same_job r r' \<and> owed_rel r (length out) r' (length out') \<and>
       (length out' = capacity \<or> rd_phase r' = FINISHED \<and> \<not> stage_pending r'))"
proof (induction e capacity r tr out rule: read_loop.induct)
  case (1 e capacity r tr out)
  note assms = "1.prems"(1) and ok = "1.prems"(2) and run = "1.prems"(4)
  have inv: "reader_inv r" and fd: "rd_kind r = BVSTK_FS_FILE \<longrightarrow> rd_dirs r = []" using ok by (auto simp: reader_ok_def)
  show ?case
  proof (cases "length out < capacity")
    case False
    then have "rc = BVSTK_FS_OK" "r' = r" "tr' = tr" "out' = out" using run by (simp_all add: read_loop.simps [of e capacity r tr out])
    then show ?thesis using ok False "1.prems"(3) inv by (auto simp: same_job_def owed_rel_def reader_inv_def intro: accounted_refl)
  next
    case lt: True
    show ?thesis
    proof (cases "read_step e capacity r tr out")
      case (Stop rc1 r1 tr1 out1)
      then have eq: "rc1 = rc" "r1 = r'" "tr1 = tr'" "out1 = out'" using run lt by (simp_all add: read_loop.simps [of e capacity r tr out])
      show ?thesis using read_step_stop [OF assms inv, of capacity tr out rc r' tr' out'] Stop eq ok lt
        by (auto simp: same_job_def owed_rel_def)
    next
      case (Again r1 tr1 out1)
      have s: "reader_inv r1" "accounted tr r tr1 r1" "owed_step r out r1 out1" "same_job r r1" "rd_kind r = BVSTK_FS_FILE \<longrightarrow> rd_dirs r1 = []"
        using read_step_again [OF assms inv fd Again lt] by (auto simp: same_job_def)
      then have ok1: "reader_ok r1" by (auto simp: reader_ok_def same_job_def)
      have le: "length out1 \<le> capacity" using read_step_progress [OF lt Again] by blast
      have run1: "read_loop e capacity r1 tr1 out1 = (rc, r', tr', out')" using run lt Again by (simp add: read_loop.simps [of e capacity r tr out])
      note ih = "1.IH" [OF lt Again assms ok1 le run1]
      have "accounted tr r tr' r'" using s(2) ih by (blast intro: accounted_trans)
      moreover have "owed_rel r (length out) r' (length out')" if "rc = BVSTK_FS_OK"
        using owed_rel_trans [OF owed_step_rel [OF s(3)]] ih that s(4) by (simp add: same_job_def)
      moreover have "same_job r r'" if "rc = BVSTK_FS_OK" using ih that s(4) by (simp add: same_job_def)
      ultimately show ?thesis using ih by blast
    qed
  qed
qed


lemma reader_read_run:
  assumes e: "backend_handles e" and ok: "reader_ok r" and cap: "0 < capacity"
    and rd: "bvstk_fs_reader_read e (Some r) True capacity True tr = (rc, r'', tr', out, eof)"
  obtains r' where "r'' = Some r'" "rd_backend r'" "accounted tr r tr' r'" "length out \<le> capacity" "rc \<noteq> BVSTK_FS_OK \<longrightarrow> rd_file r' = 0 \<and> rd_dirs r' = [] \<and> \<not> eof"
    "rc = BVSTK_FS_OK \<longrightarrow> reader_ok r' \<and> same_job r r' \<and> owed_rel r 0 r' (length out) \<and> (length out = capacity \<or> eof) \<and>
       (eof \<longrightarrow> owed r' = 0 \<and> rd_file r' = 0 \<and> rd_dirs r' = [])"
proof -
  obtain rc1 r1 tr1 out1 where lp: "read_loop e capacity r tr [] = (rc1, r1, tr1, out1)" by (metis prod_cases4)
  note run = read_loop_run [OF e ok _ lp]
  define f where "f = (rc1 = BVSTK_FS_OK \<and> rd_phase r1 = FILE_DATA \<and> rd_remaining r1 = 0 \<and> rd_stage_offset r1 = length (rd_stage r1))"
  obtain rc2 r2 tr2 where fin: "(if f then finish_file e r1 tr1 else (rc1, r1, tr1)) = (rc2, r2, tr2)" by (metis prod_cases3)
  have b: "rd_backend r" using ok by (simp add: reader_ok_def reader_inv_def)
  have two: "accounted tr1 r1 tr2 r2 \<and> rd_backend r2 \<and> (rc2 = BVSTK_FS_OK \<longrightarrow> rc1 = BVSTK_FS_OK \<and> reader_ok r2 \<and> same_job r1 r2 \<and> owed r2 = owed r1 \<and>
     (rd_phase r1 = FINISHED \<longrightarrow> rd_phase r2 = FINISHED) \<and> (\<not> stage_pending r1 \<longrightarrow> \<not> stage_pending r2))"
  proof (cases f)
    case True
    then have p: "rd_phase r1 = FILE_DATA" "rd_remaining r1 = 0" "\<not> stage_pending r1" and rc1: "rc1 = BVSTK_FS_OK" by (simp_all add: f_def stage_pending_def)
    have ff: "finish_file e r1 tr1 = (rc2, r2, tr2)" using fin True by simp
    have ok1: "reader_ok r1" and bk: "rd_backend r1" using run rc1 by simp_all
    then have "rd_file r1 \<noteq> 0" using p by (auto simp: reader_ok_def reader_inv_def)
    then have acc: "accounted tr1 r1 tr2 r2 \<and> rd_backend r2" using finish_file_accounted [OF ff] bk by simp
    show ?thesis
    proof (cases "rc2 = BVSTK_FS_OK")
      case True
      have "\<not> stage_pending r2" using finish_file_OK [OF ff [unfolded True]] p(3) by (simp add: stage_pending_def)
      then show ?thesis using finish_file_inv [OF _ p ff [unfolded True]] ok1 acc rc1 p by (auto simp: reader_ok_def same_job_def)
    qed (use acc in simp)
  next
    case False
    then have "rc2 = rc1" "r2 = r1" "tr2 = tr1" using fin by simp_all
    then show ?thesis using run by (auto simp: same_job_def intro: accounted_refl)
  qed
  have acc: "accounted tr r tr2 r2" using run two by (auto intro: accounted_trans)
  have le: "length out1 \<le> capacity" using run by simp
  show thesis
  proof (cases "rc2 = BVSTK_FS_OK")
    case False
    obtain r3 tr3 where c: "bvstk_fs_reader_close r2 tr2 = (r3, tr3)" by (metis surj_pair)
    have r3: "rd_file r3 = 0" "rd_dirs r3 = []" "rd_backend r3" using c two by (auto simp: bvstk_fs_reader_close_def Let_def)
    have "accounted tr r tr3 r3" using accounted_trans [OF acc reader_close_accounted [OF c]] .
    moreover have "rc = rc2" "r'' = Some r3" "tr' = tr3" "out = out1" "\<not> eof"
      using rd b cap lp fin c False unfolding bvstk_fs_reader_read_def f_def by (simp_all split: prod.splits)
    ultimately show thesis using that [of r3] r3 le False by simp
  next
    case True
    have eq: "rc = BVSTK_FS_OK" "r'' = Some r2" "tr' = tr2" "out = out1" "eof = (rd_phase r2 = FINISHED \<and> rd_stage_offset r2 = length (rd_stage r2))"
      using rd b cap lp fin True unfolding bvstk_fs_reader_read_def f_def by (simp_all split: prod.splits)
    have ok2: "reader_ok r2" "same_job r1 r2" "owed r2 = owed r1" "rc1 = BVSTK_FS_OK" using two True by simp_all
    have "same_job r r2" using run ok2 by (simp add: same_job_def)
    moreover have "owed_rel r 0 r2 (length out1)" using run ok2 by (simp add: owed_rel_def)
    moreover have "length out1 = capacity \<or> eof"
    proof (cases "length out1 = capacity")
      case False
      then have "rd_phase r2 = FINISHED" "\<not> stage_pending r2" using run ok2(4) two True by auto
      then show ?thesis using ok2(1) eq by (simp add: reader_ok_def reader_inv_def stage_pending_def)
    qed simp
    moreover have "eof \<longrightarrow> owed r2 = 0 \<and> rd_file r2 = 0 \<and> rd_dirs r2 = []"
      using eq ok2(1) by (auto simp: owed_def reader_ok_def reader_inv_def)
    moreover have "rd_backend r2" using ok2(1) by (simp add: reader_ok_def reader_inv_def)
    ultimately show thesis using that [of r2] eq acc le ok2(1) by simp
  qed
qed

section \<open>Opening\<close>

lemma reader_close_empties:
  "bvstk_fs_reader_close r tr = (r', tr') \<Longrightarrow> rd_backend r \<Longrightarrow> rd_file r' = 0 \<and> rd_dirs r' = []"
  by (auto simp: bvstk_fs_reader_close_def Let_def)

definition opened_well :: "bvstk_fs_result_t \<Rightarrow> bvstk_fs_reader_t \<Rightarrow> bool" where
  "opened_well rc r \<longleftrightarrow> (rc \<noteq> BVSTK_FS_OK \<longrightarrow> rd_file r = 0 \<and> rd_dirs r = []) \<and>
     (rc = BVSTK_FS_OK \<longrightarrow> reader_ok r \<and> owed r = (if rd_kind r = BVSTK_FS_FILE then unat (rd_total_size r) else 0))"

lemma open_object_run:
  assumes e: "backend_handles e" and o: "open_object e r tr = (rc, r', tr')"
    and r: "rd_file r = 0" "rd_dirs r = []" "rd_backend r" "rd_stage r = []" "rd_stage_offset r = 0" "length (rd_path r) < 512"
      "rd_kind r = BVSTK_FS_FILE \<longrightarrow> rd_total_size r = fi_size (rd_info r)"
  shows "accounted tr r tr' r' \<and> opened_well rc r' \<and> rd_kind r' = rd_kind r"
proof -
  define X where "X = (if rd_kind r = BVSTK_FS_FILE
      then (case open_file e r tr of (rc, r1, tr1) \<Rightarrow> (rc, r1\<lparr>rd_phase := FILE_DATA\<rparr>, tr1))
      else (case be_dir_open e tr (rd_path r) of (rc, h) \<Rightarrow>
        (rc, r\<lparr>rd_dirs := (if rc = BVSTK_FS_OK then [\<lparr>ds_handle = h, ds_path_len = length (rd_path r)\<rparr>] else []), rd_phase := WALK\<rparr>,
         tr @ [EvDirOpen (rd_path r) rc h])))"
  obtain rc1 r1 tr1 where X: "X = (rc1, r1, tr1)" by (cases X)
  note s = X [unfolded X_def]
  have one: "accounted tr r tr1 r1 \<and> rd_backend r1 \<and> rd_kind r1 = rd_kind r \<and>
    (rc1 = BVSTK_FS_OK \<longrightarrow> reader_ok r1 \<and> owed r1 = (if rd_kind r1 = BVSTK_FS_FILE then unat (rd_total_size r1) else 0))"
  proof (cases "rd_kind r = BVSTK_FS_FILE")
    case True
    then obtain r2 where f: "open_file e r tr = (rc1, r2, tr1)" "r1 = r2\<lparr>rd_phase := FILE_DATA\<rparr>" using s by (auto split: prod.splits)
    obtain h m where r2: "r2 = r\<lparr>rd_file := h, rd_remaining := m\<rparr>" "rc1 = BVSTK_FS_OK \<longrightarrow> m = fi_size (rd_info r)" using open_file_frame [OF f(1)] by blast
    have a: "accounted tr r tr1 r2" "rc1 = BVSTK_FS_OK \<longrightarrow> h \<noteq> 0" using open_file_accounted [OF e f(1) r(1)] r2 by simp_all
    then have "accounted tr r tr1 r1" using accounted_update f(2) by fastforce
    then show ?thesis using a(2) f(2) r2 r True by (auto simp: reader_ok_def reader_inv_def owed_def file_padding_def)
  next
    case False
    obtain h where d: "r1 = r\<lparr>rd_dirs := (if rc1 = BVSTK_FS_OK then [\<lparr>ds_handle = h, ds_path_len = length (rd_path r)\<rparr>] else []), rd_phase := WALK\<rparr>"
        "tr1 = tr @ [EvDirOpen (rd_path r) rc1 h]" using s False by (auto split: prod.splits)
    have "accounted tr r tr1 r1" unfolding d by (rule accounted_step) (simp_all add: held_defs r)
    then show ?thesis using d(1) r False by (auto simp: reader_ok_def reader_inv_def owed_def)
  qed
  obtain r2 tr2 where c: "bvstk_fs_reader_close r1 tr1 = (r2, tr2)" by (metis surj_pair)
  have k: "rd_kind r2 = rd_kind r1" using c by (auto simp: bvstk_fs_reader_close_def Let_def split: if_splits)
  show ?thesis
  proof (cases "rc1 = BVSTK_FS_OK")
    case True
    then show ?thesis using o s one by (simp add: open_object_def opened_well_def)
  next
    case False
    then have "rc = rc1" "r' = r2" "tr' = tr2" using o s c by (simp_all add: open_object_def)
    then show ?thesis using accounted_trans [OF _ reader_close_accounted [OF c]] reader_close_empties [OF c] one False k
      by (simp add: opened_well_def)
  qed
qed

lemma reader_open_run:
  assumes e: "backend_handles e" and o: "bvstk_fs_reader_open e path kind flags tr = (rc, r, tr')"
  shows "accounted tr zero_reader tr' r \<and> opened_well rc r \<and> rd_kind r = kind"
proof -
  obtain rc1 info where st: "be_stat e tr path = (rc1, info)" by (metis surj_pair)
  define r1 where "r1 = zero_reader\<lparr>rd_backend := True, rd_kind := kind, rd_flags := flags, rd_root := path, rd_path := path,
    rd_relative_offset := length path + (if length path \<noteq> 0 \<and> path ! (length path - 1) \<noteq> ch CHR ''/'' then 1 else 0), rd_info := info\<rparr>"
  define r2 where "r2 = r1\<lparr>rd_total_size := (if kind = BVSTK_FS_FILE then fi_size info else - 1)\<rparr>"
  have z: "accounted tr zero_reader tr x" "accounted tr zero_reader (tr @ [EvStat path]) x" if "rd_file x = 0" "rd_dirs x = []" for x
    using that by (intro accounted_refl accounted_step; simp add: held_defs zero_reader_def)+
  have r12: "rd_file r1 = 0" "rd_dirs r1 = []" "rd_kind r1 = kind" "rd_file r2 = 0" "rd_dirs r2 = []" "rd_kind r2 = kind"
    by (simp_all add: r1_def r2_def zero_reader_def)
  have eq: "bvstk_fs_reader_open e path kind flags tr =
    (if length path \<ge> 512 then (BVSTK_FS_RANGE, zero_reader\<lparr>rd_backend := True, rd_kind := kind, rd_flags := flags\<rparr>, tr)
     else if kind < BVSTK_FS_FILE \<or> kind > BVSTK_FS_TAR then (BVSTK_FS_UNSUPPORTED, zero_reader\<lparr>rd_backend := True, rd_kind := kind, rd_flags := flags\<rparr>, tr)
     else if kind \<noteq> BVSTK_FS_TREE \<and> flags \<noteq> 0 \<or> flags AND NOT BVSTK_FS_RECURSIVE \<noteq> 0
     then (BVSTK_FS_INVALID, zero_reader\<lparr>rd_backend := True, rd_kind := kind, rd_flags := flags\<rparr>, tr)
     else if rc1 \<noteq> BVSTK_FS_OK then (rc1, r1, tr @ [EvStat path])
     else if fi_type info \<noteq> (if kind = BVSTK_FS_FILE then BVSTK_FS_ENTRY_FILE else BVSTK_FS_ENTRY_DIR) then (BVSTK_FS_TYPE_ERROR, r1, tr @ [EvStat path])
     else open_object e r2 (tr @ [EvStat path]))"
    unfolding bvstk_fs_reader_open_def Let_def st prod.case r2_def r1_def ..
  consider "rc \<noteq> BVSTK_FS_OK" "tr' = tr" "r = zero_reader\<lparr>rd_backend := True, rd_kind := kind, rd_flags := flags\<rparr>"
    | "rc \<noteq> BVSTK_FS_OK" "tr' = tr @ [EvStat path]" "r = r1"
    | "open_object e r2 (tr @ [EvStat path]) = (rc, r, tr')" "length path < 512"
    using o unfolding eq by (auto split: if_splits)
  then show ?thesis
  proof cases
    case 1
    then show ?thesis using z(1) by (simp add: opened_well_def zero_reader_def)
  next
    case 2
    then show ?thesis using z(2) r12 by (simp add: opened_well_def)
  next
    case 3
    have "accounted (tr @ [EvStat path]) r2 tr' r \<and> opened_well rc r \<and> rd_kind r = rd_kind r2"
      by (rule open_object_run [OF e 3(1)]) (use 3(2) in \<open>simp_all add: r2_def r1_def zero_reader_def\<close>)
    then show ?thesis using accounted_trans [OF z(2) [OF r12(4,5)]] r12(6) by auto
  qed
qed

section \<open>Whole streams\<close>

text \<open>Reads with the given block capacities until an error or the end of the stream.\<close>

fun fs_stream :: "fs_env \<Rightarrow> nat list \<Rightarrow> bvstk_fs_reader_t \<Rightarrow> fs_trace \<Rightarrow> bvstk_fs_result_t \<times> bvstk_fs_reader_t \<times> fs_trace \<times> bytes \<times> bool" where
  "fs_stream e [] r tr = (BVSTK_FS_OK, r, tr, [], False)"
| "fs_stream e (c # cs) r tr =
    (case bvstk_fs_reader_read e (Some r) True c True tr of
       (rc, ro, tr1, out, eof) \<Rightarrow>
         let r1 = (case ro of Some x \<Rightarrow> x | None \<Rightarrow> r) in
         if rc \<noteq> BVSTK_FS_OK \<or> eof then (rc, r1, tr1, out, eof)
         else (case fs_stream e cs r1 tr1 of (rc2, r2, tr2, out2, eof2) \<Rightarrow> (rc2, r2, tr2, out @ out2, eof2)))"

lemma owed_rel_shift: "owed_rel r n r' n' \<Longrightarrow> owed_rel r (k + n) r' (k + n')"
  using mod_add_cong [of k 512 k "n' + owed r'" "n + owed r"] by (simp add: owed_rel_def add.assoc)

lemma fs_stream_run:
  assumes e: "backend_handles e"
  shows "reader_ok r \<Longrightarrow> list_all (\<lambda>c. 0 < c) caps \<Longrightarrow> fs_stream e caps r tr = (rc, r', tr', bytes, eof) \<Longrightarrow>
    accounted tr r tr' r' \<and> (rc \<noteq> BVSTK_FS_OK \<or> eof \<longrightarrow> rd_file r' = 0 \<and> rd_dirs r' = []) \<and>
    (rc = BVSTK_FS_OK \<longrightarrow> reader_ok r' \<and> same_job r r' \<and> owed_rel r 0 r' (length bytes) \<and> (eof \<longrightarrow> owed r' = 0) \<and>
      (\<not> eof \<longrightarrow> length bytes = sum_list caps))"
proof (induction caps arbitrary: r tr bytes)
  case Nil
  then show ?case by (auto simp: same_job_def owed_rel_def intro: accounted_refl)
next
  case (Cons c cs)
  obtain rc1 ro tr1 out eof1 where rd: "bvstk_fs_reader_read e (Some r) True c True tr = (rc1, ro, tr1, out, eof1)" by (metis prod_cases5)
  have c: "0 < c" using Cons.prems(2) by simp
  obtain r1 where r1: "ro = Some r1" "accounted tr r tr1 r1" "rc1 \<noteq> BVSTK_FS_OK \<longrightarrow> rd_file r1 = 0 \<and> rd_dirs r1 = [] \<and> \<not> eof1"
    "rc1 = BVSTK_FS_OK \<longrightarrow> reader_ok r1 \<and> same_job r r1 \<and> owed_rel r 0 r1 (length out) \<and> (length out = c \<or> eof1) \<and>
       (eof1 \<longrightarrow> owed r1 = 0 \<and> rd_file r1 = 0 \<and> rd_dirs r1 = [])"
    using reader_read_run [OF e Cons.prems(1) c rd] by metis
  show ?case
  proof (cases "rc1 \<noteq> BVSTK_FS_OK \<or> eof1")
    case True
    then have "rc = rc1" "r' = r1" "tr' = tr1" "bytes = out" "eof = eof1" using Cons.prems(3) rd r1(1) by simp_all
    then show ?thesis using r1 True by auto
  next
    case False
    obtain rc2 r2 tr2 out2 eof2 where s: "fs_stream e cs r1 tr1 = (rc2, r2, tr2, out2, eof2)" by (metis prod_cases5)
    have eq: "rc2 = rc" "r2 = r'" "tr2 = tr'" "bytes = out @ out2" "eof2 = eof" using Cons.prems(3) rd r1(1) s False by simp_all
    have ok: "reader_ok r1" "same_job r r1" "owed_rel r 0 r1 (length out)" "length out = c" using r1 False by auto
    have ih: "accounted tr1 r1 tr' r'" "rc \<noteq> BVSTK_FS_OK \<or> eof \<longrightarrow> rd_file r' = 0 \<and> rd_dirs r' = []"
      "rc = BVSTK_FS_OK \<longrightarrow> reader_ok r' \<and> same_job r1 r' \<and> owed_rel r1 0 r' (length out2) \<and> (eof \<longrightarrow> owed r' = 0) \<and> (\<not> eof \<longrightarrow> length out2 = sum_list cs)"
      using Cons.IH [OF ok(1) _ s [unfolded eq]] Cons.prems(2) by auto
    have "accounted tr r tr' r'" using r1(2) ih(1) by (rule accounted_trans)
    moreover have "owed_rel r 0 r' (length bytes)" if "rc = BVSTK_FS_OK"
    proof -
      have "owed_rel r1 (length out) r' (length out + length out2)"
        using ih(3) that owed_rel_shift [of r1 0 r' "length out2" "length out"] by simp
      then show ?thesis using owed_rel_trans [OF ok(3)] ok(2) eq(4) by (simp add: same_job_def)
    qed
    moreover have "same_job r r'" if "rc = BVSTK_FS_OK" using ih(3) that ok(2) by (simp add: same_job_def)
    ultimately show ?thesis using ih eq ok(4) by auto
  qed
qed

text \<open>The bytes the backend returned to the read requests of a part \<open>evs\<close> of the trace that starts after \<open>pre\<close>.\<close>

fun file_bytes :: "fs_env \<Rightarrow> fs_trace \<Rightarrow> fs_trace \<Rightarrow> bytes" where
  "file_bytes e pre [] = []"
| "file_bytes e pre (ev # evs) = (case ev of EvFileRead h n \<Rightarrow> snd (be_file_read e pre h n) | _ \<Rightarrow> []) @ file_bytes e (pre @ [ev]) evs"

lemma file_bytes_append: "file_bytes e pre (a @ b) = file_bytes e pre a @ file_bytes e (pre @ a) b"
  by (induction a arbitrary: pre) simp_all

lemma read_step_file_bytes:
  assumes "reader_inv r" "rd_kind r = BVSTK_FS_FILE" "read_step e capacity r tr out = Again r' tr' out'"
  shows "\<exists>evs. tr' = tr @ evs \<and> out' = out @ file_bytes e tr evs"
proof -
  have np: "\<not> stage_pending r" and ph: "rd_phase r = FILE_DATA \<or> rd_phase r = FINISHED" using assms by (auto simp: reader_inv_def stage_pending_def)
  show ?thesis
  proof (cases "rd_phase r = FILE_DATA \<and> rd_remaining r = 0")
    case True
    then have "finish_file e r tr = (BVSTK_FS_OK, r', tr')" "out' = out"
      using assms(3) np by (auto simp: read_step_def Let_def split: prod.splits if_splits)
    then show ?thesis using finish_file_OK [of e r tr r' tr'] by simp
  next
    case False
    then have ph: "rd_phase r = FILE_DATA" "rd_remaining r \<noteq> 0" using ph assms(3) np by (auto simp: read_step_def Let_def)
    then obtain n where "tr' = tr @ [EvFileRead (rd_file r) n]" "out' = out @ snd (be_file_read e tr (rd_file r) n)"
      using assms(3) np by (auto simp: read_step_def Let_def split: prod.splits if_splits)
    then show ?thesis by simp
  qed
qed

lemma read_loop_file_bytes:
  "backend_handles e \<Longrightarrow> reader_ok r \<Longrightarrow> rd_kind r = BVSTK_FS_FILE \<Longrightarrow> read_loop e capacity r tr out = (BVSTK_FS_OK, r', tr', out') \<Longrightarrow>
    \<exists>evs. tr' = tr @ evs \<and> out' = out @ file_bytes e tr evs"
proof (induction e capacity r tr out rule: read_loop.induct)
  case (1 e capacity r tr out)
  have inv: "reader_inv r" and fd: "rd_kind r = BVSTK_FS_FILE \<longrightarrow> rd_dirs r = []" using "1.prems" by (auto simp: reader_ok_def)
  show ?case
  proof (cases "length out < capacity")
    case False
    then show ?thesis using "1.prems"(4) by (simp add: read_loop.simps [of e capacity r tr out])
  next
    case lt: True
    show ?thesis
    proof (cases "read_step e capacity r tr out")
      case (Stop rc1 r1 tr1 out1)
      then have "rc1 = BVSTK_FS_OK" "r1 = r'" "tr1 = tr'" "out1 = out'" using "1.prems"(4) lt by (simp_all add: read_loop.simps [of e capacity r tr out])
      then show ?thesis using read_step_stop [OF "1.prems"(1) inv Stop] by simp
    next
      case (Again r1 tr1 out1)
      obtain a where a: "tr1 = tr @ a" "out1 = out @ file_bytes e tr a" using read_step_file_bytes [OF inv "1.prems"(3) Again] by blast
      have ok1: "reader_ok r1" "rd_kind r1 = BVSTK_FS_FILE" using read_step_again [OF "1.prems"(1) inv fd Again lt] "1.prems"(3) by (auto simp: reader_ok_def)
      have "read_loop e capacity r1 tr1 out1 = (BVSTK_FS_OK, r', tr', out')" using "1.prems"(4) lt Again by (simp add: read_loop.simps [of e capacity r tr out])
      then obtain b where "tr' = tr1 @ b" "out' = out1 @ file_bytes e tr1 b" using "1.IH" [OF lt Again "1.prems"(1) ok1] by blast
      then have "tr' = tr @ (a @ b) \<and> out' = out @ file_bytes e tr (a @ b)" using a by (simp add: file_bytes_append)
      then show ?thesis by blast
    qed
  qed
qed


lemma reader_read_file_bytes:
  assumes e: "backend_handles e" and ok: "reader_ok r" and k: "rd_kind r = BVSTK_FS_FILE" and cap: "0 < capacity"
    and rd: "bvstk_fs_reader_read e (Some r) True capacity True tr = (BVSTK_FS_OK, ro, tr', out, eof)"
  shows "\<exists>evs. tr' = tr @ evs \<and> out = file_bytes e tr evs"
proof -
  obtain rc1 r1 tr1 out1 where lp: "read_loop e capacity r tr [] = (rc1, r1, tr1, out1)" by (metis prod_cases4)
  define f where "f = (rc1 = BVSTK_FS_OK \<and> rd_phase r1 = FILE_DATA \<and> rd_remaining r1 = 0 \<and> rd_stage_offset r1 = length (rd_stage r1))"
  define X where "X = (if f then finish_file e r1 tr1 else (rc1, r1, tr1))"
  obtain rc2 r2 tr2 where X: "X = (rc2, r2, tr2)" by (cases X)
  have b: "rd_backend r" using ok by (simp add: reader_ok_def reader_inv_def)
  have eq: "rc2 = BVSTK_FS_OK" "tr' = tr2" "out = out1"
    using rd b cap lp X unfolding bvstk_fs_reader_read_def f_def X_def by (auto split: prod.splits if_splits)
  have rc1: "rc1 = BVSTK_FS_OK" using X eq unfolding X_def f_def by (auto split: if_splits)
  obtain a where a: "tr1 = tr @ a" "out1 = file_bytes e tr a" using read_loop_file_bytes [OF e ok k lp [unfolded rc1]] by auto
  show ?thesis
  proof (cases f)
    case True
    then have "tr2 = tr1 @ [EvStat (rd_path r1), EvFileClose (rd_file r1)]" using X eq finish_file_OK [of e r1 tr1 r2 tr2] unfolding X_def by simp
    then have "tr' = tr @ (a @ [EvStat (rd_path r1), EvFileClose (rd_file r1)]) \<and> out = file_bytes e tr (a @ [EvStat (rd_path r1), EvFileClose (rd_file r1)])"
      using eq a by (simp add: file_bytes_append)
    then show ?thesis by blast
  next
    case False
    then show ?thesis using X eq a unfolding X_def by auto
  qed
qed

lemma fs_stream_file_bytes:
  assumes e: "backend_handles e"
  shows "reader_ok r \<Longrightarrow> rd_kind r = BVSTK_FS_FILE \<Longrightarrow> list_all (\<lambda>c. 0 < c) caps \<Longrightarrow> fs_stream e caps r tr = (BVSTK_FS_OK, r', tr', bytes, eof) \<Longrightarrow>
    \<exists>evs. tr' = tr @ evs \<and> bytes = file_bytes e tr evs"
proof (induction caps arbitrary: r tr bytes)
  case (Cons c cs)
  obtain rc1 ro tr1 out eof1 where rd: "bvstk_fs_reader_read e (Some r) True c True tr = (rc1, ro, tr1, out, eof1)" by (metis prod_cases5)
  have c: "0 < c" using Cons.prems(3) by simp
  obtain r1 where r1: "ro = Some r1" "rc1 = BVSTK_FS_OK \<longrightarrow> reader_ok r1 \<and> same_job r r1"
    using reader_read_run [OF e Cons.prems(1) c rd] by metis
  have rc1: "rc1 = BVSTK_FS_OK" using Cons.prems(4) rd by (auto simp: Let_def split: prod.splits if_splits)
  obtain a where a: "tr1 = tr @ a" "out = file_bytes e tr a" using reader_read_file_bytes [OF e Cons.prems(1,2) c rd [unfolded rc1]] by blast
  show ?case
  proof (cases eof1)
    case True
    then show ?thesis using Cons.prems(4) rd r1 rc1 a by auto
  next
    case False
    obtain rc2 r2 tr2 out2 eof2 where s: "fs_stream e cs r1 tr1 = (rc2, r2, tr2, out2, eof2)" by (metis prod_cases5)
    have eq: "rc2 = BVSTK_FS_OK" "r2 = r'" "tr2 = tr'" "bytes = out @ out2" "eof2 = eof" using Cons.prems(4) rd r1(1) s False rc1 by simp_all
    have "rd_kind r1 = BVSTK_FS_FILE" using r1 rc1 Cons.prems(2) by (simp add: same_job_def)
    then obtain b where "tr' = tr1 @ b" "out2 = file_bytes e tr1 b"
      using Cons.IH [OF _ _ _ s [unfolded eq]] r1 rc1 Cons.prems(3) by auto
    then have "tr' = tr @ (a @ b) \<and> bytes = file_bytes e tr (a @ b)" using a eq by (simp add: file_bytes_append)
    then show ?thesis by blast
  qed
qed simp


section \<open>The guarantees of the reader\<close>

text \<open>C32: a file reader that is opened and read block by block, with any block sizes, delivers exactly the
  bytes the backend returned to its read requests, in order; when the end is reported their number
  is the size announced at opening, and until then every block is full. So the end comes with the
  last byte, never before and never after.\<close>

theorem fs_file_stream_exact:
  assumes "backend_handles e" and "bvstk_fs_reader_open e path BVSTK_FS_FILE flags tr0 = (BVSTK_FS_OK, r, tr)"
    and "list_all (\<lambda>c. 0 < c) caps" and "fs_stream e caps r tr = (BVSTK_FS_OK, r', tr', bytes, eof)"
  shows "length bytes = (if eof then unat (rd_total_size r) else sum_list caps) \<and> length bytes \<le> unat (rd_total_size r) \<and>
    (\<exists>evs. tr' = tr @ evs \<and> bytes = file_bytes e tr evs)"
proof -
  have o: "reader_ok r" "rd_kind r = BVSTK_FS_FILE" "owed r = unat (rd_total_size r)"
    using reader_open_run [OF assms(1,2)] by (auto simp: opened_well_def)
  have "length bytes + owed r' = owed r \<and> (eof \<longrightarrow> owed r' = 0) \<and> (\<not> eof \<longrightarrow> length bytes = sum_list caps)"
    using fs_stream_run [OF assms(1) o(1) assms(3,4)] o(2) by (auto simp: owed_rel_def)
  moreover have "\<exists>evs. tr' = tr @ evs \<and> bytes = file_bytes e tr evs" by (rule fs_stream_file_bytes [OF assms(1) o(1,2) assms(3,4)])
  ultimately show ?thesis using o(3) by auto
qed

text \<open>A TAR stream read to its end is a whole number of 512-byte blocks, whatever the tree, the names
  and the block sizes of the reads; until the end every block of output is full.\<close>

theorem fs_tar_stream_blocks:
  assumes "backend_handles e" and "bvstk_fs_reader_open e path BVSTK_FS_TAR flags tr0 = (BVSTK_FS_OK, r, tr)"
    and "list_all (\<lambda>c. 0 < c) caps" and "fs_stream e caps r tr = (BVSTK_FS_OK, r', tr', bytes, eof)"
  shows "if eof then 512 dvd length bytes else length bytes = sum_list caps"
proof -
  have o: "reader_ok r" "rd_kind r = BVSTK_FS_TAR" "owed r = 0"
    using reader_open_run [OF assms(1,2)] by (auto simp: opened_well_def)
  then show ?thesis using fs_stream_run [OF assms(1) o(1) assms(3,4)] by (auto simp: owed_rel_def dvd_eq_mod_eq_0)
qed

definition returned :: "fs_trace \<Rightarrow> fs_trace \<Rightarrow> bool" where
  "returned tr tr' \<longleftrightarrow> (\<exists>evs. tr' = tr @ evs \<and> files_opened evs = files_closed evs \<and> dirs_opened evs = dirs_closed evs)"

lemma accounted_returned:
  "accounted tr zero_reader tr' r \<Longrightarrow> rd_file r = 0 \<Longrightarrow> rd_dirs r = [] \<Longrightarrow> returned tr tr'"
  by (auto simp: accounted_def returned_def held_defs zero_reader_def)

text \<open>C33: a reader gives back every file and directory handle it was given, each exactly as often as it was
  opened: after a failed open, after a stream that ended or failed, and, for one that is abandoned,
  after it is closed.\<close>

theorem fs_handles_returned:
  assumes "backend_handles e" and "bvstk_fs_reader_open e path kind flags tr0 = (rc0, r, tr)"
    and "list_all (\<lambda>c. 0 < c) caps" and "fs_stream e caps r tr = (rc, r', tr', bytes, eof)"
    and "bvstk_fs_reader_close r' tr' = (r'', tr'')"
  shows "if rc0 \<noteq> BVSTK_FS_OK then returned tr0 tr
    else (rc \<noteq> BVSTK_FS_OK \<or> eof \<longrightarrow> returned tr0 tr') \<and> (rc = BVSTK_FS_OK \<longrightarrow> returned tr0 tr'')"
proof -
  have o: "accounted tr0 zero_reader tr r" "opened_well rc0 r" using reader_open_run [OF assms(1,2)] by simp_all
  show ?thesis
  proof (cases "rc0 = BVSTK_FS_OK")
    case False
    then show ?thesis using o accounted_returned by (simp add: opened_well_def)
  next
    case True
    then have ok: "reader_ok r" using o by (simp add: opened_well_def)
    note s = fs_stream_run [OF assms(1) ok assms(3,4)]
    have a: "accounted tr0 zero_reader tr' r'" using accounted_trans [OF o(1)] s by blast
    have "rc = BVSTK_FS_OK \<longrightarrow> returned tr0 tr''"
      using accounted_returned [OF accounted_trans [OF a reader_close_accounted [OF assms(5)]]] reader_close_empties [OF assms(5)] s
      by (auto simp: reader_ok_def reader_inv_def)
    then show ?thesis using True s accounted_returned [OF a] by auto
  qed
qed

section \<open>A concrete backend\<close>

text \<open>A volume with a file of three bytes, which the backend returns one at a time, in its root and an
  empty directory \<open>e\<close>.\<close>

definition demo_info :: "u8 \<Rightarrow> bvstk_fs_info_t" where
  "demo_info ty = \<lparr> fi_size = (if ty = BVSTK_FS_ENTRY_FILE then 3 else 0), fi_stamp = 7, fi_type = ty, fi_attributes = 0 \<rparr>"

definition demo_fs :: fs_env where
  "demo_fs = \<lparr>
     be_volume_count = (\<lambda>tr. 1),
     be_volume = (\<lambda>tr i. (BVSTK_FS_OK, \<lparr> vol_name = ascii ''sd0'', vol_state = 1 \<rparr>)),
     be_stat = (\<lambda>tr path. (BVSTK_FS_OK, demo_info (if path = ascii ''sd0:/e'' then BVSTK_FS_ENTRY_DIR else BVSTK_FS_ENTRY_FILE))),
     be_file_open = (\<lambda>tr path. (BVSTK_FS_OK, 1, 3)),
     be_file_read = (\<lambda>tr h n. (BVSTK_FS_OK, [ch CHR ''a'' + of_nat (length (filter (\<lambda>ev. case ev of EvFileRead h n \<Rightarrow> True | _ \<Rightarrow> False) tr))])),
     be_dir_open = (\<lambda>tr path. (BVSTK_FS_OK, 2)),
     be_dir_read = (\<lambda>tr h. (BVSTK_FS_OK, [], zero_info)) \<rparr>"

lemma demo_fs_handles: "backend_handles demo_fs"
  by (simp add: backend_handles_def demo_fs_def)

definition demo_open :: "u8 \<Rightarrow> bvstk_fs_result_t \<times> bvstk_fs_reader_t \<times> fs_trace" where
  "demo_open kind = bvstk_fs_reader_open demo_fs (if kind = BVSTK_FS_FILE then ascii ''sd0:/f'' else ascii ''sd0:/e'') kind 0 []"

definition demo_stream :: "u8 \<Rightarrow> nat list \<Rightarrow> bvstk_fs_result_t \<times> bvstk_fs_reader_t \<times> fs_trace \<times> bytes \<times> bool" where
  "demo_stream kind caps = (case demo_open kind of (rc, r, tr) \<Rightarrow> fs_stream demo_fs caps r tr)"

lemma demo_open_OK: "fst (demo_open 1) = BVSTK_FS_OK" "fst (demo_open 3) = BVSTK_FS_OK"
  by code_simp+

lemma demo_stream_file: "(case demo_stream 1 [2, 2] of (rc, r, tr, bytes, eof) \<Rightarrow> (rc, bytes, eof)) = (BVSTK_FS_OK, ascii ''abc'', True)"
  by code_simp

lemma demo_stream_tar: "\<exists>r tr bytes. demo_stream 3 [1000, 100] = (BVSTK_FS_OK, r, tr, bytes, True) \<and> length bytes = 1024"
  by (simp add: demo_stream_def demo_open_def bvstk_fs_reader_open_def open_object_def demo_fs_def demo_info_def zero_reader_def ascii_def
     bvstk_fs_reader_read_def read_loop.simps read_step_def stage_pending_def walk_step_def next_entry_def)

theorem fs_file_stream_exact_witness:
  "\<exists>r tr r' tr' bytes. bvstk_fs_reader_open demo_fs (ascii ''sd0:/f'') 1 0 [] = (BVSTK_FS_OK, r, tr) \<and>
    fs_stream demo_fs [2, 2] r tr = (BVSTK_FS_OK, r', tr', bytes, True) \<and> bytes = ascii ''abc'' \<and> length bytes = unat (rd_total_size r)"
proof -
  obtain rc r tr where o: "bvstk_fs_reader_open demo_fs (ascii ''sd0:/f'') 1 0 [] = (rc, r, tr)" by (metis prod_cases3)
  obtain rc' r' tr' bytes eof where s: "fs_stream demo_fs [2, 2] r tr = (rc', r', tr', bytes, eof)" by (metis prod_cases5)
  have "rc = BVSTK_FS_OK" using demo_open_OK(1) o by (simp add: demo_open_def)
  moreover have "rc' = BVSTK_FS_OK" "bytes = ascii ''abc''" "eof" using demo_stream_file o s by (simp_all add: demo_stream_def demo_open_def)
  ultimately show ?thesis using fs_file_stream_exact [OF demo_fs_handles _ _ s [unfolded \<open>rc' = BVSTK_FS_OK\<close>]] o s by auto
qed

theorem fs_tar_stream_blocks_witness:
  "\<exists>r tr r' tr' bytes. bvstk_fs_reader_open demo_fs (ascii ''sd0:/e'') 3 0 [] = (BVSTK_FS_OK, r, tr) \<and>
    fs_stream demo_fs [1000, 100] r tr = (BVSTK_FS_OK, r', tr', bytes, True) \<and> 512 dvd length bytes"
proof -
  obtain rc r tr where o: "bvstk_fs_reader_open demo_fs (ascii ''sd0:/e'') 3 0 [] = (rc, r, tr)" by (metis prod_cases3)
  have rc: "rc = BVSTK_FS_OK" using demo_open_OK(2) o by (simp add: demo_open_def)
  obtain r' tr' bytes where s: "fs_stream demo_fs [1000, 100] r tr = (BVSTK_FS_OK, r', tr', bytes, True)"
    using demo_stream_tar o by (auto simp: demo_stream_def demo_open_def)
  then show ?thesis using fs_tar_stream_blocks [OF demo_fs_handles o [unfolded rc] _ s] o rc by auto
qed

theorem fs_handles_returned_witness:
  "\<exists>r tr r' tr' bytes. bvstk_fs_reader_open demo_fs (ascii ''sd0:/f'') 1 0 [] = (BVSTK_FS_OK, r, tr) \<and>
    fs_stream demo_fs [2, 2] r tr = (BVSTK_FS_OK, r', tr', bytes, True) \<and> returned [] tr'"
proof -
  obtain rc r tr where o: "bvstk_fs_reader_open demo_fs (ascii ''sd0:/f'') 1 0 [] = (rc, r, tr)" by (metis prod_cases3)
  obtain rc' r' tr' bytes eof where s: "fs_stream demo_fs [2, 2] r tr = (rc', r', tr', bytes, eof)" by (metis prod_cases5)
  obtain r'' tr'' where c: "bvstk_fs_reader_close r' tr' = (r'', tr'')" by (metis surj_pair)
  have "rc = BVSTK_FS_OK" using demo_open_OK(1) o by (simp add: demo_open_def)
  moreover have "rc' = BVSTK_FS_OK" "eof" using demo_stream_file o s by (simp_all add: demo_stream_def demo_open_def)
  ultimately show ?thesis using fs_handles_returned [OF demo_fs_handles o _ s c] o s by auto
qed

end
