(* ===== verification/Dcp2_Fs.thy ===== *)
theory Dcp2_Fs
  imports Fs_Stream Dcp2_Codec
begin

text \<open>
  The DCP2 file service of \<open>src/protocols/dcp2/bvstk_dcp2_fs.c\<close>: two transfer handles per session, each a
  reader with its last block cached for retransmission. The trace and the environment are those of
  the reader. A response is its status and its body; the body is empty when the status is not OK, as
  \<open>*out_size\<close> is 0 then. \<open>cached[0 .. cached_size)\<close> is the list \<open>fh_cached\<close>.
\<close>

section \<open>State\<close>

abbreviation (input) FS_OK :: u16 where "FS_OK \<equiv> 0"
abbreviation (input) FS_MALFORMED :: u16 where "FS_MALFORMED \<equiv> 1"
abbreviation (input) FS_UNSUPPORTED :: u16 where "FS_UNSUPPORTED \<equiv> 2"
abbreviation (input) FS_BUSY :: u16 where "FS_BUSY \<equiv> 4"
abbreviation (input) FS_RANGE :: u16 where "FS_RANGE \<equiv> 6"
abbreviation (input) FS_INTERNAL :: u16 where "FS_INTERNAL \<equiv> 7"
abbreviation (input) BVSTK_DCP2_FS_NOT_FOUND :: u16 where "BVSTK_DCP2_FS_NOT_FOUND \<equiv> 0x0100"
abbreviation (input) BVSTK_DCP2_FS_NOT_READY :: u16 where "BVSTK_DCP2_FS_NOT_READY \<equiv> 0x0101"
abbreviation (input) BVSTK_DCP2_FS_BAD_HANDLE :: u16 where "BVSTK_DCP2_FS_BAD_HANDLE \<equiv> 0x0102"
abbreviation (input) BVSTK_DCP2_FS_TYPE_ERROR :: u16 where "BVSTK_DCP2_FS_TYPE_ERROR \<equiv> 0x0103"
abbreviation (input) BVSTK_DCP2_FS_IO_ERROR :: u16 where "BVSTK_DCP2_FS_IO_ERROR \<equiv> 0x0104"
abbreviation (input) BVSTK_DCP2_FS_CHANGED :: u16 where "BVSTK_DCP2_FS_CHANGED \<equiv> 0x0105"
abbreviation (input) BVSTK_DCP2_FS_BLOCK_MAX :: u16 where "BVSTK_DCP2_FS_BLOCK_MAX \<equiv> 3072"
abbreviation (input) BVSTK_DCP2_FS_HANDLES_MAX :: nat where "BVSTK_DCP2_FS_HANDLES_MAX \<equiv> 2"
abbreviation (input) BVSTK_DCP2_FS_IDLE_MS :: u32 where "BVSTK_DCP2_FS_IDLE_MS \<equiv> 30000"
abbreviation (input) BVSTK_DCP2_FS_INFO :: u8 where "BVSTK_DCP2_FS_INFO \<equiv> 0"
abbreviation (input) BVSTK_DCP2_FS_STAT :: u8 where "BVSTK_DCP2_FS_STAT \<equiv> 1"
abbreviation (input) BVSTK_DCP2_FS_OPEN :: u8 where "BVSTK_DCP2_FS_OPEN \<equiv> 2"
abbreviation (input) BVSTK_DCP2_FS_READ :: u8 where "BVSTK_DCP2_FS_READ \<equiv> 3"
abbreviation (input) BVSTK_DCP2_FS_CLOSE :: u8 where "BVSTK_DCP2_FS_CLOSE \<equiv> 4"

record bvstk_dcp2_fs_handle_t =
  fh_reader :: bvstk_fs_reader_t
  fh_handle :: u32
  fh_open_id :: u32
  fh_last_activity :: u32
  fh_last_block :: u32
  fh_requested_block_size :: u16
  fh_block_size :: u16
  fh_cached :: bytes
  fh_terminal_status :: u16
  fh_has_block :: bool
  fh_eof :: bool

record bvstk_dcp2_fs_session_t =
  fs_backend :: bool
  fs_next_handle :: u32
  fs_handles :: "bvstk_dcp2_fs_handle_t list"

definition zero_fs_handle :: bvstk_dcp2_fs_handle_t where
  "zero_fs_handle = \<lparr> fh_reader = zero_reader, fh_handle = 0, fh_open_id = 0, fh_last_activity = 0, fh_last_block = 0,
     fh_requested_block_size = 0, fh_block_size = 0, fh_cached = [], fh_terminal_status = 0, fh_has_block = False, fh_eof = False \<rparr>"

fun wire_status :: "bvstk_fs_result_t \<Rightarrow> u16" where
  "wire_status BVSTK_FS_OK = FS_OK"
| "wire_status BVSTK_FS_INVALID = FS_MALFORMED"
| "wire_status BVSTK_FS_RANGE = FS_RANGE"
| "wire_status BVSTK_FS_NOT_FOUND = BVSTK_DCP2_FS_NOT_FOUND"
| "wire_status BVSTK_FS_NOT_READY = BVSTK_DCP2_FS_NOT_READY"
| "wire_status BVSTK_FS_TYPE_ERROR = BVSTK_DCP2_FS_TYPE_ERROR"
| "wire_status BVSTK_FS_IO = BVSTK_DCP2_FS_IO_ERROR"
| "wire_status BVSTK_FS_CHANGED = BVSTK_DCP2_FS_CHANGED"
| "wire_status BVSTK_FS_BUSY = FS_BUSY"
| "wire_status BVSTK_FS_UNSUPPORTED = FS_UNSUPPORTED"

definition close_handle :: "bvstk_dcp2_fs_handle_t \<Rightarrow> fs_trace \<Rightarrow> bvstk_dcp2_fs_handle_t \<times> fs_trace" where
  "close_handle h tr = (zero_fs_handle, if fh_handle h \<noteq> 0 then snd (bvstk_fs_reader_close (fh_reader h) tr) else tr)"

definition bvstk_dcp2_fs_init :: "bool \<Rightarrow> bvstk_dcp2_fs_session_t" where
  "bvstk_dcp2_fs_init backend = \<lparr> fs_backend = backend, fs_next_handle = 1, fs_handles = replicate BVSTK_DCP2_FS_HANDLES_MAX zero_fs_handle \<rparr>"

text \<open>The loops over the handles.\<close>

fun destroy_scan :: "bvstk_dcp2_fs_handle_t list \<Rightarrow> fs_trace \<Rightarrow> bvstk_dcp2_fs_handle_t list \<times> fs_trace" where
  "destroy_scan [] tr = ([], tr)"
| "destroy_scan (h # hs) tr = (case close_handle h tr of (h1, tr1) \<Rightarrow> case destroy_scan hs tr1 of (hs2, tr2) \<Rightarrow> (h1 # hs2, tr2))"

definition bvstk_dcp2_fs_destroy :: "bvstk_dcp2_fs_session_t \<Rightarrow> fs_trace \<Rightarrow> bvstk_dcp2_fs_session_t \<times> fs_trace" where
  "bvstk_dcp2_fs_destroy s tr = (case destroy_scan (fs_handles s) tr of (hs, tr1) \<Rightarrow> (s\<lparr>fs_handles := hs\<rparr>, tr1))"

fun expire_scan :: "u32 \<Rightarrow> bvstk_dcp2_fs_handle_t list \<Rightarrow> fs_trace \<Rightarrow> bvstk_dcp2_fs_handle_t list \<times> fs_trace" where
  "expire_scan now [] tr = ([], tr)"
| "expire_scan now (h # hs) tr =
    (case (if fh_handle h \<noteq> 0 \<and> now - fh_last_activity h \<ge> BVSTK_DCP2_FS_IDLE_MS then close_handle h tr else (h, tr)) of
       (h1, tr1) \<Rightarrow> case expire_scan now hs tr1 of (hs2, tr2) \<Rightarrow> (h1 # hs2, tr2))"

definition bvstk_dcp2_fs_expire :: "bvstk_dcp2_fs_session_t \<Rightarrow> u32 \<Rightarrow> fs_trace \<Rightarrow> bvstk_dcp2_fs_session_t \<times> fs_trace" where
  "bvstk_dcp2_fs_expire s now tr = (case expire_scan now (fs_handles s) tr of (hs, tr1) \<Rightarrow> (s\<lparr>fs_handles := hs\<rparr>, tr1))"

section \<open>Requests\<close>

definition parse_path :: "bytes \<Rightarrow> u16 \<times> cstr" where
  "parse_path body =
    (if length body < 2 then (FS_MALFORMED, [])
     else if length body \<noteq> unat (get16 body) + 2 then (FS_MALFORMED, [])
     else (case bvstk_fs_validate_path (Some (drop 2 body)) True BVSTK_FS_PATH_CAPACITY of
         (rc, p) \<Rightarrow> (wire_status rc, case p of Some q \<Rightarrow> q | None \<Rightarrow> [])))"

text \<open>The loop over the volumes: the entries so far end at \<open>offset\<close>.\<close>

fun volume_entries :: "fs_env \<Rightarrow> nat \<Rightarrow> nat \<Rightarrow> nat \<Rightarrow> nat \<Rightarrow> fs_trace \<Rightarrow> u16 \<times> fs_trace \<times> bytes" where
  "volume_entries e 0 i capacity offset tr = (FS_OK, tr, [])"
| "volume_entries e (Suc n) i capacity offset tr =
    (case be_volume e tr i of (rc, v) \<Rightarrow>
       let tr1 = tr @ [EvVolume i]; len = length (vol_name v) in
       if wire_status rc \<noteq> 0 then (wire_status rc, tr1, [])
       else if len = 0 \<or> len \<ge> 16 \<or> offset + 2 + len > capacity then (FS_INTERNAL, tr1, [])
       else (case volume_entries e n (i + 1) capacity (offset + 2 + len) tr1 of
           (st, tr2, rest) \<Rightarrow> (st, tr2, [vol_state v, of_nat len] @ vol_name v @ rest)))"

definition info_response :: "fs_env \<Rightarrow> nat \<Rightarrow> fs_trace \<Rightarrow> u16 \<times> fs_trace \<times> bytes" where
  "info_response e capacity tr =
    (let count = be_volume_count e tr; tr1 = tr @ [EvVolumeCount] in
     if capacity < 20 \<or> count > 65535 then (FS_INTERNAL, tr1, [])
     else (case volume_entries e count 0 capacity 20 tr1 of (st, tr2, entries) \<Rightarrow>
       if st \<noteq> FS_OK then (st, tr2, [])
       else (FS_OK, tr2, be16 1 @ be32 0x3F @ be16 BVSTK_DCP2_FS_BLOCK_MAX @ be16 511 @ be16 16 @ be16 2 @
               be32 BVSTK_DCP2_FS_IDLE_MS @ be16 (of_nat count) @ entries)))"

text \<open>The slot for an open: \<open>None\<close> when the open id is in use with other parameters, otherwise the slot of
  the same open, the first free slot or none.\<close>

fun open_scan :: "u32 \<Rightarrow> u8 \<Rightarrow> u8 \<Rightarrow> u16 \<Rightarrow> cstr \<Rightarrow> nat \<Rightarrow> nat option \<Rightarrow> bvstk_dcp2_fs_handle_t list \<Rightarrow> nat option option" where
  "open_scan open_id kind flags requested path i slot [] = Some slot"
| "open_scan open_id kind flags requested path i slot (h # hs) =
    (if fh_handle h \<noteq> 0 \<and> fh_open_id h = open_id then
       (if rd_kind (fh_reader h) \<noteq> kind \<or> rd_flags (fh_reader h) \<noteq> flags \<or> fh_requested_block_size h \<noteq> requested \<or> rd_root (fh_reader h) \<noteq> path
        then None else Some (Some i))
     else open_scan open_id kind flags requested path (i + 1) (if fh_handle h = 0 \<and> slot = None then Some i else slot) hs)"

definition open_body :: "bvstk_dcp2_fs_handle_t \<Rightarrow> bytes" where
  "open_body h = be32 (fh_handle h) @ be16 (fh_block_size h) @ be64 (rd_total_size (fh_reader h))"

text \<open>The end of \<open>open_response\<close>, for the slot the loop has found.\<close>

definition open_slot ::
    "fs_env \<Rightarrow> bvstk_dcp2_fs_session_t \<Rightarrow> nat \<Rightarrow> u32 \<Rightarrow> u8 \<Rightarrow> u8 \<Rightarrow> u16 \<Rightarrow> cstr \<Rightarrow> u32 \<Rightarrow> fs_trace \<Rightarrow> u16 \<times> bvstk_dcp2_fs_session_t \<times> fs_trace \<times> bytes" where
  "open_slot e s i open_id kind flags requested path now tr =
    (if fh_handle (fs_handles s ! i) = 0 then
       (case bvstk_fs_reader_open e path kind flags tr of (rc, r, tr1) \<Rightarrow>
          if wire_status rc \<noteq> 0 then (wire_status rc, s\<lparr>fs_handles := (fs_handles s)[i := zero_fs_handle]\<rparr>, tr1, [])
          else
            let h = (fs_handles s ! i)\<lparr>fh_reader := r, fh_handle := fs_next_handle s, fh_open_id := open_id,
                      fh_requested_block_size := requested,
                      fh_block_size := (if requested \<noteq> 0 then requested else BVSTK_DCP2_FS_BLOCK_MAX), fh_last_activity := now\<rparr>
            in (FS_OK, s\<lparr>fs_handles := (fs_handles s)[i := h], fs_next_handle := fs_next_handle s + 1\<rparr>, tr1, open_body h))
     else
       let h = (fs_handles s ! i)\<lparr>fh_last_activity := now\<rparr>
       in (FS_OK, s\<lparr>fs_handles := (fs_handles s)[i := h]\<rparr>, tr, open_body h))"

definition open_response :: "fs_env \<Rightarrow> bvstk_dcp2_fs_session_t \<Rightarrow> bytes \<Rightarrow> u32 \<Rightarrow> nat \<Rightarrow> fs_trace \<Rightarrow> u16 \<times> bvstk_dcp2_fs_session_t \<times> fs_trace \<times> bytes" where
  "open_response e s body now capacity tr =
    (if length body < 10 then (FS_MALFORMED, s, tr, [])
     else if capacity < 14 then (FS_INTERNAL, s, tr, [])
     else
       let open_id = get32 body; requested = get16 (drop 6 body); kind = body ! 4; flags = body ! 5 in
       if open_id = 0 then (FS_MALFORMED, s, tr, [])
       else if requested > BVSTK_DCP2_FS_BLOCK_MAX then (FS_RANGE, s, tr, [])
       else if kind < BVSTK_FS_FILE \<or> kind > BVSTK_FS_TAR then (FS_UNSUPPORTED, s, tr, [])
       else if kind \<noteq> BVSTK_FS_TREE \<and> flags \<noteq> 0 \<or> flags AND NOT BVSTK_FS_RECURSIVE \<noteq> 0 then (FS_MALFORMED, s, tr, [])
       else (case parse_path (drop 8 body) of (status, path) \<Rightarrow>
         if status \<noteq> 0 then (status, s, tr, [])
         else (case open_scan open_id kind flags requested path 0 None (fs_handles s) of
             None \<Rightarrow> (FS_MALFORMED, s, tr, [])
           | Some None \<Rightarrow> (FS_BUSY, s, tr, [])
           | Some (Some i) \<Rightarrow>
               if fs_next_handle s = 0 then (FS_BUSY, s, tr, [])
               else open_slot e s i open_id kind flags requested path now tr)))"

definition block_body :: "bvstk_dcp2_fs_handle_t \<Rightarrow> u32 \<Rightarrow> bytes" where
  "block_body h block = be32 (fh_handle h) @ be32 block @ [if fh_eof h then 1 else 0, 0] @ be16 (of_nat (length (fh_cached h))) @ fh_cached h"

definition read_response :: "fs_env \<Rightarrow> bvstk_dcp2_fs_handle_t \<Rightarrow> u32 \<Rightarrow> nat \<Rightarrow> fs_trace \<Rightarrow> u16 \<times> bvstk_dcp2_fs_handle_t \<times> fs_trace \<times> bytes" where
  "read_response e h block capacity tr =
    (if capacity < unat (fh_block_size h) + 12 then (FS_INTERNAL, h, tr, [])
     else if fh_terminal_status h \<noteq> 0 then (fh_terminal_status h, h, tr, [])
     else if fh_has_block h \<and> block = fh_last_block h then (FS_OK, h, tr, block_body h block)
     else if \<not> fh_has_block h \<and> block \<noteq> 0 \<or>
       fh_has_block h \<and> (fh_eof h \<or> fh_last_block h = - 1 \<or> block \<noteq> fh_last_block h + 1) then (FS_RANGE, h, tr, [])
     else (case bvstk_fs_reader_read e (Some (fh_reader h)) True (unat (fh_block_size h)) True tr of
         (rc, ro, tr1, data, eof) \<Rightarrow>
           let h1 = (case ro of Some r \<Rightarrow> h\<lparr>fh_reader := r\<rparr> | None \<Rightarrow> h) in
           if wire_status rc \<noteq> 0 then
             let status = (if wire_status rc = FS_BUSY then BVSTK_DCP2_FS_IO_ERROR else wire_status rc)
             in (status, h1\<lparr>fh_terminal_status := status\<rparr>, tr1, [])
           else
             let h2 = h1\<lparr>fh_last_block := block, fh_has_block := True, fh_cached := data, fh_eof := eof\<rparr>
             in (FS_OK, h2, tr1, block_body h2 block)))"

definition stat_response :: "fs_env \<Rightarrow> bytes \<Rightarrow> nat \<Rightarrow> fs_trace \<Rightarrow> u16 \<times> fs_trace \<times> bytes" where
  "stat_response e body capacity tr =
    (case parse_path body of (status, path) \<Rightarrow>
       if status \<noteq> 0 then (status, tr, [])
       else if capacity < 10 then (FS_INTERNAL, tr, [])
       else (case be_stat e tr path of (rc, info) \<Rightarrow>
         let tr1 = tr @ [EvStat path] in
         if wire_status rc \<noteq> 0 then (wire_status rc, tr1, [])
         else (FS_OK, tr1, [fi_type info, fi_attributes info] @ be64 (if fi_type info = BVSTK_FS_ENTRY_DIR then 0 else fi_size info))))"

fun handle_scan :: "u32 \<Rightarrow> nat \<Rightarrow> bvstk_dcp2_fs_handle_t list \<Rightarrow> nat option" where
  "handle_scan n i [] = None"
| "handle_scan n i (h # hs) = (if fh_handle h = n then Some i else handle_scan n (i + 1) hs)"

text \<open>\<open>args\<close> stands for the tests of the pointers other than \<open>body\<close>.\<close>

definition bvstk_dcp2_fs_request ::
    "fs_env \<Rightarrow> bvstk_dcp2_fs_session_t \<Rightarrow> bool \<Rightarrow> u8 \<Rightarrow> bytes option \<Rightarrow> nat \<Rightarrow> u32 \<Rightarrow> nat \<Rightarrow> fs_trace \<Rightarrow>
     u16 \<times> bvstk_dcp2_fs_session_t \<times> fs_trace \<times> bytes" where
  "bvstk_dcp2_fs_request e s args opcode body sz now capacity tr =
    (if \<not> args \<or> \<not> fs_backend s \<or> body = None \<and> sz \<noteq> 0 then (FS_INTERNAL, s, tr, [])
     else
       let b = (case body of Some b \<Rightarrow> take sz b | None \<Rightarrow> []) in
       case bvstk_dcp2_fs_expire s now tr of (s1, tr1) \<Rightarrow>
         if opcode = BVSTK_DCP2_FS_INFO then
           if sz \<noteq> 0 then (FS_MALFORMED, s1, tr1, [])
           else (case info_response e capacity tr1 of (st, tr2, out) \<Rightarrow> (st, s1, tr2, out))
         else if opcode = BVSTK_DCP2_FS_STAT then (case stat_response e b capacity tr1 of (st, tr2, out) \<Rightarrow> (st, s1, tr2, out))
         else if opcode = BVSTK_DCP2_FS_OPEN then open_response e s1 b now capacity tr1
         else if opcode \<noteq> BVSTK_DCP2_FS_READ \<and> opcode \<noteq> BVSTK_DCP2_FS_CLOSE then (FS_UNSUPPORTED, s1, tr1, [])
         else if sz \<noteq> (if opcode = BVSTK_DCP2_FS_READ then 8 else 4) then (FS_MALFORMED, s1, tr1, [])
         else if get32 b = 0 then (BVSTK_DCP2_FS_BAD_HANDLE, s1, tr1, [])
         else (case handle_scan (get32 b) 0 (fs_handles s1) of
             None \<Rightarrow> (if opcode = BVSTK_DCP2_FS_CLOSE then FS_OK else BVSTK_DCP2_FS_BAD_HANDLE, s1, tr1, [])
           | Some i \<Rightarrow>
               if opcode = BVSTK_DCP2_FS_CLOSE then
                 (case close_handle (fs_handles s1 ! i) tr1 of (h, tr2) \<Rightarrow> (FS_OK, s1\<lparr>fs_handles := (fs_handles s1)[i := h]\<rparr>, tr2, []))
               else
                 (case read_response e ((fs_handles s1 ! i)\<lparr>fh_last_activity := now\<rparr>) (get32 (drop 4 b)) capacity tr1 of
                    (st, h, tr2, out) \<Rightarrow> (st, s1\<lparr>fs_handles := (fs_handles s1)[i := h]\<rparr>, tr2, out))))"

section \<open>Handles of a session\<close>

definition held_all :: "(bvstk_fs_reader_t \<Rightarrow> nat multiset) \<Rightarrow> bvstk_dcp2_fs_handle_t list \<Rightarrow> nat multiset" where
  "held_all f hs = (\<Sum>h\<leftarrow>hs. f (fh_reader h))"

definition session_accounted :: "fs_trace \<Rightarrow> bvstk_dcp2_fs_handle_t list \<Rightarrow> fs_trace \<Rightarrow> bvstk_dcp2_fs_handle_t list \<Rightarrow> bool" where
  "session_accounted tr hs tr' hs' \<longleftrightarrow> (\<exists>evs. tr' = tr @ evs \<and>
     held_all held_files hs + files_opened evs = files_closed evs + held_all held_files hs' \<and>
     held_all held_dirs hs + dirs_opened evs = dirs_closed evs + held_all held_dirs hs')"

lemma held_all_update:
  assumes "i < length hs"
  shows "held_all f (hs[i := h]) + f (fh_reader (hs ! i)) = held_all f hs + f (fh_reader h)"
proof -
  have "hs = take i hs @ hs ! i # drop (Suc i) hs" using assms by (simp add: id_take_nth_drop)
  moreover have "hs[i := h] = take i hs @ h # drop (Suc i) hs" using assms by (simp add: upd_conv_take_nth_drop)
  ultimately have "held_all f (hs[i := h]) = held_all f (take i hs) + f (fh_reader h) + held_all f (drop (Suc i) hs)"
    "held_all f hs = held_all f (take i hs) + f (fh_reader (hs ! i)) + held_all f (drop (Suc i) hs)"
    unfolding held_all_def by (metis (no_types, lifting) add.assoc list.simps(9) map_append sum_list.Cons sum_list_append)+
  then show ?thesis by (simp add: ac_simps)
qed

lemma session_accounted_refl: "session_accounted tr hs tr hs"
  by (simp add: session_accounted_def)

lemma session_accounted_trans:
  assumes "session_accounted tr hs tr1 hs1" "session_accounted tr1 hs1 tr2 hs2"
  shows "session_accounted tr hs tr2 hs2"
proof -
  have sum: "A + (x + y) = u + v + C" if "A + x = u + B" "B + y = v + C" for A B C x y u v :: "nat multiset"
    using that by (metis (no_types, lifting) add.assoc add.commute)
  obtain a b where a: "tr1 = tr @ a" "held_all held_files hs + files_opened a = files_closed a + held_all held_files hs1"
      "held_all held_dirs hs + dirs_opened a = dirs_closed a + held_all held_dirs hs1"
    and b: "tr2 = tr1 @ b" "held_all held_files hs1 + files_opened b = files_closed b + held_all held_files hs2"
      "held_all held_dirs hs1 + dirs_opened b = dirs_closed b + held_all held_dirs hs2"
    using assms unfolding session_accounted_def by blast
  then show ?thesis using sum [OF a(2) b(2)] sum [OF a(3) b(3)] unfolding session_accounted_def by auto
qed

lemma session_accounted_update:
  assumes "i < length hs" and "accounted tr (fh_reader (hs ! i)) tr' (fh_reader h)"
  shows "session_accounted tr hs tr' (hs[i := h])"
proof -
  have sum: "A + x = y + B" if "B + a = A + b" "a + x = y + b" for A B a b x y :: "nat multiset"
  proof -
    have "A + x + a = y + B + a" using that by (metis (no_types, lifting) add.assoc add.commute)
    then show ?thesis by simp
  qed
  obtain evs where "tr' = tr @ evs" "held_files (fh_reader (hs ! i)) + files_opened evs = files_closed evs + held_files (fh_reader h)"
    "held_dirs (fh_reader (hs ! i)) + dirs_opened evs = dirs_closed evs + held_dirs (fh_reader h)" using assms(2) unfolding accounted_def by blast
  then show ?thesis using sum [OF held_all_update [OF assms(1), of held_files h]] sum [OF held_all_update [OF assms(1), of held_dirs h]]
    unfolding session_accounted_def by blast
qed

lemma session_accounted_Cons:
  assumes "accounted tr (fh_reader h) tr1 (fh_reader h1)" "session_accounted tr1 hs tr2 hs2"
  shows "session_accounted tr (h # hs) tr2 (h1 # hs2)"
proof -
  have one: "session_accounted tr (h # hs) tr1 (h1 # hs)" using session_accounted_update [of 0 "h # hs" tr tr1 h1] assms(1) by simp
  have "session_accounted tr1 (h1 # hs) tr2 (h1 # hs2)" using assms(2) unfolding session_accounted_def held_all_def by (auto simp: ac_simps)
  with one show ?thesis by (rule session_accounted_trans)
qed

section \<open>The invariant\<close>

definition handle_inv :: "bvstk_dcp2_fs_handle_t \<Rightarrow> bool" where
  "handle_inv h \<longleftrightarrow> (if fh_handle h = 0 then h = zero_fs_handle
     else fh_open_id h \<noteq> 0 \<and> 0 < fh_block_size h \<and> fh_block_size h \<le> BVSTK_DCP2_FS_BLOCK_MAX \<and> length (fh_cached h) \<le> unat (fh_block_size h) \<and>
       rd_backend (fh_reader h) \<and>
       (if fh_terminal_status h = 0 then reader_ok (fh_reader h) else rd_file (fh_reader h) = 0 \<and> rd_dirs (fh_reader h) = []))"

definition session_inv :: "bvstk_dcp2_fs_session_t \<Rightarrow> bool" where
  "session_inv s \<longleftrightarrow> fs_backend s \<and> length (fs_handles s) = BVSTK_DCP2_FS_HANDLES_MAX \<and> list_all handle_inv (fs_handles s) \<and>
     distinct (filter (\<lambda>n. n \<noteq> 0) (map fh_handle (fs_handles s))) \<and> distinct (filter (\<lambda>n. n \<noteq> 0) (map fh_open_id (fs_handles s))) \<and>
     list_all (\<lambda>h. fs_next_handle s = 0 \<or> fh_handle h < fs_next_handle s) (fs_handles s)"

lemma close_handle_run:
  assumes "handle_inv h" "close_handle h tr = (h', tr')"
  shows "h' = zero_fs_handle \<and> accounted tr (fh_reader h) tr' (fh_reader h')"
proof (cases "fh_handle h = 0")
  case True
  then show ?thesis using assms by (auto simp: handle_inv_def close_handle_def intro: accounted_refl)
next
  case False
  obtain r tr1 where c: "bvstk_fs_reader_close (fh_reader h) tr = (r, tr1)" by (metis surj_pair)
  have "rd_file r = 0" "rd_dirs r = []" using reader_close_empties [OF c] assms(1) False by (auto simp: handle_inv_def)
  then have "accounted tr (fh_reader h) tr1 zero_reader" using accounted_update [OF reader_close_accounted [OF c]] by (simp add: zero_reader_def)
  then show ?thesis using assms(2) c False by (auto simp: close_handle_def zero_fs_handle_def)
qed

lemma zero_handle_inv: "handle_inv zero_fs_handle"
  by (simp add: handle_inv_def zero_fs_handle_def)

definition expired :: "u32 \<Rightarrow> bvstk_dcp2_fs_handle_t \<Rightarrow> bool" where
  "expired now h \<longleftrightarrow> fh_handle h \<noteq> 0 \<and> now - fh_last_activity h \<ge> BVSTK_DCP2_FS_IDLE_MS"

text \<open>Closing a reader only produces close events, so it reads nothing.\<close>

definition is_close :: "fs_event \<Rightarrow> bool" where
  "is_close ev \<longleftrightarrow> (case ev of EvFileClose h \<Rightarrow> True | EvDirClose h \<Rightarrow> True | _ \<Rightarrow> False)"

lemma is_close_simps [simp]: "is_close (EvFileClose h)" "is_close (EvDirClose h)"
  by (simp_all add: is_close_def)

lemma close_dirs_events: "\<exists>evs. close_dirs ds tr = tr @ evs \<and> list_all is_close evs"
proof (induction ds arbitrary: tr)
  case (Cons d ds)
  from Cons.IH [of "tr @ [EvDirClose (ds_handle d)]"] obtain evs where
    "close_dirs ds (tr @ [EvDirClose (ds_handle d)]) = (tr @ [EvDirClose (ds_handle d)]) @ evs" "list_all is_close evs" by blast
  then show ?case by (intro exI [of _ "EvDirClose (ds_handle d) # evs"]) simp
qed simp

lemma close_handle_events: "close_handle h tr = (h', tr') \<Longrightarrow> \<exists>evs. tr' = tr @ evs \<and> list_all is_close evs"
proof -
  assume "close_handle h tr = (h', tr')"
  moreover obtain evs where "close_dirs (rd_dirs (fh_reader h)) (tr @ [EvFileClose (rd_file (fh_reader h))]) = (tr @ [EvFileClose (rd_file (fh_reader h))]) @ evs"
    "list_all is_close evs" using close_dirs_events by blast
  moreover obtain evs' where "close_dirs (rd_dirs (fh_reader h)) tr = tr @ evs'" "list_all is_close evs'" using close_dirs_events by blast
  ultimately show ?thesis by (auto simp: close_handle_def bvstk_fs_reader_close_def Let_def split: if_splits)
qed

lemma expire_scan_run:
  "list_all handle_inv hs \<Longrightarrow> expire_scan now hs tr = (hs', tr') \<Longrightarrow>
    hs' = map (\<lambda>h. if expired now h then zero_fs_handle else h) hs \<and> session_accounted tr hs tr' hs' \<and> (\<exists>evs. tr' = tr @ evs \<and> list_all is_close evs)"
proof (induction hs arbitrary: tr hs' tr')
  case (Cons h hs)
  define X where "X = (if expired now h then close_handle h tr else (h, tr))"
  obtain h1 tr1 where X: "X = (h1, tr1)" by (cases X)
  have inv: "handle_inv h" "list_all handle_inv hs" using Cons.prems(1) by simp_all
  have h1: "h1 = (if expired now h then zero_fs_handle else h)" "accounted tr (fh_reader h) tr1 (fh_reader h1)" "\<exists>evs. tr1 = tr @ evs \<and> list_all is_close evs"
    using X close_handle_run [OF inv(1), of tr h1 tr1] close_handle_events [of h tr h1 tr1] unfolding X_def
    by (auto intro: accounted_refl split: if_splits)
  obtain hs2 tr2 where r: "expire_scan now hs tr1 = (hs2, tr2)" by (metis surj_pair)
  have eq: "hs' = h1 # hs2" "tr' = tr2" using Cons.prems(2) X r unfolding X_def expired_def by simp_all
  note ih = Cons.IH [OF inv(2) r]
  have "session_accounted tr (h # hs) tr' hs'" unfolding eq using h1(2) ih by (blast intro: session_accounted_Cons)
  moreover have "\<exists>evs. tr' = tr @ evs \<and> list_all is_close evs" using h1(3) ih eq by force
  ultimately show ?case using ih h1(1) eq by simp
qed (auto intro: session_accounted_refl)

lemma session_inv_cases:
  assumes "session_inv s"
  obtains a b where "fs_handles s = [a, b]"
  using assms by (auto simp: session_inv_def numeral_2_eq_2 length_Suc_conv)

lemma session_inv_zero:
  assumes "session_inv s"
  shows "session_inv (s\<lparr>fs_handles := map (\<lambda>h. if P h then zero_fs_handle else h) (fs_handles s)\<rparr>)"
proof -
  obtain a b where ab: "fs_handles s = [a, b]" using assms by (rule session_inv_cases)
  have z: "fh_handle zero_fs_handle = 0" "fh_open_id zero_fs_handle = 0" by (simp_all add: zero_fs_handle_def)
  have lt: "fs_next_handle s = 0 \<or> 0 < fs_next_handle s" using word_neq_0_conv by blast
  show ?thesis using assms ab lt by (cases "P a"; cases "P b") (auto simp: session_inv_def z zero_handle_inv)
qed

lemma expire_run:
  assumes "session_inv s" "bvstk_dcp2_fs_expire s now tr = (s', tr')"
  shows "session_inv s' \<and> s' = s\<lparr>fs_handles := map (\<lambda>h. if expired now h then zero_fs_handle else h) (fs_handles s)\<rparr> \<and>
    session_accounted tr (fs_handles s) tr' (fs_handles s') \<and> (\<exists>evs. tr' = tr @ evs \<and> list_all is_close evs)"
proof -
  obtain hs tr1 where r: "expire_scan now (fs_handles s) tr = (hs, tr1)" by (metis surj_pair)
  have "list_all handle_inv (fs_handles s)" using assms(1) by (simp add: session_inv_def)
  from expire_scan_run [OF this r] show ?thesis using assms r session_inv_zero [OF assms(1), of "expired now"] by (auto simp: bvstk_dcp2_fs_expire_def)
qed

lemma wire_status_zero: "wire_status rc = 0 \<longleftrightarrow> rc = BVSTK_FS_OK"
  by (cases rc) simp_all

lemma read_response_run:
  assumes e: "backend_handles e" and inv: "handle_inv h" and live: "fh_handle h \<noteq> 0" and rd: "read_response e h block capacity tr = (st, h', tr', out)"
  shows "handle_inv h' \<and> fh_handle h' = fh_handle h \<and> fh_open_id h' = fh_open_id h \<and> accounted tr (fh_reader h) tr' (fh_reader h')"
proof -
  have hi: "fh_open_id h \<noteq> 0" "0 < fh_block_size h" "fh_block_size h \<le> BVSTK_DCP2_FS_BLOCK_MAX" "rd_backend (fh_reader h)" using inv live by (auto simp: handle_inv_def)
  obtain rc ro tr1 data eof where r: "bvstk_fs_reader_read e (Some (fh_reader h)) True (unat (fh_block_size h)) True tr = (rc, ro, tr1, data, eof)"
    by (metis prod_cases5)
  have pos: "0 < unat (fh_block_size h)" using hi(2) by (simp add: word_less_nat_alt)
  consider "h' = h" "tr' = tr"
    | "fh_terminal_status h = 0" "wire_status rc \<noteq> 0" "tr' = tr1" 
      "h' = (case ro of Some r \<Rightarrow> h\<lparr>fh_reader := r\<rparr> | None \<Rightarrow> h)\<lparr>fh_terminal_status := (if wire_status rc = FS_BUSY then BVSTK_DCP2_FS_IO_ERROR else wire_status rc)\<rparr>"
    | "fh_terminal_status h = 0" "wire_status rc = 0" "tr' = tr1"
      "h' = (case ro of Some r \<Rightarrow> h\<lparr>fh_reader := r\<rparr> | None \<Rightarrow> h)\<lparr>fh_last_block := block, fh_has_block := True, fh_cached := data, fh_eof := eof\<rparr>"
    using rd r unfolding read_response_def Let_def by (auto split: if_splits)
  then show ?thesis
  proof cases
    case 1
    then show ?thesis using inv by (auto intro: accounted_refl)
  next
    case 2
    then have ok: "reader_ok (fh_reader h)" using inv live by (simp add: handle_inv_def)
    obtain r' where "ro = Some r'" "rd_backend r'" "accounted tr (fh_reader h) tr1 r'" "rc \<noteq> BVSTK_FS_OK \<longrightarrow> rd_file r' = 0 \<and> rd_dirs r' = []"
      using reader_read_run [OF e ok pos r] by metis
    then show ?thesis using 2 inv live hi wire_status_zero by (auto simp: handle_inv_def)
  next
    case 3
    then have ok: "reader_ok (fh_reader h)" using inv live by (simp add: handle_inv_def)
    obtain r' where "ro = Some r'" "accounted tr (fh_reader h) tr1 r'" "length data \<le> unat (fh_block_size h)" "rc = BVSTK_FS_OK \<longrightarrow> reader_ok r'"
      using reader_read_run [OF e ok pos r] by metis
    then show ?thesis using 3 inv live hi wire_status_zero [of rc] by (auto simp: handle_inv_def reader_ok_def reader_inv_def)
  qed
qed

lemma open_response_cases:
  assumes "open_response e s body now capacity tr = (st, s', tr', out)"
  obtains (Refused) "st \<noteq> 0" "s' = s" "tr' = tr" "out = []"
  | (Slot) i kind flags requested path open_id where "open_id \<noteq> 0" "requested \<le> BVSTK_DCP2_FS_BLOCK_MAX" "fs_next_handle s \<noteq> 0"
      "open_scan open_id kind flags requested path 0 None (fs_handles s) = Some (Some i)" "14 \<le> capacity"
      "open_slot e s i open_id kind flags requested path now tr = (st, s', tr', out)" "kind = body ! 4"
proof -
  define open_id where "open_id = get32 body"
  define requested where "requested = get16 (drop 6 body)"
  obtain status path where p: "parse_path (drop 8 body) = (status, path)" by (metis surj_pair)
  define sc where "sc = open_scan open_id (body ! 4) (body ! 5) requested path 0 None (fs_handles s)"
  define G where "G \<longleftrightarrow> length body < 10 \<or> capacity < 14 \<or> open_id = 0 \<or> requested > BVSTK_DCP2_FS_BLOCK_MAX \<or> body ! 4 < BVSTK_FS_FILE \<or> body ! 4 > BVSTK_FS_TAR \<or>
    body ! 4 \<noteq> BVSTK_FS_TREE \<and> body ! 5 \<noteq> 0 \<or> body ! 5 AND NOT BVSTK_FS_RECURSIVE \<noteq> 0 \<or> status \<noteq> 0"
  have eq: "open_response e s body now capacity tr =
    (if length body < 10 then (FS_MALFORMED, s, tr, []) else if capacity < 14 then (FS_INTERNAL, s, tr, [])
     else if open_id = 0 then (FS_MALFORMED, s, tr, []) else if requested > BVSTK_DCP2_FS_BLOCK_MAX then (FS_RANGE, s, tr, [])
     else if body ! 4 < BVSTK_FS_FILE \<or> body ! 4 > BVSTK_FS_TAR then (FS_UNSUPPORTED, s, tr, [])
     else if body ! 4 \<noteq> BVSTK_FS_TREE \<and> body ! 5 \<noteq> 0 \<or> body ! 5 AND NOT BVSTK_FS_RECURSIVE \<noteq> 0 then (FS_MALFORMED, s, tr, [])
     else if status \<noteq> 0 then (status, s, tr, [])
     else (case sc of None \<Rightarrow> (FS_MALFORMED, s, tr, []) | Some None \<Rightarrow> (FS_BUSY, s, tr, [])
         | Some (Some i) \<Rightarrow> if fs_next_handle s = 0 then (FS_BUSY, s, tr, [])
             else open_slot e s i open_id (body ! 4) (body ! 5) requested path now tr))"
    unfolding open_response_def Let_def p prod.case sc_def open_id_def requested_def ..
  show thesis
  proof (cases "G \<or> sc = None \<or> sc = Some None \<or> fs_next_handle s = 0")
    case True
    then have "st \<noteq> 0 \<and> s' = s \<and> tr' = tr \<and> out = []" using assms unfolding eq G_def
      by (auto split: if_splits option.splits)
    then show thesis using Refused by blast
  next
    case False
    then obtain i where i: "sc = Some (Some i)" by (metis not_None_eq)
    have "open_slot e s i open_id (body ! 4) (body ! 5) requested path now tr = (st, s', tr', out)"
      using assms False unfolding eq G_def by (auto simp: i split: if_splits)
    moreover have "open_id \<noteq> 0" "requested \<le> BVSTK_DCP2_FS_BLOCK_MAX" "fs_next_handle s \<noteq> 0" "14 \<le> capacity" using False unfolding G_def by auto
    ultimately show thesis using Slot i unfolding sc_def by blast
  qed
qed

lemma open_scan_found:
  assumes "session_inv s" "open_scan open_id kind flags requested path 0 None (fs_handles s) = Some (Some i)"
  shows "i < length (fs_handles s) \<and> (fh_handle (fs_handles s ! i) = 0 \<longrightarrow> (\<forall>h\<in>set (fs_handles s). fh_handle h \<noteq> 0 \<longrightarrow> fh_open_id h \<noteq> open_id))"
proof -
  obtain a b where "fs_handles s = [a, b]" using assms(1) by (rule session_inv_cases)
  then show ?thesis using assms(2) by (auto split: if_splits)
qed

text \<open>Replacing one handle of a well-formed session: by a new state of the same transfer, by a free slot
  and, where the slot was free, by a new transfer.\<close>

lemma session_inv_same:
  assumes inv: "session_inv s" and i: "i < length (fs_handles s)" and h: "handle_inv h"
    and same: "fh_handle h = fh_handle (fs_handles s ! i)" "fh_open_id h = fh_open_id (fs_handles s ! i)"
  shows "session_inv (s\<lparr>fs_handles := (fs_handles s)[i := h]\<rparr>)"
proof -
  have "map fh_handle ((fs_handles s)[i := h]) = map fh_handle (fs_handles s)" "map fh_open_id ((fs_handles s)[i := h]) = map fh_open_id (fs_handles s)"
    using i same by (simp_all add: distinct_map_update)
  moreover have "list_all handle_inv ((fs_handles s)[i := h])" using inv h by (simp add: session_inv_def list_all_update)
  moreover have "list_all (\<lambda>h. fs_next_handle s = 0 \<or> fh_handle h < fs_next_handle s) ((fs_handles s)[i := h])"
    using inv i same by (intro list_all_update) (auto simp: session_inv_def list_all_length)
  ultimately show ?thesis using inv by (simp add: session_inv_def)
qed

lemma session_inv_free:
  assumes inv: "session_inv s" and i: "i < length (fs_handles s)"
  shows "session_inv (s\<lparr>fs_handles := (fs_handles s)[i := zero_fs_handle]\<rparr>)"
proof -
  obtain a b where ab: "fs_handles s = [a, b]" using inv by (rule session_inv_cases)
  have z: "fh_handle zero_fs_handle = 0" "fh_open_id zero_fs_handle = 0" by (simp_all add: zero_fs_handle_def)
  have lt: "fs_next_handle s = 0 \<or> 0 < fs_next_handle s" using word_neq_0_conv by blast
  have "i = 0 \<or> i = 1" using i ab by auto
  then show ?thesis using inv ab lt by (auto simp: session_inv_def z zero_handle_inv)
qed

lemma session_inv_new:
  assumes inv: "session_inv s" and i: "i < length (fs_handles s)" and free: "fh_handle (fs_handles s ! i) = 0" and nh: "fs_next_handle s \<noteq> 0"
    and h: "handle_inv h" "fh_handle h = fs_next_handle s"
    and fresh: "\<forall>h'\<in>set (fs_handles s). fh_handle h' \<noteq> 0 \<longrightarrow> fh_open_id h' \<noteq> fh_open_id h"
  shows "session_inv (s\<lparr>fs_handles := (fs_handles s)[i := h], fs_next_handle := fs_next_handle s + 1\<rparr>)"
proof -
  obtain a b where ab: "fs_handles s = [a, b]" using inv by (rule session_inv_cases)
  have lt: "fs_next_handle s + 1 = 0 \<or> x < fs_next_handle s + 1" if "x \<le> fs_next_handle s" for x
  proof (cases "1 + fs_next_handle s = 0")
    case False
    then have "unat (1 + fs_next_handle s) = Suc (unat (fs_next_handle s))" by (rule unatSuc)
    then show ?thesis using that by (simp add: add.commute word_less_nat_alt word_le_nat_alt)
  qed (simp add: add.commute)
  have "i = 0 \<or> i = 1" using i ab by auto
  then show ?thesis
  proof
    assume "i = 0"
    moreover have "fh_open_id b \<noteq> 0 \<Longrightarrow> fh_handle b \<noteq> 0" using inv ab by (auto simp: session_inv_def handle_inv_def zero_fs_handle_def)
    ultimately show ?thesis using inv ab free nh h fresh lt [of "fh_handle b"] lt [of "fs_next_handle s"] by (auto simp: session_inv_def)
  next
    assume "i = 1"
    moreover have "fh_open_id a \<noteq> 0 \<Longrightarrow> fh_handle a \<noteq> 0" using inv ab by (auto simp: session_inv_def handle_inv_def zero_fs_handle_def)
    ultimately show ?thesis using inv ab free nh h fresh lt [of "fh_handle a"] lt [of "fs_next_handle s"] by (auto simp: session_inv_def)
  qed
qed

lemma open_slot_run:
  assumes e: "backend_handles e" and inv: "session_inv s" and i: "i < length (fs_handles s)" and nh: "fs_next_handle s \<noteq> 0" and id: "open_id \<noteq> 0"
    and rq: "requested \<le> BVSTK_DCP2_FS_BLOCK_MAX"
    and fresh: "fh_handle (fs_handles s ! i) = 0 \<longrightarrow> (\<forall>h\<in>set (fs_handles s). fh_handle h \<noteq> 0 \<longrightarrow> fh_open_id h \<noteq> open_id)"
    and o: "open_slot e s i open_id kind flags requested path now tr = (st, s', tr', out)"
  shows "session_inv s' \<and> session_accounted tr (fs_handles s) tr' (fs_handles s')"
proof (cases "fh_handle (fs_handles s ! i) = 0")
  case False
  then have s': "s' = s\<lparr>fs_handles := (fs_handles s)[i := (fs_handles s ! i)\<lparr>fh_last_activity := now\<rparr>]\<rparr>" "tr' = tr"
    using o by (auto simp: open_slot_def Let_def)
  have "handle_inv (fs_handles s ! i)" using inv i by (simp add: session_inv_def list_all_length)
  then have "session_inv s'" unfolding s' by (intro session_inv_same [OF inv i]) (use False in \<open>auto simp: handle_inv_def\<close>)
  moreover have "session_accounted tr (fs_handles s) tr' (fs_handles s')" unfolding s'
    using session_accounted_update [OF i, of tr tr "(fs_handles s ! i)\<lparr>fh_last_activity := now\<rparr>"] by (simp add: accounted_refl)
  ultimately show ?thesis by simp
next
  case True
  have z: "fs_handles s ! i = zero_fs_handle" using inv i True by (auto simp: session_inv_def list_all_length handle_inv_def)
  have zr: "fh_reader zero_fs_handle = zero_reader" by (simp add: zero_fs_handle_def)
  obtain rc r tr1 where op: "bvstk_fs_reader_open e path kind flags tr = (rc, r, tr1)" by (metis prod_cases3)
  note run = reader_open_run [OF e op]
  show ?thesis
  proof (cases "rc = BVSTK_FS_OK")
    case False
    then have s': "s' = s\<lparr>fs_handles := (fs_handles s)[i := zero_fs_handle]\<rparr>" "tr' = tr1" using o op True wire_status_zero [of rc] by (auto simp: open_slot_def)
    have "accounted tr zero_reader tr1 zero_reader" using run False by (auto simp: opened_well_def zero_reader_def intro: accounted_update)
    then show ?thesis using session_inv_free [OF inv i] session_accounted_update [OF i, of tr tr1 zero_fs_handle] z zr s' by simp
  next
    case ok: True
    define h where "h = zero_fs_handle\<lparr>fh_reader := r, fh_handle := fs_next_handle s, fh_open_id := open_id, fh_requested_block_size := requested,
      fh_block_size := (if requested \<noteq> 0 then requested else BVSTK_DCP2_FS_BLOCK_MAX), fh_last_activity := now\<rparr>"
    have s': "s' = s\<lparr>fs_handles := (fs_handles s)[i := h], fs_next_handle := fs_next_handle s + 1\<rparr>" "tr' = tr1"
      using o op True ok z by (auto simp: open_slot_def h_def Let_def)
    have "reader_ok r" using run ok by (simp add: opened_well_def)
    then have "handle_inv h" using id nh rq by (auto simp: handle_inv_def h_def zero_fs_handle_def reader_ok_def reader_inv_def word_neq_0_conv)
    then have "session_inv s'" unfolding s' using fresh True by (intro session_inv_new [OF inv i True nh]) (auto simp: h_def)
    moreover have "session_accounted tr (fs_handles s) tr1 ((fs_handles s)[i := h])"
      by (rule session_accounted_update [OF i]) (use run z zr in \<open>simp add: h_def\<close>)
    ultimately show ?thesis using s' by simp
  qed
qed

text \<open>Information requests open and close nothing.\<close>

definition idle_events :: "fs_trace \<Rightarrow> fs_trace \<Rightarrow> bool" where
  "idle_events tr tr' \<longleftrightarrow> (\<exists>evs. tr' = tr @ evs \<and> files_opened evs = {#} \<and> files_closed evs = {#} \<and> dirs_opened evs = {#} \<and> dirs_closed evs = {#})"

lemma idle_accounted: "idle_events tr tr' \<Longrightarrow> session_accounted tr hs tr' hs"
  by (auto simp: idle_events_def session_accounted_def)

lemma idle_trans: "idle_events tr tr1 \<Longrightarrow> idle_events tr1 tr2 \<Longrightarrow> idle_events tr tr2"
  by (force simp: idle_events_def)

lemma idle_simps [simp]: "idle_events tr tr" "idle_events tr (tr @ [EvVolumeCount])" "idle_events tr (tr @ [EvVolume i])" "idle_events tr (tr @ [EvStat p])"
  by (auto simp: idle_events_def)

lemma volume_entries_idle: "volume_entries e n i capacity offset tr = (st, tr', out) \<Longrightarrow> idle_events tr tr'"
proof (induction n arbitrary: i offset tr out st tr')
  case (Suc n)
  obtain rc v where v: "be_volume e tr i = (rc, v)" by (metis surj_pair)
  obtain st1 tr1 out1 where r: "volume_entries e n (i + 1) capacity (offset + 2 + length (vol_name v)) (tr @ [EvVolume i]) = (st1, tr1, out1)" by (metis prod_cases3)
  have "tr' = tr @ [EvVolume i] \<or> tr' = tr1 \<and> st1 = st" using Suc.prems v r by (auto simp: Let_def split: if_splits)
  then show ?case using idle_trans [OF idle_simps(3) Suc.IH [OF r]] by auto
qed simp

lemma info_response_idle: "info_response e capacity tr = (st, tr', out) \<Longrightarrow> idle_events tr tr'"
proof -
  assume a: "info_response e capacity tr = (st, tr', out)"
  obtain st1 tr1 out1 where r: "volume_entries e (be_volume_count e tr) 0 capacity 20 (tr @ [EvVolumeCount]) = (st1, tr1, out1)" by (metis prod_cases3)
  have "tr' = tr @ [EvVolumeCount] \<or> tr' = tr1" using a r by (auto simp: info_response_def Let_def split: if_splits)
  then show ?thesis using idle_trans [OF idle_simps(2) volume_entries_idle [OF r]] by auto
qed

lemma stat_response_idle: "stat_response e body capacity tr = (st, tr', out) \<Longrightarrow> idle_events tr tr'"
  by (auto simp: stat_response_def Let_def split: prod.splits if_splits)

lemma handle_scan_found: "handle_scan n i hs = Some j \<Longrightarrow> i \<le> j \<and> j < i + length hs \<and> fh_handle (hs ! (j - i)) = n"
proof (induction n i hs rule: handle_scan.induct)
  case (2 n i h hs)
  show ?case
  proof (cases "fh_handle h = n")
    case False
    then have "i + 1 \<le> j" "j < i + 1 + length hs" "fh_handle (hs ! (j - (i + 1))) = n" using 2 by auto
    then show ?thesis by (auto simp: nth_Cons')
  qed (use 2 in auto)
qed simp

lemma request_cases:
  assumes "bvstk_dcp2_fs_request e s args opcode body sz now capacity tr = (st, s', tr', out)" "session_inv s"
    "bvstk_dcp2_fs_expire s now tr = (s1, tr1)"
  obtains (Bad) "s' = s" "tr' = tr"
  | (Idle) "s' = s1" "idle_events tr1 tr'"
  | (Open) b where "open_response e s1 b now capacity tr1 = (st, s', tr', out)"
  | (Close) i h where "i < length (fs_handles s1)" "close_handle (fs_handles s1 ! i) tr1 = (h, tr')" "s' = s1\<lparr>fs_handles := (fs_handles s1)[i := h]\<rparr>"
  | (Read) i h b where "i < length (fs_handles s1)" "fh_handle (fs_handles s1 ! i) \<noteq> 0"
      "read_response e ((fs_handles s1 ! i)\<lparr>fh_last_activity := now\<rparr>) (get32 (drop 4 b)) capacity tr1 = (st, h, tr', out)"
      "s' = s1\<lparr>fs_handles := (fs_handles s1)[i := h]\<rparr>"
proof -
  define b where "b = (case body of Some b \<Rightarrow> take sz b | None \<Rightarrow> [])"
  define n where "n = get32 b"
  have hs: "i < length (fs_handles s1) \<and> fh_handle (fs_handles s1 ! i) = n" if "handle_scan n 0 (fs_handles s1) = Some i" for i
    using handle_scan_found [OF that] by simp
  have "idle_events tr1 tr1" by simp
  note a = assms(1) [unfolded bvstk_dcp2_fs_request_def Let_def assms(3) prod.case b_def [symmetric] n_def [symmetric]]
  consider "\<not> args \<or> \<not> fs_backend s \<or> body = None \<and> sz \<noteq> 0"
    | "\<not> (\<not> args \<or> \<not> fs_backend s \<or> body = None \<and> sz \<noteq> 0)" "opcode = BVSTK_DCP2_FS_INFO"
    | "\<not> (\<not> args \<or> \<not> fs_backend s \<or> body = None \<and> sz \<noteq> 0)" "opcode = BVSTK_DCP2_FS_STAT"
    | "\<not> (\<not> args \<or> \<not> fs_backend s \<or> body = None \<and> sz \<noteq> 0)" "opcode = BVSTK_DCP2_FS_OPEN"
    | "\<not> (\<not> args \<or> \<not> fs_backend s \<or> body = None \<and> sz \<noteq> 0)" "opcode \<noteq> BVSTK_DCP2_FS_INFO" "opcode \<noteq> BVSTK_DCP2_FS_STAT" "opcode \<noteq> BVSTK_DCP2_FS_OPEN"
    by blast
  then show thesis
  proof cases
    case 1
    then have "s' = s \<and> tr' = tr" using a by (simp only: if_True prod.inject)
    then show thesis using Bad by blast
  next
    case 2
    show thesis
    proof (rule Idle)
      show "s' = s1" "idle_events tr1 tr'" using a 2 info_response_idle by (auto split: if_splits prod.splits)
    qed
  next
    case 3
    show thesis
    proof (rule Idle)
      show "s' = s1" "idle_events tr1 tr'" using a 3 stat_response_idle by (auto split: if_splits prod.splits)
    qed
  next
    case 4
    then show thesis using a by (intro Open [of b]) (auto split: if_splits)
  next
    case 5
    let ?bad = "opcode \<noteq> BVSTK_DCP2_FS_READ \<and> opcode \<noteq> BVSTK_DCP2_FS_CLOSE \<or> sz \<noteq> (if opcode = BVSTK_DCP2_FS_READ then 8 else 4) \<or> n = 0 \<or>
      handle_scan n 0 (fs_handles s1) = None"
    show thesis
    proof (cases ?bad)
      case True
      show thesis
      proof (rule Idle)
        show "s' = s1" "idle_events tr1 tr'" using a 5 True by (auto split: if_splits option.splits)
      qed
    next
      case False
      then obtain i where i: "handle_scan n 0 (fs_handles s1) = Some i" by auto
      show thesis
      proof (cases "opcode = BVSTK_DCP2_FS_CLOSE")
        case True
        then show thesis using a 5 False i hs [OF i] by (intro Close [of i zero_fs_handle]) (auto simp: close_handle_def split: prod.splits)
      next
        case c: False
        obtain st2 h2 tr2 out2 where r: "read_response e ((fs_handles s1 ! i)\<lparr>fh_last_activity := now\<rparr>) (get32 (drop 4 b)) capacity tr1 = (st2, h2, tr2, out2)"
          by (metis prod_cases4)
        then show thesis using a 5 False c i hs [OF i] by (intro Read [of i b h2]) auto
      qed
    qed
  qed
qed

lemma request_run:
  assumes e: "backend_handles e" and inv: "session_inv s" and r: "bvstk_dcp2_fs_request e s args opcode body sz now capacity tr = (st, s', tr', out)"
  shows "session_inv s' \<and> session_accounted tr (fs_handles s) tr' (fs_handles s')"
proof -
  obtain s1 tr1 where x: "bvstk_dcp2_fs_expire s now tr = (s1, tr1)" by (metis surj_pair)
  have inv1: "session_inv s1" and acc1: "session_accounted tr (fs_handles s) tr1 (fs_handles s1)" using expire_run [OF inv x] by blast+
  have hi: "handle_inv (fs_handles s1 ! i)" if "i < length (fs_handles s1)" for i using inv1 that by (simp add: session_inv_def list_all_length)
  from r inv x show ?thesis
  proof (cases rule: request_cases)
    case Bad
    then show ?thesis using inv session_accounted_refl by simp
  next
    case Idle
    then show ?thesis using inv1 session_accounted_trans [OF acc1 idle_accounted] by simp
  next
    case (Open b)
    from Open show ?thesis
    proof (cases rule: open_response_cases)
      case Refused
      then show ?thesis using inv1 acc1 by simp
    next
      case (Slot i kind flags requested path open_id)
      have "i < length (fs_handles s1)" "fh_handle (fs_handles s1 ! i) = 0 \<longrightarrow> (\<forall>h\<in>set (fs_handles s1). fh_handle h \<noteq> 0 \<longrightarrow> fh_open_id h \<noteq> open_id)"
        using open_scan_found [OF inv1 Slot(4)] by blast+
      from open_slot_run [OF e inv1 this(1) Slot(3) Slot(1) Slot(2) this(2) Slot(6)] show ?thesis using session_accounted_trans [OF acc1] by blast
    qed
  next
    case (Close i h)
    have c: "h = zero_fs_handle" "accounted tr1 (fh_reader (fs_handles s1 ! i)) tr' (fh_reader h)" using close_handle_run [OF hi [OF Close(1)] Close(2)] by blast+
    then show ?thesis using session_inv_free [OF inv1 Close(1)] session_accounted_trans [OF acc1 session_accounted_update [OF Close(1) c(2)]] Close(3) by simp
  next
    case (Read i h b)
    let ?h = "(fs_handles s1 ! i)\<lparr>fh_last_activity := now\<rparr>"
    have "handle_inv ?h" "fh_handle ?h \<noteq> 0" using hi [OF Read(1)] Read(2) by (auto simp: handle_inv_def)
    from read_response_run [OF e this Read(3)] have h: "handle_inv h" "fh_handle h = fh_handle (fs_handles s1 ! i)" "fh_open_id h = fh_open_id (fs_handles s1 ! i)"
      "accounted tr1 (fh_reader (fs_handles s1 ! i)) tr' (fh_reader h)" by simp_all
    then show ?thesis using session_inv_same [OF inv1 Read(1) h(1-3)] session_accounted_trans [OF acc1 session_accounted_update [OF Read(1) h(4)]] Read(4) by simp
  qed
qed


section \<open>Replies fit\<close>

lemma length_be [simp]: "length (be16 a) = 2" "length (be32 b) = 4" "length (be64 c) = 8"
  by (simp_all add: be16_def be32_def be64_def)

lemma volume_entries_fit: "volume_entries e n i capacity offset tr = (0, tr', out) \<Longrightarrow> offset \<le> capacity \<Longrightarrow> offset + length out \<le> capacity"
proof (induction n arbitrary: i offset tr out tr')
  case (Suc n)
  obtain rc v where v: "be_volume e tr i = (rc, v)" by (metis surj_pair)
  let ?off = "offset + 2 + length (vol_name v)"
  obtain st1 tr1 out1 where r: "volume_entries e n (i + 1) capacity ?off (tr @ [EvVolume i]) = (st1, tr1, out1)" by (metis prod_cases3)
  have c: "?off \<le> capacity" "st1 = 0" "out = [vol_state v, of_nat (length (vol_name v))] @ vol_name v @ out1"
    using Suc.prems v r by (auto simp: Let_def split: if_splits)
  then show ?case using Suc.IH [OF r [unfolded c(2)] c(1)] by simp
qed simp

lemma info_response_fit: "info_response e capacity tr = (st, tr', out) \<Longrightarrow> length out \<le> capacity"
proof -
  assume a: "info_response e capacity tr = (st, tr', out)"
  obtain st1 tr1 out1 where r: "volume_entries e (be_volume_count e tr) 0 capacity 20 (tr @ [EvVolumeCount]) = (st1, tr1, out1)" by (metis prod_cases3)
  show ?thesis
  proof (cases "capacity < 20 \<or> be_volume_count e tr > 65535 \<or> st1 \<noteq> 0")
    case True
    then have "out = []" using a r by (auto simp: info_response_def Let_def split: if_splits)
    then show ?thesis by simp
  next
    case False
    then have "20 + length out1 \<le> capacity" using volume_entries_fit [of e _ 0 capacity 20 _ tr1 out1] r by auto
    moreover have "length out = 20 + length out1" using a r False by (auto simp: info_response_def Let_def split: if_splits)
    ultimately show ?thesis by simp
  qed
qed

lemma stat_response_fit: "stat_response e body capacity tr = (st, tr', out) \<Longrightarrow> length out \<le> capacity"
  by (auto simp: stat_response_def Let_def split: prod.splits if_splits)

lemma open_slot_fit: "open_slot e s i open_id kind flags requested path now tr = (st, s', tr', out) \<Longrightarrow> length out \<le> 14"
  by (auto simp: open_slot_def open_body_def Let_def split: prod.splits if_splits)

lemma open_response_fit:
  assumes "open_response e s body now capacity tr = (st, s', tr', out)"
  shows "length out \<le> capacity"
  using assms
proof (cases rule: open_response_cases)
  case (Slot i kind flags requested path open_id)
  then show ?thesis using open_slot_fit [OF Slot(6)] by simp
qed simp

lemma read_response_fit:
  assumes e: "backend_handles e" and inv: "handle_inv h" and live: "fh_handle h \<noteq> 0" and rd: "read_response e h block capacity tr = (st, h', tr', out)"
  shows "length out \<le> capacity"
proof -
  have "out = [] \<or> unat (fh_block_size h) + 12 \<le> capacity \<and> out = block_body h' block \<and> fh_block_size h' = fh_block_size h"
    using rd unfolding read_response_def Let_def by (auto split: if_splits prod.splits option.splits)
  moreover have "length (block_body h' block) \<le> unat (fh_block_size h') + 12"
    using read_response_run [OF e inv live rd] live by (auto simp: block_body_def handle_inv_def)
  ultimately show ?thesis by auto
qed

lemma request_fit:
  assumes e: "backend_handles e" and inv: "session_inv s" and r: "bvstk_dcp2_fs_request e s args opcode body sz now capacity tr = (st, s', tr', out)"
  shows "length out \<le> capacity"
proof -
  obtain s1 tr1 where x: "bvstk_dcp2_fs_expire s now tr = (s1, tr1)" by (metis surj_pair)
  have inv1: "session_inv s1" using expire_run [OF inv x] by blast
  define b where "b = (case body of Some b \<Rightarrow> take sz b | None \<Rightarrow> [])"
  consider "out = []" | "info_response e capacity tr1 = (st, tr', out)" | "stat_response e b capacity tr1 = (st, tr', out)"
    | "open_response e s1 b now capacity tr1 = (st, s', tr', out)"
    | i h where "handle_scan (get32 b) 0 (fs_handles s1) = Some i" "get32 b \<noteq> 0"
      "read_response e ((fs_handles s1 ! i)\<lparr>fh_last_activity := now\<rparr>) (get32 (drop 4 b)) capacity tr1 = (st, h, tr', out)"
    using r unfolding bvstk_dcp2_fs_request_def Let_def x prod.case b_def [symmetric] by (auto split: if_splits option.splits prod.splits)
  then show ?thesis
  proof cases
    case (5 i h)
    have "i < length (fs_handles s1)" "fh_handle (fs_handles s1 ! i) = get32 b" using handle_scan_found [OF 5(1)] by simp_all
    then have "handle_inv ((fs_handles s1 ! i)\<lparr>fh_last_activity := now\<rparr>)" "fh_handle ((fs_handles s1 ! i)\<lparr>fh_last_activity := now\<rparr>) \<noteq> 0"
      using inv1 5(2) by (auto simp: session_inv_def list_all_length handle_inv_def)
    then show ?thesis by (rule read_response_fit [OF e _ _ 5(3)])
  qed (auto dest: info_response_fit stat_response_fit open_response_fit)
qed

section \<open>Sessions\<close>

text \<open>A request is its operation code, body, body size, time and reply capacity.\<close>

type_synonym fs_request = "u8 \<times> bytes option \<times> nat \<times> u32 \<times> nat"

fun fs_session_run :: "fs_env \<Rightarrow> bvstk_dcp2_fs_session_t \<Rightarrow> fs_request list \<Rightarrow> fs_trace \<Rightarrow> bvstk_dcp2_fs_session_t \<times> fs_trace \<times> bytes list" where
  "fs_session_run e s [] tr = (s, tr, [])"
| "fs_session_run e s ((opcode, body, sz, now, capacity) # rs) tr =
    (case bvstk_dcp2_fs_request e s True opcode body sz now capacity tr of (st, s1, tr1, out) \<Rightarrow>
       case fs_session_run e s1 rs tr1 of (s2, tr2, outs) \<Rightarrow> (s2, tr2, out # outs))"

lemma session_run_inv:
  assumes e: "backend_handles e"
  shows "session_inv s \<Longrightarrow> fs_session_run e s rs tr = (s', tr', outs) \<Longrightarrow>
    session_inv s' \<and> session_accounted tr (fs_handles s) tr' (fs_handles s') \<and> list_all2 (\<lambda>(opcode, body, sz, now, capacity) out. length out \<le> capacity) rs outs"
proof (induction rs arbitrary: s tr outs)
  case Nil
  then show ?case by (auto intro: session_accounted_refl)
next
  case (Cons rq rs)
  obtain opcode body sz now capacity where rq: "rq = (opcode, body, sz, now, capacity)" by (cases rq)
  obtain st s1 tr1 out where r: "bvstk_dcp2_fs_request e s True opcode body sz now capacity tr = (st, s1, tr1, out)" by (metis prod_cases4)
  obtain s2 tr2 outs2 where q: "fs_session_run e s1 rs tr1 = (s2, tr2, outs2)" by (metis prod_cases3)
  have eq: "s2 = s'" "tr2 = tr'" "outs = out # outs2" using Cons.prems(2) rq r q by simp_all
  have one: "session_inv s1" "session_accounted tr (fs_handles s) tr1 (fs_handles s1)" using request_run [OF e Cons.prems(1) r] by simp_all
  note two = Cons.IH [OF one(1) q [unfolded eq]]
  show ?case using two session_accounted_trans [OF one(2)] request_fit [OF e Cons.prems(1) r] rq eq by auto
qed

lemma destroy_scan_run:
  "list_all handle_inv hs \<Longrightarrow> destroy_scan hs tr = (hs', tr') \<Longrightarrow> hs' = map (\<lambda>h. zero_fs_handle) hs \<and> session_accounted tr hs tr' hs'"
proof (induction hs arbitrary: tr hs' tr')
  case (Cons h hs)
  obtain h1 tr1 where c: "close_handle h tr = (h1, tr1)" by (metis surj_pair)
  obtain hs2 tr2 where r: "destroy_scan hs tr1 = (hs2, tr2)" by (metis surj_pair)
  have eq: "hs' = h1 # hs2" "tr' = tr2" using Cons.prems(2) c r by simp_all
  have inv: "handle_inv h" "list_all handle_inv hs" using Cons.prems(1) by simp_all
  note one = close_handle_run [OF inv(1) c] and two = Cons.IH [OF inv(2) r]
  show ?case unfolding eq using one two session_accounted_Cons [of tr h tr1 h1 hs tr2 hs2] by auto
qed (auto intro: session_accounted_refl)

lemma session_inv_init: "session_inv (bvstk_dcp2_fs_init True)"
  by (simp add: session_inv_def bvstk_dcp2_fs_init_def zero_handle_inv numeral_2_eq_2) (simp add: zero_fs_handle_def)

lemma held_all_zero: "held_all held_files (replicate n zero_fs_handle) = {#}" "held_all held_dirs (replicate n zero_fs_handle) = {#}"
  by (induction n) (simp_all add: held_all_def held_defs zero_fs_handle_def zero_reader_def)

text \<open>C30: whatever requests a client sends, in any order and at any times, a session stays well-formed: at
  most two transfers, with distinct handle numbers and distinct open ids, block sizes within the
  limit and readers in a consistent state; every reply fits the buffer the caller gave; and when
  the session is destroyed every file and directory handle the backend ever gave out has been
  closed exactly once.\<close>

theorem dcp2_fs_session_safe:
  assumes "backend_handles e" and "fs_session_run e (bvstk_dcp2_fs_init True) reqs tr0 = (s, tr, outs)"
    and "bvstk_dcp2_fs_destroy s tr = (s', tr')"
  shows "session_inv s \<and> list_all2 (\<lambda>(opcode, body, sz, now, capacity) out. length out \<le> capacity) reqs outs \<and> returned tr0 tr'"
proof -
  have run: "session_inv s" "session_accounted tr0 (fs_handles (bvstk_dcp2_fs_init True)) tr (fs_handles s)"
    "list_all2 (\<lambda>(opcode, body, sz, now, capacity) out. length out \<le> capacity) reqs outs"
    using session_run_inv [OF assms(1) session_inv_init assms(2)] by simp_all
  obtain hs tr1 where d: "destroy_scan (fs_handles s) tr = (hs, tr1)" by (metis surj_pair)
  have "list_all handle_inv (fs_handles s)" "length (fs_handles s) = 2" using run(1) by (simp_all add: session_inv_def)
  then have hs: "hs = replicate 2 zero_fs_handle" "session_accounted tr (fs_handles s) tr1 hs"
    using destroy_scan_run [OF _ d] by (auto simp: map_replicate_const)
  have "tr' = tr1" using assms(3) d by (simp add: bvstk_dcp2_fs_destroy_def)
  moreover have "session_accounted tr0 (replicate 2 zero_fs_handle) tr1 (replicate 2 zero_fs_handle)"
    using session_accounted_trans [OF run(2) hs(2)] hs(1) by (simp add: bvstk_dcp2_fs_init_def)
  ultimately have "returned tr0 tr'" unfolding session_accounted_def returned_def held_all_zero by auto
  then show ?thesis using run by simp
qed

section \<open>Retransmission\<close>

lemma scan_live:
  assumes "session_inv s" "i < length (fs_handles s)" "fh_handle (fs_handles s ! i) = n" "n \<noteq> 0"
  shows "handle_scan n 0 (fs_handles s) = Some i"
proof -
  obtain a b where ab: "fs_handles s = [a, b]" using assms(1) by (rule session_inv_cases)
  have d: "distinct (filter (\<lambda>n. n \<noteq> 0) (map fh_handle (fs_handles s)))" using assms(1) unfolding session_inv_def by blast
  have "i = 0 \<or> i = 1" using assms(2) ab by auto
  then show ?thesis
  proof
    assume "i = 0"
    then show ?thesis using assms(3) ab by simp
  next
    assume "i = 1"
    then have "fh_handle b = n" using assms(3) ab by simp
    moreover have "fh_handle a \<noteq> n" using d ab \<open>fh_handle b = n\<close> assms(4) by (auto split: if_splits)
    ultimately show ?thesis using ab \<open>i = 1\<close> by simp
  qed
qed

lemma wire_status_cases: "wire_status rc \<noteq> 0 \<Longrightarrow> (if wire_status rc = FS_BUSY then BVSTK_DCP2_FS_IO_ERROR else wire_status rc) \<noteq> 0"
  by auto

lemma read_response_OK:
  assumes "read_response e h block capacity tr = (0, h', tr', out)"
  shows "unat (fh_block_size h) + 12 \<le> capacity \<and> fh_terminal_status h' = 0 \<and> fh_has_block h' \<and> fh_last_block h' = block \<and> out = block_body h' block \<and>
    fh_block_size h' = fh_block_size h \<and> fh_last_activity h' = fh_last_activity h \<and> fh_handle h' = fh_handle h"
  using assms unfolding read_response_def Let_def
  by (auto dest: wire_status_cases split: if_splits prod.splits option.splits)

text \<open>A READ request for a live transfer is the read on its slot, after the other transfer may have expired.\<close>

lemma read_request_live:
  assumes inv: "session_inv s" and i: "i < length (fs_handles s)" and n: "fh_handle (fs_handles s ! i) = n" "n \<noteq> 0"
    and alive: "now - fh_last_activity (fs_handles s ! i) < BVSTK_DCP2_FS_IDLE_MS" and b: "length b = 8" "get32 b = n"
  obtains s1 tr1 evs where "session_inv s1" "i < length (fs_handles s1)" "fs_handles s1 ! i = fs_handles s ! i" "tr1 = tr @ evs" "list_all is_close evs"
    "bvstk_dcp2_fs_request e s True BVSTK_DCP2_FS_READ (Some b) 8 now capacity tr =
      (case read_response e ((fs_handles s ! i)\<lparr>fh_last_activity := now\<rparr>) (get32 (drop 4 b)) capacity tr1 of
         (st, h, tr2, out) \<Rightarrow> (st, s1\<lparr>fs_handles := (fs_handles s1)[i := h]\<rparr>, tr2, out))"
proof -
  obtain s1 tr1 where x: "bvstk_dcp2_fs_expire s now tr = (s1, tr1)" by (metis surj_pair)
  have r: "session_inv s1" "s1 = s\<lparr>fs_handles := map (\<lambda>h. if expired now h then zero_fs_handle else h) (fs_handles s)\<rparr>" "\<exists>evs. tr1 = tr @ evs \<and> list_all is_close evs"
    using expire_run [OF inv x] by blast+
  have at: "i < length (fs_handles s1)" "fs_handles s1 ! i = fs_handles s ! i" using r(2) i alive by (auto simp: expired_def)
  then have sc: "handle_scan n 0 (fs_handles s1) = Some i" using scan_live [OF r(1)] n by simp
  have bk: "fs_backend s" using inv by (simp add: session_inv_def)
  have tk: "take 8 b = b" using b(1) by simp
  have "bvstk_dcp2_fs_request e s True BVSTK_DCP2_FS_READ (Some b) 8 now capacity tr =
      (case read_response e ((fs_handles s ! i)\<lparr>fh_last_activity := now\<rparr>) (get32 (drop 4 b)) capacity tr1 of
         (st, h, tr2, out) \<Rightarrow> (st, s1\<lparr>fs_handles := (fs_handles s1)[i := h]\<rparr>, tr2, out))"
    unfolding bvstk_dcp2_fs_request_def Let_def x prod.case option.case tk b(2) sc at(2) using bk n(2) by (simp split: prod.splits)
  then show thesis using that r(1,3) at by blast
qed

lemma read_request_found:
  assumes inv: "session_inv s" and b: "length b = 8" and r: "bvstk_dcp2_fs_request e s True BVSTK_DCP2_FS_READ (Some b) 8 now capacity tr = (0, s', tr', out)"
  obtains s1 tr1 i h where "session_inv s1" "i < length (fs_handles s1)" "fh_handle (fs_handles s1 ! i) = get32 b" "get32 b \<noteq> 0"
    "read_response e ((fs_handles s1 ! i)\<lparr>fh_last_activity := now\<rparr>) (get32 (drop 4 b)) capacity tr1 = (0, h, tr', out)"
    "s' = s1\<lparr>fs_handles := (fs_handles s1)[i := h]\<rparr>"
proof -
  obtain s1 tr1 where x: "bvstk_dcp2_fs_expire s now tr = (s1, tr1)" by (metis surj_pair)
  have inv1: "session_inv s1" using expire_run [OF inv x] by blast
  have tk: "take 8 b = b" using b by simp
  have bk: "fs_backend s" using inv by (simp add: session_inv_def)
  note r = r [unfolded bvstk_dcp2_fs_request_def Let_def x prod.case option.case tk]
  have nz: "get32 b \<noteq> 0" using r bk by auto
  obtain i where i: "handle_scan (get32 b) 0 (fs_handles s1) = Some i" using r bk nz by (cases "handle_scan (get32 b) 0 (fs_handles s1)") auto
  obtain st h tr2 out2 where rr: "read_response e ((fs_handles s1 ! i)\<lparr>fh_last_activity := now\<rparr>) (get32 (drop 4 b)) capacity tr1 = (st, h, tr2, out2)" by (metis prod_cases4)
  have eq: "st = 0" "tr2 = tr'" "out2 = out" "s' = s1\<lparr>fs_handles := (fs_handles s1)[i := h]\<rparr>" using r bk nz i rr by simp_all
  have "i < length (fs_handles s1)" "fh_handle (fs_handles s1 ! i) = get32 b" using handle_scan_found [OF i] by simp_all
  then show thesis by (rule that [OF inv1 _ _ nz rr [unfolded eq(1-3)] eq(4)])
qed

text \<open>C31: a block can be fetched again. When a READ has succeeded, the same READ sent again before the
  transfer expires succeeds with exactly the same reply and asks the backend for nothing: the only
  calls it can cause close another transfer that has expired.\<close>

theorem dcp2_fs_read_idempotent:
  assumes "backend_handles e" and "session_inv s" and "length b = 8"
    and "bvstk_dcp2_fs_request e s True BVSTK_DCP2_FS_READ (Some b) 8 now capacity tr = (0, s1, tr1, out)"
    and "now2 - now < BVSTK_DCP2_FS_IDLE_MS"
  shows "\<exists>s2 evs. bvstk_dcp2_fs_request e s1 True BVSTK_DCP2_FS_READ (Some b) 8 now2 capacity tr1 = (0, s2, tr1 @ evs, out) \<and> list_all is_close evs"
proof -
  obtain s0 tr0 i h where f: "session_inv s0" "i < length (fs_handles s0)" "fh_handle (fs_handles s0 ! i) = get32 b" "get32 b \<noteq> 0"
    "read_response e ((fs_handles s0 ! i)\<lparr>fh_last_activity := now\<rparr>) (get32 (drop 4 b)) capacity tr0 = (0, h, tr1, out)"
    "s1 = s0\<lparr>fs_handles := (fs_handles s0)[i := h]\<rparr>" by (rule read_request_found [OF assms(2-4)])
  note ok = read_response_OK [OF f(5)]
  have inv1: "session_inv s1" using request_run [OF assms(1,2,4)] by blast
  have h: "i < length (fs_handles s1)" "fs_handles s1 ! i = h" using f(2,6) by simp_all
  obtain s2 tr2 evs where q: "tr2 = tr1 @ evs" "list_all is_close evs"
    "bvstk_dcp2_fs_request e s1 True BVSTK_DCP2_FS_READ (Some b) 8 now2 capacity tr1 =
      (case read_response e ((fs_handles s1 ! i)\<lparr>fh_last_activity := now2\<rparr>) (get32 (drop 4 b)) capacity tr2 of
         (st, h, tr2, out) \<Rightarrow> (st, s2\<lparr>fs_handles := (fs_handles s2)[i := h]\<rparr>, tr2, out))"
    by (rule read_request_live [OF inv1 h(1) _ f(4) _ assms(3) refl, of now2 tr1 e capacity]) (use ok h f(3) assms(5) in auto)
  have "read_response e (h\<lparr>fh_last_activity := now2\<rparr>) (get32 (drop 4 b)) capacity tr2 = (0, h\<lparr>fh_last_activity := now2\<rparr>, tr2, out)"
    using ok by (simp add: read_response_def block_body_def)
  then show ?thesis using q h(2) by auto
qed


section \<open>A whole download\<close>

text \<open>A client that asks for one block after the other, at the times \<open>ts\<close>, until the end of the stream: whether
  all replies were OK, and the data of the replies.\<close>

fun fs_download :: "fs_env \<Rightarrow> bvstk_dcp2_fs_session_t \<Rightarrow> u32 \<Rightarrow> u32 \<Rightarrow> u32 list \<Rightarrow> nat \<Rightarrow> fs_trace \<Rightarrow> bool \<times> bvstk_dcp2_fs_session_t \<times> fs_trace \<times> bytes \<times> bool" where
  "fs_download e s n k [] capacity tr = (True, s, tr, [], False)"
| "fs_download e s n k (t # ts) capacity tr =
    (case bvstk_dcp2_fs_request e s True BVSTK_DCP2_FS_READ (Some (be32 n @ be32 k)) 8 t capacity tr of (st, s1, tr1, out) \<Rightarrow>
       if st \<noteq> 0 then (False, s1, tr1, [], False)
       else if out ! 8 = 1 then (True, s1, tr1, drop 12 out, True)
       else (case fs_download e s1 n (k + 1) ts capacity tr1 of (ok, s2, tr2, data, eof) \<Rightarrow> (ok, s2, tr2, drop 12 out @ data, eof)))"

fun in_time :: "u32 \<Rightarrow> u32 list \<Rightarrow> bool" where
  "in_time t0 [] = True"
| "in_time t0 (t # ts) = (t - t0 < BVSTK_DCP2_FS_IDLE_MS \<and> in_time t ts)"

text \<open>A transfer of a file that has delivered all blocks before \<open>k\<close> and owes \<open>left\<close> bytes.\<close>

definition transfer_at :: "bvstk_dcp2_fs_handle_t \<Rightarrow> u32 \<Rightarrow> nat \<Rightarrow> bool" where
  "transfer_at h k left \<longleftrightarrow> fh_terminal_status h = 0 \<and> \<not> fh_eof h \<and> rd_kind (fh_reader h) = BVSTK_FS_FILE \<and> owed (fh_reader h) = left \<and>
     (if fh_has_block h then k = fh_last_block h + 1 else k = 0)"

lemma file_bytes_closes: "list_all is_close evs \<Longrightarrow> file_bytes e tr evs = []"
  by (induction evs arbitrary: tr) (auto simp: is_close_def split: fs_event.splits)

lemma read_next_block:
  assumes e: "backend_handles e" and inv: "handle_inv h" and live: "fh_handle h \<noteq> 0" and t: "transfer_at h k left"
    and r: "read_response e h k capacity tr = (0, h', tr', out)"
  shows "\<exists>evs. tr' = tr @ evs \<and> drop 12 out = file_bytes e tr evs \<and> length (drop 12 out) + owed (fh_reader h') = left \<and>
    (if out ! 8 = 1 then owed (fh_reader h') = 0 else transfer_at h' (k + 1) (owed (fh_reader h')))"
proof -
  have ok: "reader_ok (fh_reader h)" "rd_kind (fh_reader h) = BVSTK_FS_FILE" using inv live t by (auto simp: handle_inv_def transfer_at_def)
  have pos: "0 < unat (fh_block_size h)" using inv live by (auto simp: handle_inv_def word_less_nat_alt)
  obtain rc ro tr1 data eof where rd: "bvstk_fs_reader_read e (Some (fh_reader h)) True (unat (fh_block_size h)) True tr = (rc, ro, tr1, data, eof)"
    by (metis prod_cases5)
  obtain r' where r': "ro = Some r'" "rc = BVSTK_FS_OK \<longrightarrow> same_job (fh_reader h) r' \<and> owed_rel (fh_reader h) 0 r' (length data) \<and> (eof \<longrightarrow> owed r' = 0)"
    using reader_read_run [OF e ok(1) pos rd] by metis
  have nk: "\<not> (fh_has_block h \<and> k = fh_last_block h)" using t by (auto simp: transfer_at_def)
  define h2 where "h2 = h\<lparr>fh_reader := r', fh_last_block := k, fh_has_block := True, fh_cached := data, fh_eof := eof\<rparr>"
  have eq: "rc = BVSTK_FS_OK" "h' = h2" "tr' = tr1" "out = block_body h2 k"
  proof -
    have "wire_status rc = 0 \<and> h' = h2 \<and> tr' = tr1 \<and> out = block_body h2 k"
      using r t nk unfolding read_response_def Let_def rd r'(1) prod.case option.case h2_def
      by (auto simp: transfer_at_def split: if_splits)
    then show "rc = BVSTK_FS_OK" "h' = h2" "tr' = tr1" "out = block_body h2 k" by (simp_all add: wire_status_zero)
  qed
  have out: "drop 12 out = data" "out ! 8 = (if eof then 1 else 0)" unfolding eq(4) by (simp_all add: block_body_def be32_def be16_def h2_def numeral_eq_Suc)
  have left: "length data + owed r' = left" using r'(2) eq(1) ok(2) t by (auto simp: owed_rel_def transfer_at_def)
  obtain evs where "tr1 = tr @ evs" "data = file_bytes e tr evs" using reader_read_file_bytes [OF e ok pos rd [unfolded eq(1)]] by blast
  moreover have "transfer_at h2 (k + 1) (owed r')" if "\<not> eof" using t that r'(2) eq(1) ok(2) by (auto simp: transfer_at_def h2_def same_job_def)
  ultimately show ?thesis using out left eq r'(2) by (auto simp: h2_def)
qed


lemma download_run:
  assumes e: "backend_handles e"
  shows "session_inv s \<Longrightarrow> i < length (fs_handles s) \<Longrightarrow> fh_handle (fs_handles s ! i) = n \<Longrightarrow> n \<noteq> 0 \<Longrightarrow> in_time (fh_last_activity (fs_handles s ! i)) ts \<Longrightarrow>
    transfer_at (fs_handles s ! i) k left \<Longrightarrow> fs_download e s n k ts capacity tr = (True, s', tr', data, eof) \<Longrightarrow>
    \<exists>evs. tr' = tr @ evs \<and> data = file_bytes e tr evs \<and> length data \<le> left \<and> (eof \<longrightarrow> length data = left)"
proof (induction ts arbitrary: s k left tr data)
  case (Cons t ts)
  define b where "b = be32 n @ be32 k"
  have b: "length b = 8" "get32 b = n" "get32 (drop 4 b) = k"
    using read_be32_be32 [of k "[]"] by (simp_all add: b_def read_be32_be32)
  have al: "t - fh_last_activity (fs_handles s ! i) < BVSTK_DCP2_FS_IDLE_MS" "in_time t ts" using Cons.prems(5) by simp_all
  obtain s1 tr1 evs where q: "session_inv s1" "i < length (fs_handles s1)" "fs_handles s1 ! i = fs_handles s ! i" "tr1 = tr @ evs" "list_all is_close evs"
    "bvstk_dcp2_fs_request e s True BVSTK_DCP2_FS_READ (Some b) 8 t capacity tr =
      (case read_response e ((fs_handles s ! i)\<lparr>fh_last_activity := t\<rparr>) (get32 (drop 4 b)) capacity tr1 of
         (st, h, tr2, out) \<Rightarrow> (st, s1\<lparr>fs_handles := (fs_handles s1)[i := h]\<rparr>, tr2, out))"
    by (rule read_request_live [OF Cons.prems(1-4) al(1) b(1,2), of tr e capacity])
  let ?h = "(fs_handles s ! i)\<lparr>fh_last_activity := t\<rparr>"
  obtain st h tr2 out where r: "read_response e ?h k capacity tr1 = (st, h, tr2, out)" by (metis prod_cases4)
  let ?s2 = "s1\<lparr>fs_handles := (fs_handles s1)[i := h]\<rparr>"
  have rq: "bvstk_dcp2_fs_request e s True BVSTK_DCP2_FS_READ (Some (be32 n @ be32 k)) 8 t capacity tr = (st, ?s2, tr2, out)"
    using q(6) r by (simp add: b(3) b_def [symmetric])
  have st: "st = 0" using Cons.prems(7) rq by (auto split: if_splits)
  have hi: "handle_inv ?h" "fh_handle ?h \<noteq> 0" using Cons.prems(1-4) by (auto simp: session_inv_def list_all_length handle_inv_def)
  have "transfer_at ?h k left" using Cons.prems(6) by (simp add: transfer_at_def)
  from read_next_block [OF e hi this r [unfolded st]] obtain evs2 where n2: "tr2 = tr1 @ evs2" "drop 12 out = file_bytes e tr1 evs2"
    "length (drop 12 out) + owed (fh_reader h) = left" "if out ! 8 = 1 then owed (fh_reader h) = 0 else transfer_at h (k + 1) (owed (fh_reader h))" by blast
  have one: "tr2 = tr @ (evs @ evs2)" "drop 12 out = file_bytes e tr (evs @ evs2)"
    using n2(1,2) q(4,5) by (simp_all add: file_bytes_append file_bytes_closes)
  show ?case
  proof (cases "out ! 8 = 1")
    case True
    then have "tr' = tr2" "data = drop 12 out" using Cons.prems(7) rq st by auto
    then show ?thesis using one n2(3,4) True by auto
  next
    case False
    obtain ok s3 tr3 data2 eof2 where d: "fs_download e ?s2 n (k + 1) ts capacity tr2 = (ok, s3, tr3, data2, eof2)" by (metis prod_cases5)
    have eq: "ok" "s3 = s'" "tr3 = tr'" "eof2 = eof" "data = drop 12 out @ data2" using Cons.prems(7) rq st False d by auto
    have h: "fh_handle h = n" "fh_last_activity h = t" using read_response_OK [OF r [unfolded st]] Cons.prems(3) by simp_all
    have inv2: "session_inv ?s2" using request_run [OF e Cons.prems(1) rq] by blast
    have "\<exists>evs. tr' = tr2 @ evs \<and> data2 = file_bytes e tr2 evs \<and> length data2 \<le> owed (fh_reader h) \<and> (eof \<longrightarrow> length data2 = owed (fh_reader h))"
      by (rule Cons.IH [OF inv2 _ _ Cons.prems(4), of "k + 1" "owed (fh_reader h)"]) (use q(2) h al(2) n2(4) False d eq in auto)
    then obtain evs3 where "tr' = tr2 @ evs3" "data2 = file_bytes e tr2 evs3" "length data2 \<le> owed (fh_reader h)" "eof \<longrightarrow> length data2 = owed (fh_reader h)" by blast
    then have "tr' = tr @ ((evs @ evs2) @ evs3) \<and> data = file_bytes e tr ((evs @ evs2) @ evs3) \<and> length data \<le> left \<and> (eof \<longrightarrow> length data = left)"
      using one eq(5) n2(3) by (auto simp: file_bytes_append)
    then show ?thesis by blast
  qed
qed (auto intro: exI [of _ "[]"])

lemma open_new_transfer:
  assumes e: "backend_handles e" and inv: "session_inv s"
    and o: "bvstk_dcp2_fs_request e s True BVSTK_DCP2_FS_OPEN (Some b) (length b) now capacity tr = (0, s1, tr1, out)"
    and new: "get32 out = fs_next_handle s" and kind: "b ! 4 = BVSTK_FS_FILE"
  shows "\<exists>i total. i < length (fs_handles s1) \<and> fh_handle (fs_handles s1 ! i) = get32 out \<and> get32 out \<noteq> 0 \<and> fh_last_activity (fs_handles s1 ! i) = now \<and>
    drop 6 out = be64 total \<and> transfer_at (fs_handles s1 ! i) 0 (unat total)"
proof -
  obtain s0 tr0 where x: "bvstk_dcp2_fs_expire s now tr = (s0, tr0)" by (metis surj_pair)
  have r: "session_inv s0" "fs_next_handle s0 = fs_next_handle s" using expire_run [OF inv x] by auto
  have bk: "fs_backend s" using inv by (simp add: session_inv_def)
  have op: "open_response e s0 b now capacity tr0 = (0, s1, tr1, out)"
    using o bk unfolding bvstk_dcp2_fs_request_def Let_def x prod.case option.case by simp
  from op show ?thesis
  proof (cases rule: open_response_cases)
    case (Slot i kd flags requested path open_id)
    have i: "i < length (fs_handles s0)" using open_scan_found [OF r(1) Slot(4)] by blast
    have hi: "handle_inv (fs_handles s0 ! i)" "fh_handle (fs_handles s0 ! i) < fs_next_handle s0" using r(1) i Slot(3) by (auto simp: session_inv_def list_all_length)
    have kd: "kd = BVSTK_FS_FILE" using Slot(7) kind by simp
    obtain rc rr tr2 where ro: "bvstk_fs_reader_open e path kd flags tr0 = (rc, rr, tr2)" by (metis prod_cases3)
    have z: "fs_handles s0 ! i = zero_fs_handle"
    proof (rule ccontr)
      assume "fs_handles s0 ! i \<noteq> zero_fs_handle"
      then have "fh_handle (fs_handles s0 ! i) \<noteq> 0" using hi(1) by (auto simp: handle_inv_def)
      then have "get32 out = fh_handle (fs_handles s0 ! i)" using Slot(6) by (auto simp: open_slot_def open_body_def Let_def read_be32_be32)
      then show False using new hi(2) r(2) by simp
    qed
    define h where "h = zero_fs_handle\<lparr>fh_reader := rr, fh_handle := fs_next_handle s0, fh_open_id := open_id, fh_requested_block_size := requested,
      fh_block_size := (if requested \<noteq> 0 then requested else BVSTK_DCP2_FS_BLOCK_MAX), fh_last_activity := now\<rparr>"
    have eq: "rc = BVSTK_FS_OK" "fs_handles s1 = (fs_handles s0)[i := h]" "out = open_body h"
      using Slot(6) ro z wire_status_zero [of rc] by (auto simp: open_slot_def h_def Let_def zero_fs_handle_def split: if_splits)
    have w: "rd_kind rr = BVSTK_FS_FILE" "owed rr = unat (rd_total_size rr)" using reader_open_run [OF e ro] eq(1) kd by (auto simp: opened_well_def)
    have "drop 6 out = be64 (rd_total_size rr)" unfolding eq(3) by (simp add: open_body_def h_def)
    moreover have "get32 out = fs_next_handle s0" unfolding eq(3) by (simp add: open_body_def h_def read_be32_be32)
    moreover have "transfer_at h 0 (unat (rd_total_size rr))" using w by (simp add: transfer_at_def h_def zero_fs_handle_def)
    ultimately show ?thesis using i eq(2) Slot(3) by (intro exI [of _ i] exI [of _ "rd_total_size rr"]) (simp add: h_def)
  qed simp
qed

text \<open>C29: a client that opens a file and then asks for block after block, never pausing longer than the idle
  limit, receives the file: the concatenated data of its replies is, in order and without gap or
  repetition, what the backend returned for this transfer; it never exceeds the size announced
  in the reply to the open, and when a reply carries the end mark it is exactly that size.\<close>

theorem dcp2_fs_download_exact:
  assumes "backend_handles e" and "session_inv s"
    and "bvstk_dcp2_fs_request e s True BVSTK_DCP2_FS_OPEN (Some b) (length b) now capacity0 tr = (0, s1, tr1, out)"
    and "get32 out = fs_next_handle s" and "b ! 4 = BVSTK_FS_FILE" and "in_time now ts"
    and "fs_download e s1 (get32 out) 0 ts capacity tr1 = (True, s2, tr2, data, eof)"
  shows "\<exists>total evs. drop 6 out = be64 total \<and> tr2 = tr1 @ evs \<and> data = file_bytes e tr1 evs \<and> length data \<le> unat total \<and> (eof \<longrightarrow> length data = unat total)"
proof -
  obtain i total where t: "i < length (fs_handles s1)" "fh_handle (fs_handles s1 ! i) = get32 out" "get32 out \<noteq> 0" "fh_last_activity (fs_handles s1 ! i) = now"
    "drop 6 out = be64 total" "transfer_at (fs_handles s1 ! i) 0 (unat total)" using open_new_transfer [OF assms(1-5)] by blast
  have "session_inv s1" using request_run [OF assms(1-3)] by blast
  from download_run [OF assms(1) this t(1-3) _ t(6) assms(7)] show ?thesis using assms(6) t(4,5) by blast
qed


section \<open>A concrete session\<close>

definition demo_open_body :: bytes where
  "demo_open_body = be32 7 @ [BVSTK_FS_FILE, 0] @ be16 2 @ be16 6 @ ascii ''sd0:/f''"

definition demo_session_open :: "u16 \<times> bvstk_dcp2_fs_session_t \<times> fs_trace \<times> bytes" where
  "demo_session_open = bvstk_dcp2_fs_request demo_fs (bvstk_dcp2_fs_init True) True BVSTK_DCP2_FS_OPEN (Some demo_open_body) (length demo_open_body) 1000 4096 []"

definition demo_download :: "bool \<times> bvstk_dcp2_fs_session_t \<times> fs_trace \<times> bytes \<times> bool" where
  "demo_download = (case demo_session_open of (st, s, tr, out) \<Rightarrow> fs_download demo_fs s 1 0 [2000, 31000] 4096 tr)"

lemma demo_open_values: "fst demo_session_open = 0" "snd (snd (snd demo_session_open)) = be32 1 @ be16 2 @ be64 3" "demo_open_body ! 4 = 1"
  by code_simp+

lemma demo_download_values: "fst demo_download" "fst (snd (snd (snd demo_download))) = ascii ''abc''" "snd (snd (snd (snd demo_download)))"
  by code_simp+

theorem dcp2_fs_download_exact_witness:
  "\<exists>s1 tr1 out s2 tr2 data. bvstk_dcp2_fs_request demo_fs (bvstk_dcp2_fs_init True) True BVSTK_DCP2_FS_OPEN (Some demo_open_body) (length demo_open_body) 1000 4096 [] = (0, s1, tr1, out) \<and>
    fs_download demo_fs s1 (get32 out) 0 [2000, 31000] 4096 tr1 = (True, s2, tr2, data, True) \<and> data = ascii ''abc'' \<and>
    (\<exists>total. drop 6 out = be64 total \<and> length data = unat total)"
proof -
  obtain st s1 tr1 out where o: "demo_session_open = (st, s1, tr1, out)" by (metis prod_cases4)
  obtain ok s2 tr2 data eof where d: "demo_download = (ok, s2, tr2, data, eof)" by (metis prod_cases5)
  have v: "st = 0" "out = be32 1 @ be16 2 @ be64 3" "ok" "data = ascii ''abc''" "eof"
    using demo_open_values(1,2) demo_download_values unfolding o d fst_conv snd_conv .
  have g: "get32 out = 1" unfolding v(2) by (rule read_be32_be32)
  have dl: "fs_download demo_fs s1 (get32 out) 0 [2000, 31000] 4096 tr1 = (True, s2, tr2, data, True)" using d [unfolded demo_download_def o prod.case] v(3,5) unfolding g by (simp only: simp_thms)
  note op = o [unfolded demo_session_open_def v(1)]
  have "\<exists>total evs. drop 6 out = be64 total \<and> tr2 = tr1 @ evs \<and> data = file_bytes demo_fs tr1 evs \<and> length data \<le> unat total \<and> (True \<longrightarrow> length data = unat total)"
    by (rule dcp2_fs_download_exact [OF demo_fs_handles session_inv_init op _ demo_open_values(3) _ dl]) (simp_all add: g bvstk_dcp2_fs_init_def)
  then show ?thesis using op dl v(4) by blast
qed

theorem dcp2_fs_session_safe_witness:
  "\<exists>s tr outs s' tr'. fs_session_run demo_fs (bvstk_dcp2_fs_init True) [(2, Some demo_open_body, length demo_open_body, 1000, 4096), (3, Some (be32 1 @ be32 0), 8, 1001, 4096)] [] = (s, tr, outs) \<and>
     bvstk_dcp2_fs_destroy s tr = (s', tr') \<and> session_inv s \<and> returned [] tr'"
proof -
  obtain s tr outs where r: "fs_session_run demo_fs (bvstk_dcp2_fs_init True) [(2, Some demo_open_body, length demo_open_body, 1000, 4096), (3, Some (be32 1 @ be32 0), 8, 1001, 4096)] [] = (s, tr, outs)"
    by (metis prod_cases3)
  obtain s' tr' where d: "bvstk_dcp2_fs_destroy s tr = (s', tr')" by (metis surj_pair)
  show ?thesis using dcp2_fs_session_safe [OF demo_fs_handles r d] r d by blast
qed

definition demo_first_block :: "u16 \<times> bvstk_dcp2_fs_session_t \<times> fs_trace \<times> bytes" where
  "demo_first_block = (case demo_session_open of (st, s, tr, out) \<Rightarrow> bvstk_dcp2_fs_request demo_fs s True BVSTK_DCP2_FS_READ (Some (be32 1 @ be32 0)) 8 2000 4096 tr)"

lemma demo_first_block_values: "fst demo_first_block = 0" "drop 12 (snd (snd (snd demo_first_block))) = ascii ''ab''"
  by code_simp+

theorem dcp2_fs_read_idempotent_witness:
  "\<exists>s tr s1 tr1 out s2 evs. bvstk_dcp2_fs_request demo_fs s True BVSTK_DCP2_FS_READ (Some (be32 1 @ be32 0)) 8 2000 4096 tr = (0, s1, tr1, out) \<and>
    drop 12 out = ascii ''ab'' \<and>
    bvstk_dcp2_fs_request demo_fs s1 True BVSTK_DCP2_FS_READ (Some (be32 1 @ be32 0)) 8 9000 4096 tr1 = (0, s2, tr1 @ evs, out) \<and> list_all is_close evs"
proof -
  obtain st s tr out0 where o: "demo_session_open = (st, s, tr, out0)" by (metis prod_cases4)
  obtain st1 s1 tr1 out where f: "demo_first_block = (st1, s1, tr1, out)" by (metis prod_cases4)
  have v: "st1 = 0" "drop 12 out = ascii ''ab''" using demo_first_block_values unfolding f fst_conv snd_conv .
  have r: "bvstk_dcp2_fs_request demo_fs s True BVSTK_DCP2_FS_READ (Some (be32 1 @ be32 0)) 8 2000 4096 tr = (0, s1, tr1, out)"
    using f unfolding demo_first_block_def o prod.case v(1) .
  have inv: "session_inv s" using request_run [OF demo_fs_handles session_inv_init] o unfolding demo_session_open_def by blast
  have "\<exists>s2 evs. bvstk_dcp2_fs_request demo_fs s1 True BVSTK_DCP2_FS_READ (Some (be32 1 @ be32 0)) 8 9000 4096 tr1 = (0, s2, tr1 @ evs, out) \<and> list_all is_close evs"
    by (rule dcp2_fs_read_idempotent [OF demo_fs_handles inv _ r]) simp_all
  then show ?thesis using r v(2) by blast
qed

end
