(* ===== verification/Sd_Master.thy ===== *)
theory Sd_Master
  imports Bvstk_Status "HOL-Library.Monad_Syntax"
begin

text \<open>
  The SD master driver, \<open>src/drivers/pl/sd/bvstk_sd_master.c\<close>: card initialisation and the
  commands 13, 16, 17 and 24 over the command core, its DMA engine and the block RAM they
  share.

  The hardware and the port are parameters: \<open>sd_env\<close> says what a register read returns,
  whether a write is accepted, what the clock shows, what the interrupt glue reports and
  whether a lock is granted, each as a function of everything that happened so far (the
  trace). Every access is appended to the trace with its result, so the hardware may behave
  in any way at all and still be observed. The driver itself keeps a flag \<open>io_error\<close>, and a
  driver state is the driver together with the trace.

  The three polling loops end only when the hardware answers or the clock passes the limit.
  They are partial functions: \<open>None\<close> is a loop that never ends, and the operations that run
  them are written in the option monad.
\<close>

datatype sd_region = SDM_CORE | SDM_DMA | SDM_BRAM

datatype sd_event =
    ERead sd_region nat "u32 option"
  | EWrite sd_region nat u32 bool
  | EBarrier
  | ENow
  | ESleep nat
  | EPrepare
  | ECount
  | EDisable
  | EOpen sd_region
  | EClose sd_region
  | ELock nat
  | EUnlock

type_synonym sd_trace = "sd_event list"

record sd_env =
  mm_read :: "sd_trace \<Rightarrow> sd_region \<Rightarrow> nat \<Rightarrow> u32 option"
  mm_write :: "sd_trace \<Rightarrow> sd_region \<Rightarrow> nat \<Rightarrow> u32 \<Rightarrow> bool"
  mm_open :: "sd_trace \<Rightarrow> sd_region \<Rightarrow> bool"
  ck_now :: "sd_trace \<Rightarrow> nat"
  ev_prepare :: "sd_trace \<Rightarrow> bvstk_status_t"
  ev_count :: "sd_trace \<Rightarrow> u32"
  mx_lock :: "sd_trace \<Rightarrow> nat \<Rightarrow> bvstk_status_t"

subsection \<open>Registers\<close>

definition SDM_CSR :: nat where "SDM_CSR = 0x00"
definition SDM_IRQ :: nat where "SDM_IRQ = 0x04"
definition SDM_PACKET :: nat where "SDM_PACKET = 0x08"
definition SDM_DELAY :: nat where "SDM_DELAY = 0x0c"
definition SDM_INIT :: nat where "SDM_INIT = 0x14"
definition SDM_DIVIDER :: nat where "SDM_DIVIDER = 0x18"
definition SDM_RESET :: u32 where "SDM_RESET = 1"
definition SDM_START_READ :: u32 where "SDM_START_READ = 6"
definition SDM_START_COMMAND :: u32 where "SDM_START_COMMAND = 14"
definition SDM_FALL_THROUGH :: u32 where "SDM_FALL_THROUGH = 3"
definition SDM_INIT_VALUE :: u32 where "SDM_INIT_VALUE = 0x193"
definition SDM_TX_CONTROL :: nat where "SDM_TX_CONTROL = 0x00"
definition SDM_TX_STATUS :: nat where "SDM_TX_STATUS = 0x04"
definition SDM_TX_SOURCE :: nat where "SDM_TX_SOURCE = 0x18"
definition SDM_TX_LENGTH :: nat where "SDM_TX_LENGTH = 0x28"
definition SDM_RX_CONTROL :: nat where "SDM_RX_CONTROL = 0x30"
definition SDM_RX_STATUS :: nat where "SDM_RX_STATUS = 0x34"
definition SDM_RX_DESTINATION :: nat where "SDM_RX_DESTINATION = 0x48"
definition SDM_RX_LENGTH :: nat where "SDM_RX_LENGTH = 0x58"
definition SDM_DMA_RUN :: u32 where "SDM_DMA_RUN = 1"
definition SDM_DMA_RESET :: u32 where "SDM_DMA_RESET = 4"
definition SDM_DMA_HALTED :: u32 where "SDM_DMA_HALTED = 1"
definition SDM_DMA_IDLE :: u32 where "SDM_DMA_IDLE = 2"
definition SDM_DMA_ERRORS :: u32 where "SDM_DMA_ERRORS = 0x770"
definition SDM_DMA_IOC :: u32 where "SDM_DMA_IOC = 0x1000"
definition SDM_DMA_IRQS :: u32 where "SDM_DMA_IRQS = 0x7000"
definition SDM_MB_CMD13 :: nat where "SDM_MB_CMD13 = 0x34"
definition SDM_MB_CMD16 :: nat where "SDM_MB_CMD16 = 0x38"
definition SDM_MB_CMD17 :: nat where "SDM_MB_CMD17 = 0x3c"
definition SDM_MB_CMD24 :: nat where "SDM_MB_CMD24 = 0x44"
definition SDM_TX_AREA :: nat where "SDM_TX_AREA = 0x400"
definition SDM_RX_AREA :: nat where "SDM_RX_AREA = 0x1000"
definition SDM_BLOCK_SIZE :: nat where "SDM_BLOCK_SIZE = 512"
definition SDM_RX_BYTES :: nat where "SDM_RX_BYTES = 514"
definition SDM_TX_BYTES :: nat where "SDM_TX_BYTES = 522"
definition SDM_INIT_WORDS :: nat where "SDM_INIT_WORDS = 7"
definition SDM_BRAM_MIN :: nat where "SDM_BRAM_MIN = 0x1208"
definition SENTINEL :: u32 where "SENTINEL = 0xa5963cc3"
definition GUARD :: u32 where "GUARD = 0x69c35aa5"

lemmas sdm_offsets = SDM_CSR_def SDM_IRQ_def SDM_PACKET_def SDM_DELAY_def SDM_INIT_def SDM_DIVIDER_def
  SDM_TX_CONTROL_def SDM_TX_STATUS_def SDM_TX_SOURCE_def SDM_TX_LENGTH_def SDM_RX_CONTROL_def
  SDM_RX_STATUS_def SDM_RX_DESTINATION_def SDM_RX_LENGTH_def SDM_MB_CMD13_def SDM_MB_CMD16_def
  SDM_MB_CMD17_def SDM_MB_CMD24_def SDM_TX_AREA_def SDM_RX_AREA_def SDM_INIT_WORDS_def

lemmas sdm_values = SDM_RESET_def SDM_START_READ_def SDM_START_COMMAND_def SDM_FALL_THROUGH_def
  SDM_INIT_VALUE_def SDM_DMA_RUN_def SDM_DMA_RESET_def SDM_DMA_HALTED_def SDM_DMA_IDLE_def
  SDM_DMA_ERRORS_def SDM_DMA_IOC_def SDM_DMA_IRQS_def SENTINEL_def GUARD_def

lemmas sdm_sizes = SDM_BLOCK_SIZE_def SDM_RX_BYTES_def SDM_TX_BYTES_def SDM_BRAM_MIN_def

subsection \<open>The driver and its report\<close>

record bvstk_sd_master_config_t =
  sc_core_base :: u64
  sc_dma_base :: u64
  sc_bram_base :: u64
  sc_bram_size :: nat
  sc_init_divider :: u16
  sc_data_divider :: u16
  sc_events_set :: bool
  sc_read_mailbox_is_stream :: bool
  sc_read_descriptor_bytes :: u8

record bvstk_sd_master_report_t =
  rp_csr :: u32
  rp_irq :: u32
  rp_irq_count :: u32
  rp_tx_status :: u32
  rp_rx_status :: u32
  rp_rx_length :: u32
  rp_reply :: u32
  rp_first_reply :: u32
  rp_init_reply :: "u32 list"
  rp_elapsed_ms :: u32
  rp_crc_calculated :: u16
  rp_crc_received :: u16
  rp_command :: u8
  rp_guards_ok :: bool
  rp_read_idle_reply :: bool
  rp_stage :: string

definition zero_report :: bvstk_sd_master_report_t where
  "zero_report = \<lparr> rp_csr = 0, rp_irq = 0, rp_irq_count = 0, rp_tx_status = 0, rp_rx_status = 0,
     rp_rx_length = 0, rp_reply = 0, rp_first_reply = 0, rp_init_reply = replicate SDM_INIT_WORDS 0,
     rp_elapsed_ms = 0, rp_crc_calculated = 0, rp_crc_received = 0, rp_command = 0,
     rp_guards_ok = False, rp_read_idle_reply = False, rp_stage = '''' \<rparr>"

record bvstk_sd_master_t =
  dm_config :: bvstk_sd_master_config_t
  dm_open :: bool
  dm_io_error :: bool

type_synonym sd_st = "bvstk_sd_master_t \<times> sd_trace"

definition rd :: "sd_env \<Rightarrow> sd_region \<Rightarrow> nat \<Rightarrow> sd_st \<Rightarrow> u32 \<times> sd_st" where
  "rd e region off s = (case s of (d, tr) \<Rightarrow>
     let result = mm_read e tr region off; tr' = tr @ [ERead region off result] in
     (case result of
        Some v \<Rightarrow> (v, (d, tr'))
      | None \<Rightarrow> (0, (d\<lparr>dm_io_error := True\<rparr>, tr'))))"

definition wr :: "sd_env \<Rightarrow> sd_region \<Rightarrow> nat \<Rightarrow> u32 \<Rightarrow> sd_st \<Rightarrow> sd_st" where
  "wr e region off v s = (case s of (d, tr) \<Rightarrow>
     if dm_io_error d then (d, tr @ [EBarrier])
     else let ok = mm_write e tr region off v
          in (if ok then d else d\<lparr>dm_io_error := True\<rparr>, tr @ [EWrite region off v ok, EBarrier]))"

definition sd_say :: "sd_event \<Rightarrow> sd_st \<Rightarrow> sd_st" where
  "sd_say ev s = (fst s, snd s @ [ev])"

definition now_ms :: "sd_env \<Rightarrow> sd_st \<Rightarrow> u64 \<times> sd_st" where
  "now_ms e s = (of_nat (ck_now e (snd s)), sd_say ENow s)"

definition elapsed :: "sd_env \<Rightarrow> u64 \<Rightarrow> sd_st \<Rightarrow> u32 \<times> sd_st" where
  "elapsed e start s = (case now_ms e s of (t, s') \<Rightarrow> (ucast (t - start), s'))"

definition dma_reset_step :: "sd_env \<Rightarrow> sd_st \<Rightarrow> (bvstk_status_t + unit) \<times> sd_st" where
  "dma_reset_step e s =
    (let (a, s1) = rd e SDM_DMA SDM_TX_CONTROL s;
         (b, s2) = rd e SDM_DMA SDM_RX_CONTROL s1 in
     if dm_io_error (fst s2) then (Inl BVSTK_ERR_IO, s2)
     else if (a OR b) AND SDM_DMA_RESET = 0 then
       let s3 = wr e SDM_DMA SDM_RX_STATUS SDM_DMA_IRQS (wr e SDM_DMA SDM_TX_STATUS SDM_DMA_IRQS s2)
       in (Inl (if dm_io_error (fst s3) then BVSTK_ERR_IO else BVSTK_OK), s3)
     else (Inr (), sd_say (ESleep 1) s2))"

partial_function (option) dma_reset_loop :: "sd_env \<Rightarrow> u32 \<Rightarrow> u64 \<Rightarrow> sd_st \<Rightarrow> (bvstk_status_t \<times> sd_st) option" where
  "dma_reset_loop e limit start s =
    (case dma_reset_step e s of
       (Inl st, s1) \<Rightarrow> Some (st, s1)
     | (Inr u, s1) \<Rightarrow>
         (case elapsed e start s1 of (el, s2) \<Rightarrow>
            if el < limit then dma_reset_loop e limit start s2 else Some (BVSTK_ERR_TIMEOUT, s2)))"

definition dma_reset :: "sd_env \<Rightarrow> sd_st \<Rightarrow> (bvstk_status_t \<times> sd_st) option" where
  "dma_reset e s = (case now_ms e s of (start, s1) \<Rightarrow>
     dma_reset_loop e 100 start (wr e SDM_DMA SDM_TX_CONTROL SDM_DMA_RESET s1))"

definition abort_transfer :: "sd_env \<Rightarrow> sd_st \<Rightarrow> sd_st option" where
  "abort_transfer e s = do {
     (_, s1) \<leftarrow> dma_reset e (apfst (dm_io_error_update (\<lambda>_. False)) (sd_say EDisable s));
     Some (wr e SDM_CORE SDM_CSR SDM_RESET s1) }"

definition sd_snapshot :: "sd_env \<Rightarrow> bvstk_sd_master_report_t \<Rightarrow> sd_st \<Rightarrow> bvstk_sd_master_report_t \<times> sd_st" where
  "sd_snapshot e r s =
    (let (csr, s1) = rd e SDM_CORE SDM_CSR s;
         (irq, s2) = rd e SDM_CORE SDM_IRQ s1;
         count = ev_count e (snd s2); s3 = sd_say ECount s2;
         (tx, s4) = rd e SDM_DMA SDM_TX_STATUS s3;
         (rx, s5) = rd e SDM_DMA SDM_RX_STATUS s4;
         (len, s6) = rd e SDM_DMA SDM_RX_LENGTH s5
     in (r\<lparr>rp_csr := csr, rp_irq := rp_irq r OR irq, rp_irq_count := count, rp_tx_status := tx,
           rp_rx_status := rx, rp_rx_length := len\<rparr>, s6))"

definition dma_done :: "u32 \<Rightarrow> bool" where
  "dma_done status \<longleftrightarrow>
     status AND (SDM_DMA_IOC OR SDM_DMA_IDLE OR SDM_DMA_HALTED OR SDM_DMA_ERRORS) = SDM_DMA_IOC OR SDM_DMA_IDLE"

subsection \<open>Checksums and the command word\<close>

fun crc7_bits :: "nat \<Rightarrow> u8 \<Rightarrow> u8 \<Rightarrow> u8" where
  "crc7_bits 0 byte crc = crc"
| "crc7_bits (Suc n) byte crc =
    (let c = push_bit 1 crc;
         c' = (if (byte XOR c) AND 0x80 \<noteq> 0 then c XOR 0x09 else c)
     in crc7_bits n (push_bit 1 byte) c')"

definition bvstk_sd_master_crc7 :: "bytes \<Rightarrow> u8" where
  "bvstk_sd_master_crc7 data = push_bit 1 (fold (crc7_bits 8) data 0) OR 1"

fun crc16_bits :: "nat \<Rightarrow> u16 \<Rightarrow> u16" where
  "crc16_bits 0 crc = crc"
| "crc16_bits (Suc n) crc =
    crc16_bits n (push_bit 1 crc XOR (if crc AND 0x8000 \<noteq> 0 then 0x1021 else 0))"

definition bvstk_sd_master_crc16 :: "bytes \<Rightarrow> u16" where
  "bvstk_sd_master_crc16 data = fold (\<lambda>b crc. crc16_bits 8 (crc XOR push_bit 8 (ucast b))) data 0"

definition bvstk_sd_master_encode :: "u8 \<Rightarrow> u32 \<Rightarrow> u32 \<times> u32" where
  "bvstk_sd_master_encode command argument =
    (let frame = [0x40 OR command, ucast (drop_bit 24 argument), ucast (drop_bit 16 argument),
                  ucast (drop_bit 8 argument), ucast argument]
     in (push_bit 24 (argument AND 0xff) OR push_bit 8 (argument AND 0xff00) OR
           (drop_bit 8 argument AND 0xff00) OR drop_bit 24 argument,
         ucast (frame ! 0) OR push_bit 8 (ucast (bvstk_sd_master_crc7 frame))))"

subsection \<open>Opening and closing\<close>

definition sd_config_ok :: "bvstk_sd_master_config_t \<Rightarrow> bool" where
  "sd_config_ok cfg \<longleftrightarrow>
     \<not> (\<not> sc_events_set cfg \<or> sc_bram_size cfg < SDM_BRAM_MIN \<or>
        unat (sc_bram_base cfg) > 0xFFFFFFFF - SDM_BRAM_MIN \<or>
        (sc_core_base cfg OR sc_dma_base cfg OR sc_bram_base cfg) AND 3 \<noteq> 0 \<or>
        sc_init_divider cfg < 250 \<or> sc_init_divider cfg AND 1 \<noteq> 0 \<or>
        (sc_read_descriptor_bytes cfg \<noteq> 8 \<and> sc_read_descriptor_bytes cfg \<noteq> 16) \<or>
        sc_data_divider cfg < 2 \<or> sc_data_divider cfg AND 1 \<noteq> 0)"

definition close_regions :: "sd_st \<Rightarrow> sd_st" where
  "close_regions s = sd_say (EClose SDM_CORE) (sd_say (EClose SDM_DMA) (sd_say (EClose SDM_BRAM) s))"

fun open_regions :: "sd_env \<Rightarrow> sd_region list \<Rightarrow> sd_st \<Rightarrow> bool \<times> sd_st" where
  "open_regions e [] s = (True, s)"
| "open_regions e (g # gs) s =
    (if mm_open e (snd s) g then open_regions e gs (sd_say (EOpen g) s) else (False, sd_say (EOpen g) s))"

definition bvstk_sd_master_open :: "sd_env \<Rightarrow> bvstk_sd_master_t option \<Rightarrow> bvstk_sd_master_config_t option \<Rightarrow> sd_trace \<Rightarrow>
    bvstk_status_t \<times> bvstk_sd_master_t option \<times> sd_trace" where
  "bvstk_sd_master_open e dp cp tr =
    (case (dp, cp) of
       (Some d0, Some cfg) \<Rightarrow>
         if \<not> sd_config_ok cfg then (BVSTK_ERR_RANGE, dp, tr)
         else
           let d = \<lparr> dm_config = cfg, dm_open = False, dm_io_error = False \<rparr> in
           (case open_regions e [SDM_CORE, SDM_DMA, SDM_BRAM] (d, tr) of
              (False, s1) \<Rightarrow> let s2 = close_regions s1 in (BVSTK_ERR_IO, Some (fst s2), snd s2)
            | (True, s1) \<Rightarrow> (BVSTK_OK, Some ((fst s1)\<lparr>dm_open := True\<rparr>), snd s1))
     | _ \<Rightarrow> (BVSTK_ERR_RANGE, dp, tr))"

definition bvstk_sd_master_close :: "sd_env \<Rightarrow> bvstk_sd_master_t option \<Rightarrow> sd_trace \<Rightarrow>
    (bvstk_sd_master_t option \<times> sd_trace) option" where
  "bvstk_sd_master_close e dp tr =
    (case dp of
       None \<Rightarrow> Some (dp, tr)
     | Some d \<Rightarrow>
         if \<not> dm_open d then Some (dp, tr)
         else do {
           s1 \<leftarrow> abort_transfer e (d, tr);
           let s2 = close_regions s1;
           Some (Some ((fst s2)\<lparr>dm_open := False\<rparr>), snd s2) })"

subsection \<open>Initialisation\<close>

definition init_valid :: "u32 list \<Rightarrow> bool" where
  "init_valid m \<longleftrightarrow>
     list_all (\<lambda>w. w \<noteq> SENTINEL) (take SDM_INIT_WORDS m) \<and>
     m ! 0 = 1 \<and> m ! 1 = 0x1aa \<and> m ! 2 = 1 \<and> m ! 3 = 0 \<and> m ! 4 \<le> 1 \<and> m ! 6 = 0 \<and>
     m ! 5 AND 0x80000000 \<noteq> 0 \<and> m ! 5 AND 0x00ff8000 \<noteq> 0"

fun read_words :: "sd_env \<Rightarrow> nat \<Rightarrow> nat \<Rightarrow> sd_st \<Rightarrow> u32 list \<times> sd_st" where
  "read_words e off 0 s = ([], s)"
| "read_words e off (Suc n) s =
    (let (w, s1) = rd e SDM_BRAM off s; (ws, s2) = read_words e (off + 4) n s1 in (w # ws, s2))"

type_synonym sd_write = "sd_region \<times> nat \<times> u32"

fun wr_all :: "sd_env \<Rightarrow> sd_write list \<Rightarrow> sd_st \<Rightarrow> sd_st" where
  "wr_all e [] s = s"
| "wr_all e ((g, off, v) # ws) s = wr_all e ws (wr e g off v s)"

definition init_step :: "sd_env \<Rightarrow> bvstk_sd_master_report_t \<Rightarrow> sd_st \<Rightarrow> bvstk_status_t option \<times> bvstk_sd_master_report_t \<times> sd_st" where
  "init_step e r s =
    (let (r1, s1) = sd_snapshot e r s;
         (ws, s2) = read_words e 0 SDM_INIT_WORDS s1;
         r2 = r1\<lparr>rp_init_reply := ws\<rparr> in
     if dm_io_error (fst s2) then (Some BVSTK_ERR_IO, r2, s2)
     else if rp_irq_count r2 \<noteq> 0 \<and> init_valid ws then (Some BVSTK_OK, r2, s2)
     else (None, r2, sd_say (ESleep 1) s2))"

partial_function (option) init_loop :: "sd_env \<Rightarrow> u32 \<Rightarrow> u64 \<Rightarrow> bvstk_sd_master_report_t \<Rightarrow> sd_st \<Rightarrow>
    (bvstk_status_t \<times> bvstk_sd_master_report_t \<times> sd_st) option" where
  "init_loop e limit start r s =
    (case init_step e r s of
       (Some st, r1, s1) \<Rightarrow> Some (st, r1, s1)
     | (None, r1, s1) \<Rightarrow>
         (case elapsed e start s1 of (el, s2) \<Rightarrow>
            if el < limit then init_loop e limit start r1 s2 else Some (BVSTK_ERR_TIMEOUT, r1, s2)))"

text \<open>The label \<open>failed\<close>: the report is completed before the recovery.\<close>

definition sd_failed :: "sd_env \<Rightarrow> bvstk_status_t \<Rightarrow> bvstk_sd_master_report_t \<Rightarrow> sd_st \<Rightarrow>
    (bvstk_status_t \<times> bvstk_sd_master_report_t \<times> sd_st) option" where
  "sd_failed e result r s = do {
     let (r1, s1) = sd_snapshot e r s;
     s2 \<leftarrow> abort_transfer e s1;
     Some (result, r1, s2) }"

definition init_writes :: "bvstk_sd_master_config_t \<Rightarrow> sd_write list" where
  "init_writes cfg = map (\<lambda>i. (SDM_BRAM, i * 4, SENTINEL)) [0..<SDM_INIT_WORDS] @
     [(SDM_CORE, SDM_PACKET, SDM_FALL_THROUGH), (SDM_CORE, SDM_DELAY, 1),
      (SDM_CORE, SDM_DIVIDER, ucast (sc_init_divider cfg)), (SDM_CORE, SDM_CSR, SDM_START_READ)]"

definition initialize_open :: "sd_env \<Rightarrow> u32 \<Rightarrow> sd_st \<Rightarrow> (bvstk_status_t \<times> bvstk_sd_master_report_t \<times> sd_st) option" where
  "initialize_open e timeout_ms s = do {
     let r0 = zero_report\<lparr>rp_stage := ''DMA reset''\<rparr>;
     (result, s1) \<leftarrow> dma_reset e (sd_say EDisable (apfst (dm_io_error_update (\<lambda>_. False)) s));
     if result \<noteq> BVSTK_OK then sd_failed e result r0 s1
     else do {
       let s2 = sd_say (ESleep 2) (wr e SDM_CORE SDM_CSR SDM_RESET s1);
       let s3 = wr_all e (init_writes (dm_config (fst s2))) s2;
       let r1 = r0\<lparr>rp_stage := ''initialization''\<rparr>;
       let prepared = ev_prepare e (snd s3);
       let s4 = sd_say EPrepare s3;
       if prepared \<noteq> BVSTK_OK then sd_failed e prepared r1 s4
       else do {
         let (start, s5) = now_ms e s4;
         (result, r2, s6) \<leftarrow> init_loop e (if timeout_ms \<noteq> 0 then timeout_ms else 20000) start r1
           (wr e SDM_CORE SDM_INIT SDM_INIT_VALUE s5);
         let (el, s7) = elapsed e start s6;
         let r3 = r2\<lparr>rp_elapsed_ms := el\<rparr>;
         if result = BVSTK_OK then Some (result, r3\<lparr>rp_stage := ''initialized''\<rparr>, s7)
         else sd_failed e result r3 s7 }}}"

definition bvstk_sd_master_initialize :: "sd_env \<Rightarrow> bvstk_sd_master_t option \<Rightarrow> u32 \<Rightarrow> bvstk_sd_master_report_t option \<Rightarrow>
    sd_trace \<Rightarrow> (bvstk_status_t \<times> bvstk_sd_master_t option \<times> bvstk_sd_master_report_t option \<times> sd_trace) option" where
  "bvstk_sd_master_initialize e dp timeout_ms rp tr =
    (case (dp, rp) of
       (Some d, Some r0) \<Rightarrow>
         if \<not> dm_open d then Some (BVSTK_ERR_NOT_READY, dp, rp, tr)
         else do {
           (result, r, s) \<leftarrow> initialize_open e timeout_ms (d, tr);
           Some (result, Some (fst s), Some r, snd s) }
     | _ \<Rightarrow> Some (BVSTK_ERR_NOT_READY, dp, rp, tr))"

subsection \<open>Commands\<close>

fun guard_scan :: "sd_env \<Rightarrow> (nat \<times> u32 \<times> u32) list \<Rightarrow> sd_st \<Rightarrow> bool \<times> sd_st" where
  "guard_scan e [] s = (True, s)"
| "guard_scan e ((off, bits, expected) # checks) s =
    (let (w, s1) = rd e SDM_BRAM off s in
     if w AND bits = expected then guard_scan e checks s1 else (False, s1))"

definition tx_padded :: "nat \<Rightarrow> nat" where
  "tx_padded tx_size = (tx_size + 3) div 4 * 4"

definition guards_valid :: "sd_env \<Rightarrow> nat \<Rightarrow> bool \<Rightarrow> sd_st \<Rightarrow> bool \<times> sd_st" where
  "guards_valid e tx_size receive s =
     guard_scan e ([(SDM_TX_AREA - 4, - 1, GUARD), (SDM_TX_AREA + tx_padded tx_size, - 1, GUARD)] @
       (if receive then [(SDM_RX_AREA - 4, - 1, GUARD), (SDM_RX_AREA + 516, - 1, GUARD),
          (SDM_RX_AREA + 512, 0xffff0000, SENTINEL AND 0xffff0000)] else [])) s"

definition command_mailbox :: "u8 \<Rightarrow> nat option" where
  "command_mailbox command =
    (if command = 13 then Some SDM_MB_CMD13 else if command = 16 then Some SDM_MB_CMD16
     else if command = 17 then Some SDM_MB_CMD17 else if command = 24 then Some SDM_MB_CMD24 else None)"

definition block_word :: "bytes \<Rightarrow> nat \<Rightarrow> u32" where
  "block_word b off = push_bit 24 (ucast (b ! off)) OR push_bit 16 (ucast (b ! (off + 1))) OR
     push_bit 8 (ucast (b ! (off + 2))) OR ucast (b ! (off + 3))"

definition descriptor_writes :: "u8 \<Rightarrow> u32 \<Rightarrow> nat \<Rightarrow> sd_write list" where
  "descriptor_writes command argument sz =
    (case bvstk_sd_master_encode command argument of (w0, w1) \<Rightarrow>
      [(SDM_BRAM, SDM_TX_AREA - 4, GUARD), (SDM_BRAM, SDM_TX_AREA, w0), (SDM_BRAM, SDM_TX_AREA + 4, w1)] @
      (if command = 17 \<and> sz = 16
       then [(SDM_BRAM, SDM_TX_AREA + 8, w0), (SDM_BRAM, SDM_TX_AREA + 12, (w1 AND 0xff) OR 0xff00)] else []))"

definition payload_writes :: "bytes option \<Rightarrow> sd_write list" where
  "payload_writes write_block =
    (case write_block of
       None \<Rightarrow> []
     | Some b \<Rightarrow> map (\<lambda>i. (SDM_BRAM, SDM_TX_AREA + 8 + i * 4, block_word b (i * 4))) [0..<SDM_BLOCK_SIZE div 4] @
         [(SDM_BRAM, SDM_TX_AREA + 520, 0xffff0000 OR ucast (bvstk_sd_master_crc16 (take SDM_BLOCK_SIZE b)))])"

definition receive_writes :: "bvstk_sd_master_config_t \<Rightarrow> bool \<Rightarrow> sd_write list" where
  "receive_writes cfg receive =
    (if \<not> receive then []
     else [(SDM_BRAM, SDM_RX_AREA - 4, GUARD)] @
       map (\<lambda>i. (SDM_BRAM, SDM_RX_AREA + i * 4, SENTINEL)) [0..<129] @
       [(SDM_BRAM, SDM_RX_AREA + 516, GUARD), (SDM_DMA, SDM_RX_CONTROL, SDM_DMA_RUN),
        (SDM_DMA, SDM_RX_DESTINATION, ucast (sc_bram_base cfg) + of_nat SDM_RX_AREA),
        (SDM_DMA, SDM_RX_LENGTH, of_nat SDM_RX_BYTES)])"

definition command_writes :: "bvstk_sd_master_config_t \<Rightarrow> u8 \<Rightarrow> u32 \<Rightarrow> nat \<Rightarrow> nat \<Rightarrow> bytes option \<Rightarrow> bool \<Rightarrow> sd_write list" where
  "command_writes cfg command argument sz mailbox write_block receive =
     [(SDM_BRAM, mailbox, SENTINEL)] @ descriptor_writes command argument sz @ payload_writes write_block @
     [(SDM_BRAM, SDM_TX_AREA + tx_padded sz, GUARD)] @ receive_writes cfg receive @
     [(SDM_DMA, SDM_TX_CONTROL, SDM_DMA_RUN),
      (SDM_DMA, SDM_TX_SOURCE, ucast (sc_bram_base cfg) + of_nat SDM_TX_AREA)]"

definition command_step :: "sd_env \<Rightarrow> nat \<Rightarrow> bool \<Rightarrow> bvstk_sd_master_report_t \<Rightarrow> sd_st \<Rightarrow>
    bvstk_status_t option \<times> bvstk_sd_master_report_t \<times> sd_st" where
  "command_step e mailbox receive r s =
    (let (r1, s1) = sd_snapshot e r s;
         (reply, s2) = rd e SDM_BRAM mailbox s1;
         r2 = r1\<lparr>rp_reply := reply\<rparr>;
         r3 = (if rp_first_reply r2 = SENTINEL \<and> reply \<noteq> SENTINEL then r2\<lparr>rp_first_reply := reply\<rparr> else r2) in
     if dm_io_error (fst s2) \<or> (rp_tx_status r3 OR rp_rx_status r3) AND SDM_DMA_ERRORS \<noteq> 0
     then (Some BVSTK_ERR_IO, r3, s2)
     else if rp_irq_count r3 \<noteq> 0 \<and> reply \<noteq> SENTINEL \<and> dma_done (rp_tx_status r3) \<and>
       (\<not> receive \<or> dma_done (rp_rx_status r3)) then (Some BVSTK_OK, r3, s2)
     else (None, r3, sd_say (ESleep 1) s2))"

partial_function (option) command_loop :: "sd_env \<Rightarrow> nat \<Rightarrow> bool \<Rightarrow> u32 \<Rightarrow> u64 \<Rightarrow> bvstk_sd_master_report_t \<Rightarrow> sd_st \<Rightarrow>
    (bvstk_status_t \<times> bvstk_sd_master_report_t \<times> sd_st) option" where
  "command_loop e mailbox receive limit start r s =
    (case command_step e mailbox receive r s of
       (Some st, r1, s1) \<Rightarrow> Some (st, r1, s1)
     | (None, r1, s1) \<Rightarrow>
         (case elapsed e start s1 of (el, s2) \<Rightarrow>
            if el < limit then command_loop e mailbox receive limit start r1 s2
            else Some (BVSTK_ERR_TIMEOUT, r1, s2)))"

definition le_bytes :: "u32 \<Rightarrow> bytes" where
  "le_bytes w = [ucast w, ucast (drop_bit 8 w), ucast (drop_bit 16 w), ucast (drop_bit 24 w)]"

text \<open>The checks after the completion, up to the card's response.\<close>

definition command_result :: "sd_env \<Rightarrow> u8 \<Rightarrow> nat \<Rightarrow> bool \<Rightarrow> bvstk_sd_master_report_t \<Rightarrow> sd_st \<Rightarrow>
    bool \<times> bvstk_sd_master_report_t \<times> sd_st \<times> bytes" where
  "command_result e command sz receive r s =
    (let (ok, s1) = guards_valid e sz receive s;
         r1 = r\<lparr>rp_stage := ''DMA bounds'', rp_guards_ok := ok\<rparr> in
     if \<not> ok \<or> (receive \<and> rp_rx_length r1 \<noteq> of_nat SDM_RX_BYTES) \<or> dm_io_error (fst s1) then (False, r1, s1, [])
     else
       let (ws, s2) = (if receive then read_words e SDM_RX_AREA 129 s1 else ([], s1));
           received = take SDM_RX_BYTES (concat (map le_bytes ws));
           r2 = (if receive then r1\<lparr>rp_stage := ''CRC16'',
                   rp_crc_calculated := bvstk_sd_master_crc16 (take SDM_BLOCK_SIZE received),
                   rp_crc_received := push_bit 8 (ucast (received ! 512)) OR ucast (received ! 513)\<rparr> else r1) in
       if receive \<and> (dm_io_error (fst s2) \<or> rp_crc_calculated r2 \<noteq> rp_crc_received r2) then (False, r2, s2, [])
       else
         let r3 = r2\<lparr>rp_stage := ''card response''\<rparr>; data = take SDM_BLOCK_SIZE received in
         if rp_reply r3 \<noteq> 0 then
           if command = 17 \<and> sc_read_mailbox_is_stream (dm_config (fst s2)) \<and> rp_reply r3 = 0xff
           then (True, r3\<lparr>rp_read_idle_reply := True, rp_stage := ''complete''\<rparr>, s2, data)
           else (False, r3, s2, [])
         else (True, r3\<lparr>rp_stage := ''complete''\<rparr>, s2, data))"

text \<open>The part of \<open>bvstk_sd_master_command\<close> after the argument checks. The last component is
  what is copied to \<open>read_block\<close>.\<close>

definition command_run :: "sd_env \<Rightarrow> u8 \<Rightarrow> u32 \<Rightarrow> nat \<Rightarrow> nat \<Rightarrow> bytes option \<Rightarrow> bool \<Rightarrow> u32 \<Rightarrow> bvstk_sd_master_report_t \<Rightarrow>
    sd_st \<Rightarrow> (bvstk_status_t \<times> bvstk_sd_master_report_t \<times> sd_st \<times> bytes option) option" where
  "command_run e command argument mailbox sz write_block receive timeout_ms r0 s = do {
     let failed = (\<lambda>result r s. do { (st, r', s') \<leftarrow> sd_failed e result r s; Some (st, r', s', None) });
     (result, s1) \<leftarrow> dma_reset e (apfst (dm_io_error_update (\<lambda>_. False)) s);
     if result \<noteq> BVSTK_OK then failed result r0 s1
     else do {
       let cfg = dm_config (fst s1);
       let s2 = wr_all e [(SDM_CORE, SDM_PACKET, SDM_FALL_THROUGH), (SDM_CORE, SDM_DELAY, 1),
         (SDM_CORE, SDM_DIVIDER, ucast (sc_data_divider cfg))] s1;
       let prepared = ev_prepare e (snd s2);
       let s3 = sd_say EPrepare s2;
       if prepared \<noteq> BVSTK_OK then failed prepared r0 s3
       else do {
         let s4 = wr_all e (command_writes cfg command argument sz mailbox write_block receive) s3;
         let (start, s5) = now_ms e s4;
         let s6 = wr_all e [(SDM_DMA, SDM_TX_LENGTH, of_nat sz), (SDM_CORE, SDM_CSR, SDM_START_COMMAND)] s5;
         (result, r1, s7) \<leftarrow> command_loop e mailbox receive (if timeout_ms \<noteq> 0 then timeout_ms else 5000) start
           (r0\<lparr>rp_stage := ''command completion''\<rparr>) s6;
         let (el, s8) = elapsed e start s7;
         let r2 = r1\<lparr>rp_elapsed_ms := el\<rparr>;
         if result \<noteq> BVSTK_OK then failed result r2 s8
         else (case command_result e command sz receive r2 s8 of
             (True, r3, s9, data) \<Rightarrow> Some (BVSTK_OK, r3, s9, if receive then Some data else None)
           | (False, r3, s9, data) \<Rightarrow> failed BVSTK_ERR_IO r3 s9) }}}"

definition command_size :: "bvstk_sd_master_config_t \<Rightarrow> u8 \<Rightarrow> nat" where
  "command_size cfg command =
    (if command = 17 then unat (sc_read_descriptor_bytes cfg) else if command = 24 then SDM_TX_BYTES else 8)"

definition bvstk_sd_master_command :: "sd_env \<Rightarrow> bvstk_sd_master_t option \<Rightarrow> u8 \<Rightarrow> u32 \<Rightarrow> bytes option \<Rightarrow> bool \<Rightarrow> u32 \<Rightarrow>
    bvstk_sd_master_report_t option \<Rightarrow> sd_trace \<Rightarrow>
    (bvstk_status_t \<times> bvstk_sd_master_t option \<times> bvstk_sd_master_report_t option \<times> bytes option \<times> sd_trace) option" where
  "bvstk_sd_master_command e dp command argument write_block receive timeout_ms rp tr =
    (case (dp, rp) of
       (Some d, Some _) \<Rightarrow>
         if \<not> dm_open d then Some (BVSTK_ERR_NOT_READY, dp, rp, None, tr)
         else
           let r0 = zero_report\<lparr>rp_command := command, rp_first_reply := SENTINEL, rp_stage := ''arguments''\<rparr> in
           (case command_mailbox command of
              None \<Rightarrow> Some (BVSTK_ERR_UNSUPPORTED, dp, Some r0, None, tr)
            | Some mailbox \<Rightarrow>
                if (command = 24) \<noteq> (write_block \<noteq> None) \<or> (command = 17) \<noteq> receive
                then Some (BVSTK_ERR_MALFORMED, dp, Some r0, None, tr)
                else do {
                  (result, r, s, data) \<leftarrow> command_run e command argument mailbox (command_size (dm_config d) command)
                    write_block receive timeout_ms (r0\<lparr>rp_stage := ''DMA reset''\<rparr>) (d, tr);
                  Some (result, Some (fst s), Some r, data, snd s) })
     | _ \<Rightarrow> Some (BVSTK_ERR_NOT_READY, dp, rp, None, tr))"

end
