(* ===== verification/Sd_Poll.thy ===== *)
theory Sd_Poll
  imports Sd_Master
begin

text \<open>
  How the SD driver talks to its hardware, and why its loops end.

  \<open>calm\<close> relates two driver states between which no command was started; \<open>sticky\<close> adds that
  an access error was not forgotten. The three polling loops share one shape, stated as the
  locale \<open>sd_poll\<close>: a step that either decides or sleeps, and a check of the clock. Its one
  induction gives that the loop returns and what its result satisfies, for every environment
  whose clock runs (\<open>clock_ok\<close>).
\<close>

subsection \<open>The clock\<close>

text \<open>Time never goes back, a sleep lasts at least as long as asked, and no single event takes
  longer than a second more than that.\<close>

definition event_cost :: "sd_event \<Rightarrow> nat" where
  "event_cost ev = (case ev of ESleep n \<Rightarrow> n | _ \<Rightarrow> 0)"

definition clock_ok :: "sd_env \<Rightarrow> bool" where
  "clock_ok e \<longleftrightarrow> (\<forall>tr ev. ck_now e tr + event_cost ev \<le> ck_now e (tr @ [ev]) \<and>
     ck_now e (tr @ [ev]) \<le> ck_now e tr + event_cost ev + 1000)"

lemma clock_append:
  assumes "clock_ok e"
  shows "ck_now e tr + sum_list (map event_cost evs) \<le> ck_now e (tr @ evs)"
    and "ck_now e (tr @ evs) \<le> ck_now e tr + sum_list (map event_cost evs) + 1000 * length evs"
proof (induction evs rule: rev_induct)
  case (snoc ev evs)
  have "ck_now e (tr @ evs) + event_cost ev \<le> ck_now e ((tr @ evs) @ [ev])"
    "ck_now e ((tr @ evs) @ [ev]) \<le> ck_now e (tr @ evs) + event_cost ev + 1000"
    using assms by (simp_all only: clock_ok_def)
  then show "ck_now e tr + sum_list (map event_cost (evs @ [ev])) \<le> ck_now e (tr @ evs @ [ev])"
    "ck_now e (tr @ evs @ [ev]) \<le> ck_now e tr + sum_list (map event_cost (evs @ [ev])) + 1000 * length (evs @ [ev])"
    using snoc by simp_all
qed simp_all

subsection \<open>States between which no command was started\<close>

definition is_start :: "sd_event \<Rightarrow> bool" where
  "is_start ev = (case ev of EWrite g off v ok \<Rightarrow> g = SDM_CORE \<and> off = SDM_CSR \<and> v = SDM_START_COMMAND | _ \<Rightarrow> False)"

lemma is_start_simps [simp]:
  "\<not> is_start (ERead g off x)" "\<not> is_start EBarrier" "\<not> is_start ENow" "\<not> is_start (ESleep n)"
  "\<not> is_start EPrepare" "\<not> is_start ECount" "\<not> is_start EDisable" "\<not> is_start (ELock n)" "\<not> is_start EUnlock"
  "is_start (EWrite g off v ok) \<longleftrightarrow> g = SDM_CORE \<and> off = SDM_CSR \<and> v = SDM_START_COMMAND"
  by (simp_all add: is_start_def)

definition same_driver :: "bvstk_sd_master_t \<Rightarrow> bvstk_sd_master_t \<Rightarrow> bool" where
  "same_driver d d' \<longleftrightarrow> dm_config d' = dm_config d \<and> dm_open d' = dm_open d"

definition calm :: "sd_st \<Rightarrow> sd_st \<Rightarrow> bool" where
  "calm s s' \<longleftrightarrow> same_driver (fst s) (fst s') \<and> (\<exists>evs. snd s' = snd s @ evs \<and> \<not> list_ex is_start evs)"

definition sticky :: "sd_st \<Rightarrow> sd_st \<Rightarrow> bool" where
  "sticky s s' \<longleftrightarrow> calm s s' \<and> (dm_io_error (fst s) \<longrightarrow> dm_io_error (fst s'))"

lemma same_driver_trans: "same_driver a b \<Longrightarrow> same_driver b c \<Longrightarrow> same_driver a c"
  by (simp add: same_driver_def)

lemma calm_refl [simp]: "calm s s"
  by (auto simp: calm_def same_driver_def)

lemma calm_trans: "calm a b \<Longrightarrow> calm b c \<Longrightarrow> calm a c"
  by (auto simp: calm_def same_driver_def)

lemma sticky_refl [simp]: "sticky s s"
  by (simp add: sticky_def)

lemma sticky_trans: "sticky a b \<Longrightarrow> sticky b c \<Longrightarrow> sticky a c"
  by (auto simp: sticky_def intro: calm_trans)

lemma sticky_calm: "sticky a b \<Longrightarrow> calm a b"
  by (simp add: sticky_def)

lemma sticky_say: "\<not> is_start ev \<Longrightarrow> sticky s (sd_say ev s)"
  by (auto simp: sticky_def calm_def same_driver_def sd_say_def)

lemma sticky_rd: "sticky s (snd (rd e g off s))"
  by (cases s) (auto simp: rd_def sticky_def calm_def same_driver_def Let_def split: option.split)

lemma sticky_wr:
  assumes "\<not> (g = SDM_CORE \<and> off = SDM_CSR \<and> v = SDM_START_COMMAND)"
  shows "sticky s (wr e g off v s)"
  using assms by (cases s) (auto simp: wr_def sticky_def calm_def same_driver_def Let_def)

lemma sticky_wr_all:
  assumes "list_all (\<lambda>(g, off, v). \<not> (g = SDM_CORE \<and> off = SDM_CSR \<and> v = SDM_START_COMMAND)) ws"
  shows "sticky s (wr_all e ws s)"
  using assms
proof (induction ws arbitrary: s)
  case (Cons w ws)
  obtain g off v where w: "w = (g, off, v)" using prod_cases3 by blast
  have "sticky s (wr e g off v s)" using Cons.prems by (intro sticky_wr) (simp add: w)
  moreover have "sticky (wr e g off v s) (wr_all e ws (wr e g off v s))" using Cons.prems by (intro Cons.IH) (simp add: w)
  ultimately show ?case by (auto simp: w intro: sticky_trans)
qed simp

lemma read_words_state:
  "snd (read_words e off (Suc n) s) = snd (read_words e (off + 4) n (snd (rd e SDM_BRAM off s)))"
  by (simp add: Let_def split_beta)

lemma sticky_read_words: "sticky s (snd (read_words e off n s))"
proof (induction n arbitrary: off s)
  case (Suc n)
  show ?case unfolding read_words_state by (rule sticky_trans [OF sticky_rd Suc.IH])
qed simp

lemma sticky_now: "sticky s (snd (now_ms e s))"
  by (simp add: now_ms_def sticky_say)

lemma sticky_elapsed: "sticky s (snd (elapsed e start s))"
  by (simp add: elapsed_def now_ms_def sticky_say)

lemmas sticky_rdI = sticky_trans [OF _ sticky_rd]
lemmas sticky_sayI = sticky_trans [OF _ sticky_say]

lemma snapshot_state:
  "snd (sd_snapshot e r s) = snd (rd e SDM_DMA SDM_RX_LENGTH (snd (rd e SDM_DMA SDM_RX_STATUS
     (snd (rd e SDM_DMA SDM_TX_STATUS (sd_say ECount (snd (rd e SDM_CORE SDM_IRQ (snd (rd e SDM_CORE SDM_CSR s))))))))))"
  by (simp add: sd_snapshot_def Let_def split_beta)

lemma sticky_snapshot: "sticky s (snd (sd_snapshot e r s))"
  unfolding snapshot_state by (intro sticky_rdI sticky_sayI sticky_refl is_start_simps)

subsection \<open>What a stretch of accesses costs\<close>

definition ticks :: "nat \<Rightarrow> nat \<Rightarrow> sd_st \<Rightarrow> sd_st \<Rightarrow> bool" where
  "ticks n k s s' \<longleftrightarrow> (\<exists>evs. snd s' = snd s @ evs \<and> length evs \<le> n \<and> sum_list (map event_cost evs) = k)"

lemma ticks_trans:
  assumes "ticks n k a b" "ticks m l b c"
  shows "ticks (n + m) (k + l) a c"
proof -
  obtain xs ys where "snd b = snd a @ xs" "length xs \<le> n" "sum_list (map event_cost xs) = k"
    "snd c = snd b @ ys" "length ys \<le> m" "sum_list (map event_cost ys) = l"
    using assms by (auto simp: ticks_def)
  then show ?thesis unfolding ticks_def by (intro exI [of _ "xs @ ys"]) simp
qed

lemma ticks_time:
  assumes "clock_ok e" "ticks n k s s'"
  shows "ck_now e (snd s) + k \<le> ck_now e (snd s')" "ck_now e (snd s') \<le> ck_now e (snd s) + k + 1000 * n"
proof -
  obtain evs where x: "snd s' = snd s @ evs" "length evs \<le> n" "sum_list (map event_cost evs) = k"
    using assms(2) by (auto simp: ticks_def)
  show "ck_now e (snd s) + k \<le> ck_now e (snd s')" "ck_now e (snd s') \<le> ck_now e (snd s) + k + 1000 * n"
    using clock_append [OF assms(1), of "snd s" evs] x by simp_all
qed

lemma ticks_say: "ticks 1 (event_cost ev) s (sd_say ev s)"
  by (auto simp: ticks_def sd_say_def)

lemma ticks_rd: "ticks 1 0 s (snd (rd e g off s))"
  by (cases s) (auto simp: ticks_def rd_def Let_def event_cost_def split: option.split)

lemma ticks_refl: "ticks 0 0 s s"
  by (simp add: ticks_def)

lemmas ticks_rdI = ticks_trans [OF _ ticks_rd]
lemmas ticks_sayI = ticks_trans [OF _ ticks_say]

lemma ticks_read_words: "ticks n 0 s (snd (read_words e off n s))"
proof (induction n arbitrary: off s)
  case (Suc n)
  have "ticks (1 + n) (0 + 0) s (snd (read_words e off (Suc n) s))"
    unfolding read_words_state by (rule ticks_trans [OF ticks_rd Suc.IH])
  then show ?case by simp
qed (simp add: ticks_def)

lemma ticks_snapshot: "ticks 6 0 s (snd (sd_snapshot e r s))"
proof -
  have "ticks (0 + 1 + 1 + 1 + 1 + 1 + 1) (0 + 0 + 0 + event_cost ECount + 0 + 0 + 0) s (snd (sd_snapshot e r s))"
    unfolding snapshot_state by (intro ticks_rdI ticks_sayI ticks_refl)
  then show ?thesis by (simp add: event_cost_def numeral_eq_Suc)
qed

subsection \<open>Polling\<close>

text \<open>
  One loop of the driver: \<open>step\<close> decides or sleeps for a millisecond, \<open>loop\<close> repeats it while the
  time since \<open>start\<close> is below the limit and answers \<open>late\<close> otherwise. \<open>state\<close> and \<open>put\<close> give
  access to the driver state inside the loop's variables.
\<close>

locale sd_poll =
  fixes step :: "sd_env \<Rightarrow> 'p \<Rightarrow> 'x \<Rightarrow> 'r + 'x"
    and state :: "'x \<Rightarrow> sd_st"
    and put :: "sd_st \<Rightarrow> 'x \<Rightarrow> 'x"
    and late :: "'x \<Rightarrow> 'r"
    and loop :: "sd_env \<Rightarrow> 'p \<Rightarrow> u32 \<Rightarrow> u64 \<Rightarrow> 'x \<Rightarrow> 'r option"
  assumes loop_eq: "loop e p limit start x =
      (case step e p x of
         Inl r \<Rightarrow> Some r
       | Inr x1 \<Rightarrow>
           (case elapsed e start (state x1) of (el, s2) \<Rightarrow>
              if el < limit then loop e p limit start (put s2 x1) else Some (late (put s2 x1))))"
    and state_put [simp]: "state (put s x) = s"
    and step_ticks: "step e p x = Inr x1 \<Longrightarrow> ticks 30 1 (state x) (state x1)"
begin

lemma elapsed_real:
  assumes "clock_ok e" and "t0 \<le> ck_now e (snd s)" and "ck_now e (snd s) - t0 < 2 ^ 32"
  shows "elapsed e (of_nat t0) s = (of_nat (ck_now e (snd s) - t0), sd_say ENow s)"
proof -
  have "(of_nat (ck_now e (snd s)) :: u64) - of_nat t0 = of_nat (ck_now e (snd s) - t0)"
    using assms(2) by (simp add: of_nat_diff)
  moreover have "ucast (of_nat (ck_now e (snd s) - t0) :: u64) = (of_nat (ck_now e (snd s) - t0) :: u32)"
    using assms(3) by (simp add: unsigned_of_nat take_bit_nat_eq_self del: of_nat_diff)
  ultimately show ?thesis by (simp add: elapsed_def now_ms_def)
qed

lemma loop_returns:
  assumes e: "clock_ok e" and limit: "unat limit \<le> 2 ^ 31"
    and keep: "\<And>x x1. holds x \<Longrightarrow> step e p x = Inr x1 \<Longrightarrow> holds (put (sd_say ENow (state x1)) x1)"
    and fin: "\<And>x r. holds x \<Longrightarrow> step e p x = Inl r \<Longrightarrow> good r"
    and timeout: "\<And>x. holds x \<Longrightarrow> good (late x)"
  shows "holds x \<Longrightarrow> t0 \<le> ck_now e (snd (state x)) \<Longrightarrow> ck_now e (snd (state x)) \<le> t0 + 2 ^ 31 + 10000 \<Longrightarrow>
    \<exists>r. loop e p limit (of_nat t0) x = Some r \<and> good r"
proof (induction "t0 + 2 ^ 31 + 10000 - ck_now e (snd (state x))" arbitrary: x rule: less_induct)
  case less
  show ?case
  proof (cases "step e p x")
    case (Inl r)
    then show ?thesis using fin [OF less.prems(1) Inl] by (simp add: loop_eq [of e p limit _ x])
  next
    case (Inr x1)
    have t: "ck_now e (snd (state x)) + 1 \<le> ck_now e (snd (state x1))"
      "ck_now e (snd (state x1)) \<le> ck_now e (snd (state x)) + 30001"
      using ticks_time [OF e step_ticks [OF Inr]] by simp_all
    define s2 where "s2 = sd_say ENow (state x1)"
    have t2: "ck_now e (snd (state x1)) \<le> ck_now e (snd s2)" "ck_now e (snd s2) \<le> ck_now e (snd (state x1)) + 1000"
      using ticks_time [OF e ticks_say [of ENow "state x1"]] by (simp_all add: s2_def event_cost_def)
    define n where "n = ck_now e (snd (state x1)) - t0"
    have n: "n < 2 ^ 32" using t less.prems(3) by (simp add: n_def)
    have el: "elapsed e (of_nat t0) (state x1) = (of_nat n, s2)"
      using elapsed_real [OF e, of t0 "state x1"] t less.prems n by (simp add: n_def s2_def)
    have u: "unat (of_nat n :: u32) = n" using n by (simp add: unat_of_nat_small)
    have h: "holds (put s2 x1)" using keep [OF less.prems(1) Inr] by (simp add: s2_def)
    show ?thesis
    proof (cases "of_nat n < limit")
      case True
      then have "n < 2 ^ 31" using u limit by (simp add: word_less_nat_alt)
      then have b: "ck_now e (snd s2) \<le> t0 + 2 ^ 31 + 10000" using t2 t less.prems(2) by (simp add: n_def)
      have "\<exists>r. loop e p limit (of_nat t0) (put s2 x1) = Some r \<and> good r"
        by (rule less.hyps) (use t t2 b less.prems(2,3) h in auto)
      then show ?thesis using True Inr el by (simp add: loop_eq [of e p limit _ x])
    next
      case False
      then show ?thesis using Inr el timeout [OF h] by (simp add: loop_eq [of e p limit _ x])
    qed
  qed
qed

end

subsection \<open>The three loops\<close>

lemma ticks_le: "ticks n k s s' \<Longrightarrow> n \<le> m \<Longrightarrow> ticks m k s s'"
  by (auto simp: ticks_def)

definition dma_poll_step :: "sd_env \<Rightarrow> unit \<Rightarrow> sd_st \<Rightarrow> (bvstk_status_t \<times> sd_st) + sd_st" where
  "dma_poll_step e p s = (case dma_reset_step e s of (Inl st, s1) \<Rightarrow> Inl (st, s1) | (Inr u, s1) \<Rightarrow> Inr s1)"

lemma dma_poll_step_cases:
  assumes "s2 = snd (rd e SDM_DMA SDM_RX_CONTROL (snd (rd e SDM_DMA SDM_TX_CONTROL s)))"
  shows "dma_poll_step e p s = Inl (BVSTK_ERR_IO, s2) \<and> dm_io_error (fst s2) \<or>
    (\<exists>st. dma_poll_step e p s =
       Inl (st, wr e SDM_DMA SDM_RX_STATUS SDM_DMA_IRQS (wr e SDM_DMA SDM_TX_STATUS SDM_DMA_IRQS s2)) \<and>
       (st = BVSTK_OK \<longleftrightarrow> \<not> dm_io_error (fst (wr e SDM_DMA SDM_RX_STATUS SDM_DMA_IRQS (wr e SDM_DMA SDM_TX_STATUS SDM_DMA_IRQS s2))))) \<or>
    dma_poll_step e p s = Inr (sd_say (ESleep 1) s2)"
  by (simp add: dma_poll_step_def dma_reset_step_def Let_def split_beta assms)

lemma sticky_wr_dma: "sticky s (wr e SDM_DMA off v s)"
  by (rule sticky_wr) simp

lemma dma_poll_step_run:
  "dma_poll_step e p s = Inr s' \<Longrightarrow> sticky s s' \<and> ticks 3 1 s s'"
  "dma_poll_step e p s = Inl (st, s') \<Longrightarrow> sticky s s' \<and> (st = BVSTK_OK \<longrightarrow> \<not> dm_io_error (fst s'))"
proof -
  define s2 where "s2 = snd (rd e SDM_DMA SDM_RX_CONTROL (snd (rd e SDM_DMA SDM_TX_CONTROL s)))"
  have s: "sticky s s2" unfolding s2_def by (intro sticky_rdI sticky_refl)
  have "ticks (0 + 1 + 1 + 1) (0 + 0 + 0 + event_cost (ESleep 1)) s (sd_say (ESleep 1) s2)"
    unfolding s2_def by (intro ticks_rdI ticks_sayI ticks_refl)
  then have t: "ticks 3 1 s (sd_say (ESleep 1) s2)" by (simp add: event_cost_def numeral_eq_Suc)
  note c = dma_poll_step_cases [OF s2_def]
  show "dma_poll_step e p s = Inr s' \<Longrightarrow> sticky s s' \<and> ticks 3 1 s s'"
    using c [of p] t sticky_sayI [OF s] by auto
  show "dma_poll_step e p s = Inl (st, s') \<Longrightarrow> sticky s s' \<and> (st = BVSTK_OK \<longrightarrow> \<not> dm_io_error (fst s'))"
    using c [of p] s sticky_trans [OF s sticky_trans [OF sticky_wr_dma sticky_wr_dma]] by auto
qed

interpretation dma_poll: sd_poll dma_poll_step "\<lambda>s. s" "\<lambda>s x. s" "\<lambda>s. (BVSTK_ERR_TIMEOUT, s)"
  "\<lambda>e p limit start s. dma_reset_loop e limit start s"
proof unfold_locales
  fix e :: sd_env and p :: unit and limit :: u32 and start :: u64 and s :: sd_st
  show "dma_reset_loop e limit start s =
    (case dma_poll_step e p s of Inl r \<Rightarrow> Some r
     | Inr x1 \<Rightarrow> (case elapsed e start x1 of (el, s2) \<Rightarrow>
         if el < limit then dma_reset_loop e limit start s2 else Some (BVSTK_ERR_TIMEOUT, s2)))"
    by (subst dma_reset_loop.simps) (auto simp: dma_poll_step_def split: prod.split sum.split)
  show "dma_poll_step e p s = Inr s' \<Longrightarrow> ticks 30 1 s s'" for s'
    using dma_poll_step_run(1) [of e p s s'] ticks_le [of 3 1 s s' 30] by simp
qed simp

lemma now_before:
  assumes "clock_ok e"
  shows "ck_now e (snd s) \<le> ck_now e (snd (wr e g off v (sd_say ENow s)))"
    "ck_now e (snd (wr e g off v (sd_say ENow s))) \<le> ck_now e (snd s) + 3000"
proof -
  have "ticks 2 0 x (wr e g off v x)" for x
    by (cases x) (auto simp: ticks_def wr_def Let_def event_cost_def)
  then have "ticks (1 + 2) (event_cost ENow + 0) s (wr e g off v (sd_say ENow s))"
    by (rule ticks_trans [OF ticks_say])
  then have "ticks 3 0 s (wr e g off v (sd_say ENow s))" by (simp add: event_cost_def numeral_eq_Suc)
  from ticks_time [OF assms this]
  show "ck_now e (snd s) \<le> ck_now e (snd (wr e g off v (sd_say ENow s)))"
    "ck_now e (snd (wr e g off v (sd_say ENow s))) \<le> ck_now e (snd s) + 3000" by simp_all
qed

lemma dma_reset_run:
  assumes "clock_ok e"
  shows "\<exists>st s'. dma_reset e s = Some (st, s') \<and> sticky s s' \<and> (st = BVSTK_OK \<longrightarrow> \<not> dm_io_error (fst s'))"
proof -
  define s1 where "s1 = wr e SDM_DMA SDM_TX_CONTROL SDM_DMA_RESET (sd_say ENow s)"
  have 1: "sticky s s1" unfolding s1_def by (intro sticky_trans [OF sticky_say sticky_wr_dma]) simp
  have "\<exists>r. dma_reset_loop e 100 (of_nat (ck_now e (snd s))) s1 = Some r \<and>
      (\<lambda>(st, s'). sticky s s' \<and> (st = BVSTK_OK \<longrightarrow> \<not> dm_io_error (fst s'))) r"
  proof (rule dma_poll.loop_returns [OF assms, where holds = "sticky s" and p = "()"])
    fix x x1 assume "sticky s x" "dma_poll_step e () x = Inr x1"
    then show "sticky s (sd_say ENow x1)" by (intro sticky_sayI) (auto dest: dma_poll_step_run intro: sticky_trans)
  next
    fix x r assume "sticky s x" "dma_poll_step e () x = Inl r"
    then show "case r of (st, s') \<Rightarrow> sticky s s' \<and> (st = BVSTK_OK \<longrightarrow> \<not> dm_io_error (fst s'))"
      by (cases r) (auto dest: dma_poll_step_run intro: sticky_trans)
  qed (use 1 now_before [OF assms, where s = s and g = SDM_DMA and off = SDM_TX_CONTROL and v = SDM_DMA_RESET] in \<open>simp_all add: s1_def\<close>)
  then show ?thesis by (auto simp: dma_reset_def now_ms_def s1_def)
qed

lemma abort_run:
  assumes "clock_ok e"
  shows "\<exists>s'. abort_transfer e s = Some s' \<and> calm s s'"
proof -
  define s1 where "s1 = apfst (dm_io_error_update (\<lambda>_. False)) (sd_say EDisable s)"
  have 1: "calm s s1" by (auto simp: s1_def calm_def same_driver_def sd_say_def)
  obtain st s2 where r: "dma_reset e s1 = Some (st, s2)" and 2: "sticky s1 s2" using dma_reset_run [OF assms] by blast
  have "sticky s2 (wr e SDM_CORE SDM_CSR SDM_RESET s2)" by (rule sticky_wr) (simp add: sdm_values)
  then have "calm s (wr e SDM_CORE SDM_CSR SDM_RESET s2)" using 1 2 by (meson calm_trans sticky_calm)
  then show ?thesis by (simp add: abort_transfer_def s1_def [symmetric] r)
qed

lemma failed_run:
  assumes "clock_ok e"
  shows "\<exists>r' s'. sd_failed e st r s = Some (st, r', s') \<and> calm s s'"
proof -
  obtain r1 s1 where sn: "sd_snapshot e r s = (r1, s1)" by (cases "sd_snapshot e r s")
  have "calm s s1" using sticky_snapshot [of s e r] sn by (simp add: sticky_calm)
  then show ?thesis using abort_run [OF assms, of s1] by (auto simp: sd_failed_def sn intro: calm_trans)
qed

definition init_poll_step :: "sd_env \<Rightarrow> unit \<Rightarrow> bvstk_sd_master_report_t \<times> sd_st \<Rightarrow>
    (bvstk_status_t \<times> bvstk_sd_master_report_t \<times> sd_st) + (bvstk_sd_master_report_t \<times> sd_st)" where
  "init_poll_step e p x = (case x of (r, s) \<Rightarrow>
     (case init_step e r s of (Some st, y) \<Rightarrow> Inl (st, y) | (None, y) \<Rightarrow> Inr y))"

lemma init_poll_step_run:
  "init_poll_step e p (r, s) = Inr (r', s') \<Longrightarrow> sticky s s' \<and> ticks 14 1 s s'"
  "init_poll_step e p (r, s) = Inl (st, r', s') \<Longrightarrow> sticky s s' \<and> (st = BVSTK_OK \<longrightarrow> \<not> dm_io_error (fst s'))"
proof -
  define s2 where "s2 = snd (read_words e 0 SDM_INIT_WORDS (snd (sd_snapshot e r s)))"
  have s: "sticky s s2" unfolding s2_def by (rule sticky_trans [OF sticky_snapshot sticky_read_words])
  have "ticks (6 + SDM_INIT_WORDS + 1) (0 + 0 + event_cost (ESleep 1)) s (sd_say (ESleep 1) s2)"
    unfolding s2_def by (intro ticks_sayI ticks_trans [OF ticks_snapshot ticks_read_words])
  then have t: "ticks 14 1 s (sd_say (ESleep 1) s2)" by (simp add: event_cost_def SDM_INIT_WORDS_def)
  show "init_poll_step e p (r, s) = Inr (r', s') \<Longrightarrow> sticky s s' \<and> ticks 14 1 s s'"
    using t sticky_sayI [OF s, of "ESleep 1"]
    by (auto simp: init_poll_step_def init_step_def Let_def split_beta s2_def split: if_splits)
  show "init_poll_step e p (r, s) = Inl (st, r', s') \<Longrightarrow> sticky s s' \<and> (st = BVSTK_OK \<longrightarrow> \<not> dm_io_error (fst s'))"
    using s by (auto simp: init_poll_step_def init_step_def Let_def split_beta s2_def split: if_splits)
qed

interpretation init_poll: sd_poll init_poll_step snd "\<lambda>s x. (fst x, s)" "\<lambda>x. (BVSTK_ERR_TIMEOUT, x)"
  "\<lambda>e p limit start x. init_loop e limit start (fst x) (snd x)"
proof unfold_locales
  fix e :: sd_env and p :: unit and limit :: u32 and start :: u64 and x :: "bvstk_sd_master_report_t \<times> sd_st"
  show "init_loop e limit start (fst x) (snd x) =
    (case init_poll_step e p x of Inl r \<Rightarrow> Some r
     | Inr x1 \<Rightarrow> (case elapsed e start (snd x1) of (el, s2) \<Rightarrow>
         if el < limit then init_loop e limit start (fst (fst x1, s2)) (snd (fst x1, s2))
         else Some (BVSTK_ERR_TIMEOUT, fst x1, s2)))"
    by (subst init_loop.simps) (auto simp: init_poll_step_def split: prod.split option.split)
  show "init_poll_step e p x = Inr x1 \<Longrightarrow> ticks 30 1 (snd x) (snd x1)" for x1
    using init_poll_step_run(1) [of e p "fst x" "snd x" "fst x1" "snd x1"] ticks_le [of 14 1 "snd x" "snd x1" 30] by simp
qed simp

definition command_poll_step :: "sd_env \<Rightarrow> nat \<times> bool \<Rightarrow> bvstk_sd_master_report_t \<times> sd_st \<Rightarrow>
    (bvstk_status_t \<times> bvstk_sd_master_report_t \<times> sd_st) + (bvstk_sd_master_report_t \<times> sd_st)" where
  "command_poll_step e p x = (case x of (r, s) \<Rightarrow>
     (case command_step e (fst p) (snd p) r s of (Some st, y) \<Rightarrow> Inl (st, y) | (None, y) \<Rightarrow> Inr y))"

lemma command_poll_step_run:
  "command_poll_step e p (r, s) = Inr (r', s') \<Longrightarrow> sticky s s' \<and> ticks 8 1 s s'"
  "command_poll_step e p (r, s) = Inl (st, r', s') \<Longrightarrow> sticky s s' \<and> (st = BVSTK_OK \<longrightarrow> \<not> dm_io_error (fst s'))"
proof -
  define s2 where "s2 = snd (rd e SDM_BRAM (fst p) (snd (sd_snapshot e r s)))"
  have s: "sticky s s2" unfolding s2_def by (rule sticky_trans [OF sticky_snapshot sticky_rd])
  have "ticks (6 + 1 + 1) (0 + 0 + event_cost (ESleep 1)) s (sd_say (ESleep 1) s2)"
    unfolding s2_def by (intro ticks_sayI ticks_rdI ticks_snapshot)
  then have t: "ticks 8 1 s (sd_say (ESleep 1) s2)" by (simp add: event_cost_def)
  show "command_poll_step e p (r, s) = Inr (r', s') \<Longrightarrow> sticky s s' \<and> ticks 8 1 s s'"
    using t sticky_sayI [OF s, of "ESleep 1"]
    by (auto simp: command_poll_step_def command_step_def Let_def split_beta s2_def split: if_splits)
  show "command_poll_step e p (r, s) = Inl (st, r', s') \<Longrightarrow> sticky s s' \<and> (st = BVSTK_OK \<longrightarrow> \<not> dm_io_error (fst s'))"
    using s by (auto simp: command_poll_step_def command_step_def Let_def split_beta s2_def split: if_splits)
qed

interpretation command_poll: sd_poll command_poll_step snd "\<lambda>s x. (fst x, s)" "\<lambda>x. (BVSTK_ERR_TIMEOUT, x)"
  "\<lambda>e p limit start x. command_loop e (fst p) (snd p) limit start (fst x) (snd x)"
proof unfold_locales
  fix e :: sd_env and p :: "nat \<times> bool" and limit :: u32 and start :: u64 and x :: "bvstk_sd_master_report_t \<times> sd_st"
  show "command_loop e (fst p) (snd p) limit start (fst x) (snd x) =
    (case command_poll_step e p x of Inl r \<Rightarrow> Some r
     | Inr x1 \<Rightarrow> (case elapsed e start (snd x1) of (el, s2) \<Rightarrow>
         if el < limit then command_loop e (fst p) (snd p) limit start (fst (fst x1, s2)) (snd (fst x1, s2))
         else Some (BVSTK_ERR_TIMEOUT, fst x1, s2)))"
    by (subst command_loop.simps) (auto simp: command_poll_step_def split: prod.split option.split)
  show "command_poll_step e p x = Inr x1 \<Longrightarrow> ticks 30 1 (snd x) (snd x1)" for x1
    using command_poll_step_run(1) [of e p "fst x" "snd x" "fst x1" "snd x1"] ticks_le [of 8 1 "snd x" "snd x1" 30] by simp
qed simp

definition polled :: "sd_st \<Rightarrow> bvstk_status_t \<times> bvstk_sd_master_report_t \<times> sd_st \<Rightarrow> bool" where
  "polled s r = (case r of (st, _, s') \<Rightarrow> sticky s s' \<and> (st = BVSTK_OK \<longrightarrow> \<not> dm_io_error (fst s')))"

lemma init_loop_run:
  assumes "clock_ok e" and "unat limit \<le> 2 ^ 31" and "t0 \<le> ck_now e (snd s)" "ck_now e (snd s) \<le> t0 + 5000"
  shows "\<exists>y. init_loop e limit (of_nat t0) r s = Some y \<and> polled s y"
proof -
  have "\<exists>y. init_loop e limit (of_nat t0) (fst (r, s)) (snd (r, s)) = Some y \<and> polled s y"
  proof (rule init_poll.loop_returns [OF assms(1,2), where holds = "\<lambda>x. sticky s (snd x)" and p = "()"])
    fix x x1 assume "sticky s (snd x)" "init_poll_step e () x = Inr x1"
    then have "sticky s (snd x1)" by (cases x; cases x1) (auto dest: init_poll_step_run intro: sticky_trans)
    then show "sticky s (snd (fst x1, sd_say ENow (snd x1)))" by (simp add: sticky_sayI)
  next
    fix x y assume "sticky s (snd x)" "init_poll_step e () x = Inl y"
    then show "polled s y" by (cases x; cases y) (auto simp: polled_def dest: init_poll_step_run intro: sticky_trans)
  qed (use assms in \<open>auto simp: polled_def\<close>)
  then show ?thesis by simp
qed

lemma command_loop_run:
  assumes "clock_ok e" and "unat limit \<le> 2 ^ 31" and "t0 \<le> ck_now e (snd s)" "ck_now e (snd s) \<le> t0 + 5000"
  shows "\<exists>y. command_loop e mailbox receive limit (of_nat t0) r s = Some y \<and> polled s y"
proof -
  have "\<exists>y. command_loop e (fst (mailbox, receive)) (snd (mailbox, receive)) limit (of_nat t0) (fst (r, s)) (snd (r, s)) = Some y \<and> polled s y"
  proof (rule command_poll.loop_returns [OF assms(1,2), where holds = "\<lambda>x. sticky s (snd x)"])
    fix x x1 assume "sticky s (snd x)" "command_poll_step e (mailbox, receive) x = Inr x1"
    then have "sticky s (snd x1)" by (cases x; cases x1) (auto dest: command_poll_step_run intro: sticky_trans)
    then show "sticky s (snd (fst x1, sd_say ENow (snd x1)))" by (simp add: sticky_sayI)
  next
    fix x y assume "sticky s (snd x)" "command_poll_step e (mailbox, receive) x = Inl y"
    then show "polled s y" by (cases x; cases y) (auto simp: polled_def dest: command_poll_step_run intro: sticky_trans)
  qed (use assms in \<open>auto simp: polled_def\<close>)
  then show ?thesis by simp
qed

end
