(* ===== verification/Sd_Commands.thy ===== *)
theory Sd_Commands
  imports Sd_Poll
begin

text \<open>
  What the card sees. \<open>sd_issued\<close> reads a trace the way the hardware does: it keeps the block
  RAM as the driver writes it, and at each start of the command core it takes the command, its
  argument and, for a block write, the payload from the transmit area. The theorems say which
  requests an operation of the driver or of the service puts there.
\<close>

subsection \<open>The command word\<close>

definition sd_argument :: "u32 \<Rightarrow> u32" where
  "sd_argument w = push_bit 24 (w AND 0xff) OR push_bit 8 (w AND 0xff00) OR (drop_bit 8 w AND 0xff00) OR drop_bit 24 w"

lemma sd_argument_involution: "sd_argument (sd_argument w) = w"
proof (rule bit_word_eqI)
  fix n assume "n < LENGTH(32)"
  define M where "M = (mask 8 :: u32)"
  have M: "bit M k \<longleftrightarrow> k < 8" for k unfolding M_def by (simp only: bit_mask_iff) auto
  have e: "(0xff :: u32) = M" "(0xff00 :: u32) = push_bit 8 M" by (simp_all add: M_def mask_eq_exp_minus_1)
  have "n < 8 \<or> 8 \<le> n \<and> n < 16 \<or> 16 \<le> n \<and> n < 24 \<or> 24 \<le> n \<and> n < 32" using \<open>n < LENGTH(32)\<close> by auto
  then show "bit (sd_argument (sd_argument w)) n = bit w n"
    unfolding sd_argument_def e by (elim disjE) (auto simp: bit_simps M dest: bit_imp_le_length)
qed

lemma encode_argument:
  "sd_argument (fst (bvstk_sd_master_encode c a)) = a"
  using sd_argument_involution [of a] by (simp add: bvstk_sd_master_encode_def Let_def sd_argument_def)

lemma encode_command:
  assumes "c < 64"
  shows "ucast (snd (bvstk_sd_master_encode c a)) AND 0x3f = (c :: u8)"
proof (rule bit_word_eqI)
  fix n assume n: "n < LENGTH(8)"
  have c: "\<not> bit c k" if "6 \<le> k" for k
  proof -
    have "unat c < 2 ^ 6" using assms by (simp add: word_less_nat_alt)
    then have "take_bit 6 (unat c) = unat c" by (simp add: take_bit_nat_eq_self)
    then have "take_bit 6 c = c" by (metis unsigned_take_bit_eq unsigned_word_eqI)
    then show ?thesis using that by (metis bit_take_bit_iff not_le)
  qed
  have c': "n < 6" if "bit c n" using c [of n] that by (cases "6 \<le> n") auto
  define M where "M = (mask 6 :: u8)"
  have M: "bit M k \<longleftrightarrow> k < 6" for k unfolding M_def by (simp only: bit_mask_iff) auto
  have e: "(0x3f :: u8) = M" by (simp add: M_def mask_eq_exp_minus_1)
  define H where "H = (push_bit 6 1 :: u8)"
  have H: "bit H k \<longleftrightarrow> k = 6" for k unfolding H_def by (simp only: bit_push_bit_iff bit_1_iff) auto
  have h: "(0x40 :: u8) = H" by (simp add: H_def)
  define crc where "crc = bvstk_sd_master_crc7 [0x40 OR c, ucast (drop_bit 24 a), ucast (drop_bit 16 a), ucast (drop_bit 8 a), ucast a]"
  show "bit (ucast (snd (bvstk_sd_master_encode c a)) AND 0x3f :: u8) n = bit c n"
    unfolding bvstk_sd_master_encode_def Let_def snd_conv nth_Cons_0 crc_def [symmetric] e h
    using n c' by (auto simp: bit_simps M H)
qed
subsection \<open>Requests\<close>

type_synonym sd_request = "u8 \<times> u32 \<times> u32 list"

definition card_request :: "(nat \<Rightarrow> u32) \<Rightarrow> sd_request" where
  "card_request m =
    (let c = ucast (m (SDM_TX_AREA + 4)) AND 0x3f in
     (c, sd_argument (m SDM_TX_AREA), if c = 24 then map (\<lambda>i. m (SDM_TX_AREA + 8 + i * 4)) [0..<129] else []))"

definition sd_store :: "sd_event \<Rightarrow> (nat \<Rightarrow> u32) \<Rightarrow> nat \<Rightarrow> u32" where
  "sd_store ev m = (case ev of EWrite g off v ok \<Rightarrow> if g = SDM_BRAM then m(off := v) else m | _ \<Rightarrow> m)"

fun sd_issued :: "(nat \<Rightarrow> u32) \<Rightarrow> sd_trace \<Rightarrow> sd_request list" where
  "sd_issued m [] = []"
| "sd_issued m (ev # tr) = (if is_start ev then [card_request m] else []) @ sd_issued (sd_store ev m) tr"

lemma sd_issued_append: "sd_issued m (a @ b) = sd_issued m a @ sd_issued (fold sd_store a m) b"
  by (induction a arbitrary: m) simp_all

lemma sd_issued_calm: "\<not> list_ex is_start tr \<Longrightarrow> sd_issued m tr = []"
  by (induction tr arbitrary: m) auto

subsection \<open>The writes of a command\<close>

definition written :: "sd_write list \<Rightarrow> sd_trace" where
  "written ws = concat (map (\<lambda>(g, off, v). [EWrite g off v True, EBarrier]) ws)"

lemma written_simps [simp]:
  "written [] = []" "written ((g, off, v) # ws) = EWrite g off v True # EBarrier # written ws"
  "written (xs @ ys) = written xs @ written ys"
  by (simp_all add: written_def)

lemma wr_all_ok:
  assumes "\<not> dm_io_error (fst (wr_all e ws s))"
  shows "\<not> dm_io_error (fst s) \<and> wr_all e ws s = (fst s, snd s @ written ws)"
  using assms
proof (induction ws arbitrary: s)
  case (Cons w ws)
  obtain g off v where w: "w = (g, off, v)" using prod_cases3 by blast
  have "\<not> dm_io_error (fst (wr e g off v s)) \<and> wr_all e ws (wr e g off v s) = (fst (wr e g off v s), snd (wr e g off v s) @ written ws)"
    by (rule Cons.IH) (use Cons.prems in \<open>simp add: w\<close>)
  then show ?case by (cases s) (auto simp: w wr_def Let_def split: if_splits)
qed simp

lemma wr_all_stuck:
  "dm_io_error (fst s) \<Longrightarrow> wr_all e ws s = (fst s, snd s @ replicate (length ws) EBarrier)"
proof (induction ws arbitrary: s)
  case (Cons w ws)
  obtain g off v where w: "w = (g, off, v)" using prod_cases3 by blast
  have "wr e g off v s = (fst s, snd s @ [EBarrier])" using Cons.prems by (cases s) (simp add: wr_def)
  then show ?case using Cons by (simp add: w)
qed simp

definition store_write :: "sd_write \<Rightarrow> (nat \<Rightarrow> u32) \<Rightarrow> nat \<Rightarrow> u32" where
  "store_write w m = (case w of (g, off, v) \<Rightarrow> if g = SDM_BRAM then m(off := v) else m)"

lemma store_write_simps [simp]:
  "store_write (SDM_BRAM, off, v) m = m(off := v)" "store_write (SDM_DMA, off, v) m = m" "store_write (SDM_CORE, off, v) m = m"
  by (simp_all add: store_write_def)

lemma fold_store_written:
  "fold sd_store (written ws) m = fold store_write ws m"
  by (induction ws arbitrary: m) (auto simp: sd_store_def store_write_def)

lemma fold_range:
  fixes f :: "nat \<Rightarrow> u32"
  shows "fold store_write (map (\<lambda>i. (SDM_BRAM, base + i * 4, f i)) [0..<n]) m =
    (\<lambda>a. if base \<le> a \<and> a < base + n * 4 \<and> (a - base) mod 4 = 0 then f ((a - base) div 4) else m a)"
  (is "?F n = ?G n")
proof (induction n)
  case (Suc n)
  have "?F (Suc n) = (?G n)(base + n * 4 := f n)" unfolding Suc.IH [symmetric] by (simp add: fun_upd_def)
  also have "\<dots> = ?G (Suc n)"
  proof
    fix a
    show "((?G n)(base + n * 4 := f n)) a = ?G (Suc n) a"
      by (cases "a = base + n * 4"; cases "base \<le> a") (auto, presburger)
  qed
  finally show ?case .
qed (auto simp: fun_eq_iff)

definition block_words :: "bytes \<Rightarrow> u32 list" where
  "block_words b = map (\<lambda>i. block_word b (i * 4)) [0..<128] @ [0xffff0000 OR ucast (bvstk_sd_master_crc16 (take SDM_BLOCK_SIZE b))]"

definition request_of :: "u8 \<Rightarrow> u32 \<Rightarrow> bytes option \<Rightarrow> sd_request" where
  "request_of command argument write_block =
    (command, argument, case write_block of None \<Rightarrow> [] | Some b \<Rightarrow> block_words b)"

lemma command_memory:
  assumes "sz \<in> {8, 16, 522}" "mailbox < 0x100" "m' = fold sd_store (written (command_writes cfg c a sz mailbox wb rcv)) m"
  shows "m' SDM_TX_AREA = fst (bvstk_sd_master_encode c a)" "m' (SDM_TX_AREA + 4) = snd (bvstk_sd_master_encode c a)"
    "wb = Some b \<Longrightarrow> sz = 522 \<Longrightarrow> i < 129 \<Longrightarrow> m' (SDM_TX_AREA + 8 + i * 4) = block_words b ! i"
proof -
  obtain w0 w1 where enc: "bvstk_sd_master_encode c a = (w0, w1)" by fastforce
  have m': "m' = fold store_write
      (command_writes cfg c a sz mailbox wb rcv) m"
    using assms(3) by (simp add: fold_store_written)
  note simps = m' command_writes_def descriptor_writes_def payload_writes_def receive_writes_def enc fold_range
    tx_padded_def SDM_TX_AREA_def SDM_RX_AREA_def SDM_BLOCK_SIZE_def
  show "m' SDM_TX_AREA = fst (bvstk_sd_master_encode c a)"
    using assms(1,2) by (cases wb; cases rcv) (auto simp: simps)
  show "m' (SDM_TX_AREA + 4) = snd (bvstk_sd_master_encode c a)"
    using assms(1,2) by (cases wb; cases rcv) (auto simp: simps)
  show "m' (SDM_TX_AREA + 8 + i * 4) = block_words b ! i" if "wb = Some b" "sz = 522" "i < 129"
    using assms(2) that by (cases rcv; cases "i = 128") (auto simp: simps block_words_def nth_append)
qed

lemma card_request_command:
  assumes "sz \<in> {8, 16, 522}" "mailbox < 0x100" "c \<in> {13, 16, 17, 24}" "(c = 24) = (wb \<noteq> None)" "wb \<noteq> None \<Longrightarrow> sz = 522"
  shows "card_request (fold sd_store (written (command_writes cfg c a sz mailbox wb rcv)) m) = request_of c a wb"
proof -
  define m' where "m' = fold sd_store (written (command_writes cfg c a sz mailbox wb rcv)) m"
  note mem = command_memory [OF assms(1,2) m'_def]
  have c: "ucast (m' (SDM_TX_AREA + 4)) AND 0x3f = c"
    using encode_command [of c a] assms(3) mem(2) by auto
  have arg: "sd_argument (m' SDM_TX_AREA) = a" by (simp add: mem(1) encode_argument)
  have "map (\<lambda>i. m' (SDM_TX_AREA + 8 + i * 4)) [0..<129] = block_words b" if "wb = Some b" for b
    by (rule nth_equalityI) (use mem(3) [OF that] assms(5) that in \<open>auto simp: block_words_def\<close>)
  then show ?thesis
    using assms(4) by (auto simp: card_request_def request_of_def Let_def c arg m'_def [symmetric] split: option.split)
qed

subsection \<open>One command\<close>

lemma read_words_ok:
  assumes "read_words e off n s = (ws, s')" "\<not> dm_io_error (fst s')"
  shows "length ws = n \<and> s' = (fst s, snd s @ map (\<lambda>i. ERead SDM_BRAM (off + i * 4) (Some (ws ! i))) [0..<n])"
  using assms
proof (induction n arbitrary: off s ws)
  case (Suc n)
  obtain w s1 where r: "rd e SDM_BRAM off s = (w, s1)" by (cases "rd e SDM_BRAM off s")
  obtain vs s2 where q: "read_words e (off + 4) n s1 = (vs, s2)" by (cases "read_words e (off + 4) n s1")
  have ws: "ws = w # vs" "s2 = s'" using Suc.prems r q by simp_all
  have ih: "length vs = n" "s' = (fst s1, snd s1 @ map (\<lambda>i. ERead SDM_BRAM (off + 4 + i * 4) (Some (vs ! i))) [0..<n])"
    using Suc.IH [of "off + 4" s1 vs] q ws(2) Suc.prems(2) by auto
  have "\<not> dm_io_error (fst s1)" using ih(2) Suc.prems(2) by simp
  then have s1: "s1 = (fst s, snd s @ [ERead SDM_BRAM off (Some w)])"
    using r by (cases s) (auto simp: rd_def Let_def split: option.splits)
  have "map (\<lambda>i. ERead SDM_BRAM (off + i * 4) (Some (ws ! i))) [0..<Suc n] =
      ERead SDM_BRAM off (Some w) # map (\<lambda>i. ERead SDM_BRAM (off + 4 + i * 4) (Some (vs ! i))) [0..<n]"
    unfolding upt_conv_Cons [OF zero_less_Suc] map_Suc_upt [symmetric] by (simp add: ws(1) add.assoc)
  then show ?case using ih s1 by (simp add: ws)
qed simp

text \<open>The driver read these bytes out of the receive area after the given requests, with the
  checksum that follows them, and started nothing afterwards.\<close>

definition delivered :: "sd_request list \<Rightarrow> sd_trace \<Rightarrow> bytes \<Rightarrow> bool" where
  "delivered reqs evs data \<longleftrightarrow>
     (\<exists>before ws after. evs = before @ map (\<lambda>i. ERead SDM_BRAM (SDM_RX_AREA + i * 4) (Some (ws ! i))) [0..<129] @ after \<and>
        length ws = 129 \<and> (\<forall>m. sd_issued m before = reqs) \<and> \<not> list_ex is_start after \<and>
        data = take SDM_BLOCK_SIZE (concat (map le_bytes ws)) \<and>
        bvstk_sd_master_crc16 data =
          push_bit 8 (ucast (concat (map le_bytes ws) ! 512)) OR ucast (concat (map le_bytes ws) ! 513))"

lemma sticky_guard_scan: "sticky s (snd (guard_scan e cs s))"
proof (induction cs arbitrary: s)
  case (Cons c cs)
  obtain off bits v where c: "c = (off, bits, v)" using prod_cases3 by blast
  show ?case
    using sticky_trans [OF sticky_rd Cons.IH, of s e SDM_BRAM off] sticky_rd [of s e SDM_BRAM off]
    by (simp add: c Let_def split_beta)
qed simp

lemma sticky_guards: "sticky s (snd (guards_valid e sz rcv s))"
  unfolding guards_valid_def by (rule sticky_guard_scan)

lemma command_result_run:
  assumes "command_result e command sz rcv r s = (ok, r', s', data)"
  shows "sticky s s' \<and> (ok \<and> rcv \<longrightarrow> (\<exists>evs. snd s' = snd s @ evs \<and> \<not> list_ex is_start evs \<and> delivered [] evs data))"
proof -
  obtain g s1 where g: "guards_valid e sz rcv s = (g, s1)" by (cases "guards_valid e sz rcv s")
  have 1: "sticky s s1" using sticky_guards [of s e sz rcv] g by simp
  define rw where "rw = (if rcv then read_words e SDM_RX_AREA 129 s1 else ([], s1))"
  obtain ws s2 where w: "rw = (ws, s2)" by (cases rw)
  have 2: "sticky s1 s2" using sticky_read_words [of s1 e SDM_RX_AREA 129] w by (auto simp: rw_def split: if_splits)
  have s': "s' = s1 \<or> s' = s2"
    using assms unfolding command_result_def g rw_def [symmetric] w Let_def prod.case by (simp split: if_splits)
  have ok: "s' = s2 \<and> \<not> dm_io_error (fst s2) \<and> data = take SDM_BLOCK_SIZE (take SDM_RX_BYTES (concat (map le_bytes ws))) \<and>
      bvstk_sd_master_crc16 data = push_bit 8 (ucast (take SDM_RX_BYTES (concat (map le_bytes ws)) ! 512)) OR
        ucast (take SDM_RX_BYTES (concat (map le_bytes ws)) ! 513)" if "ok" "rcv"
    using assms that unfolding command_result_def g rw_def [symmetric] w Let_def prod.case by (simp split: if_splits)
  show ?thesis
  proof (intro conjI impI)
    show "sticky s s'" using s' 1 2 by (auto intro: sticky_trans)
    assume a: "ok \<and> rcv"
    then have rwe: "read_words e SDM_RX_AREA 129 s1 = (ws, s2)" using w by (simp add: rw_def)
    note r = read_words_ok [OF rwe] and o = ok [OF conjunct1 [OF a] conjunct2 [OF a]]
    obtain ev1 where e1: "snd s1 = snd s @ ev1" "\<not> list_ex is_start ev1" using 1 by (auto simp: sticky_def calm_def)
    define reads where "reads = map (\<lambda>i. ERead SDM_BRAM (SDM_RX_AREA + i * 4) (Some (ws ! i))) [0..<129]"
    have q: "\<not> list_ex is_start reads" by (simp add: reads_def list_ex_iff)
    have "delivered [] (ev1 @ reads) data"
      unfolding delivered_def using o r e1(2)
      by (rule_tac x = ev1 in exI, rule_tac x = ws in exI, rule_tac x = "[]" in exI)
        (simp add: reads_def sd_issued_calm SDM_BLOCK_SIZE_def SDM_RX_BYTES_def)
    then show "\<exists>evs. snd s' = snd s @ evs \<and> \<not> list_ex is_start evs \<and> delivered [] evs data"
      using o r e1 q by (intro exI [of _ "ev1 @ reads"]) (simp add: reads_def)
  qed
qed
definition issues :: "sd_request list \<Rightarrow> sd_trace \<Rightarrow> bool" where
  "issues reqs evs \<longleftrightarrow> (\<forall>m. sd_issued m evs = reqs)"

lemma issues_append: "issues xs a \<Longrightarrow> issues ys b \<Longrightarrow> issues (xs @ ys) (a @ b)"
  by (simp add: issues_def sd_issued_append)

lemma issues_calm: "\<not> list_ex is_start evs \<Longrightarrow> issues [] evs"
  by (simp add: issues_def sd_issued_calm)

lemma calm_issues:
  assumes "calm s s'"
  shows "same_driver (fst s) (fst s') \<and> (\<exists>evs. snd s' = snd s @ evs \<and> issues [] evs)"
  using assms by (auto simp: calm_def issues_calm)

lemma ticks_wr: "ticks 2 0 s (wr e g off v s)"
  by (cases s) (auto simp: ticks_def wr_def Let_def event_cost_def)

lemma ticks_wr_all: "ticks (2 * length ws) 0 s (wr_all e ws s)"
proof (induction ws arbitrary: s)
  case (Cons w ws)
  obtain g off v where w: "w = (g, off, v)" using prod_cases3 by blast
  have "ticks (2 + 2 * length ws) (0 + 0) s (wr_all e ws (wr e g off v s))"
    by (rule ticks_trans [OF ticks_wr Cons.IH])
  then show ?case by (simp add: w)
qed (simp add: ticks_def)

lemma command_writes_calm:
  "list_all (\<lambda>(g, off, v). \<not> (g = SDM_CORE \<and> off = SDM_CSR \<and> v = SDM_START_COMMAND))
     (command_writes cfg c a sz mailbox wb rcv)"
  by (auto simp: command_writes_def descriptor_writes_def payload_writes_def receive_writes_def list_all_iff
      split: prod.split option.split)

text \<open>From the first write of a command to the start of the core: either the command is
  submitted as a whole, or an access error is remembered and nothing starts.\<close>

definition submit :: "sd_env \<Rightarrow> bvstk_sd_master_config_t \<Rightarrow> u8 \<Rightarrow> u32 \<Rightarrow> nat \<Rightarrow> nat \<Rightarrow> bytes option \<Rightarrow> bool \<Rightarrow> sd_st \<Rightarrow> sd_st" where
  "submit e cfg c a sz mailbox wb rcv s =
     wr_all e [(SDM_DMA, SDM_TX_LENGTH, of_nat sz), (SDM_CORE, SDM_CSR, SDM_START_COMMAND)]
       (sd_say ENow (wr_all e (command_writes cfg c a sz mailbox wb rcv) s))"

lemma start_writes:
  assumes "\<not> dm_io_error d"
  shows "\<exists>d' evs. wr_all e [(SDM_DMA, SDM_TX_LENGTH, v), (SDM_CORE, SDM_CSR, SDM_START_COMMAND)] (d, tr) = (d', tr @ evs) \<and>
    same_driver d d' \<and>
    (evs = [EWrite SDM_DMA SDM_TX_LENGTH v False, EBarrier, EBarrier] \<and> dm_io_error d' \<or>
     (\<exists>ok. evs = [EWrite SDM_DMA SDM_TX_LENGTH v True, EBarrier, EWrite SDM_CORE SDM_CSR SDM_START_COMMAND ok, EBarrier]))"
  using assms by (auto simp: wr_def Let_def same_driver_def)

lemma submit_run:
  assumes "sz \<in> {8, 16, 522}" "mailbox < 0x100" "c \<in> {13, 16, 17, 24}" "(c = 24) = (wb \<noteq> None)" "wb \<noteq> None \<Longrightarrow> sz = 522"
  shows "\<exists>evs. snd (submit e cfg c a sz mailbox wb rcv s) = snd s @ evs \<and>
    same_driver (fst s) (fst (submit e cfg c a sz mailbox wb rcv s)) \<and>
    (issues [] evs \<and> dm_io_error (fst (submit e cfg c a sz mailbox wb rcv s)) \<or> issues [request_of c a wb] evs)"
proof -
  define cw where "cw = command_writes cfg c a sz mailbox wb rcv"
  define s4 where "s4 = wr_all e cw s"
  have 4: "sticky s s4" unfolding s4_def cw_def by (rule sticky_wr_all [OF command_writes_calm])
  have sub: "submit e cfg c a sz mailbox wb rcv s =
      wr_all e [(SDM_DMA, SDM_TX_LENGTH, of_nat sz), (SDM_CORE, SDM_CSR, SDM_START_COMMAND)] (sd_say ENow s4)"
    by (simp add: submit_def s4_def cw_def)
  show ?thesis
  proof (cases "dm_io_error (fst s4)")
    case True
    then have "submit e cfg c a sz mailbox wb rcv s = (fst s4, snd s4 @ [ENow, EBarrier, EBarrier])"
      unfolding sub by (simp add: sd_say_def wr_def)
    moreover obtain evs where "same_driver (fst s) (fst s4)" "snd s4 = snd s @ evs" "\<not> list_ex is_start evs"
      using 4 by (auto simp: sticky_def calm_def)
    ultimately show ?thesis using True
      by (intro exI [of _ "evs @ [ENow, EBarrier, EBarrier]"]) (simp add: issues_calm)
  next
    case False
    have s4: "s4 = (fst s, snd s @ written cw)" "\<not> dm_io_error (fst s)"
      using wr_all_ok [of e cw s] False by (simp_all add: s4_def)
    have quiet: "\<not> list_ex is_start (written cw)"
      using 4 s4(1) by (simp add: sticky_def calm_def)
    obtain d' evs where w: "submit e cfg c a sz mailbox wb rcv s = (d', (snd s @ written cw @ [ENow]) @ evs)"
      and d: "same_driver (fst s) d'"
      and evs: "evs = [EWrite SDM_DMA SDM_TX_LENGTH (of_nat sz) False, EBarrier, EBarrier] \<and> dm_io_error d' \<or>
        (\<exists>ok. evs = [EWrite SDM_DMA SDM_TX_LENGTH (of_nat sz) True, EBarrier, EWrite SDM_CORE SDM_CSR SDM_START_COMMAND ok, EBarrier])"
      using start_writes [OF s4(2), of e "of_nat sz" "snd s @ written cw @ [ENow]"] unfolding sub s4(1)
      by (auto simp: sd_say_def)
    have req: "card_request (fold sd_store (written cw) m) = request_of c a wb" for m
      unfolding cw_def by (rule card_request_command [OF assms])
    have "issues [] (written cw @ ENow # evs) \<and> dm_io_error d' \<or> issues [request_of c a wb] (written cw @ ENow # evs)"
      using evs quiet req by (auto simp: issues_def sd_issued_append sd_issued_calm sd_store_def)
    then show ?thesis using w d by (intro exI [of _ "written cw @ ENow # evs"]) auto
  qed
qed

text \<open>What one call of the driver did: it returned this status and left this driver and trace.\<close>

definition command_did :: "sd_request \<Rightarrow> bool \<Rightarrow> sd_st \<Rightarrow> bvstk_status_t \<Rightarrow> sd_st \<Rightarrow> bytes option \<Rightarrow> bool" where
  "command_did req rcv s st s' data \<longleftrightarrow> same_driver (fst s) (fst s') \<and>
     (\<exists>evs. snd s' = snd s @ evs \<and> (issues [] evs \<or> issues [req] evs) \<and>
        (st = BVSTK_OK \<longrightarrow> issues [req] evs \<and> (rcv \<longrightarrow> (\<exists>d. data = Some d \<and> delivered [req] evs d))))"

lemma command_did_failed:
  assumes e: "clock_ok e" and st: "st \<noteq> BVSTK_OK" and "same_driver (fst s) (fst s1)" and "snd s1 = snd s @ evs"
    and "issues [] evs \<or> issues [req] evs"
  shows "\<exists>r' s'. sd_failed e st r s1 = Some (st, r', s') \<and> command_did req rcv s st s' None"
proof -
  obtain r' s' where f: "sd_failed e st r s1 = Some (st, r', s')" and c: "calm s1 s'" using failed_run [OF e] by blast
  obtain ev2 where e2: "snd s' = snd s1 @ ev2" "issues [] ev2" "same_driver (fst s1) (fst s')"
    using calm_issues [OF c] by blast
  have "issues [] (evs @ ev2) \<or> issues [req] (evs @ ev2)"
    using assms(5) issues_append [OF _ e2(2), of "[]" evs] issues_append [OF _ e2(2), of "[req]" evs] by auto
  then show ?thesis using f st e2 assms(3,4) by (auto simp: command_did_def intro: same_driver_trans)
qed

lemma delivered_after:
  assumes "issues reqs a" "delivered rs b d"
  shows "delivered (reqs @ rs) (a @ b) d"
proof -
  obtain before ws after where b: "b = before @ map (\<lambda>i. ERead SDM_BRAM (SDM_RX_AREA + i * 4) (Some (ws ! i))) [0..<129] @ after"
    "length ws = 129" "\<forall>m. sd_issued m before = rs" "\<not> list_ex is_start after"
    "d = take SDM_BLOCK_SIZE (concat (map le_bytes ws))"
    "bvstk_sd_master_crc16 d = push_bit 8 (ucast (concat (map le_bytes ws) ! 512)) OR ucast (concat (map le_bytes ws) ! 513)"
    using assms(2) unfolding delivered_def by blast
  have "\<forall>m. sd_issued m (a @ before) = reqs @ rs" using assms(1) b(3) by (simp add: issues_def sd_issued_append)
  then show ?thesis unfolding delivered_def using b
    by (rule_tac x = "a @ before" in exI, rule_tac x = ws in exI, rule_tac x = after in exI) simp
qed

lemma ticks_submit: "ticks 5 0 (wr_all e (command_writes cfg c a sz mailbox wb rcv) s) (submit e cfg c a sz mailbox wb rcv s)"
proof -
  have "ticks (1 + (2 + 2)) (event_cost ENow + (0 + 0)) (wr_all e (command_writes cfg c a sz mailbox wb rcv) s)
      (submit e cfg c a sz mailbox wb rcv s)"
    unfolding submit_def wr_all.simps by (rule ticks_trans [OF ticks_say ticks_trans [OF ticks_wr ticks_wr]])
  then show ?thesis by (simp add: event_cost_def)
qed

abbreviation failed_command :: "sd_env \<Rightarrow> bvstk_status_t \<Rightarrow> bvstk_sd_master_report_t \<Rightarrow> sd_st \<Rightarrow>
    (bvstk_status_t \<times> bvstk_sd_master_report_t \<times> sd_st \<times> bytes option) option" where
  "failed_command e result r s \<equiv> Option.bind (sd_failed e result r s) (\<lambda>(st, r', s'). Some (st, r', s', None))"

text \<open>The stages of a command with the driver states between them.\<close>

lemma command_run_stages:
  assumes e: "clock_ok e" and timeout: "unat timeout \<le> 2 ^ 31"
  obtains st1 s1 prep s3 cfg st7 r8 s8 ok r9 s9 data where "calm s s1" "calm s s3"
    "sticky (submit e cfg c a sz mailbox wb rcv s3) s8"
    "st7 = BVSTK_OK \<Longrightarrow> \<not> dm_io_error (fst (submit e cfg c a sz mailbox wb rcv s3))"
    "command_result e c sz rcv r8 s8 = (ok, r9, s9, data)"
    "command_run e c a mailbox sz wb rcv timeout r0 s =
      (if st1 \<noteq> BVSTK_OK then failed_command e st1 r0 s1 else if prep \<noteq> BVSTK_OK then failed_command e prep r0 s3
       else if st7 \<noteq> BVSTK_OK then failed_command e st7 r8 s8
       else if ok then Some (BVSTK_OK, r9, s9, if rcv then Some data else None) else failed_command e BVSTK_ERR_IO r9 s9)"
proof -
  obtain st1 s1 where r1: "dma_reset e (apfst (dm_io_error_update (\<lambda>_. False)) s) = Some (st1, s1)"
    and k1: "sticky (apfst (dm_io_error_update (\<lambda>_. False)) s) s1"
    using dma_reset_run [OF e] by blast
  have c1: "calm s s1" using k1 by (cases s) (auto simp: sticky_def calm_def same_driver_def)
  define w3 where "w3 = [(SDM_CORE, SDM_PACKET, SDM_FALL_THROUGH), (SDM_CORE, SDM_DELAY, 1),
         (SDM_CORE, SDM_DIVIDER, ucast (sc_data_divider (dm_config (fst s1))) :: u32)]"
  define s3 where "s3 = sd_say EPrepare (wr_all e w3 s1)"
  have "sticky s1 s3" unfolding s3_def w3_def
    by (intro sticky_sayI sticky_wr_all) (simp_all add: sdm_offsets)
  then have c3: "calm s s3" using c1 by (meson calm_trans sticky_calm)
  define prep where "prep = ev_prepare e (snd (wr_all e w3 s1))"
  define s4 where "s4 = wr_all e (command_writes (dm_config (fst s1)) c a sz mailbox wb rcv) s3"
  define s6 where "s6 = submit e (dm_config (fst s1)) c a sz mailbox wb rcv s3"
  define limit where "limit = (if timeout \<noteq> 0 then timeout else 5000)"
  define rl where "rl = r0\<lparr>rp_stage := ''command completion''\<rparr>"
  have t: "ck_now e (snd s4) \<le> ck_now e (snd s6)" "ck_now e (snd s6) \<le> ck_now e (snd s4) + 5000"
    using ticks_time [OF e ticks_submit, of e "dm_config (fst s1)" c a sz mailbox wb rcv s3] by (simp_all add: s4_def s6_def)
  have limit: "unat limit \<le> 2 ^ 31" using timeout by (simp add: limit_def)
  obtain st7 r7 s7 where r7: "command_loop e mailbox rcv limit (of_nat (ck_now e (snd s4))) rl s6 = Some (st7, r7, s7)"
    and p7: "polled s6 (st7, r7, s7)"
    using command_loop_run [OF e limit t, of mailbox rcv rl] by (metis prod_cases3)
  define s8 where "s8 = snd (elapsed e (of_nat (ck_now e (snd s4))) s7)"
  define r8 where "r8 = r7\<lparr>rp_elapsed_ms := fst (elapsed e (of_nat (ck_now e (snd s4))) s7)\<rparr>"
  have s8: "sticky s6 s8" using p7 sticky_elapsed [of s7 e] unfolding s8_def polled_def by (auto intro: sticky_trans)
  obtain ok r9 s9 data where r9: "command_result e c sz rcv r8 s8 = (ok, r9, s9, data)" by (cases "command_result e c sz rcv r8 s8") 
  have s6: "wr e SDM_CORE SDM_CSR SDM_START_COMMAND (wr e SDM_DMA SDM_TX_LENGTH (of_nat sz) (sd_say ENow s4)) = s6"
    by (simp add: s6_def submit_def s4_def)
  have run: "command_run e c a mailbox sz wb rcv timeout r0 s =
      (if st1 \<noteq> BVSTK_OK then failed_command e st1 r0 s1 else if prep \<noteq> BVSTK_OK then failed_command e prep r0 s3
       else if st7 \<noteq> BVSTK_OK then failed_command e st7 r8 s8
       else if ok then Some (BVSTK_OK, r9, s9, if rcv then Some data else None) else failed_command e BVSTK_ERR_IO r9 s9)"
    unfolding command_run_def r1 Let_def bind.bind_lunit prod.case
    by (simp add: now_ms_def s3_def [symmetric] w3_def [symmetric] prep_def [symmetric] s4_def [symmetric] s6 limit_def [symmetric] rl_def [symmetric] r7 split_beta
        s8_def [symmetric] r8_def [symmetric] r9 split: bool.split)
  have "st7 = BVSTK_OK \<Longrightarrow> \<not> dm_io_error (fst s6)" using p7 by (auto simp: polled_def sticky_def)
  then show thesis using that [OF c1 c3 _ _ r9 run] s8 unfolding s6_def by blast
qed

lemma command_run_did:
  assumes e: "clock_ok e" and sz: "sz \<in> {8, 16, 522}" and mb: "mailbox < 0x100" and c: "c \<in> {13, 16, 17, 24}"
    and wb: "(c = 24) = (wb \<noteq> None)" "wb \<noteq> None \<Longrightarrow> sz = 522" and timeout: "unat timeout \<le> 2 ^ 31"
  shows "\<exists>st r s' data. command_run e c a mailbox sz wb rcv timeout r0 s = Some (st, r, s', data) \<and>
    command_did (request_of c a wb) rcv s st s' data"
proof -
  define req where "req = request_of c a wb"
  have fail: "\<exists>st r' s' data. failed_command e st0 r s0 = Some (st, r', s', data) \<and> command_did req rcv s st s' data"
    if "st0 \<noteq> BVSTK_OK" "same_driver (fst s) (fst s0)" "snd s0 = snd s @ evs" "issues [] evs \<or> issues [req] evs" for st0 r s0 evs
    using command_did_failed [OF e that, of r rcv] by auto
  obtain st1 s1 prep s3 cfg st7 r8 s8 ok r9 s9 data where c1: "calm s s1" and c3: "calm s s3"
    and s8: "sticky (submit e cfg c a sz mailbox wb rcv s3) s8"
    and st7: "st7 = BVSTK_OK \<Longrightarrow> \<not> dm_io_error (fst (submit e cfg c a sz mailbox wb rcv s3))"
    and r9: "command_result e c sz rcv r8 s8 = (ok, r9, s9, data)"
    and run: "command_run e c a mailbox sz wb rcv timeout r0 s =
      (if st1 \<noteq> BVSTK_OK then failed_command e st1 r0 s1 else if prep \<noteq> BVSTK_OK then failed_command e prep r0 s3
       else if st7 \<noteq> BVSTK_OK then failed_command e st7 r8 s8
       else if ok then Some (BVSTK_OK, r9, s9, if rcv then Some data else None) else failed_command e BVSTK_ERR_IO r9 s9)"
    by (rule command_run_stages [OF e timeout, where s = s and c = c and a = a and sz = sz and mailbox = mailbox and
          wb = wb and rcv = rcv and ?r0.0 = r0]) blast
  define s6 where "s6 = submit e cfg c a sz mailbox wb rcv s3"
  obtain ev3 where e3: "same_driver (fst s) (fst s3)" "snd s3 = snd s @ ev3" "issues [] ev3" using calm_issues [OF c3] by blast
  obtain ev1 where e1: "same_driver (fst s) (fst s1)" "snd s1 = snd s @ ev1" "issues [] ev1" using calm_issues [OF c1] by blast
  obtain ev6 where e6: "same_driver (fst s3) (fst s6)" "snd s6 = snd s3 @ ev6"
    "issues [] ev6 \<and> dm_io_error (fst s6) \<or> issues [req] ev6"
    using submit_run [OF sz mb c wb, of e cfg a rcv s3] unfolding s6_def req_def by blast
  obtain ev8 where e8: "same_driver (fst s6) (fst s8)" "snd s8 = snd s6 @ ev8" "issues [] ev8"
    using calm_issues [OF sticky_calm [OF s8]] unfolding s6_def by blast
  note cr = command_result_run [OF r9]
  obtain ev9 where e9: "same_driver (fst s8) (fst s9)" "snd s9 = snd s8 @ ev9" "issues [] ev9"
    "ok \<and> rcv \<Longrightarrow> delivered [] ev9 data"
    using cr calm_issues [OF sticky_calm [OF conjunct1 [OF cr]]] by (cases "ok \<and> rcv") (auto simp: issues_calm)
  have i8: "issues [] (ev3 @ ev6 @ ev8) \<or> issues [req] (ev3 @ ev6 @ ev8)"
    using issues_append [OF e3(3) issues_append [OF _ e8(3), of _ ev6]] e6(3) by fastforce
  have i9: "issues [] (ev3 @ ev6 @ ev8 @ ev9) \<or> issues [req] (ev3 @ ev6 @ ev8 @ ev9)"
    using i8 issues_append [OF _ e9(3), of _ "ev3 @ ev6 @ ev8"] by fastforce
  have d8: "same_driver (fst s) (fst s8)" "same_driver (fst s) (fst s9)"
    using e3(1) e6(1) e8(1) e9(1) by (auto simp: same_driver_def)
  have good: "issues [req] (ev3 @ ev6 @ ev8)" if "st7 = BVSTK_OK"
  proof -
    have "\<not> dm_io_error (fst s6)" using st7 [OF that] by (simp add: s6_def)
    then show ?thesis using issues_append [OF e3(3) issues_append [OF _ e8(3), of "[req]" ev6]] e6(3) by simp
  qed
  have done9: "command_did req rcv s BVSTK_OK s9 (if rcv then Some data else None)" if "st7 = BVSTK_OK" "ok"
  proof -
    have "issues [req] ((ev3 @ ev6 @ ev8) @ ev9)" using issues_append [OF good [OF that(1)] e9(3)] by simp
    moreover have "rcv \<Longrightarrow> delivered [req] ((ev3 @ ev6 @ ev8) @ ev9) data"
      using delivered_after [OF good [OF that(1)] e9(4)] that(2) by simp
    ultimately show ?thesis using d8(2) e3(2) e6(2) e8(2) e9(2)
      by (auto simp: command_did_def intro!: exI [of _ "(ev3 @ ev6 @ ev8) @ ev9"])
  qed
  have "snd s8 = snd s @ ev3 @ ev6 @ ev8" "snd s9 = snd s @ ev3 @ ev6 @ ev8 @ ev9"
    using e3(2) e6(2) e8(2) e9(2) by simp_all
  note f = fail [OF _ e1(1,2)] fail [OF _ e3(1,2)] fail [OF _ d8(1) this(1) i8] fail [OF _ d8(2) this(2) i9]
  consider "st1 \<noteq> BVSTK_OK" | "st1 = BVSTK_OK" "prep \<noteq> BVSTK_OK" | "st1 = BVSTK_OK" "prep = BVSTK_OK" "st7 \<noteq> BVSTK_OK"
    | "st1 = BVSTK_OK" "prep = BVSTK_OK" "st7 = BVSTK_OK" "ok" | "st1 = BVSTK_OK" "prep = BVSTK_OK" "st7 = BVSTK_OK" "\<not> ok"
    by blast
  then show ?thesis
  proof cases
    case 4
    then show ?thesis using done9 [OF 4(3,4)] unfolding run req_def [symmetric] by simp
  qed (use f e1(3) e3(3) in \<open>simp_all add: run req_def [symmetric]\<close>)
qed

subsection \<open>The calls of the driver\<close>

definition descriptor_ok :: "bvstk_sd_master_t \<Rightarrow> bool" where
  "descriptor_ok d \<longleftrightarrow> dm_open d \<and> unat (sc_read_descriptor_bytes (dm_config d)) \<in> {8, 16}"

lemma master_command_did:
  assumes "clock_ok e" and d: "descriptor_ok d" and c: "c \<in> {13, 16, 17, 24}" "(c = 24) = (wb \<noteq> None)" "(c = 17) = rcv"
    and "unat timeout \<le> 2 ^ 31"
  shows "\<exists>st d' r data tr'. bvstk_sd_master_command e (Some d) c a wb rcv timeout (Some r0) tr = Some (st, Some d', Some r, data, tr') \<and>
    command_did (request_of c a wb) rcv (d, tr) st (d', tr') data"
proof -
  obtain mb where mb: "command_mailbox c = Some mb" "mb < 0x100"
    using c(1) by (auto simp: command_mailbox_def SDM_MB_CMD13_def SDM_MB_CMD16_def SDM_MB_CMD17_def SDM_MB_CMD24_def)
  define sz where "sz = command_size (dm_config d) c"
  have sz: "sz \<in> {8, 16, 522}" "wb \<noteq> None \<Longrightarrow> sz = 522"
    using d c by (auto simp: sz_def command_size_def descriptor_ok_def SDM_TX_BYTES_def)
  define r1 where "r1 = zero_report\<lparr>rp_command := c, rp_first_reply := SENTINEL, rp_stage := ''DMA reset''\<rparr>"
  obtain st r s' data where run: "command_run e c a mb sz wb rcv timeout r1 (d, tr) = Some (st, r, s', data)"
    and did: "command_did (request_of c a wb) rcv (d, tr) st s' data"
    using command_run_did [OF assms(1) sz(1) mb(2) c(1,2) sz(2) assms(6)] by blast
  have "bvstk_sd_master_command e (Some d) c a wb rcv timeout (Some r0) tr = Some (st, Some (fst s'), Some r, data, snd s')"
    using d c mb run by (auto simp: bvstk_sd_master_command_def descriptor_ok_def Let_def sz_def r1_def)
  then show ?thesis using did by (cases s') auto
qed

lemma initialize_open_run:
  assumes e: "clock_ok e" and timeout: "unat timeout \<le> 2 ^ 31"
  shows "\<exists>st r s'. initialize_open e timeout s = Some (st, r, s') \<and> calm s s'"
proof -
  define s0 where "s0 = sd_say EDisable (apfst (dm_io_error_update (\<lambda>_. False)) s)"
  have c0: "calm s s0" by (cases s) (auto simp: s0_def sd_say_def calm_def same_driver_def)
  obtain st1 s1 where r1: "dma_reset e s0 = Some (st1, s1)" and k1: "sticky s0 s1" using dma_reset_run [OF e] by blast
  have c1: "calm s s1" using c0 k1 by (meson calm_trans sticky_calm)
  define s2 where "s2 = sd_say (ESleep 2) (wr e SDM_CORE SDM_CSR SDM_RESET s1)"
  define s3 where "s3 = wr_all e (init_writes (dm_config (fst s2))) s2"
  define s4 where "s4 = sd_say EPrepare s3"
  have "sticky s1 s2" unfolding s2_def by (intro sticky_sayI sticky_wr) (simp_all add: sdm_values)
  moreover have "sticky s2 s3" unfolding s3_def
    by (rule sticky_wr_all) (auto simp: init_writes_def list_all_iff sdm_offsets sdm_values)
  ultimately have "sticky s1 s4" unfolding s4_def by (intro sticky_sayI) (auto intro: sticky_trans)
  then have c4: "calm s s4" using c1 by (meson calm_trans sticky_calm)
  define t0 where "t0 = ck_now e (snd s4)"
  define s6 where "s6 = wr e SDM_CORE SDM_INIT SDM_INIT_VALUE (sd_say ENow s4)"
  have "sticky s4 s6" unfolding s6_def by (intro sticky_trans [OF sticky_say sticky_wr]) (simp_all add: sdm_offsets)
  then have c6: "calm s s6" using c4 by (meson calm_trans sticky_calm)
  define limit where "limit = (if timeout \<noteq> 0 then timeout else 20000)"
  define rl where "rl = zero_report\<lparr>rp_stage := ''initialization''\<rparr>"
  have "unat limit \<le> 2 ^ 31" using timeout by (simp add: limit_def)
  moreover have "t0 \<le> ck_now e (snd s6)" "ck_now e (snd s6) \<le> t0 + 5000"
    using now_before [OF e, where s = s4 and g = SDM_CORE and off = SDM_INIT and v = SDM_INIT_VALUE] by (simp_all add: t0_def s6_def)
  ultimately obtain st7 r7 s7 where r7: "init_loop e limit (of_nat t0) rl s6 = Some (st7, r7, s7)" and p7: "polled s6 (st7, r7, s7)"
    using init_loop_run [OF e] by (metis prod_cases3)
  define s8 where "s8 = snd (elapsed e (of_nat t0) s7)"
  define r8 where "r8 = r7\<lparr>rp_elapsed_ms := fst (elapsed e (of_nat t0) s7)\<rparr>"
  have "sticky s6 s8" using p7 sticky_elapsed [of s7 e] unfolding s8_def polled_def by (auto intro: sticky_trans)
  then have c8: "calm s s8" using c6 by (meson calm_trans sticky_calm)
  define r0 where "r0 = zero_report\<lparr>rp_stage := ''DMA reset''\<rparr>"
  have run: "initialize_open e timeout s =
      (if st1 \<noteq> BVSTK_OK then sd_failed e st1 r0 s1 else if ev_prepare e (snd s3) \<noteq> BVSTK_OK
       then sd_failed e (ev_prepare e (snd s3)) rl s4 else if st7 = BVSTK_OK then Some (st7, r8\<lparr>rp_stage := ''initialized''\<rparr>, s8)
       else sd_failed e st7 r8 s8)"
    unfolding initialize_open_def s0_def [symmetric] r1
    by (simp add: Let_def now_ms_def s2_def [symmetric] s3_def [symmetric] s4_def [symmetric] s6_def [symmetric] t0_def [symmetric]
        limit_def [symmetric] r7 [unfolded rl_def] rl_def split_beta s8_def [symmetric] r8_def [symmetric] r0_def)
  have "\<exists>st r' s'. sd_failed e st0 r s0' = Some (st, r', s') \<and> calm s s'" if "calm s s0'" for st0 r s0'
    using failed_run [OF e, of st0 r s0'] calm_trans [OF that] by blast
  then show ?thesis unfolding run using c1 c4 c8 by (cases s8) auto
qed

lemma master_initialize_did:
  assumes "clock_ok e" "descriptor_ok d" "unat timeout \<le> 2 ^ 31"
  shows "\<exists>st d' r evs. bvstk_sd_master_initialize e (Some d) timeout (Some r0) tr = Some (st, Some d', Some r, tr @ evs) \<and>
    same_driver d d' \<and> issues [] evs"
proof -
  obtain st r s' where run: "initialize_open e timeout (d, tr) = Some (st, r, s')" and c: "calm (d, tr) s'"
    using initialize_open_run [OF assms(1,3)] by blast
  then show ?thesis using assms(2) calm_issues [OF c] by (cases s') (auto simp: bvstk_sd_master_initialize_def descriptor_ok_def)
qed

end
