(* ===== verification/Sd_Service.thy ===== *)
theory Sd_Service
  imports Sd_Master
begin

text \<open>
  The SD card service, \<open>src/services/sd/bvstk_sd_service.c\<close>: initialisation, verified sector
  writes, the diagnostic test and the claim by which the file system takes the card over.

  The service keeps its driver by pointer (\<open>None\<close> before \<open>attach\<close>). Every operation returns the
  status, the service, the result structure and the trace, or \<open>None\<close> when a polling loop of the
  driver never ends. \<open>sd_begin\<close> covers the calls with no service or no result structure; the
  operations are those of a caller that passes both.
\<close>

record bvstk_sd_result_t =
  re_hardware :: bvstk_sd_master_report_t
  re_write_hardware :: bvstk_sd_master_report_t
  re_prepare_hardware :: bvstk_sd_master_report_t
  re_lba :: u32
  re_mismatch_offset :: u32
  re_reinitializations :: u32
  re_status :: bvstk_status_t

definition zero_result :: bvstk_sd_result_t where
  "zero_result = \<lparr> re_hardware = zero_report, re_write_hardware = zero_report, re_prepare_hardware = zero_report,
     re_lba = 0, re_mismatch_offset = 0, re_reinitializations = 0, re_status = BVSTK_OK \<rparr>"

record bvstk_sd_card_info_t =
  ci_ready :: bool
  ci_block_addressed :: bool
  ci_filesystem_owned :: bool
  ci_ocr :: u32
  ci_last :: bvstk_sd_result_t

record bvstk_sd_service_t =
  sv_driver :: "bvstk_sd_master_t option"
  sv_info :: bvstk_sd_card_info_t
  sv_reinitialize :: bool
  sv_command_since_init :: bool
  sv_expected :: bytes
  sv_received :: bytes

abbreviation set_info :: "(bvstk_sd_card_info_t \<Rightarrow> bvstk_sd_card_info_t) \<Rightarrow> bvstk_sd_service_t \<Rightarrow> bvstk_sd_service_t" where
  "set_info f s \<equiv> s\<lparr>sv_info := f (sv_info s)\<rparr>"

definition set_stage :: "string \<Rightarrow> bvstk_sd_master_report_t \<Rightarrow> bvstk_sd_master_report_t" where
  "set_stage m r = r\<lparr>rp_stage := m\<rparr>"

definition COMMAND_TIMEOUT_MS :: u32 where "COMMAND_TIMEOUT_MS = 5000"

type_synonym sd_call = "bvstk_status_t \<times> bvstk_sd_service_t \<times> bvstk_sd_result_t \<times> sd_trace"

subsection \<open>Entering and leaving an operation\<close>

definition driver_open :: "bvstk_sd_service_t \<Rightarrow> bool" where
  "driver_open s \<longleftrightarrow> (case sv_driver s of None \<Rightarrow> False | Some d \<Rightarrow> dm_open d)"

definition blank_result :: bvstk_sd_result_t where
  "blank_result = zero_result\<lparr>re_mismatch_offset := - 1, re_hardware := set_stage ''service'' zero_report,
     re_status := BVSTK_ERR_NOT_READY\<rparr>"

definition sd_begin :: "sd_env \<Rightarrow> bvstk_sd_service_t option \<Rightarrow> bool \<Rightarrow> bool \<Rightarrow> bool \<Rightarrow> sd_trace \<Rightarrow>
    bvstk_status_t \<times> bvstk_sd_result_t \<times> sd_trace" where
  "sd_begin e sp result_set require_ready filesystem tr =
    (let r = blank_result in
     if \<not> result_set then (BVSTK_ERR_MALFORMED, r, tr)
     else case sp of None \<Rightarrow> (re_status r, r, tr)
     | Some s \<Rightarrow>
       if \<not> driver_open s then (re_status r, r, tr) else
       let status = mx_lock e tr 1000; tr1 = tr @ [ELock 1000] in
       if status \<noteq> BVSTK_OK then (status, r\<lparr>re_status := status\<rparr>, tr1)
       else if ci_filesystem_owned (sv_info s) \<noteq> filesystem then
         (BVSTK_ERR_BUSY, r\<lparr>re_status := BVSTK_ERR_BUSY,
            re_hardware := set_stage ''filesystem owns card; raw commands disabled'' (re_hardware r)\<rparr>, tr1 @ [EUnlock])
       else if require_ready \<and> \<not> ci_ready (sv_info s) then (re_status r, r, tr1 @ [EUnlock])
       else (BVSTK_OK, r, tr1))"

definition sd_finish :: "bvstk_sd_service_t \<Rightarrow> bvstk_sd_result_t \<Rightarrow> bvstk_status_t \<Rightarrow> sd_trace \<Rightarrow> sd_call" where
  "sd_finish s r status tr =
    (let r1 = r\<lparr>re_status := status\<rparr>;
         s1 = (if status = BVSTK_ERR_IO \<or> status = BVSTK_ERR_TIMEOUT \<or> status = BVSTK_ERR_INTERNAL
               then set_info (ci_ready_update (\<lambda>_. False)) s else s)
     in (status, set_info (ci_last_update (\<lambda>_. r1)) s1, r1, tr @ [EUnlock]))"

definition sd_address :: "bvstk_sd_service_t \<Rightarrow> u32 \<Rightarrow> bvstk_status_t \<times> u32" where
  "sd_address s lba =
    (if \<not> ci_block_addressed (sv_info s) \<and> unat lba > 0xFFFFFFFF div SDM_BLOCK_SIZE then (BVSTK_ERR_RANGE, 0)
     else (BVSTK_OK, if ci_block_addressed (sv_info s) then lba else lba * of_nat SDM_BLOCK_SIZE))"

subsection \<open>Card access under the lock\<close>

definition prepare_command :: "sd_env \<Rightarrow> bvstk_sd_service_t \<Rightarrow> bvstk_sd_result_t \<Rightarrow> sd_trace \<Rightarrow> sd_call option" where
  "prepare_command e s r tr =
    (if \<not> sv_reinitialize s \<or> \<not> sv_command_since_init s then Some (BVSTK_OK, s, r, tr)
     else do {
       let r1 = r\<lparr>re_reinitializations := re_reinitializations r + 1\<rparr>;
       (status, d, rep, tr1) \<leftarrow> bvstk_sd_master_initialize e (sv_driver s) 20000 (Some (re_prepare_hardware r1)) tr;
       let s1 = s\<lparr>sv_driver := d\<rparr>;
       let r2 = r1\<lparr>re_prepare_hardware := the rep\<rparr>;
       if status \<noteq> BVSTK_OK then Some (status, s1, r2, tr1)
       else if rp_init_reply (re_prepare_hardware r2) ! 5 \<noteq> ci_ocr (sv_info s1) then
         Some (BVSTK_ERR_IO, s1,
           r2\<lparr>re_prepare_hardware := set_stage ''OCR changed; explicit init required'' (re_prepare_hardware r2)\<rparr>, tr1)
       else Some (BVSTK_OK, s1\<lparr>sv_command_since_init := False\<rparr>, r2, tr1) })"

text \<open>\<open>transfer\<close> writes the given block, or reads one (the last component is what it stores at
  \<open>read_block\<close>, if anything).\<close>

definition sd_transfer :: "sd_env \<Rightarrow> bvstk_sd_service_t \<Rightarrow> u32 \<Rightarrow> bytes option \<Rightarrow> bvstk_sd_result_t \<Rightarrow> sd_trace \<Rightarrow>
    (bvstk_status_t \<times> bvstk_sd_service_t \<times> bvstk_sd_result_t \<times> sd_trace \<times> bytes option) option" where
  "sd_transfer e s lba write_block r tr =
    (case sd_address s lba of (status, argument) \<Rightarrow>
      let r1 = r\<lparr>re_lba := lba\<rparr> in
      if status \<noteq> BVSTK_OK
      then Some (status, s, r1\<lparr>re_hardware := set_stage ''LBA range'' (re_hardware r1)\<rparr>, tr, None)
      else do {
        (status, s1, r2, tr1) \<leftarrow> prepare_command e s r1 tr;
        if status \<noteq> BVSTK_OK then Some (status, s1, r2, tr1, None)
        else do {
          let s2 = s1\<lparr>sv_command_since_init := True\<rparr>;
          (status, d, rep, data, tr2) \<leftarrow> bvstk_sd_master_command e (sv_driver s2)
            (if write_block \<noteq> None then 24 else 17) argument write_block (write_block = None) COMMAND_TIMEOUT_MS
            (Some (re_hardware r2)) tr1;
          Some (status, s2\<lparr>sv_driver := d\<rparr>, r2\<lparr>re_hardware := the rep\<rparr>, tr2, data) }})"

fun compare_scan :: "nat \<Rightarrow> bytes \<Rightarrow> bytes \<Rightarrow> nat option" where
  "compare_scan i (x # xs) (y # ys) = (if x \<noteq> y then Some i else compare_scan (i + 1) xs ys)"
| "compare_scan i _ _ = None"

definition sd_compare :: "bytes \<Rightarrow> bytes \<Rightarrow> bvstk_sd_result_t \<Rightarrow> bvstk_status_t \<times> bvstk_sd_result_t" where
  "sd_compare expected received r =
    (case compare_scan 0 (take SDM_BLOCK_SIZE expected) (take SDM_BLOCK_SIZE received) of
       None \<Rightarrow> (BVSTK_OK, r)
     | Some i \<Rightarrow> (BVSTK_ERR_IO, r\<lparr>re_mismatch_offset := of_nat i,
         re_hardware := set_stage ''readback mismatch'' (re_hardware r)\<rparr>))"

definition set_received :: "bytes option \<Rightarrow> bvstk_sd_service_t \<Rightarrow> bvstk_sd_service_t" where
  "set_received data s = (case data of None \<Rightarrow> s | Some b \<Rightarrow> s\<lparr>sv_received := b\<rparr>)"

subsection \<open>Operations\<close>

definition bvstk_sd_service_attach :: "bvstk_sd_service_t option \<Rightarrow> bvstk_sd_master_t option \<Rightarrow> bool \<Rightarrow> bool \<Rightarrow>
    bvstk_status_t \<times> bvstk_sd_service_t option" where
  "bvstk_sd_service_attach sp driver mutex_set reinitialize_between_commands =
    (case (sp, driver) of
       (Some _, Some d) \<Rightarrow>
         if \<not> dm_open d \<or> \<not> mutex_set then (BVSTK_ERR_MALFORMED, sp)
         else (BVSTK_OK, Some \<lparr> sv_driver = driver,
           sv_info = \<lparr> ci_ready = False, ci_block_addressed = False, ci_filesystem_owned = False, ci_ocr = 0,
             ci_last = zero_result\<lparr>re_status := BVSTK_ERR_NOT_READY,
               re_hardware := set_stage ''not initialized'' zero_report, re_mismatch_offset := - 1\<rparr> \<rparr>,
           sv_reinitialize = reinitialize_between_commands, sv_command_since_init = False,
           sv_expected = replicate SDM_BLOCK_SIZE 0, sv_received = replicate SDM_BLOCK_SIZE 0 \<rparr>)
     | _ \<Rightarrow> (BVSTK_ERR_MALFORMED, sp))"

definition bvstk_sd_service_info :: "sd_env \<Rightarrow> bvstk_sd_service_t option \<Rightarrow> bool \<Rightarrow> sd_trace \<Rightarrow>
    bvstk_status_t \<times> bvstk_sd_card_info_t option \<times> sd_trace" where
  "bvstk_sd_service_info e sp out tr =
    (case sp of
       None \<Rightarrow> (BVSTK_ERR_NOT_READY, None, tr)
     | Some s \<Rightarrow>
         if sv_driver s = None \<or> \<not> out then (BVSTK_ERR_NOT_READY, None, tr)
         else let status = mx_lock e tr 1000; tr1 = tr @ [ELock 1000] in
           if status \<noteq> BVSTK_OK then (status, None, tr1) else (BVSTK_OK, Some (sv_info s), tr1 @ [EUnlock]))"

definition initialize_locked :: "sd_env \<Rightarrow> bvstk_sd_service_t \<Rightarrow> u32 \<Rightarrow> bvstk_sd_result_t \<Rightarrow> sd_trace \<Rightarrow> sd_call option" where
  "initialize_locked e s timeout_ms r tr =
    (if timeout_ms > 120000 then Some (sd_finish s r BVSTK_ERR_RANGE tr)
     else do {
       let s1 = (set_info (\<lambda>c. c\<lparr>ci_ready := False, ci_ocr := 0, ci_block_addressed := False\<rparr>) s)
                  \<lparr>sv_command_since_init := False\<rparr>;
       (status, d, rep, tr1) \<leftarrow> bvstk_sd_master_initialize e (sv_driver s1) timeout_ms (Some (re_hardware r)) tr;
       let s2 = s1\<lparr>sv_driver := d\<rparr>;
       let r1 = r\<lparr>re_hardware := the rep\<rparr>;
       if status \<noteq> BVSTK_OK then Some (sd_finish s2 r1 status tr1)
       else do {
         let ocr = rp_init_reply (re_hardware r1) ! 5;
         let s3 = set_info (\<lambda>c. c\<lparr>ci_ocr := ocr, ci_block_addressed := ocr AND 0x40000000 \<noteq> 0\<rparr>) s2;
         if \<not> ci_block_addressed (sv_info s3) \<and> sv_reinitialize s3 then
           Some (sd_finish (set_info (ci_ready_update (\<lambda>_. False)) s3)
             (r1\<lparr>re_hardware := set_stage ''SDSC not qualified for isolated profile'' (re_hardware r1)\<rparr>)
             BVSTK_ERR_UNSUPPORTED tr1)
         else if \<not> ci_block_addressed (sv_info s3) then do {
           (status, d, rep, _, tr2) \<leftarrow> bvstk_sd_master_command e (sv_driver s3) 16 (of_nat SDM_BLOCK_SIZE) None False
             COMMAND_TIMEOUT_MS (Some (re_write_hardware r1)) tr1;
           let s4 = s3\<lparr>sv_driver := d, sv_command_since_init := True\<rparr>;
           Some (sd_finish (set_info (ci_ready_update (\<lambda>_. status = BVSTK_OK)) s4)
             (r1\<lparr>re_write_hardware := the rep\<rparr>) status tr2) }
         else Some (sd_finish (set_info (ci_ready_update (\<lambda>_. True)) s3) r1 BVSTK_OK tr1) }})"

definition bvstk_sd_service_initialize :: "sd_env \<Rightarrow> bvstk_sd_service_t \<Rightarrow> u32 \<Rightarrow> sd_trace \<Rightarrow> sd_call option" where
  "bvstk_sd_service_initialize e s timeout_ms tr =
    (case sd_begin e (Some s) True False False tr of (status, r, tr1) \<Rightarrow>
       if status = BVSTK_OK then initialize_locked e s timeout_ms r tr1 else Some (status, s, r, tr1))"

definition bvstk_sd_service_disk_claim :: "sd_env \<Rightarrow> bvstk_sd_service_t \<Rightarrow> sd_trace \<Rightarrow> sd_call option" where
  "bvstk_sd_service_disk_claim e s tr =
    (case sd_begin e (Some s) True False False tr of (status, r, tr1) \<Rightarrow>
       if status \<noteq> BVSTK_OK then Some (status, s, r, tr1)
       else initialize_locked e (set_info (ci_filesystem_owned_update (\<lambda>_. True)) s) 20000 r tr1)"

definition sd_read_block :: "sd_env \<Rightarrow> bvstk_sd_service_t \<Rightarrow> u32 \<Rightarrow> bool \<Rightarrow> bool \<Rightarrow> sd_trace \<Rightarrow> (sd_call \<times> bytes option) option" where
  "sd_read_block e s lba block filesystem tr =
    (case sd_begin e (Some s) True True filesystem tr of (status, r, tr1) \<Rightarrow>
       if status \<noteq> BVSTK_OK then Some ((status, s, r, tr1), None)
       else if \<not> block then Some (sd_finish s r BVSTK_ERR_MALFORMED tr1, None)
       else do {
         (status, s1, r1, tr2, data) \<leftarrow> sd_transfer e s lba None r tr1;
         Some (sd_finish s1 r1 status tr2, data) })"

definition sd_write_block :: "sd_env \<Rightarrow> bvstk_sd_service_t \<Rightarrow> u32 \<Rightarrow> bytes option \<Rightarrow> bool \<Rightarrow> sd_trace \<Rightarrow> sd_call option" where
  "sd_write_block e s lba block filesystem tr =
    (case sd_begin e (Some s) True True filesystem tr of (status, r, tr1) \<Rightarrow>
       if status \<noteq> BVSTK_OK then Some (status, s, r, tr1)
       else (case block of
           None \<Rightarrow> Some (sd_finish s r BVSTK_ERR_MALFORMED tr1)
         | Some b \<Rightarrow> do {
             (status, s1, r1, tr2, _) \<leftarrow> sd_transfer e s lba (Some b) r tr1;
             let r2 = r1\<lparr>re_write_hardware := re_hardware r1\<rparr>;
             if status \<noteq> BVSTK_OK then Some (sd_finish s1 r2 status tr2)
             else do {
               (status, s2, r3, tr3, data) \<leftarrow> sd_transfer e s1 lba None r2 tr2;
               let s3 = set_received data s2;
               if status \<noteq> BVSTK_OK then Some (sd_finish s3 r3 status tr3)
               else (case sd_compare b (sv_received s3) r3 of
                   (status, r4) \<Rightarrow> Some (sd_finish s3 r4 status tr3)) }}))"

definition bvstk_sd_service_read :: "sd_env \<Rightarrow> bvstk_sd_service_t \<Rightarrow> u32 \<Rightarrow> bool \<Rightarrow> sd_trace \<Rightarrow> (sd_call \<times> bytes option) option" where
  "bvstk_sd_service_read e s lba block tr = sd_read_block e s lba block False tr"

definition bvstk_sd_service_write_verify :: "sd_env \<Rightarrow> bvstk_sd_service_t \<Rightarrow> u32 \<Rightarrow> bytes option \<Rightarrow> sd_trace \<Rightarrow> sd_call option" where
  "bvstk_sd_service_write_verify e s lba block tr = sd_write_block e s lba block False tr"

definition bvstk_sd_service_disk_read :: "sd_env \<Rightarrow> bvstk_sd_service_t \<Rightarrow> u32 \<Rightarrow> bool \<Rightarrow> sd_trace \<Rightarrow> (sd_call \<times> bytes option) option" where
  "bvstk_sd_service_disk_read e s lba block tr = sd_read_block e s lba block True tr"

definition bvstk_sd_service_disk_write :: "sd_env \<Rightarrow> bvstk_sd_service_t \<Rightarrow> u32 \<Rightarrow> bytes option \<Rightarrow> sd_trace \<Rightarrow> sd_call option" where
  "bvstk_sd_service_disk_write e s lba block tr = sd_write_block e s lba block True tr"

definition simple_command :: "sd_env \<Rightarrow> bvstk_sd_service_t \<Rightarrow> u8 \<Rightarrow> sd_trace \<Rightarrow> sd_call option" where
  "simple_command e s cmd tr =
    (case sd_begin e (Some s) True True False tr of (status, r, tr1) \<Rightarrow>
       if status \<noteq> BVSTK_OK then Some (status, s, r, tr1)
       else do {
         (status, s1, r1, tr2) \<leftarrow> prepare_command e s r tr1;
         if status \<noteq> BVSTK_OK then Some (sd_finish s1 r1 status tr2)
         else do {
           let s2 = s1\<lparr>sv_command_since_init := True\<rparr>;
           (status, d, rep, _, tr3) \<leftarrow> bvstk_sd_master_command e (sv_driver s2) cmd
             (if cmd = 16 then of_nat SDM_BLOCK_SIZE else 0) None False COMMAND_TIMEOUT_MS (Some (re_hardware r1)) tr2;
           Some (sd_finish (s2\<lparr>sv_driver := d\<rparr>) (r1\<lparr>re_hardware := the rep\<rparr>) status tr3) }})"

definition bvstk_sd_service_card_status :: "sd_env \<Rightarrow> bvstk_sd_service_t \<Rightarrow> sd_trace \<Rightarrow> sd_call option" where
  "bvstk_sd_service_card_status e s tr = simple_command e s 13 tr"

definition bvstk_sd_service_block_length :: "sd_env \<Rightarrow> bvstk_sd_service_t \<Rightarrow> sd_trace \<Rightarrow> sd_call option" where
  "bvstk_sd_service_block_length e s tr = simple_command e s 16 tr"

subsection \<open>The destructive test\<close>

fun pattern_bytes :: "nat \<Rightarrow> u32 \<Rightarrow> bytes" where
  "pattern_bytes 0 state = []"
| "pattern_bytes (Suc n) state =
    (let a = state XOR push_bit 13 state;
         b = a XOR drop_bit 17 a;
         c = b XOR push_bit 5 b
     in ucast c # pattern_bytes n c)"

definition bvstk_sd_service_pattern :: "u32 \<Rightarrow> u32 \<Rightarrow> bytes" where
  "bvstk_sd_service_pattern lba seed =
    (let state = seed XOR lba XOR 0x9e3779b9;
         start = (if state = 0 then 1 else state)
     in le_bytes lba @ le_bytes seed @ drop 8 (pattern_bytes SDM_BLOCK_SIZE start))"

type_synonym sd_locked = "bvstk_status_t \<times> bvstk_sd_service_t \<times> bvstk_sd_result_t \<times> sd_trace"

fun test_writes :: "sd_env \<Rightarrow> u32 \<Rightarrow> u32 list \<Rightarrow> bvstk_sd_service_t \<Rightarrow> bvstk_sd_result_t \<Rightarrow> sd_trace \<Rightarrow> sd_locked option" where
  "test_writes e seed [] s r tr = Some (BVSTK_OK, s, r, tr)"
| "test_writes e seed (lba # lbas) s r tr = do {
     let s0 = s\<lparr>sv_expected := bvstk_sd_service_pattern lba seed\<rparr>;
     (status, s1, r1, tr1, _) \<leftarrow> sd_transfer e s0 lba (Some (sv_expected s0)) r tr;
     let r2 = r1\<lparr>re_write_hardware := re_hardware r1\<rparr>;
     if status \<noteq> BVSTK_OK then Some (status, s1, r2, tr1) else test_writes e seed lbas s1 r2 tr1 }"

fun test_reads :: "sd_env \<Rightarrow> u32 \<Rightarrow> u32 list \<Rightarrow> bvstk_sd_service_t \<Rightarrow> bvstk_sd_result_t \<Rightarrow> sd_trace \<Rightarrow> sd_locked option" where
  "test_reads e seed [] s r tr = Some (BVSTK_OK, s, r, tr)"
| "test_reads e seed (lba # lbas) s r tr = do {
     (status, s1, r1, tr1, data) \<leftarrow> sd_transfer e s lba None r tr;
     let s2 = set_received data s1;
     if status \<noteq> BVSTK_OK then Some (status, s2, r1, tr1)
     else do {
       let s3 = s2\<lparr>sv_expected := bvstk_sd_service_pattern lba seed\<rparr>;
       (case sd_compare (sv_expected s3) (sv_received s3) r1 of (status, r2) \<Rightarrow>
          if status \<noteq> BVSTK_OK then Some (status, s3, r2, tr1) else test_reads e seed lbas s3 r2 tr1) }}"

definition sd_lbas :: "u32 \<Rightarrow> u32 \<Rightarrow> u32 list" where
  "sd_lbas lba count = map (\<lambda>i. lba + of_nat i) [0..<unat count]"

definition bvstk_sd_service_test :: "sd_env \<Rightarrow> bvstk_sd_service_t \<Rightarrow> u32 \<Rightarrow> u32 \<Rightarrow> u32 \<Rightarrow> sd_trace \<Rightarrow> sd_call option" where
  "bvstk_sd_service_test e s lba count seed tr =
    (case sd_begin e (Some s) True True False tr of (status, r, tr1) \<Rightarrow>
       if status \<noteq> BVSTK_OK then Some (status, s, r, tr1)
       else if count = 0 \<or> count > 8 \<or> lba > - 1 - (count - 1) \<or> fst (sd_address s (lba + count - 1)) \<noteq> BVSTK_OK
       then Some (sd_finish s r BVSTK_ERR_RANGE tr1)
       else do {
         (status, s1, r1, tr2) \<leftarrow> test_writes e seed (sd_lbas lba count) s r tr1;
         if status \<noteq> BVSTK_OK then Some (sd_finish s1 r1 status tr2)
         else do {
           (status, s2, r2, tr3) \<leftarrow> test_reads e seed (sd_lbas lba count) s1 r1 tr2;
           Some (sd_finish s2 r2 status tr3) }})"

end
