(* ===== verification/Sd_Verify.thy ===== *)
theory Sd_Verify
  imports Sd_Commands Sd_Service
begin

text \<open>
  What the operations of the SD service do to the card: which requests they issue, in which
  order, what a successful write has read back, and that the claim of the file system shuts
  the raw commands out.
\<close>

definition service_ok :: "bvstk_sd_service_t \<Rightarrow> bool" where
  "service_ok s \<longleftrightarrow> (\<exists>d. sv_driver s = Some d \<and> descriptor_ok d)"

lemma service_ok_update:
  assumes "service_ok s" "sv_driver s = Some d" "same_driver d d'"
  shows "service_ok (s'\<lparr>sv_driver := Some d'\<rparr>)"
  using assms by (auto simp: service_ok_def descriptor_ok_def same_driver_def)

lemma service_ok_frame [simp]:
  "service_ok (s\<lparr>sv_info := i\<rparr>) = service_ok s" "service_ok (s\<lparr>sv_command_since_init := b\<rparr>) = service_ok s"
  "service_ok (s\<lparr>sv_expected := x\<rparr>) = service_ok s" "service_ok (s\<lparr>sv_received := x\<rparr>) = service_ok s"
  "service_ok (set_received data s) = service_ok s"
  by (simp_all add: service_ok_def set_received_def split: option.split)

lemma prepare_did:
  assumes e: "clock_ok e" and s: "service_ok s"
  shows "\<exists>st s' r' evs. prepare_command e s r tr = Some (st, s', r', tr @ evs) \<and> service_ok s' \<and>
    sv_info s' = sv_info s \<and> issues [] evs"
proof (cases "\<not> sv_reinitialize s \<or> \<not> sv_command_since_init s")
  case True
  then show ?thesis using s by (auto simp: prepare_command_def issues_def intro!: exI [of _ "[]"])
next
  case False
  obtain d where d: "sv_driver s = Some d" "descriptor_ok d" using s by (auto simp: service_ok_def)
  define r1 where "r1 = r\<lparr>re_reinitializations := re_reinitializations r + 1\<rparr>"
  obtain st d' rep evs where i: "bvstk_sd_master_initialize e (Some d) 20000 (Some (re_prepare_hardware r1)) tr = Some (st, Some d', Some rep, tr @ evs)"
    and k: "same_driver d d'" "issues [] evs"
    using master_initialize_did [OF e d(2), of 20000 "re_prepare_hardware r1" tr] by auto
  have "service_ok (s'\<lparr>sv_driver := Some d'\<rparr>)" for s' by (rule service_ok_update [OF s d(1) k(1)])
  then show ?thesis using False i k by (auto simp: prepare_command_def d(1) r1_def Let_def)
qed

definition transfer_request :: "bvstk_sd_service_t \<Rightarrow> u32 \<Rightarrow> bytes option \<Rightarrow> sd_request" where
  "transfer_request s lba wb = request_of (if wb \<noteq> None then 24 else 17) (snd (sd_address s lba)) wb"

lemma transfer_did:
  assumes e: "clock_ok e" and s: "service_ok s"
  shows "\<exists>st s' r' evs data. sd_transfer e s lba wb r tr = Some (st, s', r', tr @ evs, data) \<and> service_ok s' \<and>
    sv_info s' = sv_info s \<and> (issues [] evs \<or> issues [transfer_request s lba wb] evs) \<and>
    (st = BVSTK_OK \<longrightarrow> issues [transfer_request s lba wb] evs \<and>
       (wb = None \<longrightarrow> (\<exists>d. data = Some d \<and> delivered [transfer_request s lba wb] evs d)))"
proof -
  obtain ast arg where a: "sd_address s lba = (ast, arg)" by fastforce
  define req where "req = transfer_request s lba wb"
  have req: "req = request_of (if wb \<noteq> None then 24 else 17) arg wb" by (simp add: req_def transfer_request_def a)
  define r1 where "r1 = r\<lparr>re_lba := lba\<rparr>"
  show ?thesis
  proof (cases "ast = BVSTK_OK")
    case False
    then show ?thesis using s by (auto simp: sd_transfer_def a Let_def issues_def intro!: exI [of _ "[]"])
  next
    case True
    obtain st1 s1 r2 ev1 where p: "prepare_command e s r1 tr = Some (st1, s1, r2, tr @ ev1)" "service_ok s1"
      "sv_info s1 = sv_info s" "issues [] ev1" using prepare_did [OF e s] by blast
    show ?thesis
    proof (cases "st1 = BVSTK_OK")
      case False
      then show ?thesis using p True by (auto simp: sd_transfer_def a r1_def Let_def)
    next
      case ok: True
      obtain d where d: "sv_driver s1 = Some d" "descriptor_ok d" using p(2) by (auto simp: service_ok_def)
      have cmd: "(if wb \<noteq> None then 24 else 17 :: u8) \<in> {13, 16, 17, 24}"
        "((if wb \<noteq> None then 24 else 17 :: u8) = 24) = (wb \<noteq> None)" "((if wb \<noteq> None then 24 else 17 :: u8) = 17) = (wb = None)"
        by simp_all
      obtain st d' rep data tr' where c: "bvstk_sd_master_command e (Some d) (if wb \<noteq> None then 24 else 17) arg wb (wb = None)
          COMMAND_TIMEOUT_MS (Some (re_hardware r2)) (tr @ ev1) = Some (st, Some d', Some rep, data, tr')"
        and did: "command_did req (wb = None) (d, tr @ ev1) st (d', tr') data"
        using master_command_did [OF e d(2) cmd, of COMMAND_TIMEOUT_MS arg "re_hardware r2" "tr @ ev1"]
        unfolding req by (simp add: COMMAND_TIMEOUT_MS_def) blast
      obtain ev2 where t: "tr' = tr @ ev1 @ ev2" "issues [] ev2 \<or> issues [req] ev2" "same_driver d d'"
        "st = BVSTK_OK \<longrightarrow> issues [req] ev2 \<and> (wb = None \<longrightarrow> (\<exists>d. data = Some d \<and> delivered [req] ev2 d))"
        using did by (auto simp: command_did_def)
      have i: "issues xs (ev1 @ ev2)" if "issues xs ev2" for xs using issues_append [OF p(4) that] by simp
      have dl: "delivered xs (ev1 @ ev2) b" if "delivered xs ev2 b" for xs b using delivered_after [OF p(4) that] by simp
      have "sd_transfer e s lba wb r tr = Some (st, s1\<lparr>sv_command_since_init := True, sv_driver := Some d'\<rparr>,
          r2\<lparr>re_hardware := rep\<rparr>, tr @ (ev1 @ ev2), data)"
        using c t(1) by (simp add: sd_transfer_def a True r1_def [symmetric] p(1) ok d(1) Let_def)
      moreover have "service_ok (s1\<lparr>sv_command_since_init := True, sv_driver := Some d'\<rparr>)"
        by (rule service_ok_update [OF p(2) d(1) t(3)])
      ultimately show ?thesis using p(3) t(2,4) i dl unfolding req_def [symmetric] by auto
    qed
  qed
qed
subsection \<open>Entering and leaving\<close>

lemma begin_cases:
  obtains (entered) r where "sd_begin e (Some s) True rq fs tr = (BVSTK_OK, r, tr @ [ELock 1000])"
      "ci_filesystem_owned (sv_info s) = fs" "rq \<longrightarrow> ci_ready (sv_info s)" "mx_lock e tr 1000 = BVSTK_OK"
  | (refused) st r evs where "sd_begin e (Some s) True rq fs tr = (st, r, tr @ evs)" "st \<noteq> BVSTK_OK"
      "evs \<in> {[], [ELock 1000], [ELock 1000, EUnlock]}" "mx_lock e tr 1000 = BVSTK_OK \<Longrightarrow> st \<in> {BVSTK_ERR_BUSY, BVSTK_ERR_NOT_READY}"
      "driver_open s \<Longrightarrow> mx_lock e tr 1000 = BVSTK_OK \<Longrightarrow> ci_filesystem_owned (sv_info s) \<noteq> fs \<Longrightarrow> st = BVSTK_ERR_BUSY"
proof -
  define st where "st = fst (sd_begin e (Some s) True rq fs tr)"
  show thesis
  proof (cases "st = BVSTK_OK")
    case True
    then show thesis
      by (intro entered [of "fst (snd (sd_begin e (Some s) True rq fs tr))"])
        (auto simp: st_def sd_begin_def Let_def blank_result_def split: if_splits)
  next
    case False
    then show thesis
      by (intro refused [of st "fst (snd (sd_begin e (Some s) True rq fs tr))" "drop (length tr) (snd (snd (sd_begin e (Some s) True rq fs tr)))"])
        (auto simp: st_def sd_begin_def Let_def blank_result_def split: if_splits)
  qed
qed

definition broken :: "bvstk_status_t \<Rightarrow> bool" where
  "broken st \<longleftrightarrow> st = BVSTK_ERR_IO \<or> st = BVSTK_ERR_TIMEOUT \<or> st = BVSTK_ERR_INTERNAL"

lemma finish_did:
  "\<exists>s' r'. sd_finish s r st tr = (st, s', r', tr @ [EUnlock]) \<and> service_ok s' = service_ok s \<and>
     ci_filesystem_owned (sv_info s') = ci_filesystem_owned (sv_info s) \<and>
     ci_ready (sv_info s') = (ci_ready (sv_info s) \<and> \<not> broken st)"
  by (auto simp: sd_finish_def broken_def Let_def)

lemma compare_scan_None: "length xs = length ys \<Longrightarrow> compare_scan i xs ys = None \<longleftrightarrow> xs = ys"
  by (induction i xs ys rule: compare_scan.induct) auto

lemma length_le_concat: "length (concat (map le_bytes ws)) = 4 * length ws"
  by (induction ws) (simp_all add: le_bytes_def)

lemma delivered_length: "delivered reqs evs d \<Longrightarrow> length d = 512"
  by (auto simp: delivered_def length_le_concat SDM_BLOCK_SIZE_def)

lemma issues_unlock: "issues xs evs \<Longrightarrow> issues xs (evs @ [EUnlock])"
  by (simp add: issues_def sd_issued_append)

lemma issues_lock: "issues xs evs \<Longrightarrow> issues xs (ELock n # evs)"
  by (simp add: issues_def sd_store_def)

lemma delivered_unlock: 
  assumes "delivered xs evs d" 
  shows "delivered xs (evs @ [EUnlock]) d"
proof -
  obtain before ws after where b: "evs = before @ map (\<lambda>i. ERead SDM_BRAM (SDM_RX_AREA + i * 4) (Some (ws ! i))) [0..<129] @ after"
    "length ws = 129" "\<forall>m. sd_issued m before = xs" "\<not> list_ex is_start after"
    "d = take SDM_BLOCK_SIZE (concat (map le_bytes ws))"
    "bvstk_sd_master_crc16 d = push_bit 8 (ucast (concat (map le_bytes ws) ! 512)) OR ucast (concat (map le_bytes ws) ! 513)"
    using assms unfolding delivered_def by blast
  then show ?thesis unfolding delivered_def
    by (rule_tac x = before in exI, rule_tac x = ws in exI, rule_tac x = "after @ [EUnlock]" in exI) simp
qed

lemma delivered_lock: "delivered xs evs d \<Longrightarrow> delivered xs (ELock n # evs) d"
  using delivered_after [of "[]" "[ELock n]" xs evs d] by (simp add: issues_def)

subsection \<open>Verified writes\<close>

lemma transfer_request_cong: "sv_info s' = sv_info s \<Longrightarrow> transfer_request s' lba wb = transfer_request s lba wb"
  by (simp add: transfer_request_def sd_address_def)

text \<open>How a locked part of an operation ended: status, service and what it sent to the card.\<close>

definition ended :: "bvstk_sd_service_t \<Rightarrow> sd_request list \<Rightarrow> bvstk_status_t \<Rightarrow> bvstk_sd_service_t \<Rightarrow> sd_trace \<Rightarrow> bool" where
  "ended s plan st s' evs \<longleftrightarrow> service_ok s' \<and> ci_filesystem_owned (sv_info s') = ci_filesystem_owned (sv_info s) \<and>
     (\<exists>k. issues (take k plan) evs) \<and> (st = BVSTK_OK \<longrightarrow> issues plan evs) \<and>
     (broken st \<longrightarrow> \<not> ci_ready (sv_info s'))"

lemma finish_ended:
  assumes "service_ok s1" "sv_info s1 = sv_info s" "issues (take k plan) evs" "st = BVSTK_OK \<Longrightarrow> issues plan evs"
  shows "\<exists>s' r'. sd_finish s1 r st (tr @ ELock n # evs) = (st, s', r', tr @ (ELock n # evs @ [EUnlock])) \<and>
    ended s plan st s' (ELock n # evs @ [EUnlock])"
proof -
  obtain s' r' where "sd_finish s1 r st (tr @ ELock n # evs) = (st, s', r', tr @ (ELock n # evs @ [EUnlock]))"
    "service_ok s' = service_ok s1" "ci_filesystem_owned (sv_info s') = ci_filesystem_owned (sv_info s1)"
    "ci_ready (sv_info s') = (ci_ready (sv_info s1) \<and> \<not> broken st)"
    using finish_did [of s1 r st "tr @ ELock n # evs"] by auto
  moreover have "issues xs (ELock n # evs @ [EUnlock])" if "issues xs evs" for xs
    using that by (intro issues_lock issues_unlock)
  ultimately show ?thesis using assms unfolding ended_def by (intro exI [of _ s'] exI [of _ r']) auto
qed

lemma write_locked:
  assumes e: "clock_ok e" and s: "service_ok s" and b: "length b = 512"
    and enter: "sd_begin e (Some s) True True fs tr = (BVSTK_OK, r, tr @ [ELock 1000])"
    and plan: "plan = [transfer_request s lba (Some b), transfer_request s lba None]"
  shows "\<exists>st s' r' evs. sd_write_block e s lba (Some b) fs tr = Some (st, s', r', tr @ evs) \<and> ended s plan st s' evs \<and>
    (st = BVSTK_OK \<longrightarrow> delivered plan evs b)"
proof -
  obtain st1 s1 r1 ev1 x where w: "sd_transfer e s lba (Some b) r (tr @ [ELock 1000]) = Some (st1, s1, r1, (tr @ [ELock 1000]) @ ev1, x)"
    "service_ok s1" "sv_info s1 = sv_info s" "issues [] ev1 \<or> issues (take 1 plan) ev1" "st1 = BVSTK_OK \<longrightarrow> issues (take 1 plan) ev1"
    using transfer_did [OF e s, of lba "Some b" r "tr @ [ELock 1000]"] unfolding plan by auto
  have k1: "\<exists>k. issues (take k plan) ev1" using w(4) by (metis take0)
  define r2 where "r2 = r1\<lparr>re_write_hardware := re_hardware r1\<rparr>"
  have run: "sd_write_block e s lba (Some b) fs tr =
      (if st1 \<noteq> BVSTK_OK then Some (sd_finish s1 r2 st1 (tr @ ELock 1000 # ev1)) else do {
         (status, s2, r3, tr3, data) \<leftarrow> sd_transfer e s1 lba None r2 (tr @ ELock 1000 # ev1);
         let s3 = set_received data s2;
         if status \<noteq> BVSTK_OK then Some (sd_finish s3 r3 status tr3)
         else (case sd_compare b (sv_received s3) r3 of (status, r4) \<Rightarrow> Some (sd_finish s3 r4 status tr3)) })"
    using w(1) by (simp add: sd_write_block_def enter r2_def Let_def)
  show ?thesis
  proof (cases "st1 = BVSTK_OK")
    case False
    obtain k where "issues (take k plan) ev1" using k1 by blast
    from finish_ended [OF w(2,3) this, of st1 r2 tr 1000] False
    obtain s' r' where "sd_write_block e s lba (Some b) fs tr = Some (st1, s', r', tr @ (ELock 1000 # ev1 @ [EUnlock]))"
      "ended s plan st1 s' (ELock 1000 # ev1 @ [EUnlock])" unfolding run by auto
    then show ?thesis using False by blast
  next
    case True
    obtain st2 s2 r3 ev2 data where q: "sd_transfer e s1 lba None r2 (tr @ ELock 1000 # ev1) = Some (st2, s2, r3, (tr @ ELock 1000 # ev1) @ ev2, data)"
      "service_ok s2" "sv_info s2 = sv_info s" "issues [] ev2 \<or> issues (drop 1 plan) ev2"
      "st2 = BVSTK_OK \<longrightarrow> issues (drop 1 plan) ev2 \<and> (\<exists>d. data = Some d \<and> delivered (drop 1 plan) ev2 d)"
      using transfer_did [OF e w(2), of lba None r2 "tr @ ELock 1000 # ev1"] w(3)
      unfolding plan transfer_request_cong [OF w(3)] by auto
    have i1: "issues (take 1 plan) ev1" using w(5) True by simp
    have two: "\<exists>k. issues (take k plan) (ev1 @ ev2)"
      using issues_append [OF i1, of "[]" ev2] issues_append [OF i1, of "drop 1 plan" ev2] q(4)
      by (metis append_Nil2 append_take_drop_id take_all order_refl)
    have all: "issues plan (ev1 @ ev2)" if "issues (drop 1 plan) ev2" using issues_append [OF i1 that] by simp
    define s3 where "s3 = set_received data s2"
    have s3: "service_ok s3" "sv_info s3 = sv_info s" using q(2,3) by (simp_all add: s3_def set_received_def split: option.split)
    obtain st r4 where st: "(if st2 \<noteq> BVSTK_OK then (st2, r3) else sd_compare b (sv_received s3) r3) = (st, r4)" by fastforce
    have run2: "sd_write_block e s lba (Some b) fs tr = Some (sd_finish s3 r4 st (tr @ ELock 1000 # (ev1 @ ev2)))"
      unfolding run q(1) using True st by (auto simp: s3_def Let_def split: if_splits)
    have ok: "issues plan (ev1 @ ev2) \<and> delivered plan (ev1 @ ev2) b" if "st = BVSTK_OK"
    proof -
      have st2: "st2 = BVSTK_OK" using st that by (auto split: if_splits)
      obtain d where d: "data = Some d" "delivered (drop 1 plan) ev2 d" "issues (drop 1 plan) ev2" using q(5) st2 by auto
      have "compare_scan 0 (take 512 b) (take 512 d) = None"
        using st that st2 d(1) by (auto simp: sd_compare_def s3_def set_received_def SDM_BLOCK_SIZE_def split: option.splits)
      then have "b = d" using compare_scan_None [of b d] b delivered_length [OF d(2)] by simp
      then show ?thesis using all [OF d(3)] delivered_after [OF i1 d(2)] by simp
    qed
    obtain k where "issues (take k plan) (ev1 @ ev2)" using two by blast
    from finish_ended [OF s3 this, of st r4 tr 1000] ok
    obtain s' r' where "sd_write_block e s lba (Some b) fs tr = Some (st, s', r', tr @ (ELock 1000 # (ev1 @ ev2) @ [EUnlock]))"
      "ended s plan st s' (ELock 1000 # (ev1 @ ev2) @ [EUnlock])" unfolding run2 by auto
    moreover have "st = BVSTK_OK \<longrightarrow> delivered plan (ELock 1000 # (ev1 @ ev2) @ [EUnlock]) b"
      using ok by (auto intro: delivered_lock delivered_unlock simp del: append_assoc)
    ultimately show ?thesis by blast
  qed
qed

subsection \<open>The test writes everything before it reads anything\<close>

definition issued_upto :: "sd_request list \<Rightarrow> bvstk_status_t \<Rightarrow> sd_trace \<Rightarrow> bool" where
  "issued_upto plan st evs \<longleftrightarrow> (\<exists>k. issues (take k plan) evs) \<and> (st = BVSTK_OK \<longrightarrow> issues plan evs)"

lemma issued_upto_Nil: "issued_upto [] st [] \<longleftrightarrow> True"
  by (simp add: issued_upto_def issues_def)

lemma issued_upto_stop:
  assumes "issues [] ev \<or> issues [req] ev" "st \<noteq> BVSTK_OK"
  shows "issued_upto (req # plan) st ev"
proof -
  have "\<exists>k. issues (take k (req # plan)) ev" using assms(1) by (metis take0 take_Suc_Cons)
  then show ?thesis using assms(2) by (simp add: issued_upto_def)
qed

lemma issued_upto_step:
  assumes "issues [req] ev1" "issued_upto plan st ev2"
  shows "issued_upto (req # plan) st (ev1 @ ev2)"
proof -
  obtain k where "issues (take k plan) ev2" using assms(2) by (auto simp: issued_upto_def)
  then have "issues (take (Suc k) (req # plan)) (ev1 @ ev2)" using issues_append [OF assms(1)] by fastforce
  moreover have "issues (req # plan) (ev1 @ ev2)" if "st = BVSTK_OK"
    using issues_append [OF assms(1), of plan ev2] assms(2) that by (simp add: issued_upto_def)
  ultimately show ?thesis unfolding issued_upto_def by blast
qed

lemma test_writes_did:
  assumes e: "clock_ok e"
  shows "service_ok s \<Longrightarrow> \<exists>st s' r' evs. test_writes e seed lbas s r tr = Some (st, s', r', tr @ evs) \<and> service_ok s' \<and>
    sv_info s' = sv_info s \<and> issued_upto (map (\<lambda>l. transfer_request s l (Some (bvstk_sd_service_pattern l seed))) lbas) st evs"
proof (induction lbas arbitrary: s r tr)
  case Nil
  then show ?case by (auto simp: issued_upto_Nil intro!: exI [of _ "[]"])
next
  case (Cons l lbas)
  define p where "p = bvstk_sd_service_pattern l seed"
  define s0 where "s0 = s\<lparr>sv_expected := p\<rparr>"
  have s0: "service_ok s0" "sv_info s0 = sv_info s" using Cons.prems by (simp_all add: s0_def)
  obtain st1 s1 r1 ev1 x where t: "sd_transfer e s0 l (Some p) r tr = Some (st1, s1, r1, tr @ ev1, x)" "service_ok s1"
    "sv_info s1 = sv_info s" "issues [] ev1 \<or> issues [transfer_request s l (Some p)] ev1"
    "st1 = BVSTK_OK \<longrightarrow> issues [transfer_request s l (Some p)] ev1"
    using transfer_did [OF e s0(1), of l "Some p" r tr] s0(2) transfer_request_cong [OF s0(2), of l "Some p"] by auto
  define r2 where "r2 = r1\<lparr>re_write_hardware := re_hardware r1\<rparr>"
  have run: "test_writes e seed (l # lbas) s r tr = (if st1 \<noteq> BVSTK_OK then Some (st1, s1, r2, tr @ ev1) else test_writes e seed lbas s1 r2 (tr @ ev1))"
    using t(1) by (simp add: p_def Let_def r2_def s0_def)
  show ?case
  proof (cases "st1 = BVSTK_OK")
    case False
    then show ?thesis using t issued_upto_stop [OF t(4) False] unfolding run p_def by simp
  next
    case True
    obtain st s' r' ev2 where i: "test_writes e seed lbas s1 r2 (tr @ ev1) = Some (st, s', r', (tr @ ev1) @ ev2)" "service_ok s'"
      "sv_info s' = sv_info s1" "issued_upto (map (\<lambda>l. transfer_request s1 l (Some (bvstk_sd_service_pattern l seed))) lbas) st ev2"
      using Cons.IH [OF t(2)] by blast
    then have "issued_upto (map (\<lambda>l. transfer_request s l (Some (bvstk_sd_service_pattern l seed))) (l # lbas)) st (ev1 @ ev2)"
      using issued_upto_step [of "transfer_request s l (Some p)" ev1] t(5) True by (simp add: p_def transfer_request_cong [OF t(3)])
    then show ?thesis using i(1-3) True t(3) unfolding run by auto
  qed
qed

lemma test_reads_did:
  assumes e: "clock_ok e"
  shows "service_ok s \<Longrightarrow> \<exists>st s' r' evs. test_reads e seed lbas s r tr = Some (st, s', r', tr @ evs) \<and> service_ok s' \<and>
    sv_info s' = sv_info s \<and> issued_upto (map (\<lambda>l. transfer_request s l None) lbas) st evs"
proof (induction lbas arbitrary: s r tr)
  case Nil
  then show ?case by (auto simp: issued_upto_Nil intro!: exI [of _ "[]"])
next
  case (Cons l lbas)
  obtain st1 s1 r1 ev1 data where t: "sd_transfer e s l None r tr = Some (st1, s1, r1, tr @ ev1, data)" "service_ok s1"
    "sv_info s1 = sv_info s" "issues [] ev1 \<or> issues [transfer_request s l None] ev1"
    "st1 = BVSTK_OK \<longrightarrow> issues [transfer_request s l None] ev1"
    using transfer_did [OF e Cons.prems, of l None r tr] by auto
  define s2 where "s2 = set_received data s1"
  define s3 where "s3 = s2\<lparr>sv_expected := bvstk_sd_service_pattern l seed\<rparr>"
  have s3: "service_ok s2" "sv_info s2 = sv_info s" "service_ok s3" "sv_info s3 = sv_info s"
    using t(2,3) by (simp_all add: s2_def s3_def set_received_def split: option.split)
  obtain st2 r2 where c: "sd_compare (sv_expected s3) (sv_received s3) r1 = (st2, r2)" by fastforce
  have run: "test_reads e seed (l # lbas) s r tr = (if st1 \<noteq> BVSTK_OK then Some (st1, s2, r1, tr @ ev1)
      else if st2 \<noteq> BVSTK_OK then Some (st2, s3, r2, tr @ ev1) else test_reads e seed lbas s3 r2 (tr @ ev1))"
    using t(1) c by (simp add: Let_def s2_def s3_def)
  show ?case
  proof (cases "st1 = BVSTK_OK \<and> st2 = BVSTK_OK")
    case False
    then have "issued_upto (transfer_request s l None # map (\<lambda>l. transfer_request s l None) lbas) (if st1 \<noteq> BVSTK_OK then st1 else st2) ev1"
      by (intro issued_upto_stop [OF t(4)]) auto
    then show ?thesis using s3 False unfolding run by (auto split: if_splits)
  next
    case True
    obtain st s' r' ev2 where i: "test_reads e seed lbas s3 r2 (tr @ ev1) = Some (st, s', r', (tr @ ev1) @ ev2)" "service_ok s'"
      "sv_info s' = sv_info s3" "issued_upto (map (\<lambda>l. transfer_request s3 l None) lbas) st ev2"
      using Cons.IH [OF s3(3)] by blast
    then have "issued_upto (map (\<lambda>l. transfer_request s l None) (l # lbas)) st (ev1 @ ev2)"
      using issued_upto_step [of "transfer_request s l None" ev1] t(5) True by (simp add: transfer_request_cong [OF s3(4)])
    then show ?thesis using i(1-3) True s3(4) unfolding run by auto
  qed
qed

lemma issued_upto_append:
  assumes "issues xs ev1" "issued_upto ys st ev2"
  shows "issued_upto (xs @ ys) st (ev1 @ ev2)"
proof -
  obtain k where "issues (take k ys) ev2" using assms(2) by (auto simp: issued_upto_def)
  then have "issues (take (length xs + k) (xs @ ys)) (ev1 @ ev2)" using issues_append [OF assms(1)] by simp
  then show ?thesis using issues_append [OF assms(1), of ys ev2] assms(2) unfolding issued_upto_def by blast
qed

lemma issued_upto_prefix:
  assumes "issued_upto xs st ev" "st \<noteq> BVSTK_OK"
  shows "issued_upto (xs @ ys) st ev"
proof -
  obtain k where "issues (take k xs) ev" using assms(1) by (auto simp: issued_upto_def)
  then have "issues (take (min k (length xs)) (xs @ ys)) ev" by (cases "k \<le> length xs") auto
  then show ?thesis using assms(2) unfolding issued_upto_def by blast
qed

lemma issued_upto_locked: "issued_upto plan st evs \<Longrightarrow> issued_upto plan st (ELock n # evs @ [EUnlock])"
  unfolding issued_upto_def by (meson issues_lock issues_unlock)

lemma issued_upto_refused:
  "evs \<in> {[], [ELock 1000], [ELock 1000, EUnlock]} \<Longrightarrow> st \<noteq> BVSTK_OK \<Longrightarrow> issued_upto plan st evs"
  unfolding issued_upto_def by (rule conjI, rule exI [of _ 0]) (auto simp: issues_calm)

text \<open>The plan of the destructive test: every pattern is written before any sector is read.\<close>

definition test_plan :: "bvstk_sd_service_t \<Rightarrow> u32 \<Rightarrow> u32 \<Rightarrow> u32 \<Rightarrow> sd_request list" where
  "test_plan s lba count seed =
     map (\<lambda>l. transfer_request s l (Some (bvstk_sd_service_pattern l seed))) (sd_lbas lba count) @
     map (\<lambda>l. transfer_request s l None) (sd_lbas lba count)"

lemma test_range:
  fixes count lba :: u32
  assumes "\<not> (count = 0 \<or> count > 8 \<or> lba > - 1 - (count - 1))"
  shows "0 < unat count \<and> unat count \<le> 8 \<and> unat lba + unat count \<le> (2::nat) ^ 32"
proof -
  have c: "count \<noteq> 0" "unat count \<le> 8" using assms by (simp_all add: word_less_nat_alt not_less)
  have "1 \<le> count" using c(1) by (simp add: word_le_nat_alt word_zero_unat Suc_le_eq)
  then have u: "unat (count - 1) = unat count - 1" by (simp add: unat_minus_le)
  have "unat (- 1 - (count - 1)) = 2 ^ 32 - 1 - unat (count - 1)"
    by (subst unat_minus_le) (simp_all add: unsigned_minus_1_eq_mask mask_eq_exp_minus_1)
  then have "unat lba \<le> 2 ^ 32 - 1 - (unat count - 1)" using assms u by (simp add: word_less_nat_alt not_less)
  then show ?thesis using c by (simp add: word_zero_unat)
qed

lemma test_did:
  assumes e: "clock_ok e" and s: "service_ok s"
  shows "\<exists>st s' r' evs. bvstk_sd_service_test e s lba count seed tr = Some (st, s', r', tr @ evs) \<and> service_ok s' \<and>
    ci_filesystem_owned (sv_info s') = ci_filesystem_owned (sv_info s) \<and> issued_upto (test_plan s lba count seed) st evs \<and>
    (st = BVSTK_OK \<longrightarrow> 0 < unat count \<and> unat count \<le> 8 \<and> unat lba + unat count \<le> 2 ^ 32)"
proof (cases rule: begin_cases [where e = e and s = s and rq = True and fs = False and tr = tr])
  case (refused st r evs)
  then show ?thesis using s by (auto simp: bvstk_sd_service_test_def issued_upto_refused)
next
  case (entered r)
  define bad where "bad \<longleftrightarrow> count = 0 \<or> count > 8 \<or> lba > - 1 - (count - 1) \<or> fst (sd_address s (lba + count - 1)) \<noteq> BVSTK_OK"
  have fin: "\<exists>s' r'. Some (sd_finish s1 r1 st (tr @ ELock 1000 # evs)) = Some (st, s', r', tr @ ELock 1000 # evs @ [EUnlock]) \<and> service_ok s' \<and>
      ci_filesystem_owned (sv_info s') = ci_filesystem_owned (sv_info s)"
    if "service_ok s1" "sv_info s1 = sv_info s" for s1 r1 st evs
    using finish_did [of s1 r1 st "tr @ ELock 1000 # evs"] that by auto
  show ?thesis
  proof (cases bad)
    case True
    have "bvstk_sd_service_test e s lba count seed tr = Some (sd_finish s r BVSTK_ERR_RANGE (tr @ ELock 1000 # []))"
      using True entered(1) by (auto simp: bvstk_sd_service_test_def bad_def)
    then show ?thesis using fin [OF s refl, of r BVSTK_ERR_RANGE "[]"] issued_upto_locked [OF issued_upto_refused [of "[]"]] by fastforce
  next
    case False
    obtain st1 s1 r1 ev1 where w: "test_writes e seed (sd_lbas lba count) s r (tr @ [ELock 1000]) = Some (st1, s1, r1, (tr @ [ELock 1000]) @ ev1)"
      "service_ok s1" "sv_info s1 = sv_info s"
      "issued_upto (map (\<lambda>l. transfer_request s l (Some (bvstk_sd_service_pattern l seed))) (sd_lbas lba count)) st1 ev1"
      using test_writes_did [OF e s] by blast
    obtain st2 s2 r2 ev2 where q: "test_reads e seed (sd_lbas lba count) s1 r1 (tr @ ELock 1000 # ev1) = Some (st2, s2, r2, (tr @ ELock 1000 # ev1) @ ev2)"
      "service_ok s2" "sv_info s2 = sv_info s" "issued_upto (map (\<lambda>l. transfer_request s l None) (sd_lbas lba count)) st2 ev2"
      using test_reads_did [OF e w(2), of seed "sd_lbas lba count" r1 "tr @ ELock 1000 # ev1"] w(3) transfer_request_cong [OF w(3)] by auto
    have run: "bvstk_sd_service_test e s lba count seed tr = (if st1 \<noteq> BVSTK_OK then Some (sd_finish s1 r1 st1 (tr @ ELock 1000 # ev1))
        else Some (sd_finish s2 r2 st2 (tr @ ELock 1000 # (ev1 @ ev2))))"
      using False entered(1) w(1) q(1) by (simp add: bvstk_sd_service_test_def bad_def)
    have range: "0 < unat count \<and> unat count \<le> 8 \<and> unat lba + unat count \<le> 2 ^ 32"
      using test_range [of count lba] False by (simp add: bad_def)
    show ?thesis
    proof (cases "st1 = BVSTK_OK")
      case no: False
      have "issued_upto (test_plan s lba count seed) st1 (ELock 1000 # ev1 @ [EUnlock])"
        unfolding test_plan_def by (intro issued_upto_locked issued_upto_prefix w(4) no)
      then show ?thesis using fin [OF w(2,3), of r1 st1 ev1] range no unfolding run by auto
    next
      case True
      have "issued_upto (test_plan s lba count seed) st2 (ELock 1000 # (ev1 @ ev2) @ [EUnlock])"
        unfolding test_plan_def by (intro issued_upto_locked issued_upto_append q(4)) (use w(4) True in \<open>simp add: issued_upto_def\<close>)
      then show ?thesis using fin [OF q(2,3), of r2 st2 "ev1 @ ev2"] range True unfolding run by auto
    qed
  qed
qed

subsection \<open>Sequences of operations\<close>

datatype sd_op =
    SdInitialize u32
  | SdClaim
  | SdRead u32 bool
  | SdWrite u32 "bytes option"
  | SdDiskRead u32 bool
  | SdDiskWrite u32 "bytes option"
  | SdCardStatus
  | SdBlockLength
  | SdTest u32 u32 u32

text \<open>The operations that are not the file system's own.\<close>

fun raw_op :: "sd_op \<Rightarrow> bool" where
  "raw_op (SdDiskRead lba block) = False"
| "raw_op (SdDiskWrite lba block) = False"
| "raw_op _ = True"

definition call_part :: "sd_call \<Rightarrow> bvstk_status_t \<times> bvstk_sd_service_t \<times> sd_trace" where
  "call_part c = (case c of (st, s, r, tr) \<Rightarrow> (st, s, tr))"

fun sd_exec :: "sd_env \<Rightarrow> sd_op \<Rightarrow> bvstk_sd_service_t \<Rightarrow> sd_trace \<Rightarrow> (bvstk_status_t \<times> bvstk_sd_service_t \<times> sd_trace) option" where
  "sd_exec e (SdInitialize timeout_ms) s tr = map_option call_part (bvstk_sd_service_initialize e s timeout_ms tr)"
| "sd_exec e SdClaim s tr = map_option call_part (bvstk_sd_service_disk_claim e s tr)"
| "sd_exec e (SdRead lba block) s tr = map_option (call_part \<circ> fst) (bvstk_sd_service_read e s lba block tr)"
| "sd_exec e (SdWrite lba block) s tr = map_option call_part (bvstk_sd_service_write_verify e s lba block tr)"
| "sd_exec e (SdDiskRead lba block) s tr = map_option (call_part \<circ> fst) (bvstk_sd_service_disk_read e s lba block tr)"
| "sd_exec e (SdDiskWrite lba block) s tr = map_option call_part (bvstk_sd_service_disk_write e s lba block tr)"
| "sd_exec e SdCardStatus s tr = map_option call_part (bvstk_sd_service_card_status e s tr)"
| "sd_exec e SdBlockLength s tr = map_option call_part (bvstk_sd_service_block_length e s tr)"
| "sd_exec e (SdTest lba count seed) s tr = map_option call_part (bvstk_sd_service_test e s lba count seed tr)"

fun sd_run :: "sd_env \<Rightarrow> sd_op list \<Rightarrow> bvstk_sd_service_t \<Rightarrow> sd_trace \<Rightarrow> (bvstk_sd_service_t \<times> sd_trace) option" where
  "sd_run e [] s tr = Some (s, tr)"
| "sd_run e (op # ops) s tr = do { (_, s', tr') \<leftarrow> sd_exec e op s tr; sd_run e ops s' tr' }"

lemma service_ok_open: "service_ok s \<Longrightarrow> driver_open s"
  by (auto simp: service_ok_def descriptor_ok_def driver_open_def)

lemma raw_refused:
  assumes s: "service_ok s" and owned: "ci_filesystem_owned (sv_info s)" and raw: "raw_op op"
  shows "\<exists>st evs. sd_exec e op s tr = Some (st, s, tr @ evs) \<and> st \<noteq> BVSTK_OK \<and>
    evs \<in> {[], [ELock 1000], [ELock 1000, EUnlock]} \<and> (mx_lock e tr 1000 = BVSTK_OK \<longrightarrow> st = BVSTK_ERR_BUSY)"
proof -
  have "\<exists>st r evs. sd_begin e (Some s) True rq False tr = (st, r, tr @ evs) \<and> st \<noteq> BVSTK_OK \<and>
      evs \<in> {[], [ELock 1000], [ELock 1000, EUnlock]} \<and> (mx_lock e tr 1000 = BVSTK_OK \<longrightarrow> st = BVSTK_ERR_BUSY)" for rq
    by (cases rule: begin_cases [where e = e and s = s and rq = rq and fs = False and tr = tr])
      (use owned service_ok_open [OF s] in auto)
  then obtain st r evs where b: "sd_begin e (Some s) True rq False tr = (st rq, r rq, tr @ evs rq)" "st rq \<noteq> BVSTK_OK"
      "evs rq \<in> {[], [ELock 1000], [ELock 1000, EUnlock]}" "mx_lock e tr 1000 = BVSTK_OK \<longrightarrow> st rq = BVSTK_ERR_BUSY" for rq
    by metis
  show ?thesis
    using raw b [of True] b [of False]
    by (cases op) (auto simp: call_part_def bvstk_sd_service_initialize_def bvstk_sd_service_disk_claim_def bvstk_sd_service_read_def
        sd_read_block_def bvstk_sd_service_write_verify_def sd_write_block_def bvstk_sd_service_card_status_def
        bvstk_sd_service_block_length_def simple_command_def bvstk_sd_service_test_def)
qed

lemma disk_read_did:
  assumes e: "clock_ok e" and s: "service_ok s"
  shows "\<exists>st s' r' evs data. sd_read_block e s lba block fs tr = Some ((st, s', r', tr @ evs), data) \<and> service_ok s' \<and>
    ci_filesystem_owned (sv_info s') = ci_filesystem_owned (sv_info s)"
proof (cases rule: begin_cases [where e = e and s = s and rq = True and fs = fs and tr = tr])
  case (refused st r evs)
  then show ?thesis using s by (auto simp: sd_read_block_def)
next
  case (entered r)
  obtain st s1 r1 ev1 data where t: "sd_transfer e s lba None r (tr @ [ELock 1000]) = Some (st, s1, r1, (tr @ [ELock 1000]) @ ev1, data)"
    "service_ok s1" "sv_info s1 = sv_info s"
    using transfer_did [OF e s, of lba None r "tr @ [ELock 1000]"] by blast
  show ?thesis
    using entered(1) t s finish_did [of s r BVSTK_ERR_MALFORMED "tr @ [ELock 1000]"] finish_did [of s1 r1 st "tr @ ELock 1000 # ev1"]
    by (cases block) (auto simp: sd_read_block_def)
qed

lemma disk_write_did:
  assumes e: "clock_ok e" and s: "service_ok s" and b: "\<forall>x. b = Some x \<longrightarrow> length x = 512"
  shows "\<exists>st s' r' evs. sd_write_block e s lba b fs tr = Some (st, s', r', tr @ evs) \<and> service_ok s' \<and>
    ci_filesystem_owned (sv_info s') = ci_filesystem_owned (sv_info s)"
proof (cases rule: begin_cases [where e = e and s = s and rq = True and fs = fs and tr = tr])
  case (refused st r evs)
  then show ?thesis using s by (auto simp: sd_write_block_def)
next
  case (entered r)
  show ?thesis
  proof (cases b)
    case None
    then show ?thesis using entered(1) s finish_did [of s r BVSTK_ERR_MALFORMED "tr @ [ELock 1000]"] by (auto simp: sd_write_block_def)
  next
    case (Some x)
    then show ?thesis using write_locked [OF e s _ entered(1) refl, of x lba] b by (auto simp: ended_def)
  qed
qed

definition op_block_ok :: "sd_op \<Rightarrow> bool" where
  "op_block_ok op = (case op of SdDiskWrite lba (Some b) \<Rightarrow> length b = SDM_BLOCK_SIZE | SdWrite lba (Some b) \<Rightarrow> length b = SDM_BLOCK_SIZE | _ \<Rightarrow> True)"

lemma owned_exec:
  assumes e: "clock_ok e" and s: "service_ok s" and owned: "ci_filesystem_owned (sv_info s)" and b: "op_block_ok op"
  shows "\<exists>st s' tr'. sd_exec e op s tr = Some (st, s', tr') \<and> service_ok s' \<and> ci_filesystem_owned (sv_info s')"
proof (cases "raw_op op")
  case True
  then show ?thesis using raw_refused [OF s owned True] s owned by blast
next
  case False
  then consider lba block where "op = SdDiskRead lba block" | lba block where "op = SdDiskWrite lba block" by (cases op) auto
  then show ?thesis
  proof cases
    case 1
    then show ?thesis using disk_read_did [OF e s, of lba block True tr] owned
      by (auto simp: bvstk_sd_service_disk_read_def call_part_def)
  next
    case 2
    then show ?thesis using disk_write_did [OF e s, of block lba True tr] owned b
      by (auto simp: bvstk_sd_service_disk_write_def call_part_def op_block_ok_def SDM_BLOCK_SIZE_def split: option.splits)
  qed
qed

lemma owned_run:
  assumes e: "clock_ok e"
  shows "service_ok s \<Longrightarrow> ci_filesystem_owned (sv_info s) \<Longrightarrow> list_all op_block_ok ops \<Longrightarrow>
    \<exists>s' tr'. sd_run e ops s tr = Some (s', tr') \<and> service_ok s' \<and> ci_filesystem_owned (sv_info s')"
proof (induction ops arbitrary: s tr)
  case (Cons op ops)
  obtain st s1 tr1 where x: "sd_exec e op s tr = Some (st, s1, tr1)" "service_ok s1" "ci_filesystem_owned (sv_info s1)"
    using owned_exec [OF e Cons.prems(1,2)] Cons.prems(3) by fastforce
  then show ?case using Cons.IH [OF x(2,3)] Cons.prems(3) by simp
qed simp

definition finished :: "bvstk_sd_service_t \<Rightarrow> sd_trace \<Rightarrow> sd_call \<Rightarrow> bool" where
  "finished s tr c \<longleftrightarrow> (\<exists>st s' r' evs. c = (st, s', r', tr @ evs) \<and> service_ok s' \<and>
     ci_filesystem_owned (sv_info s') = ci_filesystem_owned (sv_info s))"

lemma finished_finish:
  assumes "service_ok x" "ci_filesystem_owned (sv_info x) = ci_filesystem_owned (sv_info s)"
  shows "finished s tr (sd_finish x r st (tr @ evs))"
  using finish_did [of x r st "tr @ evs"] assms by (auto simp: finished_def)

lemma initialize_locked_did:
  assumes e: "clock_ok e" and s: "service_ok s"
  shows "\<exists>st s' r' evs. initialize_locked e s timeout r tr = Some (st, s', r', tr @ evs) \<and> service_ok s' \<and>
    ci_filesystem_owned (sv_info s') = ci_filesystem_owned (sv_info s)"
proof (cases "timeout > 120000")
  case True
  then show ?thesis using s finish_did [of s r BVSTK_ERR_RANGE tr] by (auto simp: initialize_locked_def)
next
  case False
  then have t: "unat timeout \<le> 2 ^ 31" by (simp add: word_less_nat_alt not_less)
  obtain d where d: "sv_driver s = Some d" "descriptor_ok d" using s by (auto simp: service_ok_def)
  obtain st d1 rep ev1 where i: "bvstk_sd_master_initialize e (Some d) timeout (Some (re_hardware r)) tr = Some (st, Some d1, Some rep, tr @ ev1)"
    "same_driver d d1" using master_initialize_did [OF e d(2) t] by blast
  have d1: "descriptor_ok d1" using d(2) i(2) by (simp add: descriptor_ok_def same_driver_def)
  obtain st2 d2 rep2 data tr2 where c: "bvstk_sd_master_command e (Some d1) 16 (of_nat SDM_BLOCK_SIZE) None False COMMAND_TIMEOUT_MS
      (Some (re_write_hardware r)) (tr @ ev1) = Some (st2, Some d2, Some rep2, data, tr2)"
    and did: "command_did (request_of 16 (of_nat SDM_BLOCK_SIZE) None) False (d1, tr @ ev1) st2 (d2, tr2) data"
    using master_command_did [OF e d1, of 16 None False COMMAND_TIMEOUT_MS "of_nat SDM_BLOCK_SIZE" "re_write_hardware r" "tr @ ev1"]
    by (auto simp: COMMAND_TIMEOUT_MS_def)
  obtain ev2 where t2: "tr2 = tr @ (ev1 @ ev2)" using did by (auto simp: command_did_def)
  have d2: "descriptor_ok d2" using d1 did by (auto simp: command_did_def descriptor_ok_def same_driver_def)
  have "\<exists>c. initialize_locked e s timeout r tr = Some c \<and> finished s tr c"
    using False d(1) i(1) c d1 d2 unfolding initialize_locked_def
    by (cases "st = BVSTK_OK"; cases "rp_init_reply rep ! 5 AND 0x40000000 = 0"; cases "sv_reinitialize s")
      (simp_all add: Let_def t2 finished_finish service_ok_def)
  then show ?thesis unfolding finished_def by auto
qed

text \<open>
  C37: a sector write is verified, and never retried. A write through the raw interface or the
  file system's, on a clock that runs, always returns. The card was sent nothing, the one block
  write, or the block write and then one read of the same address, with the sector's data and
  checksum in the write. Success means both were sent, and the 512 bytes the driver took out of
  the receive area after the read, checked against their checksum, are the bytes written. When
  the lock was granted and the transfer failed, timed out or was inconsistent, the card is no
  longer ready, so every later access needs an explicit initialisation.
\<close>

theorem sd_write_verified:
  assumes "clock_ok e" and "service_ok s" and "length b = SDM_BLOCK_SIZE"
  shows "\<exists>st s' r' evs.
    (if fs then bvstk_sd_service_disk_write e s lba (Some b) tr else bvstk_sd_service_write_verify e s lba (Some b) tr) =
      Some (st, s', r', tr @ evs) \<and>
    (\<exists>k. issues (take k [(24, snd (sd_address s lba), block_words b), (17, snd (sd_address s lba), [])]) evs) \<and>
    (st = BVSTK_OK \<longrightarrow> issues [(24, snd (sd_address s lba), block_words b), (17, snd (sd_address s lba), [])] evs \<and>
       delivered [(24, snd (sd_address s lba), block_words b), (17, snd (sd_address s lba), [])] evs b) \<and>
    (mx_lock e tr 1000 = BVSTK_OK \<and> broken st \<longrightarrow> \<not> ci_ready (sv_info s')) \<and>
    ci_filesystem_owned (sv_info s') = ci_filesystem_owned (sv_info s)"
proof -
  define plan where "plan = [transfer_request s lba (Some b), transfer_request s lba None]"
  have p: "plan = [(24, snd (sd_address s lba), block_words b), (17, snd (sd_address s lba), [])]"
    by (simp add: plan_def transfer_request_def request_of_def)
  have call: "(if fs then bvstk_sd_service_disk_write e s lba (Some b) tr else bvstk_sd_service_write_verify e s lba (Some b) tr) =
      sd_write_block e s lba (Some b) fs tr"
    by (simp add: bvstk_sd_service_disk_write_def bvstk_sd_service_write_verify_def)
  show ?thesis unfolding call p [symmetric]
  proof (cases rule: begin_cases [where e = e and s = s and rq = True and fs = fs and tr = tr])
    case (refused st r evs)
    have "sd_write_block e s lba (Some b) fs tr = Some (st, s, r, tr @ evs)" using refused(1,2) by (simp add: sd_write_block_def)
    moreover have "issues (take 0 plan) evs" using refused(3) by (auto simp: issues_calm)
    ultimately show "\<exists>st s' r' evs. sd_write_block e s lba (Some b) fs tr = Some (st, s', r', tr @ evs) \<and>
        (\<exists>k. issues (take k plan) evs) \<and> (st = BVSTK_OK \<longrightarrow> issues plan evs \<and> delivered plan evs b) \<and>
        (mx_lock e tr 1000 = BVSTK_OK \<and> broken st \<longrightarrow> \<not> ci_ready (sv_info s')) \<and>
        ci_filesystem_owned (sv_info s') = ci_filesystem_owned (sv_info s)"
      using refused(2,4) unfolding broken_def by blast
  next
    case (entered r)
    then show "\<exists>st s' r' evs. sd_write_block e s lba (Some b) fs tr = Some (st, s', r', tr @ evs) \<and>
        (\<exists>k. issues (take k plan) evs) \<and> (st = BVSTK_OK \<longrightarrow> issues plan evs \<and> delivered plan evs b) \<and>
        (mx_lock e tr 1000 = BVSTK_OK \<and> broken st \<longrightarrow> \<not> ci_ready (sv_info s')) \<and>
        ci_filesystem_owned (sv_info s') = ci_filesystem_owned (sv_info s)"
      using write_locked [OF assms(1,2) _ entered(1) plan_def] assms(3) unfolding ended_def SDM_BLOCK_SIZE_def by blast
  qed
qed

text \<open>
  C38: the file system's claim is exclusive and for good. The claim takes the card over even when
  the initialisation it runs fails; after it any sequence of operations returns, leaves the card
  owned, and every raw command from then on (another claim included) is refused without touching
  the hardware, with the status busy whenever the lock is granted.
\<close>

theorem sd_claim_excludes_raw:
  assumes "clock_ok e" and "service_ok s" and "\<not> ci_filesystem_owned (sv_info s)" and "mx_lock e tr 1000 = BVSTK_OK"
    and "list_all op_block_ok ops"
  shows "\<exists>st s1 r tr1 s2 tr2. bvstk_sd_service_disk_claim e s tr = Some (st, s1, r, tr1) \<and> ci_filesystem_owned (sv_info s1) \<and>
    sd_run e ops s1 tr1 = Some (s2, tr2) \<and> ci_filesystem_owned (sv_info s2) \<and>
    (\<forall>op. raw_op op \<longrightarrow> (\<exists>st' evs. sd_exec e op s2 tr2 = Some (st', s2, tr2 @ evs) \<and> st' \<noteq> BVSTK_OK \<and>
       evs \<in> {[], [ELock 1000], [ELock 1000, EUnlock]} \<and> (mx_lock e tr2 1000 = BVSTK_OK \<longrightarrow> st' = BVSTK_ERR_BUSY)))"
proof -
  define s0 where "s0 = s\<lparr>sv_info := sv_info s\<lparr>ci_filesystem_owned := True\<rparr>\<rparr>"
  have s0: "service_ok s0" "ci_filesystem_owned (sv_info s0)" using assms(2) by (simp_all add: s0_def)
  obtain r where "sd_begin e (Some s) True False False tr = (BVSTK_OK, r, tr @ [ELock 1000])"
    using assms(3,4) service_ok_open [OF assms(2)] by (auto simp: sd_begin_def Let_def)
  then have "bvstk_sd_service_disk_claim e s tr = initialize_locked e s0 20000 r (tr @ [ELock 1000])"
    by (simp add: bvstk_sd_service_disk_claim_def s0_def)
  then obtain st s1 r' evs where c: "bvstk_sd_service_disk_claim e s tr = Some (st, s1, r', (tr @ [ELock 1000]) @ evs)"
    "service_ok s1" "ci_filesystem_owned (sv_info s1)"
    using initialize_locked_did [OF assms(1) s0(1), of 20000 r "tr @ [ELock 1000]"] s0(2) by auto
  obtain s2 tr2 where "sd_run e ops s1 ((tr @ [ELock 1000]) @ evs) = Some (s2, tr2)" "service_ok s2" "ci_filesystem_owned (sv_info s2)"
    using owned_run [OF assms(1) c(2,3) assms(5)] by blast
  then show ?thesis using c raw_refused [of s2] by metis
qed

text \<open>
  the destructive test writes all its sectors before it reads any. It always returns; the
  card was sent a prefix of the plan that first writes every sector's pattern and then reads
  every sector back, and the whole plan when the test succeeds, which needs one to eight sectors
  that do not run past the last sector number.
\<close>

theorem sd_test_writes_first:
  assumes "clock_ok e" and "service_ok s"
  shows "\<exists>st s' r' evs. bvstk_sd_service_test e s lba count seed tr = Some (st, s', r', tr @ evs) \<and>
    (\<exists>k. issues (take k (test_plan s lba count seed)) evs) \<and>
    (st = BVSTK_OK \<longrightarrow> issues (test_plan s lba count seed) evs \<and>
       0 < unat count \<and> unat count \<le> 8 \<and> unat lba + unat count \<le> 2 ^ 32)"
  using test_did [OF assms, of lba count seed tr] unfolding issued_upto_def by blast

subsection \<open>A card that answers\<close>

text \<open>Hardware that accepts every write and answers every command at once with a sector of
  zeros (whose checksum is zero); time passes only in sleeps.\<close>

definition demo_word :: "sd_region \<Rightarrow> nat \<Rightarrow> u32" where
  "demo_word g off =
    (case g of
       SDM_DMA \<Rightarrow> if off = SDM_TX_STATUS \<or> off = SDM_RX_STATUS then 0x1002 else if off = SDM_RX_LENGTH then 514 else 0
     | SDM_BRAM \<Rightarrow> if off \<in> {SDM_TX_AREA - 4, SDM_TX_AREA + 8, SDM_TX_AREA + 524, SDM_RX_AREA - 4, SDM_RX_AREA + 516} then GUARD
         else if off = SDM_RX_AREA + 512 then 0xa5960000 else 0
     | SDM_CORE \<Rightarrow> 0)"

definition demo_hw :: sd_env where
  "demo_hw = \<lparr> mm_read = \<lambda>tr g off. Some (demo_word g off), mm_write = \<lambda>tr g off v. True, mm_open = \<lambda>tr g. True,
     ck_now = \<lambda>tr. sum_list (map event_cost tr), ev_prepare = \<lambda>tr. BVSTK_OK, ev_count = \<lambda>tr. 1, mx_lock = \<lambda>tr n. BVSTK_OK \<rparr>"

definition demo_driver :: bvstk_sd_master_t where
  "demo_driver = \<lparr> dm_config = \<lparr> sc_core_base = 0x43c00000, sc_dma_base = 0x40400000, sc_bram_base = 0x40000000,
     sc_bram_size = 0x2000, sc_init_divider = 250, sc_data_divider = 2, sc_events_set = True,
     sc_read_mailbox_is_stream = False, sc_read_descriptor_bytes = 8 \<rparr>, dm_open = True, dm_io_error = False \<rparr>"

definition demo_sd :: bvstk_sd_service_t where
  "demo_sd = \<lparr> sv_driver = Some demo_driver, sv_info = \<lparr> ci_ready = True, ci_block_addressed = True, ci_filesystem_owned = False,
     ci_ocr = 0xc0ff8000, ci_last = zero_result \<rparr>, sv_reinitialize = False, sv_command_since_init = False,
     sv_expected = [], sv_received = [] \<rparr>"

lemma demo_clock: "clock_ok demo_hw"
  by (simp add: clock_ok_def demo_hw_def)

lemma demo_service: "service_ok demo_sd"
  by (simp add: service_ok_def demo_sd_def descriptor_ok_def demo_driver_def)

lemma demo_rd [simp]: "fst (rd demo_hw g off s) = demo_word g off" "fst (snd (rd demo_hw g off s)) = fst s"
  by (cases s; simp add: rd_def demo_hw_def)+

lemma demo_wr [simp]: "fst (wr demo_hw g off v s) = fst s"
  by (cases s) (simp add: wr_def demo_hw_def)

lemma demo_wr_all [simp]: "fst (wr_all demo_hw ws s) = fst s"
proof (induction ws arbitrary: s)
  case (Cons w ws)
  then show ?case by (cases w) simp
qed simp

lemma say_driver [simp]: "fst (sd_say ev s) = fst s"
  by (simp add: sd_say_def)

lemma elapsed_driver [simp]: "fst (snd (elapsed e t s)) = fst s" "fst (snd (now_ms e s)) = fst s"
  by (simp_all add: elapsed_def now_ms_def)

lemma demo_hw_calls [simp]: "ev_prepare demo_hw tr = BVSTK_OK" "ev_count demo_hw tr = 1" "mx_lock demo_hw tr n = BVSTK_OK"
  by (simp_all add: demo_hw_def)

lemma demo_dma_reset:
  assumes "\<not> dm_io_error (fst s)"
  shows "\<exists>s'. dma_reset demo_hw s = Some (BVSTK_OK, s') \<and> fst s' = fst s"
  using assms
  by (simp add: dma_reset_def dma_reset_loop.simps [of demo_hw] dma_reset_step_def now_ms_def split_beta Let_def
      demo_word_def sdm_offsets)

lemma demo_snapshot:
  "fst (snd (sd_snapshot demo_hw r s)) = fst s"
  "rp_irq_count (fst (sd_snapshot demo_hw r s)) = 1" "rp_tx_status (fst (sd_snapshot demo_hw r s)) = 0x1002"
  "rp_rx_status (fst (sd_snapshot demo_hw r s)) = 0x1002" "rp_rx_length (fst (sd_snapshot demo_hw r s)) = 514"
  by (simp_all add: sd_snapshot_def Let_def split_beta demo_word_def sdm_offsets)

lemma demo_read_words: "fst (read_words demo_hw off n s) = map (\<lambda>i. demo_word SDM_BRAM (off + i * 4)) [0..<n]"
    "fst (snd (read_words demo_hw off n s)) = fst s"
proof (induction n arbitrary: off s)
  case (Suc n)
  { case 1
    have "map (\<lambda>i. demo_word SDM_BRAM (off + i * 4)) [0..<Suc n] = demo_word SDM_BRAM off # map (\<lambda>i. demo_word SDM_BRAM (off + 4 + i * 4)) [0..<n]"
      unfolding upt_conv_Cons [OF zero_less_Suc] map_Suc_upt [symmetric] by (simp add: add.assoc)
    then show ?case using Suc.IH(1) by (simp add: Let_def split_beta)
  next
    case 2
    show ?case using Suc.IH(2) by (simp add: Let_def split_beta) }
qed simp_all

lemma crc16_zero: "bvstk_sd_master_crc16 (replicate n 0) = 0"
  by (induction n) (simp_all add: bvstk_sd_master_crc16_def numeral_eq_Suc)

lemma demo_zero_sector:
  "concat (map le_bytes (map (\<lambda>i. demo_word SDM_BRAM (SDM_RX_AREA + i * 4)) [0..<129])) = replicate 514 0 @ [0x96, 0xa5]"
proof -
  have z: "map (\<lambda>i. demo_word SDM_BRAM (SDM_RX_AREA + i * 4)) [0..<128] = replicate 128 0"
    by (rule nth_equalityI) (auto simp: demo_word_def sdm_offsets)
  have l: "demo_word SDM_BRAM (SDM_RX_AREA + 128 * 4) = 0xa5960000" by (simp add: demo_word_def sdm_offsets)
  have r: "concat (map le_bytes (replicate n 0)) = replicate (4 * n) 0" for n
    by (induction n) (simp_all add: le_bytes_def numeral_eq_Suc)
  have "[0..<129] = [0..<128] @ [128]" by (simp add: upt_rec)
  then have "concat (map le_bytes (map (\<lambda>i. demo_word SDM_BRAM (SDM_RX_AREA + i * 4)) [0..<129])) =
      concat (map le_bytes (replicate 128 0)) @ le_bytes 0xa5960000"
    by (simp only: map_append concat_append list.map concat.simps append_Nil2 z l)
  also have "\<dots> = replicate 512 0 @ [0, 0, 0x96, 0xa5]" unfolding r by (simp add: le_bytes_def)
  also have "\<dots> = replicate 514 0 @ [0x96, 0xa5]"
    using replicate_add [of 512 2 "0::u8"] by (simp add: numeral_2_eq_2)
  finally show ?thesis .
qed

lemma demo_guards:
  "guards_valid demo_hw sz rcv s = (True, snd (guards_valid demo_hw sz rcv s)) \<and> fst (snd (guards_valid demo_hw sz rcv s)) = fst s"
  if "sz = 8 \<or> sz = 522"
  using that by (auto simp: guards_valid_def tx_padded_def Let_def split_beta demo_word_def sdm_offsets GUARD_def SENTINEL_def)

lemma demo_command_result:
  assumes "sz = 8 \<or> sz = 522" "rp_rx_length r = 514" "rp_reply r = 0" "\<not> dm_io_error (fst s)"
  shows "\<exists>r' s'. command_result demo_hw c sz rcv r s = (True, r', s', if rcv then replicate 512 0 else []) \<and> fst s' = fst s"
proof -
  obtain s1 where g: "guards_valid demo_hw sz rcv s = (True, s1)" "fst s1 = fst s"
    using demo_guards [OF assms(1), of rcv s] by (metis snd_conv)
  obtain ws s2 where w: "read_words demo_hw SDM_RX_AREA 129 s1 = (ws, s2)" by (cases "read_words demo_hw SDM_RX_AREA 129 s1")
  have ws: "concat (map le_bytes ws) = replicate 514 0 @ [0x96, 0xa5]" "fst s2 = fst s"
    using demo_read_words [of SDM_RX_AREA 129 s1] demo_zero_sector w g(2) by simp_all
  have p: "\<exists>b. s1 = (fst s, b)" "\<exists>b. s2 = (fst s, b)" using g(2) ws(2) by (metis prod.collapse)+
  have n: "(replicate 514 (0::u8) @ [0x96, 0xa5]) ! 512 = 0" "(replicate 514 (0::u8) @ [0x96, 0xa5]) ! 513 = 0"
    by (simp_all add: nth_append)
  show ?thesis
    using assms g w ws p by (cases rcv) (simp_all add: command_result_def SDM_RX_BYTES_def SDM_BLOCK_SIZE_def Let_def crc16_zero n)
qed

lemma demo_command_run:
  assumes "sz = 8 \<or> sz = 522" "mailbox \<in> {SDM_MB_CMD17, SDM_MB_CMD24}"
  shows "\<exists>r s'. command_run demo_hw c a mailbox sz wb rcv timeout r0 s =
      Some (BVSTK_OK, r, s', if rcv then Some (replicate 512 0) else None) \<and> fst s' = (fst s)\<lparr>dm_io_error := False\<rparr>"
proof -
  obtain s1 where d: "dma_reset demo_hw (apfst (dm_io_error_update (\<lambda>_. False)) s) = Some (BVSTK_OK, s1)"
    "fst s1 = (fst s)\<lparr>dm_io_error := False\<rparr>"
    using demo_dma_reset [of "apfst (dm_io_error_update (\<lambda>_. False)) s"] by (cases s) auto
  have mb: "demo_word SDM_BRAM mailbox = 0" using assms(2) by (auto simp: demo_word_def sdm_offsets)
  have loop: "\<exists>r' s'. command_loop demo_hw mailbox rcv limit start r x = Some (BVSTK_OK, r', s') \<and> fst s' = fst x \<and>
      rp_rx_length r' = 514 \<and> rp_reply r' = 0" if "\<not> dm_io_error (fst x)" for limit start r x
    using that by (subst command_loop.simps)
      (simp add: command_step_def Let_def split_beta demo_snapshot mb SENTINEL_def dma_done_def sdm_values prod_eq_iff)
  define s2 where "s2 = wr_all demo_hw [(SDM_CORE, SDM_PACKET, SDM_FALL_THROUGH), (SDM_CORE, SDM_DELAY, 1),
    (SDM_CORE, SDM_DIVIDER, ucast (sc_data_divider (dm_config (fst s1))))] s1"
  define s4 where "s4 = wr_all demo_hw (command_writes (dm_config (fst s1)) c a sz mailbox wb rcv) (sd_say EPrepare s2)"
  define s6 where "s6 = wr_all demo_hw [(SDM_DMA, SDM_TX_LENGTH, of_nat sz), (SDM_CORE, SDM_CSR, SDM_START_COMMAND)] (snd (now_ms demo_hw s4))"
  define start where "start = fst (now_ms demo_hw s4)"
  have s6: "fst s6 = fst s1" unfolding s6_def s4_def s2_def by (simp del: wr_all.simps)
  obtain r7 s7 where l: "command_loop demo_hw mailbox rcv (if timeout \<noteq> 0 then timeout else 5000) start
      (r0\<lparr>rp_stage := ''command completion''\<rparr>) s6 = Some (BVSTK_OK, r7, s7)" "fst s7 = fst s1" "rp_rx_length r7 = 514" "rp_reply r7 = 0"
    using loop [of s6] s6 d(2) by fastforce
  define r8 where "r8 = r7\<lparr>rp_elapsed_ms := fst (elapsed demo_hw start s7)\<rparr>"
  obtain r9 s9 where c: "command_result demo_hw c sz rcv r8 (snd (elapsed demo_hw start s7)) = (True, r9, s9, if rcv then replicate 512 0 else [])"
    "fst s9 = fst s1"
    using demo_command_result [OF assms(1), of r8 "snd (elapsed demo_hw start s7)" c rcv] l d(2) by (auto simp: r8_def)
  have "command_run demo_hw c a mailbox sz wb rcv timeout r0 s = Some (BVSTK_OK, r9, s9, if rcv then Some (replicate 512 0) else None)"
    unfolding command_run_def d(1) using l(1) c(1)
    by (simp add: Let_def split_beta s2_def [symmetric] s4_def [symmetric] s6_def [symmetric] start_def [symmetric] r8_def [symmetric] del: wr_all.simps)
  then show ?thesis using c(2) d(2) by (intro exI [of _ r9] exI [of _ s9]) simp
qed

lemma demo_transfer:
  assumes "sv_driver s = Some demo_driver" "sv_info s = sv_info demo_sd" "\<not> sv_reinitialize s"
  shows "\<exists>s' r' tr'. sd_transfer demo_hw s lba wb r tr = Some (BVSTK_OK, s', r', tr', if wb = None then Some (replicate 512 0) else None) \<and>
    sv_driver s' = Some demo_driver \<and> sv_info s' = sv_info demo_sd \<and> \<not> sv_reinitialize s'"
proof -
  define c where "c = (if wb \<noteq> None then 24 else 17 :: u8)"
  define mb where "mb = (if wb \<noteq> None then SDM_MB_CMD24 else SDM_MB_CMD17)"
  define sz where "sz = (if wb \<noteq> None then 522 else 8 :: nat)"
  define r0 where "r0 = zero_report\<lparr>rp_command := c, rp_first_reply := SENTINEL, rp_stage := ''DMA reset''\<rparr>"
  have m: "command_mailbox c = Some mb" "command_size (dm_config demo_driver) c = sz" "(c = 24) = (wb \<noteq> None)" "(c = 17) = (wb = None)"
    by (simp_all add: c_def mb_def sz_def command_mailbox_def command_size_def demo_driver_def SDM_TX_BYTES_def)
  have z: "sz = 8 \<or> sz = 522" "mb \<in> {SDM_MB_CMD17, SDM_MB_CMD24}" by (simp_all add: sz_def mb_def)
  obtain rep s' where run: "command_run demo_hw c lba mb sz wb (wb = None) COMMAND_TIMEOUT_MS r0 (demo_driver, tr) =
      Some (BVSTK_OK, rep, s', if wb = None then Some (replicate 512 0) else None)" "fst s' = demo_driver\<lparr>dm_io_error := False\<rparr>"
    using demo_command_run [OF z, of c lba wb "wb = None" COMMAND_TIMEOUT_MS r0 "(demo_driver, tr)"] unfolding fst_conv by blast
  have d: "fst s' = demo_driver" using run(2) by (simp add: demo_driver_def)
  have "bvstk_sd_master_command demo_hw (Some demo_driver) c lba wb (wb = None) COMMAND_TIMEOUT_MS (Some (re_hardware r)) tr =
      Some (BVSTK_OK, Some demo_driver, Some rep, if wb = None then Some (replicate 512 0) else None, snd s')" for r :: bvstk_sd_result_t
    using run(1) m d unfolding bvstk_sd_master_command_def by (simp add: Let_def r0_def) (simp add: demo_driver_def)
  then show ?thesis using assms unfolding sd_transfer_def c_def
    by (simp add: sd_address_def demo_sd_def prepare_command_def Let_def)
qed

lemma demo_write:
  "\<exists>s' r' evs. bvstk_sd_service_write_verify demo_hw demo_sd 7 (Some (replicate 512 0)) [] = Some (BVSTK_OK, s', r', evs)"
proof -
  obtain r where b: "sd_begin demo_hw (Some demo_sd) True True False [] = (BVSTK_OK, r, [ELock 1000])"
    by (simp add: sd_begin_def Let_def driver_open_def demo_sd_def demo_driver_def)
  obtain s1 r1 tr1 where w: "sd_transfer demo_hw demo_sd 7 (Some (replicate 512 0)) r [ELock 1000] = Some (BVSTK_OK, s1, r1, tr1, None)"
    "sv_driver s1 = Some demo_driver" "sv_info s1 = sv_info demo_sd" "\<not> sv_reinitialize s1"
    using demo_transfer [of demo_sd 7 "Some (replicate 512 0)" r "[ELock 1000]"] by (auto simp: demo_sd_def)
  obtain s2 r2 tr2 where q: "sd_transfer demo_hw s1 7 None (r1\<lparr>re_write_hardware := re_hardware r1\<rparr>) tr1 =
      Some (BVSTK_OK, s2, r2, tr2, Some (replicate 512 0))"
    using demo_transfer [OF w(2-4), of 7 None "r1\<lparr>re_write_hardware := re_hardware r1\<rparr>" tr1] by auto
  have c: "compare_scan 0 (replicate 512 (0::u8)) (replicate 512 0) = None"
    by (simp add: compare_scan_None)
  show ?thesis
    by (simp add: bvstk_sd_service_write_verify_def sd_write_block_def b w(1) q Let_def set_received_def sd_compare_def SDM_BLOCK_SIZE_def c sd_finish_def)
qed

lemma sd_write_verified_witness:
  "\<exists>s' r' evs. bvstk_sd_service_write_verify demo_hw demo_sd 7 (Some (replicate 512 0)) [] = Some (BVSTK_OK, s', r', evs) \<and>
     delivered [(24, 7, block_words (replicate 512 0)), (17, 7, [])] evs (replicate 512 0)"
proof -
  have "snd (sd_address demo_sd 7) = 7" by (simp add: sd_address_def demo_sd_def)
  then show ?thesis
    using sd_write_verified [OF demo_clock demo_service, of "replicate 512 0" False 7 "[]"] demo_write
    by (auto simp: SDM_BLOCK_SIZE_def)
qed

lemma sd_claim_excludes_raw_witness:
  "\<exists>st s1 r tr1 s2 tr2. bvstk_sd_service_disk_claim demo_hw demo_sd [] = Some (st, s1, r, tr1) \<and>
     sd_run demo_hw [SdDiskRead 3 True, SdRead 3 True] s1 tr1 = Some (s2, tr2) \<and>
     (\<exists>evs. sd_exec demo_hw (SdTest 0 8 1) s2 tr2 = Some (BVSTK_ERR_BUSY, s2, tr2 @ evs))"
proof -
  have n: "\<not> ci_filesystem_owned (sv_info demo_sd)" "list_all op_block_ok [SdDiskRead 3 True, SdRead 3 True]"
    by (simp_all add: demo_sd_def op_block_ok_def)
  obtain st s1 r tr1 s2 tr2 where c: "bvstk_sd_service_disk_claim demo_hw demo_sd [] = Some (st, s1, r, tr1)"
    "sd_run demo_hw [SdDiskRead 3 True, SdRead 3 True] s1 tr1 = Some (s2, tr2)"
    "\<forall>op. raw_op op \<longrightarrow> (\<exists>st' evs. sd_exec demo_hw op s2 tr2 = Some (st', s2, tr2 @ evs) \<and> st' \<noteq> BVSTK_OK \<and>
       evs \<in> {[], [ELock 1000], [ELock 1000, EUnlock]} \<and> (mx_lock demo_hw tr2 1000 = BVSTK_OK \<longrightarrow> st' = BVSTK_ERR_BUSY))"
    using sd_claim_excludes_raw [OF demo_clock demo_service n(1) _ n(2), of "[]"] by auto
  have "\<exists>evs. sd_exec demo_hw (SdTest 0 8 1) s2 tr2 = Some (BVSTK_ERR_BUSY, s2, tr2 @ evs)"
    using c(3) [rule_format, of "SdTest 0 8 1"] by auto
  then show ?thesis using c(1,2) by blast
qed

lemma sd_test_writes_first_witness:
  "\<exists>st s' r' evs. bvstk_sd_service_test demo_hw demo_sd 5 2 1 [] = Some (st, s', r', [] @ evs) \<and>
     (\<exists>k. issues (take k (test_plan demo_sd 5 2 1)) evs)"
  using sd_test_writes_first [OF demo_clock demo_service, of 5 2 1 "[]"] by blast

end
