(* ===== verification/Sd_Volume.thy ===== *)
theory Sd_Volume
  imports Bvstk_Status
begin

text \<open>
  Discovery of the FAT volume on the card and the mapping of its sectors,
  \<open>src/services/sd/bvstk_sd_volume.c\<close>.

  Geometry values are natural numbers: every one comes from 16 or 32 bits of the sector, the
  code computes sums and products in 64 bits, and each result it narrows to 32 bits is below
  \<open>2\<^sup>3\<^sup>2\<close> by the tests before it. The sector reader is a parameter that may answer
  differently at each call: it is given the sectors read so far.
\<close>

record bvstk_sd_volume_t =
  vo_first_lba :: u32
  vo_sectors :: u32
  vo_fat_bits :: u8

type_synonym bvstk_sd_volume_read_t = "u32 list \<Rightarrow> u32 \<Rightarrow> bvstk_status_t \<times> bytes"

definition le16 :: "bytes \<Rightarrow> nat" where
  "le16 p = unat (p ! 0) + unat (p ! 1) * 2 ^ 8"

definition le32 :: "bytes \<Rightarrow> nat" where
  "le32 p = unat (p ! 0) + unat (p ! 1) * 2 ^ 8 + unat (p ! 2) * 2 ^ 16 + unat (p ! 3) * 2 ^ 24"

definition signature :: "bytes \<Rightarrow> bool" where
  "signature p \<longleftrightarrow> p ! 510 = 0x55 \<and> p ! 511 = 0xaa"

definition fat32_fields_bad :: "bytes \<Rightarrow> nat \<Rightarrow> nat \<Rightarrow> nat \<Rightarrow> bool" where
  "fat32_fields_bad p clusters roots reserved =
    (let root = le32 (drop 44 p); fsinfo = le16 (drop 48 p); backup = le16 (drop 50 p) in
     roots \<noteq> 0 \<or> le16 (drop 22 p) \<noteq> 0 \<or> le16 (drop 42 p) \<noteq> 0 \<or> root < 2 \<or> root \<ge> clusters + 2 \<or>
     le16 (drop 40 p) AND 0x80 \<noteq> 0 \<or> (fsinfo \<noteq> 0xffff \<and> (fsinfo = 0 \<or> fsinfo \<ge> reserved)) \<or>
     (backup \<noteq> 0xffff \<and> backup \<noteq> 0 \<and> backup \<ge> reserved))"

definition fat_width :: "nat \<Rightarrow> nat" where
  "fat_width clusters = (if clusters < 4085 then 12 else if clusters < 65525 then 16 else 32)"

definition bpb :: "bytes \<Rightarrow> u32 \<Rightarrow> u32 \<Rightarrow> bvstk_sd_volume_t option" where
  "bpb p start limit =
    (let fat16 = le16 (drop 22 p); reserved = le16 (drop 14 p); roots = le16 (drop 17 p);
         spc = unat (p ! 13); fats = unat (p ! 16) in
     if \<not> signature p \<or> (p ! 0 \<noteq> 0xeb \<and> p ! 0 \<noteq> 0xe9) \<or> le16 (drop 11 p) \<noteq> 512 \<or> reserved = 0 \<or> spc = 0 \<or>
        spc > 128 \<or> spc AND (spc - 1) \<noteq> 0 \<or> (fats \<noteq> 1 \<and> fats \<noteq> 2) \<or> roots mod 16 \<noteq> 0 then None
     else
       let total = (if le16 (drop 19 p) = 0 then le32 (drop 32 p) else le16 (drop 19 p));
           fat = (if fat16 = 0 then le32 (drop 36 p) else fat16) in
       if total = 0 \<or> fat = 0 \<or> (limit \<noteq> 0 \<and> total > unat limit) \<or> unat start + total > 0x100000000 then None
       else
         let overhead = reserved + fats * fat + roots div 16 in
         if overhead \<ge> total then None
         else
           let clusters = (total - overhead) div spc in
           if clusters = 0 \<or> clusters > 0x0ffffff5 - 2 then None
           else
             let bits = fat_width clusters in
             if (if bits = 32 then fat32_fields_bad p clusters roots reserved else roots = 0 \<or> fat16 = 0) then None
             else
               let fat_bytes = ((clusters + 2) * bits + 7) div 8 in
               if fat_bytes > fat * 512 then None
               else Some \<lparr> vo_first_lba = start, vo_sectors = of_nat total, vo_fat_bits = of_nat bits \<rparr>)"

definition mbr_entry :: "bytes \<Rightarrow> nat \<Rightarrow> bytes" where
  "mbr_entry entries i = take 16 (drop (i * 16) entries)"

definition entry_start :: "bytes \<Rightarrow> nat" where "entry_start entry = le32 (drop 8 entry)"

definition entry_count :: "bytes \<Rightarrow> nat" where "entry_count entry = le32 (drop 12 entry)"

definition entry_usable :: "bytes \<Rightarrow> bool" where
  "entry_usable entry \<longleftrightarrow>
     entry ! 4 \<in> {0x01, 0x04, 0x06, 0x0b, 0x0c, 0x0e} \<and>
     \<not> ((entry ! 0 \<noteq> 0 \<and> entry ! 0 \<noteq> 0x80) \<or> entry_start entry = 0 \<or> entry_count entry = 0 \<or>
        entry_start entry + entry_count entry > 0x100000000)"

fun probe_entries :: "bvstk_sd_volume_read_t \<Rightarrow> bytes list \<Rightarrow> u32 list \<Rightarrow> bvstk_status_t \<times> bvstk_sd_volume_t option \<times> u32 list" where
  "probe_entries read [] h = (BVSTK_ERR_UNSUPPORTED, None, h)"
| "probe_entries read (entry # rest) h =
    (if \<not> entry_usable entry then probe_entries read rest h
     else
       let start = of_nat (entry_start entry); h1 = h @ [start] in
       (case read h start of (status, sector) \<Rightarrow>
          if status \<noteq> BVSTK_OK then (status, None, h1)
          else (case bpb sector start (of_nat (entry_count entry)) of
              Some v \<Rightarrow> (BVSTK_OK, Some v, h1)
            | None \<Rightarrow> probe_entries read rest h1)))"

definition zero_volume :: bvstk_sd_volume_t where
  "zero_volume = \<lparr> vo_first_lba = 0, vo_sectors = 0, vo_fat_bits = 0 \<rparr>"

text \<open>The volume that is left at \<open>volume\<close>, and the sectors that were read.\<close>

definition bvstk_sd_volume_probe :: "bvstk_sd_volume_read_t option \<Rightarrow> bvstk_sd_volume_t option \<Rightarrow>
    bvstk_status_t \<times> bvstk_sd_volume_t option \<times> u32 list" where
  "bvstk_sd_volume_probe readp volume =
    (case (readp, volume) of
       (Some read, Some _) \<Rightarrow>
         (case read [] 0 of (status, sector) \<Rightarrow>
            if status \<noteq> BVSTK_OK then (status, Some zero_volume, [0])
            else (case bpb sector 0 0 of
                Some v \<Rightarrow> (BVSTK_OK, Some v, [0])
              | None \<Rightarrow>
                  if \<not> signature sector then (BVSTK_ERR_UNSUPPORTED, Some zero_volume, [0])
                  else (case probe_entries read (map (mbr_entry (take 64 (drop 446 sector))) [0..<4]) [0] of
                      (status, found, h) \<Rightarrow>
                        (status, Some (case found of Some v \<Rightarrow> v | None \<Rightarrow> zero_volume), h))))
     | _ \<Rightarrow> (BVSTK_ERR_MALFORMED, volume, []))"

text \<open>\<open>SIZE_MAX\<close> of the 32-bit targets.\<close>

definition SD_SIZE_MAX :: nat where "SD_SIZE_MAX = 0xFFFFFFFF"

definition bvstk_sd_volume_map :: "bvstk_sd_volume_t option \<Rightarrow> u32 \<Rightarrow> nat \<Rightarrow> bool \<Rightarrow> u32 option" where
  "bvstk_sd_volume_map volume sector count out =
    (case volume of
       None \<Rightarrow> None
     | Some v \<Rightarrow>
         if \<not> out \<or> count = 0 \<or> count > SD_SIZE_MAX div 512 \<or> sector \<ge> vo_sectors v \<or>
            count > unat (vo_sectors v) - unat sector \<or>
            unat (vo_first_lba v) + unat sector + count > 0x100000000 then None
         else Some (vo_first_lba v + sector))"

subsection \<open>The volume stays inside its partition\<close>

lemma le16_less: "le16 p < 2 ^ 16"
  using unat_u8_le [of "p ! 0"] unat_u8_le [of "p ! 1"] by (simp add: le16_def del: unat_u8_le)

lemma le32_less: "le32 p < 2 ^ 32"
  using unat_u8_le [of "p ! 0"] unat_u8_le [of "p ! 1"] unat_u8_le [of "p ! 2"] unat_u8_le [of "p ! 3"]
  by (simp add: le32_def del: unat_u8_le)

lemma if_None_eq_Some: "(if c then None else x) = Some y \<longleftrightarrow> \<not> c \<and> x = Some y"
  by simp

lemma fat_width_cases: "fat_width c \<in> {12, 16, 32}"
  by (simp add: fat_width_def)

lemma bpb_geometry:
  assumes "bpb p start limit = Some v"
  shows "vo_first_lba v = start" and "0 < unat (vo_sectors v)"
    and "unat start + unat (vo_sectors v) \<le> 2 ^ 32"
    and "limit \<noteq> 0 \<Longrightarrow> vo_sectors v \<le> limit" and "vo_fat_bits v \<in> {12, 16, 32}"
proof -
  define total where "total = (if le16 (drop 19 p) = 0 then le32 (drop 32 p) else le16 (drop 19 p))"
  obtain bits where b: "bits \<in> {12, 16, 32::nat}" and v: "v = \<lparr> vo_first_lba = start, vo_sectors = of_nat total, vo_fat_bits = of_nat bits \<rparr>"
    and t: "0 < total" "limit \<noteq> 0 \<longrightarrow> total \<le> unat limit" "unat start + total \<le> 0x100000000"
    using assms unfolding bpb_def total_def [symmetric] Let_def if_None_eq_Some de_Morgan_disj option.inject
    by (metis fat_width_cases not_less neq0_conv)
  have "total < 2 ^ 32"
    using le32_less [of "drop 32 p"] le16_less [of "drop 19 p"] by (simp add: total_def)
  then have u: "unat (of_nat total :: u32) = total" by (intro unat_of_nat_small) simp
  show "vo_first_lba v = start" "0 < unat (vo_sectors v)"
    "unat start + unat (vo_sectors v) \<le> 2 ^ 32" "limit \<noteq> 0 \<Longrightarrow> vo_sectors v \<le> limit"
    "vo_fat_bits v \<in> {12, 16, 32}"
    using t u b by (auto simp: v word_le_nat_alt)
qed

text \<open>The place of a volume: the whole card, or one of the four primary partitions.\<close>

definition volume_place :: "bytes \<Rightarrow> bvstk_sd_volume_t \<Rightarrow> bool" where
  "volume_place sector v \<longleftrightarrow>
     bpb sector 0 0 = Some v \<or>
     (\<exists>i<4. let entry = mbr_entry (take 64 (drop 446 sector)) i in
        entry_usable entry \<and> unat (vo_first_lba v) = entry_start entry \<and> unat (vo_sectors v) \<le> entry_count entry)"

lemma entry_words:
  "unat (of_nat (entry_start en) :: u32) = entry_start en" "unat (of_nat (entry_count en) :: u32) = entry_count en"
  using le32_less [of "drop 8 en"] le32_less [of "drop 12 en"]
  by (simp_all add: entry_start_def entry_count_def unat_of_nat_small)

lemma probe_entries_found:
  assumes "probe_entries read es h = (BVSTK_OK, found, h')"
  shows "\<exists>en\<in>set es. \<exists>p v. found = Some v \<and> entry_usable en \<and> bpb p (of_nat (entry_start en)) (of_nat (entry_count en)) = Some v"
  using assms
proof (induction es arbitrary: h)
  case (Cons en es)
  define start where "start = (of_nat (entry_start en) :: u32)"
  obtain st p where r: "read h start = (st, p)" by fastforce
  show ?case
  proof (cases "entry_usable en \<and> (\<exists>v. bpb p start (of_nat (entry_count en)) = Some v)")
    case True
    then obtain v where v: "bpb p start (of_nat (entry_count en)) = Some v" by blast
    have "found = Some v" using Cons.prems r True v by (auto simp: Let_def start_def split: if_splits)
    then show ?thesis using v True by (auto simp: start_def)
  next
    case False
    then show ?thesis using Cons r by (auto simp: Let_def start_def split: if_splits)
  qed
qed simp

lemma probe_place:
  assumes "bvstk_sd_volume_probe (Some read) (Some v0) = (BVSTK_OK, Some v, h)"
  shows "volume_place (snd (read [] 0)) v" and "\<exists>p start limit. bpb p start limit = Some v"
proof -
  obtain st sector where s: "read [] 0 = (st, sector)" by fastforce
  define es where "es = map (mbr_entry (take 64 (drop 446 sector))) [0..<4]"
  have *: "bpb sector 0 0 = Some v \<or> (\<exists>h'. probe_entries read es [0] = (BVSTK_OK, Some v, h'))"
    using assms probe_entries_found [of read es "[0]"]
    by (auto simp: bvstk_sd_volume_probe_def s es_def [symmetric] split: if_splits option.splits prod.splits)
  have part: "volume_place sector v \<and> (\<exists>p start limit. bpb p start limit = Some v)"
    if found: "probe_entries read es [0] = (BVSTK_OK, Some v, h')" for h'
  proof -
    obtain en p where en: "en \<in> set es" "entry_usable en"
      and b: "bpb p (of_nat (entry_start en)) (of_nat (entry_count en)) = Some v"
      using probe_entries_found [OF found] by auto
    obtain i where i: "i < 4" "en = mbr_entry (take 64 (drop 446 sector)) i"
      using en(1) by (auto simp: es_def)
    have "entry_count en \<noteq> 0" using en(2) by (simp add: entry_usable_def)
    then have "(of_nat (entry_count en) :: u32) \<noteq> 0" by (simp add: word_zero_unat entry_words)
    then show ?thesis
      using bpb_geometry(1,4) [OF b] b i en(2)
      by (auto simp: volume_place_def Let_def word_le_nat_alt entry_words)
  qed
  show "volume_place (snd (read [] 0)) v" "\<exists>p start limit. bpb p start limit = Some v"
    using * part by (auto simp: s volume_place_def)
qed

text \<open>
  C39: discovery and mapping keep every access inside the volume. When the probe succeeds, the
  volume is the whole card or lies in one of the usable primary partitions of the first sector,
  is not empty, ends at or below sector \<open>2\<^sup>3\<^sup>2\<close> and is FAT12, FAT16 or FAT32. From then on the
  map accepts exactly the non-empty requests that end inside the volume (and whose byte count
  fits \<open>size_t\<close>), and the card sector it gives is the sum without wrap-around.
\<close>

theorem sd_volume_in_bounds:
  assumes "bvstk_sd_volume_probe (Some read) (Some v0) = (BVSTK_OK, Some v, h)"
  shows "volume_place (snd (read [] 0)) v \<and> 0 < unat (vo_sectors v) \<and>
    unat (vo_first_lba v) + unat (vo_sectors v) \<le> 2 ^ 32 \<and> vo_fat_bits v \<in> {12, 16, 32} \<and>
    (\<forall>sector count.
       bvstk_sd_volume_map (Some v) sector count True =
         (if 0 < count \<and> count \<le> 8388607 \<and> unat sector + count \<le> unat (vo_sectors v)
          then Some (of_nat (unat (vo_first_lba v) + unat sector)) else None) \<and>
       (unat sector + count \<le> unat (vo_sectors v) \<and> 0 < count \<longrightarrow>
          unat (vo_first_lba v + sector) = unat (vo_first_lba v) + unat sector))"
proof -
  obtain p start limit where b: "bpb p start limit = Some v" using probe_place(2) [OF assms] by blast
  note g = bpb_geometry [OF b]
  have m: "bvstk_sd_volume_map (Some v) sector count True =
      (if 0 < count \<and> count \<le> 8388607 \<and> unat sector + count \<le> unat (vo_sectors v)
       then Some (of_nat (unat (vo_first_lba v) + unat sector)) else None)" for sector count
    using g(1-3) by (auto simp: bvstk_sd_volume_map_def SD_SIZE_MAX_def word_le_nat_alt)
  have "unat (vo_first_lba v + sector) = unat (vo_first_lba v) + unat sector"
    if "unat sector + count \<le> unat (vo_sectors v)" "0 < count" for sector count
    using that g(1-3) by (subst unat_plus_simple [THEN iffD1]) (auto simp: word_le_nat_alt unat_word_ariths)
  then show ?thesis using probe_place(1) [OF assms] g m by auto
qed

text \<open>A card with one FAT16 partition of 8192 sectors at sector 2048.\<close>

definition demo_byte :: "(nat \<times> u8) list \<Rightarrow> nat \<Rightarrow> u8" where
  "demo_byte tab i = (case map_of tab i of Some b \<Rightarrow> b | None \<Rightarrow> 0)"

definition demo_sector :: "(nat \<times> u8) list \<Rightarrow> bytes" where
  "demo_sector tab = map (demo_byte tab) [0..<512]"

definition demo_mbr :: "(nat \<times> u8) list" where
  "demo_mbr = [(450, 6), (455, 8), (459, 0x20), (510, 0x55), (511, 0xaa)]"

definition demo_boot :: "(nat \<times> u8) list" where
  "demo_boot = [(0, 0xeb), (12, 2), (13, 1), (14, 1), (16, 2), (18, 2), (20, 0x20), (22, 32), (510, 0x55), (511, 0xaa)]"

definition demo_card :: bvstk_sd_volume_read_t where
  "demo_card h lba = (BVSTK_OK, demo_sector (if lba = 0 then demo_mbr else demo_boot))"

lemma demo_sector_nth [simp]: "i < 512 \<Longrightarrow> demo_sector f ! i = demo_byte f i"
  by (simp add: demo_sector_def)

lemma demo_sector_drop [simp]: "k + i < 512 \<Longrightarrow> drop k (demo_sector f) ! i = demo_byte f (k + i)"
  by (simp add: demo_sector_def)

lemma demo_sector_entry [simp]:
  assumes "i < 4" "j < 16"
  shows "mbr_entry (take 64 (drop 446 (demo_sector f))) i ! j = demo_byte f (446 + i * 16 + j)"
  using assms by (simp add: mbr_entry_def demo_sector_def add.assoc)

lemma demo_sector_entry_drop [simp]:
  assumes "i < 4" "k + j < 16"
  shows "drop k (mbr_entry (take 64 (drop 446 (demo_sector f))) i) ! j = demo_byte f (446 + i * 16 + (k + j))"
  using assms by (simp add: mbr_entry_def demo_sector_def add.assoc)

definition demo_volume :: bvstk_sd_volume_t where
  "demo_volume = \<lparr> vo_first_lba = 2048, vo_sectors = 8192, vo_fat_bits = 16 \<rparr>"

lemma demo_boot_bpb: "bpb (demo_sector demo_boot) 2048 8192 = Some demo_volume"
  by (simp add: bpb_def signature_def le16_def le32_def demo_byte_def demo_boot_def fat_width_def demo_volume_def)

lemma demo_probe:
  "bvstk_sd_volume_probe (Some demo_card) (Some zero_volume) = (BVSTK_OK, Some demo_volume, [0, 2048])"
proof -
  have none: "bpb (demo_sector demo_mbr) 0 0 = None"
    by (simp add: bpb_def demo_byte_def demo_mbr_def)
  have sig: "signature (demo_sector demo_mbr)"
    by (simp add: signature_def demo_byte_def demo_mbr_def)
  have entry: "entry_usable en \<and> entry_start en = 2048 \<and> entry_count en = 8192"
    if "en = mbr_entry (take 64 (drop 446 (demo_sector demo_mbr))) 0" for en
    by (simp add: that entry_usable_def entry_start_def entry_count_def le32_def demo_byte_def demo_mbr_def)
  show ?thesis
    using none sig entry [OF refl]
    by (simp add: bvstk_sd_volume_probe_def demo_card_def upt_rec Let_def demo_boot_bpb)
qed

lemma sd_volume_in_bounds_witness:
  "bvstk_sd_volume_probe (Some demo_card) (Some zero_volume) = (BVSTK_OK, Some demo_volume, [0, 2048]) \<and>
   volume_place (snd (demo_card [] 0)) demo_volume \<and>
   bvstk_sd_volume_map (Some demo_volume) 8191 1 True = Some 10239 \<and>
   bvstk_sd_volume_map (Some demo_volume) 8191 2 True = None"
  using demo_probe sd_volume_in_bounds [OF demo_probe] by (simp add: demo_volume_def)

end
