(* ===== verification/Mmio.thy ===== *)
theory Mmio
  imports Bvstk_Status
begin

text \<open>
  Register windows of the programmable logic: \<open>bvstk_mmio_region_t\<close> of
  \<open>src/shared/interfaces/bvstk_mmio.h\<close> with the functions of the Neutrino port,
  \<open>src/ports/neutrino-zynq7000/os/bvstk_platform_neutrino.c\<close>.

  The operating system is the environment: whether \<open>ThreadCtl\<close> grants I/O privileges, where
  \<open>mmap_device_memory\<close> puts a window, what a load returns, the clock and the mutexes. Each
  answer may depend on everything that happened before, which is the trace. A failing call
  returns \<open>-1\<close> with \<open>errno\<close> set: here it returns the \<open>errno\<close>. Addresses are 32 bits wide.
\<close>

section \<open>The environment\<close>

datatype errno = EINVAL | EACCES | EPERM | EOTHER nat

datatype mmio_event =
    OsThreadCtl "errno option"
  | OsMap u32 nat "errno + u32"
  | OsUnmap u32 nat
  | OsLoad u32 u32
  | OsStore u32 u32
  | OsNow
  | OsSleep nat
  | OsLock u32 bvstk_status_t
  | OsUnlock

type_synonym mmio_trace = "mmio_event list"

record mmio_env =
  os_thread_ctl :: "mmio_trace \<Rightarrow> errno option"
  os_map :: "mmio_trace \<Rightarrow> u32 \<Rightarrow> nat \<Rightarrow> errno + u32"
  os_load :: "mmio_trace \<Rightarrow> u32 \<Rightarrow> u32"
  os_now :: "mmio_trace \<Rightarrow> nat"
  os_lock :: "mmio_trace \<Rightarrow> u32 \<Rightarrow> bvstk_status_t"

text \<open>The static \<open>platform_ready\<close> and the trace.\<close>

record mmio_st =
  platform_ready :: bool
  mm_trace :: mmio_trace

definition mm_say :: "mmio_event \<Rightarrow> mmio_st \<Rightarrow> mmio_st" where
  "mm_say ev s = s \<lparr> mm_trace := mm_trace s @ [ev] \<rparr>"

section \<open>The platform functions\<close>

definition bvstk_platform_init :: "mmio_env \<Rightarrow> mmio_st \<Rightarrow> errno option \<times> mmio_st" where
  "bvstk_platform_init e s =
    (if platform_ready s then (None, s)
     else let r = os_thread_ctl e (mm_trace s); s1 = mm_say (OsThreadCtl r) s in
       (case r of Some err \<Rightarrow> (Some err, s1) | None \<Rightarrow> (None, s1 \<lparr> platform_ready := True \<rparr>)))"

definition bvstk_platform_shutdown :: "mmio_st \<Rightarrow> mmio_st" where
  "bvstk_platform_shutdown s = s \<lparr> platform_ready := False \<rparr>"

text \<open>A reading of the clock is the 64-bit value of the time.\<close>

definition bvstk_platform_now_ms :: "mmio_env \<Rightarrow> mmio_st \<Rightarrow> u64 \<times> mmio_st" where
  "bvstk_platform_now_ms e s = (of_nat (os_now e (mm_trace s)), mm_say OsNow s)"

definition bvstk_platform_sleep_ms :: "nat \<Rightarrow> mmio_st \<Rightarrow> mmio_st" where
  "bvstk_platform_sleep_ms n s = mm_say (OsSleep n) s"

section \<open>Windows\<close>

record bvstk_mmio_region_t =
  mr_physical_base :: u32
  mr_size :: nat
  mr_mapped_base :: u32

definition zero_region :: bvstk_mmio_region_t where
  "zero_region = \<lparr> mr_physical_base = 0, mr_size = 0, mr_mapped_base = 0 \<rparr>"

definition bvstk_mmio_region_open :: "mmio_env \<Rightarrow> bvstk_mmio_region_t option \<Rightarrow> u32 \<Rightarrow> nat \<Rightarrow> mmio_st \<Rightarrow>
    errno option \<times> bvstk_mmio_region_t option \<times> mmio_st" where
  "bvstk_mmio_region_open e region physical_base size_bytes s =
    (if region = None \<or> size_bytes = 0 then (Some EINVAL, region, s)
     else case bvstk_platform_init e s of
       (Some err, s1) \<Rightarrow> (Some err, region, s1)
     | (None, s1) \<Rightarrow>
         let r = os_map e (mm_trace s1) physical_base size_bytes;
             s2 = mm_say (OsMap physical_base size_bytes r) s1 in
         (case r of
            Inl err \<Rightarrow> (Some err, region, s2)
          | Inr mapped \<Rightarrow> (None, Some \<lparr> mr_physical_base = physical_base, mr_size = size_bytes,
                mr_mapped_base = mapped \<rparr>, s2)))"

definition bvstk_mmio_region_close :: "bvstk_mmio_region_t option \<Rightarrow> mmio_st \<Rightarrow> bvstk_mmio_region_t option \<times> mmio_st" where
  "bvstk_mmio_region_close region s =
    (case region of
       None \<Rightarrow> (None, s)
     | Some r \<Rightarrow> (Some zero_region,
         if mr_mapped_base r \<noteq> 0 \<and> mr_size r \<noteq> 0 then mm_say (OsUnmap (mr_mapped_base r) (mr_size r)) s else s))"

definition check_access :: "bvstk_mmio_region_t option \<Rightarrow> nat \<Rightarrow> errno option" where
  "check_access region off =
    (case region of
       None \<Rightarrow> Some EINVAL
     | Some r \<Rightarrow> if mr_mapped_base r = 0 \<or> mr_size r < 4 \<or> off AND 3 \<noteq> 0 \<or> off > mr_size r - 4
         then Some EINVAL else None)"

text \<open>\<open>out\<close> says whether the caller passed a place for the value.\<close>

definition bvstk_mmio_read32 :: "mmio_env \<Rightarrow> bvstk_mmio_region_t option \<Rightarrow> nat \<Rightarrow> bool \<Rightarrow> mmio_st \<Rightarrow>
    (errno + u32) \<times> mmio_st" where
  "bvstk_mmio_read32 e region off out s =
    (if \<not> out \<or> check_access region off \<noteq> None then (Inl EINVAL, s)
     else let address = mr_mapped_base (the region) + of_nat off;
              v = os_load e (mm_trace s) address
          in (Inr v, mm_say (OsLoad address v) s))"

definition bvstk_mmio_write32 :: "bvstk_mmio_region_t option \<Rightarrow> nat \<Rightarrow> u32 \<Rightarrow> mmio_st \<Rightarrow>
    errno option \<times> mmio_st" where
  "bvstk_mmio_write32 region off v s =
    (case check_access region off of
       Some err \<Rightarrow> (Some err, s)
     | None \<Rightarrow> (None, mm_say (OsStore (mr_mapped_base (the region) + of_nat off) v) s))"

end
