(* ===== verification/Pl_Service.thy ===== *)
theory Pl_Service
  imports Mmio
begin

text \<open>
  The register windows of the board (\<open>src/hardware/boards/ax7020/bvstk_pl_regions.c\<close>) and the
  service that maps them on first use and reads and writes their words
  (\<open>src/shared/pl/access/bvstk_pl_service.c\<close>). A region id is the number of its enumerator.
  The read and write operations take the service by value: the callers in the control facade
  refuse a null service first.
\<close>

section \<open>The regions\<close>

abbreviation (input) BVSTK_PL_REGION_COUNT :: nat where "BVSTK_PL_REGION_COUNT \<equiv> 8"
abbreviation (input) BVSTK_SPI_MASTER_BASE :: u32 where "BVSTK_SPI_MASTER_BASE \<equiv> 0x43C40000"
abbreviation (input) BVSTK_SPI_MASTER_SIZE :: nat where "BVSTK_SPI_MASTER_SIZE \<equiv> 0x10000"
abbreviation (input) BVSTK_SPI_BRAM_BASE :: u32 where "BVSTK_SPI_BRAM_BASE \<equiv> 0x44000000"
abbreviation (input) BVSTK_SPI_BRAM_SIZE :: nat where "BVSTK_SPI_BRAM_SIZE \<equiv> 0x2000"

datatype bvstk_pl_region_kind_t = BVSTK_PL_REGION_CONTROL | BVSTK_PL_REGION_BRAM

record bvstk_pl_region_desc_t =
  rg_id :: nat
  rg_name :: cstr
  rg_physical_base :: u32
  rg_size :: nat
  rg_kind :: bvstk_pl_region_kind_t

definition pl_region :: "nat \<Rightarrow> string \<Rightarrow> u32 \<Rightarrow> nat \<Rightarrow> bvstk_pl_region_kind_t \<Rightarrow> bvstk_pl_region_desc_t" where
  "pl_region i name base size_bytes kind =
     \<lparr> rg_id = i, rg_name = ascii name, rg_physical_base = base, rg_size = size_bytes, rg_kind = kind \<rparr>"

definition regions :: "bvstk_pl_region_desc_t list" where
  "regions =
    [pl_region 0 ''i2c-master'' 0x43C00000 0x10000 BVSTK_PL_REGION_CONTROL,
     pl_region 1 ''i2c-slave'' 0x43C50000 0x10000 BVSTK_PL_REGION_CONTROL,
     pl_region 2 ''i2c-bram'' 0x40000000 0x3000 BVSTK_PL_REGION_BRAM,
     pl_region 3 ''mdio-master'' 0x43C10000 0x10000 BVSTK_PL_REGION_CONTROL,
     pl_region 4 ''mdio-slave'' 0x43C20000 0x10000 BVSTK_PL_REGION_CONTROL,
     pl_region 5 ''mdio-bram'' 0x42000000 0x4000 BVSTK_PL_REGION_BRAM,
     pl_region 6 ''spi-master'' BVSTK_SPI_MASTER_BASE BVSTK_SPI_MASTER_SIZE BVSTK_PL_REGION_CONTROL,
     pl_region 7 ''spi-bram'' BVSTK_SPI_BRAM_BASE BVSTK_SPI_BRAM_SIZE BVSTK_PL_REGION_BRAM]"

definition bvstk_pl_region_get :: "nat \<Rightarrow> bvstk_pl_region_desc_t option" where
  "bvstk_pl_region_get i = (if i \<ge> BVSTK_PL_REGION_COUNT then None else Some (regions ! i))"

fun region_find_from :: "bvstk_pl_region_desc_t list \<Rightarrow> cstr \<Rightarrow> bvstk_pl_region_desc_t option" where
  "region_find_from [] name = None"
| "region_find_from (r # rs) name = (if rg_name r = name then Some r else region_find_from rs name)"

definition bvstk_pl_region_find :: "cstr option \<Rightarrow> bvstk_pl_region_desc_t option" where
  "bvstk_pl_region_find name = (case name of None \<Rightarrow> None | Some n \<Rightarrow> region_find_from regions n)"

definition bvstk_pl_region_count :: nat where
  "bvstk_pl_region_count = BVSTK_PL_REGION_COUNT"

section \<open>The service\<close>

record bvstk_pl_service_t =
  pl_mappings :: "bvstk_mmio_region_t list"
  pl_mapped :: "bool list"

type_synonym pl_st = "bvstk_pl_service_t \<times> mmio_st"

definition zero_pl_service :: bvstk_pl_service_t where
  "zero_pl_service = \<lparr> pl_mappings = replicate BVSTK_PL_REGION_COUNT zero_region,
     pl_mapped = replicate BVSTK_PL_REGION_COUNT False \<rparr>"

definition ensure_mapped :: "mmio_env \<Rightarrow> bvstk_pl_service_t \<Rightarrow> nat \<Rightarrow> mmio_st \<Rightarrow>
    bvstk_status_t \<times> bvstk_pl_service_t \<times> mmio_st" where
  "ensure_mapped e service i s =
    (if i \<ge> BVSTK_PL_REGION_COUNT then (BVSTK_ERR_MALFORMED, service, s)
     else if pl_mapped service ! i then (BVSTK_OK, service, s)
     else case bvstk_pl_region_get i of
       None \<Rightarrow> (BVSTK_ERR_NOT_FOUND, service, s)
     | Some desc \<Rightarrow>
         (case bvstk_mmio_region_open e (Some (pl_mappings service ! i)) (rg_physical_base desc) (rg_size desc) s of
            (Some err, region, s1) \<Rightarrow>
              (if err = EACCES \<or> err = EPERM then BVSTK_ERR_DENIED else BVSTK_ERR_IO,
               service \<lparr> pl_mappings := (pl_mappings service)[i := the region] \<rparr>, s1)
          | (None, region, s1) \<Rightarrow>
              (BVSTK_OK, service \<lparr> pl_mappings := (pl_mappings service)[i := the region],
                 pl_mapped := (pl_mapped service)[i := True] \<rparr>, s1)))"

definition bvstk_pl_service_init :: "bvstk_pl_service_t option \<Rightarrow> bvstk_pl_service_t option" where
  "bvstk_pl_service_init service = map_option (\<lambda>_. zero_pl_service) service"

function close_mapped :: "nat \<Rightarrow> bvstk_pl_service_t \<Rightarrow> mmio_st \<Rightarrow> mmio_st" where
  "close_mapped i service s =
    (if i \<ge> BVSTK_PL_REGION_COUNT then s
     else close_mapped (i + 1) service
       (if pl_mapped service ! i then snd (bvstk_mmio_region_close (Some (pl_mappings service ! i)) s) else s))"
  by pat_completeness auto
termination by (relation "measure (\<lambda>(i, _, _). BVSTK_PL_REGION_COUNT - i)") auto

definition bvstk_pl_service_shutdown :: "bvstk_pl_service_t option \<Rightarrow> mmio_st \<Rightarrow> bvstk_pl_service_t option \<times> mmio_st" where
  "bvstk_pl_service_shutdown service s =
    (case service of None \<Rightarrow> (None, s) | Some p \<Rightarrow> (Some zero_pl_service, close_mapped 0 p s))"

definition bvstk_pl_service_read32 :: "mmio_env \<Rightarrow> bvstk_pl_service_t \<Rightarrow> nat \<Rightarrow> nat \<Rightarrow> bool \<Rightarrow> mmio_st \<Rightarrow>
    bvstk_status_t \<times> u32 option \<times> bvstk_pl_service_t \<times> mmio_st" where
  "bvstk_pl_service_read32 e service region off out s =
    (case ensure_mapped e service region s of
       (BVSTK_OK, service1, s1) \<Rightarrow>
         if \<not> out then (BVSTK_ERR_MALFORMED, None, service1, s1)
         else (case bvstk_mmio_read32 e (Some (pl_mappings service1 ! region)) off True s1 of
             (Inl err, s2) \<Rightarrow> (if err = EINVAL then BVSTK_ERR_RANGE else BVSTK_ERR_IO, None, service1, s2)
           | (Inr v, s2) \<Rightarrow> (BVSTK_OK, Some v, service1, s2))
     | (st, service1, s1) \<Rightarrow> (st, None, service1, s1))"

definition bvstk_pl_service_write32 :: "mmio_env \<Rightarrow> bvstk_pl_service_t \<Rightarrow> nat \<Rightarrow> nat \<Rightarrow> u32 \<Rightarrow> mmio_st \<Rightarrow>
    bvstk_status_t \<times> bvstk_pl_service_t \<times> mmio_st" where
  "bvstk_pl_service_write32 e service region off v s =
    (case ensure_mapped e service region s of
       (BVSTK_OK, service1, s1) \<Rightarrow>
         (case bvstk_mmio_write32 (Some (pl_mappings service1 ! region)) off v s1 of
             (Some err, s2) \<Rightarrow> (if err = EINVAL then BVSTK_ERR_RANGE else BVSTK_ERR_IO, service1, s2)
           | (None, s2) \<Rightarrow> (BVSTK_OK, service1, s2))
     | (st, service1, s1) \<Rightarrow> (st, service1, s1))"

section \<open>Accesses stay inside the declared regions\<close>

text \<open>The loads and stores of a trace.\<close>

fun is_access :: "mmio_event \<Rightarrow> bool" where
  "is_access (OsLoad a v) = True"
| "is_access (OsStore a v) = True"
| "is_access _ = False"

definition accesses :: "mmio_trace \<Rightarrow> mmio_trace" where
  "accesses tr = filter is_access tr"

text \<open>\<open>a\<close> is the address of the word at offset \<open>off\<close> of a window mapped on \<open>[base, base + n)\<close>.\<close>

definition in_window :: "mmio_trace \<Rightarrow> u32 \<Rightarrow> nat \<Rightarrow> nat \<Rightarrow> u32 \<Rightarrow> bool" where
  "in_window tr base n off a \<longleftrightarrow> (\<exists>m. OsMap base n (Inr m) \<in> set tr \<and> m \<noteq> 0 \<and> a = m + of_nat off) \<and>
     off + 4 \<le> n \<and> off mod 4 = 0"

definition at_region :: "mmio_trace \<Rightarrow> nat \<Rightarrow> nat \<Rightarrow> u32 \<Rightarrow> bool" where
  "at_region tr i off a \<longleftrightarrow> i < BVSTK_PL_REGION_COUNT \<and>
     in_window tr (rg_physical_base (regions ! i)) (rg_size (regions ! i)) off a"

definition pl_wf :: "bvstk_pl_service_t \<Rightarrow> mmio_trace \<Rightarrow> bool" where
  [wf_defs]: "pl_wf p tr \<longleftrightarrow> length (pl_mappings p) = BVSTK_PL_REGION_COUNT \<and> length (pl_mapped p) = BVSTK_PL_REGION_COUNT \<and>
     (\<forall>i < BVSTK_PL_REGION_COUNT. pl_mapped p ! i \<longrightarrow>
        mr_size (pl_mappings p ! i) = rg_size (regions ! i) \<and>
        OsMap (rg_physical_base (regions ! i)) (rg_size (regions ! i)) (Inr (mr_mapped_base (pl_mappings p ! i))) \<in> set tr)"

lemma accesses_append [simp]: "accesses (xs @ ys) = accesses xs @ accesses ys"
  by (simp add: accesses_def)

lemma accesses_list [simp]:
  "accesses [] = []" "accesses (OsLoad a v # xs) = OsLoad a v # accesses xs" "accesses (OsStore a v # xs) = OsStore a v # accesses xs"
  "accesses (OsThreadCtl r # xs) = accesses xs" "accesses (OsMap b n m # xs) = accesses xs" "accesses (OsUnmap b n # xs) = accesses xs"
  "accesses (OsNow # xs) = accesses xs" "accesses (OsSleep k # xs) = accesses xs" "accesses (OsLock lk st # xs) = accesses xs"
  "accesses (OsUnlock # xs) = accesses xs"
  by (simp_all add: accesses_def)

lemma in_window_mono: "in_window tr base n off a \<Longrightarrow> in_window (tr @ evs) base n off a"
  by (auto simp: in_window_def)

lemma at_region_mono: "at_region tr i off a \<Longrightarrow> at_region (tr @ evs) i off a"
  by (auto simp: at_region_def intro: in_window_mono)

lemma check_access_window:
  assumes "check_access (Some r) off = None" "OsMap base (mr_size r) (Inr (mr_mapped_base r)) \<in> set tr"
  shows "in_window tr base (mr_size r) off (mr_mapped_base r + of_nat off)"
proof -
  have "off mod 4 = off AND 3" using take_bit_eq_mask [of 2 off] by (simp add: take_bit_eq_mod mask_eq_exp_minus_1)
  then show ?thesis using assms by (auto simp: check_access_def in_window_def split: if_splits)
qed

lemma pl_wf_mono: "pl_wf p tr \<Longrightarrow> pl_wf p (tr @ evs)"
  by (auto simp: pl_wf_def)

lemma pl_wf_init: "pl_wf zero_pl_service tr"
  by (auto simp: pl_wf_def zero_pl_service_def)

text \<open>What an operation of the service appends to the trace.\<close>

definition appends :: "(mmio_trace \<Rightarrow> bool) \<Rightarrow> mmio_st \<Rightarrow> mmio_st \<Rightarrow> bool" where
  "appends P s s' \<longleftrightarrow> (\<exists>evs. mm_trace s' = mm_trace s @ evs \<and> P evs)"

lemma platform_init_appends: "bvstk_platform_init e s = (r, s') \<Longrightarrow> appends (\<lambda>evs. accesses evs = []) s s'"
  by (auto simp: bvstk_platform_init_def Let_def mm_say_def appends_def split: if_splits option.splits)

lemma region_open_run:
  assumes "bvstk_mmio_region_open e (Some r0) base n s = (err, r, s')"
  shows "appends (\<lambda>evs. accesses evs = []) s s'"
    and "err = None \<Longrightarrow> mr_physical_base (the r) = base \<and> mr_size (the r) = n \<and>
       OsMap base n (Inr (mr_mapped_base (the r))) \<in> set (mm_trace s')"
    and "err \<noteq> None \<Longrightarrow> r = Some r0"
proof -
  obtain r1 s1 where i: "bvstk_platform_init e s = (r1, s1)" by (cases "bvstk_platform_init e s")
  note a = platform_init_appends [OF i]
  show "appends (\<lambda>evs. accesses evs = []) s s'"
    using assms i a by (auto simp: bvstk_mmio_region_open_def Let_def mm_say_def appends_def split: if_splits option.splits sum.splits)
  show "err = None \<Longrightarrow> mr_physical_base (the r) = base \<and> mr_size (the r) = n \<and>
       OsMap base n (Inr (mr_mapped_base (the r))) \<in> set (mm_trace s')" "err \<noteq> None \<Longrightarrow> r = Some r0"
    using assms i by (auto simp: bvstk_mmio_region_open_def Let_def mm_say_def split: if_splits option.splits sum.splits)
qed

lemma ensure_mapped_run:
  assumes "ensure_mapped e p i s = (st, p', s')" "pl_wf p (mm_trace s)"
  shows "appends (\<lambda>evs. accesses evs = []) s s'" "pl_wf p' (mm_trace s')"
    "st = BVSTK_OK \<Longrightarrow> i < BVSTK_PL_REGION_COUNT \<and> pl_mapped p' ! i"
proof -
  let ?d = "regions ! i"
  obtain err r s1 where o: "bvstk_mmio_region_open e (Some (pl_mappings p ! i)) (rg_physical_base ?d) (rg_size ?d) s = (err, r, s1)"
    by (metis prod_cases3)
  note run = region_open_run [OF o]
  consider (bad) "i \<ge> 8" "st = BVSTK_ERR_MALFORMED" "p' = p" "s' = s"
    | (had) "i < 8" "pl_mapped p ! i" "p' = p" "s' = s"
    | (fail) "i < 8" "err \<noteq> None" "st \<noteq> BVSTK_OK" "p' = p \<lparr> pl_mappings := (pl_mappings p)[i := the r] \<rparr>" "s' = s1"
    | (fresh) "i < 8" "err = None" "s' = s1"
        "p' = p \<lparr> pl_mappings := (pl_mappings p)[i := the r], pl_mapped := (pl_mapped p)[i := True] \<rparr>"
    using assms(1) o by (auto simp: ensure_mapped_def bvstk_pl_region_get_def split: if_splits option.splits)
  note cases = this
  show "appends (\<lambda>evs. accesses evs = []) s s'"
    using run(1) by (cases rule: cases) (auto simp: appends_def)
  obtain evs where ev: "mm_trace s1 = mm_trace s @ evs" using run(1) by (auto simp: appends_def)
  show "pl_wf p' (mm_trace s')"
  proof (cases rule: cases)
    case fail
    then have "the r = pl_mappings p ! i" using run(3) by simp
    then show ?thesis using fail ev pl_wf_mono [OF assms(2)] by simp
  next
    case fresh
    then show ?thesis using run(2) assms(2) ev by (auto simp: pl_wf_def nth_list_update)
  qed (use assms(2) in auto)
  show "st = BVSTK_OK \<Longrightarrow> i < BVSTK_PL_REGION_COUNT \<and> pl_mapped p' ! i"
    using assms(2) by (cases rule: cases) (auto simp: pl_wf_def)
qed

lemma mapped_access:
  assumes "pl_wf p tr" "i < BVSTK_PL_REGION_COUNT" "pl_mapped p ! i" "check_access (Some (pl_mappings p ! i)) off = None"
  shows "at_region tr i off (mr_mapped_base (pl_mappings p ! i) + of_nat off)"
proof -
  have r: "mr_size (pl_mappings p ! i) = rg_size (regions ! i)"
    "OsMap (rg_physical_base (regions ! i)) (rg_size (regions ! i)) (Inr (mr_mapped_base (pl_mappings p ! i))) \<in> set tr"
    using assms(1-3) by (auto simp: pl_wf_def)
  show ?thesis using check_access_window [OF assms(4), of "rg_physical_base (regions ! i)" tr] r assms(2)
    by (simp add: at_region_def)
qed

text \<open>A read or write of the service is one access to the word it names, or none.\<close>

lemma pl_read_run:
  assumes "bvstk_pl_service_read32 e p i off out s = (st, v, p', s')" "pl_wf p (mm_trace s)"
  shows "pl_wf p' (mm_trace s')" "st = BVSTK_OK \<longleftrightarrow> v \<noteq> None"
    "appends (\<lambda>evs. case v of None \<Rightarrow> accesses evs = []
       | Some w \<Rightarrow> \<exists>a. at_region (mm_trace s') i off a \<and> accesses evs = [OsLoad a w]) s s'"
proof -
  obtain st1 p1 s1 where m: "ensure_mapped e p i s = (st1, p1, s1)" by (metis prod_cases3)
  note run = ensure_mapped_run [OF m assms(2)]
  let ?r = "pl_mappings p1 ! i" and ?a = "mr_mapped_base (pl_mappings p1 ! i) + of_nat off"
  obtain evs where ev: "mm_trace s1 = mm_trace s @ evs" "accesses evs = []" using run(1) by (auto simp: appends_def)
  consider (no) "p' = p1" "s' = s1" "v = None" "st \<noteq> BVSTK_OK"
    | (yes) w where "p' = p1" "s' = mm_say (OsLoad ?a w) s1" "v = Some w" "st = BVSTK_OK" "st1 = BVSTK_OK"
        "check_access (Some ?r) off = None"
    using assms(1) m by (cases st1) (auto simp: bvstk_pl_service_read32_def bvstk_mmio_read32_def Let_def split: if_splits)
  note cases = this
  show "pl_wf p' (mm_trace s')"
    using run(2) pl_wf_mono [OF run(2)] by (cases rule: cases) (auto simp: mm_say_def)
  show "st = BVSTK_OK \<longleftrightarrow> v \<noteq> None" by (cases rule: cases) auto
  show "appends (\<lambda>evs. case v of None \<Rightarrow> accesses evs = []
       | Some w \<Rightarrow> \<exists>a. at_region (mm_trace s') i off a \<and> accesses evs = [OsLoad a w]) s s'"
  proof (cases rule: cases)
    case no
    then show ?thesis using run(1) by simp
  next
    case yes
    have "at_region (mm_trace s1) i off ?a" using mapped_access [OF run(2) _ _ yes(6)] run(3) yes(5) by simp
    then have "at_region (mm_trace s') i off ?a" using at_region_mono yes(2) by (simp add: mm_say_def)
    then show ?thesis using yes ev by (auto simp: appends_def mm_say_def intro!: exI [of _ "evs @ [OsLoad ?a w]"])
  qed
qed

lemma pl_write_run:
  assumes "bvstk_pl_service_write32 e p i off w s = (st, p', s')" "pl_wf p (mm_trace s)"
  shows "pl_wf p' (mm_trace s')"
    "appends (\<lambda>evs. if st = BVSTK_OK then \<exists>a. at_region (mm_trace s') i off a \<and> accesses evs = [OsStore a w]
       else accesses evs = []) s s'"
proof -
  obtain st1 p1 s1 where m: "ensure_mapped e p i s = (st1, p1, s1)" by (metis prod_cases3)
  note run = ensure_mapped_run [OF m assms(2)]
  let ?r = "pl_mappings p1 ! i" and ?a = "mr_mapped_base (pl_mappings p1 ! i) + of_nat off"
  obtain evs where ev: "mm_trace s1 = mm_trace s @ evs" "accesses evs = []" using run(1) by (auto simp: appends_def)
  consider (no) "p' = p1" "s' = s1" "st \<noteq> BVSTK_OK"
    | (yes) "p' = p1" "s' = mm_say (OsStore ?a w) s1" "st = BVSTK_OK" "st1 = BVSTK_OK" "check_access (Some ?r) off = None"
    using assms(1) m by (cases st1) (auto simp: bvstk_pl_service_write32_def bvstk_mmio_write32_def split: if_splits option.splits)
  note cases = this
  show "pl_wf p' (mm_trace s')"
    using run(2) pl_wf_mono [OF run(2)] by (cases rule: cases) (auto simp: mm_say_def)
  show "appends (\<lambda>evs. if st = BVSTK_OK then \<exists>a. at_region (mm_trace s') i off a \<and> accesses evs = [OsStore a w]
       else accesses evs = []) s s'"
  proof (cases rule: cases)
    case no
    then show ?thesis using run(1) by simp
  next
    case yes
    have "at_region (mm_trace s1) i off ?a" using mapped_access [OF run(2) _ _ yes(5)] run(3) yes(4) by simp
    then have "at_region (mm_trace s') i off ?a" using at_region_mono yes(2) by (simp add: mm_say_def)
    then show ?thesis using yes ev by (auto simp: appends_def mm_say_def intro!: exI [of _ "evs @ [OsStore ?a w]"])
  qed
qed

end
