(* ===== verification/Mmio_Poll.thy ===== *)
theory Mmio_Poll
  imports Pl_Service "HOL-Library.Monad_Syntax"
begin

text \<open>
  What the drivers of the PL cores share: the register access helpers and the mutex calls each of
  them declares in the same words, and their polling loop, which probes the core, gives up when the
  time is over and sleeps a millisecond otherwise. The loop is a partial function in the option
  monad: \<open>poll_run\<close> shows that it returns for every clock that runs.
\<close>

section \<open>Helpers\<close>

definition spi_read32 :: "mmio_env \<Rightarrow> bvstk_mmio_region_t \<Rightarrow> nat \<Rightarrow> mmio_st \<Rightarrow> bvstk_status_t \<times> u32 option \<times> mmio_st" where
  "spi_read32 e region off s =
    (case bvstk_mmio_read32 e (Some region) off True s of
       (Inr v, s1) \<Rightarrow> (BVSTK_OK, Some v, s1) | (Inl err, s1) \<Rightarrow> (BVSTK_ERR_IO, None, s1))"

definition spi_write32 :: "bvstk_mmio_region_t \<Rightarrow> nat \<Rightarrow> u32 \<Rightarrow> mmio_st \<Rightarrow> bvstk_status_t \<times> mmio_st" where
  "spi_write32 region off v s =
    (case bvstk_mmio_write32 (Some region) off v s of
       (None, s1) \<Rightarrow> (BVSTK_OK, s1) | (Some err, s1) \<Rightarrow> (BVSTK_ERR_IO, s1))"

definition bvstk_mutex_lock :: "mmio_env \<Rightarrow> bool \<times> bool \<Rightarrow> u32 \<Rightarrow> mmio_st \<Rightarrow> bvstk_status_t \<times> mmio_st" where
  "bvstk_mutex_lock e mutex timeout_ms s =
    (if \<not> fst mutex then (BVSTK_OK, s)
     else let st = os_lock e (mm_trace s) timeout_ms in (st, mm_say (OsLock timeout_ms st) s))"

definition bvstk_mutex_unlock :: "bool \<times> bool \<Rightarrow> mmio_st \<Rightarrow> mmio_st" where
  "bvstk_mutex_unlock mutex s = (if snd mutex then mm_say OsUnlock s else s)"

section \<open>Polling\<close>

text \<open>A probe ends the loop with a result or goes on; \<open>late\<close> is the result when the time is over.\<close>

partial_function (option) poll_loop :: "mmio_env \<Rightarrow> 'a \<Rightarrow> (mmio_st \<Rightarrow> 'a option \<times> mmio_st) \<Rightarrow> u64 \<Rightarrow> u32 \<Rightarrow>
    mmio_st \<Rightarrow> ('a \<times> mmio_st) option" where
  "poll_loop e late probe start timeout_ms s =
    (case probe s of
       (Some st, s1) \<Rightarrow> Some (st, s1)
     | (None, s1) \<Rightarrow> (case bvstk_platform_now_ms e s1 of (t, s2) \<Rightarrow>
           if t - start \<ge> ucast timeout_ms then Some (late, s2)
           else poll_loop e late probe start timeout_ms (bvstk_platform_sleep_ms 1 s2)))"

text \<open>The probe that reads a status register and is content when it is \<open>ready\<close>.\<close>

definition csr_probe :: "mmio_env \<Rightarrow> bvstk_mmio_region_t \<Rightarrow> nat \<Rightarrow> (u32 \<Rightarrow> bool) \<Rightarrow> mmio_st \<Rightarrow> bvstk_status_t option \<times> mmio_st" where
  "csr_probe e region off ready s =
    (case spi_read32 e region off s of
       (st, None, s1) \<Rightarrow> (Some st, s1)
     | (st, Some csr, s1) \<Rightarrow> (if ready csr then Some BVSTK_OK else None, s1))"

section \<open>The clock, and why a transfer ends\<close>

text \<open>Time never goes back, a sleep lasts at least as long as asked, and no single event takes
  longer than a second more than that.\<close>

fun mm_cost :: "mmio_event \<Rightarrow> nat" where
  "mm_cost (OsSleep n) = n"
| "mm_cost _ = 0"

definition mm_clock_ok :: "mmio_env \<Rightarrow> bool" where
  "mm_clock_ok e \<longleftrightarrow> (\<forall>tr ev. os_now e tr + mm_cost ev \<le> os_now e (tr @ [ev]) \<and>
     os_now e (tr @ [ev]) \<le> os_now e tr + mm_cost ev + 1000)"

lemma mm_clock_step:
  assumes "mm_clock_ok e"
  shows "os_now e (mm_trace s) + mm_cost ev \<le> os_now e (mm_trace (mm_say ev s))"
    "os_now e (mm_trace (mm_say ev s)) \<le> os_now e (mm_trace s) + mm_cost ev + 1000"
  using assms by (simp_all add: mm_clock_ok_def mm_say_def)

lemma spi_read_cases:
  assumes "spi_read32 e m off s = (st, v, s')"
  shows "v = None \<and> s' = s \<and> st = BVSTK_ERR_IO \<or>
    (\<exists>w. v = Some w \<and> st = BVSTK_OK \<and> s' = mm_say (OsLoad (mr_mapped_base m + of_nat off) w) s \<and> check_access (Some m) off = None)"
  using assms by (auto simp: spi_read32_def bvstk_mmio_read32_def Let_def split: if_splits)

lemma spi_write_cases:
  assumes "spi_write32 m off v s = (st, s')"
  shows "st = BVSTK_ERR_IO \<and> s' = s \<or>
    st = BVSTK_OK \<and> s' = mm_say (OsStore (mr_mapped_base m + of_nat off) v) s \<and> check_access (Some m) off = None"
  using assms by (auto simp: spi_write32_def bvstk_mmio_write32_def split: option.splits)

lemma appends_refl: "P [] \<Longrightarrow> appends P s s"
  by (simp add: appends_def)

lemma appends_trans:
  assumes "appends P a b" "appends P b c" "\<And>xs ys. P xs \<Longrightarrow> P ys \<Longrightarrow> P (xs @ ys)"
  shows "appends P a c"
  using assms by (fastforce simp: appends_def)

lemma appends_say: "P [ev] \<Longrightarrow> appends P s (mm_say ev s)"
  by (simp add: appends_def mm_say_def)

lemma appends_mono: "appends P s s' \<Longrightarrow> (\<And>evs. P evs \<Longrightarrow> Q evs) \<Longrightarrow> appends Q s s'"
  by (auto simp: appends_def)

text \<open>A probe that adds at most two quick events, each list of them in \<open>P\<close>.\<close>

definition probe_ok :: "(mmio_trace \<Rightarrow> bool) \<Rightarrow> (mmio_st \<Rightarrow> 'a option \<times> mmio_st) \<Rightarrow> bool" where
  "probe_ok P probe \<longleftrightarrow> (\<forall>s. \<exists>evs. mm_trace (snd (probe s)) = mm_trace s @ evs \<and> length evs \<le> 2 \<and>
     (\<forall>ev \<in> set evs. mm_cost ev = 0) \<and> P evs)"

lemma mm_clock_quick:
  assumes "mm_clock_ok e" "\<forall>ev \<in> set evs. mm_cost ev = 0"
  shows "os_now e tr \<le> os_now e (tr @ evs) \<and> os_now e (tr @ evs) \<le> os_now e tr + 1000 * length evs"
  using assms(2)
proof (induction evs rule: rev_induct)
  case (snoc ev evs)
  have "os_now e (tr @ evs) + mm_cost ev \<le> os_now e ((tr @ evs) @ [ev])"
    "os_now e ((tr @ evs) @ [ev]) \<le> os_now e (tr @ evs) + mm_cost ev + 1000"
    using assms(1) unfolding mm_clock_ok_def by blast+
  then show ?case using snoc by simp
qed simp

text \<open>The loop ends. Its last probe, if it did not time out, gave the status; and the time it took is bounded.\<close>

lemma poll_run:
  assumes e: "mm_clock_ok e" and p: "probe_ok P probe" and P: "P []" "\<And>xs ys. P xs \<Longrightarrow> P ys \<Longrightarrow> P (xs @ ys)" "P [OsNow]" "P [OsSleep 1]"
  shows "t0 \<le> os_now e (mm_trace s) \<Longrightarrow> os_now e (mm_trace s) \<le> t0 + 2 ^ 33 \<Longrightarrow>
    \<exists>st s' s1. poll_loop e late probe (of_nat t0) limit s = Some (st, s') \<and> appends P s s' \<and>
      (st = late \<or> appends P s s1 \<and> probe s1 = (Some st, s')) \<and>
      os_now e (mm_trace s) \<le> os_now e (mm_trace s') \<and>
      os_now e (mm_trace s') \<le> max (os_now e (mm_trace s)) (t0 + 2 ^ 32 + 5000) + 3000"
proof (induction "t0 + 2 ^ 33 - os_now e (mm_trace s)" arbitrary: s rule: less_induct)
  case less
  obtain r s1 where pr: "probe s = (r, s1)" by fastforce
  obtain evs where evs: "mm_trace s1 = mm_trace s @ evs" "length evs \<le> 2" "\<forall>ev \<in> set evs. mm_cost ev = 0" "P evs"
    using p pr unfolding probe_ok_def by (metis snd_conv)
  have q: "os_now e (mm_trace s) \<le> os_now e (mm_trace s1)" "os_now e (mm_trace s1) \<le> os_now e (mm_trace s) + 2000"
    using mm_clock_quick [OF e evs(3), of "mm_trace s"] evs(1,2) by simp_all
  have a1: "appends P s s1" using evs by (auto simp: appends_def)
  show ?case
  proof (cases r)
    case (Some st)
    then have "poll_loop e late probe (of_nat t0) limit s = Some (st, s1)" using pr by (subst poll_loop.simps) simp
    moreover have "appends P s s" using P(1) by (rule appends_refl)
    ultimately show ?thesis using a1 pr Some q by fastforce
  next
    case None
    define s2 where "s2 = mm_say OsNow s1"
    define s3 where "s3 = mm_say (OsSleep 1) s2"
    note t2 = mm_clock_step [OF e, where s = s1 and ev = OsNow]
    note t3 = mm_clock_step [OF e, where s = s2 and ev = "OsSleep 1"]
    define n where "n = os_now e (mm_trace s1) - t0"
    have n: "n < 2 ^ 64" "(of_nat (os_now e (mm_trace s1)) :: u64) - of_nat t0 = of_nat n"
      using q less.prems by (simp_all add: n_def of_nat_diff)
    have un: "unat (of_nat n :: u64) = n" using n(1) by (simp add: unat_of_nat_small)
    have eq: "poll_loop e late probe (of_nat t0) limit s = (if of_nat n \<ge> (ucast limit :: u64) then Some (late, s2)
        else poll_loop e late probe (of_nat t0) limit s3)"
      using pr None n(2) by (subst poll_loop.simps) (simp add: bvstk_platform_now_ms_def bvstk_platform_sleep_ms_def s2_def s3_def)
    have a2: "appends P s s2" unfolding s2_def using appends_trans [OF a1 appends_say] P by blast
    show ?thesis
    proof (cases "of_nat n \<ge> (ucast limit :: u64)")
      case True
      then show ?thesis using a2 eq q t2 by (fastforce simp: s2_def)
    next
      case False
      then have "of_nat n < (ucast limit :: u64)" by (simp add: not_le)
      moreover have "unat (ucast limit :: u64) = unat limit"
        using unat_less_two_power [of limit] by (simp add: unsigned_ucast_eq take_bit_nat_eq_self)
      ultimately have "n < unat limit" using un by (simp add: word_less_nat_alt)
      then have "n < 2 ^ 32" using unat_less_two_power [of limit] by simp
      then have b: "os_now e (mm_trace s3) \<le> t0 + 2 ^ 32 + 3000"
        using t2 t3 q less.prems by (simp add: n_def s2_def s3_def)
      have later: "os_now e (mm_trace s) < os_now e (mm_trace s3)"
        using q t2 t3 by (simp add: s2_def s3_def)
      then have "t0 + 2 ^ 33 - os_now e (mm_trace s3) < t0 + 2 ^ 33 - os_now e (mm_trace s)"
        using b by simp
      moreover have "t0 \<le> os_now e (mm_trace s3)" "os_now e (mm_trace s3) \<le> t0 + 2 ^ 33" using b later less.prems by simp_all
      ultimately obtain st s' sl where w: "poll_loop e late probe (of_nat t0) limit s3 = Some (st, s')" "appends P s3 s'"
        "st = late \<or> appends P s3 sl \<and> probe sl = (Some st, s')"
        "os_now e (mm_trace s3) \<le> os_now e (mm_trace s')"
        "os_now e (mm_trace s') \<le> max (os_now e (mm_trace s3)) (t0 + 2 ^ 32 + 5000) + 3000"
        using less.hyps [of s3] by blast
      have a3: "appends P s s3" unfolding s3_def using appends_trans [OF a2 appends_say] P by blast
      have "appends P s s'" "appends P s3 sl \<Longrightarrow> appends P s sl" using appends_trans [OF a3] w(2) P(2) by blast+
      moreover have "os_now e (mm_trace s') \<le> max (os_now e (mm_trace s)) (t0 + 2 ^ 32 + 5000) + 3000"
        using w(5) b by simp
      ultimately show ?thesis using w(1,3,4) later False eq by (intro exI [of _ st] exI [of _ s'] exI [of _ sl]) auto
    qed
  qed
qed

lemma csr_probe_ok:
  assumes "P []" "\<And>v. check_access (Some region) off = None \<Longrightarrow> P [OsLoad (mr_mapped_base region + of_nat off) v]"
  shows "probe_ok P (csr_probe e region off ready)"
  unfolding probe_ok_def
proof
  fix s
  obtain st v s1 where r: "spi_read32 e region off s = (st, v, s1)" by (metis prod_cases3)
  have "snd (csr_probe e region off ready s) = s1" using r by (simp add: csr_probe_def split: option.split)
  with spi_read_cases [OF r] show "\<exists>evs. mm_trace (snd (csr_probe e region off ready s)) = mm_trace s @ evs \<and> length evs \<le> 2 \<and>
     (\<forall>ev \<in> set evs. mm_cost ev = 0) \<and> P evs"
    using assms by (auto simp: mm_say_def)
qed

section \<open>Traces of register accesses\<close>

text \<open>The registers stored, in order.\<close>

fun store_of :: "mmio_event \<Rightarrow> (u32 \<times> u32) list" where
  "store_of (OsStore a v) = [(a, v)]"
| "store_of _ = []"

definition stores :: "mmio_trace \<Rightarrow> (u32 \<times> u32) list" where
  "stores evs = concat (map store_of evs)"

lemma stores_simps [simp]:
  "stores [] = []" "stores (xs @ ys) = stores xs @ stores ys" "stores (ev # xs) = store_of ev @ stores xs"
  by (simp_all add: stores_def)

definition reg_addr :: "bvstk_mmio_region_t \<Rightarrow> nat \<Rightarrow> u32" where
  "reg_addr r off = mr_mapped_base r + of_nat off"

definition says :: "mmio_event list \<Rightarrow> mmio_st \<Rightarrow> mmio_st" where
  "says evs s = s \<lparr> mm_trace := mm_trace s @ evs \<rparr>"

lemma says_simps:
  "says ys (says xs s) = says (xs @ ys) s" "mm_say ev s = says [ev] s" "mm_trace (says xs s) = mm_trace s @ xs"
  by (simp_all add: says_def mm_say_def)

definition accessible :: "bvstk_mmio_region_t \<Rightarrow> nat \<Rightarrow> bool" where
  "accessible r off \<longleftrightarrow> mr_mapped_base r \<noteq> 0 \<and> off mod 4 = 0 \<and> off + 4 \<le> mr_size r"

lemma accessible_check: "accessible r off \<Longrightarrow> check_access (Some r) off = None"
proof -
  have "off mod 4 = off AND 3" using take_bit_eq_mask [of 2 off] by (simp add: take_bit_eq_mod mask_eq_exp_minus_1)
  then show "accessible r off \<Longrightarrow> check_access (Some r) off = None" by (auto simp: accessible_def check_access_def)
qed

lemma rd_now:
  "accessible r off \<Longrightarrow> spi_read32 e r off s =
    (BVSTK_OK, Some (os_load e (mm_trace s) (reg_addr r off)), says [OsLoad (reg_addr r off) (os_load e (mm_trace s) (reg_addr r off))] s)"
  by (simp add: spi_read32_def bvstk_mmio_read32_def accessible_check Let_def reg_addr_def says_simps)

lemma rd_ok:
  "accessible r off \<Longrightarrow> \<exists>v. spi_read32 e r off s = (BVSTK_OK, Some v, says [OsLoad (reg_addr r off) v] s)"
  by (simp add: rd_now)

lemma wr_ok: "accessible r off \<Longrightarrow> spi_write32 r off v s = (BVSTK_OK, says [OsStore (reg_addr r off) v] s)"
  by (simp add: spi_write32_def bvstk_mmio_write32_def accessible_check reg_addr_def says_simps)

text \<open>What a waiting loop adds.\<close>

definition waits :: "u32 \<Rightarrow> mmio_trace \<Rightarrow> bool" where
  "waits a evs \<longleftrightarrow> (\<forall>ev \<in> set evs. ev = OsNow \<or> ev = OsSleep 1 \<or> (\<exists>v. ev = OsLoad a v))"

lemma waits_stores: "waits a evs \<Longrightarrow> stores evs = []"
  by (induction evs) (auto simp: waits_def)

lemma csr_poll_run:
  assumes e: "mm_clock_ok e" and r: "accessible r off"
    and t: "t0 \<le> os_now e (mm_trace s)" "os_now e (mm_trace s) \<le> t0 + 2 ^ 33"
  shows "\<exists>st s' evs. poll_loop e BVSTK_ERR_TIMEOUT (csr_probe e r off ready) (of_nat t0) limit s = Some (st, s') \<and>
      mm_trace s' = mm_trace s @ evs \<and> waits (reg_addr r off) evs \<and>
      (st = BVSTK_ERR_TIMEOUT \<or> st = BVSTK_OK \<and> (\<exists>pre w. evs = pre @ [OsLoad (reg_addr r off) w] \<and> ready w)) \<and>
      os_now e (mm_trace s) \<le> os_now e (mm_trace s') \<and>
      os_now e (mm_trace s') \<le> max (os_now e (mm_trace s)) (t0 + 2 ^ 32 + 5000) + 3000"
proof -
  let ?P = "waits (reg_addr r off)"
  have p: "probe_ok ?P (csr_probe e r off ready)"
    by (rule csr_probe_ok) (simp_all add: waits_def reg_addr_def)
  have P: "?P []" "\<And>xs ys. ?P xs \<Longrightarrow> ?P ys \<Longrightarrow> ?P (xs @ ys)" "?P [OsNow]" "?P [OsSleep 1]"
    by (auto simp: waits_def)
  from poll_run [OF e p P t, of BVSTK_ERR_TIMEOUT limit] obtain st s' s1 where
    w: "poll_loop e BVSTK_ERR_TIMEOUT (csr_probe e r off ready) (of_nat t0) limit s = Some (st, s')" "appends ?P s s'"
      "st = BVSTK_ERR_TIMEOUT \<or> appends ?P s s1 \<and> csr_probe e r off ready s1 = (Some st, s')"
      "os_now e (mm_trace s) \<le> os_now e (mm_trace s')"
      "os_now e (mm_trace s') \<le> max (os_now e (mm_trace s)) (t0 + 2 ^ 32 + 5000) + 3000" by blast
  obtain evs where evs: "mm_trace s' = mm_trace s @ evs" "?P evs" using w(2) by (auto simp: appends_def)
  have "st = BVSTK_ERR_TIMEOUT \<or> st = BVSTK_OK \<and> (\<exists>pre w. evs = pre @ [OsLoad (reg_addr r off) w] \<and> ready w)"
  proof (cases "st = BVSTK_ERR_TIMEOUT")
    case False
    then obtain pre where pre: "mm_trace s1 = mm_trace s @ pre" and pr: "csr_probe e r off ready s1 = (Some st, s')"
      using w(3) by (auto simp: appends_def)
    obtain v where "spi_read32 e r off s1 = (BVSTK_OK, Some v, says [OsLoad (reg_addr r off) v] s1)" using rd_ok [OF r] by blast
    then have "st = BVSTK_OK" "ready v" "s' = says [OsLoad (reg_addr r off) v] s1"
      using pr by (auto simp: csr_probe_def split: if_splits)
    then show ?thesis using pre evs(1) by (auto simp: says_simps)
  qed simp
  with w evs show ?thesis by blast
qed

definition calm :: "mmio_trace \<Rightarrow> bool" where
  "calm evs \<longleftrightarrow> (\<forall>ev \<in> set evs. ev \<noteq> OsUnlock \<and> (\<forall>t st. ev \<noteq> OsLock t st))"

lemma calm_simps [simp]: "calm []" "calm (xs @ ys) \<longleftrightarrow> calm xs \<and> calm ys"
  "calm (ev # xs) \<longleftrightarrow> ev \<noteq> OsUnlock \<and> (\<forall>t st. ev \<noteq> OsLock t st) \<and> calm xs"
  by (auto simp: calm_def)

lemma waits_calm: "waits a evs \<Longrightarrow> calm evs"
  by (auto simp: waits_def calm_def)

text \<open>Every mutex taken was given back.\<close>

fun took :: "mmio_event \<Rightarrow> bool" where
  "took (OsLock t st) = (st = BVSTK_OK)"
| "took _ = False"

definition mutex_free :: "mmio_trace \<Rightarrow> bool" where
  "mutex_free evs \<longleftrightarrow> length (filter took evs) = length (filter (\<lambda>ev. ev = OsUnlock) evs)"

lemma calm_free: "calm evs \<Longrightarrow> filter took evs = [] \<and> filter (\<lambda>ev. ev = OsUnlock) evs = []"
proof (induction evs)
  case (Cons ev evs)
  then show ?case by (cases ev) auto
qed simp

end
