(* ===== verification/Spi_Core.thy ===== *)
theory Spi_Core
  imports Mmio_Poll
begin

text \<open>
  The SPI master core of \<open>src/drivers/pl/spi/bvstk_spi_core.c\<close>: configuration, and a transfer
  that fills the transmit FIFO, starts the core, waits until both FIFOs are empty and copies the
  received words out of the shared memory. The waiting loop is the polling loop of \<open>Mmio_Poll\<close>. The clock
  and mutex callbacks are answered by the environment; the mutex is the pair of flags that tell which callbacks are installed.
\<close>

section \<open>Registers and state\<close>

abbreviation (input) BVSTK_SPI_CSR_OFFSET :: nat where "BVSTK_SPI_CSR_OFFSET \<equiv> 0x00"
abbreviation (input) BVSTK_SPI_IRQ_OFFSET :: nat where "BVSTK_SPI_IRQ_OFFSET \<equiv> 0x04"
abbreviation (input) BVSTK_SPI_PACKET_OFFSET :: nat where "BVSTK_SPI_PACKET_OFFSET \<equiv> 0x08"
abbreviation (input) BVSTK_SPI_TIMEOUT_OFFSET :: nat where "BVSTK_SPI_TIMEOUT_OFFSET \<equiv> 0x0C"
abbreviation (input) BVSTK_SPI_TX_FIFO_OFFSET :: nat where "BVSTK_SPI_TX_FIFO_OFFSET \<equiv> 0x10"
abbreviation (input) BVSTK_SPI_SIGNATURE_OFFSET :: nat where "BVSTK_SPI_SIGNATURE_OFFSET \<equiv> 0x18"
abbreviation (input) BVSTK_SPI_MODE_MULTI :: u8 where "BVSTK_SPI_MODE_MULTI \<equiv> 2"
abbreviation (input) BVSTK_SPI_DEFAULT_TIMEOUT_MS :: u32 where "BVSTK_SPI_DEFAULT_TIMEOUT_MS \<equiv> 100"
abbreviation (input) BVSTK_SPI_MAX_WORDS :: nat where "BVSTK_SPI_MAX_WORDS \<equiv> 1024"

record bvstk_spi_core_config_t =
  sc_packets_mode :: u8
  sc_timeout_ticks :: u32
  sc_p_clk_div :: u16
  sc_read_enable :: bool

record bvstk_spi_core_t =
  sp_master :: bvstk_mmio_region_t
  sp_bram :: bvstk_mmio_region_t
  sp_mutex :: "bool \<times> bool"
  sp_config :: bvstk_spi_core_config_t
  sp_initialized :: bool

definition zero_spi_core :: bvstk_spi_core_t where
  "zero_spi_core = \<lparr> sp_master = zero_region, sp_bram = zero_region, sp_mutex = (False, False),
     sp_config = \<lparr> sc_packets_mode = 0, sc_timeout_ticks = 0, sc_p_clk_div = 0, sc_read_enable = False \<rparr>,
     sp_initialized = False \<rparr>"

section \<open>Helpers\<close>

definition normalize_config :: "bvstk_spi_core_config_t option \<Rightarrow> bvstk_status_t \<times> bvstk_spi_core_config_t option" where
  "normalize_config input =
    (case input of
       None \<Rightarrow> (BVSTK_ERR_MALFORMED, None)
     | Some c \<Rightarrow>
         let c1 = c \<lparr> sc_packets_mode := sc_packets_mode c AND 0x03 \<rparr>;
             c2 = (if sc_packets_mode c1 = 0 then c1 \<lparr> sc_packets_mode := BVSTK_SPI_MODE_MULTI \<rparr> else c1);
             c3 = (if sc_timeout_ticks c2 = 0 then c2 \<lparr> sc_timeout_ticks := 1 \<rparr> else c2);
             c4 = (if sc_p_clk_div c3 < 2 then c3 \<lparr> sc_p_clk_div := 2 \<rparr> else c3);
             c5 = (if sc_p_clk_div c4 AND 1 \<noteq> 0 then c4 \<lparr> sc_p_clk_div := sc_p_clk_div c4 + 1 \<rparr> else c4)
         in (BVSTK_OK, Some c5))"

definition effective_timeout :: "u32 \<Rightarrow> u32" where
  "effective_timeout timeout_ms = (if timeout_ms = 0 then BVSTK_SPI_DEFAULT_TIMEOUT_MS else timeout_ms)"

text \<open>The loop of \<open>wait_done\<close>: until the two FIFOs are empty.\<close>

definition wait_loop :: "mmio_env \<Rightarrow> bvstk_mmio_region_t \<Rightarrow> u64 \<Rightarrow> u32 \<Rightarrow> mmio_st \<Rightarrow>
    (bvstk_status_t \<times> mmio_st) option" where
  "wait_loop e master start timeout_ms s =
     poll_loop e BVSTK_ERR_TIMEOUT (csr_probe e master BVSTK_SPI_CSR_OFFSET (\<lambda>csr. csr AND 0x0A = 0x0A)) start timeout_ms s"

definition wait_done :: "mmio_env \<Rightarrow> bvstk_spi_core_t \<Rightarrow> u32 \<Rightarrow> mmio_st \<Rightarrow> (bvstk_status_t \<times> mmio_st) option" where
  "wait_done e core timeout_ms s =
    (case bvstk_platform_now_ms e s of (start, s1) \<Rightarrow>
       wait_loop e (sp_master core) start (effective_timeout timeout_ms) s1)"

definition clear_irq :: "bvstk_spi_core_t \<Rightarrow> mmio_st \<Rightarrow> mmio_st" where
  "clear_irq core s =
     snd (spi_write32 (sp_master core) BVSTK_SPI_IRQ_OFFSET 0 (snd (spi_write32 (sp_master core) BVSTK_SPI_IRQ_OFFSET 1 s)))"

section \<open>Operations\<close>

definition bvstk_spi_core_init :: "mmio_env \<Rightarrow> bvstk_spi_core_t option \<Rightarrow> bvstk_spi_core_config_t option \<Rightarrow>
    (bool \<times> bool) option \<Rightarrow> mmio_st \<Rightarrow> bvstk_status_t \<times> bvstk_spi_core_t option \<times> mmio_st" where
  "bvstk_spi_core_init e core config mutex s =
    (case (core, normalize_config config) of
       (Some _, BVSTK_OK, Some normalized) \<Rightarrow>
         let c = zero_spi_core \<lparr> sp_config := normalized, sp_mutex := (case mutex of None \<Rightarrow> (False, False) | Some m \<Rightarrow> m) \<rparr> in
         (case bvstk_mmio_region_open e (Some (sp_master c)) BVSTK_SPI_MASTER_BASE BVSTK_SPI_MASTER_SIZE s of
            (Some err, r, s1) \<Rightarrow> (BVSTK_ERR_IO, Some (c \<lparr> sp_master := the r \<rparr>), s1)
          | (None, r, s1) \<Rightarrow>
              let c1 = c \<lparr> sp_master := the r \<rparr> in
              (case bvstk_mmio_region_open e (Some (sp_bram c1)) BVSTK_SPI_BRAM_BASE BVSTK_SPI_BRAM_SIZE s1 of
                 (Some err, b, s2) \<Rightarrow>
                   let (m, s3) = bvstk_mmio_region_close (Some (sp_master c1)) s2
                   in (BVSTK_ERR_IO, Some (c1 \<lparr> sp_bram := the b, sp_master := the m \<rparr>), s3)
               | (None, b, s2) \<Rightarrow>
                   let c2 = c1 \<lparr> sp_bram := the b, sp_initialized := True \<rparr>;
                       (_, s3) = spi_write32 (sp_master c2) BVSTK_SPI_TIMEOUT_OFFSET (sc_timeout_ticks (sp_config c2)) s2;
                       (_, s4) = spi_write32 (sp_master c2) BVSTK_SPI_SIGNATURE_OFFSET (ucast (sc_p_clk_div (sp_config c2))) s3
                   in (BVSTK_OK, Some c2, clear_irq c2 s4)))
     | _ \<Rightarrow> (BVSTK_ERR_MALFORMED, core, s))"

definition bvstk_spi_core_shutdown :: "bvstk_spi_core_t option \<Rightarrow> mmio_st \<Rightarrow> bvstk_spi_core_t option \<times> mmio_st" where
  "bvstk_spi_core_shutdown core s =
    (case core of
       None \<Rightarrow> (None, s)
     | Some c \<Rightarrow> (Some zero_spi_core,
         if sp_initialized c
         then snd (bvstk_mmio_region_close (Some (sp_master c)) (snd (bvstk_mmio_region_close (Some (sp_bram c)) s)))
         else s))"

definition bvstk_spi_core_set_config :: "bvstk_spi_core_t option \<Rightarrow> bvstk_spi_core_config_t option \<Rightarrow> mmio_st \<Rightarrow>
    bvstk_status_t \<times> bvstk_spi_core_t option \<times> mmio_st" where
  "bvstk_spi_core_set_config core config s =
    (case core of
       None \<Rightarrow> (BVSTK_ERR_NOT_READY, core, s)
     | Some c \<Rightarrow>
         if \<not> sp_initialized c then (BVSTK_ERR_NOT_READY, core, s)
         else (case normalize_config config of
             (BVSTK_OK, Some normalized) \<Rightarrow>
               let c1 = c \<lparr> sp_config := normalized \<rparr>;
                   (st, s1) = spi_write32 (sp_master c1) BVSTK_SPI_TIMEOUT_OFFSET (sc_timeout_ticks normalized) s;
                   (st2, s2) = (if st = BVSTK_OK
                      then spi_write32 (sp_master c1) BVSTK_SPI_SIGNATURE_OFFSET (ucast (sc_p_clk_div normalized)) s1
                      else (st, s1))
               in (st2, Some c1, s2)
           | (st, _) \<Rightarrow> (st, core, s)))"

definition bvstk_spi_core_get_config :: "bvstk_spi_core_t option \<Rightarrow> bool \<Rightarrow> bvstk_status_t \<times> bvstk_spi_core_config_t option" where
  "bvstk_spi_core_get_config core out =
    (case core of
       None \<Rightarrow> (BVSTK_ERR_NOT_READY, None)
     | Some c \<Rightarrow> if \<not> sp_initialized c then (BVSTK_ERR_NOT_READY, None)
         else if \<not> out then (BVSTK_ERR_MALFORMED, None) else (BVSTK_OK, Some (sp_config c)))"

text \<open>The guarded writes of a transfer: each happens when everything before it succeeded.\<close>

fun spi_writes :: "bvstk_mmio_region_t \<Rightarrow> (nat \<times> u32) list \<Rightarrow> bvstk_status_t \<Rightarrow> mmio_st \<Rightarrow> bvstk_status_t \<times> mmio_st" where
  "spi_writes m [] st s = (st, s)"
| "spi_writes m ((off, v) # ws) st s =
    (if st \<noteq> BVSTK_OK then (st, s)
     else case spi_write32 m off v s of (st1, s1) \<Rightarrow> spi_writes m ws st1 s1)"

text \<open>The loop that copies \<open>n\<close> received words from index \<open>i\<close> on.\<close>

fun receive_words :: "mmio_env \<Rightarrow> bvstk_mmio_region_t \<Rightarrow> nat \<Rightarrow> nat \<Rightarrow> u32 list \<Rightarrow> mmio_st \<Rightarrow>
    bvstk_status_t \<times> u32 list \<times> mmio_st" where
  "receive_words e bram 0 i rx s = (BVSTK_OK, rx, s)"
| "receive_words e bram (Suc n) i rx s =
    (case spi_read32 e bram (i * 4) s of
       (st, Some v, s1) \<Rightarrow> receive_words e bram n (i + 1) (rx[i := v]) s1
     | (st, None, s1) \<Rightarrow> (st, rx, s1))"

definition transfer_writes :: "bvstk_spi_core_config_t \<Rightarrow> u32 list \<Rightarrow> nat \<Rightarrow> (nat \<times> u32) list" where
  "transfer_writes c tx_words tx_count =
    (let packet_count = of_nat (tx_count * 4);
         packet_reg = push_bit 2 packet_count OR (ucast (sc_packets_mode c) AND 0x03) in
     [(BVSTK_SPI_TIMEOUT_OFFSET, sc_timeout_ticks c), (BVSTK_SPI_SIGNATURE_OFFSET, ucast (sc_p_clk_div c)),
      (BVSTK_SPI_PACKET_OFFSET, packet_reg)] @
     map (\<lambda>w. (BVSTK_SPI_TX_FIFO_OFFSET, w)) (take tx_count tx_words) @
     [(BVSTK_SPI_CSR_OFFSET, push_bit 1 1 OR push_bit 2 (if sc_read_enable c then 1 else 0))])"

definition bvstk_spi_core_transfer :: "mmio_env \<Rightarrow> bvstk_spi_core_t option \<Rightarrow> u32 list option \<Rightarrow> nat \<Rightarrow> u32 list option \<Rightarrow>
    nat \<Rightarrow> u32 \<Rightarrow> mmio_st \<Rightarrow> (bvstk_status_t \<times> u32 list option \<times> mmio_st) option" where
  "bvstk_spi_core_transfer e core tx_words tx_count rx_words rx_capacity timeout_ms s =
    (case core of
       None \<Rightarrow> Some (BVSTK_ERR_NOT_READY, rx_words, s)
     | Some c \<Rightarrow>
         if \<not> sp_initialized c then Some (BVSTK_ERR_NOT_READY, rx_words, s)
         else if tx_words = None \<or> tx_count = 0 \<or> tx_count > BVSTK_SPI_MAX_WORDS
         then Some (BVSTK_ERR_RANGE, rx_words, s)
         else (case bvstk_mutex_lock e (sp_mutex c) timeout_ms s of
             (st, s1) \<Rightarrow>
               if st \<noteq> BVSTK_OK then Some (st, rx_words, s1)
               else do {
                 let (st2, s3) = spi_writes (sp_master c) (transfer_writes (sp_config c) (the tx_words) tx_count)
                       BVSTK_OK (clear_irq c s1);
                 (st4, s4) \<leftarrow> (if st2 = BVSTK_OK then wait_done e c timeout_ms s3 else Some (st2, s3));
                 let (st5, rx, s5) =
                   (if st4 = BVSTK_OK \<and> rx_words \<noteq> None \<and> rx_capacity \<noteq> 0 \<and> sc_read_enable (sp_config c)
                    then (case receive_words e (sp_bram c) (if tx_count < rx_capacity then tx_count else rx_capacity) 0
                            (the rx_words) s4 of (st, rx, s') \<Rightarrow> (st, Some rx, s'))
                    else (st4, rx_words, s4));
                 Some (st5, rx, bvstk_mutex_unlock (sp_mutex c) (clear_irq c s5)) }))"

text \<open>The loop answers, and reads nothing but the status register.\<close>

definition csr_loads :: "bvstk_mmio_region_t \<Rightarrow> mmio_trace \<Rightarrow> bool" where
  "csr_loads m evs \<longleftrightarrow> (\<forall>ev \<in> set (accesses evs). \<exists>w. ev = OsLoad (mr_mapped_base m + of_nat BVSTK_SPI_CSR_OFFSET) w) \<and>
     (accesses evs \<noteq> [] \<longrightarrow> check_access (Some m) BVSTK_SPI_CSR_OFFSET = None)"

lemma csr_loads_append: "csr_loads m xs \<Longrightarrow> csr_loads m ys \<Longrightarrow> csr_loads m (xs @ ys)"
  by (auto simp: csr_loads_def)

lemma wait_done_run:
  assumes "mm_clock_ok e"
  shows "\<exists>st s'. wait_done e c timeout s = Some (st, s') \<and> appends (csr_loads (sp_master c)) s s'"
proof -
  have "os_now e (mm_trace s) \<le> os_now e (mm_trace (mm_say OsNow s))"
    "os_now e (mm_trace (mm_say OsNow s)) \<le> os_now e (mm_trace s) + 2 ^ 33"
    using mm_clock_step [OF assms, where s = s and ev = OsNow] by simp_all
  moreover have p: "probe_ok (csr_loads (sp_master c)) (csr_probe e (sp_master c) BVSTK_SPI_CSR_OFFSET (\<lambda>csr. csr AND 0x0A = 0x0A))"
    by (rule csr_probe_ok) (simp_all add: csr_loads_def)
  have c: "csr_loads (sp_master c) []" "csr_loads (sp_master c) [OsNow]" "csr_loads (sp_master c) [OsSleep 1]"
    by (simp_all add: csr_loads_def)
  note poll_run [OF assms p c(1) csr_loads_append c(2,3)]
  ultimately obtain st s' where w: "wait_loop e (sp_master c) (of_nat (os_now e (mm_trace s))) (effective_timeout timeout) (mm_say OsNow s) = Some (st, s')"
    "appends (csr_loads (sp_master c)) (mm_say OsNow s) s'" unfolding wait_loop_def by blast
  have "appends (csr_loads (sp_master c)) s s'"
    using w(2) c(2) csr_loads_append [of "sp_master c" "[OsNow]"] by (auto simp: appends_def mm_say_def)
  with w(1) show ?thesis by (simp add: wait_done_def bvstk_platform_now_ms_def)
qed

section \<open>What a transfer does to the core\<close>

fun access_addr :: "mmio_event \<Rightarrow> u32" where
  "access_addr (OsLoad a v) = a"
| "access_addr (OsStore a v) = a"
| "access_addr _ = 0"

text \<open>Loads and stores inside the two windows of the SPI core.\<close>

definition spi_confined :: "mmio_trace \<Rightarrow> mmio_trace \<Rightarrow> bool" where
  "spi_confined tr evs \<longleftrightarrow> (\<forall>ev \<in> set (accesses evs). \<exists>off.
     in_window tr BVSTK_SPI_MASTER_BASE BVSTK_SPI_MASTER_SIZE off (access_addr ev) \<or>
     in_window tr BVSTK_SPI_BRAM_BASE BVSTK_SPI_BRAM_SIZE off (access_addr ev))"

definition spi_wf :: "bvstk_spi_core_t \<Rightarrow> mmio_trace \<Rightarrow> bool" where
  [wf_defs]: "spi_wf c tr \<longleftrightarrow> (sp_initialized c \<longrightarrow>
     mr_size (sp_master c) = BVSTK_SPI_MASTER_SIZE \<and>
     OsMap BVSTK_SPI_MASTER_BASE BVSTK_SPI_MASTER_SIZE (Inr (mr_mapped_base (sp_master c))) \<in> set tr \<and>
     mr_size (sp_bram c) = BVSTK_SPI_BRAM_SIZE \<and>
     OsMap BVSTK_SPI_BRAM_BASE BVSTK_SPI_BRAM_SIZE (Inr (mr_mapped_base (sp_bram c))) \<in> set tr)"

lemma spi_confined_append: "spi_confined tr xs \<Longrightarrow> spi_confined tr ys \<Longrightarrow> spi_confined tr (xs @ ys)"
  by (auto simp: spi_confined_def)

lemma spi_confined_idle: "accesses evs = [] \<Longrightarrow> spi_confined tr evs"
  by (simp add: spi_confined_def)

lemma spi_confined_mono: "spi_confined tr evs \<Longrightarrow> spi_confined (tr @ xs) evs"
  unfolding spi_confined_def using in_window_mono by blast

lemma spi_wf_mono: "spi_wf c tr \<Longrightarrow> spi_wf c (tr @ evs)"
  by (auto simp: spi_wf_def)

lemma spi_idle [simp]: "appends (spi_confined tr) s s"
  by (intro appends_refl spi_confined_idle) simp

lemmas spi_trans = appends_trans [where P = "spi_confined tr" for tr, OF _ _ spi_confined_append]

lemma master_window:
  assumes "spi_wf c tr" "sp_initialized c" "check_access (Some (sp_master c)) off = None"
  shows "in_window tr BVSTK_SPI_MASTER_BASE BVSTK_SPI_MASTER_SIZE off (mr_mapped_base (sp_master c) + of_nat off)"
  using check_access_window [OF assms(3), of BVSTK_SPI_MASTER_BASE tr] assms(1,2) by (simp add: spi_wf_def)

lemma bram_window:
  assumes "spi_wf c tr" "sp_initialized c" "check_access (Some (sp_bram c)) off = None"
  shows "in_window tr BVSTK_SPI_BRAM_BASE BVSTK_SPI_BRAM_SIZE off (mr_mapped_base (sp_bram c) + of_nat off)"
  using check_access_window [OF assms(3), of BVSTK_SPI_BRAM_BASE tr] assms(1,2) by (simp add: spi_wf_def)

lemma csr_loads_confined:
  assumes "spi_wf c tr" "sp_initialized c" "csr_loads (sp_master c) evs"
  shows "spi_confined tr evs"
proof (cases "accesses evs = []")
  case False
  then have "in_window tr BVSTK_SPI_MASTER_BASE BVSTK_SPI_MASTER_SIZE 0 (mr_mapped_base (sp_master c) + of_nat 0)"
    using master_window [OF assms(1,2)] assms(3) by (simp only: csr_loads_def simp_thms)
  then show ?thesis using assms(3) by (fastforce simp: csr_loads_def spi_confined_def)
qed (rule spi_confined_idle)

lemma spi_write_confined:
  assumes "spi_wf c tr" "sp_initialized c"
  shows "appends (spi_confined tr) s (snd (spi_write32 (sp_master c) off v s))"
proof -
  obtain st s' where w: "spi_write32 (sp_master c) off v s = (st, s')" by fastforce
  show ?thesis using spi_write_cases [OF w] master_window [OF assms, of off] w
    by (auto simp: appends_def mm_say_def spi_confined_def)
qed

lemma clear_irq_confined:
  assumes "spi_wf c tr" "sp_initialized c"
  shows "appends (spi_confined tr) s (clear_irq c s)"
  unfolding clear_irq_def by (rule spi_trans [OF spi_write_confined spi_write_confined]) (use assms in auto)

lemma spi_writes_confined:
  assumes "spi_wf c tr" "sp_initialized c"
  shows "appends (spi_confined tr) s (snd (spi_writes (sp_master c) ws st s))"
proof (induction ws arbitrary: st s)
  case (Cons w ws)
  obtain off v where w: "w = (off, v)" by fastforce
  obtain st1 s1 where e: "spi_write32 (sp_master c) off v s = (st1, s1)" by fastforce
  have "appends (spi_confined tr) s s1" using spi_write_confined [OF assms, of s off v] e by simp
  from spi_trans [OF this Cons.IH] show ?case by (auto simp: w e intro: appends_refl spi_confined_idle)
qed (simp add: appends_refl spi_confined_idle)

lemma receive_words_confined:
  assumes "spi_wf c tr" "sp_initialized c"
  shows "appends (spi_confined tr) s (snd (snd (receive_words e (sp_bram c) n i rx s)))"
proof (induction n arbitrary: i rx s)
  case (Suc n)
  obtain st v s1 where r: "spi_read32 e (sp_bram c) (i * 4) s = (st, v, s1)" by (metis prod_cases3)
  have "appends (spi_confined tr) s s1" using spi_read_cases [OF r] bram_window [OF assms, of "i * 4"]
    by (auto simp: appends_def mm_say_def spi_confined_def)
  from this spi_trans [OF this Suc.IH] show ?case using r by (auto split: option.split)
qed (simp add: appends_refl spi_confined_idle)

lemma mutex_confined:
  "appends (spi_confined tr) s (snd (bvstk_mutex_lock e mutex timeout s))"
  "appends (spi_confined tr) s (bvstk_mutex_unlock mutex s)"
  by (auto simp: bvstk_mutex_lock_def bvstk_mutex_unlock_def Let_def
      intro!: appends_say appends_refl spi_confined_idle)

text \<open>A transfer returns, and touches nothing outside the two windows of the core.\<close>

lemma spi_transfer_run:
  assumes e: "mm_clock_ok e" and wf: "case core of None \<Rightarrow> True | Some c \<Rightarrow> spi_wf c tr"
  shows "\<exists>st rx' s'. bvstk_spi_core_transfer e core tx n rx cap timeout s = Some (st, rx', s') \<and> appends (spi_confined tr) s s'"
proof (cases "\<exists>c. core = Some c \<and> sp_initialized c \<and> \<not> (tx = None \<or> n = 0 \<or> n > BVSTK_SPI_MAX_WORDS)")
  case False
  then show ?thesis by (auto simp: bvstk_spi_core_transfer_def intro!: appends_refl spi_confined_idle split: option.split)
next
  case True
  then obtain c where c: "core = Some c" "sp_initialized c" "\<not> (tx = None \<or> n = 0 \<or> n > BVSTK_SPI_MAX_WORDS)" by blast
  have w: "spi_wf c tr" using wf c by simp
  obtain st s1 where l: "bvstk_mutex_lock e (sp_mutex c) timeout s = (st, s1)" by fastforce
  obtain st2 s3 where sw: "spi_writes (sp_master c) (transfer_writes (sp_config c) (the tx) n) BVSTK_OK (clear_irq c s1) = (st2, s3)"
    by fastforce
  obtain st4 s4 where wt: "(if st2 = BVSTK_OK then wait_done e c timeout s3 else Some (st2, s3)) = Some (st4, s4)"
    "appends (csr_loads (sp_master c)) s3 s4"
    using wait_done_run [OF e, of c timeout s3] by (cases "st2 = BVSTK_OK") (auto simp: appends_def csr_loads_def)
  define m where "m = (if n < cap then n else cap)"
  obtain st5 rx5 s5 where rv: "(if st4 = BVSTK_OK \<and> rx \<noteq> None \<and> cap \<noteq> 0 \<and> sc_read_enable (sp_config c)
      then (case receive_words e (sp_bram c) m 0 (the rx) s4 of (st, rx, s') \<Rightarrow> (st, Some rx, s')) else (st4, rx, s4)) = (st5, rx5, s5)"
    by (metis prod_cases3)
  have a1: "appends (spi_confined tr) s s1" using mutex_confined(1) [of tr s e "sp_mutex c" timeout] l by simp
  have a3: "appends (spi_confined tr) s s3"
    using spi_trans [OF spi_trans [OF a1 clear_irq_confined [OF w c(2)]] spi_writes_confined [OF w c(2)]] sw by (metis snd_conv)
  have a4: "appends (spi_confined tr) s s4"
    using spi_trans [OF a3 appends_mono [OF wt(2) csr_loads_confined [OF w c(2)]]] .
  have "appends (spi_confined tr) s4 s5"
    using rv receive_words_confined [OF w c(2), of s4 e m 0 "the rx"]
    by (auto intro: appends_refl spi_confined_idle split: if_splits prod.splits)
  from spi_trans [OF spi_trans [OF spi_trans [OF a4 this] clear_irq_confined [OF w c(2)]] mutex_confined(2)]
  have a: "appends (spi_confined tr) s (bvstk_mutex_unlock (sp_mutex c) (clear_irq c s5))" .
  show ?thesis
  proof (cases "st = BVSTK_OK")
    case True
    then have "bvstk_spi_core_transfer e core tx n rx cap timeout s = Some (st5, rx5, bvstk_mutex_unlock (sp_mutex c) (clear_irq c s5))"
      using wt(1) rv [unfolded m_def] c(2,3) l sw
      by (simp only: bvstk_spi_core_transfer_def c(1) option.case if_False if_True simp_thms Let_def prod.case bind.bind_lunit)
    with a show ?thesis by blast
  qed (use c l a1 in \<open>auto simp: bvstk_spi_core_transfer_def\<close>)
qed

lemma spi_wf_idle: "\<not> sp_initialized c \<Longrightarrow> spi_wf c tr"
  by (simp add: spi_wf_def)

text \<open>Initialisation establishes the windows; the other operations keep them.\<close>

lemma spi_init_wf:
  assumes i: "bvstk_spi_core_init e (Some c0) (Some config) mutex s = (st, Some c, s')"
  shows "spi_wf c (mm_trace s')"
proof -
  obtain cfg where n: "normalize_config (Some config) = (BVSTK_OK, Some cfg)" by (simp add: normalize_config_def Let_def)
  let ?c = "zero_spi_core \<lparr> sp_config := cfg, sp_mutex := (case mutex of None \<Rightarrow> (False, False) | Some m \<Rightarrow> m) \<rparr>"
  obtain e1 r s1 where o1: "bvstk_mmio_region_open e (Some (sp_master ?c)) BVSTK_SPI_MASTER_BASE BVSTK_SPI_MASTER_SIZE s = (e1, r, s1)"
    by (metis prod_cases3)
  obtain e2 b s2 where o2: "bvstk_mmio_region_open e (Some (sp_bram (?c \<lparr> sp_master := the r \<rparr>))) BVSTK_SPI_BRAM_BASE BVSTK_SPI_BRAM_SIZE s1 =
      (e2, b, s2)" by (metis prod_cases3)
  note run = region_open_run [OF o1] region_open_run [OF o2]
  show ?thesis
  proof (cases "e1 = None \<and> e2 = None")
    case True
    define c2 where "c2 = ?c \<lparr> sp_master := the r, sp_bram := the b, sp_initialized := True \<rparr>"
    have w: "spi_wf c2 (mm_trace s2)" using True run by (auto simp: c2_def spi_wf_def appends_def)
    define s4 where "s4 = snd (spi_write32 (sp_master c2) BVSTK_SPI_SIGNATURE_OFFSET (ucast (sc_p_clk_div (sp_config c2)))
        (snd (spi_write32 (sp_master c2) BVSTK_SPI_TIMEOUT_OFFSET (sc_timeout_ticks (sp_config c2)) s2)))"
    have "c = c2" "s' = clear_irq c2 s4"
      using i n o1 o2 True by (auto simp: bvstk_spi_core_init_def Let_def split_beta c2_def s4_def)
    moreover have "appends (spi_confined (mm_trace s2)) s2 (clear_irq c2 s4)"
      unfolding s4_def by (intro spi_trans [OF _ clear_irq_confined] spi_trans [OF spi_write_confined spi_write_confined])
        (use w in \<open>auto simp: c2_def\<close>)
    ultimately show ?thesis using spi_wf_mono [OF w] by (auto simp: appends_def)
  next
    case False
    then have "\<not> sp_initialized c" using i n o1 o2
      by (auto simp: bvstk_spi_core_init_def Let_def split_beta zero_spi_core_def split: option.splits)
    then show ?thesis by (rule spi_wf_idle)
  qed
qed

lemma spi_set_config_wf:
  assumes "bvstk_spi_core_set_config (Some c0) config s = (st, Some c, s')" "spi_wf c0 (mm_trace s)"
  shows "spi_wf c (mm_trace s')"
proof (cases "sp_initialized c0 \<and> config \<noteq> None")
  case True
  then obtain cfg where n: "normalize_config config = (BVSTK_OK, Some cfg)" by (auto simp: normalize_config_def Let_def)
  define c1 where "c1 = c0 \<lparr> sp_config := cfg \<rparr>"
  have w: "spi_wf c1 (mm_trace s)" "sp_initialized c1" using assms(2) True by (auto simp: c1_def spi_wf_def)
  let ?s1 = "snd (spi_write32 (sp_master c1) BVSTK_SPI_TIMEOUT_OFFSET (sc_timeout_ticks cfg) s)"
  let ?s2 = "snd (spi_write32 (sp_master c1) BVSTK_SPI_SIGNATURE_OFFSET (ucast (sc_p_clk_div cfg)) ?s1)"
  have "c = c1" "s' = ?s1 \<or> s' = ?s2"
    using assms(1) n True by (auto simp: bvstk_spi_core_set_config_def Let_def split_beta c1_def split: if_splits)
  moreover have "appends (spi_confined (mm_trace s)) s ?s1" "appends (spi_confined (mm_trace s)) s ?s2"
    using spi_write_confined [OF w] spi_trans [OF spi_write_confined [OF w] spi_write_confined [OF w]] by blast+
  ultimately show ?thesis using spi_wf_mono [OF w(1)] by (auto simp: appends_def)
next
  case False
  then show ?thesis using assms by (auto simp: bvstk_spi_core_set_config_def normalize_config_def split: if_splits option.splits)
qed

section \<open>The words sent and received\<close>

lemma spi_writes_done:
  "spi_writes m ws BVSTK_OK s = (BVSTK_OK, s') \<Longrightarrow>
   mm_trace s' = mm_trace s @ map (\<lambda>(off, v). OsStore (mr_mapped_base m + of_nat off) v) ws"
proof (induction ws arbitrary: s)
  case (Cons w ws)
  obtain off v where w: "w = (off, v)" by fastforce
  obtain st1 s1 where e: "spi_write32 m off v s = (st1, s1)" by fastforce
  have stop: "spi_writes m ws st s1 = (BVSTK_OK, s') \<Longrightarrow> st = BVSTK_OK" for st
    by (cases ws) (auto split: if_splits)
  then have "st1 = BVSTK_OK" using Cons.prems w e by auto
  then show ?case using Cons spi_write_cases [OF e] w e by (auto simp: mm_say_def)
qed simp

lemma receive_words_done:
  "receive_words e b n i rx s = (BVSTK_OK, rx', s') \<Longrightarrow> i + n \<le> length rx \<Longrightarrow>
   length rx' = length rx \<and> take i rx' = take i rx \<and>
   mm_trace s' = mm_trace s @ map (\<lambda>j. OsLoad (mr_mapped_base b + of_nat (j * 4)) (rx' ! j)) [i..<i + n]"
proof (induction n arbitrary: i rx s)
  case (Suc n)
  obtain st v s1 where r: "spi_read32 e b (i * 4) s = (st, v, s1)" by (metis prod_cases3)
  obtain w where w: "v = Some w" "s1 = mm_say (OsLoad (mr_mapped_base b + of_nat (i * 4)) w) s"
    using Suc.prems(1) r spi_read_cases [OF r] by (cases v) auto
  have run: "receive_words e b n (i + 1) (rx[i := w]) s1 = (BVSTK_OK, rx', s')" using Suc.prems(1) r w by simp
  have ih: "length rx' = length rx" "take (i + 1) rx' = take (i + 1) (rx[i := w])"
    "mm_trace s' = mm_trace s1 @ map (\<lambda>j. OsLoad (mr_mapped_base b + of_nat (j * 4)) (rx' ! j)) [i + 1..<i + 1 + n]"
    using Suc.IH [OF run] Suc.prems(2) by auto
  have "rx' ! i = w"
    using arg_cong [OF ih(2), of "\<lambda>xs. xs ! i"] Suc.prems(2) by simp
  moreover have "take i rx' = take i rx"
    using arg_cong [OF ih(2), of "take i"] by (simp add: min_def)
  moreover have "[i..<i + Suc n] = i # [i + 1..<i + 1 + n]" by (simp add: upt_conv_Cons)
  ultimately show ?case using ih(1,3) w(2) by (simp add: mm_say_def del: upt_Suc)
qed simp

text \<open>With reading disabled a successful transfer leaves the receive buffer as it was.\<close>

lemma spi_transfer_no_read:
  assumes "bvstk_spi_core_transfer e (Some c) tx n rx cap timeout s = Some (st, rx', s')" "\<not> sc_read_enable (sp_config c)"
  shows "rx' = rx"
  using assms by (auto simp: bvstk_spi_core_transfer_def Let_def bind_eq_Some_conv split: if_splits prod.splits)

text \<open>
  The divider is meant to be even and at least two. It is, except for the largest odd value, whose
  increment wraps around to zero.
\<close>

lemma even_divider:
  assumes "2 \<le> (d :: u16)" "d AND 1 \<noteq> 0"
  shows "(d + 1) AND 1 = 0" "d \<noteq> 0xFFFF \<Longrightarrow> 2 \<le> d + 1"
proof -
  have "odd d" using assms(2) by (simp add: and_one_eq odd_iff_mod_2_eq_one)
  then show "(d + 1) AND 1 = 0" by (simp add: and_one_eq mod_2_eq_odd)
  assume "d \<noteq> 0xFFFF"
  then have "unat d \<noteq> unat (0xFFFF :: u16)" by (simp only: word_unat_eq_iff simp_thms)
  moreover have "unat (0xFFFF :: u16) = 65535" by simp
  ultimately have "unat d + 1 < 65536" using unat_u16_less [of d] by linarith
  then have "unat (d + 1) = unat d + 1" by (simp add: unat_plus_one)
  then show "2 \<le> d + 1" using assms(1) by (simp add: word_le_nat_alt)
qed

lemma masked_mode: "(m :: u8) AND 3 \<noteq> 0 \<Longrightarrow> m AND 3 \<in> {1, 2, 3}"
proof -
  assume a: "m AND 3 \<noteq> 0"
  have "m AND 3 = take_bit 2 m" by (simp add: take_bit_eq_mask mask_eq_exp_minus_1)
  then have "unat (m AND 3) = unat m mod 4" by (simp only: unsigned_take_bit_eq) (simp add: take_bit_eq_mod)
  then have "unat (m AND 3) \<in> {0, 1, 2, 3}" by auto
  with a show ?thesis by (auto simp: word_unat_eq_iff)
qed

lemma normalized_fields:
  assumes "normalize_config (Some c) = (st, Some c')"
  shows "st = BVSTK_OK" "sc_packets_mode c' = (if sc_packets_mode c AND 3 = 0 then 2 else sc_packets_mode c AND 3)"
    "sc_timeout_ticks c' = (if sc_timeout_ticks c = 0 then 1 else sc_timeout_ticks c)"
    "sc_p_clk_div c' = (let d = (if sc_p_clk_div c < 2 then 2 else sc_p_clk_div c) in if d AND 1 \<noteq> 0 then d + 1 else d)"
    "sc_read_enable c' = sc_read_enable c"
proof -
  obtain m t d r where c: "c = \<lparr> sc_packets_mode = m, sc_timeout_ticks = t, sc_p_clk_div = d, sc_read_enable = r \<rparr>" by (cases c)
  define m' where "m' = (if m AND 3 = 0 then 2 else m AND 3)"
  define d' where "d' = (let x = (if d < 2 then 2 else d) in if x AND 1 \<noteq> 0 then x + 1 else x)"
  have "st = BVSTK_OK \<and> c' = \<lparr> sc_packets_mode = m', sc_timeout_ticks = (if t = 0 then 1 else t),
      sc_p_clk_div = d', sc_read_enable = r \<rparr>"
    using assms by (cases "m AND 3 = 0"; cases "t = 0"; cases "d < 2"; cases "d AND 1 = 0")
      (simp_all add: normalize_config_def Let_def c m'_def d'_def)
  then show "st = BVSTK_OK" "sc_packets_mode c' = (if sc_packets_mode c AND 3 = 0 then 2 else sc_packets_mode c AND 3)"
    "sc_timeout_ticks c' = (if sc_timeout_ticks c = 0 then 1 else sc_timeout_ticks c)"
    "sc_p_clk_div c' = (let d = (if sc_p_clk_div c < 2 then 2 else sc_p_clk_div c) in if d AND 1 \<noteq> 0 then d + 1 else d)"
    "sc_read_enable c' = sc_read_enable c"
    by (simp_all add: c m'_def d'_def)
qed

lemma normalized_divider:
  assumes "normalize_config (Some c) = (st, Some c')"
  shows "sc_packets_mode c' \<in> {1, 2, 3}" "sc_timeout_ticks c' \<noteq> 0"
    "sc_p_clk_div c \<noteq> 0xFFFF \<Longrightarrow> 2 \<le> sc_p_clk_div c' \<and> sc_p_clk_div c' AND 1 = 0"
    "sc_p_clk_div c = 0xFFFF \<Longrightarrow> sc_p_clk_div c' = 0"
  using normalized_fields [OF assms] masked_mode [of "sc_packets_mode c"] even_divider [of "sc_p_clk_div c"]
  by (auto simp: Let_def not_less)

end
