(* ===== verification/Dcp2_Control.thy ===== *)
theory Dcp2_Control
  imports Dcp2_Codec I2c_Master_Service Mdio_Traffic Spi_Core
begin

text \<open>
  The control facade (\<open>src/services/control/bvstk_control_api.c\<close>) and the DCP2 request handler
  above it (\<open>src/protocols/dcp2/bvstk_dcp2_control.c\<close>): memory words through the PL service, I2C
  and MDIO registers through their services, write policies, and SPI transfers.

  The facade holds the four services; each of them keeps its own trace of what it did outside.
  The handler is entered with a control object, which it refuses when null before anything else:
  here it is a value. The local arrays of the handler are not initialised in the code, so their
  first contents are parameters of the environment. The policy handler is shared with another
  server; both pass a place for the body size.
\<close>

section \<open>State\<close>

text \<open>The four members of the structure, and then the traces: what the services did so far.\<close>

record bvstk_control_api_t =
  api_pl :: "bvstk_pl_service_t option"
  api_i2c :: "i2c_service option"
  api_mdio :: "mdio_service option"
  api_spi :: "bvstk_spi_core_t option"
  ct_mmio :: mmio_st
  ct_i2c :: i2c_trace
  ct_mdio :: mdio_trace

type_synonym control_st = bvstk_control_api_t

record control_env =
  ce_mmio :: mmio_env
  ce_i2c :: i2c_env
  ce_mdio :: mdio_env
  ce_body :: bytes
  ce_rx :: "u32 list"

section \<open>The facade\<close>

definition bvstk_control_pl_read32 :: "control_env \<Rightarrow> control_st \<Rightarrow> nat \<Rightarrow> nat \<Rightarrow> bool \<Rightarrow>
    bvstk_status_t \<times> u32 option \<times> control_st" where
  "bvstk_control_pl_read32 e api region off out =
    (case api_pl api of
       None \<Rightarrow> (BVSTK_ERR_NOT_READY, None, api)
     | Some pl \<Rightarrow> (case bvstk_pl_service_read32 (ce_mmio e) pl region off out (ct_mmio api) of
         (st, v, pl', s') \<Rightarrow> (st, v, api \<lparr> api_pl := Some pl', ct_mmio := s' \<rparr>)))"

definition bvstk_control_pl_write32 :: "control_env \<Rightarrow> control_st \<Rightarrow> nat \<Rightarrow> nat \<Rightarrow> u32 \<Rightarrow> bvstk_status_t \<times> control_st" where
  "bvstk_control_pl_write32 e api region off v =
    (case api_pl api of
       None \<Rightarrow> (BVSTK_ERR_NOT_READY, api)
     | Some pl \<Rightarrow> (case bvstk_pl_service_write32 (ce_mmio e) pl region off v (ct_mmio api) of
         (st, pl', s') \<Rightarrow> (st, api \<lparr> api_pl := Some pl', ct_mmio := s' \<rparr>)))"

definition bvstk_control_i2c_read :: "control_env \<Rightarrow> control_st \<Rightarrow> nat \<Rightarrow> u8 \<Rightarrow> u8 option \<Rightarrow> u32 \<Rightarrow>
    bvstk_status_t \<times> u8 option \<times> control_st" where
  "bvstk_control_i2c_read e api device_id reg v timeout_ms =
    (case api_i2c api of
       None \<Rightarrow> (BVSTK_ERR_NOT_READY, v, api)
     | Some i2c \<Rightarrow> (case bvstk_i2c_master_service_read (ce_i2c e) i2c device_id reg v timeout_ms (ct_i2c api) of
         (st, v', i2c', t') \<Rightarrow> (st, v', api \<lparr> api_i2c := Some i2c', ct_i2c := t' \<rparr>)))"

definition bvstk_control_i2c_write :: "control_env \<Rightarrow> control_st \<Rightarrow> nat \<Rightarrow> u8 \<Rightarrow> u8 \<Rightarrow> bvstk_event_source_t \<Rightarrow> u32 \<Rightarrow>
    bvstk_status_t \<times> control_st" where
  "bvstk_control_i2c_write e api device_id reg v source timeout_ms =
    (case api_i2c api of
       None \<Rightarrow> (BVSTK_ERR_NOT_READY, api)
     | Some i2c \<Rightarrow> (case bvstk_i2c_master_service_write (ce_i2c e) i2c device_id reg v source timeout_ms (ct_i2c api) of
         (st, i2c', t') \<Rightarrow> (st, api \<lparr> api_i2c := Some i2c', ct_i2c := t' \<rparr>)))"

definition bvstk_control_mdio_read :: "control_env \<Rightarrow> control_st \<Rightarrow> nat \<Rightarrow> u8 \<Rightarrow> bool \<Rightarrow> u32 \<Rightarrow>
    bvstk_status_t \<times> u16 option \<times> control_st" where
  "bvstk_control_mdio_read e api device_id reg out timeout_ms =
    (case api_mdio api of
       None \<Rightarrow> (BVSTK_ERR_NOT_READY, None, api)
     | Some mdio \<Rightarrow> (case bvstk_mdio_service_read (ce_mdio e) mdio device_id reg out timeout_ms (ct_mdio api) of
         (st, v, mdio', t') \<Rightarrow> (st, v, api \<lparr> api_mdio := Some mdio', ct_mdio := t' \<rparr>)))"

definition bvstk_control_mdio_write :: "control_env \<Rightarrow> control_st \<Rightarrow> nat \<Rightarrow> u8 \<Rightarrow> u16 \<Rightarrow> bvstk_event_source_t \<Rightarrow> u32 \<Rightarrow>
    bvstk_status_t \<times> control_st" where
  "bvstk_control_mdio_write e api device_id reg v source timeout_ms =
    (case api_mdio api of
       None \<Rightarrow> (BVSTK_ERR_NOT_READY, api)
     | Some mdio \<Rightarrow> (case bvstk_mdio_service_write (ce_mdio e) mdio device_id reg v source timeout_ms (ct_mdio api) of
         (st, mdio', t') \<Rightarrow> (st, api \<lparr> api_mdio := Some mdio', ct_mdio := t' \<rparr>)))"

definition bvstk_control_spi_transfer :: "control_env \<Rightarrow> control_st \<Rightarrow> u32 list option \<Rightarrow> nat \<Rightarrow> u32 list option \<Rightarrow> nat \<Rightarrow>
    u32 \<Rightarrow> (bvstk_status_t \<times> u32 list option \<times> control_st) option" where
  "bvstk_control_spi_transfer e api tx_words tx_count rx_words rx_capacity timeout_ms =
    (case api_spi api of
       None \<Rightarrow> Some (BVSTK_ERR_NOT_READY, rx_words, api)
     | Some spi \<Rightarrow> (case bvstk_spi_core_transfer (ce_mmio e) (Some spi) tx_words tx_count rx_words rx_capacity timeout_ms
           (ct_mmio api) of
         None \<Rightarrow> None
       | Some (st, rx, s') \<Rightarrow> Some (st, rx, api \<lparr> ct_mmio := s' \<rparr>)))"

section \<open>Memory\<close>

abbreviation (input) BVSTK_DCP2_SERVICE_PING :: u8 where "BVSTK_DCP2_SERVICE_PING \<equiv> 0x00"
abbreviation (input) BVSTK_DCP2_SERVICE_MEM :: u8 where "BVSTK_DCP2_SERVICE_MEM \<equiv> 0x01"
abbreviation (input) BVSTK_DCP2_SERVICE_I2C :: u8 where "BVSTK_DCP2_SERVICE_I2C \<equiv> 0x02"
abbreviation (input) BVSTK_DCP2_SERVICE_MDIO :: u8 where "BVSTK_DCP2_SERVICE_MDIO \<equiv> 0x03"
abbreviation (input) BVSTK_DCP2_SERVICE_SPI :: u8 where "BVSTK_DCP2_SERVICE_SPI \<equiv> 0x04"
abbreviation (input) BVSTK_DCP2_OP_PING :: u8 where "BVSTK_DCP2_OP_PING \<equiv> 0x00"
abbreviation (input) BVSTK_DCP2_OP_MEM_READ :: u8 where "BVSTK_DCP2_OP_MEM_READ \<equiv> 0x00"
abbreviation (input) BVSTK_DCP2_OP_MEM_WRITE :: u8 where "BVSTK_DCP2_OP_MEM_WRITE \<equiv> 0x01"
abbreviation (input) BVSTK_DCP2_OP_I2C_READ_REG :: u8 where "BVSTK_DCP2_OP_I2C_READ_REG \<equiv> 0x00"
abbreviation (input) BVSTK_DCP2_OP_I2C_WRITE_REG :: u8 where "BVSTK_DCP2_OP_I2C_WRITE_REG \<equiv> 0x01"
abbreviation (input) BVSTK_DCP2_OP_MDIO_READ :: u8 where "BVSTK_DCP2_OP_MDIO_READ \<equiv> 0x00"
abbreviation (input) BVSTK_DCP2_OP_MDIO_WRITE :: u8 where "BVSTK_DCP2_OP_MDIO_WRITE \<equiv> 0x01"
abbreviation (input) BVSTK_DCP2_OP_POLICY_SET :: u8 where "BVSTK_DCP2_OP_POLICY_SET \<equiv> 0x02"
abbreviation (input) BVSTK_DCP2_OP_POLICY_GET :: u8 where "BVSTK_DCP2_OP_POLICY_GET \<equiv> 0x03"
abbreviation (input) BVSTK_DCP2_OP_POLICY_RULE_ADD :: u8 where "BVSTK_DCP2_OP_POLICY_RULE_ADD \<equiv> 0x04"
abbreviation (input) BVSTK_DCP2_OP_POLICY_RULE_DELETE :: u8 where "BVSTK_DCP2_OP_POLICY_RULE_DELETE \<equiv> 0x05"
abbreviation (input) BVSTK_DCP2_OP_POLICY_CLEAR :: u8 where "BVSTK_DCP2_OP_POLICY_CLEAR \<equiv> 0x06"
abbreviation (input) BVSTK_DCP2_OP_SPI_TRANSFER :: u8 where "BVSTK_DCP2_OP_SPI_TRANSFER \<equiv> 0x00"

text \<open>The loop over the regions; the answer is the region and the offset of the address in it.\<close>

fun find_region_from :: "nat \<Rightarrow> nat \<Rightarrow> u32 \<Rightarrow> nat \<Rightarrow> bvstk_status_t \<times> (nat \<times> nat) option" where
  "find_region_from 0 i address width = (BVSTK_ERR_RANGE, None)"
| "find_region_from (Suc n) i address width =
    (case bvstk_pl_region_get i of
       None \<Rightarrow> find_region_from n (i + 1) address width
     | Some desc \<Rightarrow>
         if unat address \<ge> unat (rg_physical_base desc) \<and>
            unat address + width \<le> unat (rg_physical_base desc) + rg_size desc \<and>
            (address - rg_physical_base desc) AND 3 = 0
         then (BVSTK_OK, Some (rg_id desc, unat address - unat (rg_physical_base desc)))
         else find_region_from n (i + 1) address width)"

definition find_region :: "u32 \<Rightarrow> nat \<Rightarrow> bvstk_status_t \<times> (nat \<times> nat) option" where
  "find_region address width =
    (if width = 0 then (BVSTK_ERR_MALFORMED, None) else find_region_from bvstk_pl_region_count 0 address width)"

text \<open>The two loops over the words of a request, from word \<open>i\<close> on with \<open>n\<close> words left.\<close>

fun mem_read_loop :: "control_env \<Rightarrow> nat \<Rightarrow> nat \<Rightarrow> u32 \<Rightarrow> bytes \<Rightarrow> control_st \<Rightarrow> bvstk_status_t \<times> bytes \<times> control_st" where
  "mem_read_loop e 0 i address body c = (BVSTK_OK, body, c)"
| "mem_read_loop e (Suc n) i address body c =
    (case find_region (address + of_nat i * 4) 4 of
       (BVSTK_OK, Some (region, off)) \<Rightarrow>
         (case bvstk_control_pl_read32 e c region off True of
            (BVSTK_OK, Some v, c1) \<Rightarrow> mem_read_loop e n (i + 1) address (at_offset (i * 4) (\<lambda>p. put32 p v) body) c1
          | (st, _, c1) \<Rightarrow> (st, body, c1))
     | (st, _) \<Rightarrow> (st, body, c))"

fun mem_write_loop :: "control_env \<Rightarrow> nat \<Rightarrow> nat \<Rightarrow> u32 \<Rightarrow> bytes \<Rightarrow> control_st \<Rightarrow> bvstk_status_t \<times> control_st" where
  "mem_write_loop e 0 i address data c = (BVSTK_OK, c)"
| "mem_write_loop e (Suc n) i address data c =
    (case find_region (address + of_nat i * 4) 4 of
       (BVSTK_OK, Some (region, off)) \<Rightarrow>
         (case bvstk_control_pl_write32 e c region off (get32 (drop (8 + i * 4) data)) of
            (BVSTK_OK, c1) \<Rightarrow> mem_write_loop e n (i + 1) address data c1
          | (st, c1) \<Rightarrow> (st, c1))
     | (st, _) \<Rightarrow> (st, c))"

text \<open>Every \<open>process\<close> function answers the status, the body buffer and the body size.\<close>

definition process_mem :: "control_env \<Rightarrow> bvstk_dcp2_request_t \<Rightarrow> bytes \<Rightarrow> control_st \<Rightarrow>
    bvstk_status_t \<times> bytes \<times> u16 \<times> control_st" where
  "process_mem e request body c =
    (let data = the (rq_body request); sz = unat (rq_body_size request) in
     if sz < 8 then (BVSTK_ERR_MALFORMED, body, 0, c)
     else let flags = data ! 0; width = data ! 1; address = get32 (drop 2 data); count = unat (get16 (drop 6 data)) in
       if flags \<noteq> 0 \<or> width \<noteq> 32 \<or> count = 0 \<or> count > 256 then (BVSTK_ERR_UNSUPPORTED, body, 0, c)
       else if rq_opcode request = BVSTK_DCP2_OP_MEM_READ then
         (if sz \<noteq> 8 \<or> count * 4 > BVSTK_DCP2_MAX_PAYLOAD - 6 then (BVSTK_ERR_RANGE, body, 0, c)
          else case mem_read_loop e count 0 address body c of
            (st, body', c') \<Rightarrow> (st, body', if st = BVSTK_OK then of_nat (count * 4) else 0, c'))
       else if rq_opcode request = BVSTK_DCP2_OP_MEM_WRITE then
         (if rq_body_size request \<noteq> of_nat (8 + count * 4) then (BVSTK_ERR_MALFORMED, body, 0, c)
          else case mem_write_loop e count 0 address data c of (st, c') \<Rightarrow> (st, body, 0, c'))
       else (BVSTK_ERR_UNSUPPORTED, body, 0, c))"

section \<open>Policies\<close>

definition dcp2_policy_status :: "bvstk_status_t \<Rightarrow> bvstk_status_t" where
  "dcp2_policy_status st =
    (if st = BVSTK_ERR_NOT_FOUND then BVSTK_ERR_RANGE else if st = BVSTK_ERR_NOT_READY then BVSTK_ERR_BUSY else st)"

text \<open>The reply of a policy query: mode, the two lengths, the rules of both lists.\<close>

fun put_i2c_rules :: "i2c_rule_entry_t list \<Rightarrow> nat \<Rightarrow> bytes \<Rightarrow> bytes" where
  "put_i2c_rules [] n body = body"
| "put_i2c_rules (r # rs) n body = put_i2c_rules rs (n + 2) (body[n := rule_reg r, n + 1 := rule_val r])"

fun put_mdio_rules :: "mdio_rule_entry_t list \<Rightarrow> nat \<Rightarrow> bytes \<Rightarrow> bytes" where
  "put_mdio_rules [] n body = body"
| "put_mdio_rules (r # rs) n body = put_mdio_rules rs (n + 5)
    (at_offset (n + 3) (\<lambda>p. put16 p (mrule_mask r)) (at_offset (n + 1) (\<lambda>p. put16 p (mrule_val r)) (body[n := mrule_reg r])))"

definition put_policy_head :: "u32 \<Rightarrow> nat \<Rightarrow> nat \<Rightarrow> bytes \<Rightarrow> bytes" where
  "put_policy_head mode white black body =
     at_offset 3 (\<lambda>p. put16 p (of_nat black)) (at_offset 1 (\<lambda>p. put16 p (of_nat white)) (body[0 := ucast mode]))"

text \<open>The check of the rule counts and of the space, then the reply.\<close>

definition policy_reply :: "nat \<Rightarrow> nat \<Rightarrow> nat \<Rightarrow> nat \<Rightarrow> bytes option \<Rightarrow> nat \<Rightarrow> (bytes \<Rightarrow> bytes) \<Rightarrow>
    bvstk_status_t \<times> bytes option \<times> u16" where
  "policy_reply rules_max rule_size white black body body_capacity put =
    (if white > rules_max \<or> black > rules_max then (BVSTK_ERR_RANGE, body, 0)
     else let n = 5 + (white + black) * rule_size in
       if body = None \<or> n > body_capacity \<or> n > BVSTK_DCP2_MAX_PAYLOAD - 6 then (BVSTK_ERR_RANGE, body, 0)
       else (BVSTK_OK, Some (put (the body)), of_nat n))"

text \<open>The I2C half and the MDIO half of the handler, for a request of valid shape.\<close>

definition process_policy_i2c :: "bvstk_dcp2_request_t \<Rightarrow> bytes option \<Rightarrow> nat \<Rightarrow> control_st \<Rightarrow>
    bvstk_status_t \<times> bytes option \<times> u16 \<times> control_st" where
  "process_policy_i2c request body body_capacity c =
    (let data = the (rq_body request); op = rq_opcode request; list = data ! 1 in
     case bvstk_i2c_master_service_find_by_addr (api_i2c c) (data ! 0) True of
       (BVSTK_OK, Some device_id) \<Rightarrow>
         (let s = the (api_i2c c) in
          if op = BVSTK_DCP2_OP_POLICY_GET then
            (case bvstk_i2c_master_service_get_policy s device_id True (ct_i2c c) of
               (BVSTK_OK, Some entry, t) \<Rightarrow>
                 (let white = length (pe_whitelist entry); black = length (pe_blacklist entry) in
                  case policy_reply I2C_CFG_RULES_MAX 2 white black body body_capacity
                    (\<lambda>b. put_i2c_rules (pe_whitelist entry @ pe_blacklist entry) 5 (put_policy_head (pe_mode entry) white black b)) of
                    (st, body', n) \<Rightarrow> (st, body', n, c \<lparr> ct_i2c := t \<rparr>))
             | (st, _, t) \<Rightarrow> (dcp2_policy_status st, body, 0, c \<lparr> ct_i2c := t \<rparr>))
          else case
              (if op = BVSTK_DCP2_OP_POLICY_SET then bvstk_i2c_master_service_set_policy s device_id (ucast list) (ct_i2c c)
               else if op = BVSTK_DCP2_OP_POLICY_CLEAR
               then bvstk_i2c_master_service_rule_clear_list s device_id (ucast list) (ct_i2c c)
               else if op = BVSTK_DCP2_OP_POLICY_RULE_DELETE
               then bvstk_i2c_master_service_rule_remove s device_id (ucast list) (data ! 2) (data ! 3) (ct_i2c c)
               else if list = 0 then bvstk_i2c_master_service_rule_allow s device_id (data ! 2) (data ! 3) (ct_i2c c)
               else bvstk_i2c_master_service_rule_deny s device_id (data ! 2) (data ! 3) (ct_i2c c)) of
            (st, s', t) \<Rightarrow> (dcp2_policy_status st, body, 0, c \<lparr> api_i2c := Some s', ct_i2c := t \<rparr>))
     | (st, _) \<Rightarrow> (dcp2_policy_status st, body, 0, c))"

definition process_policy_mdio :: "control_env \<Rightarrow> bvstk_dcp2_request_t \<Rightarrow> bytes option \<Rightarrow> nat \<Rightarrow> control_st \<Rightarrow>
    bvstk_status_t \<times> bytes option \<times> u16 \<times> control_st" where
  "process_policy_mdio e request body body_capacity c =
    (let data = the (rq_body request); op = rq_opcode request; list = data ! 1 in
     case bvstk_mdio_service_find_by_phy (ce_mdio e) (api_mdio c) (data ! 0) True (ct_mdio c) of
       (BVSTK_OK, Some device_id, t) \<Rightarrow>
         (let s = the (api_mdio c) in
          if op = BVSTK_DCP2_OP_POLICY_GET then
            (case bvstk_mdio_service_get_policy (ce_mdio e) (Some s) device_id True t of
               (BVSTK_OK, Some entry, t1) \<Rightarrow>
                 (let white = length (mpe_whitelist entry); black = length (mpe_blacklist entry) in
                  case policy_reply MDIO_CFG_RULES_MAX 5 white black body body_capacity
                    (\<lambda>b. put_mdio_rules (mpe_whitelist entry @ mpe_blacklist entry) 5 (put_policy_head (mpe_mode entry) white black b)) of
                    (st, body', n) \<Rightarrow> (st, body', n, c \<lparr> ct_mdio := t1 \<rparr>))
             | (st, _, t1) \<Rightarrow> (dcp2_policy_status st, body, 0, c \<lparr> ct_mdio := t1 \<rparr>))
          else let reg = data ! 2; v = get16 (drop 3 data); msk = get16 (drop 5 data) in
            case
              (if op = BVSTK_DCP2_OP_POLICY_SET then bvstk_mdio_service_set_policy (ce_mdio e) s device_id (ucast list) t
               else if op = BVSTK_DCP2_OP_POLICY_CLEAR
               then bvstk_mdio_service_rule_clear_list (ce_mdio e) s device_id (ucast list) t
               else if op = BVSTK_DCP2_OP_POLICY_RULE_DELETE
               then bvstk_mdio_service_rule_remove (ce_mdio e) s device_id (ucast list) reg v msk t
               else bvstk_mdio_service_rule_add (ce_mdio e) s device_id (ucast list) reg v msk t) of
            (st, s', t1) \<Rightarrow> (dcp2_policy_status st, body, 0, c \<lparr> api_mdio := Some s', ct_mdio := t1 \<rparr>))
     | (st, _, t) \<Rightarrow> (dcp2_policy_status st, body, 0, c \<lparr> ct_mdio := t \<rparr>))"

definition bvstk_dcp2_process_policy :: "control_env \<Rightarrow> bvstk_dcp2_request_t option \<Rightarrow> bytes option \<Rightarrow> nat \<Rightarrow> control_st \<Rightarrow>
    bvstk_status_t \<times> bytes option \<times> u16 \<times> control_st" where
  "bvstk_dcp2_process_policy e request body body_capacity c =
    (case request of
       None \<Rightarrow> (BVSTK_ERR_MALFORMED, body, 0, c)
     | Some rq \<Rightarrow>
         let is_i2c = (rq_service rq = BVSTK_DCP2_SERVICE_I2C); op = rq_opcode rq in
         if \<not> is_i2c \<and> rq_service rq \<noteq> BVSTK_DCP2_SERVICE_MDIO then (BVSTK_ERR_UNSUPPORTED, body, 0, c)
         else if op < BVSTK_DCP2_OP_POLICY_SET \<or> op > BVSTK_DCP2_OP_POLICY_CLEAR then (BVSTK_ERR_UNSUPPORTED, body, 0, c)
         else let rule_size = (if is_i2c then 2 else 5);
                  expected = (if op = BVSTK_DCP2_OP_POLICY_GET then 1
                    else if op = BVSTK_DCP2_OP_POLICY_RULE_ADD \<or> op = BVSTK_DCP2_OP_POLICY_RULE_DELETE then 2 + rule_size else 2) in
           if rq_body rq = None \<or> unat (rq_body_size rq) \<noteq> expected then (BVSTK_ERR_MALFORMED, body, 0, c)
           else if op \<noteq> BVSTK_DCP2_OP_POLICY_GET \<and> the (rq_body rq) ! 1 > 1 then (BVSTK_ERR_MALFORMED, body, 0, c)
           else if the (rq_body rq) ! 0 > (if is_i2c then 127 else 31) then (BVSTK_ERR_RANGE, body, 0, c)
           else if is_i2c then process_policy_i2c rq body body_capacity c
           else process_policy_mdio e rq body body_capacity c)"

section \<open>Registers and transfers\<close>

definition process_i2c :: "control_env \<Rightarrow> bvstk_dcp2_request_t \<Rightarrow> bytes \<Rightarrow> nat \<Rightarrow> control_st \<Rightarrow>
    bvstk_status_t \<times> bytes \<times> u16 \<times> control_st" where
  "process_i2c e request body body_capacity c =
    (let op = rq_opcode request; data = the (rq_body request); sz = unat (rq_body_size request) in
     if op \<ge> BVSTK_DCP2_OP_POLICY_SET \<and> op \<le> BVSTK_DCP2_OP_POLICY_CLEAR
     then (case bvstk_dcp2_process_policy e (Some request) (Some body) body_capacity c of
         (st, body', n, c') \<Rightarrow> (st, the body', n, c'))
     else if op \<noteq> BVSTK_DCP2_OP_I2C_READ_REG \<and> op \<noteq> BVSTK_DCP2_OP_I2C_WRITE_REG then (BVSTK_ERR_UNSUPPORTED, body, 0, c)
     else if api_i2c c = None then (BVSTK_ERR_NOT_READY, body, 0, c)
     else if sz < 2 then (BVSTK_ERR_MALFORMED, body, 0, c)
     else case bvstk_i2c_master_service_find_by_addr (api_i2c c) (data ! 0) True of
       (BVSTK_OK, Some device_id) \<Rightarrow>
         if op = BVSTK_DCP2_OP_I2C_READ_REG then
           (if sz \<noteq> 2 then (BVSTK_ERR_MALFORMED, body, 0, c)
            else case bvstk_control_i2c_read e c device_id (data ! 1) (Some (body ! 0)) 100 of
              (st, v, c') \<Rightarrow> (st, body[0 := the v], if st = BVSTK_OK then 1 else 0, c'))
         else
           (if sz \<noteq> 3 then (BVSTK_ERR_MALFORMED, body, 0, c)
            else case bvstk_control_i2c_write e c device_id (data ! 1) (data ! 2) BVSTK_EVENT_SOURCE_DCP 100 of
              (st, c') \<Rightarrow> (st, body, 0, c'))
     | (st, _) \<Rightarrow> (st, body, 0, c))"

definition process_mdio :: "control_env \<Rightarrow> bvstk_dcp2_request_t \<Rightarrow> bytes \<Rightarrow> nat \<Rightarrow> control_st \<Rightarrow>
    bvstk_status_t \<times> bytes \<times> u16 \<times> control_st" where
  "process_mdio e request body body_capacity c =
    (let op = rq_opcode request; data = the (rq_body request); sz = unat (rq_body_size request) in
     if op \<ge> BVSTK_DCP2_OP_POLICY_SET \<and> op \<le> BVSTK_DCP2_OP_POLICY_CLEAR
     then (case bvstk_dcp2_process_policy e (Some request) (Some body) body_capacity c of
         (st, body', n, c') \<Rightarrow> (st, the body', n, c'))
     else if op \<noteq> BVSTK_DCP2_OP_MDIO_READ \<and> op \<noteq> BVSTK_DCP2_OP_MDIO_WRITE then (BVSTK_ERR_UNSUPPORTED, body, 0, c)
     else if api_mdio c = None then (BVSTK_ERR_NOT_READY, body, 0, c)
     else if sz < 2 then (BVSTK_ERR_MALFORMED, body, 0, c)
     else case bvstk_mdio_service_find_by_phy (ce_mdio e) (api_mdio c) (data ! 0) True (ct_mdio c) of
       (BVSTK_OK, Some device_id, t) \<Rightarrow>
         (let c1 = c \<lparr> ct_mdio := t \<rparr> in
          if op = BVSTK_DCP2_OP_MDIO_READ then
            (if sz \<noteq> 2 then (BVSTK_ERR_MALFORMED, body, 0, c1)
             else case bvstk_control_mdio_read e c1 device_id (data ! 1) True 100 of
               (BVSTK_OK, v, c') \<Rightarrow> (BVSTK_OK, put16 body (the v), 2, c')
             | (st, v, c') \<Rightarrow> (st, body, 0, c'))
          else
            (if sz \<noteq> 4 then (BVSTK_ERR_MALFORMED, body, 0, c1)
             else case bvstk_control_mdio_write e c1 device_id (data ! 1) (get16 (drop 2 data)) BVSTK_EVENT_SOURCE_DCP 100 of
               (st, c') \<Rightarrow> (st, body, 0, c')))
     | (st, _, t) \<Rightarrow> (st, body, 0, c \<lparr> ct_mdio := t \<rparr>))"

text \<open>The two loops of an SPI request: \<open>n\<close> words read from the request, and \<open>n\<close> words written to the reply.\<close>

definition spi_tx_words :: "bytes \<Rightarrow> nat \<Rightarrow> u32 list" where
  "spi_tx_words data n = map (\<lambda>i. get32 (drop (2 + i * 4) data)) [0..<n]"

fun put_words :: "u32 list \<Rightarrow> nat \<Rightarrow> bytes \<Rightarrow> bytes" where
  "put_words [] i body = body"
| "put_words (w # ws) i body = put_words ws (i + 1) (at_offset (i * 4) (\<lambda>p. put32 p w) body)"

definition process_spi :: "control_env \<Rightarrow> bvstk_dcp2_request_t \<Rightarrow> bytes \<Rightarrow> control_st \<Rightarrow>
    (bvstk_status_t \<times> bytes \<times> u16 \<times> control_st) option" where
  "process_spi e request body c =
    (if api_spi c = None then Some (BVSTK_ERR_NOT_READY, body, 0, c)
     else if rq_opcode request \<noteq> BVSTK_DCP2_OP_SPI_TRANSFER \<or> unat (rq_body_size request) < 2
     then Some (BVSTK_ERR_MALFORMED, body, 0, c)
     else let data = the (rq_body request); count = unat (get16 data) in
       if count = 0 \<or> count > 256 \<or> rq_body_size request \<noteq> of_nat (2 + count * 4) then Some (BVSTK_ERR_RANGE, body, 0, c)
       else case bvstk_control_spi_transfer e c (Some (spi_tx_words data count)) count (Some (ce_rx e)) count 100 of
           None \<Rightarrow> None
         | Some (st, rx, c') \<Rightarrow>
             Some (if st \<noteq> BVSTK_OK then (st, body, 0, c')
               else (BVSTK_OK, put_words (take count (the rx)) 0 body, of_nat (count * 4), c')))"

definition bvstk_dcp2_process_request :: "control_env \<Rightarrow> control_st \<Rightarrow> bvstk_dcp2_request_t option \<Rightarrow> bytes option \<Rightarrow> nat \<Rightarrow>
    nat option \<Rightarrow> (int \<times> bytes option \<times> nat option \<times> control_st) option" where
  "bvstk_dcp2_process_request e c request response_out response_capacity response_size =
    (case (request, response_out) of
       (Some rq, Some frame) \<Rightarrow>
         if response_capacity < 14 then Some (-1, response_out, response_size, c)
         else
           let body_capacity = min (response_capacity - 14) (BVSTK_DCP2_MAX_PAYLOAD - 6); body = ce_body e in
           (case (if rq_service rq = BVSTK_DCP2_SERVICE_PING \<and> rq_opcode rq = BVSTK_DCP2_OP_PING \<and> rq_body_size rq = 0
                  then Some (BVSTK_OK, body, 0, c)
                  else if rq_service rq = BVSTK_DCP2_SERVICE_MEM then Some (process_mem e rq body c)
                  else if rq_service rq = BVSTK_DCP2_SERVICE_I2C then Some (process_i2c e rq body body_capacity c)
                  else if rq_service rq = BVSTK_DCP2_SERVICE_MDIO then Some (process_mdio e rq body body_capacity c)
                  else if rq_service rq = BVSTK_DCP2_SERVICE_SPI then process_spi e rq body c
                  else Some (BVSTK_ERR_UNSUPPORTED, body, 0, c)) of
              None \<Rightarrow> None
            | Some (st, body', body_size, c') \<Rightarrow>
                (case bvstk_dcp2_encode_response (Some frame) response_capacity (Some rq) (bvstk_dcp2_status_from_bvstk st)
                    (if body_size = 0 then None else Some body') body_size response_size of
                   (r, f, n) \<Rightarrow> Some (r, f, n, c')))
     | _ \<Rightarrow> Some (-1, response_out, response_size, c))"

end
