(* ===== verification/Dcp2_Request.thy ===== *)
theory Dcp2_Request
  imports Dcp2_Control
begin

text \<open>
  What a DCP2 request can do, whatever it asks for: which register windows it touches, which frames
  reach the I2C and MDIO buses, and what is answered. The statements follow the handler through the
  PL service, the two bus services and the SPI core.
\<close>

section \<open>Memory requests\<close>

text \<open>\<open>a\<close> is where the word at the physical address \<open>A\<close> is mapped; \<open>touched\<close> lists the accesses to
  consecutive words from word \<open>i\<close> on.\<close>

definition mem_word :: "mmio_trace \<Rightarrow> u32 \<Rightarrow> u32 \<Rightarrow> bool" where
  "mem_word tr A a \<longleftrightarrow> (\<exists>i off. at_region tr i off a \<and> unat A = unat (rg_physical_base (regions ! i)) + off)"

fun touched :: "mmio_trace \<Rightarrow> (u32 \<Rightarrow> u32 \<Rightarrow> mmio_event) \<Rightarrow> u32 \<Rightarrow> nat \<Rightarrow> u32 list \<Rightarrow> mmio_trace \<Rightarrow> bool" where
  "touched tr mk A i [] evs = (evs = [])"
| "touched tr mk A i (v # vs) evs =
    (\<exists>a es. evs = mk a v # es \<and> mem_word tr (A + of_nat i * 4) a \<and> touched tr mk A (i + 1) vs es)"

lemma mem_word_mono: "mem_word tr A a \<Longrightarrow> mem_word (tr @ evs) A a"
  unfolding mem_word_def using at_region_mono by blast

lemma touched_mono: "touched tr mk A i vs evs \<Longrightarrow> touched (tr @ xs) mk A i vs evs"
  by (induction vs arbitrary: i evs) (auto intro: mem_word_mono)

lemma region_ids: "i < BVSTK_PL_REGION_COUNT \<Longrightarrow> rg_id (regions ! i) = i"
proof -
  assume i: "i < BVSTK_PL_REGION_COUNT"
  have "map rg_id regions = [0..<8]" "length regions = 8" by (simp_all add: regions_def pl_region_def upt_rec)
  with i show ?thesis using nth_map [of i regions rg_id] by simp
qed

lemma find_region_from_OK:
  assumes "find_region_from n i A w = (st, r)"
  shows "(st = BVSTK_OK \<longleftrightarrow> r \<noteq> None) \<and> (\<forall>k off. r = Some (k, off) \<longrightarrow> k < BVSTK_PL_REGION_COUNT \<and>
    unat A = unat (rg_physical_base (regions ! k)) + off)"
  using assms
proof (induction n arbitrary: i)
  case (Suc n)
  then show ?case
    by (auto simp: bvstk_pl_region_get_def region_ids split: if_splits)
qed simp

lemma find_region_cases:
  obtains st where "find_region A 4 = (st, None)" "st \<noteq> BVSTK_OK"
  | k off where "find_region A 4 = (BVSTK_OK, Some (k, off))" "k < BVSTK_PL_REGION_COUNT"
      "unat A = unat (rg_physical_base (regions ! k)) + off"
proof -
  obtain st r where f: "find_region A 4 = (st, r)" by fastforce
  then have "find_region_from bvstk_pl_region_count 0 A 4 = (st, r)" by (simp add: find_region_def)
  from find_region_from_OK [OF this] f show thesis using that by (cases r) auto
qed

text \<open>What a memory request leaves alone.\<close>

definition same_buses :: "control_st \<Rightarrow> control_st \<Rightarrow> bool" where
  "same_buses c c' \<longleftrightarrow> api_i2c c' = api_i2c c \<and> api_mdio c' = api_mdio c \<and> api_spi c' = api_spi c \<and>
     ct_i2c c' = ct_i2c c \<and> ct_mdio c' = ct_mdio c"

abbreviation ct_trace :: "control_st \<Rightarrow> mmio_trace" where
  "ct_trace c \<equiv> mm_trace (ct_mmio c)"

definition pl_ok :: "control_st \<Rightarrow> bool" where
  [wf_defs]: "pl_ok c \<longleftrightarrow> (case api_pl c of None \<Rightarrow> True | Some p \<Rightarrow> pl_wf p (ct_trace c))"

definition mem_run :: "(u32 \<Rightarrow> u32 \<Rightarrow> mmio_event) \<Rightarrow> u32 \<Rightarrow> nat \<Rightarrow> u32 list \<Rightarrow> control_st \<Rightarrow> control_st \<Rightarrow> bool" where
  "mem_run mk A i vs c c' \<longleftrightarrow> pl_ok c' \<and> same_buses c c' \<and>
     (\<exists>evs. ct_trace c' = ct_trace c @ evs \<and> touched (ct_trace c') mk A i vs (accesses evs))"

lemma mem_run_none: "pl_ok c \<Longrightarrow> mem_run mk A i [] c c"
  by (simp add: mem_run_def same_buses_def)

lemma mem_run_Cons:
  assumes "pl_ok c1" "same_buses c c1" "ct_trace c1 = ct_trace c @ evs" "accesses evs = [mk a v]"
    "mem_word (ct_trace c1) (A + of_nat i * 4) a" "mem_run mk A (i + 1) vs c1 c'"
  shows "mem_run mk A i (v # vs) c c'"
proof -
  obtain es where es: "ct_trace c' = ct_trace c1 @ es" "touched (ct_trace c') mk A (i + 1) vs (accesses es)"
    using assms(6) by (auto simp: mem_run_def)
  have "mem_word (ct_trace c') (A + of_nat i * 4) a" using mem_word_mono [OF assms(5)] es(1) by simp
  then have "touched (ct_trace c') mk A i (v # vs) (accesses (evs @ es))" using assms(4) es(2) by simp blast
  then show ?thesis using assms es(1) by (auto simp: mem_run_def same_buses_def)
qed

lemma control_read_run:
  assumes "bvstk_control_pl_read32 e c k off True = (st, v, c1)" "pl_ok c"
  shows "pl_ok c1" "same_buses c c1" "st = BVSTK_OK \<longleftrightarrow> v \<noteq> None"
    "\<exists>evs. ct_trace c1 = ct_trace c @ evs \<and> (case v of None \<Rightarrow> accesses evs = []
       | Some w \<Rightarrow> \<exists>a. at_region (ct_trace c1) k off a \<and> accesses evs = [OsLoad a w])"
proof -
  have "pl_ok c1 \<and> same_buses c c1 \<and> (st = BVSTK_OK \<longleftrightarrow> v \<noteq> None) \<and>
    (\<exists>evs. ct_trace c1 = ct_trace c @ evs \<and> (case v of None \<Rightarrow> accesses evs = []
       | Some w \<Rightarrow> \<exists>a. at_region (ct_trace c1) k off a \<and> accesses evs = [OsLoad a w]))"
  proof (cases "api_pl c")
    case None
    then show ?thesis using assms by (simp add: bvstk_control_pl_read32_def same_buses_def)
  next
    case (Some p)
    obtain st' v' p' s' where r: "bvstk_pl_service_read32 (ce_mmio e) p k off True (ct_mmio c) = (st', v', p', s')" by (metis prod_cases4)
    have c1: "st = st'" "v = v'" "c1 = c \<lparr> api_pl := Some p', ct_mmio := s' \<rparr>"
      using assms(1) r Some by (simp_all add: bvstk_control_pl_read32_def)
    have "pl_wf p (ct_trace c)" using assms(2) Some by (simp add: pl_ok_def)
    from pl_read_run [OF r this] show ?thesis by (auto simp: c1 pl_ok_def same_buses_def appends_def)
  qed
  then show "pl_ok c1" "same_buses c c1" "st = BVSTK_OK \<longleftrightarrow> v \<noteq> None"
    "\<exists>evs. ct_trace c1 = ct_trace c @ evs \<and> (case v of None \<Rightarrow> accesses evs = []
       | Some w \<Rightarrow> \<exists>a. at_region (ct_trace c1) k off a \<and> accesses evs = [OsLoad a w])" by blast+
qed

lemma control_write_run:
  assumes "bvstk_control_pl_write32 e c k off w = (st, c1)" "pl_ok c"
  shows "pl_ok c1" "same_buses c c1"
    "\<exists>evs. ct_trace c1 = ct_trace c @ evs \<and> (if st = BVSTK_OK then \<exists>a. at_region (ct_trace c1) k off a \<and> accesses evs = [OsStore a w]
       else accesses evs = [])"
proof -
  have "pl_ok c1 \<and> same_buses c c1 \<and>
    (\<exists>evs. ct_trace c1 = ct_trace c @ evs \<and> (if st = BVSTK_OK then \<exists>a. at_region (ct_trace c1) k off a \<and> accesses evs = [OsStore a w]
       else accesses evs = []))"
  proof (cases "api_pl c")
    case None
    then show ?thesis using assms by (auto simp: bvstk_control_pl_write32_def same_buses_def)
  next
    case (Some p)
    obtain st' p' s' where r: "bvstk_pl_service_write32 (ce_mmio e) p k off w (ct_mmio c) = (st', p', s')" by (metis prod_cases3)
    have c1: "st = st'" "c1 = c \<lparr> api_pl := Some p', ct_mmio := s' \<rparr>"
      using assms(1) r Some by (simp_all add: bvstk_control_pl_write32_def)
    have "pl_wf p (ct_trace c)" using assms(2) Some by (simp add: pl_ok_def)
    from pl_write_run [OF r this] show ?thesis by (auto simp: c1 pl_ok_def same_buses_def appends_def)
  qed
  then show "pl_ok c1" "same_buses c c1"
    "\<exists>evs. ct_trace c1 = ct_trace c @ evs \<and> (if st = BVSTK_OK then \<exists>a. at_region (ct_trace c1) k off a \<and> accesses evs = [OsStore a w]
       else accesses evs = [])" by blast+
qed

lemma mem_run_stop:
  "pl_ok c1 \<Longrightarrow> same_buses c c1 \<Longrightarrow> ct_trace c1 = ct_trace c @ evs \<Longrightarrow> accesses evs = [] \<Longrightarrow> mem_run mk A i [] c c1"
  by (auto simp: mem_run_def)

lemma mem_read_loop_run:
  "mem_read_loop e n i A body c = (st, body', c') \<Longrightarrow> pl_ok c \<Longrightarrow>
   \<exists>vs. mem_run OsLoad A i vs c c' \<and> length vs \<le> n \<and> (st = BVSTK_OK \<longrightarrow> length vs = n \<and> body' = put_words vs i body)"
proof (induction n arbitrary: i body c)
  case 0
  then show ?case by (auto intro!: mem_run_none)
next
  case (Suc n)
  show ?case
  proof (rule find_region_cases [of "A + of_nat i * 4"])
    fix st0 assume "find_region (A + of_nat i * 4) 4 = (st0, None)" "st0 \<noteq> BVSTK_OK"
    then have "st = st0" "c' = c" using Suc.prems(1) by (auto split: bvstk_status_t.splits)
    then show ?thesis using mem_run_none [OF Suc.prems(2)] \<open>st0 \<noteq> BVSTK_OK\<close> by (intro exI [of _ "[]"]) auto
  next
    fix k off
    assume f: "find_region (A + of_nat i * 4) 4 = (BVSTK_OK, Some (k, off))"
      and A: "unat (A + of_nat i * 4) = unat (rg_physical_base (regions ! k)) + off"
    obtain st1 v c1 where r: "bvstk_control_pl_read32 e c k off True = (st1, v, c1)" by (metis prod_cases3)
    note run = control_read_run [OF r Suc.prems(2)]
    show ?thesis
    proof (cases v)
      case None
      then have "st1 \<noteq> BVSTK_OK" "st = st1" "c' = c1" using run(3) Suc.prems(1) f r by (auto split: bvstk_status_t.splits)
      moreover have "mem_run OsLoad A i [] c c1" using run None by (auto intro: mem_run_stop)
      ultimately show ?thesis by (intro exI [of _ "[]"]) auto
    next
      case (Some w)
      then have go: "mem_read_loop e n (i + 1) A (at_offset (i * 4) (\<lambda>p. put32 p w) body) c1 = (st, body', c')"
        using run(3) Suc.prems(1) f r by simp
      obtain evs a where ev: "ct_trace c1 = ct_trace c @ evs" "at_region (ct_trace c1) k off a" "accesses evs = [OsLoad a w]"
        using run(4) Some by auto
      have "mem_word (ct_trace c1) (A + of_nat i * 4) a" using ev(2) A by (auto simp: mem_word_def)
      with Suc.IH [OF go run(1)] show ?thesis
        using mem_run_Cons [where mk = OsLoad, OF run(1,2) ev(1,3)] by (metis (no_types, lifting) Suc_le_mono length_Cons put_words.simps(2))
    qed
  qed
qed

lemma mem_write_loop_run:
  "mem_write_loop e n i A data c = (st, c') \<Longrightarrow> pl_ok c \<Longrightarrow>
   \<exists>m \<le> n. mem_run OsStore A i (map (\<lambda>j. get32 (drop (8 + j * 4) data)) [i..<i + m]) c c' \<and> (st = BVSTK_OK \<longrightarrow> m = n)"
proof (induction n arbitrary: i c)
  case 0
  then show ?case by (auto intro!: mem_run_none)
next
  case (Suc n)
  show ?case
  proof (rule find_region_cases [of "A + of_nat i * 4"])
    fix st0 assume "find_region (A + of_nat i * 4) 4 = (st0, None)" "st0 \<noteq> BVSTK_OK"
    then have "st = st0" "c' = c" using Suc.prems(1) by (auto split: bvstk_status_t.splits)
    then show ?thesis using mem_run_none [OF Suc.prems(2)] \<open>st0 \<noteq> BVSTK_OK\<close> by (intro exI [of _ "0::nat"]) auto
  next
    fix k off
    assume f: "find_region (A + of_nat i * 4) 4 = (BVSTK_OK, Some (k, off))"
      and A: "unat (A + of_nat i * 4) = unat (rg_physical_base (regions ! k)) + off"
    define w where "w = get32 (drop (8 + i * 4) data)"
    obtain st1 c1 where r: "bvstk_control_pl_write32 e c k off w = (st1, c1)" by fastforce
    note run = control_write_run [OF r Suc.prems(2)]
    show ?thesis
    proof (cases "st1 = BVSTK_OK")
      case False
      then have "st = st1" "c' = c1" using Suc.prems(1) f r by (auto simp: w_def split: bvstk_status_t.splits)
      moreover have "mem_run OsStore A i [] c c1" using run False by (auto intro: mem_run_stop)
      ultimately show ?thesis using False by (intro exI [of _ "0::nat"]) auto
    next
      case True
      then have go: "mem_write_loop e n (i + 1) A data c1 = (st, c')" using Suc.prems(1) f r by (simp add: w_def)
      obtain evs a where ev: "ct_trace c1 = ct_trace c @ evs" "at_region (ct_trace c1) k off a" "accesses evs = [OsStore a w]"
        using run(3) True by auto
      have m: "mem_word (ct_trace c1) (A + of_nat i * 4) a" using ev(2) A by (auto simp: mem_word_def)
      obtain m where ih: "m \<le> n" "mem_run OsStore A (i + 1) (map (\<lambda>j. get32 (drop (8 + j * 4) data)) [i + 1..<i + 1 + m]) c1 c'"
        "st = BVSTK_OK \<longrightarrow> m = n" using Suc.IH [OF go run(1)] by blast
      have "[i..<i + Suc m] = i # [i + 1..<i + 1 + m]" by (simp add: upt_conv_Cons)
      then have "mem_run OsStore A i (map (\<lambda>j. get32 (drop (8 + j * 4) data)) [i..<i + Suc m]) c c'"
        using mem_run_Cons [where mk = OsStore, OF run(1,2) ev(1,3) m ih(2)] by (simp add: w_def del: upt_Suc)
      then show ?thesis using ih by (intro exI [of _ "Suc m"]) auto
    qed
  qed
qed

section \<open>Bus requests\<close>

text \<open>The register writes of an I2C trace that the policy of a configured device permits.\<close>

definition i2c_permitted :: "i2c_service option \<Rightarrow> seen list \<Rightarrow> bool" where
  "i2c_permitted service u \<longleftrightarrow> (\<forall>a reg v. Wrote a reg v \<in> set u \<longrightarrow>
     (\<exists>s d. service = Some s \<and> service_status (Some s) d = BVSTK_OK \<and> dv_addr_7b (dev_of s d) = a \<and>
        in_range s d reg v \<and> allowed s d reg v))"

definition i2c_run :: "control_st \<Rightarrow> control_st \<Rightarrow> bool" where
  "i2c_run c c' \<longleftrightarrow> (\<exists>u. traffic (ct_i2c c') = traffic (ct_i2c c) @ u \<and> i2c_permitted (api_i2c c) u)"

definition mdio_run_ok :: "control_st \<Rightarrow> control_st \<Rightarrow> bool" where
  "mdio_run_ok c c' \<longleftrightarrow> (\<exists>u. frames (ct_mdio c') = frames (ct_mdio c) @ u \<and>
     list_all (permitted_frame (case api_mdio c of None \<Rightarrow> [] | Some s \<Rightarrow> md_devices s)) u)"

lemma event_if_wrote [simp]: "Wrote a r w \<notin> set (event_if s ty code dev reg v)"
  by (simp add: event_if_def)

lemma write_only_permitted:
  assumes res: "bvstk_i2c_master_service_write env s d reg v source timeout t = (st, s', t')"
  shows "\<exists>u. traffic t' = traffic t @ u \<and> i2c_permitted (Some s) u"
proof (cases "service_status (Some s) d = BVSTK_OK \<and> in_range s d reg v \<and> allowed s d reg v")
  case False
  then have "\<exists>u. traffic t' = traffic t @ u \<and> (\<forall>a r w. Wrote a r w \<notin> set u)"
    using res service_status_OK [of s d]
    by (auto simp: bvstk_i2c_master_service_write_def Let_def in_range_def allowed_def split: if_splits bvstk_status_t.splits)
  then show ?thesis by (auto simp: i2c_permitted_def)
next
  case True
  then obtain s1 t3 t4 s2 t5 s3 t6 t7 fl where
    b: "backend_write env s (dev_of s d) reg v timeout t3 = (st, s1, t4)"
    and t3: "t3 = leave s (enter s (emit env s 1 0 source 1 (dev_of s d) (ucast reg) v t))"
    and rr: "record_response s1 d (dv_addr_7b (dev_of s d)) st False t4 = (s2, t5)"
    and t6: "t6 = emit_flags env s2 0x0103 (status_code st) source 1 (dev_of s d) (ucast reg) v fl t5"
    and cr: "cache_response env s2 d (dev_of s d) reg (if st = BVSTK_OK then v else 0) st
       (if st = BVSTK_OK then t6 else emit env s2 5 (status_code st) source 1 (dev_of s d) (ucast reg) v t6) = (s3, t7)"
    and s': "s' = s3" "t' = (if st = BVSTK_OK then emit env s3 2 0 source 1 (dev_of s d) (ucast reg) v t7 else t7)"
    using write_permitted [OF _ _ _ res] by metis
  note q1 = backend_write_traffic(1) [OF b]
    and q2 = quietD(1) [OF quiet_record_response [of s1 t4 d "dv_addr_7b (dev_of s d)" st False, unfolded rr]]
    and q3 = quietD(1) [OF quiet_cache_response [of s2 "if st = BVSTK_OK then t6 else
      emit env s2 5 (status_code st) source 1 (dev_of s d) (ucast reg) v t6" env d "dev_of s d" reg
      "if st = BVSTK_OK then v else 0" st, unfolded cr]]
  have "i2c_permitted (Some s) [Wrote (dv_addr_7b (dev_of s d)) reg v]" using True by (auto simp: i2c_permitted_def)
  then show ?thesis using q1 q2 q3 t3 t6 s' by (auto simp: i2c_permitted_def)
qed

lemma read_no_writes:
  assumes res: "bvstk_i2c_master_service_read env s d reg (Some x) timeout t = (st, v, s', t')"
  shows "\<exists>u. traffic t' = traffic t @ u \<and> i2c_permitted service u" "v \<noteq> None"
proof -
  note r = res [unfolded bvstk_i2c_master_service_read_def]
  have "(\<exists>u. traffic t' = traffic t @ u \<and> (\<forall>a r w. Wrote a r w \<notin> set u)) \<and> v \<noteq> None"
  proof (cases "readable s d reg")
    case False
    then show ?thesis using read_refused [OF False r] by simp
  next
    case True
    obtain w s1 t1 s2 t2 fl where b: "backend_read env s (dev_of s d) reg x timeout t = (st, w, s1, t1)" "v = Some w"
      and rr: "record_response s1 d (dv_addr_7b (dev_of s d)) st True t1 = (s2, t2)"
      and cr: "cache_response env s2 d (dev_of s d) reg (if st = BVSTK_OK then w else 0) st
         (emit_flags env s2 0x0102 (status_code st) BVSTK_EVENT_SOURCE_INTERNAL 0 (dev_of s d) (ucast reg) (if st = BVSTK_OK then w else 0) fl t2) = (s', t')"
      using read_done [OF True r] by metis
    note q1 = backend_read_traffic [OF b(1)]
      and q2 = quietD [OF quiet_record_response [of s1 t1 d "dv_addr_7b (dev_of s d)" st True, unfolded rr]]
      and q3 = quietD [OF quiet_cache_response [of s2 "emit_flags env s2 0x0102 (status_code st) BVSTK_EVENT_SOURCE_INTERNAL 0 (dev_of s d)
        (ucast reg) (if st = BVSTK_OK then w else 0) fl t2" env d "dev_of s d" reg "if st = BVSTK_OK then w else 0" st, unfolded cr]]
    show ?thesis using b(2) q1(1,2) q2(1,2) q3(1) by auto
  qed
  then show "\<exists>u. traffic t' = traffic t @ u \<and> i2c_permitted service u" "v \<noteq> None" by (auto simp: i2c_permitted_def)
qed

lemma get_policy_traffic:
  assumes "bvstk_i2c_master_service_get_policy s d out t = (st, entry, t')"
  shows "traffic t' = traffic t"
  using assms by (auto simp: bvstk_i2c_master_service_get_policy_def Let_def split: bvstk_status_t.splits prod.splits)

text \<open>The configuration operations of the policy handler are quiet.\<close>

lemma policy_ops_traffic:
  "traffic (snd (snd (bvstk_i2c_master_service_set_policy s d m t))) = traffic t"
  "traffic (snd (snd (bvstk_i2c_master_service_rule_clear_list s d m t))) = traffic t"
  "traffic (snd (snd (bvstk_i2c_master_service_rule_remove s d m r v t))) = traffic t"
  "traffic (snd (snd (bvstk_i2c_master_service_rule_allow s d r v t))) = traffic t"
  "traffic (snd (snd (bvstk_i2c_master_service_rule_deny s d r v t))) = traffic t"
  using quiet_config_step [of "(s, t)" "OpSetPolicy d m"] quiet_config_step [of "(s, t)" "OpRuleClearList d m"]
    quiet_config_step [of "(s, t)" "OpRuleRemove d m r v"] quiet_config_step [of "(s, t)" "OpRuleAllow d r v"]
    quiet_config_step [of "(s, t)" "OpRuleDeny d r v"]
  by (simp_all add: quiet_def traffic_def)

section \<open>MDIO\<close>

lemma locked_query_run:
  assumes "locked_query env service f t = (st, x, t')"
  shows "frames t' = frames t" "mirror env t' = mirror env t"
proof -
  obtain lst t1 where l: "mlock env service t = (lst, t1)" by fastforce
  have "t' = t1 \<or> t' = munlock (the service) t1" using assms l
    by (auto simp: locked_query_def split: bvstk_status_t.splits prod.splits)
  then show "frames t' = frames t" "mirror env t' = mirror env t" using mlock_trace [OF l] mlock_mirror [OF l] by auto
qed

lemma locked_frames:
  assumes run: "locked env s none f t = (st, x, s', t')"
    and body: "\<And>t1 st x s' t'. mirror env t1 = mirror env t \<Longrightarrow> f t1 = (st, x, s', t') \<Longrightarrow> \<exists>u. frames t' = frames t1 @ u \<and> P u"
    and none: "P []"
  shows "\<exists>u. frames t' = frames t @ u \<and> P u"
proof -
  obtain lst t1 where l: "mlock env (Some s) t = (lst, t1)" by fastforce
  obtain st2 x2 s2 t2 where f: "f t1 = (st2, x2, s2, t2)" by (metis prod_cases4)
  note tr = mlock_trace [OF l] and mi = mlock_mirror [OF l, of env]
  show ?thesis using run l f tr body [OF mi f] none by (auto simp: locked_def split: bvstk_status_t.splits)
qed

lemma mdio_read_frames:
  assumes "bvstk_mdio_service_read env s d r out timeout t = (st, v, s', t')"
  shows "\<exists>u. frames t' = frames t @ u \<and> list_all (permitted_frame cs) u" "st = BVSTK_OK \<Longrightarrow> v \<noteq> None"
proof -
  note run = assms [unfolded bvstk_mdio_service_read_def bvstk_mdio_service_read_from_def]
  show "\<exists>u. frames t' = frames t @ u \<and> list_all (permitted_frame cs) u"
  proof (rule locked_frames [OF run])
    fix t1 st1 x1 s1 t2
    assume f: "(let st = check s d r; st = if \<not> out then BVSTK_ERR_MALFORMED else st
      in if st = BVSTK_OK then let (st', v, s', t') = read_phy env s d r BVSTK_EVENT_SOURCE_INTERNAL timeout False t1
            in (st', if st' = BVSTK_OK then Some v else None, s', t') else (st, None, s, t1)) = (st1, x1, s1, t2)"
    obtain st3 v3 s3 t3 where p: "read_phy env s d r BVSTK_EVENT_SOURCE_INTERNAL timeout False t1 = (st3, v3, s3, t3)"
      by (metis prod_cases4)
    show "\<exists>u. frames t2 = frames t1 @ u \<and> list_all (permitted_frame cs) u"
      using f p read_phy_quiet [OF p, of cs] by (auto simp: Let_def split: if_splits)
  qed simp
  show "st = BVSTK_OK \<Longrightarrow> v \<noteq> None"
    using run by (auto simp: locked_def Let_def split_beta split: if_splits bvstk_status_t.splits)
qed

lemma locked_op_frames:
  assumes run: "locked_op env s f t = (st, s', t')"
    and body: "\<And>t1 st s' t'. mirror env t1 = mirror env t \<Longrightarrow> f t1 = (st, s', t') \<Longrightarrow> \<exists>u. frames t' = frames t1 @ u \<and> P u"
    and none: "P []"
  shows "\<exists>u. frames t' = frames t @ u \<and> P u"
proof -
  obtain x where l: "locked env s () (\<lambda>t. case f t of (st, s', t') \<Rightarrow> (st, (), s', t')) t = (st, x, s', t')"
    using run by (auto simp: locked_op_def split: prod.splits)
  show ?thesis by (rule locked_frames [where P = P, OF l _ none]) (use body in \<open>auto split: prod.splits\<close>)
qed

lemma mdio_write_frames:
  assumes inv: "minv env s t" and run: "bvstk_mdio_service_write env s d r v src timeout t = (st, s', t')"
  shows "\<exists>u. frames t' = frames t @ u \<and> list_all (permitted_frame (md_devices s)) u"
proof (rule locked_op_frames [OF run [unfolded bvstk_mdio_service_write_def]])
  fix t1 st1 s1 t2
  assume m: "mirror env t1 = mirror env t"
    and f: "(case check s d r of BVSTK_OK \<Rightarrow> write_phy env s d r v src timeout t1 | st \<Rightarrow> (st, s, t1)) = (st1, s1, t2)"
  show "\<exists>u. frames t2 = frames t1 @ u \<and> list_all (permitted_frame (md_devices s)) u"
  proof (cases "check s d r = BVSTK_OK")
    case True
    then have w: "write_phy env s d r v src timeout t1 = (st1, s1, t2)" "d < length (md_devices s)"
      using f True by (simp, simp only: check_OK)
    show ?thesis using write_phy_step_frames [OF minv_mirror [OF inv m] w(2,1)] by blast
  qed (use f in \<open>auto split: bvstk_status_t.splits\<close>)
qed simp

text \<open>The policy operations put nothing on the wire and keep the invariant.\<close>

lemma mdio_policy_frames:
  assumes "minv env s t" and run: "bvstk_mdio_service_set_policy env s d m t = (st, s', t') \<or>
    bvstk_mdio_service_rule_clear_list env s d m t = (st, s', t') \<or>
    bvstk_mdio_service_rule_remove env s d m r v k t = (st, s', t') \<or> bvstk_mdio_service_rule_add env s d m r v k t = (st, s', t')"
  shows "frames t' = frames t" "minv env s' t'"
proof -
  note defs = bvstk_mdio_service_set_policy_def bvstk_mdio_service_rule_clear_list_def bvstk_mdio_service_rule_remove_def
    bvstk_mdio_service_rule_add_def
  have same: "frames t' = frames t" if "locked_op env s f t = (st, s', t')" "\<And>t1 st s' t'. f t1 = (st, s', t') \<Longrightarrow> t' = t1" for f
    using locked_op_frames [where P = "\<lambda>u. u = []", OF that(1)] that(2) by fastforce
  show "frames t' = frames t"
    using run unfolding defs
    by (elim disjE) (rule same, assumption, auto simp: Let_def split: bvstk_status_t.splits prod.splits if_splits)+
  show "minv env s' t'"
    using run by (elim disjE) (erule exec_set_policy_minv [OF assms(1)] exec_rule_clear_minv [OF assms(1)]
      exec_rule_remove_minv [OF assms(1)] exec_rule_add_minv [OF assms(1)])+
qed

section \<open>The whole handler\<close>

definition control_wf :: "control_env \<Rightarrow> control_st \<Rightarrow> bool" where
  [wf_defs]: "control_wf e c \<longleftrightarrow> pl_ok c \<and>
     (case api_spi c of None \<Rightarrow> True | Some s \<Rightarrow> spi_wf s (ct_trace c)) \<and>
     (case api_mdio c of None \<Rightarrow> True | Some s \<Rightarrow> minv (ce_mdio e) s (ct_mdio c))"

text \<open>The register accesses of a request: a memory request touches the words it names, in order and
  none other; an SPI request stays in the windows of the core; no other request touches a register.\<close>

definition words_at :: "bytes \<Rightarrow> nat \<Rightarrow> u32 list" where
  "words_at data m = map (\<lambda>j. get32 (drop (8 + j * 4) data)) [0..<m]"

definition mmio_run :: "bvstk_dcp2_request_t \<Rightarrow> control_st \<Rightarrow> control_st \<Rightarrow> bool" where
  "mmio_run rq c c' \<longleftrightarrow> (\<exists>evs. ct_trace c' = ct_trace c @ evs \<and>
    (let data = the (rq_body rq); A = get32 (drop 2 data) in
     if rq_service rq = BVSTK_DCP2_SERVICE_MEM
     then (\<exists>m \<le> 256. if rq_opcode rq = BVSTK_DCP2_OP_MEM_WRITE then touched (ct_trace c') OsStore A 0 (words_at data m) (accesses evs)
         else \<exists>vs. length vs = m \<and> touched (ct_trace c') OsLoad A 0 vs (accesses evs))
     else if rq_service rq = BVSTK_DCP2_SERVICE_SPI then spi_confined (ct_trace c') evs
     else accesses evs = []))"

definition request_run :: "control_env \<Rightarrow> bvstk_dcp2_request_t \<Rightarrow> control_st \<Rightarrow> control_st \<Rightarrow> bool" where
  "request_run e rq c c' \<longleftrightarrow> control_wf e c' \<and> i2c_run c c' \<and> mdio_run_ok c c' \<and> mmio_run rq c c'"

definition reply_ok :: "bytes \<Rightarrow> bvstk_status_t \<Rightarrow> bytes \<Rightarrow> u16 \<Rightarrow> bool" where
  "reply_ok body st body' n \<longleftrightarrow> length body' = length body \<and> unat n \<le> 4090 \<and> (st \<noteq> BVSTK_OK \<longrightarrow> n = 0)"

lemma i2c_run_same: "ct_i2c c' = ct_i2c c \<Longrightarrow> i2c_run c c'"
  by (simp add: i2c_run_def i2c_permitted_def)

lemma mdio_run_same: "frames (ct_mdio c') = frames (ct_mdio c) \<Longrightarrow> mdio_run_ok c c'"
  by (simp add: mdio_run_ok_def)

lemma mmio_run_same: "ct_mmio c' = ct_mmio c \<Longrightarrow> mmio_run rq c c'"
  unfolding mmio_run_def Let_def
  by (intro exI [of _ "[]"]) (auto simp: spi_confined_def words_at_def intro!: exI [of _ "0::nat"])

lemma request_run_refl: "control_wf e c \<Longrightarrow> request_run e rq c c"
  by (simp add: request_run_def i2c_run_same mdio_run_same mmio_run_same)

lemma length_put [simp]: "length (put16 d v) = length d" "length (put32 d w) = length d"
  by (simp_all add: put16_def put32_def bvstk_dcp2_write_be16_def bvstk_dcp2_write_be32_def)

lemma length_put_words [simp]: "length (put_words ws i body) = length body"
  by (induction ws i body rule: put_words.induct) simp_all

lemma length_put_i2c_rules [simp]: "length (put_i2c_rules rs n body) = length body"
  by (induction rs n body rule: put_i2c_rules.induct) simp_all

lemma length_put_mdio_rules [simp]: "length (put_mdio_rules rs n body) = length body"
  by (induction rs n body rule: put_mdio_rules.induct) simp_all

lemma words_size: "m \<le> 256 \<Longrightarrow> unat (of_nat m * 4 :: u16) = m * 4"
proof -
  assume "m \<le> 256"
  then have "unat (of_nat (m * 4) :: u16) = m * 4" by (intro unat_of_nat_small) simp
  then show ?thesis by simp
qed

lemma length_put_policy_head [simp]: "length (put_policy_head m w b body) = length body"
  by (simp add: put_policy_head_def)

lemma reply_error: "reply_ok body st body 0"
  by (simp add: reply_ok_def)

text \<open>Memory.\<close>

lemma mem_run_request:
  assumes "control_wf e c" "rq_service rq = BVSTK_DCP2_SERVICE_MEM" "length vs \<le> 256" "mem_run mk (get32 (drop 2 (the (rq_body rq)))) 0 vs c c'"
    and "if rq_opcode rq = BVSTK_DCP2_OP_MEM_WRITE then mk = OsStore \<and> vs = words_at (the (rq_body rq)) (length vs) else mk = OsLoad"
  shows "request_run e rq c c'"
proof -
  obtain evs where ev: "ct_trace c' = ct_trace c @ evs"
    "touched (ct_trace c') mk (get32 (drop 2 (the (rq_body rq)))) 0 vs (accesses evs)"
    and s: "pl_ok c'" "same_buses c c'" using assms(4) by (auto simp: mem_run_def)
  have "control_wf e c'" using assms(1) s ev(1)
    by (auto simp: control_wf_def same_buses_def spi_wf_mono split: option.splits)
  moreover have "mmio_run rq c c'"
    unfolding mmio_run_def Let_def using ev assms(2,3,5) by (intro exI [of _ evs]) (auto split: if_splits)
  moreover have "i2c_run c c'" "mdio_run_ok c c'" using s(2) by (auto simp: same_buses_def intro: i2c_run_same mdio_run_same)
  ultimately show ?thesis by (simp add: request_run_def)
qed

lemma length_mem_read_loop: "mem_read_loop e n i A body c = (st, body', c') \<Longrightarrow> length body' = length body"
proof (induction n arbitrary: i body c)
  case (Suc n)
  then show ?case by (auto split: prod.splits bvstk_status_t.splits option.splits)
qed simp

lemma process_mem_run:
  assumes "process_mem e rq body c = (st, body', n, c')" "control_wf e c" "rq_service rq = BVSTK_DCP2_SERVICE_MEM"
  shows "request_run e rq c c' \<and> reply_ok body st body' n"
    and "st = BVSTK_OK \<Longrightarrow> rq_opcode rq = BVSTK_DCP2_OP_MEM_READ \<Longrightarrow> \<exists>vs evs. ct_trace c' = ct_trace c @ evs \<and>
       touched (ct_trace c') OsLoad (get32 (drop 2 (the (rq_body rq)))) 0 vs (accesses evs) \<and>
       n = of_nat (length vs * 4) \<and> length vs \<le> 256 \<and> body' = put_words vs 0 body"
proof -
  let ?data = "the (rq_body rq)"
  define A where "A = get32 (drop 2 ?data)"
  define count where "count = unat (get16 (drop 6 ?data))"
  have ok: "pl_ok c" using assms(2) by (simp add: control_wf_def)
  consider (rd) "rq_opcode rq = 0" "count \<le> 256" "mem_read_loop e count 0 A body c = (st, body', c')"
      "n = (if st = BVSTK_OK then of_nat (count * 4) else 0)"
    | (wr) "rq_opcode rq = 1" "count \<le> 256" "mem_write_loop e count 0 A ?data c = (st, c')" "body' = body" "n = 0"
    | (err) "st \<noteq> BVSTK_OK" "body' = body" "n = 0" "c' = c"
    using assms(1) unfolding process_mem_def Let_def A_def count_def
    by (auto split: if_splits prod.splits)
  note cases = this
  have both: "(request_run e rq c c' \<and> reply_ok body st body' n) \<and>
    (st = BVSTK_OK \<and> rq_opcode rq = 0 \<longrightarrow> (\<exists>vs evs. ct_trace c' = ct_trace c @ evs \<and>
       touched (ct_trace c') OsLoad A 0 vs (accesses evs) \<and> n = of_nat (length vs * 4) \<and> length vs \<le> 256 \<and> body' = put_words vs 0 body))"
  proof (cases rule: cases)
    case rd
    obtain vs where vs: "mem_run OsLoad A 0 vs c c'" "length vs \<le> count" "st = BVSTK_OK \<longrightarrow> length vs = count \<and> body' = put_words vs 0 body"
      using mem_read_loop_run [OF rd(3) ok] by blast
    have l: "length body' = length body" using length_mem_read_loop [OF rd(3)] .
    have "request_run e rq c c'"
      by (rule mem_run_request [OF assms(2,3) _ vs(1) [unfolded A_def]]) (use vs(2) rd(1,2) in auto)
    moreover have "reply_ok body st body' n"
      using l rd(2,4) by (auto simp: reply_ok_def words_size)
    ultimately show ?thesis using vs rd(2,4) by (auto simp: mem_run_def)
  next
    case wr
    obtain m where m: "m \<le> count" "mem_run OsStore A 0 (words_at ?data m) c c'"
      using mem_write_loop_run [OF wr(3) ok] by (auto simp: words_at_def)
    have "request_run e rq c c'"
      by (rule mem_run_request [OF assms(2,3) _ m(2) [unfolded A_def]]) (use m(1) wr(1,2) in \<open>auto simp: words_at_def\<close>)
    then show ?thesis using wr by (simp add: reply_error)
  next
    case err
    then show ?thesis using request_run_refl [OF assms(2)] by (simp add: reply_error)
  qed
  then show "request_run e rq c c' \<and> reply_ok body st body' n" by blast
  show "st = BVSTK_OK \<Longrightarrow> rq_opcode rq = BVSTK_DCP2_OP_MEM_READ \<Longrightarrow> \<exists>vs evs. ct_trace c' = ct_trace c @ evs \<and>
       touched (ct_trace c') OsLoad (get32 (drop 2 ?data)) 0 vs (accesses evs) \<and>
       n = of_nat (length vs * 4) \<and> length vs \<le> 256 \<and> body' = put_words vs 0 body"
    using both unfolding A_def by blast
qed

text \<open>I2C.\<close>

lemma i2c_request_run:
  assumes "control_wf e c" "rq_service rq = BVSTK_DCP2_SERVICE_I2C"
    and "c' = c \<lparr> api_i2c := s', ct_i2c := t' \<rparr>" "\<exists>u. traffic t' = traffic (ct_i2c c) @ u \<and> i2c_permitted (api_i2c c) u"
  shows "request_run e rq c c'"
proof -
  have "control_wf e c'" using assms(1) by (simp add: assms(3) control_wf_def pl_ok_def cong: option.case_cong)
  moreover have "i2c_run c c'" using assms(4) by (simp add: i2c_run_def assms(3))
  ultimately show ?thesis by (simp add: request_run_def assms(3) mdio_run_same mmio_run_same)
qed

lemma i2c_quiet_run:
  assumes "control_wf e c" "rq_service rq = BVSTK_DCP2_SERVICE_I2C" "traffic t' = traffic (ct_i2c c)"
  shows "request_run e rq c (c \<lparr> api_i2c := s', ct_i2c := t' \<rparr>)" "request_run e rq c (c \<lparr> ct_i2c := t' \<rparr>)"
proof -
  have u: "\<exists>u. traffic t' = traffic (ct_i2c c) @ u \<and> i2c_permitted (api_i2c c) u" using assms(3) by (simp add: i2c_permitted_def)
  have "c \<lparr> ct_i2c := t' \<rparr> = c \<lparr> api_i2c := api_i2c c, ct_i2c := t' \<rparr>" by simp
  from i2c_request_run [OF assms(1,2) this u] show "request_run e rq c (c \<lparr> ct_i2c := t' \<rparr>)" .
  show "request_run e rq c (c \<lparr> api_i2c := s', ct_i2c := t' \<rparr>)" by (rule i2c_request_run [OF assms(1,2) refl u])
qed

lemma policy_reply_ok:
  assumes "policy_reply mx sz w b body cap put = (st, body', n)" "\<And>x. length (put x) = length x"
  shows "body' = None \<longleftrightarrow> body = None" "body \<noteq> None \<Longrightarrow> reply_ok (the body) st (the body') n"
proof -
  have "unat (of_nat k :: u16) = k" if "k \<le> 4090" for k using that by (intro unat_of_nat_small) simp
  then show "body' = None \<longleftrightarrow> body = None" "body \<noteq> None \<Longrightarrow> reply_ok (the body) st (the body') n"
    using assms by (auto simp: policy_reply_def reply_ok_def Let_def split: if_splits simp del: of_nat_add of_nat_mult)
qed

lemma process_policy_i2c_run:
  assumes "process_policy_i2c rq (Some body) cap c = (st, body', n, c')" "control_wf e c" "rq_service rq = BVSTK_DCP2_SERVICE_I2C"
  shows "request_run e rq c c' \<and> body' \<noteq> None \<and> reply_ok body st (the body') n"
proof -
  let ?data = "the (rq_body rq)"
  obtain st0 dev where f: "bvstk_i2c_master_service_find_by_addr (api_i2c c) (?data ! 0) True = (st0, dev)" by fastforce
  show ?thesis
  proof (cases "st0 = BVSTK_OK \<and> dev \<noteq> None")
    case False
    then have "c' = c" "body' = Some body" "n = 0" using assms(1) f
      by (auto simp: process_policy_i2c_def Let_def split: bvstk_status_t.splits option.splits)
    then show ?thesis using request_run_refl [OF assms(2)] by (simp add: reply_error)
  next
    case True
    then obtain d where d: "dev = Some d" by blast
    let ?s = "the (api_i2c c)"
    show ?thesis
    proof (cases "rq_opcode rq = BVSTK_DCP2_OP_POLICY_GET")
      case get: True
      obtain st1 en t1 where g: "bvstk_i2c_master_service_get_policy ?s d True (ct_i2c c) = (st1, en, t1)" by (metis prod_cases3)
      note q = i2c_quiet_run(2) [OF assms(2,3) get_policy_traffic [OF g]]
      show ?thesis
      proof (cases "st1 = BVSTK_OK \<and> en \<noteq> None")
        case no: False
        then have "c' = c \<lparr> ct_i2c := t1 \<rparr>" "body' = Some body" "n = 0" using assms(1) f True d get g
          by (auto simp: process_policy_i2c_def Let_def split: bvstk_status_t.splits option.splits)
        then show ?thesis using q by (simp add: reply_error)
      next
        case yes: True
        then obtain entry where en: "en = Some entry" by blast
        let ?put = "\<lambda>b. put_i2c_rules (pe_whitelist entry @ pe_blacklist entry) 5
          (put_policy_head (pe_mode entry) (length (pe_whitelist entry)) (length (pe_blacklist entry)) b)"
        have r: "policy_reply I2C_CFG_RULES_MAX 2 (length (pe_whitelist entry)) (length (pe_blacklist entry)) (Some body) cap ?put =
            (st, body', n)" "c' = c \<lparr> ct_i2c := t1 \<rparr>"
          using assms(1) f True d get g yes en by (auto simp: process_policy_i2c_def Let_def split: prod.splits)
        show ?thesis using policy_reply_ok [OF r(1)] q r(2) by simp
      qed
    next
      case False
      obtain st1 s1 t1 where g: "(if rq_opcode rq = BVSTK_DCP2_OP_POLICY_SET
            then bvstk_i2c_master_service_set_policy ?s d (ucast (?data ! 1)) (ct_i2c c)
          else if rq_opcode rq = BVSTK_DCP2_OP_POLICY_CLEAR then bvstk_i2c_master_service_rule_clear_list ?s d (ucast (?data ! 1)) (ct_i2c c)
          else if rq_opcode rq = BVSTK_DCP2_OP_POLICY_RULE_DELETE
            then bvstk_i2c_master_service_rule_remove ?s d (ucast (?data ! 1)) (?data ! 2) (?data ! 3) (ct_i2c c)
          else if ?data ! 1 = 0 then bvstk_i2c_master_service_rule_allow ?s d (?data ! 2) (?data ! 3) (ct_i2c c)
          else bvstk_i2c_master_service_rule_deny ?s d (?data ! 2) (?data ! 3) (ct_i2c c)) = (st1, s1, t1)" by (metis prod_cases3)
      have t: "traffic t1 = traffic (ct_i2c c)"
        using arg_cong [OF g, of "\<lambda>x. traffic (snd (snd x))"] policy_ops_traffic by (simp split: if_splits)
      have "c' = c \<lparr> api_i2c := Some s1, ct_i2c := t1 \<rparr>" "body' = Some body" "n = 0"
        using assms(1) f True d False g by (simp_all add: process_policy_i2c_def Let_def del: One_nat_def)
      then show ?thesis using i2c_quiet_run(1) [OF assms(2,3) t] by (simp add: reply_error)
    qed
  qed
qed

lemma process_i2c_run:
  assumes pol: "\<And>body st body' n c'. bvstk_dcp2_process_policy e (Some rq) (Some body) cap c = (st, body', n, c') \<Longrightarrow>
      request_run e rq c c' \<and> body' \<noteq> None \<and> reply_ok body st (the body') n"
    and run: "process_i2c e rq body cap c = (st, body', n, c')" and wf: "control_wf e c"
    and service: "rq_service rq = BVSTK_DCP2_SERVICE_I2C"
  shows "request_run e rq c c' \<and> reply_ok body st body' n"
proof -
  let ?data = "the (rq_body rq)"
  obtain st0 dev where f: "bvstk_i2c_master_service_find_by_addr (api_i2c c) (?data ! 0) True = (st0, dev)" by fastforce
  obtain st1 b1 n1 c1 where p: "bvstk_dcp2_process_policy e (Some rq) (Some body) cap c = (st1, b1, n1, c1)" by (metis prod_cases4)
  consider (policy) "st = st1" "body' = the b1" "n = n1" "c' = c1"
    | (rd) d s st2 v s2 t2 where "api_i2c c = Some s"
        "bvstk_i2c_master_service_read (ce_i2c e) s d (?data ! 1) (Some (body ! 0)) 100 (ct_i2c c) = (st2, v, s2, t2)"
        "st = st2" "body' = body[0 := the v]" "n = (if st2 = BVSTK_OK then 1 else 0)" "c' = c \<lparr> api_i2c := Some s2, ct_i2c := t2 \<rparr>"
    | (wr) d s st2 s2 t2 where "api_i2c c = Some s"
        "bvstk_i2c_master_service_write (ce_i2c e) s d (?data ! 1) (?data ! 2) BVSTK_EVENT_SOURCE_DCP 100 (ct_i2c c) = (st2, s2, t2)"
        "st = st2" "body' = body" "n = 0" "c' = c \<lparr> api_i2c := Some s2, ct_i2c := t2 \<rparr>"
    | (err) "body' = body" "n = 0" "c' = c"
  proof (cases "rq_opcode rq \<ge> 2 \<and> rq_opcode rq \<le> 6 \<or> \<not> (st0 = BVSTK_OK \<and> dev \<noteq> None \<and> api_i2c c \<noteq> None)")
    case True
    then show ?thesis using run p f policy err
      by (auto simp: process_i2c_def Let_def split: if_splits bvstk_status_t.splits option.splits)
  next
    case False
    then obtain d s where d: "st0 = BVSTK_OK" "dev = Some d" "api_i2c c = Some s" by blast
    have nop: "(rq_opcode rq \<ge> 2 \<and> rq_opcode rq \<le> 6) = False" using False by blast
    obtain st2 v s2 t2 where r:
      "bvstk_i2c_master_service_read (ce_i2c e) s d (?data ! 1) (Some (body ! 0)) 100 (ct_i2c c) = (st2, v, s2, t2)" by (metis prod_cases4)
    obtain st3 s3 t3 where w: "bvstk_i2c_master_service_write (ce_i2c e) s d (?data ! 1) (?data ! 2) BVSTK_EVENT_SOURCE_DCP 100 (ct_i2c c) =
      (st3, s3, t3)" by (metis prod_cases3)
    have "(st, body', n, c') =
      (let sz = unat (rq_body_size rq) in
       if rq_opcode rq \<noteq> 0 \<and> rq_opcode rq \<noteq> 1 then (BVSTK_ERR_UNSUPPORTED, body, 0, c)
       else if sz < 2 then (BVSTK_ERR_MALFORMED, body, 0, c)
       else if rq_opcode rq = 0 then if sz \<noteq> 2 then (BVSTK_ERR_MALFORMED, body, 0, c)
         else (st2, body[0 := the v], if st2 = BVSTK_OK then 1 else 0, c \<lparr> api_i2c := Some s2, ct_i2c := t2 \<rparr>)
       else if sz \<noteq> 3 then (BVSTK_ERR_MALFORMED, body, 0, c) else (st3, body, 0, c \<lparr> api_i2c := Some s3, ct_i2c := t3 \<rparr>))"
      unfolding run [symmetric] process_i2c_def bvstk_control_i2c_read_def bvstk_control_i2c_write_def Let_def
      by (simp only: nop f [unfolded d] d r w if_False prod.case option.case bvstk_status_t.case simp_thms option.distinct)
    then show ?thesis using rd [OF d(3) r] wr [OF d(3) w] err by (auto simp: Let_def split: if_splits)
  qed
  then show ?thesis
  proof cases
    case policy
    then show ?thesis using pol [OF p] by simp
  next
    case rd
    note r = read_no_writes(1) [OF rd(2), of "api_i2c c"]
    show ?thesis using i2c_request_run [OF wf service rd(6) r] rd by (simp add: reply_ok_def)
  next
    case wr
    then show ?thesis using i2c_request_run [OF wf service wr(6)] write_only_permitted [OF wr(2)] by (simp add: reply_error)
  next
    case err
    then show ?thesis using request_run_refl [OF wf] by (simp add: reply_error)
  qed
qed

text \<open>MDIO.\<close>

lemma mdio_request_run:
  assumes "control_wf e c" "rq_service rq = BVSTK_DCP2_SERVICE_MDIO" "api_mdio c = Some s"
    and "\<exists>u. frames t' = frames (ct_mdio c) @ u \<and> list_all (permitted_frame (md_devices s)) u" "minv (ce_mdio e) s' t'"
  shows "request_run e rq c (c \<lparr> api_mdio := Some s', ct_mdio := t' \<rparr>)"
proof -
  let ?c = "c \<lparr> api_mdio := Some s', ct_mdio := t' \<rparr>"
  have "control_wf e ?c" using assms(1,5) by (simp add: control_wf_def pl_ok_def cong: option.case_cong)
  moreover have "mdio_run_ok c ?c" using assms(3,4) by (simp add: mdio_run_ok_def)
  ultimately show ?thesis by (simp add: request_run_def i2c_run_same mmio_run_same)
qed

lemma mdio_query_run:
  assumes wf: "control_wf e c" "rq_service rq = BVSTK_DCP2_SERVICE_MDIO" "locked_query (ce_mdio e) (api_mdio c) f (ct_mdio c) = (st, x, t')"
  shows "request_run e rq c (c \<lparr> ct_mdio := t' \<rparr>)" "control_wf e (c \<lparr> ct_mdio := t' \<rparr>)"
proof -
  note q = locked_query_run [OF wf(3)]
  show w: "control_wf e (c \<lparr> ct_mdio := t' \<rparr>)"
    using wf(1) minv_mirror [OF _ q(2)] by (auto simp: control_wf_def pl_ok_def split: option.splits)
  show "request_run e rq c (c \<lparr> ct_mdio := t' \<rparr>)"
    using w q(1) by (simp add: request_run_def i2c_run_same mmio_run_same mdio_run_same)
qed

lemma request_run_mdio_trans:
  assumes "request_run e rq (c \<lparr> ct_mdio := t \<rparr>) c'" "frames t = frames (ct_mdio c)" "rq_service rq = BVSTK_DCP2_SERVICE_MDIO"
  shows "request_run e rq c c'"
  using assms by (auto simp: request_run_def i2c_run_def mdio_run_ok_def mmio_run_def Let_def)

lemma process_policy_mdio_run:
  assumes run: "process_policy_mdio e rq (Some body) cap c = (st, body', n, c')" and wf: "control_wf e c"
    and service: "rq_service rq = BVSTK_DCP2_SERVICE_MDIO"
  shows "request_run e rq c c' \<and> body' \<noteq> None \<and> reply_ok body st (the body') n"
proof -
  let ?data = "the (rq_body rq)"
  obtain st0 dev t where f: "bvstk_mdio_service_find_by_phy (ce_mdio e) (api_mdio c) (?data ! 0) True (ct_mdio c) = (st0, dev, t)"
    by (metis prod_cases3)
  note q = mdio_query_run [OF wf service f [unfolded bvstk_mdio_service_find_by_phy_def]]
  show ?thesis
  proof (cases "st0 = BVSTK_OK \<and> dev \<noteq> None")
    case False
    then have "c' = c \<lparr> ct_mdio := t \<rparr>" "body' = Some body" "n = 0" using run f
      by (auto simp: process_policy_mdio_def Let_def split: bvstk_status_t.splits option.splits)
    then show ?thesis using q(1) by (simp add: reply_error)
  next
    case True
    then obtain d where d: "dev = Some d" by blast
    obtain s where s: "api_mdio c = Some s"
      using f True by (cases "api_mdio c") (auto simp: bvstk_mdio_service_find_by_phy_def locked_query_def mlock_def)
    have fr: "frames t = frames (ct_mdio c)" using locked_query_run [OF f [unfolded bvstk_mdio_service_find_by_phy_def]] by simp
    have inv: "minv (ce_mdio e) s t" using q(2) s by (simp add: control_wf_def)
    show ?thesis
    proof (cases "rq_opcode rq = BVSTK_DCP2_OP_POLICY_GET")
      case get: True
      obtain st1 en t1 where g: "bvstk_mdio_service_get_policy (ce_mdio e) (Some s) d True t = (st1, en, t1)" by (metis prod_cases3)
      have "locked_query (ce_mdio e) (api_mdio (c \<lparr> ct_mdio := t \<rparr>)) (\<lambda>s. let c = md_devices s ! d in checked_out s d 0 True
         \<lparr> mpe_mode = mc_policy c, mpe_whitelist = mc_whitelist c, mpe_blacklist = mc_blacklist c \<rparr>) (ct_mdio (c \<lparr> ct_mdio := t \<rparr>)) = (st1, en, t1)"
        using g s by (simp add: bvstk_mdio_service_get_policy_def)
      from mdio_query_run(1) [OF q(2) service this] have "request_run e rq (c \<lparr> ct_mdio := t \<rparr>) (c \<lparr> ct_mdio := t1 \<rparr>)" by simp
      from request_run_mdio_trans [OF this fr service] have r: "request_run e rq c (c \<lparr> ct_mdio := t1 \<rparr>)" .
      show ?thesis
      proof (cases "st1 = BVSTK_OK \<and> en \<noteq> None")
        case no: False
        then have "c' = c \<lparr> ct_mdio := t1 \<rparr>" "body' = Some body" "n = 0" using run f True d s get g
          by (auto simp: process_policy_mdio_def Let_def split: bvstk_status_t.splits option.splits)
        then show ?thesis using r by (simp add: reply_error)
      next
        case yes: True
        then obtain entry where en: "en = Some entry" by blast
        let ?put = "\<lambda>b. put_mdio_rules (mpe_whitelist entry @ mpe_blacklist entry) 5
          (put_policy_head (mpe_mode entry) (length (mpe_whitelist entry)) (length (mpe_blacklist entry)) b)"
        have p: "policy_reply MDIO_CFG_RULES_MAX 5 (length (mpe_whitelist entry)) (length (mpe_blacklist entry)) (Some body) cap ?put =
            (st, body', n)" "c' = c \<lparr> ct_mdio := t1 \<rparr>"
          using run f True d s get g yes en by (auto simp: process_policy_mdio_def Let_def split: prod.splits)
        show ?thesis using policy_reply_ok [OF p(1)] r p(2) by simp
      qed
    next
      case False
      define m :: u32 where "m = ucast (?data ! 1)"
      define r v k where "r = ?data ! 2" and "v = get16 (drop 3 ?data)" and "k = get16 (drop 5 ?data)"
      obtain st1 s1 t1 where g: "(if rq_opcode rq = BVSTK_DCP2_OP_POLICY_SET then bvstk_mdio_service_set_policy (ce_mdio e) s d m t
          else if rq_opcode rq = BVSTK_DCP2_OP_POLICY_CLEAR then bvstk_mdio_service_rule_clear_list (ce_mdio e) s d m t
          else if rq_opcode rq = BVSTK_DCP2_OP_POLICY_RULE_DELETE then bvstk_mdio_service_rule_remove (ce_mdio e) s d m r v k t
          else bvstk_mdio_service_rule_add (ce_mdio e) s d m r v k t) = (st1, s1, t1)" by (metis prod_cases3)
      then have ops: "bvstk_mdio_service_set_policy (ce_mdio e) s d m t = (st1, s1, t1) \<or>
          bvstk_mdio_service_rule_clear_list (ce_mdio e) s d m t = (st1, s1, t1) \<or>
          bvstk_mdio_service_rule_remove (ce_mdio e) s d m r v k t = (st1, s1, t1) \<or>
          bvstk_mdio_service_rule_add (ce_mdio e) s d m r v k t = (st1, s1, t1)" by (simp split: if_splits)
      have "c' = c \<lparr> api_mdio := Some s1, ct_mdio := t1 \<rparr>" "body' = Some body" "n = 0"
        using run f True d s False g unfolding m_def r_def v_def k_def
        by (simp_all add: process_policy_mdio_def Let_def del: One_nat_def)
      then show ?thesis
        using mdio_request_run [OF wf service s _ mdio_policy_frames(2) [OF inv ops]] mdio_policy_frames(1) [OF inv ops] fr
        by (simp add: reply_error)
    qed
  qed
qed

lemma process_policy_run:
  assumes "bvstk_dcp2_process_policy e (Some rq) (Some body) cap c = (st, body', n, c')" "control_wf e c"
  shows "request_run e rq c c' \<and> body' \<noteq> None \<and> reply_ok body st (the body') n"
  using assms request_run_refl [OF assms(2)] process_policy_i2c_run [OF _ assms(2), of rq body cap st body' n c']
    process_policy_mdio_run [OF _ assms(2), of rq body cap st body' n c']
  by (auto simp: bvstk_dcp2_process_policy_def Let_def reply_error split: if_splits)

lemma process_mdio_run:
  assumes run: "process_mdio e rq body cap c = (st, body', n, c')" and wf: "control_wf e c"
    and service: "rq_service rq = BVSTK_DCP2_SERVICE_MDIO"
  shows "request_run e rq c c' \<and> reply_ok body st body' n"
proof -
  let ?data = "the (rq_body rq)"
  obtain st0 dev t where f: "bvstk_mdio_service_find_by_phy (ce_mdio e) (api_mdio c) (?data ! 0) True (ct_mdio c) = (st0, dev, t)"
    by (metis prod_cases3)
  note q = mdio_query_run [OF wf service f [unfolded bvstk_mdio_service_find_by_phy_def]]
  have fr: "frames t = frames (ct_mdio c)" using locked_query_run [OF f [unfolded bvstk_mdio_service_find_by_phy_def]] by simp
  obtain st1 b1 n1 c1 where p: "bvstk_dcp2_process_policy e (Some rq) (Some body) cap c = (st1, b1, n1, c1)" by (metis prod_cases4)
  consider (policy) "st = st1" "body' = the b1" "n = n1" "c' = c1"
    | (rd) d s st2 v s2 t2 where "api_mdio c = Some s"
        "bvstk_mdio_service_read (ce_mdio e) s d (?data ! 1) True 100 t = (st2, v, s2, t2)"
        "st = st2" "body' = (if st2 = BVSTK_OK then put16 body (the v) else body)" "n = (if st2 = BVSTK_OK then 2 else 0)"
        "c' = c \<lparr> api_mdio := Some s2, ct_mdio := t2 \<rparr>"
    | (wr) d s st2 s2 t2 where "api_mdio c = Some s"
        "bvstk_mdio_service_write (ce_mdio e) s d (?data ! 1) (get16 (drop 2 ?data)) BVSTK_EVENT_SOURCE_DCP 100 t = (st2, s2, t2)"
        "st = st2" "body' = body" "n = 0" "c' = c \<lparr> api_mdio := Some s2, ct_mdio := t2 \<rparr>"
    | (err) "body' = body" "n = 0" "c' = c \<or> c' = c \<lparr> ct_mdio := t \<rparr>"
  proof (cases "rq_opcode rq \<ge> 2 \<and> rq_opcode rq \<le> 6 \<or> \<not> (st0 = BVSTK_OK \<and> dev \<noteq> None \<and> api_mdio c \<noteq> None)")
    case True
    show ?thesis
    proof (cases "rq_opcode rq \<ge> 2 \<and> rq_opcode rq \<le> 6")
      case True
      then show ?thesis using run p by (intro policy) (simp_all add: process_mdio_def Let_def)
    next
      case no: False
      have "(st, body', n, c') \<in> {(x, body, 0, c) | x. True} \<union> {(x, body, 0, c \<lparr> ct_mdio := t \<rparr>) | x. True}"
        unfolding run [symmetric] process_mdio_def Let_def f
        by (simp only: no if_False prod.case) (use no True in \<open>cases st0; cases dev; simp\<close>)
      then show ?thesis by (intro err) auto
    qed
  next
    case False
    then obtain d s where d: "st0 = BVSTK_OK" "dev = Some d" "api_mdio c = Some s" by blast
    have nop: "(rq_opcode rq \<ge> 2 \<and> rq_opcode rq \<le> 6) = False" using False by blast
    obtain st2 v s2 t2 where r: "bvstk_mdio_service_read (ce_mdio e) s d (?data ! 1) True 100 t = (st2, v, s2, t2)" by (metis prod_cases4)
    obtain st3 s3 t3 where w: "bvstk_mdio_service_write (ce_mdio e) s d (?data ! 1) (get16 (drop 2 ?data)) BVSTK_EVENT_SOURCE_DCP 100 t =
      (st3, s3, t3)" by (metis prod_cases3)
    have rc: "bvstk_control_mdio_read e (c \<lparr> ct_mdio := t \<rparr>) d (?data ! 1) True 100 = (st2, v, c \<lparr> api_mdio := Some s2, ct_mdio := t2 \<rparr>)"
      and wc: "bvstk_control_mdio_write e (c \<lparr> ct_mdio := t \<rparr>) d (?data ! 1) (get16 (drop 2 ?data)) BVSTK_EVENT_SOURCE_DCP 100 =
        (st3, c \<lparr> api_mdio := Some s3, ct_mdio := t3 \<rparr>)"
      using d(3) r w by (simp_all add: bvstk_control_mdio_read_def bvstk_control_mdio_write_def)
    have eq: "(st, body', n, c') =
      (let sz = unat (rq_body_size rq) in
       if rq_opcode rq \<noteq> 0 \<and> rq_opcode rq \<noteq> 1 then (BVSTK_ERR_UNSUPPORTED, body, 0, c)
       else if sz < 2 then (BVSTK_ERR_MALFORMED, body, 0, c)
       else if rq_opcode rq = 0 then if sz \<noteq> 2 then (BVSTK_ERR_MALFORMED, body, 0, c \<lparr> ct_mdio := t \<rparr>)
         else (st2, if st2 = BVSTK_OK then put16 body (the v) else body, if st2 = BVSTK_OK then 2 else 0,
               c \<lparr> api_mdio := Some s2, ct_mdio := t2 \<rparr>)
       else if sz \<noteq> 4 then (BVSTK_ERR_MALFORMED, body, 0, c \<lparr> ct_mdio := t \<rparr>)
         else (st3, body, 0, c \<lparr> api_mdio := Some s3, ct_mdio := t3 \<rparr>))"
      unfolding run [symmetric] process_mdio_def Let_def
      by (cases st2) (simp_all only: nop f [unfolded d] d(3) rc wc if_False if_True prod.case option.case bvstk_status_t.case
        simp_thms option.distinct bvstk_status_t.distinct)
    consider "rq_opcode rq = 0" "unat (rq_body_size rq) = 2" | "rq_opcode rq = 1" "unat (rq_body_size rq) = 4"
      | "\<not> (rq_opcode rq = 0 \<and> unat (rq_body_size rq) = 2)" "\<not> (rq_opcode rq = 1 \<and> unat (rq_body_size rq) = 4)" by blast
    then show ?thesis
    proof cases
      case 1
      then show ?thesis using eq by (intro rd [OF d(3) r]) (simp_all add: Let_def)
    next
      case 2
      then show ?thesis using eq by (intro wr [OF d(3) w]) (simp_all add: Let_def)
    next
      case 3
      then show ?thesis using eq by (intro err) (auto simp: Let_def split: if_splits)
    qed
  qed
  then show ?thesis
  proof cases
    case policy
    then show ?thesis using process_policy_run [OF p wf] by simp
  next
    case rd
    have inv: "minv (ce_mdio e) s t" using q(2) rd(1) by (simp add: control_wf_def)
    have "minv (ce_mdio e) s2 t2" using exec_read_minv [OF inv rd(2) [unfolded bvstk_mdio_service_read_def]] .
    from mdio_request_run [OF wf service rd(1) _ this] show ?thesis
      using mdio_read_frames(1) [OF rd(2), of "md_devices s"] fr rd by (simp add: reply_ok_def)
  next
    case wr
    have inv: "minv (ce_mdio e) s t" using q(2) wr(1) by (simp add: control_wf_def)
    from mdio_request_run [OF wf service wr(1) _ exec_write_minv [OF inv wr(2)]] show ?thesis
      using mdio_write_frames [OF inv wr(2)] fr wr by (simp add: reply_error)
  next
    case err
    then show ?thesis using request_run_refl [OF wf] q(1) by (auto simp: reply_error)
  qed
qed

text \<open>SPI.\<close>

lemma process_spi_run:
  assumes clock: "mm_clock_ok (ce_mmio e)" and wf: "control_wf e c" and service: "rq_service rq = BVSTK_DCP2_SERVICE_SPI"
  shows "\<exists>st body' n c'. process_spi e rq body c = Some (st, body', n, c') \<and> request_run e rq c c' \<and> reply_ok body st body' n"
proof -
  let ?data = "the (rq_body rq)"
  define count where "count = unat (get16 ?data)"
  show ?thesis
  proof (cases "api_spi c = None \<or> rq_opcode rq \<noteq> 0 \<or> unat (rq_body_size rq) < 2 \<or> count = 0 \<or> count > 256 \<or>
      rq_body_size rq \<noteq> of_nat (2 + count * 4)")
    case True
    then have "\<exists>st. process_spi e rq body c = Some (st, body, 0, c)" by (auto simp: process_spi_def Let_def count_def)
    then show ?thesis using request_run_refl [OF wf] reply_error by blast
  next
    case False
    then obtain spi where spi: "api_spi c = Some spi" by (cases "api_spi c") simp_all
    have w: "case Some spi of None \<Rightarrow> True | Some s \<Rightarrow> spi_wf s (ct_trace c)" using wf spi by (simp add: control_wf_def)
    obtain st rx s' where t: "bvstk_spi_core_transfer (ce_mmio e) (Some spi) (Some (spi_tx_words ?data count)) count (Some (ce_rx e)) count 100
        (ct_mmio c) = Some (st, rx, s')" "appends (spi_confined (ct_trace c)) (ct_mmio c) s'"
      using spi_transfer_run [OF clock w] by blast
    let ?c = "c \<lparr> ct_mmio := s' \<rparr>"
    have conds: "(api_spi c = None) = False" "(rq_opcode rq \<noteq> 0 \<or> unat (rq_body_size rq) < 2) = False"
      "(count = 0 \<or> count > 256 \<or> rq_body_size rq \<noteq> of_nat (2 + count * 4)) = False" using False by blast+
    have eq: "process_spi e rq body c = Some (if st \<noteq> BVSTK_OK then (st, body, 0, ?c)
        else (BVSTK_OK, put_words (take count (the rx)) 0 body, of_nat (count * 4), ?c))"
      using conds t(1) unfolding process_spi_def bvstk_control_spi_transfer_def Let_def count_def
      by (simp only: spi if_False option.case prod.case)
    obtain evs where ev: "mm_trace s' = ct_trace c @ evs" "spi_confined (ct_trace c) evs" using t(2) by (auto simp: appends_def)
    have "control_wf e ?c" using wf pl_wf_mono spi_wf_mono
      by (auto simp: control_wf_def pl_ok_def ev(1) split: option.splits)
    moreover have "mmio_run rq c ?c"
      unfolding mmio_run_def Let_def using ev service spi_confined_mono by (intro exI [of _ evs]) auto
    ultimately have "request_run e rq c ?c" by (simp add: request_run_def i2c_run_same mdio_run_same)
    moreover have "reply_ok body BVSTK_OK (put_words (take count (the rx)) 0 body) (of_nat (count * 4))"
      using False by (simp add: reply_ok_def words_size)
    ultimately show ?thesis using eq reply_error by (auto split: if_splits)
  qed
qed

section \<open>Replies\<close>

fun load_value :: "mmio_event \<Rightarrow> u32" where
  "load_value (OsLoad a v) = v"
| "load_value _ = 0"

lemma touched_values: "touched tr OsLoad A i vs evs \<Longrightarrow> map load_value evs = vs"
  by (induction vs arbitrary: i evs) auto

lemma put_words_eq:
  "(i + length vs) * 4 \<le> length body \<Longrightarrow>
   put_words vs i body = take (i * 4) body @ concat (map be32 vs) @ drop ((i + length vs) * 4) body"
proof (induction vs arbitrary: i body)
  case (Cons v vs)
  define b where "b = at_offset (i * 4) (\<lambda>p. put32 p v) body"
  have b: "b = take (i * 4) body @ be32 v @ drop (i * 4 + 4) body"
    using Cons.prems be32.at_offset_wr [of "i * 4" body v] by (simp add: b_def)
  have l: "length (take (i * 4) body @ be32 v) = (i + 1) * 4" using Cons.prems by simp
  have "put_words vs (i + 1) b = take ((i + 1) * 4) b @ concat (map be32 vs) @ drop ((i + 1 + length vs) * 4) b"
    using Cons.prems by (intro Cons.IH) (simp add: b)
  moreover have "take ((i + 1) * 4) b = take (i * 4) body @ be32 v" using l by (simp add: b)
  moreover have "drop ((i + 1 + length vs) * 4) b = drop ((i + length (v # vs)) * 4) body"
  proof -
    have "drop ((i + 1 + length vs) * 4) b = drop (length vs * 4) (drop ((i + 1) * 4) b)" by (simp add: algebra_simps)
    also have "drop ((i + 1) * 4) b = drop (i * 4 + 4) body" using l by (simp add: b)
    finally show ?thesis by (simp add: algebra_simps)
  qed
  ultimately show ?case by (simp add: b_def)
qed simp

lemma length_concat_be32: "length (concat (map be32 vs)) = length vs * 4"
  by (induction vs) simp_all

lemma memcpy_take: "memcpy p (take k b) k = memcpy p b k"
  by (simp add: memcpy_def)

lemma encode_response_buffer:
  assumes "length f = cap" "unat n \<le> 4090" "unat n \<le> length body"
  shows "bvstk_dcp2_encode_response (Some f) cap (Some rq) code (if n = 0 then None else Some body) n (Some sz) =
    (if 14 + unat n \<le> cap
     then (0, Some (response_frame (rq_service rq) (rq_opcode rq AND 0x3F) (rq_sequence rq) code (take (unat n) body) @
             drop (14 + unat n) f), Some (14 + unat n))
     else (-1, Some f, Some sz))"
proof -
  let ?enc = "\<lambda>b. bvstk_dcp2_encode_response (Some f) cap (Some rq) code b n (Some sz)"
  have eq: "?enc (if n = 0 then None else Some body) = ?enc (Some (take (unat n) body))"
    by (cases "n = 0")
      (simp_all only: bvstk_dcp2_encode_response_def memcpy_take option.sel if_True if_False option.case prod.case simp_thms
        option.distinct unsigned_0)
  have "(4 + 2 + n :: u16) = of_nat (6 + unat n)" by simp
  then have u: "unat (6 + n :: u16) = 6 + unat n"
    using assms(2) by (simp only: numeral_plus_numeral semiring_norm) (subst unat_of_nat_small, simp_all)
  show ?thesis
  proof (cases "14 + unat n \<le> cap")
    case True
    then show ?thesis unfolding eq using encode_response_ok [OF assms(1) _ assms(2) True, of "take (unat n) body" rq code sz] assms(3)
      by (simp add: min_def)
  next
    case False
    then show ?thesis unfolding eq using u by (simp add: bvstk_dcp2_encode_response_def Let_def)
  qed
qed

text \<open>The dispatch of a request: it returns, stays confined and leaves a reply that fits.\<close>

definition dispatch :: "control_env \<Rightarrow> bvstk_dcp2_request_t \<Rightarrow> nat \<Rightarrow> control_st \<Rightarrow> (bvstk_status_t \<times> bytes \<times> u16 \<times> control_st) option" where
  "dispatch e rq cap c =
    (if rq_service rq = BVSTK_DCP2_SERVICE_PING \<and> rq_opcode rq = BVSTK_DCP2_OP_PING \<and> rq_body_size rq = 0
     then Some (BVSTK_OK, ce_body e, 0, c)
     else if rq_service rq = BVSTK_DCP2_SERVICE_MEM then Some (process_mem e rq (ce_body e) c)
     else if rq_service rq = BVSTK_DCP2_SERVICE_I2C then Some (process_i2c e rq (ce_body e) cap c)
     else if rq_service rq = BVSTK_DCP2_SERVICE_MDIO then Some (process_mdio e rq (ce_body e) cap c)
     else if rq_service rq = BVSTK_DCP2_SERVICE_SPI then process_spi e rq (ce_body e) c
     else Some (BVSTK_ERR_UNSUPPORTED, ce_body e, 0, c))"

definition loaded_reply :: "control_st \<Rightarrow> control_st \<Rightarrow> bytes \<Rightarrow> bool" where
  "loaded_reply c c' bd \<longleftrightarrow> (\<exists>evs. ct_trace c' = ct_trace c @ evs \<and> bd = concat (map (\<lambda>ev. be32 (load_value ev)) (accesses evs)))"

lemma dispatch_run:
  assumes clock: "mm_clock_ok (ce_mmio e)" and wf: "control_wf e c" and body: "length (ce_body e) = BVSTK_DCP2_MAX_PAYLOAD"
  shows "\<exists>st body' n c'. dispatch e rq cap c = Some (st, body', n, c') \<and> request_run e rq c c' \<and> reply_ok (ce_body e) st body' n \<and>
    (rq_service rq = BVSTK_DCP2_SERVICE_MEM \<and> rq_opcode rq = BVSTK_DCP2_OP_MEM_READ \<and> st = BVSTK_OK \<longrightarrow>
       loaded_reply c c' (take (unat n) body'))"
proof -
  consider (ping) "rq_service rq = 0 \<and> rq_opcode rq = 0 \<and> rq_body_size rq = 0" | (mem) "rq_service rq = 1" | (i2c) "rq_service rq = 2"
    | (mdio) "rq_service rq = 3" | (spi) "rq_service rq = 4"
    | (other) "\<not> (rq_service rq = 0 \<and> rq_opcode rq = 0 \<and> rq_body_size rq = 0)" "rq_service rq \<notin> {1, 2, 3, 4}" by auto
  then show ?thesis
  proof cases
    case ping
    then show ?thesis using request_run_refl [OF wf] by (simp add: dispatch_def reply_error)
  next
    case mem
    obtain st body' n c' where p: "process_mem e rq (ce_body e) c = (st, body', n, c')" by (metis prod_cases4)
    have "loaded_reply c c' (take (unat n) body')" if ok: "st = BVSTK_OK" "rq_opcode rq = 0"
    proof -
      obtain vs evs where v: "ct_trace c' = ct_trace c @ evs" "touched (ct_trace c') OsLoad (get32 (drop 2 (the (rq_body rq)))) 0 vs (accesses evs)"
        "n = of_nat (length vs * 4)" "length vs \<le> 256" "body' = put_words vs 0 (ce_body e)"
        using process_mem_run(2) [OF p wf mem ok] by blast
      have "take (unat n) body' = concat (map be32 vs)"
        using put_words_eq [of 0 vs "ce_body e"] v(3-5) body words_size [OF v(4)] by (simp add: length_concat_be32)
      also have "vs = map load_value (accesses evs)" using touched_values [OF v(2)] by simp
      finally show ?thesis using v(1) by (auto simp: loaded_reply_def comp_def)
    qed
    then show ?thesis using p mem process_mem_run(1) [OF p wf mem] by (simp add: dispatch_def)
  next
    case i2c
    obtain st body' n c' where p: "process_i2c e rq (ce_body e) cap c = (st, body', n, c')" by (metis prod_cases4)
    show ?thesis using p i2c process_i2c_run [OF process_policy_run [OF _ wf] p wf i2c] by (simp add: dispatch_def)
  next
    case mdio
    obtain st body' n c' where p: "process_mdio e rq (ce_body e) cap c = (st, body', n, c')" by (metis prod_cases4)
    show ?thesis using p mdio process_mdio_run [OF p wf mdio] by (simp add: dispatch_def)
  next
    case spi
    then show ?thesis using process_spi_run [OF clock wf spi, of "ce_body e"] by (auto simp: dispatch_def)
  next
    case other
    then show ?thesis using request_run_refl [OF wf] by (simp add: dispatch_def reply_error)
  qed
qed

lemma process_request_eq:
  "bvstk_dcp2_process_request e c (Some rq) (Some frame) cap sz =
    (if cap < 14 then Some (-1, Some frame, sz, c)
     else case dispatch e rq (min (cap - 14) 4090) c of
       None \<Rightarrow> None
     | Some (st, body', n, c') \<Rightarrow>
         (case bvstk_dcp2_encode_response (Some frame) cap (Some rq) (bvstk_dcp2_status_from_bvstk st)
             (if n = 0 then None else Some body') n sz of (r, f, k) \<Rightarrow> Some (r, f, k, c')))"
  by (simp add: bvstk_dcp2_process_request_def dispatch_def Let_def)

text \<open>
  C7: Whatever a DCP2 request asks for, the handler returns and stays within bounds. It keeps the
  services consistent. The I2C service sends a register write only if it lies in the range of a
  configured device and the write policy in force when the request arrived allows it, and the MDIO
  service sends a write frame only under the same condition. A memory request makes aligned
  accesses to the words it names, one after the other and inside the declared register regions
  (these include the control registers of the bus cores, to which no policy applies); an SPI
  request touches only the two windows of the SPI core; no other request touches a register
  through the PL service at all.
\<close>

theorem dcp2_request_confined:
  assumes "mm_clock_ok (ce_mmio e)" "control_wf e c" "length (ce_body e) = BVSTK_DCP2_MAX_PAYLOAD"
  shows "\<exists>r f k c'. bvstk_dcp2_process_request e c (Some rq) (Some frame) cap sz = Some (r, f, k, c') \<and>
    control_wf e c' \<and> i2c_run c c' \<and> mdio_run_ok c c' \<and> mmio_run rq c c'"
proof -
  obtain st body' n c' where d: "dispatch e rq (min (cap - 14) 4090) c = Some (st, body', n, c')" "request_run e rq c c'"
    using dispatch_run [OF assms] by blast
  obtain r f k where enc: "bvstk_dcp2_encode_response (Some frame) cap (Some rq) (bvstk_dcp2_status_from_bvstk st)
      (if n = 0 then None else Some body') n sz = (r, f, k)" by (metis prod_cases3)
  show ?thesis
  proof (cases "cap < 14")
    case True
    then show ?thesis using request_run_refl [OF assms(2), of rq] by (simp add: process_request_eq request_run_def)
  next
    case False
    then show ?thesis using d enc by (simp add: process_request_eq request_run_def)
  qed
qed

text \<open>
  C8: Every request is answered by exactly one frame: the response to that service, opcode and
  sequence number, with the wire code of one status and a body that is empty unless the status is
  OK; the rest of the buffer is left as it was. Only when the frame does not fit the buffer nothing
  is written and the handler reports failure. The body of a successful memory read is the words
  loaded from the registers, in order.
\<close>

theorem dcp2_request_answered:
  assumes "mm_clock_ok (ce_mmio e)" "control_wf e c" "length (ce_body e) = BVSTK_DCP2_MAX_PAYLOAD"
    and "length frame = cap" "14 \<le> cap"
  shows "\<exists>st bd c'. bvstk_dcp2_process_request e c (Some rq) (Some frame) cap (Some sz) =
      Some (if 14 + length bd \<le> cap
        then (0, Some (response_frame (rq_service rq) (rq_opcode rq AND 0x3F) (rq_sequence rq) (bvstk_dcp2_status_from_bvstk st) bd @
                 drop (14 + length bd) frame), Some (14 + length bd), c')
        else (-1, Some frame, Some sz, c')) \<and>
    length bd \<le> 4090 \<and> (st \<noteq> BVSTK_OK \<longrightarrow> bd = []) \<and>
    (rq_service rq = BVSTK_DCP2_SERVICE_MEM \<and> rq_opcode rq = BVSTK_DCP2_OP_MEM_READ \<and> st = BVSTK_OK \<longrightarrow> loaded_reply c c' bd)"
proof -
  obtain st body' n c' where d: "dispatch e rq (min (cap - 14) 4090) c = Some (st, body', n, c')"
    "reply_ok (ce_body e) st body' n"
    "rq_service rq = 1 \<and> rq_opcode rq = 0 \<and> st = BVSTK_OK \<longrightarrow> loaded_reply c c' (take (unat n) body')"
    using dispatch_run [OF assms(1-3)] by blast
  have n: "unat n \<le> 4090" "unat n \<le> length body'" "st \<noteq> BVSTK_OK \<longrightarrow> n = 0" using d(2) assms(3) by (auto simp: reply_ok_def)
  show ?thesis
    using d n encode_response_buffer [OF assms(4) n(1,2), of rq "bvstk_dcp2_status_from_bvstk st" sz] assms(5)
    by (intro exI [of _ st] exI [of _ "take (unat n) body'"] exI [of _ c']) (auto simp: process_request_eq min_def)
qed

section \<open>An example\<close>

text \<open>Windows mapped where they are, registers that read as their address, a clock that runs, and the
  example devices of the two bus services.\<close>

definition demo_mmio_env :: mmio_env where
  "demo_mmio_env = \<lparr> os_thread_ctl = (\<lambda>tr. None), os_map = (\<lambda>tr b n. Inr b), os_load = (\<lambda>tr a. a),
     os_now = (\<lambda>tr. sum_list (map mm_cost tr)), os_lock = (\<lambda>tr t. BVSTK_OK) \<rparr>"

definition demo_control_env :: control_env where
  "demo_control_env = \<lparr> ce_mmio = demo_mmio_env, ce_i2c = example_env, ce_mdio = demo_mdio_env,
     ce_body = replicate 4096 0, ce_rx = replicate 256 0 \<rparr>"

definition demo_control :: control_st where
  "demo_control = \<lparr> api_pl = Some zero_pl_service, api_i2c = Some example_service, api_mdio = Some demo_service,
     api_spi = Some zero_spi_core, ct_mmio = \<lparr> platform_ready = False, mm_trace = [] \<rparr>, ct_i2c = [], ct_mdio = demo_trace \<rparr>"

lemma demo_control_ok:
  "mm_clock_ok (ce_mmio demo_control_env)" "control_wf demo_control_env demo_control"
  "length (ce_body demo_control_env) = BVSTK_DCP2_MAX_PAYLOAD"
  using init_minv [OF demo_init] pl_wf_init
  by (simp_all add: demo_control_env_def demo_control_def demo_mmio_env_def mm_clock_ok_def control_wf_def pl_ok_def
      spi_wf_def zero_spi_core_def)

text \<open>A value above the limit of the device is not written.\<close>

theorem dcp2_request_confined_witness:
  "\<exists>r f k c'. bvstk_dcp2_process_request demo_control_env demo_control
      (Some \<lparr> rq_service = 2, rq_opcode = 1, rq_sequence = 7, rq_body = Some [0x50, 3, 200], rq_body_size = 3 \<rparr>)
      (Some (replicate 32 0)) 32 (Some 0) = Some (r, f, k, c') \<and> Wrote 0x50 3 200 \<notin> set (traffic (ct_i2c c'))"
proof -
  let ?rq = "\<lparr> rq_service = 2, rq_opcode = 1, rq_sequence = 7, rq_body = Some [0x50, 3, 200], rq_body_size = 3 \<rparr>"
  obtain r f k c' where p: "bvstk_dcp2_process_request demo_control_env demo_control (Some ?rq) (Some (replicate 32 0)) 32 (Some 0) =
      Some (r, f, k, c')" "i2c_run demo_control c'"
    using dcp2_request_confined [OF demo_control_ok, of ?rq "replicate 32 0" 32 "Some 0"] by blast
  have zero: "d = 0" if "service_status (Some example_service) d = BVSTK_OK" for d
    using that by (auto simp: service_status_def example_service_def bvstk_i2c_devices_count_def split: if_splits)
  have "\<not> in_range example_service d 3 200" if "service_status (Some example_service) d = BVSTK_OK" for d
    using zero [OF that] example_service_facts(2) by (auto simp: in_range_def example_device_def word_le_nat_alt)
  moreover have "traffic [] = []" by (simp add: traffic_def visible_def)
  ultimately have "Wrote 0x50 3 200 \<notin> set (traffic (ct_i2c c'))"
    using p(2) unfolding i2c_run_def i2c_permitted_def demo_control_def by fastforce
  then show ?thesis using p(1) by blast
qed

text \<open>One register word, read over the wire.\<close>

theorem dcp2_request_answered_witness:
  "\<exists>st bd c'. bvstk_dcp2_process_request demo_control_env demo_control
      (Some \<lparr> rq_service = 1, rq_opcode = 0, rq_sequence = 7, rq_body = Some [0, 32, 0x43, 0xC0, 0, 8, 0, 1], rq_body_size = 8 \<rparr>)
      (Some (replicate 5000 0)) 5000 (Some 0) =
      Some (0, Some (response_frame 1 0 7 (bvstk_dcp2_status_from_bvstk st) bd @ replicate (5000 - (14 + length bd)) 0), Some (14 + length bd), c')"
proof -
  let ?rq = "\<lparr> rq_service = 1, rq_opcode = 0, rq_sequence = 7, rq_body = Some [0, 32, 0x43, 0xC0, 0, 8, 0, 1], rq_body_size = 8 \<rparr>"
  have "\<exists>st bd c'. bvstk_dcp2_process_request demo_control_env demo_control (Some ?rq) (Some (replicate 5000 0)) 5000 (Some 0) =
      Some (if 14 + length bd \<le> 5000
        then (0, Some (response_frame (rq_service ?rq) (rq_opcode ?rq AND 0x3F) (rq_sequence ?rq) (bvstk_dcp2_status_from_bvstk st) bd @
                drop (14 + length bd) (replicate 5000 0)), Some (14 + length bd), c')
        else (-1, Some (replicate 5000 0), Some 0, c')) \<and> length bd \<le> 4090"
    using dcp2_request_answered [where rq = ?rq and frame = "replicate 5000 0" and cap = 5000 and sz = 0, OF demo_control_ok length_replicate]
    by (simp only: numeral_le_iff semiring_norm True_implies_equals) blast
  then obtain st bd c' where p: "bvstk_dcp2_process_request demo_control_env demo_control (Some ?rq) (Some (replicate 5000 0)) 5000 (Some 0) =
      Some (if 14 + length bd \<le> 5000
        then (0, Some (response_frame (rq_service ?rq) (rq_opcode ?rq AND 0x3F) (rq_sequence ?rq) (bvstk_dcp2_status_from_bvstk st) bd @
                drop (14 + length bd) (replicate 5000 0)), Some (14 + length bd), c')
        else (-1, Some (replicate 5000 0), Some 0, c'))" "length bd \<le> 4090" by blast
  then have "bvstk_dcp2_process_request demo_control_env demo_control (Some ?rq) (Some (replicate 5000 0)) 5000 (Some 0) =
      Some (0, Some (response_frame 1 0 7 (bvstk_dcp2_status_from_bvstk st) bd @ replicate (5000 - (14 + length bd)) 0), Some (14 + length bd), c')"
    by (simp add: drop_replicate)
  then show ?thesis by (intro exI)
qed

section \<open>Stale words\<close>

text \<open>
  With reading disabled in the configuration of the SPI core a successful transfer leaves the
  receive buffer of the handler alone, and the reply carries what happened to be in it.
\<close>

lemma spi_reply_stale:
  assumes "process_spi e rq body c = Some (BVSTK_OK, body', n, c')" "api_spi c = Some spi" "\<not> sc_read_enable (sp_config spi)"
  shows "body' = put_words (take (unat (get16 (the (rq_body rq)))) (ce_rx e)) 0 body"
proof -
  obtain rx s' where t: "bvstk_spi_core_transfer (ce_mmio e) (Some spi) (Some (spi_tx_words (the (rq_body rq)) (unat (get16 (the (rq_body rq))))))
      (unat (get16 (the (rq_body rq)))) (Some (ce_rx e)) (unat (get16 (the (rq_body rq)))) 100 (ct_mmio c) = Some (BVSTK_OK, rx, s')"
    "body' = put_words (take (unat (get16 (the (rq_body rq)))) (the rx)) 0 body"
    using assms(1,2)
    by (auto simp: process_spi_def bvstk_control_spi_transfer_def Let_def split: if_splits option.splits)
  show ?thesis using t(2) spi_transfer_no_read [OF t(1) assms(3)] by simp
qed

end
