(* ===== verification/I2c_Master_Hw.thy ===== *)
theory I2c_Master_Hw
  imports Mmio_Poll
begin

text \<open>
  The I2C master driver of \<open>src/drivers/pl/i2c/bvstk_i2c_master.c\<close>: a transaction is put into the
  transmit FIFO as headers and bytes packed into words, started, awaited, and its result copied out
  of the shared memory; a transaction that times out is reset and tried again, three times in all,
  one that the device refuses is not. The buffers are lists whose length is at least the size given.
\<close>

section \<open>Registers and state\<close>

abbreviation (input) BVSTK_I2C_BRAM_BASE :: u32 where "BVSTK_I2C_BRAM_BASE \<equiv> 0x40000000"
abbreviation (input) BVSTK_I2C_BRAM_SIZE :: nat where "BVSTK_I2C_BRAM_SIZE \<equiv> 0x3000"
abbreviation (input) BVSTK_I2C_MASTER_BASE :: u32 where "BVSTK_I2C_MASTER_BASE \<equiv> 0x43C00000"
abbreviation (input) BVSTK_I2C_MASTER_SIZE :: nat where "BVSTK_I2C_MASTER_SIZE \<equiv> 0x10000"
abbreviation (input) BVSTK_I2C_MSTR_CSR_OFFSET :: nat where "BVSTK_I2C_MSTR_CSR_OFFSET \<equiv> 0x00"
abbreviation (input) BVSTK_I2C_MSTR_IRQ_OFFSET :: nat where "BVSTK_I2C_MSTR_IRQ_OFFSET \<equiv> 0x04"
abbreviation (input) BVSTK_I2C_MSTR_TX_FIFO_OFFSET :: nat where "BVSTK_I2C_MSTR_TX_FIFO_OFFSET \<equiv> 0x08"
abbreviation (input) BVSTK_I2C_BRAM_MASTER_OFFSET :: nat where "BVSTK_I2C_BRAM_MASTER_OFFSET \<equiv> 0"
abbreviation (input) BVSTK_I2C_MSTR_SOFT_RESET_BIT :: u32 where "BVSTK_I2C_MSTR_SOFT_RESET_BIT \<equiv> 1"
abbreviation (input) BVSTK_I2C_MSTR_START_BIT :: u32 where "BVSTK_I2C_MSTR_START_BIT \<equiv> 2"
abbreviation (input) BVSTK_I2C_MSTR_IRQ_RESET_BIT :: u32 where "BVSTK_I2C_MSTR_IRQ_RESET_BIT \<equiv> 1"
abbreviation (input) BVSTK_I2C_MSTR_IRQ_DATA_VALID :: u32 where "BVSTK_I2C_MSTR_IRQ_DATA_VALID \<equiv> 2"
abbreviation (input) BVSTK_I2C_MSTR_IRQ_ERR_ACK :: u32 where "BVSTK_I2C_MSTR_IRQ_ERR_ACK \<equiv> 8"
abbreviation (input) BVSTK_I2C_MASTER_RESULT_MAX_BYTES :: nat where "BVSTK_I2C_MASTER_RESULT_MAX_BYTES \<equiv> 0x1000 - 4"
abbreviation (input) BVSTK_I2C_DEFAULT_TIMEOUT_MS :: u32 where "BVSTK_I2C_DEFAULT_TIMEOUT_MS \<equiv> 100"
abbreviation (input) BVSTK_I2C_RECOVERY_DELAY_MS :: nat where "BVSTK_I2C_RECOVERY_DELAY_MS \<equiv> 10"
abbreviation (input) BVSTK_I2C_RECOVERY_ATTEMPTS :: nat where "BVSTK_I2C_RECOVERY_ATTEMPTS \<equiv> 3"

record bvstk_i2c_master_hw_t =
  ih_master :: bvstk_mmio_region_t
  ih_bram :: bvstk_mmio_region_t
  ih_mutex :: "bool \<times> bool"
  ih_initialized :: bool

definition zero_i2c_hw :: bvstk_i2c_master_hw_t where
  "zero_i2c_hw = \<lparr> ih_master = zero_region, ih_bram = zero_region, ih_mutex = (False, False), ih_initialized = False \<rparr>"

section \<open>Words of bytes\<close>

text \<open>The loop \<open>word |= (uint32_t)data[byte] << (8U * byte)\<close>, and its inverse.\<close>

fun pack_bytes :: "nat \<Rightarrow> bytes \<Rightarrow> u32 \<Rightarrow> u32" where
  "pack_bytes k [] word = word"
| "pack_bytes k (b # bs) word = pack_bytes (k + 1) bs (word OR push_bit (8 * k) (ucast b))"

definition unpack_bytes :: "u32 \<Rightarrow> nat \<Rightarrow> bytes" where
  "unpack_bytes word count = map (\<lambda>byte. ucast (drop_bit (8 * byte) word)) [0..<count]"

section \<open>Helpers\<close>

definition i2c_timeout :: "u32 \<Rightarrow> u32" where
  "i2c_timeout timeout_ms = (if timeout_ms = 0 then BVSTK_I2C_DEFAULT_TIMEOUT_MS else timeout_ms)"

definition make_header :: "u8 \<Rightarrow> bool \<Rightarrow> bool \<Rightarrow> nat \<Rightarrow> u32" where
  "make_header addr_7b is_read restart byte_count =
     push_bit 11 (of_nat byte_count AND 0x1FFFFF) OR push_bit 8 (if restart then 1 else 0) OR
     push_bit 7 (if is_read then 1 else 0) OR (ucast addr_7b AND 0x7F)"

definition wait_ready :: "mmio_env \<Rightarrow> bvstk_i2c_master_hw_t \<Rightarrow> u32 \<Rightarrow> mmio_st \<Rightarrow> (bvstk_status_t \<times> mmio_st) option" where
  "wait_ready e hw timeout_ms s =
    (case bvstk_platform_now_ms e s of (start, s1) \<Rightarrow>
       poll_loop e BVSTK_ERR_TIMEOUT (csr_probe e (ih_master hw) BVSTK_I2C_MSTR_CSR_OFFSET (\<lambda>csr. csr AND 1 = 0))
         start (i2c_timeout timeout_ms) s1)"

definition recover :: "bvstk_i2c_master_hw_t \<Rightarrow> mmio_st \<Rightarrow> mmio_st" where
  "recover hw s =
     bvstk_platform_sleep_ms BVSTK_I2C_RECOVERY_DELAY_MS
       (snd (spi_write32 (ih_master hw) BVSTK_I2C_MSTR_CSR_OFFSET BVSTK_I2C_MSTR_SOFT_RESET_BIT s))"

text \<open>A round of \<open>wait_completion\<close>: the status with \<open>nack\<close>, or none to go on.\<close>

definition completion_probe :: "mmio_env \<Rightarrow> bvstk_i2c_master_hw_t \<Rightarrow> nat \<Rightarrow> mmio_st \<Rightarrow> (bvstk_status_t \<times> bool) option \<times> mmio_st" where
  "completion_probe e hw read_size s =
    (case spi_read32 e (ih_master hw) BVSTK_I2C_MSTR_CSR_OFFSET s of
       (st, None, s1) \<Rightarrow> (Some (BVSTK_ERR_IO, False), s1)
     | (st, Some csr, s1) \<Rightarrow>
         (case spi_read32 e (ih_master hw) BVSTK_I2C_MSTR_IRQ_OFFSET s1 of
            (st, None, s2) \<Rightarrow> (Some (BVSTK_ERR_IO, False), s2)
          | (st, Some irq, s2) \<Rightarrow>
              (if irq AND BVSTK_I2C_MSTR_IRQ_ERR_ACK \<noteq> 0 then Some (BVSTK_ERR_IO, True)
               else if csr AND 1 = 0 \<and> (read_size = 0 \<or> irq AND BVSTK_I2C_MSTR_IRQ_DATA_VALID \<noteq> 0)
               then Some (BVSTK_OK, False) else None, s2)))"

definition wait_completion :: "mmio_env \<Rightarrow> bvstk_i2c_master_hw_t \<Rightarrow> nat \<Rightarrow> u32 \<Rightarrow> mmio_st \<Rightarrow>
    ((bvstk_status_t \<times> bool) \<times> mmio_st) option" where
  "wait_completion e hw read_size timeout_ms s =
    (case bvstk_platform_now_ms e s of (start, s1) \<Rightarrow>
       poll_loop e (BVSTK_ERR_TIMEOUT, False) (completion_probe e hw read_size) start (i2c_timeout timeout_ms) s1)"

fun write_fifo_bytes :: "bvstk_i2c_master_hw_t \<Rightarrow> bytes \<Rightarrow> mmio_st \<Rightarrow> bvstk_status_t \<times> mmio_st" where
  "write_fifo_bytes hw (a # b # c # d # rest) s =
    (case spi_write32 (ih_master hw) BVSTK_I2C_MSTR_TX_FIFO_OFFSET
            (ucast a OR push_bit 8 (ucast b) OR push_bit 16 (ucast c) OR push_bit 24 (ucast d)) s of
       (st, s1) \<Rightarrow> if st \<noteq> BVSTK_OK then (st, s1) else write_fifo_bytes hw rest s1)"
| "write_fifo_bytes hw [] s = (BVSTK_OK, s)"
| "write_fifo_bytes hw rest s =
     spi_write32 (ih_master hw) BVSTK_I2C_MSTR_TX_FIFO_OFFSET (pack_bytes 0 rest 0) s"

text \<open>The loop that copies the bytes of a mailbox, whose data begin at \<open>base\<close>: \<open>n\<close> bytes left, from
  \<open>offset\<close> on, into \<open>buf\<close>. The slave driver has the same loop.\<close>

function read_result :: "mmio_env \<Rightarrow> bvstk_mmio_region_t \<Rightarrow> nat \<Rightarrow> nat \<Rightarrow> nat \<Rightarrow> bytes \<Rightarrow> mmio_st \<Rightarrow>
    bvstk_status_t \<times> bytes \<times> mmio_st" where
  "read_result e bram base n offset buf s =
    (if n = 0 then (BVSTK_OK, buf, s)
     else
       let count = min n 4 in
       (case spi_read32 e bram (base + offset) s of
          (st, None, s1) \<Rightarrow> (st, buf, s1)
        | (st, Some word, s1) \<Rightarrow>
            read_result e bram base (n - count) (offset + count)
              (take offset buf @ unpack_bytes word count @ drop (offset + count) buf) s1))"
  by pat_completeness auto
termination by (relation "measure (\<lambda>(e, bram, base, n, rest). n)") auto

declare read_result.simps [simp del]

section \<open>Transactions\<close>

text \<open>One round of the loop of \<open>transfer_locked\<close>: whether it returns, the status and the buffer.\<close>

definition i2c_attempt :: "mmio_env \<Rightarrow> bvstk_i2c_master_hw_t \<Rightarrow> u8 \<Rightarrow> bytes \<Rightarrow> nat \<Rightarrow> bytes \<Rightarrow> u32 \<Rightarrow> mmio_st \<Rightarrow>
    (bool \<times> bvstk_status_t \<times> bytes \<times> mmio_st) option" where
  "i2c_attempt e hw addr wdata rsize buf timeout_ms s =
    do {
      (st, s1) \<leftarrow> wait_ready e hw timeout_ms s;
      if st \<noteq> BVSTK_OK then Some (False, st, buf, recover hw s1)
      else
        let tx = spi_write32 (ih_master hw) BVSTK_I2C_MSTR_TX_FIFO_OFFSET;
            (st2, s2) = spi_write32 (ih_master hw) BVSTK_I2C_MSTR_IRQ_OFFSET BVSTK_I2C_MSTR_IRQ_RESET_BIT s1;
            (st3, s3) = (if st2 = BVSTK_OK \<and> wdata \<noteq> []
                         then (case tx (make_header addr False (rsize \<noteq> 0) (length wdata)) s2 of
                                 (st, s') \<Rightarrow> if st = BVSTK_OK then write_fifo_bytes hw wdata s' else (st, s'))
                         else (st2, s2));
            (st4, s4) = (if st3 = BVSTK_OK \<and> rsize \<noteq> 0 then tx (make_header addr True False rsize) s3 else (st3, s3));
            (st5, s5) = (if st4 = BVSTK_OK
                         then spi_write32 (ih_master hw) BVSTK_I2C_MSTR_CSR_OFFSET BVSTK_I2C_MSTR_START_BIT s4 else (st4, s4)) in
        do {
          ((st6, nack), s6) \<leftarrow> (if st5 = BVSTK_OK then wait_completion e hw rsize timeout_ms s5 else Some ((st5, False), s5));
          if nack then Some (True, st6, buf, recover hw s6)
          else
            let (st7, buf7, s7) = (if st6 = BVSTK_OK \<and> rsize \<noteq> 0 then read_result e (ih_bram hw) (BVSTK_I2C_BRAM_MASTER_OFFSET + 4) rsize 0 buf s6 else (st6, buf, s6)) in
            if st7 = BVSTK_OK then Some (True, BVSTK_OK, buf7, s7)
            else Some (False, st7, buf7, recover hw s7) } }"

text \<open>The loop, with the attempts left; \<open>st\<close> is the status of the last one.\<close>

fun i2c_attempts :: "mmio_env \<Rightarrow> bvstk_i2c_master_hw_t \<Rightarrow> u8 \<Rightarrow> bytes \<Rightarrow> nat \<Rightarrow> u32 \<Rightarrow> nat \<Rightarrow> bvstk_status_t \<Rightarrow> bytes \<Rightarrow> mmio_st \<Rightarrow>
    (bvstk_status_t \<times> bytes \<times> mmio_st) option" where
  "i2c_attempts e hw addr wdata rsize timeout_ms 0 st buf s = Some (st, buf, s)"
| "i2c_attempts e hw addr wdata rsize timeout_ms (Suc n) st buf s =
    do {
      (fin, st1, buf1, s1) \<leftarrow> i2c_attempt e hw addr wdata rsize buf timeout_ms s;
      if fin then Some (st1, buf1, s1) else i2c_attempts e hw addr wdata rsize timeout_ms n st1 buf1 s1 }"

text \<open>The status before the first attempt is not looked at: there always is one.\<close>

definition transfer_locked :: "mmio_env \<Rightarrow> bvstk_i2c_master_hw_t \<Rightarrow> u8 \<Rightarrow> bytes option \<Rightarrow> nat \<Rightarrow> bytes option \<Rightarrow> nat \<Rightarrow> u32 \<Rightarrow>
    mmio_st \<Rightarrow> (bvstk_status_t \<times> bytes option \<times> mmio_st) option" where
  "transfer_locked e hw addr write_data write_size read_data read_size timeout_ms s =
    (if write_size = 0 \<and> read_size = 0 then Some (BVSTK_ERR_MALFORMED, read_data, s)
     else if (write_size \<noteq> 0 \<and> write_data = None) \<or> (read_size \<noteq> 0 \<and> read_data = None) \<or>
        write_size > 0x1FFFFF \<or> read_size > 0x1FFFFF \<or> read_size > BVSTK_I2C_MASTER_RESULT_MAX_BYTES
     then Some (BVSTK_ERR_RANGE, read_data, s)
     else do {
       (st, buf, s1) \<leftarrow> i2c_attempts e hw addr (case write_data of None \<Rightarrow> [] | Some w \<Rightarrow> take write_size w) read_size timeout_ms
         BVSTK_I2C_RECOVERY_ATTEMPTS BVSTK_OK (case read_data of None \<Rightarrow> [] | Some b \<Rightarrow> b) s;
       Some (st, map_option (\<lambda>_. buf) read_data, s1) })"

section \<open>Operations\<close>

definition bvstk_i2c_master_hw_init :: "mmio_env \<Rightarrow> bvstk_i2c_master_hw_t option \<Rightarrow> (bool \<times> bool) option \<Rightarrow> mmio_st \<Rightarrow>
    bvstk_status_t \<times> bvstk_i2c_master_hw_t option \<times> mmio_st" where
  "bvstk_i2c_master_hw_init e hardware mutex s =
    (case hardware of
       None \<Rightarrow> (BVSTK_ERR_MALFORMED, None, s)
     | Some _ \<Rightarrow>
         let h = zero_i2c_hw \<lparr> ih_mutex := (case mutex of None \<Rightarrow> (False, False) | Some m \<Rightarrow> m) \<rparr> in
         (case bvstk_mmio_region_open e (Some (ih_master h)) BVSTK_I2C_MASTER_BASE BVSTK_I2C_MASTER_SIZE s of
            (Some err, m, s1) \<Rightarrow> (BVSTK_ERR_IO, Some (h \<lparr> ih_master := the m \<rparr>), s1)
          | (None, m, s1) \<Rightarrow>
              let h1 = h \<lparr> ih_master := the m \<rparr> in
              (case bvstk_mmio_region_open e (Some (ih_bram h1)) BVSTK_I2C_BRAM_BASE BVSTK_I2C_BRAM_SIZE s1 of
                 (Some err, b, s2) \<Rightarrow>
                   let (m, s3) = bvstk_mmio_region_close (Some (ih_master h1)) s2
                   in (BVSTK_ERR_IO, Some (h1 \<lparr> ih_bram := the b, ih_master := the m \<rparr>), s3)
               | (None, b, s2) \<Rightarrow> (BVSTK_OK, Some (h1 \<lparr> ih_bram := the b, ih_initialized := True \<rparr>), s2))))"

definition bvstk_i2c_master_hw_shutdown :: "bvstk_i2c_master_hw_t option \<Rightarrow> mmio_st \<Rightarrow> bvstk_i2c_master_hw_t option \<times> mmio_st" where
  "bvstk_i2c_master_hw_shutdown hardware s =
    (case hardware of
       None \<Rightarrow> (None, s)
     | Some h \<Rightarrow> (Some zero_i2c_hw,
         if ih_initialized h
         then snd (bvstk_mmio_region_close (Some (ih_master h)) (snd (bvstk_mmio_region_close (Some (ih_bram h)) s)))
         else s))"

definition bvstk_i2c_master_hw_transfer :: "mmio_env \<Rightarrow> bvstk_i2c_master_hw_t option \<Rightarrow> u8 \<Rightarrow> bytes option \<Rightarrow> nat \<Rightarrow>
    bytes option \<Rightarrow> nat \<Rightarrow> u32 \<Rightarrow> mmio_st \<Rightarrow> (bvstk_status_t \<times> bytes option \<times> mmio_st) option" where
  "bvstk_i2c_master_hw_transfer e hardware addr_7b write_data write_size read_data read_size timeout_ms s =
    (case hardware of
       None \<Rightarrow> Some (BVSTK_ERR_NOT_READY, read_data, s)
     | Some h \<Rightarrow>
         if \<not> ih_initialized h then Some (BVSTK_ERR_NOT_READY, read_data, s)
         else
           let (st, s1) = bvstk_mutex_lock e (ih_mutex h) timeout_ms s in
           if st \<noteq> BVSTK_OK then Some (st, read_data, s1)
           else do {
             (st2, buf, s2) \<leftarrow> transfer_locked e h (addr_7b AND 0x7F) write_data write_size read_data read_size timeout_ms s1;
             Some (st2, buf, bvstk_mutex_unlock (ih_mutex h) s2) })"

text \<open>The byte at \<open>value\<close>, if it is not null.\<close>

definition bvstk_i2c_master_hw_read_reg :: "mmio_env \<Rightarrow> bvstk_i2c_master_hw_t option \<Rightarrow> u8 \<Rightarrow> u8 \<Rightarrow> u8 option \<Rightarrow> u32 \<Rightarrow> mmio_st \<Rightarrow>
    (bvstk_status_t \<times> u8 option \<times> mmio_st) option" where
  "bvstk_i2c_master_hw_read_reg e hardware addr_7b reg v timeout_ms s =
    do {
      (st, buf, s1) \<leftarrow> bvstk_i2c_master_hw_transfer e hardware addr_7b (Some [reg]) 1 (map_option (\<lambda>b. [b]) v) 1 timeout_ms s;
      Some (st, map_option hd buf, s1) }"

definition bvstk_i2c_master_hw_write_reg :: "mmio_env \<Rightarrow> bvstk_i2c_master_hw_t option \<Rightarrow> u8 \<Rightarrow> u8 \<Rightarrow> u8 \<Rightarrow> u32 \<Rightarrow> mmio_st \<Rightarrow>
    (bvstk_status_t \<times> mmio_st) option" where
  "bvstk_i2c_master_hw_write_reg e hardware addr_7b reg v timeout_ms s =
    do {
      (st, buf, s1) \<leftarrow> bvstk_i2c_master_hw_transfer e hardware addr_7b (Some [reg, v]) 2 None 0 timeout_ms s;
      Some (st, s1) }"

section \<open>Words of bytes, again\<close>

declare says_simps [simp]

lemma no_high_bit: "\<not> bit (a :: u8) (8 + n)" "\<not> bit (a :: u8) (16 + n)" "\<not> bit (a :: u8) (24 + n)"
  using bit_imp_le_length [of a] by fastforce+

lemma unpack_pack4:
  "unpack_bytes (pack_bytes 0 [a] 0) 1 = [a]" "unpack_bytes (pack_bytes 0 [a, b] 0) 2 = [a, b]"
  "unpack_bytes (pack_bytes 0 [a, b, c] 0) 3 = [a, b, c]" "unpack_bytes (pack_bytes 0 [a, b, c, d] 0) 4 = [a, b, c, d]"
  by (auto simp: unpack_bytes_def upt_conv_Cons intro!: bit_word_eqI simp: bit_simps no_high_bit)

lemma unpack_pack: "length bs \<le> 4 \<Longrightarrow> unpack_bytes (pack_bytes 0 bs 0) (length bs) = bs"
proof -
  assume "length bs \<le> 4"
  then consider "bs = []" | a where "bs = [a]" | a b where "bs = [a, b]" | a b c where "bs = [a, b, c]" | a b c d where "bs = [a, b, c, d]"
    by (auto simp: le_Suc_eq length_Suc_conv numeral_eq_Suc)
  then show ?thesis using unpack_pack4 by cases (simp_all add: unpack_bytes_def numeral_eq_Suc)
qed

text \<open>The words a list of bytes is packed into.\<close>

fun words_of :: "bytes \<Rightarrow> u32 list" where
  "words_of [] = []"
| "words_of (b # bs) = pack_bytes 0 (take 4 (b # bs)) 0 # words_of (drop 4 (b # bs))"

lemma unpack_take: "n \<le> 4 \<Longrightarrow> take n (unpack_bytes w 4) = unpack_bytes w n"
  by (simp add: unpack_bytes_def take_map take_upt)

lemma unpack_words_of: "take (length bs) (concat (map (\<lambda>w. unpack_bytes w 4) (words_of bs))) = bs"
proof (induction bs rule: words_of.induct)
  case (2 b bs)
  let ?p = "take 4 (b # bs)"
  let ?rest = "concat (map (\<lambda>w. unpack_bytes w 4) (words_of (drop 4 (b # bs))))"
  have up: "unpack_bytes (pack_bytes 0 ?p 0) (length ?p) = ?p" by (rule unpack_pack) simp
  have l4: "length (unpack_bytes w 4) = 4" for w by (simp add: unpack_bytes_def)
  show ?case
  proof (cases "length (b # bs) \<le> 4")
    case True
    then have "drop 4 (b # bs) = []" "?p = b # bs" by simp_all
    then show ?thesis using up unpack_take [OF True] by (metis append_Nil2 concat.simps list.simps(8,9) words_of.simps)
  next
    case False
    then have "length ?p = 4" by simp
    then have "unpack_bytes (pack_bytes 0 ?p 0) 4 = ?p" using up by simp
    moreover have "length (b # bs) = length ?p + length (drop 4 (b # bs))" using False by simp
    moreover have "take (length p + m) (p @ r) = p @ take m r" for m and p r :: bytes by simp
    ultimately have "take (length (b # bs)) (concat (map (\<lambda>w. unpack_bytes w 4) (words_of (b # bs)))) =
        ?p @ take (length (drop 4 (b # bs))) ?rest"
      by (simp only: words_of.simps list.map concat.simps)
    also have "\<dots> = ?p @ drop 4 (b # bs)" using 2 by (simp only: simp_thms)
    also have "\<dots> = b # bs" by (rule append_take_drop_id)
    finally show ?thesis .
  qed
qed simp

section \<open>What a transaction does to the core\<close>

definition i2c_hw_wf :: "bvstk_i2c_master_hw_t \<Rightarrow> bool" where
  [wf_defs]: "i2c_hw_wf h \<longleftrightarrow> ih_initialized h \<and>
     mr_mapped_base (ih_master h) \<noteq> 0 \<and> mr_size (ih_master h) = BVSTK_I2C_MASTER_SIZE \<and>
     mr_mapped_base (ih_bram h) \<noteq> 0 \<and> mr_size (ih_bram h) = BVSTK_I2C_BRAM_SIZE"

lemma i2c_access:
  assumes "i2c_hw_wf h"
  shows "accessible (ih_master h) 0" "accessible (ih_master h) 4" "accessible (ih_master h) 8"
    "off mod 4 = 0 \<Longrightarrow> off < 4092 \<Longrightarrow> accessible (ih_bram h) (4 + off)"
  using assms by (auto simp: i2c_hw_wf_def accessible_def)

lemma write_fifo_run:
  assumes "accessible (ih_master h) 8"
  shows "write_fifo_bytes h w s = (BVSTK_OK, says (map (OsStore (reg_addr (ih_master h) 8)) (words_of w)) s)"
  using assms
proof (induction h w s rule: write_fifo_bytes.induct)
  case (1 hw a b c d rest s)
  have "words_of (a # b # c # d # rest) =
      (ucast a OR push_bit 8 (ucast b) OR push_bit 16 (ucast c) OR push_bit 24 (ucast d)) # words_of rest"
    by (simp add: numeral_eq_Suc or.assoc)
  then show ?case using 1 wr_ok [OF 1(2)] by simp
qed (simp_all add: wr_ok numeral_eq_Suc says_def)

text \<open>The loads of the result words.\<close>

fun result_loads :: "bvstk_mmio_region_t \<Rightarrow> nat \<Rightarrow> u32 list \<Rightarrow> mmio_trace" where
  "result_loads r off [] = []"
| "result_loads r off (w # ws) = OsLoad (reg_addr r off) w # result_loads r (off + 4) ws"

lemma result_loads_quiet: "stores (result_loads r off ws) = []" "calm (result_loads r off ws)"
  by (induction ws arbitrary: off) simp_all

text \<open>\<open>Q\<close> says what the words of the mailbox can be as long as nothing is stored.\<close>

lemma read_result_run:
  assumes acc: "\<And>i. i mod 4 = 0 \<Longrightarrow> i < m \<Longrightarrow> accessible r (base + i)"
    and Q: "\<And>i evs. i mod 4 = 0 \<Longrightarrow> i < m \<Longrightarrow> stores evs = [] \<Longrightarrow> Q i (os_load e (tr @ evs) (reg_addr r (base + i)))"
  shows "\<exists>evs. mm_trace s = tr @ evs \<and> stores evs = [] \<Longrightarrow> off mod 4 = 0 \<Longrightarrow> off + n \<le> m \<Longrightarrow> off + n \<le> length buf \<Longrightarrow>
    \<exists>ws. read_result e r base n off buf s = (BVSTK_OK,
        take off buf @ take n (concat (map (\<lambda>w. unpack_bytes w 4) ws)) @ drop (off + n) buf, says (result_loads r (base + off) ws) s) \<and>
      length ws = (n + 3) div 4 \<and> (\<forall>j < length ws. Q (off + 4 * j) (ws ! j))"
proof (induction n arbitrary: off buf s rule: less_induct)
  case (less n)
  show ?case
  proof (cases "n = 0")
    case True
    then show ?thesis by (intro exI [of _ "[]"]) (simp add: read_result.simps says_def)
  next
    case False
    define k where "k = min n 4"
    have k: "0 < k" "k \<le> 4" "k \<le> n" using False by (auto simp: k_def)
    obtain w where w: "spi_read32 e r (base + off) s = (BVSTK_OK, Some w, says [OsLoad (reg_addr r (base + off)) w] s)" "Q off w"
      using rd_now [OF acc, of off e s] Q [of off] less.prems False by auto
    have tr: "\<exists>evs. mm_trace (says [OsLoad (reg_addr r (base + off)) w] s) = tr @ evs \<and> stores evs = []"
      using less.prems(1) by auto
    define buf1 where "buf1 = take off buf @ unpack_bytes w k @ drop (off + k) buf"
    let ?s = "says [OsLoad (reg_addr r (base + off)) w] s"
    have step: "read_result e r base n off buf s = read_result e r base (n - k) (off + k) buf1 ?s"
      using w False by (subst read_result.simps) (simp add: k_def buf1_def Let_def)
    have lk: "length (unpack_bytes w k) = k" by (simp add: unpack_bytes_def)
    have lb: "length buf1 = length buf" using less.prems k lk by (simp add: buf1_def)
    show ?thesis
    proof (cases "n \<le> 4")
      case True
      then have "k = n" by (simp add: k_def)
      moreover have "(n + 3) div 4 = 1" using True False by arith
      ultimately have "k = n" "(n + 3) div 4 = 1" by simp_all
      with step unpack_take [of n w] True False w show ?thesis
        by (intro exI [of _ "[w]"]) (simp add: read_result.simps unpack_bytes_def buf1_def)
    next
      case big: False
      then have k4: "k = 4" by (simp add: k_def)
      have "\<exists>ws. read_result e r base (n - 4) (off + 4) buf1 ?s = (BVSTK_OK,
          take (off + 4) buf1 @ take (n - 4) (concat (map (\<lambda>w. unpack_bytes w 4) ws)) @ drop (off + 4 + (n - 4)) buf1,
          says (result_loads r (base + off + 4) ws) ?s) \<and> length ws = (n - 4 + 3) div 4 \<and>
          (\<forall>j < length ws. Q (off + 4 + 4 * j) (ws ! j))"
        using less.IH [of "n - 4" ?s "off + 4" buf1] tr big less.prems(2-) lb by (simp add: add.assoc)
      then obtain ws where ws: "read_result e r base (n - 4) (off + 4) buf1 ?s = (BVSTK_OK,
          take (off + 4) buf1 @ take (n - 4) (concat (map (\<lambda>w. unpack_bytes w 4) ws)) @ drop (off + 4 + (n - 4)) buf1,
          says (result_loads r (base + off + 4) ws) ?s)" "length ws = (n - 4 + 3) div 4"
          "\<forall>j < length ws. Q (off + 4 + 4 * j) (ws ! j)" by blast
      have l4: "length (unpack_bytes w 4) = 4" by (simp add: unpack_bytes_def)
      have a: "take (off + 4) buf1 = take off buf @ unpack_bytes w 4"
        using less.prems l4 by (simp add: buf1_def k4)
      have b: "drop (off + 4 + (n - 4)) buf1 = drop (off + n) buf"
        using less.prems l4 big by (simp add: buf1_def k4 add.commute)
      have c: "unpack_bytes w 4 @ take (n - 4) q = take n (unpack_bytes w 4 @ q)" for q
        using l4 big by simp
      have d: "length (w # ws) = (n + 3) div 4" "\<forall>j < length (w # ws). Q (off + 4 * j) ((w # ws) ! j)"
        using ws(2,3) big w(2) by (auto simp: nth_Cons' less_Suc_eq_0_disj algebra_simps)
      have "read_result e r base n off buf s = (BVSTK_OK,
          take off buf @ take n (unpack_bytes w 4 @ concat (map (\<lambda>w. unpack_bytes w 4) ws)) @ drop (off + n) buf,
          says (result_loads r (base + off + 4) ws) ?s)"
        using step ws(1) unfolding k4 a b c [symmetric] by (simp del: take_append drop_append)
      then show ?thesis using d by (intro exI [of _ "w # ws"]) simp
    qed
  qed
qed

text \<open>The stores of a transaction: acknowledge, the write with its bytes, the read, start.\<close>

definition i2c_plan :: "bvstk_i2c_master_hw_t \<Rightarrow> u8 \<Rightarrow> bytes \<Rightarrow> nat \<Rightarrow> (u32 \<times> u32) list" where
  "i2c_plan h addr wdata rsize =
    (let tx = reg_addr (ih_master h) BVSTK_I2C_MSTR_TX_FIFO_OFFSET in
     [(reg_addr (ih_master h) BVSTK_I2C_MSTR_IRQ_OFFSET, BVSTK_I2C_MSTR_IRQ_RESET_BIT)] @
     (if wdata = [] then [] else (tx, make_header addr False (rsize \<noteq> 0) (length wdata)) # map (Pair tx) (words_of wdata)) @
     (if rsize = 0 then [] else [(tx, make_header addr True False rsize)]) @
     [(reg_addr (ih_master h) BVSTK_I2C_MSTR_CSR_OFFSET, BVSTK_I2C_MSTR_START_BIT)])"

abbreviation (input) i2c_reset :: "bvstk_i2c_master_hw_t \<Rightarrow> u32 \<times> u32" where
  "i2c_reset h \<equiv> (reg_addr (ih_master h) BVSTK_I2C_MSTR_CSR_OFFSET, BVSTK_I2C_MSTR_SOFT_RESET_BIT)"

text \<open>How a successful transaction ends: the core is idle, no byte was refused, for a read the result
  is new; and the buffer gets the bytes of the words loaded after that.\<close>

definition i2c_result :: "bvstk_i2c_master_hw_t \<Rightarrow> nat \<Rightarrow> bytes \<Rightarrow> bytes \<Rightarrow> mmio_trace \<Rightarrow> bool" where
  "i2c_result h rsize buf buf' evs \<longleftrightarrow> (\<exists>pre csr irq ws.
     evs = pre @ [OsLoad (reg_addr (ih_master h) BVSTK_I2C_MSTR_CSR_OFFSET) csr,
       OsLoad (reg_addr (ih_master h) BVSTK_I2C_MSTR_IRQ_OFFSET) irq] @ result_loads (ih_bram h) 4 ws \<and>
     csr AND 1 = 0 \<and> irq AND BVSTK_I2C_MSTR_IRQ_ERR_ACK = 0 \<and>
     (rsize \<noteq> 0 \<longrightarrow> irq AND BVSTK_I2C_MSTR_IRQ_DATA_VALID \<noteq> 0) \<and> length ws = (rsize + 3) div 4 \<and>
     buf' = take rsize (concat (map (\<lambda>w. unpack_bytes w 4) ws)) @ drop rsize buf)"

definition idle_evs :: "mmio_trace \<Rightarrow> bool" where
  "idle_evs evs \<longleftrightarrow> stores evs = [] \<and> calm evs"

lemma idle_evs_simps [simp]: "idle_evs []" "idle_evs (xs @ ys) \<longleftrightarrow> idle_evs xs \<and> idle_evs ys"
  by (auto simp: idle_evs_def)

lemma wait_ready_run:
  assumes e: "mm_clock_ok e" and wf: "i2c_hw_wf h"
  shows "\<exists>st s' evs. wait_ready e h timeout s = Some (st, s') \<and> mm_trace s' = mm_trace s @ evs \<and> idle_evs evs \<and>
    (st = BVSTK_ERR_TIMEOUT \<or> st = BVSTK_OK)"
proof -
  note t = mm_clock_step [OF e, where s = s and ev = OsNow]
  have "os_now e (mm_trace s) \<le> os_now e (mm_trace (says [OsNow] s))" "os_now e (mm_trace (says [OsNow] s)) \<le> os_now e (mm_trace s) + 2 ^ 33"
    using t by simp_all
  from csr_poll_run [OF e i2c_access(1) [OF wf] this, of "\<lambda>csr. csr AND 1 = 0" "i2c_timeout timeout"]
  obtain st s' evs where w: "poll_loop e BVSTK_ERR_TIMEOUT (csr_probe e (ih_master h) 0 (\<lambda>csr. csr AND 1 = 0))
      (of_nat (os_now e (mm_trace s))) (i2c_timeout timeout) (says [OsNow] s) = Some (st, s')"
    "mm_trace s' = mm_trace (says [OsNow] s) @ evs" "waits (reg_addr (ih_master h) 0) evs" "st = BVSTK_ERR_TIMEOUT \<or> st = BVSTK_OK"
    by blast
  then have "idle_evs ([OsNow] @ evs)" using waits_stores waits_calm by (simp add: idle_evs_def)
  then show ?thesis using w by (auto simp: wait_ready_def bvstk_platform_now_ms_def)
qed

lemma completion_run:
  assumes e: "mm_clock_ok e" and wf: "i2c_hw_wf h"
  shows "\<exists>st nack s' evs. wait_completion e h rsize timeout s = Some ((st, nack), s') \<and> mm_trace s' = mm_trace s @ evs \<and> idle_evs evs \<and>
    ((st, nack) \<in> {(BVSTK_ERR_TIMEOUT, False), (BVSTK_ERR_IO, True)} \<or> st = BVSTK_OK \<and> \<not> nack \<and>
      (\<exists>pre csr irq. evs = pre @ [OsLoad (reg_addr (ih_master h) 0) csr, OsLoad (reg_addr (ih_master h) 4) irq] \<and>
        csr AND 1 = 0 \<and> irq AND 8 = 0 \<and> (rsize \<noteq> 0 \<longrightarrow> irq AND 2 \<noteq> 0)))"
proof -
  have probe: "\<exists>c i. completion_probe e h rsize s = (if i AND 8 \<noteq> 0 then Some (BVSTK_ERR_IO, True)
      else if c AND 1 = 0 \<and> (rsize = 0 \<or> i AND 2 \<noteq> 0) then Some (BVSTK_OK, False) else None,
      says [OsLoad (reg_addr (ih_master h) 0) c, OsLoad (reg_addr (ih_master h) 4) i] s)" for s
  proof -
    obtain c where c: "spi_read32 e (ih_master h) 0 s = (BVSTK_OK, Some c, says [OsLoad (reg_addr (ih_master h) 0) c] s)"
      using rd_ok [OF i2c_access(1) [OF wf]] by blast
    obtain i where "spi_read32 e (ih_master h) 4 (says [OsLoad (reg_addr (ih_master h) 0) c] s) =
      (BVSTK_OK, Some i, says [OsLoad (reg_addr (ih_master h) 4) i] (says [OsLoad (reg_addr (ih_master h) 0) c] s))"
      using rd_ok [OF i2c_access(2) [OF wf]] by blast
    then show ?thesis using c by (intro exI [of _ c] exI [of _ i]) (simp add: completion_probe_def)
  qed
  have p: "probe_ok idle_evs (completion_probe e h rsize)"
    unfolding probe_ok_def
  proof
    fix s
    from probe [of s] show "\<exists>evs. mm_trace (snd (completion_probe e h rsize s)) = mm_trace s @ evs \<and> length evs \<le> 2 \<and>
     (\<forall>ev \<in> set evs. mm_cost ev = 0) \<and> idle_evs evs"
      by (auto simp: idle_evs_def)
  qed
  have P: "idle_evs []" "\<And>xs ys. idle_evs xs \<Longrightarrow> idle_evs ys \<Longrightarrow> idle_evs (xs @ ys)" "idle_evs [OsNow]" "idle_evs [OsSleep 1]"
    by (auto simp: idle_evs_def)
  note t = mm_clock_step [OF e, where s = s and ev = OsNow]
  have tt: "os_now e (mm_trace s) \<le> os_now e (mm_trace (says [OsNow] s))" "os_now e (mm_trace (says [OsNow] s)) \<le> os_now e (mm_trace s) + 2 ^ 33"
    using t by simp_all
  from poll_run [OF e p P tt, of "(BVSTK_ERR_TIMEOUT, False)" "i2c_timeout timeout"] obtain r s' s1 where
    w: "poll_loop e (BVSTK_ERR_TIMEOUT, False) (completion_probe e h rsize) (of_nat (os_now e (mm_trace s))) (i2c_timeout timeout) (says [OsNow] s) = Some (r, s')"
      "appends idle_evs (says [OsNow] s) s'"
      "r = (BVSTK_ERR_TIMEOUT, False) \<or> appends idle_evs (says [OsNow] s) s1 \<and> completion_probe e h rsize s1 = (Some r, s')" by blast
  obtain evs where evs: "mm_trace s' = mm_trace s @ OsNow # evs" "idle_evs evs" using w(2) by (auto simp: appends_def)
  have go: "wait_completion e h rsize timeout s = Some (r, s')" using w(1) by (simp add: wait_completion_def bvstk_platform_now_ms_def)
  have "idle_evs (OsNow # evs)" using evs(2) by (simp add: idle_evs_def)
  moreover have "r \<in> {(BVSTK_ERR_TIMEOUT, False), (BVSTK_ERR_IO, True)} \<or> r = (BVSTK_OK, False) \<and>
      (\<exists>pre csr irq. OsNow # evs = pre @ [OsLoad (reg_addr (ih_master h) 0) csr, OsLoad (reg_addr (ih_master h) 4) irq] \<and>
        csr AND 1 = 0 \<and> irq AND 8 = 0 \<and> (rsize \<noteq> 0 \<longrightarrow> irq AND 2 \<noteq> 0))"
  proof (cases "r = (BVSTK_ERR_TIMEOUT, False)")
    case False
    then obtain pre where pre: "mm_trace s1 = mm_trace s @ OsNow # pre" and pr: "completion_probe e h rsize s1 = (Some r, s')"
      using w(3) by (auto simp: appends_def)
    obtain c i where ci: "completion_probe e h rsize s1 = (if i AND 8 \<noteq> 0 then Some (BVSTK_ERR_IO, True)
      else if c AND 1 = 0 \<and> (rsize = 0 \<or> i AND 2 \<noteq> 0) then Some (BVSTK_OK, False) else None,
      says [OsLoad (reg_addr (ih_master h) 0) c, OsLoad (reg_addr (ih_master h) 4) i] s1)" using probe by blast
    then have "s' = says [OsLoad (reg_addr (ih_master h) 0) c, OsLoad (reg_addr (ih_master h) 4) i] s1" using pr by simp
    then have "OsNow # evs = (OsNow # pre) @ [OsLoad (reg_addr (ih_master h) 0) c, OsLoad (reg_addr (ih_master h) 4) i]"
      using evs(1) pre by simp
    then show ?thesis using pr ci by (auto split: if_splits)
  qed simp
  ultimately show ?thesis using go evs(1)
    by (cases r) (auto intro!: exI [of _ s'] exI [of _ "OsNow # evs"])
qed

lemma stores_map_store [simp]: "stores (map (OsStore a) ws) = map (Pair a) ws"
  by (induction ws) simp_all

lemma calm_map_store [simp]: "calm (map (OsStore a) ws)"
  by (induction ws) simp_all

lemma recover_run:
  assumes "i2c_hw_wf h"
  shows "recover h s = says [OsStore (reg_addr (ih_master h) 0) 1, OsSleep 10] s"
  using wr_ok [OF i2c_access(1) [OF assms]] by (simp add: recover_def bvstk_platform_sleep_ms_def)

lemma i2c_attempt_run:
  assumes e: "mm_clock_ok e" and wf: "i2c_hw_wf h" and n: "rsize \<le> 4092" "rsize \<le> length buf"
  shows "\<exists>fin st buf' s' evs. i2c_attempt e h addr wdata rsize buf timeout s = Some (fin, st, buf', s') \<and>
    mm_trace s' = mm_trace s @ evs \<and> calm evs \<and>
    ((\<not> fin \<and> st = BVSTK_ERR_TIMEOUT \<and> buf' = buf \<and>
        stores evs \<in> {[i2c_reset h], i2c_plan h addr wdata rsize @ [i2c_reset h]}) \<or>
     (fin \<and> st = BVSTK_ERR_IO \<and> buf' = buf \<and> stores evs = i2c_plan h addr wdata rsize @ [i2c_reset h]) \<or>
     (fin \<and> st = BVSTK_OK \<and> stores evs = i2c_plan h addr wdata rsize \<and> i2c_result h rsize buf buf' evs))"
proof -
  obtain st1 s1 e1 where w1: "wait_ready e h timeout s = Some (st1, s1)" "mm_trace s1 = mm_trace s @ e1" "idle_evs e1"
    "st1 = BVSTK_ERR_TIMEOUT \<or> st1 = BVSTK_OK" using wait_ready_run [OF e wf] by blast
  have i1: "stores e1 = []" "calm e1" using w1(3) by (simp_all add: idle_evs_def)
  note acc = i2c_access [OF wf] and rec = recover_run [OF wf]
  let ?rst = "[OsStore (reg_addr (ih_master h) 0) 1, OsSleep 10]"
  show ?thesis
  proof (cases "st1 = BVSTK_OK")
    case False
    then have "i2c_attempt e h addr wdata rsize buf timeout s = Some (False, st1, buf, says ?rst s1)"
      using w1(1) rec by (simp add: i2c_attempt_def)
    then show ?thesis using w1(2,4) i1 False
      by (intro exI [of _ False] exI [of _ st1] exI [of _ buf] exI [of _ "says ?rst s1"] exI [of _ "e1 @ ?rst"]) simp
  next
    case True
    define tx where "tx = reg_addr (ih_master h) 8"
    define e2 where "e2 = [OsStore (reg_addr (ih_master h) 4) 1] @
      (if wdata = [] then [] else OsStore tx (make_header addr False (rsize \<noteq> 0) (length wdata)) # map (OsStore tx) (words_of wdata)) @
      (if rsize = 0 then [] else [OsStore tx (make_header addr True False rsize)]) @ [OsStore (reg_addr (ih_master h) 0) 2]"
    have e2: "stores e2 = i2c_plan h addr wdata rsize" "calm e2"
      by (simp_all add: e2_def i2c_plan_def tx_def Let_def)
    define s5 where "s5 = says e2 s1"
    obtain st6 nack s6 e6 where w6: "wait_completion e h rsize timeout s5 = Some ((st6, nack), s6)"
      "mm_trace s6 = mm_trace s5 @ e6" "idle_evs e6"
      "(st6, nack) \<in> {(BVSTK_ERR_TIMEOUT, False), (BVSTK_ERR_IO, True)} \<or> st6 = BVSTK_OK \<and> \<not> nack \<and>
      (\<exists>pre csr irq. e6 = pre @ [OsLoad (reg_addr (ih_master h) 0) csr, OsLoad (reg_addr (ih_master h) 4) irq] \<and>
        csr AND 1 = 0 \<and> irq AND 8 = 0 \<and> (rsize \<noteq> 0 \<longrightarrow> irq AND 2 \<noteq> 0))"
      using completion_run [OF e wf] by blast
    have i6: "stores e6 = []" "calm e6" using w6(3) by (simp_all add: idle_evs_def)
    have go: "i2c_attempt e h addr wdata rsize buf timeout s =
      (if nack then Some (True, st6, buf, recover h s6)
       else let (st7, buf7, s7) = (if st6 = BVSTK_OK \<and> rsize \<noteq> 0 then read_result e (ih_bram h) 4 rsize 0 buf s6 else (st6, buf, s6)) in
         if st7 = BVSTK_OK then Some (True, BVSTK_OK, buf7, s7) else Some (False, st7, buf7, recover h s7))"
      using w1(1) True w6(1) wr_ok [OF acc(1)] wr_ok [OF acc(2)] wr_ok [OF acc(3)] write_fifo_run [OF acc(3)]
      by (cases "wdata = []"; cases "rsize = 0") (simp_all add: i2c_attempt_def s5_def e2_def tx_def)
    have tr: "mm_trace s6 = mm_trace s @ e1 @ e2 @ e6" using w6(2) w1(2) by (simp add: s5_def)
    show ?thesis
    proof (cases "st6 = BVSTK_OK")
      case False
      then have "i2c_attempt e h addr wdata rsize buf timeout s = Some (nack, st6, buf, says ?rst s6)"
        using go rec by (cases nack) simp_all
      then show ?thesis using tr i1 i6 e2 w6(4) False
        by (intro exI [of _ nack] exI [of _ st6] exI [of _ buf] exI [of _ "says ?rst s6"] exI [of _ "e1 @ e2 @ e6 @ ?rst"]) auto
    next
      case ok: True
      then obtain pre csr irq where p: "e6 = pre @ [OsLoad (reg_addr (ih_master h) 0) csr, OsLoad (reg_addr (ih_master h) 4) irq]"
        "csr AND 1 = 0" "irq AND 8 = 0" "rsize \<noteq> 0 \<longrightarrow> irq AND 2 \<noteq> 0" and nk: "\<not> nack" using w6(4) by auto
      obtain ws where ws: "read_result e (ih_bram h) 4 rsize 0 buf s6 = (BVSTK_OK,
          take 0 buf @ take rsize (concat (map (\<lambda>w. unpack_bytes w 4) ws)) @ drop (0 + rsize) buf, says (result_loads (ih_bram h) 4 ws) s6)"
        "length ws = (rsize + 3) div 4"
        using read_result_run [of 4092 "ih_bram h" 4 "\<lambda>i w. True" e "mm_trace s6" s6 0 rsize buf, OF acc(4)] n by auto
      let ?buf = "take rsize (concat (map (\<lambda>w. unpack_bytes w 4) ws)) @ drop rsize buf"
      have "i2c_attempt e h addr wdata rsize buf timeout s = Some (True, BVSTK_OK, ?buf, says (result_loads (ih_bram h) 4 ws) s6)"
      proof (cases "rsize = 0")
        case True
        then have "ws = []" using ws(2) by simp
        then show ?thesis using go ok nk True by (simp add: says_def)
      next
        case False
        then show ?thesis using go ok nk ws(1) by simp
      qed
      moreover have "i2c_result h rsize buf ?buf (e1 @ e2 @ e6 @ result_loads (ih_bram h) 4 ws)"
        unfolding i2c_result_def using p ws(2)
        by (intro exI [of _ "e1 @ e2 @ pre"] exI [of _ csr] exI [of _ irq] exI [of _ ws]) simp
      ultimately show ?thesis using tr i1 i6 e2 result_loads_quiet [of "ih_bram h" 4 ws]
        by (intro exI [of _ True] exI [of _ BVSTK_OK] exI [of _ ?buf] exI [of _ "says (result_loads (ih_bram h) 4 ws) s6"]
            exI [of _ "e1 @ e2 @ e6 @ result_loads (ih_bram h) 4 ws"]) simp
    qed
  qed
qed

lemma i2c_result_later: "i2c_result h rsize buf buf' evs \<Longrightarrow> i2c_result h rsize buf buf' (xs @ evs)"
proof -
  assume "i2c_result h rsize buf buf' evs"
  then obtain pre csr irq ws where "evs = pre @ [OsLoad (reg_addr (ih_master h) 0) csr, OsLoad (reg_addr (ih_master h) 4) irq] @ result_loads (ih_bram h) 4 ws"
    "csr AND 1 = 0" "irq AND 8 = 0" "rsize \<noteq> 0 \<longrightarrow> irq AND 2 \<noteq> 0" "length ws = (rsize + 3) div 4"
    "buf' = take rsize (concat (map (\<lambda>w. unpack_bytes w 4) ws)) @ drop rsize buf"
    unfolding i2c_result_def by blast
  then show ?thesis unfolding i2c_result_def
    by (intro exI [of _ "xs @ pre"] exI [of _ csr] exI [of _ irq] exI [of _ ws]) simp
qed

text \<open>How the stores of a transaction divide into its attempts.\<close>

definition i2c_tries :: "bvstk_i2c_master_hw_t \<Rightarrow> (u32 \<times> u32) list \<Rightarrow> nat \<Rightarrow> bvstk_status_t \<Rightarrow> (u32 \<times> u32) list \<Rightarrow> bool" where
  "i2c_tries h plan n st ss \<longleftrightarrow> (\<exists>ps end. ss = concat ps @ end \<and> set ps \<subseteq> {[i2c_reset h], plan @ [i2c_reset h]} \<and>
     (if st = BVSTK_OK then length ps < n \<and> end = plan
      else if st = BVSTK_ERR_IO then length ps < n \<and> end = plan @ [i2c_reset h]
      else st = BVSTK_ERR_TIMEOUT \<and> length ps = n \<and> end = []))"

lemma i2c_tries_again:
  assumes "p \<in> {[i2c_reset h], plan @ [i2c_reset h]}" "i2c_tries h plan n st ss"
  shows "i2c_tries h plan (Suc n) st (p @ ss)"
proof -
  obtain ps q where ps: "ss = concat ps @ q" "set ps \<subseteq> {[i2c_reset h], plan @ [i2c_reset h]}"
    "if st = BVSTK_OK then length ps < n \<and> q = plan
      else if st = BVSTK_ERR_IO then length ps < n \<and> q = plan @ [i2c_reset h]
      else st = BVSTK_ERR_TIMEOUT \<and> length ps = n \<and> q = []"
    using assms(2) unfolding i2c_tries_def by blast
  then show ?thesis using assms(1) unfolding i2c_tries_def
    by (intro exI [of _ "p # ps"] exI [of _ q]) (auto split: if_splits)
qed

lemma attempts_run:
  assumes e: "mm_clock_ok e" and wf: "i2c_hw_wf h" and r: "rsize \<le> 4092"
  shows "rsize \<le> length buf \<Longrightarrow> n \<noteq> 0 \<or> st0 = BVSTK_ERR_TIMEOUT \<Longrightarrow>
    \<exists>st buf' s' evs. i2c_attempts e h addr wdata rsize timeout n st0 buf s = Some (st, buf', s') \<and>
      mm_trace s' = mm_trace s @ evs \<and> calm evs \<and> i2c_tries h (i2c_plan h addr wdata rsize) n st (stores evs) \<and>
      (if st = BVSTK_OK then i2c_result h rsize buf buf' evs else buf' = buf)"
proof (induction n arbitrary: st0 s)
  case 0
  then show ?case by (auto simp: i2c_tries_def intro!: exI [of _ "[]"])
next
  case (Suc n)
  let ?plan = "i2c_plan h addr wdata rsize"
  obtain fin st buf1 s1 evs where a: "i2c_attempt e h addr wdata rsize buf timeout s = Some (fin, st, buf1, s1)"
    "mm_trace s1 = mm_trace s @ evs" "calm evs"
    "(\<not> fin \<and> st = BVSTK_ERR_TIMEOUT \<and> buf1 = buf \<and> stores evs \<in> {[i2c_reset h], ?plan @ [i2c_reset h]}) \<or>
     (fin \<and> st = BVSTK_ERR_IO \<and> buf1 = buf \<and> stores evs = ?plan @ [i2c_reset h]) \<or>
     (fin \<and> st = BVSTK_OK \<and> stores evs = ?plan \<and> i2c_result h rsize buf buf1 evs)"
    using i2c_attempt_run [OF e wf r Suc.prems(1), of addr wdata timeout s] by blast
  show ?case
  proof (cases fin)
    case True
    then have "i2c_tries h ?plan (Suc n) st (stores evs)"
      unfolding i2c_tries_def using a(4) by (intro exI [of _ "[]"] exI [of _ "stores evs"]) auto
    then show ?thesis using a True by (intro exI [of _ st] exI [of _ buf1] exI [of _ s1] exI [of _ evs]) auto
  next
    case False
    then have b: "st = BVSTK_ERR_TIMEOUT" "buf1 = buf" "stores evs \<in> {[i2c_reset h], ?plan @ [i2c_reset h]}" using a(4) by auto
    then obtain st2 buf' s' evs2 where w: "i2c_attempts e h addr wdata rsize timeout n st buf1 s1 = Some (st2, buf', s')"
      "mm_trace s' = mm_trace s1 @ evs2" "calm evs2" "i2c_tries h ?plan n st2 (stores evs2)"
      "if st2 = BVSTK_OK then i2c_result h rsize buf buf' evs2 else buf' = buf"
      using Suc.IH [OF Suc.prems(1), of st s1] by blast
    have "i2c_tries h ?plan (Suc n) st2 (stores (evs @ evs2))" using i2c_tries_again [OF b(3) w(4)] by simp
    moreover have "if st2 = BVSTK_OK then i2c_result h rsize buf buf' (evs @ evs2) else buf' = buf"
      using w(5) i2c_result_later by (auto split: if_splits)
    ultimately show ?thesis using a w False
      by (intro exI [of _ st2] exI [of _ buf'] exI [of _ s'] exI [of _ "evs @ evs2"]) simp
  qed
qed

text \<open>
  C21: What an I2C transaction does to the core, for every core, clock and memory behind the
  registers. It always returns, with the mutex given back, and makes at most three attempts. An
  attempt that times out is reset, and another follows; one whose byte was refused is reset and is
  the last, so that a refused write is never sent again. A success is the attempt whose stores are
  exactly the transaction: the header with the seven-bit address, the direction and the size, the
  bytes to write packed in words, for a read its header, then the start; and the buffer gets exactly
  the bytes of the words loaded after the core said the transaction is over and nothing was
  refused. Without success the buffer keeps what it held.
\<close>

theorem i2c_transfer_exact:
  assumes "mm_clock_ok e" and "i2c_hw_wf h" and "fst (ih_mutex h) = snd (ih_mutex h)"
    and "length wdata \<le> 0x1FFFFF" and "rsize \<le> 4092" and "rsize \<le> length buf" and "wdata \<noteq> [] \<or> rsize \<noteq> 0"
  shows "\<exists>st buf' s' evs. bvstk_i2c_master_hw_transfer e (Some h) addr (Some wdata) (length wdata) (Some buf) rsize timeout s =
      Some (st, Some buf', s') \<and> mm_trace s' = mm_trace s @ evs \<and> mutex_free evs \<and>
    (stores evs = [] \<and> st \<noteq> BVSTK_OK \<or> i2c_tries h (i2c_plan h (addr AND 0x7F) wdata rsize) 3 st (stores evs)) \<and>
    (if st = BVSTK_OK then \<exists>mid. evs = mid @ (if snd (ih_mutex h) then [OsUnlock] else []) \<and> i2c_result h rsize buf buf' mid
     else buf' = buf)"
proof -
  obtain st1 s1 where l: "bvstk_mutex_lock e (ih_mutex h) timeout s = (st1, s1)" by fastforce
  have init: "ih_initialized h" using assms(2) by (simp add: i2c_hw_wf_def)
  define e1 where "e1 = (if fst (ih_mutex h) then [OsLock timeout st1] else [])"
  have s1: "mm_trace s1 = mm_trace s @ e1" using l by (auto simp: bvstk_mutex_lock_def e1_def Let_def split: if_splits)
  show ?thesis
  proof (cases "st1 = BVSTK_OK")
    case False
    then have "bvstk_i2c_master_hw_transfer e (Some h) addr (Some wdata) (length wdata) (Some buf) rsize timeout s = Some (st1, Some buf, s1)"
      using l init by (simp add: bvstk_i2c_master_hw_transfer_def)
    moreover have "mutex_free e1" "stores e1 = []" using False by (simp_all add: e1_def mutex_free_def)
    ultimately show ?thesis using False s1 by (intro exI [of _ st1] exI [of _ buf] exI [of _ s1] exI [of _ e1]) simp
  next
    case True
    obtain st buf' s2 e2 where t: "i2c_attempts e h (addr AND 0x7F) wdata rsize timeout 3 BVSTK_OK buf s1 = Some (st, buf', s2)"
      "mm_trace s2 = mm_trace s1 @ e2" "calm e2" "i2c_tries h (i2c_plan h (addr AND 0x7F) wdata rsize) 3 st (stores e2)"
      "if st = BVSTK_OK then i2c_result h rsize buf buf' e2 else buf' = buf"
      using attempts_run [OF assms(1,2,5,6), of 3 BVSTK_OK] by (metis zero_neq_numeral)
    define e3 where "e3 = (if snd (ih_mutex h) then [OsUnlock] else [])"
    define s3 where "s3 = bvstk_mutex_unlock (ih_mutex h) s2"
    have go: "bvstk_i2c_master_hw_transfer e (Some h) addr (Some wdata) (length wdata) (Some buf) rsize timeout s = Some (st, Some buf', s3)"
      using l init True t(1) assms(4-6) \<open>wdata \<noteq> [] \<or> rsize \<noteq> 0\<close>
      by (cases "rsize = 0") (simp_all add: bvstk_i2c_master_hw_transfer_def transfer_locked_def s3_def not_less)
    have tr: "mm_trace s3 = mm_trace s @ e1 @ e2 @ e3"
      using t(2) s1 by (simp add: s3_def bvstk_mutex_unlock_def e3_def)
    have "mutex_free (e1 @ e2 @ e3)"
      using calm_free [OF t(3)] True assms(3) by (simp add: mutex_free_def e1_def e3_def)
    moreover have "stores e1 = []" "stores e3 = []" by (simp_all add: e1_def e3_def)
    moreover have "if st = BVSTK_OK then i2c_result h rsize buf buf' (e1 @ e2) else buf' = buf"
      using t(5) i2c_result_later by (auto split: if_splits)
    ultimately show ?thesis using go tr t(4) unfolding e3_def [symmetric]
      by (intro exI [of _ st] exI [of _ buf'] exI [of _ s3] exI [of _ "e1 @ e2 @ e3"]) (auto split: if_splits)
  qed
qed

text \<open>Initialisation establishes the windows, when no mapping is at address 0.\<close>

lemma i2c_hw_init_wf:
  assumes "bvstk_i2c_master_hw_init e hw mutex s = (BVSTK_OK, Some h, s')" and "\<And>tr base n. os_map e tr base n \<noteq> Inr 0"
  shows "i2c_hw_wf h"
proof -
  have open_ok: "mr_size (the r) = n \<and> mr_mapped_base (the r) \<noteq> 0" if "bvstk_mmio_region_open e (Some r0) base n s1 = (None, r, s2)" for r0 r base n s1 s2
    using that assms(2) by (auto simp: bvstk_mmio_region_open_def Let_def split: if_splits option.splits sum.splits prod.splits)
  show ?thesis
    using assms(1) by (auto simp: bvstk_i2c_master_hw_init_def i2c_hw_wf_def Let_def dest: open_ok
        split: option.splits prod.splits if_splits)
qed

definition demo_i2c_hw :: bvstk_i2c_master_hw_t where
  "demo_i2c_hw = \<lparr> ih_master = \<lparr> mr_physical_base = 0x43C00000, mr_size = 0x10000, mr_mapped_base = 0x10000 \<rparr>,
     ih_bram = \<lparr> mr_physical_base = 0x40000000, mr_size = 0x3000, mr_mapped_base = 0x30000 \<rparr>,
     ih_mutex = (True, True), ih_initialized = True \<rparr>"

text \<open>A core that is always idle, refuses nothing and has a result.\<close>

definition demo_i2c_env :: mmio_env where
  "demo_i2c_env = \<lparr> os_thread_ctl = (\<lambda>tr. None), os_map = (\<lambda>tr base n. Inr base),
     os_load = (\<lambda>tr a. if a = 0x10004 then 2 else if a = 0x30004 then 0x1234 else 0),
     os_now = (\<lambda>tr. sum_list (map mm_cost tr)), os_lock = (\<lambda>tr t. BVSTK_OK) \<rparr>"

theorem i2c_transfer_exact_witness:
  "\<exists>st buf' s'. bvstk_i2c_master_hw_transfer demo_i2c_env (Some demo_i2c_hw) 0x50 (Some [0x10]) 1 (Some [0, 0]) 2 10
       \<lparr> platform_ready = True, mm_trace = [] \<rparr> = Some (st, Some buf', s') \<and>
     mutex_free (mm_trace s') \<and> (st \<noteq> BVSTK_OK \<longrightarrow> buf' = [0, 0])"
proof -
  have "mm_clock_ok demo_i2c_env" "i2c_hw_wf demo_i2c_hw" "fst (ih_mutex demo_i2c_hw) = snd (ih_mutex demo_i2c_hw)"
    by (simp_all add: mm_clock_ok_def demo_i2c_env_def i2c_hw_wf_def demo_i2c_hw_def)
  from i2c_transfer_exact [OF this, of "[0x10]" 2 "[0, 0]" "0x50" 10 "\<lparr> platform_ready = True, mm_trace = [] \<rparr>"]
  show ?thesis by (auto split: if_splits)
qed

end
