(* ===== verification/I2c_Slave_Service.thy ===== *)
theory I2c_Slave_Service
  imports I2c_Master_Service
begin

text \<open>
  The host-facing slave of \<open>src/services/i2c/bvstk_i2c_slave_service.c\<close>: a host writes frames that
  set a register pointer and forward register writes to a device through the master service, and
  reads windows of registers from the cache. The service points to the master service and to its
  device table and cache, which are parts of the master's record. The flags \<open>read_armed\<close> are bools.
\<close>

section \<open>State\<close>

record bvstk_i2c_slave_service_t =
  sl_master :: "i2c_service option"
  sl_target_device :: nat
  sl_register_pointer :: "u8 list"
  sl_read_armed :: "bool list"
  sl_initialized :: bool

type_synonym slave = bvstk_i2c_slave_service_t

definition zero_slave :: slave where
  "zero_slave = \<lparr> sl_master = None, sl_target_device = 0, sl_register_pointer = replicate I2C_CFG_MAX_DEVICES 0,
     sl_read_armed = replicate I2C_CFG_MAX_DEVICES False, sl_initialized = False \<rparr>"

definition sl_devices :: "slave \<Rightarrow> bvstk_i2c_devices_t option" where
  "sl_devices s = map_option ms_devices (sl_master s)"

definition slave_status :: "slave option \<Rightarrow> bvstk_status_t" where
  "slave_status service =
    (case service of
       None \<Rightarrow> BVSTK_ERR_NOT_READY
     | Some s \<Rightarrow>
         if \<not> sl_initialized s then BVSTK_ERR_NOT_READY
         else if sl_target_device s \<ge> bvstk_i2c_devices_count (sl_devices s) then BVSTK_ERR_NOT_FOUND
         else BVSTK_OK)"

section \<open>Reading a window\<close>

text \<open>The loop of \<open>load_window\<close> with \<open>n\<close> bytes of room left: \<open>w\<close> holds the bytes stored so far.\<close>

fun load_loop :: "i2c_env \<Rightarrow> u32 \<Rightarrow> nat \<Rightarrow> u8 \<Rightarrow> nat \<Rightarrow> nat \<Rightarrow> i2c_service \<Rightarrow> bytes \<Rightarrow> i2c_trace \<Rightarrow>
    bvstk_status_t \<times> bytes \<times> i2c_service \<times> i2c_trace" where
  "load_loop env timeout_ms d reg reg_count 0 m w t = (BVSTK_OK, w, m, t)"
| "load_loop env timeout_ms d reg reg_count (Suc n) m w t =
    (if unat reg + length w \<ge> reg_count then (BVSTK_OK, w, m, t)
     else
       let r = of_nat (unat reg + length w) in
       (case (if bvstk_i2c_cache_is_valid (Some (ms_cache m)) d r
              then bvstk_i2c_cache_read (Some (ms_cache m)) d r True else (BVSTK_ERR_NOT_READY, None)) of
          (BVSTK_OK, Some v) \<Rightarrow> load_loop env timeout_ms d reg reg_count n m (w @ [v]) t
        | _ \<Rightarrow>
            if w \<noteq> [] then (BVSTK_OK, w, m, t)
            else (case bvstk_i2c_master_service_read_from env m d reg (Some 0) BVSTK_EVENT_SOURCE_HOST timeout_ms t of
                    (st, v, m1, t1) \<Rightarrow> if st \<noteq> BVSTK_OK then (st, [], m1, t1) else (BVSTK_OK, [the v], m1, t1))))"

definition load_window :: "i2c_env \<Rightarrow> u32 \<Rightarrow> nat \<Rightarrow> u8 \<Rightarrow> bool \<Rightarrow> nat \<Rightarrow> i2c_service \<Rightarrow> i2c_trace \<Rightarrow>
    bvstk_status_t \<times> bytes \<times> i2c_service \<times> i2c_trace" where
  "load_window env timeout_ms d reg window capacity m t =
    (case bvstk_i2c_devices_get (Some (ms_devices m)) d True of
       (BVSTK_OK, Some device) \<Rightarrow>
         if unat reg \<ge> unat (dv_reg_count device) \<or> \<not> window then (BVSTK_ERR_RANGE, [], m, t)
         else load_loop env timeout_ms d reg (unat (dv_reg_count device)) capacity m [] t
     | (st, _) \<Rightarrow> (st, [], m, t))"

section \<open>Life cycle\<close>

text \<open>\<open>devices\<close> and \<open>cache\<close>, when not null, are those of the master service.\<close>

definition bvstk_i2c_slave_service_init :: "slave option \<Rightarrow> bool \<Rightarrow> bool \<Rightarrow> i2c_service option \<Rightarrow> nat \<Rightarrow>
    bvstk_status_t \<times> slave option" where
  "bvstk_i2c_slave_service_init service devices cache master target_device =
    (case (service, master) of
       (Some _, Some m) \<Rightarrow>
         if \<not> devices \<or> \<not> cache \<or> \<not> ds_initialized (ms_devices m) \<or> \<not> ca_initialized (ms_cache m) \<or>
            target_device \<ge> length (ds_items (ms_devices m)) \<or> \<not> ms_initialized m
         then (BVSTK_ERR_MALFORMED, service)
         else (BVSTK_OK, Some (zero_slave \<lparr> sl_master := Some m, sl_target_device := target_device, sl_initialized := True \<rparr>))
     | _ \<Rightarrow> (BVSTK_ERR_MALFORMED, service))"

definition bvstk_i2c_slave_service_shutdown :: "slave option \<Rightarrow> slave option" where
  "bvstk_i2c_slave_service_shutdown service = map_option (\<lambda>_. zero_slave) service"

definition bvstk_i2c_slave_service_set_target :: "slave option \<Rightarrow> nat \<Rightarrow> bvstk_status_t \<times> slave option" where
  "bvstk_i2c_slave_service_set_target service target_device =
    (case slave_status service of
       BVSTK_OK \<Rightarrow>
         if target_device \<ge> bvstk_i2c_devices_count (sl_devices (the service)) then (BVSTK_ERR_NOT_FOUND, service)
         else (BVSTK_OK, map_option (sl_target_device_update (\<lambda>_. target_device)) service)
     | st \<Rightarrow> (st, service))"

definition bvstk_i2c_slave_service_target :: "slave option \<Rightarrow> nat" where
  "bvstk_i2c_slave_service_target service =
    (case service of None \<Rightarrow> 0 | Some s \<Rightarrow> if sl_initialized s then sl_target_device s else 0)"

definition set_armed :: "nat \<Rightarrow> bool \<Rightarrow> slave \<Rightarrow> slave" where
  "set_armed d b s = s\<lparr> sl_read_armed := (sl_read_armed s)[d := b] \<rparr>"

definition set_pointer :: "nat \<Rightarrow> u8 \<Rightarrow> slave \<Rightarrow> slave" where
  "set_pointer d p s = s\<lparr> sl_register_pointer := (sl_register_pointer s)[d := p] \<rparr>"

definition bvstk_i2c_slave_service_end_transaction :: "slave option \<Rightarrow> slave option" where
  "bvstk_i2c_slave_service_end_transaction service =
    (if slave_status service = BVSTK_OK
     then map_option (\<lambda>s. set_armed (sl_target_device s) False s) service else service)"

section \<open>Frames\<close>

text \<open>The loops over the bytes of a frame or window: \<open>f i\<close> is what is done with the byte of index \<open>i\<close>.\<close>

fun each_byte :: "(nat \<Rightarrow> u8 \<Rightarrow> i2c_trace \<Rightarrow> i2c_trace) \<Rightarrow> nat \<Rightarrow> bytes \<Rightarrow> i2c_trace \<Rightarrow> i2c_trace" where
  "each_byte f i [] t = t"
| "each_byte f i (v # vs) t = each_byte f (i + 1) vs (f i v t)"

definition observe_reply :: "i2c_env \<Rightarrow> i2c_service \<Rightarrow> nat \<Rightarrow> u8 \<Rightarrow> nat \<Rightarrow> u8 \<Rightarrow> i2c_trace \<Rightarrow> i2c_trace" where
  "observe_reply env m d reg i v t =
     bvstk_i2c_master_service_observe env (Some m) d BVSTK_EVENT_SLAVE_REPLY_PREPARED BVSTK_EVENT_OP_READ
       (ucast (of_nat (unat reg + i) :: u8)) v BVSTK_OK t"

definition observe_capture :: "i2c_env \<Rightarrow> i2c_service \<Rightarrow> nat \<Rightarrow> u8 \<Rightarrow> nat \<Rightarrow> u8 \<Rightarrow> i2c_trace \<Rightarrow> i2c_trace" where
  "observe_capture env m d reg i v t =
     bvstk_i2c_master_service_observe env (Some m) d BVSTK_EVENT_CAPTURE_WRITE BVSTK_EVENT_OP_WRITE
       (of_nat (unat reg + i - 1)) v BVSTK_OK t"

text \<open>A byte that is not forwarded: its attempt and its fault.\<close>

definition audit :: "i2c_env \<Rightarrow> i2c_service \<Rightarrow> nat \<Rightarrow> u8 \<Rightarrow> bvstk_status_t \<Rightarrow> nat \<Rightarrow> u8 \<Rightarrow> i2c_trace \<Rightarrow> i2c_trace" where
  "audit env m d reg st i v t =
     bvstk_i2c_master_service_observe env (Some m) d BVSTK_EVENT_FAULT BVSTK_EVENT_OP_WRITE (of_nat (unat reg + i - 1)) v st
       (bvstk_i2c_master_service_observe env (Some m) d BVSTK_EVENT_REG_ATTEMPT BVSTK_EVENT_OP_WRITE
         (of_nat (unat reg + i - 1)) v BVSTK_OK t)"

text \<open>The forwarding loop from index \<open>i\<close> on; \<open>reg_count\<close> is that of the device when the frame came.\<close>

fun write_bytes :: "i2c_env \<Rightarrow> u32 \<Rightarrow> nat \<Rightarrow> u8 \<Rightarrow> nat \<Rightarrow> nat \<Rightarrow> bytes \<Rightarrow> i2c_service \<Rightarrow> i2c_trace \<Rightarrow>
    bvstk_status_t \<times> i2c_service \<times> i2c_trace" where
  "write_bytes env timeout_ms d reg reg_count i [] m t = (BVSTK_OK, m, t)"
| "write_bytes env timeout_ms d reg reg_count i (v # vs) m t =
    (if unat reg + i - 1 \<ge> reg_count then (BVSTK_OK, m, each_byte (audit env m d reg BVSTK_ERR_RANGE) i (v # vs) t)
     else (case bvstk_i2c_master_service_write env m d (of_nat (unat reg + i - 1)) v BVSTK_EVENT_SOURCE_HOST timeout_ms t of
             (st, m1, t1) \<Rightarrow>
               if st \<noteq> BVSTK_OK then (st, m1, each_byte (audit env m1 d reg BVSTK_ERR_NOT_READY) (i + 1) vs t1)
               else write_bytes env timeout_ms d reg reg_count (i + 1) vs m1 t1))"

text \<open>The read phase; the second component is the window, whose length goes to \<open>read_window_size\<close>.\<close>

definition read_phase :: "i2c_env \<Rightarrow> u32 \<Rightarrow> bool \<Rightarrow> nat \<Rightarrow> slave \<Rightarrow> i2c_service \<Rightarrow> bvstk_i2c_device_t \<Rightarrow> i2c_trace \<Rightarrow>
    bvstk_status_t \<times> bytes \<times> slave \<times> i2c_trace" where
  "read_phase env timeout_ms window capacity s m device t =
    (let d = sl_target_device s;
         p = sl_register_pointer s ! d;
         t1 = bvstk_i2c_master_service_observe env (Some m) d BVSTK_EVENT_SLAVE_READ_REQUEST BVSTK_EVENT_OP_READ
                (ucast p) 0 BVSTK_OK t in
     if \<not> sl_read_armed s ! d then (BVSTK_OK, [], s, t1)
     else
       let reg = (if unat p \<ge> unat (dv_reg_count device) then 0 else p) in
       (case load_window env timeout_ms d reg window capacity m t1 of
          (st, w, m1, t2) \<Rightarrow>
            if st \<noteq> BVSTK_OK then (st, [], s\<lparr> sl_master := Some m1 \<rparr>, t2)
            else
              (BVSTK_OK, w,
               set_pointer d (if w \<noteq> [] \<and> unat reg + length w < unat (dv_reg_count device)
                              then of_nat (unat reg + length w) else 0) (s\<lparr> sl_master := Some m1 \<rparr>),
               each_byte (observe_reply env m1 d reg) 0 w t2)))"

definition write_phase :: "i2c_env \<Rightarrow> u32 \<Rightarrow> bytes option \<Rightarrow> slave \<Rightarrow> i2c_service \<Rightarrow> bvstk_i2c_device_t \<Rightarrow> i2c_trace \<Rightarrow>
    bvstk_status_t \<times> slave \<times> i2c_trace" where
  "write_phase env timeout_ms frame s m device t =
    (let d = sl_target_device s; s1 = set_armed d False s in
     case frame of
       None \<Rightarrow> (BVSTK_ERR_MALFORMED, s1, t)
     | Some [] \<Rightarrow> (BVSTK_ERR_MALFORMED, s1, t)
     | Some (reg # vs) \<Rightarrow>
         let t1 = bvstk_i2c_master_service_observe env (Some m) d BVSTK_EVENT_SLAVE_POINTER BVSTK_EVENT_OP_WRITE
                    (ucast reg) reg BVSTK_OK t;
             t2 = each_byte (observe_capture env m d reg) 1 vs t1 in
         if unat reg \<ge> unat (dv_reg_count device)
         then (BVSTK_ERR_RANGE, s1, each_byte (audit env m d reg BVSTK_ERR_RANGE) 1 vs t2)
         else
           (case write_bytes env timeout_ms d reg (unat (dv_reg_count device)) 1 vs m t2 of
              (st, m1, t3) \<Rightarrow> (st, (set_armed d (vs = []) (set_pointer d reg s1))\<lparr> sl_master := Some m1 \<rparr>, t3)))"

text \<open>A frame is the \<open>frame_size\<close> bytes it points to; the window is \<open>None\<close> when \<open>read_window_size\<close> is
  left as it was.\<close>

definition bvstk_i2c_slave_service_handle_frame ::
    "i2c_env \<Rightarrow> slave option \<Rightarrow> bytes option \<Rightarrow> bool \<Rightarrow> bool \<Rightarrow> nat \<Rightarrow> bool \<Rightarrow> u32 \<Rightarrow> i2c_trace \<Rightarrow>
     bvstk_status_t \<times> bytes option \<times> slave option \<times> i2c_trace" where
  "bvstk_i2c_slave_service_handle_frame env service frame is_read window capacity size_out timeout_ms t =
    (case slave_status service of
       BVSTK_OK \<Rightarrow>
         if \<not> size_out \<or> (capacity \<noteq> 0 \<and> \<not> window) then (BVSTK_ERR_MALFORMED, None, service, t)
         else (case bvstk_i2c_devices_get (sl_devices (the service)) (sl_target_device (the service)) True of
           (BVSTK_OK, Some device) \<Rightarrow>
             if is_read then
               (case read_phase env timeout_ms window capacity (the service) (the (sl_master (the service))) device t of
                  (st, w, s1, t1) \<Rightarrow> (st, Some w, Some s1, t1))
             else
               (case write_phase env timeout_ms frame (the service) (the (sl_master (the service))) device t of
                  (st, s1, t1) \<Rightarrow> (st, Some [], Some s1, t1))
         | (st, _) \<Rightarrow> (st, Some [], service, t))
     | st \<Rightarrow> (st, None, service, t))"

section \<open>What a frame does to the outside\<close>

text \<open>
  The registers and values announced as attempts, those announced with an outcome (committed, denied
  or faulted), and the writes on the bus.
\<close>

fun attempt_of :: "seen \<Rightarrow> (u32 \<times> u32) list" where
  "attempt_of (Event ty st a r v) = (if ty = BVSTK_EVENT_REG_ATTEMPT then [(r, v)] else [])"
| "attempt_of _ = []"

fun outcome_of :: "seen \<Rightarrow> (u32 \<times> u32) list" where
  "outcome_of (Event ty st a r v) =
    (if ty = BVSTK_EVENT_REG_COMMIT \<or> ty = BVSTK_EVENT_REG_DENIED \<or> ty = BVSTK_EVENT_FAULT then [(r, v)] else [])"
| "outcome_of _ = []"

fun wrote_of :: "seen \<Rightarrow> (u8 \<times> u8 \<times> u8) list" where
  "wrote_of (Wrote a r v) = [(a, r, v)]"
| "wrote_of _ = []"

definition attempts :: "seen list \<Rightarrow> (u32 \<times> u32) list" where "attempts u = concat (map attempt_of u)"
definition outcomes :: "seen list \<Rightarrow> (u32 \<times> u32) list" where "outcomes u = concat (map outcome_of u)"
definition wrotes :: "seen list \<Rightarrow> (u8 \<times> u8 \<times> u8) list" where "wrotes u = concat (map wrote_of u)"

lemma seen_simps [simp]:
  "attempts [] = []" "outcomes [] = []" "wrotes [] = []"
  "attempts (u @ w) = attempts u @ attempts w" "outcomes (u @ w) = outcomes u @ outcomes w" "wrotes (u @ w) = wrotes u @ wrotes w"
  "attempts [x] = attempt_of x" "outcomes [x] = outcome_of x" "wrotes [x] = wrote_of x"
  "attempts (x # u) = attempt_of x @ attempts u" "outcomes (x # u) = outcome_of x @ outcomes u"
  "wrotes (x # u) = wrote_of x @ wrotes u"
  by (simp_all add: attempts_def outcomes_def wrotes_def)

text \<open>The bytes with the registers they are for, from register \<open>k\<close> on.\<close>

fun numbered :: "nat \<Rightarrow> bytes \<Rightarrow> (u32 \<times> u32) list" where
  "numbered k [] = []"
| "numbered k (v # vs) = (of_nat k, ucast v) # numbered (k + 1) vs"

text \<open>What the master service puts on the bus for a write.\<close>

definition sent :: "i2c_service \<Rightarrow> nat \<Rightarrow> u8 \<Rightarrow> u8 \<Rightarrow> (u8 \<times> u8 \<times> u8) list" where
  "sent m d reg v =
    (if in_range m d reg v \<and> allowed m d reg v \<and> (ms_io_write m \<or> ms_hardware m)
     then [(dv_addr_7b (dev_of m d), reg, v)] else [])"

text \<open>
  Writes through the master service, one after the other: \<open>rs\<close> are their results, and each is made
  in the state and with the trace that the one before it left; \<open>x\<close> is the state at the start. They
  are the writes of the values \<open>vs\<close> to the registers from \<open>k\<close> on, and only the last may have failed.
\<close>

definition left_by :: "i2c_service \<times> i2c_trace \<Rightarrow> (bvstk_status_t \<times> i2c_service \<times> i2c_trace) list \<Rightarrow> nat \<Rightarrow>
    i2c_service \<times> i2c_trace" where
  "left_by x rs i = (case i of 0 \<Rightarrow> x | Suc j \<Rightarrow> snd (rs ! j))"

definition write_chain :: "i2c_env \<Rightarrow> u32 \<Rightarrow> nat \<Rightarrow> nat \<Rightarrow> bytes \<Rightarrow> i2c_service \<times> i2c_trace \<Rightarrow>
    (bvstk_status_t \<times> i2c_service \<times> i2c_trace) list \<Rightarrow> bool" where
  "write_chain env timeout d k vs x rs \<longleftrightarrow> length rs \<le> length vs \<and>
     (\<forall>i < length rs. rs ! i = bvstk_i2c_master_service_write env (fst (left_by x rs i)) d (of_nat (k + i)) (vs ! i)
        BVSTK_EVENT_SOURCE_HOST timeout (snd (left_by x rs i))) \<and>
     (\<forall>i. Suc i < length rs \<longrightarrow> fst (rs ! i) = BVSTK_OK)"

definition chain_sent :: "nat \<Rightarrow> nat \<Rightarrow> bytes \<Rightarrow> i2c_service \<times> i2c_trace \<Rightarrow> (bvstk_status_t \<times> i2c_service \<times> i2c_trace) list \<Rightarrow>
    (u8 \<times> u8 \<times> u8) list" where
  "chain_sent d k vs x rs = concat (map (\<lambda>i. sent (fst (left_by x rs i)) d (of_nat (k + i)) (vs ! i)) [0..<length rs])"

lemma left_by_Cons: "left_by x (r # rs) (Suc i) = left_by (snd r) rs i"
  by (cases i) (simp_all add: left_by_def)

lemma chain_sent_Cons: "chain_sent d k (v # vs) x (r # rs) = sent (fst x) d (of_nat k) v @ chain_sent d (k + 1) vs (snd r) rs"
proof -
  have "[0..<length (r # rs)] = 0 # map Suc [0..<length rs]" by (simp add: map_Suc_upt upt_conv_Cons del: upt_Suc)
  moreover have "left_by x (r # rs) 0 = x" by (simp add: left_by_def)
  ultimately show ?thesis by (simp add: chain_sent_def comp_def left_by_Cons add.assoc [symmetric] del: upt_Suc) (simp add: ac_simps)
qed

lemma chain_sent_Nil [simp]: "chain_sent d k vs x [] = []"
  by (simp add: chain_sent_def)

lemma write_chain_Nil [simp]: "write_chain env timeout d k vs x []"
  by (simp add: write_chain_def)

lemma write_chain_Cons:
  assumes "bvstk_i2c_master_service_write env (fst x) d (of_nat k) v BVSTK_EVENT_SOURCE_HOST timeout (snd x) = r"
    and "rs \<noteq> [] \<Longrightarrow> fst r = BVSTK_OK" and "write_chain env timeout d (k + 1) vs (snd r) rs"
  shows "write_chain env timeout d k (v # vs) x (r # rs)"
proof -
  have "(r # rs) ! i = bvstk_i2c_master_service_write env (fst (left_by x (r # rs) i)) d (of_nat (k + i)) ((v # vs) ! i)
        BVSTK_EVENT_SOURCE_HOST timeout (snd (left_by x (r # rs) i))" if "i < length (r # rs)" for i
  proof (cases i)
    case 0
    then show ?thesis using assms(1) by (simp add: left_by_def)
  next
    case (Suc j)
    have "k + 1 + j = k + Suc j" by simp
    then show ?thesis using assms(3) that Suc unfolding write_chain_def by (metis Suc_less_eq left_by_Cons length_Cons nth_Cons_Suc)
  qed
  moreover have "fst ((r # rs) ! i) = BVSTK_OK" if "Suc i < length (r # rs)" for i
    using assms(2,3) that by (cases i) (auto simp: write_chain_def)
  ultimately show ?thesis using assms(3) by (simp add: write_chain_def)
qed

lemma observe_traffic:
  assumes "service_status (Some m) d = BVSTK_OK"
  shows "traffic (bvstk_i2c_master_service_observe env (Some m) d ty op r v st t) =
    traffic t @ (if ms_events m then [Event ty (status_code st) (ucast (dv_addr_7b (dev_of m d))) r (ucast v)] else [])"
  using assms service_status_OK [OF assms]
  by (simp add: bvstk_i2c_master_service_observe_def emit_flags_def traffic_def)

definition ready :: "i2c_service \<Rightarrow> nat \<Rightarrow> bool" where
  "ready m d \<longleftrightarrow> service_wf m \<and> ms_initialized m \<and> ms_events m \<and> d < length (ds_items (ms_devices m))"

lemma ready_status: "ready m d \<Longrightarrow> service_status (Some m) d = BVSTK_OK"
  by (simp add: ready_def service_status_def bvstk_i2c_devices_count_def service_wf_def)

lemma ready_steady:
  assumes "ready m d" "steady m m'" "service_wf m'"
  shows "ready m' d"
  using assms steady_length [of m m'] by (simp add: ready_def) (simp add: steady_def)

lemma audit_traffic:
  assumes "ready m d"
  shows "traffic (audit env m d reg st i v t) = traffic t @
    [Event 1 0 (ucast (dv_addr_7b (dev_of m d))) (of_nat (unat reg + i - 1)) (ucast v),
     Event 5 (status_code st) (ucast (dv_addr_7b (dev_of m d))) (of_nat (unat reg + i - 1)) (ucast v)]"
  using assms by (simp add: audit_def observe_traffic ready_status ready_def del: of_nat_diff)

lemma audit_run:
  assumes "ready m d" "0 < i"
  shows "\<exists>u. traffic (each_byte (audit env m d reg st) i vs t) = traffic t @ u \<and>
    attempts u = numbered (unat reg + i - 1) vs \<and> outcomes u = numbered (unat reg + i - 1) vs \<and> wrotes u = []"
  using assms(2)
proof (induction vs arbitrary: i t)
  case (Cons v vs)
  from Cons.IH [of "i + 1" "audit env m d reg st i v t"] obtain u where
    u: "traffic (each_byte (audit env m d reg st) (i + 1) vs (audit env m d reg st i v t)) = traffic (audit env m d reg st i v t) @ u"
    "attempts u = numbered (unat reg + i) vs" "outcomes u = numbered (unat reg + i) vs" "wrotes u = []" by auto
  have "Suc (unat reg + i - Suc 0) = unat reg + i" using Cons.prems by simp
  then show ?case using u audit_traffic [OF assms(1), of env reg st i v t]
    by (intro exI [of _ "[Event 1 0 (ucast (dv_addr_7b (dev_of m d))) (of_nat (unat reg + i - 1)) (ucast v),
        Event 5 (status_code st) (ucast (dv_addr_7b (dev_of m d))) (of_nat (unat reg + i - 1)) (ucast v)] @ u"])
      simp
qed simp

lemma capture_run:
  assumes "ready m d"
  shows "\<exists>u. traffic (each_byte (observe_capture env m d reg) i vs t) = traffic t @ u \<and>
    attempts u = [] \<and> outcomes u = [] \<and> wrotes u = []"
proof (induction vs arbitrary: i t)
  case (Cons v vs)
  from Cons.IH [of "i + 1" "observe_capture env m d reg i v t"] show ?case using assms
    by (auto simp: observe_capture_def observe_traffic ready_status ready_def)
qed simp

lemma master_write_run:
  assumes m: "ready m d" and res: "bvstk_i2c_master_service_write env m d r v source timeout t = (st, m', t')"
  shows "\<exists>u. traffic t' = traffic t @ u \<and> attempts u = [(ucast r, ucast v)] \<and> outcomes u = [(ucast r, ucast v)] \<and>
      wrotes u = sent m d r v" "ready m' d" "st = BVSTK_OK \<Longrightarrow> sent m d r v \<noteq> []"
proof -
  note ok = ready_status [OF m]
  have ev: "event_if m ty code (dev_of m d) r v = [Event ty code (ucast (dv_addr_7b (dev_of m d))) (ucast r) (ucast v)]" for ty code
    using m by (simp add: event_if_def ready_def)
  show "\<exists>u. traffic t' = traffic t @ u \<and> attempts u = [(ucast r, ucast v)] \<and> outcomes u = [(ucast r, ucast v)] \<and>
      wrotes u = sent m d r v"
    using write_traffic_eq [OF res] ok by (auto simp: ev sent_def)
  have "ready m' d \<and> (st = BVSTK_OK \<longrightarrow> sent m d r v \<noteq> [])"
  proof (cases "in_range m d r v \<and> allowed m d r v")
    case False
    then show ?thesis using res m ok service_status_OK [OF ok]
      by (auto simp: bvstk_i2c_master_service_write_def Let_def in_range_def allowed_def split: if_splits)
  next
    case True
    then obtain s1 t3 t4 s2 t5 s3 t6 t7 fl where
      b: "backend_write env m (dev_of m d) r v timeout t3 = (st, s1, t4)"
      and rr: "record_response s1 d (dv_addr_7b (dev_of m d)) st False t4 = (s2, t5)"
      and cr: "cache_response env s2 d (dev_of m d) r (if st = BVSTK_OK then v else 0) st
         (if st = BVSTK_OK then t6 else emit env s2 5 (status_code st) source 1 (dev_of m d) (ucast r) v t6) = (s3, t7)"
      and m': "m' = s3"
      using write_permitted [OF ok _ _ res] by metis
    have q3: "steady s2 s3" using quietD(5) quiet_cache_response cr by metis
    have "steady m s1" "steady s1 s2" using backend_write_traffic(5) [OF b] quietD(5) quiet_record_response rr by metis+
    then have "steady m m'" using q3 by (simp add: m' steady_def)
    moreover have "service_wf m'" using write_state [OF _ ok _ _ res] True m by (metis ready_def)
    moreover have "st = BVSTK_OK \<Longrightarrow> ms_io_write m \<or> ms_hardware m"
      using b by (simp add: backend_write_def split: if_splits)
    ultimately show ?thesis using True ready_steady [OF m] by (auto simp: sent_def)
  qed
  then show "ready m' d" "st = BVSTK_OK \<Longrightarrow> sent m d r v \<noteq> []" by auto
qed

text \<open>Where a chain of writes over a frame ends: at the first failure, or when the values or the
  registers of the device run out.\<close>

definition chain_ends :: "nat \<Rightarrow> bvstk_status_t \<Rightarrow> (bvstk_status_t \<times> i2c_service \<times> i2c_trace) list \<Rightarrow> bvstk_status_t \<Rightarrow> bool" where
  "chain_ends available ok rs st \<longleftrightarrow>
    (if rs \<noteq> [] \<and> fst (last rs) \<noteq> BVSTK_OK then length rs \<le> available \<and> st = fst (last rs)
     else length rs = available \<and> st = ok)"

lemma write_bytes_run:
  "ready m d \<Longrightarrow> 0 < i \<Longrightarrow> limit \<le> 256 \<Longrightarrow> write_bytes env timeout d reg limit i vs m t = (st, m', t') \<Longrightarrow>
   ready m' d \<and> (\<exists>u rs. traffic t' = traffic t @ u \<and> attempts u = numbered (unat reg + i - 1) vs \<and>
     outcomes u = numbered (unat reg + i - 1) vs \<and> wrotes u = chain_sent d (unat reg + i - 1) vs (m, t) rs \<and>
     write_chain env timeout d (unat reg + i - 1) vs (m, t) rs \<and>
     chain_ends (min (length vs) (limit - (unat reg + i - 1))) BVSTK_OK rs st \<and> m' = fst (left_by (m, t) rs (length rs)))"
proof (induction vs arbitrary: i m t)
  case Nil
  then show ?case by (auto intro!: exI [of _ "[]"] simp: chain_ends_def left_by_def)
next
  case (Cons v vs)
  define k where "k = unat reg + i - 1"
  have k: "unat reg + (i + 1) - 1 = k + 1" using Cons.prems(2) by (simp add: k_def)
  show ?case
  proof (cases "k \<ge> limit")
    case True
    then have "st = BVSTK_OK" "m' = m" "t' = each_byte (audit env m d reg BVSTK_ERR_RANGE) i (v # vs) t"
      using Cons.prems(4) by (auto simp: k_def)
    moreover obtain u where "traffic (each_byte (audit env m d reg BVSTK_ERR_RANGE) i (v # vs) t) = traffic t @ u"
      "attempts u = numbered k (v # vs)" "outcomes u = numbered k (v # vs)" "wrotes u = []"
      using audit_run [OF Cons.prems(1,2), of env reg BVSTK_ERR_RANGE "v # vs" t] by (auto simp: k_def)
    ultimately show ?thesis unfolding k_def [symmetric] using True Cons.prems(1)
      by (intro conjI exI [of _ u] exI [of _ "[]"]) (auto simp: chain_ends_def left_by_def)
  next
    case False
    obtain st1 m1 t1 where w: "bvstk_i2c_master_service_write env m d (of_nat k) v BVSTK_EVENT_SOURCE_HOST timeout t = (st1, m1, t1)"
      by (metis prod_cases3)
    note run = master_write_run [OF Cons.prems(1) w]
    obtain u1 where u1: "traffic t1 = traffic t @ u1" "attempts u1 = [(ucast (of_nat k :: u8), ucast v)]"
      "outcomes u1 = [(ucast (of_nat k :: u8), ucast v)]" "wrotes u1 = sent m d (of_nat k) v" using run(1) by blast
    have c: "ucast (of_nat k :: u8) = (of_nat k :: u32)"
    proof -
      have "unat (of_nat k :: u8) = k" using False Cons.prems(3) by (intro unat_of_nat_small) simp
      then show ?thesis by (metis of_nat_unat)
    qed
    have chain: "write_chain env timeout d k (v # vs) (m, t) ((st1, m1, t1) # rs)"
      if "rs \<noteq> [] \<Longrightarrow> st1 = BVSTK_OK" "write_chain env timeout d (k + 1) vs (m1, t1) rs" for rs
      using that w by (intro write_chain_Cons) simp_all
    show ?thesis
    proof (cases "st1 = BVSTK_OK")
      case bad: False
      then have r: "st = st1" "m' = m1" "t' = each_byte (audit env m1 d reg BVSTK_ERR_NOT_READY) (i + 1) vs t1"
        using Cons.prems(4) False w by (auto simp: k_def)
      obtain u where u: "traffic (each_byte (audit env m1 d reg BVSTK_ERR_NOT_READY) (i + 1) vs t1) = traffic t1 @ u"
        "attempts u = numbered (k + 1) vs" "outcomes u = numbered (k + 1) vs" "wrotes u = []"
        using audit_run [OF run(2), of "i + 1" env reg BVSTK_ERR_NOT_READY vs t1] k by auto
      show ?thesis unfolding k_def [symmetric] using r u u1 bad False run(2) chain [of "[]"]
        by (intro conjI exI [of _ "u1 @ u"] exI [of _ "[(st1, m1, t1)]"])
          (auto simp: chain_ends_def chain_sent_Cons left_by_def c)
    next
      case True
      then have go: "write_bytes env timeout d reg limit (i + 1) vs m1 t1 = (st, m', t')"
        using Cons.prems(4) False w by (simp add: k_def)
      from Cons.IH [OF run(2) _ Cons.prems(3) go, unfolded k] obtain u rs where
        ih: "ready m' d" "traffic t' = traffic t1 @ u" "attempts u = numbered (k + 1) vs" "outcomes u = numbered (k + 1) vs"
          "wrotes u = chain_sent d (k + 1) vs (m1, t1) rs" "write_chain env timeout d (k + 1) vs (m1, t1) rs"
          "chain_ends (min (length vs) (limit - (k + 1))) BVSTK_OK rs st" "m' = fst (left_by (m1, t1) rs (length rs))" by auto
      have "chain_ends (min (length (v # vs)) (limit - k)) BVSTK_OK ((st1, m1, t1) # rs) st"
        using ih(7) True False by (cases "rs = []") (auto simp: chain_ends_def split: if_splits)
      then show ?thesis unfolding k_def [symmetric] using ih u1 True chain [OF _ ih(6)]
        by (intro conjI exI [of _ "u1 @ u"] exI [of _ "(st1, m1, t1) # rs"])
          (auto simp: c chain_sent_Cons left_by_Cons)
    qed
  qed
qed

section \<open>The service invariant\<close>

definition slave_wf :: "slave \<Rightarrow> bool" where
  "slave_wf s \<longleftrightarrow> sl_initialized s \<and> length (sl_register_pointer s) = 32 \<and> length (sl_read_armed s) = 32 \<and>
     (\<exists>m. sl_master s = Some m \<and> service_wf m \<and> ms_initialized m \<and> sl_target_device s < length (ds_items (ms_devices m)))"

lemma slave_wf_status:
  assumes "slave_wf s" "sl_master s = Some m"
  shows "slave_status (Some s) = BVSTK_OK" "service_wf m" "service_status (Some m) (sl_target_device s) = BVSTK_OK"
    "sl_target_device s < 32" "sl_target_device s < length (ds_items (ms_devices m))"
    "bvstk_i2c_devices_get (sl_devices s) (sl_target_device s) True = (BVSTK_OK, Some (dev_of m (sl_target_device s)))"
    "unat (dv_reg_count (dev_of m (sl_target_device s))) \<le> 256" "0 < unat (dv_reg_count (dev_of m (sl_target_device s)))"
proof -
  let ?d = "sl_target_device s"
  have m: "service_wf m" "ms_initialized m" "?d < length (ds_items (ms_devices m))" "sl_initialized s"
    using assms by (auto simp: slave_wf_def)
  then show "service_wf m" "?d < length (ds_items (ms_devices m))" by simp_all
  show "slave_status (Some s) = BVSTK_OK" "service_status (Some m) ?d = BVSTK_OK" "?d < 32"
    "bvstk_i2c_devices_get (sl_devices s) ?d True = (BVSTK_OK, Some (dev_of m ?d))"
    using m assms(2) by (auto simp: slave_status_def sl_devices_def bvstk_i2c_devices_count_def service_wf_def service_status_def
        devices_wf_def devices_get_OK dev_of_def)
  have "item_valid (Some (dev_of m ?d))"
    using m by (simp add: service_wf_def devices_wf_def dev_of_def list_all_length)
  then show "unat (dv_reg_count (dev_of m ?d)) \<le> 256" "0 < unat (dv_reg_count (dev_of m ?d))"
    by (auto simp: item_valid_def unat_gt_0)
qed

text \<open>
  C19: Nothing a host writes is lost or hidden, and nothing is forwarded out of turn. For a frame of a
  register and values, whatever other tasks change meanwhile: every value is announced exactly once
  as an attempt on its register and exactly once with an outcome, in the order of the frame. The
  values are handed to the master service one after the other, the first to the register named, the
  next to the register after it, each in the state the write before it left, until one write does
  not return OK or the values or the registers of the device run out. The bus sees what those
  writes send, each within the write policy of that moment, and nothing else. The frame's status is
  that of the write that failed; with none, it is OK, or RANGE when the device has no register of
  that number. Nothing is announced as an attempt or sent before the first write.
\<close>

theorem slave_frame_forwarded:
  assumes "slave_wf s" and "sl_master s = Some m" and "ms_events m"
    and "bvstk_i2c_slave_service_handle_frame env (Some s) (Some (reg # vs)) False True capacity True timeout t = (st, w, s', t')"
  shows "let d = sl_target_device s; n = unat (dv_reg_count (dev_of m d)); k = unat reg in
    \<exists>u0 t0 u rs. traffic t0 = traffic t @ u0 \<and> attempts u0 = [] \<and> outcomes u0 = [] \<and> wrotes u0 = [] \<and>
      traffic t' = traffic t0 @ u \<and> attempts u = numbered k vs \<and> outcomes u = numbered k vs \<and>
      write_chain env timeout d k vs (m, t0) rs \<and> wrotes u = chain_sent d k vs (m, t0) rs \<and>
      chain_ends (min (length vs) (n - k)) (if k < n then BVSTK_OK else BVSTK_ERR_RANGE) rs st \<and>
      sl_master (the s') = Some (fst (left_by (m, t0) rs (length rs)))"
proof -
  let ?d = "sl_target_device s" and ?n = "unat (dv_reg_count (dev_of m (sl_target_device s)))"
  note ok = slave_wf_status [OF assms(1,2)]
  have r: "ready m ?d" using assms ok by (auto simp: ready_def slave_wf_def)
  define t1 where "t1 = bvstk_i2c_master_service_observe env (Some m) ?d BVSTK_EVENT_SLAVE_POINTER BVSTK_EVENT_OP_WRITE
    (ucast reg) reg BVSTK_OK t"
  define t2 where "t2 = each_byte (observe_capture env m ?d reg) 1 vs t1"
  have run: "write_phase env timeout (Some (reg # vs)) s m (dev_of m ?d) t = (st, the s', t')" "s' \<noteq> None"
    using assms(2,4) ok by (auto simp: bvstk_i2c_slave_service_handle_frame_def split: prod.splits)
  obtain u2 where u2: "traffic t2 = traffic t @ u2" "attempts u2 = []" "outcomes u2 = []" "wrotes u2 = []"
    using capture_run [OF r, of env reg 1 vs t1] r by (auto simp: t1_def t2_def observe_traffic ready_status ready_def)
  show ?thesis
  proof (cases "unat reg \<ge> ?n")
    case True
    then have "st = BVSTK_ERR_RANGE" "t' = each_byte (audit env m ?d reg BVSTK_ERR_RANGE) 1 vs t2" "sl_master (the s') = Some m"
      using run assms(2) by (auto simp: write_phase_def Let_def t1_def t2_def set_armed_def)
    moreover obtain u where "traffic (each_byte (audit env m ?d reg BVSTK_ERR_RANGE) 1 vs t2) = traffic t2 @ u"
      "attempts u = numbered (unat reg) vs" "outcomes u = numbered (unat reg) vs" "wrotes u = []"
      using audit_run [OF r, of 1 env reg BVSTK_ERR_RANGE vs t2] by auto
    ultimately show ?thesis using u2 True unfolding Let_def
      by (intro exI [of _ u2] exI [of _ t2] exI [of _ u] exI [of _ "[]"]) (auto simp: chain_ends_def left_by_def)
  next
    case False
    obtain m1 where w: "write_bytes env timeout ?d reg ?n 1 vs m t2 = (st, m1, t')" and m1: "sl_master (the s') = Some m1"
      using run False by (auto simp: write_phase_def Let_def t1_def t2_def split: prod.splits)
    obtain u rs where "traffic t' = traffic t2 @ u" "attempts u = numbered (unat reg) vs" "outcomes u = numbered (unat reg) vs"
      "wrotes u = chain_sent ?d (unat reg) vs (m, t2) rs" "write_chain env timeout ?d (unat reg) vs (m, t2) rs"
      "chain_ends (min (length vs) (?n - unat reg)) BVSTK_OK rs st" "m1 = fst (left_by (m, t2) rs (length rs))"
      using write_bytes_run [OF r _ ok(7) w] by auto
    then show ?thesis using u2 False m1 unfolding Let_def
      by (intro exI [of _ u2] exI [of _ t2] exI [of _ u] exI [of _ rs]) auto
  qed
qed

section \<open>What a host reads\<close>

lemma backend_read_wf:
  assumes "service_wf s" "backend_read env s dev reg x timeout t = (st, v, s', t')"
  shows "service_wf s'" "length (ds_items (ms_devices s')) = length (ds_items (ms_devices s))" "steady s s'"
proof -
  have "steady s s'"
  proof -
    let ?t1 = "t @ [BusRead (dv_addr_7b dev) reg timeout]"
    have "quiet (s, ?t1) (fold config_step (env_meanwhile env ?t1) (s, ?t1))" by (rule quiet_config_steps)
    then show ?thesis using assms by (auto simp: backend_read_def Let_def quiet_def split: if_splits prod.splits)
  qed
  then show "steady s s'" .
  show "service_wf s'" "length (ds_items (ms_devices s')) = length (ds_items (ms_devices s))"
    using assms config_steps_wf [OF assms(1)] by (auto simp: backend_read_def Let_def split: if_splits prod.splits)
qed

text \<open>The master service after a read: what it found is in the cache when the device still is the
  one that was asked.\<close>

lemma read_state:
  assumes wf: "service_wf m" and ok: "readable m d reg"
    and res: "bvstk_i2c_master_service_read_from env m d reg (Some x) source timeout t = (st, v, m', t')"
  shows "service_wf m'" "steady m m'" "v \<noteq> None"
    "st = BVSTK_OK \<Longrightarrow> still_target m' d (dev_of m d) reg \<Longrightarrow>
       en_valid (cache_entry_at (ms_cache m') d reg) \<and> en_value (cache_entry_at (ms_cache m') d reg) = the v"
proof -
  obtain w s1 t1 s2 t2 fl where b: "backend_read env m (dev_of m d) reg x timeout t = (st, w, s1, t1)" and v: "v = Some w"
    and rr: "record_response s1 d (dv_addr_7b (dev_of m d)) st True t1 = (s2, t2)"
    and cr: "cache_response env s2 d (dev_of m d) reg (if st = BVSTK_OK then w else 0) st
       (emit_flags env s2 0x0102 (status_code st) source 0 (dev_of m d) (ucast reg) (if st = BVSTK_OK then w else 0) fl t2) = (m', t')"
    using read_done [OF ok res] by metis
  have d: "d < length (ds_items (ms_devices m))"
    using ok service_status_OK [of m d] by (simp add: readable_def devices_get_OK)
  note w1 = backend_read_wf [OF wf b] and k = record_response_keeps [OF rr]
  have wf2: "service_wf s2" using service_wf_record_response [OF w1(1)] rr by (metis fst_conv)
  have d2: "d < length (ds_items (ms_devices s2))" using d w1 k by simp
  note c = cache_response_eq [OF wf2 d2, of env "dev_of m d" reg "if st = BVSTK_OK then w else 0" st]
  show wf': "service_wf m'" using service_wf_cache_response [OF wf2 d2] cr by (metis fst_conv)
  have "steady s1 s2" "steady s2 m'" using quietD(5) quiet_record_response rr quiet_cache_response cr by metis+
  then show "steady m m'" using w1(3) by (simp add: steady_def)
  show "v \<noteq> None" by (simp add: v)
  assume st: "st = BVSTK_OK" and tg: "still_target m' d (dev_of m d) reg"
  have "\<exists>now. m' = (if still_target s2 d (dev_of m d) reg
     then s2 \<lparr> ms_cache := cache_store (ms_cache s2) d reg w True False now \<rparr> else s2)"
    using c [of "emit_flags env s2 0x0102 (status_code st) source 0 (dev_of m d) (ucast reg) (if st = BVSTK_OK then w else 0) fl t2"]
    unfolding cr unfolding st by (auto split: if_splits)
  then obtain now where eq: "m' = (if still_target s2 d (dev_of m d) reg
     then s2 \<lparr> ms_cache := cache_store (ms_cache s2) d reg w True False now \<rparr> else s2)" by blast
  then have "still_target s2 d (dev_of m d) reg" using tg by (auto simp: still_target_def dev_of_def split: if_splits)
  moreover have "cache_wf (ms_cache s2)" "d < 32" using wf2 d2 by (auto simp: service_wf_def devices_wf_def)
  ultimately show "en_valid (cache_entry_at (ms_cache m') d reg) \<and> en_value (cache_entry_at (ms_cache m') d reg) = the v"
    using eq by (simp add: cache_store_entry v)
qed

fun asked_of :: "seen \<Rightarrow> (u8 \<times> u8) list" where
  "asked_of (Asked a r) = [(a, r)]"
| "asked_of _ = []"

definition asks :: "seen list \<Rightarrow> (u8 \<times> u8) list" where "asks u = concat (map asked_of u)"

lemma asks_simps [simp]:
  "asks [] = []" "asks (u @ w) = asks u @ asks w" "asks (x # u) = asked_of x @ asks u"
  by (simp_all add: asks_def)

text \<open>A window holds what the cache holds, from a register on.\<close>

definition window_at :: "i2c_service \<Rightarrow> nat \<Rightarrow> nat \<Rightarrow> bytes \<Rightarrow> bool" where
  "window_at m d k w \<longleftrightarrow> (\<forall>j < length w. en_valid (cache_entry_at (ms_cache m) d (of_nat (k + j))) \<and>
     en_value (cache_entry_at (ms_cache m) d (of_nat (k + j))) = w ! j)"

lemma load_step:
  assumes "service_wf m" "d < length (ds_items (ms_devices m))"
  shows "(if bvstk_i2c_cache_is_valid (Some (ms_cache m)) d r
      then bvstk_i2c_cache_read (Some (ms_cache m)) d r True else (BVSTK_ERR_NOT_READY, None)) =
    (if en_valid (cache_entry_at (ms_cache m) d r) then (BVSTK_OK, Some (en_value (cache_entry_at (ms_cache m) d r)))
     else (BVSTK_ERR_NOT_READY, None))"
  using assms by (simp add: bvstk_i2c_cache_is_valid_def bvstk_i2c_cache_read_def cache_status_def service_wf_def
      cache_entry_at_def)

lemma load_loop_cached:
  assumes "service_wf m" "d < length (ds_items (ms_devices m))"
  shows "w \<noteq> [] \<Longrightarrow> window_at m d (unat reg) w \<Longrightarrow> unat reg + length w \<le> limit \<Longrightarrow>
    load_loop env timeout d reg limit n m w t = (st, w', m', t') \<Longrightarrow>
    st = BVSTK_OK \<and> m' = m \<and> t' = t \<and> w' \<noteq> [] \<and> window_at m d (unat reg) w' \<and> length w' \<le> length w + n \<and>
    unat reg + length w' \<le> limit"
proof (induction n arbitrary: w)
  case 0
  then show ?case by simp
next
  case (Suc n)
  let ?e = "cache_entry_at (ms_cache m) d (of_nat (unat reg + length w))"
  show ?case
  proof (cases "unat reg + length w < limit \<and> en_valid ?e")
    case True
    then have go: "load_loop env timeout d reg limit n m (w @ [en_value ?e]) t = (st, w', m', t')"
      using Suc.prems(4) load_step [OF assms] by (simp del: of_nat_add)
    have "window_at m d (unat reg) (w @ [en_value ?e])"
      using Suc.prems(2) True by (auto simp: window_at_def nth_append less_Suc_eq)
    from Suc.IH [OF _ this _ go] True show ?thesis by auto
  next
    case False
    then have "(st, w', m', t') = (BVSTK_OK, w, m, t)"
      using Suc.prems load_step [OF assms] by (auto simp del: of_nat_add split: if_splits)
    then show ?thesis using Suc.prems by simp
  qed
qed

lemma load_window_run:
  assumes wf: "service_wf m" "ms_initialized m" "d < length (ds_items (ms_devices m))"
    and reg: "unat reg < unat (dv_reg_count (dev_of m d))" and cap: "0 < capacity"
    and res: "load_window env timeout d reg True capacity m t = (st, w, m', t')"
  shows "service_wf m'" "steady m m'"
    "\<exists>u. traffic t' = traffic t @ u \<and> wrotes u = [] \<and> length (asks u) \<le> 1"
    "st = BVSTK_OK \<Longrightarrow> w \<noteq> [] \<and> length w \<le> capacity \<and> unat reg + length w \<le> unat (dv_reg_count (dev_of m d)) \<and>
       (still_target m' d (dev_of m d) reg \<longrightarrow> window_at m' d (unat reg) w)"
proof -
  let ?n = "unat (dv_reg_count (dev_of m d))" and ?e = "cache_entry_at (ms_cache m) d reg"
  obtain n where n: "capacity = Suc n" using cap by (cases capacity) auto
  have get: "bvstk_i2c_devices_get (Some (ms_devices m)) d True = (BVSTK_OK, Some (dev_of m d))"
    using wf by (simp add: devices_get_OK service_wf_def dev_of_def)
  have loop: "load_loop env timeout d reg ?n (Suc n) m [] t = (st, w, m', t')"
    using res get reg by (simp add: load_window_def n)
  have "service_wf m' \<and> steady m m' \<and>
    (\<exists>u. traffic t' = traffic t @ u \<and> wrotes u = [] \<and> length (asks u) \<le> 1) \<and>
    (st = BVSTK_OK \<longrightarrow> w \<noteq> [] \<and> length w \<le> capacity \<and> unat reg + length w \<le> ?n \<and>
       (still_target m' d (dev_of m d) reg \<longrightarrow> window_at m' d (unat reg) w))"
  proof (cases "en_valid ?e")
    case True
    then have "load_loop env timeout d reg ?n n m [en_value ?e] t = (st, w, m', t')"
      using loop load_step [OF wf(1,3)] reg by simp
    from load_loop_cached [OF wf(1,3) _ _ _ this] True reg wf(1) show ?thesis
      by (auto simp: window_at_def n)
  next
    case False
    obtain st1 v m1 t1 where r: "bvstk_i2c_master_service_read_from env m d reg (Some 0) BVSTK_EVENT_SOURCE_HOST timeout t = (st1, v, m1, t1)"
      by (metis prod_cases4)
    have eq: "(st, w, m', t') = (if st1 \<noteq> BVSTK_OK then (st1, [], m1, t1) else (BVSTK_OK, [the v], m1, t1))"
      using loop load_step [OF wf(1,3)] reg False r by (simp split: if_splits)
    have ok: "readable m d reg" using wf reg by (auto simp: readable_def service_status_def bvstk_i2c_devices_count_def service_wf_def)
    note rs = read_state [OF wf(1) ok r]
    have "\<exists>u. traffic t1 = traffic t @ u \<and> wrotes u = [] \<and> length (asks u) \<le> 1"
      using read_traffic_eq [OF r] ok by (auto simp: event_if_def)
    with rs eq reg show ?thesis by (auto simp: n window_at_def split: if_splits)
  qed
  then show "service_wf m'" "steady m m'"
    "\<exists>u. traffic t' = traffic t @ u \<and> wrotes u = [] \<and> length (asks u) \<le> 1"
    "st = BVSTK_OK \<Longrightarrow> w \<noteq> [] \<and> length w \<le> capacity \<and> unat reg + length w \<le> ?n \<and>
       (still_target m' d (dev_of m d) reg \<longrightarrow> window_at m' d (unat reg) w)" by auto
qed

lemma reply_run:
  assumes "service_status (Some m) d = BVSTK_OK"
  shows "\<exists>u. traffic (each_byte (observe_reply env m d reg) i vs t) = traffic t @ u \<and> wrotes u = [] \<and> asks u = []"
proof (induction vs arbitrary: i t)
  case (Cons v vs)
  from Cons.IH [of "i + 1" "observe_reply env m d reg i v t"] show ?case using assms
    by (auto simp: observe_reply_def observe_traffic)
qed simp

text \<open>
  C20: What a host reads. Without an armed pointer a read delivers nothing. With one it delivers a
  window of at least one and at most as many registers as there is room, from the pointer on (from
  register 0 when the device has shrunk below it) and never past the last register, and moves the
  pointer behind it, back to 0 at the end. When the device still is the one that was asked, the
  bytes are the valid cache entries of those registers after the read. A read sends nothing to the
  device but at most one register read, so that a host never waits for more than one bus access.
\<close>

theorem slave_window_exact:
  assumes "slave_wf s" and "sl_master s = Some m" and "0 < capacity"
    and "bvstk_i2c_slave_service_handle_frame env (Some s) frame True True capacity True timeout t = (st, w, s', t')"
  shows "\<exists>m' u b. s' = Some b \<and> sl_master b = Some m' \<and> traffic t' = traffic t @ u \<and> wrotes u = [] \<and>
    length (asks u) \<le> 1 \<and>
    (let d = sl_target_device s; limit = unat (dv_reg_count (dev_of m d)); p = unat (sl_register_pointer s ! d);
         k = (if p < limit then p else 0); n = length (the w) in
     if \<not> sl_read_armed s ! d then st = BVSTK_OK \<and> w = Some [] \<and> b = s
     else st = BVSTK_OK \<longrightarrow> 0 < n \<and> n \<le> capacity \<and> k + n \<le> limit \<and>
       unat (sl_register_pointer b ! d) = (k + n) mod limit \<and> sl_read_armed b = sl_read_armed s \<and>
       (still_target m' d (dev_of m d) (of_nat k) \<longrightarrow> window_at m' d k (the w)))"
proof -
  define d where "d = sl_target_device s"
  define p where "p = sl_register_pointer s ! d"
  define reg where "reg = (if unat p \<ge> unat (dv_reg_count (dev_of m d)) then 0 else p)"
  let ?n = "unat (dv_reg_count (dev_of m d))"
  define t1 where "t1 = bvstk_i2c_master_service_observe env (Some m) d BVSTK_EVENT_SLAVE_READ_REQUEST BVSTK_EVENT_OP_READ
    (ucast p) 0 BVSTK_OK t"
  note ok = slave_wf_status [OF assms(1,2), folded d_def]
  have len: "d < length (sl_register_pointer s)" "d < length (sl_read_armed s)"
    using assms(1) ok(4) by (simp_all add: slave_wf_def)
  have init: "ms_initialized m" using assms(1,2) by (auto simp: slave_wf_def)
  obtain b where b: "s' = Some b" and run: "read_phase env timeout True capacity s m (dev_of m d) t = (st, the w, b, t')" "w \<noteq> None"
    using assms(2,4) ok by (auto simp: bvstk_i2c_slave_service_handle_frame_def d_def split: prod.splits)
  have "\<exists>u1. traffic t1 = traffic t @ u1 \<and> wrotes u1 = [] \<and> asks u1 = []"
    using ok(3) by (simp add: t1_def observe_traffic)
  then obtain u1 where u1: "traffic t1 = traffic t @ u1" "wrotes u1 = []" "asks u1 = []" by blast
  show ?thesis
  proof (cases "sl_read_armed s ! d")
    case False
    then have "st = BVSTK_OK" "the w = []" "b = s" "t' = t1" using run(1)
      by (auto simp: read_phase_def Let_def d_def [symmetric] p_def [symmetric] t1_def)
    then show ?thesis using u1 False assms(2) run(2) b
      by (intro exI [of _ m] exI [of _ u1] exI [of _ s]) (auto simp: d_def)
  next
    case True
    obtain st1 w1 m1 t2 where l: "load_window env timeout d reg True capacity m t1 = (st1, w1, m1, t2)" by (metis prod_cases4)
    have reg: "unat reg < ?n" using ok(8) by (simp add: reg_def)
    note lr = load_window_run [OF ok(2) init ok(5) reg assms(3) l]
    obtain u2 where u2: "traffic t2 = traffic t1 @ u2" "wrotes u2 = []" "length (asks u2) \<le> 1" using lr(3) by blast
    have "service_status (Some m1) d = BVSTK_OK"
      using lr(1,2) ok(5) init steady_length [OF lr(2) ok(2) lr(1)]
      by (simp add: service_status_def bvstk_i2c_devices_count_def service_wf_def steady_def)
    from reply_run [OF this, of env reg 0 w1 t2] obtain u3 where
      u3: "traffic (each_byte (observe_reply env m1 d reg) 0 w1 t2) = traffic t2 @ u3" "wrotes u3 = []" "asks u3 = []"
      by blast
    have r: "read_phase env timeout True capacity s m (dev_of m d) t =
      (if st1 \<noteq> BVSTK_OK then (st1, [], s\<lparr> sl_master := Some m1 \<rparr>, t2)
       else (BVSTK_OK, w1, set_pointer d (if w1 \<noteq> [] \<and> unat reg + length w1 < ?n then of_nat (unat reg + length w1) else 0)
               (s\<lparr> sl_master := Some m1 \<rparr>), each_byte (observe_reply env m1 d reg) 0 w1 t2))"
      unfolding read_phase_def Let_def d_def [symmetric] p_def [symmetric] t1_def [symmetric] reg_def [symmetric]
      using True l by simp
    show ?thesis
    proof (cases "st1 = BVSTK_OK")
      case False
      then show ?thesis using r run(1) b u1 u2 True
        by (intro exI [of _ m1] exI [of _ "u1 @ u2"] exI [of _ b]) (auto simp: d_def [symmetric] Let_def)
    next
      case st1: True
      have w: "w1 \<noteq> []" "length w1 \<le> capacity" "unat reg + length w1 \<le> ?n"
        "still_target m1 d (dev_of m d) reg \<longrightarrow> window_at m1 d (unat reg) w1" using lr(4) [OF st1] by auto
      have eqs: "st = BVSTK_OK" "the w = w1" "t' = each_byte (observe_reply env m1 d reg) 0 w1 t2"
        "b = set_pointer d (if unat reg + length w1 < ?n then of_nat (unat reg + length w1) else 0) (s\<lparr> sl_master := Some m1 \<rparr>)"
        using r run(1) st1 w(1) by auto
      have k: "unat p < ?n \<Longrightarrow> reg = p" "\<not> unat p < ?n \<Longrightarrow> reg = 0" by (simp_all add: reg_def)
      have "unat (sl_register_pointer b ! d) = (unat reg + length w1) mod ?n"
      proof (cases "unat reg + length w1 < ?n")
        case True
        then have "unat (of_nat (unat reg + length w1) :: u8) = unat reg + length w1"
          using ok(7) by (intro unat_of_nat_small) simp
        then show ?thesis using True len by (simp add: eqs(4) set_pointer_def del: of_nat_add)
      next
        case False
        then have "unat reg + length w1 = ?n" using w(3) by simp
        then show ?thesis using len by (simp add: eqs(4) set_pointer_def)
      qed
      moreover have "sl_master b = Some m1" "sl_read_armed b = sl_read_armed s" by (simp_all add: eqs(4) set_pointer_def)
      moreover have "traffic t' = traffic t @ (u1 @ u2 @ u3)" "wrotes (u1 @ u2 @ u3) = []"
        "length (asks (u1 @ u2 @ u3)) \<le> 1" using u1 u2 u3 by (simp_all add: eqs(3))
      ultimately show ?thesis using w True b run(2)
        by (intro exI [of _ m1] exI [of _ "u1 @ u2 @ u3"] exI [of _ b], cases "unat p < ?n")
          (simp_all add: d_def [symmetric] p_def [symmetric] Let_def eqs(1,2) k)
    qed
  qed
qed

section \<open>Sessions\<close>

text \<open>What the master service keeps, whether it reports events or not.\<close>

lemma master_write_keeps:
  assumes wf: "service_wf m" and ok: "service_status (Some m) d = BVSTK_OK"
    and res: "bvstk_i2c_master_service_write env m d r v source timeout t = (st, m', t')"
  shows "service_wf m'" "steady m m'"
proof -
  have "service_wf m' \<and> steady m m'"
  proof (cases "in_range m d r v \<and> allowed m d r v")
    case False
    then show ?thesis using res wf ok service_status_OK [OF ok]
      by (auto simp: bvstk_i2c_master_service_write_def Let_def in_range_def allowed_def split: if_splits)
  next
    case True
    then obtain s1 t3 t4 s2 t5 s3 t6 t7 fl where
      b: "backend_write env m (dev_of m d) r v timeout t3 = (st, s1, t4)"
      and rr: "record_response s1 d (dv_addr_7b (dev_of m d)) st False t4 = (s2, t5)"
      and cr: "cache_response env s2 d (dev_of m d) r (if st = BVSTK_OK then v else 0) st
         (if st = BVSTK_OK then t6 else emit env s2 5 (status_code st) source 1 (dev_of m d) (ucast r) v t6) = (s3, t7)"
      and m': "m' = s3"
      using write_permitted [OF ok _ _ res] by metis
    have "steady m s1" "steady s1 s2" "steady s2 s3"
      using backend_write_traffic(5) [OF b] quietD(5) quiet_record_response rr quiet_cache_response cr by metis+
    then have "steady m m'" by (simp add: m' steady_def)
    moreover have "service_wf m'" using write_state [OF wf ok _ _ res] True by metis
    ultimately show ?thesis by simp
  qed
  then show "service_wf m'" "steady m m'" by auto
qed

lemma steady_status:
  assumes "service_wf m" "service_wf m'" "steady m m'" "service_status (Some m) d = BVSTK_OK"
  shows "service_status (Some m') d = BVSTK_OK"
proof -
  have "length (ds_items (ms_devices m')) = length (ds_items (ms_devices m))"
    using steady_length assms by blast
  then show ?thesis using assms
    by (auto simp: service_status_def bvstk_i2c_devices_count_def service_wf_def steady_def split: if_splits)
qed

lemma steady_trans: "steady a b \<Longrightarrow> steady b c \<Longrightarrow> steady a c"
  by (simp add: steady_def)

lemma write_bytes_keeps:
  "service_wf m \<Longrightarrow> service_status (Some m) d = BVSTK_OK \<Longrightarrow>
   write_bytes env timeout d reg limit i vs m t = (st, m', t') \<Longrightarrow> service_wf m' \<and> steady m m'"
proof (induction vs arbitrary: i m t)
  case (Cons v vs)
  obtain st1 m1 t1 where w: "bvstk_i2c_master_service_write env m d (of_nat (unat reg + i - 1)) v BVSTK_EVENT_SOURCE_HOST timeout t = (st1, m1, t1)"
    by (metis prod_cases3)
  note k = master_write_keeps [OF Cons.prems(1,2) w]
  show ?case
  proof (cases "unat reg + i - 1 \<ge> limit \<or> st1 \<noteq> BVSTK_OK")
    case True
    then have "m' = m \<or> m' = m1" using Cons.prems(3) w by (auto split: if_splits)
    then show ?thesis using k Cons.prems(1) by auto
  next
    case False
    then have "write_bytes env timeout d reg limit (i + 1) vs m1 t1 = (st, m', t')" using Cons.prems(3) w by simp
    from Cons.IH [OF k(1) steady_status [OF Cons.prems(1) k Cons.prems(2)] this] show ?thesis
      using k(2) steady_trans by blast
  qed
qed simp

text \<open>What the hosts and the other tasks of the firmware may do with the service.\<close>

datatype slave_op = HostFrame "bytes option" | HostRead nat | EndTransaction | SetTarget nat | Configure i2c_config_op

fun slave_step :: "i2c_env \<Rightarrow> u32 \<Rightarrow> slave_op \<Rightarrow> slave \<times> i2c_trace \<Rightarrow> slave \<times> i2c_trace" where
  "slave_step env timeout (HostFrame frame) (s, t) =
    (case bvstk_i2c_slave_service_handle_frame env (Some s) frame False True 64 True timeout t of (st, w, s', t') \<Rightarrow> (the s', t'))"
| "slave_step env timeout (HostRead capacity) (s, t) =
    (case bvstk_i2c_slave_service_handle_frame env (Some s) None True True capacity True timeout t of (st, w, s', t') \<Rightarrow> (the s', t'))"
| "slave_step env timeout EndTransaction (s, t) = (the (bvstk_i2c_slave_service_end_transaction (Some s)), t)"
| "slave_step env timeout (SetTarget d) (s, t) = (the (snd (bvstk_i2c_slave_service_set_target (Some s) d)), t)"
| "slave_step env timeout (Configure op) (s, t) =
    (case config_step op (the (sl_master s), t) of (m, t') \<Rightarrow> (s\<lparr> sl_master := Some m \<rparr>, t'))"

definition slave_run :: "i2c_env \<Rightarrow> u32 \<Rightarrow> slave_op list \<Rightarrow> slave \<times> i2c_trace \<Rightarrow> slave \<times> i2c_trace" where
  "slave_run env timeout ops a = fold (slave_step env timeout) ops a"

lemma slave_wf_master:
  assumes "slave_wf s" "sl_master s = Some m" "service_wf m'" "steady m m'"
    and "sl_initialized s' = sl_initialized s" "sl_target_device s' = sl_target_device s" "sl_master s' = Some m'"
      "length (sl_register_pointer s') = length (sl_register_pointer s)" "length (sl_read_armed s') = length (sl_read_armed s)"
  shows "slave_wf s'"
  using assms steady_length [of m m'] by (auto simp: slave_wf_def steady_def)

lemma slave_wf_same:
  assumes "slave_wf s" "sl_initialized s' = sl_initialized s" "sl_target_device s' = sl_target_device s" "sl_master s' = sl_master s"
      "length (sl_register_pointer s') = length (sl_register_pointer s)" "length (sl_read_armed s') = length (sl_read_armed s)"
  shows "slave_wf s'"
  using assms by (auto simp: slave_wf_def)

text \<open>A step keeps the service well-formed; and a target is armed after it only if the step was a bare
  pointer for it, or it was armed before and the step did not end its read.\<close>

definition ends_read :: "slave_op \<Rightarrow> bool" where
  "ends_read op \<longleftrightarrow> (case op of HostFrame f \<Rightarrow> True | EndTransaction \<Rightarrow> True | _ \<Rightarrow> False)"

definition arms :: "slave_op \<Rightarrow> bool" where
  "arms op \<longleftrightarrow> (case op of HostFrame (Some [r]) \<Rightarrow> True | _ \<Rightarrow> False)"

lemma write_phase_run:
  assumes wf: "slave_wf s" "sl_master s = Some m"
    and res: "write_phase env timeout frame s m (dev_of m (sl_target_device s)) t = (st, s', t')"
  shows "slave_wf s'" "sl_target_device s' = sl_target_device s"
    "sl_read_armed s' ! d \<Longrightarrow> (d = sl_target_device s \<and> arms (HostFrame frame)) \<or> (d \<noteq> sl_target_device s \<and> sl_read_armed s ! d)"
proof -
  let ?d = "sl_target_device s" and ?n = "unat (dv_reg_count (dev_of m (sl_target_device s)))"
  note ok = slave_wf_status [OF wf]
  have len: "?d < length (sl_read_armed s)" using wf ok(4) by (simp add: slave_wf_def)
  have w1: "slave_wf (set_armed ?d False s)" using wf(1) by (rule slave_wf_same) (simp_all add: set_armed_def)
  have "slave_wf s' \<and> sl_target_device s' = ?d \<and>
    (sl_read_armed s' ! d \<longrightarrow> (d = ?d \<and> arms (HostFrame frame)) \<or> (d \<noteq> ?d \<and> sl_read_armed s ! d))"
  proof (cases "\<exists>reg vs. frame = Some (reg # vs) \<and> unat reg < ?n")
    case False
    then have "s' = set_armed ?d False s"
      using res by (auto simp: write_phase_def Let_def split: option.splits list.splits if_splits)
    then show ?thesis using w1 len by (auto simp: set_armed_def nth_list_update split: if_splits)
  next
    case True
    then obtain reg vs where f: "frame = Some (reg # vs)" "unat reg < ?n" by blast
    obtain m1 t3 where w: "write_bytes env timeout ?d reg ?n 1 vs m
        (each_byte (observe_capture env m ?d reg) 1 vs
          (bvstk_i2c_master_service_observe env (Some m) ?d BVSTK_EVENT_SLAVE_POINTER BVSTK_EVENT_OP_WRITE (ucast reg) reg BVSTK_OK t)) = (st, m1, t3)"
      and s': "s' = (set_armed ?d (vs = []) (set_pointer ?d reg (set_armed ?d False s)))\<lparr> sl_master := Some m1 \<rparr>"
      using res f by (auto simp: write_phase_def Let_def split: prod.splits)
    note k = write_bytes_keeps [OF ok(2,3) w]
    have "slave_wf s'" using k by (intro slave_wf_master [OF wf, of m1]) (simp_all add: s' set_armed_def set_pointer_def)
    then show ?thesis using len f
      by (auto simp: s' set_armed_def set_pointer_def nth_list_update arms_def split: if_splits)
  qed
  then show "slave_wf s'" "sl_target_device s' = ?d"
    "sl_read_armed s' ! d \<Longrightarrow> (d = ?d \<and> arms (HostFrame frame)) \<or> (d \<noteq> ?d \<and> sl_read_armed s ! d)" by auto
qed

lemma read_phase_run:
  assumes wf: "slave_wf s" "sl_master s = Some m"
    and res: "read_phase env timeout True capacity s m (dev_of m (sl_target_device s)) t = (st, w, s', t')"
  shows "slave_wf s'" "sl_target_device s' = sl_target_device s" "sl_read_armed s' = sl_read_armed s"
proof -
  let ?d = "sl_target_device s" and ?n = "unat (dv_reg_count (dev_of m (sl_target_device s)))"
  note ok = slave_wf_status [OF wf]
  define reg where "reg = (if unat (sl_register_pointer s ! ?d) \<ge> ?n then 0 else sl_register_pointer s ! ?d)"
  define t1 where "t1 = bvstk_i2c_master_service_observe env (Some m) ?d BVSTK_EVENT_SLAVE_READ_REQUEST BVSTK_EVENT_OP_READ
    (ucast (sl_register_pointer s ! ?d)) 0 BVSTK_OK t"
  obtain st1 w1 m1 t2 where l: "load_window env timeout ?d reg True capacity m t1 = (st1, w1, m1, t2)" by (metis prod_cases4)
  have reg: "unat reg < ?n" using ok(8) by (simp add: reg_def)
  have init: "ms_initialized m" using wf by (auto simp: slave_wf_def)
  have k: "service_wf m1 \<and> steady m m1"
  proof (cases "capacity = 0")
    case True
    then have "m1 = m" using l ok(3) service_status_OK [OF ok(3)] reg by (simp add: load_window_def)
    then show ?thesis using ok(2) by simp
  next
    case False
    then show ?thesis using load_window_run(1,2) [OF ok(2) init ok(5) reg _ l] by simp
  qed
  have "s' = s \<or> (\<exists>p. s' = set_pointer ?d p (s\<lparr> sl_master := Some m1 \<rparr>)) \<or> s' = s\<lparr> sl_master := Some m1 \<rparr>"
    using res unfolding read_phase_def Let_def t1_def [symmetric] reg_def [symmetric] l
    by (auto split: if_splits)
  moreover have "slave_wf (s\<lparr> sl_master := Some m1 \<rparr>)" "slave_wf (set_pointer ?d p (s\<lparr> sl_master := Some m1 \<rparr>))" for p
    using k by (intro slave_wf_master [OF wf, of m1]; simp add: set_pointer_def)+
  ultimately show "slave_wf s'" "sl_target_device s' = ?d" "sl_read_armed s' = sl_read_armed s"
    using wf(1) by (auto simp: set_pointer_def)
qed

lemma handle_frame_run:
  assumes wf: "slave_wf s" "sl_master s = Some m"
  shows "bvstk_i2c_slave_service_handle_frame env (Some s) frame is_read True capacity True timeout t =
    (if is_read then (case read_phase env timeout True capacity s m (dev_of m (sl_target_device s)) t of
        (st, w, s1, t1) \<Rightarrow> (st, Some w, Some s1, t1))
     else (case write_phase env timeout frame s m (dev_of m (sl_target_device s)) t of
        (st, s1, t1) \<Rightarrow> (st, Some [], Some s1, t1)))"
  using slave_wf_status [OF wf] wf(2) by (simp add: bvstk_i2c_slave_service_handle_frame_def)

lemma slave_step_run:
  assumes wf: "slave_wf s" and step: "slave_step env timeout op (s, t) = (s', t')"
  shows "slave_wf s'" "sl_read_armed s' ! d \<Longrightarrow> d < 32 \<Longrightarrow>
    (d = sl_target_device s \<and> arms op) \<or> (sl_read_armed s ! d \<and> \<not> (d = sl_target_device s \<and> ends_read op))"
proof -
  obtain m where m: "sl_master s = Some m" using wf by (auto simp: slave_wf_def)
  note ok = slave_wf_status [OF wf m]
  have "slave_wf s' \<and> (sl_read_armed s' ! d \<longrightarrow> d < 32 \<longrightarrow>
    (d = sl_target_device s \<and> arms op) \<or> (sl_read_armed s ! d \<and> \<not> (d = sl_target_device s \<and> ends_read op)))"
  proof (cases op)
    case (HostFrame f)
    obtain st s1 t1 where w: "write_phase env timeout f s m (dev_of m (sl_target_device s)) t = (st, s1, t1)" by (metis prod_cases3)
    then have "s' = s1" using step HostFrame by (simp add: handle_frame_run [OF wf m])
    then show ?thesis using write_phase_run [OF wf m w] HostFrame by blast
  next
    case (HostRead c)
    obtain st w s1 t1 where w: "read_phase env timeout True c s m (dev_of m (sl_target_device s)) t = (st, w, s1, t1)" by (metis prod_cases4)
    then have "s' = s1" using step HostRead by (simp add: handle_frame_run [OF wf m])
    then show ?thesis using read_phase_run [OF wf m w] HostRead by (simp add: ends_read_def)
  next
    case EndTransaction
    then have "s' = set_armed (sl_target_device s) False s"
      using step ok(1) by (simp add: bvstk_i2c_slave_service_end_transaction_def)
    moreover have "slave_wf (set_armed (sl_target_device s) False s)" using wf by (rule slave_wf_same) (simp_all add: set_armed_def)
    ultimately show ?thesis using EndTransaction wf ok(4)
      by (auto simp: set_armed_def slave_wf_def nth_list_update split: if_splits)
  next
    case (SetTarget d')
    then have "s' = s \<or> (s' = s\<lparr> sl_target_device := d' \<rparr> \<and> d' < length (ds_items (ms_devices m)))"
      using step ok m by (auto simp: bvstk_i2c_slave_service_set_target_def sl_devices_def bvstk_i2c_devices_count_def split: if_splits)
    then show ?thesis using wf m SetTarget by (auto simp: slave_wf_def ends_read_def)
  next
    case (Configure c)
    obtain m1 t1 where c: "config_step c (m, t) = (m1, t1)" by fastforce
    have "steady m m1" using quiet_config_step [of "(m, t)" c] c by (simp add: quiet_def)
    moreover have "service_wf m1" using service_wf_config_step [OF ok(2), of c t] c by simp
    moreover have s': "s' = s\<lparr> sl_master := Some m1 \<rparr>" using step Configure m c by simp
    ultimately have "slave_wf s'" by (intro slave_wf_master [OF wf m, of m1]) simp_all
    then show ?thesis using s' Configure by (simp add: ends_read_def)
  qed
  then show "slave_wf s'" "sl_read_armed s' ! d \<Longrightarrow> d < 32 \<Longrightarrow>
    (d = sl_target_device s \<and> arms op) \<or> (sl_read_armed s ! d \<and> \<not> (d = sl_target_device s \<and> ends_read op))" by auto
qed

lemma slave_run_snoc: "slave_run env timeout (ops @ [op]) a = slave_step env timeout op (slave_run env timeout ops a)"
  by (simp add: slave_run_def)

lemma slave_run_wf: "slave_wf (fst a) \<Longrightarrow> slave_wf (fst (slave_run env timeout ops a))"
proof (induction ops rule: rev_induct)
  case (snoc op ops)
  obtain s t where r: "slave_run env timeout ops a = (s, t)" by fastforce
  obtain s' t' where st: "slave_step env timeout op (s, t) = (s', t')" by fastforce
  then show ?case using snoc r slave_step_run(1) [OF _ st] by (simp add: slave_run_snoc)
qed (simp add: slave_run_def)

lemma slave_init_wf:
  assumes "bvstk_i2c_slave_service_init (Some s0) devices cache (Some m) d = (BVSTK_OK, Some s)" and "service_wf m"
  shows "slave_wf s" "d' < 32 \<Longrightarrow> \<not> sl_read_armed s ! d'"
  using assms by (auto simp: bvstk_i2c_slave_service_init_def slave_wf_def zero_slave_def split: if_splits)

text \<open>The bare pointer that armed a target, and nothing after it that ended the read.\<close>

definition armed_since :: "i2c_env \<Rightarrow> u32 \<Rightarrow> slave \<times> i2c_trace \<Rightarrow> slave_op list \<Rightarrow> nat \<Rightarrow> bool" where
  "armed_since env timeout a ops d \<longleftrightarrow> (\<exists>pre op post. ops = pre @ op # post \<and> arms op \<and>
     sl_target_device (fst (slave_run env timeout pre a)) = d \<and>
     (\<forall>q x rest. post = q @ x # rest \<longrightarrow> sl_target_device (fst (slave_run env timeout (pre @ op # q) a)) = d \<longrightarrow> \<not> ends_read x))"

lemma armed_since_snoc:
  assumes "armed_since env timeout a ops d"
    and "\<not> (d = sl_target_device (fst (slave_run env timeout ops a)) \<and> ends_read x)"
  shows "armed_since env timeout a (ops @ [x]) d"
proof -
  obtain pre op post where h: "ops = pre @ op # post" "arms op" "sl_target_device (fst (slave_run env timeout pre a)) = d"
    "\<forall>q y rest. post = q @ y # rest \<longrightarrow> sl_target_device (fst (slave_run env timeout (pre @ op # q) a)) = d \<longrightarrow> \<not> ends_read y"
    using assms(1) by (auto simp: armed_since_def)
  have "\<not> ends_read y" if "post @ [x] = q @ y # rest" "sl_target_device (fst (slave_run env timeout (pre @ op # q) a)) = d" for q y rest
  proof (cases rest rule: rev_cases)
    case Nil
    then show ?thesis using that assms(2) h(1) by auto
  next
    case (snoc r z)
    then show ?thesis using that h(4) by auto
  qed
  with h show ?thesis unfolding armed_since_def by (intro exI [of _ pre] exI [of _ op] exI [of _ "post @ [x]"]) auto
qed

lemma armed_run:
  assumes "slave_wf (fst a)" "\<And>d. d < 32 \<Longrightarrow> \<not> sl_read_armed (fst a) ! d"
  shows "d < 32 \<Longrightarrow> sl_read_armed (fst (slave_run env timeout ops a)) ! d \<Longrightarrow> armed_since env timeout a ops d"
proof (induction ops rule: rev_induct)
  case Nil
  then show ?case using assms(2) by (simp add: slave_run_def)
next
  case (snoc op ops)
  obtain s t where r: "slave_run env timeout ops a = (s, t)" by fastforce
  obtain s' t' where st: "slave_step env timeout op (s, t) = (s', t')" by fastforce
  have wf: "slave_wf s" using slave_run_wf [OF assms(1), of env timeout ops] r by simp
  have "sl_read_armed s' ! d" using snoc.prems st r by (simp add: slave_run_snoc)
  from slave_step_run(2) [OF wf st this snoc.prems(1)] show ?case
  proof
    assume h: "d = sl_target_device s \<and> arms op"
    then show ?thesis unfolding armed_since_def
      by (intro exI [of _ ops] exI [of _ op] exI [of _ "[]"]) (simp add: r)
  next
    assume h: "sl_read_armed s ! d \<and> \<not> (d = sl_target_device s \<and> ends_read op)"
    then have "armed_since env timeout a ops d" using snoc.IH snoc.prems(1) r by simp
    then show ?thesis using armed_since_snoc h r by simp
  qed
qed

text \<open>
  C18: A host gets data only after it asked for a register. In any session of a fresh service, with
  several targets and with other tasks reconfiguring the devices in between, a read that delivers a
  byte was preceded by a frame holding just the register pointer, sent while the present target was
  the selected one, and since then no other frame reached that target, not even an empty or a
  refused one, and its transaction did not end. So a read never continues one that an invalid frame,
  a write or the end of the transaction has cut off.
\<close>

theorem slave_read_needs_pointer:
  assumes "bvstk_i2c_slave_service_init (Some s0) devices cache (Some m) d = (BVSTK_OK, Some s1)" and "service_wf m"
    and "slave_run env timeout ops (s1, t1) = (s, t)"
    and "bvstk_i2c_slave_service_handle_frame env (Some s) frame True True capacity True timeout t = (st, Some w, s', t')"
    and "w \<noteq> []"
  shows "armed_since env timeout (s1, t1) ops (sl_target_device s)"
proof -
  note init = slave_init_wf [OF assms(1,2)]
  have wf: "slave_wf s" using slave_run_wf [of "(s1, t1)" env timeout ops] init(1) assms(3) by simp
  obtain m1 where m1: "sl_master s = Some m1" using wf by (auto simp: slave_wf_def)
  note ok = slave_wf_status [OF wf m1]
  have "sl_read_armed s ! sl_target_device s"
    using assms(4,5) handle_frame_run [OF wf m1, of env frame True capacity timeout t]
    by (auto simp: read_phase_def Let_def split: if_splits prod.splits)
  then show ?thesis using armed_run [of "(s1, t1)" "sl_target_device s" env timeout ops] init assms(3) ok(4) by simp
qed

definition example_slave :: slave where
  "example_slave = zero_slave \<lparr> sl_master := Some example_service, sl_initialized := True \<rparr>"

lemma example_slave_wf: "slave_wf example_slave" "sl_master example_slave = Some example_service" "ms_events example_service"
  "sl_target_device example_slave = 0"
  using example_service_wf
  by (auto simp: slave_wf_def example_slave_def zero_slave_def) (simp_all add: example_service_def)

theorem slave_frame_forwarded_witness:
  "\<exists>st w s' t'. bvstk_i2c_slave_service_handle_frame example_env (Some example_slave) (Some [2, 5, 7]) False True 64 True 100 [] =
     (st, w, s', t') \<and> attempts (traffic t') = [(2, 5), (3, 7)] \<and> outcomes (traffic t') = [(2, 5), (3, 7)]"
proof -
  obtain st w s' t' where r: "bvstk_i2c_slave_service_handle_frame example_env (Some example_slave) (Some [2, 5, 7]) False True 64 True 100 [] =
     (st, w, s', t')" by (metis prod_cases4)
  have "traffic [] = []" by (simp add: traffic_def visible_def)
  then show ?thesis using slave_frame_forwarded [OF example_slave_wf(1-3) r] r by (auto simp: Let_def)
qed

theorem slave_window_exact_witness:
  "\<exists>st w s' t'. bvstk_i2c_slave_service_handle_frame example_env (Some (set_armed 0 True (set_pointer 0 2 example_slave))) None True True 64 True 100 [] =
     (st, w, s', t') \<and> wrotes (traffic t') = [] \<and> (st = BVSTK_OK \<longrightarrow> the w \<noteq> [] \<and> length (the w) \<le> 2)"
proof -
  let ?s = "set_armed 0 True (set_pointer 0 2 example_slave)"
  obtain st w s' t' where r: "bvstk_i2c_slave_service_handle_frame example_env (Some ?s) None True True 64 True 100 [] =
     (st, w, s', t')" by (metis prod_cases4)
  have "slave_wf ?s" using example_slave_wf(1) by (rule slave_wf_same) (simp_all add: set_armed_def set_pointer_def)
  moreover have "sl_master ?s = Some example_service" by (simp add: set_armed_def set_pointer_def example_slave_wf)
  ultimately have c: "sl_read_armed ?s ! 0" "unat (sl_register_pointer ?s ! 0) = 2" "sl_target_device ?s = 0"
    by (simp_all add: set_armed_def set_pointer_def example_slave_def zero_slave_def)
  have "traffic [] = []" by (simp add: traffic_def visible_def)
  with slave_window_exact [OF \<open>slave_wf ?s\<close> \<open>sl_master ?s = Some example_service\<close> _ r] c r show ?thesis
    by (auto simp: Let_def example_service_facts example_device_def)
qed

theorem slave_read_needs_pointer_witness:
  "\<exists>s t. slave_run example_env 100 [HostFrame (Some [2])] (example_slave, []) = (s, t) \<and>
     armed_since example_env 100 (example_slave, []) [HostFrame (Some [2])] (sl_target_device s)"
proof -
  have i: "bvstk_i2c_slave_service_init (Some zero_slave) True True (Some example_service) 0 = (BVSTK_OK, Some example_slave)"
    by (simp add: bvstk_i2c_slave_service_init_def example_service_def example_slave_def zero_cache_def zero_slave_def)
  obtain s t where r: "slave_run example_env 100 [HostFrame (Some [2])] (example_slave, []) = (s, t)" by fastforce
  obtain st w s' t' where f: "bvstk_i2c_slave_service_handle_frame example_env (Some s) None True True 64 True 100 t = (st, w, s', t')"
    by (metis prod_cases4)
  have "(case slave_run example_env 100 [HostFrame (Some [2])] (example_slave, []) of (s, t) \<Rightarrow>
      fst (snd (bvstk_i2c_slave_service_handle_frame example_env (Some s) None True True 64 True 100 t))) = Some [3]"
    by code_simp
  then have "w = Some [3]" using r f by simp
  then show ?thesis using slave_read_needs_pointer [OF i example_service_wf r, of None 64 st "[3]"] f r by auto
qed

end
