(* ===== verification/I2c_Slave_Hw.thy ===== *)
theory I2c_Slave_Hw
  imports I2c_Master_Hw I2c_Slave_Service
begin

text \<open>
  The I2C slave driver of \<open>src/drivers/pl/i2c/bvstk_i2c_slave.c\<close> and the adapter
  \<open>src/ports/freertos-xilinx/os/i2c/bvstk_i2c_slave_freertos.c\<close>, whose interrupt handler queues what
  the core announced and whose task passes frames and read requests between the mailboxes of the core
  and the slave service. The service and the core have a trace each.
\<close>

section \<open>Registers and state\<close>

abbreviation (input) BVSTK_I2C_SLAVE_BASE :: u32 where "BVSTK_I2C_SLAVE_BASE \<equiv> 0x43C50000"
abbreviation (input) BVSTK_I2C_SLAVE_SIZE :: nat where "BVSTK_I2C_SLAVE_SIZE \<equiv> 0x10000"
abbreviation (input) BVSTK_I2C_SLV_CSR_OFFSET :: nat where "BVSTK_I2C_SLV_CSR_OFFSET \<equiv> 0x00"
abbreviation (input) BVSTK_I2C_SLV_IRQ_OFFSET :: nat where "BVSTK_I2C_SLV_IRQ_OFFSET \<equiv> 0x04"
abbreviation (input) BVSTK_I2C_SLV_REQ_OFFSET :: nat where "BVSTK_I2C_SLV_REQ_OFFSET \<equiv> 0x08"
abbreviation (input) BVSTK_I2C_SLV_ADDR_LIST_0 :: nat where "BVSTK_I2C_SLV_ADDR_LIST_0 \<equiv> 0x10"
abbreviation (input) BVSTK_I2C_SLV_CSR_RD_VALID_BIT :: u32 where "BVSTK_I2C_SLV_CSR_RD_VALID_BIT \<equiv> 4"
abbreviation (input) BVSTK_I2C_SLV_IRQ_RESET_BIT :: u32 where "BVSTK_I2C_SLV_IRQ_RESET_BIT \<equiv> 1"
abbreviation (input) BVSTK_I2C_SLV_IRQ_DATA_VALID :: u32 where "BVSTK_I2C_SLV_IRQ_DATA_VALID \<equiv> 2"
abbreviation (input) BVSTK_I2C_SLV_IRQ_FINAL_PACKET :: u32 where "BVSTK_I2C_SLV_IRQ_FINAL_PACKET \<equiv> 4"
abbreviation (input) BVSTK_I2C_SLV_IRQ_RD_REQUEST :: u32 where "BVSTK_I2C_SLV_IRQ_RD_REQUEST \<equiv> 8"
abbreviation (input) BVSTK_I2C_SLV_IRQ_ERR_ACK :: u32 where "BVSTK_I2C_SLV_IRQ_ERR_ACK \<equiv> 16"
abbreviation (input) BVSTK_I2C_SLV_IRQ_MEM_OVERFLOW :: u32 where "BVSTK_I2C_SLV_IRQ_MEM_OVERFLOW \<equiv> 32"
abbreviation (input) BVSTK_I2C_SLV_HEADER_BYTES_MASK :: u32 where "BVSTK_I2C_SLV_HEADER_BYTES_MASK \<equiv> push_bit 7 0x01FFFFFF"
abbreviation (input) BVSTK_I2C_BRAM_SLAVE_WR_OFFSET :: nat where "BVSTK_I2C_BRAM_SLAVE_WR_OFFSET \<equiv> 0x1000"
abbreviation (input) BVSTK_I2C_BRAM_SLAVE_RD_OFFSET :: nat where "BVSTK_I2C_BRAM_SLAVE_RD_OFFSET \<equiv> 0x2000"
abbreviation (input) BVSTK_I2C_BRAM_SLAVE_WINDOW_SIZE :: nat where "BVSTK_I2C_BRAM_SLAVE_WINDOW_SIZE \<equiv> 0x1000"
abbreviation (input) BVSTK_I2C_SLAVE_MAX_FRAME_BYTES :: nat where "BVSTK_I2C_SLAVE_MAX_FRAME_BYTES \<equiv> 256"
abbreviation (input) BVSTK_I2C_SLAVE_READ_WINDOW_BYTES :: nat where "BVSTK_I2C_SLAVE_READ_WINDOW_BYTES \<equiv> 64"

record bvstk_i2c_slave_hw_t =
  sh_slave :: bvstk_mmio_region_t
  sh_bram :: bvstk_mmio_region_t
  sh_initialized :: bool

definition zero_slave_hw :: bvstk_i2c_slave_hw_t where
  "zero_slave_hw = \<lparr> sh_slave = zero_region, sh_bram = zero_region, sh_initialized = False \<rparr>"

record bvstk_i2c_slave_irq_event_t =
  iq_irq_flags :: u32
  iq_request_header :: u32
  iq_request_addr :: u8
  iq_request_size :: nat

definition zero_irq_event :: bvstk_i2c_slave_irq_event_t where
  "zero_irq_event = \<lparr> iq_irq_flags = 0, iq_request_header = 0, iq_request_addr = 0, iq_request_size = 0 \<rparr>"

section \<open>The driver\<close>

definition header_size :: "u32 \<Rightarrow> nat" where
  "header_size header = unat (drop_bit 7 (header AND BVSTK_I2C_SLV_HEADER_BYTES_MASK))"

definition header_address :: "u32 \<Rightarrow> u8" where
  "header_address header = ucast (header AND 0x7F)"

text \<open>The bytes still to be written and where.\<close>

fun write_words :: "bvstk_mmio_region_t \<Rightarrow> nat \<Rightarrow> bytes \<Rightarrow> mmio_st \<Rightarrow> bvstk_status_t \<times> mmio_st" where
  "write_words region off [] s = (BVSTK_OK, s)"
| "write_words region off (b # bs) s =
    (case spi_write32 region off (pack_bytes 0 (take 4 (b # bs)) 0) s of
       (st, s1) \<Rightarrow> if st \<noteq> BVSTK_OK then (BVSTK_ERR_IO, s1) else write_words region (off + 4) (drop 4 (b # bs)) s1)"

definition bvstk_i2c_slave_irq_ends_read :: "u32 \<Rightarrow> bool" where
  "bvstk_i2c_slave_irq_ends_read irq_flags \<longleftrightarrow>
     irq_flags AND (BVSTK_I2C_SLV_IRQ_ERR_ACK OR BVSTK_I2C_SLV_IRQ_MEM_OVERFLOW) \<noteq> 0 \<or>
     irq_flags AND BVSTK_I2C_SLV_IRQ_FINAL_PACKET \<noteq> 0 \<and> irq_flags AND BVSTK_I2C_SLV_IRQ_DATA_VALID = 0"

definition bvstk_i2c_slave_hw_init :: "mmio_env \<Rightarrow> bvstk_i2c_slave_hw_t option \<Rightarrow> mmio_st \<Rightarrow>
    bvstk_status_t \<times> bvstk_i2c_slave_hw_t option \<times> mmio_st" where
  "bvstk_i2c_slave_hw_init e hardware s =
    (case hardware of
       None \<Rightarrow> (BVSTK_ERR_MALFORMED, None, s)
     | Some _ \<Rightarrow>
         let h = zero_slave_hw in
         (case bvstk_mmio_region_open e (Some (sh_slave h)) BVSTK_I2C_SLAVE_BASE BVSTK_I2C_SLAVE_SIZE s of
            (Some err, m, s1) \<Rightarrow> (BVSTK_ERR_IO, Some (h \<lparr> sh_slave := the m \<rparr>), s1)
          | (None, m, s1) \<Rightarrow>
              let h1 = h \<lparr> sh_slave := the m \<rparr> in
              (case bvstk_mmio_region_open e (Some (sh_bram h1)) BVSTK_I2C_BRAM_BASE BVSTK_I2C_BRAM_SIZE s1 of
                 (Some err, b, s2) \<Rightarrow>
                   let (m, s3) = bvstk_mmio_region_close (Some (sh_slave h1)) s2
                   in (BVSTK_ERR_IO, Some (h1 \<lparr> sh_bram := the b, sh_slave := the m \<rparr>), s3)
               | (None, b, s2) \<Rightarrow> (BVSTK_OK, Some (h1 \<lparr> sh_bram := the b, sh_initialized := True \<rparr>), s2))))"

definition bvstk_i2c_slave_hw_shutdown :: "bvstk_i2c_slave_hw_t option \<Rightarrow> mmio_st \<Rightarrow> bvstk_i2c_slave_hw_t option \<times> mmio_st" where
  "bvstk_i2c_slave_hw_shutdown hardware s =
    (case hardware of
       None \<Rightarrow> (None, s)
     | Some h \<Rightarrow> (Some zero_slave_hw,
         if sh_initialized h
         then snd (bvstk_mmio_region_close (Some (sh_slave h)) (snd (bvstk_mmio_region_close (Some (sh_bram h)) s)))
         else s))"

text \<open>What every operation on the hardware asks first.\<close>

definition hw_ready :: "bvstk_i2c_slave_hw_t option \<Rightarrow> bool" where
  "hw_ready hardware \<longleftrightarrow> (case hardware of None \<Rightarrow> False | Some h \<Rightarrow> sh_initialized h)"

fun write_address_list :: "bvstk_mmio_region_t \<Rightarrow> nat \<Rightarrow> u32 list \<Rightarrow> mmio_st \<Rightarrow> bvstk_status_t \<times> mmio_st" where
  "write_address_list region off [] s = (BVSTK_OK, s)"
| "write_address_list region off (w # ws) s =
    (case spi_write32 region off w s of
       (st, s1) \<Rightarrow> if st \<noteq> BVSTK_OK then (BVSTK_ERR_IO, s1) else write_address_list region (off + 4) ws s1)"

definition bvstk_i2c_slave_hw_set_address :: "bvstk_i2c_slave_hw_t option \<Rightarrow> u8 \<Rightarrow> mmio_st \<Rightarrow> bvstk_status_t \<times> mmio_st" where
  "bvstk_i2c_slave_hw_set_address hardware addr_7b s =
    (if \<not> hw_ready hardware then (BVSTK_ERR_NOT_READY, s)
     else
       let addr = unat (addr_7b AND 0x7F);
           address_list = (replicate 4 0)[addr div 32 := push_bit (addr mod 32) 1]
       in write_address_list (sh_slave (the hardware)) BVSTK_I2C_SLV_ADDR_LIST_0 address_list s)"

definition bvstk_i2c_slave_hw_clear_irq :: "bvstk_i2c_slave_hw_t option \<Rightarrow> mmio_st \<Rightarrow> bvstk_status_t \<times> mmio_st" where
  "bvstk_i2c_slave_hw_clear_irq hardware s =
    (if \<not> hw_ready hardware then (BVSTK_ERR_NOT_READY, s)
     else spi_write32 (sh_slave (the hardware)) BVSTK_I2C_SLV_IRQ_OFFSET BVSTK_I2C_SLV_IRQ_RESET_BIT s)"

definition bvstk_i2c_slave_hw_capture_irq :: "mmio_env \<Rightarrow> bvstk_i2c_slave_hw_t option \<Rightarrow> bvstk_i2c_slave_irq_event_t option \<Rightarrow>
    mmio_st \<Rightarrow> bvstk_status_t \<times> bvstk_i2c_slave_irq_event_t option \<times> mmio_st" where
  "bvstk_i2c_slave_hw_capture_irq e hardware event s =
    (if \<not> hw_ready hardware then (BVSTK_ERR_NOT_READY, event, s)
     else if event = None then (BVSTK_ERR_MALFORMED, event, s)
     else (case spi_read32 e (sh_slave (the hardware)) BVSTK_I2C_SLV_IRQ_OFFSET s of
         (st, None, s1) \<Rightarrow> (st, Some zero_irq_event, s1)
       | (st, Some irq, s1) \<Rightarrow>
           (case spi_read32 e (sh_slave (the hardware)) BVSTK_I2C_SLV_REQ_OFFSET s1 of
              (st2, None, s2) \<Rightarrow> (st2, Some (zero_irq_event \<lparr> iq_irq_flags := irq \<rparr>), s2)
            | (st2, Some header, s2) \<Rightarrow>
                (case bvstk_i2c_slave_hw_clear_irq hardware s2 of
                   (st3, s3) \<Rightarrow> (st3, Some \<lparr> iq_irq_flags = irq, iq_request_header = header,
                     iq_request_addr = header_address header, iq_request_size = header_size header \<rparr>, s3)))))"

text \<open>\<open>frame\<close> is the buffer of the caller and \<open>out\<close> says whether there are places for the size and the
  address, which are the third component when they are written.\<close>

definition bvstk_i2c_slave_hw_read_frame :: "mmio_env \<Rightarrow> bvstk_i2c_slave_hw_t option \<Rightarrow> bytes option \<Rightarrow> nat \<Rightarrow> bool \<Rightarrow>
    mmio_st \<Rightarrow> bvstk_status_t \<times> bytes option \<times> (nat \<times> u8) option \<times> mmio_st" where
  "bvstk_i2c_slave_hw_read_frame e hardware frame frame_capacity out s =
    (if \<not> hw_ready hardware then (BVSTK_ERR_NOT_READY, frame, None, s)
     else if \<not> out \<or> (frame_capacity \<noteq> 0 \<and> frame = None) then (BVSTK_ERR_MALFORMED, frame, None, s)
     else (case spi_read32 e (sh_bram (the hardware)) BVSTK_I2C_BRAM_SLAVE_WR_OFFSET s of
         (st, None, s1) \<Rightarrow> (BVSTK_ERR_IO, frame, Some (0, 0), s1)
       | (st, Some header, s1) \<Rightarrow>
           let size = header_size header in
           if size > frame_capacity \<or> size > BVSTK_I2C_SLAVE_MAX_FRAME_BYTES then (BVSTK_ERR_RANGE, frame, Some (0, 0), s1)
           else (case read_result e (sh_bram (the hardware)) (BVSTK_I2C_BRAM_SLAVE_WR_OFFSET + 4) size 0
                   (case frame of None \<Rightarrow> [] | Some b \<Rightarrow> b) s1 of
               (st2, buf, s2) \<Rightarrow>
                 if st2 \<noteq> BVSTK_OK then (BVSTK_ERR_IO, map_option (\<lambda>_. buf) frame, Some (0, header_address header), s2)
                 else (BVSTK_OK, map_option (\<lambda>_. buf) frame, Some (size, header_address header), s2))))"

definition bvstk_i2c_slave_hw_write_read_window :: "bvstk_i2c_slave_hw_t option \<Rightarrow> u8 \<Rightarrow> bytes option \<Rightarrow> nat \<Rightarrow> mmio_st \<Rightarrow>
    bvstk_status_t \<times> mmio_st" where
  "bvstk_i2c_slave_hw_write_read_window hardware addr_7b data count s =
    (if \<not> hw_ready hardware then (BVSTK_ERR_NOT_READY, s)
     else if count > BVSTK_I2C_BRAM_SLAVE_WINDOW_SIZE - 4 \<or> (count \<noteq> 0 \<and> data = None) then (BVSTK_ERR_RANGE, s)
     else (case spi_write32 (sh_bram (the hardware)) BVSTK_I2C_BRAM_SLAVE_RD_OFFSET
             (push_bit 7 (of_nat count) OR ucast (addr_7b AND 0x7F)) s of
         (st, s1) \<Rightarrow>
           if st \<noteq> BVSTK_OK then (BVSTK_ERR_IO, s1)
           else write_words (sh_bram (the hardware)) (BVSTK_I2C_BRAM_SLAVE_RD_OFFSET + 4)
                  (case data of None \<Rightarrow> [] | Some d \<Rightarrow> take count d) s1))"

definition bvstk_i2c_slave_hw_accept_read :: "bvstk_i2c_slave_hw_t option \<Rightarrow> mmio_st \<Rightarrow> bvstk_status_t \<times> mmio_st" where
  "bvstk_i2c_slave_hw_accept_read hardware s =
    (if \<not> hw_ready hardware then (BVSTK_ERR_NOT_READY, s)
     else spi_write32 (sh_slave (the hardware)) BVSTK_I2C_SLV_CSR_OFFSET BVSTK_I2C_SLV_CSR_RD_VALID_BIT s)"

text \<open>The loop of \<open>bvstk_i2c_slave_hw_clear_frame\<close>, \<open>n\<close> bytes left from offset \<open>off\<close> on.\<close>

function clear_words :: "bvstk_mmio_region_t \<Rightarrow> nat \<Rightarrow> nat \<Rightarrow> mmio_st \<Rightarrow> bvstk_status_t \<times> mmio_st" where
  "clear_words region off n s =
    (if n = 0 then (BVSTK_OK, s)
     else (case spi_write32 region off 0 s of
             (st, s1) \<Rightarrow> if st \<noteq> BVSTK_OK then (BVSTK_ERR_IO, s1) else clear_words region (off + 4) (n - 4) s1))"
  by pat_completeness auto
termination by (relation "measure (\<lambda>(region, off, n, s). n)") auto

declare clear_words.simps [simp del]

definition bvstk_i2c_slave_hw_clear_frame :: "bvstk_i2c_slave_hw_t option \<Rightarrow> nat \<Rightarrow> mmio_st \<Rightarrow> bvstk_status_t \<times> mmio_st" where
  "bvstk_i2c_slave_hw_clear_frame hardware frame_size s =
    (if \<not> hw_ready hardware then (BVSTK_ERR_NOT_READY, s)
     else
       let size = min frame_size BVSTK_I2C_SLAVE_MAX_FRAME_BYTES in
       (case spi_write32 (sh_bram (the hardware)) BVSTK_I2C_BRAM_SLAVE_WR_OFFSET 0 s of
          (st, s1) \<Rightarrow>
            if st \<noteq> BVSTK_OK then (BVSTK_ERR_IO, s1)
            else clear_words (sh_bram (the hardware)) (BVSTK_I2C_BRAM_SLAVE_WR_OFFSET + 4) size s1))"

section \<open>The adapter\<close>

record bvstk_i2c_slave_freertos_t =
  ad_hardware :: "bvstk_i2c_slave_hw_t option"
  ad_service :: "slave option"
  ad_event_queue :: "bvstk_i2c_slave_irq_event_t list option"
  ad_initialized :: bool

definition zero_adapter :: bvstk_i2c_slave_freertos_t where
  "zero_adapter = \<lparr> ad_hardware = None, ad_service = None, ad_event_queue = None, ad_initialized = False \<rparr>"

abbreviation (input) BVSTK_I2C_SLAVE_FREERTOS_QUEUE_LENGTH :: nat where "BVSTK_I2C_SLAVE_FREERTOS_QUEUE_LENGTH \<equiv> 16"

text \<open>A queue of the operating system refuses an event when it is full.\<close>

definition slave_isr :: "mmio_env \<Rightarrow> bvstk_i2c_slave_freertos_t option \<Rightarrow> mmio_st \<Rightarrow> bvstk_i2c_slave_freertos_t option \<times> mmio_st" where
  "slave_isr e adapter s =
    (case adapter of
       None \<Rightarrow> (None, s)
     | Some a \<Rightarrow>
         (case ad_event_queue a of
            None \<Rightarrow> (adapter, s)
          | Some q \<Rightarrow>
              (case bvstk_i2c_slave_hw_capture_irq e (ad_hardware a) (Some zero_irq_event) s of
                 (st, event, s1) \<Rightarrow>
                   if st \<noteq> BVSTK_OK \<or> iq_irq_flags (the event) = 0 then (adapter, s1)
                   else (Some (if length q < BVSTK_I2C_SLAVE_FREERTOS_QUEUE_LENGTH
                               then a \<lparr> ad_event_queue := Some (q @ [the event]) \<rparr> else a), s1))))"

definition target_address_matches :: "slave option \<Rightarrow> u8 \<Rightarrow> bool" where
  "target_address_matches service addr_7b =
    (case service of
       None \<Rightarrow> False
     | Some sv \<Rightarrow>
         (case sl_master sv of
            None \<Rightarrow> False
          | Some m \<Rightarrow>
              (case bvstk_i2c_master_service_device_info (Some m) (bvstk_i2c_slave_service_target service) True of
                 (BVSTK_OK, Some device) \<Rightarrow> dv_addr_7b device = addr_7b AND 0x7F
               | _ \<Rightarrow> False)))"

text \<open>\<open>frame\<close> is the buffer of the task; a status, the buffer, the service and both traces come back.\<close>

definition process_write_event :: "i2c_env \<Rightarrow> mmio_env \<Rightarrow> bvstk_i2c_slave_hw_t option \<Rightarrow> slave option \<Rightarrow> bytes \<Rightarrow> i2c_trace \<Rightarrow> mmio_st \<Rightarrow>
    bvstk_status_t \<times> bytes \<times> slave option \<times> i2c_trace \<times> mmio_st" where
  "process_write_event env e hardware service frame t s =
    (case bvstk_i2c_slave_hw_read_frame e hardware (Some frame) BVSTK_I2C_SLAVE_MAX_FRAME_BYTES True s of
       (st1, buf, got, s1) \<Rightarrow>
         let frame1 = the buf;
             (frame_size, addr_7b) = (case got of None \<Rightarrow> (0, 0) | Some g \<Rightarrow> g);
             st2 = (if st1 = BVSTK_OK \<and> \<not> target_address_matches service addr_7b then BVSTK_ERR_NOT_FOUND else st1);
             (st3, service1, t1) = (if st2 = BVSTK_OK
               then (case bvstk_i2c_slave_service_handle_frame env service
                       (if frame_size = 0 then None else Some (take frame_size frame1)) False True
                       BVSTK_I2C_SLAVE_READ_WINDOW_BYTES True 100 t of (st, w, sv, t') \<Rightarrow> (st, sv, t'))
               else (st2, service, t))
         in (st3, frame1, service1, t1, snd (bvstk_i2c_slave_hw_clear_frame hardware frame_size s1)))"

definition process_read_event :: "i2c_env \<Rightarrow> bvstk_i2c_slave_hw_t option \<Rightarrow> slave option \<Rightarrow> bvstk_i2c_slave_irq_event_t \<Rightarrow>
    i2c_trace \<Rightarrow> mmio_st \<Rightarrow> bvstk_status_t \<times> slave option \<times> i2c_trace \<times> mmio_st" where
  "process_read_event env hardware service event t s =
    (if \<not> target_address_matches service (iq_request_addr event) then (BVSTK_ERR_NOT_FOUND, service, t, s)
     else (case bvstk_i2c_slave_service_handle_frame env service None True True BVSTK_I2C_SLAVE_READ_WINDOW_BYTES True 100 t of
         (st, w, service1, t1) \<Rightarrow>
           let window = (case w of None \<Rightarrow> [] | Some b \<Rightarrow> b) in
           if st \<noteq> BVSTK_OK \<or> window = [] then (st, service1, t1, s)
           else
             let (st2, s1) = bvstk_i2c_slave_hw_write_read_window hardware (iq_request_addr event) (Some window) (length window) s;
                 (st3, s2) = (if st2 = BVSTK_OK then bvstk_i2c_slave_hw_accept_read hardware s1 else (st2, s1))
             in (st3, service1, t1, s2)))"

text \<open>What the task does with an event, and the event it takes next; it waits while there is none.\<close>

definition slave_event :: "i2c_env \<Rightarrow> mmio_env \<Rightarrow> bvstk_i2c_slave_hw_t option \<Rightarrow> bvstk_i2c_slave_irq_event_t \<Rightarrow> slave option \<Rightarrow> bytes \<Rightarrow>
    i2c_trace \<Rightarrow> mmio_st \<Rightarrow> bytes \<times> slave option \<times> i2c_trace \<times> mmio_st" where
  "slave_event env e hardware event service frame t s =
    (let flags = iq_irq_flags event;
         (st1, frame1, service1, t1, s1) = (if flags AND BVSTK_I2C_SLV_IRQ_DATA_VALID \<noteq> 0
           then process_write_event env e hardware service frame t s else (BVSTK_OK, frame, service, t, s));
         (st2, service2, t2, s2) = (if st1 = BVSTK_OK \<and>
             flags AND (BVSTK_I2C_SLV_IRQ_ERR_ACK OR BVSTK_I2C_SLV_IRQ_MEM_OVERFLOW) = 0 \<and>
             flags AND BVSTK_I2C_SLV_IRQ_RD_REQUEST \<noteq> 0
           then process_read_event env hardware service1 event t1 s1 else (st1, service1, t1, s1));
         service3 = (if st2 \<noteq> BVSTK_OK \<or> bvstk_i2c_slave_irq_ends_read flags
           then bvstk_i2c_slave_service_end_transaction service2 else service2)
     in (frame1, service3, t2, s2))"

definition slave_task :: "i2c_env \<Rightarrow> mmio_env \<Rightarrow> bvstk_i2c_slave_freertos_t \<Rightarrow> bytes \<Rightarrow> i2c_trace \<Rightarrow> mmio_st \<Rightarrow>
    (bvstk_i2c_slave_freertos_t \<times> bytes \<times> i2c_trace \<times> mmio_st) option" where
  "slave_task env e a frame t s =
    (case ad_event_queue a of
       Some (event # q) \<Rightarrow>
         (case slave_event env e (ad_hardware a) event (ad_service a) frame t s of
            (frame1, service1, t1, s1) \<Rightarrow> Some (a \<lparr> ad_event_queue := Some q, ad_service := service1 \<rparr>, frame1, t1, s1))
     | _ \<Rightarrow> None)"

text \<open>\<open>queue\<close> and \<open>task\<close> say whether the operating system could create them; the handler it installs and
  the interrupt it enables are not state of this program.\<close>

definition bvstk_i2c_slave_freertos_start :: "bvstk_i2c_slave_freertos_t option \<Rightarrow> bvstk_i2c_slave_hw_t option \<Rightarrow> slave option \<Rightarrow>
    bool \<Rightarrow> bool \<Rightarrow> mmio_st \<Rightarrow> bvstk_status_t \<times> bvstk_i2c_slave_freertos_t option \<times> mmio_st" where
  "bvstk_i2c_slave_freertos_start adapter hardware service queue task s =
    (case (adapter, hardware, service) of
       (Some _, Some h, Some sv) \<Rightarrow>
         if \<not> sh_initialized h \<or> \<not> sl_initialized sv then (BVSTK_ERR_MALFORMED, adapter, s)
         else
           let a = zero_adapter \<lparr> ad_hardware := Some h, ad_service := Some sv \<rparr> in
           if \<not> queue then (BVSTK_ERR_INTERNAL, Some a, s)
           else if \<not> task then (BVSTK_ERR_INTERNAL, Some zero_adapter, s)
           else
             let a1 = a \<lparr> ad_event_queue := Some [] \<rparr> in
             (case bvstk_i2c_slave_hw_clear_irq hardware s of
                (st, s1) \<Rightarrow> if st \<noteq> BVSTK_OK then (BVSTK_ERR_IO, Some a1, s1)
                            else (BVSTK_OK, Some (a1 \<lparr> ad_initialized := True \<rparr>), s1))
     | _ \<Rightarrow> (BVSTK_ERR_MALFORMED, adapter, s))"

definition bvstk_i2c_slave_freertos_stop :: "bvstk_i2c_slave_freertos_t option \<Rightarrow> bvstk_i2c_slave_freertos_t option" where
  "bvstk_i2c_slave_freertos_stop adapter = adapter"

section \<open>Runs of the driver\<close>

definition slave_hw_wf :: "bvstk_i2c_slave_hw_t \<Rightarrow> bool" where
  [wf_defs]: "slave_hw_wf h \<longleftrightarrow> sh_initialized h \<and>
     mr_mapped_base (sh_slave h) \<noteq> 0 \<and> mr_size (sh_slave h) = BVSTK_I2C_SLAVE_SIZE \<and>
     mr_mapped_base (sh_bram h) \<noteq> 0 \<and> mr_size (sh_bram h) = BVSTK_I2C_BRAM_SIZE"

lemma slave_access:
  assumes "slave_hw_wf h"
  shows "hw_ready (Some h)" "off mod 4 = 0 \<Longrightarrow> off < 0x10000 \<Longrightarrow> accessible (sh_slave h) off"
    "off mod 4 = 0 \<Longrightarrow> off < 0x3000 \<Longrightarrow> accessible (sh_bram h) off"
proof -
  have below: "off + 4 \<le> m" if "off mod 4 = 0" "off < m" "m mod 4 = 0" for m :: nat using that by presburger
  show "hw_ready (Some h)" using assms by (simp add: hw_ready_def slave_hw_wf_def)
  show "off mod 4 = 0 \<Longrightarrow> off < 0x10000 \<Longrightarrow> accessible (sh_slave h) off"
    using assms below [of "0x10000"] by (simp add: accessible_def slave_hw_wf_def)
  show "off mod 4 = 0 \<Longrightarrow> off < 0x3000 \<Longrightarrow> accessible (sh_bram h) off"
    using assms below [of "0x3000"] by (simp add: accessible_def slave_hw_wf_def)
qed

text \<open>The header of a mailbox reads back.\<close>

lemma header_roundtrip:
  assumes "addr AND 0x7F = addr" and "n \<le> 0x1FFFFFF"
  shows "header_size (push_bit 7 (of_nat n) OR ucast addr) = n" "header_address (push_bit 7 (of_nat n) OR ucast addr) = addr"
proof -
  have m: "(0x7F :: 'a :: len word) = mask 7" "(0x1FFFFFF :: u32) = mask 25" by (simp_all add: mask_eq_exp_minus_1)
  have low: "\<not> bit addr (7 + i)" "\<not> bit addr (i + 7)" for i
    using assms(1) unfolding m by (metis bit_and_iff bit_mask_iff not_add_less1, metis bit_and_iff bit_mask_iff not_add_less2)
  have "drop_bit 7 ((push_bit 7 (of_nat n) OR ucast addr) AND push_bit 7 (0x1FFFFFF :: u32)) = of_nat n AND 0x1FFFFFF"
    unfolding m by (rule bit_word_eqI) (auto simp: bit_simps low)
  also have "\<dots> = of_nat n"
  proof -
    have "take_bit 25 n = n" using assms(2) by (simp add: take_bit_nat_eq_self)
    then show ?thesis unfolding m take_bit_eq_mask [symmetric] by (simp add: take_bit_of_nat)
  qed
  finally show "header_size (push_bit 7 (of_nat n) OR ucast addr) = n"
    using assms(2) by (simp add: header_size_def unat_of_nat_small)
  show "header_address (push_bit 7 (of_nat n) OR ucast addr) = addr"
  proof (rule bit_word_eqI)
    fix i assume "i < LENGTH(8)"
    show "bit (header_address (push_bit 7 (of_nat n) OR ucast addr)) i = bit addr i"
      using low [of "i - 7"] \<open>i < LENGTH(8)\<close> unfolding header_address_def m
      by (cases "i < 7") (auto simp: bit_simps)
  qed
qed

text \<open>Words stored one after the other.\<close>

fun word_stores :: "bvstk_mmio_region_t \<Rightarrow> nat \<Rightarrow> u32 list \<Rightarrow> (u32 \<times> u32) list" where
  "word_stores r off [] = []"
| "word_stores r off (w # ws) = (reg_addr r off, w) # word_stores r (off + 4) ws"

definition stored :: "(u32 \<times> u32) list \<Rightarrow> mmio_trace" where
  "stored ss = map (\<lambda>(a, v). OsStore a v) ss"

lemma stored_simps [simp]: "stored [] = []" "stored ((a, v) # ss) = OsStore a v # stored ss" "stores (stored ss) = ss" "calm (stored ss)"
  unfolding stored_def by (induction ss) auto

lemma length_words_of: "length (words_of bs) = (length bs + 3) div 4"
proof (induction bs rule: words_of.induct)
  case (2 b bs)
  have "Suc ((n - 3 + 3) div 4) = (n + 4) div 4" for n :: nat by (cases "n < 3") auto
  then show ?case using 2 by (simp add: add.commute)
qed simp

lemma write_words_run:
  "(\<And>i. i mod 4 = 0 \<Longrightarrow> i < length bs \<Longrightarrow> accessible r (off + i)) \<Longrightarrow>
    write_words r off bs s = (BVSTK_OK, says (stored (word_stores r off (words_of bs))) s)"
proof (induction r off bs s rule: write_words.induct)
  case (2 r off b bs s)
  have "accessible r (off + 4 + i)" if "i mod 4 = 0" "i < length (drop 4 (b # bs))" for i
    using 2(2) [of "4 + i"] that by (simp add: add.assoc)
  moreover have "accessible r off" using 2(2) [of 0] by simp
  ultimately show ?case using 2(1) wr_ok by simp
qed (simp add: says_def)

lemma clear_words_run:
  "(\<And>i. i mod 4 = 0 \<Longrightarrow> i < n \<Longrightarrow> accessible r (off + i)) \<Longrightarrow>
    clear_words r off n s = (BVSTK_OK, says (stored (word_stores r off (replicate ((n + 3) div 4) 0))) s)"
proof (induction n arbitrary: off s rule: less_induct)
  case (less n)
  show ?case
  proof (cases "n = 0")
    case True
    then show ?thesis by (simp add: clear_words.simps says_def)
  next
    case False
    have a: "accessible r off" using less.prems [of 0] False by simp
    have "clear_words r (off + 4) (n - 4) (says [OsStore (reg_addr r off) 0] s) =
        (BVSTK_OK, says (stored (word_stores r (off + 4) (replicate ((n - 4 + 3) div 4) 0))) (says [OsStore (reg_addr r off) 0] s))"
    proof (rule less.IH)
      show "accessible r (off + 4 + i)" if "i mod 4 = 0" "i < n - 4" for i
        using less.prems [of "4 + i"] that by (simp add: add.assoc)
    qed (use False in simp)
    moreover have "(n + 3) div 4 = Suc ((n - 4 + 3) div 4)" using False by (cases "n < 4") auto
    ultimately show ?thesis using False wr_ok [OF a] by (subst clear_words.simps) simp
  qed
qed

lemma bram_access:
  assumes "slave_hw_wf h" "base mod 4 = 0" "i mod 4 = 0" "base + i < 0x3000"
  shows "accessible (sh_bram h) (base + i)"
proof -
  have "(base + i) mod 4 = 0" using assms(2,3) by presburger
  then show ?thesis by (rule slave_access(3) [OF assms(1) _ assms(4)])
qed

text \<open>What a host wrote: until the software stores something, the mailbox holds a frame for an address.\<close>

definition mailbox_holds :: "mmio_env \<Rightarrow> bvstk_i2c_slave_hw_t \<Rightarrow> mmio_trace \<Rightarrow> u8 \<Rightarrow> bytes \<Rightarrow> bool" where
  "mailbox_holds e h tr addr frame \<longleftrightarrow> addr AND 0x7F = addr \<and> length frame \<le> BVSTK_I2C_SLAVE_MAX_FRAME_BYTES \<and>
     (\<forall>evs. stores evs = [] \<longrightarrow>
        os_load e (tr @ evs) (reg_addr (sh_bram h) BVSTK_I2C_BRAM_SLAVE_WR_OFFSET) = push_bit 7 (of_nat (length frame)) OR ucast addr \<and>
        (\<forall>j < length (words_of frame).
           os_load e (tr @ evs) (reg_addr (sh_bram h) (BVSTK_I2C_BRAM_SLAVE_WR_OFFSET + 4 + 4 * j)) = words_of frame ! j))"

lemma read_frame_run:
  assumes "slave_hw_wf h" and mb: "mailbox_holds e h (mm_trace s) addr frame" and "length buf = 256"
  shows "\<exists>s' evs. bvstk_i2c_slave_hw_read_frame e (Some h) (Some buf) 256 True s =
      (BVSTK_OK, Some (frame @ drop (length frame) buf), Some (length frame, addr), s') \<and>
    mm_trace s' = mm_trace s @ evs \<and> stores evs = [] \<and> calm evs"
proof -
  let ?r = "sh_bram h" let ?hdr = "push_bit 7 (of_nat (length frame)) OR ucast addr :: u32"
  have m: "addr AND 0x7F = addr" "length frame \<le> 256"
    "\<And>evs. stores evs = [] \<Longrightarrow> os_load e (mm_trace s @ evs) (reg_addr ?r 0x1000) = ?hdr"
    "\<And>evs j. stores evs = [] \<Longrightarrow> j < length (words_of frame) \<Longrightarrow>
       os_load e (mm_trace s @ evs) (reg_addr ?r (0x1004 + 4 * j)) = words_of frame ! j"
    using mb by (auto simp: mailbox_holds_def)
  define s1 where "s1 = says [OsLoad (reg_addr ?r 0x1000) ?hdr] s"
  have hd: "spi_read32 e ?r 0x1000 s = (BVSTK_OK, Some ?hdr, s1)"
  proof -
    have "accessible ?r 0x1000" using slave_access(3) [OF assms(1)] by simp
    then show ?thesis using rd_now [of ?r "0x1000" e s] m(3) [of "[]"] by (simp add: s1_def)
  qed
  have hs: "header_size ?hdr = length frame" "header_address ?hdr = addr" using header_roundtrip [OF m(1)] m(2) by simp_all
  define Q where "Q i w \<longleftrightarrow> (i div 4 < length (words_of frame) \<longrightarrow> w = words_of frame ! (i div 4))" for i :: nat and w :: u32
  have acc: "accessible ?r (0x1004 + i)" if "i mod 4 = 0" "i < 4092" for i
    using bram_access [OF assms(1), of "0x1004" i] that by simp
  have Q: "Q i (os_load e (mm_trace s @ evs) (reg_addr ?r (0x1004 + i)))" if "i mod 4 = 0" "stores evs = []" for i evs
  proof -
    have "i = 4 * (i div 4)" using that(1) by presburger
    then show ?thesis using m(4) [OF that(2), of "i div 4"] by (simp add: Q_def)
  qed
  obtain ws where ws: "read_result e ?r 0x1004 (length frame) 0 buf s1 = (BVSTK_OK,
      take 0 buf @ take (length frame) (concat (map (\<lambda>w. unpack_bytes w 4) ws)) @ drop (0 + length frame) buf, says (result_loads ?r (0x1004 + 0) ws) s1)"
    "length ws = (length frame + 3) div 4" "\<forall>j < length ws. Q (0 + 4 * j) (ws ! j)"
    using read_result_run [of 4092 ?r "0x1004" Q e "mm_trace s" s1 0 "length frame" buf] acc Q m(2) assms(3)
    by (auto simp: s1_def)
  have "ws = words_of frame"
    using ws(2,3) by (intro nth_equalityI) (auto simp: length_words_of Q_def)
  then have r: "read_result e ?r 0x1004 (length frame) 0 buf s1 = (BVSTK_OK, frame @ drop (length frame) buf, says (result_loads ?r 0x1004 ws) s1)"
    using ws(1) unpack_words_of [of frame] by simp
  have "bvstk_i2c_slave_hw_read_frame e (Some h) (Some buf) 256 True s =
      (BVSTK_OK, Some (frame @ drop (length frame) buf), Some (length frame, addr), says (result_loads ?r 0x1004 ws) s1)"
    using hd hs r m(2) slave_access(1) [OF assms(1)] by (simp add: bvstk_i2c_slave_hw_read_frame_def Let_def)
  then show ?thesis using result_loads_quiet
    by (intro exI [of _ "says (result_loads ?r 0x1004 ws) s1"] exI [of _ "OsLoad (reg_addr ?r 0x1000) ?hdr # result_loads ?r 0x1004 ws"])
      (simp add: s1_def)
qed

text \<open>The frame mailbox emptied, and a reply: its header and bytes, and then the word that it is there.\<close>

definition frame_cleared :: "bvstk_i2c_slave_hw_t \<Rightarrow> bytes \<Rightarrow> (u32 \<times> u32) list" where
  "frame_cleared h frame = word_stores (sh_bram h) BVSTK_I2C_BRAM_SLAVE_WR_OFFSET (0 # replicate (length (words_of frame)) 0)"

definition reply_stores :: "bvstk_i2c_slave_hw_t \<Rightarrow> u8 \<Rightarrow> bytes \<Rightarrow> (u32 \<times> u32) list" where
  "reply_stores h addr w =
     word_stores (sh_bram h) BVSTK_I2C_BRAM_SLAVE_RD_OFFSET ((push_bit 7 (of_nat (length w)) OR ucast (addr AND 0x7F)) # words_of w) @
     [(reg_addr (sh_slave h) BVSTK_I2C_SLV_CSR_OFFSET, BVSTK_I2C_SLV_CSR_RD_VALID_BIT)]"

lemma clear_frame_run:
  assumes "slave_hw_wf h" and "length frame \<le> 256"
  shows "bvstk_i2c_slave_hw_clear_frame (Some h) (length frame) s = (BVSTK_OK, says (stored (frame_cleared h frame)) s)"
proof -
  have acc: "accessible (sh_bram h) (0x1004 + i)" if "i mod 4 = 0" "i < length frame" for i
    using bram_access [OF assms(1), of "0x1004" i] that assms(2) by simp
  show ?thesis
    using clear_words_run [of "length frame" "sh_bram h" "0x1004", OF acc] wr_ok [OF slave_access(3) [OF assms(1), of "0x1000"]]
      slave_access(1) [OF assms(1)] assms(2)
    by (simp add: bvstk_i2c_slave_hw_clear_frame_def Let_def frame_cleared_def length_words_of min_def)
qed

lemma slave_reply_run:
  assumes "slave_hw_wf h" and "length w \<le> 4092"
  shows "bvstk_i2c_slave_hw_write_read_window (Some h) addr (Some w) (length w) s =
      (BVSTK_OK, says (stored (butlast (reply_stores h addr w))) s)"
    "bvstk_i2c_slave_hw_accept_read (Some h) s1 = (BVSTK_OK, says (stored [last (reply_stores h addr w)]) s1)"
proof -
  have acc: "accessible (sh_bram h) (0x2004 + i)" if "i mod 4 = 0" "i < length w" for i
    using bram_access [OF assms(1), of "0x2004" i] that assms(2) by simp
  show "bvstk_i2c_slave_hw_write_read_window (Some h) addr (Some w) (length w) s =
      (BVSTK_OK, says (stored (butlast (reply_stores h addr w))) s)"
    using write_words_run [of w "sh_bram h" "0x2004", OF acc] wr_ok [OF slave_access(3) [OF assms(1), of "0x2000"]]
      slave_access(1) [OF assms(1)] assms(2)
    by (simp add: bvstk_i2c_slave_hw_write_read_window_def reply_stores_def butlast_append)
  show "bvstk_i2c_slave_hw_accept_read (Some h) s1 = (BVSTK_OK, says (stored [last (reply_stores h addr w)]) s1)"
    using wr_ok [OF slave_access(2) [OF assms(1), of 0]] slave_access(1) [OF assms(1)]
    by (simp add: bvstk_i2c_slave_hw_accept_read_def reply_stores_def)
qed

section \<open>What an event does\<close>

lemma load_loop_le:
  "load_loop env timeout d reg n_reg n m w t = (st, w', m', t') \<Longrightarrow> length w' \<le> length w + n"
proof (induction n arbitrary: w)
  case (Suc n)
  show ?case
  proof (cases "unat reg + length w \<ge> n_reg")
    case True
    then show ?thesis using Suc.prems by simp
  next
    case False
    let ?c = "if bvstk_i2c_cache_is_valid (Some (ms_cache m)) d (of_nat (unat reg + length w))
      then bvstk_i2c_cache_read (Some (ms_cache m)) d (of_nat (unat reg + length w)) True else (BVSTK_ERR_NOT_READY, None)"
    obtain st1 v1 where c: "?c = (st1, v1)" by fastforce
    show ?thesis
    proof (cases "st1 = BVSTK_OK \<and> v1 \<noteq> None")
      case True
      then show ?thesis using Suc.prems False c Suc.IH [of "w @ [the v1]"] by (auto simp: Let_def simp del: of_nat_add)
    next
      case miss: False
      then show ?thesis using Suc.prems False c
        by (auto simp: Let_def simp del: of_nat_add split: bvstk_status_t.splits option.splits if_splits prod.splits)
    qed
  qed
qed simp

lemma window_le:
  assumes "bvstk_i2c_slave_service_handle_frame env service frame is_read window capacity True timeout t = (st, Some w, service', t')"
  shows "length w \<le> capacity"
proof -
  have "length w \<le> capacity" if "read_phase env timeout window capacity sv m device t = (st, w, sv', t')" for sv m device sv'
    using that load_loop_le [where w = "[]"]
    by (auto simp: read_phase_def load_window_def Let_def split: if_splits prod.splits bvstk_status_t.splits option.splits)
  then show ?thesis using assms
    by (auto simp: bvstk_i2c_slave_service_handle_frame_def split: if_splits prod.splits bvstk_status_t.splits option.splits)
qed

text \<open>
  The task without the core: the frame, if one was announced, goes to the service when it is for the
  target device; then a request for data is put to the service, and what it delivers is the reply.
  The transaction ends when something failed or the flags say so.
\<close>

definition handed_over :: "i2c_env \<Rightarrow> slave option \<Rightarrow> u8 \<Rightarrow> bytes \<Rightarrow> i2c_trace \<Rightarrow> bvstk_status_t \<times> slave option \<times> i2c_trace" where
  "handed_over env service addr frame t =
    (if \<not> target_address_matches service addr then (BVSTK_ERR_NOT_FOUND, service, t)
     else (case bvstk_i2c_slave_service_handle_frame env service (if frame = [] then None else Some frame) False True 64 True 100 t of
       (st, w, sv, t') \<Rightarrow> (st, sv, t')))"

definition asked_for :: "i2c_env \<Rightarrow> slave option \<Rightarrow> u8 \<Rightarrow> i2c_trace \<Rightarrow> bvstk_status_t \<times> bytes \<times> slave option \<times> i2c_trace" where
  "asked_for env service addr t =
    (if \<not> target_address_matches service addr then (BVSTK_ERR_NOT_FOUND, [], service, t)
     else (case bvstk_i2c_slave_service_handle_frame env service None True True 64 True 100 t of
       (st, w, sv, t') \<Rightarrow> (st, if st = BVSTK_OK then (case w of None \<Rightarrow> [] | Some b \<Rightarrow> b) else [], sv, t')))"

definition event_spec :: "i2c_env \<Rightarrow> slave option \<Rightarrow> bvstk_i2c_slave_irq_event_t \<Rightarrow> u8 \<Rightarrow> bytes \<Rightarrow> i2c_trace \<Rightarrow> bytes \<times> slave option \<times> i2c_trace" where
  "event_spec env service event addr frame t =
    (let flags = iq_irq_flags event;
         (st1, sv1, t1) = (if flags AND 2 \<noteq> 0 then handed_over env service addr frame t else (BVSTK_OK, service, t));
         (st2, w, sv2, t2) = (if st1 = BVSTK_OK \<and> flags AND (16 OR 32) = 0 \<and> flags AND 8 \<noteq> 0
           then asked_for env sv1 (iq_request_addr event) t1 else (st1, [], sv1, t1))
     in (w, if st2 \<noteq> BVSTK_OK \<or> bvstk_i2c_slave_irq_ends_read flags then bvstk_i2c_slave_service_end_transaction sv2 else sv2, t2))"

lemma write_event_run:
  assumes "slave_hw_wf h" and mb: "mailbox_holds e h (mm_trace s) addr frame" and "length buf = 256"
  shows "\<exists>buf' s' evs. process_write_event env e (Some h) service buf t s =
      (case handed_over env service addr frame t of (st, sv, t') \<Rightarrow> (st, buf', sv, t', s')) \<and> length buf' = 256 \<and>
    mm_trace s' = mm_trace s @ evs \<and> stores evs = frame_cleared h frame \<and> calm evs"
proof -
  have n: "length frame \<le> 256" using mb by (simp add: mailbox_holds_def)
  obtain s1 evs where rf: "bvstk_i2c_slave_hw_read_frame e (Some h) (Some buf) 256 True s =
      (BVSTK_OK, Some (frame @ drop (length frame) buf), Some (length frame, addr), s1)"
    "mm_trace s1 = mm_trace s @ evs" "stores evs = []" "calm evs"
    using read_frame_run [OF assms] by blast
  note cl = clear_frame_run [OF assms(1) n, of s1]
  have "process_write_event env e (Some h) service buf t s =
      (case handed_over env service addr frame t of (st, sv, t') \<Rightarrow>
         (st, frame @ drop (length frame) buf, sv, t', says (stored (frame_cleared h frame)) s1))"
    unfolding process_write_event_def handed_over_def rf(1) prod.case Let_def option.sel option.case cl snd_conv
    by (simp split: prod.split)
  then show ?thesis using rf(2-4) n assms(3)
    by (intro exI [of _ "frame @ drop (length frame) buf"] exI [of _ "says (stored (frame_cleared h frame)) s1"]
        exI [of _ "evs @ stored (frame_cleared h frame)"]) simp
qed

lemma read_event_run:
  assumes "slave_hw_wf h"
  shows "\<exists>s' evs. process_read_event env (Some h) service event t s =
      (case asked_for env service (iq_request_addr event) t of (st, w, sv, t') \<Rightarrow> (st, sv, t', s')) \<and>
    mm_trace s' = mm_trace s @ evs \<and> calm evs \<and>
    stores evs = (case asked_for env service (iq_request_addr event) t of (st, w, sv, t') \<Rightarrow>
      if w = [] then [] else reply_stores h (iq_request_addr event) w)"
proof (cases "target_address_matches service (iq_request_addr event)")
  case False
  then show ?thesis by (intro exI [of _ s] exI [of _ "[]"]) (simp add: process_read_event_def asked_for_def)
next
  case True
  let ?a = "iq_request_addr event"
  obtain st w sv t' where hf: "bvstk_i2c_slave_service_handle_frame env service None True True 64 True 100 t = (st, w, sv, t')"
    by (metis prod_cases4)
  define win where "win = (case w of None \<Rightarrow> [] | Some b \<Rightarrow> b)"
  have len: "length win \<le> 4092" using window_le [of env service None True True 64 100 t st win sv t'] hf
    by (cases w) (auto simp: win_def)
  note rp = slave_reply_run(1) [OF assms len, of ?a] slave_reply_run(2) [OF assms len, where addr = ?a]
  have all: "stored (butlast (reply_stores h ?a win)) @ stored [last (reply_stores h ?a win)] = stored (reply_stores h ?a win)"
    unfolding stored_def map_append [symmetric] by (simp add: reply_stores_def)
  have spec: "asked_for env service ?a t = (st, if st = BVSTK_OK then win else [], sv, t')"
    using True hf by (simp add: asked_for_def win_def)
  have run: "process_read_event env (Some h) service event t s =
      (st, sv, t', if st \<noteq> BVSTK_OK \<or> win = [] then s else says (stored (reply_stores h ?a win)) s)"
    using True hf rp all by (simp add: process_read_event_def win_def [symmetric] Let_def)
  show ?thesis
  proof (cases "st \<noteq> BVSTK_OK \<or> win = []")
    case True
    then show ?thesis using run spec by (intro exI [of _ s] exI [of _ "[]"]) auto
  next
    case False
    then show ?thesis using run spec
      by (intro exI [of _ "says (stored (reply_stores h ?a win)) s"] exI [of _ "stored (reply_stores h ?a win)"]) simp
  qed
qed

text \<open>The interrupt handler acknowledges what it read and queues it, if there is something and room.\<close>

lemma isr_run:
  assumes "slave_hw_wf h" and "ad_hardware a = Some h" and "ad_event_queue a = Some q" and "length q \<le> 16"
  shows "\<exists>irq hdr s' q'. slave_isr e (Some a) s = (Some (a \<lparr> ad_event_queue := Some q' \<rparr>), s') \<and>
    mm_trace s' = mm_trace s @ [OsLoad (reg_addr (sh_slave h) 4) irq, OsLoad (reg_addr (sh_slave h) 8) hdr, OsStore (reg_addr (sh_slave h) 4) 1] \<and>
    q' = (if irq \<noteq> 0 \<and> length q < 16
          then q @ [\<lparr> iq_irq_flags = irq, iq_request_header = hdr, iq_request_addr = header_address hdr, iq_request_size = header_size hdr \<rparr>]
          else q) \<and> length q' \<le> 16"
proof -
  note acc = slave_access(2) [OF assms(1)]
  have a4: "accessible (sh_slave h) 4" "accessible (sh_slave h) 8" by (rule acc; simp)+
  have same: "a \<lparr> ad_event_queue := Some q \<rparr> = a" using assms(3) by simp
  show ?thesis
    using assms(2-4) slave_access(1) [OF assms(1)] same
    by (simp add: slave_isr_def bvstk_i2c_slave_hw_capture_irq_def bvstk_i2c_slave_hw_clear_irq_def rd_now a4 wr_ok)
qed

text \<open>
  C17: What the board does with an event of its I2C slave core. The task refines the specification that
  knows no registers: a frame a host left in the mailbox reaches the slave service byte for byte, if
  it is for the target device, and the mailbox is emptied; a request for data is put to the service if
  it is for the target device, the frame before it was accepted and no error is flagged; and exactly
  when the service delivers a window the core is given a reply, the header and the packed bytes of
  that window and only then the word that it is there. The service is told of the end of the
  transaction when something failed or the flags say so.
\<close>

theorem slave_event_refines:
  assumes "slave_hw_wf h" and "length buf = 256"
    and "iq_irq_flags event AND 2 \<noteq> 0 \<longrightarrow> mailbox_holds e h (mm_trace s) addr frame"
  shows "\<exists>w service' t' buf' s' evs. event_spec env service event addr frame t = (w, service', t') \<and>
    slave_event env e (Some h) event service buf t s = (buf', service', t', s') \<and> length buf' = 256 \<and>
    mm_trace s' = mm_trace s @ evs \<and> calm evs \<and>
    stores evs = (if iq_irq_flags event AND 2 \<noteq> 0 then frame_cleared h frame else []) @
      (if w = [] then [] else reply_stores h (iq_request_addr event) w)"
proof -
  let ?f = "iq_irq_flags event"
  obtain st1 sv1 t1 where h1: "(if ?f AND 2 \<noteq> 0 then handed_over env service addr frame t else (BVSTK_OK, service, t)) = (st1, sv1, t1)"
    by (metis prod_cases3)
  obtain buf1 s1 e1 where r1: "(if ?f AND 2 \<noteq> 0 then process_write_event env e (Some h) service buf t s else (BVSTK_OK, buf, service, t, s)) =
      (st1, buf1, sv1, t1, s1)" "length buf1 = 256" "mm_trace s1 = mm_trace s @ e1" "calm e1"
      "stores e1 = (if ?f AND 2 \<noteq> 0 then frame_cleared h frame else [])"
  proof (cases "?f AND 2 \<noteq> 0")
    case True
    then show ?thesis using write_event_run [OF assms(1) _ assms(2), of e s addr frame env service t] assms(3) h1 that by auto
  next
    case False
    then show ?thesis using h1 assms(2) that [of buf s "[]"] by simp
  qed
  let ?ask = "st1 = BVSTK_OK \<and> ?f AND (16 OR 32) = 0 \<and> ?f AND 8 \<noteq> 0"
  obtain st2 w sv2 t2 where h2: "(if ?ask then asked_for env sv1 (iq_request_addr event) t1 else (st1, [], sv1, t1)) = (st2, w, sv2, t2)"
    by (metis prod_cases4)
  obtain s2 e2 where r2: "(if ?ask then process_read_event env (Some h) sv1 event t1 s1 else (st1, sv1, t1, s1)) = (st2, sv2, t2, s2)"
      "mm_trace s2 = mm_trace s1 @ e2" "calm e2" "stores e2 = (if w = [] then [] else reply_stores h (iq_request_addr event) w)"
  proof (cases ?ask)
    case True
    then show ?thesis using read_event_run [OF assms(1), of env sv1 event t1 s1] h2 that by auto
  next
    case False
    then show ?thesis using h2 that [of s1 "[]"] by auto
  qed
  define sv3 where "sv3 = (if st2 \<noteq> BVSTK_OK \<or> bvstk_i2c_slave_irq_ends_read ?f then bvstk_i2c_slave_service_end_transaction sv2 else sv2)"
  have "event_spec env service event addr frame t = (w, sv3, t2)"
    unfolding event_spec_def Let_def h1 prod.case h2 sv3_def ..
  moreover have "slave_event env e (Some h) event service buf t s = (buf1, sv3, t2, s2)"
    unfolding slave_event_def Let_def r1(1) prod.case r2(1) sv3_def ..
  ultimately show ?thesis using r1(2-5) r2(2-4)
    by (intro exI [of _ w] exI [of _ sv3] exI [of _ t2] exI [of _ buf1] exI [of _ s2] exI [of _ "e1 @ e2"]) simp
qed

lemma slave_hw_init_wf:
  assumes "bvstk_i2c_slave_hw_init e hw s = (BVSTK_OK, Some h, s')" and "\<And>tr base n. os_map e tr base n \<noteq> Inr 0"
  shows "slave_hw_wf h"
proof -
  have open_ok: "mr_size (the r) = n \<and> mr_mapped_base (the r) \<noteq> 0" if "bvstk_mmio_region_open e (Some r0) base n s1 = (None, r, s2)" for r0 r base n s1 s2
    using that assms(2) by (auto simp: bvstk_mmio_region_open_def Let_def split: if_splits option.splits sum.splits prod.splits)
  show ?thesis
    using assms(1) by (auto simp: bvstk_i2c_slave_hw_init_def slave_hw_wf_def Let_def dest: open_ok
        split: option.splits prod.splits if_splits)
qed

definition demo_slave_hw :: bvstk_i2c_slave_hw_t where
  "demo_slave_hw = \<lparr> sh_slave = \<lparr> mr_physical_base = 0x43C50000, mr_size = 0x10000, mr_mapped_base = 0x10000 \<rparr>,
     sh_bram = \<lparr> mr_physical_base = 0x40000000, mr_size = 0x3000, mr_mapped_base = 0x30000 \<rparr>, sh_initialized = True \<rparr>"

text \<open>A mailbox with the register pointer 2 for address 0x50.\<close>

definition demo_slave_env :: mmio_env where
  "demo_slave_env = \<lparr> os_thread_ctl = (\<lambda>tr. None), os_map = (\<lambda>tr base n. Inr base),
     os_load = (\<lambda>tr a. if a = 0x31000 then push_bit 7 1 OR 0x50 else 2),
     os_now = (\<lambda>tr. 0), os_lock = (\<lambda>tr t. BVSTK_OK) \<rparr>"

theorem slave_event_refines_witness:
  "\<exists>buf' service' t' s'. slave_event example_env demo_slave_env (Some demo_slave_hw) (zero_irq_event \<lparr> iq_irq_flags := 2 \<rparr>)
       (Some example_slave) (replicate 256 0) [] \<lparr> platform_ready = True, mm_trace = [] \<rparr> = (buf', service', t', s') \<and>
     stores (mm_trace s') = [(0x31000, 0), (0x31004, 0)]"
proof -
  have wf: "slave_hw_wf demo_slave_hw" by (simp add: slave_hw_wf_def demo_slave_hw_def)
  have mb: "mailbox_holds demo_slave_env demo_slave_hw [] 0x50 [2]"
    by (simp add: mailbox_holds_def demo_slave_env_def demo_slave_hw_def reg_addr_def)
  have "(2 :: u32) AND 2 \<noteq> 0" "(2 :: u32) AND (16 OR 32) = 0" "(2 :: u32) AND 8 = 0" by simp_all
  then show ?thesis
    using slave_event_refines [OF wf, of "replicate 256 0" "zero_irq_event \<lparr> iq_irq_flags := 2 \<rparr>" demo_slave_env
        "\<lparr> platform_ready = True, mm_trace = [] \<rparr>" "0x50" "[2]" example_env "Some example_slave" "[]"] mb
    by (auto simp: frame_cleared_def demo_slave_hw_def reg_addr_def event_spec_def Let_def split: prod.splits)
qed

end
