(* ===== verification/Mdio_Core.thy ===== *)
theory Mdio_Core
  imports Mmio_Poll
begin

text \<open>
  The MDIO core driver of \<open>src/drivers/pl/mdio/bvstk_mdio_core.c\<close>: Clause 22 transactions through
  the transmit FIFO of the master, whose results the core leaves in a shared memory, and the
  mailboxes of the slave in the same memory. Its two waiting loops are the polling loop of
  \<open>Mmio_Poll\<close>.
\<close>

section \<open>Registers and state\<close>

abbreviation (input) BVSTK_MDIO_BRAM_BASE :: u32 where "BVSTK_MDIO_BRAM_BASE \<equiv> 0x42000000"
abbreviation (input) BVSTK_MDIO_BRAM_SIZE :: nat where "BVSTK_MDIO_BRAM_SIZE \<equiv> 0x4000"
abbreviation (input) BVSTK_MDIO_MASTER_BASE :: u32 where "BVSTK_MDIO_MASTER_BASE \<equiv> 0x43C10000"
abbreviation (input) BVSTK_MDIO_MASTER_SIZE :: nat where "BVSTK_MDIO_MASTER_SIZE \<equiv> 0x10000"
abbreviation (input) BVSTK_MDIO_SLAVE_BASE :: u32 where "BVSTK_MDIO_SLAVE_BASE \<equiv> 0x43C20000"
abbreviation (input) BVSTK_MDIO_SLAVE_SIZE :: nat where "BVSTK_MDIO_SLAVE_SIZE \<equiv> 0x10000"

abbreviation (input) BVSTK_MDIO_SLAVE_WR_OFFSET :: nat where "BVSTK_MDIO_SLAVE_WR_OFFSET \<equiv> 0x1000"
abbreviation (input) BVSTK_MDIO_SLAVE_RD_OFFSET :: nat where "BVSTK_MDIO_SLAVE_RD_OFFSET \<equiv> 0x2000"
abbreviation (input) BVSTK_MDIO_MSTR_CSR_OFFSET :: nat where "BVSTK_MDIO_MSTR_CSR_OFFSET \<equiv> 0x00"
abbreviation (input) BVSTK_MDIO_MSTR_IRQ_OFFSET :: nat where "BVSTK_MDIO_MSTR_IRQ_OFFSET \<equiv> 0x08"
abbreviation (input) BVSTK_MDIO_MSTR_TX_FIFO_OFFSET :: nat where "BVSTK_MDIO_MSTR_TX_FIFO_OFFSET \<equiv> 0x0C"
abbreviation (input) BVSTK_MDIO_MSTR_MEM_ADDR_OFFSET :: nat where "BVSTK_MDIO_MSTR_MEM_ADDR_OFFSET \<equiv> 0x10"
abbreviation (input) BVSTK_MDIO_SLV_MEM_ADDR_OFFSET :: nat where "BVSTK_MDIO_SLV_MEM_ADDR_OFFSET \<equiv> 0x04"
abbreviation (input) BVSTK_MDIO_SLV_IRQ_OFFSET :: nat where "BVSTK_MDIO_SLV_IRQ_OFFSET \<equiv> 0x08"

abbreviation (input) BVSTK_MDIO_MAILBOX_EMPTY :: u32 where "BVSTK_MDIO_MAILBOX_EMPTY \<equiv> 0x10000"

text \<open>The bits of the status register.\<close>

abbreviation (input) DATA_VALID :: u32 where "DATA_VALID \<equiv> 1"
abbreviation (input) BUSY :: u32 where "BUSY \<equiv> 2"
abbreviation (input) TX_EMPTY :: u32 where "TX_EMPTY \<equiv> 4"
abbreviation (input) TX_FULL :: u32 where "TX_FULL \<equiv> 8"

record bvstk_mdio_core_t =
  mc_master :: bvstk_mmio_region_t
  mc_slave :: bvstk_mmio_region_t
  mc_bram :: bvstk_mmio_region_t
  mc_mutex :: "bool \<times> bool"
  mc_initialized :: bool

definition zero_mdio_core :: bvstk_mdio_core_t where
  "zero_mdio_core = \<lparr> mc_master = zero_region, mc_slave = zero_region, mc_bram = zero_region,
     mc_mutex = (False, False), mc_initialized = False \<rparr>"

definition index_of :: "u8 \<Rightarrow> u8 \<Rightarrow> nat" where
  "index_of phy reg = (push_bit 5 (unat phy) OR unat reg) * 4"

abbreviation (input) rd where "rd \<equiv> spi_read32"
abbreviation (input) wr where "wr \<equiv> spi_write32"

definition mdio_ack :: "mmio_env \<Rightarrow> bvstk_mdio_core_t \<Rightarrow> mmio_st \<Rightarrow> bvstk_status_t \<times> mmio_st" where
  "mdio_ack e c s =
    (case rd e (mc_master c) BVSTK_MDIO_MSTR_MEM_ADDR_OFFSET s of
       (st, None, s1) \<Rightarrow> (BVSTK_ERR_IO, s1)
     | (st, Some unused, s1) \<Rightarrow> wr (mc_master c) BVSTK_MDIO_MSTR_IRQ_OFFSET 1 s1)"

definition mdio_reset :: "mmio_env \<Rightarrow> bvstk_mdio_core_t \<Rightarrow> mmio_st \<Rightarrow> bvstk_status_t \<times> mmio_st" where
  "mdio_reset e c s =
    (case wr (mc_master c) BVSTK_MDIO_MSTR_CSR_OFFSET 1 s of
       (st, s1) \<Rightarrow>
         let s2 = bvstk_platform_sleep_ms 1 s1 in
         if st = BVSTK_OK then mdio_ack e c s2 else (st, s2))"

section \<open>Life cycle\<close>

definition close_region :: "bvstk_mmio_region_t \<Rightarrow> mmio_st \<Rightarrow> mmio_st" where
  "close_region r s = snd (bvstk_mmio_region_close (Some r) s)"

definition bvstk_mdio_core_shutdown :: "bvstk_mdio_core_t option \<Rightarrow> mmio_st \<Rightarrow> bvstk_mdio_core_t option \<times> mmio_st" where
  "bvstk_mdio_core_shutdown core s =
    (case core of
       None \<Rightarrow> (None, s)
     | Some c \<Rightarrow> (Some zero_mdio_core,
         if mc_initialized c
         then close_region (mc_master c) (close_region (mc_slave c) (close_region (mc_bram c) s))
         else s))"

text \<open>A window that was closed is zeroed in the structure.\<close>

definition bvstk_mdio_core_init :: "mmio_env \<Rightarrow> bvstk_mdio_core_t option \<Rightarrow> (bool \<times> bool) option \<Rightarrow> mmio_st \<Rightarrow>
    bvstk_status_t \<times> bvstk_mdio_core_t option \<times> mmio_st" where
  "bvstk_mdio_core_init e core mutex s =
    (case core of
       None \<Rightarrow> (BVSTK_ERR_MALFORMED, None, s)
     | Some _ \<Rightarrow>
         let c = zero_mdio_core \<lparr> mc_mutex := (case mutex of None \<Rightarrow> (False, False) | Some m \<Rightarrow> m) \<rparr> in
         (case bvstk_mmio_region_open e (Some (mc_master c)) BVSTK_MDIO_MASTER_BASE BVSTK_MDIO_MASTER_SIZE s of
            (Some err, m, s1) \<Rightarrow> (BVSTK_ERR_IO, Some (c \<lparr> mc_master := the m \<rparr>), s1)
          | (None, m, s1) \<Rightarrow>
              let c1 = c \<lparr> mc_master := the m \<rparr> in
              (case bvstk_mmio_region_open e (Some (mc_slave c1)) BVSTK_MDIO_SLAVE_BASE BVSTK_MDIO_SLAVE_SIZE s1 of
                 (Some err, v, s2) \<Rightarrow>
                   (BVSTK_ERR_IO, Some (c1 \<lparr> mc_slave := the v, mc_master := zero_region \<rparr>), close_region (mc_master c1) s2)
               | (None, v, s2) \<Rightarrow>
                   let c2 = c1 \<lparr> mc_slave := the v \<rparr> in
                   (case bvstk_mmio_region_open e (Some (mc_bram c2)) BVSTK_MDIO_BRAM_BASE BVSTK_MDIO_BRAM_SIZE s2 of
                      (Some err, b, s3) \<Rightarrow>
                        (BVSTK_ERR_IO, Some (c2 \<lparr> mc_bram := the b, mc_slave := zero_region, mc_master := zero_region \<rparr>),
                         close_region (mc_master c2) (close_region (mc_slave c2) s3))
                    | (None, b, s3) \<Rightarrow>
                        let c3 = c2 \<lparr> mc_bram := the b, mc_initialized := True \<rparr>;
                            (st, s4) = mdio_reset e c3 s3 in
                        if st \<noteq> BVSTK_OK
                        then (let (c4, s5) = bvstk_mdio_core_shutdown (Some c3) s4 in (BVSTK_ERR_IO, c4, s5))
                        else (BVSTK_OK, Some c3, s4)))))"

section \<open>Transactions\<close>

text \<open>The word for the transmit FIFO.\<close>

definition mdio_command :: "u8 \<Rightarrow> u8 \<Rightarrow> u16 \<Rightarrow> bool \<Rightarrow> u32" where
  "mdio_command phy reg value write =
     push_bit 26 (if write then 1 else 0) OR push_bit 21 (ucast phy) OR push_bit 16 (ucast reg) OR
     (if write then ucast value else 0)"

definition fifo_idle :: "u32 \<Rightarrow> bool" where
  "fifo_idle csr \<longleftrightarrow> csr AND (BUSY OR TX_FULL) = 0 \<and> csr AND TX_EMPTY \<noteq> 0"

text \<open>When the second loop of \<open>transfer\<close> leaves without an error or a timeout.\<close>

definition frame_done :: "bool \<Rightarrow> u32 \<Rightarrow> bool" where
  "frame_done write csr \<longleftrightarrow>
    (if write then csr AND BUSY = 0 \<and> csr AND TX_EMPTY \<noteq> 0 else csr AND DATA_VALID \<noteq> 0)"

text \<open>What it does then for a read: the result, if it is that of the register asked for.\<close>

definition collect :: "mmio_env \<Rightarrow> bvstk_mdio_core_t \<Rightarrow> nat \<Rightarrow> u16 \<Rightarrow> mmio_st \<Rightarrow> bvstk_status_t \<times> u16 \<times> mmio_st" where
  "collect e c off value s =
    (let (st1, addr, s1) = rd e (mc_master c) BVSTK_MDIO_MSTR_MEM_ADDR_OFFSET s;
         (st2, result, s2) = (if st1 = BVSTK_OK then rd e (mc_bram c) off s1 else (st1, None, s1));
         st3 = (if st2 = BVSTK_OK \<and> (the addr \<noteq> BVSTK_MDIO_BRAM_BASE + of_nat off \<or> the result > 0xFFFF)
                then BVSTK_ERR_IO else st2);
         value1 = (if st3 = BVSTK_OK then ucast (the result) else value);
         (st4, s3) = mdio_ack e c s2 in
     (if st4 \<noteq> BVSTK_OK then BVSTK_ERR_IO else st3, value1, s3))"

text \<open>Between taking the mutex and the label \<open>done\<close>.\<close>

definition mdio_transact :: "mmio_env \<Rightarrow> bvstk_mdio_core_t \<Rightarrow> u8 \<Rightarrow> u8 \<Rightarrow> u16 \<Rightarrow> bool \<Rightarrow> u32 \<Rightarrow> mmio_st \<Rightarrow>
    (bvstk_status_t \<times> u16 \<times> mmio_st) option" where
  "mdio_transact e c phy reg value write timeout s =
    (let (start, s1) = bvstk_platform_now_ms e s;
         off = index_of phy reg;
         (st1, s2) = mdio_ack e c s1 in
     if st1 \<noteq> BVSTK_OK then Some (st1, value, s2)
     else do {
       (st2, s3) \<leftarrow> poll_loop e BVSTK_ERR_TIMEOUT (csr_probe e (mc_master c) BVSTK_MDIO_MSTR_CSR_OFFSET fifo_idle) start timeout s2;
       if st2 \<noteq> BVSTK_OK then Some (st2, value, s3)
       else
         let (st3, s4) = (if write then (BVSTK_OK, s3) else wr (mc_bram c) off BVSTK_MDIO_MAILBOX_EMPTY s3) in
         if st3 \<noteq> BVSTK_OK then Some (BVSTK_ERR_IO, value, s4)
         else
           let (st4, s5) = wr (mc_master c) BVSTK_MDIO_MSTR_TX_FIFO_OFFSET (mdio_command phy reg value write) s4 in
           if st4 \<noteq> BVSTK_OK then Some (st4, value, s5)
           else do {
             (st5, s6) \<leftarrow> poll_loop e BVSTK_ERR_TIMEOUT (csr_probe e (mc_master c) BVSTK_MDIO_MSTR_CSR_OFFSET (frame_done write))
               start timeout (bvstk_platform_sleep_ms 1 s5);
             Some (if st5 = BVSTK_OK \<and> \<not> write then collect e c off value s6 else (st5, value, s6)) } })"

definition mdio_transfer :: "mmio_env \<Rightarrow> bvstk_mdio_core_t option \<Rightarrow> u8 \<Rightarrow> u8 \<Rightarrow> u16 option \<Rightarrow> bool \<Rightarrow> u32 \<Rightarrow> mmio_st \<Rightarrow>
    (bvstk_status_t \<times> u16 option \<times> mmio_st) option" where
  "mdio_transfer e core phy reg value write timeout s =
    (case core of
       None \<Rightarrow> Some (BVSTK_ERR_NOT_READY, value, s)
     | Some c \<Rightarrow>
         if \<not> mc_initialized c then Some (BVSTK_ERR_NOT_READY, value, s)
         else if value = None then Some (BVSTK_ERR_MALFORMED, value, s)
         else if phy > 31 \<or> reg > 31 then Some (BVSTK_ERR_RANGE, value, s)
         else
           let limit = (if timeout = 0 then 100 else timeout);
               (st, s1) = bvstk_mutex_lock e (mc_mutex c) limit s in
           if st \<noteq> BVSTK_OK then Some (st, value, s1)
           else do {
             (st2, v, s2) \<leftarrow> mdio_transact e c phy reg (the value) write limit s1;
             let s3 = (if st2 \<noteq> BVSTK_OK then snd (mdio_reset e c s2) else s2);
             Some (st2, Some v, bvstk_mutex_unlock (mc_mutex c) s3) })"

definition bvstk_mdio_core_read :: "mmio_env \<Rightarrow> bvstk_mdio_core_t option \<Rightarrow> u8 \<Rightarrow> u8 \<Rightarrow> u16 option \<Rightarrow> u32 \<Rightarrow> mmio_st \<Rightarrow>
    (bvstk_status_t \<times> u16 option \<times> mmio_st) option" where
  "bvstk_mdio_core_read e core phy reg value timeout s = mdio_transfer e core phy reg value False timeout s"

definition bvstk_mdio_core_write :: "mmio_env \<Rightarrow> bvstk_mdio_core_t option \<Rightarrow> u8 \<Rightarrow> u8 \<Rightarrow> u16 \<Rightarrow> u32 \<Rightarrow> mmio_st \<Rightarrow>
    (bvstk_status_t \<times> mmio_st) option" where
  "bvstk_mdio_core_write e core phy reg value timeout s =
    do { (st, v, s1) \<leftarrow> mdio_transfer e core phy reg (Some value) True timeout s; Some (st, s1) }"

section \<open>The mailboxes of the slave\<close>

definition bvstk_mdio_core_ack_slave :: "mmio_env \<Rightarrow> bvstk_mdio_core_t option \<Rightarrow> mmio_st \<Rightarrow> bvstk_status_t \<times> mmio_st" where
  "bvstk_mdio_core_ack_slave e core s =
    (case core of
       None \<Rightarrow> (BVSTK_ERR_NOT_READY, s)
     | Some c \<Rightarrow>
         if \<not> mc_initialized c then (BVSTK_ERR_NOT_READY, s)
         else (case rd e (mc_slave c) BVSTK_MDIO_SLV_MEM_ADDR_OFFSET s of
                 (st, None, s1) \<Rightarrow> (BVSTK_ERR_IO, s1)
               | (st, Some unused, s1) \<Rightarrow> wr (mc_slave c) BVSTK_MDIO_SLV_IRQ_OFFSET 1 s1))"

text \<open>The loop of \<open>bvstk_mdio_core_prepare_slave\<close>, \<open>n\<close> words from offset \<open>i\<close> on.\<close>

fun prepare_words :: "bvstk_mdio_core_t \<Rightarrow> nat \<Rightarrow> nat \<Rightarrow> mmio_st \<Rightarrow> bvstk_status_t \<times> mmio_st" where
  "prepare_words c 0 i s = (BVSTK_OK, s)"
| "prepare_words c (Suc n) i s =
    (case wr (mc_bram c) (BVSTK_MDIO_SLAVE_WR_OFFSET + i) BVSTK_MDIO_MAILBOX_EMPTY s of
       (st, s1) \<Rightarrow>
         if st \<noteq> BVSTK_OK then (BVSTK_ERR_IO, s1)
         else (case wr (mc_bram c) (BVSTK_MDIO_SLAVE_RD_OFFSET + i) 0xFFFF s1 of
                 (st2, s2) \<Rightarrow> if st2 \<noteq> BVSTK_OK then (BVSTK_ERR_IO, s2) else prepare_words c n (i + 4) s2))"

definition bvstk_mdio_core_prepare_slave :: "mmio_env \<Rightarrow> bvstk_mdio_core_t option \<Rightarrow> mmio_st \<Rightarrow> bvstk_status_t \<times> mmio_st" where
  "bvstk_mdio_core_prepare_slave e core s =
    (case core of
       None \<Rightarrow> (BVSTK_ERR_NOT_READY, s)
     | Some c \<Rightarrow>
         if \<not> mc_initialized c then (BVSTK_ERR_NOT_READY, s)
         else (case prepare_words c 1024 0 s of
                 (st, s1) \<Rightarrow> if st \<noteq> BVSTK_OK then (st, s1) else bvstk_mdio_core_ack_slave e core s1))"

text \<open>\<open>out\<close> says whether the caller passed a place for the value.\<close>

definition bvstk_mdio_core_take_write :: "mmio_env \<Rightarrow> bvstk_mdio_core_t option \<Rightarrow> u8 \<Rightarrow> u8 \<Rightarrow> bool \<Rightarrow> mmio_st \<Rightarrow>
    bvstk_status_t \<times> u16 option \<times> mmio_st" where
  "bvstk_mdio_core_take_write e core phy reg out s =
    (case core of
       None \<Rightarrow> (BVSTK_ERR_NOT_READY, None, s)
     | Some c \<Rightarrow>
         if \<not> mc_initialized c then (BVSTK_ERR_NOT_READY, None, s)
         else if \<not> out \<or> phy > 31 \<or> reg > 31 then (BVSTK_ERR_RANGE, None, s)
         else
           let off = BVSTK_MDIO_SLAVE_WR_OFFSET + index_of phy reg in
           (case rd e (mc_bram c) off s of
              (st, None, s1) \<Rightarrow> (BVSTK_ERR_IO, None, s1)
            | (st, Some word, s1) \<Rightarrow>
                if word AND 0xFFFF0000 \<noteq> 0 then (BVSTK_ERR_NOT_FOUND, None, s1)
                else (case wr (mc_bram c) off BVSTK_MDIO_MAILBOX_EMPTY s1 of
                        (st2, s2) \<Rightarrow> if st2 \<noteq> BVSTK_OK then (BVSTK_ERR_IO, None, s2)
                                    else (BVSTK_OK, Some (ucast word), s2))))"

definition bvstk_mdio_core_publish :: "bvstk_mdio_core_t option \<Rightarrow> u8 \<Rightarrow> u8 \<Rightarrow> u16 \<Rightarrow> mmio_st \<Rightarrow> bvstk_status_t \<times> mmio_st" where
  "bvstk_mdio_core_publish core phy reg value s =
    (case core of
       None \<Rightarrow> (BVSTK_ERR_NOT_READY, s)
     | Some c \<Rightarrow>
         if \<not> mc_initialized c then (BVSTK_ERR_NOT_READY, s)
         else if phy > 31 \<or> reg > 31 then (BVSTK_ERR_RANGE, s)
         else wr (mc_bram c) (BVSTK_MDIO_SLAVE_RD_OFFSET + index_of phy reg) (ucast value) s)"

section \<open>What a transaction does to the core\<close>

declare says_simps [simp]

definition mdio_wf :: "bvstk_mdio_core_t \<Rightarrow> bool" where
  [wf_defs]: "mdio_wf c \<longleftrightarrow> mc_initialized c \<and>
     mr_mapped_base (mc_master c) \<noteq> 0 \<and> mr_size (mc_master c) = BVSTK_MDIO_MASTER_SIZE \<and>
     mr_mapped_base (mc_slave c) \<noteq> 0 \<and> mr_size (mc_slave c) = BVSTK_MDIO_SLAVE_SIZE \<and>
     mr_mapped_base (mc_bram c) \<noteq> 0 \<and> mr_size (mc_bram c) = BVSTK_MDIO_BRAM_SIZE"

lemma index_of_eq: "phy \<le> 31 \<Longrightarrow> reg \<le> 31 \<Longrightarrow> index_of phy reg = (32 * unat phy + unat reg) * 4"
  and index_of_bound: "phy \<le> 31 \<Longrightarrow> reg \<le> 31 \<Longrightarrow> index_of phy reg + 4 \<le> 4096"
  and index_of_aligned: "index_of phy reg mod 4 = 0"
proof -
  show "index_of phy reg mod 4 = 0" by (simp add: index_of_def)
  assume a: "phy \<le> 31" "reg \<le> 31"
  then have r: "unat phy < 32" "unat reg < 32" by (simp_all add: word_le_nat_alt)
  have "\<not> bit (push_bit 5 (unat phy)) n \<or> \<not> bit (unat reg) n" for n
  proof (cases "n < 5")
    case False
    then have "(32 :: nat) \<le> 2 ^ n" using power_increasing [of 5 n "2 :: nat"] by simp
    then have "unat reg div 2 ^ n = 0" using r by simp
    then show ?thesis by (simp add: bit_iff_odd)
  qed (simp add: bit_push_bit_iff)
  then have "push_bit 5 (unat phy) OR unat reg = push_bit 5 (unat phy) + unat reg"
    by (metis disjunctive_add)
  then show e: "index_of phy reg = (32 * unat phy + unat reg) * 4" by (simp add: index_of_def push_bit_eq_mult)
  show "index_of phy reg + 4 \<le> 4096" using r by (simp add: e)
qed

lemma mdio_access:
  assumes "mdio_wf c"
  shows "off \<in> {0, 8, 12, 16} \<Longrightarrow> accessible (mc_master c) off" "off \<in> {4, 8} \<Longrightarrow> accessible (mc_slave c) off"
    "phy \<le> 31 \<Longrightarrow> reg \<le> 31 \<Longrightarrow> k \<in> {0, 0x1000, 0x2000} \<Longrightarrow> accessible (mc_bram c) (k + index_of phy reg)"
  using assms index_of_bound [of phy reg] index_of_aligned [of phy reg]
  by (auto simp: mdio_wf_def accessible_def mod_add_eq)

abbreviation (input) irq_ack :: "bvstk_mdio_core_t \<Rightarrow> u32 \<times> u32" where
  "irq_ack c \<equiv> (reg_addr (mc_master c) BVSTK_MDIO_MSTR_IRQ_OFFSET, 1)"

abbreviation (input) csr_reset :: "bvstk_mdio_core_t \<Rightarrow> u32 \<times> u32" where
  "csr_reset c \<equiv> (reg_addr (mc_master c) BVSTK_MDIO_MSTR_CSR_OFFSET, 1)"

lemma ack_run:
  assumes "mdio_wf c"
  shows "\<exists>v. mdio_ack e c s = (BVSTK_OK, says [OsLoad (reg_addr (mc_master c) 16) v, OsStore (reg_addr (mc_master c) 8) 1] s)"
  using rd_ok [OF mdio_access(1) [OF assms], of 16 e s] wr_ok [OF mdio_access(1) [OF assms], of 8]
  by (auto simp: mdio_ack_def)

lemma reset_run:
  assumes "mdio_wf c"
  shows "\<exists>v. mdio_reset e c s = (BVSTK_OK, says [OsStore (reg_addr (mc_master c) 0) 1, OsSleep 1,
     OsLoad (reg_addr (mc_master c) 16) v, OsStore (reg_addr (mc_master c) 8) 1] s)"
proof -
  obtain v where v: "mdio_ack e c (says [OsStore (reg_addr (mc_master c) 0) 1, OsSleep 1] s) = (BVSTK_OK,
    says [OsLoad (reg_addr (mc_master c) 16) v, OsStore (reg_addr (mc_master c) 8) 1] (says [OsStore (reg_addr (mc_master c) 0) 1, OsSleep 1] s))"
    using ack_run [OF assms] by blast
  then show ?thesis
    by (intro exI [of _ v])
      (simp add: mdio_reset_def wr_ok [OF mdio_access(1) [OF assms]] bvstk_platform_sleep_ms_def Let_def)
qed

text \<open>The stores of a transaction up to its frame, and the frame's own.\<close>

definition mdio_sent :: "bvstk_mdio_core_t \<Rightarrow> u8 \<Rightarrow> u8 \<Rightarrow> u16 \<Rightarrow> bool \<Rightarrow> (u32 \<times> u32) list" where
  "mdio_sent c phy reg value write =
     (if write then [] else [(reg_addr (mc_bram c) (index_of phy reg), BVSTK_MDIO_MAILBOX_EMPTY)]) @
     [(reg_addr (mc_master c) BVSTK_MDIO_MSTR_TX_FIFO_OFFSET, mdio_command phy reg value write)]"

text \<open>The end of a read: the status register says that a result is there, the core that it is that of
  the register asked for, and the memory holds it.\<close>

definition mdio_result :: "bvstk_mdio_core_t \<Rightarrow> nat \<Rightarrow> u16 \<Rightarrow> mmio_trace \<Rightarrow> bool" where
  "mdio_result c off v evs \<longleftrightarrow> (\<exists>pre csr x. csr AND DATA_VALID \<noteq> 0 \<and>
     evs = pre @ [OsLoad (reg_addr (mc_master c) BVSTK_MDIO_MSTR_CSR_OFFSET) csr,
       OsLoad (reg_addr (mc_master c) BVSTK_MDIO_MSTR_MEM_ADDR_OFFSET) (BVSTK_MDIO_BRAM_BASE + of_nat off),
       OsLoad (reg_addr (mc_bram c) off) (ucast v), OsLoad (reg_addr (mc_master c) BVSTK_MDIO_MSTR_MEM_ADDR_OFFSET) x,
       OsStore (reg_addr (mc_master c) BVSTK_MDIO_MSTR_IRQ_OFFSET) 1])"

lemma collect_run:
  assumes wf: "mdio_wf c" "accessible (mc_bram c) off"
  shows "\<exists>st v' evs. collect e c off value s = (st, v', says evs s) \<and> stores evs = [irq_ack c] \<and> calm evs \<and>
    (st = BVSTK_OK \<longrightarrow> (\<exists>x. evs = [OsLoad (reg_addr (mc_master c) 16) (BVSTK_MDIO_BRAM_BASE + of_nat off),
       OsLoad (reg_addr (mc_bram c) off) (ucast v'), OsLoad (reg_addr (mc_master c) 16) x, OsStore (reg_addr (mc_master c) 8) 1])) \<and>
    (st \<noteq> BVSTK_OK \<longrightarrow> st = BVSTK_ERR_IO \<and> v' = value)"
proof -
  obtain a where a: "rd e (mc_master c) 16 s = (BVSTK_OK, Some a, says [OsLoad (reg_addr (mc_master c) 16) a] s)"
    using rd_ok [OF mdio_access(1) [OF wf(1)], of 16 e s] by auto
  obtain r where r: "rd e (mc_bram c) off (says [OsLoad (reg_addr (mc_master c) 16) a] s) = (BVSTK_OK, Some r,
      says [OsLoad (reg_addr (mc_bram c) off) r] (says [OsLoad (reg_addr (mc_master c) 16) a] s))"
    using rd_ok [OF wf(2)] by blast
  let ?s = "says [OsLoad (reg_addr (mc_master c) 16) a, OsLoad (reg_addr (mc_bram c) off) r] s"
  obtain x where x: "mdio_ack e c ?s = (BVSTK_OK, says [OsLoad (reg_addr (mc_master c) 16) x, OsStore (reg_addr (mc_master c) 8) 1] ?s)"
    using ack_run [OF wf(1)] by blast
  have u: "r \<le> 0xFFFF \<Longrightarrow> ucast (ucast r :: u16) = r"
    by (simp add: word_unat_eq_iff word_le_nat_alt unsigned_ucast_eq unsigned_take_bit_eq take_bit_nat_eq_self)
  show ?thesis
    using a r x u by (auto simp: collect_def Let_def not_less)
qed

lemma mdio_transact_run:
  assumes clock: "mm_clock_ok e" and wf: "mdio_wf c" and r: "phy \<le> 31" "reg \<le> 31"
  shows "\<exists>st v' s' evs. mdio_transact e c phy reg value write timeout s = Some (st, v', s') \<and>
    mm_trace s' = mm_trace s @ evs \<and> calm evs \<and>
    (if st = BVSTK_OK
     then stores evs = irq_ack c # mdio_sent c phy reg value write @ (if write then [] else [irq_ack c]) \<and>
       (if write then v' = value else mdio_result c (index_of phy reg) v' evs)
     else v' = value \<and> stores evs \<in> {[irq_ack c], irq_ack c # mdio_sent c phy reg value write,
       irq_ack c # mdio_sent c phy reg value write @ [irq_ack c]})"
proof -
  define t0 where "t0 = os_now e (mm_trace s)"
  define off where "off = index_of phy reg"
  note acc = mdio_access [OF wf]
  have off: "accessible (mc_bram c) off" using acc(3) [OF r, of 0] by (simp add: off_def)
  have m0: "accessible (mc_master c) 0" using acc(1) by simp
  obtain x where x: "mdio_ack e c (says [OsNow] s) =
    (BVSTK_OK, says [OsLoad (reg_addr (mc_master c) 16) x, OsStore (reg_addr (mc_master c) 8) 1] (says [OsNow] s))"
    using ack_run [OF wf] by blast
  define e2 where "e2 = [OsNow, OsLoad (reg_addr (mc_master c) 16) x, OsStore (reg_addr (mc_master c) 8) 1]"
  have "\<forall>ev \<in> set e2. mm_cost ev = 0" by (simp add: e2_def)
  from mm_clock_quick [OF clock this, of "mm_trace s"]
  have t2: "t0 \<le> os_now e (mm_trace (says e2 s))" "os_now e (mm_trace (says e2 s)) \<le> t0 + 3000"
    by (simp_all add: t0_def e2_def)
  then have "os_now e (mm_trace (says e2 s)) \<le> t0 + 2 ^ 33" by simp
  from csr_poll_run [OF clock m0 t2(1) this, of fifo_idle timeout] obtain st2 s3 e3 where
    p1: "poll_loop e BVSTK_ERR_TIMEOUT (csr_probe e (mc_master c) 0 fifo_idle) (of_nat t0) timeout (says e2 s) = Some (st2, s3)"
      "mm_trace s3 = mm_trace s @ e2 @ e3" "waits (reg_addr (mc_master c) 0) e3" "st2 = BVSTK_ERR_TIMEOUT \<or> st2 = BVSTK_OK"
      "t0 \<le> os_now e (mm_trace s3)" "os_now e (mm_trace s3) \<le> t0 + 2 ^ 32 + 8000"
    using t2 by force
  have st: "bvstk_platform_now_ms e s = (of_nat t0, says [OsNow] s)" by (simp add: bvstk_platform_now_ms_def t0_def)
  note w3 = waits_stores [OF p1(3)] waits_calm [OF p1(3)]
  show ?thesis
  proof (cases "st2 = BVSTK_OK")
    case False
    then have "mdio_transact e c phy reg value write timeout s = Some (st2, value, s3)"
      using st x p1(1) by (simp add: mdio_transact_def e2_def)
    then show ?thesis using p1(2,4) w3 False by (intro exI [of _ st2] exI [of _ "value"] exI [of _ s3] exI [of _ "e2 @ e3"])
      (auto simp: e2_def)
  next
    case ok2: True
    define e5 where "e5 = (if write then [] else [OsStore (reg_addr (mc_bram c) off) BVSTK_MDIO_MAILBOX_EMPTY]) @
      [OsStore (reg_addr (mc_master c) 12) (mdio_command phy reg value write)]"
    have e5: "stores e5 = mdio_sent c phy reg value write" "calm e5" by (simp_all add: e5_def mdio_sent_def off_def)
    have "\<forall>ev \<in> set e5. mm_cost ev = 0" "length e5 \<le> 2" by (auto simp: e5_def)
    with mm_clock_quick [OF clock this(1), of "mm_trace s3"]
    have t5: "t0 \<le> os_now e (mm_trace (says e5 s3))" "os_now e (mm_trace (says e5 s3)) \<le> t0 + 2 ^ 32 + 10000"
      using p1(5,6) by simp_all
    define s6 where "s6 = says [OsSleep 1] (says e5 s3)"
    have t6: "t0 \<le> os_now e (mm_trace s6)" "os_now e (mm_trace s6) \<le> t0 + 2 ^ 33"
      using mm_clock_step [OF clock, where s = "says e5 s3" and ev = "OsSleep 1"] t5 by (simp_all add: s6_def)
    from csr_poll_run [OF clock m0 t6, of "frame_done write" timeout] obtain st5 s7 e7 where
      p2: "poll_loop e BVSTK_ERR_TIMEOUT (csr_probe e (mc_master c) 0 (frame_done write)) (of_nat t0) timeout s6 = Some (st5, s7)"
        "mm_trace s7 = mm_trace s @ e2 @ e3 @ e5 @ [OsSleep 1] @ e7" "waits (reg_addr (mc_master c) 0) e7"
        "st5 = BVSTK_ERR_TIMEOUT \<or> st5 = BVSTK_OK \<and> (\<exists>pre w. e7 = pre @ [OsLoad (reg_addr (mc_master c) 0) w] \<and> frame_done write w)"
      using p1(2) by (force simp: s6_def)
    note w7 = waits_stores [OF p2(3)] waits_calm [OF p2(3)]
    have go: "mdio_transact e c phy reg value write timeout s =
      Some (if st5 = BVSTK_OK \<and> \<not> write then collect e c off value s7 else (st5, value, s7))"
      using st x p1(1) ok2 p2(1) wr_ok [OF off] wr_ok [OF acc(1)]
      by (cases "write") (simp_all add: mdio_transact_def e2_def e5_def s6_def off_def [symmetric] Let_def bvstk_platform_sleep_ms_def)
    show ?thesis
    proof (cases "st5 = BVSTK_OK \<and> \<not> write")
      case False
      then show ?thesis using go p2(2,4) w3 w7 e5
        by (intro exI [of _ st5] exI [of _ "value"] exI [of _ s7] exI [of _ "e2 @ e3 @ e5 @ [OsSleep 1] @ e7"])
          (auto simp: e2_def)
    next
      case True
      obtain st8 v' e8 where c8: "collect e c off value s7 = (st8, v', says e8 s7)" "stores e8 = [irq_ack c]"
        "st8 = BVSTK_OK \<longrightarrow> (\<exists>x. e8 = [OsLoad (reg_addr (mc_master c) 16) (BVSTK_MDIO_BRAM_BASE + of_nat off),
           OsLoad (reg_addr (mc_bram c) off) (ucast v'), OsLoad (reg_addr (mc_master c) 16) x, OsStore (reg_addr (mc_master c) 8) 1])"
        "st8 \<noteq> BVSTK_OK \<longrightarrow> st8 = BVSTK_ERR_IO \<and> v' = value" "calm e8"
        using collect_run [OF wf off, of e "value" s7] by blast
      obtain pre w where w: "e7 = pre @ [OsLoad (reg_addr (mc_master c) 0) w]" "w AND DATA_VALID \<noteq> 0"
        using p2(4) True by (auto simp: frame_done_def)
      let ?evs = "e2 @ e3 @ e5 @ [OsSleep 1] @ e7 @ e8"
      have "mdio_result c off v' ?evs" if ok8: "st8 = BVSTK_OK"
      proof -
        obtain x where "e8 = [OsLoad (reg_addr (mc_master c) 16) (BVSTK_MDIO_BRAM_BASE + of_nat off),
           OsLoad (reg_addr (mc_bram c) off) (ucast v'), OsLoad (reg_addr (mc_master c) 16) x, OsStore (reg_addr (mc_master c) 8) 1]"
          using c8(3) ok8 by blast
        then show ?thesis unfolding mdio_result_def using w
          by (intro exI [of _ "e2 @ e3 @ e5 @ [OsSleep 1] @ pre"] exI [of _ w] exI [of _ x]) simp
      qed
      then show ?thesis using go c8 p2(2) w3 w7 e5 True
        by (intro exI [of _ st8] exI [of _ v'] exI [of _ "says e8 s7"] exI [of _ ?evs])
          (auto simp: e2_def off_def [symmetric])
    qed
  qed
qed

text \<open>
  C22: What an MDIO transaction does to the core, for every core, clock and memory behind the
  registers. It always returns, with the mutex given back. A successful write stores exactly one
  command word in the transmit FIFO, the one that encodes write, PHY, register and value, after
  acknowledging what was pending. A successful read first marks the result word of the register
  empty, stores exactly one read command, and returns what the result word held after the core
  announced a result for that register. A transaction that fails sends at most that one command,
  never again, leaves the caller's value alone, and resets the core and acknowledges, so that no
  late result is taken for a later one's.
\<close>

theorem mdio_transfer_exact:
  assumes "mm_clock_ok e" and "mdio_wf c" and "phy \<le> 31" and "reg \<le> 31" and "fst (mc_mutex c) = snd (mc_mutex c)"
  shows "\<exists>st v' s' evs. mdio_transfer e (Some c) phy reg (Some value) write timeout s = Some (st, Some v', s') \<and>
    mm_trace s' = mm_trace s @ evs \<and> mutex_free evs \<and>
    (if st = BVSTK_OK
     then stores evs = irq_ack c # mdio_sent c phy reg value write @ (if write then [] else [irq_ack c]) \<and>
       (if write then v' = value
        else \<exists>mid. evs = mid @ (if snd (mc_mutex c) then [OsUnlock] else []) \<and> mdio_result c (index_of phy reg) v' mid)
     else v' = value \<and> (stores evs = [] \<or>
       (\<exists>p \<in> {[irq_ack c], irq_ack c # mdio_sent c phy reg value write, irq_ack c # mdio_sent c phy reg value write @ [irq_ack c]}.
          stores evs = p @ [csr_reset c, irq_ack c])))"
proof -
  define limit where "limit = (if timeout = 0 then 100 else timeout)"
  obtain st1 s1 where l: "bvstk_mutex_lock e (mc_mutex c) limit s = (st1, s1)" by fastforce
  have init: "mc_initialized c" using assms(2) by (simp add: mdio_wf_def)
  define e1 where "e1 = (if fst (mc_mutex c) then [OsLock limit st1] else [])"
  have s1: "mm_trace s1 = mm_trace s @ e1" using l by (auto simp: bvstk_mutex_lock_def e1_def Let_def split: if_splits)
  note [simp] = not_less [symmetric]
  have ph: "\<not> phy > 31" "\<not> reg > 31" using assms(3,4) by simp_all
  show ?thesis
  proof (cases "st1 = BVSTK_OK")
    case False
    then have "mdio_transfer e (Some c) phy reg (Some value) write timeout s = Some (st1, Some value, s1)"
      using l init ph by (simp add: mdio_transfer_def limit_def [symmetric])
    moreover have "mutex_free e1" "stores e1 = []" using False by (simp_all add: e1_def mutex_free_def)
    ultimately show ?thesis using False s1 by (intro exI [of _ st1] exI [of _ "value"] exI [of _ s1] exI [of _ e1]) simp
  next
    case True
    obtain st v' s2 ev2 where t: "mdio_transact e c phy reg value write limit s1 = Some (st, v', s2)"
      "mm_trace s2 = mm_trace s1 @ ev2" "calm ev2"
      "if st = BVSTK_OK
       then stores ev2 = irq_ack c # mdio_sent c phy reg value write @ (if write then [] else [irq_ack c]) \<and>
         (if write then v' = value else mdio_result c (index_of phy reg) v' ev2)
       else v' = value \<and> stores ev2 \<in> {[irq_ack c], irq_ack c # mdio_sent c phy reg value write,
         irq_ack c # mdio_sent c phy reg value write @ [irq_ack c]}"
      using mdio_transact_run [OF assms(1-4)] by blast
    obtain x where x: "mdio_reset e c s2 = (BVSTK_OK, says [OsStore (reg_addr (mc_master c) 0) 1, OsSleep 1,
      OsLoad (reg_addr (mc_master c) 16) x, OsStore (reg_addr (mc_master c) 8) 1] s2)"
      using reset_run [OF assms(2)] by blast
    define ev3 where "ev3 = (if st \<noteq> BVSTK_OK then [OsStore (reg_addr (mc_master c) 0) 1, OsSleep 1,
      OsLoad (reg_addr (mc_master c) 16) x, OsStore (reg_addr (mc_master c) 8) 1] else [])"
    define ev4 where "ev4 = (if snd (mc_mutex c) then [OsUnlock] else [])"
    define s3 where "s3 = bvstk_mutex_unlock (mc_mutex c) (if st \<noteq> BVSTK_OK then snd (mdio_reset e c s2) else s2)"
    have go: "mdio_transfer e (Some c) phy reg (Some value) write timeout s = Some (st, Some v', s3)"
      using l init ph True t(1) by (simp add: mdio_transfer_def limit_def [symmetric] s3_def Let_def)
    have tr: "mm_trace s3 = mm_trace s @ e1 @ ev2 @ ev3 @ ev4"
      using t(2) s1 x by (simp add: s3_def bvstk_mutex_unlock_def ev3_def ev4_def)
    have "mutex_free (e1 @ ev2 @ ev3 @ ev4)"
      using calm_free [OF t(3)] True assms(5) by (simp add: mutex_free_def e1_def ev3_def ev4_def)
    moreover have "stores e1 = []" "stores ev4 = []" "stores ev3 = (if st \<noteq> BVSTK_OK then [csr_reset c, irq_ack c] else [])"
      by (simp_all add: e1_def ev3_def ev4_def)
    moreover have "st = BVSTK_OK \<Longrightarrow> mdio_result c (index_of phy reg) v' ev2 \<Longrightarrow> mdio_result c (index_of phy reg) v' (e1 @ ev2 @ ev3)"
      by (auto simp: mdio_result_def ev3_def)
    ultimately show ?thesis using go tr t(4)
      by (intro exI [of _ st] exI [of _ v'] exI [of _ s3] exI [of _ "e1 @ ev2 @ ev3 @ ev4"])
        (auto simp: ev4_def [symmetric])
  qed
qed

text \<open>Initialisation establishes the windows, when no mapping is at address 0.\<close>

lemma mdio_init_wf:
  assumes "bvstk_mdio_core_init e core mutex s = (BVSTK_OK, Some c, s')" and "\<And>tr base n. os_map e tr base n \<noteq> Inr 0"
  shows "mdio_wf c"
proof -
  have open_ok: "mr_size (the r) = n \<and> mr_mapped_base (the r) \<noteq> 0" if "bvstk_mmio_region_open e (Some r0) base n s1 = (None, r, s2)" for r0 r base n s1 s2
    using that assms(2) by (auto simp: bvstk_mmio_region_open_def Let_def split: if_splits option.splits sum.splits prod.splits)
  show ?thesis
    using assms(1) by (auto simp: bvstk_mdio_core_init_def mdio_wf_def Let_def dest: open_ok
        split: option.splits prod.splits if_splits)
qed

definition demo_mdio_core :: bvstk_mdio_core_t where
  "demo_mdio_core = \<lparr> mc_master = \<lparr> mr_physical_base = 0x43C10000, mr_size = 0x10000, mr_mapped_base = 0x10000 \<rparr>,
     mc_slave = \<lparr> mr_physical_base = 0x43C20000, mr_size = 0x10000, mr_mapped_base = 0x20000 \<rparr>,
     mc_bram = \<lparr> mr_physical_base = 0x42000000, mr_size = 0x4000, mr_mapped_base = 0x30000 \<rparr>,
     mc_mutex = (True, True), mc_initialized = True \<rparr>"

text \<open>A core that is always idle and has a result, in a memory of zeros.\<close>

definition demo_mdio_env :: mmio_env where
  "demo_mdio_env = \<lparr> os_thread_ctl = (\<lambda>tr. None), os_map = (\<lambda>tr base n. Inr base),
     os_load = (\<lambda>tr a. if a = 0x10000 then 5 else if a = 0x10010 then 0x42000094 else 0x1234),
     os_now = (\<lambda>tr. sum_list (map mm_cost tr)), os_lock = (\<lambda>tr t. BVSTK_OK) \<rparr>"

theorem mdio_transfer_exact_witness:
  "\<exists>st v' s'. mdio_transfer demo_mdio_env (Some demo_mdio_core) 1 5 (Some 0) False 10 \<lparr> platform_ready = True, mm_trace = [] \<rparr> = Some (st, Some v', s') \<and>
     mutex_free (mm_trace s') \<and> (st \<noteq> BVSTK_OK \<longrightarrow> v' = 0)"
proof -
  have "mm_clock_ok demo_mdio_env" "mdio_wf demo_mdio_core" "fst (mc_mutex demo_mdio_core) = snd (mc_mutex demo_mdio_core)"
    by (simp_all add: mm_clock_ok_def demo_mdio_env_def mdio_wf_def demo_mdio_core_def)
  from mdio_transfer_exact [OF this(1,2) _ _ this(3), of 1 5 0 False 10 "\<lparr> platform_ready = True, mm_trace = [] \<rparr>"]
  show ?thesis by (auto split: if_splits)
qed

end
