(* ===== verification/Line_Editor.thy ===== *)
theory Line_Editor
  imports Device_Profile
begin

text \<open>
  The line editor of the consoles, \<open>src/shared/cli/bvstk_line_editor.c\<close>: one byte of terminal
  input at a time, emacs-like keys, a history of sixteen lines, a cut buffer and completion.

  The buffers of the structure are kept as the arrays they are, with the lengths the code counts
  beside them: \<open>memcpy(p + k, q, n)\<close> is \<open>store_at k q n p\<close>, which lengthens the array when it
  would run past its end, so that an array of constant length is an array never overrun.
  \<open>memmove\<close> reads the array before it writes it. What a callback of the configuration does is a
  function of everything the editor has sent it before, the trace \<open>ed_out\<close>; the tab hook of a
  transport answers with the public operations it calls on the editor. The editor pointer is the
  editor; only the entry point takes it as an \<open>option\<close>.
\<close>

section \<open>Configuration and state\<close>

abbreviation LINE_MAX :: nat where "LINE_MAX \<equiv> 512"
abbreviation HISTORY_MAX :: nat where "HISTORY_MAX \<equiv> 16"
abbreviation COMPLETION_MAX_MATCHES :: nat where "COMPLETION_MAX_MATCHES \<equiv> 16"
abbreviation ESCAPE_PARAMETERS :: nat where "ESCAPE_PARAMETERS \<equiv> 16"

abbreviation SUBMIT_PROMPT :: int where "SUBMIT_PROMPT \<equiv> 0"
abbreviation SUBMIT_STOP :: int where "SUBMIT_STOP \<equiv> 2"

datatype escape_state = ESCAPE_NONE | ESCAPE_STARTED | ESCAPE_CSI | ESCAPE_SS3

text \<open>What the editor asks of its callbacks: bytes written, a prompt (with the bytes it prints), a
  line submitted (with the result and the bytes the command prints), completions, tab hooks.\<close>

datatype ed_event =
    EdWrite bytes
  | EdPrompt bytes
  | EdSubmit bytes int bytes
  | EdComplete bytes nat
  | EdTab bytes nat

record line_completion =
  co_token_start :: nat
  co_token_prefix_length :: nat
  co_match_count :: nat
  co_candidates :: "bytes list"

datatype tab_call =
    TabSetState "bytes option" nat nat
  | TabMarkEdited
  | TabReplace nat nat "bytes option" nat bool
  | TabRedraw
  | TabBeep
  | TabWrite bytes

record line_config =
  ec_write :: "(ed_event list \<Rightarrow> bytes \<Rightarrow> int) option"
  ec_prompt :: "(ed_event list \<Rightarrow> bytes) option"
  ec_submit :: "(ed_event list \<Rightarrow> bytes \<Rightarrow> int \<times> bytes) option"
  ec_complete :: "(ed_event list \<Rightarrow> bytes \<Rightarrow> nat \<Rightarrow> int \<times> line_completion) option"
  ec_tab :: "(ed_event list \<Rightarrow> bytes \<Rightarrow> nat \<Rightarrow> tab_call list) option"
  ec_eof_on_empty :: bool

record line_editor =
  ed_config :: line_config
  ed_line :: bytes
  ed_line_length :: nat
  ed_cursor :: nat
  ed_history :: "bytes list"
  ed_history_count :: nat
  ed_history_position :: int
  ed_history_scratch :: bytes
  ed_history_scratch_length :: nat
  ed_cut_buffer :: bytes
  ed_cut_length :: nat
  ed_escape_state :: escape_state
  ed_escape_parameters :: bytes
  ed_escape_parameter_length :: nat
  ed_out :: "ed_event list"

text \<open>\<open>memcpy(p + k, q, n)\<close>, and the line as the callbacks see it.\<close>

definition store_at :: "nat \<Rightarrow> bytes \<Rightarrow> nat \<Rightarrow> bytes \<Rightarrow> bytes" where
  "store_at k q n p = at_offset k (\<lambda>r. memcpy r q n) p"

definition ed_text :: "line_editor \<Rightarrow> bytes" where
  "ed_text e = take (ed_line_length e) (ed_line e)"

text \<open>Character classes of the C locale.\<close>

definition c_isspace :: "u8 \<Rightarrow> bool" where
  "c_isspace c \<longleftrightarrow> c = 0x20 \<or> 0x09 \<le> c \<and> c \<le> 0x0D"

definition c_isprint :: "u8 \<Rightarrow> bool" where
  "c_isprint c \<longleftrightarrow> 0x20 \<le> c \<and> c \<le> 0x7E"

abbreviation ESC_LEFT :: bytes where "ESC_LEFT \<equiv> [0x1B, 0x5B, 0x44]"
abbreviation ESC_RIGHT :: bytes where "ESC_RIGHT \<equiv> [0x1B, 0x5B, 0x43]"
abbreviation CLEAR_LINE :: bytes where "CLEAR_LINE \<equiv> [0x0D, 0x1B, 0x5B, 0x32, 0x4B]"
abbreviation CRLF :: bytes where "CRLF \<equiv> [0x0D, 0x0A]"
abbreviation BELL :: bytes where "BELL \<equiv> [0x07]"
abbreviation INTERRUPT :: bytes where "INTERRUPT \<equiv> [0x5E, 0x43, 0x0D, 0x0A]"

section \<open>Output\<close>

definition ed_say :: "ed_event \<Rightarrow> line_editor \<Rightarrow> line_editor" where
  "ed_say ev e = e\<lparr>ed_out := ed_out e @ [ev]\<rparr>"

definition editor_write_all :: "line_editor \<Rightarrow> bytes \<Rightarrow> int \<times> line_editor" where
  "editor_write_all e data =
    (case ec_write (ed_config e) of
       None \<Rightarrow> (-1, e)
     | Some w \<Rightarrow> (w (ed_out e) data, ed_say (EdWrite data) e))"

definition bvstk_line_editor_write :: "line_editor \<Rightarrow> bytes \<Rightarrow> int \<times> line_editor" where
  "bvstk_line_editor_write e data = editor_write_all e data"

definition bvstk_line_editor_write_text :: "line_editor \<Rightarrow> cstr option \<Rightarrow> int \<times> line_editor" where
  "bvstk_line_editor_write_text e text =
    (case text of None \<Rightarrow> (-1, e) | Some t \<Rightarrow> editor_write_all e t)"

text \<open>The result of a write is cast to \<open>void\<close> at every call inside the editor.\<close>

abbreviation ed_write :: "bytes \<Rightarrow> line_editor \<Rightarrow> line_editor" where
  "ed_write data e \<equiv> snd (bvstk_line_editor_write e data)"

abbreviation ed_write_text :: "cstr \<Rightarrow> line_editor \<Rightarrow> line_editor" where
  "ed_write_text t e \<equiv> snd (bvstk_line_editor_write_text e (Some t))"

fun write_times :: "nat \<Rightarrow> cstr \<Rightarrow> line_editor \<Rightarrow> line_editor" where
  "write_times 0 t e = e"
| "write_times (Suc n) t e = write_times n t (ed_write_text t e)"

definition bvstk_line_editor_beep :: "line_editor \<Rightarrow> line_editor" where
  "bvstk_line_editor_beep e = ed_write_text BELL e"

definition call_prompt :: "line_editor \<Rightarrow> line_editor" where
  "call_prompt e =
    (case ec_prompt (ed_config e) of None \<Rightarrow> e | Some p \<Rightarrow> ed_say (EdPrompt (p (ed_out e))) e)"

section \<open>The state\<close>

definition editor_reset_escape :: "line_editor \<Rightarrow> line_editor" where
  "editor_reset_escape e =
    e\<lparr>ed_escape_state := ESCAPE_NONE, ed_escape_parameter_length := 0,
      ed_escape_parameters := (ed_escape_parameters e)[0 := 0]\<rparr>"

definition bvstk_line_editor_reset :: "line_editor \<Rightarrow> line_editor" where
  "bvstk_line_editor_reset e =
    editor_reset_escape (e\<lparr>ed_line_length := 0, ed_cursor := 0, ed_line := (ed_line e)[0 := 0],
      ed_history_position := -1\<rparr>)"

definition zero_config :: line_config where
  "zero_config = \<lparr>ec_write = None, ec_prompt = None, ec_submit = None, ec_complete = None,
    ec_tab = None, ec_eof_on_empty = False\<rparr>"

definition zero_editor :: line_editor where
  "zero_editor = \<lparr>ed_config = zero_config, ed_line = replicate LINE_MAX 0, ed_line_length = 0,
    ed_cursor = 0, ed_history = replicate HISTORY_MAX (replicate LINE_MAX 0),
    ed_history_count = 0, ed_history_position = 0,
    ed_history_scratch = replicate LINE_MAX 0, ed_history_scratch_length = 0,
    ed_cut_buffer = replicate LINE_MAX 0, ed_cut_length = 0,
    ed_escape_state = ESCAPE_NONE, ed_escape_parameters = replicate ESCAPE_PARAMETERS 0,
    ed_escape_parameter_length = 0, ed_out = []\<rparr>"

definition bvstk_line_editor_init :: "line_config option \<Rightarrow> line_editor" where
  "bvstk_line_editor_init config =
    (let e = (case config of None \<Rightarrow> zero_editor | Some c \<Rightarrow> zero_editor\<lparr>ed_config := c\<rparr>) in
     editor_reset_escape (e\<lparr>ed_history_position := -1\<rparr>))"

definition bvstk_line_editor_set_state :: "line_editor \<Rightarrow> bytes option \<Rightarrow> nat \<Rightarrow> nat \<Rightarrow> int \<times> line_editor" where
  "bvstk_line_editor_set_state e line len cursor =
    (case line of
       None \<Rightarrow> (-1, e)
     | Some l \<Rightarrow>
         if len \<ge> LINE_MAX \<or> cursor > len then (-1, e)
         else
           let line1 = (if len \<noteq> 0 then store_at 0 l len (ed_line e) else ed_line e) in
           (0, e\<lparr>ed_line := line1[len := 0], ed_line_length := len, ed_cursor := cursor\<rparr>))"

definition bvstk_line_editor_set_line :: "line_editor \<Rightarrow> bytes option \<Rightarrow> nat \<Rightarrow> int \<times> line_editor" where
  "bvstk_line_editor_set_line e line len = bvstk_line_editor_set_state e line len len"

definition bvstk_line_editor_mark_edited :: "line_editor \<Rightarrow> line_editor" where
  "bvstk_line_editor_mark_edited e = e\<lparr>ed_history_position := -1\<rparr>"

definition history_shift :: "bytes list \<Rightarrow> bytes list" where
  "history_shift h = fold (\<lambda>i h. h[i - 1 := memcpy (h ! (i - 1)) (h ! i) LINE_MAX]) [1..<HISTORY_MAX] h"

definition editor_add_history :: "line_editor \<Rightarrow> line_editor" where
  "editor_add_history e =
    (if ed_line_length e = 0 \<or>
        ed_history_count e \<noteq> 0 \<and>
        cstr_of (ed_history e ! (ed_history_count e - 1)) = cstr_of (ed_line e) then e
     else
       let full = ed_history_count e = HISTORY_MAX;
           h = (if full then history_shift (ed_history e) else ed_history e);
           n = (if full then ed_history_count e - 1 else ed_history_count e) in
       e\<lparr>ed_history := h[n := store_at 0 (ed_line e) (ed_line_length e + 1) (h ! n)],
         ed_history_count := n + 1\<rparr>)"

definition bvstk_line_editor_redraw :: "line_editor \<Rightarrow> line_editor" where
  "bvstk_line_editor_redraw e =
    (let e1 = ed_write_text CLEAR_LINE e;
         e2 = call_prompt e1;
         e3 = (if ed_line_length e \<noteq> 0 then ed_write (ed_text e) e2 else e2) in
     write_times (ed_line_length e - ed_cursor e) ESC_LEFT e3)"

section \<open>Moving\<close>

text \<open>\<open>while (c > 0 && P(line[c - 1])) --c\<close> and \<open>while (c < n && P(line[c])) ++c\<close>.\<close>

fun scan_left :: "(u8 \<Rightarrow> bool) \<Rightarrow> bytes \<Rightarrow> nat \<Rightarrow> nat" where
  "scan_left P line 0 = 0"
| "scan_left P line (Suc c) = (if P (line ! c) then scan_left P line c else Suc c)"

function scan_right :: "(u8 \<Rightarrow> bool) \<Rightarrow> bytes \<Rightarrow> nat \<Rightarrow> nat \<Rightarrow> nat" where
  "scan_right P line n c = (if c < n \<and> P (line ! c) then scan_right P line n (c + 1) else c)"
  by pat_completeness auto
termination by (relation "measure (\<lambda>(P, line, n, c). n - c)") auto

declare scan_right.simps [simp del]

definition word_left :: "bytes \<Rightarrow> nat \<Rightarrow> nat" where
  "word_left line c = scan_left (\<lambda>b. \<not> c_isspace b) line (scan_left c_isspace line c)"

definition editor_move_left :: "line_editor \<Rightarrow> bool \<Rightarrow> line_editor" where
  "editor_move_left e word =
    (if ed_cursor e = 0 then bvstk_line_editor_beep e
     else
       let c = (if \<not> word then ed_cursor e - 1 else word_left (ed_line e) (ed_cursor e)) in
       write_times (ed_cursor e - c) ESC_LEFT (e\<lparr>ed_cursor := c\<rparr>))"

definition editor_move_right :: "line_editor \<Rightarrow> bool \<Rightarrow> line_editor" where
  "editor_move_right e word =
    (if ed_cursor e \<ge> ed_line_length e then bvstk_line_editor_beep e
     else
       let c = (if \<not> word then ed_cursor e + 1
                else scan_right c_isspace (ed_line e) (ed_line_length e)
                  (scan_right (\<lambda>b. \<not> c_isspace b) (ed_line e) (ed_line_length e) (ed_cursor e))) in
       write_times (c - ed_cursor e) ESC_RIGHT (e\<lparr>ed_cursor := c\<rparr>))"

definition move_to :: "nat \<Rightarrow> line_editor \<Rightarrow> line_editor" where
  "move_to c e = bvstk_line_editor_redraw (e\<lparr>ed_cursor := c\<rparr>)"

section \<open>History\<close>

definition history_show :: "line_editor \<Rightarrow> line_editor" where
  "history_show e =
    (let h = ed_history e ! nat (ed_history_position e) in
     snd (bvstk_line_editor_set_line e (Some h) (length (cstr_of h))))"

definition editor_history_up :: "line_editor \<Rightarrow> line_editor" where
  "editor_history_up e =
    (if ed_history_count e = 0 then bvstk_line_editor_beep e
     else if ed_history_position e < 0 then
       bvstk_line_editor_redraw (history_show
         (e\<lparr>ed_history_scratch := store_at 0 (ed_line e) (ed_line_length e + 1) (ed_history_scratch e),
            ed_history_scratch_length := ed_line_length e,
            ed_history_position := int (ed_history_count e) - 1\<rparr>))
     else if ed_history_position e > 0 then
       bvstk_line_editor_redraw (history_show (e\<lparr>ed_history_position := ed_history_position e - 1\<rparr>))
     else bvstk_line_editor_beep e)"

definition editor_history_down :: "line_editor \<Rightarrow> line_editor" where
  "editor_history_down e =
    (if ed_history_position e < 0 then bvstk_line_editor_beep e
     else if nat (ed_history_position e + 1) < ed_history_count e then
       bvstk_line_editor_redraw (history_show (e\<lparr>ed_history_position := ed_history_position e + 1\<rparr>))
     else
       bvstk_line_editor_redraw (snd (bvstk_line_editor_set_line (e\<lparr>ed_history_position := -1\<rparr>)
         (Some (ed_history_scratch e)) (ed_history_scratch_length e))))"

section \<open>Editing\<close>

text \<open>\<open>memmove(line + dst, line + src, n)\<close>.\<close>

definition line_move :: "nat \<Rightarrow> nat \<Rightarrow> nat \<Rightarrow> bytes \<Rightarrow> bytes" where
  "line_move dst src n line = store_at dst (drop src line) n line"

definition editor_insert :: "line_editor \<Rightarrow> u8 \<Rightarrow> line_editor" where
  "editor_insert e character =
    (if ed_line_length e + 1 \<ge> LINE_MAX then bvstk_line_editor_beep e
     else
       let tail = ed_line_length e - ed_cursor e;
           line1 = (line_move (ed_cursor e + 1) (ed_cursor e) tail (ed_line e))[ed_cursor e := character];
           len = ed_line_length e + 1;
           cursor = ed_cursor e + 1;
           line2 = line1[len := 0];
           e1 = bvstk_line_editor_mark_edited
                  (e\<lparr>ed_line := line2, ed_line_length := len, ed_cursor := cursor\<rparr>);
           e2 = ed_write [character] e1 in
       if tail \<noteq> 0 then write_times tail ESC_LEFT (ed_write (take tail (drop cursor line2)) e2)
       else e2)"

definition remove_at_cursor :: "line_editor \<Rightarrow> line_editor" where
  "remove_at_cursor e =
    (let tail = ed_line_length e - ed_cursor e - 1;
         line1 = line_move (ed_cursor e) (ed_cursor e + 1) tail (ed_line e);
         len = ed_line_length e - 1 in
     bvstk_line_editor_redraw (bvstk_line_editor_mark_edited
       (e\<lparr>ed_line := line1[len := 0], ed_line_length := len\<rparr>)))"

definition editor_backspace :: "line_editor \<Rightarrow> line_editor" where
  "editor_backspace e =
    (if ed_cursor e = 0 then bvstk_line_editor_beep e
     else remove_at_cursor (e\<lparr>ed_cursor := ed_cursor e - 1\<rparr>))"

definition editor_delete :: "line_editor \<Rightarrow> line_editor" where
  "editor_delete e =
    (if ed_cursor e \<ge> ed_line_length e then bvstk_line_editor_beep e else remove_at_cursor e)"

definition editor_cut_range :: "line_editor \<Rightarrow> nat \<Rightarrow> nat \<Rightarrow> line_editor" where
  "editor_cut_range e start stop =
    (if start \<ge> stop \<or> stop > ed_line_length e then e
     else
       let cut = (if stop - start \<ge> LINE_MAX then LINE_MAX - 1 else stop - start);
           buffer = (store_at 0 (drop start (ed_line e)) cut (ed_cut_buffer e))[cut := 0];
           line1 = line_move start stop (ed_line_length e - stop) (ed_line e);
           len = ed_line_length e - (stop - start) in
       bvstk_line_editor_redraw (bvstk_line_editor_mark_edited
         (e\<lparr>ed_cut_length := cut, ed_cut_buffer := buffer, ed_line := line1[len := 0],
            ed_line_length := len, ed_cursor := start\<rparr>)))"

definition editor_delete_previous_word :: "line_editor \<Rightarrow> line_editor" where
  "editor_delete_previous_word e =
    (if ed_cursor e = 0 then e
     else editor_cut_range e (word_left (ed_line e) (ed_cursor e)) (ed_cursor e))"

definition editor_delete_next_word :: "line_editor \<Rightarrow> line_editor" where
  "editor_delete_next_word e =
    (if ed_cursor e \<ge> ed_line_length e then e
     else editor_cut_range e (ed_cursor e)
       (scan_right (\<lambda>b. \<not> c_isspace b) (ed_line e) (ed_line_length e)
         (scan_right c_isspace (ed_line e) (ed_line_length e) (ed_cursor e))))"

definition editor_paste_cut_buffer :: "line_editor \<Rightarrow> line_editor" where
  "editor_paste_cut_buffer e =
    (if ed_cut_length e = 0 \<or> ed_line_length e + ed_cut_length e \<ge> LINE_MAX then e
     else
       let tail = ed_line_length e - ed_cursor e;
           line1 = line_move (ed_cursor e + ed_cut_length e) (ed_cursor e) tail (ed_line e);
           line2 = store_at (ed_cursor e) (ed_cut_buffer e) (ed_cut_length e) line1;
           len = ed_line_length e + ed_cut_length e in
       bvstk_line_editor_redraw (bvstk_line_editor_mark_edited
         (e\<lparr>ed_line := line2[len := 0], ed_line_length := len,
            ed_cursor := ed_cursor e + ed_cut_length e\<rparr>)))"

section \<open>Completion\<close>

definition bvstk_line_editor_replace ::
    "line_editor \<Rightarrow> nat \<Rightarrow> nat \<Rightarrow> bytes option \<Rightarrow> nat \<Rightarrow> bool \<Rightarrow> int \<times> line_editor" where
  "bvstk_line_editor_replace e token_start prefix_length replacement replacement_length append_space =
    (case replacement of
       None \<Rightarrow> (-1, e)
     | Some r \<Rightarrow>
         if token_start > ed_cursor e \<or> prefix_length \<noteq> ed_cursor e - token_start then (-1, e)
         else
           let tail = ed_line_length e - ed_cursor e;
               space = append_space \<and> replacement_length \<noteq> 0 \<and>
                       r ! (replacement_length - 1) \<noteq> ch CHR ''/'';
               new_length = token_start + replacement_length + tail + (if space then 1 else 0) in
           if new_length \<ge> LINE_MAX then (-1, bvstk_line_editor_beep e)
           else
             let line1 = line_move (token_start + replacement_length) (ed_cursor e) tail (ed_line e);
                 line2 = store_at token_start r replacement_length line1;
                 len = token_start + replacement_length + tail;
                 cursor = token_start + replacement_length;
                 line3 = (if space then (line_move (cursor + 1) cursor tail line2)[cursor := 0x20] else line2);
                 len' = (if space then len + 1 else len);
                 cursor' = (if space then cursor + 1 else cursor) in
             (0, bvstk_line_editor_redraw (bvstk_line_editor_mark_edited
                   (e\<lparr>ed_line := line3[len' := 0], ed_line_length := len', ed_cursor := cursor'\<rparr>))))"

function prefix_scan :: "bytes \<Rightarrow> bytes \<Rightarrow> nat \<Rightarrow> nat \<Rightarrow> nat" where
  "prefix_scan a b len current =
    (if current < len \<and> b ! current \<noteq> 0 \<and> lower (a ! current) = lower (b ! current)
     then prefix_scan a b len (current + 1) else current)"
  by pat_completeness auto
termination by (relation "measure (\<lambda>(a, b, len, current). len - current)") auto

declare prefix_scan.simps [simp del]

fun common_prefix_loop :: "bytes \<Rightarrow> bytes list \<Rightarrow> nat \<Rightarrow> nat" where
  "common_prefix_loop a [] len = len"
| "common_prefix_loop a (b # bs) len =
    (let current = prefix_scan a b len 0 in
     if current = 0 then 0 else common_prefix_loop a bs current)"

definition common_prefix_length :: "line_completion \<Rightarrow> nat" where
  "common_prefix_length co =
    (if co_match_count co = 0 then 0
     else
       let a = co_candidates co ! 0 in
       common_prefix_loop a (take (co_match_count co - 1) (drop 1 (co_candidates co))) (length (cstr_of a)))"

fun write_candidates :: "bytes list \<Rightarrow> line_editor \<Rightarrow> line_editor" where
  "write_candidates [] e = e"
| "write_candidates (c # cs) e =
    write_candidates cs (ed_write_text [0x20, 0x20] (ed_write_text (cstr_of c) e))"

fun tab_step :: "tab_call \<Rightarrow> line_editor \<Rightarrow> line_editor" where
  "tab_step (TabSetState line len cursor) e = snd (bvstk_line_editor_set_state e line len cursor)"
| "tab_step TabMarkEdited e = bvstk_line_editor_mark_edited e"
| "tab_step (TabReplace start prefix r n space) e = snd (bvstk_line_editor_replace e start prefix r n space)"
| "tab_step TabRedraw e = bvstk_line_editor_redraw e"
| "tab_step TabBeep e = bvstk_line_editor_beep e"
| "tab_step (TabWrite data) e = ed_write data e"

definition complete_matches :: "line_completion \<Rightarrow> line_editor \<Rightarrow> line_editor" where
  "complete_matches co e =
    (if co_match_count co = 0 \<or> co_match_count co > COMPLETION_MAX_MATCHES then bvstk_line_editor_beep e
     else if co_token_start co > ed_cursor e \<or>
             co_token_prefix_length co \<noteq> ed_cursor e - co_token_start co then bvstk_line_editor_beep e
     else
       let a = co_candidates co ! 0 in
       if co_match_count co = 1 then
         snd (bvstk_line_editor_replace e (co_token_start co) (co_token_prefix_length co)
           (Some a) (length (cstr_of a)) True)
       else
         let n = common_prefix_length co;
             e1 = (if n > co_token_prefix_length co then
                     snd (bvstk_line_editor_replace e (co_token_start co) (co_token_prefix_length co)
                       (Some a) n False)
                   else e);
             e2 = ed_write_text CRLF e1;
             e3 = write_candidates (take (co_match_count co) (co_candidates co)) e2 in
         bvstk_line_editor_redraw (ed_write_text CRLF e3))"

definition editor_complete :: "line_editor \<Rightarrow> line_editor" where
  "editor_complete e =
    (case ec_tab (ed_config e) of
       Some tab \<Rightarrow>
         fold tab_step (tab (ed_out e) (ed_text e) (ed_cursor e)) (ed_say (EdTab (ed_text e) (ed_cursor e)) e)
     | None \<Rightarrow>
         (case ec_complete (ed_config e) of
            None \<Rightarrow> bvstk_line_editor_beep e
          | Some complete \<Rightarrow>
              let (r, co) = complete (ed_out e) (ed_text e) (ed_cursor e);
                  e1 = ed_say (EdComplete (ed_text e) (ed_cursor e)) e in
              if r = 0 then bvstk_line_editor_beep e1 else complete_matches co e1))"

section \<open>Keys\<close>

text \<open>The loop of \<open>parse_parameter\<close> over the parameter bytes: the parameter reached, its value
  so far, and whether it has a digit.\<close>

fun parse_parameter_loop :: "bytes \<Rightarrow> nat \<Rightarrow> nat \<Rightarrow> int \<Rightarrow> bool \<Rightarrow> int" where
  "parse_parameter_loop [] k i v have_value = (if i = k \<and> have_value then v else -1)"
| "parse_parameter_loop (c # cs) k i v have_value =
    (if c = ch CHR '';'' then
       (if i = k then (if have_value then v else 0) else parse_parameter_loop cs k (i + 1) 0 False)
     else if digit c then
       parse_parameter_loop cs k i (if v < 1000 then v * 10 + (uint c - 48) else v) True
     else parse_parameter_loop cs k i v have_value)"

definition parse_parameter :: "bytes \<Rightarrow> nat \<Rightarrow> nat \<Rightarrow> int" where
  "parse_parameter parameters len k = parse_parameter_loop (take len parameters) k 0 0 False"

definition editor_handle_csi_final :: "line_editor \<Rightarrow> u8 \<Rightarrow> line_editor" where
  "editor_handle_csi_final e c =
    (let first = parse_parameter (ed_escape_parameters e) (ed_escape_parameter_length e) 0;
         modifier = parse_parameter (ed_escape_parameters e) (ed_escape_parameter_length e) 1;
         word = (modifier = 3 \<or> modifier = 5 \<or> first = 5) in
     if c = ch CHR ''A'' then editor_history_up e
     else if c = ch CHR ''B'' then editor_history_down e
     else if c = ch CHR ''C'' then editor_move_right e word
     else if c = ch CHR ''D'' then editor_move_left e word
     else if c = ch CHR ''H'' then move_to 0 e
     else if c = ch CHR ''F'' then move_to (ed_line_length e) e
     else if c = ch CHR ''~'' then
       (if first = 1 \<or> first = 7 then move_to 0 e
        else if first = 4 \<or> first = 8 then move_to (ed_line_length e) e
        else if first = 3 then editor_delete e
        else bvstk_line_editor_beep e)
     else bvstk_line_editor_beep e)"

definition escape_started :: "line_editor \<Rightarrow> u8 \<Rightarrow> line_editor" where
  "escape_started e c =
    (if c = ch CHR ''['' then e\<lparr>ed_escape_state := ESCAPE_CSI, ed_escape_parameter_length := 0\<rparr>
     else if c = ch CHR ''O'' then e\<lparr>ed_escape_state := ESCAPE_SS3\<rparr>
     else if c = ch CHR ''b'' \<or> c = ch CHR ''B'' then editor_reset_escape (editor_move_left e True)
     else if c = ch CHR ''f'' \<or> c = ch CHR ''F'' then editor_reset_escape (editor_move_right e True)
     else if c = ch CHR ''d'' \<or> c = ch CHR ''D'' then editor_reset_escape (editor_delete_next_word e)
     else if c = 0x7F \<or> c = 0x08 then editor_reset_escape (editor_delete_previous_word e)
     else bvstk_line_editor_beep (editor_reset_escape e))"

definition escape_csi :: "line_editor \<Rightarrow> u8 \<Rightarrow> line_editor" where
  "escape_csi e c =
    (if digit c \<or> c = ch CHR '';'' \<or> c = ch CHR ''?'' then
       (if ed_escape_parameter_length e + 1 < ESCAPE_PARAMETERS then
          let n = ed_escape_parameter_length e in
          e\<lparr>ed_escape_parameters := (ed_escape_parameters e)[n := c, n + 1 := 0],
            ed_escape_parameter_length := n + 1\<rparr>
        else e)
     else editor_reset_escape (editor_handle_csi_final e c))"

definition escape_ss3 :: "line_editor \<Rightarrow> u8 \<Rightarrow> line_editor" where
  "escape_ss3 e c =
    editor_reset_escape
      (if c = ch CHR ''A'' then editor_history_up e
       else if c = ch CHR ''B'' then editor_history_down e
       else if c = ch CHR ''C'' then editor_move_right e False
       else if c = ch CHR ''D'' then editor_move_left e False
       else if c = ch CHR ''H'' then move_to 0 e
       else if c = ch CHR ''F'' then move_to (ed_line_length e) e
       else bvstk_line_editor_beep e)"

definition editor_handle_escape_byte :: "line_editor \<Rightarrow> u8 \<Rightarrow> line_editor" where
  "editor_handle_escape_byte e c =
    (case ed_escape_state e of
       ESCAPE_STARTED \<Rightarrow> escape_started e c
     | ESCAPE_CSI \<Rightarrow> escape_csi e c
     | ESCAPE_SS3 \<Rightarrow> escape_ss3 e c
     | ESCAPE_NONE \<Rightarrow> e)"

definition editor_submit :: "line_editor \<Rightarrow> int \<times> line_editor" where
  "editor_submit e =
    (let e1 = editor_add_history (ed_write_text CRLF e);
         (result, e2) =
           (case ec_submit (ed_config e1) of
              None \<Rightarrow> (SUBMIT_PROMPT, e1)
            | Some submit \<Rightarrow>
                let (r, printed) = submit (ed_out e1) (ed_text e1) in
                (r, ed_say (EdSubmit (ed_text e1) r printed) e1));
         e3 = bvstk_line_editor_reset e2;
         e4 = (if result = SUBMIT_PROMPT then call_prompt e3 else e3) in
     (if result = SUBMIT_STOP \<or> result < 0 then 1 else 0, e4))"

definition handle_byte :: "line_editor \<Rightarrow> u8 \<Rightarrow> int \<times> line_editor" where
  "handle_byte e c =
    (if ed_escape_state e \<noteq> ESCAPE_NONE then (0, editor_handle_escape_byte e c)
     else if c = 0x1B then (0, e\<lparr>ed_escape_state := ESCAPE_STARTED, ed_escape_parameter_length := 0\<rparr>)
     else if c = 0x0D \<or> c = 0x0A then editor_submit e
     else if c = 0x01 then (0, move_to 0 e)
     else if c = 0x02 then (0, editor_move_left e False)
     else if c = 0x05 then (0, move_to (ed_line_length e) e)
     else if c = 0x06 then (0, editor_move_right e False)
     else if c = 0x10 then (0, editor_history_up e)
     else if c = 0x0E then (0, editor_history_down e)
     else if c = 0x0B then (0, editor_cut_range e (ed_cursor e) (ed_line_length e))
     else if c = 0x0C then (0, bvstk_line_editor_redraw e)
     else if c = 0x15 then (0, editor_cut_range e 0 (ed_cursor e))
     else if c = 0x17 then (0, editor_delete_previous_word e)
     else if c = 0x19 then (0, editor_paste_cut_buffer e)
     else if c = 0x03 then (0, call_prompt (ed_write_text INTERRUPT (bvstk_line_editor_reset e)))
     else if c = 0x04 then
       (if ed_line_length e = 0 \<and> ec_eof_on_empty (ed_config e) then (1, e) else (0, editor_delete e))
     else if c = 0x08 \<or> c = 0x7F then (0, editor_backspace e)
     else if c = 0x09 then (0, editor_complete e)
     else if c_isprint c then (0, editor_insert e c)
     else (0, e))"

definition bvstk_line_editor_handle_byte :: "line_editor option \<Rightarrow> u8 \<Rightarrow> int \<times> line_editor option" where
  "bvstk_line_editor_handle_byte editor c =
    (case editor of
       None \<Rightarrow> (1, None)
     | Some e \<Rightarrow> let (r, e') = handle_byte e c in (r, Some e'))"

text \<open>The bytes a console loop hands to the editor; a session that a byte ends is one with no
  byte after it.\<close>

definition type_bytes :: "bytes \<Rightarrow> line_editor \<Rightarrow> line_editor" where
  "type_bytes bs e = fold (\<lambda>b e. snd (handle_byte e b)) bs e"

end
