(* ===== verification/Line_View.thy ===== *)
theory Line_View
  imports Line_Editor
begin

text \<open>
  The line editor as a text: the bytes before and after the cursor, the lines of the history, the
  one being looked at, the line set aside while looking, and the cut text. The keys act on it as
  list operations; the array operations of \<open>Line_Editor\<close> are shown to implement them.
\<close>

section \<open>The editor as a text\<close>

record line_view =
  lv_before :: bytes
  lv_after :: bytes
  lv_history :: "bytes list"
  lv_at :: "nat option"
  lv_saved :: bytes
  lv_cut :: bytes

datatype edit_key =
    KInsert u8 | KLeft bool | KRight bool | KHome | KEnd | KUp | KDown
  | KBackspace | KDelete | KCutAfter | KCutBefore | KCutWordLeft | KCutWordRight
  | KPaste | KSubmit | KInterrupt | KTab

definition lv_text :: "line_view \<Rightarrow> bytes" where
  "lv_text v = lv_before v @ lv_after v"

definition lv_empty :: line_view where
  "lv_empty = \<lparr>lv_before = [], lv_after = [], lv_history = [], lv_at = None, lv_saved = [], lv_cut = []\<rparr>"

definition last_word :: "bytes \<Rightarrow> nat" where
  "last_word b = length (dropWhile (\<lambda>c. \<not> c_isspace c) (dropWhile c_isspace (rev b)))"

definition lv_edit :: "bytes \<Rightarrow> bytes \<Rightarrow> line_view \<Rightarrow> line_view" where
  "lv_edit b a v = v\<lparr>lv_before := b, lv_after := a, lv_at := None\<rparr>"

definition lv_cut_out :: "bytes \<Rightarrow> bytes \<Rightarrow> bytes \<Rightarrow> line_view \<Rightarrow> line_view" where
  "lv_cut_out b x a v = (if x = [] then v else (lv_edit b a v)\<lparr>lv_cut := x\<rparr>)"

definition lv_move :: "nat \<Rightarrow> line_view \<Rightarrow> line_view" where
  "lv_move c v = v\<lparr>lv_before := take c (lv_text v), lv_after := drop c (lv_text v)\<rparr>"

definition lv_show :: "bytes \<Rightarrow> line_view \<Rightarrow> line_view" where
  "lv_show t v = v\<lparr>lv_before := t, lv_after := []\<rparr>"

definition lv_remember :: "bytes \<Rightarrow> bytes list \<Rightarrow> bytes list" where
  "lv_remember t h =
    (if t = [] \<or> h \<noteq> [] \<and> List.last h = t then h
     else (if length h = HISTORY_MAX then tl h else h) @ [t])"

definition lv_replace :: "nat \<Rightarrow> bytes \<Rightarrow> line_view \<Rightarrow> line_view" where
  "lv_replace start r v =
    (if start + length r + length (lv_after v) \<ge> LINE_MAX then v
     else lv_edit (take start (lv_before v) @ r) (lv_after v) v)"

text \<open>One match is inserted with a space after it, unless it ends in a slash; several extend the
  token to what they have in common.\<close>

definition with_space :: "bytes \<Rightarrow> bytes" where
  "with_space r = (if r \<noteq> [] \<and> List.last r \<noteq> ch CHR ''/'' then r @ [0x20] else r)"

definition lv_complete :: "(bytes \<Rightarrow> nat \<Rightarrow> int \<times> line_completion) \<Rightarrow> line_view \<Rightarrow> line_view" where
  "lv_complete cpl v =
    (let (r, co) = cpl (lv_text v) (length (lv_before v));
         start = co_token_start co;
         a = cstr_of (co_candidates co ! 0) in
     if r = 0 \<or> co_match_count co = 0 \<or> co_match_count co > COMPLETION_MAX_MATCHES \<or>
        start + co_token_prefix_length co \<noteq> length (lv_before v) then v
     else if co_match_count co = 1 then lv_replace start (with_space a) v
     else if common_prefix_length co > co_token_prefix_length co then
       lv_replace start (take (common_prefix_length co) a) v
     else v)"

fun key_apply :: "(bytes \<Rightarrow> nat \<Rightarrow> int \<times> line_completion) \<Rightarrow> edit_key \<Rightarrow> line_view \<Rightarrow> line_view" where
  "key_apply cpl (KInsert c) v =
    (if length (lv_text v) + 1 \<ge> LINE_MAX then v else lv_edit (lv_before v @ [c]) (lv_after v) v)"
| "key_apply cpl (KLeft word) v =
    lv_move (if word then last_word (lv_before v) else length (lv_before v) - 1) v"
| "key_apply cpl (KRight word) v =
    lv_move (if word then length (lv_text v) -
               length (dropWhile c_isspace (dropWhile (\<lambda>c. \<not> c_isspace c) (lv_after v)))
             else length (lv_before v) + 1) v"
| "key_apply cpl KHome v = lv_move 0 v"
| "key_apply cpl KEnd v = lv_move (length (lv_text v)) v"
| "key_apply cpl KUp v =
    (case lv_at v of
       None \<Rightarrow> (if lv_history v = [] then v
                 else lv_show (List.last (lv_history v))
                   (v\<lparr>lv_saved := lv_text v, lv_at := Some (length (lv_history v) - 1)\<rparr>))
     | Some i \<Rightarrow> (if i = 0 then v else lv_show (lv_history v ! (i - 1)) (v\<lparr>lv_at := Some (i - 1)\<rparr>)))"
| "key_apply cpl KDown v =
    (case lv_at v of
       None \<Rightarrow> v
     | Some i \<Rightarrow> (if i + 1 < length (lv_history v)
                  then lv_show (lv_history v ! (i + 1)) (v\<lparr>lv_at := Some (i + 1)\<rparr>)
                  else lv_show (lv_saved v) (v\<lparr>lv_at := None\<rparr>)))"
| "key_apply cpl KBackspace v =
    (if lv_before v = [] then v else lv_edit (butlast (lv_before v)) (lv_after v) v)"
| "key_apply cpl KDelete v =
    (if lv_after v = [] then v else lv_edit (lv_before v) (tl (lv_after v)) v)"
| "key_apply cpl KCutAfter v = lv_cut_out (lv_before v) (lv_after v) [] v"
| "key_apply cpl KCutBefore v = lv_cut_out [] (lv_before v) (lv_after v) v"
| "key_apply cpl KCutWordLeft v =
    lv_cut_out (take (last_word (lv_before v)) (lv_before v)) (drop (last_word (lv_before v)) (lv_before v))
      (lv_after v) v"
| "key_apply cpl KCutWordRight v =
    (let rest = dropWhile (\<lambda>c. \<not> c_isspace c) (dropWhile c_isspace (lv_after v)) in
     lv_cut_out (lv_before v) (take (length (lv_after v) - length rest) (lv_after v)) rest v)"
| "key_apply cpl KPaste v =
    (if lv_cut v = [] \<or> length (lv_text v) + length (lv_cut v) \<ge> LINE_MAX then v
     else lv_edit (lv_before v @ lv_cut v) (lv_after v) v)"
| "key_apply cpl KSubmit v =
    lv_edit [] [] (v\<lparr>lv_history := lv_remember (lv_text v) (lv_history v)\<rparr>)"
| "key_apply cpl KInterrupt v = lv_edit [] [] v"
| "key_apply cpl KTab v = lv_complete cpl v"

text \<open>The keys a byte stream means: the escape sequences of a terminal, each byte alone
  otherwise. The parameters of a control sequence are its first fifteen bytes.\<close>

definition csi_key :: "bytes \<Rightarrow> u8 \<Rightarrow> edit_key option" where
  "csi_key ps c =
    (let first = parse_parameter_loop ps 0 0 0 False;
         word = (parse_parameter_loop ps 1 0 0 False \<in> {3, 5} \<or> first = 5) in
     if c = ch CHR ''A'' then Some KUp else if c = ch CHR ''B'' then Some KDown
     else if c = ch CHR ''C'' then Some (KRight word) else if c = ch CHR ''D'' then Some (KLeft word)
     else if c = ch CHR ''H'' then Some KHome else if c = ch CHR ''F'' then Some KEnd
     else if c = ch CHR ''~'' then
       (if first \<in> {1, 7} then Some KHome else if first \<in> {4, 8} then Some KEnd
        else if first = 3 then Some KDelete else None)
     else None)"

definition ss3_key :: "u8 \<Rightarrow> edit_key option" where
  "ss3_key c =
    (if c = ch CHR ''A'' then Some KUp else if c = ch CHR ''B'' then Some KDown
     else if c = ch CHR ''C'' then Some (KRight False) else if c = ch CHR ''D'' then Some (KLeft False)
     else if c = ch CHR ''H'' then Some KHome else if c = ch CHR ''F'' then Some KEnd else None)"

definition meta_key :: "u8 \<Rightarrow> edit_key option" where
  "meta_key c =
    (if c \<in> {ch CHR ''b'', ch CHR ''B''} then Some (KLeft True)
     else if c \<in> {ch CHR ''f'', ch CHR ''F''} then Some (KRight True)
     else if c \<in> {ch CHR ''d'', ch CHR ''D''} then Some KCutWordRight
     else if c \<in> {0x7F, 0x08} then Some KCutWordLeft else None)"

definition plain_key :: "u8 \<Rightarrow> edit_key option" where
  "plain_key c =
    (if c \<in> {0x0D, 0x0A} then Some KSubmit else if c = 0x01 then Some KHome
     else if c = 0x02 then Some (KLeft False) else if c = 0x05 then Some KEnd
     else if c = 0x06 then Some (KRight False) else if c = 0x10 then Some KUp
     else if c = 0x0E then Some KDown else if c = 0x0B then Some KCutAfter
     else if c = 0x15 then Some KCutBefore else if c = 0x17 then Some KCutWordLeft
     else if c = 0x19 then Some KPaste else if c = 0x03 then Some KInterrupt
     else if c = 0x04 then Some KDelete else if c \<in> {0x08, 0x7F} then Some KBackspace
     else if c = 0x09 then Some KTab else if c_isprint c then Some (KInsert c) else None)"

fun next_key :: "escape_state \<times> bytes \<Rightarrow> u8 \<Rightarrow> (escape_state \<times> bytes) \<times> edit_key option" where
  "next_key (ESCAPE_NONE, ps) c =
    (if c = 0x1B then ((ESCAPE_STARTED, []), None) else ((ESCAPE_NONE, []), plain_key c))"
| "next_key (ESCAPE_STARTED, ps) c =
    (if c = ch CHR ''['' then ((ESCAPE_CSI, []), None)
     else if c = ch CHR ''O'' then ((ESCAPE_SS3, []), None)
     else ((ESCAPE_NONE, []), meta_key c))"
| "next_key (ESCAPE_CSI, ps) c =
    (if digit c \<or> c = ch CHR '';'' \<or> c = ch CHR ''?'' then
       ((ESCAPE_CSI, if length ps + 1 < ESCAPE_PARAMETERS then ps @ [c] else ps), None)
     else ((ESCAPE_NONE, []), csi_key ps c))"
| "next_key (ESCAPE_SS3, ps) c = ((ESCAPE_NONE, []), ss3_key c)"

definition apply_opt :: "(bytes \<Rightarrow> nat \<Rightarrow> int \<times> line_completion) \<Rightarrow> edit_key option \<Rightarrow> line_view \<Rightarrow> line_view" where
  "apply_opt cpl k v = (case k of None \<Rightarrow> v | Some key \<Rightarrow> key_apply cpl key v)"

fun keys_of :: "escape_state \<times> bytes \<Rightarrow> bytes \<Rightarrow> edit_key list" where
  "keys_of q [] = []"
| "keys_of q (c # cs) =
    (case next_key q c of
       (q', None) \<Rightarrow> keys_of q' cs
     | (q', Some k) \<Rightarrow> k # keys_of q' cs)"

definition edit_view :: "line_editor \<Rightarrow> line_view" where
  "edit_view e =
    \<lparr>lv_before = take (ed_cursor e) (ed_text e), lv_after = drop (ed_cursor e) (ed_text e),
     lv_history = map cstr_of (take (ed_history_count e) (ed_history e)),
     lv_at = (if ed_history_position e < 0 then None else Some (nat (ed_history_position e))),
     lv_saved = take (ed_history_scratch_length e) (ed_history_scratch e),
     lv_cut = take (ed_cut_length e) (ed_cut_buffer e)\<rparr>"

definition key_state :: "line_editor \<Rightarrow> escape_state \<times> bytes" where
  "key_state e = (ed_escape_state e, take (ed_escape_parameter_length e) (ed_escape_parameters e))"

section \<open>The arrays\<close>

definition line_ok :: "line_editor \<Rightarrow> bool" where
  "line_ok e \<longleftrightarrow> length (ed_line e) = LINE_MAX \<and> ed_line_length e < LINE_MAX \<and>
    ed_line e ! ed_line_length e = 0 \<and> ed_cursor e \<le> ed_line_length e"

definition history_ok :: "line_editor \<Rightarrow> bool" where
  "history_ok e \<longleftrightarrow> length (ed_history e) = HISTORY_MAX \<and> list_all (\<lambda>h. length h = LINE_MAX) (ed_history e) \<and>
    ed_history_count e \<le> HISTORY_MAX \<and> list_all (\<lambda>h. 0 \<in> set h) (take (ed_history_count e) (ed_history e)) \<and>
    -1 \<le> ed_history_position e \<and> ed_history_position e < int (ed_history_count e)"

definition buffers_ok :: "line_editor \<Rightarrow> bool" where
  "buffers_ok e \<longleftrightarrow> length (ed_history_scratch e) = LINE_MAX \<and> ed_history_scratch_length e < LINE_MAX \<and>
    length (ed_cut_buffer e) = LINE_MAX \<and> ed_cut_length e < LINE_MAX \<and>
    length (ed_escape_parameters e) = ESCAPE_PARAMETERS \<and> ed_escape_parameter_length e < ESCAPE_PARAMETERS"

definition editor_ok :: "line_editor \<Rightarrow> bool" where
  "editor_ok e \<longleftrightarrow> line_ok e \<and> history_ok e \<and> buffers_ok e"

lemmas editor_ok_defs = editor_ok_def line_ok_def history_ok_def buffers_ok_def

lemma store_at_eq: "store_at k q n p = take k p @ take n q @ drop (n + k) p"
  by (simp add: store_at_def at_offset_def memcpy_def)

lemma length_store_at [simp]: "k + n \<le> length p \<Longrightarrow> n \<le> length q \<Longrightarrow> length (store_at k q n p) = length p"
  by (simp add: store_at_eq)

lemma take_store_at: "k \<le> length p \<Longrightarrow> n \<le> length q \<Longrightarrow> take (k + n) (store_at k q n p) = take k p @ take n q"
  by (simp add: store_at_eq)

lemma take_store_before: "m \<le> k \<Longrightarrow> k \<le> length p \<Longrightarrow> take m (store_at k q n p) = take m p"
  by (simp add: store_at_eq min_def)

lemma drop_store_after: "k + n \<le> m \<Longrightarrow> k \<le> length p \<Longrightarrow> n \<le> length q \<Longrightarrow> drop m (store_at k q n p) = drop m p"
  by (simp add: store_at_eq drop_append min_def add.commute)

lemma take_drop_store: "k \<le> length p \<Longrightarrow> n \<le> length q \<Longrightarrow> take n (drop k (store_at k q n p)) = take n q"
  by (simp add: store_at_eq)

lemma length_line_move [simp]:
  "dst + n \<le> length p \<Longrightarrow> src + n \<le> length p \<Longrightarrow> length (line_move dst src n p) = length p"
  by (simp add: line_move_def)

lemma length_ed_text [simp]: "line_ok e \<Longrightarrow> length (ed_text e) = ed_line_length e"
  by (simp add: ed_text_def line_ok_def)

section \<open>Output leaves the editor alone\<close>

definition silent :: "line_editor \<Rightarrow> line_editor" where
  "silent e = e\<lparr>ed_out := []\<rparr>"

lemma silent_write [simp]: "silent (snd (bvstk_line_editor_write e d)) = silent e"
  by (simp add: silent_def bvstk_line_editor_write_def editor_write_all_def ed_say_def split: option.splits)

lemma silent_write_text [simp]: "silent (snd (bvstk_line_editor_write_text e (Some d))) = silent e"
  by (simp add: silent_def bvstk_line_editor_write_text_def editor_write_all_def ed_say_def split: option.splits)

lemma silent_say [simp]: "silent (ed_say ev e) = silent e"
  by (simp add: silent_def ed_say_def)

lemma silent_times [simp]: "silent (write_times n t e) = silent e"
  by (induction n arbitrary: e) simp_all

lemma silent_beep [simp]: "silent (bvstk_line_editor_beep e) = silent e"
  by (simp add: bvstk_line_editor_beep_def)

lemma silent_prompt [simp]: "silent (call_prompt e) = silent e"
  by (simp add: call_prompt_def split: option.splits)

lemma silent_redraw [simp]: "silent (bvstk_line_editor_redraw e) = silent e"
  by (simp add: bvstk_line_editor_redraw_def Let_def)

lemma silent_candidates [simp]: "silent (write_candidates cs e) = silent e"
  by (induction cs arbitrary: e) simp_all

text \<open>What depends on the state alone, not on what was sent.\<close>

lemma silent_observations:
  "edit_view (silent e) = edit_view e" "editor_ok (silent e) = editor_ok e" "key_state (silent e) = key_state e"
  "ed_config (silent e) = ed_config e" "ed_text (silent e) = ed_text e"
  by (simp_all add: silent_def edit_view_def editor_ok_defs key_state_def ed_text_def)

lemma silent_cong:
  assumes "silent e' = silent e"
  shows "edit_view e' = edit_view e" and "editor_ok e' = editor_ok e" and "key_state e' = key_state e"
    and "ed_config e' = ed_config e"
  using assms by (metis silent_observations)+

lemma silent_update:
  "silent (ed_line_update f e) = ed_line_update f (silent e)"
  "silent (ed_line_length_update g e) = ed_line_length_update g (silent e)"
  "silent (ed_cursor_update g e) = ed_cursor_update g (silent e)"
  "silent (ed_history_position_update k e) = ed_history_position_update k (silent e)"
  by (simp_all add: silent_def)

definition acts :: "line_editor \<Rightarrow> (line_view \<Rightarrow> line_view) \<Rightarrow> line_editor \<Rightarrow> bool" where
  "acts e f e' \<longleftrightarrow> editor_ok e' \<and> edit_view e' = f (edit_view e) \<and> key_state e' = key_state e \<and>
    ed_config e' = ed_config e"

lemma acts_silent: "silent e' = silent e'' \<Longrightarrow> acts e f e'' \<Longrightarrow> acts e f e'"
  unfolding acts_def by (metis silent_cong)

lemma acts_idle: "editor_ok e \<Longrightarrow> silent e' = silent e \<Longrightarrow> f (edit_view e) = edit_view e \<Longrightarrow> acts e f e'"
  unfolding acts_def by (metis silent_cong)

lemma acts_cong: "acts e f e' \<Longrightarrow> f (edit_view e) = g (edit_view e) \<Longrightarrow> acts e g e'"
  by (simp add: acts_def)

lemma acts_redraw: "acts e f e' \<Longrightarrow> acts e f (bvstk_line_editor_redraw e')"
  by (rule acts_silent [rotated]) simp_all

text \<open>A new line in the array, ended by a NUL.\<close>

definition put_line :: "bytes \<Rightarrow> nat \<Rightarrow> nat \<Rightarrow> line_editor \<Rightarrow> line_editor" where
  "put_line l n c e = e\<lparr>ed_line := l[n := 0], ed_line_length := n, ed_cursor := c\<rparr>"

lemma put_line_ok:
  assumes "editor_ok e" and "length l = LINE_MAX" and "n < LINE_MAX" and "c \<le> n"
  shows "editor_ok (put_line l n c e)"
  using assms by (simp add: editor_ok_defs put_line_def)

lemma put_line_view:
  assumes "length l = LINE_MAX" and "n < LINE_MAX" and "c \<le> n" and "take c l = b" and "take n l = b @ a"
  shows "edit_view (put_line l n c e) = (edit_view e)\<lparr>lv_before := b, lv_after := a\<rparr>"
proof -
  have "length b = c" using assms(1-4) by auto
  then show ?thesis using assms by (simp add: edit_view_def put_line_def ed_text_def)
qed

lemma put_line_key [simp]: "key_state (put_line l n c e) = key_state e" "ed_config (put_line l n c e) = ed_config e"
  by (simp_all add: put_line_def key_state_def)

lemma mark_edited_view:
  "editor_ok e \<Longrightarrow> editor_ok (bvstk_line_editor_mark_edited e)"
  "edit_view (bvstk_line_editor_mark_edited e) = (edit_view e)\<lparr>lv_at := None\<rparr>"
  "key_state (bvstk_line_editor_mark_edited e) = key_state e"
  "ed_config (bvstk_line_editor_mark_edited e) = ed_config e"
  by (simp_all add: editor_ok_defs bvstk_line_editor_mark_edited_def edit_view_def key_state_def ed_text_def)

lemma edited_acts:
  assumes "editor_ok e" and "length l = LINE_MAX" and "n < LINE_MAX" and "c \<le> n"
    and "take c l = b" and "take n l = b @ a"
  shows "acts e (lv_edit b a) (bvstk_line_editor_mark_edited (put_line l n c e))"
  using put_line_ok [OF assms(1-4)] put_line_view [OF assms(2-6)]
  by (simp add: acts_def mark_edited_view lv_edit_def)

lemma take_split: "c \<le> n \<Longrightarrow> take n l = take c l @ take (n - c) (drop c l)"
  by (metis le_add_diff_inverse take_add)

lemma view_parts:
  assumes "line_ok e"
  shows "lv_before (edit_view e) = take (ed_cursor e) (ed_line e)"
    and "lv_after (edit_view e) = take (ed_line_length e - ed_cursor e) (drop (ed_cursor e) (ed_line e))"
    and "lv_text (edit_view e) = take (ed_line_length e) (ed_line e)"
    and "length (lv_before (edit_view e)) = ed_cursor e"
    and "length (lv_after (edit_view e)) = ed_line_length e - ed_cursor e"
    and "length (lv_text (edit_view e)) = ed_line_length e"
  using assms take_split [of "ed_cursor e" "ed_line_length e" "ed_line e"]
  by (auto simp: line_ok_def edit_view_def lv_text_def ed_text_def drop_take min_def)

lemma editor_ok_line: "editor_ok e \<Longrightarrow> line_ok e"
  by (simp add: editor_ok_def)

section \<open>Each key\<close>

lemma open_gap:
  "k + m < length p \<Longrightarrow> (line_move (k + 1) k m p)[k := c] = take k p @ [c] @ take m (drop k p) @ drop (k + m + 1) p"
  unfolding line_move_def store_at_eq by (simp add: take_Suc_conv_app_nth list_update_append add.commute)

lemma insert_acts:
  assumes ok: "editor_ok e"
  shows "acts e (key_apply cpl (KInsert c)) (editor_insert e c)"
proof (cases "ed_line_length e + 1 \<ge> LINE_MAX")
  case True
  then show ?thesis using view_parts(6) [OF editor_ok_line [OF ok]]
    by (intro acts_idle [OF ok]) (simp_all add: editor_insert_def)
next
  case False
  define k n where "k = ed_cursor e" and "n = ed_line_length e"
  have len: "length (ed_line e) = LINE_MAX" and kn: "k \<le> n" "n + 1 < LINE_MAX"
    using ok False by (auto simp: editor_ok_defs k_def n_def)
  note vp = view_parts [OF editor_ok_line [OF ok], folded k_def n_def]
  define l where "l = (line_move (k + 1) k (n - k) (ed_line e))[k := c]"
  have l: "l = take k (ed_line e) @ [c] @ take (n - k) (drop k (ed_line e)) @ drop (n + 1) (ed_line e)"
    unfolding l_def using open_gap [of k "n - k" "ed_line e" c] len kn by simp
  let ?e = "bvstk_line_editor_mark_edited (put_line l (n + 1) (k + 1) e)"
  have "acts e (lv_edit (take k (ed_line e) @ [c]) (take (n - k) (drop k (ed_line e)))) ?e"
    by (rule edited_acts [OF ok]) (use l len kn in \<open>auto simp: Suc_diff_le\<close>)
  then have "acts e (key_apply cpl (KInsert c)) ?e"
    by (rule acts_cong) (use vp kn len in simp)
  moreover have "silent (editor_insert e c) = silent ?e" using False
    by (simp add: editor_insert_def Let_def put_line_def l_def k_def n_def)
  ultimately show ?thesis by (rule acts_silent [rotated])
qed

lemma remove_acts:
  assumes ok: "editor_ok e" and k: "ed_cursor e < ed_line_length e"
  shows "acts e (key_apply cpl KDelete) (remove_at_cursor e)"
proof -
  define k m where "k = ed_cursor e" and "m = ed_line_length e - ed_cursor e - 1"
  have n: "ed_line_length e = k + 1 + m" using k by (simp add: k_def m_def)
  have len: "length (ed_line e) = LINE_MAX" and km: "k + 1 + m < LINE_MAX"
    using ok n by (auto simp: editor_ok_defs)
  note vp = view_parts [OF editor_ok_line [OF ok], folded k_def, unfolded n]
  define l where "l = line_move k (k + 1) m (ed_line e)"
  have l: "l = take k (ed_line e) @ take m (drop (k + 1) (ed_line e)) @ drop (k + m) (ed_line e)"
    unfolding l_def line_move_def store_at_eq using len km by (simp add: add.commute)
  let ?e = "bvstk_line_editor_mark_edited (put_line l (k + m) k e)"
  have "acts e (lv_edit (take k (ed_line e)) (take m (drop (k + 1) (ed_line e)))) ?e"
    by (rule edited_acts [OF ok]) (use l len km in auto)
  then have "acts e (key_apply cpl KDelete) ?e"
    by (rule acts_cong) (use vp km len in \<open>auto simp: tl_take drop_Suc tl_drop\<close>)
  moreover have "put_line l (k + m) k e = e\<lparr>ed_line := l[k + m := 0], ed_line_length := k + m\<rparr>"
    by (simp add: put_line_def k_def)
  moreover have "ed_line_length e - ed_cursor e - 1 = m" "ed_line_length e - 1 = k + m"
    using n by (simp_all add: k_def)
  ultimately show ?thesis unfolding remove_at_cursor_def Let_def l_def k_def
    by (simp add: acts_redraw)
qed

lemma delete_acts:
  assumes ok: "editor_ok e"
  shows "acts e (key_apply cpl KDelete) (editor_delete e)"
proof (cases "ed_cursor e < ed_line_length e")
  case True
  then show ?thesis using remove_acts [OF ok] by (simp add: editor_delete_def)
next
  case False
  then have "lv_after (edit_view e) = []" using view_parts(5) [OF editor_ok_line [OF ok]] by simp
  with False show ?thesis by (intro acts_idle [OF ok]) (simp_all add: editor_delete_def)
qed

lemma cursor_ok: "editor_ok e \<Longrightarrow> c \<le> ed_line_length e \<Longrightarrow> editor_ok (e\<lparr>ed_cursor := c\<rparr>)"
  by (simp add: editor_ok_defs)

lemma cursor_acts:
  assumes ok: "editor_ok e" and c: "c \<le> ed_line_length e"
  shows "acts e (lv_move c) (e\<lparr>ed_cursor := c\<rparr>)"
  using view_parts(3) [OF editor_ok_line [OF ok]] cursor_ok [OF assms]
  by (simp add: acts_def edit_view_def lv_move_def key_state_def ed_text_def)

lemma backspace_acts:
  assumes ok: "editor_ok e"
  shows "acts e (key_apply cpl KBackspace) (editor_backspace e)"
proof (cases "ed_cursor e = 0")
  case True
  then have "lv_before (edit_view e) = []" using view_parts(4) [OF editor_ok_line [OF ok]] by simp
  with True show ?thesis by (intro acts_idle [OF ok]) (simp_all add: editor_backspace_def)
next
  case False
  let ?v = "edit_view e"
  define b c where "b = butlast (lv_before ?v)" and "c = List.last (lv_before ?v)"
  note vp = view_parts [OF editor_ok_line [OF ok]]
  have bc: "lv_before ?v = b @ [c]" and lb: "length b = ed_cursor e - 1" using False vp(4)
    by (simp add: b_def c_def append_butlast_last_id del: length_0_conv flip: length_greater_0_conv, simp add: b_def)
  let ?e = "e\<lparr>ed_cursor := ed_cursor e - 1\<rparr>"
  have le: "ed_cursor e \<le> ed_line_length e" using ok by (simp add: editor_ok_defs)
  have m: "acts e (lv_move (length b)) ?e" using cursor_acts [OF ok, of "ed_cursor e - 1"] le lb by simp
  then have v: "edit_view ?e = lv_move (length b) ?v" and ok': "editor_ok ?e" by (simp_all add: acts_def)
  have "acts ?e (key_apply cpl KDelete) (remove_at_cursor ?e)"
    by (rule remove_acts [OF ok']) (use False le in auto)
  moreover have "key_apply cpl KDelete (edit_view ?e) = key_apply cpl KBackspace ?v"
    unfolding v using bc by (simp add: lv_move_def lv_text_def lv_edit_def b_def [symmetric])
  ultimately show ?thesis using m False by (simp add: acts_def editor_backspace_def)
qed

lemma acts_trans: "acts e f e' \<Longrightarrow> acts e' g e'' \<Longrightarrow> acts e (\<lambda>v. g (f v)) e''"
  by (simp add: acts_def)

lemma acts_ok: "acts e f e' \<Longrightarrow> editor_ok e'"
  by (simp add: acts_def)

subsection \<open>Words\<close>

lemma scan_left_eq: "c \<le> length l \<Longrightarrow> scan_left P l c = length (dropWhile P (rev (take c l)))"
  by (induction c) (simp_all add: take_Suc_conv_app_nth)

lemma scan_left_le: "scan_left P l c \<le> c"
  by (induction c) auto

lemma scan_right_eq: "c \<le> n \<Longrightarrow> n \<le> length l \<Longrightarrow> scan_right P l n c = n - length (dropWhile P (take (n - c) (drop c l)))"
proof (induction P l n c rule: scan_right.induct)
  case (1 P l n c)
  show ?case
  proof (cases "c < n")
    case True
    then have "take (n - c) (drop c l) = l ! c # take (n - Suc c) (drop (Suc c) l)"
      using 1 by (metis Cons_nth_drop_Suc Suc_diff_Suc order_less_le_trans take_Suc_Cons)
    then show ?thesis using 1 True by (simp add: scan_right.simps [of P l n c] Suc_diff_le)
  qed (use 1 in \<open>subst scan_right.simps, simp\<close>)
qed

lemma scan_right_bounds: "c \<le> n \<Longrightarrow> c \<le> scan_right P l n c \<and> scan_right P l n c \<le> n"
proof (induction P l n c rule: scan_right.induct)
  case (1 P l n c)
  then show ?case by (subst (1 2) scan_right.simps) auto
qed

lemma dropWhile_drop: "dropWhile P xs = drop (length xs - length (dropWhile P xs)) xs"
  by (metis add_diff_cancel_right' append_eq_conv_conj length_append takeWhile_dropWhile_id)

lemma dropWhile_rev_take: "dropWhile P (rev t) = rev (take (length (dropWhile P (rev t))) t)"
proof -
  have "length (dropWhile P (rev t)) \<le> length t" using length_dropWhile_le [of P "rev t"] by simp
  then show ?thesis by (subst dropWhile_drop) (simp add: drop_rev)
qed

lemma word_left_eq:
  assumes "c \<le> length l"
  shows "word_left l c = last_word (take c l)"
proof -
  let ?k = "scan_left c_isspace l c"
  have k: "?k \<le> c" by (rule scan_left_le)
  have "dropWhile c_isspace (rev (take c l)) = rev (take ?k (take c l))"
    by (subst dropWhile_rev_take) (simp add: scan_left_eq [OF assms])
  also have "\<dots> = rev (take ?k l)" using k by (simp add: min_def)
  finally show ?thesis using k assms by (simp add: word_left_def last_word_def scan_left_eq [of ?k])
qed

lemma word_left_le: "word_left l c \<le> c"
  unfolding word_left_def by (meson order.trans scan_left_le)

lemma scan_right_twice:
  assumes "c \<le> n" "n \<le> length l"
  shows "scan_right Q l n (scan_right P l n c) = n - length (dropWhile Q (dropWhile P (take (n - c) (drop c l))))"
proof -
  let ?d = "scan_right P l n c" and ?t = "take (n - c) (drop c l)"
  have d: "c \<le> ?d" "?d \<le> n" using scan_right_bounds [OF assms(1)] by auto
  have t: "length ?t = n - c" using assms by simp
  have len: "length (dropWhile P ?t) \<le> n - c" using length_dropWhile_le [of P ?t] t by simp
  have "dropWhile P ?t = drop (n - c - length (dropWhile P ?t)) ?t" using dropWhile_drop [of P ?t] unfolding t .
  also have "n - c - length (dropWhile P ?t) = ?d - c" using scan_right_eq [OF assms] len by simp
  also have "drop (?d - c) ?t = take (n - ?d) (drop ?d l)" using d by (simp add: drop_take)
  finally show ?thesis using scan_right_eq [OF d(2) assms(2)] by simp
qed

subsection \<open>Cutting and pasting\<close>

lemma cut_buffer_acts:
  assumes "editor_ok e" and "n < LINE_MAX" and "n \<le> length x"
  shows "acts e (lv_cut_update (\<lambda>_. take n x))
    (e\<lparr>ed_cut_length := n, ed_cut_buffer := (store_at 0 x n (ed_cut_buffer e))[n := 0]\<rparr>)"
  using assms by (simp add: acts_def editor_ok_defs edit_view_def key_state_def ed_text_def store_at_eq)

lemma cut_acts:
  assumes ok: "editor_ok e" and r: "i \<le> j" "j \<le> ed_line_length e"
  shows "acts e (\<lambda>v. lv_cut_out (take i (lv_text v)) (take (j - i) (drop i (lv_text v))) (drop j (lv_text v)) v)
    (editor_cut_range e i j)"
proof (cases "i = j")
  case True
  then show ?thesis by (intro acts_idle [OF ok]) (simp_all add: editor_cut_range_def lv_cut_out_def)
next
  case False
  define m n where "m = j - i" and "n = ed_line_length e - j"
  have j: "j = i + m" "m \<noteq> 0" and len: "ed_line_length e = i + m + n" using False r by (auto simp: m_def n_def)
  have lens: "length (ed_line e) = LINE_MAX" "i + m + n < LINE_MAX" using ok len by (auto simp: editor_ok_defs)
  have t: "lv_text (edit_view e) = take (i + m + n) (ed_line e)"
    using view_parts(3) [OF editor_ok_line [OF ok]] len by simp
  define e0 where "e0 = e\<lparr>ed_cut_length := m, ed_cut_buffer := (store_at 0 (drop i (ed_line e)) m (ed_cut_buffer e))[m := 0]\<rparr>"
  have e0: "acts e (lv_cut_update (\<lambda>_. take m (drop i (ed_line e)))) e0"
    unfolding e0_def by (rule cut_buffer_acts [OF ok]) (use lens in auto)
  define l where "l = line_move i (i + m) n (ed_line e)"
  have l: "l = take i (ed_line e) @ take n (drop (i + m) (ed_line e)) @ drop (i + n) (ed_line e)"
    unfolding l_def line_move_def store_at_eq by (simp add: add.commute)
  have "acts e0 (lv_edit (take i (ed_line e)) (take n (drop (i + m) (ed_line e))))
      (bvstk_line_editor_mark_edited (put_line l (i + n) i e0))"
    by (rule edited_acts [OF acts_ok [OF e0]]) (use l lens in auto)
  from acts_redraw [OF acts_trans [OF e0 this]]
  have "acts e (\<lambda>v. lv_edit (take i (ed_line e)) (take n (drop (i + m) (ed_line e)))
      (v\<lparr>lv_cut := take m (drop i (ed_line e))\<rparr>)) (editor_cut_range e i j)"
    using j lens len by (simp add: editor_cut_range_def put_line_def e0_def l_def Let_def)
  then show ?thesis
    by (rule acts_cong) (use j lens t in \<open>simp add: lv_cut_out_def lv_edit_def drop_take\<close>)
qed

lemma paste_acts:
  assumes ok: "editor_ok e"
  shows "acts e (key_apply cpl KPaste) (editor_paste_cut_buffer e)"
proof -
  define k m n where "k = ed_cursor e" and "m = ed_cut_length e" and "n = ed_line_length e - ed_cursor e"
  have len: "ed_line_length e = k + n" using ok by (simp add: editor_ok_defs k_def n_def)
  have lens: "length (ed_line e) = LINE_MAX" "length (ed_cut_buffer e) = LINE_MAX" "k + n < LINE_MAX"
    using ok len by (auto simp: editor_ok_defs)
  have cut: "lv_cut (edit_view e) = take m (ed_cut_buffer e)" "length (lv_cut (edit_view e)) = m"
    using ok by (auto simp: edit_view_def editor_ok_defs m_def)
  note vp = view_parts [OF editor_ok_line [OF ok], folded k_def, unfolded len]
  show ?thesis
  proof (cases "m = 0 \<or> k + n + m \<ge> LINE_MAX")
    case True
    then have "lv_cut (edit_view e) = [] \<or> length (lv_text (edit_view e)) + length (lv_cut (edit_view e)) \<ge> LINE_MAX"
      using cut(2) vp(6) by auto
    with True show ?thesis
      by (intro acts_idle [OF ok]) (simp_all add: editor_paste_cut_buffer_def m_def [symmetric] len)
  next
    case False
    define l1 where "l1 = line_move (k + m) k n (ed_line e)"
    define l where "l = store_at k (ed_cut_buffer e) m l1"
    have l1: "take k l1 = take k (ed_line e)" "take n (drop (k + m) l1) = take n (drop k (ed_line e))" "length l1 = LINE_MAX"
      unfolding l1_def line_move_def using lens False by (auto simp: take_store_before take_drop_store)
    have l: "l = take k (ed_line e) @ take m (ed_cut_buffer e) @ drop (k + m) l1"
      unfolding l_def store_at_eq using l1 by (simp add: add.commute)
    have "take (k + n + m) l = (take k (ed_line e) @ take m (ed_cut_buffer e)) @ take n (drop k (ed_line e))"
      using lens False l1(2) by (simp add: l)
    then have "acts e (lv_edit (take k (ed_line e) @ take m (ed_cut_buffer e)) (take n (drop k (ed_line e))))
        (bvstk_line_editor_mark_edited (put_line l (k + n + m) (k + m) e))"
      using l1(3) lens False by (intro edited_acts [OF ok]) (auto simp: l)
    then have "acts e (key_apply cpl KPaste) (bvstk_line_editor_mark_edited (put_line l (k + n + m) (k + m) e))"
      by (rule acts_cong) (use cut vp False in auto)
    then show ?thesis unfolding editor_paste_cut_buffer_def using False
      by (simp add: put_line_def l_def l1_def len k_def [symmetric] m_def [symmetric] Let_def acts_redraw)
  qed
qed

lemma dropWhile_twice:
  "dropWhile Q (dropWhile P xs) = drop (length xs - length (dropWhile Q (dropWhile P xs))) xs"
proof -
  have "xs = (takeWhile P xs @ takeWhile Q (dropWhile P xs)) @ dropWhile Q (dropWhile P xs)" by simp
  then show ?thesis by (metis add_diff_cancel_right' append_eq_conv_conj length_append)
qed

lemma view_text:
  assumes "editor_ok e"
  shows "take (ed_cursor e) (lv_text (edit_view e)) = lv_before (edit_view e)"
    and "drop (ed_cursor e) (lv_text (edit_view e)) = lv_after (edit_view e)"
    and "drop (ed_line_length e) (lv_text (edit_view e)) = []"
    and "ed_line_length e = ed_cursor e + length (lv_after (edit_view e))"
  using view_parts [OF editor_ok_line [OF assms]] assms by (auto simp: editor_ok_defs drop_take)

lemma cut_after_acts:
  assumes ok: "editor_ok e"
  shows "acts e (key_apply cpl KCutAfter) (editor_cut_range e (ed_cursor e) (ed_line_length e))"
  by (rule acts_cong [OF cut_acts [OF ok]]) (use ok view_text [OF ok] in \<open>auto simp: editor_ok_defs\<close>)

lemma cut_before_acts:
  assumes ok: "editor_ok e"
  shows "acts e (key_apply cpl KCutBefore) (editor_cut_range e 0 (ed_cursor e))"
  by (rule acts_cong [OF cut_acts [OF ok]]) (use ok view_text [OF ok] in \<open>auto simp: editor_ok_defs\<close>)

lemma cut_word_left_acts:
  assumes ok: "editor_ok e"
  shows "acts e (key_apply cpl KCutWordLeft) (editor_delete_previous_word e)"
proof -
  let ?v = "edit_view e" and ?w = "word_left (ed_line e) (ed_cursor e)"
  note vp = view_parts [OF editor_ok_line [OF ok]]
  have c: "ed_cursor e \<le> ed_line_length e" "ed_cursor e \<le> length (ed_line e)" using ok by (auto simp: editor_ok_defs)
  have w: "?w = last_word (lv_before ?v)" "?w \<le> ed_cursor e" 
    using word_left_eq [OF c(2)] vp(1) by (simp, intro word_left_le)
  have "take (ed_cursor e - ?w) (drop ?w (lv_text ?v)) = drop ?w (lv_before ?v)"
    using w(2) vp(4) by (simp add: lv_text_def)
  moreover have "take ?w (lv_text ?v) = take ?w (lv_before ?v)" using w(2) vp(4) by (simp add: lv_text_def)
  ultimately have "acts e (key_apply cpl KCutWordLeft) (editor_cut_range e ?w (ed_cursor e))"
    using view_text(2) [OF ok]
    by (intro acts_cong [OF cut_acts [OF ok w(2) c(1)]]) (simp flip: w(1))
  moreover have "editor_delete_previous_word e = editor_cut_range e ?w (ed_cursor e)"
    using w(2) by (simp add: editor_delete_previous_word_def editor_cut_range_def)
  ultimately show ?thesis by simp
qed

lemma cut_word_right_acts:
  assumes ok: "editor_ok e"
  shows "acts e (key_apply cpl KCutWordRight) (editor_delete_next_word e)"
proof -
  let ?v = "edit_view e" and ?n = "ed_line_length e" and ?c = "ed_cursor e"
  define w where "w = scan_right (\<lambda>b. \<not> c_isspace b) (ed_line e) ?n (scan_right c_isspace (ed_line e) ?n ?c)"
  define rest where "rest = dropWhile (\<lambda>b. \<not> c_isspace b) (dropWhile c_isspace (lv_after ?v))"
  note vp = view_parts [OF editor_ok_line [OF ok]]
  have c: "?c \<le> ?n" "?n \<le> length (ed_line e)" using ok by (auto simp: editor_ok_defs)
  have w: "w = ?n - length rest" using scan_right_twice [OF c] vp(2) by (simp add: w_def rest_def)
  have bounds: "?c \<le> w" "w \<le> ?n" unfolding w_def by (meson scan_right_bounds c(1) order.trans)+
  have rest: "rest = drop (length (lv_after ?v) - length rest) (lv_after ?v)" unfolding rest_def by (rule dropWhile_twice)
  have d: "w - ?c = length (lv_after ?v) - length rest" using w view_text(4) [OF ok] bounds by simp
  have "drop w (lv_text ?v) = drop (w - ?c) (lv_after ?v)" using bounds vp(4) by (simp add: lv_text_def)
  also have "\<dots> = rest" unfolding d by (rule rest [symmetric])
  finally have "acts e (key_apply cpl KCutWordRight) (editor_cut_range e ?c w)"
    using view_text(1,2) [OF ok] d
    by (intro acts_cong [OF cut_acts [OF ok bounds]]) (simp add: rest_def [symmetric] Let_def)
  moreover have "editor_delete_next_word e = editor_cut_range e ?c w"
    using bounds by (simp add: editor_delete_next_word_def w_def [symmetric] editor_cut_range_def)
  ultimately show ?thesis by simp
qed

subsection \<open>Moving\<close>

lemma lv_move_same: "editor_ok e \<Longrightarrow> lv_move (ed_cursor e) (edit_view e) = edit_view e"
  using view_text [of e] by (simp add: lv_move_def)

lemma move_left_acts:
  assumes ok: "editor_ok e"
  shows "acts e (key_apply cpl (KLeft word)) (editor_move_left e word)"
proof -
  let ?c = "if word then word_left (ed_line e) (ed_cursor e) else ed_cursor e - 1"
  note vp = view_parts [OF editor_ok_line [OF ok]]
  have c: "ed_cursor e \<le> ed_line_length e" "ed_cursor e \<le> length (ed_line e)" using ok by (auto simp: editor_ok_defs)
  have le: "?c \<le> ed_cursor e" using word_left_le by simp
  then have c': "?c \<le> ed_line_length e" using c(1) by (rule order.trans)
  have "key_apply cpl (KLeft word) (edit_view e) = lv_move ?c (edit_view e)"
    using vp(1,4) word_left_eq [OF c(2)] by simp
  then have a: "acts e (key_apply cpl (KLeft word)) (e\<lparr>ed_cursor := ?c\<rparr>)"
    by (intro acts_cong [OF cursor_acts [OF ok c']]) (rule sym)
  have "silent (editor_move_left e word) = silent (e\<lparr>ed_cursor := ?c\<rparr>)"
  proof (cases "ed_cursor e = 0")
    case True
    then have "e\<lparr>ed_cursor := ?c\<rparr> = e" using le by simp
    then show ?thesis using True by (simp add: editor_move_left_def)
  qed (simp add: editor_move_left_def Let_def)
  then show ?thesis using a by (rule acts_silent)
qed

lemma move_right_acts:
  assumes ok: "editor_ok e"
  shows "acts e (key_apply cpl (KRight word)) (editor_move_right e word)"
proof (cases "ed_cursor e < ed_line_length e")
  case True
  let ?w = "scan_right c_isspace (ed_line e) (ed_line_length e)
      (scan_right (\<lambda>b. \<not> c_isspace b) (ed_line e) (ed_line_length e) (ed_cursor e))"
  let ?c = "if word then ?w else ed_cursor e + 1"
  note vp = view_parts [OF editor_ok_line [OF ok]]
  have c: "ed_cursor e \<le> ed_line_length e" "ed_line_length e \<le> length (ed_line e)" using ok by (auto simp: editor_ok_defs)
  have "?w \<le> ed_line_length e" by (meson scan_right_bounds c(1) order.trans)
  then have c': "?c \<le> ed_line_length e" using True by simp
  have "key_apply cpl (KRight word) (edit_view e) = lv_move ?c (edit_view e)"
    using vp(2,4,6) scan_right_twice [OF c] by simp
  then have a: "acts e (key_apply cpl (KRight word)) (e\<lparr>ed_cursor := ?c\<rparr>)"
    by (intro acts_cong [OF cursor_acts [OF ok c']]) (rule sym)
  have "silent (editor_move_right e word) = silent (e\<lparr>ed_cursor := ?c\<rparr>)"
    using True by (simp add: editor_move_right_def Let_def)
  then show ?thesis using a by (rule acts_silent)
next
  case False
  then have "lv_after (edit_view e) = []" using view_text(4) [OF ok] ok by (simp add: editor_ok_defs)
  then have "key_apply cpl (KRight word) (edit_view e) = edit_view e" by (simp add: lv_move_def lv_text_def)
  then show ?thesis using False by (intro acts_idle [OF ok]) (simp_all add: editor_move_right_def)
qed

lemma home_acts: "editor_ok e \<Longrightarrow> acts e (key_apply cpl KHome) (move_to 0 e)"
  unfolding move_to_def by (rule acts_redraw, rule acts_cong, rule cursor_acts [of e 0]) simp_all

lemma end_acts: "editor_ok e \<Longrightarrow> acts e (key_apply cpl KEnd) (move_to (ed_line_length e) e)"
  unfolding move_to_def
  by (rule acts_redraw, rule acts_cong, rule cursor_acts [of e "ed_line_length e"])
    (simp_all add: view_parts(6) editor_ok_line)

subsection \<open>History\<close>

lemma set_line_acts:
  assumes ok: "editor_ok e" and n: "n < LINE_MAX" "n \<le> length x"
  shows "acts e (lv_show (take n x)) (snd (bvstk_line_editor_set_line e (Some x) n))"
proof -
  define l where "l = (if n \<noteq> 0 then store_at 0 x n (ed_line e) else ed_line e)"
  have l: "length l = LINE_MAX" "take n l = take n x" using ok n by (auto simp: l_def editor_ok_defs store_at_eq)
  have "acts e (lv_show (take n x)) (put_line l n n e)"
    using put_line_ok [OF ok l(1) n(1) order.refl] put_line_view [OF l(1) n(1) order.refl l(2), of "[]" e] l(2)
    by (simp add: acts_def lv_show_def)
  then show ?thesis using n
    by (simp add: bvstk_line_editor_set_line_def bvstk_line_editor_set_state_def put_line_def l_def)
qed

lemma cstr_of_take: "take (length (cstr_of h)) h = cstr_of h"
  unfolding cstr_of_def by (rule takeWhile_eq_take [symmetric])

lemma cstr_of_less: "0 \<in> set h \<Longrightarrow> length (cstr_of h) < length h"
  by (induction h) (auto simp: cstr_of_def)

lemma cstr_of_le: "length (cstr_of h) \<le> length h"
  by (simp add: cstr_of_def length_takeWhile_le)

lemma history_entry:
  assumes "history_ok e" and "i < ed_history_count e"
  shows "length (cstr_of (ed_history e ! i)) < LINE_MAX" and "lv_history (edit_view e) ! i = cstr_of (ed_history e ! i)"
    and "length (lv_history (edit_view e)) = ed_history_count e"
proof -
  have i: "i < length (ed_history e)" using assms by (simp add: history_ok_def)
  have "length (ed_history e ! i) = LINE_MAX" using assms i by (auto simp: history_ok_def list_all_length)
  moreover have "0 \<in> set (ed_history e ! i)" using assms i by (auto simp: history_ok_def list_all_length)
  ultimately show "length (cstr_of (ed_history e ! i)) < LINE_MAX" using cstr_of_less by metis
qed (use assms in \<open>auto simp: edit_view_def history_ok_def\<close>)

lemma history_show_acts:
  assumes ok: "editor_ok e" and p: "0 \<le> ed_history_position e"
  shows "acts e (\<lambda>v. lv_show (lv_history v ! the (lv_at v)) v) (history_show e)"
proof -
  have i: "nat (ed_history_position e) < ed_history_count e" and h: "history_ok e"
    using ok p by (auto simp: editor_ok_defs)
  note he = history_entry [OF h i]
  have at: "lv_at (edit_view e) = Some (nat (ed_history_position e))" using p by (simp add: edit_view_def)
  show ?thesis unfolding history_show_def Let_def
    by (rule acts_cong [OF set_line_acts [OF ok he(1) cstr_of_le]]) (simp add: at he(2) cstr_of_take)
qed

lemma position_acts:
  assumes "editor_ok e" and "0 \<le> p" and "p < int (ed_history_count e)"
  shows "acts e (lv_at_update (\<lambda>_. Some (nat p))) (e\<lparr>ed_history_position := p\<rparr>)"
  using assms by (simp add: acts_def editor_ok_defs edit_view_def key_state_def ed_text_def)

lemma scratch_acts:
  assumes ok: "editor_ok e"
  shows "acts e (\<lambda>v. v\<lparr>lv_saved := lv_text v\<rparr>)
    (e\<lparr>ed_history_scratch := store_at 0 (ed_line e) (ed_line_length e + 1) (ed_history_scratch e),
       ed_history_scratch_length := ed_line_length e\<rparr>)"
  using ok view_parts(3) [OF editor_ok_line [OF ok]]
  by (simp add: acts_def editor_ok_defs edit_view_def key_state_def ed_text_def store_at_eq)

lemma view_at: "lv_at (edit_view e) = (if ed_history_position e < 0 then None else Some (nat (ed_history_position e)))"
  by (simp add: edit_view_def)

lemma length_view_history: "editor_ok e \<Longrightarrow> length (lv_history (edit_view e)) = ed_history_count e"
  by (simp add: edit_view_def editor_ok_defs)

lemma history_goto_acts:
  assumes "editor_ok e" and "0 \<le> p" and "p < int (ed_history_count e)"
  shows "acts e (\<lambda>v. lv_show (lv_history v ! nat p) (v\<lparr>lv_at := Some (nat p)\<rparr>))
    (bvstk_line_editor_redraw (history_show (e\<lparr>ed_history_position := p\<rparr>)))"
proof -
  note a = position_acts [OF assms]
  have "acts (e\<lparr>ed_history_position := p\<rparr>) (\<lambda>v. lv_show (lv_history v ! the (lv_at v)) v)
      (history_show (e\<lparr>ed_history_position := p\<rparr>))"
    using assms(2) by (intro history_show_acts [OF acts_ok [OF a]]) simp
  from acts_redraw [OF acts_trans [OF a this]] show ?thesis by simp
qed

lemma history_up_acts:
  assumes ok: "editor_ok e"
  shows "acts e (key_apply cpl KUp) (editor_history_up e)"
proof -
  let ?p = "ed_history_position e" and ?n = "ed_history_count e"
  have pn: "?p < int ?n" using ok by (simp add: editor_ok_defs)
  consider "?n = 0" | "?n \<noteq> 0" "?p < 0" | "?n \<noteq> 0" "?p > 0" | "?n \<noteq> 0" "?p = 0" by linarith
  then show ?thesis
  proof cases
    case 1
    then have "lv_history (edit_view e) = []" using length_view_history [OF ok] by simp
    with 1 pn show ?thesis by (intro acts_idle [OF ok]) (simp_all add: editor_history_up_def view_at)
  next
    case 2
    note a = scratch_acts [OF ok]
    let ?e = "e\<lparr>ed_history_scratch := store_at 0 (ed_line e) (ed_line_length e + 1) (ed_history_scratch e),
       ed_history_scratch_length := ed_line_length e\<rparr>"
    have h: "lv_history (edit_view e) \<noteq> []" using 2 length_view_history [OF ok] by auto
    have "acts ?e (\<lambda>v. lv_show (lv_history v ! nat (int ?n - 1)) (v\<lparr>lv_at := Some (nat (int ?n - 1))\<rparr>))
        (bvstk_line_editor_redraw (history_show (?e\<lparr>ed_history_position := int ?n - 1\<rparr>)))"
      using 2(1) by (intro history_goto_acts [OF acts_ok [OF a]]) simp_all
    from acts_trans [OF a this] show ?thesis
      using 2 h length_view_history [OF ok]
      by (simp add: acts_def editor_history_up_def view_at last_conv_nth nat_diff_distrib)
  next
    case 3
    from history_goto_acts [OF ok, of "?p - 1"] 3 pn show ?thesis
      by (simp add: acts_def editor_history_up_def view_at nat_diff_distrib)
  next
    case 4
    then show ?thesis by (intro acts_idle [OF ok]) (simp_all add: editor_history_up_def view_at)
  qed
qed

lemma history_down_acts:
  assumes ok: "editor_ok e"
  shows "acts e (key_apply cpl KDown) (editor_history_down e)"
proof -
  let ?p = "ed_history_position e" and ?n = "ed_history_count e"
  have pn: "?p < int ?n" using ok by (simp add: editor_ok_defs)
  consider "?p < 0" | "?p \<ge> 0" "nat (?p + 1) < ?n" | "?p \<ge> 0" "\<not> nat (?p + 1) < ?n" by linarith
  then show ?thesis
  proof cases
    case 1
    then show ?thesis by (intro acts_idle [OF ok]) (simp_all add: editor_history_down_def view_at)
  next
    case 2
    then have "?p + 1 < int ?n" by linarith
    then show ?thesis using history_goto_acts [OF ok, of "?p + 1"] 2 length_view_history [OF ok]
      by (simp add: acts_def editor_history_down_def view_at nat_add_distrib)
  next
    case 3
    let ?e = "bvstk_line_editor_mark_edited e"
    have "acts ?e (lv_show (take (ed_history_scratch_length e) (ed_history_scratch e)))
        (snd (bvstk_line_editor_set_line ?e (Some (ed_history_scratch e)) (ed_history_scratch_length e)))"
      using ok by (intro set_line_acts mark_edited_view(1) ok) (auto simp: editor_ok_defs)
    from acts_redraw [OF this] show ?thesis
      using 3 length_view_history [OF ok] mark_edited_view [of e]
      by (simp add: acts_def editor_history_down_def view_at bvstk_line_editor_mark_edited_def nat_add_distrib)
        (simp add: edit_view_def)
  qed
qed

lemma cstr_of_nul: "cstr_of (t @ 0 # r) = cstr_of t"
  by (induction t) (simp_all add: cstr_of_def)

lemma cstr_of_clean: "0 \<notin> set t \<Longrightarrow> cstr_of t = t"
  by (induction t) (auto simp: cstr_of_def)

lemma history_shift_upto:
  assumes "list_all (\<lambda>x. length x = LINE_MAX) h" and "k < length h"
  shows "fold (\<lambda>i h. h[i - 1 := memcpy (h ! (i - 1)) (h ! i) LINE_MAX]) [1..<Suc k] h = take k (tl h) @ drop k h"
  using assms(2)
proof (induction k)
  case (Suc k)
  let ?h = "take k (tl h) @ drop k h"
  have nth: "?h ! k = h ! k" "?h ! Suc k = h ! Suc k" using Suc.prems by (auto simp: nth_append)
  have len: "length (h ! k) = LINE_MAX" "length (h ! Suc k) = LINE_MAX"
    using assms(1) Suc.prems by (auto simp: list_all_length)
  have "fold (\<lambda>i h. h[i - 1 := memcpy (h ! (i - 1)) (h ! i) LINE_MAX]) [1..<Suc (Suc k)] h
      = ?h[k := h ! Suc k]"
    using Suc nth len by (simp add: memcpy_def)
  also have "\<dots> = take k (tl h) @ h ! Suc k # drop (Suc k) h"
    using Suc.prems by (simp add: list_update_append Cons_nth_drop_Suc [symmetric])
  also have "\<dots> = take (Suc k) (tl h) @ drop (Suc k) h"
    using Suc.prems by (simp add: take_Suc_conv_app_nth nth_tl)
  finally show ?case .
qed (cases h, simp_all)

lemma history_shift_eq:
  assumes "list_all (\<lambda>x. length x = LINE_MAX) h" and "length h = HISTORY_MAX"
  shows "take (HISTORY_MAX - 1) (history_shift h) = tl h" and "length (history_shift h) = HISTORY_MAX"
    and "list_all (\<lambda>x. length x = LINE_MAX) (history_shift h)"
proof -
  have eq: "history_shift h = tl h @ drop 15 h"
    unfolding history_shift_def using history_shift_upto [OF assms(1), of 15] assms(2) by simp
  then show "take (HISTORY_MAX - 1) (history_shift h) = tl h" "length (history_shift h) = HISTORY_MAX"
    using assms(2) by simp_all
  have "set (history_shift h) \<subseteq> set h" unfolding eq using set_drop_subset [of 15 h] list.set_sel(2) [of h]
    by (cases h) auto
  then show "list_all (\<lambda>x. length x = LINE_MAX) (history_shift h)" using assms(1) by (auto simp: list_all_iff)
qed

text \<open>The history as \<open>editor_add_history\<close> leaves it: the slot it stores the line in, after the
  shift when the history is full.\<close>

lemma add_history_eq:
  assumes ok: "editor_ok e" and new: "\<not> (ed_line_length e = 0 \<or> ed_history_count e \<noteq> 0 \<and>
      cstr_of (ed_history e ! (ed_history_count e - 1)) = cstr_of (ed_line e))"
  obtains h n x where "editor_add_history e = e\<lparr>ed_history := h[n := x], ed_history_count := n + 1\<rparr>"
    and "length h = HISTORY_MAX" and "list_all (\<lambda>x. length x = LINE_MAX) h" and "n < HISTORY_MAX"
    and "length x = LINE_MAX" and "0 \<in> set x" and "cstr_of x = cstr_of (ed_line e)"
    and "take n h = (if ed_history_count e = HISTORY_MAX then tl (ed_history e) else take (ed_history_count e) (ed_history e))"
proof -
  define h where "h = (if ed_history_count e = HISTORY_MAX then history_shift (ed_history e) else ed_history e)"
  define n where "n = (if ed_history_count e = HISTORY_MAX then ed_history_count e - 1 else ed_history_count e)"
  let ?x = "store_at 0 (ed_line e) (ed_line_length e + 1) (h ! n)"
  have H: "length (ed_history e) = HISTORY_MAX" "list_all (\<lambda>x. length x = LINE_MAX) (ed_history e)"
      "ed_history_count e \<le> HISTORY_MAX" and L: "length (ed_line e) = LINE_MAX" "ed_line_length e < LINE_MAX"
      "ed_line e ! ed_line_length e = 0" using ok by (auto simp: editor_ok_defs)
  have h: "length h = HISTORY_MAX" "list_all (\<lambda>x. length x = LINE_MAX) h"
    using H history_shift_eq [OF H(2,1)] by (auto simp: h_def)
  have n: "n < HISTORY_MAX" using H(3) by (auto simp: n_def)
  have hn: "length (h ! n) = LINE_MAX" using h n by (auto simp: list_all_length)
  have x: "?x = take (ed_line_length e) (ed_line e) @ 0 # drop (ed_line_length e + 1) (h ! n)"
    using L by (simp add: store_at_eq take_Suc_conv_app_nth)
  have line: "ed_line e = take (ed_line_length e) (ed_line e) @ 0 # drop (ed_line_length e + 1) (ed_line e)"
    using L by (metis Suc_eq_plus1 id_take_nth_drop)
  have "cstr_of ?x = cstr_of (ed_line e)" unfolding x cstr_of_nul by (metis line cstr_of_nul)
  moreover have "take n h = (if ed_history_count e = HISTORY_MAX then tl (ed_history e) else take (ed_history_count e) (ed_history e))"
    using history_shift_eq(1) [OF H(2,1)] by (simp add: h_def n_def)
  moreover have "editor_add_history e = e\<lparr>ed_history := h[n := ?x], ed_history_count := n + 1\<rparr>"
    unfolding editor_add_history_def if_not_P [OF new] Let_def h_def n_def ..
  moreover have "length ?x = LINE_MAX" "0 \<in> set ?x" using hn L x by auto
  ultimately show thesis using that [of n h ?x] h n by blast
qed

lemma add_history_ok:
  assumes ok: "editor_ok e"
  shows "editor_ok ((editor_add_history e)\<lparr>ed_history_position := -1\<rparr>)"
proof (cases "ed_line_length e = 0 \<or> ed_history_count e \<noteq> 0 \<and>
      cstr_of (ed_history e ! (ed_history_count e - 1)) = cstr_of (ed_line e)")
  case True
  then show ?thesis using ok by (simp add: editor_add_history_def editor_ok_defs)
next
  case False
  show ?thesis
  proof (rule add_history_eq [OF ok False])
    fix h n x
    assume a: "editor_add_history e = e\<lparr>ed_history := h[n := x], ed_history_count := n + 1\<rparr>"
      and h: "length h = HISTORY_MAX" "list_all (\<lambda>x. length x = LINE_MAX) h" "n < HISTORY_MAX"
      and x: "length x = LINE_MAX" "0 \<in> set x"
      and t: "take n h = (if ed_history_count e = HISTORY_MAX then tl (ed_history e) else take (ed_history_count e) (ed_history e))"
    have full: "length (ed_history e) = HISTORY_MAX" using ok by (simp add: editor_ok_defs)
    have "list_all (\<lambda>h. 0 \<in> set h) (take n h)" using ok full unfolding t
      by (auto simp: editor_ok_defs list_all_iff dest: list.set_sel(2) [rotated] split: if_splits)
    then have "list_all (\<lambda>h. 0 \<in> set h) (take (n + 1) (h[n := x]))"
      using h x by (simp add: take_Suc_conv_app_nth)
    then show ?thesis using ok a h x by (simp add: editor_ok_defs list_all_update)
  qed
qed

lemma add_history_view:
  assumes ok: "editor_ok e" and clean: "0 \<notin> set (lv_text (edit_view e))"
  shows "edit_view (editor_add_history e) =
    (edit_view e)\<lparr>lv_history := lv_remember (lv_text (edit_view e)) (lv_history (edit_view e))\<rparr>"
proof -
  let ?v = "edit_view e"
  note vp = view_parts [OF editor_ok_line [OF ok]]
  have L: "length (ed_line e) = LINE_MAX" "ed_line_length e < LINE_MAX" "ed_line e ! ed_line_length e = 0"
    using ok by (auto simp: editor_ok_defs)
  have line: "ed_line e = lv_text ?v @ 0 # drop (ed_line_length e + 1) (ed_line e)"
    using L vp(3) by (metis Suc_eq_plus1 id_take_nth_drop)
  have t: "cstr_of (ed_line e) = lv_text ?v" by (metis line cstr_of_nul cstr_of_clean [OF clean])
  have hist: "lv_history ?v = map cstr_of (take (ed_history_count e) (ed_history e))"
    and hc: "length (lv_history ?v) = ed_history_count e" using length_view_history [OF ok] by (simp_all add: edit_view_def)
  have hne: "lv_history ?v = [] \<longleftrightarrow> ed_history_count e = 0" using hc by auto
  have lst: "ed_history_count e \<noteq> 0 \<Longrightarrow> List.last (lv_history ?v) = cstr_of (ed_history e ! (ed_history_count e - 1))"
    using history_entry(2) [of e "ed_history_count e - 1"] ok hc
    by (cases "lv_history ?v = []") (simp_all add: last_conv_nth editor_ok_def)
  show ?thesis
  proof (cases "ed_line_length e = 0 \<or> ed_history_count e \<noteq> 0 \<and>
      cstr_of (ed_history e ! (ed_history_count e - 1)) = cstr_of (ed_line e)")
    case True
    then have "lv_text ?v = [] \<or> lv_history ?v \<noteq> [] \<and> List.last (lv_history ?v) = lv_text ?v"
      unfolding hne using vp(6) lst t by auto
    then show ?thesis using True by (simp add: editor_add_history_def lv_remember_def)
  next
    case False
    then have new: "\<not> (lv_text ?v = [] \<or> lv_history ?v \<noteq> [] \<and> List.last (lv_history ?v) = lv_text ?v)"
      unfolding hne using vp(6) lst t by auto
    show ?thesis
    proof (rule add_history_eq [OF ok False])
      fix h n x
      assume a: "editor_add_history e = e\<lparr>ed_history := h[n := x], ed_history_count := n + 1\<rparr>"
        and h: "length h = HISTORY_MAX" "n < HISTORY_MAX" and x: "cstr_of x = cstr_of (ed_line e)"
        and th: "take n h = (if ed_history_count e = HISTORY_MAX then tl (ed_history e) else take (ed_history_count e) (ed_history e))"
      have "map cstr_of (take (n + 1) (h[n := x])) = map cstr_of (take n h) @ [lv_text ?v]"
        using h x t by (simp add: take_Suc_conv_app_nth)
      also have "map cstr_of (take n h) = (if length (lv_history ?v) = HISTORY_MAX then tl (lv_history ?v) else lv_history ?v)"
        using ok by (simp add: th hist map_tl editor_ok_defs)
      finally have "map cstr_of (take (n + 1) (h[n := x])) = lv_remember (lv_text ?v) (lv_history ?v)"
        unfolding lv_remember_def if_not_P [OF new] .
      then show ?thesis unfolding a by (simp add: edit_view_def ed_text_def)
    qed
  qed
qed

subsection \<open>Completion\<close>

lemma replaced_line:
  assumes l: "length p = LINE_MAX" and s: "s \<le> k" "k + m < LINE_MAX" "s + n + m < LINE_MAX" "n \<le> length r"
  defines "q \<equiv> store_at s r n (line_move (s + n) k m p)"
  shows "length q = LINE_MAX" and "take (s + n) q = take s p @ take n r"
    and "take m (drop (s + n) q) = take m (drop k p)"
proof -
  let ?p = "line_move (s + n) k m p"
  have p: "length ?p = LINE_MAX" "take s ?p = take s p" "take m (drop (s + n) ?p) = take m (drop k p)"
    using l s by (simp_all add: line_move_def take_store_before take_drop_store)
  show "length q = LINE_MAX" using p s by (simp add: q_def)
  show "take (s + n) q = take s p @ take n r" using p s by (simp add: q_def take_store_at)
  show "take m (drop (s + n) q) = take m (drop k p)" using p s by (simp add: q_def drop_store_after)
qed

lemma replace_acts:
  assumes ok: "editor_ok e" and s: "start + pre = ed_cursor e" and n: "n \<le> length r"
  shows "acts e (lv_replace start (take n r @ (if sp \<and> n \<noteq> 0 \<and> r ! (n - 1) \<noteq> ch CHR ''/'' then [0x20] else [])))
    (snd (bvstk_line_editor_replace e start pre (Some r) n sp))"
proof -
  let ?sp = "sp \<and> n \<noteq> 0 \<and> r ! (n - 1) \<noteq> ch CHR ''/''"
  let ?r = "take n r @ (if ?sp then [0x20] else [])"
  define k m where "k = ed_cursor e" and "m = ed_line_length e - ed_cursor e"
  have len: "ed_line_length e = k + m" using ok by (simp add: editor_ok_defs k_def m_def)
  have lens: "length (ed_line e) = LINE_MAX" "k + m < LINE_MAX" using ok len by (auto simp: editor_ok_defs)
  note vp = view_parts [OF editor_ok_line [OF ok], folded k_def, unfolded len]
  have sk: "start \<le> k" using s by (simp add: k_def)
  have guard: "\<not> (start > ed_cursor e \<or> pre \<noteq> ed_cursor e - start)" using s by simp
  have size: "start + length ?r + length (lv_after (edit_view e)) = start + n + m + (if ?sp then 1 else 0)"
    using n vp(5) by simp
  show ?thesis
  proof (cases "start + n + m + (if ?sp then 1 else 0) \<ge> LINE_MAX")
    case True
    then have "lv_replace start ?r (edit_view e) = edit_view e" unfolding lv_replace_def size by simp
    then show ?thesis using True guard
      by (intro acts_idle [OF ok]) (simp_all add: bvstk_line_editor_replace_def Let_def len k_def [symmetric])
  next
    case False
    then have fit: "start + n + m < LINE_MAX" by simp
    define q where "q = store_at start r n (line_move (start + n) k m (ed_line e))"
    note q = replaced_line [OF lens(1) sk lens(2) fit n, folded q_def]
    define l where "l = (if ?sp then (line_move (start + n + 1) (start + n) m q)[start + n := 0x20] else q)"
    let ?n = "start + n + m + (if ?sp then 1 else 0)" and ?c = "start + n + (if ?sp then 1 else 0)"
    have spl: "?sp \<Longrightarrow> l = take (start + n) q @ [0x20] @ take m (drop (start + n) q) @ drop (start + n + m + 1) q"
      unfolding l_def using open_gap [of "start + n" m q "0x20"] fit q(1) by simp
    have tk: "take ?c l = take start (ed_line e) @ ?r" "length l = LINE_MAX"
      and tn: "take ?n l = (take start (ed_line e) @ ?r) @ take m (drop k (ed_line e))"
    proof -
      have q2: "length (take start (ed_line e) @ take n r) = start + n" using q(1,2) fit by (metis length_take min.absorb2 order.strict_implies_order add_lessD1)
      show "length l = LINE_MAX" using False q(1) spl by (cases ?sp) (auto simp: l_def)
      show "take ?c l = take start (ed_line e) @ ?r" using False q spl q2 by (cases ?sp) (auto simp: l_def)
      show "take ?n l = (take start (ed_line e) @ ?r) @ take m (drop k (ed_line e))"
        using False q spl q2 lens take_add [of "start + n" m q] by (cases ?sp) (auto simp: l_def)
    qed
    have "acts e (lv_edit (take start (ed_line e) @ ?r) (take m (drop k (ed_line e))))
        (bvstk_line_editor_mark_edited (put_line l ?n ?c e))"
      by (rule edited_acts [OF ok tk(2) _ _ tk(1) tn]) (use False in auto)
    then have "acts e (lv_replace start ?r) (bvstk_line_editor_mark_edited (put_line l ?n ?c e))"
      by (rule acts_cong) (use False vp sk size in \<open>simp add: lv_replace_def min_def\<close>)
    moreover have "snd (bvstk_line_editor_replace e start pre (Some r) n sp) =
        bvstk_line_editor_redraw (bvstk_line_editor_mark_edited (put_line l ?n ?c e))"
      unfolding bvstk_line_editor_replace_def Let_def option.case if_not_P [OF guard] m_def [symmetric]
        if_not_P [OF False] snd_conv put_line_def l_def q_def k_def
      by (cases ?sp) (simp_all only: if_True if_False simp_thms add_0_right)
    ultimately show ?thesis by (simp only: acts_redraw)
  qed
qed

lemma prefix_scan_le: "c \<le> n \<Longrightarrow> prefix_scan a b n c \<le> n"
proof (induction a b n c rule: prefix_scan.induct)
  case (1 a b n c)
  then show ?case by (subst prefix_scan.simps) auto
qed

lemma common_prefix_le: "common_prefix_length co \<le> length (cstr_of (co_candidates co ! 0))"
proof -
  have "common_prefix_loop a bs n \<le> n" for a bs n
  proof (induction bs arbitrary: n)
    case (Cons b bs)
    have "prefix_scan a b n 0 \<le> n" by (rule prefix_scan_le) simp
    then show ?case using Cons.IH [of "prefix_scan a b n 0"] by (auto simp: Let_def)
  qed simp
  then show ?thesis by (simp add: common_prefix_length_def Let_def)
qed

lemma last_cstr_of:
  assumes "cstr_of a \<noteq> []"
  shows "a ! (length (cstr_of a) - 1) = List.last (cstr_of a)"
  using assms unfolding cstr_of_def
  by (metis diff_less last_conv_nth length_greater_0_conv takeWhile_nth zero_less_one)

lemma matches_acts:
  assumes ok: "editor_ok e"
  shows "acts e (\<lambda>v. lv_complete (\<lambda>t c. (1, co)) v) (complete_matches co e)"
proof -
  let ?a = "co_candidates co ! 0" and ?s = "co_token_start co" and ?p = "co_token_prefix_length co"
  let ?n = "co_match_count co" and ?m = "common_prefix_length co"
  let ?v = "edit_view e"
  have c: "length (lv_before ?v) = ed_cursor e" using view_parts(4) [OF editor_ok_line [OF ok]] .
  have fits: "?s + ?p \<noteq> ed_cursor e \<longleftrightarrow> ?s > ed_cursor e \<or> ?p \<noteq> ed_cursor e - ?s" by auto
  consider "?n = 0 \<or> ?n > COMPLETION_MAX_MATCHES \<or> ?s + ?p \<noteq> ed_cursor e"
    | "?n = 1" "?s + ?p = ed_cursor e"
    | "?n \<noteq> 0" "\<not> ?n > COMPLETION_MAX_MATCHES" "?n \<noteq> 1" "?s + ?p = ed_cursor e" by linarith
  then show ?thesis
  proof cases
    case 1
    then have "complete_matches co e = bvstk_line_editor_beep e" by (auto simp: complete_matches_def)
    moreover have "lv_complete (\<lambda>t c. (1, co)) ?v = ?v" using 1 by (auto simp: lv_complete_def c)
    ultimately show ?thesis by (intro acts_idle [OF ok]) simp_all
  next
    case 2
    have w: "with_space (cstr_of ?a) = take (length (cstr_of ?a)) ?a @
        (if True \<and> length (cstr_of ?a) \<noteq> 0 \<and> ?a ! (length (cstr_of ?a) - 1) \<noteq> ch CHR ''/'' then [0x20] else [])"
      using last_cstr_of [of ?a] by (auto simp: with_space_def cstr_of_take)
    have "acts e (lv_replace ?s (with_space (cstr_of ?a)))
        (snd (bvstk_line_editor_replace e ?s ?p (Some ?a) (length (cstr_of ?a)) True))"
      unfolding w by (rule replace_acts [OF ok 2(2) cstr_of_le])
    then have "acts e (lv_complete (\<lambda>t c. (1, co))) (snd (bvstk_line_editor_replace e ?s ?p (Some ?a) (length (cstr_of ?a)) True))"
      by (rule acts_cong) (simp add: lv_complete_def c 2)
    moreover have "complete_matches co e = snd (bvstk_line_editor_replace e ?s ?p (Some ?a) (length (cstr_of ?a)) True)"
      using 2 by (auto simp: complete_matches_def Let_def)
    ultimately show ?thesis by simp
  next
    case 3
    let ?e = "if ?m > ?p then snd (bvstk_line_editor_replace e ?s ?p (Some ?a) ?m False) else e"
    have "acts e (\<lambda>v. if ?m > ?p then lv_replace ?s (take ?m ?a) v else v) ?e"
      using replace_acts [OF ok 3(4), of ?m ?a False] common_prefix_le [of co] cstr_of_le [of ?a] ok
      by (auto simp: acts_def)
    moreover have "take ?m ?a = take ?m (cstr_of ?a)" using common_prefix_le [of co]
      by (subst cstr_of_take [of ?a, symmetric]) (simp add: min_def)
    ultimately have "acts e (lv_complete (\<lambda>t c. (1, co))) ?e"
      by (elim acts_cong) (use 3 in \<open>simp add: lv_complete_def c\<close>)
    moreover have "silent (complete_matches co e) = silent ?e" using 3 fits
      by (simp add: complete_matches_def Let_def)
    ultimately show ?thesis by (rule acts_silent [rotated])
  qed
qed

lemma complete_acts:
  assumes ok: "editor_ok e" and cfg: "ec_tab (ed_config e) = None" "ec_complete (ed_config e) = Some (\<lambda>_. cpl)"
  shows "acts e (key_apply cpl KTab) (editor_complete e)"
proof -
  obtain r co where r: "cpl (ed_text e) (ed_cursor e) = (r, co)" by fastforce
  note vp = view_parts [OF editor_ok_line [OF ok]]
  have t: "cpl (lv_text (edit_view e)) (length (lv_before (edit_view e))) = (r, co)" using r vp by (simp add: ed_text_def)
  let ?e = "ed_say (EdComplete (ed_text e) (ed_cursor e)) e"
  have ok': "editor_ok ?e" and v: "edit_view ?e = edit_view e" "key_state ?e = key_state e" "ed_config ?e = ed_config e"
    using silent_cong [of ?e e] ok by simp_all
  show ?thesis
  proof (cases "r = 0")
    case True
    have "editor_complete e = bvstk_line_editor_beep ?e" using cfg r True by (simp add: editor_complete_def)
    moreover have "lv_complete cpl (edit_view e) = edit_view e" unfolding lv_complete_def t using True by simp
    ultimately show ?thesis by (intro acts_idle [OF ok]) simp_all
  next
    case False
    have "editor_complete e = complete_matches co ?e" using cfg r False by (simp add: editor_complete_def)
    moreover have "lv_complete cpl (edit_view e) = lv_complete (\<lambda>t c. (1, co)) (edit_view e)"
      unfolding lv_complete_def t using False by simp
    ultimately show ?thesis using matches_acts [OF ok', of co] v by (simp add: acts_def)
  qed
qed

subsection \<open>Ending a line\<close>

lemma reset_view:
  assumes "editor_ok (e\<lparr>ed_history_position := -1\<rparr>)"
  shows "editor_ok (bvstk_line_editor_reset e)" and "edit_view (bvstk_line_editor_reset e) = lv_edit [] [] (edit_view e)"
    and "key_state (bvstk_line_editor_reset e) = (ESCAPE_NONE, [])" and "ed_config (bvstk_line_editor_reset e) = ed_config e"
  using assms
  by (simp_all add: bvstk_line_editor_reset_def editor_reset_escape_def editor_ok_defs edit_view_def key_state_def
      ed_text_def lv_edit_def)

lemma add_history_config [simp]: "ed_config (editor_add_history e) = ed_config e"
  by (simp add: editor_add_history_def Let_def)

lemma submit_result:
  assumes ok: "editor_ok e"
  shows "editor_ok (snd (editor_submit e))" and "key_state (snd (editor_submit e)) = (ESCAPE_NONE, [])"
    and "ed_config (snd (editor_submit e)) = ed_config e"
    and "0 \<notin> set (lv_text (edit_view e)) \<Longrightarrow> edit_view (snd (editor_submit e)) = key_apply cpl KSubmit (edit_view e)"
proof -
  let ?w = "snd (bvstk_line_editor_write_text e (Some CRLF))"
  let ?e1 = "editor_add_history ?w"
  have w: "editor_ok ?w" "edit_view ?w = edit_view e" "ed_config ?w = ed_config e"
    using ok silent_cong [OF silent_write_text] by blast+
  obtain e2 where e2: "silent e2 = silent ?e1"
    and sub: "silent (snd (editor_submit e)) = silent (bvstk_line_editor_reset e2)"
  proof (cases "ec_submit (ed_config ?e1)")
    case None
    then show ?thesis using that [of ?e1] by (simp add: editor_submit_def Let_def split: if_splits)
  next
    case (Some submit)
    obtain r p where rp: "submit (ed_out ?e1) (ed_text ?e1) = (r, p)" by fastforce
    then show ?thesis using that [of "ed_say (EdSubmit (ed_text ?e1) r p) ?e1"] Some
      by (simp add: editor_submit_def Let_def)
  qed
  have "editor_ok (?e1\<lparr>ed_history_position := -1\<rparr>)" by (rule add_history_ok [OF w(1)])
  moreover have "silent (e2\<lparr>ed_history_position := -1\<rparr>) = silent (?e1\<lparr>ed_history_position := -1\<rparr>)"
    using e2 by (simp add: silent_update)
  ultimately have ok2: "editor_ok (e2\<lparr>ed_history_position := -1\<rparr>)" using silent_cong(2) by blast
  note r = reset_view [OF ok2] and c = silent_cong [OF sub] and c2 = silent_cong [OF e2]
  show "editor_ok (snd (editor_submit e))" using r c by simp
  show "key_state (snd (editor_submit e)) = (ESCAPE_NONE, [])" using r c by simp
  show "ed_config (snd (editor_submit e)) = ed_config e" using r c c2 w by simp
  show "edit_view (snd (editor_submit e)) = key_apply cpl KSubmit (edit_view e)" if "0 \<notin> set (lv_text (edit_view e))"
    using r c c2 w add_history_view [OF w(1)] that by simp
qed

lemma interrupt_result:
  assumes ok: "editor_ok e"
  defines "e' \<equiv> call_prompt (snd (bvstk_line_editor_write_text (bvstk_line_editor_reset e) (Some INTERRUPT)))"
  shows "editor_ok e'" and "key_state e' = (ESCAPE_NONE, [])" and "ed_config e' = ed_config e"
    and "edit_view e' = key_apply cpl KInterrupt (edit_view e)"
proof -
  have "silent e' = silent (bvstk_line_editor_reset e)" by (simp add: e'_def)
  note c = silent_cong [OF this]
  have "editor_ok (e\<lparr>ed_history_position := -1\<rparr>)" using ok by (simp add: editor_ok_defs)
  note r = reset_view [OF this]
  show "editor_ok e'" "key_state e' = (ESCAPE_NONE, [])" "ed_config e' = ed_config e"
    "edit_view e' = key_apply cpl KInterrupt (edit_view e)" using r c by simp_all
qed

end
