(* ===== verification/Line_Refine.thy ===== *)
theory Line_Refine
  imports Line_View
begin

text \<open>
  The line editor byte by byte: decoding the bytes into keys and acting on the arrays is acting
  on the text of \<open>Line_View\<close>, and no byte and no callback takes the editor out of its buffers.
\<close>

section \<open>Every byte\<close>

definition does :: "(bytes \<Rightarrow> nat \<Rightarrow> int \<times> line_completion) \<Rightarrow> line_editor \<Rightarrow>
    (escape_state \<times> bytes) \<times> edit_key option \<Rightarrow> line_editor \<Rightarrow> bool" where
  "does cpl e qk e' \<longleftrightarrow> editor_ok e' \<and> key_state e' = fst qk \<and> ed_config e' = ed_config e \<and>
    edit_view e' = apply_opt cpl (snd qk) (edit_view e)"

definition completes :: "line_config \<Rightarrow> (bytes \<Rightarrow> nat \<Rightarrow> int \<times> line_completion) \<Rightarrow> bool" where
  "completes cfg cpl \<longleftrightarrow> ec_tab cfg = None \<and> ec_complete cfg = Some (\<lambda>_. cpl)"

lemma does_acts: "acts e (key_apply cpl k) e' \<Longrightarrow> key_state e = q \<Longrightarrow> does cpl e (q, Some k) e'"
  by (simp add: acts_def does_def apply_opt_def)

lemma does_idle: "editor_ok e \<Longrightarrow> silent e' = silent e \<Longrightarrow> key_state e = q \<Longrightarrow> does cpl e (q, None) e'"
  unfolding does_def apply_opt_def using silent_cong [of e' e] by simp

lemma reset_escape_view:
  assumes "editor_ok e"
  shows "editor_ok (editor_reset_escape e)" and "edit_view (editor_reset_escape e) = edit_view e"
    and "key_state (editor_reset_escape e) = (ESCAPE_NONE, [])" and "ed_config (editor_reset_escape e) = ed_config e"
  using assms by (simp_all add: editor_reset_escape_def editor_ok_defs edit_view_def key_state_def ed_text_def)

lemma does_escape: "acts e (apply_opt cpl k) e' \<Longrightarrow> does cpl e ((ESCAPE_NONE, []), k) (editor_reset_escape e')"
  by (simp add: acts_def does_def reset_escape_view)

lemma acts_none: "editor_ok e \<Longrightarrow> silent e' = silent e \<Longrightarrow> acts e (apply_opt cpl None) e'"
  by (rule acts_idle) (simp_all add: apply_opt_def)

lemma acts_some: "acts e (key_apply cpl k) e' \<Longrightarrow> acts e (apply_opt cpl (Some k)) e'"
  by (simp add: acts_def apply_opt_def)

lemmas key_acts = insert_acts delete_acts backspace_acts cut_after_acts cut_before_acts cut_word_left_acts
  cut_word_right_acts paste_acts move_left_acts move_right_acts home_acts end_acts history_up_acts history_down_acts

lemma csi_acts:
  assumes "editor_ok e"
  shows "acts e (apply_opt cpl (csi_key (take (ed_escape_parameter_length e) (ed_escape_parameters e)) c))
    (editor_handle_csi_final e c)"
  unfolding csi_key_def editor_handle_csi_final_def parse_parameter_def Let_def insert_iff empty_iff
  by (auto intro: acts_none acts_some key_acts assms)

lemma ss3_acts:
  assumes "editor_ok e"
  shows "does cpl e ((ESCAPE_NONE, []), ss3_key c) (escape_ss3 e c)"
  unfolding escape_ss3_def ss3_key_def
  by (rule does_escape) (auto intro: acts_none acts_some key_acts assms)

lemma csi_does:
  assumes ok: "editor_ok e" and st: "ed_escape_state e = ESCAPE_CSI"
  shows "does cpl e (next_key (key_state e) c) (escape_csi e c)"
proof (cases "digit c \<or> c = ch CHR '';'' \<or> c = ch CHR ''?''")
  case True
  let ?n = "ed_escape_parameter_length e"
  have n: "?n < length (ed_escape_parameters e)" "length (ed_escape_parameters e) = ESCAPE_PARAMETERS"
    using ok by (auto simp: editor_ok_defs)
  have "take (Suc ?n) ((ed_escape_parameters e)[?n := c, Suc ?n := 0]) = take ?n (ed_escape_parameters e) @ [c]"
    using n by (simp add: take_Suc_conv_app_nth)
  then show ?thesis using True ok n st
    by (auto simp: escape_csi_def key_state_def does_def apply_opt_def editor_ok_defs edit_view_def ed_text_def Let_def)
next
  case False
  then show ?thesis using does_escape [OF csi_acts [OF ok]] by (simp add: escape_csi_def key_state_def st)
qed

lemma started_does:
  assumes ok: "editor_ok e" and st: "key_state e = (ESCAPE_STARTED, [])"
  shows "does cpl e (next_key (key_state e) c) (escape_started e c)"
proof -
  have 0: "take (ed_escape_parameter_length e) (ed_escape_parameters e) = []" "ed_escape_state e = ESCAPE_STARTED"
    using st by (simp_all add: key_state_def)
  have idle: "does cpl e ((ESCAPE_NONE, []), None) (bvstk_line_editor_beep (editor_reset_escape e))"
    using reset_escape_view [OF ok] silent_cong [OF silent_beep [of "editor_reset_escape e"]]
    by (simp add: does_def apply_opt_def)
  consider "c = ch CHR ''[''" | "c = ch CHR ''O''" | "c \<noteq> ch CHR ''[''" "c \<noteq> ch CHR ''O''" by blast
  then show ?thesis
  proof cases
    case 3
    then show ?thesis unfolding st next_key.simps escape_started_def meta_key_def insert_iff empty_iff
      by (auto intro: does_escape acts_some key_acts ok idle)
  qed (use ok 0 in \<open>simp_all add: st escape_started_def does_def apply_opt_def editor_ok_defs edit_view_def ed_text_def
      key_state_def\<close>)
qed

lemma plain_does:
  assumes ok: "editor_ok e" and st: "key_state e = (ESCAPE_NONE, [])"
    and cfg: "completes (ed_config e) cpl" and clean: "0 \<notin> set (lv_text (edit_view e))" and c: "c \<noteq> 0x1B"
  shows "does cpl e ((ESCAPE_NONE, []), plain_key c) (snd (handle_byte e c))"
proof -
  have s: "ed_escape_state e = ESCAPE_NONE" using st by (simp add: key_state_def)
  have sub: "does cpl e ((ESCAPE_NONE, []), Some KSubmit) (snd (editor_submit e))"
    using submit_result(1-3) [OF ok] submit_result(4) [OF ok clean, of cpl] by (simp add: does_def apply_opt_def)
  have intr: "does cpl e ((ESCAPE_NONE, []), Some KInterrupt)
      (call_prompt (snd (bvstk_line_editor_write_text (bvstk_line_editor_reset e) (Some INTERRUPT))))"
    using interrupt_result(1-3) [OF ok] interrupt_result(4) [OF ok, of cpl] by (simp add: does_def apply_opt_def)
  have eof: "does cpl e ((ESCAPE_NONE, []), Some KDelete) e" if "ed_line_length e = 0"
  proof -
    have "lv_after (edit_view e) = []" using view_parts(5) [OF editor_ok_line [OF ok]] that by simp
    then show ?thesis using ok st by (simp add: does_def apply_opt_def)
  qed
  have tab: "acts e (key_apply cpl KTab) (editor_complete e)"
    using complete_acts [OF ok] cfg by (simp add: completes_def)
  have idle: "does cpl e ((ESCAPE_NONE, []), None) e" "does cpl e ((ESCAPE_NONE, []), None) (bvstk_line_editor_redraw e)"
    using does_idle [OF ok _ st] by simp_all
  have ncut: "\<not> c_isprint 0x0C" by (simp add: c_isprint_def)
  show ?thesis
  proof (cases "c = 0x04")
    case True
    then show ?thesis using s eof does_acts [OF delete_acts [OF ok] st]
      by (simp add: handle_byte_def plain_key_def split del: if_split) (simp split: if_split)
  next
    case False
    then show ?thesis unfolding handle_byte_def plain_key_def insert_iff empty_iff
      using c s ncut by (auto intro: sub intr idle does_acts [OF _ st] key_acts tab ok)
  qed
qed

definition key_ok :: "escape_state \<times> bytes \<Rightarrow> bool" where
  "key_ok q \<longleftrightarrow> fst q = ESCAPE_CSI \<or> snd q = []"

lemma key_ok_next: "key_ok (fst (next_key q c))"
  by (cases "(q, c)" rule: next_key.cases) (auto simp: key_ok_def)

lemma handle_byte_does:
  assumes ok: "editor_ok e" and k: "key_ok (key_state e)"
    and cfg: "completes (ed_config e) cpl" and clean: "0 \<notin> set (lv_text (edit_view e))"
  shows "does cpl e (next_key (key_state e) c) (snd (handle_byte e c))"
proof (cases "ed_escape_state e")
  case ESCAPE_NONE
  then have st: "key_state e = (ESCAPE_NONE, [])" using k by (simp add: key_state_def key_ok_def)
  show ?thesis
  proof (cases "c = 0x1B")
    case True
    then show ?thesis using ok ESCAPE_NONE
      by (simp add: st) (simp add: handle_byte_def does_def apply_opt_def editor_ok_defs edit_view_def ed_text_def key_state_def)
  next
    case False
    then show ?thesis using plain_does [OF ok st cfg clean False] by (simp add: st)
  qed
next
  case ESCAPE_STARTED
  then have st: "key_state e = (ESCAPE_STARTED, [])" using k by (simp add: key_state_def key_ok_def)
  show ?thesis using started_does [OF ok st, of cpl c] ESCAPE_STARTED
    by (simp add: handle_byte_def editor_handle_escape_byte_def)
next
  case ESCAPE_CSI
  then show ?thesis using csi_does [OF ok ESCAPE_CSI, of cpl c]
    by (simp add: handle_byte_def editor_handle_escape_byte_def)
next
  case ESCAPE_SS3
  then show ?thesis using ss3_acts [OF ok, of cpl c]
    by (simp add: handle_byte_def editor_handle_escape_byte_def key_state_def)
qed

text \<open>The bytes of the text come from the keys and the completions: when both stay within a set
  \<open>S\<close> of bytes, so do all the lines the editor keeps.\<close>

definition lv_within :: "u8 set \<Rightarrow> line_view \<Rightarrow> bool" where
  "lv_within S v \<longleftrightarrow> set (lv_text v) \<subseteq> S \<and> set (lv_saved v) \<subseteq> S \<and> set (lv_cut v) \<subseteq> S \<and>
    (\<forall>h \<in> set (lv_history v). set h \<subseteq> S) \<and> (\<forall>i. lv_at v = Some i \<longrightarrow> i < length (lv_history v))"

definition inputs_within :: "u8 set \<Rightarrow> (bytes \<Rightarrow> nat \<Rightarrow> int \<times> line_completion) \<Rightarrow> bool" where
  "inputs_within S cpl \<longleftrightarrow> {b. c_isprint b} \<subseteq> S \<and>
    (\<forall>t c. fst (cpl t c) \<noteq> 0 \<longrightarrow> set (cstr_of (co_candidates (snd (cpl t c)) ! 0)) \<subseteq> S)"

lemma within_edit: "lv_within S v \<Longrightarrow> set b \<subseteq> S \<Longrightarrow> set a \<subseteq> S \<Longrightarrow> lv_within S (lv_edit b a v)"
  by (simp add: lv_within_def lv_edit_def lv_text_def)

lemma within_parts: "lv_within S v \<Longrightarrow> set (lv_before v) \<subseteq> S \<and> set (lv_after v) \<subseteq> S \<and> set (lv_cut v) \<subseteq> S"
  by (simp add: lv_within_def lv_text_def)

lemma within_move: "lv_within S v \<Longrightarrow> lv_within S (lv_move c v)"
  by (auto simp: lv_within_def lv_move_def lv_text_def dest: in_set_takeD in_set_dropD)

lemma within_cut:
  "lv_within S v \<Longrightarrow> set b \<subseteq> S \<Longrightarrow> set x \<subseteq> S \<Longrightarrow> set a \<subseteq> S \<Longrightarrow> lv_within S (lv_cut_out b x a v)"
  by (simp add: lv_within_def lv_cut_out_def lv_edit_def lv_text_def)

lemma within_take: "set r \<subseteq> S \<Longrightarrow> set (take n r) \<subseteq> S"
  by (auto dest: in_set_takeD)

lemma within_replace: "lv_within S v \<Longrightarrow> set r \<subseteq> S \<Longrightarrow> lv_within S (lv_replace s r v)"
  using within_parts [of S v] by (simp add: lv_replace_def within_edit within_take)

lemma within_space: "{b. c_isprint b} \<subseteq> S \<Longrightarrow> set r \<subseteq> S \<Longrightarrow> set (with_space r) \<subseteq> S"
  by (auto simp: with_space_def c_isprint_def)

lemma within_complete:
  assumes v: "lv_within S v" and i: "inputs_within S cpl"
  shows "lv_within S (lv_complete cpl v)"
proof -
  obtain r co where c: "cpl (lv_text v) (length (lv_before v)) = (r, co)" by fastforce
  let ?a = "cstr_of (co_candidates co ! 0)"
  have a: "r \<noteq> 0 \<Longrightarrow> set ?a \<subseteq> S" using i c unfolding inputs_within_def by (metis fst_conv snd_conv)
  have "{b. c_isprint b} \<subseteq> S" using i by (simp add: inputs_within_def)
  from within_space [OF this a] within_take [OF a] show ?thesis
    using v by (auto simp add: lv_complete_def c Let_def intro: within_replace)
qed

lemma set_tl_subset: "set (tl xs) \<subseteq> set xs"
  by (cases xs) auto

lemma within_show:
  "lv_within S v \<Longrightarrow> set t \<subseteq> S \<Longrightarrow> set s \<subseteq> S \<Longrightarrow> (\<And>i. k = Some i \<Longrightarrow> i < length (lv_history v)) \<Longrightarrow>
   lv_within S (lv_show t (v\<lparr>lv_saved := s, lv_at := k\<rparr>))"
  by (simp add: lv_within_def lv_show_def lv_text_def)

lemma within_remember:
  "lv_within S v \<Longrightarrow> lv_within S (lv_edit [] [] (v\<lparr>lv_history := lv_remember (lv_text v) (lv_history v)\<rparr>))"
  using set_tl_subset [of "lv_history v"]
  by (simp add: lv_within_def lv_edit_def lv_text_def lv_remember_def) blast

lemma within_history: "lv_within S v \<Longrightarrow> i < length (lv_history v) \<Longrightarrow> set (lv_history v ! i) \<subseteq> S"
  by (simp add: lv_within_def)

lemma within_up:
  assumes v: "lv_within S v"
  shows "lv_within S (key_apply cpl KUp v)"
proof (cases "lv_at v")
  case None
  have "lv_history v \<noteq> [] \<Longrightarrow> set (List.last (lv_history v)) \<subseteq> S" using v by (simp add: lv_within_def)
  then show ?thesis using v None within_show [OF v, of "List.last (lv_history v)" "lv_text v" "Some (length (lv_history v) - 1)"]
    by (auto simp: lv_within_def [of S v])
next
  case (Some i)
  then have "i < length (lv_history v)" using v by (simp add: lv_within_def)
  then show ?thesis
    using v Some within_show [OF v within_history [OF v], of "i - 1" "lv_saved v" "Some (i - 1)"]
    by (cases i) (simp_all add: lv_within_def [of S v])
qed

lemma within_down:
  assumes v: "lv_within S v"
  shows "lv_within S (key_apply cpl KDown v)"
proof (cases "lv_at v")
  case (Some i)
  have s: "set (lv_saved v) \<subseteq> S" using v by (simp add: lv_within_def)
  show ?thesis
    using Some s within_show [OF v within_history [OF v], of "i + 1" "lv_saved v" "Some (i + 1)"]
      within_show [OF v s s, of None] by simp
qed (use v in simp)

lemma within_key:
  "lv_within S v \<Longrightarrow> inputs_within S cpl \<Longrightarrow> (\<And>b. k = KInsert b \<Longrightarrow> c_isprint b) \<Longrightarrow> lv_within S (key_apply cpl k v)"
proof (cases k)
  case KUp
  then show "lv_within S v \<Longrightarrow> ?thesis" by (simp only: within_up)
next
  case KDown
  then show "lv_within S v \<Longrightarrow> ?thesis" by (simp only: within_down)
next
  case (KInsert b)
  then show "lv_within S v \<Longrightarrow> inputs_within S cpl \<Longrightarrow> (\<And>b. k = KInsert b \<Longrightarrow> c_isprint b) \<Longrightarrow> ?thesis"
    using within_parts [of S v] by (auto simp: inputs_within_def intro!: within_edit)
qed (use within_parts [of S v] in \<open>auto simp: Let_def intro!: within_edit within_move within_cut within_complete within_remember
  dest!: in_set_takeD in_set_dropD in_set_butlastD set_dropWhileD list.set_sel(2) [rotated]\<close>)

lemma next_key_insert: "next_key q c = (q', Some (KInsert b)) \<Longrightarrow> c_isprint b"
  by (cases "(q, c)" rule: next_key.cases)
    (auto simp: plain_key_def meta_key_def csi_key_def ss3_key_def Let_def split: if_splits)

lemma within_next:
  assumes "lv_within S v" and "inputs_within S cpl"
  shows "lv_within S (apply_opt cpl (snd (next_key q c)) v)"
  using within_key [OF assms] next_key_insert [of q c] assms(1)
  by (cases "next_key q c") (auto simp: apply_opt_def split: option.split)

text \<open>No key puts a NUL into the text.\<close>

abbreviation lv_clean :: "line_view \<Rightarrow> bool" where
  "lv_clean \<equiv> lv_within (- {0})"

lemma inputs_clean: "inputs_within (- {0}) cpl"
proof -
  have "0 \<notin> set (cstr_of a)" for a unfolding cstr_of_def by (auto dest: set_takeWhileD)
  then show ?thesis by (auto simp: inputs_within_def c_isprint_def)
qed

section \<open>Every stream of bytes\<close>

lemma init_view:
  "editor_ok (bvstk_line_editor_init (Some cfg))" "edit_view (bvstk_line_editor_init (Some cfg)) = lv_empty"
  "key_state (bvstk_line_editor_init (Some cfg)) = (ESCAPE_NONE, [])" "ed_config (bvstk_line_editor_init (Some cfg)) = cfg"
  by (simp_all add: bvstk_line_editor_init_def zero_editor_def editor_reset_escape_def editor_ok_defs edit_view_def
      lv_empty_def key_state_def ed_text_def list_all_iff)

lemma within_empty: "lv_within S lv_empty"
  by (simp add: lv_within_def lv_empty_def lv_text_def)

lemma type_bytes_Cons: "type_bytes (b # bs) e = type_bytes bs (snd (handle_byte e b))"
  by (simp add: type_bytes_def)

lemma byte_does:
  assumes "editor_ok e" and "key_ok (key_state e)" and "completes (ed_config e) cpl" and "lv_clean (edit_view e)"
  shows "does cpl e (next_key (key_state e) b) (snd (handle_byte e b))" and "key_ok (key_state (snd (handle_byte e b)))"
    and "lv_within S (edit_view e) \<Longrightarrow> inputs_within S cpl \<Longrightarrow> lv_within S (edit_view (snd (handle_byte e b)))"
proof -
  have "0 \<notin> set (lv_text (edit_view e))" using assms(4) by (auto simp: lv_within_def)
  then show d: "does cpl e (next_key (key_state e) b) (snd (handle_byte e b))"
    by (rule handle_byte_does [OF assms(1-3)])
  then show "key_ok (key_state (snd (handle_byte e b)))" using key_ok_next by (simp add: does_def)
  show "lv_within S (edit_view (snd (handle_byte e b)))" if "lv_within S (edit_view e)" "inputs_within S cpl"
    using d within_next [OF that] by (simp add: does_def)
qed

lemma type_bytes_does:
  assumes "editor_ok e" and "key_ok (key_state e)" and "completes (ed_config e) cpl" and "lv_clean (edit_view e)"
  shows "edit_view (type_bytes bs e) = fold (key_apply cpl) (keys_of (key_state e) bs) (edit_view e)"
  using assms
proof (induction bs arbitrary: e)
  case (Cons b bs)
  let ?e = "snd (handle_byte e b)"
  obtain q k where nk: "next_key (key_state e) b = (q, k)" by fastforce
  note d = byte_does [OF Cons.prems, where b = b]
  have e: "editor_ok ?e" "key_state ?e = q" "ed_config ?e = ed_config e" "edit_view ?e = apply_opt cpl k (edit_view e)"
    using d(1) nk by (simp_all add: does_def)
  have "edit_view (type_bytes bs ?e) = fold (key_apply cpl) (keys_of q bs) (apply_opt cpl k (edit_view e))"
    using Cons.IH [of ?e] Cons.prems d(2) d(3) [OF Cons.prems(4) inputs_clean] e by simp
  then show ?case by (simp add: type_bytes_Cons nk apply_opt_def split: option.split)
qed (simp add: type_bytes_def)

text \<open>A console that completes with \<open>cpl\<close>, for the examples.\<close>

definition demo_completion :: line_completion where
  "demo_completion = \<lparr>co_token_start = 0, co_token_prefix_length = 1, co_match_count = 1,
    co_candidates = [ascii ''reboot'' @ [0]]\<rparr>"

definition demo_config :: line_config where
  "demo_config = \<lparr>ec_write = Some (\<lambda>_ d. int (length d)), ec_prompt = Some (\<lambda>_. ascii ''> ''),
    ec_submit = Some (\<lambda>_ l. (SUBMIT_PROMPT, l @ CRLF)), ec_complete = Some (\<lambda>_ _ _. (1, demo_completion)),
    ec_tab = None, ec_eof_on_empty = False\<rparr>"

text \<open>
  C11: The line editor is a text editor. Whatever bytes a terminal sends, the arrays, lengths and
  positions of the editor are those of a text with a cursor on which the keys the bytes mean have
  acted in order, as list operations: insertion and deletion at the cursor, motions and cuts by
  character and word, paste, the walk through a history of sixteen lines that never holds a
  repetition twice in a row and gives back the line set aside, and completion. The keys are
  decoded from the bytes alone, escape sequences included; a key that would take the line to
  512 bytes changes nothing.
\<close>

theorem line_editor_refines_text:
  assumes "completes cfg cpl"
  shows "edit_view (type_bytes bs (bvstk_line_editor_init (Some cfg))) =
    fold (key_apply cpl) (keys_of (ESCAPE_NONE, []) bs) lv_empty"
  using type_bytes_does [of "bvstk_line_editor_init (Some cfg)" cpl bs] assms within_empty
  by (simp add: init_view key_ok_def)

theorem line_editor_refines_text_witness:
  "completes demo_config (\<lambda>_ _. (1, demo_completion)) \<and>
   edit_view (type_bytes [0x61, 0x62, 0x1B, 0x5B, 0x44, 0x0B, 0x19, 0x0D, 0x10] (bvstk_line_editor_init (Some demo_config))) =
     \<lparr>lv_before = [0x61, 0x62], lv_after = [], lv_history = [[0x61, 0x62]], lv_at = Some 0,
      lv_saved = [], lv_cut = [0x62]\<rparr>"
proof -
  have c: "completes demo_config (\<lambda>_ _. (1, demo_completion))" by (simp add: completes_def demo_config_def)
  have k: "keys_of (ESCAPE_NONE, []) [0x61, 0x62, 0x1B, 0x5B, 0x44, 0x0B, 0x19, 0x0D, 0x10] =
      [KInsert 0x61, KInsert 0x62, KLeft False, KCutAfter, KPaste, KSubmit, KUp]"
    by (simp add: plain_key_def csi_key_def c_isprint_def digit_def)
  have "fold (key_apply (\<lambda>_ _. (1, demo_completion)))
      [KInsert 0x61, KInsert 0x62, KLeft False, KCutAfter, KPaste, KSubmit, KUp] lv_empty =
     \<lparr>lv_before = [0x61, 0x62], lv_after = [], lv_history = [[0x61, 0x62]], lv_at = Some 0,
      lv_saved = [], lv_cut = [0x62]\<rparr>"
    by (simp add: lv_empty_def lv_edit_def lv_text_def lv_move_def lv_cut_out_def lv_remember_def lv_show_def)
  with c show ?thesis unfolding line_editor_refines_text [OF c] k by blast
qed

section \<open>Memory safety\<close>

text \<open>A tab hook hands over buffers that hold the bytes it announces.\<close>

fun tab_call_ok :: "tab_call \<Rightarrow> bool" where
  "tab_call_ok (TabSetState (Some l) n c) \<longleftrightarrow> n \<le> length l"
| "tab_call_ok (TabReplace s p (Some r) n sp) \<longleftrightarrow> n \<le> length r"
| "tab_call_ok _ \<longleftrightarrow> True"

definition tab_ok :: "line_config \<Rightarrow> bool" where
  "tab_ok cfg \<longleftrightarrow> (case ec_tab cfg of None \<Rightarrow> True | Some tab \<Rightarrow> \<forall>out t c. list_all tab_call_ok (tab out t c))"

definition keeps :: "line_editor \<Rightarrow> line_editor \<Rightarrow> bool" where
  "keeps e e' \<longleftrightarrow> editor_ok e' \<and> ed_config e' = ed_config e"

lemma keeps_acts: "acts e f e' \<Longrightarrow> keeps e e'"
  by (simp add: acts_def keeps_def)

lemma keeps_idle: "editor_ok e \<Longrightarrow> silent e' = silent e \<Longrightarrow> keeps e e'"
  unfolding keeps_def using silent_cong [of e' e] by simp

lemma keeps_trans: "keeps e e' \<Longrightarrow> keeps e' e'' \<Longrightarrow> keeps e e''"
  by (simp add: keeps_def)

lemma set_state_keeps:
  assumes ok: "editor_ok e" and n: "n \<le> length l"
  shows "keeps e (snd (bvstk_line_editor_set_state e (Some l) n c))"
proof (cases "n \<ge> LINE_MAX \<or> c > n")
  case False
  define p where "p = (if n \<noteq> 0 then store_at 0 l n (ed_line e) else ed_line e)"
  have "length p = LINE_MAX" using ok n False by (auto simp: p_def editor_ok_defs)
  then have "editor_ok (put_line p n c e)" using False by (intro put_line_ok [OF ok]) auto
  then show ?thesis using False by (simp add: keeps_def bvstk_line_editor_set_state_def put_line_def p_def Let_def)
qed (use ok in \<open>simp add: keeps_def bvstk_line_editor_set_state_def\<close>)

lemma replace_keeps:
  assumes ok: "editor_ok e" and n: "n \<le> length r"
  shows "keeps e (snd (bvstk_line_editor_replace e s p (Some r) n sp))"
proof (cases "s + p = ed_cursor e")
  case True
  show ?thesis by (rule keeps_acts [OF replace_acts [OF ok True n]])
next
  case False
  then have "s > ed_cursor e \<or> p \<noteq> ed_cursor e - s" by auto
  then show ?thesis using ok by (simp add: keeps_def bvstk_line_editor_replace_def)
qed

lemma tab_step_keeps:
  assumes ok: "editor_ok e" and call: "tab_call_ok call"
  shows "keeps e (tab_step call e)"
proof (cases call)
  case (TabSetState line n c)
  show ?thesis
  proof (cases line)
    case None
    then show ?thesis using ok by (simp add: TabSetState keeps_def bvstk_line_editor_set_state_def)
  next
    case (Some l)
    then show ?thesis using set_state_keeps [OF ok, of n l c] call by (simp add: TabSetState)
  qed
next
  case (TabReplace s p r n sp)
  show ?thesis
  proof (cases r)
    case None
    then show ?thesis using ok by (simp add: TabReplace keeps_def bvstk_line_editor_replace_def)
  next
    case (Some l)
    then show ?thesis using replace_keeps [OF ok, of n l s p sp] call by (simp add: TabReplace)
  qed
next
  case TabMarkEdited
  then show ?thesis using ok by (simp add: keeps_def mark_edited_view)
qed (use ok in \<open>auto intro!: keeps_idle\<close>)

lemma tab_steps_keep: "editor_ok e \<Longrightarrow> list_all tab_call_ok calls \<Longrightarrow> keeps e (fold tab_step calls e)"
proof (induction calls arbitrary: e)
  case (Cons call calls)
  then have "keeps e (tab_step call e)" using tab_step_keeps by simp
  moreover from this have "keeps (tab_step call e) (fold tab_step calls (tab_step call e))"
    using Cons by (simp add: keeps_def)
  ultimately show ?case by (simp add: keeps_trans)
qed (simp add: keeps_def)

lemma complete_keeps:
  assumes ok: "editor_ok e" and tab: "tab_ok (ed_config e)"
  shows "keeps e (editor_complete e)"
proof (cases "ec_tab (ed_config e)")
  case (Some t)
  let ?e = "ed_say (EdTab (ed_text e) (ed_cursor e)) e"
  have k: "keeps e ?e" by (rule keeps_idle [OF ok]) simp
  then have "keeps ?e (fold tab_step (t (ed_out e) (ed_text e) (ed_cursor e)) ?e)"
    using tab Some by (intro tab_steps_keep) (simp_all add: keeps_def tab_ok_def)
  with k show ?thesis using Some by (simp add: editor_complete_def keeps_trans)
next
  case None
  show ?thesis
  proof (cases "ec_complete (ed_config e)")
    case none: None
    then show ?thesis using None ok by (intro keeps_idle) (simp_all add: editor_complete_def)
  next
    case (Some f)
    let ?e = "ed_say (EdComplete (ed_text e) (ed_cursor e)) e"
    obtain r co where f: "f (ed_out e) (ed_text e) (ed_cursor e) = (r, co)" by fastforce
    have k: "keeps e ?e" by (rule keeps_idle [OF ok]) simp
    then have ok': "editor_ok ?e" by (simp add: keeps_def)
    have "keeps ?e (bvstk_line_editor_beep ?e)" by (rule keeps_idle [OF ok']) simp
    moreover have "keeps ?e (complete_matches co ?e)" by (rule keeps_acts [OF matches_acts [OF ok']])
    moreover have "editor_complete e = (if r = 0 then bvstk_line_editor_beep ?e else complete_matches co ?e)"
      by (simp add: editor_complete_def None Some f)
    ultimately show ?thesis using keeps_trans [OF k] by simp
  qed
qed

lemmas key_keeps = key_acts [THEN keeps_acts]

lemma reset_escape_keeps: "keeps e e' \<Longrightarrow> keeps e (editor_reset_escape e')"
  by (simp add: keeps_def reset_escape_view)

lemma beep_keeps: "keeps e e' \<Longrightarrow> keeps e (bvstk_line_editor_beep e')"
  unfolding keeps_def using silent_cong [of "bvstk_line_editor_beep e'" e'] by simp

lemma escape_keeps:
  assumes ok: "editor_ok e"
  shows "keeps e (editor_handle_escape_byte e c)"
proof -
  have self: "keeps e e" using ok by (simp add: keeps_def)
  have "keeps e (escape_started e c)" unfolding escape_started_def
    using ok by (auto intro!: reset_escape_keeps beep_keeps self key_keeps) (simp_all add: keeps_def editor_ok_defs)
  moreover have "keeps e (escape_csi e c)"
    unfolding escape_csi_def
    using ok by (auto simp: Let_def intro!: reset_escape_keeps keeps_acts [OF csi_acts]) (simp_all add: keeps_def editor_ok_defs)
  moreover have "keeps e (escape_ss3 e c)" using ss3_acts [OF ok] by (auto simp: does_def keeps_def)
  ultimately show ?thesis using self by (simp add: editor_handle_escape_byte_def split: escape_state.split)
qed

lemma handle_byte_keeps:
  assumes ok: "editor_ok e" and tab: "tab_ok (ed_config e)"
  shows "keeps e (snd (handle_byte e c))"
proof -
  have self: "keeps e e" using ok by (simp add: keeps_def)
  have sub: "keeps e (snd (editor_submit e))" using submit_result(1,3) [OF ok] by (simp add: keeps_def)
  have intr: "keeps e (call_prompt (snd (bvstk_line_editor_write_text (bvstk_line_editor_reset e) (Some INTERRUPT))))"
    using interrupt_result(1,3) [OF ok] by (simp add: keeps_def)
  have red: "keeps e (bvstk_line_editor_redraw e)" by (rule keeps_idle [OF ok]) simp
  have st: "keeps e (e\<lparr>ed_escape_state := ESCAPE_STARTED, ed_escape_parameter_length := 0\<rparr>)"
    using ok by (simp add: keeps_def editor_ok_defs)
  have del: "keeps e (snd (if A then (1 :: int, e) else (0, editor_delete e)))" for A
    using self key_keeps(2) [OF ok] by simp
  show ?thesis
  proof (cases "c = 0x04 \<and> ed_escape_state e = ESCAPE_NONE")
    case True
    then show ?thesis using del [of "ed_line_length e = 0 \<and> ec_eof_on_empty (ed_config e)"]
      by (simp add: handle_byte_def split del: if_split)
  next
    case False
    then show ?thesis unfolding handle_byte_def
      by (auto intro: self sub intr red st escape_keeps complete_keeps key_keeps ok tab)
  qed
qed

lemma type_bytes_keeps: "editor_ok e \<Longrightarrow> tab_ok (ed_config e) \<Longrightarrow> keeps e (type_bytes bs e)"
proof (induction bs arbitrary: e)
  case (Cons b bs)
  have "keeps e (snd (handle_byte e b))" using handle_byte_keeps Cons.prems by blast
  then show ?case using Cons.IH [of "snd (handle_byte e b)"] Cons.prems by (simp add: type_bytes_Cons keeps_def)
qed (simp add: type_bytes_def keeps_def)

text \<open>
  C13: The editor never leaves its buffers. After any bytes, with any callbacks that hand over
  buffers as long as they say, the line is an array of 512 bytes with a NUL after the
  \<open>line_length\<close> bytes of the line and the cursor within them; the sixteen history entries are
  arrays of 512 bytes, those in use are NUL-terminated strings, and the position in the history
  is -1 or one of them; the set-aside line, the cut buffer and the escape parameters keep their
  sizes, with lengths below them.
\<close>

theorem line_editor_buffers_safe:
  assumes "tab_ok cfg"
  shows "editor_ok (type_bytes bs (bvstk_line_editor_init (Some cfg)))"
  using type_bytes_keeps [of "bvstk_line_editor_init (Some cfg)" bs] assms by (simp add: init_view keeps_def)

theorem line_editor_buffers_safe_witness:
  "tab_ok demo_config \<and> editor_ok (type_bytes [0x72, 0x09, 0x0D] (bvstk_line_editor_init (Some demo_config)))"
proof -
  have "tab_ok demo_config" by (simp add: tab_ok_def demo_config_def)
  then show ?thesis using line_editor_buffers_safe [of demo_config] by simp
qed

end
