(* ===== verification/Http_Input.thy ===== *)
theory Http_Input
  imports Device_Profile
begin

text \<open>
  The input checks of the web interface, \<open>src/shared/protocols/http/bvstk_http_input.c\<close>: query
  strings, decimal numbers, file paths, the strict JSON validator and the revision hash.

  A pointer into a NUL-terminated string is the bytes from there to the NUL, so that \<open>*p\<close> is 0 on
  the empty list. The functions that return 0 or 1 are predicates; what they store through their
  output pointers when they return 0 is never read by a caller, and is not modelled. The recursion
  of \<open>value\<close> is on the levels left of the eight it allows; its two loops take the length of the
  text as fuel, which \<open>Http_Json\<close> shows to be enough: every round consumes a byte.
\<close>

section \<open>Query strings\<close>

definition hex :: "u8 \<Rightarrow> int" where
  "hex c =
    (if digit c then uint c - 48
     else if ch CHR ''a'' \<le> c \<and> c \<le> ch CHR ''f'' then uint c - 97 + 10
     else if ch CHR ''A'' \<le> c \<and> c \<le> ch CHR ''F'' then uint c - 65 + 10
     else -1)"

definition hex_pair :: "u8 \<Rightarrow> u8 \<Rightarrow> u8" where
  "hex_pair a b = push_bit 4 (word_of_int (hex a)) OR word_of_int (hex b)"

text \<open>The loop of \<open>decode\<close> with \<open>n\<close> bytes stored; the bytes it goes on to store.\<close>

function decode_loop :: "nat \<Rightarrow> nat \<Rightarrow> bytes \<Rightarrow> bytes option" where
  "decode_loop cap n p =
    (case p of
       [] \<Rightarrow> (if cap = 0 then None else Some [])
     | c # cs \<Rightarrow>
         let step = (if c = ch CHR ''%'' then
                       (case cs of
                          a # b # rest \<Rightarrow> if hex a < 0 \<or> hex b < 0 then None else Some (hex_pair a b, rest)
                        | _ \<Rightarrow> None)
                     else if c = ch CHR ''+'' then Some (0x20, cs)
                     else Some (c, cs)) in
         (case step of
            None \<Rightarrow> None
          | Some (b, rest) \<Rightarrow>
              if b < 32 \<or> b = 127 \<or> n + 1 \<ge> cap then None
              else map_option (Cons b) (decode_loop cap (n + 1) rest)))"
  by pat_completeness auto
termination
  by (relation "measure (\<lambda>(cap, n, p). length p)") (auto split: if_splits list.splits)

declare decode_loop.simps [simp del]

definition decode :: "bytes \<Rightarrow> nat \<Rightarrow> cstr option" where
  "decode p cap = decode_loop cap 0 p"

function query_loop :: "cstr \<Rightarrow> nat \<Rightarrow> cstr option \<Rightarrow> cstr \<Rightarrow> int \<times> cstr option" where
  "query_loop key cap found p =
    (if p = [] then (if found = None then 0 else 1, found)
     else
       let seg = takeWhile (\<lambda>c. c \<noteq> ch CHR ''&'') p;
           rest = drop (length seg + 1) p;
           name = takeWhile (\<lambda>c. c \<noteq> ch CHR ''='') seg in
       if length name = length seg then (-1, None)
       else case decode name 40 of
         None \<Rightarrow> (-1, None)
       | Some k \<Rightarrow>
           if k \<noteq> key then query_loop key cap found rest
           else if found \<noteq> None then (-1, None)
           else case decode (drop (length name + 1) seg) cap of
             None \<Rightarrow> (-1, None)
           | Some v \<Rightarrow> query_loop key cap (Some v) rest)"
  by pat_completeness auto
termination
  by (relation "measure (\<lambda>(key, cap, found, p). length p)") auto

declare query_loop.simps [simp del]

text \<open>The result with the string left in \<open>out\<close>, which is the empty one when the key is missing.\<close>

definition bvstk_http_query :: "cstr \<Rightarrow> cstr \<Rightarrow> nat \<Rightarrow> int \<times> cstr option" where
  "bvstk_http_query url key cap =
    (if cap = 0 then (-1, None)
     else case dropWhile (\<lambda>c. c \<noteq> ch CHR ''?'') url of
       [] \<Rightarrow> (0, Some [])
     | _ # p \<Rightarrow> (case query_loop key cap None p of
                    (r, out) \<Rightarrow> (r, if r = 0 then Some [] else out)))"

section \<open>Numbers and paths\<close>

text \<open>The loop of \<open>bvstk_http_uint\<close>, from a byte that is not the NUL.\<close>

fun uint_loop :: "u32 \<Rightarrow> u32 \<Rightarrow> cstr \<Rightarrow> u32 option" where
  "uint_loop limit n [] = Some n"
| "uint_loop limit n (c # cs) =
    (if c < ch CHR ''0'' \<or> c > ch CHR ''9'' then None
     else
       let d = ucast (c - ch CHR ''0'') in
       if d > limit \<or> n > (limit - d) div 10 then None
       else uint_loop limit (n * 10 + d) cs)"

definition bvstk_http_uint :: "cstr option \<Rightarrow> u32 \<Rightarrow> u32 option" where
  "bvstk_http_uint p limit =
    (case p of None \<Rightarrow> None | Some s \<Rightarrow> if s = [] then None else uint_loop limit 0 s)"

text \<open>The control bytes and \<open>:\*?"<>|\<close>.\<close>

definition path_stop_char :: "u8 \<Rightarrow> bool" where
  "path_stop_char c \<longleftrightarrow> c < 32 \<or> c = 127 \<or> c \<in> {0x3A, 0x5C, 0x2A, 0x3F, 0x22, 0x3C, 0x3E, 0x7C}"

text \<open>The end of a component: \<open>seg\<close> is what lies between \<open>start\<close> and \<open>p\<close>.\<close>

definition component_ok :: "cstr \<Rightarrow> bool" where
  "component_ok seg \<longleftrightarrow> \<not> (seg = [] \<or> length seg > 63 \<or> (length seg = 1 \<and> seg ! 0 = ch CHR ''.'') \<or>
     (length seg = 2 \<and> seg = ascii ''..'') \<or>
     List.last seg = ch CHR '' '' \<or> List.last seg = ch CHR ''.'')"

fun path_loop :: "cstr \<Rightarrow> cstr \<Rightarrow> bool" where
  "path_loop seg [] = component_ok seg"
| "path_loop seg (c # cs) =
    (if c = ch CHR ''/'' then (if component_ok seg then path_loop [] cs else False)
     else if path_stop_char c then False
     else path_loop (seg @ [c]) cs)"

definition bvstk_http_path :: "cstr option \<Rightarrow> bool" where
  "bvstk_http_path path =
    (case path of
       None \<Rightarrow> False
     | Some [] \<Rightarrow> False
     | Some (c # cs) \<Rightarrow>
         if c \<noteq> ch CHR ''/'' \<or> length (c # cs) > 120 then False
         else if cs = [] then True
         else path_loop [] cs)"

section \<open>JSON\<close>

definition ws_char :: "u8 \<Rightarrow> bool" where
  "ws_char c \<longleftrightarrow> c = 0x20 \<or> c = 0x09 \<or> c = 0x0D \<or> c = 0x0A"

definition ws :: "cstr \<Rightarrow> cstr" where
  "ws p = dropWhile ws_char p"

definition at :: "u8 \<Rightarrow> cstr \<Rightarrow> bool" where
  "at c p = (case p of [] \<Rightarrow> False | b # _ \<Rightarrow> b = c)"

abbreviation QUOTE :: u8 where "QUOTE \<equiv> 0x22"
abbreviation BACKSLASH :: u8 where "BACKSLASH \<equiv> 0x5C"

text \<open>\<open>string\<close> after its opening quote: the bytes before the closing quote, and what follows it.\<close>

fun string_scan :: "bool \<Rightarrow> cstr \<Rightarrow> (bytes \<times> cstr) option" where
  "string_scan key [] = None"
| "string_scan key (c # cs) =
    (if c = QUOTE then Some ([], cs)
     else if c < 32 \<or> (key \<and> c > 126) then None
     else if c = BACKSLASH then
       (if key then None
        else case cs of
          [] \<Rightarrow> None
        | e # es \<Rightarrow>
            if e = ch CHR ''u'' then
              (case es of
                 h1 # h2 # h3 # h4 # rest \<Rightarrow>
                   if hex h1 < 0 \<or> hex h2 < 0 \<or> hex h3 < 0 \<or> hex h4 < 0 then None
                   else map_option (\<lambda>(s, r). (c # e # h1 # h2 # h3 # h4 # s, r)) (string_scan key rest)
               | _ \<Rightarrow> None)
            else if e \<in> {0x22, 0x5C, 0x2F, 0x62, 0x66, 0x6E, 0x72, 0x74} then map_option (\<lambda>(s, r). (c # e # s, r)) (string_scan key es)
            else None)
     else map_option (\<lambda>(s, r). (c # s, r)) (string_scan key cs))"

definition json_string :: "bool \<Rightarrow> cstr \<Rightarrow> (bytes \<times> cstr) option" where
  "json_string key p = (if at QUOTE p then string_scan key (tl p) else None)"

text \<open>The literals and the unsigned integers at the end of \<open>value\<close>.\<close>

definition json_scalar :: "cstr \<Rightarrow> cstr option" where
  "json_scalar p =
    (if at QUOTE p then map_option snd (json_string False p)
     else if take 4 p = ascii ''true'' then Some (drop 4 p)
     else if take 5 p = ascii ''false'' then Some (drop 5 p)
     else case p of
       [] \<Rightarrow> None
     | c # cs \<Rightarrow>
         if digit c then
           (if c = ch CHR ''0'' \<and> (case cs of [] \<Rightarrow> False | d # _ \<Rightarrow> digit d) then None
            else Some (dropWhile digit p))
         else None)"

fun key_index :: "cstr \<Rightarrow> cstr list \<Rightarrow> nat \<Rightarrow> nat option" where
  "key_index key [] k = None"
| "key_index key (a # as) k = (if a = key then Some k else key_index key as (k + 1))"

definition mark_seen :: "cstr list \<Rightarrow> cstr \<Rightarrow> u32 \<Rightarrow> u32 option" where
  "mark_seen allowed key seen =
    (case key_index key allowed 0 of None \<Rightarrow> None | Some k \<Rightarrow> Some (seen OR push_bit k 1))"

text \<open>The two loops of \<open>value\<close>, over what reads a nested value. \<open>depth\<close> counts up in the code and is
  only compared with 0 and 7: here it is whether the value is the root, and the levels left.\<close>

primrec json_members ::
    "nat \<Rightarrow> (cstr \<Rightarrow> cstr option) \<Rightarrow> bool \<Rightarrow> cstr list \<Rightarrow> u32 \<Rightarrow> bytes list \<Rightarrow> u32 \<Rightarrow> cstr \<Rightarrow> cstr option" where
  "json_members 0 val root allowed required keys seen p = None"
| "json_members (Suc fuel) val root allowed required keys seen p =
    (case json_string True p of
       None \<Rightarrow> None
     | Some (key, p1) \<Rightarrow>
         if length keys = 24 \<or> key \<in> set keys then None
         else case (if root then mark_seen allowed key seen else Some seen) of
           None \<Rightarrow> None
         | Some seen1 \<Rightarrow>
             if \<not> at (ch CHR '':'') (ws p1) then None
             else case val (tl (ws p1)) of
               None \<Rightarrow> None
             | Some p2 \<Rightarrow>
                 if at (ch CHR ''}'') (ws p2) then
                   (if \<not> root \<or> seen1 AND required = required then Some (tl (ws p2)) else None)
                 else if \<not> at (ch CHR '','') (ws p2) then None
                 else json_members fuel val root allowed required (keys @ [key]) seen1 (ws (tl (ws p2))))"

primrec json_elements :: "nat \<Rightarrow> (cstr \<Rightarrow> cstr option) \<Rightarrow> cstr \<Rightarrow> cstr option" where
  "json_elements 0 val p = None"
| "json_elements (Suc fuel) val p =
    (case val p of
       None \<Rightarrow> None
     | Some p1 \<Rightarrow>
         if at (ch CHR '']'') (ws p1) then Some (tl (ws p1))
         else if \<not> at (ch CHR '','') (ws p1) then None
         else json_elements fuel val (tl (ws p1)))"

definition value_step ::
    "(cstr \<Rightarrow> cstr option) \<Rightarrow> bool \<Rightarrow> cstr list \<Rightarrow> u32 \<Rightarrow> cstr \<Rightarrow> cstr option" where
  "value_step val root allowed required p =
    (if at (ch CHR ''{'') p then
       (let p1 = ws (tl p) in
        if at (ch CHR ''}'') p1 then (if required = 0 then Some (tl p1) else None)
        else json_members (length p1) val root allowed required [] 0 p1)
     else if at (ch CHR ''['') p then
       (let p1 = ws (tl p) in
        if at (ch CHR '']'') p1 then Some (tl p1) else json_elements (length p1) val p1)
     else json_scalar p)"

primrec json_value :: "nat \<Rightarrow> bool \<Rightarrow> cstr list \<Rightarrow> u32 \<Rightarrow> cstr \<Rightarrow> cstr option" where
  "json_value 0 root allowed required p = None"
| "json_value (Suc levels) root allowed required p =
    value_step (json_value levels False allowed 0) root allowed required (ws p)"

definition bvstk_http_json_object :: "cstr option \<Rightarrow> cstr list \<Rightarrow> u32 \<Rightarrow> bool" where
  "bvstk_http_json_object json keys required =
    (case json of
       None \<Rightarrow> False
     | Some s \<Rightarrow>
         if length keys > 32 then False
         else
           let p = ws s in
           if \<not> at (ch CHR ''{'') p then False
           else case json_value 8 True keys required p of
             None \<Rightarrow> False
           | Some r \<Rightarrow> ws r = [])"

definition bvstk_http_revision :: "cstr \<Rightarrow> u32" where
  "bvstk_http_revision s = fold (\<lambda>c h. (h XOR ucast c) * 16777619) s 2166136261"

end
