(* ===== verification/Http_Json.thy ===== *)
theory Http_Json
  imports Http_Input
begin

text \<open>
  The strict JSON of the web interface as a grammar, and the proof that the validator of
  \<open>Http_Input\<close> accepts exactly its texts: one soundness and one completeness lemma for each of
  its readers, over a language \<open>V\<close> of nested values, and an induction on the levels.
\<close>

section \<open>Strings and scalars\<close>

definition is_ws :: "bytes \<Rightarrow> bool" where
  "is_ws w \<longleftrightarrow> list_all ws_char w"

definition nodigit :: "bytes \<Rightarrow> bool" where
  "nodigit r \<longleftrightarrow> (case r of [] \<Rightarrow> True | c # _ \<Rightarrow> \<not> digit c)"

text \<open>The bytes between the quotes of a string; a key has no escapes and is plain ASCII.\<close>

inductive jstr :: "bool \<Rightarrow> bytes \<Rightarrow> bool" where
  jstr_nil: "jstr key []"
| jstr_char: "32 \<le> c \<Longrightarrow> c \<noteq> QUOTE \<Longrightarrow> c \<noteq> BACKSLASH \<Longrightarrow> (key \<Longrightarrow> c \<le> 126) \<Longrightarrow> jstr key s \<Longrightarrow> jstr key (c # s)"
| jstr_escape: "e \<in> {0x22, 0x5C, 0x2F, 0x62, 0x66, 0x6E, 0x72, 0x74} \<Longrightarrow> jstr False s \<Longrightarrow> jstr False (BACKSLASH # e # s)"
| jstr_unicode: "hex a \<ge> 0 \<Longrightarrow> hex b \<ge> 0 \<Longrightarrow> hex c \<ge> 0 \<Longrightarrow> hex d \<ge> 0 \<Longrightarrow> jstr False s \<Longrightarrow>
    jstr False (BACKSLASH # ch CHR ''u'' # a # b # c # d # s)"

definition jnumber :: "bytes \<Rightarrow> bool" where
  "jnumber t \<longleftrightarrow> t = [0x30] \<or> (\<exists>d ds. t = d # ds \<and> digit d \<and> d \<noteq> 0x30 \<and> list_all digit ds)"

definition jscalar :: "bytes \<Rightarrow> bool" where
  "jscalar t \<longleftrightarrow> (\<exists>s. t = QUOTE # s @ [QUOTE] \<and> jstr False s) \<or> t = ascii ''true'' \<or> t = ascii ''false'' \<or> jnumber t"

lemma string_scan_sound: "string_scan key p = Some (s, r) \<Longrightarrow> jstr key s \<and> p = s @ QUOTE # r"
proof (induction key p arbitrary: s r rule: string_scan.induct)
  case (2 key c cs)
  consider "c = QUOTE" | "c \<noteq> QUOTE" "c \<noteq> BACKSLASH" | "c = BACKSLASH" by blast
  then show ?case
  proof cases
    case 1
    with 2(4) show ?thesis by (auto intro: jstr.intros)
  next
    case p: 2
    obtain s' where s': "string_scan key cs = Some (s', r)" "s = c # s'" and c: "\<not> (c < 32 \<or> (key \<and> c > 126))"
      using 2(4) p by (auto simp only: string_scan.simps if_False map_option_eq_Some split: if_splits)
    have "jstr key s' \<and> cs = s' @ QUOTE # r" by (rule 2(3) [OF p(1) c p(2) s'(1)])
    then show ?thesis using p c s' by (auto intro!: jstr_char simp: not_less)
  next
    case esc: 3
    then obtain e es where e: "cs = e # es" and k: "\<not> key" using 2(4) by (auto split: if_splits list.splits)
    show ?thesis
    proof (cases "e = ch CHR ''u''")
      case True
      then obtain h1 h2 h3 h4 rest where es: "es = h1 # h2 # h3 # h4 # rest" "hex h1 \<ge> 0" "hex h2 \<ge> 0" "hex h3 \<ge> 0" "hex h4 \<ge> 0"
        using 2(4) e esc k by (auto split: if_splits list.splits)
      obtain s' where s': "string_scan key rest = Some (s', r)" "s = c # e # h1 # h2 # h3 # h4 # s'"
        using 2(4) e esc k True es by (auto split: if_splits)
      have "jstr key s' \<and> rest = s' @ QUOTE # r"
        using 2(1) [of e es h1 "h2 # h3 # h4 # rest" h2 "h3 # h4 # rest" h3 "h4 # rest" h4 rest s' r] s' e es esc k True by simp
      then show ?thesis using k e es esc True s' jstr_unicode [of h1 h2 h3 h4 s'] by simp
    next
      case False
      then have "e \<in> {0x22, 0x5C, 0x2F, 0x62, 0x66, 0x6E, 0x72, 0x74}"
        using 2(4) e esc k by (auto split: if_splits)
      moreover obtain s' where "string_scan key es = Some (s', r)" "s = c # e # s'"
        using 2(4) e esc k False by (auto split: if_splits)
      ultimately show ?thesis using 2(2) [of e es s' r] k e esc False by (auto intro!: jstr.intros)
    qed
  qed
qed simp

lemma string_scan_complete: "jstr key s \<Longrightarrow> string_scan key (s @ QUOTE # r) = Some (s, r)"
proof (induction rule: jstr.induct)
  case (jstr_char c key s)
  then show ?case by (auto simp: not_less not_le)
next
  case (jstr_escape e s)
  then have "e \<noteq> ch CHR ''u''" by auto
  with jstr_escape show ?case by simp
qed simp_all

lemma at_Cons [simp]: "at c (b # p) \<longleftrightarrow> b = c"
  by (simp add: at_def)

lemma at_Nil [simp]: "\<not> at c []"
  by (simp add: at_def)

lemma atE: "at c p \<Longrightarrow> p = c # tl p"
  by (cases p) simp_all

lemma json_string_sound: "json_string key p = Some (s, r) \<Longrightarrow> jstr key s \<and> p = QUOTE # s @ QUOTE # r"
  using string_scan_sound [of key "tl p" s r] atE [of QUOTE p] by (auto simp: json_string_def split: if_splits)

lemma json_string_complete: "jstr key s \<Longrightarrow> json_string key (QUOTE # s @ QUOTE # r) = Some (s, r)"
  by (simp add: json_string_def string_scan_complete)

lemma digit_num: "digit c \<longleftrightarrow> 0x30 \<le> c \<and> c \<le> 0x39"
  by (simp add: digit_def)

lemma number_sound:
  assumes "digit c" and "\<not> (c = 0x30 \<and> (case cs of [] \<Rightarrow> False | d # _ \<Rightarrow> digit d))"
  shows "\<exists>t. c # cs = t @ dropWhile digit (c # cs) \<and> jnumber t"
proof (cases "c = 0x30")
  case True
  then have "dropWhile digit (c # cs) = cs" using assms by (cases cs) auto
  then show ?thesis using True by (intro exI [of _ "[0x30]"]) (simp add: jnumber_def)
next
  case False
  have "list_all digit (takeWhile digit cs)" by (auto simp: list_all_iff dest: set_takeWhileD)
  then show ?thesis using assms False by (intro exI [of _ "c # takeWhile digit cs"]) (simp add: jnumber_def)
qed

lemma scalar_sound:
  assumes "json_scalar p = Some r"
  shows "\<exists>t. p = t @ r \<and> jscalar t"
proof -
  consider "at QUOTE p" | "\<not> at QUOTE p" "take 4 p = ascii ''true''"
    | "\<not> at QUOTE p" "take 4 p \<noteq> ascii ''true''" "take 5 p = ascii ''false''"
    | "\<not> at QUOTE p" "take 4 p \<noteq> ascii ''true''" "take 5 p \<noteq> ascii ''false''" by blast
  then show ?thesis
  proof cases
    case 1
    then obtain s where "json_string False p = Some (s, r)" using assms by (auto simp: json_scalar_def)
    from json_string_sound [OF this] show ?thesis
      by (intro exI [of _ "QUOTE # s @ [QUOTE]"]) (simp add: jscalar_def)
  next
    case 2
    then show ?thesis using assms append_take_drop_id [of 4 p]
      by (intro exI [of _ "take 4 p"]) (auto simp: json_scalar_def jscalar_def)
  next
    case 3
    then show ?thesis using assms append_take_drop_id [of 5 p]
      by (intro exI [of _ "take 5 p"]) (auto simp: json_scalar_def jscalar_def)
  next
    case 4
    then obtain c cs where p: "p = c # cs" "digit c" "\<not> (c = 0x30 \<and> (case cs of [] \<Rightarrow> False | d # _ \<Rightarrow> digit d))"
        "r = dropWhile digit p"
      using assms by (auto simp: json_scalar_def split: list.splits if_splits)
    from number_sound [OF p(2,3)] show ?thesis using p by (auto simp: jscalar_def)
  qed
qed

lemma scalar_complete:
  assumes "jscalar t" and "nodigit r"
  shows "json_scalar (t @ r) = Some r"
proof -
  have dw: "list_all digit ds \<Longrightarrow> dropWhile digit (ds @ r) = r" for ds
    using assms(2) by (induction ds) (auto simp: nodigit_def split: list.splits)
  consider s where "t = QUOTE # s @ [QUOTE]" "jstr False s" | "t = ascii ''true''" | "t = ascii ''false''"
    | "t = [0x30]" | d ds where "t = d # ds" "digit d" "d \<noteq> 0x30" "list_all digit ds"
    using assms(1) by (auto simp: jscalar_def jnumber_def)
  then show ?thesis
  proof cases
    case 1
    then show ?thesis by (simp add: json_scalar_def json_string_complete)
  next
    case 4
    have "\<not> (case r of [] \<Rightarrow> False | d # _ \<Rightarrow> digit d)" "dropWhile digit r = r"
      using assms(2) by (auto simp: nodigit_def split: list.splits)
    then show ?thesis using 4 by (simp add: json_scalar_def ascii_def digit_num)
  next
    case 5
    then have "d \<noteq> QUOTE" "d \<noteq> 0x74" "d \<noteq> 0x66" by (auto simp: digit_num)
    then show ?thesis using 5 dw by (simp add: json_scalar_def ascii_def)
  qed (simp_all add: json_scalar_def ascii_def)
qed

section \<open>White space\<close>

lemma ws_split: "\<exists>w. p = w @ ws p \<and> is_ws w"
  by (rule exI [of _ "takeWhile ws_char p"]) (auto simp: ws_def is_ws_def list_all_iff dest: set_takeWhileD)

lemma ws_skip: "is_ws w \<Longrightarrow> ws (w @ p) = ws p"
  by (induction w) (simp_all add: ws_def is_ws_def)

lemma ws_stop: "\<not> ws_char c \<Longrightarrow> ws (c # p) = c # p"
  by (simp add: ws_def)

lemma ws_all: "is_ws w \<Longrightarrow> ws w = []"
  using ws_skip [of w "[]"] by (simp add: ws_def)

lemma ws_atE:
  assumes "at c (ws p)"
  obtains w where "p = w @ c # tl (ws p)" and "is_ws w"
  using ws_split [of p] atE [OF assms] by metis

section \<open>The grammar\<close>

text \<open>A member list and an element list over a language \<open>V\<close> of values, with the white space JSON
  allows and the keys in order.\<close>

inductive jmembers :: "(bytes \<Rightarrow> bool) \<Rightarrow> bytes list \<Rightarrow> bytes \<Rightarrow> bool" for V where
  jmember: "jstr True k \<Longrightarrow> is_ws w1 \<Longrightarrow> is_ws w2 \<Longrightarrow> V v \<Longrightarrow> is_ws w3 \<Longrightarrow>
    jmembers V [k] (QUOTE # k @ QUOTE # w1 @ ch CHR '':'' # w2 @ v @ w3)"
| jmore: "jstr True k \<Longrightarrow> is_ws w1 \<Longrightarrow> is_ws w2 \<Longrightarrow> V v \<Longrightarrow> is_ws w3 \<Longrightarrow> is_ws w4 \<Longrightarrow> jmembers V ks m \<Longrightarrow>
    jmembers V (k # ks) (QUOTE # k @ QUOTE # w1 @ ch CHR '':'' # w2 @ v @ w3 @ ch CHR '','' # w4 @ m)"

inductive jelements :: "(bytes \<Rightarrow> bool) \<Rightarrow> bytes \<Rightarrow> bool" for V where
  jelement: "is_ws w1 \<Longrightarrow> V v \<Longrightarrow> is_ws w2 \<Longrightarrow> jelements V (w1 @ v @ w2)"
| jelement_more: "is_ws w1 \<Longrightarrow> V v \<Longrightarrow> is_ws w2 \<Longrightarrow> jelements V e \<Longrightarrow> jelements V (w1 @ v @ w2 @ ch CHR '','' # e)"

text \<open>A value: a scalar, an array, or an object with at most 24 distinct keys that satisfy \<open>K\<close>.\<close>

definition jshape :: "(bytes \<Rightarrow> bool) \<Rightarrow> (bytes list \<Rightarrow> bool) \<Rightarrow> bytes \<Rightarrow> bool" where
  "jshape V K t \<longleftrightarrow> jscalar t \<or>
     (\<exists>w. t = ch CHR ''['' # w @ [ch CHR '']''] \<and> is_ws w) \<or>
     (\<exists>e. t = ch CHR ''['' # e @ [ch CHR '']''] \<and> jelements V e) \<or>
     (\<exists>w. t = ch CHR ''{'' # w @ [ch CHR ''}''] \<and> is_ws w \<and> K []) \<or>
     (\<exists>w ks m. t = ch CHR ''{'' # w @ m @ [ch CHR ''}''] \<and> is_ws w \<and> jmembers V ks m \<and> distinct ks \<and> length ks \<le> 24 \<and> K ks)"

primrec jvalue :: "nat \<Rightarrow> bytes \<Rightarrow> bool" where
  "jvalue 0 t = False"
| "jvalue (Suc levels) t = jshape (jvalue levels) (\<lambda>_. True) t"

section \<open>The readers accept the grammar and nothing else\<close>

definition sound :: "(bytes \<Rightarrow> bool) \<Rightarrow> (cstr \<Rightarrow> cstr option) \<Rightarrow> bool" where
  "sound V val \<longleftrightarrow> (\<forall>p r. val p = Some r \<longrightarrow> (\<exists>w t. p = w @ t @ r \<and> is_ws w \<and> V t))"

definition complete :: "(bytes \<Rightarrow> bool) \<Rightarrow> (cstr \<Rightarrow> cstr option) \<Rightarrow> bool" where
  "complete V val \<longleftrightarrow> (\<forall>w t r. is_ws w \<longrightarrow> V t \<longrightarrow> nodigit r \<longrightarrow> val (w @ t @ r) = Some r)"

definition starts :: "(bytes \<Rightarrow> bool) \<Rightarrow> bool" where
  "starts V \<longleftrightarrow> (\<forall>t. V t \<longrightarrow> (\<exists>c cs. t = c # cs \<and> \<not> ws_char c \<and> c \<noteq> ch CHR '']''))"

primrec marks :: "cstr list \<Rightarrow> bytes list \<Rightarrow> u32 \<Rightarrow> u32 option" where
  "marks allowed [] seen = Some seen"
| "marks allowed (k # ks) seen =
    (case mark_seen allowed k seen of None \<Rightarrow> None | Some s \<Rightarrow> marks allowed ks s)"

definition root_ok :: "bool \<Rightarrow> cstr list \<Rightarrow> u32 \<Rightarrow> bytes list \<Rightarrow> u32 \<Rightarrow> bool" where
  "root_ok root allowed required ks seen \<longleftrightarrow>
     (root \<longrightarrow> (\<exists>s. marks allowed ks seen = Some s \<and> s AND required = required))"

lemma root_ok_Cons:
  "root_ok root allowed required (k # ks) seen \<longleftrightarrow>
   (case (if root then mark_seen allowed k seen else Some seen) of None \<Rightarrow> False
    | Some s \<Rightarrow> root_ok root allowed required ks s)"
  by (auto simp: root_ok_def split: option.splits)

lemma root_ok_Nil: "root_ok root allowed required [] seen \<longleftrightarrow> (root \<longrightarrow> seen AND required = required)"
  by (simp add: root_ok_def)

lemma members_sound:
  assumes V: "sound V val"
  shows "json_members f val root allowed required keys seen p = Some r \<Longrightarrow> distinct keys \<Longrightarrow> length keys \<le> 24 \<Longrightarrow>
    \<exists>ks m. p = m @ ch CHR ''}'' # r \<and> jmembers V ks m \<and> distinct (keys @ ks) \<and> length (keys @ ks) \<le> 24 \<and>
      root_ok root allowed required ks seen"
proof (induction f arbitrary: keys seen p)
  case (Suc f)
  obtain k p1 where k: "json_string True p = Some (k, p1)" "length keys \<noteq> 24" "k \<notin> set keys"
    using Suc.prems(1) by (auto split: option.splits if_splits)
  obtain s1 where s1: "(if root then mark_seen allowed k seen else Some seen) = Some s1"
    using Suc.prems(1) k by (auto split: option.splits if_splits)
  have c: "at (ch CHR '':'') (ws p1)" using Suc.prems(1) k s1 by (auto split: option.splits if_splits)
  obtain p2 where p2: "val (tl (ws p1)) = Some p2"
    using Suc.prems(1) k s1 c by (auto split: option.splits if_splits)
  have tail: "(if at (ch CHR ''}'') (ws p2) then (if \<not> root \<or> s1 AND required = required then Some (tl (ws p2)) else None)
      else if \<not> at (ch CHR '','') (ws p2) then None
      else json_members f val root allowed required (keys @ [k]) s1 (ws (tl (ws p2)))) = Some r"
    using Suc.prems(1) k s1 c p2 by (simp split del: if_split)
  obtain w1 where w1: "p1 = w1 @ ch CHR '':'' # tl (ws p1)" "is_ws w1" by (rule ws_atE [OF c])
  obtain w2 v where v: "tl (ws p1) = w2 @ v @ p2" "is_ws w2" "V v" using V p2 unfolding sound_def by blast
  note ks = json_string_sound [OF k(1)]
  have p: "p = QUOTE # k @ QUOTE # w1 @ ch CHR '':'' # w2 @ v @ p2" using ks w1(1) v(1) by simp
  show ?case
  proof (cases "at (ch CHR ''}'') (ws p2)")
    case True
    obtain w3 where w3: "p2 = w3 @ ch CHR ''}'' # tl (ws p2)" "is_ws w3" by (rule ws_atE [OF True])
    have r: "r = tl (ws p2)" "\<not> root \<or> s1 AND required = required" using tail True by (auto split: if_splits)
    have "p = (QUOTE # k @ QUOTE # w1 @ ch CHR '':'' # w2 @ v @ w3) @ ch CHR ''}'' # r"
      using p w3(1) r(1) by simp
    moreover have "jmembers V [k] (QUOTE # k @ QUOTE # w1 @ ch CHR '':'' # w2 @ v @ w3)"
      using ks w1(2) v(2,3) w3(2) by (intro jmember) simp_all
    moreover have "root_ok root allowed required [k] seen" using r(2) s1 by (simp add: root_ok_Cons root_ok_Nil)
    ultimately show ?thesis using k Suc.prems(2,3) by (intro exI [of _ "[k]"] exI conjI) (assumption | simp)+
  next
    case False
    then have c2: "at (ch CHR '','') (ws p2)"
      and rec: "json_members f val root allowed required (keys @ [k]) s1 (ws (tl (ws p2))) = Some r"
      using tail by (auto split: if_splits)
    obtain w3 where w3: "p2 = w3 @ ch CHR '','' # tl (ws p2)" "is_ws w3" by (rule ws_atE [OF c2])
    obtain w4 where w4: "tl (ws p2) = w4 @ ws (tl (ws p2))" "is_ws w4" using ws_split by blast
    obtain ks' m where m: "ws (tl (ws p2)) = m @ ch CHR ''}'' # r" "jmembers V ks' m" "distinct ((keys @ [k]) @ ks')"
        "length ((keys @ [k]) @ ks') \<le> 24" "root_ok root allowed required ks' s1"
      using Suc.IH [OF rec] k Suc.prems(2,3) by auto
    have "p = (QUOTE # k @ QUOTE # w1 @ ch CHR '':'' # w2 @ v @ w3 @ ch CHR '','' # w4 @ m) @ ch CHR ''}'' # r"
      using p w3(1) w4(1) m(1) by simp
    moreover have "jmembers V (k # ks') (QUOTE # k @ QUOTE # w1 @ ch CHR '':'' # w2 @ v @ w3 @ ch CHR '','' # w4 @ m)"
      using ks w1(2) v(2,3) w3(2) w4(2) m(2) by (intro jmore) simp_all
    moreover have "root_ok root allowed required (k # ks') seen" using m(5) s1 by (simp add: root_ok_Cons)
    ultimately show ?thesis using m(3,4) by (intro exI [of _ "k # ks'"] exI conjI) (assumption | simp)+
  qed
qed simp

lemma nodigit_ws: "is_ws w \<Longrightarrow> \<not> digit c \<Longrightarrow> nodigit (w @ c # r)"
  by (cases w) (auto simp: nodigit_def is_ws_def ws_char_def digit_num)

lemma jmembers_quote: "jmembers V ks m \<Longrightarrow> \<exists>m'. m = QUOTE # m'"
  by (induction rule: jmembers.induct) simp_all

lemma ws_put: "is_ws w \<Longrightarrow> \<not> ws_char c \<Longrightarrow> ws (w @ c # r) = c # r"
  by (simp add: ws_skip ws_stop)

lemma ws_quote: "is_ws w \<Longrightarrow> jmembers V ks m \<Longrightarrow> ws (w @ m @ r) = m @ r"
  using jmembers_quote [of V ks m] ws_put [of w QUOTE] by (auto simp: ws_char_def)

lemma ws_punct:
  "is_ws w \<Longrightarrow> ws (w @ ch CHR '':'' # r) = ch CHR '':'' # r"
  "is_ws w \<Longrightarrow> ws (w @ ch CHR '','' # r) = ch CHR '','' # r"
  "is_ws w \<Longrightarrow> ws (w @ ch CHR ''}'' # r) = ch CHR ''}'' # r"
  "is_ws w \<Longrightarrow> ws (w @ ch CHR '']'' # r) = ch CHR '']'' # r"
  by (rule ws_put; simp add: ws_char_def)+

lemma members_complete:
  assumes C: "complete V val"
  shows "jmembers V ks m \<Longrightarrow> distinct (keys @ ks) \<Longrightarrow> length (keys @ ks) \<le> 24 \<Longrightarrow>
    root_ok root allowed required ks seen \<Longrightarrow> length m \<le> f \<Longrightarrow>
    json_members f val root allowed required keys seen (m @ ch CHR ''}'' # r) = Some r"
proof (induction arbitrary: keys seen f rule: jmembers.induct)
  case (jmember k w1 w2 v w3)
  obtain f' where f: "f = Suc f'" using jmember.prems(4) by (cases f) auto
  obtain s where s: "(if root then mark_seen allowed k seen else Some seen) = Some s" "\<not> root \<or> s AND required = required"
    using jmember.prems(3) by (auto simp: root_ok_Cons root_ok_Nil split: option.splits)
  have v: "val (w2 @ v @ w3 @ ch CHR ''}'' # r) = Some (w3 @ ch CHR ''}'' # r)"
    using C jmember.hyps nodigit_ws [of w3 "ch CHR ''}''" r] unfolding complete_def by (simp add: digit_num)
  have j: "json_string True (QUOTE # k @ QUOTE # w1 @ ch CHR '':'' # w2 @ v @ w3 @ ch CHR ''}'' # r) =
      Some (k, w1 @ ch CHR '':'' # w2 @ v @ w3 @ ch CHR ''}'' # r)"
    by (rule json_string_complete [OF jmember.hyps(1)])
  have n: "length keys \<noteq> 24" "k \<notin> set keys" using jmember.prems by auto
  show ?case unfolding f append_Cons append_assoc json_members.simps(2) j
    using s v n jmember.hyps by (simp only: ws_punct option.case prod.case list.sel at_Cons if_False if_True simp_thms)
next
  case (jmore k w1 w2 v w3 w4 ks m)
  obtain f' where f: "f = Suc f'" and f': "length m \<le> f'" using jmore.prems(4) by (cases f) auto
  obtain s where s: "(if root then mark_seen allowed k seen else Some seen) = Some s" "root_ok root allowed required ks s"
    using jmore.prems(3) by (auto simp: root_ok_Cons split: option.splits)
  let ?r = "w4 @ m @ ch CHR ''}'' # r"
  have v: "val (w2 @ v @ w3 @ ch CHR '','' # ?r) = Some (w3 @ ch CHR '','' # ?r)"
    using C jmore.hyps nodigit_ws [of w3 "ch CHR '',''" ?r] unfolding complete_def by (simp add: digit_num)
  have j: "json_string True (QUOTE # k @ QUOTE # w1 @ ch CHR '':'' # w2 @ v @ w3 @ ch CHR '','' # ?r) =
      Some (k, w1 @ ch CHR '':'' # w2 @ v @ w3 @ ch CHR '','' # ?r)"
    by (rule json_string_complete [OF jmore.hyps(1)])
  have n: "length keys \<noteq> 24" "k \<notin> set keys" using jmore.prems by auto
  have rec: "json_members f' val root allowed required (keys @ [k]) s (m @ ch CHR ''}'' # r) = Some r"
    by (rule jmore.IH) (use jmore.prems s f' in simp_all)
  have c: "ch CHR '','' \<noteq> ch CHR ''}''" by simp
  show ?case unfolding f append_Cons append_assoc json_members.simps(2) j
    using s v n jmore.hyps rec c
    by (simp only: ws_punct ws_quote option.case prod.case list.sel at_Cons if_False if_True simp_thms)
qed

lemma elements_sound:
  assumes V: "sound V val"
  shows "json_elements f val p = Some r \<Longrightarrow> \<exists>e. p = e @ ch CHR '']'' # r \<and> jelements V e"
proof (induction f arbitrary: p)
  case (Suc f)
  obtain p1 where p1: "val p = Some p1" using Suc.prems by (auto split: option.splits)
  obtain w v where v: "p = w @ v @ p1" "is_ws w" "V v" using V p1 unfolding sound_def by blast
  show ?case
  proof (cases "at (ch CHR '']'') (ws p1)")
    case True
    obtain w2 where w2: "p1 = w2 @ ch CHR '']'' # tl (ws p1)" "is_ws w2" by (rule ws_atE [OF True])
    have "p = (w @ v @ w2) @ ch CHR '']'' # r" using Suc.prems True p1 v(1) w2(1) by simp
    then show ?thesis using jelement [of w V v w2] v w2 by blast
  next
    case False
    then have c: "at (ch CHR '','') (ws p1)" and rec: "json_elements f val (tl (ws p1)) = Some r"
      using Suc.prems p1 by (auto split: if_splits)
    obtain w2 where w2: "p1 = w2 @ ch CHR '','' # tl (ws p1)" "is_ws w2" by (rule ws_atE [OF c])
    obtain e where e: "tl (ws p1) = e @ ch CHR '']'' # r" "jelements V e" using Suc.IH [OF rec] by blast
    have "p = (w @ v @ w2 @ ch CHR '','' # e) @ ch CHR '']'' # r" using v(1) w2(1) e(1) by simp
    then show ?thesis using jelement_more [of w V v w2 e] v w2 e by blast
  qed
qed simp

lemma elements_complete:
  assumes C: "complete V val" and S: "starts V"
  shows "jelements V e \<Longrightarrow> length e \<le> f \<Longrightarrow> json_elements f val (e @ ch CHR '']'' # r) = Some r"
proof (induction arbitrary: f rule: jelements.induct)
  case (jelement w1 v w2)
  have "v \<noteq> []" using S jelement.hyps(2) by (auto simp: starts_def)
  then obtain f' where f: "f = Suc f'" using jelement.prems by (cases f) auto
  have "val (w1 @ v @ w2 @ ch CHR '']'' # r) = Some (w2 @ ch CHR '']'' # r)"
    using C jelement.hyps nodigit_ws [of w2 "ch CHR '']''" r] unfolding complete_def by (simp add: digit_num)
  then show ?case unfolding f append_assoc json_elements.simps(2)
    using jelement.hyps by (simp only: ws_punct option.case list.sel at_Cons if_True simp_thms)
next
  case (jelement_more w1 v w2 e)
  have "v \<noteq> []" using S jelement_more.hyps(2) by (auto simp: starts_def)
  then obtain f' where f: "f = Suc f'" and f': "length e \<le> f'" using jelement_more.prems by (cases f) auto
  let ?r = "e @ ch CHR '']'' # r"
  have v: "val (w1 @ v @ w2 @ ch CHR '','' # ?r) = Some (w2 @ ch CHR '','' # ?r)"
    using C jelement_more.hyps nodigit_ws [of w2 "ch CHR '',''" ?r] unfolding complete_def by (simp add: digit_num)
  have c: "ch CHR '','' \<noteq> ch CHR '']''" by simp
  show ?case unfolding f append_assoc append_Cons json_elements.simps(2)
    using v jelement_more.hyps jelement_more.IH [OF f'] c
    by (simp only: ws_punct option.case list.sel at_Cons if_True if_False simp_thms)
qed

text \<open>The reader skips white space before it looks for an element.\<close>

lemma elements_trim:
  assumes S: "starts V" and e: "jelements V e"
  shows "\<exists>w c e'. e = w @ c # e' \<and> is_ws w \<and> jelements V (c # e') \<and> \<not> ws_char c \<and> c \<noteq> ch CHR '']''"
  using e
proof cases
  case (jelement w1 v w2)
  obtain c cs where "v = c # cs" "\<not> ws_char c" "c \<noteq> ch CHR '']''" using S jelement(3) by (auto simp: starts_def)
  then show ?thesis using jelements.jelement [of "[]" V v w2] jelement
    by (intro exI [of _ w1] exI [of _ c] exI [of _ "cs @ w2"]) (simp add: is_ws_def)
next
  case (jelement_more w1 v w2 e1)
  obtain c cs where "v = c # cs" "\<not> ws_char c" "c \<noteq> ch CHR '']''" using S jelement_more(3) by (auto simp: starts_def)
  then show ?thesis using jelements.jelement_more [of "[]" V v w2 e1] jelement_more
    by (intro exI [of _ w1] exI [of _ c] exI [of _ "cs @ w2 @ ch CHR '','' # e1"]) (simp add: is_ws_def)
qed

lemma digit_head: "digit c \<Longrightarrow> \<not> ws_char c \<and> c \<noteq> 0x5D \<and> c \<noteq> 0x5B \<and> c \<noteq> 0x7B"
  by (auto simp: ws_char_def digit_num)

lemma scalar_head:
  assumes "jscalar t"
  obtains c cs where "t = c # cs" and "\<not> ws_char c" and "c \<noteq> ch CHR '']''" and "c \<noteq> ch CHR ''['' " and "c \<noteq> ch CHR ''{''"
proof -
  consider s where "t = QUOTE # s @ [QUOTE]" | "t = ascii ''true''" | "t = ascii ''false''" | d ds where "t = d # ds" "digit d"
    using assms by (auto simp: jscalar_def jnumber_def digit_num)
  then show thesis
  proof cases
    case 1
    then show thesis using that [of QUOTE "s @ [QUOTE]"] by (simp add: ws_char_def)
  next
    case 2
    then show thesis using that [of "0x74" "ascii ''rue''"] by (simp add: ws_char_def ascii_def)
  next
    case 3
    then show thesis using that [of "0x66" "ascii ''alse''"] by (simp add: ws_char_def ascii_def)
  next
    case 4
    then show thesis using that [of d ds] digit_head [of d] by simp
  qed
qed

lemma shape_starts: "starts (jshape V K)"
proof -
  have "\<exists>c cs. t = c # cs \<and> \<not> ws_char c \<and> c \<noteq> ch CHR '']''" if "jshape V K t" for t
    using that unfolding jshape_def
  proof (elim disjE, goal_cases)
    case 1
    then show ?case by (elim scalar_head) blast
  qed (auto simp: ws_char_def)
  then show ?thesis by (simp add: starts_def)
qed

lemma step_array:
  "at (ch CHR ''['') p \<Longrightarrow> value_step val root allowed required p =
    (if at (ch CHR '']'') (ws (tl p)) then Some (tl (ws (tl p))) else json_elements (length (ws (tl p))) val (ws (tl p)))"
  by (cases p) (simp_all add: value_step_def Let_def)

lemma step_object:
  "at (ch CHR ''{'') p \<Longrightarrow> value_step val root allowed required p =
    (if at (ch CHR ''}'') (ws (tl p)) then (if required = 0 then Some (tl (ws (tl p))) else None)
     else json_members (length (ws (tl p))) val root allowed required [] 0 (ws (tl p)))"
  by (simp add: value_step_def Let_def)

lemma step_sound:
  assumes V: "sound V val" and req: "\<not> root \<Longrightarrow> required = 0" and p: "value_step val root allowed required p = Some r"
  shows "\<exists>t. p = t @ r \<and> jshape V (\<lambda>ks. root_ok root allowed required ks 0) t"
proof -
  let ?K = "\<lambda>ks. root_ok root allowed required ks 0"
  consider "at (ch CHR ''{'') p" "at (ch CHR ''}'') (ws (tl p))" | "at (ch CHR ''{'') p" "\<not> at (ch CHR ''}'') (ws (tl p))"
    | "at (ch CHR ''['') p" "at (ch CHR '']'') (ws (tl p))" | "at (ch CHR ''['') p" "\<not> at (ch CHR '']'') (ws (tl p))"
    | "\<not> at (ch CHR ''{'') p" "\<not> at (ch CHR ''['') p" by blast
  then show ?thesis
  proof cases
    case 1
    have r: "required = 0" "r = tl (ws (tl p))" using p 1 by (auto simp: value_step_def split: if_splits)
    obtain w where w: "tl p = w @ ch CHR ''}'' # r" "is_ws w" using r(2) by (auto intro: ws_atE [OF 1(2)])
    have "p = (ch CHR ''{'' # w @ [ch CHR ''}'']) @ r" using atE [OF 1(1)] w(1) by simp
    moreover have "?K []" using r(1) by (simp add: root_ok_Nil)
    ultimately show ?thesis using w(2) unfolding jshape_def by blast
  next
    case 2
    obtain w where w: "tl p = w @ ws (tl p)" "is_ws w" using ws_split by blast
    have "json_members (length (ws (tl p))) val root allowed required [] 0 (ws (tl p)) = Some r"
      using p 2 by (simp add: value_step_def Let_def)
    from members_sound [OF V this] obtain ks m where m: "ws (tl p) = m @ ch CHR ''}'' # r" "jmembers V ks m" "distinct ks"
        "length ks \<le> 24" "?K ks" by auto
    have "p = (ch CHR ''{'' # w @ m @ [ch CHR ''}'']) @ r" using atE [OF 2(1)] w(1) m(1) by simp
    then show ?thesis using w(2) m(2-5) unfolding jshape_def by blast
  next
    case 3
    have r: "r = tl (ws (tl p))" using p 3(2) unfolding step_array [OF 3(1)] by simp
    obtain w where w: "tl p = w @ ch CHR '']'' # r" "is_ws w" using r by (auto intro: ws_atE [OF 3(2)])
    have "p = (ch CHR ''['' # w @ [ch CHR '']'']) @ r" using atE [OF 3(1)] w(1) by simp
    then show ?thesis using w(2) unfolding jshape_def by blast
  next
    case 4
    obtain w where w: "tl p = w @ ws (tl p)" "is_ws w" using ws_split by blast
    have "json_elements (length (ws (tl p))) val (ws (tl p)) = Some r"
      using p 4(2) unfolding step_array [OF 4(1)] by simp
    from elements_sound [OF V this] obtain e where e: "ws (tl p) = e @ ch CHR '']'' # r" "jelements V e" by blast
    have we: "jelements V (w @ e)" using e(2)
    proof cases
      case (jelement w1 v w2)
      then show ?thesis using jelements.jelement [of "w @ w1" V v w2] w(2) by (simp add: is_ws_def)
    next
      case (jelement_more w1 v w2 e1)
      then show ?thesis using jelements.jelement_more [of "w @ w1" V v w2 e1] w(2) by (simp add: is_ws_def)
    qed
    have "p = (ch CHR ''['' # (w @ e) @ [ch CHR '']'']) @ r" using atE [OF 4(1)] w(1) e(1) by simp
    then show ?thesis using we unfolding jshape_def by blast
  next
    case 5
    then have "json_scalar p = Some r" using p by (simp add: value_step_def)
    from scalar_sound [OF this] show ?thesis unfolding jshape_def by blast
  qed
qed

lemma step_complete:
  assumes C: "complete V val" and S: "starts V" and req: "\<not> root \<Longrightarrow> required = 0"
    and t: "jshape V (\<lambda>ks. root_ok root allowed required ks 0) t" and r: "nodigit r"
  shows "value_step val root allowed required (t @ r) = Some r"
proof -
  consider (scalar) "jscalar t" | (array0) w where "t = ch CHR ''['' # w @ [ch CHR '']'']" "is_ws w"
    | (array) e where "t = ch CHR ''['' # e @ [ch CHR '']'']" "jelements V e"
    | (object0) w where "t = ch CHR ''{'' # w @ [ch CHR ''}'']" "is_ws w" "root_ok root allowed required [] 0"
    | (object1) w ks m where "t = ch CHR ''{'' # w @ m @ [ch CHR ''}'']" "is_ws w" "jmembers V ks m" "distinct ks"
        "length ks \<le> 24" "root_ok root allowed required ks 0"
    using t unfolding jshape_def by blast
  then show ?thesis
  proof cases
    case scalar
    obtain c cs where c: "t = c # cs" "c \<noteq> ch CHR ''[''" "c \<noteq> ch CHR ''{''" by (rule scalar_head [OF scalar])
    then have "\<not> at (ch CHR ''{'') (t @ r)" "\<not> at (ch CHR ''['') (t @ r)" by simp_all
    then show ?thesis using scalar_complete [OF scalar r] by (simp add: value_step_def)
  next
    case array0
    have a: "at (ch CHR ''['') (t @ r)" "ws (tl (t @ r)) = ch CHR '']'' # r" using array0 ws_punct(4) [OF array0(2), of r] by simp_all
    show ?thesis unfolding step_array [OF a(1)] a(2) by simp
  next
    case array
    obtain w c e' where e: "e = w @ c # e'" "is_ws w" "jelements V (c # e')" "\<not> ws_char c" "c \<noteq> ch CHR '']''"
      using elements_trim [OF S array(2)] by blast
    have a: "at (ch CHR ''['') (t @ r)" "ws (tl (t @ r)) = (c # e') @ ch CHR '']'' # r"
      using array(1) e ws_put [OF e(2,4), of "e' @ ch CHR '']'' # r"] by simp_all
    have "json_elements (length ((c # e') @ ch CHR '']'' # r)) val ((c # e') @ ch CHR '']'' # r) = Some r"
      by (rule elements_complete [OF C S e(3)]) simp
    then show ?thesis unfolding step_array [OF a(1)] a(2) using e(5) by simp
  next
    case object0
    have a: "at (ch CHR ''{'') (t @ r)" "ws (tl (t @ r)) = ch CHR ''}'' # r" using object0 ws_punct(3) [OF object0(2), of r] by simp_all
    have "required = 0" using object0(3) req by (auto simp: root_ok_Nil)
    then show ?thesis unfolding step_object [OF a(1)] a(2) by simp
  next
    case object1
    have a: "at (ch CHR ''{'') (t @ r)" "ws (tl (t @ r)) = m @ ch CHR ''}'' # r"
      using object1(1) ws_quote [OF object1(2,3), of "ch CHR ''}'' # r"] by simp_all
    have "json_members (length (m @ ch CHR ''}'' # r)) val root allowed required [] 0 (m @ ch CHR ''}'' # r) = Some r"
      by (rule members_complete [OF C object1(3)]) (use object1 in simp_all)
    moreover have "\<not> at (ch CHR ''}'') (m @ ch CHR ''}'' # r)" using jmembers_quote [OF object1(3)] by auto
    ultimately show ?thesis unfolding step_object [OF a(1)] a(2) by simp
  qed
qed

lemma value_exact:
  "sound (jvalue n) (json_value n False allowed 0) \<and> complete (jvalue n) (json_value n False allowed 0) \<and> starts (jvalue n)"
proof (induction n)
  case 0
  then show ?case by (simp add: sound_def complete_def starts_def)
next
  case (Suc n)
  let ?val = "json_value n False allowed 0"
  have K: "(\<lambda>ks. root_ok False allowed 0 ks 0) = (\<lambda>_. True)" by (simp add: root_ok_def)
  have V: "jvalue (Suc n) t = jshape (jvalue n) (\<lambda>ks. root_ok False allowed 0 ks 0) t" for t by (simp add: K)
  have "sound (jvalue (Suc n)) (json_value (Suc n) False allowed 0)" unfolding sound_def
  proof (intro allI impI)
    fix p r assume "json_value (Suc n) False allowed 0 p = Some r"
    then have "value_step ?val False allowed 0 (ws p) = Some r" by simp
    from step_sound [OF _ _ this] Suc.IH obtain t where "ws p = t @ r" "jvalue (Suc n) t" unfolding V by auto
    then show "\<exists>w t. p = w @ t @ r \<and> is_ws w \<and> jvalue (Suc n) t" using ws_split [of p] by metis
  qed
  moreover have st: "starts (jvalue (Suc n))" using shape_starts [of "jvalue n" "\<lambda>_. True"] by (simp add: starts_def)
  moreover have "complete (jvalue (Suc n)) (json_value (Suc n) False allowed 0)" unfolding complete_def
  proof (intro allI impI)
    fix w t r assume w: "is_ws w" and t: "jvalue (Suc n) t" and r: "nodigit r"
    obtain c cs where c: "t = c # cs" "\<not> ws_char c" using st t by (auto simp: starts_def)
    have "ws (w @ t @ r) = t @ r" using ws_put [OF w c(2)] c(1) by simp
    moreover have "value_step ?val False allowed 0 (t @ r) = Some r"
      by (rule step_complete [where V = "jvalue n"]) (use Suc.IH t r in \<open>simp_all add: V [symmetric]\<close>)
    ultimately show "json_value (Suc n) False allowed 0 (w @ t @ r) = Some r" by simp
  qed
  ultimately show ?case by blast
qed

section \<open>The root object\<close>

text \<open>The keys of the root are allowed, and the bits of \<open>required\<close> name allowed keys it has.\<close>

definition root_keys :: "cstr list \<Rightarrow> u32 \<Rightarrow> bytes list \<Rightarrow> bool" where
  "root_keys allowed required ks \<longleftrightarrow> set ks \<subseteq> set allowed \<and>
     (\<forall>i < 32. bit required i \<longrightarrow> i < length allowed \<and> allowed ! i \<in> set ks)"

lemma key_index_Some: "key_index key as k = Some i \<Longrightarrow> k \<le> i \<and> i < k + length as \<and> as ! (i - k) = key"
proof (induction as arbitrary: k)
  case (Cons a as)
  show ?case
  proof (cases "a = key")
    case False
    then have "Suc k \<le> i \<and> i < Suc k + length as \<and> as ! (i - Suc k) = key"
      using Cons.IH [of "Suc k"] Cons.prems by simp
    then show ?thesis by (auto simp: nth_Cons')
  qed (use Cons.prems in simp)
qed simp

lemma key_index_None: "key_index key as k = None \<longleftrightarrow> key \<notin> set as"
  by (induction as arbitrary: k) auto

lemma marks_Some:
  assumes d: "distinct allowed" and l: "length allowed \<le> 32"
  shows "(\<exists>s. marks allowed ks seen = Some s) \<longleftrightarrow> set ks \<subseteq> set allowed"
    and "marks allowed ks seen = Some s \<Longrightarrow> i < 32 \<Longrightarrow>
      bit s i \<longleftrightarrow> bit seen i \<or> (i < length allowed \<and> allowed ! i \<in> set ks)"
proof (induction ks arbitrary: seen s)
  case (Cons k ks)
  {
    case 1
    show ?case
    proof (cases "key_index k allowed 0")
      case None
      then show ?thesis using key_index_None [of k allowed 0] by (simp add: mark_seen_def)
    next
      case (Some j)
      then have "k \<in> set allowed" using key_index_None [of k allowed 0] by (metis option.distinct(1))
      then show ?thesis using Some Cons.IH(1) by (simp add: mark_seen_def)
    qed
  next
    case 2
    obtain j where j: "key_index k allowed 0 = Some j" and s: "marks allowed ks (seen OR push_bit j 1) = Some s"
      using 2(1) by (auto simp: mark_seen_def split: option.splits)
    have jk: "j < length allowed" "allowed ! j = k" using key_index_Some [OF j] by simp_all
    have "bit (seen OR push_bit j 1) i \<longleftrightarrow> bit seen i \<or> i = j"
      using 2(2) by (auto simp: bit_or_iff bit_exp_iff)
    moreover have "i = j \<longleftrightarrow> i < length allowed \<and> allowed ! i = k"
      using jk d by (auto simp: nth_eq_iff_index_eq)
    ultimately show ?case using Cons.IH(2) [OF s 2(2)] by auto
  }
qed simp_all

lemma root_ok_iff:
  assumes "distinct allowed" and "length allowed \<le> 32"
  shows "root_ok True allowed required ks 0 \<longleftrightarrow> root_keys allowed required ks"
proof -
  have mask: "s AND required = required \<longleftrightarrow> (\<forall>i < 32. bit required i \<longrightarrow> bit s i)" for s :: u32
    by (auto simp: bit_eq_iff bit_and_iff)
  show ?thesis
  proof (cases "set ks \<subseteq> set allowed")
    case True
    then obtain s where s: "marks allowed ks 0 = Some s" using marks_Some(1) [OF assms] by blast
    show ?thesis using True marks_Some(2) [OF assms s] by (auto simp: root_ok_def s mask root_keys_def)
  next
    case False
    then show ?thesis using marks_Some(1) [OF assms] by (auto simp: root_ok_def root_keys_def)
  qed
qed

text \<open>A root object: keys as above, values of at most seven more levels.\<close>

definition jobject :: "cstr list \<Rightarrow> u32 \<Rightarrow> bytes \<Rightarrow> bool" where
  "jobject allowed required t \<longleftrightarrow>
     (\<exists>w. t = ch CHR ''{'' # w @ [ch CHR ''}''] \<and> is_ws w \<and> root_keys allowed required []) \<or>
     (\<exists>w ks m. t = ch CHR ''{'' # w @ m @ [ch CHR ''}''] \<and> is_ws w \<and> jmembers (jvalue 7) ks m \<and> distinct ks \<and>
        length ks \<le> 24 \<and> root_keys allowed required ks)"

lemma jobject_shape:
  assumes "distinct allowed" and "length allowed \<le> 32"
  shows "jobject allowed required t \<longleftrightarrow>
    at (ch CHR ''{'') t \<and> jshape (jvalue 7) (\<lambda>ks. root_ok True allowed required ks 0) t"
proof -
  have s: "\<not> at (ch CHR ''{'') t" if "jscalar t" using that by (elim scalar_head) simp
  have c: "ch CHR ''['' \<noteq> ch CHR ''{''" by simp
  show ?thesis unfolding jobject_def jshape_def root_ok_iff [OF assms] using s c by auto
qed

text \<open>
  C14: The JSON validator accepts exactly the strict JSON the web interface documents. A text is
  accepted iff it is an object, with white space around it, whose members are separated by single
  commas, whose keys are plain ASCII strings without escapes, distinct in every object and at
  most 24, and whose values are strings with valid escapes, \<open>true\<close>, \<open>false\<close>, decimal integers
  without sign or leading zero, arrays or objects, nested in at most eight levels; the keys of
  the root are among the allowed ones and each required one occurs. Nothing else is accepted, in
  particular no text with anything after the object, and the loops of the validator always have
  the fuel to decide.
\<close>

theorem json_object_exact:
  assumes "distinct keys" and "length keys \<le> 32"
  shows "bvstk_http_json_object (Some s) keys required \<longleftrightarrow>
    (\<exists>w t w'. s = w @ t @ w' \<and> is_ws w \<and> is_ws w' \<and> jobject keys required t)"
proof -
  let ?val = "json_value 7 False keys 0"
  note v = value_exact [of 7 keys]
  have eight: "json_value 8 True keys required p = value_step ?val True keys required (ws p)" for p
    by (simp add: eval_nat_numeral)
  have ws2: "ws (ws s) = ws s" using ws_split [of s] ws_skip by metis
  have acc: "bvstk_http_json_object (Some s) keys required \<longleftrightarrow>
      at (ch CHR ''{'') (ws s) \<and> (\<exists>r. value_step ?val True keys required (ws s) = Some r \<and> ws r = [])"
    using assms(2) by (auto simp: bvstk_http_json_object_def Let_def eight ws2 split: option.split)
  show ?thesis
  proof
    assume "bvstk_http_json_object (Some s) keys required"
    then obtain r where r: "at (ch CHR ''{'') (ws s)" "value_step ?val True keys required (ws s) = Some r" "ws r = []"
      using acc by blast
    obtain t where t: "ws s = t @ r" "jshape (jvalue 7) (\<lambda>ks. root_ok True keys required ks 0) t"
      using step_sound [OF _ _ r(2)] v by auto
    have "t \<noteq> []" using t(2) shape_starts [of "jvalue 7"] by (auto simp: starts_def)
    then have "at (ch CHR ''{'') t" using r(1) t(1) by (cases t) simp_all
    moreover have "is_ws r" using ws_split [of r] r(3) by simp
    moreover obtain w where "s = w @ ws s" "is_ws w" using ws_split by blast
    ultimately show "\<exists>w t w'. s = w @ t @ w' \<and> is_ws w \<and> is_ws w' \<and> jobject keys required t"
      using t jobject_shape [OF assms] by metis
  next
    assume "\<exists>w t w'. s = w @ t @ w' \<and> is_ws w \<and> is_ws w' \<and> jobject keys required t"
    then obtain w t w' where s: "s = w @ t @ w'" "is_ws w" "is_ws w'" and t: "jobject keys required t" by blast
    have t': "at (ch CHR ''{'') t" "jshape (jvalue 7) (\<lambda>ks. root_ok True keys required ks 0) t"
      using t jobject_shape [OF assms] by blast+
    obtain t1 where t1: "t = ch CHR ''{'' # t1" using atE [OF t'(1)] by blast
    have "ws s = t @ w'" using ws_put [OF s(2), of "ch CHR ''{''" "t1 @ w'"] s(1) t1 by (simp add: ws_char_def)
    moreover have "nodigit w'" using s(3) by (cases w') (auto simp: nodigit_def is_ws_def ws_char_def digit_num)
    then have "value_step ?val True keys required (t @ w') = Some w'"
      using v t' by (intro step_complete) simp_all
    moreover have "at (ch CHR ''{'') (t @ w')" using t'(1) by (cases t) simp_all
    ultimately show "bvstk_http_json_object (Some s) keys required" unfolding acc using ws_all [OF s(3)] by auto
  qed
qed

theorem json_object_exact_witness:
  "distinct [ascii ''a'', ascii ''b''] \<and> length [ascii ''a'', ascii ''b''] \<le> 32 \<and>
   (\<exists>w t w'. ascii '' {'' @ [QUOTE] @ ascii ''a'' @ [QUOTE] @ ascii '': [1, true]} '' = w @ t @ w' \<and> is_ws w \<and> is_ws w' \<and>
      jobject [ascii ''a'', ascii ''b''] 1 t)"
proof -
  have h: "distinct [ascii ''a'', ascii ''b'']" "length [ascii ''a'', ascii ''b''] \<le> 32" by (simp_all add: ascii_def)
  have "bvstk_http_json_object (Some (ascii '' {'' @ [QUOTE] @ ascii ''a'' @ [QUOTE] @ ascii '': [1, true]} '')) [ascii ''a'', ascii ''b''] 1"
    by code_simp
  then show ?thesis using json_object_exact [OF h] h by blast
qed

end
