(* ===== verification/Http_Text.thy ===== *)
theory Http_Text
  imports Http_Input
begin

text \<open>
  What the number, path and query checks of \<open>Http_Input\<close> accept: the decimal numbers up to the limit
  with their value, the absolute paths whose components are plain names, and the query strings that
  encode a list of distinct keys with their values. What is accepted is stated on byte values and by
  an encoding relation, without the character tests of the program.
\<close>

section \<open>Numbers\<close>

fun decimal_value :: "nat \<Rightarrow> cstr \<Rightarrow> nat" where
  "decimal_value n [] = n"
| "decimal_value n (c # cs) = decimal_value (10 * n + (unat c - 48)) cs"

lemma decimal_value_le: "n \<le> decimal_value n s"
proof (induction s arbitrary: n)
  case (Cons c s)
  have "10 * n + (unat c - 48) \<le> decimal_value n (c # s)" using Cons by simp
  then show ?case by linarith
qed simp

lemma digit_bounds: "digit c \<longleftrightarrow> 48 \<le> unat c \<and> unat c \<le> 57"
  by (simp add: digit_def word_le_nat_alt)

lemma uint_loop_exact:
  "n \<le> limit \<Longrightarrow> uint_loop limit n s =
    (if list_all digit s \<and> decimal_value (unat n) s \<le> unat limit then Some (of_nat (decimal_value (unat n) s)) else None)"
proof (induction s arbitrary: n)
  case (Cons c s)
  show ?case
  proof (cases "digit c")
    case False
    then show ?thesis by (auto simp: digit_def)
  next
    case True
    let ?d = "ucast (c - ch CHR ''0'') :: u32"
    have b: "48 \<le> unat c" "unat c \<le> 57" using True by (simp_all add: digit_bounds)
    have d: "unat ?d = unat c - 48"
      using b unat_minus_le [of "ch CHR ''0''" c] True by (simp add: digit_def unsigned_ucast_eq take_bit_nat_eq_self)
    have nl: "unat n \<le> unat limit" using Cons.prems by (simp add: word_le_nat_alt)
    let ?m = "10 * unat n + (unat c - 48)"
    have guard: "?d > limit \<or> n > (limit - ?d) div 10 \<longleftrightarrow> ?m > unat limit"
    proof (cases "?d > limit")
      case True
      then have "unat limit < unat c - 48" using d by (simp add: word_less_nat_alt)
      then show ?thesis using True by simp
    next
      case False
      then have le: "unat c - 48 \<le> unat limit" using d by (simp add: word_less_nat_alt not_less)
      have "unat ((limit - ?d) div 10) = (unat limit - (unat c - 48)) div 10"
        using False d by (simp add: unat_div unat_minus_le not_less)
      then have "n > (limit - ?d) div 10 \<longleftrightarrow> unat n > (unat limit - (unat c - 48)) div 10"
        by (simp add: word_less_nat_alt)
      also have "\<dots> \<longleftrightarrow> ?m > unat limit" using le by (auto simp: div_less_iff_less_mult)
      finally show ?thesis using False by simp
    qed
    show ?thesis
    proof (cases "?m > unat limit")
      case True
      then have "decimal_value (unat n) (c # s) > unat limit" using decimal_value_le [of ?m s] by simp
      moreover have "uint_loop limit n (c # s) = None" using True guard by (auto simp: Let_def)
      ultimately show ?thesis by simp
    next
      case False
      have lt: "unat limit < 2 ^ 32" using unat_less_two_power [of limit] by simp
      have m: "unat (n * 10 + ?d) = ?m" using False lt d by (simp add: unat_word_ariths mult.commute)
      then have "n * 10 + ?d \<le> limit" using False by (simp add: word_le_nat_alt)
      moreover have "uint_loop limit n (c # s) = uint_loop limit (n * 10 + ?d) s"
        using False guard True by (auto simp: Let_def digit_def)
      ultimately show ?thesis using Cons.IH [of "n * 10 + ?d"] m True by simp
    qed
  qed
qed (simp add: word_le_nat_alt)

text \<open>
  C12: A number is read exactly. The text is accepted iff it is a non-empty run of decimal digits
  whose value, of any length, is at most the limit, and the value stored is that value: the check
  before each digit keeps the 32-bit arithmetic from wrapping, whatever the limit.
\<close>

theorem http_uint_exact:
  "bvstk_http_uint (Some s) limit =
    (if s \<noteq> [] \<and> list_all (\<lambda>c. 48 \<le> unat c \<and> unat c \<le> 57) s \<and> decimal_value 0 s \<le> unat limit
     then Some (of_nat (decimal_value 0 s)) else None)"
  using uint_loop_exact [of 0 limit s] unfolding digit_bounds [abs_def] by (simp add: bvstk_http_uint_def)

section \<open>Paths\<close>

text \<open>A byte a name may hold: no control byte, no DEL and none of \<open>" * / : < > ? \ |\<close>.\<close>

definition name_byte :: "u8 \<Rightarrow> bool" where
  "name_byte c \<longleftrightarrow> 0x20 \<le> unat c \<and> unat c \<notin> {0x22, 0x2A, 0x2F, 0x3A, 0x3C, 0x3E, 0x3F, 0x5C, 0x7C, 0x7F}"

definition file_name_ok :: "bytes \<Rightarrow> bool" where
  "file_name_ok n \<longleftrightarrow> n \<noteq> [] \<and> length n \<le> 63 \<and> List.last n \<noteq> 0x2E \<and> List.last n \<noteq> 0x20 \<and> list_all name_byte n"

lemma name_byte_iff: "name_byte c \<longleftrightarrow> c \<noteq> ch CHR ''/'' \<and> \<not> path_stop_char c"
  by (auto simp: name_byte_def path_stop_char_def word_unat_eq_iff word_less_nat_alt)

lemma file_name_alt:
  "file_name_ok n \<longleftrightarrow> n \<noteq> [] \<and> length n \<le> 63 \<and> List.last n \<noteq> ch CHR ''.'' \<and> List.last n \<noteq> ch CHR '' '' \<and>
    (\<forall>c \<in> set n. c \<noteq> ch CHR ''/'' \<and> \<not> path_stop_char c)"
  by (simp add: file_name_ok_def list_all_iff name_byte_iff)

definition below :: "bytes list \<Rightarrow> bytes" where
  "below ns = concat (map (Cons (ch CHR ''/'')) ns)"

lemma component_ok_iff:
  "component_ok seg \<longleftrightarrow> seg \<noteq> [] \<and> length seg \<le> 63 \<and> List.last seg \<noteq> ch CHR ''.'' \<and> List.last seg \<noteq> ch CHR '' ''"
proof -
  have "length seg = 1 \<Longrightarrow> List.last seg = seg ! 0" by (cases seg) auto
  then show ?thesis by (auto simp: component_ok_def ascii_def)
qed

lemma below_head: "below ns = [] \<or> (\<exists>x. below ns = ch CHR ''/'' # x)"
  by (cases ns) (simp_all add: below_def)

lemma split_first_slash:
  "ch CHR ''/'' \<notin> set a \<Longrightarrow> ch CHR ''/'' \<notin> set b \<Longrightarrow> a @ ch CHR ''/'' # x = b @ y \<Longrightarrow> y = [] \<or> (\<exists>z. y = ch CHR ''/'' # z) \<Longrightarrow>
   a = b \<and> y = ch CHR ''/'' # x"
proof (induction a arbitrary: b)
  case Nil
  then show ?case by (cases b) auto
next
  case (Cons c a)
  then show ?case by (cases b) auto
qed

lemma path_loop_iff:
  "\<forall>c \<in> set seg. c \<noteq> ch CHR ''/'' \<and> \<not> path_stop_char c \<Longrightarrow>
   path_loop seg cs \<longleftrightarrow> (\<exists>n ns. seg @ cs = n @ below ns \<and> list_all file_name_ok (n # ns))"
proof (induction seg cs rule: path_loop.induct)
  case (1 seg)
  have "seg @ [] = n @ below ns \<Longrightarrow> ns = [] \<and> n = seg" for n ns
    using 1 below_head [of ns] by (cases ns) (auto simp: below_def)
  moreover have "component_ok seg \<longleftrightarrow> file_name_ok seg" using 1 by (auto simp: component_ok_iff file_name_alt)
  moreover have "file_name_ok seg \<Longrightarrow> seg @ [] = seg @ below [] \<and> list_all file_name_ok [seg]" by (simp add: below_def)
  ultimately show ?case by (metis list.pred_inject(2) path_loop.simps(1))
next
  case (2 seg c cs)
  have ok: "component_ok seg \<longleftrightarrow> file_name_ok seg" using 2(3) by (auto simp: component_ok_iff file_name_alt)
  consider (slash) "c = ch CHR ''/''" | (stop) "c \<noteq> ch CHR ''/''" "path_stop_char c" | (plain) "c \<noteq> ch CHR ''/''" "\<not> path_stop_char c"
    by blast
  then show ?case
  proof cases
    case slash
    have "(\<exists>n ns. seg @ c # cs = n @ below ns \<and> list_all file_name_ok (n # ns)) \<longleftrightarrow>
        file_name_ok seg \<and> (\<exists>n ns. cs = n @ below ns \<and> list_all file_name_ok (n # ns))"
    proof
      assume "\<exists>n ns. seg @ c # cs = n @ below ns \<and> list_all file_name_ok (n # ns)"
      then obtain n ns where n: "seg @ c # cs = n @ below ns" "file_name_ok n" "list_all file_name_ok ns" by auto
      have nn: "ch CHR ''/'' \<notin> set n" "ch CHR ''/'' \<notin> set seg" using n(2) 2(3) by (auto simp: file_name_alt)
      have s: "seg = n \<and> below ns = ch CHR ''/'' # cs"
        using split_first_slash [OF nn(2,1)] n(1) below_head [of ns] slash by simp
      then obtain m ms where "ns = m # ms" by (cases ns) (auto simp: below_def)
      then show "file_name_ok seg \<and> (\<exists>n ns. cs = n @ below ns \<and> list_all file_name_ok (n # ns))"
        using s n by (auto simp: below_def intro: exI [of _ m] exI [of _ ms])
    next
      assume "file_name_ok seg \<and> (\<exists>n ns. cs = n @ below ns \<and> list_all file_name_ok (n # ns))"
      then obtain n ns where "file_name_ok seg" "cs = n @ below ns" "list_all file_name_ok (n # ns)" by blast
      then show "\<exists>n ns. seg @ c # cs = n @ below ns \<and> list_all file_name_ok (n # ns)"
        using slash by (intro exI [of _ seg] exI [of _ "n # ns"]) (simp add: below_def)
    qed
    then show ?thesis using 2(1) slash ok by auto
  next
    case stop
    have "\<not> (seg @ c # cs = n @ below ns \<and> list_all file_name_ok (n # ns))" for n ns
    proof
      assume a: "seg @ c # cs = n @ below ns \<and> list_all file_name_ok (n # ns)"
      then have "c \<in> set n \<union> set (below ns)" by (metis in_set_conv_decomp set_append)
      then have "\<exists>m \<in> set (n # ns). c \<in> set m" using stop(1) by (auto simp: below_def split: if_splits)
      then show False using a stop(2) by (auto simp: list_all_iff file_name_alt)
    qed
    then show ?thesis using stop by auto
  next
    case plain
    then show ?thesis using 2(2) 2(3) by simp
  qed
qed

text \<open>
  C15: A path that the web interface accepts cannot leave its volume or name a file twice. A text is
  accepted iff it is the root or a sequence of names, each behind a single slash and at most 120
  bytes together, where a name has 1 to 63 bytes, does not end in a dot or a space (so it is
  neither \<open>.\<close> nor \<open>..\<close>, nor one of the names FAT would shorten) and has no control character,
  slash, backslash, colon, wildcard, quote, angle bracket or bar.
\<close>

theorem http_path_exact:
  "bvstk_http_path (Some s) \<longleftrightarrow>
    s = ascii ''/'' \<or> (length s \<le> 120 \<and> (\<exists>ns. ns \<noteq> [] \<and> s = below ns \<and> list_all file_name_ok ns))"
proof (cases "\<exists>cs. s = ch CHR ''/'' # cs \<and> cs \<noteq> [] \<and> length s \<le> 120")
  case True
  then obtain cs where s: "s = ch CHR ''/'' # cs" "cs \<noteq> []" "length s \<le> 120" by blast
  have "(\<exists>ns. ns \<noteq> [] \<and> s = below ns \<and> list_all file_name_ok ns) \<longleftrightarrow>
      (\<exists>n ns. cs = n @ below ns \<and> list_all file_name_ok (n # ns))"
  proof
    assume "\<exists>ns. ns \<noteq> [] \<and> s = below ns \<and> list_all file_name_ok ns"
    then obtain n ns where "s = below (n # ns)" "list_all file_name_ok (n # ns)" by (metis list.exhaust)
    then show "\<exists>n ns. cs = n @ below ns \<and> list_all file_name_ok (n # ns)" using s(1) by (auto simp: below_def)
  next
    assume "\<exists>n ns. cs = n @ below ns \<and> list_all file_name_ok (n # ns)"
    then obtain n ns where "cs = n @ below ns" "list_all file_name_ok (n # ns)" by blast
    then show "\<exists>ns. ns \<noteq> [] \<and> s = below ns \<and> list_all file_name_ok ns"
      using s(1) by (intro exI [of _ "n # ns"]) (simp add: below_def)
  qed
  then show ?thesis using s path_loop_iff [of "[]" cs] by (simp add: bvstk_http_path_def ascii_def)
next
  case False
  have "\<not> (length s \<le> 120 \<and> (\<exists>ns. ns \<noteq> [] \<and> s = below ns \<and> list_all file_name_ok ns))"
  proof
    assume a: "length s \<le> 120 \<and> (\<exists>ns. ns \<noteq> [] \<and> s = below ns \<and> list_all file_name_ok ns)"
    then obtain n ns where n: "s = below (n # ns)" "file_name_ok n" by (metis list.exhaust list.pred_inject(2))
    then show False using a False by (auto simp: below_def file_name_alt)
  qed
  moreover have "bvstk_http_path (Some s) \<longleftrightarrow> s = ascii ''/''" using False
    by (auto simp: bvstk_http_path_def ascii_def split: list.splits)
  ultimately show ?thesis by blast
qed

section \<open>Queries\<close>

text \<open>
  The texts that stand for a string of bytes in the query of a URL: a byte may stand for itself
  unless it is one of \<open>% & + =\<close>, a space may be a plus sign, and any byte may be a percent sign and
  its two hex digits in either case. A client is free to choose for each byte.
\<close>

definition nibble :: "nat \<Rightarrow> u8 \<Rightarrow> bool" where
  "nibble n a \<longleftrightarrow> (if n < 10 then unat a = 48 + n else n < 16 \<and> (unat a = 55 + n \<or> unat a = 87 + n))"

inductive encodes :: "bytes \<Rightarrow> bytes \<Rightarrow> bool" where
  enc_nil: "encodes [] []"
| enc_plain: "unat c \<notin> {0x25, 0x26, 0x2B, 0x3D} \<Longrightarrow> encodes s e \<Longrightarrow> encodes (c # s) (c # e)"
| enc_space: "encodes s e \<Longrightarrow> encodes (0x20 # s) (0x2B # e)"
| enc_hex: "nibble h a \<Longrightarrow> nibble l b \<Longrightarrow> encodes s e \<Longrightarrow> encodes (of_nat (16 * h + l) # s) (0x25 # a # b # e)"

inductive encodes_query :: "(bytes \<times> bytes) list \<Rightarrow> bytes \<Rightarrow> bool" where
  query_one: "encodes k ek \<Longrightarrow> encodes v ev \<Longrightarrow> encodes_query [(k, v)] (ek @ 0x3D # ev)"
| query_more: "encodes k ek \<Longrightarrow> encodes v ev \<Longrightarrow> encodes_query kvs q \<Longrightarrow>
    encodes_query ((k, v) # kvs) (ek @ 0x3D # ev @ 0x26 # q)"

text \<open>A path with its parameters behind it, or alone when there are none.\<close>

definition encodes_url :: "bytes \<Rightarrow> (bytes \<times> bytes) list \<Rightarrow> bytes \<Rightarrow> bool" where
  "encodes_url path kvs u \<longleftrightarrow> kvs = [] \<and> u = path \<or> (\<exists>q. encodes_query kvs q \<and> u = path @ 0x3F # q)"

definition param_text :: "bytes \<Rightarrow> bool" where
  "param_text s \<longleftrightarrow> list_all (\<lambda>c. 32 \<le> c \<and> c \<noteq> 127) s"

lemma nibble_hex:
  assumes "nibble n a"
  shows "hex a = int n" "n < 16" "unat a \<noteq> 0x26" "unat a \<noteq> 0x3D"
proof -
  define m where "m = unat a"
  have u: "uint a = int m" by (simp add: m_def)
  show "hex a = int n" "n < 16" "unat a \<noteq> 0x26" "unat a \<noteq> 0x3D"
    using assms unfolding nibble_def hex_def digit_bounds u word_le_nat_alt m_def [symmetric] by (auto split: if_splits)
qed

lemma hex_pair_nibbles:
  assumes "nibble h a" "nibble l b"
  shows "hex_pair a b = of_nat (16 * h + l)"
proof -
  have h: "hex a = int h" "hex b = int l" and lt: "h < 16" "l < 16" using assms nibble_hex by blast+
  have l: "(of_nat l :: u8) AND mask 4 = of_nat l"
    using lt(2) by (simp add: take_bit_eq_mask [symmetric] word_unat_eq_iff unsigned_take_bit_eq unat_of_nat_small take_bit_nat_eq_self)
  have "push_bit 4 (of_nat h) AND (of_nat l :: u8) = push_bit 4 (of_nat h) AND (mask 4 AND of_nat l)"
    by (simp only: l and.commute)
  also have "\<dots> = 0" by (rule bit_word_eqI) (auto simp: bit_simps)
  finally have "push_bit 4 (of_nat h) OR (of_nat l :: u8) = push_bit 4 (of_nat h) + of_nat l"
    by (rule disjunctive_add_eq_or [symmetric])
  then show ?thesis by (simp add: hex_pair_def h push_bit_eq_mult ac_simps)
qed

lemma decode_byte:
  assumes b: "32 \<le> b" "b \<noteq> 127" and n: "n + 1 < cap"
    and p: "p = b # e \<and> unat b \<notin> {0x25, 0x26, 0x2B, 0x3D} \<or> p = 0x2B # e \<and> b = 0x20 \<or>
      (\<exists>x y h l. p = 0x25 # x # y # e \<and> nibble h x \<and> nibble l y \<and> b = of_nat (16 * h + l))"
  shows "decode_loop cap n p = map_option (Cons b) (decode_loop cap (n + 1) e)"
proof -
  have nb: "\<not> b < 32" using b(1) by (simp add: not_less)
  from p show ?thesis
  proof (elim disjE exE conjE)
    fix x y h l
    assume x: "p = 0x25 # x # y # e" "nibble h x" "nibble l y" "b = of_nat (16 * h + l)"
    have "\<not> hex x < 0" "\<not> hex y < 0" using nibble_hex(1) x(2,3) by auto
    then show ?thesis using x b n nb hex_pair_nibbles [OF x(2,3)] by (subst decode_loop.simps) simp
  qed (use b n nb in \<open>subst decode_loop.simps; auto\<close>)+
qed

lemma decode_encodes:
  "encodes s e \<Longrightarrow> param_text s \<Longrightarrow> n + length s < cap \<Longrightarrow> decode_loop cap n e = Some s"
proof (induction s e arbitrary: n rule: encodes.induct)
  case enc_nil
  then show ?case by (subst decode_loop.simps) simp
next
  case (enc_plain c s e)
  then have "decode_loop cap (n + 1) e = Some s" by (simp add: param_text_def)
  then show ?case using decode_byte [of c n cap "c # e" e] enc_plain by (simp add: param_text_def)
next
  case (enc_space s e)
  then have "decode_loop cap (n + 1) e = Some s" by (simp add: param_text_def)
  then show ?case using decode_byte [of "0x20" n cap "0x2B # e" e] enc_space by (simp add: param_text_def)
next
  case (enc_hex h a l b s e)
  then have "decode_loop cap (n + 1) e = Some s" by (simp add: param_text_def)
  then show ?case using decode_byte [of "of_nat (16 * h + l)" n cap "0x25 # a # b # e" e] enc_hex
    by (auto simp: param_text_def)
qed

lemma encodes_plain: "encodes s e \<Longrightarrow> \<forall>c \<in> set e. c \<noteq> ch CHR ''&'' \<and> c \<noteq> ch CHR ''=''"
proof (induction rule: encodes.induct)
  case (enc_hex h a l b s e)
  then show ?case using nibble_hex(3,4) [of h a] nibble_hex(3,4) [of l b] by auto
qed auto

lemma take_plain:
  "\<forall>c \<in> set a. c \<noteq> x \<Longrightarrow> takeWhile (\<lambda>c. c \<noteq> x) (a @ x # b) = a" "\<forall>c \<in> set a. c \<noteq> x \<Longrightarrow> takeWhile (\<lambda>c. c \<noteq> x) a = a"
  by (induction a) simp_all

definition params_ok :: "bytes \<Rightarrow> nat \<Rightarrow> (bytes \<times> bytes) list \<Rightarrow> bool" where
  "params_ok key cap kvs \<longleftrightarrow> distinct (map fst kvs) \<and>
     list_all (\<lambda>(k, v). param_text k \<and> length k < 40 \<and> param_text v \<and> (k = key \<longrightarrow> length v < cap)) kvs"

lemma query_step:
  assumes ok: "param_text k" "length k < 40" "param_text v" "k = key \<Longrightarrow> length v < cap \<and> found = None"
    and e: "encodes k ek" "encodes v ev" and pr: "pair = ek @ ch CHR ''='' # ev"
    and p: "p = pair \<and> rest = [] \<or> p = pair @ ch CHR ''&'' # rest"
  shows "query_loop key cap found p = query_loop key cap (if k = key then Some v else found) rest"
proof -
  have plain: "\<forall>c \<in> set pair. c \<noteq> ch CHR ''&''" using encodes_plain e by (auto simp: pr)
  have seg: "takeWhile (\<lambda>c. c \<noteq> ch CHR ''&'') p = pair" "drop (length pair + 1) p = rest" "p \<noteq> []"
    using p take_plain [OF plain] by (auto simp: pr)
  have name: "takeWhile (\<lambda>c. c \<noteq> ch CHR ''='') pair = ek"
    using encodes_plain [OF e(1)] take_plain(1) [of ek "ch CHR ''=''"] by (simp add: pr)
  have v: "drop (length ek + 1) pair = ev" "length ek \<noteq> length pair" by (simp_all add: pr)
  have d: "decode ek 40 = Some k" "k = key \<Longrightarrow> decode ev cap = Some v"
    using decode_encodes [OF e(1), of 0 40] decode_encodes [OF e(2), of 0 cap] ok by (simp_all add: decode_def)
  have "query_loop key cap found p =
      (if k \<noteq> key then query_loop key cap found rest else if found \<noteq> None then (-1, None)
       else case decode ev cap of None \<Rightarrow> (-1, None) | Some v \<Rightarrow> query_loop key cap (Some v) rest)"
    using seg(3) v(2)
    by (subst query_loop.simps) (simp only: seg(1,2) name v(1) d(1) Let_def option.case if_False simp_thms)
  then show ?thesis using d(2) ok(4) by auto
qed

lemma query_loop_pairs:
  "encodes_query kvs q \<Longrightarrow> params_ok key cap kvs \<Longrightarrow> (found \<noteq> None \<Longrightarrow> key \<notin> fst ` set kvs) \<Longrightarrow>
   query_loop key cap found q =
     (let f = (if found = None then map_of kvs key else found) in (if f = None then 0 else 1, f))"
proof (induction kvs q arbitrary: found rule: encodes_query.induct)
  case (query_one k ek v ev)
  let ?f = "if k = key then Some v else found"
  have "query_loop key cap found (ek @ 0x3D # ev) = query_loop key cap ?f []"
    by (rule query_step [OF _ _ _ _ query_one(1,2) refl]) (use query_one in \<open>auto simp: params_ok_def simp del: not_None_eq\<close>)
  also have "\<dots> = (if ?f = None then 0 else 1, ?f)" by (subst query_loop.simps) simp
  finally show ?case using query_one by (auto simp: Let_def)
next
  case (query_more k ek v ev kvs q)
  let ?f = "if k = key then Some v else found"
  have "query_loop key cap found (ek @ 0x3D # ev @ 0x26 # q) = query_loop key cap ?f q"
    by (rule query_step [OF _ _ _ _ query_more(1,2) refl]) (use query_more in \<open>auto simp: params_ok_def simp del: not_None_eq\<close>)
  also have "\<dots> = (let f = (if ?f = None then map_of kvs key else ?f) in (if f = None then 0 else 1, f))"
  proof (rule query_more.IH)
    show "params_ok key cap kvs" using query_more.prems(1) by (simp add: params_ok_def)
    have "k \<notin> fst ` set kvs" using query_more.prems(1) by (simp add: params_ok_def)
    moreover assume "?f \<noteq> None"
    moreover have "found \<noteq> None \<Longrightarrow> key \<notin> fst ` set kvs" using query_more.prems(2) by simp
    ultimately show "key \<notin> fst ` set kvs" by (cases "k = key") auto
  qed
  also have "\<dots> = (let f = (if found = None then map_of ((k, v) # kvs) key else found) in (if f = None then 0 else 1, f))"
    using query_more.prems(2) by (cases found) auto
  finally show ?case .
qed

text \<open>The encoding that \<open>URLSearchParams\<close> chooses, with which \<open>web/assets/js/api.js\<close> builds its requests: letters,
  digits and \<open>* - . _\<close> plain, a space as a plus sign, everything else in upper-case hex digits. It is
  one of the encodings.\<close>

definition hex_digit :: "nat \<Rightarrow> u8" where
  "hex_digit n = of_nat (if n < 10 then n + 48 else n + 55)"

definition form_byte :: "u8 \<Rightarrow> bytes" where
  "form_byte b = (if digit b \<or> lower_letter b \<or> upper_letter b \<or> b \<in> {0x2A, 0x2D, 0x2E, 0x5F} then [b]
     else if b = 0x20 then [0x2B]
     else [0x25, hex_digit (unat b div 16), hex_digit (unat b mod 16)])"

lemma form_encodes: "encodes s (concat (map form_byte s))"
proof (induction s)
  case (Cons b s)
  have d: "nibble n (hex_digit n)" if "n < 16" for n
  proof -
    have "unat (hex_digit n) = (if n < 10 then n + 48 else n + 55)"
      unfolding hex_digit_def by (rule unat_of_nat_small) (use that in simp)
    then show ?thesis using that by (simp add: nibble_def)
  qed
  have "unat b div 16 < 16" using unat_u8_less [of b] by (simp add: less_mult_imp_div_less del: unat_u8_less)
  then have h: "encodes (b # s) (0x25 # hex_digit (unat b div 16) # hex_digit (unat b mod 16) # concat (map form_byte s))"
    using enc_hex [OF d [of "unat b div 16"] d [of "unat b mod 16"] Cons] by simp
  have p: "unat b \<notin> {0x25, 0x26, 0x2B, 0x3D}" if "digit b \<or> lower_letter b \<or> upper_letter b \<or> b \<in> {0x2A, 0x2D, 0x2E, 0x5F}"
    using that by (auto simp: digit_def lower_letter_def upper_letter_def word_le_nat_alt)
  show ?case using h enc_plain [OF p Cons] enc_space [OF Cons] by (simp add: form_byte_def [of b])
qed (simp add: enc_nil)

text \<open>
  C16: A query is read as the client wrote it. When a client puts distinct parameters behind a path
  that has no question mark, in any of the encodings of a URL query (\<open>encodes\<close>: bytes plain, spaces as
  plus signs, bytes as two hex digits of either case), asking for a key returns 1 and the value the
  client gave it, byte for byte, or 0 and the empty string when the client gave none, whatever the
  number and the order of the parameters. Names may have up to 39 bytes, the value must leave room
  for its NUL, and neither holds a control character.
\<close>

theorem http_query_roundtrip:
  assumes "ch CHR ''?'' \<notin> set path" and "params_ok key cap kvs" and "encodes_url path kvs u" and "0 < cap"
  shows "bvstk_http_query u key cap = (case map_of kvs key of None \<Rightarrow> (0, Some []) | Some v \<Rightarrow> (1, Some v))"
proof -
  from assms(3) consider "kvs = []" "u = path" | q where "encodes_query kvs q" "u = path @ ch CHR ''?'' # q"
    by (auto simp: encodes_url_def)
  then show ?thesis
  proof cases
    case 1
    have "dropWhile (\<lambda>c. c \<noteq> ch CHR ''?'') path = []" using assms(1) by (induction path) auto
    then show ?thesis using 1 assms(4) by (simp add: bvstk_http_query_def del: dropWhile_eq_Nil_conv)
  next
    case (2 q)
    have "dropWhile (\<lambda>c. c \<noteq> ch CHR ''?'') u = ch CHR ''?'' # q" unfolding 2(2) using assms(1) by (induction path) auto
    then show ?thesis using query_loop_pairs [OF 2(1) assms(2), of None] assms(4)
      by (simp add: bvstk_http_query_def split: option.split)
  qed
qed

theorem http_query_roundtrip_witness:
  "bvstk_http_query (ascii ''/api/fs?q=1&p=a+b%26%2d.c'') (ascii ''p'') 8 = (1, Some (ascii ''a b&-.c''))"
proof -
  have h: "ch CHR ''?'' \<notin> set (ascii ''/api/fs'')" by (simp add: ascii_def)
  let ?kvs = "[(ascii ''q'', ascii ''1''), (ascii ''p'', ascii ''a b&-.c'')]"
  have p: "params_ok (ascii ''p'') 8 ?kvs" by (simp add: params_ok_def param_text_def ascii_def)
  have t: "encodes [0x2E, 0x63] [0x2E, 0x63]" by (intro enc_plain enc_nil) simp_all
  have "encodes [of_nat (16 * 2 + 6), of_nat (16 * 2 + 13), 0x2E, 0x63] [0x25, 0x32, 0x36, 0x25, 0x32, 0x64, 0x2E, 0x63]"
    by (intro enc_hex t) (simp_all add: nibble_def)
  then have "encodes [0x61, 0x20, 0x62, of_nat (16 * 2 + 6), of_nat (16 * 2 + 13), 0x2E, 0x63]
      [0x61, 0x2B, 0x62, 0x25, 0x32, 0x36, 0x25, 0x32, 0x64, 0x2E, 0x63]"
    by (intro enc_plain enc_space) simp_all
  then have "encodes (ascii ''a b&-.c'') (ascii ''a+b%26%2d.c'')" by (simp add: ascii_def)
  moreover have "encodes (ascii ''q'') (ascii ''q'')" "encodes (ascii ''1'') (ascii ''1'')" "encodes (ascii ''p'') (ascii ''p'')"
    by (simp_all add: ascii_def enc_plain enc_nil)
  ultimately have "encodes_query ?kvs (ascii ''q'' @ 0x3D # ascii ''1'' @ 0x26 # ascii ''p'' @ 0x3D # ascii ''a+b%26%2d.c'')"
    by (intro encodes_query.intros)
  then have "encodes_url (ascii ''/api/fs'') ?kvs (ascii ''/api/fs?q=1&p=a+b%26%2d.c'')"
    unfolding encodes_url_def by (intro disjI2 exI [of _ "ascii ''q=1&p=a+b%26%2d.c''"]) (simp add: ascii_def)
  then have "bvstk_http_query (ascii ''/api/fs?q=1&p=a+b%26%2d.c'') (ascii ''p'') 8 =
      (case map_of ?kvs (ascii ''p'') of None \<Rightarrow> (0, Some []) | Some v \<Rightarrow> (1, Some v))"
    using http_query_roundtrip [OF h p] by simp
  then show ?thesis by (simp add: ascii_def)
qed

end
