(* ===== verification/Spec2Isabelle.thy ===== *)
theory Spec2Isabelle
  imports Dcp2_Follow I2c_Master_Service Mdio_Policy Fs_Tar Dcp2_Fs Sd_Verify Sd_Volume Dcp2_Request
    I2c_Slave_Hw Mdio_Core Line_Refine Http_Json Http_Text
begin

text \<open>
  A verification development for the BVSTK control software, the firmware of a Zynq-7000 board
  that controls I2C, MDIO and SPI devices and an SD card through cores in programmable logic and
  serves them over the DCP2 protocol, HTTP, SSH and a console.

  \<^bold>\<open>The program and its models.\<close> Source paths are relative to the C tree (\<open>src/src\<close> of the
  repository).

  \<^item> Base. \<open>Bvstk_Prelude\<close> fixes how C is read: integers of \<open>w\<close> bits are words, a pointer the code
    tests is an option, an array with a length field is the list of the elements in use.
    \<open>Bvstk_Status\<close>: \<open>shared/base\<close>.
  \<^item> Wire format. \<open>Dcp2_Codec\<close>: \<open>protocols/dcp2/bvstk_dcp2_codec.c\<close>, the request decoder and the
    response encoder; the locale \<open>be_codec\<close> is the interface of the big-endian fields.
  \<^item> Events. \<open>Ring_Log\<close> is the ring of the last n records as a locale; \<open>Event_Journal\<close> models
    \<open>shared/events/bvstk_journal.c\<close> and interprets it.
  \<^item> Cache registry. \<open>Cache_Registry\<close>: \<open>services/cache/bvstk_cache.c\<close>, device catalogs with a
    change journal. \<open>Dcp2_Cache\<close>: \<open>protocols/dcp2/bvstk_dcp2_cache.c\<close>, the sessions that page through
    a snapshot and follow the changes; \<open>Dcp2_Follow\<close>: its client, and the turns of the subscriptions.
    \<open>Cache_Sink\<close>: \<open>shared/interfaces/bvstk_cache_sink.h\<close>, the
    observer through which the bus services feed a registry.
  \<^item> I2C. \<open>I2c_Config\<close>, \<open>I2c_Cache\<close>, \<open>I2c_Policy\<close>, \<open>I2c_Master_Service\<close>: \<open>services/i2c\<close>, the device
    table, the value cache, the write policy and the service that joins them; \<open>I2c_Slave_Service\<close>:
    the registers a host reads and writes through the board's own I2C address, over the master
    service; \<open>I2c_Slave_Hw\<close>: its core (\<open>drivers/pl/i2c/bvstk_i2c_slave.c\<close>) and the interrupt handler
    and task between them (\<open>ports/freertos-xilinx/os/i2c/bvstk_i2c_slave_freertos.c\<close>).
    \<open>Rule_List\<close> is the bounded rule list both buses' policies are instances of.
  \<^item> MDIO. \<open>Device_Profile\<close> and \<open>Mdio_Config\<close>: the validators of \<open>shared/config\<close>; \<open>Mdio_Service\<close>:
    \<open>services/mdio/bvstk_mdio_service.c\<close>, with its invariant (\<open>Mdio_Invariant\<close>), its bus traffic
    (\<open>Mdio_Traffic\<close>) and its policy (\<open>Mdio_Policy\<close>).
  \<^item> Files. \<open>Fs_Path\<close> and \<open>Fs_Reader\<close>: \<open>services/fs/bvstk_fs_reader.c\<close>; \<open>Fs_Tar\<close> and \<open>Fs_Stream\<close>: what
    its archives and streams contain; \<open>Dcp2_Fs\<close>: \<open>protocols/dcp2/bvstk_dcp2_fs.c\<close>.
  \<^item> SD card. \<open>Sd_Master\<close>: \<open>drivers/pl/sd/bvstk_sd_master.c\<close>, the register-level driver;
    \<open>Sd_Service\<close>: \<open>services/sd/bvstk_sd_service.c\<close>; \<open>Sd_Volume\<close>: \<open>services/sd/bvstk_sd_volume.c\<close>;
    \<open>Sd_Poll\<close>, \<open>Sd_Commands\<close> and \<open>Sd_Verify\<close>: their proofs.
  \<^item> Control. \<open>Mmio\<close>: the register windows of \<open>ports/neutrino-zynq7000/os/bvstk_platform_neutrino.c\<close>;
    \<open>Pl_Service\<close>: the region table of \<open>hardware/boards/ax7020\<close> and \<open>shared/pl/access/bvstk_pl_service.c\<close>;
    \<open>Mmio_Poll\<close>: the register helpers and the polling loop that the three drivers after it share;
    \<open>Spi_Core\<close>: \<open>drivers/pl/spi/bvstk_spi_core.c\<close>; \<open>I2c_Master_Hw\<close>: \<open>drivers/pl/i2c/bvstk_i2c_master.c\<close>;
    \<open>Mdio_Core\<close>: \<open>drivers/pl/mdio/bvstk_mdio_core.c\<close>; \<open>Dcp2_Control\<close>: the facade
    \<open>services/control/bvstk_control_api.c\<close> over the four services and the request handler
    \<open>protocols/dcp2/bvstk_dcp2_control.c\<close>; \<open>Dcp2_Request\<close>: what a request can do.
  \<^item> Console. \<open>Line_Editor\<close>: \<open>shared/cli/bvstk_line_editor.c\<close>, with its arrays kept as arrays;
    \<open>Line_View\<close>: the specification, a text with a cursor, and what each key does to the arrays;
    \<open>Line_Refine\<close>: the refinement.
  \<^item> Web. \<open>Http_Input\<close>: \<open>shared/protocols/http/bvstk_http_input.c\<close>; \<open>Http_Json\<close>: the grammar its JSON
    validator accepts; \<open>Http_Text\<close>: its numbers, paths and queries.

  \<^bold>\<open>State, effects and the outside.\<close> A structure of the code is a record, an operation a function
  from the record to its status and the new record. What lies outside (buses, PL cores, clocks,
  storage, locks) is a parameter, an environment record whose functions answer each call from
  the trace of everything that happened before, so it may behave in any way, and every call is
  appended to that trace. The theorems about traffic speak of these traces. In the I2C service
  the environment also says which configuration operations other tasks complete while a bus
  access waits; MDIO operations hold the service mutex and do not interleave.

  \<^bold>\<open>What is shown.\<close>
  \<^item> Codec: the decoder accepts exactly the well-formed frames and returns their fields; responses
    are encoded exactly and are never accepted as requests.
  \<^item> Journals: every retained event is delivered once and in order, a batch says what was lost, and a
    reader has caught up after at most nine batches.
  \<^item> Cache: a definition is atomic, reachable registries are well-formed, and a subscriber that
    replays the journal on its snapshot holds the registry's state or is told to start over; the
    same for a DCP2 client that subscribes, reads its pages by requests and applies its events out of
    those of the session; paging ends, a subscription with something to send is served within eight
    event calls, replies fit.
  \<^item> I2C and MDIO: no write reaches the bus unless the policy permits it, which frames and events
    each outcome produces, what the cache holds afterwards, that the guard is balanced and never held
    over a bus access, that a host's frame is forwarded up to its first failure with every byte
    accounted for and is answered only after it set a register pointer, that MDIO cache and PL mirror
    agree, that one worker step is bounded, and that the rule lists refine sets.
  \<^item> Files: paths and UTF-8 are accepted exactly when well-formed, a file is streamed exactly, TAR
    archives have correct headers and whole blocks, every backend handle is returned, and a DCP2
    download is exact, with repeated reads answered from the cache.
  \<^item> SD: a sector write is sent once and verified byte for byte, the test writes before it reads, the
    file system's claim shuts raw commands out for good, a volume stays inside its partition.
  \<^item> Control: every DCP2 request is answered by one well-formed frame; the bus services send no write
    that their policies do not permit, and register accesses stay in the declared windows. This joins the
    codec, the PL service, the two bus services and the SPI core. Two defects came out:
    \<open>spi_reply_stale\<close> (a reply with stack contents) and \<open>normalized_divider\<close> (a divider that wraps to 0).
  \<^item> Drivers: an I2C or MDIO transaction always returns with the mutex given back; a success stored
    exactly the words that encode it and returns what the core left after announcing it; a refused or
    failed write is never sent again; every failure resets the core. The task of the I2C slave
    refines a specification that knows no registers.
  \<^item> Console: whatever bytes arrive, the line editor keeps its buffers in bounds and its strings
    NUL-terminated and acts on its line, history and cut buffer as list operations on a text with a
    cursor. The prompt, the completion and the line handler are callbacks: the first two may return any text within their
    contracts, and the calls of the last are recorded.
  \<^item> Web: the JSON validator accepts exactly the texts of a grammar, a path cannot leave its volume,
    a number is never wrapped, and a query parameter is read as the client wrote it, whichever
    encoding it chose.

  \<^bold>\<open>Loops.\<close> Loops over arrays are structural recursions and the read loop of the file reader is a
  function with a termination proof. The PAX length loop takes \<open>base + 3\<close> rounds as fuel, and
  \<open>pax_length_total\<close> shows they are enough; the scan of a path component takes the length of the
  path, since each round consumes a byte. The
  loops of the JSON validator take the length of the text as fuel, and the completeness half of
  \<open>json_object_exact\<close> shows that no text of the grammar is refused for want of it. The polling loops of the SD driver are partial functions;
  \<open>sd_poll\<close> shows, once for the three of them, that they return when the clock runs (\<open>clock_ok\<close>). The
  waiting loops of the SPI, I2C and MDIO drivers are one loop with different probes, for which
  \<open>poll_run\<close> shows the same (\<open>mm_clock_ok\<close>). An I2C transaction has at most three attempts.
  The clients that the theorems run against the code (\<open>journal_drain\<close>, \<open>get_pages\<close>, \<open>client_follow\<close>)
  take the number of calls they may make as fuel and have a result of their own for running out of
  it, which the theorems exclude: 9 batches, 257 pages, and 4106 event calls, one more than the 512
  changes and one RESYNC of eight subscriptions and one expiry.

  \<^bold>\<open>Not modelled.\<close> The driver of the old SD controller in \<open>drivers/pl\<close>, on which no modelled service
  depends; the bus services take their master drivers as parameters, so
  that their theorems hold for any bus; the JSON codecs and stores of the
  configuration, which are text handling over a third-party parser; the completion tables
  and command line over the line editor; the bridges between the bus
  caches and the registry, whose two sides are modelled; the applications of FreeRTOS and Neutrino (\<open>apps\<close>), the rest of the ports (\<open>ports\<close>) and the vendored
  network stack, which are glue over operating systems and libraries outside the repository.
  Null service pointers of the state-changing bus operations are refused before anything else
  and are covered by the status functions the operations start with.
\<close>

end
